(* ===== verification/Prelude.thy ===== *)
theory Prelude
  imports Main
begin

text \<open>
  Shared vocabulary of the development: Python's \<open>bytes\<close> and \<open>str\<close> values, the
  exceptions the gateway raises, the string primitives the sources use, and the list
  lemmas the component theories share.

  \<^item> A \<open>bytes\<close> value is the list of its byte values and a \<open>str\<close> value the list of
    its code points, both as \<^typ>\<open>int list\<close> (Python yields \<open>int\<close> from both through
    indexing and \<open>ord\<close>).  \<open>bytes_ok\<close> says that every element fits a byte.
  \<^item> Case mapping and character classes are exact for code points below 256.  Text that
    arrives from the wire is decoded as Latin-1 by the sources, so it is in this range.
  \<^item> A call that may raise returns \<open>exn + 'a\<close>; a method that mutates its object and may
    raise returns the new object beside that value, because Python keeps the mutations
    made before the exception.
\<close>

unbundle bit_operations_syntax

section \<open>Values and exceptions\<close>

type_synonym bytes = "int list"
type_synonym pystr = "int list"

datatype exn =
    ValueError string
  | TypeError string
  | KeyError string
  | IndexError
  | LookupError string
  | RuntimeError string
  | UnicodeError
  | BufferReleasedError string
  | BufferClosedError string
  | BufferLimitError string
  | Http1Error int string string
  | ProxyProtocolError string string
  | DnsError string string
  | RouteConflictError pystr
  | RouteNotFound pystr
  | MethodNotAllowed "pystr list"
  | RouteBindingError string
  | HttpError int pystr
  | ChannelClosedError string
  | PipelineError string exn   \<comment> \<open>with the error it is raised from\<close>
  | TaskScopeError pystr
  | GatewayControlError string int
  | UnsupportedGatewayFeature string
  | GatewayError string
  | GatewayTransportError string
  | AttributeError string
  | TlsProviderError string

type_synonym 'a result = "exn + 'a"

definition rbind :: "'a result \<Rightarrow> ('a \<Rightarrow> 'b result) \<Rightarrow> 'b result" where
  "rbind m f = (case m of Inl e \<Rightarrow> Inl e | Inr x \<Rightarrow> f x)"

lemma rbind_simps [simp]:
  "rbind (Inl e) f = Inl e"
  "rbind (Inr x) f = f x"
  by (simp_all add: rbind_def)

lemma rbind_eq_Inr: "rbind m f = Inr y \<longleftrightarrow> (\<exists>x. m = Inr x \<and> f x = Inr y)"
  by (cases m) simp_all

lemma rbind_eq_Inl: "rbind m f = Inl e \<longleftrightarrow> m = Inl e \<or> (\<exists>x. m = Inr x \<and> f x = Inl e)"
  by (cases m) auto

lemma rbind_split:
  "P (rbind m f) \<longleftrightarrow> (\<forall>e. m = Inl e \<longrightarrow> P (Inl e)) \<and> (\<forall>x. m = Inr x \<longrightarrow> P (f x))"
  by (cases m) simp_all

text \<open>The guard \<open>if c: raise e\<close>.\<close>

definition raise_if :: "bool \<Rightarrow> exn \<Rightarrow> unit result" where
  "raise_if c e = (if c then Inl e else Inr ())"

lemma raise_if_simps [simp]:
  "raise_if True e = Inl e"
  "raise_if False e = Inr ()"
  by (simp_all add: raise_if_def)

lemma raise_if_eq [simp]:
  "raise_if c e = Inr u \<longleftrightarrow> \<not> c"
  "raise_if c e = Inl e' \<longleftrightarrow> c \<and> e' = e"
  by (auto simp: raise_if_def)

text \<open>A text literal of the source as the list of its code points.\<close>

definition cp :: "string \<Rightarrow> pystr" where
  "cp s = map of_char s"

lemma length_cp [simp]: "length (cp s) = length s"
  by (simp add: cp_def)

lemma cp_eq_iff [simp]: "cp s = cp t \<longleftrightarrow> s = t"
proof
  assume "cp s = cp t"
  moreover have "inj (of_char :: char \<Rightarrow> int)"
    by (rule injI) simp
  ultimately show "s = t"
    unfolding cp_def by (metis inj_map_eq_map)
qed simp

lemma cp_Nil [simp]: "cp s = [] \<longleftrightarrow> s = []" "[] = cp s \<longleftrightarrow> s = []"
  by (auto simp: cp_def)

definition bytes_ok :: "int list \<Rightarrow> bool" where
  "bytes_ok bs \<longleftrightarrow> (\<forall>b \<in> set bs. 0 \<le> b \<and> b < 256)"

lemma bytes_ok_simps [simp]:
  "bytes_ok []"
  "bytes_ok (x # xs) \<longleftrightarrow> 0 \<le> x \<and> x < 256 \<and> bytes_ok xs"
  "bytes_ok (xs @ ys) \<longleftrightarrow> bytes_ok xs \<and> bytes_ok ys"
  by (auto simp: bytes_ok_def)

lemma bytes_ok_take: "bytes_ok xs \<Longrightarrow> bytes_ok (take n xs)"
  by (auto simp: bytes_ok_def dest: in_set_takeD)

lemma bytes_ok_drop: "bytes_ok xs \<Longrightarrow> bytes_ok (drop n xs)"
  by (auto simp: bytes_ok_def dest: in_set_dropD)

lemma bytes_ok_nth: "bytes_ok xs \<Longrightarrow> n < length xs \<Longrightarrow> 0 \<le> xs ! n \<and> xs ! n < 256"
  by (auto simp: bytes_ok_def)

section \<open>Searching and splitting\<close>

text \<open>\<open>s.find(c)\<close> for a single element: the first index, or \<open>-1\<close>.\<close>

fun py_find :: "int \<Rightarrow> int list \<Rightarrow> int" where
  "py_find c [] = -1"
| "py_find c (x # xs) =
     (if x = c then 0 else let i = py_find c xs in if i < 0 then -1 else i + 1)"

lemma py_find_absent: "py_find c xs = -1 \<longleftrightarrow> c \<notin> set xs"
  and py_find_ge: "-1 \<le> py_find c xs"
  by (induction xs) (auto simp: Let_def)

lemma py_find_neg: "py_find c xs < 0 \<longleftrightarrow> c \<notin> set xs"
  using py_find_absent [of c xs] py_find_ge [of c xs] by linarith

lemma py_find_found:
  assumes "0 \<le> py_find c xs"
  shows "nat (py_find c xs) < length xs \<and> xs ! nat (py_find c xs) = c
    \<and> c \<notin> set (take (nat (py_find c xs)) xs)"
  using assms
proof (induction xs)
  case (Cons x xs)
  show ?case
  proof (cases "x = c")
    case False
    with Cons.prems have nn: "0 \<le> py_find c xs"
      by (auto simp: Let_def split: if_splits)
    with False have eq: "nat (py_find c (x # xs)) = Suc (nat (py_find c xs))"
      by (simp add: Let_def Suc_nat_eq_nat_zadd1)
    from Cons.IH [OF nn] False show ?thesis
      unfolding eq by simp
  qed simp
qed simp

lemma py_find_append:
  "c \<notin> set xs \<Longrightarrow> py_find c (xs @ c # ys) = int (length xs)"
  by (induction xs) (auto simp: Let_def)

text \<open>\<open>s.split(c)\<close> for a single element separator.\<close>

fun py_split :: "int \<Rightarrow> int list \<Rightarrow> int list list" where
  "py_split c [] = [[]]"
| "py_split c (x # xs) =
     (if x = c then [] # py_split c xs
      else case py_split c xs of [] \<Rightarrow> [[x]] | y # ys \<Rightarrow> (x # y) # ys)"

text \<open>\<open>c.join(parts)\<close> for a single element separator.\<close>

fun py_join :: "int \<Rightarrow> int list list \<Rightarrow> int list" where
  "py_join c [] = []"
| "py_join c [x] = x"
| "py_join c (x # y # ys) = x @ c # py_join c (y # ys)"

lemma py_split_not_Nil [simp]: "py_split c xs \<noteq> []"
  by (cases xs) (auto split: list.splits)

lemma py_join_Cons: "ys \<noteq> [] \<Longrightarrow> py_join c (x # ys) = x @ c # py_join c ys"
  by (cases ys) simp_all

lemma py_join_split [simp]: "py_join c (py_split c xs) = xs"
proof (induction xs)
  case (Cons x xs)
  obtain y ys where eq: "py_split c xs = y # ys"
    by (cases "py_split c xs") auto
  show ?case
  proof (cases "x = c")
    case True
    with Cons eq show ?thesis by (simp add: py_join_Cons)
  next
    case False
    have "py_join c ((x # y) # ys) = x # py_join c (y # ys)"
      by (cases ys) simp_all
    with False Cons eq show ?thesis by simp
  qed
qed simp

lemma py_split_no_sep: "p \<in> set (py_split c xs) \<Longrightarrow> c \<notin> set p"
  by (induction xs arbitrary: p) (auto split: list.splits if_splits)

lemma py_split_elems: "p \<in> set (py_split c xs) \<Longrightarrow> set p \<subseteq> set xs"
proof (induction xs arbitrary: p)
  case (Cons x xs)
  then show ?case
    by (cases "py_split c xs") (fastforce split: if_splits)+
qed simp

lemma py_split_absent: "c \<notin> set xs \<Longrightarrow> py_split c xs = [xs]"
  by (induction xs) auto

lemma py_split_append: "c \<notin> set xs \<Longrightarrow> py_split c (xs @ c # ys) = xs # py_split c ys"
  by (induction xs) auto

lemma py_split_join:
  assumes "parts \<noteq> []" and "\<forall>p \<in> set parts. c \<notin> set p"
  shows "py_split c (py_join c parts) = parts"
  using assms
proof (induction parts rule: py_join.induct)
  case (3 c x y ys)
  then show ?case by (simp add: py_split_append)
qed (simp_all add: py_split_absent)

text \<open>\<open>s.split(c, 1)\<close>.\<close>

fun py_split1 :: "int \<Rightarrow> int list \<Rightarrow> int list list" where
  "py_split1 c [] = [[]]"
| "py_split1 c (x # xs) =
     (if x = c then [[], xs]
      else case py_split1 c xs of [] \<Rightarrow> [[x]] | y # ys \<Rightarrow> (x # y) # ys)"

text \<open>\<open>b.split(b"\r\n")\<close>.\<close>

fun split_crlf :: "bytes \<Rightarrow> bytes list" where
  "split_crlf [] = [[]]"
| "split_crlf [x] = [[x]]"
| "split_crlf (x # y # xs) =
     (if x = 13 \<and> y = 10 then [] # split_crlf xs
      else case split_crlf (y # xs) of [] \<Rightarrow> [[x]] | l # ls \<Rightarrow> (x # l) # ls)"

lemma split_crlf_not_Nil [simp]: "split_crlf xs \<noteq> []"
  by (induction xs rule: split_crlf.induct) (auto split: list.splits)

lemma split_crlf_elems: "l \<in> set (split_crlf xs) \<Longrightarrow> set l \<subseteq> set xs"
proof (induction xs arbitrary: l rule: split_crlf.induct)
  case (3 x y xs)
  then show ?case
    by (cases "split_crlf (y # xs)") (fastforce split: if_splits)+
qed auto

section \<open>Case mapping, stripping and character classes\<close>

text \<open>\<open>str.lower\<close> and \<open>str.upper\<close> on one code point, exact below 256 but for the upper
  case of U+00B5, U+00DF and U+00FF, which leaves that range; no use of \<open>upper\<close> in the
  sources sees them (methods are RFC tokens).\<close>

definition lower_cp :: "int \<Rightarrow> int" where
  "lower_cp c =
     (if 65 \<le> c \<and> c \<le> 90 then c + 32
      else if 192 \<le> c \<and> c \<le> 222 \<and> c \<noteq> 215 then c + 32 else c)"

definition upper_cp :: "int \<Rightarrow> int" where
  "upper_cp c =
     (if 97 \<le> c \<and> c \<le> 122 then c - 32
      else if 224 \<le> c \<and> c \<le> 254 \<and> c \<noteq> 247 then c - 32 else c)"

definition py_lower :: "pystr \<Rightarrow> pystr" where
  "py_lower s = map lower_cp s"

definition py_upper :: "pystr \<Rightarrow> pystr" where
  "py_upper s = map upper_cp s"

lemma lower_cp_idem [simp]: "lower_cp (lower_cp c) = lower_cp c"
  by (auto simp: lower_cp_def)

lemma upper_cp_idem [simp]: "upper_cp (upper_cp c) = upper_cp c"
  by (auto simp: upper_cp_def)

lemma py_lower_idem [simp]: "py_lower (py_lower s) = py_lower s"
  by (simp add: py_lower_def)

lemma py_upper_idem [simp]: "py_upper (py_upper s) = py_upper s"
  by (simp add: py_upper_def)

lemma length_py_lower [simp]: "length (py_lower s) = length s"
  by (simp add: py_lower_def)

lemma py_lower_Nil [simp]: "py_lower [] = []" "py_lower s = [] \<longleftrightarrow> s = []"
  by (simp_all add: py_lower_def)

lemma py_lower_append [simp]: "py_lower (s @ t) = py_lower s @ py_lower t"
  by (simp add: py_lower_def)

definition is_space :: "int \<Rightarrow> bool" where
  "is_space c \<longleftrightarrow> 9 \<le> c \<and> c \<le> 13 \<or> 28 \<le> c \<and> c \<le> 32 \<or> c = 133 \<or> c = 160"

text \<open>\<open>s.strip(chars)\<close>, \<open>s.strip()\<close> and \<open>s.rstrip(chars)\<close>.\<close>

definition rstrip_by :: "(int \<Rightarrow> bool) \<Rightarrow> int list \<Rightarrow> int list" where
  "rstrip_by p s = rev (dropWhile p (rev s))"

definition strip_by :: "(int \<Rightarrow> bool) \<Rightarrow> int list \<Rightarrow> int list" where
  "strip_by p s = rstrip_by p (dropWhile p s)"

lemma rstrip_by_subset: "set (rstrip_by p s) \<subseteq> set s"
  by (auto simp: rstrip_by_def dest: set_dropWhileD)

lemma strip_by_subset: "set (strip_by p s) \<subseteq> set s"
  unfolding strip_by_def using rstrip_by_subset by (fastforce dest: set_dropWhileD)

lemma rstrip_by_id: "s = [] \<or> \<not> p (last s) \<Longrightarrow> rstrip_by p s = s"
  by (cases s rule: rev_cases) (auto simp: rstrip_by_def)

lemma rstrip_by_idem [simp]: "rstrip_by p (rstrip_by p s) = rstrip_by p s"
proof (cases "dropWhile p (rev s)")
  case (Cons a as)
  then have "\<not> p a" by (simp add: dropWhile_eq_Cons_conv)
  with Cons show ?thesis by (simp add: rstrip_by_def)
qed (simp add: rstrip_by_def)

abbreviation py_strip :: "pystr \<Rightarrow> pystr" where
  "py_strip \<equiv> strip_by is_space"

text \<open>\<open>name.rstrip(".").lower()\<close>, the canonical form of a DNS name.\<close>

definition canon_name :: "pystr \<Rightarrow> pystr" where
  "canon_name s = py_lower (rstrip_by (\<lambda>c. c = 46) s)"

definition is_digit :: "int \<Rightarrow> bool" where
  "is_digit c \<longleftrightarrow> 48 \<le> c \<and> c \<le> 57"

definition is_hex :: "int \<Rightarrow> bool" where
  "is_hex c \<longleftrightarrow> 48 \<le> c \<and> c \<le> 57 \<or> 65 \<le> c \<and> c \<le> 70 \<or> 97 \<le> c \<and> c \<le> 102"

section \<open>Numbers as text\<close>

text \<open>\<open>int(s)\<close> on a string of ASCII digits, \<open>str(n)\<close> and \<open>format(n, "x")\<close> for
  \<open>n \<ge> 0\<close>, and the value of a hexadecimal digit.\<close>

definition py_int_dec :: "pystr \<Rightarrow> int" where
  "py_int_dec s = foldl (\<lambda>n c. n * 10 + (c - 48)) 0 s"

definition hex_val :: "int \<Rightarrow> int" where
  "hex_val c = (if c \<le> 57 then c - 48 else if c \<le> 70 then c - 55 else c - 87)"

definition py_int_hex :: "bytes \<Rightarrow> int" where
  "py_int_hex s = foldl (\<lambda>n c. n * 16 + hex_val c) 0 s"

definition digit_cp :: "nat \<Rightarrow> int" where
  "digit_cp d = (if d < 10 then int d + 48 else int d + 87)"

fun digits_of :: "nat \<Rightarrow> nat \<Rightarrow> int list" where
  "digits_of b n =
     (if b < 2 \<or> n < b then [digit_cp n] else digits_of b (n div b) @ [digit_cp (n mod b)])"

declare digits_of.simps [simp del]

definition py_str_nat :: "nat \<Rightarrow> pystr" where
  "py_str_nat n = digits_of 10 n"

definition py_str_int :: "int \<Rightarrow> pystr" where
  "py_str_int n = (if n < 0 then 45 # py_str_nat (nat (- n)) else py_str_nat (nat n))"

definition py_hex_nat :: "nat \<Rightarrow> pystr" where
  "py_hex_nat n = digits_of 16 n"

lemma digits_of_not_Nil [simp]: "digits_of b n \<noteq> []"
  by (subst digits_of.simps) simp

lemma digits_of_set:
  assumes "2 \<le> b" and "c \<in> set (digits_of b n)"
  shows "\<exists>d < b. c = digit_cp d"
  using assms
proof (induction b n rule: digits_of.induct)
  case (1 b n)
  show ?case
  proof (cases "b < 2 \<or> n < b")
    case True
    with "1.prems"(1) have "n < b" by linarith
    with True "1.prems" show ?thesis
      by (auto simp: digits_of.simps [of b n])
  next
    case False
    then have m: "n mod b < b" by simp
    from False "1.prems" have "c = digit_cp (n mod b) \<or> c \<in> set (digits_of b (n div b))"
      by (auto simp: digits_of.simps [of b n])
    with m "1.IH" [OF False "1.prems"(1)] show ?thesis by blast
  qed
qed

lemma foldl_digits:
  assumes b: "2 \<le> b" and val: "\<And>d. d < b \<Longrightarrow> f (digit_cp d) = int d"
  shows "foldl (\<lambda>n c. n * int b + f c) 0 (digits_of b n) = int n"
  using b val
proof (induction b n rule: digits_of.induct)
  case (1 b n)
  show ?case
  proof (cases "b < 2 \<or> n < b")
    case True
    with "1.prems" show ?thesis
      by (simp add: digits_of.simps [of b n])
  next
    case False
    then have "n mod b < b" by simp
    with False "1" have "foldl (\<lambda>n c. n * int b + f c) 0 (digits_of b n)
        = int (n div b) * int b + int (n mod b)"
      by (simp add: digits_of.simps [of b n])
    also have "\<dots> = int n"
      by (metis div_mult_mod_eq of_nat_add of_nat_mult)
    finally show ?thesis .
  qed
qed

lemma py_int_dec_str [simp]: "py_int_dec (py_str_nat n) = int n"
  using foldl_digits [of 10 "\<lambda>c. c - 48" n]
  by (simp add: py_int_dec_def py_str_nat_def digit_cp_def)

lemma py_int_hex_str [simp]: "py_int_hex (py_hex_nat n) = int n"
  using foldl_digits [of 16 hex_val n]
  by (simp add: py_int_hex_def py_hex_nat_def digit_cp_def hex_val_def)

lemma py_str_nat_digits: "c \<in> set (py_str_nat n) \<Longrightarrow> is_digit c"
  using digits_of_set [of 10 c n] by (auto simp: py_str_nat_def is_digit_def digit_cp_def)

lemma py_hex_nat_hex: "c \<in> set (py_hex_nat n) \<Longrightarrow> is_hex c"
  using digits_of_set [of 16 c n] by (auto simp: py_hex_nat_def is_hex_def digit_cp_def split: if_splits)

lemma py_hex_nat_not_Nil [simp]: "py_hex_nat n \<noteq> []"
  by (simp add: py_hex_nat_def)

lemma length_digits_of: "2 \<le> b \<Longrightarrow> n < b ^ k \<Longrightarrow> 0 < k \<Longrightarrow> length (digits_of b n) \<le> k"
proof (induction k arbitrary: n)
  case (Suc k)
  show ?case
  proof (cases "n < b")
    case True
    then show ?thesis by (simp add: digits_of.simps [of b n])
  next
    case False
    with Suc.prems have k: "0 < k"
      by (cases k) simp_all
    from Suc.prems have "n div b < b ^ k"
      by (simp add: div_less_iff_less_mult mult.commute)
    with Suc.IH Suc.prems k have "length (digits_of b (n div b)) \<le> k" by simp
    with False Suc.prems show ?thesis by (simp add: digits_of.simps [of b n])
  qed
qed simp

lemma foldl_digit_nonneg:
  assumes "\<And>c. c \<in> set s \<Longrightarrow> 0 \<le> f c" and "0 \<le> a" and "0 \<le> b"
  shows "0 \<le> foldl (\<lambda>n c. n * b + f c) a (s :: int list) \<and> (0::int) \<le> b"
  using assms by (induction s arbitrary: a) auto

lemma py_int_dec_nonneg: "\<forall>c \<in> set s. is_digit c \<Longrightarrow> 0 \<le> py_int_dec s"
  using foldl_digit_nonneg [of s "\<lambda>c. c - 48" 0 10]
  by (auto simp: py_int_dec_def is_digit_def)

section \<open>Lists\<close>

lemma take_append_le [simp]: "n \<le> length xs \<Longrightarrow> take n (xs @ ys) = take n xs"
  by simp

lemma nat_min_int [simp]: "nat (min (int a) (int b)) = min a b"
  by simp

lemma drop_eq_ConsD: "drop n xs = c # cs \<Longrightarrow> n < length xs \<and> xs ! n = c"
  by (metis drop_all hd_drop_conv_nth leI list.distinct(1) list.sel(1))

section \<open>Lines and fields of a text\<close>

definition is_line_break :: "int \<Rightarrow> bool" where
  "is_line_break c \<longleftrightarrow> 10 \<le> c \<and> c \<le> 13 \<or> 28 \<le> c \<and> c \<le> 30 \<or> c = 133 \<or> c = 8232 \<or> c = 8233"

text \<open>\<open>text.splitlines()\<close> with the line being read; a carriage return and a line feed are one
  break, and no empty line follows a final break.\<close>

fun splitlines_from :: "pystr \<Rightarrow> pystr \<Rightarrow> pystr list" where
  "splitlines_from cur [] = (if cur = [] then [] else [cur])"
| "splitlines_from cur [x] = (if is_line_break x then [cur] else [cur @ [x]])"
| "splitlines_from cur (x # y # xs) =
     (if x = 13 \<and> y = 10 then cur # splitlines_from [] xs
      else if is_line_break x then cur # splitlines_from [] (y # xs)
      else splitlines_from (cur @ [x]) (y # xs))"

abbreviation py_splitlines :: "pystr \<Rightarrow> pystr list" where
  "py_splitlines \<equiv> splitlines_from []"

text \<open>\<open>text.split()\<close>.\<close>

fun fields_from :: "pystr \<Rightarrow> pystr \<Rightarrow> pystr list" where
  "fields_from cur [] = (if cur = [] then [] else [cur])"
| "fields_from cur (x # xs) =
     (if is_space x then (if cur = [] then fields_from [] xs else cur # fields_from [] xs)
      else fields_from (cur @ [x]) xs)"

abbreviation py_fields :: "pystr \<Rightarrow> pystr list" where
  "py_fields \<equiv> fields_from []"

section \<open>Dictionaries\<close>

text \<open>A Python dictionary as the association list of its items in insertion order: assignment
  replaces in place or appends.\<close>

fun dict_set :: "'k \<Rightarrow> 'v \<Rightarrow> ('k \<times> 'v) list \<Rightarrow> ('k \<times> 'v) list" where
  "dict_set k v [] = [(k, v)]"
| "dict_set k v (e # d) = (if fst e = k then (k, v) # d else e # dict_set k v d)"

definition dict_del :: "'k \<Rightarrow> ('k \<times> 'v) list \<Rightarrow> ('k \<times> 'v) list" where
  "dict_del k d = filter (\<lambda>e. fst e \<noteq> k) d"

definition dict_keys :: "('k \<times> 'v) list \<Rightarrow> 'k list" where
  "dict_keys d = map fst d"

named_theorems dict_simps

lemma map_of_dict_set [simp, dict_simps]: "map_of (dict_set k v d) = (map_of d)(k \<mapsto> v)"
  by (induction d) auto

lemma map_of_dict_del [simp, dict_simps]: "map_of (dict_del k d) = (map_of d)(k := None)"
  unfolding dict_del_def by (induction d) (auto simp: fun_eq_iff)

lemma dict_keys_set [dict_simps]:
  "dict_keys (dict_set k v d) = (if k \<in> set (dict_keys d) then dict_keys d else dict_keys d @ [k])"
  by (induction d) (auto simp: dict_keys_def)

lemma dict_keys_del [dict_simps]: "dict_keys (dict_del k d) = filter (\<lambda>x. x \<noteq> k) (dict_keys d)"
  by (simp add: dict_del_def dict_keys_def filter_map comp_def)

lemma in_dict_keys [dict_simps]: "k \<in> set (dict_keys d) \<longleftrightarrow> map_of d k \<noteq> None"
  by (simp add: dict_keys_def map_of_eq_None_iff)

lemma length_dict_keys [simp]: "length (dict_keys d) = length d"
  by (simp add: dict_keys_def)

lemma length_dict_set:
  "length (dict_set k v d) = (if map_of d k = None then Suc (length d) else length d)"
  by (induction d) auto

end
