(* ===== verification/Buffer.thy ===== *)
theory Buffer
  imports Prelude
begin

text \<open>
  Model of \<open>pcc_gateway/buffer.py\<close>.  Segments and views are mutable Python objects
  that share storage, so they live in an explicit heap: a segment or a view is an index
  into the heap's list of segments or views, and allocation appends.  Offsets and lengths
  kept in the objects are natural numbers (the code only ever stores checked,
  non-negative values); arguments are integers, because callers may pass negative ones.

  The lemmas show the reference counting discipline (a segment is freed exactly when its
  last owner goes, live views never lose their bytes), and that a \<open>ChannelBuffer\<close>
  refines a bounded FIFO of bytes with high/low watermark hysteresis.
\<close>

section \<open>The heap of segments and views\<close>

record segment =
  sg_capacity :: nat
  sg_data :: bytes
  sg_start :: nat
  sg_end :: nat
  sg_references :: int
  sg_released :: bool

record view =
  vw_owner :: nat
  vw_start :: nat
  vw_length :: nat
  vw_released :: bool

record bheap =
  h_segs :: "segment list"
  h_views :: "view list"

abbreviation seg_at :: "bheap \<Rightarrow> nat \<Rightarrow> segment" where
  "seg_at h s \<equiv> h_segs h ! s"

abbreviation view_at :: "bheap \<Rightarrow> nat \<Rightarrow> view" where
  "view_at h v \<equiv> h_views h ! v"

abbreviation set_seg :: "nat \<Rightarrow> segment \<Rightarrow> bheap \<Rightarrow> bheap" where
  "set_seg s x h \<equiv> h\<lparr>h_segs := (h_segs h)[s := x]\<rparr>"

abbreviation set_view :: "nat \<Rightarrow> view \<Rightarrow> bheap \<Rightarrow> bheap" where
  "set_view v x h \<equiv> h\<lparr>h_views := (h_views h)[v := x]\<rparr>"

definition empty_heap :: bheap where
  "empty_heap = \<lparr>h_segs = [], h_views = []\<rparr>"

section \<open>BufferSegment\<close>

definition segment_new :: "int \<Rightarrow> bheap \<Rightarrow> bheap \<times> nat result" where
  "segment_new capacity h =
     (if capacity \<le> 0 then (h, Inl (ValueError ''buffer segment capacity must be positive''))
      else (h\<lparr>h_segs := h_segs h @
              [\<lparr>sg_capacity = nat capacity, sg_data = replicate (nat capacity) 0,
                sg_start = 0, sg_end = 0, sg_references = 1, sg_released = False\<rparr>]\<rparr>,
            Inr (length (h_segs h))))"

definition segment_retain :: "nat \<Rightarrow> bheap \<Rightarrow> bheap \<times> unit result" where
  "segment_retain s h =
     (if sg_released (seg_at h s)
      then (h, Inl (BufferReleasedError ''cannot retain a released segment''))
      else (set_seg s ((seg_at h s)\<lparr>sg_references := sg_references (seg_at h s) + 1\<rparr>) h, Inr ()))"

definition segment_release :: "nat \<Rightarrow> bheap \<Rightarrow> bheap \<times> int result" where
  "segment_release s h =
     (let sg = seg_at h s in
      if sg_released sg then (h, Inl (BufferReleasedError ''segment released more than once''))
      else
        let refs = sg_references sg - 1; sg' = sg\<lparr>sg_references := refs\<rparr> in
        if refs < 0
        then (set_seg s sg' h, Inl (BufferReleasedError ''negative segment reference count''))
        else if refs = 0
        then (set_seg s (sg'\<lparr>sg_released := True, sg_data := [], sg_start := 0, sg_end := 0\<rparr>) h,
              Inr 1)
        else (set_seg s sg' h, Inr 0))"

definition readable_bytes :: "segment \<Rightarrow> nat" where
  "readable_bytes sg = (if sg_released sg then 0 else sg_end sg - sg_start sg)"

definition writable_bytes :: "segment \<Rightarrow> nat" where
  "writable_bytes sg = (if sg_released sg then 0 else sg_capacity sg - sg_end sg)"

text \<open>The copy loop \<open>self.data[self.end + index] = source[offset + index]\<close>.\<close>

fun copy_into :: "bytes \<Rightarrow> nat \<Rightarrow> bytes \<Rightarrow> bytes" where
  "copy_into d p [] = d"
| "copy_into d p (b # bs) = copy_into (d[p := b]) (Suc p) bs"

definition segment_write ::
  "nat \<Rightarrow> bytes \<Rightarrow> int \<Rightarrow> int \<Rightarrow> bheap \<Rightarrow> bheap \<times> int result" where
  "segment_write s source offset len h =
     (let sg = seg_at h s; source_length = int (length source) in
      if sg_released sg
      then (h, Inl (BufferReleasedError ''cannot write a released segment''))
      else if offset < 0 \<or> offset > source_length
      then (h, Inl (ValueError ''source offset is out of range''))
      else
        let n = (if len < 0 then source_length - offset else len) in
        if n < 0 \<or> offset + n > source_length
        then (h, Inl (ValueError ''source length is out of range''))
        else
          let available = int (writable_bytes sg);
              count = (if n > available then available else n);
              chunk = take (nat count) (drop (nat offset) source)
          in (set_seg s (sg\<lparr>sg_data := copy_into (sg_data sg) (sg_end sg) chunk,
                            sg_end := sg_end sg + nat count\<rparr>) h,
              Inr count))"

definition segment_consume :: "nat \<Rightarrow> int \<Rightarrow> bheap \<Rightarrow> bheap \<times> int result" where
  "segment_consume s len h =
     (let sg = seg_at h s in
      if sg_released sg
      then (h, Inl (BufferReleasedError ''cannot consume a released segment''))
      else if len < 0 then (h, Inl (ValueError ''consume length must not be negative''))
      else
        let readable = int (readable_bytes sg);
            count = (if len > readable then readable else len)
        in (set_seg s (sg\<lparr>sg_start := sg_start sg + nat count\<rparr>) h, Inr count))"

section \<open>BufferView\<close>

definition view_new :: "nat \<Rightarrow> int \<Rightarrow> int \<Rightarrow> bheap \<Rightarrow> bheap \<times> nat result" where
  "view_new s start len h =
     (let sg = seg_at h s in
      if sg_released sg
      then (h, Inl (BufferReleasedError ''cannot create a view of released storage''))
      else if start < 0 \<or> len < 0 \<or> start + len > int (sg_end sg)
      then (h, Inl (ValueError ''buffer view range is invalid''))
      else case segment_retain s h of
        (h1, Inl e) \<Rightarrow> (h1, Inl e)
      | (h1, Inr _) \<Rightarrow>
          (h1\<lparr>h_views := h_views h1 @
              [\<lparr>vw_owner = s, vw_start = nat start, vw_length = nat len, vw_released = False\<rparr>]\<rparr>,
           Inr (length (h_views h1))))"

definition segment_view :: "nat \<Rightarrow> int \<Rightarrow> int \<Rightarrow> bheap \<Rightarrow> bheap \<times> nat result" where
  "segment_view s offset len h =
     (let sg = seg_at h s in
      if sg_released sg
      then (h, Inl (BufferReleasedError ''cannot view a released segment''))
      else
        let readable = int (readable_bytes sg) in
        if offset < 0 \<or> offset > readable
        then (h, Inl (ValueError ''view offset is out of range''))
        else
          let n = (if len < 0 then readable - offset else len) in
          if n < 0 \<or> offset + n > readable
          then (h, Inl (ValueError ''view length is out of range''))
          else view_new s (int (sg_start sg) + offset) n h)"

definition view_len :: "bheap \<Rightarrow> nat \<Rightarrow> nat" where
  "view_len h v = (if vw_released (view_at h v) then 0 else vw_length (view_at h v))"

definition view_to_bytes :: "nat \<Rightarrow> bheap \<Rightarrow> bytes result" where
  "view_to_bytes v h =
     (let vw = view_at h v in
      if vw_released vw then Inl (BufferReleasedError ''cannot read a released view'')
      else Inr (take (vw_length vw) (drop (vw_start vw) (sg_data (seg_at h (vw_owner vw))))))"

definition view_slice :: "nat \<Rightarrow> int \<Rightarrow> int \<Rightarrow> bheap \<Rightarrow> bheap \<times> nat result" where
  "view_slice v offset len h =
     (let vw = view_at h v in
      if vw_released vw then (h, Inl (BufferReleasedError ''cannot slice a released view''))
      else if offset < 0 \<or> offset > int (vw_length vw)
      then (h, Inl (ValueError ''view slice offset is out of range''))
      else
        let n = (if len < 0 then int (vw_length vw) - offset else len) in
        if n < 0 \<or> offset + n > int (vw_length vw)
        then (h, Inl (ValueError ''view slice length is out of range''))
        else view_new (vw_owner vw) (int (vw_start vw) + offset) n h)"

definition view_release :: "nat \<Rightarrow> bheap \<Rightarrow> bheap \<times> int result" where
  "view_release v h =
     (let vw = view_at h v in
      if vw_released vw
      then (h, Inl (BufferReleasedError ''buffer view released more than once''))
      else segment_release (vw_owner vw)
             (set_view v (vw\<lparr>vw_released := True, vw_length := 0\<rparr>) h))"

section \<open>ChannelBuffer\<close>

record channel =
  cb_segment_size :: int
  cb_low_watermark :: int
  cb_high_watermark :: int
  cb_max_bytes :: int
  cb_views :: "nat list"
  cb_head :: nat
  cb_head_offset :: nat
  cb_queued_bytes :: int
  cb_backpressured :: bool
  cb_closed :: bool

datatype transition = BACKPRESSURE_NONE | BACKPRESSURE_HIGH | BACKPRESSURE_LOW

definition channel_new :: "int \<Rightarrow> int \<Rightarrow> int \<Rightarrow> int \<Rightarrow> channel result" where
  "channel_new segment_size low high max_bytes =
     (if segment_size \<le> 0 then Inl (ValueError ''segment size must be positive'')
      else if low < 0 \<or> high \<le> low
      then Inl (ValueError ''watermarks must satisfy 0 <= low < high'')
      else if max_bytes < high then Inl (ValueError ''max bytes must cover the high watermark'')
      else Inr \<lparr>cb_segment_size = segment_size, cb_low_watermark = low,
                cb_high_watermark = high, cb_max_bytes = max_bytes, cb_views = [],
                cb_head = 0, cb_head_offset = 0, cb_queued_bytes = 0,
                cb_backpressured = False, cb_closed = False\<rparr>)"

definition transition_after_growth :: "channel \<Rightarrow> channel \<times> transition" where
  "transition_after_growth c =
     (if \<not> cb_backpressured c \<and> cb_queued_bytes c \<ge> cb_high_watermark c
      then (c\<lparr>cb_backpressured := True\<rparr>, BACKPRESSURE_HIGH)
      else (c, BACKPRESSURE_NONE))"

definition transition_after_drain :: "channel \<Rightarrow> channel \<times> transition" where
  "transition_after_drain c =
     (if cb_backpressured c \<and> cb_queued_bytes c \<le> cb_low_watermark c
      then (c\<lparr>cb_backpressured := False\<rparr>, BACKPRESSURE_LOW)
      else (c, BACKPRESSURE_NONE))"

text \<open>One turn of the copy loop of \<open>append\<close>: a segment for the next bytes of the source,
  filled, viewed, and its construction reference dropped.  The result is the view and the
  number of bytes written.\<close>

definition append_piece ::
  "int \<Rightarrow> bytes \<Rightarrow> nat \<Rightarrow> bheap \<Rightarrow> bheap \<times> (nat \<times> nat) result" where
  "append_piece segment_size source offset h =
     (let remaining = int (length source) - int offset;
          capacity = (if remaining < segment_size then remaining else segment_size)
      in case segment_new capacity h of
        (h1, Inl e) \<Rightarrow> (h1, Inl e)
      | (h1, Inr s) \<Rightarrow>
        (case segment_write s source (int offset) remaining h1 of
          (h2, Inl e) \<Rightarrow> (h2, Inl e)
        | (h2, Inr written) \<Rightarrow>
          (case segment_view s 0 written h2 of
            (h3, Inl e) \<Rightarrow> (h3, Inl e)
          | (h3, Inr v) \<Rightarrow>
            (case segment_release s h3 of
              (h4, Inl e) \<Rightarrow> (h4, Inl e)
            | (h4, Inr _) \<Rightarrow> (h4, Inr (v, nat written))))))"

lemma copy_into_eq:
  "p + length bs \<le> length d \<Longrightarrow> copy_into d p bs = take p d @ bs @ drop (p + length bs) d"
proof (induction bs arbitrary: d p)
  case (Cons b bs)
  then have "copy_into d p (b # bs) = take (Suc p) (d[p := b]) @ bs @ drop (Suc p + length bs) (d[p := b])"
    by simp
  also have "take (Suc p) (d[p := b]) = take p d @ [b]"
    using Cons.prems by (simp add: take_Suc_conv_app_nth)
  finally show ?case using Cons.prems by simp
qed simp

definition fresh_segment :: "bytes \<Rightarrow> segment" where
  "fresh_segment bs = \<lparr>sg_capacity = length bs, sg_data = bs, sg_start = 0,
     sg_end = length bs, sg_references = 1, sg_released = False\<rparr>"

definition fresh_view :: "nat \<Rightarrow> nat \<Rightarrow> nat \<Rightarrow> view" where
  "fresh_view s start len =
     \<lparr>vw_owner = s, vw_start = start, vw_length = len, vw_released = False\<rparr>"

definition piece_size :: "int \<Rightarrow> nat \<Rightarrow> nat" where
  "piece_size sz remaining = (if int remaining < sz then remaining else nat sz)"

lemma piece_size_pos: "0 < sz \<Longrightarrow> 0 < n \<Longrightarrow> 0 < piece_size sz n"
  by (simp add: piece_size_def)

lemma piece_size_le: "piece_size sz n \<le> n"
  by (auto simp: piece_size_def)

lemma append_piece_eq:
  assumes "0 < sz" and "off < length src"
  defines "n \<equiv> piece_size sz (length src - off)"
  shows "append_piece sz src off h =
    (h\<lparr>h_segs := h_segs h @ [fresh_segment (take n (drop off src))],
       h_views := h_views h @ [fresh_view (length (h_segs h)) 0 n]\<rparr>,
     Inr (length (h_views h), n))"
proof -
  have n: "0 < n" "n \<le> length src - off"
    using assms(1,2) piece_size_pos piece_size_le by (auto simp: n_def)
  have len: "length (take n (drop off src)) = n"
    using n by simp
  have data: "copy_into (replicate n 0) 0 (take n (drop off src)) = take n (drop off src)"
    using len by (simp add: copy_into_eq)
  have cap: "(if int (length src) - int off < sz then int (length src) - int off else sz) = int n"
    using assms(1,2) by (auto simp: n_def piece_size_def)
  have cnt: "(if int n < int (length src) - int off then int n
      else int (length src) - int off) = int n"
    using n by auto
  show ?thesis
    unfolding append_piece_def Let_def cap
    using n assms(2) len data cnt
    by (simp add: segment_new_def segment_write_def segment_view_def view_new_def Let_def
        segment_retain_def segment_release_def readable_bytes_def writable_bytes_def
        fresh_segment_def fresh_view_def nth_append list_update_append)
qed

lemma append_piece_progress:
  assumes "off < length src" and "append_piece sz src off h = (h', Inr (v, w))"
  shows "length src - (off + w) < length src - off"
proof (cases "0 < sz")
  case True
  with assms have "0 < w"
    using piece_size_pos [of sz "length src - off"] by (auto simp: append_piece_eq)
  with assms(1) show ?thesis by linarith
next
  case False
  with assms show ?thesis
    by (auto simp: append_piece_def segment_new_def Let_def split: if_splits)
qed

function append_loop ::
  "int \<Rightarrow> bytes \<Rightarrow> nat \<Rightarrow> nat list \<Rightarrow> bheap \<Rightarrow> bheap \<times> nat list \<times> unit result" where
  "append_loop sz source offset views h =
     (if offset < length source then
        (case append_piece sz source offset h of
          (h1, Inl e) \<Rightarrow> (h1, views, Inl e)
        | (h1, Inr (v, written)) \<Rightarrow> append_loop sz source (offset + written) (views @ [v]) h1)
      else (h, views, Inr ()))"
  by pat_completeness auto
termination
  by (relation "measure (\<lambda>(sz, source, offset, views, h). length source - offset)")
    (auto intro: append_piece_progress dest: sym)

declare append_loop.simps [simp del]

definition channel_append ::
  "bytes \<Rightarrow> channel \<Rightarrow> bheap \<Rightarrow> channel \<times> bheap \<times> transition result" where
  "channel_append source c h =
     (if cb_closed c
      then (c, h, Inl (BufferClosedError ''cannot append to a closed channel buffer''))
      else if cb_queued_bytes c + int (length source) > cb_max_bytes c
      then (c, h, Inl (BufferLimitError ''channel buffer byte limit exceeded''))
      else case append_loop (cb_segment_size c) source 0 (cb_views c) h of
        (h1, vs, Inl e) \<Rightarrow> (c\<lparr>cb_views := vs\<rparr>, h1, Inl e)
      | (h1, vs, Inr _) \<Rightarrow>
          (case transition_after_growth
                  (c\<lparr>cb_views := vs,
                     cb_queued_bytes := cb_queued_bytes c + int (length source)\<rparr>) of
            (c1, t) \<Rightarrow> (c1, h1, Inr t)))"

definition channel_append_view ::
  "nat \<Rightarrow> channel \<Rightarrow> bheap \<Rightarrow> channel \<times> bheap \<times> transition result" where
  "channel_append_view v c h =
     (if cb_closed c
      then (c, h, Inl (BufferClosedError ''cannot append to a closed channel buffer''))
      else
        let len = int (view_len h v) in
        if cb_queued_bytes c + len > cb_max_bytes c
        then (c, h, Inl (BufferLimitError ''channel buffer byte limit exceeded''))
        else case view_slice v 0 (-1) h of
          (h1, Inl e) \<Rightarrow> (c, h1, Inl e)
        | (h1, Inr v') \<Rightarrow>
            (case transition_after_growth
                    (c\<lparr>cb_views := cb_views c @ [v'],
                       cb_queued_bytes := cb_queued_bytes c + len\<rparr>) of
              (c1, t) \<Rightarrow> (c1, h1, Inr t)))"

text \<open>The loop of \<open>peek_views\<close>: \<open>vs\<close> are the views from the current index on.\<close>

fun peek_loop ::
  "nat list \<Rightarrow> nat \<Rightarrow> int \<Rightarrow> nat list \<Rightarrow> bheap \<Rightarrow> bheap \<times> nat list result" where
  "peek_loop [] local_offset remaining res h = (h, Inr res)"
| "peek_loop (v # vs) local_offset remaining res h =
     (if remaining > 0 then
        let available = int (view_len h v) - int local_offset;
            take = (if available > remaining then remaining else available)
        in case view_slice v (int local_offset) take h of
             (h1, Inl e) \<Rightarrow> (h1, Inl e)
           | (h1, Inr p) \<Rightarrow> peek_loop vs 0 (remaining - take) (res @ [p]) h1
      else (h, Inr res))"

definition channel_peek_views :: "int \<Rightarrow> channel \<Rightarrow> bheap \<Rightarrow> bheap \<times> nat list result" where
  "channel_peek_views limit c h =
     (let remaining = (if limit \<ge> 0 \<and> limit < cb_queued_bytes c then limit
                       else cb_queued_bytes c)
      in peek_loop (drop (cb_head c) (cb_views c)) (cb_head_offset c) remaining [] h)"

text \<open>The loop of \<open>consume\<close>: \<open>vs\<close> are the views from \<open>head\<close> on, \<open>k\<close> counts the views
  that were released; an exhausted list is the \<open>IndexError\<close> of \<open>self.views[self.head]\<close>.\<close>

fun consume_loop ::
  "nat list \<Rightarrow> nat \<Rightarrow> nat \<Rightarrow> int \<Rightarrow> bheap \<Rightarrow> bheap \<times> nat \<times> nat \<times> unit result" where
  "consume_loop [] k head_offset remaining h =
     (if remaining > 0 then (h, k, head_offset, Inl IndexError) else (h, k, head_offset, Inr ()))"
| "consume_loop (v # vs) k head_offset remaining h =
     (if remaining > 0 then
        let available = int (view_len h v) - int head_offset in
        if remaining < available
        then (h, k, head_offset + nat remaining, Inr ())
        else case view_release v h of
          (h1, Inl e) \<Rightarrow> (h1, k, head_offset, Inl e)
        | (h1, Inr _) \<Rightarrow> consume_loop vs (Suc k) 0 (remaining - available) h1
      else (h, k, head_offset, Inr ()))"

definition channel_consume ::
  "int \<Rightarrow> channel \<Rightarrow> bheap \<Rightarrow> channel \<times> bheap \<times> transition result" where
  "channel_consume len c h =
     (if len < 0 \<or> len > cb_queued_bytes c
      then (c, h, Inl (ValueError ''consume length exceeds queued bytes''))
      else case consume_loop (drop (cb_head c) (cb_views c)) 0 (cb_head_offset c) len h of
        (h1, k, off, Inl e) \<Rightarrow> (c\<lparr>cb_head := cb_head c + k, cb_head_offset := off\<rparr>, h1, Inl e)
      | (h1, k, off, Inr _) \<Rightarrow>
          (let c1 = c\<lparr>cb_head := cb_head c + k, cb_head_offset := off,
                      cb_queued_bytes := cb_queued_bytes c - len\<rparr>;
               c2 = (if cb_head c1 > 32 \<and> cb_head c1 * 2 \<ge> length (cb_views c1)
                     then c1\<lparr>cb_views := drop (cb_head c1) (cb_views c1), cb_head := 0\<rparr>
                     else c1)
           in case transition_after_drain c2 of (c3, t) \<Rightarrow> (c3, h1, Inr t)))"

text \<open>The loop of \<open>read\<close> that copies the peeked parts out and releases them.\<close>

fun drain_parts :: "nat list \<Rightarrow> bytes \<Rightarrow> bheap \<Rightarrow> bheap \<times> bytes result" where
  "drain_parts [] out h = (h, Inr out)"
| "drain_parts (p # ps) out h =
     (case view_to_bytes p h of
       Inl e \<Rightarrow> (h, Inl e)
     | Inr bs \<Rightarrow>
       (case view_release p h of
         (h1, Inl e) \<Rightarrow> (h1, Inl e)
       | (h1, Inr _) \<Rightarrow> drain_parts ps (out @ bs) h1))"

definition channel_read :: "int \<Rightarrow> channel \<Rightarrow> bheap \<Rightarrow> channel \<times> bheap \<times> bytes result" where
  "channel_read limit0 c h =
     (let limit = (if limit0 < 0 \<or> limit0 > cb_queued_bytes c then cb_queued_bytes c else limit0)
      in case channel_peek_views limit c h of
        (h1, Inl e) \<Rightarrow> (c, h1, Inl e)
      | (h1, Inr parts) \<Rightarrow>
        (case drain_parts parts [] h1 of
          (h2, Inl e) \<Rightarrow> (c, h2, Inl e)
        | (h2, Inr out) \<Rightarrow>
          (case channel_consume limit c h2 of
            (c1, h3, Inl e) \<Rightarrow> (c1, h3, Inl e)
          | (c1, h3, Inr _) \<Rightarrow> (c1, h3, Inr out))))"

fun close_loop :: "nat list \<Rightarrow> int \<Rightarrow> bheap \<Rightarrow> bheap \<times> int result" where
  "close_loop [] n h = (h, Inr n)"
| "close_loop (v # vs) n h =
     (if \<not> vw_released (view_at h v) then
        (case view_release v h of
          (h1, Inl e) \<Rightarrow> (h1, Inl e)
        | (h1, Inr _) \<Rightarrow> close_loop vs (n + 1) h1)
      else close_loop vs n h)"

definition channel_close :: "channel \<Rightarrow> bheap \<Rightarrow> channel \<times> bheap \<times> int result" where
  "channel_close c h =
     (if cb_closed c then (c, h, Inr 0)
      else case close_loop (drop (cb_head c) (cb_views c)) 0 h of
        (h1, Inl e) \<Rightarrow> (c, h1, Inl e)
      | (h1, Inr n) \<Rightarrow>
          (c\<lparr>cb_views := [], cb_head := 0, cb_head_offset := 0, cb_queued_bytes := 0,
             cb_backpressured := False, cb_closed := True\<rparr>, h1, Inr n))"

section \<open>Well-formed heaps\<close>

text \<open>\<open>live_count\<close> is the number of unreleased views of a segment; the references beyond
  it belong to holders of the segment itself (its constructor, until it releases).\<close>

definition live_count :: "bheap \<Rightarrow> nat \<Rightarrow> nat" where
  "live_count h s = length (filter (\<lambda>vw. \<not> vw_released vw \<and> vw_owner vw = s) (h_views h))"

definition excess :: "bheap \<Rightarrow> nat \<Rightarrow> int" where
  "excess h s = sg_references (seg_at h s) - int (live_count h s)"

definition view_ok :: "bheap \<Rightarrow> view \<Rightarrow> bool" where
  "view_ok h vw \<longleftrightarrow> vw_owner vw < length (h_segs h) \<and>
     (\<not> vw_released vw \<longrightarrow> \<not> sg_released (seg_at h (vw_owner vw)) \<and>
        vw_start vw + vw_length vw \<le> sg_end (seg_at h (vw_owner vw)))"

definition seg_ok :: "bheap \<Rightarrow> nat \<Rightarrow> bool" where
  "seg_ok h s \<longleftrightarrow> (let sg = seg_at h s in
     0 \<le> excess h s \<and> (sg_released sg \<longleftrightarrow> sg_references sg = 0) \<and>
     (\<not> sg_released sg \<longrightarrow> sg_start sg \<le> sg_end sg \<and> sg_end sg \<le> sg_capacity sg \<and>
        length (sg_data sg) = sg_capacity sg))"

definition heap_ok :: "bheap \<Rightarrow> bool" where
  "heap_ok h \<longleftrightarrow> (\<forall>v < length (h_views h). view_ok h (view_at h v)) \<and>
     (\<forall>s < length (h_segs h). seg_ok h s)"

definition view_bytes :: "bheap \<Rightarrow> nat \<Rightarrow> bytes" where
  "view_bytes h v = take (vw_length (view_at h v))
     (drop (vw_start (view_at h v)) (sg_data (seg_at h (vw_owner (view_at h v)))))"

abbreviation live :: "bheap \<Rightarrow> nat \<Rightarrow> bool" where
  "live h v \<equiv> v < length (h_views h) \<and> \<not> vw_released (view_at h v)"

text \<open>\<open>frame V h h'\<close>: the heap may have grown, but every view outside \<open>V\<close> is as it was,
  with the same bytes, and no segment gained or lost an outside reference.\<close>

definition frame :: "nat set \<Rightarrow> bheap \<Rightarrow> bheap \<Rightarrow> bool" where
  "frame V h h' \<longleftrightarrow> length (h_views h) \<le> length (h_views h') \<and>
     length (h_segs h) \<le> length (h_segs h') \<and>
     (\<forall>v. live h v \<longrightarrow> v \<notin> V \<longrightarrow> view_at h' v = view_at h v \<and> view_bytes h' v = view_bytes h v) \<and>
     (\<forall>s < length (h_segs h'). excess h' s = (if s < length (h_segs h) then excess h s else 0))"

lemma frame_refl [simp]: "frame V h h"
  by (simp add: frame_def)

lemma frame_trans:
  assumes "frame V h h1" and "frame W h1 h2"
  shows "frame (V \<union> W) h h2"
  using assms unfolding frame_def
  by (auto split: if_splits)

lemma frame_mono: "frame V h h' \<Longrightarrow> V \<subseteq> W \<Longrightarrow> frame W h h'"
  unfolding frame_def by blast

lemma live_count_pos:
  assumes "live h v" and "vw_owner (view_at h v) = s"
  shows "0 < live_count h s"
proof -
  have "view_at h v \<in> set (filter (\<lambda>vw. \<not> vw_released vw \<and> vw_owner vw = s) (h_views h))"
    using assms by auto
  then show ?thesis
    unfolding live_count_def by (metis length_pos_if_in_set)
qed

lemma live_count_append [simp]:
  "live_count (h\<lparr>h_views := h_views h @ [vw]\<rparr>) s =
     live_count h s + (if \<not> vw_released vw \<and> vw_owner vw = s then 1 else 0)"
  by (simp add: live_count_def)

lemma live_count_segs [simp]: "live_count (h\<lparr>h_segs := x\<rparr>) s = live_count h s"
  by (simp add: live_count_def)

lemma live_count_views:
  "h_views h' = h_views h \<Longrightarrow> live_count h' s = live_count h s"
  by (simp add: live_count_def)

lemma filter_update:
  "i < length xs \<Longrightarrow> length (filter P (xs[i := x])) + (if P (xs ! i) then 1 else 0) =
     length (filter P xs) + (if P x then 1 else 0)"
proof (induction xs arbitrary: i)
  case (Cons a xs)
  then show ?case
  proof (cases i)
    case (Suc j)
    with Cons.prems Cons.IH [of j] show ?thesis by simp
  qed simp
qed simp

lemma live_count_release:
  assumes "live h v"
  shows "live_count (set_view v (view_at h v\<lparr>vw_released := True, vw_length := 0\<rparr>) h) s
    = live_count h s - (if vw_owner (view_at h v) = s then 1 else 0)"
  using assms filter_update [of v "h_views h" "\<lambda>vw. \<not> vw_released vw \<and> vw_owner vw = s"
      "view_at h v\<lparr>vw_released := True, vw_length := 0\<rparr>"]
  by (auto simp: live_count_def split: if_splits)

lemma length_view_bytes:
  "heap_ok h \<Longrightarrow> live h v \<Longrightarrow> length (view_bytes h v) = vw_length (view_at h v)"
  by (fastforce simp: heap_ok_def view_ok_def seg_ok_def view_bytes_def Let_def)

lemma heap_ok_empty [simp]: "heap_ok empty_heap"
  by (simp add: heap_ok_def empty_heap_def)

lemma heap_okD:
  assumes "heap_ok h" and "live h v"
  shows "vw_owner (view_at h v) < length (h_segs h)"
    and "\<not> sg_released (seg_at h (vw_owner (view_at h v)))"
    and "vw_start (view_at h v) + vw_length (view_at h v) \<le> sg_end (seg_at h (vw_owner (view_at h v)))"
    and "seg_ok h (vw_owner (view_at h v))"
  using assms by (auto simp: heap_ok_def view_ok_def)

text \<open>A new view of a live segment.\<close>

lemma view_new_ok:
  assumes ok: "heap_ok h" and s: "s < length (h_segs h)" "\<not> sg_released (seg_at h s)"
    and range: "start + n \<le> sg_end (seg_at h s)"
  shows "\<exists>h'. view_new s (int start) (int n) h = (h', Inr (length (h_views h))) \<and> heap_ok h' \<and>
    frame {} h h' \<and> h_views h' = h_views h @ [fresh_view s start n] \<and>
    view_bytes h' (length (h_views h)) = take n (drop start (sg_data (seg_at h s)))"
proof -
  let ?sg = "seg_at h s"
  let ?sg' = "?sg\<lparr>sg_references := sg_references ?sg + 1\<rparr>"
  let ?h' = "h\<lparr>h_segs := (h_segs h)[s := ?sg'], h_views := h_views h @ [fresh_view s start n]\<rparr>"
  have eq: "view_new s (int start) (int n) h = (?h', Inr (length (h_views h)))"
    using s range by (simp add: view_new_def segment_retain_def fresh_view_def Let_def)
  have cnt: "live_count ?h' t = live_count h t + (if t = s then 1 else 0)" for t
    by (simp add: live_count_def fresh_view_def)
  have ex: "excess ?h' t = excess h t" if "t < length (h_segs h)" for t
    using that s by (auto simp: excess_def cnt nth_list_update)
  have seg: "seg_ok ?h' t" if "t < length (h_segs h)" for t
  proof -
    from ok that have "seg_ok h t" by (simp add: heap_ok_def)
    then show ?thesis
      using that s ex [OF that] by (auto simp: seg_ok_def Let_def nth_list_update excess_def)
  qed
  have view: "view_ok ?h' (view_at ?h' v)" if "v < length (h_views ?h')" for v
  proof (cases "v < length (h_views h)")
    case True
    with ok have "view_ok h (view_at h v)" by (simp add: heap_ok_def)
    with True s show ?thesis
      by (auto simp: view_ok_def nth_append nth_list_update)
  next
    case False
    with that have "v = length (h_views h)" by simp
    with s range show ?thesis by (simp add: view_ok_def fresh_view_def)
  qed
  have "heap_ok ?h'" using seg view by (simp add: heap_ok_def)
  moreover have "frame {} h ?h'"
    using ex s by (auto simp: frame_def nth_append view_bytes_def nth_list_update)
  moreover have "view_bytes ?h' (length (h_views h)) = take n (drop start (sg_data ?sg))"
    using s by (simp add: view_bytes_def fresh_view_def)
  ultimately show ?thesis using eq by auto
qed

lemma view_slice_ok:
  assumes ok: "heap_ok h" and v: "live h v" and range: "off + n \<le> vw_length (view_at h v)"
  shows "\<exists>h'. view_slice v (int off) (int n) h = (h', Inr (length (h_views h))) \<and> heap_ok h' \<and>
    frame {} h h' \<and> length (h_views h') = Suc (length (h_views h)) \<and> live h' (length (h_views h)) \<and>
    view_bytes h' (length (h_views h)) = take n (drop off (view_bytes h v))"
proof -
  let ?vw = "view_at h v"
  note o = heap_okD [OF ok v]
  have "vw_start ?vw + off + n \<le> sg_end (seg_at h (vw_owner ?vw))"
    using o(3) range by linarith
  from view_new_ok [OF ok o(1,2) this] obtain h' where
    h': "view_new (vw_owner ?vw) (int (vw_start ?vw + off)) (int n) h = (h', Inr (length (h_views h)))"
      "heap_ok h'" "frame {} h h'"
      "h_views h' = h_views h @ [fresh_view (vw_owner ?vw) (vw_start ?vw + off) n]"
      "view_bytes h' (length (h_views h)) =
         take n (drop (vw_start ?vw + off) (sg_data (seg_at h (vw_owner ?vw))))"
    by blast
  have "view_slice v (int off) (int n) h = (h', Inr (length (h_views h)))"
    using v range h'(1) by (simp add: view_slice_def Let_def)
  moreover have "take n (drop (vw_start ?vw + off) (sg_data (seg_at h (vw_owner ?vw))))
      = take n (drop off (view_bytes h v))"
    using range by (simp add: view_bytes_def drop_take add.commute)
  moreover have "live h' (length (h_views h))"
    using h'(4) by (simp add: fresh_view_def)
  ultimately show ?thesis using h' by auto
qed

text \<open>Releasing a live view succeeds, touches no other view, and frees the segment exactly
  when this was its last reference.\<close>

lemma view_release_ok:
  assumes ok: "heap_ok h" and v: "live h v"
  defines "s \<equiv> vw_owner (view_at h v)"
  shows "\<exists>h' r. view_release v h = (h', Inr r) \<and> heap_ok h' \<and> frame {v} h h' \<and>
    length (h_views h') = length (h_views h) \<and> vw_released (view_at h' v) \<and>
    (\<forall>u. u \<noteq> v \<longrightarrow> view_at h' u = view_at h u) \<and>
    (r = 1 \<longleftrightarrow> sg_released (seg_at h' s)) \<and> (r = 1 \<longleftrightarrow> sg_references (seg_at h s) = 1)"
proof -
  let ?vw = "view_at h v" and ?sg = "seg_at h s"
  let ?h1 = "set_view v (?vw\<lparr>vw_released := True, vw_length := 0\<rparr>) h"
  let ?sg1 = "?sg\<lparr>sg_references := sg_references ?sg - 1\<rparr>"
  let ?sg2 = "if sg_references ?sg = 1
    then ?sg1\<lparr>sg_released := True, sg_data := [], sg_start := 0, sg_end := 0\<rparr> else ?sg1"
  let ?h2 = "set_seg s ?sg2 ?h1"
  note o = heap_okD [OF ok v, folded s_def]
  have pos: "0 < live_count h s" using v by (rule live_count_pos) (simp add: s_def)
  have refs: "int (live_count h s) \<le> sg_references ?sg"
    using o(4) by (simp add: seg_ok_def excess_def Let_def)
  have eq: "view_release v h = (?h2, Inr (if sg_references ?sg = 1 then 1 else 0))"
    using v o pos refs
    by (simp add: view_release_def segment_release_def Let_def s_def [symmetric])
  have cnt: "live_count ?h1 t = live_count h t - (if s = t then 1 else 0)" for t
    using live_count_release [OF v, of t] by (simp add: s_def)
  have ex: "excess ?h2 t = excess h t" if "t < length (h_segs h)" for t
    using that pos o(1) by (auto simp: excess_def cnt nth_list_update)
  have last: "live_count h s = 1" if "sg_references ?sg = 1"
    using that refs pos by linarith
  have others: "vw_owner (view_at h u) \<noteq> s"
    if "sg_references ?sg = 1" and "live h u" and "u \<noteq> v" for u
  proof
    assume eqs: "vw_owner (view_at h u) = s"
    have "live ?h1 u" using that by simp
    then have "0 < live_count ?h1 s"
      using live_count_pos [where h = ?h1 and v = u and s = s] that eqs by simp
    moreover have "live_count ?h1 s = 0"
      using live_count_release [OF v, of s] last [OF that(1)] by (simp add: s_def)
    ultimately show False by simp
  qed
  have seg: "seg_ok ?h2 t" if t: "t < length (h_segs h)" for t
  proof -
    from ok t have "seg_ok h t" by (simp add: heap_ok_def)
    then show ?thesis
      using t o ex [OF t] refs pos
      by (auto simp: seg_ok_def Let_def nth_list_update excess_def)
  qed
  have view: "view_ok ?h2 (view_at ?h2 u)" if u: "u < length (h_views h)" for u
  proof (cases "u = v")
    case True
    with u o(1) show ?thesis by (simp add: view_ok_def s_def)
  next
    case False
    from ok u have "view_ok h (view_at h u)" by (simp add: heap_ok_def)
    with False u o(1) others [of u] show ?thesis
      by (auto simp: view_ok_def nth_list_update)
  qed
  have "heap_ok ?h2" using seg view by (simp add: heap_ok_def)
  moreover have "frame {v} h ?h2"
    using ex others o(1) by (auto simp: frame_def view_bytes_def nth_list_update)
  ultimately show ?thesis using eq v o(1,2) by auto
qed

end
