(* ===== verification/Channel_Fifo.thy ===== *)
theory Channel_Fifo
  imports Buffer
begin

text \<open>
  \<open>ChannelBuffer\<close> as a bounded FIFO of bytes.  \<open>chan_ok\<close> is the representation
  invariant over the heap, \<open>content\<close> the bytes a channel still has to deliver.  The
  lemmas give each operation's effect on \<open>content\<close>, on the byte counter and on the
  backpressure flag, on every branch; the \<open>byte_fifo\<close> locale is the interface a client
  relies on, and it is interpreted on the channel operations.
\<close>

section \<open>Lists of live views\<close>

definition live_list :: "bheap \<Rightarrow> nat list \<Rightarrow> bool" where
  "live_list h vs \<longleftrightarrow> distinct vs \<and> (\<forall>v \<in> set vs. live h v)"

definition bytes_of :: "bheap \<Rightarrow> nat list \<Rightarrow> bytes" where
  "bytes_of h vs = concat (map (view_bytes h) vs)"

lemma live_list_simps [simp]:
  "live_list h []"
  "live_list h (v # vs) \<longleftrightarrow> live h v \<and> v \<notin> set vs \<and> live_list h vs"
  by (auto simp: live_list_def)

lemma live_list_append:
  "live_list h (vs @ ws) \<longleftrightarrow> live_list h vs \<and> live_list h ws \<and> set vs \<inter> set ws = {}"
  by (auto simp: live_list_def)

lemma live_list_drop: "live_list h vs \<Longrightarrow> live_list h (drop k vs)"
  by (auto simp: live_list_def dest: in_set_dropD)

lemma bytes_of_simps [simp]:
  "bytes_of h [] = []"
  "bytes_of h (v # vs) = view_bytes h v @ bytes_of h vs"
  "bytes_of h (vs @ ws) = bytes_of h vs @ bytes_of h ws"
  by (simp_all add: bytes_of_def)

lemma frame_view:
  "frame V h h' \<Longrightarrow> live h v \<Longrightarrow> v \<notin> V \<Longrightarrow> live h' v \<and> view_at h' v = view_at h v \<and>
     view_bytes h' v = view_bytes h v"
  by (auto simp: frame_def)

lemma frame_list:
  assumes "frame V h h'" and "live_list h vs" and "set vs \<inter> V = {}"
  shows "live_list h' vs" and "bytes_of h' vs = bytes_of h vs"
proof -
  have *: "live h' v \<and> view_bytes h' v = view_bytes h v" if "v \<in> set vs" for v
    using frame_view [OF assms(1)] assms(2,3) that by (auto simp: live_list_def)
  then show "live_list h' vs"
    using assms(2) by (simp add: live_list_def)
  show "bytes_of h' vs = bytes_of h vs"
    unfolding bytes_of_def using * by (auto intro: arg_cong [of _ _ concat])
qed

lemma live_view_len: "heap_ok h \<Longrightarrow> live h v \<Longrightarrow> view_len h v = length (view_bytes h v)"
  by (simp add: view_len_def length_view_bytes)

lemma fresh_segment_refs [simp]: "sg_references (fresh_segment bs) = 1"
  by (simp add: fresh_segment_def)

section \<open>The loops\<close>

definition head_len :: "bheap \<Rightarrow> nat list \<Rightarrow> nat" where
  "head_len h vs = (case vs of [] \<Rightarrow> 0 | v # _ \<Rightarrow> view_len h v)"

lemma append_piece_ok:
  assumes ok: "heap_ok h" and "0 < sz" and "off < length src"
  defines "n \<equiv> piece_size sz (length src - off)"
  shows "\<exists>h'. append_piece sz src off h = (h', Inr (length (h_views h), n)) \<and> heap_ok h' \<and>
    frame {} h h' \<and> live h' (length (h_views h)) \<and>
    view_bytes h' (length (h_views h)) = take n (drop off src) \<and>
    length (h_views h') = Suc (length (h_views h))"
proof -
  let ?d = "take n (drop off src)" and ?s = "length (h_segs h)"
  let ?h' = "h\<lparr>h_segs := h_segs h @ [fresh_segment ?d],
               h_views := h_views h @ [fresh_view ?s 0 n]\<rparr>"
  have n: "n \<le> length src - off" by (simp add: n_def piece_size_le)
  have own: "vw_owner (view_at h v) < ?s" if "v < length (h_views h)" for v
    using ok that by (simp add: heap_ok_def view_ok_def)
  have none: "live_count h ?s = 0"
  proof -
    have "filter (\<lambda>vw. \<not> vw_released vw \<and> vw_owner vw = ?s) (h_views h) = []"
      using own by (fastforce simp: filter_empty_conv in_set_conv_nth)
    then show ?thesis by (simp add: live_count_def)
  qed
  have cnt: "live_count ?h' t = live_count h t + (if t = ?s then 1 else 0)" for t
    by (simp add: live_count_def fresh_view_def fresh_segment_def)
  have ex: "excess ?h' t = (if t < ?s then excess h t else 0)" if "t < Suc ?s" for t
    using that none cnt [of t] by (auto simp: excess_def nth_append less_Suc_eq fresh_segment_refs)
  have "seg_ok ?h' t" if "t < Suc ?s" for t
  proof (cases "t = ?s")
    case True
    with ex [OF that] show ?thesis by (simp add: seg_ok_def fresh_segment_def)
  next
    case False
    with that have t: "t < ?s" by simp
    with ok have "seg_ok h t" by (simp add: heap_ok_def)
    with ex [OF that] t show ?thesis by (simp add: seg_ok_def nth_append Let_def)
  qed
  moreover have "view_ok ?h' (view_at ?h' v)" if "v < Suc (length (h_views h))" for v
  proof (cases "v = length (h_views h)")
    case True
    with n show ?thesis by (simp add: view_ok_def fresh_view_def fresh_segment_def)
  next
    case False
    with that have v: "v < length (h_views h)" by simp
    with ok have "view_ok h (view_at h v)" by (simp add: heap_ok_def)
    with v own [OF v] show ?thesis by (simp add: view_ok_def nth_append)
  qed
  ultimately have "heap_ok ?h'" by (simp add: heap_ok_def)
  moreover have "frame {} h ?h'"
    using own ex by (auto simp: frame_def nth_append view_bytes_def)
  moreover have "view_bytes ?h' (length (h_views h)) = ?d"
    using n by (simp add: view_bytes_def fresh_view_def fresh_segment_def)
  moreover have "live ?h' (length (h_views h))"
    by (simp add: fresh_view_def)
  ultimately show ?thesis
    using append_piece_eq [OF assms(2,3), of h] by (auto simp: n_def)
qed

lemma append_loop_ok:
  assumes "heap_ok h" and "0 < sz" and "off \<le> length src"
  shows "\<exists>h' new. append_loop sz src off vs h = (h', vs @ new, Inr ()) \<and> heap_ok h' \<and>
    frame {} h h' \<and> live_list h' new \<and> bytes_of h' new = drop off src \<and>
    (\<forall>v \<in> set new. length (h_views h) \<le> v)"
  using assms
proof (induction sz src off vs h rule: append_loop.induct)
  case (1 sz src off vs h)
  show ?case
  proof (cases "off < length src")
    case False
    with "1.prems" show ?thesis
      by (intro exI [of _ h] exI [of _ "[]"]) (simp add: append_loop.simps)
  next
    case True
    let ?n = "piece_size sz (length src - off)" and ?v = "length (h_views h)"
    from append_piece_ok [OF "1.prems"(1,2) True] obtain h1 where
      h1: "append_piece sz src off h = (h1, Inr (?v, ?n))" "heap_ok h1" "frame {} h h1"
        "live h1 ?v" "view_bytes h1 ?v = take ?n (drop off src)"
        "length (h_views h1) = Suc ?v" by blast
    have le: "off + ?n \<le> length src"
      using True piece_size_le [of sz "length src - off"] by linarith
    from "1.IH" [OF True h1(1) [symmetric] refl refl h1(2) "1.prems"(2) le] obtain h' new where
      h': "append_loop sz src (off + ?n) (vs @ [?v]) h1 = (h', (vs @ [?v]) @ new, Inr ())"
        "heap_ok h'" "frame {} h1 h'" "live_list h' new" "bytes_of h' new = drop (off + ?n) src"
        "\<forall>v \<in> set new. length (h_views h1) \<le> v" by blast
    have "view_bytes h' ?v = take ?n (drop off src)" "live h' ?v"
      using frame_view [OF h'(3) h1(4)] h1(5) by auto
    moreover have "take ?n (drop off src) @ drop (off + ?n) src = drop off src"
      by (metis add.commute append_take_drop_id drop_drop)
    ultimately show ?thesis
      using True h1 h' frame_trans [OF h1(3) h'(3)]
      by (intro exI [of _ h'] exI [of _ "?v # new"])
        (auto simp: append_loop.simps [of sz src off vs h])
  qed
qed

lemma consume_loop_ok:
  assumes "heap_ok h" and "live_list h vs" and "off \<le> head_len h vs"
    and "0 \<le> rem" and "rem \<le> int (length (drop off (bytes_of h vs)))"
  shows "\<exists>h' k off'. consume_loop vs k0 off rem h = (h', k0 + k, off', Inr ()) \<and> heap_ok h' \<and>
    k \<le> length vs \<and> frame (set (take k vs)) h h' \<and> length (h_views h') = length (h_views h) \<and>
    off' \<le> head_len h' (drop k vs) \<and>
    drop off' (bytes_of h' (drop k vs)) = drop (nat rem) (drop off (bytes_of h vs))"
  using assms
proof (induction vs arbitrary: k0 off rem h)
  case Nil
  then show ?case
    by (intro exI [of _ h] exI [of _ 0] exI [of _ off]) (simp add: head_len_def)
next
  case (Cons v vs)
  from Cons.prems have v: "live h v" and vs: "live_list h vs" "v \<notin> set vs" by auto
  let ?b = "view_bytes h v"
  have len: "view_len h v = length ?b" using Cons.prems(1) v by (rule live_view_len)
  with Cons.prems(3) have off: "off \<le> length ?b" by (simp add: head_len_def)
  show ?case
  proof (cases "0 < rem")
    case False
    with Cons.prems(3,4) show ?thesis
      by (intro exI [of _ h] exI [of _ 0] exI [of _ off]) (auto simp: Cons.prems(1))
  next
    case pos: True
    show ?thesis
    proof (cases "rem < int (length ?b) - int off")
      case True
      with pos len show ?thesis
        by (intro exI [of _ h] exI [of _ 0] exI [of _ "off + nat rem"])
          (auto simp: Cons.prems(1) head_len_def add.commute)
    next
      case False
      from view_release_ok [OF Cons.prems(1) v] obtain h1 r where
        h1: "view_release v h = (h1, Inr r)" "heap_ok h1" "frame {v} h h1"
          "length (h_views h1) = length (h_views h)" by blast
      have fr: "live_list h1 vs" "bytes_of h1 vs = bytes_of h vs"
        using frame_list [OF h1(3) vs(1)] vs(2) by auto
      let ?rem = "rem - (int (length ?b) - int off)"
      have rem: "0 \<le> ?rem" "?rem \<le> int (length (drop 0 (bytes_of h1 vs)))"
        using False Cons.prems(5) off fr(2) by auto
      from Cons.IH [OF h1(2) fr(1) _ rem, of "Suc k0"] obtain h' k off' where
        h': "consume_loop vs (Suc k0) 0 ?rem h1 = (h', Suc k0 + k, off', Inr ())"
          "heap_ok h'" "k \<le> length vs" "frame (set (take k vs)) h1 h'"
          "length (h_views h') = length (h_views h1)" "off' \<le> head_len h' (drop k vs)"
          "drop off' (bytes_of h' (drop k vs)) = drop (nat ?rem) (bytes_of h1 vs)" by auto
      have "drop (nat rem) (drop off (?b @ bytes_of h vs)) = drop (nat ?rem) (bytes_of h vs)"
        using False off pos by (simp add: nat_diff_distrib' add.commute)
      moreover have "frame (set (take (Suc k) (v # vs))) h h'"
        using frame_trans [OF h1(3) h'(4)] by simp
      ultimately show ?thesis
        using pos False len h1 h' fr(2)
        by (intro exI [of _ h'] exI [of _ "Suc k"] exI [of _ off']) (simp add: Let_def)
    qed
  qed
qed

lemma peek_loop_ok:
  assumes "heap_ok h" and "live_list h vs" and "off \<le> head_len h vs"
    and "0 \<le> rem" and "rem \<le> int (length (drop off (bytes_of h vs)))"
    and "live_list h res"
  shows "\<exists>h' ps. peek_loop vs off rem res h = (h', Inr (res @ ps)) \<and> heap_ok h' \<and> frame {} h h' \<and>
    live_list h' (res @ ps) \<and> bytes_of h' ps = take (nat rem) (drop off (bytes_of h vs)) \<and>
    (\<forall>p \<in> set ps. length (h_views h) \<le> p)"
  using assms
proof (induction vs arbitrary: off rem res h)
  case Nil
  then show ?case by simp
next
  case (Cons v vs)
  from Cons.prems have v: "live h v" and vs: "live_list h vs" by auto
  let ?b = "view_bytes h v" and ?p = "length (h_views h)"
  have len: "view_len h v = length ?b" using Cons.prems(1) v by (rule live_view_len)
  with Cons.prems(3) have off: "off \<le> length ?b" by (simp add: head_len_def)
  have vl: "vw_length (view_at h v) = length ?b"
    using Cons.prems(1) v by (simp add: length_view_bytes)
  show ?case
  proof (cases "0 < rem")
    case False
    with Cons.prems show ?thesis
      by (intro exI [of _ h] exI [of _ "[]"]) auto
  next
    case pos: True
    define t where "t = min (nat rem) (length ?b - off)"
    have te: "(if int (length ?b) - int off > rem then rem else int (length ?b) - int off) = int t"
      using pos off by (auto simp: t_def)
    have "off + t \<le> vw_length (view_at h v)" using off vl by (simp add: t_def)
    from view_slice_ok [OF Cons.prems(1) v this] obtain h1 where
      h1: "view_slice v (int off) (int t) h = (h1, Inr ?p)" "heap_ok h1" "frame {} h h1"
        "length (h_views h1) = Suc ?p" "live h1 ?p"
        "view_bytes h1 ?p = take t (drop off ?b)" by blast
    have fr: "live_list h1 vs" "bytes_of h1 vs = bytes_of h vs" "live_list h1 res"
      using frame_list [OF h1(3) vs] frame_list [OF h1(3) Cons.prems(6)] by auto
    have fresh: "?p \<notin> set res" using Cons.prems(6) by (auto simp: live_list_def)
    let ?rem = "rem - int t"
    have rem: "0 \<le> ?rem" "?rem \<le> int (length (drop 0 (bytes_of h1 vs)))"
      using Cons.prems(4,5) off fr(2) by (auto simp: t_def)
    have res: "live_list h1 (res @ [?p])"
      using fr(3) h1(5) fresh by (simp add: live_list_append)
    from Cons.IH [OF h1(2) fr(1) _ rem res] obtain h' ps where
      h': "peek_loop vs 0 ?rem (res @ [?p]) h1 = (h', Inr ((res @ [?p]) @ ps))" "heap_ok h'"
        "frame {} h1 h'" "live_list h' ((res @ [?p]) @ ps)"
        "bytes_of h' ps = take (nat ?rem) (bytes_of h1 vs)"
        "\<forall>p \<in> set ps. length (h_views h1) \<le> p" by auto
    have "view_bytes h' ?p = take t (drop off ?b)"
      using frame_view [OF h'(3) h1(5)] h1(6) by simp
    moreover have "take t (drop off ?b) @ take (nat ?rem) (bytes_of h vs)
        = take (nat rem) (drop off (?b @ bytes_of h vs))"
      using off pos by (cases "nat rem \<le> length ?b - off") (auto simp: t_def nat_diff_distrib')
    ultimately show ?thesis
      using pos len h1 h' fr(2) te frame_trans [OF h1(3) h'(3)]
      by (intro exI [of _ h'] exI [of _ "?p # ps"]) (auto simp: Let_def)
  qed
qed

lemma drain_parts_ok:
  assumes "heap_ok h" and "live_list h ps"
  shows "\<exists>h'. drain_parts ps out h = (h', Inr (out @ bytes_of h ps)) \<and> heap_ok h' \<and>
    frame (set ps) h h' \<and> length (h_views h') = length (h_views h) \<and>
    (\<forall>p \<in> set ps. vw_released (view_at h' p)) \<and>
    (\<forall>u. u \<notin> set ps \<longrightarrow> view_at h' u = view_at h u)"
  using assms
proof (induction ps arbitrary: out h)
  case Nil
  then show ?case by simp
next
  case (Cons p ps)
  from Cons.prems have p: "live h p" and ps: "live_list h ps" "p \<notin> set ps" by auto
  from view_release_ok [OF Cons.prems(1) p] obtain h1 r where
    h1: "view_release p h = (h1, Inr r)" "heap_ok h1" "frame {p} h h1"
      "length (h_views h1) = length (h_views h)" "vw_released (view_at h1 p)"
      "\<forall>u. u \<noteq> p \<longrightarrow> view_at h1 u = view_at h u" by blast
  have fr: "live_list h1 ps" "bytes_of h1 ps = bytes_of h ps"
    using frame_list [OF h1(3) ps(1)] ps(2) by auto
  from Cons.IH [OF h1(2) fr(1), of "out @ view_bytes h p"] obtain h' where
    h': "drain_parts ps (out @ view_bytes h p) h1 = (h', Inr ((out @ view_bytes h p) @ bytes_of h1 ps))"
      "heap_ok h'" "frame (set ps) h1 h'" "length (h_views h') = length (h_views h1)"
      "\<forall>p \<in> set ps. vw_released (view_at h' p)"
      "\<forall>u. u \<notin> set ps \<longrightarrow> view_at h' u = view_at h1 u" by blast
  have "view_to_bytes p h = Inr (view_bytes h p)"
    using p by (simp add: view_to_bytes_def view_bytes_def Let_def)
  then show ?case
    using h1 h' fr(2) ps(2) frame_trans [OF h1(3) h'(3)] by (intro exI [of _ h']) auto
qed

lemma close_loop_ok:
  assumes "heap_ok h" and "live_list h vs"
  shows "\<exists>h'. close_loop vs n h = (h', Inr (n + int (length vs))) \<and> heap_ok h' \<and>
    frame (set vs) h h' \<and> length (h_views h') = length (h_views h) \<and>
    (\<forall>v \<in> set vs. vw_released (view_at h' v)) \<and>
    (\<forall>u. u \<notin> set vs \<longrightarrow> view_at h' u = view_at h u)"
  using assms
proof (induction vs arbitrary: n h)
  case Nil
  then show ?case by simp
next
  case (Cons v vs)
  from Cons.prems have v: "live h v" and vs: "live_list h vs" "v \<notin> set vs" by auto
  from view_release_ok [OF Cons.prems(1) v] obtain h1 r where
    h1: "view_release v h = (h1, Inr r)" "heap_ok h1" "frame {v} h h1"
      "length (h_views h1) = length (h_views h)" "vw_released (view_at h1 v)"
      "\<forall>u. u \<noteq> v \<longrightarrow> view_at h1 u = view_at h u" by blast
  have fr: "live_list h1 vs"
    using frame_list [OF h1(3) vs(1)] vs(2) by auto
  from Cons.IH [OF h1(2) fr, of "n + 1"] obtain h' where
    h': "close_loop vs (n + 1) h1 = (h', Inr (n + 1 + int (length vs)))" "heap_ok h'"
      "frame (set vs) h1 h'" "length (h_views h') = length (h_views h1)"
      "\<forall>v \<in> set vs. vw_released (view_at h' v)"
      "\<forall>u. u \<notin> set vs \<longrightarrow> view_at h' u = view_at h1 u" by blast
  then show ?case
    using v h1 vs(2) frame_trans [OF h1(3) h'(3)] by (intro exI [of _ h']) auto
qed

section \<open>The representation invariant of a channel\<close>

abbreviation chan_views :: "channel \<Rightarrow> nat list" where
  "chan_views c \<equiv> drop (cb_head c) (cb_views c)"

definition content :: "channel \<Rightarrow> bheap \<Rightarrow> bytes" where
  "content c h = drop (cb_head_offset c) (bytes_of h (chan_views c))"

definition limits_ok :: "channel \<Rightarrow> bool" where
  "limits_ok c \<longleftrightarrow> 0 < cb_segment_size c \<and> 0 \<le> cb_low_watermark c \<and>
     cb_low_watermark c < cb_high_watermark c \<and> cb_high_watermark c \<le> cb_max_bytes c"

text \<open>Hysteresis: the flag is up only above the low watermark and down only below the
  high one.\<close>

definition watermarks_ok :: "channel \<Rightarrow> bool" where
  "watermarks_ok c \<longleftrightarrow> (cb_backpressured c \<longrightarrow> cb_low_watermark c < cb_queued_bytes c) \<and>
     (\<not> cb_backpressured c \<longrightarrow> cb_queued_bytes c < cb_high_watermark c)"

definition chan_ok :: "channel \<Rightarrow> bheap \<Rightarrow> bool" where
  "chan_ok c h \<longleftrightarrow> heap_ok h \<and> limits_ok c \<and> watermarks_ok c \<and>
     cb_head c \<le> length (cb_views c) \<and> live_list h (chan_views c) \<and>
     cb_head_offset c \<le> head_len h (chan_views c) \<and>
     cb_queued_bytes c = int (length (content c h)) \<and> cb_queued_bytes c \<le> cb_max_bytes c \<and>
     (cb_closed c \<longrightarrow> cb_queued_bytes c = 0)"

definition same_limits :: "channel \<Rightarrow> channel \<Rightarrow> bool" where
  "same_limits c c' \<longleftrightarrow> cb_segment_size c' = cb_segment_size c \<and>
     cb_low_watermark c' = cb_low_watermark c \<and> cb_high_watermark c' = cb_high_watermark c \<and>
     cb_max_bytes c' = cb_max_bytes c"

lemma same_limits_refl [simp]: "same_limits c c"
  by (simp add: same_limits_def)

lemma channel_new_ok:
  assumes "channel_new sz low high mx = Inr c" and "heap_ok h"
  shows "chan_ok c h" and "content c h = []" and "\<not> cb_closed c"
  using assms
  by (auto simp: channel_new_def chan_ok_def limits_ok_def watermarks_ok_def content_def
      head_len_def split: if_splits)

lemma frame_fresh:
  "frame V h h' \<Longrightarrow> (\<forall>v \<in> V. v \<in> W \<or> length (h_views h) \<le> v) \<Longrightarrow> frame W h h'"
  by (fastforce simp: frame_def)

lemma head_len_frame:
  assumes "frame V h h'" and "live_list h vs" and "set vs \<inter> V = {}"
  shows "head_len h' vs = head_len h vs"
proof (cases vs)
  case (Cons v ws)
  with assms have "view_at h' v = view_at h v"
    using frame_view [OF assms(1), of v] by auto
  with Cons show ?thesis by (simp add: head_len_def view_len_def)
qed (simp add: head_len_def)

lemma head_len_append: "off \<le> head_len h vs \<Longrightarrow> off \<le> head_len h (vs @ ws)"
  by (auto simp: head_len_def split: list.splits)

lemma head_len_bytes:
  "heap_ok h \<Longrightarrow> live_list h vs \<Longrightarrow> head_len h vs \<le> length (bytes_of h vs)"
  by (cases vs) (simp_all add: head_len_def live_view_len)

text \<open>An operation on other views leaves a channel and its content alone.\<close>

lemma chan_ok_frame:
  assumes "chan_ok c h" and "frame V h h'" and "heap_ok h'" and "set (chan_views c) \<inter> V = {}"
  shows "chan_ok c h'" and "content c h' = content c h"
proof -
  from assms(1) have l: "live_list h (chan_views c)" by (simp add: chan_ok_def)
  note fr = frame_list [OF assms(2) l assms(4)] head_len_frame [OF assms(2) l assms(4)]
  show "content c h' = content c h" using fr by (simp add: content_def)
  then show "chan_ok c h'" using assms(1,3) fr by (auto simp: chan_ok_def)
qed

lemma growth_ok:
  assumes "limits_ok c" and "watermarks_ok c" and "0 \<le> n"
    and "transition_after_growth (c\<lparr>cb_views := vs, cb_queued_bytes := cb_queued_bytes c + n\<rparr>) = (c', t)"
  shows "watermarks_ok c'" and "limits_ok c'" and "cb_views c' = vs" and "cb_head c' = cb_head c"
    and "cb_head_offset c' = cb_head_offset c" and "cb_queued_bytes c' = cb_queued_bytes c + n"
    and "cb_closed c' = cb_closed c" and "same_limits c c'"
    and "t = BACKPRESSURE_HIGH \<longleftrightarrow> \<not> cb_backpressured c \<and> cb_backpressured c'"
    and "t \<noteq> BACKPRESSURE_LOW"
    and "cb_backpressured c' \<longleftrightarrow> cb_backpressured c \<or> cb_high_watermark c \<le> cb_queued_bytes c + n"
  using assms
  by (auto simp: transition_after_growth_def watermarks_ok_def limits_ok_def same_limits_def
      split: if_splits)

lemma grow_chan_ok:
  assumes ok: "chan_ok c h" and n: "cb_queued_bytes c + int (length bs) \<le> cb_max_bytes c"
    and open': "\<not> cb_closed c"
    and fr: "frame {} h h'" and hok: "heap_ok h'"
    and new: "live_list h' new" "bytes_of h' new = bs" "\<forall>v \<in> set new. length (h_views h) \<le> v"
    and tr: "transition_after_growth (c\<lparr>cb_views := cb_views c @ new,
      cb_queued_bytes := cb_queued_bytes c + int (length bs)\<rparr>) = (c', t)"
  shows "chan_ok c' h'" and "content c' h' = content c h @ bs"
proof -
  from ok have l: "live_list h (chan_views c)" and w: "limits_ok c" "watermarks_ok c"
    and off: "cb_head_offset c \<le> head_len h (chan_views c)" and hd: "cb_head c \<le> length (cb_views c)"
    and hok0: "heap_ok h"
    by (auto simp: chan_ok_def)
  note g = growth_ok [OF w _ tr, simplified]
  have fl: "live_list h' (chan_views c)" "bytes_of h' (chan_views c) = bytes_of h (chan_views c)"
    "head_len h' (chan_views c) = head_len h (chan_views c)"
    using frame_list [OF fr l] head_len_frame [OF fr l] by auto
  have vs: "chan_views c' = chan_views c @ new" using g hd by simp
  have "set (chan_views c) \<inter> set new = {}"
    using l new(3) by (fastforce simp: live_list_def)
  then have ll: "live_list h' (chan_views c')"
    unfolding vs using fl(1) new(1) by (simp add: live_list_append)
  have "cb_head_offset c \<le> length (bytes_of h (chan_views c))"
    using off head_len_bytes [OF hok0 l] by linarith
  then show ct: "content c' h' = content c h @ bs"
    unfolding content_def vs using g fl new(2) by simp
  have "cb_head_offset c' \<le> head_len h' (chan_views c')"
    unfolding vs using head_len_append off fl(3) g by simp
  then show "chan_ok c' h'"
    using ok ll ct g hok n open' hd by (auto simp: chan_ok_def same_limits_def)
qed

section \<open>The operations\<close>

lemma channel_append_ok:
  assumes "chan_ok c h" and "\<not> cb_closed c"
    and "cb_queued_bytes c + int (length src) \<le> cb_max_bytes c"
  shows "\<exists>c' h' t. channel_append src c h = (c', h', Inr t) \<and> chan_ok c' h' \<and>
    content c' h' = content c h @ src \<and> frame {} h h' \<and> same_limits c c' \<and> \<not> cb_closed c' \<and>
    (\<forall>v \<in> set (chan_views c'). v \<in> set (chan_views c) \<or> length (h_views h) \<le> v) \<and>
    (t = BACKPRESSURE_HIGH \<longleftrightarrow> \<not> cb_backpressured c \<and> cb_backpressured c') \<and> t \<noteq> BACKPRESSURE_LOW"
proof -
  from assms(1) have hok: "heap_ok h" and w: "limits_ok c" "watermarks_ok c"
    and hd: "cb_head c \<le> length (cb_views c)"
    by (auto simp: chan_ok_def)
  from w have "0 < cb_segment_size c" by (simp add: limits_ok_def)
  from append_loop_ok [OF hok this, of 0 src "cb_views c"] obtain h' new where
    h': "append_loop (cb_segment_size c) src 0 (cb_views c) h = (h', cb_views c @ new, Inr ())"
      "heap_ok h'" "frame {} h h'" "live_list h' new" "bytes_of h' new = src"
      "\<forall>v \<in> set new. length (h_views h) \<le> v" by auto
  obtain c' t where tr: "transition_after_growth (c\<lparr>cb_views := cb_views c @ new,
      cb_queued_bytes := cb_queued_bytes c + int (length src)\<rparr>) = (c', t)"
    by fastforce
  note g = growth_ok [OF w _ tr, simplified]
  note ok = grow_chan_ok [OF assms(1,3,2) h'(3,2,4,5,6) tr]
  have "channel_append src c h = (c', h', Inr t)"
    using assms h'(1) tr by (simp add: channel_append_def)
  then show ?thesis
    using ok g h'(3,6) hd assms(2) by (intro exI [of _ c'] exI [of _ h'] exI [of _ t]) auto
qed

lemma channel_append_rejects:
  "cb_closed c \<Longrightarrow> channel_append src c h =
     (c, h, Inl (BufferClosedError ''cannot append to a closed channel buffer''))"
  "\<not> cb_closed c \<Longrightarrow> cb_max_bytes c < cb_queued_bytes c + int (length src) \<Longrightarrow>
     channel_append src c h = (c, h, Inl (BufferLimitError ''channel buffer byte limit exceeded''))"
  by (simp_all add: channel_append_def)

lemma channel_append_view_ok:
  assumes "chan_ok c h" and "\<not> cb_closed c" and v: "live h v"
    and "cb_queued_bytes c + int (length (view_bytes h v)) \<le> cb_max_bytes c"
  shows "\<exists>c' h' t. channel_append_view v c h = (c', h', Inr t) \<and> chan_ok c' h' \<and>
    content c' h' = content c h @ view_bytes h v \<and> frame {} h h' \<and> same_limits c c' \<and>
    \<not> cb_closed c' \<and>
    (\<forall>v \<in> set (chan_views c'). v \<in> set (chan_views c) \<or> length (h_views h) \<le> v) \<and>
    (t = BACKPRESSURE_HIGH \<longleftrightarrow> \<not> cb_backpressured c \<and> cb_backpressured c') \<and> t \<noteq> BACKPRESSURE_LOW"
proof -
  from assms(1) have hok: "heap_ok h" and w: "limits_ok c" "watermarks_ok c"
    and hd: "cb_head c \<le> length (cb_views c)"
    by (auto simp: chan_ok_def)
  let ?n = "length (view_bytes h v)"
  have len: "view_len h v = ?n" "vw_length (view_at h v) = ?n"
    using live_view_len [OF hok v] length_view_bytes [OF hok v] by auto
  from view_slice_ok [OF hok v, of 0 ?n] len obtain h' where
    h': "view_slice v 0 (int ?n) h = (h', Inr (length (h_views h)))"
      "heap_ok h'" "frame {} h h'" "live h' (length (h_views h))"
      "view_bytes h' (length (h_views h)) = view_bytes h v" by auto
  let ?new = "[length (h_views h)]"
  have new: "live_list h' ?new" "bytes_of h' ?new = view_bytes h v"
    "\<forall>v \<in> set ?new. length (h_views h) \<le> v"
    using h'(4,5) by simp_all
  have slice: "view_slice v 0 (- 1) h = view_slice v 0 (int ?n) h"
    using len by (simp add: view_slice_def Let_def)
  obtain c' t where tr: "transition_after_growth (c\<lparr>cb_views := cb_views c @ ?new,
      cb_queued_bytes := cb_queued_bytes c + int ?n\<rparr>) = (c', t)"
    by fastforce
  note g = growth_ok [OF w _ tr, simplified]
  note ok = grow_chan_ok [OF assms(1,4,2) h'(3,2) new tr]
  have "channel_append_view v c h = (c', h', Inr t)"
    using assms h'(1) slice tr len by (simp add: channel_append_view_def Let_def)
  then show ?thesis
    using ok g h'(3) hd assms(2) by (intro exI [of _ c'] exI [of _ h'] exI [of _ t]) auto
qed

lemma drain_ok:
  assumes "limits_ok c" and "watermarks_ok c" and "0 \<le> n" and "n \<le> cb_queued_bytes c"
    and "transition_after_drain (c\<lparr>cb_views := vs, cb_head := i, cb_head_offset := off,
      cb_queued_bytes := cb_queued_bytes c - n\<rparr>) = (c', t)"
  shows "watermarks_ok c'" and "limits_ok c'" and "cb_views c' = vs" and "cb_head c' = i"
    and "cb_head_offset c' = off" and "cb_queued_bytes c' = cb_queued_bytes c - n"
    and "cb_closed c' = cb_closed c" and "same_limits c c'"
    and "t = BACKPRESSURE_LOW \<longleftrightarrow> cb_backpressured c \<and> \<not> cb_backpressured c'"
    and "t \<noteq> BACKPRESSURE_HIGH"
    and "cb_backpressured c' \<longleftrightarrow> cb_backpressured c \<and> cb_low_watermark c < cb_queued_bytes c - n"
  using assms
  by (auto simp: transition_after_drain_def watermarks_ok_def limits_ok_def same_limits_def
      split: if_splits)

lemma channel_consume_ok:
  assumes ok: "chan_ok c h" and n: "0 \<le> n" "n \<le> cb_queued_bytes c"
  shows "\<exists>c' h' t. channel_consume n c h = (c', h', Inr t) \<and> chan_ok c' h' \<and>
    content c' h' = drop (nat n) (content c h) \<and> frame (set (chan_views c)) h h' \<and>
    same_limits c c' \<and> cb_closed c' = cb_closed c \<and>
    set (chan_views c') \<subseteq> set (chan_views c) \<and>
    (t = BACKPRESSURE_LOW \<longleftrightarrow> cb_backpressured c \<and> \<not> cb_backpressured c') \<and> t \<noteq> BACKPRESSURE_HIGH"
proof -
  let ?vs = "chan_views c"
  from ok have hok: "heap_ok h" and w: "limits_ok c" "watermarks_ok c"
    and hd: "cb_head c \<le> length (cb_views c)" and l: "live_list h ?vs"
    and off: "cb_head_offset c \<le> head_len h ?vs"
    and q: "cb_queued_bytes c = int (length (content c h))"
    by (auto simp: chan_ok_def)
  have le: "n \<le> int (length (drop (cb_head_offset c) (bytes_of h ?vs)))"
    using n q by (simp add: content_def)
  from consume_loop_ok [OF hok l off n(1) le, of 0] obtain h' k off' where
    h': "consume_loop ?vs 0 (cb_head_offset c) n h = (h', k, off', Inr ())" "heap_ok h'"
      "k \<le> length ?vs" "frame (set (take k ?vs)) h h'" "off' \<le> head_len h' (drop k ?vs)"
      "drop off' (bytes_of h' (drop k ?vs)) = drop (nat n) (content c h)"
    by (auto simp: content_def)
  define hd1 where "hd1 = cb_head c + k"
  define compact where "compact \<longleftrightarrow> hd1 > 32 \<and> hd1 * 2 \<ge> length (cb_views c)"
  define vs2 where "vs2 = (if compact then drop hd1 (cb_views c) else cb_views c)"
  define hd2 where "hd2 = (if compact then 0 else hd1)"
  obtain c' t where tr: "transition_after_drain (c\<lparr>cb_views := vs2, cb_head := hd2,
      cb_head_offset := off', cb_queued_bytes := cb_queued_bytes c - n\<rparr>) = (c', t)"
    by fastforce
  note g = drain_ok [OF w n tr]
  have views: "chan_views c' = drop k ?vs"
    using g by (simp add: vs2_def hd2_def hd1_def add.commute)
  have len: "cb_head c' \<le> length (cb_views c')"
    using g(3,4) h'(3) hd by (auto simp: vs2_def hd2_def hd1_def)
  have upd: "(let c1 = c\<lparr>cb_head := hd1, cb_head_offset := off',
        cb_queued_bytes := cb_queued_bytes c - n\<rparr>
      in if cb_head c1 > 32 \<and> cb_head c1 * 2 \<ge> length (cb_views c1)
         then c1\<lparr>cb_views := drop (cb_head c1) (cb_views c1), cb_head := 0\<rparr> else c1)
    = c\<lparr>cb_views := vs2, cb_head := hd2, cb_head_offset := off',
         cb_queued_bytes := cb_queued_bytes c - n\<rparr>"
    by (cases c) (auto simp: Let_def vs2_def hd2_def compact_def)
  have eq: "channel_consume n c h = (c', h', Inr t)"
    using n h'(1) tr upd by (simp add: channel_consume_def Let_def hd1_def)
  have "set (drop k ?vs) \<inter> set (take k ?vs) = {}"
    using l by (metis Int_commute append_take_drop_id distinct_append live_list_def)
  moreover have "live_list h (drop k ?vs)"
    using l by (rule live_list_drop)
  ultimately have ll: "live_list h' (drop k ?vs)"
    using frame_list(1) [OF h'(4)] by blast
  have ct: "content c' h' = drop (nat n) (content c h)"
    unfolding content_def [of c'] views using g h'(6) by simp
  have "chan_ok c' h'"
    unfolding chan_ok_def views using g h' ll ct ok n q len
    by (auto simp: chan_ok_def same_limits_def)
  moreover have "frame (set ?vs) h h'"
    using h'(4) by (rule frame_mono) (rule set_take_subset)
  moreover have "set (chan_views c') \<subseteq> set ?vs"
    unfolding views by (rule set_drop_subset)
  ultimately show ?thesis
    using eq ct g by blast
qed

text \<open>Copying the first bytes out through fresh views leaves the channel as it was.\<close>

lemma channel_peek_ok:
  fixes limit :: int
  assumes ok: "chan_ok c h"
  defines "n \<equiv> if limit < 0 \<or> limit > cb_queued_bytes c then cb_queued_bytes c else limit"
  shows "\<exists>h1 ps h2. channel_peek_views limit c h = (h1, Inr ps) \<and>
    drain_parts ps [] h1 = (h2, Inr (take (nat n) (content c h))) \<and> chan_ok c h2 \<and>
    content c h2 = content c h \<and> frame {} h h2"
proof -
  let ?vs = "chan_views c"
  from ok have hok: "heap_ok h" and l: "live_list h ?vs"
    and off: "cb_head_offset c \<le> head_len h ?vs"
    and q: "cb_queued_bytes c = int (length (content c h))"
    by (auto simp: chan_ok_def)
  have n: "0 \<le> n" "n \<le> cb_queued_bytes c" using q by (auto simp: n_def)
  have le: "n \<le> int (length (drop (cb_head_offset c) (bytes_of h ?vs)))"
    using n q by (simp add: content_def)
  from peek_loop_ok [OF hok l off n(1) le, of "[]"] obtain h1 ps where
    h1: "peek_loop ?vs (cb_head_offset c) n [] h = (h1, Inr ps)" "heap_ok h1" "frame {} h h1"
      "live_list h1 ps" "bytes_of h1 ps = take (nat n) (content c h)"
      "\<forall>p \<in> set ps. length (h_views h) \<le> p"
    by (auto simp: content_def)
  from drain_parts_ok [OF h1(2,4), of "[]"] obtain h2 where
    h2: "drain_parts ps [] h1 = (h2, Inr (bytes_of h1 ps))" "heap_ok h2" "frame (set ps) h1 h2"
    by auto
  have disj: "set ?vs \<inter> set ps = {}"
    using l h1(6) by (fastforce simp: live_list_def)
  note c1 = chan_ok_frame [OF ok h1(3,2)]
  have c2: "chan_ok c h2" "content c h2 = content c h"
    using chan_ok_frame [OF _ h2(3,2), of c] c1 disj by simp_all
  have "channel_peek_views limit c h = (h1, Inr ps)"
    using h1(1) n by (cases "n = cb_queued_bytes c") (auto simp: channel_peek_views_def n_def split: if_splits)
  moreover have "frame {} h h2"
    by (rule frame_fresh [OF frame_trans [OF h1(3) h2(3)]]) (use h1(6) in auto)
  ultimately show ?thesis using h1(5) h2(1) c2 by auto
qed

lemma channel_read_ok:
  fixes limit :: int
  assumes ok: "chan_ok c h"
  defines "n \<equiv> if limit < 0 \<or> limit > cb_queued_bytes c then cb_queued_bytes c else limit"
  shows "\<exists>c' h'. channel_read limit c h = (c', h', Inr (take (nat n) (content c h))) \<and> chan_ok c' h' \<and>
    content c' h' = drop (nat n) (content c h) \<and> frame (set (chan_views c)) h h' \<and>
    same_limits c c' \<and> cb_closed c' = cb_closed c \<and>
    set (chan_views c') \<subseteq> set (chan_views c)"
proof -
  from ok have n: "0 \<le> n" "n \<le> cb_queued_bytes c" by (auto simp: n_def chan_ok_def)
  from channel_peek_ok [OF ok, of n] n obtain h1 ps h2 where
    h1: "channel_peek_views n c h = (h1, Inr ps)" "drain_parts ps [] h1 = (h2, Inr (take (nat n) (content c h)))"
      and h2: "chan_ok c h2" "content c h2 = content c h" "frame {} h h2"
    by auto
  from channel_consume_ok [OF h2(1) n] obtain c' h' t where
    h': "channel_consume n c h2 = (c', h', Inr t)" "chan_ok c' h'"
      "content c' h' = drop (nat n) (content c h)" "frame (set (chan_views c)) h2 h'"
      "same_limits c c'" "cb_closed c' = cb_closed c" "set (chan_views c') \<subseteq> set (chan_views c)"
    using h2(2) by auto
  have "channel_read limit c h = (c', h', Inr (take (nat n) (content c h)))"
    using h1 h'(1) by (simp add: channel_read_def Let_def n_def [symmetric])
  moreover have "frame (set (chan_views c)) h h'"
    using frame_trans [OF h2(3) h'(4)] by simp
  ultimately show ?thesis using h' by blast
qed

lemma channel_close_ok:
  assumes ok: "chan_ok c h"
  shows "\<exists>c' h' k. channel_close c h = (c', h', Inr k) \<and> chan_ok c' h' \<and> cb_closed c' \<and>
    content c' h' = [] \<and> frame (set (chan_views c)) h h' \<and> chan_views c' = (if cb_closed c then chan_views c else []) \<and>
    (\<not> cb_closed c \<longrightarrow> (\<forall>v \<in> set (chan_views c). vw_released (view_at h' v)))"
proof (cases "cb_closed c")
  case True
  with ok show ?thesis
    by (intro exI [of _ c] exI [of _ h] exI [of _ 0]) (auto simp: channel_close_def chan_ok_def)
next
  case False
  from ok have hok: "heap_ok h" and l: "live_list h (chan_views c)" and w: "limits_ok c"
    by (auto simp: chan_ok_def)
  from close_loop_ok [OF hok l, of 0] obtain h' where
    h': "close_loop (chan_views c) 0 h = (h', Inr (int (length (chan_views c))))" "heap_ok h'"
      "frame (set (chan_views c)) h h'" "\<forall>v \<in> set (chan_views c). vw_released (view_at h' v)"
    by auto
  let ?c = "c\<lparr>cb_views := [], cb_head := 0, cb_head_offset := 0, cb_queued_bytes := 0,
    cb_backpressured := False, cb_closed := True\<rparr>"
  have "channel_close c h = (?c, h', Inr (int (length (chan_views c))))"
    using False h'(1) by (simp add: channel_close_def)
  moreover have "chan_ok ?c h'" "content ?c h' = []"
    using h'(2) w by (auto simp: chan_ok_def content_def limits_ok_def watermarks_ok_def)
  ultimately show ?thesis using h' False by auto
qed

section \<open>The FIFO interface\<close>

text \<open>What a client of a byte queue relies on: a rejected write changes nothing, an accepted
  one appends, a read always succeeds and takes a prefix, all of it when the requested
  amount is negative.\<close>

locale byte_fifo =
  fixes inv :: "'s \<Rightarrow> bool"
    and queued :: "'s \<Rightarrow> bytes"
    and push :: "bytes \<Rightarrow> 's \<Rightarrow> 's \<times> 't result"
    and pull :: "int \<Rightarrow> 's \<Rightarrow> 's \<times> bytes result"
  assumes push_accepted: "inv s \<Longrightarrow> push bs s = (s', Inr t) \<Longrightarrow> inv s' \<and> queued s' = queued s @ bs"
    and push_rejected: "inv s \<Longrightarrow> push bs s = (s', Inl e) \<Longrightarrow> s' = s"
    and pull_prefix: "inv s \<Longrightarrow> \<exists>s' out. pull n s = (s', Inr out) \<and> inv s' \<and> queued s = out @ queued s'"
    and pull_all: "inv s \<Longrightarrow> n < 0 \<Longrightarrow> \<exists>s'. pull n s = (s', Inr (queued s))"

datatype fifo_op = Push bytes | Pull int

text \<open>A run of reads and writes: the final state, the bytes accepted and the bytes read.\<close>

fun fifo_run ::
  "(bytes \<Rightarrow> 's \<Rightarrow> 's \<times> 't result) \<Rightarrow> (int \<Rightarrow> 's \<Rightarrow> 's \<times> bytes result) \<Rightarrow> fifo_op list \<Rightarrow> 's
    \<Rightarrow> 's \<times> bytes \<times> bytes" where
  "fifo_run push pull [] s = (s, [], [])"
| "fifo_run push pull (Push bs # ops) s =
     (case push bs s of
       (s1, Inl e) \<Rightarrow> fifo_run push pull ops s1
     | (s1, Inr t) \<Rightarrow> (case fifo_run push pull ops s1 of (s2, acc, out) \<Rightarrow> (s2, bs @ acc, out)))"
| "fifo_run push pull (Pull n # ops) s =
     (case pull n s of
       (s1, Inl e) \<Rightarrow> fifo_run push pull ops s1
     | (s1, Inr bs) \<Rightarrow> (case fifo_run push pull ops s1 of (s2, acc, out) \<Rightarrow> (s2, acc, bs @ out)))"

context byte_fifo
begin

lemma run_conserves:
  assumes "inv s" and "fifo_run push pull ops s = (s', acc, out)"
  shows "inv s' \<and> queued s @ acc = out @ queued s'"
  using assms
proof (induction ops arbitrary: s acc out)
  case Nil
  then show ?case by simp
next
  case (Cons op ops)
  show ?case
  proof (cases op)
    case (Push bs)
    obtain s1 r where p: "push bs s = (s1, r)" by fastforce
    show ?thesis
    proof (cases r)
      case (Inl e)
      with push_rejected Cons.prems(1) p have "s1 = s" by simp
      with Cons p Push Inl show ?thesis by simp
    next
      case (Inr t)
      with push_accepted Cons.prems(1) p have s1: "inv s1" "queued s1 = queued s @ bs" by auto
      obtain acc1 where run: "fifo_run push pull ops s1 = (s', acc1, out)" and "acc = bs @ acc1"
        using Cons.prems(2) Push p Inr by (auto split: prod.splits)
      with Cons.IH [OF s1(1) run] s1(2) show ?thesis by simp
    qed
  next
    case (Pull n)
    from pull_prefix [OF Cons.prems(1), of n] obtain s1 bs where
      s1: "pull n s = (s1, Inr bs)" "inv s1" "queued s = bs @ queued s1" by blast
    obtain out1 where run: "fifo_run push pull ops s1 = (s', acc, out1)" and "out = bs @ out1"
      using Cons.prems(2) Pull s1(1) by (auto split: prod.splits)
    with Cons.IH [OF s1(2) run] s1(3) show ?thesis by simp
  qed
qed

text \<open>A final complete read leaves nothing behind: what came out is what went in.\<close>

lemma run_then_drain:
  assumes "inv s" and "queued s = []" and "fifo_run push pull ops s = (s1, acc, out)"
    and "pull (- 1) s1 = (s2, Inr rest)"
  shows "out @ rest = acc"
proof -
  have *: "inv s1 \<and> queued s @ acc = out @ queued s1"
    using assms(1,3) by (rule run_conserves)
  with pull_all [of s1 "- 1"] assms(4) have "rest = queued s1" by auto
  with * assms(2) show ?thesis by simp
qed

end

text \<open>The channel with its heap as one state.\<close>

definition chan_push :: "bytes \<Rightarrow> channel \<times> bheap \<Rightarrow> (channel \<times> bheap) \<times> transition result" where
  "chan_push bs s = (case channel_append bs (fst s) (snd s) of (c, h, r) \<Rightarrow> ((c, h), r))"

definition chan_pull :: "int \<Rightarrow> channel \<times> bheap \<Rightarrow> (channel \<times> bheap) \<times> bytes result" where
  "chan_pull n s = (case channel_read n (fst s) (snd s) of (c, h, r) \<Rightarrow> ((c, h), r))"

lemma channel_append_cases:
  assumes "chan_ok c h"
  shows "(\<exists>e. channel_append bs c h = (c, h, Inl e)) \<or>
    (\<exists>c' h' t. channel_append bs c h = (c', h', Inr t) \<and> chan_ok c' h' \<and>
       content c' h' = content c h @ bs)"
proof (cases "\<not> cb_closed c \<and> cb_queued_bytes c + int (length bs) \<le> cb_max_bytes c")
  case True
  with channel_append_ok [OF assms, of bs] show ?thesis by blast
next
  case False
  then show ?thesis
    by (cases "cb_closed c") (simp_all add: channel_append_def)
qed

interpretation chan: byte_fifo "\<lambda>(c, h). chan_ok c h" "\<lambda>(c, h). content c h" chan_push chan_pull
proof
  fix s :: "channel \<times> bheap" and bs s' t
  assume "(case s of (c, h) \<Rightarrow> chan_ok c h)" and "chan_push bs s = (s', Inr t)"
  then show "(case s' of (c, h) \<Rightarrow> chan_ok c h) \<and>
      (case s' of (c, h) \<Rightarrow> content c h) = (case s of (c, h) \<Rightarrow> content c h) @ bs"
    using channel_append_cases [of "fst s" "snd s" bs]
    by (auto simp: chan_push_def split: prod.splits)
next
  fix s :: "channel \<times> bheap" and bs s' e
  assume "(case s of (c, h) \<Rightarrow> chan_ok c h)" and "chan_push bs s = (s', Inl e)"
  then show "s' = s"
    using channel_append_cases [of "fst s" "snd s" bs]
    by (auto simp: chan_push_def split: prod.splits)
next
  fix s :: "channel \<times> bheap" and n :: int
  assume "(case s of (c, h) \<Rightarrow> chan_ok c h)"
  then show "\<exists>s' out. chan_pull n s = (s', Inr out) \<and> (case s' of (c, h) \<Rightarrow> chan_ok c h) \<and>
      (case s of (c, h) \<Rightarrow> content c h) = out @ (case s' of (c, h) \<Rightarrow> content c h)"
    using channel_read_ok [of "fst s" "snd s" n]
    by (force simp: chan_pull_def split: prod.splits)
next
  fix s :: "channel \<times> bheap" and n :: int
  assume "(case s of (c, h) \<Rightarrow> chan_ok c h)" and "n < 0"
  then show "\<exists>s'. chan_pull n s = (s', Inr (case s of (c, h) \<Rightarrow> content c h))"
    using channel_read_ok [of "fst s" "snd s" n]
    by (force simp: chan_pull_def chan_ok_def split: prod.splits)
qed

end
