(* ===== verification/Channel_Props.thy ===== *)
theory Channel_Props
  imports Channel_Fifo
begin

text \<open>
  The properties of the reference-counted buffers and of \<open>ChannelBuffer\<close>, stated over the heap
  model of \<open>Buffer\<close> with the representation invariant \<open>chan_ok\<close> and the abstraction \<open>content\<close>
  of \<open>Channel_Fifo\<close>.
\<close>

section \<open>Closing leaves nothing behind\<close>

lemma segment_release_views: "h_views (fst (segment_release s h)) = h_views h"
  by (simp add: segment_release_def Let_def)

lemma view_release_length: "length (h_views (fst (view_release v h))) = length (h_views h)"
  by (simp add: view_release_def Let_def segment_release_views)

lemma close_loop_length: "length (h_views (fst (close_loop vs n h))) = length (h_views h)"
proof (induction vs n h rule: close_loop.induct)
  case (2 v vs n h)
  then show ?case
    using view_release_length [of v h] by (auto split: prod.splits sum.splits)
qed simp

lemma segment_release_segs: "length (h_segs (fst (segment_release s h))) = length (h_segs h)"
  by (simp add: segment_release_def Let_def)

lemma view_release_segs: "length (h_segs (fst (view_release v h))) = length (h_segs h)"
  by (simp add: view_release_def Let_def segment_release_segs)

lemma close_loop_segs: "length (h_segs (fst (close_loop vs n h))) = length (h_segs h)"
proof (induction vs n h rule: close_loop.induct)
  case (2 v vs n h)
  then show ?case
    using view_release_segs [of v h] by (auto split: prod.splits sum.splits)
qed simp

lemma view_release_other: "u \<noteq> v \<Longrightarrow> view_at (fst (view_release v h)) u = view_at h u"
  by (simp add: view_release_def Let_def segment_release_views)

lemma close_loop_other: "u \<notin> set vs \<Longrightarrow> view_at (fst (close_loop vs n h)) u = view_at h u"
proof (induction vs n h rule: close_loop.induct)
  case (2 v vs n h)
  then show ?case
    using view_release_other [of u v h] by (auto split: prod.splits sum.splits)
qed simp

text \<open>In a well-formed heap without live views and without outside references every segment has
  been freed.\<close>

lemma no_live_views_released:
  assumes "heap_ok h" and "\<And>v. \<not> live h v" and "s < length (h_segs h)" and "excess h s = 0"
  shows "sg_released (seg_at h s)"
proof -
  have "filter (\<lambda>vw. \<not> vw_released vw \<and> vw_owner vw = s) (h_views h) = []"
    using assms(2) by (auto simp: filter_empty_conv in_set_conv_nth)
  then have "sg_references (seg_at h s) = 0"
    using assms(4) by (simp add: excess_def live_count_def)
  then show ?thesis
    using assms(1,3) by (simp add: heap_ok_def seg_ok_def Let_def)
qed

section \<open>Properties\<close>

definition sample_chan :: channel where
  "sample_chan = \<lparr>cb_segment_size = 2, cb_low_watermark = 1, cb_high_watermark = 3,
     cb_max_bytes = 6, cb_views = [], cb_head = 0, cb_head_offset = 0, cb_queued_bytes = 0,
     cb_backpressured = False, cb_closed = False\<rparr>"

lemma sample_chan_ok: "chan_ok sample_chan empty_heap" "content sample_chan empty_heap = []"
  by (simp_all add: sample_chan_def chan_ok_def limits_ok_def watermarks_ok_def content_def
      head_len_def)

definition sample_filled :: channel where
  "sample_filled = fst (channel_append [1, 2, 3] sample_chan empty_heap)"

definition sample_heap :: bheap where
  "sample_heap = fst (snd (channel_append [1, 2, 3] sample_chan empty_heap))"

lemma sample_filled_ok:
  "chan_ok sample_filled sample_heap" "content sample_filled sample_heap = [1, 2, 3]"
  using channel_append_ok [OF sample_chan_ok(1), of "[1, 2, 3]"] sample_chan_ok(2)
  by (auto simp: sample_heap_def sample_filled_def sample_chan_def)

text \<open>C4 \<open>ChannelBuffer.append\<close> refines appending to a byte string, on every branch: a closed
  channel and an oversized write are refused and change nothing; otherwise all the bytes are
  queued behind the old ones, the invariant (byte accounting, limits, watermark hysteresis, live
  views) is kept, no view outside the channel changes, and the high-watermark transition is
  reported exactly when the backpressure flag goes up.\<close>

theorem channel_append_refines:
  assumes "chan_ok c h" and "channel_append src c h = (c', h', r)"
  shows "if cb_closed c
         then (c', h', r) = (c, h, Inl (BufferClosedError ''cannot append to a closed channel buffer''))
         else if cb_max_bytes c < cb_queued_bytes c + int (length src)
         then (c', h', r) = (c, h, Inl (BufferLimitError ''channel buffer byte limit exceeded''))
         else \<exists>t. r = Inr t \<and> chan_ok c' h' \<and> content c' h' = content c h @ src \<and> frame {} h h' \<and>
           (t = BACKPRESSURE_HIGH \<longleftrightarrow> \<not> cb_backpressured c \<and> cb_backpressured c') \<and>
           t \<noteq> BACKPRESSURE_LOW"
  using channel_append_ok [OF assms(1), of src] channel_append_rejects [of c src h] assms(2)
  by auto

theorem channel_append_refines_witness:
  "\<exists>c' h'. channel_append [1, 2, 3] sample_chan empty_heap = (c', h', Inr BACKPRESSURE_HIGH) \<and>
     chan_ok c' h' \<and> content c' h' = [1, 2, 3]"
proof -
  obtain c' h' r where a: "channel_append [1, 2, 3] sample_chan empty_heap = (c', h', r)"
    by (cases "channel_append [1, 2, 3] sample_chan empty_heap")
  have "snd (snd (channel_append [1, 2, 3] sample_chan empty_heap)) = Inr BACKPRESSURE_HIGH"
    by code_simp
  then have "r = Inr BACKPRESSURE_HIGH" using a by simp
  then show ?thesis
    using channel_append_refines [OF sample_chan_ok(1) a] a sample_chan_ok(2)
    by (auto simp: sample_chan_def split: if_splits)
qed

text \<open>\<open>ChannelBuffer.read\<close> always succeeds on a well-formed channel: it returns the first
  \<open>limit\<close> queued bytes (all of them for a negative or too large limit), leaves the rest in order,
  and keeps the invariant and every view that is not the channel's own.\<close>

theorem channel_read_refines:
  assumes "chan_ok c h"
  shows "\<exists>c' h' n. channel_read limit c h = (c', h', Inr (take n (content c h))) \<and>
     content c' h' = drop n (content c h) \<and> chan_ok c' h' \<and> frame (set (chan_views c)) h h' \<and>
     n = (if limit < 0 then length (content c h) else min (nat limit) (length (content c h)))"
proof -
  let ?n = "nat (if limit < 0 \<or> limit > cb_queued_bytes c then cb_queued_bytes c else limit)"
  have "cb_queued_bytes c = int (length (content c h))"
    using assms by (simp add: chan_ok_def)
  then have "?n = (if limit < 0 then length (content c h) else min (nat limit) (length (content c h)))"
    by auto
  then show ?thesis
    using channel_read_ok [OF assms, of limit] by metis
qed

theorem channel_read_refines_witness:
  "\<exists>c' h'. channel_read 2 sample_filled sample_heap = (c', h', Inr [1, 2]) \<and>
     content c' h' = [3] \<and> chan_ok c' h'"
  using channel_read_refines [OF sample_filled_ok(1), of 2] sample_filled_ok(2)
  by (auto simp: numeral_2_eq_2)

text \<open>C5 Conservation: over any sequence of writes (accepted or refused) and reads on a fresh
  channel, followed by a final complete read, the bytes that came out are exactly the accepted
  bytes, in order.\<close>

theorem channel_conserves_bytes:
  assumes "channel_new sz low high mx = Inr c"
    and "fifo_run chan_push chan_pull ops (c, empty_heap) = (s1, accepted, out)"
    and "chan_pull (- 1) s1 = (s2, Inr rest)"
  shows "out @ rest = accepted"
  using chan.run_then_drain [of "(c, empty_heap)" ops s1 accepted out s2 rest]
    channel_new_ok [OF assms(1) heap_ok_empty] assms(2,3) by simp

theorem channel_conserves_bytes_witness:
  "\<exists>s1 s2 out rest. fifo_run chan_push chan_pull [Push [1, 2, 3], Pull 2, Push [4, 5, 6, 7, 8, 9], Push [4]]
      (sample_chan, empty_heap) = (s1, [1, 2, 3, 4], out) \<and>
     chan_pull (- 1) s1 = (s2, Inr rest) \<and> out @ rest = [1, 2, 3, 4]"
proof -
  let ?ops = "[Push [1, 2, 3], Pull 2, Push [4, 5, 6, 7, 8, 9], Push [4]]"
  obtain s1 acc out where run: "fifo_run chan_push chan_pull ?ops (sample_chan, empty_heap) = (s1, acc, out)"
    by (cases "fifo_run chan_push chan_pull ?ops (sample_chan, empty_heap)")
  have "fst (snd (fifo_run chan_push chan_pull ?ops (sample_chan, empty_heap))) = [1, 2, 3, 4]"
    by code_simp
  then have acc: "acc = [1, 2, 3, 4]" using run by simp
  obtain s2 rest where pull: "chan_pull (- 1) s1 = (s2, Inr rest)"
    using chan.run_conserves [of "(sample_chan, empty_heap)", OF _ run] chan.pull_all [of s1 "- 1"]
      sample_chan_ok by auto
  have "channel_new 2 1 3 6 = Inr sample_chan"
    by (simp add: channel_new_def sample_chan_def)
  from channel_conserves_bytes [OF this run pull] run pull acc show ?thesis
    by (intro exI [of _ s1] exI [of _ s2] exI [of _ out] exI [of _ rest]) simp
qed

text \<open>Reference counting: releasing a live view of a well-formed heap succeeds, leaves every
  other view and its bytes alone, and frees the storage exactly when it held the last reference.\<close>

theorem view_release_last_reference:
  assumes "heap_ok h" and "live h v"
  shows "\<exists>h' r. view_release v h = (h', Inr r) \<and> heap_ok h' \<and> frame {v} h h' \<and>
    (sg_released (seg_at h' (vw_owner (view_at h v))) \<longleftrightarrow>
       sg_references (seg_at h (vw_owner (view_at h v))) = 1) \<and>
    view_release v h' = (h', Inl (BufferReleasedError ''buffer view released more than once''))"
proof -
  from view_release_ok [OF assms] obtain h' r where
    h': "view_release v h = (h', Inr r)" "heap_ok h'" "frame {v} h h'" "vw_released (view_at h' v)"
      "r = 1 \<longleftrightarrow> sg_released (seg_at h' (vw_owner (view_at h v)))"
      "r = 1 \<longleftrightarrow> sg_references (seg_at h (vw_owner (view_at h v))) = 1"
    by blast
  have "view_release v h' = (h', Inl (BufferReleasedError ''buffer view released more than once''))"
    using h'(4) by (simp add: view_release_def)
  with h' show ?thesis by blast
qed

theorem view_release_last_reference_witness:
  "\<exists>h'. fst (view_release 0 sample_heap) = h' \<and> sg_released (seg_at h' 0) \<and>
     \<not> sg_released (seg_at sample_heap 0) \<and> heap_ok h'"
proof -
  have live: "live sample_heap 0" by code_simp
  have refs: "vw_owner (view_at sample_heap 0) = 0 \<and> sg_references (seg_at sample_heap 0) = 1 \<and>
      \<not> sg_released (seg_at sample_heap 0)" by code_simp
  have "heap_ok sample_heap"
    using sample_filled_ok(1) by (simp add: chan_ok_def)
  from view_release_last_reference [OF this live] refs show ?thesis by auto
qed

text \<open>No leak: closing a channel that holds the only live views frees every segment of the
  heap, and the closed channel is empty and stays well-formed.\<close>

theorem channel_close_frees_storage:
  assumes "chan_ok c h" and "\<not> cb_closed c" and "\<And>v. live h v \<Longrightarrow> v \<in> set (chan_views c)"
    and "\<And>s. s < length (h_segs h) \<Longrightarrow> excess h s = 0"
  shows "\<exists>c' h' k. channel_close c h = (c', h', Inr k) \<and> chan_ok c' h' \<and> cb_closed c' \<and>
    content c' h' = [] \<and> (\<forall>s < length (h_segs h'). sg_released (seg_at h' s))"
proof -
  from channel_close_ok [OF assms(1)] assms(2) obtain c' h' k where
    h': "channel_close c h = (c', h', Inr k)" "chan_ok c' h'" "cb_closed c'" "content c' h' = []"
      "frame (set (chan_views c)) h h'" "\<forall>v \<in> set (chan_views c). vw_released (view_at h' v)"
    by auto
  have h'_eq: "h' = fst (close_loop (chan_views c) 0 h)"
    using h'(1) assms(2) by (auto simp: channel_close_def split: prod.splits sum.splits)
  have len: "length (h_views h') = length (h_views h)" "length (h_segs h') = length (h_segs h)"
    unfolding h'_eq by (rule close_loop_length close_loop_segs)+
  have dead: "\<not> live h' v" for v
  proof
    assume l: "live h' v"
    then have "\<not> v \<in> set (chan_views c)" using h'(6) by auto
    then have "\<not> live h v" using assms(3) by blast
    then show False
      using l len close_loop_other [OF \<open>\<not> v \<in> set (chan_views c)\<close>, of 0 h] h'_eq by auto
  qed
  have "sg_released (seg_at h' s)" if "s < length (h_segs h')" for s
    using no_live_views_released [of h' s] h'(2,5) dead that len assms(4)
    by (auto simp: chan_ok_def frame_def)
  with h' show ?thesis by blast
qed

theorem channel_close_frees_storage_witness:
  "\<exists>c' h' k. channel_close sample_filled sample_heap = (c', h', Inr k) \<and> cb_closed c' \<and>
     length (h_segs sample_heap) = 2 \<and> (\<forall>s < length (h_segs h'). sg_released (seg_at h' s))"
proof -
  have views: "length (h_views sample_heap) = 2 \<and> chan_views sample_filled = [0, 1] \<and>
      length (h_segs sample_heap) = 2 \<and> excess sample_heap 0 = 0 \<and> excess sample_heap 1 = 0 \<and>
      \<not> cb_closed sample_filled" by code_simp
  have "live sample_heap v \<Longrightarrow> v \<in> set (chan_views sample_filled)" for v
    using views by auto
  moreover have "s < length (h_segs sample_heap) \<Longrightarrow> excess sample_heap s = 0" for s
    using views by (auto simp: less_2_cases_iff)
  ultimately show ?thesis
    using channel_close_frees_storage [OF sample_filled_ok(1)] views by blast
qed

end
