(* ===== verification/Http1.thy ===== *)
theory Http1
  imports Prelude
begin

text \<open>
  Model of \<open>pcc_gateway/http1.py\<close>, the sans-I/O HTTP/1 server codec: the byte-level
  scanners, the header parser, the request head parser with its framing checks, the
  incremental decoder and the response encoder.  A decoder loop iteration is one call of
  \<open>codec_step\<close>; \<open>feed_loop\<close> is the \<open>while True\<close> loop around it.

  A body event carries the bytes of its view; dropping the events of a failed \<open>feed\<close> is
  the model of releasing the retained views (\<open>Buffer\<close> models the views themselves).
\<close>

section \<open>Scanners\<close>

definition is_tchar :: "int \<Rightarrow> bool" where
  "is_tchar v \<longleftrightarrow> 48 \<le> v \<and> v \<le> 57 \<or> 65 \<le> v \<and> v \<le> 90 \<or> 97 \<le> v \<and> v \<le> 122 \<or>
     v = 33 \<or> 35 \<le> v \<and> v \<le> 39 \<or> 42 \<le> v \<and> v \<le> 43 \<or> 45 \<le> v \<and> v \<le> 46 \<or>
     94 \<le> v \<and> v \<le> 96 \<or> v = 124 \<or> v = 126"

definition is_token :: "bytes \<Rightarrow> bool" where
  "is_token data \<longleftrightarrow> data \<noteq> [] \<and> list_all is_tchar data"

definition bad_value_byte :: "int \<Rightarrow> bool" where
  "bad_value_byte v \<longleftrightarrow> v = 0 \<or> v = 10 \<or> v = 13 \<or> v = 127 \<or> v < 32 \<and> v \<noteq> 9"

definition contains_bad_value_byte :: "bytes \<Rightarrow> bool" where
  "contains_bad_value_byte data \<longleftrightarrow> list_ex bad_value_byte data"

fun find_double_crlf :: "bytes \<Rightarrow> int" where
  "find_double_crlf (a # b # c # d # xs) =
     (if a = 13 \<and> b = 10 \<and> c = 13 \<and> d = 10 then 0
      else let i = find_double_crlf (b # c # d # xs) in if i < 0 then -1 else i + 1)"
| "find_double_crlf _ = -1"

fun find_crlf :: "bytes \<Rightarrow> int" where
  "find_crlf (a # b # xs) =
     (if a = 13 \<and> b = 10 then 0
      else let i = find_crlf (b # xs) in if i < 0 then -1 else i + 1)"
| "find_crlf _ = -1"

definition split_commas :: "pystr \<Rightarrow> pystr list" where
  "split_commas value =
     filter (\<lambda>token. token \<noteq> []) (map (\<lambda>item. py_lower (py_strip item)) (py_split 44 value))"

section \<open>Chunk size lines\<close>

definition quoted_pair_ok :: "int \<Rightarrow> bool" where
  "quoted_pair_ok c \<longleftrightarrow> c = 9 \<or> c = 32 \<or> 33 \<le> c \<and> c \<le> 126 \<or> 128 \<le> c"

definition qdtext_ok :: "int \<Rightarrow> bool" where
  "qdtext_ok c \<longleftrightarrow> c = 9 \<or> c = 32 \<or> c = 33 \<or> 35 \<le> c \<and> c \<le> 91 \<or> 93 \<le> c \<and> c \<le> 126 \<or> 128 \<le> c"

text \<open>The scan of \<open>value[1:end]\<close>.\<close>

fun quoted_body :: "bytes \<Rightarrow> bool" where
  "quoted_body [] = True"
| "quoted_body (c # cs) =
     (if c = 92 then (case cs of [] \<Rightarrow> False | d # ds \<Rightarrow> quoted_pair_ok d \<and> quoted_body ds)
      else qdtext_ok c \<and> quoted_body cs)"

definition quoted_chunk_extension_value :: "bytes \<Rightarrow> bool" where
  "quoted_chunk_extension_value value =
     (if length value < 2 \<or> hd value \<noteq> 34 \<or> last value \<noteq> 34 then False
      else quoted_body (butlast (tl value)))"

text \<open>The inner scan for the closing quote: the bytes up to and including it, and the rest.\<close>

fun scan_quoted :: "bool \<Rightarrow> bytes \<Rightarrow> bytes \<times> bytes" where
  "scan_quoted escaped [] = ([], [])"
| "scan_quoted escaped (c # cs) =
     (if escaped then (case scan_quoted False cs of (v, r) \<Rightarrow> (c # v, r))
      else if c = 92 then (case scan_quoted True cs of (v, r) \<Rightarrow> (c # v, r))
      else if c = 34 then ([c], cs)
      else (case scan_quoted False cs of (v, r) \<Rightarrow> (c # v, r)))"

lemma scan_quoted_length: "length (snd (scan_quoted e cs)) \<le> length cs"
  by (induction cs arbitrary: e) (auto simp: split_def le_SucI)

lemma dropWhile_Cons_length: "dropWhile P r = y # ys \<Longrightarrow> length ys < length r"
  by (metis length_dropWhile_le length_Cons Suc_le_lessD)

abbreviation bad_ext :: "string \<Rightarrow> exn" where
  "bad_ext msg \<equiv> Http1Error 400 ''bad-chunk-extension'' msg"

text \<open>The loop over \<open>; name [= value]\<close>; the argument is \<open>line[index:]\<close>.\<close>

function chunk_extensions :: "bytes \<Rightarrow> unit result" where
  "chunk_extensions [] = Inr ()"
| "chunk_extensions (x # r) =
     (if x \<noteq> 59 then Inl (bad_ext ''invalid chunk extension'')
      else
        let name = takeWhile (\<lambda>c. c \<noteq> 59 \<and> c \<noteq> 61) r;
            r1 = dropWhile (\<lambda>c. c \<noteq> 59 \<and> c \<noteq> 61) r
        in if \<not> is_token name then Inl (bad_ext ''invalid chunk extension name'')
           else (case r1 of
             [] \<Rightarrow> Inr ()
           | y # r2 \<Rightarrow>
               if y = 59 then chunk_extensions r1
               else (case r2 of
                 [] \<Rightarrow> Inl (bad_ext ''empty chunk extension value'')
               | z # r3 \<Rightarrow>
                   if z = 34 then
                     (case scan_quoted False r3 of (q, rest) \<Rightarrow>
                       if \<not> quoted_chunk_extension_value (34 # q)
                       then Inl (bad_ext ''invalid quoted chunk extension value'')
                       else if rest \<noteq> [] \<and> hd rest \<noteq> 59
                       then Inl (bad_ext ''bytes follow quoted chunk extension value'')
                       else chunk_extensions rest)
                   else if \<not> is_token (takeWhile (\<lambda>c. c \<noteq> 59) r2)
                   then Inl (bad_ext ''invalid chunk extension value'')
                   else chunk_extensions (dropWhile (\<lambda>c. c \<noteq> 59) r2))))"
  by pat_completeness auto

termination
proof (relation "measure length", goal_cases)
  case 1
  then show ?case by simp
next
  case (2 x r name r1 y r2)
  then show ?case
    by (simp add: length_dropWhile_le le_imp_less_Suc)
next
  case (3 x r name r1 y r2 z r3 q rest)
  then have "length rest \<le> length r3"
    by (metis scan_quoted_length snd_conv)
  with 3 show ?case
    using dropWhile_Cons_length [of "\<lambda>c. c \<noteq> 59 \<and> c \<noteq> 61" r y r2] by simp
next
  case (4 x r name r1 y r2 z r3)
  then show ?case
    using dropWhile_Cons_length [of "\<lambda>c. c \<noteq> 59 \<and> c \<noteq> 61" r y r2]
      length_dropWhile_le [of "\<lambda>c. c \<noteq> 59" r2] by simp
qed

declare chunk_extensions.simps [simp del]

text \<open>The digit loop.\<close>

fun chunk_digits :: "bytes \<Rightarrow> int \<Rightarrow> int result" where
  "chunk_digits [] n = Inr n"
| "chunk_digits (c # cs) n =
     (if is_hex c then chunk_digits cs (n * 16 + hex_val c)
      else Inl (Http1Error 400 ''bad-chunk-size'' ''non-hex chunk size''))"

definition parse_chunk_size_line :: "bytes \<Rightarrow> int result" where
  "parse_chunk_size_line line =
     (let semicolon = py_find 59 line;
          size_end = (if semicolon < 0 then int (length line) else semicolon)
      in if size_end = 0 \<or> size_end > 16
         then Inl (Http1Error 400 ''bad-chunk-size'' ''invalid chunk size'')
         else rbind (chunk_digits (take (nat size_end) line) 0) (\<lambda>n.
              rbind (chunk_extensions (drop (nat size_end) line)) (\<lambda>_. Inr n)))"

section \<open>Text and header lines\<close>

definition latin1_text :: "bytes \<Rightarrow> pystr" where
  "latin1_text data = map (\<lambda>value. value) data"

fun latin1_bytes :: "pystr \<Rightarrow> bytes result" where
  "latin1_bytes [] = Inr []"
| "latin1_bytes (c # cs) =
     (if c > 255 then Inl (Http1Error 500 ''bad-header'' ''header value is outside Latin-1'')
      else rbind (latin1_bytes cs) (\<lambda>bs. Inr (c # bs)))"

type_synonym header = "pystr \<times> pystr"
type_synonym header_names = "pystr \<rightharpoonup> pystr list"

definition is_blank :: "int \<Rightarrow> bool" where
  "is_blank c \<longleftrightarrow> c = 32 \<or> c = 9"

text \<open>One line: \<open>None\<close> for an empty line, which the loop skips.\<close>

definition parse_header_line :: "bytes \<Rightarrow> int \<Rightarrow> nat \<Rightarrow> header option result" where
  "parse_header_line line max_count count =
     (if line = [] then Inr None
      else if hd line = 32 \<or> hd line = 9
      then Inl (Http1Error 400 ''obs-fold'' ''folded header lines are rejected'')
      else
        let colon = py_find 58 line in
        if colon \<le> 0
        then Inl (Http1Error 400 ''bad-header'' ''header is missing a field name'')
        else
          let name_bytes = take (nat colon) line; value_bytes = drop (nat colon + 1) line in
          if \<not> is_token name_bytes
          then Inl (Http1Error 400 ''bad-header-name'' ''invalid header field name'')
          else if contains_bad_value_byte value_bytes
          then Inl (Http1Error 400 ''bad-header-value'' ''invalid header field value'')
          else if int count \<ge> max_count
          then Inl (Http1Error 431 ''too-many-headers'' ''header count limit exceeded'')
          else Inr (Some (py_lower name_bytes, strip_by is_blank (latin1_text value_bytes))))"

definition add_name :: "header \<Rightarrow> header_names \<Rightarrow> header_names" where
  "add_name h names =
     (case names (fst h) of
       Some vs \<Rightarrow> names(fst h \<mapsto> vs @ [snd h])
     | None \<Rightarrow> names(fst h \<mapsto> [snd h]))"

fun parse_headers_loop ::
  "bytes list \<Rightarrow> int \<Rightarrow> header list \<Rightarrow> header_names \<Rightarrow> (header list \<times> header_names) result" where
  "parse_headers_loop [] max_count headers names = Inr (headers, names)"
| "parse_headers_loop (line # lines) max_count headers names =
     (case parse_header_line line max_count (length headers) of
       Inl e \<Rightarrow> Inl e
     | Inr None \<Rightarrow> parse_headers_loop lines max_count headers names
     | Inr (Some h) \<Rightarrow> parse_headers_loop lines max_count (headers @ [h]) (add_name h names))"

definition parse_headers :: "bytes list \<Rightarrow> int \<Rightarrow> (header list \<times> header_names) result" where
  "parse_headers lines max_count = parse_headers_loop lines max_count [] Map.empty"

section \<open>The request head\<close>

record request_head =
  rh_method :: pystr
  rh_target :: pystr
  rh_version :: pystr
  rh_headers :: "header list"
  rh_keep_alive :: bool
  rh_expect_continue :: bool
  rh_content_length :: int
  rh_chunked :: bool

fun header_lookup :: "header list \<Rightarrow> pystr \<Rightarrow> pystr option" where
  "header_lookup [] wanted = None"
| "header_lookup ((k, v) # hs) wanted = (if k = wanted then Some v else header_lookup hs wanted)"

definition rh_header :: "request_head \<Rightarrow> pystr \<Rightarrow> pystr option" where
  "rh_header r name = header_lookup (rh_headers r) (py_lower name)"

definition parse_request_line :: "int \<Rightarrow> bytes \<Rightarrow> (bytes \<times> bytes \<times> bytes) result" where
  "parse_request_line max_request_line line =
     (if line = [] then Inl (Http1Error 400 ''empty-request-line'' ''request line is empty'')
      else if int (length line) > max_request_line
      then Inl (Http1Error 414 ''request-line-too-long'' ''request line limit exceeded'')
      else if 9 \<in> set line
      then Inl (Http1Error 400 ''bad-request-line'' ''invalid request-line spacing'')
      else (case py_split 32 line of
        [method_bytes, target_bytes, version_bytes] \<Rightarrow>
          if \<not> is_token method_bytes
          then Inl (Http1Error 400 ''bad-method'' ''invalid HTTP method'')
          else if target_bytes = []
          then Inl (Http1Error 400 ''bad-target'' ''empty request target'')
          else if hd target_bytes \<noteq> 47
          then Inl (Http1Error 400 ''unsupported-target-form''
                     ''gateway requires an origin-form request target'')
          else if list_ex (\<lambda>value. value \<le> 32 \<or> value = 127) target_bytes
          then Inl (Http1Error 400 ''bad-target'' ''invalid request target byte'')
          else if version_bytes \<noteq> cp ''HTTP/1.1'' \<and> version_bytes \<noteq> cp ''HTTP/1.0''
          then Inl (Http1Error 505 ''bad-version'' ''unsupported HTTP version'')
          else Inr (method_bytes, target_bytes, version_bytes)
      | _ \<Rightarrow> Inl (Http1Error 400 ''bad-request-line'' ''invalid request-line spacing'')))"

definition check_host :: "bytes \<Rightarrow> header_names \<Rightarrow> unit result" where
  "check_host version_bytes names =
     (case names (cp ''host'') of
       None \<Rightarrow>
         if version_bytes = cp ''HTTP/1.1''
         then Inl (Http1Error 400 ''missing-host'' ''HTTP/1.1 requires Host'') else Inr ()
     | Some vs \<Rightarrow>
         if length vs \<noteq> 1
         then Inl (Http1Error 400 ''duplicate-host'' ''multiple Host fields rejected'') else Inr ())"

text \<open>\<open>-1\<close> stands for an absent field, as in the code.\<close>

definition parse_content_length :: "int \<Rightarrow> header_names \<Rightarrow> int result" where
  "parse_content_length max_body_bytes names =
     (case names (cp ''content-length'') of
       None \<Rightarrow> Inr (-1)
     | Some vs \<Rightarrow>
         if length vs \<noteq> 1 \<or> 44 \<in> set (hd vs)
         then Inl (Http1Error 400 ''ambiguous-length'' ''multiple Content-Length values rejected'')
         else
           let raw_length = hd vs in
           if raw_length = []
           then Inl (Http1Error 400 ''bad-content-length'' ''empty Content-Length'')
           else if list_ex (\<lambda>c. c < 48 \<or> c > 57) raw_length
           then Inl (Http1Error 400 ''bad-content-length'' ''non-decimal Content-Length'')
           else if py_int_dec raw_length > max_body_bytes
           then Inl (Http1Error 413 ''body-too-large'' ''request body limit exceeded'')
           else Inr (py_int_dec raw_length))"

definition tokens_of :: "pystr \<Rightarrow> header_names \<Rightarrow> pystr list" where
  "tokens_of name names =
     (case names name of None \<Rightarrow> [] | Some vs \<Rightarrow> concat (map split_commas vs))"

definition parse_transfer_encoding :: "int \<Rightarrow> header_names \<Rightarrow> bool result" where
  "parse_transfer_encoding content_length names =
     (if names (cp ''transfer-encoding'') = None then Inr False
      else if content_length \<ge> 0
      then Inl (Http1Error 400 ''ambiguous-framing''
                 ''Transfer-Encoding with Content-Length rejected'')
      else if tokens_of (cp ''transfer-encoding'') names \<noteq> [cp ''chunked'']
      then Inl (Http1Error 501 ''unsupported-transfer-coding''
                 ''only a final chunked coding is supported'')
      else Inr True)"

definition connection_keep_alive :: "bytes \<Rightarrow> header_names \<Rightarrow> bool" where
  "connection_keep_alive version names =
     (let connection_tokens = tokens_of (cp ''connection'') names in
      if cp ''close'' \<in> set connection_tokens then False
      else if version = cp ''HTTP/1.0'' \<and> cp ''keep-alive'' \<in> set connection_tokens then True
      else version = cp ''HTTP/1.1'')"

definition parse_expect :: "header_names \<Rightarrow> bool result" where
  "parse_expect names =
     (if names (cp ''expect'') = None then Inr False
      else if tokens_of (cp ''expect'') names \<noteq> [cp ''100-continue'']
      then Inl (Http1Error 417 ''unsupported-expectation'' ''unsupported Expect value'')
      else Inr True)"

section \<open>The incremental decoder\<close>

datatype decoder_state = HEAD | FIXED_BODY | CHUNK_SIZE | CHUNK_DATA | TRAILERS

record codec =
  cd_max_request_line :: int
  cd_max_header_bytes :: int
  cd_max_header_count :: int
  cd_max_body_bytes :: int
  cd_max_chunk_bytes :: int
  cd_buffer :: bytes
  cd_state :: decoder_state
  cd_remaining :: nat
  cd_body_received :: nat
  cd_closed :: bool

datatype http_event =
    EvHead request_head
  | EvBody bytes
  | EvEnd "header list"

definition codec_new :: "int \<Rightarrow> int \<Rightarrow> int \<Rightarrow> int \<Rightarrow> int \<Rightarrow> codec result" where
  "codec_new max_request_line max_header_bytes max_header_count max_body_bytes max_chunk_bytes =
     (if max_request_line \<le> 0 \<or> max_header_bytes \<le> 0
      then Inl (ValueError ''HTTP line/header limits must be positive'')
      else Inr \<lparr>cd_max_request_line = max_request_line, cd_max_header_bytes = max_header_bytes,
                cd_max_header_count = max_header_count, cd_max_body_bytes = max_body_bytes,
                cd_max_chunk_bytes = max_chunk_bytes, cd_buffer = [], cd_state = HEAD,
                cd_remaining = 0, cd_body_received = 0, cd_closed = False\<rparr>)"

definition reset_message :: "codec \<Rightarrow> codec" where
  "reset_message c = c\<lparr>cd_state := HEAD, cd_remaining := 0, cd_body_received := 0\<rparr>"

text \<open>The parsing part of \<open>_parse_head\<close>: every check in the code's order.\<close>

definition parse_head :: "codec \<Rightarrow> bytes \<Rightarrow> request_head result" where
  "parse_head c block =
     (let lines = split_crlf block in
      rbind (parse_request_line (cd_max_request_line c) (hd lines)) (\<lambda>(method, target, version).
      rbind (parse_headers (tl lines) (cd_max_header_count c)) (\<lambda>(headers, names).
      rbind (check_host version names) (\<lambda>_.
      rbind (parse_content_length (cd_max_body_bytes c) names) (\<lambda>content_length.
      rbind (parse_transfer_encoding content_length names) (\<lambda>chunked.
      rbind (parse_expect names) (\<lambda>expect_continue.
      Inr \<lparr>rh_method = method, rh_target = latin1_text target, rh_version = version,
           rh_headers = headers, rh_keep_alive = connection_keep_alive version names,
           rh_expect_continue = expect_continue,
           rh_content_length = (if chunked \<or> content_length \<ge> 0 then content_length else 0),
           rh_chunked = chunked\<rparr>)))))))"

text \<open>The state the decoder enters after a head, and whether a body follows.\<close>

definition enter_body :: "codec \<Rightarrow> request_head \<Rightarrow> codec \<times> bool" where
  "enter_body c r =
     (if rh_chunked r then (c\<lparr>cd_state := CHUNK_SIZE\<rparr>, True)
      else if rh_content_length r > 0
      then (c\<lparr>cd_state := FIXED_BODY, cd_remaining := nat (rh_content_length r)\<rparr>, True)
      else (reset_message c, False))"

text \<open>How one iteration of the loop ends: \<open>break\<close>, another iteration, or another
  iteration after a completed message (which counts against \<open>max_messages\<close>).\<close>

datatype loop_ctl = Break | Next | MessageDone

definition step_head :: "codec \<Rightarrow> codec \<times> http_event list \<times> loop_ctl result" where
  "step_head c =
     (let buf = cd_buffer c; marker = find_double_crlf buf in
      if marker < 0 then
        if int (length buf) > cd_max_header_bytes c
        then (c, [], Inl (Http1Error 431 ''headers-too-large'' ''header byte limit exceeded''))
        else if find_crlf buf < 0 \<and> int (length buf) > cd_max_request_line c
        then (c, [], Inl (Http1Error 414 ''request-line-too-long'' ''request line limit exceeded''))
        else (c, [], Inr Break)
      else if marker + 4 > cd_max_header_bytes c
      then (c, [], Inl (Http1Error 431 ''headers-too-large'' ''header byte limit exceeded''))
      else
        let block = take (nat marker) buf; c1 = c\<lparr>cd_buffer := drop (nat marker + 4) buf\<rparr> in
        (case parse_head c1 block of
          Inl e \<Rightarrow> (c1, [], Inl e)
        | Inr r \<Rightarrow>
            (case enter_body c1 r of
              (c2, True) \<Rightarrow> (c2, [EvHead r], Inr Next)
            | (c2, False) \<Rightarrow> (c2, [EvHead r, EvEnd []], Inr MessageDone))))"

definition step_fixed :: "codec \<Rightarrow> codec \<times> http_event list \<times> loop_ctl result" where
  "step_fixed c =
     (let buf = cd_buffer c in
      if buf = [] then (c, [], Inr Break)
      else
        let n = min (cd_remaining c) (length buf);
            c1 = c\<lparr>cd_buffer := drop n buf, cd_remaining := cd_remaining c - n,
                   cd_body_received := cd_body_received c + n\<rparr>;
            evs = (if n > 0 then [EvBody (take n buf)] else [])
        in if cd_remaining c1 = 0 then (reset_message c1, evs @ [EvEnd []], Inr MessageDone)
           else (c1, evs, Inr Break))"

definition step_chunk_size :: "codec \<Rightarrow> codec \<times> http_event list \<times> loop_ctl result" where
  "step_chunk_size c =
     (let buf = cd_buffer c; marker = find_crlf buf in
      if marker < 0 then
        if length buf > 128
        then (c, [], Inl (Http1Error 400 ''chunk-line-too-long'' ''chunk-size line limit exceeded''))
        else (c, [], Inr Break)
      else if marker > 128
      then (c, [], Inl (Http1Error 400 ''chunk-line-too-long'' ''chunk-size line limit exceeded''))
      else
        let c1 = c\<lparr>cd_buffer := drop (nat marker + 2) buf\<rparr> in
        (case parse_chunk_size_line (take (nat marker) buf) of
          Inl e \<Rightarrow> (c1, [], Inl e)
        | Inr n \<Rightarrow>
            if n > cd_max_chunk_bytes c
            then (c1, [], Inl (Http1Error 413 ''chunk-too-large'' ''chunk size limit exceeded''))
            else if int (cd_body_received c) + n > cd_max_body_bytes c
            then (c1, [], Inl (Http1Error 413 ''body-too-large'' ''request body limit exceeded''))
            else if n = 0 then (c1\<lparr>cd_state := TRAILERS\<rparr>, [], Inr Next)
            else (c1\<lparr>cd_remaining := nat n, cd_state := CHUNK_DATA\<rparr>, [], Inr Next)))"

definition step_chunk_data :: "codec \<Rightarrow> codec \<times> http_event list \<times> loop_ctl result" where
  "step_chunk_data c =
     (let buf = cd_buffer c; n = cd_remaining c in
      if length buf < n + 2 then (c, [], Inr Break)
      else if buf ! n \<noteq> 13 \<or> buf ! (n + 1) \<noteq> 10
      then (c, [], Inl (Http1Error 400 ''bad-chunk-ending'' ''chunk data missing CRLF''))
      else (c\<lparr>cd_buffer := drop (n + 2) buf, cd_body_received := cd_body_received c + n,
              cd_remaining := 0, cd_state := CHUNK_SIZE\<rparr>, [EvBody (take n buf)], Inr Next))"

definition step_trailers :: "codec \<Rightarrow> codec \<times> http_event list \<times> loop_ctl result" where
  "step_trailers c =
     (let buf = cd_buffer c in
      if length buf \<ge> 2 \<and> buf ! 0 = 13 \<and> buf ! 1 = 10
      then (reset_message (c\<lparr>cd_buffer := drop 2 buf\<rparr>), [EvEnd []], Inr MessageDone)
      else
        let marker = find_double_crlf buf in
        if marker < 0 then
          if int (length buf) > cd_max_header_bytes c
          then (c, [], Inl (Http1Error 431 ''trailers-too-large'' ''trailer byte limit exceeded''))
          else (c, [], Inr Break)
        else if marker + 4 > cd_max_header_bytes c
        then (c, [], Inl (Http1Error 431 ''trailers-too-large'' ''trailer byte limit exceeded''))
        else
          let c1 = c\<lparr>cd_buffer := drop (nat marker + 4) buf\<rparr> in
          (case parse_headers (split_crlf (take (nat marker) buf)) (cd_max_header_count c) of
            Inl e \<Rightarrow> (c1, [], Inl e)
          | Inr (trailers, names) \<Rightarrow>
              if names (cp ''content-length'') \<noteq> None \<or> names (cp ''transfer-encoding'') \<noteq> None
                 \<or> names (cp ''host'') \<noteq> None
              then (c1, [], Inl (Http1Error 400 ''forbidden-trailer''
                                  ''framing or routing field in trailers''))
              else (reset_message c1, [EvEnd trailers], Inr MessageDone)))"

fun codec_step :: "codec \<Rightarrow> codec \<times> http_event list \<times> loop_ctl result" where
  "codec_step c =
     (case cd_state c of
       HEAD \<Rightarrow> step_head c
     | FIXED_BODY \<Rightarrow> step_fixed c
     | CHUNK_SIZE \<Rightarrow> step_chunk_size c
     | CHUNK_DATA \<Rightarrow> step_chunk_data c
     | TRAILERS \<Rightarrow> step_trailers c)"

declare codec_step.simps [simp del]

subsection \<open>Progress of the loop\<close>

lemma find_crlf_ge: "find_crlf xs \<ge> -1"
  by (induction xs rule: find_crlf.induct) (auto simp: Let_def)

lemma find_double_crlf_ge: "find_double_crlf xs \<ge> -1"
  by (induction xs rule: find_double_crlf.induct) (auto simp: Let_def)

lemma find_crlf_bound: "0 \<le> find_crlf xs \<Longrightarrow> nat (find_crlf xs) + 2 \<le> length xs"
  by (induction xs rule: find_crlf.induct) (auto simp: Let_def split: if_splits)

lemma find_double_crlf_bound:
  "0 \<le> find_double_crlf xs \<Longrightarrow> nat (find_double_crlf xs) + 4 \<le> length xs"
  by (induction xs rule: find_double_crlf.induct) (auto simp: Let_def split: if_splits)

definition codec_measure :: "codec \<Rightarrow> nat" where
  "codec_measure c = 2 * length (cd_buffer c) + (if cd_state c = FIXED_BODY then 1 else 0)"

lemma reset_message_simps [simp]:
  "cd_buffer (reset_message c) = cd_buffer c"
  "cd_state (reset_message c) = HEAD"
  "cd_remaining (reset_message c) = 0"
  "cd_body_received (reset_message c) = 0"
  "cd_closed (reset_message c) = cd_closed c"
  "cd_max_request_line (reset_message c) = cd_max_request_line c"
  "cd_max_header_bytes (reset_message c) = cd_max_header_bytes c"
  "cd_max_header_count (reset_message c) = cd_max_header_count c"
  "cd_max_body_bytes (reset_message c) = cd_max_body_bytes c"
  "cd_max_chunk_bytes (reset_message c) = cd_max_chunk_bytes c"
  by (simp_all add: reset_message_def)

lemma enter_body_buffer: "enter_body c r = (c2, b) \<Longrightarrow> cd_buffer c2 = cd_buffer c"
  by (auto simp: enter_body_def split: if_splits)

lemma step_head_measure:
  assumes "step_head c = (c', es, Inr k)" "k \<noteq> Break"
  shows "length (cd_buffer c') < length (cd_buffer c)"
proof -
  from assms have m: "0 \<le> find_double_crlf (cd_buffer c)"
    by (auto simp: step_head_def Let_def split: if_splits)
  with assms show ?thesis
    using find_double_crlf_bound [OF m] enter_body_buffer
    by (auto simp: step_head_def Let_def split: if_splits sum.splits prod.splits bool.splits;
        fastforce)
qed

lemma step_chunk_size_measure:
  assumes "step_chunk_size c = (c', es, Inr k)" "k \<noteq> Break"
  shows "length (cd_buffer c') < length (cd_buffer c)"
  using assms find_crlf_bound [of "cd_buffer c"]
  by (auto simp: step_chunk_size_def Let_def split: if_splits sum.splits)

lemma step_chunk_data_measure:
  assumes "step_chunk_data c = (c', es, Inr k)" "k \<noteq> Break"
  shows "length (cd_buffer c') < length (cd_buffer c)"
  using assms by (auto simp: step_chunk_data_def Let_def split: if_splits)

lemma step_trailers_measure:
  assumes "step_trailers c = (c', es, Inr k)" "k \<noteq> Break"
  shows "length (cd_buffer c') < length (cd_buffer c)"
  using assms find_double_crlf_bound [of "cd_buffer c"]
  by (auto simp: step_trailers_def Let_def split: if_splits sum.splits prod.splits)

lemma step_fixed_measure:
  assumes "step_fixed c = (c', es, Inr k)" "k \<noteq> Break" "cd_state c = FIXED_BODY"
  shows "codec_measure c' < codec_measure c"
  using assms by (auto simp: step_fixed_def codec_measure_def Let_def split: if_splits)

lemma codec_step_measure:
  assumes "codec_step c = (c', es, Inr k)" "k \<noteq> Break"
  shows "codec_measure c' < codec_measure c"
proof (cases "cd_state c = FIXED_BODY")
  case True
  with assms show ?thesis
    using step_fixed_measure by (simp add: codec_step.simps)
next
  case False
  with assms have "length (cd_buffer c') < length (cd_buffer c)"
    using step_head_measure step_chunk_size_measure step_chunk_data_measure step_trailers_measure
    by (cases "cd_state c") (auto simp: codec_step.simps)
  then show ?thesis
    by (auto simp: codec_measure_def)
qed

function feed_loop :: "int \<Rightarrow> int \<Rightarrow> codec \<Rightarrow> codec \<times> http_event list \<times> unit result" where
  "feed_loop max_messages completed c =
     (case codec_step c of
       (c', es, Inl e) \<Rightarrow> (c', es, Inl e)
     | (c', es, Inr Break) \<Rightarrow> (c', es, Inr ())
     | (c', es, Inr Next) \<Rightarrow>
         (case feed_loop max_messages completed c' of (c2, fs, r) \<Rightarrow> (c2, es @ fs, r))
     | (c', es, Inr MessageDone) \<Rightarrow>
         if max_messages > 0 \<and> completed + 1 \<ge> max_messages then (c', es, Inr ())
         else (case feed_loop max_messages (completed + 1) c' of (c2, fs, r) \<Rightarrow> (c2, es @ fs, r)))"
  by pat_completeness auto

termination
proof (relation "measure (\<lambda>(m, k, c). codec_measure c)", goal_cases)
  case 1
  show ?case by simp
next
  case (2 m k c c2 y es r)
  then show ?case using codec_step_measure [of c c2 es Next] by simp
next
  case (3 m k c c2 y es r)
  then show ?case using codec_step_measure [of c c2 es MessageDone] by simp
qed

declare feed_loop.simps [simp del]

text \<open>The same equation in the shape the evaluator handles.\<close>

definition prepend_events ::
  "http_event list \<Rightarrow> codec \<times> http_event list \<times> unit result \<Rightarrow> codec \<times> http_event list \<times> unit result"
  where "prepend_events es x = (case x of (c2, fs, r) \<Rightarrow> (c2, es @ fs, r))"

lemma feed_loop_code [code]:
  "feed_loop m k c =
     (let s = codec_step c in
      case snd (snd s) of
        Inl e \<Rightarrow> (fst s, fst (snd s), Inl e)
      | Inr ctl \<Rightarrow>
          (if ctl = Break then (fst s, fst (snd s), Inr ())
           else if ctl = Next then prepend_events (fst (snd s)) (feed_loop m k (fst s))
           else if m > 0 \<and> k + 1 \<ge> m then (fst s, fst (snd s), Inr ())
           else prepend_events (fst (snd s)) (feed_loop m (k + 1) (fst s))))"
  by (subst feed_loop.simps, cases "codec_step c")
    (auto simp: prepend_events_def split: sum.split loop_ctl.split)

definition feed_pending ::
  "codec \<Rightarrow> bytes \<Rightarrow> int \<Rightarrow> codec \<times> http_event list \<times> unit result" where
  "feed_pending c data max_messages =
     (if max_messages < 0 then (c, [], Inl (ValueError ''max_messages must be non-negative''))
      else if cd_closed c
      then (c, [], Inl (Http1Error 400 ''connection-closed'' ''bytes received after close''))
      else feed_loop max_messages 0 (c\<lparr>cd_buffer := cd_buffer c @ data\<rparr>))"

text \<open>The public entry: an error drops (releases) the events decoded by this call.\<close>

definition feed :: "codec \<Rightarrow> bytes \<Rightarrow> int \<Rightarrow> codec \<times> http_event list result" where
  "feed c data max_messages =
     (case feed_pending c data max_messages of
       (c', es, Inl e) \<Rightarrow> (c', Inl e)
     | (c', es, Inr _) \<Rightarrow> (c', Inr es))"

text \<open>\<open>max_messages\<close> has the default 0.\<close>

definition feed0 :: "codec \<Rightarrow> bytes \<Rightarrow> codec \<times> http_event list result" where
  "feed0 c data = feed c data 0"

definition codec_eof :: "codec \<Rightarrow> codec \<times> unit result" where
  "codec_eof c =
     (c\<lparr>cd_closed := True\<rparr>,
      if cd_state c \<noteq> HEAD \<or> cd_buffer c \<noteq> []
      then Inl (Http1Error 400 ''incomplete-request'' ''connection closed during request'')
      else Inr ())"

section \<open>The response encoder\<close>

definition reason_phrase :: "int \<Rightarrow> pystr" where
  "reason_phrase status =
     (if status = 100 then cp ''Continue'' else if status = 200 then cp ''OK''
      else if status = 201 then cp ''Created'' else if status = 204 then cp ''No Content''
      else if status = 301 then cp ''Moved Permanently'' else if status = 302 then cp ''Found''
      else if status = 304 then cp ''Not Modified'' else if status = 400 then cp ''Bad Request''
      else if status = 404 then cp ''Not Found'' else if status = 405 then cp ''Method Not Allowed''
      else if status = 413 then cp ''Content Too Large''
      else if status = 417 then cp ''Expectation Failed''
      else if status = 431 then cp ''Request Header Fields Too Large''
      else if status = 500 then cp ''Internal Server Error''
      else if status = 502 then cp ''Bad Gateway''
      else if status = 503 then cp ''Service Unavailable''
      else if status = 504 then cp ''Gateway Timeout'' else [])"

text \<open>\<open>str.encode("utf-8")\<close>; a surrogate raises \<open>UnicodeError\<close>.\<close>

definition utf8_cp :: "int \<Rightarrow> bytes result" where
  "utf8_cp c =
     (if c < 128 then Inr [c]
      else if c < 2048 then Inr [192 + c div 64, 128 + c mod 64]
      else if 55296 \<le> c \<and> c \<le> 57343 then Inl UnicodeError
      else if c < 65536 then Inr [224 + c div 4096, 128 + c div 64 mod 64, 128 + c mod 64]
      else Inr [240 + c div 262144, 128 + c div 4096 mod 64, 128 + c div 64 mod 64, 128 + c mod 64])"

fun utf8_encode :: "pystr \<Rightarrow> bytes result" where
  "utf8_encode [] = Inr []"
| "utf8_encode (c # cs) = rbind (utf8_cp c) (\<lambda>b. rbind (utf8_encode cs) (\<lambda>bs. Inr (b @ bs)))"

definition validate_output_header :: "pystr \<Rightarrow> pystr \<Rightarrow> (bytes \<times> bytes) result" where
  "validate_output_header name value =
     (case utf8_encode name of
       Inl _ \<Rightarrow> Inl (Http1Error 500 ''bad-response-header'' ''response header encoding rejected'')
     | Inr name_bytes \<Rightarrow>
         rbind (latin1_bytes value) (\<lambda>value_bytes.
           if \<not> is_token name_bytes \<or> contains_bad_value_byte value_bytes
           then Inl (Http1Error 500 ''bad-response-header'' ''unsafe response header rejected'')
           else Inr (name_bytes, value_bytes)))"

definition crlf :: bytes where
  "crlf = [13, 10]"

text \<open>The header loop of \<open>head\<close> and of \<open>end_chunks\<close>; \<open>owned\<close> are the field names
  the encoder keeps to itself and \<open>err\<close> what it raises for them.\<close>

fun encode_headers :: "pystr list \<Rightarrow> exn \<Rightarrow> header list \<Rightarrow> bytes result" where
  "encode_headers owned err [] = Inr []"
| "encode_headers owned err ((name, value) # hs) =
     rbind (validate_output_header name value) (\<lambda>(name_bytes, value_bytes).
       if py_lower name \<in> set owned then Inl err
       else rbind (encode_headers owned err hs) (\<lambda>rest.
         Inr (name_bytes @ cp '': '' @ value_bytes @ crlf @ rest)))"

definition encode_response_head ::
  "int \<Rightarrow> header list \<Rightarrow> int \<Rightarrow> bool \<Rightarrow> bool \<Rightarrow> bytes result" where
  "encode_response_head status headers content_length chunked keep_alive =
     (if content_length \<ge> 0 \<and> chunked
      then Inl (ValueError ''response cannot be both fixed-length and chunked'')
      else rbind
        (encode_headers [cp ''content-length'', cp ''transfer-encoding'', cp ''connection'']
          (Http1Error 500 ''response-framing-owned''
            ''response framing headers belong to the gateway encoder'') headers)
        (\<lambda>fields. Inr (cp ''HTTP/1.1 '' @ py_str_int status @ cp '' '' @ reason_phrase status @ crlf
           @ fields
           @ (if content_length \<ge> 0 then cp ''Content-Length: '' @ py_str_int content_length @ crlf
              else [])
           @ (if chunked then cp ''Transfer-Encoding: chunked'' @ crlf else [])
           @ (if \<not> keep_alive then cp ''Connection: close'' @ crlf else [])
           @ crlf)))"

definition encode_chunk :: "bytes \<Rightarrow> bytes" where
  "encode_chunk data =
     (if length data = 0 then [] else py_hex_nat (length data) @ crlf @ data @ crlf)"

definition encode_end_chunks :: "header list \<Rightarrow> bytes result" where
  "encode_end_chunks trailers =
     rbind (encode_headers
        [cp ''content-length'', cp ''transfer-encoding'', cp ''connection'', cp ''host'']
        (Http1Error 500 ''bad-response-trailer'' ''framing field in response trailer'') trailers)
       (\<lambda>fields. Inr (cp ''0'' @ crlf @ fields @ crlf))"

end
