(* ===== verification/Stream_Decoder.thy ===== *)
theory Stream_Decoder
  imports Prelude
begin

text \<open>
  The contract of an incremental decoder: bytes are fed in fragments, each call returns the
  events it could complete or raises.  What the gateway relies on is that the boundaries of the
  fragments, which are chosen by the network, do not show in what is decoded.  Body events may be
  cut differently, so results are compared through \<open>wire\<close>, a homomorphism that forgets the cuts.

  The locale is interpreted by the server codec (\<open>Http1_Fragments\<close>) and by the upstream response
  codec (\<open>Upstream_Codec\<close>).
\<close>

definition seq_result :: "'e list \<Rightarrow> 's \<times> 'e list result \<Rightarrow> 's \<times> 'e list result" where
  "seq_result es q = (fst q, case snd q of Inl e \<Rightarrow> Inl e | Inr fs \<Rightarrow> Inr (es @ fs))"

fun feed_seq ::
  "('s \<Rightarrow> bytes \<Rightarrow> 's \<times> 'e list result) \<Rightarrow> 's \<Rightarrow> bytes list \<Rightarrow> 's \<times> 'e list result" where
  "feed_seq f s [] = (s, Inr [])"
| "feed_seq f s (d # ds) =
     (let r = f s d in
      case snd r of
        Inl e \<Rightarrow> (fst r, Inl e)
      | Inr es \<Rightarrow> seq_result es (feed_seq f (fst r) ds))"

lemma feed_seq_Cons_Inr:
  "feed_seq f s (d # ds) = (s', Inr es) \<longleftrightarrow>
     (\<exists>s1 es1 es2. f s d = (s1, Inr es1) \<and> feed_seq f s1 ds = (s', Inr es2) \<and> es = es1 @ es2)"
  by (cases "f s d"; cases "feed_seq f (fst (f s d)) ds")
    (auto simp: seq_result_def Let_def split: sum.splits)

declare feed_seq.simps(2) [simp del]

locale stream_decoder =
  fixes f :: "'s \<Rightarrow> bytes \<Rightarrow> 's \<times> 'e list result"
    and wire :: "'e list \<Rightarrow> 'w list"
  assumes wire_append: "wire (xs @ ys) = wire xs @ wire ys"
    and feed_split:
      "f s a = (s1, Inr es) \<Longrightarrow> f s1 b = (s2, Inr fs) \<Longrightarrow>
       \<exists>gs. f s (a @ b) = (s2, Inr gs) \<and> wire gs = wire es @ wire fs"
begin

lemma wire_Nil: "wire [] = []"
  using wire_append [of "[]" "[]"] by simp

lemma feed_seq_concat:
  "feed_seq f s (d # ds) = (s', Inr es) \<Longrightarrow>
   \<exists>gs. f s (concat (d # ds)) = (s', Inr gs) \<and> wire gs = wire es"
proof (induction ds arbitrary: s d es s')
  case Nil
  then show ?case
    by (auto simp: feed_seq_Cons_Inr)
next
  case (Cons d2 ds)
  from Cons.prems obtain s1 es1 es2 where
    1: "f s d = (s1, Inr es1)" "feed_seq f s1 (d2 # ds) = (s', Inr es2)" "es = es1 @ es2"
    by (auto simp: feed_seq_Cons_Inr [of f s d "d2 # ds"])
  from Cons.IH [OF 1(2)] obtain gs where
    2: "f s1 (concat (d2 # ds)) = (s', Inr gs)" "wire gs = wire es2"
    by blast
  from feed_split [OF 1(1) 2(1)] 2(2) 1(3) show ?case
    by (auto simp: wire_append)
qed

lemma fragments_irrelevant:
  assumes "feed_seq f s (d # ds) = (s1, Inr es)" "feed_seq f s (d' # ds') = (s2, Inr fs)"
    and "concat (d # ds) = concat (d' # ds')"
  shows "s1 = s2 \<and> wire es = wire fs"
  using feed_seq_concat [OF assms(1)] feed_seq_concat [OF assms(2)] assms(3) by auto

end

text \<open>A decoder whose errors do not depend on the cuts either, once the earlier fragments were
  accepted.\<close>

locale exact_stream_decoder = stream_decoder f wire
  for f :: "'s \<Rightarrow> bytes \<Rightarrow> 's \<times> 'e list result" and wire :: "'e list \<Rightarrow> 'w list" +
  assumes feed_split_error:
    "f s a = (s1, Inr es) \<Longrightarrow> f s1 b = (s2, Inl e) \<Longrightarrow> f s (a @ b) = (s2, Inl e)"
begin

lemma last_fragment_error:
  assumes "feed_seq f s (d # ds) = (s1, Inr es)" "f s1 b = (s2, Inl e)"
  shows "f s (concat (d # ds) @ b) = (s2, Inl e)"
  using feed_seq_concat [OF assms(1)] feed_split_error assms(2) by blast

end

end
