(* ===== verification/Http1_Fragments.thy ===== *)
theory Http1_Fragments
  imports Http1 Stream_Decoder
begin

text \<open>
  The server codec is insensitive to how the network fragments a connection: whatever prefix a
  first call of \<open>feed\<close> accepted, feeding the rest gives the events, the error and the decoder
  state of one call with all the bytes.  The only visible effect of a cut is that a body is
  delivered in more pieces, which \<open>wire_of\<close> forgets.
\<close>

datatype wire_token = TkHead request_head | TkByte int | TkEnd "header list"

fun wire_of_event :: "http_event \<Rightarrow> wire_token list" where
  "wire_of_event (EvHead r) = [TkHead r]"
| "wire_of_event (EvBody bs) = map TkByte bs"
| "wire_of_event (EvEnd ts) = [TkEnd ts]"

definition wire_of :: "http_event list \<Rightarrow> wire_token list" where
  "wire_of es = concat (map wire_of_event es)"

lemma wire_of_simps [simp]:
  "wire_of [] = []" "wire_of (e # es) = wire_of_event e @ wire_of es"
  "wire_of (es @ fs) = wire_of es @ wire_of fs"
  by (simp_all add: wire_of_def)

abbreviation with_more :: "codec \<Rightarrow> bytes \<Rightarrow> codec" where
  "with_more c b \<equiv> c\<lparr>cd_buffer := cd_buffer c @ b\<rparr>"

section \<open>The scanners on a longer buffer\<close>

lemma find_crlf_append: "0 \<le> find_crlf xs \<Longrightarrow> find_crlf (xs @ ys) = find_crlf xs"
  by (induction xs rule: find_crlf.induct) (auto simp: Let_def split: if_splits)

lemma find_double_crlf_append:
  "0 \<le> find_double_crlf xs \<Longrightarrow> find_double_crlf (xs @ ys) = find_double_crlf xs"
  by (induction xs rule: find_double_crlf.induct) (auto simp: Let_def split: if_splits)

section \<open>One iteration on a longer buffer\<close>

lemma parse_head_buffer [simp]: "parse_head (c\<lparr>cd_buffer := b\<rparr>) block = parse_head c block"
  by (simp add: parse_head_def)

lemma reset_message_buffer [simp]:
  "reset_message (c\<lparr>cd_buffer := b\<rparr>) = (reset_message c)\<lparr>cd_buffer := b\<rparr>"
  by (simp add: reset_message_def)

lemma enter_body_more:
  "enter_body (c\<lparr>cd_buffer := b\<rparr>) r =
     (let (c1, h) = enter_body c r in (c1\<lparr>cd_buffer := b\<rparr>, h))"
  by (simp add: enter_body_def)

lemma step_head_more:
  assumes "step_head c = (c', es, Inr k)" "k \<noteq> Break"
  shows "step_head (with_more c b) = (with_more c' b, es, Inr k)"
proof -
  from assms have m: "0 \<le> find_double_crlf (cd_buffer c)"
    by (auto simp: step_head_def Let_def split: if_splits)
  note b = find_double_crlf_bound [OF m]
  with m assms show ?thesis
    by (auto simp: step_head_def Let_def find_double_crlf_append enter_body_more
        split: if_splits sum.splits prod.splits bool.splits)
qed

lemma step_chunk_size_more:
  assumes "step_chunk_size c = (c', es, Inr k)" "k \<noteq> Break"
  shows "step_chunk_size (with_more c b) = (with_more c' b, es, Inr k)"
proof -
  from assms have m: "0 \<le> find_crlf (cd_buffer c)"
    by (auto simp: step_chunk_size_def Let_def split: if_splits)
  note b = find_crlf_bound [OF m]
  with m assms show ?thesis
    by (auto simp: step_chunk_size_def Let_def find_crlf_append split: if_splits sum.splits)
qed

lemma step_chunk_data_more:
  assumes "step_chunk_data c = (c', es, Inr k)" "k \<noteq> Break"
  shows "step_chunk_data (with_more c b) = (with_more c' b, es, Inr k)"
  using assms by (auto simp: step_chunk_data_def Let_def nth_append split: if_splits)

lemma step_trailers_more:
  assumes "step_trailers c = (c', es, Inr k)" "k \<noteq> Break"
  shows "step_trailers (with_more c b) = (with_more c' b, es, Inr k)"
proof (cases "length (cd_buffer c) \<ge> 2 \<and> cd_buffer c ! 0 = 13 \<and> cd_buffer c ! 1 = 10")
  case True
  with assms show ?thesis
    by (auto simp: step_trailers_def Let_def nth_append)
next
  case False
  with assms have m: "0 \<le> find_double_crlf (cd_buffer c)"
    by (auto simp: step_trailers_def Let_def split: if_splits)
  note b = find_double_crlf_bound [OF m]
  with m False assms show ?thesis
    by (auto simp: step_trailers_def Let_def find_double_crlf_append nth_append
        split: if_splits sum.splits prod.splits)
qed

lemma step_fixed_more:
  assumes "step_fixed c = (c', es, Inr k)" "k \<noteq> Break"
  shows "step_fixed (with_more c b) = (with_more c' b, es, Inr k)"
  using assms by (auto simp: step_fixed_def Let_def min_def split: if_splits)

lemma codec_step_more:
  assumes "codec_step c = (c', es, Inr k)" "k \<noteq> Break"
  shows "codec_step (with_more c b) = (with_more c' b, es, Inr k)"
  using assms step_head_more step_fixed_more step_chunk_size_more step_chunk_data_more
    step_trailers_more
  by (cases "cd_state c") (simp_all add: codec_step.simps)

text \<open>An iteration that stops for lack of bytes has left the state alone, unless it delivered
  the available part of a fixed-length body.\<close>

lemma codec_step_Break:
  assumes "codec_step c = (c', es, Inr Break)"
  shows "c' = c \<and> es = [] \<or>
    cd_state c = FIXED_BODY \<and> cd_buffer c \<noteq> [] \<and> length (cd_buffer c) < cd_remaining c \<and>
    es = [EvBody (cd_buffer c)] \<and>
    c' = c\<lparr>cd_buffer := [], cd_remaining := cd_remaining c - length (cd_buffer c),
           cd_body_received := cd_body_received c + length (cd_buffer c)\<rparr>"
proof (cases "cd_state c = FIXED_BODY")
  case True
  with assms show ?thesis
    by (auto simp: codec_step.simps step_fixed_def Let_def min_def split: if_splits)
next
  case False
  with assms have "c' = c \<and> es = []"
    by (cases "cd_state c")
      (auto simp: codec_step.simps step_head_def step_chunk_size_def step_chunk_data_def
        step_trailers_def Let_def split: if_splits sum.splits prod.splits bool.splits)
  then show ?thesis by simp
qed

section \<open>The loop on a longer buffer\<close>

text \<open>Without a message limit the count of completed messages is not consulted.\<close>

lemma feed_loop_count: "feed_loop 0 k c = feed_loop 0 k' c"
proof (induction "codec_measure c" arbitrary: k k' c rule: less_induct)
  case less
  obtain c2 fs q where step: "codec_step c = (c2, fs, q)"
    by (cases "codec_step c")
  have "q = Inr ctl \<Longrightarrow> ctl \<noteq> Break \<Longrightarrow> feed_loop 0 j c2 = feed_loop 0 j' c2" for ctl j j'
    using less.hyps codec_step_measure step by blast
  then show ?case
    by (subst (1 2) feed_loop.simps) (auto simp: step split: sum.splits loop_ctl.splits prod.splits;
        metis Pair_inject loop_ctl.distinct)
qed

definition run :: "codec \<Rightarrow> codec \<times> http_event list \<times> unit result" where
  "run c = feed_loop 0 0 c"

lemma run_error: "codec_step c = (c', es, Inl e) \<Longrightarrow> run c = (c', es, Inl e)"
  unfolding run_def by (subst feed_loop.simps) simp

lemma run_Break: "codec_step c = (c', es, Inr Break) \<Longrightarrow> run c = (c', es, Inr ())"
  unfolding run_def by (subst feed_loop.simps) simp

lemma run_step:
  assumes "codec_step c = (c', es, Inr k)" "k \<noteq> Break"
  shows "run c = (case run c' of (c2, fs, r) \<Rightarrow> (c2, es @ fs, r))"
  unfolding run_def using assms feed_loop_count [of 1 c' 0]
  by (subst feed_loop.simps, cases k) simp_all

lemma run_cases:
  obtains (error) c' es e where "codec_step c = (c', es, Inl e)"
  | (stop) c' es where "codec_step c = (c', es, Inr Break)"
  | (step) c' es k where "codec_step c = (c', es, Inr k)" "k \<noteq> Break"
  by (metis prod_cases3 sum.exhaust)

abbreviation same_run ::
  "codec \<times> http_event list \<times> unit result \<Rightarrow> http_event list \<Rightarrow>
   codec \<times> http_event list \<times> unit result \<Rightarrow> bool" where
  "same_run x es y \<equiv>
     fst x = fst y \<and> snd (snd x) = snd (snd y) \<and>
     wire_of (fst (snd x)) = wire_of es @ wire_of (fst (snd y))"

lemma fixed_body_resume:
  assumes "cd_state c = FIXED_BODY" "length (cd_buffer c) < cd_remaining c" "cd_buffer c \<noteq> []"
    and c': "c' = c\<lparr>cd_buffer := [], cd_remaining := cd_remaining c - length (cd_buffer c),
           cd_body_received := cd_body_received c + length (cd_buffer c)\<rparr>"
  shows "same_run (run (with_more c b)) [EvBody (cd_buffer c)] (run (with_more c' b))"
proof (cases "length (cd_buffer c) + length b < cd_remaining c")
  case True
  let ?r = "c\<lparr>cd_buffer := [], cd_remaining := cd_remaining c - length (cd_buffer c) - length b,
           cd_body_received := cd_body_received c + length (cd_buffer c) + length b\<rparr>"
  have "codec_step (with_more c b) = (?r, [EvBody (cd_buffer c @ b)], Inr Break)"
    using assms True by (simp add: codec_step.simps step_fixed_def Let_def)
  moreover have "codec_step (with_more c' b) = (?r, if b = [] then [] else [EvBody b], Inr Break)"
    using assms True by (simp add: codec_step.simps step_fixed_def Let_def)
  ultimately show ?thesis
    by (simp add: run_Break)
next
  case False
  let ?n = "cd_remaining c - length (cd_buffer c)"
  let ?r = "reset_message (c\<lparr>cd_buffer := drop ?n b\<rparr>)"
  have "codec_step (with_more c b) =
      (?r, [EvBody (cd_buffer c @ take ?n b), EvEnd []], Inr MessageDone)"
    using assms False by (simp add: codec_step.simps step_fixed_def Let_def reset_message_def)
  moreover have "codec_step (with_more c' b) = (?r, [EvBody (take ?n b), EvEnd []], Inr MessageDone)"
    using assms False by (auto simp: codec_step.simps step_fixed_def Let_def reset_message_def)
  ultimately show ?thesis
    by (simp add: run_step split: prod.split)
qed

lemma run_more:
  "run c = (c1, es, Inr ()) \<Longrightarrow> same_run (run (with_more c b)) es (run (with_more c1 b))"
proof (induction "codec_measure c" arbitrary: c es rule: less_induct)
  case less
  show ?case
  proof (cases c rule: run_cases)
    case (error c' es' e)
    with less.prems show ?thesis by (simp add: run_error)
  next
    case (stop c' es')
    with less.prems have "c1 = c'" "es = es'" by (simp_all add: run_Break)
    with codec_step_Break [OF stop] fixed_body_resume [of c c'] show ?thesis by auto
  next
    case (step c2 fs k)
    obtain gs where g: "run c2 = (c1, gs, Inr ())" "es = fs @ gs"
      using less.prems by (auto simp: run_step [OF step] split: prod.splits)
    have "same_run (run (with_more c2 b)) gs (run (with_more c1 b))"
      using less.hyps [OF codec_step_measure [OF step] g(1)] .
    then show ?thesis
      using g(2) by (simp add: run_step [OF codec_step_more [OF step] step(2)] split_def)
  qed
qed

lemma codec_step_closed: "codec_step c = (c', es, r) \<Longrightarrow> cd_closed c' = cd_closed c"
  by (cases "cd_state c")
    (auto simp: codec_step.simps step_head_def step_fixed_def step_chunk_size_def
      step_chunk_data_def step_trailers_def enter_body_def Let_def
      split: if_splits sum.splits prod.splits bool.splits)

lemma run_closed: "run c = (c', es, r) \<Longrightarrow> cd_closed c' = cd_closed c"
proof (induction "codec_measure c" arbitrary: c es rule: less_induct)
  case less
  show ?case
  proof (cases c rule: run_cases)
    case (step c2 fs k)
    then show ?thesis
      using less.hyps [OF codec_step_measure [OF step]] less.prems codec_step_closed [OF step(1)]
      by (auto simp: run_step [OF step] split: prod.splits)
  qed (use less.prems codec_step_closed in \<open>auto simp: run_error run_Break\<close>)
qed

lemma feed_run:
  "feed0 c d =
     (if cd_closed c
      then (c, Inl (Http1Error 400 ''connection-closed'' ''bytes received after close''))
      else case run (with_more c d) of (c', es, Inl e) \<Rightarrow> (c', Inl e) | (c', es, Inr _) \<Rightarrow> (c', Inr es))"
  by (simp add: feed0_def feed_def feed_pending_def run_def)

lemma feed_more:
  assumes "feed0 c a = (c1, Inr es)"
  shows "feed0 c (a @ b) = (c2, Inl e) \<longleftrightarrow> feed0 c1 b = (c2, Inl e)"
    and "feed0 c1 b = (c2, Inr fs) \<Longrightarrow>
         \<exists>gs. feed0 c (a @ b) = (c2, Inr gs) \<and> wire_of gs = wire_of es @ wire_of fs"
proof -
  from assms have open_c: "\<not> cd_closed c" by (simp add: feed_run split: if_splits)
  with assms have r: "run (with_more c a) = (c1, es, Inr ())"
    by (auto simp: feed_run split: prod.splits sum.splits)
  then have open_c1: "\<not> cd_closed c1" using run_closed [OF r] open_c by simp
  have "same_run (run (with_more c (a @ b))) es (run (with_more c1 b))"
    using run_more [OF r, of b] by simp
  then show "feed0 c (a @ b) = (c2, Inl e) \<longleftrightarrow> feed0 c1 b = (c2, Inl e)"
    and "feed0 c1 b = (c2, Inr fs) \<Longrightarrow>
         \<exists>gs. feed0 c (a @ b) = (c2, Inr gs) \<and> wire_of gs = wire_of es @ wire_of fs"
    using open_c open_c1 by (auto simp: feed_run split: prod.splits sum.splits)
qed

interpretation server: exact_stream_decoder feed0 wire_of
  by unfold_locales (use feed_more in auto)

section \<open>Properties\<close>

text \<open>A codec with small limits and a request that fits them, for the examples.\<close>

definition sample_codec :: codec where
  "sample_codec =
     \<lparr>cd_max_request_line = 16, cd_max_header_bytes = 64, cd_max_header_count = 4,
      cd_max_body_bytes = 16, cd_max_chunk_bytes = 8, cd_buffer = [], cd_state = HEAD,
      cd_remaining = 0, cd_body_received = 0, cd_closed = False\<rparr>"

definition sample_line :: bytes where
  "sample_line = cp ''POST /a HTTP/1.1''"

definition sample_head :: request_head where
  "sample_head =
     \<lparr>rh_method = cp ''POST'', rh_target = cp ''/a'', rh_version = cp ''HTTP/1.1'',
      rh_headers = [(cp ''host'', cp ''h''), (cp ''content-length'', cp ''3'')],
      rh_keep_alive = True, rh_expect_continue = False, rh_content_length = 3,
      rh_chunked = False\<rparr>"

definition sample_tail :: bytes where
  "sample_tail = cp ''Host: h'' @ crlf @ cp ''Content-Length: 3'' @ crlf @ crlf"

text \<open>C3 Fragmentation independence of the request decoder: if a sequence of fragments is
  accepted, one \<open>feed\<close> of all the bytes is accepted, reaches the same decoder state and delivers
  the same heads, body bytes and message ends in the same order.\<close>

theorem feed_fragments:
  assumes "feed_seq feed0 c (d # ds) = (c', Inr es)"
  shows "\<exists>gs. feed0 c (concat (d # ds)) = (c', Inr gs) \<and> wire_of gs = wire_of es"
  using server.feed_seq_concat [OF assms] .

theorem feed_fragments_witness:
  "\<exists>gs. feed0 sample_codec
      (concat [sample_line @ crlf, sample_tail @ [97], [98, 99] @ sample_line]) =
      (sample_codec\<lparr>cd_buffer := sample_line\<rparr>, Inr gs) \<and>
    wire_of gs = [TkHead sample_head, TkByte 97, TkByte 98, TkByte 99, TkEnd []]"
proof -
  have "feed_seq feed0 sample_codec
      [sample_line @ crlf, sample_tail @ [97], [98, 99] @ sample_line] =
      (sample_codec\<lparr>cd_buffer := sample_line\<rparr>,
       Inr [EvHead sample_head, EvBody [97], EvBody [98, 99], EvEnd []])"
    by code_simp
  from feed_fragments [OF this] show ?thesis by simp
qed

text \<open>Errors are found at the same place: after any accepted sequence of fragments, a last
  fragment that raises makes the unfragmented \<open>feed\<close> raise the same error and leave the same
  state.\<close>

theorem feed_fragments_error:
  assumes "feed_seq feed0 c (d # ds) = (c1, Inr es)" "feed0 c1 b = (c2, Inl e)"
  shows "feed0 c (concat (d # ds) @ b) = (c2, Inl e)"
  using server.last_fragment_error [OF assms] .

theorem feed_fragments_error_witness:
  "feed0 sample_codec (concat [sample_line @ crlf] @ cp ''Host: h'' @ crlf @ cp ''Bad'' @ crlf @ crlf) =
     (sample_codec, Inl (Http1Error 400 ''bad-header'' ''header is missing a field name''))"
proof -
  have "feed_seq feed0 sample_codec [sample_line @ crlf] =
      (sample_codec\<lparr>cd_buffer := sample_line @ crlf\<rparr>, Inr [])"
    by code_simp
  moreover have "feed0 (sample_codec\<lparr>cd_buffer := sample_line @ crlf\<rparr>)
      (cp ''Host: h'' @ crlf @ cp ''Bad'' @ crlf @ crlf) =
      (sample_codec, Inl (Http1Error 400 ''bad-header'' ''header is missing a field name''))"
    by code_simp
  ultimately show ?thesis
    by (rule feed_fragments_error)
qed

lemma find_crlf_no_lf: "10 \<notin> set xs \<Longrightarrow> find_crlf xs < 0"
  by (induction xs rule: find_crlf.induct) auto

lemma find_double_crlf_no_lf: "10 \<notin> set xs \<Longrightarrow> find_double_crlf xs < 0"
  by (induction xs rule: find_double_crlf.induct) auto

text \<open>The converse fails at one place: a request line of exactly \<open>max_request_line\<close> bytes is
  within the limit, but when a fragment ends between its CR and its LF the pending buffer is one
  byte longer than the limit and \<open>feed\<close> answers 414.  The witness has a line that is accepted
  when its CRLF arrives in one piece.\<close>

theorem request_line_cut_at_cr:
  assumes "cd_state c = HEAD" "cd_buffer c = []" "\<not> cd_closed c"
    and "int (length line) = cd_max_request_line c" "10 \<notin> set line"
    and "cd_max_request_line c < cd_max_header_bytes c"
  shows "snd (feed0 c (line @ [13])) =
    Inl (Http1Error 414 ''request-line-too-long'' ''request line limit exceeded'')"
proof -
  have "codec_step (with_more c (line @ [13])) = (with_more c (line @ [13]), [],
      Inl (Http1Error 414 ''request-line-too-long'' ''request line limit exceeded''))"
    using assms find_crlf_no_lf [of "line @ [13]"] find_double_crlf_no_lf [of "line @ [13]"]
    by (simp add: codec_step.simps step_head_def Let_def)
  then show ?thesis
    using assms by (simp add: feed_run run_error)
qed

theorem request_line_cut_at_cr_witness:
  "snd (feed0 sample_codec (sample_line @ [13])) =
     Inl (Http1Error 414 ''request-line-too-long'' ''request line limit exceeded'') \<and>
   snd (feed0 sample_codec (sample_line @ [13] @ [10] @ sample_tail)) = Inr [EvHead sample_head]"
proof
  show "snd (feed0 sample_codec (sample_line @ [13])) =
     Inl (Http1Error 414 ''request-line-too-long'' ''request line limit exceeded'')"
    by (rule request_line_cut_at_cr) (simp_all add: sample_codec_def sample_line_def cp_def)
  show "snd (feed0 sample_codec (sample_line @ [13] @ [10] @ sample_tail)) = Inr [EvHead sample_head]"
    by code_simp
qed

end
