(* ===== verification/Http1_Heads.thy ===== *)
theory Http1_Heads
  imports Http1
begin

text \<open>
  What an accepted request head guarantees to the rest of the gateway: well-formed tokens, no
  control bytes that could split a forwarded message, one Host, and exactly one way to find the
  end of the body.
\<close>

section \<open>The header index\<close>

text \<open>\<open>names\<close> is the index of \<open>headers\<close> by field name.\<close>

definition values_of :: "header list \<Rightarrow> pystr \<Rightarrow> pystr list" where
  "values_of hs k = map snd (filter (\<lambda>h. fst h = k) hs)"

definition index_of :: "header list \<Rightarrow> header_names" where
  "index_of hs k = (if values_of hs k = [] then None else Some (values_of hs k))"

lemma values_of_simps [simp]:
  "values_of [] k = []"
  "values_of (hs @ [h]) k = values_of hs k @ (if fst h = k then [snd h] else [])"
  by (simp_all add: values_of_def)

lemma index_of_Nil: "index_of [] = Map.empty"
  by (rule ext) (simp add: index_of_def)

lemma add_name_index: "add_name h (index_of hs) = index_of (hs @ [h])"
  by (rule ext) (auto simp: add_name_def index_of_def)

definition header_ok :: "header \<Rightarrow> bool" where
  "header_ok h \<longleftrightarrow> is_token (fst h) \<and> py_lower (fst h) = fst h \<and> \<not> contains_bad_value_byte (snd h)"

lemma is_tchar_lower: "is_tchar c \<Longrightarrow> is_tchar (lower_cp c)"
  by (auto simp: is_tchar_def lower_cp_def)

lemma is_token_lower: "is_token s \<Longrightarrow> is_token (py_lower s)"
  by (auto simp: is_token_def py_lower_def list_all_iff is_tchar_lower)

lemma bad_value_subset:
  "set s \<subseteq> set t \<Longrightarrow> \<not> contains_bad_value_byte t \<Longrightarrow> \<not> contains_bad_value_byte s"
  by (auto simp: contains_bad_value_byte_def list_ex_iff)

lemmas strip_by_clean = bad_value_subset [OF strip_by_subset]

lemma parse_header_line_ok:
  "parse_header_line line mx n = Inr (Some h) \<Longrightarrow> header_ok h \<and> int n < mx"
  by (auto simp: parse_header_line_def header_ok_def is_token_lower latin1_text_def Let_def
      strip_by_clean split: if_splits)

lemma parse_headers_loop_ok:
  "parse_headers_loop lines mx hs (index_of hs) = Inr (hs', names) \<Longrightarrow>
   list_all header_ok hs \<Longrightarrow> int (length hs) \<le> max mx 0 \<Longrightarrow>
   names = index_of hs' \<and> list_all header_ok hs' \<and> int (length hs') \<le> max mx 0"
proof (induction lines arbitrary: hs)
  case (Cons line lines)
  show ?case
  proof (cases "parse_header_line line mx (length hs)")
    case (Inl e)
    with Cons.prems show ?thesis by simp
  next
    case (Inr o')
    show ?thesis
    proof (cases o')
      case None
      with Inr Cons show ?thesis by simp
    next
      case (Some h)
      with Inr have h: "header_ok h" "int (length hs) < mx"
        using parse_header_line_ok by auto
      have "parse_headers_loop lines mx (hs @ [h]) (index_of (hs @ [h])) = Inr (hs', names)"
        using Cons.prems(1) Inr Some by (simp add: add_name_index)
      from Cons.IH [OF this] h Cons.prems(2,3) show ?thesis by simp
    qed
  qed
qed simp

lemma parse_headers_ok:
  assumes "parse_headers lines mx = Inr (hs, names)"
  shows "names = index_of hs" and "list_all header_ok hs" and "int (length hs) \<le> max mx 0"
  using assms parse_headers_loop_ok [of lines mx "[]" hs names]
  by (simp_all add: parse_headers_def index_of_Nil)

section \<open>The request line\<close>

lemma parse_request_line_ok:
  assumes "parse_request_line mx line = Inr (m, t, v)"
  shows "is_token m \<and> t \<noteq> [] \<and> hd t = 47 \<and> (\<forall>x \<in> set t. 32 < x \<and> x \<noteq> 127) \<and>
    (v = cp ''HTTP/1.1'' \<or> v = cp ''HTTP/1.0'') \<and> line = m @ 32 # t @ 32 # v \<and>
    int (length line) \<le> mx"
proof -
  have split: "py_split 32 line = [m, t, v]"
    using assms by (auto simp: parse_request_line_def split: if_splits list.splits)
  then have "line = m @ 32 # t @ 32 # v"
    using py_join_split [of 32 line] by simp
  then show ?thesis
    using assms split by (auto simp: parse_request_line_def list_ex_iff split: if_splits)
qed

section \<open>Framing\<close>

lemma parse_content_length_ok:
  assumes "parse_content_length mx (index_of hs) = Inr n"
  shows "(n = -1 \<and> values_of hs (cp ''content-length'') = []) \<or>
    (0 \<le> n \<and> n \<le> mx \<and> (\<exists>raw. values_of hs (cp ''content-length'') = [raw] \<and> raw \<noteq> [] \<and>
      (\<forall>c \<in> set raw. is_digit c) \<and> n = py_int_dec raw))"
proof (cases "values_of hs (cp ''content-length'')")
  case Nil
  with assms show ?thesis by (simp add: parse_content_length_def index_of_def)
next
  case (Cons raw rest)
  with assms have "rest = []" "raw \<noteq> []" "\<forall>c \<in> set raw. is_digit c"
    "n = py_int_dec raw" "n \<le> mx"
    by (auto simp: parse_content_length_def index_of_def Let_def list_ex_iff is_digit_def
        split: if_splits)
  with Cons py_int_dec_nonneg show ?thesis by auto
qed

lemma parse_transfer_encoding_ok:
  assumes "parse_transfer_encoding n (index_of hs) = Inr b"
  shows "(b \<longleftrightarrow> values_of hs (cp ''transfer-encoding'') \<noteq> []) \<and>
    (b \<longrightarrow> n < 0 \<and>
       concat (map split_commas (values_of hs (cp ''transfer-encoding''))) = [cp ''chunked''])"
  using assms
  by (auto simp: parse_transfer_encoding_def index_of_def tokens_of_def split: if_splits)

lemma check_host_ok:
  assumes "check_host v (index_of hs) = Inr u"
  shows "length (values_of hs (cp ''host'')) \<le> 1 \<and>
    (v = cp ''HTTP/1.1'' \<longrightarrow> length (values_of hs (cp ''host'')) = 1)"
  using assms by (auto simp: check_host_def index_of_def split: if_splits)

lemma parse_headE:
  assumes "parse_head c block = Inr r"
  obtains m t v hs n ch ex where
    "parse_request_line (cd_max_request_line c) (hd (split_crlf block)) = Inr (m, t, v)"
    "parse_headers (tl (split_crlf block)) (cd_max_header_count c) = Inr (hs, index_of hs)"
    "check_host v (index_of hs) = Inr ()"
    "parse_content_length (cd_max_body_bytes c) (index_of hs) = Inr n"
    "parse_transfer_encoding n (index_of hs) = Inr ch"
    "parse_expect (index_of hs) = Inr ex"
    "r = \<lparr>rh_method = m, rh_target = t, rh_version = v, rh_headers = hs,
          rh_keep_alive = connection_keep_alive v (index_of hs), rh_expect_continue = ex,
          rh_content_length = (if ch \<or> n \<ge> 0 then n else 0), rh_chunked = ch\<rparr>"
proof -
  from assms obtain m t v hs names n ch ex where
    p: "parse_request_line (cd_max_request_line c) (hd (split_crlf block)) = Inr (m, t, v)"
      "parse_headers (tl (split_crlf block)) (cd_max_header_count c) = Inr (hs, names)"
      "check_host v names = Inr ()"
      "parse_content_length (cd_max_body_bytes c) names = Inr n"
      "parse_transfer_encoding n names = Inr ch"
      "parse_expect names = Inr ex"
      "r = \<lparr>rh_method = m, rh_target = t, rh_version = v, rh_headers = hs,
          rh_keep_alive = connection_keep_alive v names, rh_expect_continue = ex,
          rh_content_length = (if ch \<or> n \<ge> 0 then n else 0), rh_chunked = ch\<rparr>"
    by (auto simp: parse_head_def rbind_eq_Inr latin1_text_def Let_def)
  with parse_headers_ok(1) [OF p(2)] that show thesis by simp
qed

section \<open>Properties\<close>

definition tiny_codec :: codec where
  "tiny_codec =
     \<lparr>cd_max_request_line = 32, cd_max_header_bytes = 80, cd_max_header_count = 3,
      cd_max_body_bytes = 16, cd_max_chunk_bytes = 8, cd_buffer = [], cd_state = HEAD,
      cd_remaining = 0, cd_body_received = 0, cd_closed = False\<rparr>"

definition tiny_block :: bytes where
  "tiny_block = cp ''GET /a HTTP/1.1'' @ crlf @ cp ''Host: h'' @ crlf @ cp ''X-Y: 1'' @ crlf @
     cp ''Content-Length: 12''"

definition tiny_head :: request_head where
  "tiny_head = \<lparr>rh_method = cp ''GET'', rh_target = cp ''/a'', rh_version = cp ''HTTP/1.1'',
     rh_headers = [(cp ''host'', cp ''h''), (cp ''x-y'', cp ''1''), (cp ''content-length'', cp ''12'')],
     rh_keep_alive = True, rh_expect_continue = False, rh_content_length = 12, rh_chunked = False\<rparr>"

lemma tiny_head_parsed: "parse_head tiny_codec tiny_block = Inr tiny_head"
  by code_simp

text \<open>An accepted head is safe to route and to forward: the method is a token, the target is
  in origin form without control bytes or spaces, the version is 1.0 or 1.1, every field name is a
  lower-case token and no field value contains CR, LF, NUL or another control byte, so that no
  field can be split in two downstream; the header count is within its limit.\<close>

theorem accepted_head_is_clean:
  assumes "parse_head c block = Inr r"
  shows "is_token (rh_method r) \<and> rh_target r \<noteq> [] \<and> hd (rh_target r) = 47 \<and>
    (\<forall>x \<in> set (rh_target r). 32 < x \<and> x \<noteq> 127) \<and>
    rh_version r \<in> {cp ''HTTP/1.1'', cp ''HTTP/1.0''} \<and>
    (\<forall>(k, v) \<in> set (rh_headers r).
       is_token k \<and> py_lower k = k \<and> (\<forall>x \<in> set v. x = 9 \<or> 32 \<le> x \<and> x \<noteq> 127)) \<and>
    int (length (rh_headers r)) \<le> max (cd_max_header_count c) 0"
proof -
  from assms obtain m t v hs n ch ex where
    p: "parse_request_line (cd_max_request_line c) (hd (split_crlf block)) = Inr (m, t, v)"
      "parse_headers (tl (split_crlf block)) (cd_max_header_count c) = Inr (hs, index_of hs)"
    and r: "r = \<lparr>rh_method = m, rh_target = t, rh_version = v, rh_headers = hs,
          rh_keep_alive = connection_keep_alive v (index_of hs), rh_expect_continue = ex,
          rh_content_length = (if ch \<or> n \<ge> 0 then n else 0), rh_chunked = ch\<rparr>"
    by (rule parse_headE)
  have "is_token k \<and> py_lower k = k \<and> (\<forall>x \<in> set w. x = 9 \<or> 32 \<le> x \<and> x \<noteq> 127)"
    if "(k, w) \<in> set hs" for k w
    using parse_headers_ok(2) [OF p(2)] that
    by (fastforce simp: list_all_iff header_ok_def contains_bad_value_byte_def list_ex_iff
        bad_value_byte_def)
  then show ?thesis
    using parse_request_line_ok [OF p(1)] parse_headers_ok(3) [OF p(2)] r by auto
qed

theorem accepted_head_is_clean_witness:
  "is_token (rh_method tiny_head) \<and> hd (rh_target tiny_head) = 47 \<and>
   int (length (rh_headers tiny_head)) \<le> max (cd_max_header_count tiny_codec) 0"
  using accepted_head_is_clean [OF tiny_head_parsed] by blast

text \<open>C6 Framing is unambiguous: an accepted head has at most one Host (exactly one for HTTP/1.1),
  at most one Content-Length, never both a Content-Length and a Transfer-Encoding; a chunked body
  comes from a Transfer-Encoding that is exactly \<open>chunked\<close>, and a declared length is the decimal
  value of the only Content-Length and within \<open>max_body_bytes\<close>.\<close>

theorem accepted_head_framing_unambiguous:
  assumes "parse_head c block = Inr r"
  defines "V \<equiv> values_of (rh_headers r)"
  shows "length (V (cp ''host'')) \<le> 1 \<and>
    (rh_version r = cp ''HTTP/1.1'' \<longrightarrow> length (V (cp ''host'')) = 1) \<and>
    (V (cp ''content-length'') = [] \<or> V (cp ''transfer-encoding'') = []) \<and>
    (rh_chunked r \<longleftrightarrow> V (cp ''transfer-encoding'') \<noteq> []) \<and>
    (rh_chunked r \<longrightarrow> concat (map split_commas (V (cp ''transfer-encoding''))) = [cp ''chunked'']) \<and>
    (\<not> rh_chunked r \<longrightarrow>
       (V (cp ''content-length'') = [] \<and> rh_content_length r = 0) \<or>
       (\<exists>raw. V (cp ''content-length'') = [raw] \<and> (\<forall>x \<in> set raw. is_digit x) \<and>
          rh_content_length r = py_int_dec raw \<and> rh_content_length r \<le> cd_max_body_bytes c))"
proof -
  from assms(1) obtain m t v hs n ch ex where
    p: "check_host v (index_of hs) = Inr ()"
      "parse_content_length (cd_max_body_bytes c) (index_of hs) = Inr n"
      "parse_transfer_encoding n (index_of hs) = Inr ch"
    and r: "r = \<lparr>rh_method = m, rh_target = t, rh_version = v, rh_headers = hs,
          rh_keep_alive = connection_keep_alive v (index_of hs), rh_expect_continue = ex,
          rh_content_length = (if ch \<or> n \<ge> 0 then n else 0), rh_chunked = ch\<rparr>"
    by (rule parse_headE)
  have V: "V = values_of hs" "rh_chunked r = ch" "rh_version r = v"
    "rh_content_length r = (if ch \<or> n \<ge> 0 then n else 0)"
    by (simp_all add: V_def r)
  show ?thesis
    unfolding V
    using check_host_ok [OF p(1)] parse_content_length_ok [OF p(2)] parse_transfer_encoding_ok [OF p(3)]
    by (cases ch) auto
qed

theorem accepted_head_framing_unambiguous_witness:
  "length (values_of (rh_headers tiny_head) (cp ''host'')) = 1 \<and>
   values_of (rh_headers tiny_head) (cp ''transfer-encoding'') = [] \<and>
   rh_content_length tiny_head \<le> 16"
  using accepted_head_framing_unambiguous [OF tiny_head_parsed]
  by (auto simp: tiny_head_def tiny_codec_def values_of_def)

end
