(* ===== verification/Http1_Bodies.thy ===== *)
theory Http1_Bodies
  imports Http1_Fragments Http1_Heads
begin

text \<open>
  The decoder's message grammar and its bounds: events come as head, body bytes, end; no message
  delivers more than \<open>max_body_bytes\<close>; what a successful \<open>feed\<close> leaves in the buffer is bounded
  by the configured limits.  The chunked encoder and the decoder are inverse to each other, and
  an encoded response head contains one blank line only.
\<close>

section \<open>The decoder invariant\<close>

definition codec_ok :: "codec \<Rightarrow> bool" where
  "codec_ok c \<longleftrightarrow> 0 < cd_max_request_line c \<and> 0 < cd_max_header_bytes c \<and>
     (case cd_state c of
       HEAD \<Rightarrow> cd_body_received c = 0 \<and> cd_remaining c = 0
     | FIXED_BODY \<Rightarrow> 0 < cd_remaining c \<and>
         int (cd_body_received c) + int (cd_remaining c) \<le> cd_max_body_bytes c
     | CHUNK_DATA \<Rightarrow> 0 < cd_remaining c \<and> int (cd_remaining c) \<le> cd_max_chunk_bytes c \<and>
         int (cd_body_received c) + int (cd_remaining c) \<le> cd_max_body_bytes c
     | _ \<Rightarrow> cd_remaining c = 0 \<and> (int (cd_body_received c) \<le> max (cd_max_body_bytes c) 0))"

lemma codec_new_ok: "codec_new a b n m k = Inr c \<Longrightarrow> codec_ok c \<and> cd_state c = HEAD \<and> cd_buffer c = []"
  by (auto simp: codec_new_def codec_ok_def split: if_splits)

text \<open>The message grammar with its size limit as a scanner over the decoded tokens; its state is
  whether a message is open and how many body bytes it has had.\<close>

fun scan_token :: "int \<Rightarrow> bool \<times> nat \<Rightarrow> wire_token \<Rightarrow> (bool \<times> nat) option" where
  "scan_token mx (inside, n) (TkHead r) = (if inside then None else Some (True, 0))"
| "scan_token mx (inside, n) (TkByte b) =
     (if inside \<and> int n + 1 \<le> mx then Some (True, n + 1) else None)"
| "scan_token mx (inside, n) (TkEnd ts) = (if inside then Some (False, 0) else None)"

fun scan_wire :: "int \<Rightarrow> bool \<times> nat \<Rightarrow> wire_token list \<Rightarrow> (bool \<times> nat) option" where
  "scan_wire mx s [] = Some s"
| "scan_wire mx s (t # ts) =
     (case scan_token mx s t of None \<Rightarrow> None | Some s' \<Rightarrow> scan_wire mx s' ts)"

lemma scan_wire_append:
  "scan_wire mx s (xs @ ys) =
     (case scan_wire mx s xs of None \<Rightarrow> None | Some s' \<Rightarrow> scan_wire mx s' ys)"
  by (induction xs arbitrary: s) (auto split: option.splits)

lemma scan_wire_bytes:
  "int n + int (length bs) \<le> mx \<Longrightarrow>
   scan_wire mx (True, n) (map TkByte bs) = Some (True, n + length bs)"
  by (induction bs arbitrary: n) auto

definition phase :: "codec \<Rightarrow> bool \<times> nat" where
  "phase c = (cd_state c \<noteq> HEAD, cd_body_received c)"

definition limits_of :: "codec \<Rightarrow> int \<times> int \<times> int \<times> int \<times> int" where
  "limits_of c = (cd_max_request_line c, cd_max_header_bytes c, cd_max_header_count c,
     cd_max_body_bytes c, cd_max_chunk_bytes c)"

definition good_step :: "codec \<Rightarrow> codec \<Rightarrow> http_event list \<Rightarrow> bool" where
  "good_step c c' es \<longleftrightarrow> codec_ok c' \<and> limits_of c' = limits_of c \<and>
     scan_wire (cd_max_body_bytes c) (phase c) (wire_of es) = Some (phase c')"

lemma good_step_refl: "codec_ok c \<Longrightarrow> good_step c c []"
  by (simp add: good_step_def)

lemma good_step_trans: "good_step c c1 es \<Longrightarrow> good_step c1 c2 fs \<Longrightarrow> good_step c c2 (es @ fs)"
  by (auto simp: good_step_def limits_of_def scan_wire_append)

lemma parse_head_length_ok:
  assumes "parse_head c block = Inr r" "\<not> rh_chunked r"
  shows "rh_content_length r \<le> 0 \<or> rh_content_length r \<le> cd_max_body_bytes c"
proof -
  from assms(1) obtain hs n ch where
    "parse_content_length (cd_max_body_bytes c) (index_of hs) = Inr n"
    "rh_content_length r = (if ch \<or> n \<ge> 0 then n else 0)"
    by (rule parse_headE) simp
  with parse_content_length_ok show ?thesis by fastforce
qed

lemma step_head_good:
  assumes "codec_ok c" "cd_state c = HEAD" "step_head c = (c', es, Inr k)"
  shows "good_step c c' es"
proof (cases "k = Break")
  case True
  with assms show ?thesis
    using codec_step_Break [of c c' es] by (simp add: codec_step.simps good_step_refl)
next
  case False
  define m where "m = nat (find_double_crlf (cd_buffer c))"
  define c1 where "c1 = c\<lparr>cd_buffer := drop (m + 4) (cd_buffer c)\<rparr>"
  from assms(3) False obtain r c2 b where
    r: "parse_head c1 (take m (cd_buffer c)) = Inr r" "enter_body c1 r = (c2, b)" "c' = c2"
      "es = (if b then [EvHead r] else [EvHead r, EvEnd []])"
    by (auto simp: step_head_def Let_def m_def c1_def
        split: if_splits sum.splits prod.splits bool.splits)
  show ?thesis
  proof (cases "rh_chunked r")
    case True
    with r assms(1,2) show ?thesis
      by (auto simp: good_step_def codec_ok_def limits_of_def phase_def enter_body_def c1_def)
  next
    case False
    with parse_head_length_ok [OF r(1)] r assms(1,2) show ?thesis
      by (auto simp: good_step_def codec_ok_def limits_of_def phase_def enter_body_def c1_def
          split: if_splits)
  qed
qed

lemma step_fixed_good:
  assumes "codec_ok c" "cd_state c = FIXED_BODY" "step_fixed c = (c', es, Inr k)"
  shows "good_step c c' es"
proof -
  let ?n = "min (cd_remaining c) (length (cd_buffer c))"
  have b: "int (cd_body_received c) + int ?n \<le> cd_max_body_bytes c" "0 < cd_remaining c"
    using assms(1,2) by (auto simp: codec_ok_def)
  have s: "scan_wire (cd_max_body_bytes c) (True, cd_body_received c)
      (map TkByte (take ?n (cd_buffer c))) = Some (True, cd_body_received c + ?n)"
    using scan_wire_bytes [of "cd_body_received c" "take ?n (cd_buffer c)"] b by simp
  show ?thesis
    using assms s b
    by (auto simp: step_fixed_def Let_def good_step_def codec_ok_def phase_def limits_of_def
        scan_wire_append split: if_splits)
qed

lemma chunk_digits_nonneg: "chunk_digits cs n = Inr m \<Longrightarrow> 0 \<le> n \<Longrightarrow> 0 \<le> m"
  by (induction cs arbitrary: n) (auto simp: is_hex_def hex_val_def split: if_splits)

lemma parse_chunk_size_nonneg: "parse_chunk_size_line line = Inr n \<Longrightarrow> 0 \<le> n"
  by (auto simp: parse_chunk_size_line_def Let_def rbind_eq_Inr chunk_digits_nonneg split: if_splits)

lemma step_chunk_size_good:
  assumes "codec_ok c" "cd_state c = CHUNK_SIZE" "step_chunk_size c = (c', es, Inr k)"
  shows "good_step c c' es"
  using assms parse_chunk_size_nonneg
  by (fastforce simp: step_chunk_size_def Let_def good_step_def codec_ok_def phase_def limits_of_def
      split: if_splits sum.splits)

lemma step_chunk_data_good:
  assumes "codec_ok c" "cd_state c = CHUNK_DATA" "step_chunk_data c = (c', es, Inr k)"
  shows "good_step c c' es"
  using assms scan_wire_bytes [of "cd_body_received c" "take (cd_remaining c) (cd_buffer c)"]
  by (auto simp: step_chunk_data_def Let_def good_step_def codec_ok_def phase_def limits_of_def
      split: if_splits)

lemma step_trailers_good:
  assumes "codec_ok c" "cd_state c = TRAILERS" "step_trailers c = (c', es, Inr k)"
  shows "good_step c c' es"
  using assms
  by (auto simp: step_trailers_def Let_def good_step_def codec_ok_def phase_def limits_of_def
      split: if_splits sum.splits prod.splits)

lemma codec_step_good:
  assumes "codec_ok c" "codec_step c = (c', es, Inr k)"
  shows "good_step c c' es"
  using assms step_head_good step_fixed_good step_chunk_size_good step_chunk_data_good
    step_trailers_good
  by (cases "cd_state c") (simp_all add: codec_step.simps)

text \<open>The size of the pending bytes when an iteration stops.\<close>

definition pending_bound :: "codec \<Rightarrow> int" where
  "pending_bound c =
     (case cd_state c of
       HEAD \<Rightarrow> cd_max_header_bytes c
     | FIXED_BODY \<Rightarrow> 0
     | CHUNK_SIZE \<Rightarrow> 128
     | CHUNK_DATA \<Rightarrow> cd_max_chunk_bytes c + 1
     | TRAILERS \<Rightarrow> cd_max_header_bytes c)"

lemma codec_step_pending:
  assumes "codec_ok c" "codec_step c = (c', es, Inr Break)"
  shows "int (length (cd_buffer c')) \<le> pending_bound c'"
  using assms
  by (cases "cd_state c")
    (auto simp: codec_step.simps step_head_def step_fixed_def step_chunk_size_def
      step_chunk_data_def step_trailers_def pending_bound_def codec_ok_def Let_def min_def
      split: if_splits sum.splits prod.splits bool.splits)

lemma run_good:
  "codec_ok c \<Longrightarrow> run c = (c', es, Inr ()) \<Longrightarrow>
   good_step c c' es \<and> int (length (cd_buffer c')) \<le> pending_bound c'"
proof (induction "codec_measure c" arbitrary: c es rule: less_induct)
  case less
  show ?case
  proof (cases c rule: run_cases)
    case (error c1 es1 e)
    with less.prems show ?thesis by (simp add: run_error)
  next
    case (stop c1 es1)
    with less.prems show ?thesis
      using codec_step_good codec_step_pending by (auto simp: run_Break)
  next
    case (step c1 fs k)
    obtain gs where g: "run c1 = (c', gs, Inr ())" "es = fs @ gs"
      using less.prems(2) by (auto simp: run_step [OF step] split: prod.splits)
    have s: "good_step c c1 fs" using codec_step_good [OF less.prems(1) step(1)] .
    then have "codec_ok c1" by (simp add: good_step_def)
    from less.hyps [OF codec_step_measure [OF step] this g(1)] s g(2) show ?thesis
      using good_step_trans by blast
  qed
qed

lemma codec_ok_with_more: "codec_ok (with_more c d) \<longleftrightarrow> codec_ok c"
  by (simp add: codec_ok_def split: decoder_state.split)

section \<open>Chunks\<close>

lemma chunk_digits_hex:
  "\<forall>c \<in> set cs. is_hex c \<Longrightarrow> chunk_digits cs n = Inr (foldl (\<lambda>a c. a * 16 + hex_val c) n cs)"
  by (induction cs arbitrary: n) simp_all

lemma parse_chunk_size_hex:
  assumes "n < 16 ^ 16"
  shows "parse_chunk_size_line (py_hex_nat n) = Inr (int n)"
proof -
  have hex: "\<forall>c \<in> set (py_hex_nat n). is_hex c" using py_hex_nat_hex by blast
  then have "59 \<notin> set (py_hex_nat n)" by (auto simp: is_hex_def)
  then have f: "py_find 59 (py_hex_nat n) = -1" by (simp add: py_find_absent)
  have "length (py_hex_nat n) \<le> 16"
    using length_digits_of [of 16 n 16] assms by (simp add: py_hex_nat_def)
  moreover have "chunk_digits (py_hex_nat n) 0 = Inr (int n)"
    using chunk_digits_hex [OF hex, of 0] py_int_hex_str [of n] by (simp add: py_int_hex_def)
  ultimately show ?thesis
    by (simp add: parse_chunk_size_line_def f Let_def chunk_extensions.simps)
qed

lemma find_crlf_first: "13 \<notin> set h \<Longrightarrow> find_crlf (h @ 13 # 10 # rest) = int (length h)"
proof (induction h)
  case (Cons a h)
  then show ?case by (cases h) (auto simp: Let_def)
qed simp

lemma chunk_size_step:
  assumes "cd_state c = CHUNK_SIZE" "cd_buffer c = py_hex_nat n @ crlf @ rest" "n < 16 ^ 16"
    and "int n \<le> cd_max_chunk_bytes c" "int (cd_body_received c) + int n \<le> cd_max_body_bytes c"
  shows "codec_step c =
    (if n = 0 then c\<lparr>cd_buffer := rest, cd_state := TRAILERS\<rparr>
     else c\<lparr>cd_buffer := rest, cd_remaining := n, cd_state := CHUNK_DATA\<rparr>, [], Inr Next)"
proof -
  have "13 \<notin> set (py_hex_nat n)" using py_hex_nat_hex [of 13 n] by (auto simp: is_hex_def)
  then have f: "find_crlf (cd_buffer c) = int (length (py_hex_nat n))"
    using find_crlf_first assms(2) by (simp add: crlf_def)
  have "length (py_hex_nat n) \<le> 16"
    using length_digits_of [of 16 n 16] assms(3) by (simp add: py_hex_nat_def)
  with f assms show ?thesis
    by (simp add: codec_step.simps step_chunk_size_def parse_chunk_size_hex Let_def crlf_def)
qed

lemma chunk_data_step:
  assumes "cd_state c = CHUNK_DATA" "cd_buffer c = data @ crlf @ rest" "cd_remaining c = length data"
  shows "codec_step c =
    (c\<lparr>cd_buffer := rest, cd_body_received := cd_body_received c + length data,
       cd_remaining := 0, cd_state := CHUNK_SIZE\<rparr>, [EvBody data], Inr Next)"
  using assms by (simp add: codec_step.simps step_chunk_data_def Let_def crlf_def nth_append)

lemma run_chunk:
  assumes "cd_state c = CHUNK_SIZE" "cd_remaining c = 0" "data \<noteq> []"
    and "cd_buffer c = encode_chunk data @ rest" "length data < 16 ^ 16"
    and "int (length data) \<le> cd_max_chunk_bytes c"
    and "int (cd_body_received c) + int (length data) \<le> cd_max_body_bytes c"
  shows "run c = (case run (c\<lparr>cd_buffer := rest,
      cd_body_received := cd_body_received c + length data\<rparr>) of (c', fs, r) \<Rightarrow> (c', EvBody data # fs, r))"
proof -
  let ?c1 = "c\<lparr>cd_buffer := data @ crlf @ rest, cd_remaining := length data, cd_state := CHUNK_DATA\<rparr>"
  have 1: "codec_step c = (?c1, [], Inr Next)"
    using chunk_size_step [of c "length data" "data @ crlf @ rest"] assms
    by (simp add: encode_chunk_def)
  have 2: "codec_step ?c1 = (c\<lparr>cd_buffer := rest, cd_body_received := cd_body_received c + length data\<rparr>,
      [EvBody data], Inr Next)"
    using chunk_data_step [of ?c1 data rest] assms(1,2) by simp
  show ?thesis
    by (simp add: run_step [OF 1] run_step [OF 2] split: prod.split)
qed

lemma reset_message_received [simp]:
  "reset_message (c\<lparr>cd_body_received := n\<rparr>) = reset_message c"
  by (simp add: reset_message_def)

lemma run_last_chunk:
  assumes "cd_state c = CHUNK_SIZE" "cd_buffer c = cp ''0'' @ crlf @ crlf @ rest"
    and "0 \<le> cd_max_chunk_bytes c" "int (cd_body_received c) \<le> cd_max_body_bytes c"
  shows "run c = (case run (reset_message (c\<lparr>cd_buffer := rest\<rparr>)) of
      (c', fs, r) \<Rightarrow> (c', EvEnd [] # fs, r))"
proof -
  let ?c1 = "c\<lparr>cd_buffer := crlf @ rest, cd_state := TRAILERS\<rparr>"
  have z: "py_hex_nat 0 = cp ''0''" by code_simp
  have 1: "codec_step c = (?c1, [], Inr Next)"
    using chunk_size_step [of c 0 "crlf @ rest"] assms z by simp
  have 2: "codec_step ?c1 = (reset_message (c\<lparr>cd_buffer := rest\<rparr>), [EvEnd []], Inr MessageDone)"
    by (simp add: codec_step.simps step_trailers_def Let_def crlf_def reset_message_def)
  show ?thesis
    by (simp add: run_step [OF 1] run_step [OF 2] split: prod.split)
qed

definition encode_chunked_body :: "bytes list \<Rightarrow> bytes" where
  "encode_chunked_body datas = concat (map encode_chunk datas) @ cp ''0'' @ crlf @ crlf"

lemma run_chunked_body:
  assumes "cd_state c = CHUNK_SIZE" "cd_remaining c = 0"
    and "cd_buffer c = encode_chunked_body datas @ rest"
    and "\<forall>d \<in> set datas. d \<noteq> [] \<and> length d < 16 ^ 16 \<and> int (length d) \<le> cd_max_chunk_bytes c"
    and "int (cd_body_received c) + int (length (concat datas)) \<le> cd_max_body_bytes c"
    and "0 \<le> cd_max_chunk_bytes c"
  shows "run c = (case run (reset_message (c\<lparr>cd_buffer := rest\<rparr>)) of
      (c', fs, r) \<Rightarrow> (c', map EvBody datas @ EvEnd [] # fs, r))"
  using assms
proof (induction datas arbitrary: c)
  case Nil
  then show ?case
    using run_last_chunk [of c rest] by (simp add: encode_chunked_body_def)
next
  case (Cons d datas)
  let ?c1 = "c\<lparr>cd_buffer := encode_chunked_body datas @ rest,
      cd_body_received := cd_body_received c + length d\<rparr>"
  have "run c = (case run ?c1 of (c', fs, r) \<Rightarrow> (c', EvBody d # fs, r))"
    using run_chunk [of c d "encode_chunked_body datas @ rest"] Cons.prems
    by (simp add: encode_chunked_body_def)
  moreover have "run ?c1 = (case run (reset_message (?c1\<lparr>cd_buffer := rest\<rparr>)) of
      (c', fs, r) \<Rightarrow> (c', map EvBody datas @ EvEnd [] # fs, r))"
    using Cons.IH [of ?c1] Cons.prems by simp
  ultimately show ?case by (simp split: prod.split)
qed

section \<open>Response heads\<close>

text \<open>A block of non-empty lines without CR or LF, ended by a blank line.\<close>

definition line_ok :: "bytes \<Rightarrow> bool" where
  "line_ok l \<longleftrightarrow> l \<noteq> [] \<and> 13 \<notin> set l \<and> 10 \<notin> set l"

definition lines_block :: "bytes list \<Rightarrow> bytes" where
  "lines_block ls = concat (map (\<lambda>l. l @ crlf) ls) @ crlf"

lemma lines_block_simps:
  "lines_block [] = [13, 10]" "lines_block (l # ls) = l @ 13 # 10 # lines_block ls"
  by (simp_all add: lines_block_def crlf_def)

lemma find_double_crlf_short: "length xs < 4 \<Longrightarrow> find_double_crlf xs = -1"
  using find_double_crlf_bound [of xs] find_double_crlf_ge [of xs]
  by (cases "0 \<le> find_double_crlf xs") auto

lemma find_double_crlf_skip:
  assumes "13 \<notin> set l"
  shows "find_double_crlf (l @ xs) =
    (if find_double_crlf xs < 0 then -1 else int (length l) + find_double_crlf xs)"
  using assms
proof (induction l)
  case (Cons a l)
  consider "length (l @ xs) < 3" | b c d zs where "l @ xs = b # c # d # zs"
    by (cases "l @ xs" rule: remdups_adj.cases; cases "tl (tl (l @ xs))") fastforce+
  then show ?case
  proof cases
    case 1
    then have "find_double_crlf (a # l @ xs) = -1" "find_double_crlf xs = -1"
      by (auto intro: find_double_crlf_short)
    then show ?thesis by simp
  next
    case 2
    with Cons show ?thesis by (auto simp: Let_def)
  qed
qed (use find_double_crlf_ge [of xs] in auto)

lemma find_double_crlf_lines:
  "list_all line_ok ls \<Longrightarrow> ls \<noteq> [] \<Longrightarrow>
   find_double_crlf (lines_block ls) = int (length (lines_block ls)) - 4"
proof (induction ls)
  case (Cons l ls)
  have *: "find_double_crlf (13 # 10 # lines_block ls) = int (length (lines_block ls)) - 2"
  proof (cases ls)
    case Nil
    then show ?thesis by (simp add: lines_block_simps)
  next
    case (Cons a as)
    then obtain x xs where a: "a = x # xs" "x \<noteq> 13" "x \<noteq> 10"
      using Cons.prems by (cases a) (auto simp: line_ok_def)
    have "find_double_crlf (lines_block ls) = int (length (lines_block ls)) - 4"
      using Cons.IH Cons.prems Cons by simp
    moreover have "length (lines_block ls) \<ge> 4"
      using Cons a by (simp add: lines_block_def crlf_def)
    moreover obtain y z w ys where "lines_block ls = x # y # z # w # ys"
    proof -
      obtain ts where "lines_block ls = x # ts" using Cons a by (simp add: lines_block_simps)
      moreover then have "length ts \<ge> 3" using \<open>length (lines_block ls) \<ge> 4\<close> by simp
      ultimately show thesis
        using that by (cases ts; cases "tl ts"; cases "tl (tl ts)") auto
    qed
    ultimately show ?thesis using a by (auto simp: Let_def)
  qed
  have "13 \<notin> set l" using Cons.prems by (simp add: line_ok_def)
  moreover have "2 \<le> length (lines_block ls)"
    by (simp add: lines_block_def crlf_def)
  ultimately show ?case
    using * by (simp add: lines_block_simps find_double_crlf_skip)
qed simp

lemma encode_headers_lines:
  "encode_headers owned err hs = Inr out \<Longrightarrow>
   \<exists>ls. list_all line_ok ls \<and> out = concat (map (\<lambda>l. l @ crlf) ls)"
proof (induction hs arbitrary: out)
  case Nil
  then show ?case by (intro exI [of _ "[]"]) simp
next
  case (Cons h hs)
  obtain name val where h: "h = (name, val)" by (cases h)
  from Cons.prems h obtain nb vb rest where
    v: "validate_output_header name val = Inr (nb, vb)" "encode_headers owned err hs = Inr rest"
      "out = nb @ cp '': '' @ vb @ crlf @ rest"
    by (auto simp: rbind_eq_Inr split: if_splits)
  from Cons.IH [OF v(2)] obtain ls where
    ls: "list_all line_ok ls" "rest = concat (map (\<lambda>l. l @ crlf) ls)" by blast
  have "is_token nb" "\<not> contains_bad_value_byte vb"
    using v(1) by (auto simp: validate_output_header_def rbind_eq_Inr split: sum.splits if_splits)
  then have "line_ok (nb @ cp '': '' @ vb)"
    by (auto simp: line_ok_def is_token_def list_all_iff is_tchar_def contains_bad_value_byte_def
        list_ex_iff bad_value_byte_def cp_def)
  with ls v(3) show ?case
    by (intro exI [of _ "(nb @ cp '': '' @ vb) # ls"]) simp
qed

lemma py_str_int_no_crlf: "13 \<notin> set (py_str_int n)" "10 \<notin> set (py_str_int n)"
  by (auto simp: py_str_int_def is_digit_def dest: py_str_nat_digits split: if_splits)

lemma line_ok_status:
  "line_ok (cp ''HTTP/1.1 '' @ py_str_int status @ cp '' '' @ reason_phrase status)"
proof -
  have "13 \<notin> set (reason_phrase n) \<and> 10 \<notin> set (reason_phrase n)" for n
    by (simp add: reason_phrase_def cp_def)
  then show ?thesis by (auto simp: line_ok_def cp_def py_str_int_no_crlf)
qed

lemma line_ok_length: "line_ok (cp ''Content-Length: '' @ py_str_int n)"
  by (simp add: line_ok_def cp_def py_str_int_no_crlf)

lemma encode_response_head_lines:
  assumes "encode_response_head status headers content_length chunked keep_alive = Inr out"
  shows "\<exists>ls. ls \<noteq> [] \<and> list_all line_ok ls \<and> out = lines_block ls"
proof -
  from assms obtain fields owned err where
    f: "encode_headers owned err headers = Inr fields"
      "out = cp ''HTTP/1.1 '' @ py_str_int status @ cp '' '' @ reason_phrase status @ crlf
           @ fields
           @ (if content_length \<ge> 0 then cp ''Content-Length: '' @ py_str_int content_length @ crlf
              else [])
           @ (if chunked then cp ''Transfer-Encoding: chunked'' @ crlf else [])
           @ (if \<not> keep_alive then cp ''Connection: close'' @ crlf else [])
           @ crlf"
    unfolding encode_response_head_def by (auto simp: rbind_eq_Inr split: if_splits)
  from encode_headers_lines [OF f(1)] obtain ls where
    ls: "list_all line_ok ls" "fields = concat (map (\<lambda>l. l @ crlf) ls)" by blast
  let ?ls = "(cp ''HTTP/1.1 '' @ py_str_int status @ cp '' '' @ reason_phrase status) # ls
    @ (if content_length \<ge> 0 then [cp ''Content-Length: '' @ py_str_int content_length] else [])
    @ (if chunked then [cp ''Transfer-Encoding: chunked''] else [])
    @ (if \<not> keep_alive then [cp ''Connection: close''] else [])"
  have fixed: "line_ok (cp ''Transfer-Encoding: chunked'')" "line_ok (cp ''Connection: close'')"
    by (simp_all add: line_ok_def cp_def)
  have "list_all line_ok ?ls"
    using ls(1) line_ok_status line_ok_length fixed by (simp del: cp_eq_iff)
  moreover have "out = lines_block ?ls"
    using f(2) ls(2) by (simp add: lines_block_def)
  ultimately show ?thesis by blast
qed

section \<open>Properties\<close>

text \<open>C7 Message grammar and body limit: from a well-formed decoder state, every successful \<open>feed\<close>
  delivers tokens that follow head, body bytes, end, continues exactly where the previous call
  stopped, counts the body bytes it delivers in \<open>body_received\<close>, and never delivers more than
  \<open>max_body_bytes\<close> for one message, whatever the framing.\<close>

theorem feed_respects_grammar_and_limit:
  assumes "codec_ok c" "feed0 c d = (c', Inr es)"
  shows "codec_ok c' \<and> limits_of c' = limits_of c \<and>
    scan_wire (cd_max_body_bytes c) (cd_state c \<noteq> HEAD, cd_body_received c) (wire_of es) =
      Some (cd_state c' \<noteq> HEAD, cd_body_received c')"
proof -
  have "run (with_more c d) = (c', es, Inr ())"
    using assms(2) by (auto simp: feed_run split: if_splits prod.splits sum.splits)
  from run_good [OF _ this] assms(1) codec_ok_with_more show ?thesis
    by (simp add: good_step_def phase_def limits_of_def)
qed

theorem feed_respects_grammar_and_limit_witness:
  "codec_ok sample_codec \<and>
   scan_wire 16 (False, 0) (wire_of [EvHead sample_head, EvBody [97]]) = Some (True, 1)"
proof -
  have ok: "codec_ok sample_codec" by code_simp
  have "feed0 sample_codec (sample_line @ crlf @ sample_tail @ [97]) =
      (sample_codec\<lparr>cd_state := FIXED_BODY, cd_remaining := 2, cd_body_received := 1\<rparr>,
       Inr [EvHead sample_head, EvBody [97]])" by code_simp
  from feed_respects_grammar_and_limit [OF ok this] ok show ?thesis
    by (simp add: sample_codec_def)
qed



text \<open>C9 Round trip of chunked bodies: what \<open>chunk\<close> and \<open>end_chunks\<close> of the encoder produce for a
  sequence of non-empty pieces within the limits, the decoder turns back into exactly these pieces
  and the end of the message, and it is then ready for the next request.\<close>

theorem chunked_body_round_trip:
  assumes "codec_ok c" "cd_state c = CHUNK_SIZE" "cd_buffer c = []" "\<not> cd_closed c"
    and "\<forall>d \<in> set datas. d \<noteq> [] \<and> length d < 16 ^ 16 \<and> int (length d) \<le> cd_max_chunk_bytes c"
    and "int (cd_body_received c) + int (length (concat datas)) \<le> cd_max_body_bytes c"
    and "0 \<le> cd_max_chunk_bytes c" "encode_end_chunks [] = Inr tail"
  shows "feed0 c (concat (map encode_chunk datas) @ tail) =
    (reset_message c, Inr (map EvBody datas @ [EvEnd []]))"
proof -
  have tail: "tail = cp ''0'' @ crlf @ crlf"
    using assms(8) by (simp add: encode_end_chunks_def)
  let ?c = "with_more c (encode_chunked_body datas)"
  have "cd_remaining c = 0" using assms(1,2) by (simp add: codec_ok_def)
  then have 1: "run ?c = (case run (reset_message (?c\<lparr>cd_buffer := []\<rparr>)) of
      (c', fs, r) \<Rightarrow> (c', map EvBody datas @ EvEnd [] # fs, r))"
    by (intro run_chunked_body) (use assms in auto)
  let ?r = "(reset_message c)\<lparr>cd_buffer := []\<rparr>"
  have "codec_step ?r = (?r, [], Inr Break)"
    using assms(1) by (auto simp: codec_step.simps step_head_def codec_ok_def Let_def)
  moreover have "?r = reset_message c"
    using assms(3) by (simp add: reset_message_def)
  ultimately show ?thesis
    using assms(4) 1 by (simp add: feed_run tail encode_chunked_body_def run_Break)
qed

theorem chunked_body_round_trip_witness:
  "feed0 (sample_codec\<lparr>cd_state := CHUNK_SIZE\<rparr>)
     (concat (map encode_chunk [[1, 2, 3], [13, 10], [4]]) @ cp ''0'' @ crlf @ crlf) =
   (sample_codec, Inr [EvBody [1, 2, 3], EvBody [13, 10], EvBody [4], EvEnd []])"
proof -
  let ?c = "sample_codec\<lparr>cd_state := CHUNK_SIZE\<rparr>"
  have "codec_ok ?c" by code_simp
  moreover have "encode_end_chunks [] = Inr (cp ''0'' @ crlf @ crlf)"
    by (simp add: encode_end_chunks_def)
  moreover have "reset_message ?c = sample_codec"
    by (simp add: reset_message_def sample_codec_def)
  ultimately show ?thesis
    using chunked_body_round_trip [of ?c "[[1, 2, 3], [13, 10], [4]]"]
    by (simp add: sample_codec_def)
qed

text \<open>C10 No response splitting: in any response head the encoder accepts, whatever the application
  put in its header fields, the first blank line is the end of the encoded bytes.\<close>

theorem response_head_not_split:
  assumes "encode_response_head status headers content_length chunked keep_alive = Inr out"
  shows "find_double_crlf out = int (length out) - 4 \<and> 4 \<le> length out"
proof -
  from encode_response_head_lines [OF assms] obtain ls where
    ls: "ls \<noteq> []" "list_all line_ok ls" "out = lines_block ls" by blast
  have "4 \<le> length (lines_block ls)"
    using ls(1) by (cases ls) (simp_all add: lines_block_def crlf_def)
  with ls show ?thesis using find_double_crlf_lines by simp
qed

theorem response_head_not_split_witness:
  "\<exists>out. encode_response_head 200 [(cp ''X-A'', cp ''v'')] 3 False False = Inr out \<and>
     find_double_crlf out = int (length out) - 4"
proof -
  have "\<exists>out. encode_response_head 200 [(cp ''X-A'', cp ''v'')] 3 False False = Inr out"
    by (simp add: encode_response_head_def validate_output_header_def utf8_cp_def is_token_def
        is_tchar_def contains_bad_value_byte_def bad_value_byte_def cp_def py_lower_def lower_cp_def)
  with response_head_not_split show ?thesis by blast
qed

end
