(* ===== verification/Routing.thy ===== *)
theory Routing
  imports Prelude "HOL-Library.AList" "HOL-Library.Product_Lexorder"
begin

text \<open>
  Model of \<open>pcc_gateway/routing.py\<close>: route patterns, path normalisation, the frozen route
  table and its matching.  A dictionary of path parameters is an association list updated in
  place (insertion order, one entry per key); the route handler is a type parameter.
\<close>

section \<open>Hosts and patterns\<close>

text \<open>\<open>value.rfind(":")\<close>.\<close>

definition py_rfind :: "int \<Rightarrow> pystr \<Rightarrow> int" where
  "py_rfind c s =
     (let i = py_find c (rev s) in if i < 0 then -1 else int (length s) - 1 - i)"

definition normalize_host :: "pystr \<Rightarrow> pystr" where
  "normalize_host host =
     (let value = py_lower (py_strip host) in
      if value \<noteq> [] \<and> hd value = 91 then
        let closing = py_find 93 value in
        if closing < 0 then value
        else
          let suffix = drop (nat closing + 1) value in
          if suffix \<noteq> [] \<and> hd suffix \<noteq> 58 then value
          else drop 1 (take (nat closing) value)
      else
        let first_colon = py_find 58 value in
        if first_colon \<ge> 0 \<and> first_colon = py_rfind 58 value then take (nat first_colon) value
        else value)"

datatype segment_kind = Exact | Param | Tail

fun kind_rank :: "segment_kind \<Rightarrow> int" where
  "kind_rank Exact = 0" | "kind_rank Param = 1" | "kind_rank Tail = 2"

type_synonym pattern = "(segment_kind \<times> pystr) list"

text \<open>\<open>str.isalnum\<close> on one code point, exact below 256.\<close>

definition is_alnum :: "int \<Rightarrow> bool" where
  "is_alnum c \<longleftrightarrow> 48 \<le> c \<and> c \<le> 57 \<or> 65 \<le> c \<and> c \<le> 90 \<or> 97 \<le> c \<and> c \<le> 122 \<or>
     c = 170 \<or> c = 178 \<or> c = 179 \<or> c = 181 \<or> c = 185 \<or> c = 186 \<or> 188 \<le> c \<and> c \<le> 190 \<or>
     192 \<le> c \<and> c \<le> 255 \<and> c \<noteq> 215 \<and> c \<noteq> 247"

definition braced :: "pystr \<Rightarrow> bool" where
  "braced segment \<longleftrightarrow> segment \<noteq> [] \<and> hd segment = 123 \<and> last segment = 125"

text \<open>\<open>segment[1:-1]\<close>.\<close>

definition inner :: "pystr \<Rightarrow> pystr" where
  "inner segment = butlast (drop 1 segment)"

text \<open>The loop of \<open>_compile_path\<close>: the remaining raw segments, and what was collected.\<close>

fun compile_loop ::
  "pystr list \<Rightarrow> pattern \<Rightarrow> pystr list \<Rightarrow> pystr \<Rightarrow> (pattern \<times> pystr list \<times> pystr) result" where
  "compile_loop [] segments names tail_name = Inr (segments, names, tail_name)"
| "compile_loop (segment # raw) segments names tail_name =
     (if braced segment then
        let name0 = inner segment;
            tail = (name0 \<noteq> [] \<and> last name0 = 42);
            name = (if tail then butlast name0 else name0)
        in if name = [] \<or> name \<in> set names
           then Inl (ValueError ''route parameter names must be non-empty and unique'')
           else if \<not> list_all (\<lambda>c. c = 95 \<or> is_alnum c) name
           then Inl (ValueError ''route parameter name is invalid'')
           else if tail then
             if raw \<noteq> [] then Inl (ValueError ''tail parameter must be the last segment'')
             else compile_loop raw (segments @ [(Tail, name)]) (names @ [name]) name
           else compile_loop raw (segments @ [(Param, name)]) (names @ [name]) tail_name
      else if segment = [] \<or> segment = cp ''.'' \<or> segment = cp ''..''
      then Inl (ValueError ''empty and dot route segments are rejected'')
      else if 123 \<in> set segment \<or> 125 \<in> set segment
      then Inl (ValueError ''route braces must cover a whole segment'')
      else compile_loop raw (segments @ [(Exact, segment)]) names tail_name)"

definition split_path :: "pystr \<Rightarrow> pystr list" where
  "split_path p = (let values = tl (py_split 47 p) in if values = [[]] then [] else values)"

definition compile_path :: "pystr \<Rightarrow> (pattern \<times> pystr list \<times> pystr) result" where
  "compile_path pattern =
     (if pattern = [] \<or> hd pattern \<noteq> 47
      then Inl (ValueError ''route path must start with /'')
      else if 63 \<in> set pattern \<or> 35 \<in> set pattern
      then Inl (ValueError ''route path must not contain query or fragment'')
      else compile_loop (split_path pattern) [] [] [])"

section \<open>Routes\<close>

record 'h route =
  rt_method :: pystr
  rt_path :: pystr
  rt_handler :: 'h
  rt_name :: pystr
  rt_host :: pystr
  rt_kind :: pystr
  rt_target :: pystr
  rt_segments :: pattern
  rt_parameter_names :: "pystr list"
  rt_tail_name :: pystr
  rt_bindings :: "(pystr \<times> pystr) list"

text \<open>The validation loop over the bindings; a binding is a tuple of any length.\<close>

fun check_bindings ::
  "pystr list \<Rightarrow> pystr list list \<Rightarrow> pystr list \<Rightarrow> (pystr \<times> pystr) list result" where
  "check_bindings parameter_names [] bound_names = Inr []"
| "check_bindings parameter_names (binding # bindings) bound_names =
     (case binding of
       [parameter_name, scalar_kind] \<Rightarrow>
         if parameter_name \<notin> set parameter_names
         then Inl (ValueError ''route binding names an unknown path parameter'')
         else if parameter_name \<in> set bound_names
         then Inl (ValueError ''route binding duplicates a path parameter'')
         else if scalar_kind \<noteq> cp ''str'' \<and> scalar_kind \<noteq> cp ''int'' \<and> scalar_kind \<noteq> cp ''bool''
         then Inl (ValueError ''unsupported route scalar binding'')
         else rbind (check_bindings parameter_names bindings (bound_names @ [parameter_name]))
                (\<lambda>bs. Inr ((parameter_name, scalar_kind) # bs))
     | _ \<Rightarrow> Inl (ValueError ''route binding must be (name, scalar-kind)''))"

definition route_new ::
  "pystr \<Rightarrow> pystr \<Rightarrow> 'h \<Rightarrow> pystr \<Rightarrow> pystr \<Rightarrow> pystr \<Rightarrow> pystr \<Rightarrow> pystr list list \<Rightarrow> 'h route result" where
  "route_new method path handler name host kind target bindings =
     rbind (compile_path path) (\<lambda>(segments, names, tail_name).
     rbind (check_bindings names bindings []) (\<lambda>bs.
     Inr \<lparr>rt_method = py_upper method, rt_path = path, rt_handler = handler, rt_name = name,
          rt_host = normalize_host host, rt_kind = kind, rt_target = target,
          rt_segments = segments, rt_parameter_names = names, rt_tail_name = tail_name,
          rt_bindings = bs\<rparr>))"

fun shape_of :: "segment_kind \<times> pystr \<Rightarrow> pystr" where
  "shape_of (Exact, s) = s"
| "shape_of (Param, s) = cp ''{}''"
| "shape_of (Tail, s) = cp ''{*}''"

definition signature :: "'h route \<Rightarrow> pystr" where
  "signature r =
     rt_host r @ cp ''|'' @ rt_method r @ cp ''|/'' @ py_join 47 (map shape_of (rt_segments r))"

section \<open>Targets and paths\<close>

definition split_target :: "pystr \<Rightarrow> pystr \<times> pystr" where
  "split_target target =
     (let question = py_find 63 target in
      if question < 0 then (target, [])
      else (take (nat question) target, drop (nat question + 1) target))"

fun normalize_loop :: "pystr list \<Rightarrow> pystr list \<Rightarrow> pystr list result" where
  "normalize_loop [] output = Inr output"
| "normalize_loop (segment # segments) output =
     (if segment = [] \<or> segment = cp ''.'' then normalize_loop segments output
      else if segment = cp ''..'' then
        if output = [] then Inl (ValueError ''path escapes routing root'')
        else normalize_loop segments (butlast output)
      else if 0 \<in> set segment \<or> 92 \<in> set segment then Inl (ValueError ''unsafe routing path'')
      else normalize_loop segments (output @ [segment]))"

definition normalize_path :: "pystr \<Rightarrow> pystr result" where
  "normalize_path path =
     (if path = [] \<or> hd path \<noteq> 47
      then Inl (ValueError ''origin-form path must start with /'')
      else rbind (normalize_loop (tl (py_split 47 path)) []) (\<lambda>output.
        Inr (47 # py_join 47 output)))"

type_synonym params = "(pystr \<times> pystr) list"

text \<open>The loop over the segments of a route; \<open>values\<close> are the path segments from
  \<open>value_index\<close> on, and \<open>None\<close> is a mismatch.\<close>

fun match_loop :: "pattern \<Rightarrow> pystr list \<Rightarrow> params \<Rightarrow> params option" where
  "match_loop [] values params = (if values = [] then Some params else None)"
| "match_loop ((Tail, expected) # _) values params =
     Some (AList.update expected (py_join 47 values) params)"
| "match_loop ((kind, expected) # segments) values params =
     (case values of
       [] \<Rightarrow> None
     | actual # rest \<Rightarrow>
         if kind = Exact then if actual \<noteq> expected then None else match_loop segments rest params
         else match_loop segments rest (AList.update expected actual params))"

definition match_segments :: "'h route \<Rightarrow> pystr \<Rightarrow> params option result" where
  "match_segments r path =
     rbind (normalize_path path) (\<lambda>normalized.
       Inr (match_loop (rt_segments r) (split_path normalized) []))"

section \<open>The route table\<close>

record 'h router =
  ro_routes :: "'h route list"
  ro_frozen :: bool

definition router_add :: "'h route \<Rightarrow> 'h router \<Rightarrow> 'h router \<times> unit result" where
  "router_add r t =
     (if ro_frozen t then (t, Inl (RuntimeError ''route table is frozen''))
      else if list_ex (\<lambda>existing. signature existing = signature r) (ro_routes t)
      then (t, Inl (RouteConflictError (signature r)))
      else (t\<lparr>ro_routes := ro_routes t @ [r]\<rparr>, Inr ()))"

definition route_key :: "'h route \<Rightarrow> int \<times> int" where
  "route_key r =
     (sum_list (map (\<lambda>s. kind_rank (fst s)) (rt_segments r)), - int (length (rt_segments r)))"

definition router_freeze :: "'h router \<Rightarrow> 'h router" where
  "router_freeze t = t\<lparr>ro_routes := sort_key route_key (ro_routes t), ro_frozen := True\<rparr>"

fun add_all :: "'h route list \<Rightarrow> 'h router \<Rightarrow> 'h router result" where
  "add_all [] t = Inr t"
| "add_all (r # rs) t = (case router_add r t of (t', Inl e) \<Rightarrow> Inl e | (t', Inr _) \<Rightarrow> add_all rs t')"

definition router_new :: "'h route list \<Rightarrow> 'h router result" where
  "router_new routes =
     rbind (add_all routes \<lparr>ro_routes = [], ro_frozen = False\<rparr>) (\<lambda>t. Inr (router_freeze t))"

fun match_routes ::
  "'h route list \<Rightarrow> pystr \<Rightarrow> pystr \<Rightarrow> pystr \<Rightarrow> pystr \<Rightarrow> pystr list \<Rightarrow> ('h route \<times> params) result" where
  "match_routes [] path wanted_method wanted_host target allowed =
     (if allowed \<noteq> [] then Inl (MethodNotAllowed allowed) else Inl (RouteNotFound target))"
| "match_routes (r # routes) path wanted_method wanted_host target allowed =
     (if rt_host r \<noteq> [] \<and> rt_host r \<noteq> wanted_host
      then match_routes routes path wanted_method wanted_host target allowed
      else case match_segments r path of
        Inl e \<Rightarrow> Inl e
      | Inr None \<Rightarrow> match_routes routes path wanted_method wanted_host target allowed
      | Inr (Some params) \<Rightarrow>
          if rt_method r = wanted_method \<or> rt_method r = cp ''*'' then Inr (r, params)
          else match_routes routes path wanted_method wanted_host target
                 (if rt_method r \<in> set allowed then allowed else allowed @ [rt_method r]))"

definition router_match ::
  "pystr \<Rightarrow> pystr \<Rightarrow> pystr \<Rightarrow> 'h router \<Rightarrow> ('h route \<times> params) result" where
  "router_match method target host t =
     match_routes (ro_routes t) (fst (split_target target)) (py_upper method) (normalize_host host)
       target []"

section \<open>Bound parameters\<close>

datatype bound = BoundStr pystr | BoundInt int | BoundBool bool

definition parse_bound_int :: "pystr \<Rightarrow> bound result" where
  "parse_bound_int raw =
     (if raw = [] \<or> (hd raw = 45 \<and> length raw = 1)
      then Inl (RouteBindingError ''invalid integer route parameter'')
      else
        let digits = (if hd raw = 45 then drop 1 raw else raw) in
        if list_ex (\<lambda>c. c < 48 \<or> c > 57) digits
        then Inl (RouteBindingError ''invalid integer route parameter'')
        else Inr (BoundInt (if hd raw = 45 then - py_int_dec digits else py_int_dec digits)))"

definition parse_bound_bool :: "pystr \<Rightarrow> bound result" where
  "parse_bound_bool raw =
     (let lowered = py_lower raw in
      if lowered \<in> {cp ''1'', cp ''true'', cp ''yes''} then Inr (BoundBool True)
      else if lowered \<in> {cp ''0'', cp ''false'', cp ''no''} then Inr (BoundBool False)
      else Inl (RouteBindingError ''invalid boolean route parameter''))"

fun bound_values :: "(pystr \<times> pystr) list \<Rightarrow> params \<Rightarrow> bound list result" where
  "bound_values [] params = Inr []"
| "bound_values ((parameter_name, scalar_kind) # bindings) params =
     (case map_of params parameter_name of
       None \<Rightarrow> Inl (KeyError ''path parameter'')
     | Some raw \<Rightarrow>
         if scalar_kind = cp ''str'' then
           rbind (bound_values bindings params) (\<lambda>vs. Inr (BoundStr raw # vs))
         else if scalar_kind = cp ''int'' then
           rbind (parse_bound_int raw) (\<lambda>v. rbind (bound_values bindings params) (\<lambda>vs. Inr (v # vs)))
         else if scalar_kind = cp ''bool'' then
           rbind (parse_bound_bool raw) (\<lambda>v. rbind (bound_values bindings params) (\<lambda>vs. Inr (v # vs)))
         else bound_values bindings params)"

end
