(* ===== verification/Routing_Props.thy ===== *)
theory Routing_Props
  imports Routing "HOL-Library.Multiset"
begin

text \<open>
  The properties of path normalisation, of pattern matching against the language of a pattern,
  and of the route table: its order, its conflict freedom, and the outcome of a match as a
  first-match search over the matching routes.
\<close>

section \<open>Path normalisation\<close>

definition seg_clean :: "pystr \<Rightarrow> bool" where
  "seg_clean s \<longleftrightarrow> s \<noteq> [] \<and> s \<noteq> cp ''.'' \<and> s \<noteq> cp ''..'' \<and> 47 \<notin> set s \<and> 0 \<notin> set s \<and> 92 \<notin> set s"

lemma normalize_loop_clean:
  "normalize_loop segs out = Inr out' \<Longrightarrow> \<forall>s \<in> set segs. 47 \<notin> set s \<Longrightarrow> list_all seg_clean out \<Longrightarrow>
   list_all seg_clean out'"
proof (induction segs out rule: normalize_loop.induct)
  case (2 segment segments out)
  have "list_all seg_clean (butlast out)"
    using "2.prems"(3) by (auto simp: list_all_iff dest: in_set_butlastD)
  moreover have "seg_clean segment"
    if "\<not> (segment = [] \<or> segment = cp ''.'')" "segment \<noteq> cp ''..''" "\<not> (0 \<in> set segment \<or> 92 \<in> set segment)"
    using that "2.prems"(2) by (simp add: seg_clean_def)
  ultimately show ?case
    using 2 by (auto split: if_splits)
qed simp

lemma normalize_loop_id: "list_all seg_clean segs \<Longrightarrow> normalize_loop segs out = Inr (out @ segs)"
  by (induction segs arbitrary: out) (auto simp: seg_clean_def)

lemma py_split_Cons_sep [simp]: "py_split c (c # xs) = [] # py_split c xs"
  by simp

lemma split_clean:
  assumes "list_all seg_clean out"
  shows "split_path (47 # py_join 47 out) = out"
    and "tl (py_split 47 (47 # py_join 47 out)) = (if out = [] then [[]] else out)"
proof -
  have "py_split 47 (py_join 47 out) = out" if "out \<noteq> []"
    using that assms by (intro py_split_join) (auto simp: list_all_iff seg_clean_def)
  then show "tl (py_split 47 (47 # py_join 47 out)) = (if out = [] then [[]] else out)"
    by (cases out) auto
  then show "split_path (47 # py_join 47 out) = out"
    using assms by (auto simp: split_path_def Let_def seg_clean_def)
qed

lemma normalize_pathE:
  assumes "normalize_path p = Inr q"
  obtains out where "normalize_loop (tl (py_split 47 p)) [] = Inr out" "q = 47 # py_join 47 out"
    "list_all seg_clean out" "split_path q = out"
proof -
  from assms obtain out where o: "normalize_loop (tl (py_split 47 p)) [] = Inr out" "q = 47 # py_join 47 out"
    by (auto simp: normalize_path_def rbind_eq_Inr split: if_splits)
  have "\<forall>s \<in> set (tl (py_split 47 p)). 47 \<notin> set s"
    using py_split_no_sep by (metis list.set_sel(2) py_split_not_Nil)
  with normalize_loop_clean [OF o(1)] have "list_all seg_clean out" by simp
  with o split_clean that show thesis by blast
qed

text \<open>How far a sequence of path segments has moved below the root.\<close>

definition depth_step :: "pystr \<Rightarrow> int" where
  "depth_step s = (if s = [] \<or> s = cp ''.'' then 0 else if s = cp ''..'' then -1 else 1)"

definition depth :: "pystr list \<Rightarrow> int" where
  "depth segs = sum_list (map depth_step segs)"

lemma all_take_Cons: "(\<forall>k. P (take k (x # xs))) \<longleftrightarrow> P [] \<and> (\<forall>k. P (x # take k xs))"
  by (metis take_Suc_Cons take0 not0_implies_Suc take_0)

lemma depth_all_Cons:
  "(\<forall>k. 0 \<le> n + depth (take k (s # segs))) \<longleftrightarrow>
     0 \<le> n \<and> (\<forall>k. 0 \<le> n + depth_step s + depth (take k segs))"
  using all_take_Cons [of "\<lambda>xs. 0 \<le> n + depth xs" s segs] by (simp add: depth_def add.assoc)

lemma normalize_loop_accepts:
  "(\<exists>out'. normalize_loop segs out = Inr out') \<longleftrightarrow>
   (\<forall>s \<in> set segs. 0 \<notin> set s \<and> 92 \<notin> set s) \<and> (\<forall>k. 0 \<le> int (length out) + depth (take k segs))"
proof (induction segs out rule: normalize_loop.induct)
  case (1 out)
  show ?case by (simp add: depth_def)
next
  case (2 s segs out)
  consider (skip) "s = [] \<or> s = cp ''.''" | (up) "s = cp ''..''"
    | (name) "\<not> (s = [] \<or> s = cp ''.'')" "s \<noteq> cp ''..''" by blast
  then show ?case
  proof cases
    case skip
    then have "0 \<notin> set s \<and> 92 \<notin> set s" "depth_step s = 0" by (auto simp: cp_def depth_step_def)
    with skip 2(1) show ?thesis
      unfolding depth_all_Cons by auto
  next
    case up
    then have s: "\<not> (s = [] \<or> s = cp ''.'')" "0 \<notin> set s \<and> 92 \<notin> set s" "depth_step s = -1"
      by (auto simp: cp_def depth_step_def)
    show ?thesis
    proof (cases "out = []")
      case True
      have "\<not> (\<forall>k. 0 \<le> int (length out) + depth_step s + depth (take k segs))"
        using True s(3) by (auto simp: depth_def intro: exI [of _ 0])
      with True up s(1) show ?thesis unfolding depth_all_Cons by auto
    next
      case False
      then have "int (length (butlast out)) = int (length out) - 1"
        by (cases out) auto
      with False up s 2(2) show ?thesis
        unfolding depth_all_Cons by auto
    qed
  next
    case name
    then have "depth_step s = 1" by (simp add: depth_step_def)
    with name 2(3) show ?thesis
      unfolding depth_all_Cons by (auto simp: add.commute)
  qed
qed

section \<open>Patterns\<close>

text \<open>The path segments a pattern stands for under values for its parameters.\<close>

fun fill :: "pattern \<Rightarrow> (pystr \<rightharpoonup> pystr) \<Rightarrow> pystr list" where
  "fill [] m = []"
| "fill ((Exact, s) # ps) m = s # fill ps m"
| "fill ((Param, n) # ps) m = the (m n) # fill ps m"
| "fill ((Tail, n) # ps) m = (if the (m n) = [] then [] else py_split 47 (the (m n)))"

definition pattern_names :: "pattern \<Rightarrow> pystr list" where
  "pattern_names ps = map snd (filter (\<lambda>p. fst p \<noteq> Exact) ps)"

text \<open>Parameter names are distinct and a tail parameter is last.\<close>

definition pattern_ok :: "pattern \<Rightarrow> bool" where
  "pattern_ok ps \<longleftrightarrow> distinct (pattern_names ps) \<and> (\<forall>p \<in> set (butlast ps). fst p \<noteq> Tail)"

lemma pattern_ok_Cons:
  "pattern_ok (p # ps) \<Longrightarrow> pattern_ok ps \<and> (fst p = Tail \<longrightarrow> ps = []) \<and>
     (fst p \<noteq> Exact \<longrightarrow> snd p \<notin> set (pattern_names ps))"
  by (auto simp: pattern_ok_def pattern_names_def split: if_splits)

lemma fill_cong:
  "(\<And>n. n \<in> set (pattern_names ps) \<Longrightarrow> m n = m' n) \<Longrightarrow> fill ps m = fill ps m'"
proof (induction ps)
  case (Cons p ps)
  then show ?case
    by (cases p; cases "fst p") (auto simp: pattern_names_def)
qed simp

lemma match_loop_keeps:
  "match_loop ps vs params = Some params' \<Longrightarrow> n \<notin> set (pattern_names ps) \<Longrightarrow>
   map_of params' n = map_of params n"
proof (induction ps vs params rule: match_loop.induct)
  case (1 vs params)
  then show ?case by (simp split: if_splits)
qed (auto simp: pattern_names_def update_conv' split: list.splits if_splits)

lemma join_clean_Nil: "list_all seg_clean vs \<Longrightarrow> py_join 47 vs = [] \<longleftrightarrow> vs = []"
  by (cases vs rule: remdups_adj.cases) (auto simp: seg_clean_def)

lemma match_loop_sound:
  "match_loop ps vs params = Some params' \<Longrightarrow> pattern_ok ps \<Longrightarrow> list_all seg_clean vs \<Longrightarrow>
   fill ps (map_of params') = vs"
proof (induction ps vs params rule: match_loop.induct [case_names finish tail exact param])
  case (finish vs params)
  then show ?case by (simp split: if_splits)
next
  case (tail n uu vs params)
  have "py_split 47 (py_join 47 vs) = vs" if "vs \<noteq> []"
    using that tail by (intro py_split_join) (auto simp: list_all_iff seg_clean_def)
  with tail show ?case
    by (auto simp: update_conv' join_clean_Nil)
next
  case (exact n ps vs params)
  then show ?case
    using pattern_ok_Cons by (auto split: list.splits if_splits)
next
  case (param n ps vs params)
  from param.prems obtain a rest where
    v: "vs = a # rest" "match_loop ps rest (AList.update n a params) = Some params'"
    by (auto split: list.splits)
  have ok: "pattern_ok ps" "n \<notin> set (pattern_names ps)"
    using pattern_ok_Cons [OF param.prems(2)] by auto
  have "fill ps (map_of params') = rest"
    using param.IH v ok param.prems(3) by auto
  moreover have "map_of params' n = Some a"
    using match_loop_keeps [OF v(2) ok(2)] by (simp add: update_conv')
  ultimately show ?case using v by simp
qed

lemma match_loop_complete:
  "pattern_ok ps \<Longrightarrow> fill ps m = vs \<Longrightarrow> \<exists>params'. match_loop ps vs params = Some params'"
proof (induction ps arbitrary: vs params)
  case (Cons p ps)
  from pattern_ok_Cons [OF Cons.prems(1)] have ok: "pattern_ok ps" by simp
  obtain k n where p: "p = (k, n)" by (cases p)
  show ?case
    using Cons.prems(2) Cons.IH [OF ok refl] p by (cases k) auto
qed simp

lemma compile_loop_cases:
  assumes "compile_loop (seg # raw) segs names t = Inr R"
  obtains (tail) name where "raw = []" "R = (segs @ [(Tail, name)], names @ [name], name)"
      "name \<notin> set names"
  | (param) name where "compile_loop raw (segs @ [(Param, name)]) (names @ [name]) t = Inr R"
      "name \<notin> set names"
  | (exact) "compile_loop raw (segs @ [(Exact, seg)]) names t = Inr R"
  using assms by (auto simp: Let_def split: if_splits)

lemma compile_loop_ok:
  "compile_loop raw segs names t = Inr (segs', names', t') \<Longrightarrow>
   names = pattern_names segs \<Longrightarrow> distinct names \<Longrightarrow> \<forall>p \<in> set segs. fst p \<noteq> Tail \<Longrightarrow>
   pattern_ok segs' \<and> names' = pattern_names segs'"
proof (induction raw arbitrary: segs names t)
  case Nil
  then show ?case by (auto simp: pattern_ok_def dest: in_set_butlastD)
next
  case (Cons seg raw)
  from Cons.prems(1) show ?case
  proof (cases rule: compile_loop_cases)
    case (tail name)
    with Cons.prems(2-4) show ?thesis by (auto simp: pattern_ok_def pattern_names_def)
  next
    case (param name)
    from Cons.IH [OF this(1)] param(2) Cons.prems(2-4) show ?thesis
      by (auto simp: pattern_names_def)
  next
    case exact
    from Cons.IH [OF this] Cons.prems(2-4) show ?thesis
      by (auto simp: pattern_names_def)
  qed
qed

lemma compile_path_ok:
  "compile_path p = Inr (segs, names, t) \<Longrightarrow> pattern_ok segs \<and> names = pattern_names segs"
  using compile_loop_ok [of "split_path p" "[]" "[]" "[]" segs names t]
  by (auto simp: compile_path_def pattern_names_def split: if_splits)

section \<open>The table\<close>

lemma add_all_ok:
  "add_all rs t = Inr t' \<Longrightarrow> distinct (map signature (ro_routes t)) \<Longrightarrow>
   ro_routes t' = ro_routes t @ rs \<and> distinct (map signature (ro_routes t'))"
proof (induction rs arbitrary: t)
  case (Cons r rs)
  from Cons.prems(1) have add: "signature r \<notin> signature ` set (ro_routes t)"
    "add_all rs (t\<lparr>ro_routes := ro_routes t @ [r]\<rparr>) = Inr t'"
    by (auto simp: router_add_def list_ex_iff split: if_splits)
  then have "distinct (map signature (ro_routes (t\<lparr>ro_routes := ro_routes t @ [r]\<rparr>)))"
    using Cons.prems(2) by auto
  note ih = Cons.IH [OF add(2) this]
  then have "ro_routes t' = ro_routes t @ r # rs" by simp
  with ih show ?case by blast
qed simp

definition host_matches :: "pystr \<Rightarrow> 'h route \<Rightarrow> bool" where
  "host_matches host r \<longleftrightarrow> rt_host r = [] \<or> rt_host r = host"

definition method_matches :: "pystr \<Rightarrow> 'h route \<Rightarrow> bool" where
  "method_matches m r \<longleftrightarrow> rt_method r = m \<or> rt_method r = cp ''*''"

text \<open>The routes whose host and pattern fit, in table order.\<close>

definition candidates :: "pystr \<Rightarrow> pystr list \<Rightarrow> 'h route list \<Rightarrow> 'h route list" where
  "candidates host vs routes =
     filter (\<lambda>r. host_matches host r \<and> match_loop (rt_segments r) vs [] \<noteq> None) routes"

definition add_new :: "pystr list \<Rightarrow> pystr \<Rightarrow> pystr list" where
  "add_new xs x = (if x \<in> set xs then xs else xs @ [x])"

lemma match_routes_spec:
  assumes "normalize_path path = Inr q"
  shows "match_routes routes path m host target allowed =
    (case find (method_matches m) (candidates host (split_path q) routes) of
      Some r \<Rightarrow> Inr (r, the (match_loop (rt_segments r) (split_path q) []))
    | None \<Rightarrow>
        let ms = foldl add_new allowed (map rt_method (candidates host (split_path q) routes)) in
        if ms \<noteq> [] then Inl (MethodNotAllowed ms) else Inl (RouteNotFound target))"
proof (induction routes arbitrary: allowed)
  case (Cons r routes)
  then show ?case
    using assms
    by (auto simp: candidates_def host_matches_def method_matches_def match_segments_def add_new_def
        split: option.splits)
qed (simp add: candidates_def)

lemma foldl_add_new_set: "set (foldl add_new xs ys) = set xs \<union> set ys"
  by (induction ys arbitrary: xs) (auto simp: add_new_def)

lemma foldl_add_new_distinct: "distinct xs \<Longrightarrow> distinct (foldl add_new xs ys)"
  by (induction ys arbitrary: xs) (auto simp: add_new_def)

section \<open>Properties\<close>

text \<open>C11 Normalised paths are canonical: the result starts at the root, its segments are never
  empty, \<open>.\<close> or \<open>..\<close> and contain no separator, NUL or backslash, and normalising again changes
  nothing.\<close>

theorem normalize_path_canonical:
  assumes "normalize_path p = Inr q"
  shows "hd q = 47 \<and>
    (\<forall>s \<in> set (split_path q). s \<noteq> [] \<and> s \<noteq> cp ''.'' \<and> s \<noteq> cp ''..'' \<and> 47 \<notin> set s \<and>
       0 \<notin> set s \<and> 92 \<notin> set s) \<and>
    q = 47 # py_join 47 (split_path q) \<and> normalize_path q = Inr q"
proof -
  from assms obtain out where o: "q = 47 # py_join 47 out" "list_all seg_clean out" "split_path q = out"
    by (rule normalize_pathE)
  have "normalize_loop (if out = [] then [[]] else out) [] = Inr out"
    using normalize_loop_id [OF o(2), of "[]"] by simp
  then have "normalize_path q = Inr q"
    using split_clean(2) [OF o(2)] o(1) by (simp add: normalize_path_def)
  with o show ?thesis by (auto simp: list_all_iff seg_clean_def)
qed

theorem normalize_path_canonical_witness:
  "normalize_path (cp ''/a/./b/../c//d'') = Inr (cp ''/a/c/d'') \<and>
   normalize_path (cp ''/a/c/d'') = Inr (cp ''/a/c/d'')"
proof -
  have n: "normalize_path (cp ''/a/./b/../c//d'') = Inr (cp ''/a/c/d'')" by code_simp
  from normalize_path_canonical [OF n] n show ?thesis by blast
qed

text \<open>A path is accepted exactly when no prefix of it climbs above the root and no segment
  contains NUL or a backslash.\<close>

theorem normalize_path_never_escapes:
  "(\<exists>q. normalize_path p = Inr q) \<longleftrightarrow>
   p \<noteq> [] \<and> hd p = 47 \<and> (\<forall>s \<in> set (tl (py_split 47 p)). 0 \<notin> set s \<and> 92 \<notin> set s) \<and>
   (\<forall>k. 0 \<le> depth (take k (tl (py_split 47 p))))"
  using normalize_loop_accepts [of "tl (py_split 47 p)" "[]"]
  by (auto simp: normalize_path_def rbind_eq_Inr)

theorem normalize_path_never_escapes_witness:
  "\<not> (\<exists>q. normalize_path (cp ''/a/../../b'') = Inr q)"
proof -
  have "tl (py_split 47 (cp ''/a/../../b'')) = [cp ''a'', cp ''..'', cp ''..'', cp ''b'']"
    by code_simp
  moreover have "depth (take 3 [cp ''a'', cp ''..'', cp ''..'', cp ''b'']) = -1" by code_simp
  ultimately show ?thesis
    using normalize_path_never_escapes [of "cp ''/a/../../b''"]
    by (metis neg_0_le_iff_le not_one_le_zero)
qed

text \<open>C12 Pattern matching is exact: a compiled route matches a path iff the normalised path is the
  pattern filled with some parameter values, and then the returned parameters are such values.\<close>

theorem match_segments_exact:
  assumes "route_new m pat hdl nm host kind tgt bs = Inr r" "normalize_path path = Inr q"
  shows "\<exists>res. match_segments r path = Inr res \<and>
    (res \<noteq> None \<longleftrightarrow> (\<exists>vals. fill (rt_segments r) vals = split_path q)) \<and>
    (\<forall>params. res = Some params \<longrightarrow> fill (rt_segments r) (map_of params) = split_path q)"
proof -
  obtain names t where "compile_path pat = Inr (rt_segments r, names, t)"
    using assms(1) by (auto simp: route_new_def rbind_eq_Inr)
  then have ok: "pattern_ok (rt_segments r)" using compile_path_ok by blast
  from assms(2) have clean: "list_all seg_clean (split_path q)"
    by (auto elim: normalize_pathE)
  let ?res = "match_loop (rt_segments r) (split_path q) []"
  have "match_segments r path = Inr ?res"
    by (simp add: match_segments_def assms(2))
  moreover have "?res = Some params \<Longrightarrow> fill (rt_segments r) (map_of params) = split_path q" for params
    using match_loop_sound [OF _ ok clean] by blast
  moreover have "fill (rt_segments r) vals = split_path q \<Longrightarrow> ?res \<noteq> None" for vals
    using match_loop_complete [OF ok, of vals "split_path q" "[]"] by auto
  ultimately show ?thesis by (intro exI [of _ ?res]) auto
qed

definition sample_route :: "nat route" where
  "sample_route =
     \<lparr>rt_method = cp ''GET'', rt_path = cp ''/u/{id}/{rest*}'', rt_handler = 7, rt_name = [],
      rt_host = [], rt_kind = cp ''local'', rt_target = [],
      rt_segments = [(Exact, cp ''u''), (Param, cp ''id''), (Tail, cp ''rest'')],
      rt_parameter_names = [cp ''id'', cp ''rest''], rt_tail_name = cp ''rest'', rt_bindings = []\<rparr>"

theorem match_segments_exact_witness:
  "\<exists>res. match_segments sample_route (cp ''/u/4/a/b'') = Inr res \<and>
    (res \<noteq> None \<longleftrightarrow> (\<exists>vals. fill (rt_segments sample_route) vals = split_path (cp ''/u/4/a/b'')))"
proof -
  have "route_new (cp ''get'') (cp ''/u/{id}/{rest*}'') 7 [] [] (cp ''local'') [] [] = Inr sample_route"
    by code_simp
  moreover have "normalize_path (cp ''/u/4/a/b'') = Inr (cp ''/u/4/a/b'')" by code_simp
  ultimately obtain res where "match_segments sample_route (cp ''/u/4/a/b'') = Inr res"
    "res \<noteq> None \<longleftrightarrow> (\<exists>vals. fill (rt_segments sample_route) vals = split_path (cp ''/u/4/a/b''))"
    using match_segments_exact [of "cp ''get''" "cp ''/u/{id}/{rest*}''" 7] by metis
  then show ?thesis by (intro exI [of _ res] conjI)
qed

text \<open>C13 A match is the first route, in table order, whose host, pattern and method fit; without
  one the error is 405 with exactly the methods of the routes whose host and pattern fit, each
  once, or 404 when there is none.\<close>

theorem router_match_first_fit:
  assumes "normalize_path (fst (split_target target)) = Inr q"
    and C: "C = candidates (normalize_host host) (split_path q) (ro_routes t)"
  shows "(case find (method_matches (py_upper method)) C of
      Some r \<Rightarrow> router_match method target host t =
                 Inr (r, the (match_loop (rt_segments r) (split_path q) []))
    | None \<Rightarrow>
        if C = [] then router_match method target host t = Inl (RouteNotFound target)
        else \<exists>ms. router_match method target host t = Inl (MethodNotAllowed ms) \<and>
               distinct ms \<and> set ms = rt_method ` set C)"
proof -
  have ms: "set (foldl add_new [] (map rt_method C)) = rt_method ` set C"
    "distinct (foldl add_new [] (map rt_method C))"
    by (simp_all add: foldl_add_new_set foldl_add_new_distinct)
  then have "foldl add_new [] (map rt_method C) = [] \<longleftrightarrow> C = []"
    by (metis image_is_empty set_empty)
  with ms show ?thesis
    using match_routes_spec [OF assms(1), of "ro_routes t" "py_upper method" "normalize_host host" target "[]"]
    by (auto simp: router_match_def C [symmetric] Let_def split: option.splits)
qed

theorem router_match_first_fit_witness:
  "router_match (cp ''PUT'') (cp ''/u/4/x?q'') [] \<lparr>ro_routes = [sample_route], ro_frozen = True\<rparr> =
     Inl (MethodNotAllowed [cp ''GET''])"
proof -
  let ?t = "\<lparr>ro_routes = [sample_route], ro_frozen = True\<rparr>"
  let ?C = "candidates (normalize_host []) (split_path (cp ''/u/4/x'')) (ro_routes ?t)"
  have n: "normalize_path (fst (split_target (cp ''/u/4/x?q''))) = Inr (cp ''/u/4/x'')"
    by code_simp
  have c: "?C = [sample_route]" by code_simp
  have f: "find (method_matches (py_upper (cp ''PUT''))) [sample_route] = None" by code_simp
  have one: "distinct ms \<and> set ms = rt_method ` set [sample_route] \<Longrightarrow> ms = [cp ''GET'']" for ms
    by (cases ms; cases "tl ms") (auto simp: sample_route_def)
  from router_match_first_fit [OF n c [symmetric], of "cp ''PUT''"]
  show ?thesis unfolding f using one by auto
qed

text \<open>The table: a successfully built router has all the given routes with pairwise different
  signatures, in order of the precedence key with declaration order among equal keys, and refuses
  any later addition unchanged.\<close>

theorem router_new_table:
  assumes "router_new routes = Inr t"
  shows "distinct (map signature (ro_routes t)) \<and> mset (ro_routes t) = mset routes \<and>
    sorted (map route_key (ro_routes t)) \<and>
    (\<forall>k. filter (\<lambda>r. route_key r = k) (ro_routes t) = filter (\<lambda>r. route_key r = k) routes) \<and>
    router_add r t = (t, Inl (RuntimeError ''route table is frozen''))"
proof -
  from assms obtain t0 where t0: "add_all routes \<lparr>ro_routes = [], ro_frozen = False\<rparr> = Inr t0"
    "t = router_freeze t0"
    by (auto simp: router_new_def rbind_eq_Inr)
  have "ro_routes t0 = routes \<and> distinct (map signature (ro_routes t0))"
    using add_all_ok [OF t0(1)] t0(1) by auto
  then have "distinct (map signature (sort_key route_key routes))"
    by (metis distinct_map distinct_sort set_sort)
  then show ?thesis
    using t0 \<open>ro_routes t0 = routes \<and> _\<close>
    by (auto simp: router_freeze_def router_add_def sort_key_stable)
qed

theorem router_new_table_witness:
  "distinct (map signature [sample_route]) \<and>
   router_add sample_route (\<lparr>ro_routes = [sample_route], ro_frozen = True\<rparr> :: nat router) =
     (\<lparr>ro_routes = [sample_route], ro_frozen = True\<rparr>, Inl (RuntimeError ''route table is frozen''))"
proof -
  have "router_new [sample_route] = Inr \<lparr>ro_routes = [sample_route], ro_frozen = True\<rparr>"
    by (simp add: router_new_def router_add_def router_freeze_def)
  from router_new_table [OF this, of sample_route] show ?thesis by simp
qed

definition shadow_routes :: "nat route list" where
  "shadow_routes =
     [sample_route\<lparr>rt_handler := 1,
        rt_segments := [(Param, cp ''a''), (Param, cp ''b''), (Param, cp ''c'')]\<rparr>,
      sample_route\<lparr>rt_handler := 2, rt_segments := [(Tail, cp ''t'')]\<rparr>]"

text \<open>Precedence is by the sum of the segment kinds, so a tail capture comes before a pattern
  with three parameters: a table with both, the parameters declared first, answers a three-segment
  path with the tail route.\<close>

theorem tail_capture_shadows_parameters:
  "rbind (router_new shadow_routes) (router_match (cp ''GET'') (cp ''/x/y/z'') []) =
     Inr (shadow_routes ! 1, [(cp ''t'', cp ''x/y/z'')])"
  by code_simp

end
