(* ===== verification/Models.thy ===== *)
theory Models
  imports Http1 Routing Channel_Fifo
begin

text \<open>
  Model of \<open>pcc_gateway/models.py\<close>: cancellation tokens, the bounded body stream between the
  connection (producer) and the handler (single reader), query strings, requests and responses.

  The body stream is protected by one lock.  What a method does under the lock is one atomic
  definition (\<open>..._locked\<close>, \<open>read_poll\<close>); what it does after releasing it (setting an event,
  copying and releasing a buffer view) is separate, so that \<open>Body_Threads\<close> can interleave them.
  An event is a flag; a thread that waits on it is parked until the flag is up.
\<close>

section \<open>Cancellation\<close>

record cancellation =
  cn_deadline_ms :: int
  cn_cancelled :: bool
  cn_reason :: string

definition cancellation_new :: "int \<Rightarrow> cancellation" where
  "cancellation_new deadline_ms = \<lparr>cn_deadline_ms = deadline_ms, cn_cancelled = False, cn_reason = ''''\<rparr>"

definition cancellation_cancel :: "string \<Rightarrow> cancellation \<Rightarrow> cancellation" where
  "cancellation_cancel reason c = c\<lparr>cn_cancelled := True, cn_reason := reason\<rparr>"

definition cancellation_check :: "cancellation \<Rightarrow> unit result" where
  "cancellation_check c = (if cn_cancelled c then Inl (RuntimeError (cn_reason c)) else Inr ())"

section \<open>The body stream\<close>

text \<open>A queued chunk: plain bytes, or a retained view of a buffer segment.\<close>

datatype chunk = Plain bytes | Retained nat

record body_stream =
  bs_max_bytes :: int
  bs_low_watermark :: int
  bs_high_watermark :: int
  bs_streaming :: bool
  bs_chunks :: "chunk list"
  bs_received :: int
  bs_read_index :: nat
  bs_consumed_bytes :: int
  bs_queued_bytes :: int
  bs_backpressured :: bool
  bs_ended :: bool
  bs_cancelled :: bool
  bs_closed :: bool
  bs_data_ready :: bool
  bs_space_ready :: bool

definition body_new :: "int \<Rightarrow> int \<Rightarrow> int \<Rightarrow> bool \<Rightarrow> body_stream result" where
  "body_new max_bytes low_watermark high_watermark0 streaming =
     (if max_bytes < 0 then Inl (ValueError ''body size limit must be non-negative'')
      else
        let high_watermark =
          (if high_watermark0 \<le> 0 then (if max_bytes > 0 then max_bytes else 1) else high_watermark0)
        in if low_watermark < 0 then Inl (ValueError ''body low watermark must be non-negative'')
           else if low_watermark \<ge> high_watermark
           then Inl (ValueError ''body low watermark must be below high watermark'')
           else Inr \<lparr>bs_max_bytes = max_bytes, bs_low_watermark = low_watermark,
                     bs_high_watermark = high_watermark, bs_streaming = streaming, bs_chunks = [],
                     bs_received = 0, bs_read_index = 0, bs_consumed_bytes = 0,
                     bs_queued_bytes = 0, bs_backpressured = False, bs_ended = False,
                     bs_cancelled = False, bs_closed = False, bs_data_ready = False,
                     bs_space_ready = True\<rparr>)"

definition chunk_len :: "bheap \<Rightarrow> chunk \<Rightarrow> nat" where
  "chunk_len h c = (case c of Plain bs \<Rightarrow> length bs | Retained v \<Rightarrow> view_len h v)"

text \<open>A fed view is retained by slicing it.\<close>

definition retain_chunk :: "chunk \<Rightarrow> bheap \<Rightarrow> bheap \<times> chunk result" where
  "retain_chunk data h =
     (case data of
       Plain bs \<Rightarrow> (h, Inr (Plain bs))
     | Retained v \<Rightarrow>
         (case view_slice v 0 (-1) h of
           (h1, Inl e) \<Rightarrow> (h1, Inl e)
         | (h1, Inr v') \<Rightarrow> (h1, Inr (Retained v'))))"

text \<open>\<open>feed\<close> under the lock; the value says whether bytes were accepted.\<close>

definition body_feed_locked ::
  "chunk \<Rightarrow> body_stream \<Rightarrow> bheap \<Rightarrow> body_stream \<times> bheap \<times> bool result" where
  "body_feed_locked data s h =
     (if bs_ended s \<or> bs_cancelled s \<or> bs_closed s
      then (s, h, Inl (RuntimeError ''body stream is not accepting data''))
      else
        let data_len = int (chunk_len h data) in
        if bs_received s + data_len > bs_max_bytes s
        then (s, h, Inl (ValueError ''request body limit exceeded''))
        else if data_len > 0 then
          (case retain_chunk data h of
            (h1, Inl e) \<Rightarrow> (s, h1, Inl e)
          | (h1, Inr c) \<Rightarrow>
              let s1 = s\<lparr>bs_chunks := bs_chunks s @ [c], bs_received := bs_received s + data_len,
                         bs_queued_bytes := bs_queued_bytes s + data_len\<rparr>;
                  s2 = (if bs_queued_bytes s1 \<ge> bs_high_watermark s1
                        then s1\<lparr>bs_backpressured := True, bs_space_ready := False\<rparr> else s1)
              in (s2, h1, Inr True))
        else (s, h, Inr False))"

definition body_feed ::
  "chunk \<Rightarrow> body_stream \<Rightarrow> bheap \<Rightarrow> body_stream \<times> bheap \<times> bool result" where
  "body_feed data s h =
     (case body_feed_locked data s h of
       (s1, h1, Inl e) \<Rightarrow> (s1, h1, Inl e)
     | (s1, h1, Inr accepted) \<Rightarrow>
         let s2 = (if accepted then s1\<lparr>bs_data_ready := True\<rparr> else s1)
         in (s2, h1, Inr (bs_backpressured s2)))"

definition body_finish_locked :: "body_stream \<Rightarrow> body_stream" where
  "body_finish_locked s = s\<lparr>bs_ended := True\<rparr>"

definition set_events :: "body_stream \<Rightarrow> body_stream" where
  "set_events s = s\<lparr>bs_data_ready := True, bs_space_ready := True\<rparr>"

definition body_finish :: "body_stream \<Rightarrow> body_stream" where
  "body_finish s = set_events (body_finish_locked s)"

text \<open>The release loops of \<open>cancel\<close> and \<open>close\<close>.\<close>

fun release_chunks :: "chunk list \<Rightarrow> bheap \<Rightarrow> bheap \<times> unit result" where
  "release_chunks [] h = (h, Inr ())"
| "release_chunks (Plain bs # cs) h = release_chunks cs h"
| "release_chunks (Retained v # cs) h =
     (if \<not> vw_released (view_at h v) then
        (case view_release v h of
          (h1, Inl e) \<Rightarrow> (h1, Inl e)
        | (h1, Inr _) \<Rightarrow> release_chunks cs h1)
      else release_chunks cs h)"

text \<open>\<open>cancel\<close> under the lock hands back every chunk of the queue, read or not.\<close>

definition body_cancel_locked :: "body_stream \<Rightarrow> body_stream \<times> chunk list" where
  "body_cancel_locked s =
     (s\<lparr>bs_cancelled := True, bs_chunks := [], bs_read_index := 0, bs_queued_bytes := 0,
        bs_backpressured := False\<rparr>, bs_chunks s)"

definition body_cancel :: "body_stream \<Rightarrow> bheap \<Rightarrow> body_stream \<times> bheap \<times> unit result" where
  "body_cancel s h =
     (case body_cancel_locked s of (s1, retained) \<Rightarrow>
      case release_chunks retained h of (h1, r) \<Rightarrow> (set_events s1, h1, r))"

text \<open>\<open>close\<close> under the lock hands back the unread chunks; \<open>None\<close> when already closed.\<close>

definition body_close_locked :: "body_stream \<Rightarrow> body_stream \<times> chunk list option" where
  "body_close_locked s =
     (if bs_closed s then (s, None)
      else (s\<lparr>bs_closed := True, bs_chunks := [], bs_read_index := 0, bs_queued_bytes := 0,
              bs_backpressured := False\<rparr>, Some (drop (bs_read_index s) (bs_chunks s))))"

definition body_close :: "body_stream \<Rightarrow> bheap \<Rightarrow> body_stream \<times> bheap \<times> unit result" where
  "body_close s h =
     (case body_close_locked s of
       (s1, None) \<Rightarrow> (s1, h, Inr ())
     | (s1, Some retained) \<Rightarrow>
         (case release_chunks retained h of (h1, r) \<Rightarrow> (set_events s1, h1, r)))"

text \<open>One turn of \<open>read_chunk\<close> under the lock.\<close>

datatype poll =
    PollChunk chunk bool  \<comment> \<open>the chunk taken, and whether to wake the producer\<close>
  | PollEnd
  | PollEmpty
  | PollWait

definition read_poll :: "bheap \<Rightarrow> body_stream \<Rightarrow> body_stream \<times> poll result" where
  "read_poll h s =
     (if bs_cancelled s then (s, Inl (RuntimeError ''request body was cancelled''))
      else if bs_read_index s < length (bs_chunks s) then
        let c = bs_chunks s ! bs_read_index s;
            n = int (chunk_len h c);
            s1 = s\<lparr>bs_read_index := bs_read_index s + 1,
                   bs_queued_bytes := bs_queued_bytes s - n,
                   bs_consumed_bytes := bs_consumed_bytes s + n\<rparr>;
            s2 = (if bs_read_index s1 \<ge> 64 \<and> bs_read_index s1 * 2 \<ge> length (bs_chunks s1)
                  then s1\<lparr>bs_chunks := drop (bs_read_index s1) (bs_chunks s1), bs_read_index := 0\<rparr>
                  else s1)
        in if bs_backpressured s2 \<and> bs_queued_bytes s2 \<le> bs_low_watermark s2
           then (s2\<lparr>bs_backpressured := False\<rparr>, Inr (PollChunk c True))
           else (s2, Inr (PollChunk c False))
      else if bs_ended s \<or> bs_closed s then (s, Inr PollEnd)
      else if \<not> bs_streaming s then (s, Inr PollEmpty)
      else (s\<lparr>bs_data_ready := False\<rparr>, Inr PollWait))"

text \<open>After the lock: copy a retained view out and release it.\<close>

definition take_chunk :: "chunk \<Rightarrow> bheap \<Rightarrow> bheap \<times> bytes result" where
  "take_chunk c h =
     (case c of
       Plain bs \<Rightarrow> (h, Inr bs)
     | Retained v \<Rightarrow>
         (case view_to_bytes v h of
           Inl e \<Rightarrow> (h, Inl e)
         | Inr bs \<Rightarrow>
             (case view_release v h of (h1, Inl e) \<Rightarrow> (h1, Inl e) | (h1, Inr _) \<Rightarrow> (h1, Inr bs))))"

text \<open>What \<open>read_chunk\<close> does until it returns or parks: \<open>NoBody\<close> is \<open>None\<close>, \<open>Parked\<close> a wait on
  the data event, after which the loop starts over.\<close>

datatype 'a blocking = Value 'a | NoBody | Parked

definition read_chunk ::
  "body_stream \<Rightarrow> bheap \<Rightarrow> body_stream \<times> bheap \<times> bytes blocking result" where
  "read_chunk s h =
     (case read_poll h s of
       (s1, Inl e) \<Rightarrow> (s1, h, Inl e)
     | (s1, Inr PollEnd) \<Rightarrow> (s1, h, Inr NoBody)
     | (s1, Inr PollEmpty) \<Rightarrow> (s1, h, Inr (Value []))
     | (s1, Inr PollWait) \<Rightarrow> (s1, h, Inr Parked)
     | (s1, Inr (PollChunk c wake)) \<Rightarrow>
         let s2 = (if wake then s1\<lparr>bs_space_ready := True\<rparr> else s1) in
         (case take_chunk c h of
           (h1, Inl e) \<Rightarrow> (s2, h1, Inl e)
         | (h1, Inr bs) \<Rightarrow> (s2, h1, Inr (Value bs))))"

abbreviation unread :: "body_stream \<Rightarrow> chunk list" where
  "unread s \<equiv> drop (bs_read_index s) (bs_chunks s)"

lemma read_poll_chunk:
  assumes "read_poll h s = (s1, Inr (PollChunk c wake))"
  shows "unread s = c # unread s1"
proof -
  from assms have r: "bs_read_index s < length (bs_chunks s)" "c = bs_chunks s ! bs_read_index s"
    by (auto simp: read_poll_def Let_def split: if_splits)
  from assms have "unread s1 = drop (Suc (bs_read_index s)) (bs_chunks s)"
    by (auto simp: read_poll_def Let_def split: if_splits)
  with r show ?thesis by (simp add: Cons_nth_drop_Suc)
qed

text \<open>\<open>read\<close>: the whole remaining body.  In polling mode an empty read stops it; a parked reader
  is reported with the bytes collected so far lost to this call.\<close>

function read_loop ::
  "int \<Rightarrow> bytes \<Rightarrow> body_stream \<Rightarrow> bheap \<Rightarrow> body_stream \<times> bheap \<times> bytes blocking result" where
  "read_loop limit output s h =
     (let r = read_chunk s h in
      case snd (snd r) of
        Inl e \<Rightarrow> (fst r, fst (snd r), Inl e)
      | Inr NoBody \<Rightarrow> (fst r, fst (snd r), Inr (Value output))
      | Inr Parked \<Rightarrow> (fst r, fst (snd r), Inr Parked)
      | Inr (Value c) \<Rightarrow>
          (if c = [] \<and> \<not> bs_streaming s then (fst r, fst (snd r), Inr (Value output))
           else if limit \<ge> 0 \<and> int (length output) + int (length c) > limit
           then (fst r, fst (snd r), Inl (ValueError ''body read limit exceeded''))
           else read_loop limit (output @ c) (fst r) (fst (snd r))))"
  by pat_completeness auto
termination
proof (relation "measure (\<lambda>(l, out, s, h). length (unread s))", goal_cases)
  case 1
  show ?case by simp
next
  case (2 limit out s h r v c)
  obtain s1 h1 where r: "read_chunk s h = (s1, h1, Inr (Value c))"
    using 2 by (metis prod.collapse)
  with 2(4) obtain ch wake s0 where "read_poll h s = (s0, Inr (PollChunk ch wake))" "unread s1 = unread s0"
    by (auto simp: read_chunk_def Let_def read_poll_def split: sum.splits poll.splits prod.splits if_splits)
  with read_poll_chunk [of h s s0 ch wake] r 2(1) show ?case by (simp del: length_drop)
qed

declare read_loop.simps [simp del]

definition body_read :: "int \<Rightarrow> body_stream \<Rightarrow> bheap \<Rightarrow> body_stream \<times> bheap \<times> bytes blocking result" where
  "body_read limit s h = read_loop limit [] s h"

text \<open>One turn of \<open>wait_writable\<close>: an answer, a wait on the space event, or a timer slice of the
  given length after which \<open>writable_after_sleep\<close> answers.\<close>

datatype wait_outcome = Answer bool | ParkOnSpace | SleepSlice int

definition wait_writable :: "int \<Rightarrow> body_stream \<Rightarrow> body_stream \<times> wait_outcome" where
  "wait_writable max_wait_ms s =
     (if \<not> bs_streaming s then (s, Answer True)
      else if bs_cancelled s \<or> bs_closed s \<or> bs_ended s then (s, Answer False)
      else if \<not> bs_backpressured s then (s, Answer True)
      else
        let s1 = s\<lparr>bs_space_ready := False\<rparr> in
        if max_wait_ms < 0 then (s1, ParkOnSpace)
        else if max_wait_ms = 0 then (s1, Answer False)
        else (s1, SleepSlice (if max_wait_ms > 25 then 25 else max_wait_ms)))"

definition writable_after_sleep :: "body_stream \<Rightarrow> bool" where
  "writable_after_sleep s = (\<not> bs_backpressured s)"

definition producer_finished :: "body_stream \<Rightarrow> bool" where
  "producer_finished s = (bs_ended s \<or> bs_cancelled s \<or> bs_closed s)"

section \<open>Query strings\<close>

text \<open>\<open>bytes.decode("utf-8")\<close>, strict.\<close>

definition cont :: "int \<Rightarrow> bool" where
  "cont b \<longleftrightarrow> 128 \<le> b \<and> b < 192"

fun utf8_decode :: "bytes \<Rightarrow> pystr result" where
  "utf8_decode [] = Inr []"
| "utf8_decode (a # xs) =
     (if a < 128 then rbind (utf8_decode xs) (\<lambda>r. Inr (a # r))
      else if 194 \<le> a \<and> a < 224 then
        (case xs of
          b # ys \<Rightarrow>
            if cont b then rbind (utf8_decode ys) (\<lambda>r. Inr (((a - 192) * 64 + (b - 128)) # r))
            else Inl UnicodeError
        | _ \<Rightarrow> Inl UnicodeError)
      else if 224 \<le> a \<and> a < 240 then
        (case xs of
          b # c # ys \<Rightarrow>
            if cont b \<and> cont c \<and> (a = 224 \<longrightarrow> 160 \<le> b) \<and> (a = 237 \<longrightarrow> b < 160)
            then rbind (utf8_decode ys)
                   (\<lambda>r. Inr (((a - 224) * 4096 + (b - 128) * 64 + (c - 128)) # r))
            else Inl UnicodeError
        | _ \<Rightarrow> Inl UnicodeError)
      else if 240 \<le> a \<and> a < 245 then
        (case xs of
          b # c # d # ys \<Rightarrow>
            if cont b \<and> cont c \<and> cont d \<and> (a = 240 \<longrightarrow> 144 \<le> b) \<and> (a = 244 \<longrightarrow> b < 144)
            then rbind (utf8_decode ys)
                   (\<lambda>r. Inr (((a - 240) * 262144 + (b - 128) * 4096 + (c - 128) * 64 + (d - 128)) # r))
            else Inl UnicodeError
        | _ \<Rightarrow> Inl UnicodeError)
      else Inl UnicodeError)"

text \<open>\<open>output.append(int(raw.decode("ascii"), 16))\<close> for a two-byte \<open>raw\<close>: besides two hexadecimal
  digits Python's \<open>int\<close> takes one digit with a sign or with surrounding white space; a value below
  zero does not fit a byte.\<close>

definition escape_value :: "int \<Rightarrow> int \<Rightarrow> int option" where
  "escape_value a b =
     (if is_hex a \<and> is_hex b then Some (hex_val a * 16 + hex_val b)
      else if (a = 43 \<or> a < 128 \<and> is_space a) \<and> is_hex b then Some (hex_val b)
      else if is_hex a \<and> b < 128 \<and> is_space b then Some (hex_val a)
      else if a = 45 \<and> b = 48 then Some 0
      else None)"

fun percent_loop :: "bool \<Rightarrow> bytes \<Rightarrow> bytes result" where
  "percent_loop plus_space [] = Inr []"
| "percent_loop plus_space (current # rest) =
     (if current = 37 then
        (case rest of
          a # b # xs \<Rightarrow>
            (case escape_value a b of
              None \<Rightarrow> Inl (ValueError ''invalid percent escape'')
            | Some v \<Rightarrow> rbind (percent_loop plus_space xs) (\<lambda>r. Inr (v # r)))
        | _ \<Rightarrow> Inl (ValueError ''truncated percent escape''))
      else if plus_space \<and> current = 43
      then rbind (percent_loop plus_space rest) (\<lambda>r. Inr (32 # r))
      else rbind (percent_loop plus_space rest) (\<lambda>r. Inr (current # r)))"

definition percent_decode :: "pystr \<Rightarrow> bool \<Rightarrow> pystr result" where
  "percent_decode value plus_space =
     rbind (utf8_encode value) (\<lambda>encoded.
     rbind (percent_loop plus_space encoded) utf8_decode)"

text \<open>The dictionary of a query: keys in the order of their first field, with their values.\<close>

type_synonym query = "(pystr \<times> pystr list) list"

definition query_add :: "pystr \<Rightarrow> pystr \<Rightarrow> query \<Rightarrow> query" where
  "query_add key value output =
     (case map_of output key of
       Some vs \<Rightarrow> AList.update key (vs @ [value]) output
     | None \<Rightarrow> AList.update key [value] output)"

fun query_loop :: "pystr list \<Rightarrow> query \<Rightarrow> query result" where
  "query_loop [] output = Inr output"
| "query_loop (field # parts) output =
     (case (if 61 \<in> set field
            then (takeWhile (\<lambda>c. c \<noteq> 61) field, tl (dropWhile (\<lambda>c. c \<noteq> 61) field))
            else (field, [])) of
       (key, value) \<Rightarrow>
         rbind (percent_decode key True) (\<lambda>k.
         rbind (percent_decode value True) (\<lambda>v.
         query_loop parts (query_add k v output))))"

definition parse_query :: "pystr \<Rightarrow> int \<Rightarrow> query result" where
  "parse_query query max_fields =
     (if query = [] then Inr []
      else
        let parts = py_split 38 query in
        if int (length parts) > max_fields then Inl (ValueError ''query field limit exceeded'')
        else query_loop parts [])"

section \<open>Requests and responses\<close>

text \<open>The free-form \<open>context\<close> dictionary of a request is left out: the gateway never reads it.\<close>

record request =
  rq_method :: pystr
  rq_target :: pystr
  rq_raw_path :: pystr
  rq_path :: pystr
  rq_query_string :: pystr
  rq_version :: pystr
  rq_headers :: "header list"
  rq_body :: body_stream
  rq_client_ip :: pystr
  rq_scheme :: pystr
  rq_cancellation :: cancellation
  rq_content_length :: int
  rq_chunked_body :: bool
  rq_expect_continue_handled :: bool
  rq_trailers :: "header list"
  rq_path_params :: params
  rq_query :: "query option"

definition request_new ::
  "pystr \<Rightarrow> pystr \<Rightarrow> pystr \<Rightarrow> header list \<Rightarrow> body_stream \<Rightarrow> pystr \<Rightarrow> pystr \<Rightarrow> cancellation \<Rightarrow>
   int \<Rightarrow> bool \<Rightarrow> bool \<Rightarrow> request result" where
  "request_new method target version headers body client_ip scheme cancellation content_length
     chunked_body expect_continue_handled =
     (case split_target target of (raw_path, query) \<Rightarrow>
      rbind (normalize_path raw_path) (\<lambda>path.
      Inr \<lparr>rq_method = py_upper method, rq_target = target, rq_raw_path = raw_path,
           rq_path = path, rq_query_string = query, rq_version = version, rq_headers = headers,
           rq_body = body, rq_client_ip = client_ip, rq_scheme = scheme,
           rq_cancellation = cancellation, rq_content_length = content_length,
           rq_chunked_body = chunked_body,
           rq_expect_continue_handled = expect_continue_handled, rq_trailers = [],
           rq_path_params = [], rq_query = None\<rparr>))"

fun header_ci :: "header list \<Rightarrow> pystr \<Rightarrow> pystr option" where
  "header_ci [] wanted = None"
| "header_ci ((key, value) # hs) wanted =
     (if py_lower key = wanted then Some value else header_ci hs wanted)"

definition request_header :: "request \<Rightarrow> pystr \<Rightarrow> pystr option" where
  "request_header r name = header_ci (rq_headers r) (py_lower name)"

text \<open>The \<open>query\<close> property caches its result.\<close>

definition request_query :: "request \<Rightarrow> request \<times> query result" where
  "request_query r =
     (case rq_query r of
       Some q \<Rightarrow> (r, Inr q)
     | None \<Rightarrow>
         (case parse_query (rq_query_string r) 128 of
           Inl e \<Rightarrow> (r, Inl e)
         | Inr q \<Rightarrow> (r\<lparr>rq_query := Some q\<rparr>, Inr q)))"

record 'b response =
  rs_status :: int
  rs_body :: 'b
  rs_headers :: "header list"
  rs_streaming :: bool
  rs_committed :: bool

definition response_new :: "int \<Rightarrow> 'b \<Rightarrow> header list \<Rightarrow> bool \<Rightarrow> 'b response result" where
  "response_new status body headers streaming =
     (if status < 200 \<or> status > 599
      then Inl (ValueError ''final HTTP response status must be 200..599'')
      else Inr \<lparr>rs_status = status, rs_body = body, rs_headers = headers,
                rs_streaming = streaming, rs_committed = False\<rparr>)"

definition response_text :: "pystr \<Rightarrow> int \<Rightarrow> header list \<Rightarrow> bytes response result" where
  "response_text body status headers =
     rbind (utf8_encode body) (\<lambda>bs.
       response_new status bs (headers @ [(cp ''content-type'', cp ''text/plain; charset=utf-8'')]) False)"

definition response_redirect :: "pystr \<Rightarrow> int \<Rightarrow> bytes response result" where
  "response_redirect location status = response_new status [] [(cp ''location'', location)] False"

end
