(* ===== verification/Body_Stream.thy ===== *)
theory Body_Stream
  imports Models
begin

text \<open>
  The body stream as a bounded FIFO of bytes: its invariant (accounting, limits, watermarks,
  live views), what each method does to the queued bytes, and the interpretation of the byte
  queue interface of \<open>Channel_Fifo\<close> for a stream in polling mode.
\<close>

section \<open>Invariant\<close>

fun chunk_views :: "chunk list \<Rightarrow> nat list" where
  "chunk_views [] = []"
| "chunk_views (Plain bs # cs) = chunk_views cs"
| "chunk_views (Retained v # cs) = v # chunk_views cs"

definition chunk_bytes :: "bheap \<Rightarrow> chunk \<Rightarrow> bytes" where
  "chunk_bytes h c = (case c of Plain bs \<Rightarrow> bs | Retained v \<Rightarrow> view_bytes h v)"

definition chunks_bytes :: "bheap \<Rightarrow> chunk list \<Rightarrow> bytes" where
  "chunks_bytes h cs = concat (map (chunk_bytes h) cs)"

definition body_content :: "body_stream \<Rightarrow> bheap \<Rightarrow> bytes" where
  "body_content s h = chunks_bytes h (unread s)"

lemma chunk_views_append [simp]: "chunk_views (xs @ ys) = chunk_views xs @ chunk_views ys"
  by (induction xs rule: chunk_views.induct) simp_all

lemma chunk_views_drop: "set (chunk_views (drop n xs)) \<subseteq> set (chunk_views xs)"
  by (metis append_take_drop_id chunk_views_append set_append sup_ge2)

lemma chunk_views_mono: "set xs \<subseteq> set ys \<Longrightarrow> set (chunk_views xs) \<subseteq> set (chunk_views ys)"
proof (induction xs rule: chunk_views.induct)
  case (3 v xs)
  then have "Retained v \<in> set ys" "set xs \<subseteq> set ys" by auto
  from this(1) have "v \<in> set (chunk_views ys)"
    by (induction ys rule: chunk_views.induct) auto
  with 3 \<open>set xs \<subseteq> set ys\<close> show ?case by simp
qed auto

lemma chunks_bytes_simps [simp]:
  "chunks_bytes h [] = []"
  "chunks_bytes h (c # cs) = chunk_bytes h c @ chunks_bytes h cs"
  "chunks_bytes h (cs @ ds) = chunks_bytes h cs @ chunks_bytes h ds"
  by (simp_all add: chunks_bytes_def)

definition accounts_ok :: "body_stream \<Rightarrow> bool" where
  "accounts_ok s \<longleftrightarrow> 0 \<le> bs_queued_bytes s \<and> 0 \<le> bs_consumed_bytes s \<and>
     bs_received s \<le> bs_max_bytes s \<and> bs_consumed_bytes s + bs_queued_bytes s \<le> bs_received s \<and>
     (\<not> bs_cancelled s \<and> \<not> bs_closed s \<longrightarrow>
        bs_received s = bs_consumed_bytes s + bs_queued_bytes s) \<and>
     0 \<le> bs_low_watermark s \<and> bs_low_watermark s < bs_high_watermark s \<and>
     (bs_backpressured s \<longrightarrow> bs_low_watermark s < bs_queued_bytes s) \<and>
     (\<not> bs_backpressured s \<longrightarrow> bs_queued_bytes s < bs_high_watermark s) \<and>
     bs_read_index s \<le> length (bs_chunks s) \<and>
     (bs_cancelled s \<or> bs_closed s \<longrightarrow> bs_chunks s = [])"

definition body_ok :: "body_stream \<Rightarrow> bheap \<Rightarrow> bool" where
  "body_ok s h \<longleftrightarrow> heap_ok h \<and> accounts_ok s \<and> live_list h (chunk_views (unread s)) \<and>
     (\<forall>v \<in> set (chunk_views (bs_chunks s)). v < length (h_views h)) \<and>
     (\<forall>c \<in> set (unread s). chunk_bytes h c \<noteq> []) \<and>
     bs_queued_bytes s = int (length (body_content s h))"

lemma body_new_ok:
  assumes "body_new mx low high st = Inr s" "heap_ok h"
  shows "body_ok s h \<and> body_content s h = []"
  using assms
  by (auto simp: body_new_def body_ok_def accounts_ok_def body_content_def Let_def split: if_splits)

lemma events_irrelevant [simp]:
  "body_content (s\<lparr>bs_space_ready := b\<rparr>) h = body_content s h"
  "body_content (s\<lparr>bs_data_ready := b\<rparr>) h = body_content s h"
  "body_ok (s\<lparr>bs_space_ready := b\<rparr>) h = body_ok s h"
  "body_ok (s\<lparr>bs_data_ready := b\<rparr>) h = body_ok s h"
  by (simp_all add: body_ok_def accounts_ok_def body_content_def)

lemma frame_chunk_bytes:
  assumes "frame V h h'" "live_list h (chunk_views [c])" "set (chunk_views [c]) \<inter> V = {}"
  shows "chunk_bytes h' c = chunk_bytes h c"
  using assms by (cases c) (auto simp: chunk_bytes_def frame_def)

lemma frame_chunks:
  assumes "frame V h h'" "live_list h (chunk_views cs)" "set (chunk_views cs) \<inter> V = {}"
  shows "live_list h' (chunk_views cs)" and "\<forall>c \<in> set cs. chunk_bytes h' c = chunk_bytes h c"
    and "chunks_bytes h' cs = chunks_bytes h cs"
proof -
  show "live_list h' (chunk_views cs)" using frame_list(1) [OF assms] .
  show *: "\<forall>c \<in> set cs. chunk_bytes h' c = chunk_bytes h c"
    using assms
  proof (induction cs rule: chunk_views.induct)
    case (3 v cs)
    then show ?case using frame_chunk_bytes [of V h h' "Retained v"] by auto
  qed (auto simp: chunk_bytes_def)
  then show "chunks_bytes h' cs = chunks_bytes h cs"
    by (simp add: chunks_bytes_def cong: map_cong)
qed

lemma chunk_len_bytes:
  "heap_ok h \<Longrightarrow> live_list h (chunk_views [c]) \<Longrightarrow> chunk_len h c = length (chunk_bytes h c)"
  using live_view_len by (cases c) (auto simp: chunk_len_def chunk_bytes_def)

section \<open>Writing\<close>

lemma retain_chunk_ok:
  assumes "heap_ok h" "live_list h (chunk_views [c])"
  shows "\<exists>h' c'. retain_chunk c h = (h', Inr c') \<and> heap_ok h' \<and> frame {} h h' \<and>
    live_list h' (chunk_views [c']) \<and> chunk_bytes h' c' = chunk_bytes h c \<and>
    (\<forall>v \<in> set (chunk_views [c']). length (h_views h) \<le> v)"
proof (cases c)
  case (Plain bs)
  with assms show ?thesis
    by (intro exI [of _ h] exI [of _ c]) (simp add: retain_chunk_def chunk_bytes_def)
next
  case (Retained v)
  then have v: "live h v" using assms(2) by simp
  let ?n = "vw_length (view_at h v)"
  from view_slice_ok [OF assms(1) v, of 0 ?n] obtain h' where
    h': "view_slice v 0 (int ?n) h = (h', Inr (length (h_views h)))" "heap_ok h'" "frame {} h h'"
      "live h' (length (h_views h))"
      "view_bytes h' (length (h_views h)) = take ?n (view_bytes h v)"
    by auto
  have "view_slice v 0 (- 1) h = view_slice v 0 (int ?n) h"
    by (simp add: view_slice_def Let_def)
  with h' Retained length_view_bytes [OF assms(1) v] show ?thesis
    by (intro exI [of _ h'] exI [of _ "Retained (length (h_views h))"])
      (simp add: retain_chunk_def chunk_bytes_def)
qed

text \<open>\<open>feed\<close> under the lock, on every branch.\<close>

lemma body_feed_locked_ok:
  assumes ok: "body_ok s h" and c: "live_list h (chunk_views [c])"
  defines "n \<equiv> int (length (chunk_bytes h c))"
  shows "if bs_ended s \<or> bs_cancelled s \<or> bs_closed s
    then body_feed_locked c s h = (s, h, Inl (RuntimeError ''body stream is not accepting data''))
    else if bs_max_bytes s < bs_received s + n
    then body_feed_locked c s h = (s, h, Inl (ValueError ''request body limit exceeded''))
    else if n = 0 then body_feed_locked c s h = (s, h, Inr False)
    else \<exists>s' h'. body_feed_locked c s h = (s', h', Inr True) \<and> body_ok s' h' \<and> frame {} h h' \<and>
      body_content s' h' = body_content s h @ chunk_bytes h c \<and>
      (\<forall>v \<in> set (chunk_views (unread s')).
         v \<in> set (chunk_views (unread s)) \<or> length (h_views h) \<le> v) \<and>
      bs_backpressured s' = (bs_backpressured s \<or> bs_high_watermark s \<le> bs_queued_bytes s + n) \<and>
      bs_streaming s' = bs_streaming s \<and> bs_ended s' = bs_ended s \<and>
      bs_cancelled s' = bs_cancelled s \<and> bs_closed s' = bs_closed s"
proof -
  from ok have hok: "heap_ok h" and l: "live_list h (chunk_views (unread s))"
    and ri: "bs_read_index s \<le> length (bs_chunks s)" by (auto simp: body_ok_def accounts_ok_def)
  have len: "int (chunk_len h c) = n" using chunk_len_bytes [OF hok c] by (simp add: n_def)
  from retain_chunk_ok [OF hok c] obtain h' c' where
    h': "retain_chunk c h = (h', Inr c')" "heap_ok h'" "frame {} h h'" "live_list h' (chunk_views [c'])"
      "chunk_bytes h' c' = chunk_bytes h c" "\<forall>v \<in> set (chunk_views [c']). length (h_views h) \<le> v"
    by blast
  note fr = frame_chunks [OF h'(3) l]
  have fresh: "set (chunk_views (unread s)) \<inter> set (chunk_views [c']) = {}"
    using l h'(6) by (fastforce simp: live_list_def)
  have views: "length (h_views h) \<le> length (h_views h')" using h'(3) by (simp add: frame_def)
  have c'_in: "\<forall>v \<in> set (chunk_views [c']). v < length (h_views h')"
    using h'(4) by (auto simp: live_list_def)
  let ?s1 = "s\<lparr>bs_chunks := bs_chunks s @ [c'], bs_received := bs_received s + n,
    bs_queued_bytes := bs_queued_bytes s + n\<rparr>"
  let ?s2 = "if bs_queued_bytes ?s1 \<ge> bs_high_watermark ?s1
    then ?s1\<lparr>bs_backpressured := True, bs_space_ready := False\<rparr> else ?s1"
  have unr: "unread ?s2 = unread s @ [c']" using ri by simp
  have content: "body_content ?s2 h' = body_content s h @ chunk_bytes h c"
    unfolding body_content_def unr using fr h'(5) by simp
  show ?thesis
  proof (cases "bs_ended s \<or> bs_cancelled s \<or> bs_closed s \<or> bs_max_bytes s < bs_received s + n \<or> n = 0")
    case True
    then show ?thesis using len by (auto simp: body_feed_locked_def Let_def)
  next
    case False
    then have pos: "0 < n" by (simp add: n_def)
    have "body_feed_locked c s h = (?s2, h', Inr True)"
      using False len h'(1) pos by (simp add: body_feed_locked_def Let_def)
    moreover have "live_list h' (chunk_views (unread ?s2))"
      unfolding unr using fr h'(4) fresh by (auto simp: live_list_def)
    moreover have "accounts_ok ?s2"
      using ok False pos by (auto simp: body_ok_def accounts_ok_def)
    moreover have "\<forall>v \<in> set (chunk_views (bs_chunks ?s2)). v < length (h_views h')"
      using ok views c'_in by (auto simp: body_ok_def)
    moreover have "\<forall>x \<in> set (unread ?s2). chunk_bytes h' x \<noteq> []"
      unfolding unr using ok fr h'(5) pos by (auto simp: body_ok_def n_def)
    ultimately have "body_ok ?s2 h'"
      using h'(2) content ok by (simp add: body_ok_def n_def)
    moreover have "\<forall>v \<in> set (chunk_views (unread ?s2)).
        v \<in> set (chunk_views (unread s)) \<or> length (h_views h) \<le> v"
      unfolding unr using h'(6) by auto
    ultimately show ?thesis
      using \<open>body_feed_locked c s h = (?s2, h', Inr True)\<close> content h'(3) False by auto
  qed
qed

section \<open>Reading\<close>

lemma read_poll_fields:
  assumes "read_poll h s = (s', Inr (PollChunk c wake))"
  shows "bs_queued_bytes s' = bs_queued_bytes s - int (chunk_len h c)"
    and "bs_consumed_bytes s' = bs_consumed_bytes s + int (chunk_len h c)"
    and "bs_backpressured s' \<longleftrightarrow> bs_backpressured s \<and> bs_low_watermark s < bs_queued_bytes s'"
    and "wake \<longleftrightarrow> bs_backpressured s \<and> \<not> bs_backpressured s'"
    and "bs_read_index s' \<le> length (bs_chunks s')"
    and "set (bs_chunks s') \<subseteq> set (bs_chunks s)" "bs_chunks s \<noteq> []"
    and "bs_received s' = bs_received s" "bs_max_bytes s' = bs_max_bytes s"
      "bs_low_watermark s' = bs_low_watermark s" "bs_high_watermark s' = bs_high_watermark s"
      "bs_streaming s' = bs_streaming s" "bs_ended s' = bs_ended s"
      "bs_cancelled s' = bs_cancelled s" "bs_closed s' = bs_closed s"
  using assms
  by (auto simp: read_poll_def Let_def split: if_splits dest: in_set_dropD)

lemma read_poll_ok:
  assumes ok: "body_ok s h" and nc: "\<not> bs_cancelled s"
  shows "(case unread s of
      [] \<Rightarrow> \<exists>p. read_poll h s = (if p = PollWait then s\<lparr>bs_data_ready := False\<rparr> else s, Inr p) \<and>
          p = (if bs_ended s \<or> bs_closed s then PollEnd else if bs_streaming s then PollWait else PollEmpty)
    | c # cs \<Rightarrow> \<exists>s' wake. read_poll h s = (s', Inr (PollChunk c wake)) \<and> unread s' = cs \<and>
        accounts_ok s' \<and> bs_queued_bytes s' = bs_queued_bytes s - int (length (chunk_bytes h c)) \<and>
        set (bs_chunks s') \<subseteq> set (bs_chunks s) \<and>
        (wake \<longleftrightarrow> bs_backpressured s \<and> \<not> bs_backpressured s') \<and>
        bs_streaming s' = bs_streaming s \<and> bs_ended s' = bs_ended s \<and>
        bs_cancelled s' = bs_cancelled s \<and> bs_closed s' = bs_closed s)"
proof (cases "unread s")
  case Nil
  then show ?thesis using nc by (auto simp: read_poll_def)
next
  case (Cons c cs)
  have r: "bs_read_index s < length (bs_chunks s)" "bs_chunks s ! bs_read_index s = c"
    using drop_eq_ConsD [OF Cons] by simp_all
  have l: "live_list h (chunk_views [c])" and hok: "heap_ok h"
    using ok Cons by (cases c; auto simp: body_ok_def)+
  have len: "chunk_len h c = length (chunk_bytes h c)" using chunk_len_bytes [OF hok l] .
  have q: "int (length (chunk_bytes h c)) \<le> bs_queued_bytes s"
    using ok Cons by (simp add: body_ok_def body_content_def)
  have "\<exists>wake. snd (read_poll h s) = Inr (PollChunk c wake)"
    using nc r by (auto simp: read_poll_def Let_def)
  then obtain s' wake where p: "read_poll h s = (s', Inr (PollChunk c wake))"
    by (metis prod.collapse)
  then have "unread s' = cs" using read_poll_chunk [OF p] Cons by simp
  moreover note f = read_poll_fields [OF p]
  have "accounts_ok s'"
    using ok q len f by (auto simp: body_ok_def accounts_ok_def)
  ultimately show ?thesis using p Cons f len by auto
qed

lemma take_chunk_ok:
  assumes "heap_ok h" "live_list h (chunk_views [c])"
  shows "\<exists>h'. take_chunk c h = (h', Inr (chunk_bytes h c)) \<and> heap_ok h' \<and>
    frame (set (chunk_views [c])) h h' \<and> length (h_views h') = length (h_views h) \<and>
    (\<forall>v \<in> set (chunk_views [c]). vw_released (view_at h' v))"
proof (cases c)
  case (Plain bs)
  with assms show ?thesis by (simp add: take_chunk_def chunk_bytes_def)
next
  case (Retained v)
  then have v: "live h v" using assms(2) by simp
  from view_release_ok [OF assms(1) v] obtain h' r where
    "view_release v h = (h', Inr r)" "heap_ok h'" "frame {v} h h'" "vw_released (view_at h' v)"
    "length (h_views h') = length (h_views h)"
    by blast
  moreover have "view_to_bytes v h = Inr (view_bytes h v)"
    using v by (simp add: view_to_bytes_def view_bytes_def Let_def)
  ultimately show ?thesis
    using Retained by (simp add: take_chunk_def chunk_bytes_def)
qed

text \<open>A read takes exactly the first chunk; without one it ends, reports emptiness or parks.\<close>

lemma read_chunk_ok:
  assumes ok: "body_ok s h" and nc: "\<not> bs_cancelled s"
  shows "\<exists>s' h' v. read_chunk s h = (s', h', Inr v) \<and> body_ok s' h' \<and>
    frame (set (chunk_views (unread s))) h h' \<and>
    bs_streaming s' = bs_streaming s \<and> bs_ended s' = bs_ended s \<and>
    bs_cancelled s' = bs_cancelled s \<and> bs_closed s' = bs_closed s \<and>
    (case unread s of
       [] \<Rightarrow> unread s' = [] \<and> h' = h \<and>
         v = (if bs_ended s \<or> bs_closed s then NoBody else if bs_streaming s then Parked else Value [])
     | c # cs \<Rightarrow> unread s' = cs \<and> v = Value (chunk_bytes h c) \<and> chunk_bytes h c \<noteq> [] \<and>
         body_content s h = chunk_bytes h c @ body_content s' h')"
proof (cases "unread s")
  case Nil
  let ?s' = "if \<not> (bs_ended s \<or> bs_closed s) \<and> bs_streaming s then s\<lparr>bs_data_ready := False\<rparr> else s"
  have "read_chunk s h = (?s', h,
      Inr (if bs_ended s \<or> bs_closed s then NoBody else if bs_streaming s then Parked else Value []))"
    using read_poll_ok [OF ok nc] Nil by (auto simp: read_chunk_def)
  moreover have "body_ok ?s' h"
    using ok by (auto simp: body_ok_def accounts_ok_def body_content_def)
  ultimately show ?thesis
    using Nil by (intro exI [of _ ?s'] exI [of _ h]) auto
next
  case (Cons c cs)
  with read_poll_ok [OF ok nc] obtain s1 wake where
    p: "read_poll h s = (s1, Inr (PollChunk c wake))" "unread s1 = cs" "accounts_ok s1"
      "bs_queued_bytes s1 = bs_queued_bytes s - int (length (chunk_bytes h c))"
      "set (bs_chunks s1) \<subseteq> set (bs_chunks s)"
      "bs_streaming s1 = bs_streaming s \<and> bs_ended s1 = bs_ended s \<and>
        bs_cancelled s1 = bs_cancelled s \<and> bs_closed s1 = bs_closed s" by auto
  have l: "live_list h (chunk_views [c])" "live_list h (chunk_views cs)" and hok: "heap_ok h"
    and disj: "set (chunk_views cs) \<inter> set (chunk_views [c]) = {}"
    using ok Cons by (cases c; auto simp: body_ok_def)+
  from take_chunk_ok [OF hok l(1)] obtain h' where
    t: "take_chunk c h = (h', Inr (chunk_bytes h c))" "heap_ok h'"
      "frame (set (chunk_views [c])) h h'" "length (h_views h') = length (h_views h)" by blast
  note fr = frame_chunks [OF t(3) l(2) disj]
  let ?s' = "if wake then s1\<lparr>bs_space_ready := True\<rparr> else s1"
  have r: "read_chunk s h = (?s', h', Inr (Value (chunk_bytes h c)))"
    using p(1) t(1) by (simp add: read_chunk_def Let_def)
  have content: "body_content s h = chunk_bytes h c @ body_content s1 h'"
    unfolding body_content_def p(2) Cons using fr(3) by simp
  have "\<forall>x \<in> set cs. chunk_bytes h' x \<noteq> []"
    using ok Cons fr(2) by (simp add: body_ok_def)
  moreover have "\<forall>v \<in> set (chunk_views (bs_chunks s1)). v < length (h_views h')"
    using ok t(4) chunk_views_mono [OF p(5)] by (auto simp: body_ok_def)
  moreover have "bs_queued_bytes s1 = int (length (body_content s1 h'))"
    using ok p(4) content by (simp add: body_ok_def)
  ultimately have "body_ok s1 h'"
    unfolding body_ok_def p(2) using p(3) t(2) fr(1) by simp
  moreover have "chunk_bytes h c \<noteq> []" using ok Cons by (simp add: body_ok_def)
  moreover have "frame (set (chunk_views (unread s))) h h'"
    using t(3) by (rule frame_mono) (cases c; simp add: Cons)
  ultimately show ?thesis
    using r p(2,6) content Cons
    by (intro exI [of _ ?s'] exI [of _ h'] exI [of _ "Value (chunk_bytes h c)"]) auto
qed

text \<open>In polling mode \<open>read\<close> without a limit returns everything that is queued.\<close>

lemma read_loop_ok:
  "body_ok s h \<Longrightarrow> \<not> bs_cancelled s \<Longrightarrow> \<not> bs_streaming s \<or> bs_ended s \<or> bs_closed s \<Longrightarrow> limit < 0 \<Longrightarrow>
   \<exists>s' h'. read_loop limit out s h = (s', h', Inr (Value (out @ body_content s h))) \<and> body_ok s' h' \<and>
     body_content s' h' = [] \<and> frame (set (chunk_views (unread s))) h h' \<and>
     bs_streaming s' = bs_streaming s \<and> bs_ended s' = bs_ended s \<and>
     bs_cancelled s' = bs_cancelled s \<and> bs_closed s' = bs_closed s"
proof (induction "unread s" arbitrary: s h out)
  case Nil
  then have "body_content s h = []" by (simp add: body_content_def flip: Nil(1))
  obtain s' h' v where
    r: "read_chunk s h = (s', h', Inr v)" "body_ok s' h'" "unread s' = []" "h' = h"
      "v = (if bs_ended s \<or> bs_closed s then NoBody else if bs_streaming s then Parked else Value [])"
      "bs_streaming s' = bs_streaming s \<and> bs_ended s' = bs_ended s \<and>
       bs_cancelled s' = bs_cancelled s \<and> bs_closed s' = bs_closed s"
    using read_chunk_ok [OF Nil(2,3)] Nil(1) by auto
  then show ?case
    using Nil \<open>body_content s h = []\<close>
    by (subst read_loop.simps) (auto simp: Let_def body_content_def)
next
  case (Cons c cs)
  obtain s1 h1 where
    r: "read_chunk s h = (s1, h1, Inr (Value (chunk_bytes h c)))" "body_ok s1 h1" "unread s1 = cs"
      "chunk_bytes h c \<noteq> []" "body_content s h = chunk_bytes h c @ body_content s1 h1"
      "frame (set (chunk_views (unread s))) h h1"
      "bs_streaming s1 = bs_streaming s \<and> bs_ended s1 = bs_ended s \<and>
       bs_cancelled s1 = bs_cancelled s \<and> bs_closed s1 = bs_closed s"
    using read_chunk_ok [OF Cons(3,4)] Cons(2) [symmetric] by auto
  from Cons(1) [of s1 h1 "out @ chunk_bytes h c"] r Cons(4-6) obtain s' h' where
    l: "read_loop limit (out @ chunk_bytes h c) s1 h1 =
        (s', h', Inr (Value ((out @ chunk_bytes h c) @ body_content s1 h1)))" "body_ok s' h'"
      "body_content s' h' = []" "frame (set (chunk_views cs)) h1 h'"
      "bs_streaming s' = bs_streaming s1 \<and> bs_ended s' = bs_ended s1 \<and>
       bs_cancelled s' = bs_cancelled s1 \<and> bs_closed s' = bs_closed s1"
    by auto
  have "read_loop limit out s h = read_loop limit (out @ chunk_bytes h c) s1 h1"
    using r(1,4) Cons(6) by (subst read_loop.simps) (simp add: Let_def)
  moreover have "set (chunk_views cs) \<subseteq> set (chunk_views (unread s))"
    using Cons(2) [symmetric] by (cases c) auto
  then have "frame (set (chunk_views (unread s))) h h'"
    using frame_trans [OF r(6) l(4)] by (simp add: Un_absorb2)
  ultimately show ?case using l r by auto
qed

section \<open>Releasing\<close>

lemma release_chunks_ok:
  "heap_ok h \<Longrightarrow> \<forall>v \<in> set (chunk_views cs). v < length (h_views h) \<Longrightarrow>
   \<exists>h'. release_chunks cs h = (h', Inr ()) \<and> heap_ok h' \<and> frame (set (chunk_views cs)) h h' \<and>
     length (h_views h') = length (h_views h) \<and>
     (\<forall>v < length (h_views h). vw_released (view_at h v) \<longrightarrow> vw_released (view_at h' v)) \<and>
     (\<forall>v \<in> set (chunk_views cs). vw_released (view_at h' v))"
proof (induction cs h rule: release_chunks.induct)
  case (3 v cs h)
  show ?case
  proof (cases "vw_released (view_at h v)")
    case True
    with 3 obtain h' where "release_chunks cs h = (h', Inr ())" "heap_ok h'"
      "frame (set (chunk_views cs)) h h'" "length (h_views h') = length (h_views h)"
      "\<forall>v < length (h_views h). vw_released (view_at h v) \<longrightarrow> vw_released (view_at h' v)"
      "\<forall>v \<in> set (chunk_views cs). vw_released (view_at h' v)" by auto
    with True 3(4) frame_mono [of "set (chunk_views cs)" h h' "insert v (set (chunk_views cs))"]
    show ?thesis by auto
  next
    case False
    with 3(4) have v: "live h v" by simp
    from view_release_ok [OF 3(3) v] obtain h1 r where
      h1: "view_release v h = (h1, Inr r)" "heap_ok h1" "frame {v} h h1"
        "length (h_views h1) = length (h_views h)" "vw_released (view_at h1 v)"
        "\<forall>u. u \<noteq> v \<longrightarrow> view_at h1 u = view_at h u" by blast
    from 3(1) [OF _ h1(1) [symmetric]] False h1 3(4) obtain h' where
      h': "release_chunks cs h1 = (h', Inr ())" "heap_ok h'"
        "frame (set (chunk_views cs)) h1 h'" "length (h_views h') = length (h_views h1)"
        "\<forall>v < length (h_views h1). vw_released (view_at h1 v) \<longrightarrow> vw_released (view_at h' v)"
        "\<forall>v \<in> set (chunk_views cs). vw_released (view_at h' v)" by auto
    have "frame (set (chunk_views (Retained v # cs))) h h'"
      using frame_trans [OF h1(3) h'(3)] by simp
    moreover have "vw_released (view_at h' u)" if "u < length (h_views h)" "vw_released (view_at h u)" for u
      using h'(5) h1(4,5,6) that by (cases "u = v") auto
    ultimately show ?thesis
      using False h1 h' v by auto
  qed
qed auto

lemma body_cancel_ok:
  assumes ok: "body_ok s h"
  shows "\<exists>s' h'. body_cancel s h = (s', h', Inr ()) \<and> body_ok s' h' \<and> bs_cancelled s' \<and>
    (\<forall>v \<in> set (chunk_views (bs_chunks s)). vw_released (view_at h' v)) \<and>
    frame (set (chunk_views (bs_chunks s))) h h'"
proof -
  have "heap_ok h" "\<forall>v \<in> set (chunk_views (bs_chunks s)). v < length (h_views h)"
    using ok by (auto simp: body_ok_def)
  from release_chunks_ok [OF this] obtain h' where
    h': "release_chunks (bs_chunks s) h = (h', Inr ())" "heap_ok h'"
      "frame (set (chunk_views (bs_chunks s))) h h'"
      "\<forall>v \<in> set (chunk_views (bs_chunks s)). vw_released (view_at h' v)" by blast
  let ?s' = "set_events (fst (body_cancel_locked s))"
  have "body_cancel s h = (?s', h', Inr ())"
    using h'(1) by (simp add: body_cancel_def body_cancel_locked_def)
  moreover have "body_ok ?s' h'" "bs_cancelled ?s'"
    using ok h'(2)
    by (auto simp: body_ok_def accounts_ok_def body_cancel_locked_def set_events_def body_content_def)
  ultimately show ?thesis using h'(3,4) by blast
qed

lemma body_close_ok:
  assumes ok: "body_ok s h"
  shows "\<exists>s' h'. body_close s h = (s', h', Inr ()) \<and> body_ok s' h' \<and> bs_closed s' \<and>
    (\<forall>v \<in> set (chunk_views (unread s)). vw_released (view_at h' v)) \<and>
    frame (set (chunk_views (unread s))) h h'"
proof (cases "bs_closed s")
  case True
  with ok have "unread s = []" by (auto simp: body_ok_def accounts_ok_def)
  with True ok show ?thesis by (simp add: body_close_def body_close_locked_def)
next
  case False
  have "heap_ok h" "\<forall>v \<in> set (chunk_views (unread s)). v < length (h_views h)"
    using ok by (auto simp: body_ok_def live_list_def)
  from release_chunks_ok [OF this] obtain h' where
    h': "release_chunks (unread s) h = (h', Inr ())" "heap_ok h'"
      "frame (set (chunk_views (unread s))) h h'"
      "\<forall>v \<in> set (chunk_views (unread s)). vw_released (view_at h' v)" by blast
  let ?s' = "set_events (fst (body_close_locked s))"
  have "body_close s h = (?s', h', Inr ())"
    using False h'(1) by (simp add: body_close_def body_close_locked_def)
  moreover have "body_ok ?s' h'" "bs_closed ?s'"
    using ok False h'(2)
    by (auto simp: body_ok_def accounts_ok_def body_close_locked_def set_events_def body_content_def)
  ultimately show ?thesis using h'(3,4) by blast
qed

end
