(* ===== verification/Body_Threads.thy ===== *)
theory Body_Threads
  imports Body_Stream
begin

text \<open>
  The body stream under its two threads and a canceller.  Every step is one critical section of
  \<open>models.py\<close> or one action after it; the reader may park on the data event, the producer on the
  space event.  The invariant of the reachable states shows that no wake-up is lost and that the
  two sides are never parked at the same time; the last property is an interleaving in which
  \<open>cancel\<close> releases a chunk the reader is still copying.
\<close>

section \<open>Threads\<close>

datatype reader_pc =
    RRun                \<comment> \<open>about to poll\<close>
  | RWait               \<comment> \<open>waiting on the data event\<close>
  | RTake chunk bool    \<comment> \<open>left the lock with a chunk; the flag says to set the space event\<close>
  | RFail exn

datatype producer_pc =
    PRun
  | PSignal             \<comment> \<open>left the lock of \<open>feed\<close>, about to set the data event\<close>
  | PSignalAll          \<comment> \<open>left the lock of \<open>finish\<close>, about to set both events\<close>
  | PWait               \<comment> \<open>waiting on the space event\<close>

datatype canceller_pc =
    CIdle
  | CSignal "chunk list" \<comment> \<open>left the lock of \<open>cancel\<close> with the chunks to release\<close>

record threads =
  th_stream :: body_stream
  th_heap :: bheap
  th_reader :: reader_pc
  th_producer :: producer_pc
  th_canceller :: canceller_pc

inductive thread_step :: "threads \<Rightarrow> threads \<Rightarrow> bool" where
  read_chunk_taken:
    "th_reader t = RRun \<Longrightarrow> read_poll (th_heap t) (th_stream t) = (s, Inr (PollChunk c wake)) \<Longrightarrow>
     thread_step t (t\<lparr>th_stream := s, th_reader := RTake c wake\<rparr>)"
| read_parks:
    "th_reader t = RRun \<Longrightarrow> read_poll (th_heap t) (th_stream t) = (s, Inr PollWait) \<Longrightarrow>
     thread_step t (t\<lparr>th_stream := s, th_reader := RWait\<rparr>)"
| read_fails:
    "th_reader t = RRun \<Longrightarrow> read_poll (th_heap t) (th_stream t) = (s, Inl e) \<Longrightarrow>
     thread_step t (t\<lparr>th_stream := s, th_reader := RFail e\<rparr>)"
| reader_wakes:
    "th_reader t = RWait \<Longrightarrow> bs_data_ready (th_stream t) \<Longrightarrow>
     thread_step t (t\<lparr>th_reader := RRun\<rparr>)"
| reader_signals_space:
    "th_reader t = RTake c True \<Longrightarrow>
     thread_step t (t\<lparr>th_stream := (th_stream t)\<lparr>bs_space_ready := True\<rparr>, th_reader := RTake c False\<rparr>)"
| reader_copies:
    "th_reader t = RTake c False \<Longrightarrow> take_chunk c (th_heap t) = (h, r) \<Longrightarrow>
     thread_step t (t\<lparr>th_heap := h, th_reader := (case r of Inl e \<Rightarrow> RFail e | Inr bs \<Rightarrow> RRun)\<rparr>)"
| producer_feeds:
    "th_producer t = PRun \<Longrightarrow> live_list (th_heap t) (chunk_views [c]) \<Longrightarrow>
     body_feed_locked c (th_stream t) (th_heap t) = (s, h, Inr accepted) \<Longrightarrow>
     thread_step t (t\<lparr>th_stream := s, th_heap := h, th_producer := (if accepted then PSignal else PRun)\<rparr>)"
| producer_signals:
    "th_producer t = PSignal \<Longrightarrow>
     thread_step t (t\<lparr>th_stream := (th_stream t)\<lparr>bs_data_ready := True\<rparr>, th_producer := PRun\<rparr>)"
| producer_finishes:
    "th_producer t = PRun \<Longrightarrow>
     thread_step t (t\<lparr>th_stream := body_finish_locked (th_stream t), th_producer := PSignalAll\<rparr>)"
| producer_signals_all:
    "th_producer t = PSignalAll \<Longrightarrow>
     thread_step t (t\<lparr>th_stream := set_events (th_stream t), th_producer := PRun\<rparr>)"
| producer_waits:
    "th_producer t = PRun \<Longrightarrow> wait_writable (-1) (th_stream t) = (s, ParkOnSpace) \<Longrightarrow>
     thread_step t (t\<lparr>th_stream := s, th_producer := PWait\<rparr>)"
| producer_wakes:
    "th_producer t = PWait \<Longrightarrow> bs_space_ready (th_stream t) \<Longrightarrow>
     thread_step t (t\<lparr>th_producer := PRun\<rparr>)"
| canceller_cancels:
    "th_canceller t = CIdle \<Longrightarrow> body_cancel_locked (th_stream t) = (s, retained) \<Longrightarrow>
     thread_step t (t\<lparr>th_stream := s, th_canceller := CSignal retained\<rparr>)"
| canceller_releases:
    "th_canceller t = CSignal retained \<Longrightarrow> release_chunks retained (th_heap t) = (h, r) \<Longrightarrow>
     thread_step t (t\<lparr>th_stream := set_events (th_stream t), th_heap := h, th_canceller := CIdle\<rparr>)"

definition start :: "body_stream \<Rightarrow> bheap \<Rightarrow> threads" where
  "start s h = \<lparr>th_stream = s, th_heap = h, th_reader = RRun, th_producer = PRun, th_canceller = CIdle\<rparr>"

section \<open>Invariant\<close>

definition storage_ok :: "threads \<Rightarrow> bool" where
  "storage_ok t \<longleftrightarrow> body_ok (th_stream t) (th_heap t) \<and>
     (\<forall>c w. th_reader t = RTake c w \<longrightarrow>
        set (chunk_views [c]) \<inter> set (chunk_views (unread (th_stream t))) = {} \<and>
        (\<forall>v \<in> set (chunk_views [c]). v < length (h_views (th_heap t)))) \<and>
     (\<forall>cs. th_canceller t = CSignal cs \<longrightarrow> bs_cancelled (th_stream t) \<and>
        (\<forall>v \<in> set (chunk_views cs). v < length (h_views (th_heap t))))"

definition wakeups_ok :: "threads \<Rightarrow> bool" where
  "wakeups_ok t \<longleftrightarrow>
     (th_reader t = RWait \<and> \<not> bs_data_ready (th_stream t) \<longrightarrow>
        unread (th_stream t) = [] \<and> \<not> producer_finished (th_stream t) \<or>
        th_producer t = PSignal \<or> th_producer t = PSignalAll \<or> th_canceller t \<noteq> CIdle) \<and>
     (th_producer t = PWait \<and> \<not> bs_space_ready (th_stream t) \<longrightarrow>
        bs_backpressured (th_stream t) \<or> (\<exists>c. th_reader t = RTake c True) \<or> th_canceller t \<noteq> CIdle)"

lemma start_ok:
  assumes "body_ok s h" shows "storage_ok (start s h)" and "wakeups_ok (start s h)"
  using assms by (simp_all add: start_def storage_ok_def wakeups_ok_def)

lemma body_finish_ok: "body_ok s h \<Longrightarrow> body_ok (body_finish_locked s) h"
  by (auto simp: body_finish_locked_def body_ok_def accounts_ok_def body_content_def)

lemma set_events_ok [simp]: "body_ok (set_events s) h = body_ok s h"
  by (simp add: set_events_def body_ok_def accounts_ok_def body_content_def)

lemma set_events_simps [simp]:
  "unread (set_events s) = unread s" "bs_cancelled (set_events s) = bs_cancelled s"
  "bs_chunks (set_events s) = bs_chunks s" "bs_read_index (set_events s) = bs_read_index s"
  by (simp_all add: set_events_def)

lemma read_poll_keeps_ok:
  assumes "body_ok s h" "read_poll h s = (s', Inr (PollChunk c wake))"
  shows "body_ok s' h" "set (chunk_views [c]) \<inter> set (chunk_views (unread s')) = {}"
    "\<forall>v \<in> set (chunk_views [c]). v < length (h_views h)"
proof -
  have nc: "\<not> bs_cancelled s" using assms(2) by (auto simp: read_poll_def)
  have un: "unread s = c # unread s'" using read_poll_chunk [OF assms(2)] .
  from read_poll_ok [OF assms(1) nc] un assms(2) have f: "accounts_ok s'"
    "bs_queued_bytes s' = bs_queued_bytes s - int (length (chunk_bytes h c))"
    "set (bs_chunks s') \<subseteq> set (bs_chunks s)" by auto
  have l: "live_list h (chunk_views (c # unread s'))"
    using assms(1) un by (simp add: body_ok_def)
  show "set (chunk_views [c]) \<inter> set (chunk_views (unread s')) = {}"
    "\<forall>v \<in> set (chunk_views [c]). v < length (h_views h)"
    using l by (cases c; simp)+
  have "live_list h (chunk_views (unread s'))" using l by (cases c) simp_all
  moreover have "bs_queued_bytes s' = int (length (body_content s' h))"
    using assms(1) f(2) un by (simp add: body_ok_def body_content_def)
  ultimately show "body_ok s' h"
    using assms(1) f(1) un chunk_views_mono [OF f(3)] by (auto simp: body_ok_def)
qed

lemma storage_frame:
  assumes "body_ok s h" "frame V h h'" "heap_ok h'" "set (chunk_views (unread s)) \<inter> V = {}"
  shows "body_ok s h'"
proof -
  have l: "live_list h (chunk_views (unread s))" using assms(1) by (simp add: body_ok_def)
  note fr = frame_chunks [OF assms(2) l assms(4)]
  have "length (h_views h) \<le> length (h_views h')" using assms(2) by (simp add: frame_def)
  then show ?thesis
    using assms(1,3) fr by (fastforce simp: body_ok_def body_content_def)
qed

lemma take_chunk_frame:
  assumes "heap_ok h" "\<forall>v \<in> set (chunk_views [c]). v < length (h_views h)" "take_chunk c h = (h', r)"
  shows "heap_ok h' \<and> frame (set (chunk_views [c])) h h' \<and> length (h_views h') = length (h_views h)"
proof (cases "live_list h (chunk_views [c])")
  case True
  from take_chunk_ok [OF assms(1) True] assms(3) show ?thesis by auto
next
  case False
  then obtain v where "c = Retained v" "vw_released (view_at h v)"
    using assms(2) by (cases c) auto
  then have "h' = h"
    using assms(3) by (auto simp: take_chunk_def view_to_bytes_def)
  with assms(1) show ?thesis by simp
qed

lemma storage_step: "thread_step t t' \<Longrightarrow> storage_ok t \<Longrightarrow> storage_ok t'"
proof (induction rule: thread_step.induct)
  case (read_chunk_taken t s c wake)
  then have ok: "body_ok (th_stream t) (th_heap t)" by (simp add: storage_ok_def)
  note k = read_poll_keeps_ok [OF ok read_chunk_taken(2)]
  have "bs_cancelled s = bs_cancelled (th_stream t)"
    using read_poll_fields [OF read_chunk_taken(2)] by simp
  with k read_chunk_taken(3) show ?case by (simp add: storage_ok_def)
next
  case (read_parks t s)
  then have "s = (th_stream t)\<lparr>bs_data_ready := False\<rparr>"
    by (auto simp: read_poll_def Let_def split: if_splits)
  with read_parks(3) show ?case by (simp add: storage_ok_def)
next
  case (read_fails t s e)
  then have "s = th_stream t"
    by (auto simp: read_poll_def Let_def split: if_splits)
  with read_fails(3) show ?case by (simp add: storage_ok_def)
next
  case (reader_copies t c h r)
  have "heap_ok (th_heap t)" "\<forall>v \<in> set (chunk_views [c]). v < length (h_views (th_heap t))"
    using reader_copies by (auto simp: storage_ok_def body_ok_def)
  note f = take_chunk_frame [OF this reader_copies(2)]
  have "set (chunk_views (unread (th_stream t))) \<inter> set (chunk_views [c]) = {}"
    using reader_copies(1,3) by (auto simp: storage_ok_def)
  then have "body_ok (th_stream t) h"
    using storage_frame [of "th_stream t" "th_heap t"] f reader_copies(3) by (auto simp: storage_ok_def)
  with f reader_copies(3) show ?case
    by (auto simp: storage_ok_def split: sum.splits)
next
  case (producer_feeds t c s h accepted)
  have ok: "body_ok (th_stream t) (th_heap t)" using producer_feeds(4) by (simp add: storage_ok_def)
  note f = body_feed_locked_ok [OF ok producer_feeds(2)]
  show ?case
  proof (cases accepted)
    case False
    then have "s = th_stream t" "h = th_heap t" using f producer_feeds(3) by (auto split: if_splits)
    with producer_feeds(4) show ?thesis by (simp add: storage_ok_def)
  next
    case True
    then have "body_ok s h" "frame {} (th_heap t) h" "bs_cancelled s = bs_cancelled (th_stream t)"
      "\<forall>v \<in> set (chunk_views (unread s)).
        v \<in> set (chunk_views (unread (th_stream t))) \<or> length (h_views (th_heap t)) \<le> v"
      using f producer_feeds(3) by (auto split: if_splits)
    moreover from this(2) have "length (h_views (th_heap t)) \<le> length (h_views h)"
      by (simp add: frame_def)
    ultimately show ?thesis
      using producer_feeds(4) by (fastforce simp: storage_ok_def)
  qed
next
  case (producer_finishes t)
  then show ?case
    using body_finish_ok by (simp add: storage_ok_def body_finish_locked_def)
next
  case (producer_waits t s)
  then have "s = (th_stream t)\<lparr>bs_space_ready := False\<rparr>"
    by (auto simp: wait_writable_def Let_def split: if_splits)
  with producer_waits(3) show ?case by (simp add: storage_ok_def)
next
  case (canceller_cancels t s retained)
  then have ok: "body_ok (th_stream t) (th_heap t)" by (simp add: storage_ok_def)
  have s: "s = fst (body_cancel_locked (th_stream t))" "retained = bs_chunks (th_stream t)"
    using canceller_cancels(2) by (auto simp: body_cancel_locked_def)
  have "body_ok s (th_heap t)" "bs_cancelled s" "unread s = []"
    using ok unfolding s by (auto simp: body_ok_def accounts_ok_def body_cancel_locked_def body_content_def)
  with ok s(2) canceller_cancels(3) show ?case
    by (simp add: storage_ok_def body_ok_def)
next
  case (canceller_releases t retained h r)
  have ok: "body_ok (th_stream t) (th_heap t)" "bs_cancelled (th_stream t)"
    "\<forall>v \<in> set (chunk_views retained). v < length (h_views (th_heap t))"
    using canceller_releases(1,3) by (auto simp: storage_ok_def)
  have un: "unread (th_stream t) = []" using ok(1,2) by (simp add: body_ok_def accounts_ok_def)
  have "heap_ok (th_heap t)" using ok(1) by (simp add: body_ok_def)
  from release_chunks_ok [OF this ok(3)] canceller_releases(2) have
    h: "heap_ok h" "frame (set (chunk_views retained)) (th_heap t) h"
      "length (h_views h) = length (h_views (th_heap t))" by auto
  have "body_ok (th_stream t) h"
    using storage_frame [OF ok(1) h(2,1)] un by simp
  with canceller_releases(3) h(3) show ?case
    by (simp add: storage_ok_def)
qed (auto simp: storage_ok_def)

lemma read_poll_parks:
  "read_poll h s = (s', Inr PollWait) \<Longrightarrow>
   s' = s\<lparr>bs_data_ready := False\<rparr> \<and> \<not> bs_read_index s < length (bs_chunks s) \<and> \<not> producer_finished s"
  by (auto simp: read_poll_def Let_def producer_finished_def split: if_splits)

lemma wakeups_step: "thread_step t t' \<Longrightarrow> storage_ok t \<Longrightarrow> wakeups_ok t \<Longrightarrow> wakeups_ok t'"
proof (induction rule: thread_step.induct)
  case (read_chunk_taken t s c wake)
  note f = read_poll_fields [OF read_chunk_taken(2)]
  have "bs_space_ready s = bs_space_ready (th_stream t)"
    using read_chunk_taken(2) by (auto simp: read_poll_def Let_def split: if_splits)
  with f read_chunk_taken(4) show ?case
    by (auto simp: wakeups_ok_def read_chunk_taken(1))
next
  case (read_parks t s)
  note f = read_poll_parks [OF read_parks(2)]
  with read_parks(1,4) show ?case
    by (auto simp: wakeups_ok_def producer_finished_def)
next
  case (read_fails t s e)
  then have "s = th_stream t"
    by (auto simp: read_poll_def Let_def split: if_splits)
  with read_fails(1,4) show ?case by (auto simp: wakeups_ok_def)
next
  case (producer_feeds t c s h accepted)
  have ok: "body_ok (th_stream t) (th_heap t)" using producer_feeds(4) by (simp add: storage_ok_def)
  note f = body_feed_locked_ok [OF ok producer_feeds(2)]
  show ?case
  proof (cases accepted)
    case False
    then have "s = th_stream t" "h = th_heap t" using f producer_feeds(3) by (auto split: if_splits)
    with False producer_feeds(1,5) show ?thesis by (simp add: wakeups_ok_def)
  next
    case True
    then show ?thesis by (simp add: wakeups_ok_def)
  qed
next
  case (producer_waits t s)
  then have "s = (th_stream t)\<lparr>bs_space_ready := False\<rparr>" "bs_backpressured (th_stream t)"
    by (auto simp: wait_writable_def Let_def split: if_splits)
  with producer_waits(1,4) show ?case by (auto simp: wakeups_ok_def producer_finished_def)
qed (auto simp: wakeups_ok_def body_cancel_locked_def body_finish_locked_def set_events_def
    producer_finished_def split: sum.splits)

lemma reachable_ok:
  assumes "thread_step\<^sup>*\<^sup>* (start s h) t" "body_ok s h"
  shows "storage_ok t \<and> wakeups_ok t"
  using assms(1)
  by (induction rule: rtranclp_induct)
    (use start_ok [OF assms(2)] storage_step wakeups_step in auto)

section \<open>Properties\<close>

definition sample_body :: body_stream where
  "sample_body = \<lparr>bs_max_bytes = 10, bs_low_watermark = 1, bs_high_watermark = 4,
     bs_streaming = True, bs_chunks = [], bs_received = 0, bs_read_index = 0,
     bs_consumed_bytes = 0, bs_queued_bytes = 0, bs_backpressured = False, bs_ended = False,
     bs_cancelled = False, bs_closed = False, bs_data_ready = False, bs_space_ready = True\<rparr>"

lemma sample_body_new: "body_new 10 1 4 True = Inr sample_body"
  by (simp add: body_new_def sample_body_def)

text \<open>C14 No lost wake-up and no deadlock between reader and producer: in every state the threads
  can reach from a fresh stream, a reader that waits on a lowered data event has nothing to read
  and the body has not ended, or the thread that must set the event is about to; a producer that
  waits on a lowered space event is still backpressured, or its wake-up is on the way; and when
  nobody is about to signal, the two are never both waiting.\<close>

theorem body_stream_no_lost_wakeup:
  assumes "body_new mx low high st = Inr s" "heap_ok h" "thread_step\<^sup>*\<^sup>* (start s h) t"
  shows "(th_reader t = RWait \<and> \<not> bs_data_ready (th_stream t) \<longrightarrow>
        unread (th_stream t) = [] \<and> \<not> producer_finished (th_stream t) \<or>
        th_producer t \<in> {PSignal, PSignalAll} \<or> th_canceller t \<noteq> CIdle) \<and>
     (th_producer t = PWait \<and> \<not> bs_space_ready (th_stream t) \<longrightarrow>
        bs_backpressured (th_stream t) \<or> (\<exists>c. th_reader t = RTake c True) \<or> th_canceller t \<noteq> CIdle) \<and>
     \<not> (th_reader t = RWait \<and> \<not> bs_data_ready (th_stream t) \<and>
        th_producer t = PWait \<and> \<not> bs_space_ready (th_stream t) \<and> th_canceller t = CIdle)"
proof -
  have inv: "storage_ok t" "wakeups_ok t"
    using reachable_ok [OF assms(3)] body_new_ok [OF assms(1,2)] by auto
  have "bs_backpressured (th_stream t) \<Longrightarrow> unread (th_stream t) \<noteq> []"
    using inv(1) by (auto simp: storage_ok_def body_ok_def accounts_ok_def body_content_def)
  with inv(2) show ?thesis by (auto simp: wakeups_ok_def)
qed

theorem body_stream_no_lost_wakeup_witness:
  "\<exists>t. thread_step\<^sup>*\<^sup>* (start sample_body empty_heap) t \<and> th_reader t = RWait \<and>
     unread (th_stream t) = [] \<and> \<not> bs_data_ready (th_stream t)"
proof -
  let ?t = "(start sample_body empty_heap)\<lparr>th_stream := sample_body\<lparr>bs_data_ready := False\<rparr>, th_reader := RWait\<rparr>"
  have "read_poll (th_heap (start sample_body empty_heap)) (th_stream (start sample_body empty_heap)) =
      (sample_body\<lparr>bs_data_ready := False\<rparr>, Inr PollWait)"
    by (simp add: start_def read_poll_def sample_body_def)
  then have r: "thread_step\<^sup>*\<^sup>* (start sample_body empty_heap) ?t"
    by (intro r_into_rtranclp read_parks) (simp add: start_def)
  from body_stream_no_lost_wakeup [OF sample_body_new heap_ok_empty r] r show ?thesis
    by (intro exI [of _ ?t]) (auto simp: start_def)
qed

text \<open>A heap with one view of three bytes, and the states of a run in which the stream is cancelled
  while the reader holds a chunk.\<close>

definition race_heap :: bheap where
  "race_heap = \<lparr>h_segs = [\<lparr>sg_capacity = 3, sg_data = [1, 2, 3], sg_start = 0, sg_end = 3,
      sg_references = 1, sg_released = False\<rparr>],
    h_views = [\<lparr>vw_owner = 0, vw_start = 0, vw_length = 3, vw_released = False\<rparr>]\<rparr>"

definition race1 :: threads where
  "race1 = (let r = body_feed_locked (Retained 0) sample_body race_heap in
     (start sample_body race_heap)\<lparr>th_stream := fst r, th_heap := fst (snd r), th_producer := PSignal\<rparr>)"

definition race2 :: threads where
  "race2 = race1\<lparr>th_stream := fst (read_poll (th_heap race1) (th_stream race1)),
     th_reader := RTake (Retained 1) False\<rparr>"

definition race3 :: threads where
  "race3 = race2\<lparr>th_stream := fst (body_cancel_locked (th_stream race2)),
     th_canceller := CSignal [Retained 1]\<rparr>"

definition race4 :: threads where
  "race4 = race3\<lparr>th_stream := set_events (th_stream race3),
     th_heap := fst (release_chunks [Retained 1] (th_heap race3)), th_canceller := CIdle\<rparr>"

definition race5 :: threads where
  "race5 = race4\<lparr>th_reader := RFail (BufferReleasedError ''cannot read a released view'')\<rparr>"

lemma race_heap_ok: "heap_ok race_heap"
  by (simp add: heap_ok_def race_heap_def view_ok_def seg_ok_def excess_def live_count_def)

lemma race_steps:
  "thread_step (start sample_body race_heap) race1" "thread_step race1 race2"
  "thread_step race2 race3" "thread_step race3 race4" "thread_step race4 race5"
proof -
  have "body_feed_locked (Retained 0) sample_body race_heap =
      (th_stream race1, th_heap race1, Inr True)" by code_simp
  then show "thread_step (start sample_body race_heap) race1"
    using producer_feeds [of "start sample_body race_heap" "Retained 0" "th_stream race1" "th_heap race1" True]
    by (simp add: race1_def start_def race_heap_def Let_def)
  have "read_poll (th_heap race1) (th_stream race1) = (th_stream race2, Inr (PollChunk (Retained 1) False))"
    by code_simp
  then show "thread_step race1 race2"
    using read_chunk_taken [of race1 "th_stream race2" "Retained 1" False]
    by (simp add: race2_def race1_def start_def Let_def)
  have "body_cancel_locked (th_stream race2) = (th_stream race3, [Retained 1])" by code_simp
  then show "thread_step race2 race3"
    using canceller_cancels [of race2 "th_stream race3" "[Retained 1]"]
    by (simp add: race3_def race2_def race1_def start_def Let_def)
  have "release_chunks [Retained 1] (th_heap race3) = (th_heap race4, Inr ())" by code_simp
  then show "thread_step race3 race4"
    using canceller_releases [of race3 "[Retained 1]" "th_heap race4" "Inr ()"]
    by (simp add: race4_def race3_def)
  have "take_chunk (Retained 1) (th_heap race4) =
      (th_heap race4, Inl (BufferReleasedError ''cannot read a released view''))" by code_simp
  moreover have "th_reader race4 = RTake (Retained 1) False"
    by (simp add: race4_def race3_def race2_def)
  ultimately show "thread_step race4 race5"
    using reader_copies [of race4 "Retained 1" "th_heap race4"
        "Inl (BufferReleasedError ''cannot read a released view'')"]
    by (simp add: race5_def)
qed

text \<open>\<open>cancel\<close> also releases the chunk a concurrent reader has already taken from the queue but
  not yet copied: from a well-formed state there is a run of feed, read and cancel in which the
  reader fails with a released-view error instead of the cancellation error.\<close>

theorem cancel_releases_chunk_in_use:
  "heap_ok race_heap \<and> body_new 10 1 4 True = Inr sample_body \<and>
   (\<exists>t. thread_step\<^sup>*\<^sup>* (start sample_body race_heap) t \<and> bs_cancelled (th_stream t) \<and>
      th_reader t = RFail (BufferReleasedError ''cannot read a released view''))"
proof -
  have "thread_step\<^sup>*\<^sup>* (start sample_body race_heap) race5"
    using race_steps by (meson converse_rtranclp_into_rtranclp rtranclp.rtrancl_refl)
  moreover have "bs_cancelled (th_stream race5)" by code_simp
  moreover have "th_reader race5 = RFail (BufferReleasedError ''cannot read a released view'')"
    by (simp add: race5_def)
  ultimately show ?thesis using race_heap_ok sample_body_new by blast
qed

end
