(* ===== verification/Body_Props.thy ===== *)
theory Body_Props
  imports Body_Threads
begin

text \<open>
  The properties of the body stream as a queue, and of percent-decoding and query parsing.
\<close>

section \<open>The byte queue interface in polling mode\<close>

definition body_push :: "bytes \<Rightarrow> body_stream \<times> bheap \<Rightarrow> (body_stream \<times> bheap) \<times> bool result" where
  "body_push bs x = (case body_feed (Plain bs) (fst x) (snd x) of (s, h, r) \<Rightarrow> ((s, h), r))"

text \<open>A negative amount reads the whole body, any other one chunk.\<close>

definition body_pull :: "int \<Rightarrow> body_stream \<times> bheap \<Rightarrow> (body_stream \<times> bheap) \<times> bytes result" where
  "body_pull n x =
     (let r = (if n < 0 then body_read (-1) (fst x) (snd x) else read_chunk (fst x) (snd x)) in
      ((fst r, fst (snd r)),
       case snd (snd r) of
         Inl e \<Rightarrow> Inl e | Inr (Value bs) \<Rightarrow> Inr bs | Inr NoBody \<Rightarrow> Inr [] | Inr Parked \<Rightarrow> Inr []))"

definition polling_ok :: "body_stream \<times> bheap \<Rightarrow> bool" where
  "polling_ok x \<longleftrightarrow> body_ok (fst x) (snd x) \<and> \<not> bs_streaming (fst x) \<and> \<not> bs_cancelled (fst x)"

lemma body_feed_spec:
  assumes "body_ok s h" "live_list h (chunk_views [c])"
    and "body_feed c s h = (s', h', r)" "n = int (length (chunk_bytes h c))"
  shows "if bs_ended s \<or> bs_cancelled s \<or> bs_closed s
    then (s', h', r) = (s, h, Inl (RuntimeError ''body stream is not accepting data''))
    else if bs_max_bytes s < bs_received s + n
    then (s', h', r) = (s, h, Inl (ValueError ''request body limit exceeded''))
    else body_ok s' h' \<and> frame {} h h' \<and> body_content s' h' = body_content s h @ chunk_bytes h c \<and>
      bs_streaming s' = bs_streaming s \<and> \<not> bs_cancelled s' \<and> \<not> bs_closed s' \<and>
      r = Inr (bs_backpressured s \<or> bs_high_watermark s \<le> bs_queued_bytes s + n)"
proof (cases "bs_ended s \<or> bs_cancelled s \<or> bs_closed s \<or> bs_max_bytes s < bs_received s + n")
  case True
  with body_feed_locked_ok [OF assms(1,2)] assms(3,4) show ?thesis
    by (auto simp: body_feed_def split: if_splits)
next
  case False
  show ?thesis
  proof (cases "n = 0")
    case True
    with body_feed_locked_ok [OF assms(1,2)] False assms(3,4)
    have "s' = s \<and> h' = h \<and> r = Inr (bs_backpressured s)" by (auto simp: body_feed_def)
    with True False assms(1,4) show ?thesis by (auto simp: body_ok_def accounts_ok_def)
  next
    case nonzero: False
    from body_feed_locked_ok [OF assms(1,2)] nonzero False assms(4) obtain s1 h1 where
      s1: "body_feed_locked c s h = (s1, h1, Inr True)" "body_ok s1 h1" "frame {} h h1"
        "body_content s1 h1 = body_content s h @ chunk_bytes h c"
        "bs_backpressured s1 = (bs_backpressured s \<or> bs_high_watermark s \<le> bs_queued_bytes s + n)"
        "bs_streaming s1 = bs_streaming s" "bs_cancelled s1 = bs_cancelled s" "bs_closed s1 = bs_closed s"
      by (auto split: if_splits)
    then have "s' = s1\<lparr>bs_data_ready := True\<rparr>" "h' = h1" "r = Inr (bs_backpressured s1)"
      using assms(3) by (auto simp: body_feed_def Let_def)
    with s1 False show ?thesis by simp
  qed
qed

lemma body_push_cases:
  assumes "polling_ok x"
  shows "(\<exists>e. body_push bs x = (x, Inl e)) \<or>
    (\<exists>x' t. body_push bs x = (x', Inr t) \<and> polling_ok x' \<and>
       body_content (fst x') (snd x') = body_content (fst x) (snd x) @ bs)"
proof -
  have ok: "body_ok (fst x) (snd x)" using assms by (simp add: polling_ok_def)
  have l: "live_list (snd x) (chunk_views [Plain bs])" by simp
  have b: "chunk_bytes (snd x) (Plain bs) = bs" by (simp add: chunk_bytes_def)
  obtain s' h' r where r: "body_feed (Plain bs) (fst x) (snd x) = (s', h', r)"
    by (cases "body_feed (Plain bs) (fst x) (snd x)")
  from body_feed_spec [OF ok l r refl] r assms show ?thesis
    by (auto simp: body_push_def polling_ok_def b split: if_splits)
qed

lemma read_chunk_polling:
  assumes "polling_ok x"
  shows "\<exists>x' out. body_pull n x = (x', Inr out) \<and> polling_ok x' \<and>
    body_content (fst x) (snd x) = out @ body_content (fst x') (snd x') \<and>
    (n < 0 \<longrightarrow> out = body_content (fst x) (snd x))"
proof (cases "n < 0")
  case True
  have "\<exists>s' h'. read_loop (- 1) [] (fst x) (snd x) =
      (s', h', Inr (Value (body_content (fst x) (snd x)))) \<and> body_ok s' h' \<and>
      body_content s' h' = [] \<and> bs_streaming s' = bs_streaming (fst x) \<and>
      bs_cancelled s' = bs_cancelled (fst x)"
    using read_loop_ok [of "fst x" "snd x" "- 1" "[]"] assms by (auto simp: polling_ok_def)
  with True assms show ?thesis
    by (fastforce simp: body_pull_def body_read_def polling_ok_def)
next
  case False
  have ok: "body_ok (fst x) (snd x)" "\<not> bs_cancelled (fst x)" "\<not> bs_streaming (fst x)"
    using assms by (auto simp: polling_ok_def)
  show ?thesis
  proof (cases "unread (fst x)")
    case Nil
    then have e: "body_content (fst x) (snd x) = []" by (simp add: body_content_def)
    from read_chunk_ok [OF ok(1,2)] Nil obtain s' h' v where
      "read_chunk (fst x) (snd x) = (s', h', Inr v)" "body_ok s' h'" "unread s' = []"
      "bs_streaming s' = bs_streaming (fst x)" "bs_cancelled s' = bs_cancelled (fst x)"
      "v = NoBody \<or> v = Value []"
      using ok(3) by (auto split: if_splits)
    with False ok e show ?thesis
      by (auto simp: body_pull_def polling_ok_def body_content_def)
  next
    case (Cons c cs)
    from read_chunk_ok [OF ok(1,2)] Cons obtain s' h' where
      "read_chunk (fst x) (snd x) = (s', h', Inr (Value (chunk_bytes (snd x) c)))" "body_ok s' h'"
      "body_content (fst x) (snd x) = chunk_bytes (snd x) c @ body_content s' h'"
      "bs_streaming s' = bs_streaming (fst x)" "bs_cancelled s' = bs_cancelled (fst x)"
      by auto
    with False ok show ?thesis by (auto simp: body_pull_def polling_ok_def)
  qed
qed

interpretation body: byte_fifo polling_ok "\<lambda>x. body_content (fst x) (snd x)" body_push body_pull
proof
  fix x :: "body_stream \<times> bheap" and bs x' t
  assume "polling_ok x" "body_push bs x = (x', Inr t)"
  with body_push_cases [of x bs]
  show "polling_ok x' \<and> body_content (fst x') (snd x') = body_content (fst x) (snd x) @ bs" by auto
next
  fix x :: "body_stream \<times> bheap" and bs x' e
  assume "polling_ok x" "body_push bs x = (x', Inl e)"
  with body_push_cases [of x bs] show "x' = x" by auto
next
  fix x :: "body_stream \<times> bheap" and n
  assume "polling_ok x"
  with read_chunk_polling [of x n]
  show "\<exists>x' out. body_pull n x = (x', Inr out) \<and> polling_ok x' \<and>
      body_content (fst x) (snd x) = out @ body_content (fst x') (snd x')" by blast
next
  fix x :: "body_stream \<times> bheap" and n :: int
  assume "polling_ok x" "n < 0"
  with read_chunk_polling [of x n]
  show "\<exists>x'. body_pull n x = (x', Inr (body_content (fst x) (snd x)))" by blast
qed

section \<open>Properties of the stream\<close>

text \<open>C15 A body stream in polling mode neither loses, duplicates nor reorders bytes: over any
  sequence of accepted and refused writes and of reads, followed by a final complete read, the
  bytes delivered are the accepted bytes in order.\<close>

theorem body_stream_conserves_bytes:
  assumes "body_new mx low high False = Inr s" "heap_ok h"
    and "fifo_run body_push body_pull ops (s, h) = (x1, accepted, out)"
    and "body_pull (- 1) x1 = (x2, Inr rest)"
  shows "out @ rest = accepted"
proof -
  have "polling_ok (s, h)" "body_content (fst (s, h)) (snd (s, h)) = []"
    using body_new_ok [OF assms(1,2)] assms(1)
    by (auto simp: polling_ok_def body_new_def Let_def split: if_splits)
  from body.run_then_drain [OF this assms(3,4)] show ?thesis .
qed

definition polled_body :: body_stream where
  "polled_body = sample_body\<lparr>bs_streaming := False\<rparr>"

theorem body_stream_conserves_bytes_witness:
  "\<exists>x1 x2 out rest. fifo_run body_push body_pull
      [Push [1, 2], Push [3, 4, 5], Pull 0, Push (replicate 9 0), Push [6]] (polled_body, empty_heap) =
      (x1, [1, 2, 3, 4, 5, 6], out) \<and>
     body_pull (- 1) x1 = (x2, Inr rest) \<and> out @ rest = [1, 2, 3, 4, 5, 6]"
proof -
  let ?ops = "[Push [1, 2], Push [3, 4, 5], Pull 0, Push (replicate 9 0), Push [6]]"
  let ?x = "(polled_body, empty_heap)"
  obtain x1 acc out where run: "fifo_run body_push body_pull ?ops ?x = (x1, acc, out)"
    by (cases "fifo_run body_push body_pull ?ops ?x")
  have "fst (snd (fifo_run body_push body_pull ?ops ?x)) = [1, 2, 3, 4, 5, 6]" by code_simp
  then have acc: "acc = [1, 2, 3, 4, 5, 6]" using run by simp
  have new: "body_new 10 1 4 False = Inr polled_body"
    by (simp add: body_new_def polled_body_def sample_body_def)
  have ok: "polling_ok ?x"
    using body_new_ok [OF new heap_ok_empty] by (simp add: polling_ok_def polled_body_def sample_body_def)
  obtain x2 rest where pull: "body_pull (- 1) x1 = (x2, Inr rest)"
    using body.run_conserves [OF ok run] body.pull_all [of x1 "- 1"] by auto
  from body_stream_conserves_bytes [OF new heap_ok_empty run pull] run pull acc show ?thesis
    by (intro exI [of _ x1] exI [of _ x2] exI [of _ out] exI [of _ rest]) simp
qed

text \<open>\<open>feed\<close> on every branch: a finished, cancelled or closed stream and a body beyond
  \<open>max_bytes\<close> are refused without effect; otherwise the bytes are queued (a view is retained, not
  copied), the accounting received = consumed + queued and the watermark invariant are kept, and
  backpressure is reported exactly once the high watermark is reached.\<close>

theorem body_feed_bounded:
  assumes "body_ok s h" "live_list h (chunk_views [c])"
    and "body_feed c s h = (s', h', r)" "n = int (length (chunk_bytes h c))"
  shows "if bs_ended s \<or> bs_cancelled s \<or> bs_closed s
    then (s', h', r) = (s, h, Inl (RuntimeError ''body stream is not accepting data''))
    else if bs_max_bytes s < bs_received s + n
    then (s', h', r) = (s, h, Inl (ValueError ''request body limit exceeded''))
    else body_ok s' h' \<and> frame {} h h' \<and> body_content s' h' = body_content s h @ chunk_bytes h c \<and>
      bs_received s' = bs_consumed_bytes s' + bs_queued_bytes s' \<and> bs_received s' \<le> bs_max_bytes s' \<and>
      r = Inr (bs_backpressured s \<or> bs_high_watermark s \<le> bs_queued_bytes s + n)"
  using body_feed_spec [OF assms] by (auto simp: body_ok_def accounts_ok_def split: if_splits)

theorem body_feed_bounded_witness:
  "snd (snd (body_feed (Plain [1, 2, 3, 4]) sample_body empty_heap)) = Inr True"
proof -
  have "body_ok sample_body empty_heap" using body_new_ok [OF sample_body_new heap_ok_empty] by simp
  then show ?thesis
    using body_feed_bounded [of sample_body empty_heap "Plain [1, 2, 3, 4]"]
    by (cases "body_feed (Plain [1, 2, 3, 4]) sample_body empty_heap")
      (auto simp: sample_body_def chunk_bytes_def)
qed

end
