(* ===== verification/Query_Props.thy ===== *)
theory Query_Props
  imports Models
begin

text \<open>
  Text encodings: strict UTF-8 decoding inverts encoding, percent-decoding inverts the escaping
  of every byte, and what percent-decoding accepts beyond two hexadecimal digits.
\<close>

definition valid_text :: "pystr \<Rightarrow> bool" where
  "valid_text s \<longleftrightarrow> (\<forall>c \<in> set s. 0 \<le> c \<and> c < 1114112)"

text \<open>The six-bit groups of a code point.\<close>

lemma sextets:
  fixes c :: int
  obtains x y z d e f where "c = 64 * x + d" "x = 64 * y + e" "y = 64 * z + f"
    "0 \<le> d" "d < 64" "0 \<le> e" "e < 64" "0 \<le> f" "f < 64"
    "c div 64 = x" "c mod 64 = d" "c div 64 mod 64 = e" "c div 4096 = y" "c div 4096 mod 64 = f"
    "c div 262144 = z" "x mod 64 = e" "y mod 64 = f"
proof -
  have 1: "c div 4096 = c div 64 div 64" "c div 262144 = c div 64 div 64 div 64"
    using zdiv_zmult2_eq [of 64 c 64] zdiv_zmult2_eq [of 64 "c div 64" 64] zdiv_zmult2_eq [of 4096 c 64]
    by simp_all
  show thesis
    by (rule that [of "c div 64" "c mod 64" "c div 64 div 64" "c div 64 mod 64"
          "c div 64 div 64 div 64" "c div 64 div 64 mod 64"]) (simp_all add: 1)
qed

lemma utf8_cp_round:
  assumes "utf8_cp c = Inr bs" "0 \<le> c" "c < 1114112"
  shows "utf8_decode (bs @ rest) = rbind (utf8_decode rest) (\<lambda>r. Inr (c # r))"
    and "\<forall>b \<in> set bs. 0 \<le> b \<and> b < 256"
proof -
  obtain x y z d e f where
    eq: "c = 64 * x + d" "x = 64 * y + e" "y = 64 * z + f"
    and b: "0 \<le> d" "d < 64" "0 \<le> e" "e < 64" "0 \<le> f" "f < 64"
    and div: "c div 64 = x" "c mod 64 = d" "c div 64 mod 64 = e" "c div 4096 = y"
      "c div 4096 mod 64 = f" "c div 262144 = z" "x mod 64 = e" "y mod 64 = f"
    by (rule sextets)
  note bs = assms(1) [unfolded utf8_cp_def div]
  consider (1) "c < 128" | (2) "128 \<le> c" "c < 2048"
    | (3) "2048 \<le> c" "c < 65536" "\<not> (55296 \<le> c \<and> c \<le> 57343)" | (4) "65536 \<le> c"
    using bs by (cases "c < 128"; cases "c < 2048"; cases "c < 65536") (auto split: if_splits)
  then have "utf8_decode (bs @ rest) = rbind (utf8_decode rest) (\<lambda>r. Inr (c # r)) \<and>
      (\<forall>b \<in> set bs. 0 \<le> b \<and> b < 256)"
  proof cases
    case 1
    with bs assms(2) show ?thesis by auto
  next
    case 2
    have "bs = [192 + x, 128 + d]" using bs 2 by simp
    moreover have "2 \<le> x" "x < 32" using 2 eq(1) b by linarith+
    ultimately show ?thesis using b eq(1) by (simp add: cont_def mult.commute)
  next
    case 3
    have "bs = [224 + y, 128 + e, 128 + d]" using bs 3 by (auto split: if_splits)
    moreover have "0 \<le> y" "y < 16" "y = 0 \<Longrightarrow> 32 \<le> e" "y = 13 \<Longrightarrow> e < 32"
      using 3 eq(1,2) b by linarith+
    ultimately show ?thesis using b eq(1,2) by (simp add: cont_def algebra_simps)
  next
    case 4
    have "bs = [240 + z, 128 + f, 128 + e, 128 + d]" using bs 4 by (auto split: if_splits)
    moreover have "0 \<le> z" "z < 5" "z = 0 \<Longrightarrow> 16 \<le> f" "z = 4 \<Longrightarrow> f < 16"
      using 4 assms(3) eq b by linarith+
    ultimately show ?thesis using b eq by (simp add: cont_def algebra_simps)
  qed
  then show "utf8_decode (bs @ rest) = rbind (utf8_decode rest) (\<lambda>r. Inr (c # r))"
    "\<forall>b \<in> set bs. 0 \<le> b \<and> b < 256" by simp_all
qed

lemma utf8_round: "utf8_encode s = Inr bs \<Longrightarrow> valid_text s \<Longrightarrow> utf8_decode bs = Inr s"
proof (induction s arbitrary: bs)
  case (Cons c s)
  then obtain b bs' where "utf8_cp c = Inr b" "utf8_encode s = Inr bs'" "bs = b @ bs'"
    by (auto simp: rbind_eq_Inr)
  moreover have "0 \<le> c" "c < 1114112" "valid_text s" using Cons.prems(2) by (auto simp: valid_text_def)
  ultimately show ?case
    using Cons.IH utf8_cp_round(1) [of c b bs'] by simp
qed simp

lemma utf8_encode_bytes:
  "utf8_encode s = Inr bs \<Longrightarrow> valid_text s \<Longrightarrow> \<forall>b \<in> set bs. 0 \<le> b \<and> b < 256"
proof (induction s arbitrary: bs)
  case (Cons c s)
  then obtain b bs' where "utf8_cp c = Inr b" "utf8_encode s = Inr bs'" "bs = b @ bs'"
    by (auto simp: rbind_eq_Inr)
  moreover have "0 \<le> c" "c < 1114112" "valid_text s" using Cons.prems(2) by (auto simp: valid_text_def)
  ultimately show ?case
    using Cons.IH utf8_cp_round(2) [of c b] by (simp add: ball_Un)
qed simp

lemma utf8_encode_ascii: "\<forall>c \<in> set s. 0 \<le> c \<and> c < 128 \<Longrightarrow> utf8_encode s = Inr s"
  by (induction s) (simp_all add: utf8_cp_def)

text \<open>Escaping every byte.\<close>

definition escape_byte :: "int \<Rightarrow> bytes" where
  "escape_byte b = [37, digit_cp (nat (b div 16)), digit_cp (nat (b mod 16))]"

definition escape_all :: "bytes \<Rightarrow> pystr" where
  "escape_all bs = concat (map escape_byte bs)"

lemma digit_cp_hex: "d < 16 \<Longrightarrow> is_hex (digit_cp d) \<and> hex_val (digit_cp d) = int d \<and> digit_cp d < 128"
  by (auto simp: is_hex_def hex_val_def digit_cp_def)

lemma nibbles:
  fixes b :: int
  assumes "0 \<le> b" "b < 256"
  obtains x y where "nat (b div 16) = x" "nat (b mod 16) = y" "x < 16" "y < 16" "b = int x * 16 + int y"
proof -
  have "0 \<le> b div 16" "b div 16 < 16" using assms by auto
  then show thesis
    by (intro that [of "nat (b div 16)" "nat (b mod 16)"]) auto
qed

lemma escape_value_byte:
  assumes "0 \<le> b" "b < 256"
  shows "escape_value (digit_cp (nat (b div 16))) (digit_cp (nat (b mod 16))) = Some b"
proof -
  obtain x y where "nat (b div 16) = x" "nat (b mod 16) = y" "x < 16" "y < 16" "b = int x * 16 + int y"
    using nibbles [OF assms] .
  with digit_cp_hex [of x] digit_cp_hex [of y] show ?thesis
    by (simp only: escape_value_def) simp
qed

lemma percent_loop_escaped:
  "\<forall>b \<in> set bs. 0 \<le> b \<and> b < 256 \<Longrightarrow> percent_loop p (escape_all bs) = Inr bs"
  by (induction bs) (simp_all add: escape_all_def escape_byte_def escape_value_byte)

lemma escape_byte_ascii: "0 \<le> b \<Longrightarrow> b < 256 \<Longrightarrow> \<forall>c \<in> set (escape_byte b). 0 \<le> c \<and> c < 128"
  by (erule nibbles, assumption) (auto simp: escape_byte_def digit_cp_def)

lemma escape_all_ascii:
  "\<forall>b \<in> set bs. 0 \<le> b \<and> b < 256 \<Longrightarrow> \<forall>c \<in> set (escape_all bs). 0 \<le> c \<and> c < 128"
  using escape_byte_ascii by (auto simp: escape_all_def)

section \<open>Properties\<close>

text \<open>Percent-decoding inverts percent-encoding: for every text, escaping all bytes of its
  UTF-8 form and decoding gives the text back.\<close>

theorem percent_decode_round_trip:
  assumes "valid_text s" "utf8_encode s = Inr bs"
  shows "percent_decode (escape_all bs) plus_space = Inr s"
proof -
  have b: "\<forall>b \<in> set bs. 0 \<le> b \<and> b < 256" using utf8_encode_bytes [OF assms(2,1)] .
  show ?thesis
    using utf8_encode_ascii [OF escape_all_ascii [OF b]] percent_loop_escaped [OF b]
      utf8_round [OF assms(2,1)]
    by (simp add: percent_decode_def)
qed

theorem percent_decode_round_trip_witness:
  "percent_decode (escape_all [226, 130, 172, 37]) True = Inr [8364, 37]"
proof -
  have "utf8_encode [8364, 37] = Inr [226, 130, 172, 37]" by code_simp
  moreover have "valid_text [8364, 37]" by (simp add: valid_text_def)
  ultimately show ?thesis using percent_decode_round_trip by blast
qed

text \<open>The escape parser takes whatever Python's \<open>int\<close> takes: a percent sign followed by a sign
  and one digit, which is no percent escape, decodes to a control character.\<close>

theorem percent_decode_accepts_sign:
  "percent_decode (cp ''a%+fb%-0'') False = Inr [97, 15, 98, 0]"
  by code_simp

end
