(* ===== verification/Lifecycle.thy ===== *)
theory Lifecycle
  imports Prelude
begin

text \<open>
  Model of \<open>pcc_gateway/lifecycle.py\<close>: reference-counted configuration generations, admission
  limits with their counters, and the lifecycle state machine.

  Generations are objects shared by reference, so they live in a store (a list indexed by
  address) inside the lifecycle.  The resources of a generation are foreign objects whose
  \<open>retain\<close> and \<open>release\<close> callbacks may raise: which ones do is a parameter \<open>env\<close> of the
  operations that call them, and the calls made are recorded in a log.  Everything a method does
  under the owner lock is one atomic definition; \<open>publish\<close> and \<open>finish_drain\<close>, which leave the
  lock to run callbacks, are also given as their phases.
\<close>

section \<open>Generations\<close>

datatype res_event = Retain nat | Release nat

record res_env =
  env_retain :: "nat \<Rightarrow> exn option"   \<comment> \<open>the exception \<open>resource.retain()\<close> raises, if any\<close>
  env_release :: "nat \<Rightarrow> exn option"

record 'c generation =
  gn_generation_id :: int
  gn_config :: 'c
  gn_resources :: "nat list"
  gn_references :: int
  gn_retired :: bool
  gn_released :: bool

text \<open>The retain loop: the resources retained, the log, and the first failure.\<close>

fun retain_all :: "res_env \<Rightarrow> nat list \<Rightarrow> nat list \<times> res_event list \<times> exn option" where
  "retain_all env [] = ([], [], None)"
| "retain_all env (r # rs) =
     (case env_retain env r of
       Some e \<Rightarrow> ([], [], Some e)
     | None \<Rightarrow> (case retain_all env rs of (got, log, e) \<Rightarrow> (r # got, Retain r # log, e)))"

text \<open>The release loop, last resource first, going on after failures; the value is the first
  failure.\<close>

fun release_all :: "res_env \<Rightarrow> nat list \<Rightarrow> res_event list \<times> exn option" where
  "release_all env [] = ([], None)"
| "release_all env (r # rs) =
     (case release_all env rs of (log, e) \<Rightarrow>
       (log @ [Release r], case e of Some _ \<Rightarrow> e | None \<Rightarrow> env_release env r))"

definition generation_new ::
  "res_env \<Rightarrow> int \<Rightarrow> 'c \<Rightarrow> nat list \<Rightarrow> res_event list \<times> 'c generation result" where
  "generation_new env generation_id config resources =
     (case retain_all env resources of
       (got, log, None) \<Rightarrow>
         (log, Inr \<lparr>gn_generation_id = generation_id, gn_config = config, gn_resources = got,
                    gn_references = 1, gn_retired = False, gn_released = False\<rparr>)
     | (got, log, Some error) \<Rightarrow>
         (case release_all env got of
           (log2, Some _) \<Rightarrow>
             (log @ log2, Inl (RuntimeError ''gateway generation construction cleanup failed''))
         | (log2, None) \<Rightarrow> (log @ log2, Inl error)))"

definition generation_retain :: "'c generation \<Rightarrow> 'c generation \<times> unit result" where
  "generation_retain g =
     (if gn_released g then (g, Inl (RuntimeError ''cannot retain released gateway generation''))
      else (g\<lparr>gn_references := gn_references g + 1\<rparr>, Inr ()))"

definition attachable :: "'c generation \<Rightarrow> bool" where
  "attachable g \<longleftrightarrow> \<not> gn_retired g \<and> \<not> gn_released g \<and> gn_references g = 1"

text \<open>\<open>attach_resource\<close>: the generation seen before and after the callback may differ, so the
  second critical section gets its own argument.\<close>

definition attach_begin :: "'c generation \<Rightarrow> unit result" where
  "attach_begin g =
     (if attachable g then Inr ()
      else Inl (RuntimeError ''resources attach only to an unpublished generation''))"

definition attach_end ::
  "res_env \<Rightarrow> nat \<Rightarrow> 'c generation \<Rightarrow> 'c generation \<times> res_event list \<times> unit result" where
  "attach_end env r g =
     (if attachable g then (g\<lparr>gn_resources := gn_resources g @ [r]\<rparr>, [], Inr ())
      else (g, [Release r],
        case env_release env r of
          Some _ \<Rightarrow> Inl (RuntimeError ''rejected gateway generation resource cleanup failed'')
        | None \<Rightarrow> Inl (RuntimeError ''resources attach only to an unpublished generation'')))"

definition attach_resource ::
  "res_env \<Rightarrow> nat \<Rightarrow> 'c generation \<Rightarrow> 'c generation \<times> res_event list \<times> unit result" where
  "attach_resource env r g =
     (case attach_begin g of
       Inl e \<Rightarrow> (g, [], Inl e)
     | Inr _ \<Rightarrow>
         (case env_retain env r of
           Some e \<Rightarrow> (g, [], Inl e)
         | None \<Rightarrow> (case attach_end env r g of (g', log, res) \<Rightarrow> (g', Retain r # log, res))))"

text \<open>Dropping one reference under the lock; the value is what is left to release.\<close>

definition drop_reference :: "'c generation \<Rightarrow> 'c generation \<times> nat list option" where
  "drop_reference g =
     (let g1 = g\<lparr>gn_references := gn_references g - 1\<rparr> in
      if gn_references g1 = 0
      then (g1\<lparr>gn_released := True, gn_resources := []\<rparr>, Some (gn_resources g))
      else (g1, None))"

definition retire_locked :: "'c generation \<Rightarrow> 'c generation \<times> nat list option result" where
  "retire_locked g =
     (if gn_retired g then (g, Inl (RuntimeError ''gateway generation retired more than once''))
      else if gn_released g \<or> gn_references g \<le> 0
      then (g, Inl (RuntimeError ''gateway generation released more than once''))
      else (case drop_reference (g\<lparr>gn_retired := True\<rparr>) of (g', rs) \<Rightarrow> (g', Inr rs)))"

definition release_locked :: "'c generation \<Rightarrow> 'c generation \<times> nat list option result" where
  "release_locked g =
     (if gn_released g \<or> gn_references g \<le> 0
      then (g, Inl (RuntimeError ''gateway generation released more than once''))
      else (case drop_reference g of (g', rs) \<Rightarrow> (g', Inr rs)))"

definition release_resources :: "res_env \<Rightarrow> nat list option \<Rightarrow> res_event list \<times> int result" where
  "release_resources env resources =
     (case resources of
       None \<Rightarrow> ([], Inr 0)
     | Some rs \<Rightarrow>
         (case release_all env rs of
           (log, None) \<Rightarrow> (log, Inr 1)
         | (log, Some _) \<Rightarrow>
             (log, Inl (RuntimeError ''gateway generation resource release failed''))))"

definition generation_retire ::
  "res_env \<Rightarrow> 'c generation \<Rightarrow> 'c generation \<times> res_event list \<times> int result" where
  "generation_retire env g =
     (case retire_locked g of
       (g', Inl e) \<Rightarrow> (g', [], Inl e)
     | (g', Inr rs) \<Rightarrow> (case release_resources env rs of (log, res) \<Rightarrow> (g', log, res)))"

definition generation_release ::
  "res_env \<Rightarrow> 'c generation \<Rightarrow> 'c generation \<times> res_event list \<times> int result" where
  "generation_release env g =
     (case release_locked g of
       (g', Inl e) \<Rightarrow> (g', [], Inl e)
     | (g', Inr rs) \<Rightarrow> (case release_resources env rs of (log, res) \<Rightarrow> (g', log, res)))"

section \<open>Limits and metrics\<close>

record admission_limits =
  al_max_connections :: int
  al_max_requests :: int
  al_max_queued_requests :: int
  al_max_upstream_active :: int
  al_max_buffered_bytes :: int

definition admission_limits_new :: "int \<Rightarrow> int \<Rightarrow> int \<Rightarrow> int \<Rightarrow> int \<Rightarrow> admission_limits result" where
  "admission_limits_new a b c d e =
     (if list_ex (\<lambda>value. value < 0) [a, b, c, d, e]
      then Inl (ValueError ''admission limits cannot be negative'')
      else Inr \<lparr>al_max_connections = a, al_max_requests = b, al_max_queued_requests = c,
                al_max_upstream_active = d, al_max_buffered_bytes = e\<rparr>)"

definition metric_names :: "string list" where
  "metric_names =
     [''connections_accepted'', ''connections_active'', ''connections_rejected'',
      ''tls_handshakes_started'', ''tls_handshakes_completed'', ''tls_handshakes_failed'',
      ''tls_close_notify_completed'', ''tls_close_notify_failed'', ''tls_generation_reloads'',
      ''reload_requested'', ''requests_started'', ''requests_active'', ''requests_queued'',
      ''requests_rejected'', ''parser_errors'', ''buffered_bytes'', ''backpressure_parks'',
      ''upstream_active'', ''upstream_retries'', ''upstream_cancelled'', ''dns_queries'',
      ''dns_failures'', ''dns_cache_hits'', ''vthread_pins'', ''drain_forced'']"

text \<open>The counters, one per name of \<open>metric_names\<close>.\<close>

type_synonym metrics = "string \<Rightarrow> int"

definition metrics_new :: metrics where
  "metrics_new = (\<lambda>_. 0)"

definition metrics_add :: "string \<Rightarrow> int \<Rightarrow> metrics \<Rightarrow> metrics \<times> int result" where
  "metrics_add name amount ms =
     (if name \<notin> set metric_names
      then (ms, Inl (KeyError ''unbounded gateway metric label rejected''))
      else (ms(name := ms name + amount), Inr (ms name + amount)))"

text \<open>A call with one of the fixed names.\<close>

definition bump :: "string \<Rightarrow> int \<Rightarrow> metrics \<Rightarrow> metrics" where
  "bump name amount ms = fst (metrics_add name amount ms)"

definition drain_active :: "bool \<Rightarrow> metrics \<Rightarrow> metrics \<times> int" where
  "drain_active force ms =
     (let active = ms ''connections_active'' + ms ''requests_active'' in
      (if active \<noteq> 0 \<and> force
       then (ms(''drain_forced'' := ms ''drain_forced'' + active))
              (''connections_active'' := 0, ''requests_active'' := 0)
       else ms, active))"

section \<open>The lifecycle\<close>

datatype lc_state =
  STATE_NEW | STATE_STARTING | STATE_RUNNING | STATE_DRAINING | STATE_STOPPED | STATE_FAILED

record 'c lifecycle =
  lc_metrics :: metrics
  lc_state :: lc_state
  lc_next_generation_id :: int
  lc_store :: "'c generation list"
  lc_current :: nat
  lc_retired_generations :: "nat list"
  lc_publishing :: bool
  lc_limits :: admission_limits
  lc_queued_requests :: int
  lc_failed_reason :: string

abbreviation gen_at :: "'c lifecycle \<Rightarrow> nat \<Rightarrow> 'c generation" where
  "gen_at l a \<equiv> lc_store l ! a"

definition set_gen :: "nat \<Rightarrow> 'c generation \<Rightarrow> 'c lifecycle \<Rightarrow> 'c lifecycle" where
  "set_gen a g l = l\<lparr>lc_store := (lc_store l)[a := g]\<rparr>"

definition lifecycle_new :: "'c \<Rightarrow> admission_limits \<Rightarrow> 'c lifecycle" where
  "lifecycle_new config limits =
     \<lparr>lc_metrics = metrics_new, lc_state = STATE_NEW, lc_next_generation_id = 2,
      lc_store = [\<lparr>gn_generation_id = 1, gn_config = config, gn_resources = [],
                   gn_references = 1, gn_retired = False, gn_released = False\<rparr>],
      lc_current = 0, lc_retired_generations = [], lc_publishing = False, lc_limits = limits,
      lc_queued_requests = 0, lc_failed_reason = ''''\<rparr>"

definition lc_start :: "'c lifecycle \<Rightarrow> 'c lifecycle \<times> unit result" where
  "lc_start l =
     (if lc_state l \<noteq> STATE_NEW then (l, Inl (RuntimeError ''gateway can start only once''))
      else (l\<lparr>lc_state := STATE_STARTING\<rparr>, Inr ()))"

definition lc_started :: "'c lifecycle \<Rightarrow> 'c lifecycle \<times> unit result" where
  "lc_started l =
     (if lc_state l \<noteq> STATE_STARTING then (l, Inl (RuntimeError ''gateway is not starting''))
      else (l\<lparr>lc_state := STATE_RUNNING\<rparr>, Inr ()))"

definition acquire_generation :: "'c lifecycle \<Rightarrow> 'c lifecycle \<times> nat result" where
  "acquire_generation l =
     (if lc_state l \<noteq> STATE_RUNNING
      then (l, Inl (RuntimeError ''gateway is not accepting new work''))
      else (case generation_retain (gen_at l (lc_current l)) of
        (g, Inl e) \<Rightarrow> (l, Inl e)
      | (g, Inr _) \<Rightarrow> (set_gen (lc_current l) g l, Inr (lc_current l))))"

text \<open>The phases of \<open>publish\<close>.\<close>

definition publish_begin :: "'c lifecycle \<Rightarrow> 'c lifecycle \<times> int result" where
  "publish_begin l =
     (if lc_state l \<noteq> STATE_RUNNING
      then (l, Inl (RuntimeError ''configuration publish requires running state''))
      else if lc_publishing l
      then (l, Inl (RuntimeError ''concurrent configuration publish rejected''))
      else (l\<lparr>lc_publishing := True, lc_next_generation_id := lc_next_generation_id l + 1\<rparr>,
            Inr (lc_next_generation_id l)))"

definition publish_abort :: "'c lifecycle \<Rightarrow> 'c lifecycle" where
  "publish_abort l = l\<lparr>lc_publishing := False\<rparr>"

text \<open>The new object's address is where the store grows.\<close>

definition publish_swap :: "nat \<Rightarrow> 'c lifecycle \<Rightarrow> 'c lifecycle \<times> nat option" where
  "publish_swap replacement l =
     (if lc_state l = STATE_RUNNING
      then (l\<lparr>lc_current := replacement,
              lc_retired_generations := lc_retired_generations l @ [lc_current l]\<rparr>,
            Some (lc_current l))
      else (l\<lparr>lc_publishing := False\<rparr>, None))"

definition collect_retired :: "'c lifecycle \<Rightarrow> 'c lifecycle \<times> nat" where
  "collect_retired l =
     (let kept = filter (\<lambda>a. \<not> gn_released (gen_at l a)) (lc_retired_generations l) in
      (l\<lparr>lc_retired_generations := kept\<rparr>, length (lc_retired_generations l) - length kept))"

definition retire_at ::
  "res_env \<Rightarrow> nat \<Rightarrow> 'c lifecycle \<Rightarrow> 'c lifecycle \<times> res_event list \<times> int result" where
  "retire_at env a l =
     (case generation_retire env (gen_at l a) of (g, log, r) \<Rightarrow> (set_gen a g l, log, r))"

definition release_at ::
  "res_env \<Rightarrow> nat \<Rightarrow> 'c lifecycle \<Rightarrow> 'c lifecycle \<times> res_event list \<times> int result" where
  "release_at env a l =
     (case generation_release env (gen_at l a) of (g, log, r) \<Rightarrow> (set_gen a g l, log, r))"

definition publish ::
  "res_env \<Rightarrow> 'c \<Rightarrow> nat list \<Rightarrow> 'c lifecycle \<Rightarrow> 'c lifecycle \<times> res_event list \<times> nat result" where
  "publish env config resources l =
     (case publish_begin l of
       (l1, Inl e) \<Rightarrow> (l1, [], Inl e)
     | (l1, Inr generation_id) \<Rightarrow>
       (case generation_new env generation_id config resources of
         (log, Inl e) \<Rightarrow> (publish_abort l1, log, Inl e)
       | (log, Inr g) \<Rightarrow>
           let replacement = length (lc_store l1); l2 = l1\<lparr>lc_store := lc_store l1 @ [g]\<rparr> in
           (case publish_swap replacement l2 of
             (l3, None) \<Rightarrow>
               (case retire_at env replacement l3 of
                 (l4, log2, Inl e) \<Rightarrow> (l4, log @ log2, Inl e)
               | (l4, log2, Inr _) \<Rightarrow>
                   (l4, log @ log2, Inl (RuntimeError ''configuration publish lost running state'')))
           | (l3, Some previous) \<Rightarrow>
               (case retire_at env previous l3 of
                 (l4, log2, r) \<Rightarrow>
                   let l5 = fst (collect_retired (publish_abort l4)) in
                   (l5, log @ log2, case r of Inl e \<Rightarrow> Inl e | Inr _ \<Rightarrow> Inr replacement)))))"

section \<open>Admission\<close>

definition bump_metric :: "string \<Rightarrow> int \<Rightarrow> 'c lifecycle \<Rightarrow> 'c lifecycle" where
  "bump_metric name amount l = l\<lparr>lc_metrics := bump name amount (lc_metrics l)\<rparr>"

definition admit_connection :: "'c lifecycle \<Rightarrow> 'c lifecycle \<times> bool" where
  "admit_connection l =
     (if lc_state l \<noteq> STATE_RUNNING then (bump_metric ''connections_rejected'' 1 l, False)
      else if lc_metrics l ''connections_active'' \<ge> al_max_connections (lc_limits l)
      then (bump_metric ''connections_rejected'' 1 l, False)
      else (bump_metric ''connections_active'' 1 (bump_metric ''connections_accepted'' 1 l), True))"

definition release_connection :: "'c lifecycle \<Rightarrow> 'c lifecycle \<times> unit result" where
  "release_connection l =
     (if lc_metrics l ''connections_active'' \<le> 0
      then (l, Inl (RuntimeError ''connection admission released more than once''))
      else (bump_metric ''connections_active'' (-1) l, Inr ()))"

definition admit_request :: "'c lifecycle \<Rightarrow> 'c lifecycle \<times> bool" where
  "admit_request l =
     (if lc_state l \<noteq> STATE_RUNNING then (bump_metric ''requests_rejected'' 1 l, False)
      else if lc_metrics l ''requests_active'' \<ge> al_max_requests (lc_limits l)
      then (bump_metric ''requests_rejected'' 1 l, False)
      else (bump_metric ''requests_active'' 1 (bump_metric ''requests_started'' 1 l), True))"

definition release_request :: "'c lifecycle \<Rightarrow> 'c lifecycle \<times> unit result" where
  "release_request l =
     (if lc_metrics l ''requests_active'' \<le> 0
      then (l, Inl (RuntimeError ''request admission released more than once''))
      else (bump_metric ''requests_active'' (-1) l, Inr ()))"

definition queue_request :: "'c lifecycle \<Rightarrow> 'c lifecycle \<times> bool" where
  "queue_request l =
     (if lc_queued_requests l \<ge> al_max_queued_requests (lc_limits l)
      then (bump_metric ''requests_rejected'' 1 l, False)
      else (bump_metric ''requests_queued'' 1
              (l\<lparr>lc_queued_requests := lc_queued_requests l + 1\<rparr>), True))"

definition release_queued_request :: "'c lifecycle \<Rightarrow> 'c lifecycle \<times> unit result" where
  "release_queued_request l =
     (if lc_queued_requests l \<le> 0
      then (l, Inl (RuntimeError ''queued request released more than once''))
      else (bump_metric ''requests_queued'' (-1)
              (l\<lparr>lc_queued_requests := lc_queued_requests l - 1\<rparr>), Inr ()))"

definition admit_upstream :: "'c lifecycle \<Rightarrow> 'c lifecycle \<times> bool" where
  "admit_upstream l =
     (if lc_metrics l ''upstream_active'' \<ge> al_max_upstream_active (lc_limits l) then (l, False)
      else (bump_metric ''upstream_active'' 1 l, True))"

definition release_upstream :: "'c lifecycle \<Rightarrow> 'c lifecycle \<times> unit result" where
  "release_upstream l =
     (if lc_metrics l ''upstream_active'' \<le> 0
      then (l, Inl (RuntimeError ''upstream admission released more than once''))
      else (bump_metric ''upstream_active'' (-1) l, Inr ()))"

definition reserve_buffered :: "int \<Rightarrow> 'c lifecycle \<Rightarrow> 'c lifecycle \<times> bool result" where
  "reserve_buffered amount l =
     (if amount < 0 then (l, Inl (ValueError ''buffer reservation cannot be negative''))
      else if lc_metrics l ''buffered_bytes'' + amount > al_max_buffered_bytes (lc_limits l)
      then (l, Inr False)
      else (bump_metric ''buffered_bytes'' amount l, Inr True))"

definition release_buffered :: "int \<Rightarrow> 'c lifecycle \<Rightarrow> 'c lifecycle \<times> unit result" where
  "release_buffered amount l =
     (if amount < 0 \<or> amount > lc_metrics l ''buffered_bytes''
      then (l, Inl (RuntimeError ''buffer reservation released out of range''))
      else (bump_metric ''buffered_bytes'' (- amount) l, Inr ()))"

section \<open>Drain and failure\<close>

definition begin_drain :: "'c lifecycle \<Rightarrow> 'c lifecycle \<times> unit result" where
  "begin_drain l =
     (if lc_state l \<noteq> STATE_STARTING \<and> lc_state l \<noteq> STATE_RUNNING
      then (l, Inl (RuntimeError ''gateway cannot enter drain from this state''))
      else (l\<lparr>lc_state := STATE_DRAINING\<rparr>, Inr ()))"

text \<open>Under the lock: \<open>None\<close> when work is still active, else the generation to retire.\<close>

definition finish_drain_locked :: "bool \<Rightarrow> 'c lifecycle \<Rightarrow> 'c lifecycle \<times> nat option result" where
  "finish_drain_locked force l =
     (if lc_state l \<noteq> STATE_DRAINING then (l, Inl (RuntimeError ''gateway is not draining''))
      else (case drain_active force (lc_metrics l) of (ms, active) \<Rightarrow>
        let l1 = l\<lparr>lc_metrics := ms\<rparr> in
        if active \<noteq> 0 \<and> \<not> force then (l1, Inr None)
        else (l1\<lparr>lc_state := STATE_STOPPED\<rparr>, Inr (Some (lc_current l)))))"

definition finish_drain ::
  "res_env \<Rightarrow> bool \<Rightarrow> 'c lifecycle \<Rightarrow> 'c lifecycle \<times> res_event list \<times> bool result" where
  "finish_drain env force l =
     (case finish_drain_locked force l of
       (l1, Inl e) \<Rightarrow> (l1, [], Inl e)
     | (l1, Inr None) \<Rightarrow> (l1, [], Inr False)
     | (l1, Inr (Some current)) \<Rightarrow>
         (case retire_at env current l1 of
           (l2, log, Inl e) \<Rightarrow> (l2, log, Inl e)
         | (l2, log, Inr _) \<Rightarrow> (l2, log, Inr True)))"

definition lc_fail :: "string \<Rightarrow> 'c lifecycle \<Rightarrow> 'c lifecycle" where
  "lc_fail reason l = l\<lparr>lc_failed_reason := reason, lc_state := STATE_FAILED\<rparr>"

end
