(* ===== verification/Admission.thy ===== *)
theory Admission
  imports Lifecycle
begin

text \<open>
  Admission control.  The contract of a bounded counter is a locale, interpreted five times on
  the lifecycle: connections, requests, queued requests, upstream exchanges and buffered bytes.
  The other result is the invariant over arbitrary sequences of lifecycle calls.
\<close>

section \<open>Bounded counters\<close>

datatype 'a admission_op = Grant 'a | Give 'a

text \<open>A run: the final state, the total granted and the total given back.\<close>

fun admission_run ::
  "('a \<Rightarrow> 's \<Rightarrow> 's \<times> bool) \<Rightarrow> ('a \<Rightarrow> 's \<Rightarrow> 's \<times> unit result) \<Rightarrow> ('a \<Rightarrow> int) \<Rightarrow> 'a admission_op list \<Rightarrow> 's
    \<Rightarrow> 's \<times> int \<times> int" where
  "admission_run grant give weight [] s = (s, 0, 0)"
| "admission_run grant give weight (Grant x # ops) s =
     (let r = grant x s; q = admission_run grant give weight ops (fst r) in
      (fst q, fst (snd q) + (if snd r then weight x else 0), snd (snd q)))"
| "admission_run grant give weight (Give x # ops) s =
     (let r = give x s; q = admission_run grant give weight ops (fst r) in
      (fst q, fst (snd q), snd (snd q) + (case snd r of Inl e \<Rightarrow> 0 | Inr _ \<Rightarrow> weight x)))"

locale admission =
  fixes used :: "'s \<Rightarrow> int" and cap :: "'s \<Rightarrow> int"
    and grant :: "'a \<Rightarrow> 's \<Rightarrow> 's \<times> bool" and give :: "'a \<Rightarrow> 's \<Rightarrow> 's \<times> unit result"
    and weight :: "'a \<Rightarrow> int"
  assumes granted: "grant x s = (s', True) \<Longrightarrow>
      used s' = used s + weight x \<and> used s' \<le> cap s \<and> 0 \<le> weight x \<and> cap s' = cap s"
    and refused: "grant x s = (s', False) \<Longrightarrow> used s' = used s \<and> cap s' = cap s"
    and given: "give x s = (s', Inr u) \<Longrightarrow>
      used s' = used s - weight x \<and> 0 \<le> used s' \<and> 0 \<le> weight x \<and> cap s' = cap s"
    and give_refused: "give x s = (s', Inl e) \<Longrightarrow> s' = s"
begin

lemma run_account:
  "admission_run grant give weight ops s = (s', g, r) \<Longrightarrow> 0 \<le> used s \<Longrightarrow> used s \<le> cap s \<Longrightarrow>
   0 \<le> used s' \<and> used s' \<le> cap s' \<and> cap s' = cap s \<and> used s' = used s + g - r"
proof (induction ops arbitrary: s g r)
  case (Cons op ops)
  show ?case
  proof (cases op)
    case (Grant x)
    obtain s1 b where t: "grant x s = (s1, b)" by fastforce
    obtain g1 where q: "admission_run grant give weight ops s1 = (s', g1, r)"
      "g = g1 + (if b then weight x else 0)"
      using Cons.prems(1) Grant t by (auto simp: Let_def prod_eq_iff)
    have "0 \<le> used s1" "used s1 \<le> cap s1" "cap s1 = cap s" "used s1 = used s + (if b then weight x else 0)"
      using t granted [of x s s1] refused [of x s s1] Cons.prems(2,3) by (cases b; auto)+
    with Cons.IH [OF q(1)] q(2) show ?thesis by auto
  next
    case (Give x)
    obtain s1 b where t: "give x s = (s1, b)" by fastforce
    obtain r1 where q: "admission_run grant give weight ops s1 = (s', g, r1)"
      "r = r1 + (case b of Inl e \<Rightarrow> 0 | Inr _ \<Rightarrow> weight x)"
      using Cons.prems(1) Give t by (auto simp: Let_def prod_eq_iff)
    have "0 \<le> used s1" "used s1 \<le> cap s1" "cap s1 = cap s"
      "used s1 = used s - (case b of Inl e \<Rightarrow> 0 | Inr _ \<Rightarrow> weight x)"
      using t given [of x s s1] give_refused [of x s s1] Cons.prems(2,3) by (cases b; auto)+
    with Cons.IH [OF q(1)] q(2) show ?thesis by auto
  qed
qed simp

end

section \<open>The counters of the lifecycle\<close>

lemma bump_known: "name \<in> set metric_names \<Longrightarrow> bump name n ms = ms(name := ms name + n)"
  by (simp add: bump_def metrics_add_def)

lemma metric_names_member [simp]:
  "''connections_accepted'' \<in> set metric_names" "''connections_active'' \<in> set metric_names"
  "''connections_rejected'' \<in> set metric_names" "''requests_started'' \<in> set metric_names"
  "''requests_active'' \<in> set metric_names" "''requests_queued'' \<in> set metric_names"
  "''requests_rejected'' \<in> set metric_names" "''buffered_bytes'' \<in> set metric_names"
  "''upstream_active'' \<in> set metric_names" "''drain_forced'' \<in> set metric_names"
  by (simp_all add: metric_names_def)

lemmas admission_defs = admit_connection_def release_connection_def admit_request_def
  release_request_def queue_request_def release_queued_request_def admit_upstream_def
  release_upstream_def reserve_buffered_def release_buffered_def bump_metric_def bump_known

definition conn_used :: "'c lifecycle \<Rightarrow> int" where
  "conn_used l = lc_metrics l ''connections_active''"

definition req_used :: "'c lifecycle \<Rightarrow> int" where
  "req_used l = lc_metrics l ''requests_active''"

definition ups_used :: "'c lifecycle \<Rightarrow> int" where
  "ups_used l = lc_metrics l ''upstream_active''"

definition buf_used :: "'c lifecycle \<Rightarrow> int" where
  "buf_used l = lc_metrics l ''buffered_bytes''"

interpretation conn: admission conn_used "\<lambda>l. al_max_connections (lc_limits l)"
  "\<lambda>u::unit. admit_connection" "\<lambda>u. release_connection" "\<lambda>u. 1"
  by unfold_locales (auto simp: conn_used_def admission_defs split: if_splits)

interpretation req: admission req_used "\<lambda>l. al_max_requests (lc_limits l)"
  "\<lambda>u::unit. admit_request" "\<lambda>u. release_request" "\<lambda>u. 1"
  by unfold_locales (auto simp: req_used_def admission_defs split: if_splits)

interpretation que: admission lc_queued_requests "\<lambda>l. al_max_queued_requests (lc_limits l)"
  "\<lambda>u::unit. queue_request" "\<lambda>u. release_queued_request" "\<lambda>u. 1"
  by unfold_locales (auto simp: admission_defs split: if_splits)

interpretation ups: admission ups_used "\<lambda>l. al_max_upstream_active (lc_limits l)"
  "\<lambda>u::unit. admit_upstream" "\<lambda>u. release_upstream" "\<lambda>u. 1"
  by unfold_locales (auto simp: ups_used_def admission_defs split: if_splits)

text \<open>A negative reservation raises and grants nothing.\<close>

definition reserve_granted :: "int \<Rightarrow> 'c lifecycle \<Rightarrow> 'c lifecycle \<times> bool" where
  "reserve_granted n l = (case reserve_buffered n l of (l', r) \<Rightarrow> (l', r = Inr True))"

interpretation buf: admission buf_used "\<lambda>l. al_max_buffered_bytes (lc_limits l)"
  reserve_granted release_buffered "\<lambda>n. n"
  by unfold_locales (auto simp: buf_used_def reserve_granted_def admission_defs split: if_splits)

section \<open>All calls\<close>

datatype 'c lc_op =
    OpStart | OpStarted | OpAcquire | OpPublish 'c "nat list" | OpReleaseGeneration nat | OpCollect
  | OpAdmitConnection | OpReleaseConnection | OpAdmitRequest | OpReleaseRequest
  | OpQueueRequest | OpReleaseQueued | OpAdmitUpstream | OpReleaseUpstream
  | OpReserve int | OpUnreserve int | OpBeginDrain | OpFinishDrain bool | OpFail string

fun apply_op :: "res_env \<Rightarrow> 'c lc_op \<Rightarrow> 'c lifecycle \<Rightarrow> 'c lifecycle" where
  "apply_op env OpStart l = fst (lc_start l)"
| "apply_op env OpStarted l = fst (lc_started l)"
| "apply_op env OpAcquire l = fst (acquire_generation l)"
| "apply_op env (OpPublish c rs) l = fst (publish env c rs l)"
| "apply_op env (OpReleaseGeneration a) l = fst (release_at env a l)"
| "apply_op env OpCollect l = fst (collect_retired l)"
| "apply_op env OpAdmitConnection l = fst (admit_connection l)"
| "apply_op env OpReleaseConnection l = fst (release_connection l)"
| "apply_op env OpAdmitRequest l = fst (admit_request l)"
| "apply_op env OpReleaseRequest l = fst (release_request l)"
| "apply_op env OpQueueRequest l = fst (queue_request l)"
| "apply_op env OpReleaseQueued l = fst (release_queued_request l)"
| "apply_op env OpAdmitUpstream l = fst (admit_upstream l)"
| "apply_op env OpReleaseUpstream l = fst (release_upstream l)"
| "apply_op env (OpReserve n) l = fst (reserve_buffered n l)"
| "apply_op env (OpUnreserve n) l = fst (release_buffered n l)"
| "apply_op env OpBeginDrain l = fst (begin_drain l)"
| "apply_op env (OpFinishDrain force) l = fst (finish_drain env force l)"
| "apply_op env (OpFail reason) l = lc_fail reason l"

definition limits_nonneg :: "admission_limits \<Rightarrow> bool" where
  "limits_nonneg a \<longleftrightarrow> 0 \<le> al_max_connections a \<and> 0 \<le> al_max_requests a \<and>
     0 \<le> al_max_queued_requests a \<and> 0 \<le> al_max_upstream_active a \<and> 0 \<le> al_max_buffered_bytes a"

definition counters_ok :: "'c lifecycle \<Rightarrow> bool" where
  "counters_ok l \<longleftrightarrow> limits_nonneg (lc_limits l) \<and>
     0 \<le> conn_used l \<and> conn_used l \<le> al_max_connections (lc_limits l) \<and>
     0 \<le> req_used l \<and> req_used l \<le> al_max_requests (lc_limits l) \<and>
     0 \<le> lc_queued_requests l \<and> lc_queued_requests l \<le> al_max_queued_requests (lc_limits l) \<and>
     0 \<le> ups_used l \<and> ups_used l \<le> al_max_upstream_active (lc_limits l) \<and>
     0 \<le> buf_used l \<and> buf_used l \<le> al_max_buffered_bytes (lc_limits l) \<and>
     lc_metrics l ''requests_queued'' = lc_queued_requests l"

text \<open>The calls that touch no counter.\<close>

lemma counters_kept:
  "lc_metrics l' = lc_metrics l \<Longrightarrow> lc_limits l' = lc_limits l \<Longrightarrow>
   lc_queued_requests l' = lc_queued_requests l \<Longrightarrow> counters_ok l' = counters_ok l"
  by (simp add: counters_ok_def conn_used_def req_used_def ups_used_def buf_used_def)

lemma retire_at_counters [simp]:
  "lc_metrics (fst (retire_at env a l)) = lc_metrics l"
  "lc_limits (fst (retire_at env a l)) = lc_limits l"
  "lc_queued_requests (fst (retire_at env a l)) = lc_queued_requests l"
  "lc_state (fst (retire_at env a l)) = lc_state l"
  by (auto simp: retire_at_def set_gen_def split: prod.splits)

lemma release_at_counters [simp]:
  "lc_metrics (fst (release_at env a l)) = lc_metrics l"
  "lc_limits (fst (release_at env a l)) = lc_limits l"
  "lc_queued_requests (fst (release_at env a l)) = lc_queued_requests l"
  "lc_state (fst (release_at env a l)) = lc_state l"
  by (auto simp: release_at_def set_gen_def split: prod.splits)

lemma publish_counters [simp]:
  "lc_metrics (fst (publish env c rs l)) = lc_metrics l"
  "lc_limits (fst (publish env c rs l)) = lc_limits l"
  "lc_queued_requests (fst (publish env c rs l)) = lc_queued_requests l"
  "lc_state (fst (publish env c rs l)) = lc_state l"
proof -
  have r: "retire_at env a x = (x', log, r) \<Longrightarrow> lc_metrics x' = lc_metrics x \<and>
      lc_limits x' = lc_limits x \<and> lc_queued_requests x' = lc_queued_requests x \<and>
      lc_state x' = lc_state x" for a x x' log r
    using retire_at_counters [of env a x] by simp
  show "lc_metrics (fst (publish env c rs l)) = lc_metrics l"
    "lc_limits (fst (publish env c rs l)) = lc_limits l"
    "lc_queued_requests (fst (publish env c rs l)) = lc_queued_requests l"
    "lc_state (fst (publish env c rs l)) = lc_state l"
    by (auto simp: publish_def publish_begin_def publish_abort_def publish_swap_def
        collect_retired_def Let_def dest!: r split: prod.splits sum.splits option.splits if_splits)
qed

lemma finish_drain_ok:
  "counters_ok l \<Longrightarrow> counters_ok (fst (finish_drain env force l))"
proof -
  assume ok: "counters_ok l"
  have 1: "counters_ok (fst (finish_drain_locked force l))"
    using ok
    by (auto simp: finish_drain_locked_def drain_active_def Let_def counters_ok_def conn_used_def
        req_used_def ups_used_def buf_used_def limits_nonneg_def)
  have "fst (finish_drain env force l) = fst (finish_drain_locked force l) \<or>
    (\<exists>a. fst (finish_drain env force l) = fst (retire_at env a (fst (finish_drain_locked force l))))"
    by (auto simp: finish_drain_def split: prod.splits sum.splits option.splits; metis fst_conv)
  with 1 show ?thesis
    using counters_kept [of "fst (retire_at env _ (fst (finish_drain_locked force l)))"
        "fst (finish_drain_locked force l)"] by auto
qed

lemma apply_op_ok: "counters_ok l \<Longrightarrow> counters_ok (apply_op env op l)"
proof (cases op)
  case (OpFinishDrain f)
  assume "counters_ok l"
  with OpFinishDrain show ?thesis using finish_drain_ok by simp
next
  case (OpPublish c rs)
  assume "counters_ok l"
  with OpPublish show ?thesis using counters_kept [of "fst (publish env c rs l)" l] by simp
next
  case (OpReleaseGeneration a)
  assume "counters_ok l"
  with OpReleaseGeneration show ?thesis using counters_kept [of "fst (release_at env a l)" l] by simp
next
  case OpAcquire
  assume "counters_ok l"
  moreover have "counters_ok (fst (acquire_generation l)) = counters_ok l"
    by (rule counters_kept)
      (auto simp: acquire_generation_def set_gen_def split: prod.splits sum.splits)
  ultimately show ?thesis using OpAcquire by simp
qed (auto simp: counters_ok_def conn_used_def req_used_def ups_used_def buf_used_def admission_defs
    lc_start_def lc_started_def collect_retired_def begin_drain_def lc_fail_def Let_def)

lemma run_ops_ok: "counters_ok l \<Longrightarrow> counters_ok (fold (apply_op env) ops l)"
  by (induction ops arbitrary: l) (simp_all add: apply_op_ok)

lemma lifecycle_new_ok:
  "admission_limits_new a b c d e = Inr limits \<Longrightarrow> counters_ok (lifecycle_new cfg limits)"
  by (auto simp: admission_limits_new_def counters_ok_def lifecycle_new_def metrics_new_def
      limits_nonneg_def conn_used_def req_used_def ups_used_def buf_used_def split: if_splits)

section \<open>The state machine\<close>

inductive lc_edge :: "lc_state \<Rightarrow> lc_state \<Rightarrow> bool" where
  stay: "lc_edge s s"
| start: "lc_edge STATE_NEW STATE_STARTING"
| started: "lc_edge STATE_STARTING STATE_RUNNING"
| drain_early: "lc_edge STATE_STARTING STATE_DRAINING"
| drain: "lc_edge STATE_RUNNING STATE_DRAINING"
| stop: "lc_edge STATE_DRAINING STATE_STOPPED"
| fail: "lc_edge s STATE_FAILED"

lemma finish_drain_state:
  "lc_edge (lc_state l) (lc_state (fst (finish_drain env force l)))"
proof -
  have 1: "lc_edge (lc_state l) (lc_state (fst (finish_drain_locked force l)))"
    by (auto simp: finish_drain_locked_def drain_active_def Let_def intro: lc_edge.intros)
  have "lc_state (fst (finish_drain env force l)) = lc_state (fst (finish_drain_locked force l))"
    using retire_at_counters(4) [of env _ "fst (finish_drain_locked force l)"]
    by (auto simp: finish_drain_def split: prod.splits sum.splits option.splits; metis fst_conv)
  with 1 show ?thesis by simp
qed

lemma apply_op_edge: "lc_edge (lc_state l) (lc_state (apply_op env op l))"
proof (cases op)
  case (OpFinishDrain f)
  then show ?thesis using finish_drain_state by simp
next
  case OpAcquire
  then show ?thesis
    by (auto simp: acquire_generation_def set_gen_def intro: lc_edge.intros split: prod.splits sum.splits)
qed (auto simp: admission_defs lc_start_def lc_started_def collect_retired_def begin_drain_def
    lc_fail_def Let_def intro: lc_edge.intros)

definition ended :: "lc_state \<Rightarrow> bool" where
  "ended s \<longleftrightarrow> s = STATE_DRAINING \<or> s = STATE_STOPPED \<or> s = STATE_FAILED"

lemma lc_edge_ended: "lc_edge s s' \<Longrightarrow> ended s \<Longrightarrow> ended s'"
  by (induction rule: lc_edge.induct) (auto simp: ended_def)

lemma run_ops_ended: "ended (lc_state l) \<Longrightarrow> ended (lc_state (fold (apply_op env) ops l))"
  by (induction ops arbitrary: l) (use apply_op_edge lc_edge_ended in fastforce)+

section \<open>Properties\<close>

text \<open>C17 Admission limits hold at all times: after any sequence of lifecycle calls, in any order and
  with any outcome, every gauge is between zero and its configured limit, and the queue gauge
  equals the number of queued requests.\<close>

theorem admission_limits_hold:
  assumes "admission_limits_new mc mr mq mu mb = Inr limits"
    and "l = fold (apply_op env) ops (lifecycle_new cfg limits)"
  shows "0 \<le> lc_metrics l ''connections_active'' \<and> lc_metrics l ''connections_active'' \<le> al_max_connections (lc_limits l) \<and>
    0 \<le> lc_metrics l ''requests_active'' \<and> lc_metrics l ''requests_active'' \<le> al_max_requests (lc_limits l) \<and>
    0 \<le> lc_queued_requests l \<and> lc_queued_requests l \<le> al_max_queued_requests (lc_limits l) \<and>
    lc_metrics l ''requests_queued'' = lc_queued_requests l \<and>
    0 \<le> lc_metrics l ''upstream_active'' \<and> lc_metrics l ''upstream_active'' \<le> al_max_upstream_active (lc_limits l) \<and>
    0 \<le> lc_metrics l ''buffered_bytes'' \<and> lc_metrics l ''buffered_bytes'' \<le> al_max_buffered_bytes (lc_limits l)"
  using run_ops_ok [OF lifecycle_new_ok [OF assms(1)], of env ops cfg] assms(2)
  by (simp add: counters_ok_def conn_used_def req_used_def ups_used_def buf_used_def)

definition quiet_env :: res_env where
  "quiet_env = \<lparr>env_retain = (\<lambda>_. None), env_release = (\<lambda>_. None)\<rparr>"

definition sample_limits :: admission_limits where
  "sample_limits = \<lparr>al_max_connections = 1, al_max_requests = 2, al_max_queued_requests = 3,
     al_max_upstream_active = 4, al_max_buffered_bytes = 5\<rparr>"

lemma sample_limits_new: "admission_limits_new 1 2 3 4 5 = Inr sample_limits"
  by (simp add: admission_limits_new_def sample_limits_def)

definition sample_ops :: "nat lc_op list" where
  "sample_ops = [OpStart, OpStarted, OpAdmitConnection, OpAdmitConnection, OpReserve 4, OpReserve 2]"

theorem admission_limits_hold_witness:
  "lc_metrics (fold (apply_op quiet_env) sample_ops (lifecycle_new 0 sample_limits)) ''connections_active'' = 1 \<and>
   lc_metrics (fold (apply_op quiet_env) sample_ops (lifecycle_new 0 sample_limits)) ''buffered_bytes'' \<le>
     al_max_buffered_bytes (lc_limits (fold (apply_op quiet_env) sample_ops (lifecycle_new 0 sample_limits)))"
proof
  show "lc_metrics (fold (apply_op quiet_env) sample_ops (lifecycle_new 0 sample_limits)) ''connections_active'' = 1"
    by (simp add: sample_ops_def lifecycle_new_def lc_start_def lc_started_def admission_defs
        metrics_new_def sample_limits_def)
  show "lc_metrics (fold (apply_op quiet_env) sample_ops (lifecycle_new 0 sample_limits)) ''buffered_bytes'' \<le>
     al_max_buffered_bytes (lc_limits (fold (apply_op quiet_env) sample_ops (lifecycle_new 0 sample_limits)))"
    using admission_limits_hold [OF sample_limits_new refl, of quiet_env sample_ops 0] by blast
qed

text \<open>Buffered bytes are accounted exactly: over any sequence of reservations and releases,
  granted or refused, the gauge is the granted total minus the released total and stays within
  its limit.\<close>

theorem buffered_bytes_accounted:
  assumes "admission_run reserve_granted release_buffered (\<lambda>n. n) ops l = (l', reserved, released)"
    and "0 \<le> lc_metrics l ''buffered_bytes''"
    and "lc_metrics l ''buffered_bytes'' \<le> al_max_buffered_bytes (lc_limits l)"
  shows "lc_metrics l' ''buffered_bytes'' = lc_metrics l ''buffered_bytes'' + reserved - released \<and>
    0 \<le> lc_metrics l' ''buffered_bytes'' \<and>
    lc_metrics l' ''buffered_bytes'' \<le> al_max_buffered_bytes (lc_limits l')"
  using buf.run_account [OF assms(1)] assms(2,3) by (simp add: buf_used_def)

theorem buffered_bytes_accounted_witness:
  "\<exists>l'. admission_run reserve_granted release_buffered (\<lambda>n. n) [Grant 4, Grant 2, Give 3]
      (lifecycle_new (0::nat) sample_limits) = (l', 4, 3) \<and> lc_metrics l' ''buffered_bytes'' = 1"
proof -
  let ?l = "lifecycle_new (0::nat) sample_limits"
  let ?r = "admission_run reserve_granted release_buffered (\<lambda>n. n) [Grant 4, Grant 2, Give 3] ?l"
  have "snd ?r = (4, 3)"
    by (simp add: reserve_granted_def admission_defs lifecycle_new_def metrics_new_def sample_limits_def)
  then have r: "?r = (fst ?r, 4, 3)" by (metis prod.collapse)
  from buffered_bytes_accounted [OF r] r show ?thesis
    by (intro exI [of _ "fst ?r"]) (simp add: lifecycle_new_def metrics_new_def sample_limits_def)
qed

text \<open>Draining is final: once a drain or a failure has begun, whatever calls follow, no
  connection, request, generation or configuration is admitted any more.\<close>

theorem drain_is_final:
  assumes "lc_state l \<in> {STATE_DRAINING, STATE_STOPPED, STATE_FAILED}"
    and "l' = fold (apply_op env) ops l"
  shows "lc_state l' \<in> {STATE_DRAINING, STATE_STOPPED, STATE_FAILED} \<and>
    \<not> snd (admit_connection l') \<and> \<not> snd (admit_request l') \<and>
    (\<exists>e. snd (acquire_generation l') = Inl e) \<and> (\<exists>e. snd (publish_begin l') = Inl e) \<and>
    (\<exists>e. snd (lc_start l') = Inl e) \<and> (\<exists>e. snd (lc_started l') = Inl e)"
proof -
  have "ended (lc_state l')" using run_ops_ended [of l env ops] assms by (auto simp: ended_def)
  then show ?thesis
    by (auto simp: ended_def admit_connection_def admit_request_def acquire_generation_def
        publish_begin_def lc_start_def lc_started_def)
qed

theorem drain_is_final_witness:
  "\<not> snd (admit_connection (fold (apply_op quiet_env) [OpStarted, OpStart, OpFinishDrain True]
     ((lifecycle_new (0::nat) sample_limits)\<lparr>lc_state := STATE_DRAINING\<rparr>)))"
proof -
  have "lc_state ((lifecycle_new (0::nat) sample_limits)\<lparr>lc_state := STATE_DRAINING\<rparr>) \<in>
      {STATE_DRAINING, STATE_STOPPED, STATE_FAILED}" by simp
  from drain_is_final [OF this refl, of quiet_env "[OpStarted, OpStart, OpFinishDrain True]"]
  show ?thesis by blast
qed

end
