(* ===== verification/Generations.thy ===== *)
theory Generations
  imports Admission
begin

text \<open>
  Configuration generations under concurrency: workers acquire and release generations while one
  publisher replaces the current one and a drain retires it.  Each step is one critical section or
  one callback phase of \<open>lifecycle.py\<close>.  The invariant counts references; the resource log is
  balanced against what the live generations hold.
\<close>

section \<open>Resource accounting\<close>

definition balance :: "res_event list \<Rightarrow> nat \<Rightarrow> int" where
  "balance log r = int (count_list log (Retain r)) - int (count_list log (Release r))"

definition held_by :: "'c generation \<Rightarrow> nat \<Rightarrow> int" where
  "held_by g r = int (count_list (gn_resources g) r)"

definition outstanding :: "'c generation list \<Rightarrow> nat \<Rightarrow> int" where
  "outstanding gs r = sum_list (map (\<lambda>g. held_by g r) gs)"

lemma balance_simps [simp]:
  "balance [] r = 0" "balance (xs @ ys) r = balance xs r + balance ys r"
  "balance (Retain q # xs) r = (if q = r then 1 else 0) + balance xs r"
  "balance (Release q # xs) r = balance xs r - (if q = r then 1 else 0)"
  by (simp_all add: balance_def count_list_append)

lemma retain_all_balance:
  "retain_all env rs = (got, log, e) \<Longrightarrow> balance log r = int (count_list got r) \<and> (e = None \<longrightarrow> got = rs)"
proof (induction rs arbitrary: got log)
  case (Cons q rs)
  show ?case
  proof (cases "env_retain env q")
    case None
    with Cons show ?thesis by (auto split: prod.splits)
  next
    case (Some e')
    with Cons.prems show ?thesis by (cases e) auto
  qed
qed simp

lemma release_all_balance: "release_all env rs = (log, e) \<Longrightarrow> balance log r = - int (count_list rs r)"
proof (induction rs arbitrary: log e)
  case (Cons q rs)
  then show ?case by (auto split: prod.splits)
qed simp

lemma generation_new_balance:
  assumes "generation_new env i c rs = (log, res)"
  shows "balance log r = (case res of Inl e \<Rightarrow> 0 | Inr g \<Rightarrow> held_by g r)"
proof -
  obtain got log1 e1 where a: "retain_all env rs = (got, log1, e1)" by (cases "retain_all env rs")
  obtain log2 e2 where b: "release_all env got = (log2, e2)" by (cases "release_all env got")
  show ?thesis
    using assms a b retain_all_balance [OF a, of r] release_all_balance [OF b, of r]
    by (auto simp: generation_new_def held_by_def split: option.splits)
qed

lemma drop_reference_resources:
  "drop_reference g = (g', rs) \<Longrightarrow>
   (rs = None \<and> gn_resources g' = gn_resources g \<and> gn_references g \<noteq> 1 \<and> gn_released g' = gn_released g \<or>
    rs = Some (gn_resources g) \<and> gn_resources g' = [] \<and> gn_references g = 1 \<and> gn_released g') \<and>
   gn_references g' = gn_references g - 1 \<and> gn_retired g' = gn_retired g"
  by (auto simp: drop_reference_def Let_def split: if_splits)

lemma release_resources_balance:
  "release_resources env o' = (log, res) \<Longrightarrow>
   balance log r = (case o' of None \<Rightarrow> 0 | Some rs \<Rightarrow> - int (count_list rs r))"
  by (auto simp: release_resources_def dest: release_all_balance split: option.splits prod.splits)

text \<open>Dropping a live reference cannot fail but for a resource callback.\<close>

definition callback_failed :: "int result \<Rightarrow> bool" where
  "callback_failed r \<longleftrightarrow> r = Inl (RuntimeError ''gateway generation resource release failed'')"

lemma generation_release_ok:
  assumes "generation_release env g = (g', log, res)" "\<not> gn_released g" "0 < gn_references g"
  shows "gn_references g' = gn_references g - 1" "gn_retired g' = gn_retired g"
    "gn_released g' \<longleftrightarrow> gn_references g' = 0" "(\<exists>n. res = Inr n) \<or> callback_failed res"
    "balance log r = held_by g' r - held_by g r"
    "gn_references g' \<noteq> 0 \<Longrightarrow> gn_resources g' = gn_resources g"
proof -
  obtain g1 rs where d: "drop_reference g = (g1, rs)" by (cases "drop_reference g")
  obtain log1 res1 where r: "release_resources env rs = (log1, res1)" by (cases "release_resources env rs")
  have e: "g' = g1" "log = log1" "res = res1"
    using assms d r by (auto simp: generation_release_def release_locked_def)
  note f = drop_reference_resources [OF d]
  show "gn_references g' = gn_references g - 1" "gn_retired g' = gn_retired g"
    "gn_released g' \<longleftrightarrow> gn_references g' = 0"
    "gn_references g' \<noteq> 0 \<Longrightarrow> gn_resources g' = gn_resources g"
    using e f assms(2,3) by auto
  show "balance log r = held_by g' r - held_by g r"
    using e f release_resources_balance [OF r, of r] by (auto simp: held_by_def)
  show "(\<exists>n. res = Inr n) \<or> callback_failed res"
    using e r by (auto simp: release_resources_def callback_failed_def split: option.splits prod.splits)
qed

lemma generation_retire_ok:
  assumes "generation_retire env g = (g', log, res)" "\<not> gn_retired g" "\<not> gn_released g" "0 < gn_references g"
  shows "gn_references g' = gn_references g - 1" "gn_retired g'"
    "gn_released g' \<longleftrightarrow> gn_references g' = 0" "(\<exists>n. res = Inr n) \<or> callback_failed res"
    "balance log r = held_by g' r - held_by g r"
    "gn_references g' \<noteq> 0 \<Longrightarrow> gn_resources g' = gn_resources g"
proof -
  let ?g = "g\<lparr>gn_retired := True\<rparr>"
  have rel: "generation_release env ?g = (g', log, res)"
    using assms by (auto simp: generation_release_def release_locked_def generation_retire_def retire_locked_def)
  show "gn_references g' = gn_references g - 1" "gn_retired g'"
    "gn_released g' \<longleftrightarrow> gn_references g' = 0" "(\<exists>n. res = Inr n) \<or> callback_failed res"
    "balance log r = held_by g' r - held_by g r"
    "gn_references g' \<noteq> 0 \<Longrightarrow> gn_resources g' = gn_resources g"
    using generation_release_ok(1-4,6) [OF rel] generation_release_ok(5) [OF rel, of r] assms(3,4)
    by (auto simp: held_by_def)
qed

section \<open>Workers, publisher and drain\<close>

datatype 'c pub_pc =
    PubIdle
  | PubBuild int 'c "nat list"
  | PubSwap nat        \<comment> \<open>the unpublished replacement\<close>
  | PubRetire nat      \<comment> \<open>the replaced generation\<close>
  | PubDiscard nat     \<comment> \<open>a replacement that lost the running state\<close>
  | PubEnd

datatype drain_pc = DrIdle | DrRetire nat | DrDone

record 'c world =
  w_life :: "'c lifecycle"
  w_holds :: "nat list"      \<comment> \<open>the references held by workers\<close>
  w_pub :: "'c pub_pc"
  w_drain :: drain_pc
  w_log :: "res_event list"

text \<open>Calls that touch no generation.\<close>

fun neutral :: "'c lc_op \<Rightarrow> bool" where
  "neutral OpAcquire = False"
| "neutral (OpPublish c rs) = False"
| "neutral (OpReleaseGeneration a) = False"
| "neutral (OpFinishDrain f) = False"
| "neutral op = True"

inductive gen_step :: "res_env \<Rightarrow> 'c world \<Rightarrow> 'c world \<Rightarrow> bool" for env where
  other: "neutral op \<Longrightarrow> gen_step env w (w\<lparr>w_life := apply_op env op (w_life w)\<rparr>)"
| acquire:
    "acquire_generation (w_life w) = (l, Inr a) \<Longrightarrow>
     gen_step env w (w\<lparr>w_life := l, w_holds := a # w_holds w\<rparr>)"
| release:
    "a \<in> set (w_holds w) \<Longrightarrow> release_at env a (w_life w) = (l, log, r) \<Longrightarrow>
     gen_step env w (w\<lparr>w_life := l, w_holds := remove1 a (w_holds w), w_log := w_log w @ log\<rparr>)"
| publish_begin:
    "publish_begin (w_life w) = (l, Inr i) \<Longrightarrow>
     gen_step env w (w\<lparr>w_life := l, w_pub := PubBuild i c rs\<rparr>)"
| publish_build_fails:
    "w_pub w = PubBuild i c rs \<Longrightarrow> generation_new env i c rs = (log, Inl e) \<Longrightarrow>
     gen_step env w (w\<lparr>w_life := publish_abort (w_life w), w_pub := PubIdle, w_log := w_log w @ log\<rparr>)"
| publish_build:
    "w_pub w = PubBuild i c rs \<Longrightarrow> generation_new env i c rs = (log, Inr g) \<Longrightarrow>
     gen_step env w (w\<lparr>w_life := (w_life w)\<lparr>lc_store := lc_store (w_life w) @ [g]\<rparr>,
       w_pub := PubSwap (length (lc_store (w_life w))), w_log := w_log w @ log\<rparr>)"
| publish_swap:
    "w_pub w = PubSwap a \<Longrightarrow> publish_swap a (w_life w) = (l, Some p) \<Longrightarrow>
     gen_step env w (w\<lparr>w_life := l, w_pub := PubRetire p\<rparr>)"
| publish_lost:
    "w_pub w = PubSwap a \<Longrightarrow> publish_swap a (w_life w) = (l, None) \<Longrightarrow>
     gen_step env w (w\<lparr>w_life := l, w_pub := PubDiscard a\<rparr>)"
| publish_retire:
    "w_pub w = PubRetire p \<Longrightarrow> retire_at env p (w_life w) = (l, log, r) \<Longrightarrow>
     gen_step env w (w\<lparr>w_life := l, w_pub := PubEnd, w_log := w_log w @ log\<rparr>)"
| publish_discard:
    "w_pub w = PubDiscard a \<Longrightarrow> retire_at env a (w_life w) = (l, log, r) \<Longrightarrow>
     gen_step env w (w\<lparr>w_life := l, w_pub := PubIdle, w_log := w_log w @ log\<rparr>)"
| publish_end:
    "w_pub w = PubEnd \<Longrightarrow>
     gen_step env w (w\<lparr>w_life := fst (collect_retired (publish_abort (w_life w))), w_pub := PubIdle\<rparr>)"
| drain_waits:
    "finish_drain_locked force (w_life w) = (l, Inr None) \<Longrightarrow> gen_step env w (w\<lparr>w_life := l\<rparr>)"
| drain_stops:
    "finish_drain_locked force (w_life w) = (l, Inr (Some a)) \<Longrightarrow>
     gen_step env w (w\<lparr>w_life := l, w_drain := DrRetire a\<rparr>)"
| drain_retires:
    "w_drain w = DrRetire a \<Longrightarrow> retire_at env a (w_life w) = (l, log, r) \<Longrightarrow>
     gen_step env w (w\<lparr>w_life := l, w_drain := DrDone, w_log := w_log w @ log\<rparr>)"

definition world_new :: "'c \<Rightarrow> admission_limits \<Rightarrow> 'c world" where
  "world_new config limits =
     \<lparr>w_life = lifecycle_new config limits, w_holds = [], w_pub = PubIdle, w_drain = DrIdle, w_log = []\<rparr>"

section \<open>Invariant\<close>

text \<open>Who still owes a generation its owner's reference.\<close>

definition pub_owned :: "'c pub_pc \<Rightarrow> nat list" where
  "pub_owned p = (case p of PubSwap a \<Rightarrow> [a] | PubRetire a \<Rightarrow> [a] | PubDiscard a \<Rightarrow> [a] | _ \<Rightarrow> [])"

fun drain_owned :: "drain_pc \<Rightarrow> nat \<Rightarrow> nat list" where
  "drain_owned DrIdle current = [current]"
| "drain_owned (DrRetire a) current = [a]"
| "drain_owned DrDone current = []"

definition owners :: "'c world \<Rightarrow> nat list" where
  "owners w = pub_owned (w_pub w) @ drain_owned (w_drain w) (lc_current (w_life w))"

definition gen_ok :: "'c world \<Rightarrow> nat \<Rightarrow> bool" where
  "gen_ok w a \<longleftrightarrow> (let g = gen_at (w_life w) a in
     gn_references g = int (count_list (w_holds w) a) + (if a \<in> set (owners w) then 1 else 0) \<and>
     (gn_retired g \<longleftrightarrow> a \<notin> set (owners w)) \<and> (gn_released g \<longleftrightarrow> gn_references g = 0))"

definition world_ok :: "'c world \<Rightarrow> bool" where
  "world_ok w \<longleftrightarrow> distinct (owners w) \<and>
     (\<forall>a \<in> set (owners w) \<union> set (w_holds w). a < length (lc_store (w_life w))) \<and>
     (\<forall>a < length (lc_store (w_life w)). gen_ok w a) \<and>
     (w_pub w \<noteq> PubIdle \<longrightarrow>
        lc_state (w_life w) = STATE_RUNNING \<and> lc_publishing (w_life w) \<or> ended (lc_state (w_life w))) \<and>
     (w_drain w = DrIdle \<longrightarrow> lc_state (w_life w) \<noteq> STATE_STOPPED) \<and>
     (w_drain w \<noteq> DrIdle \<longrightarrow> lc_state (w_life w) = STATE_STOPPED \<or> lc_state (w_life w) = STATE_FAILED) \<and>
     (\<forall>r. balance (w_log w) r = outstanding (lc_store (w_life w)) r)"

lemma world_new_ok: "world_ok (world_new c limits)"
  by (simp add: world_ok_def world_new_def owners_def pub_owned_def lifecycle_new_def gen_ok_def
      outstanding_def held_by_def Let_def)

lemma outstanding_update:
  "a < length gs \<Longrightarrow> outstanding (gs[a := g]) r = outstanding gs r - held_by (gs ! a) r + held_by g r"
proof (induction gs arbitrary: a)
  case (Cons x gs)
  then show ?case by (cases a) (simp_all add: outstanding_def)
qed simp

lemma outstanding_append [simp]: "outstanding (gs @ [g]) r = outstanding gs r + held_by g r"
  by (simp add: outstanding_def)

lemma neutral_store:
  assumes "neutral op"
  shows "lc_store (apply_op env op l) = lc_store l" "lc_current (apply_op env op l) = lc_current l"
  using assms
  by (cases op; auto simp: lc_start_def lc_started_def admission_defs collect_retired_def
      begin_drain_def lc_fail_def Let_def)+

lemma neutral_publishing:
  "neutral op \<Longrightarrow> lc_publishing (apply_op env op l) = lc_publishing l"
  by (cases op) (auto simp: lc_start_def lc_started_def admission_defs collect_retired_def
      begin_drain_def lc_fail_def Let_def)

lemma neutral_not_stopped:
  assumes "neutral op" "lc_state l \<noteq> STATE_STOPPED"
  shows "lc_state (apply_op env op l) \<noteq> STATE_STOPPED"
  using assms
  by (cases op) (auto simp: lc_start_def lc_started_def admission_defs collect_retired_def
      begin_drain_def lc_fail_def Let_def)

lemma gen_ok_cong:
  "lc_store (w_life w') = lc_store (w_life w) \<Longrightarrow> w_holds w' = w_holds w \<Longrightarrow>
   set (owners w') = set (owners w) \<Longrightarrow> gen_ok w' a = gen_ok w a"
  by (simp add: gen_ok_def)

text \<open>A step that changes no generation, no hold and no owner.\<close>

lemma world_ok_cong:
  assumes "world_ok w" "lc_store (w_life w') = lc_store (w_life w)" "w_holds w' = w_holds w"
    and "owners w' = owners w" "w_log w' = w_log w"
    and "w_pub w' \<noteq> PubIdle \<longrightarrow>
      lc_state (w_life w') = STATE_RUNNING \<and> lc_publishing (w_life w') \<or> ended (lc_state (w_life w'))"
    and "w_drain w' = DrIdle \<longrightarrow> lc_state (w_life w') \<noteq> STATE_STOPPED"
    and "w_drain w' \<noteq> DrIdle \<longrightarrow>
      lc_state (w_life w') = STATE_STOPPED \<or> lc_state (w_life w') = STATE_FAILED"
  shows "world_ok w'"
  using assms gen_ok_cong [of w' w] by (simp add: world_ok_def)

text \<open>The generation of a holder or an owner is live.\<close>

lemma world_ok_live:
  assumes "world_ok w" "a \<in> set (owners w) \<or> a \<in> set (w_holds w)"
  shows "a < length (lc_store (w_life w))" "\<not> gn_released (gen_at (w_life w) a)"
    "0 < gn_references (gen_at (w_life w) a)"
proof -
  show a: "a < length (lc_store (w_life w))" using assms by (auto simp: world_ok_def)
  have "0 < int (count_list (w_holds w) a) + (if a \<in> set (owners w) then 1 else 0)"
    using assms(2) count_list_0_iff [of "w_holds w" a] by auto
  then show "\<not> gn_released (gen_at (w_life w) a)" "0 < gn_references (gen_at (w_life w) a)"
    using assms(1) a by (auto simp: world_ok_def gen_ok_def Let_def)
qed

text \<open>An owner retires its generation.\<close>

lemma retire_step:
  assumes ok: "world_ok w" and a: "a \<in> set (owners w)"
    and ret: "retire_at env a (w_life w) = (l, log, r)"
    and w': "w_life w' = l" "w_holds w' = w_holds w" "w_log w' = w_log w @ log"
    and ow: "distinct (owners w')" "set (owners w') = set (owners w) - {a}"
    and dr: "w_drain w' = DrIdle \<longleftrightarrow> w_drain w = DrIdle" "w_pub w' \<noteq> PubIdle \<longrightarrow> w_pub w \<noteq> PubIdle"
  shows "world_ok w'" "(\<exists>n. r = Inr n) \<or> callback_failed r"
proof -
  note live = world_ok_live [OF ok, of a, simplified a, simplified]
  have nr: "\<not> gn_retired (gen_at (w_life w) a)"
    using ok a live(1) by (auto simp: world_ok_def gen_ok_def Let_def)
  obtain g where g: "generation_retire env (gen_at (w_life w) a) = (g, log, r)" "l = set_gen a g (w_life w)"
    using ret by (auto simp: retire_at_def split: prod.splits)
  note f = generation_retire_ok(1-4) [OF g(1) nr live(2,3)]
    and bal = generation_retire_ok(5) [OF g(1) nr live(2,3)]
  have st: "lc_state l = lc_state (w_life w)" "lc_store l = (lc_store (w_life w))[a := g]"
    "lc_publishing l = lc_publishing (w_life w)"
    using g(2) by (simp_all add: set_gen_def)
  have "gen_ok w' b" if b: "b < length (lc_store l)" for b
    using ok b f a live(1) ow(2) by (cases "b = a") (auto simp: gen_ok_def world_ok_def w' st Let_def)
  moreover have "balance (w_log w') q = outstanding (lc_store l) q" for q
    using ok bal [of q] live(1) by (simp add: w' st world_ok_def outstanding_update)
  ultimately show "world_ok w'"
    using ok ow dr st by (auto simp: world_ok_def w')
  show "(\<exists>n. r = Inr n) \<or> callback_failed r" using f(4) .
qed

lemma count_list_remove1: "count_list (remove1 a xs) b = count_list xs b - (if a = b \<and> a \<in> set xs then 1 else 0)"
  by (induction xs) (auto simp: count_list_0_iff)

lemma release_step:
  assumes ok: "world_ok w" and a: "a \<in> set (w_holds w)"
    and rel: "release_at env a (w_life w) = (l, log, r)"
  shows "world_ok (w\<lparr>w_life := l, w_holds := remove1 a (w_holds w), w_log := w_log w @ log\<rparr>)"
    "(\<exists>n. r = Inr n) \<or> callback_failed r"
proof -
  let ?w = "w\<lparr>w_life := l, w_holds := remove1 a (w_holds w), w_log := w_log w @ log\<rparr>"
  note live = world_ok_live [OF ok, of a, simplified a, simplified]
  obtain g where g: "generation_release env (gen_at (w_life w) a) = (g, log, r)" "l = set_gen a g (w_life w)"
    using rel by (auto simp: release_at_def split: prod.splits)
  note f = generation_release_ok(1-4) [OF g(1) live(2,3)]
    and bal = generation_release_ok(5) [OF g(1) live(2,3)]
  have st: "lc_state l = lc_state (w_life w)" "lc_store l = (lc_store (w_life w))[a := g]"
    "lc_current l = lc_current (w_life w)" "lc_publishing l = lc_publishing (w_life w)"
    using g(2) by (simp_all add: set_gen_def)
  have ow: "owners ?w = owners w" by (simp add: owners_def st)
  have pos: "0 < count_list (w_holds w) a" using a count_list_0_iff [of "w_holds w" a] by auto
  have "gen_ok ?w b" if b: "b < length (lc_store l)" for b
    using ok b f live(1) pos a
    by (cases "b = a") (auto simp: gen_ok_def world_ok_def st ow Let_def count_list_remove1)
  moreover have "balance (w_log ?w) q = outstanding (lc_store l) q" for q
    using ok bal [of q] live(1) by (simp add: st world_ok_def outstanding_update)
  ultimately show "world_ok ?w"
    using ok st ow by (auto simp: world_ok_def dest: notin_set_remove1 set_remove1_subset [THEN subsetD])
  show "(\<exists>n. r = Inr n) \<or> callback_failed r" using f(4) .
qed

lemma acquire_step:
  assumes ok: "world_ok w" and acq: "acquire_generation (w_life w) = (l, Inr a)"
  shows "world_ok (w\<lparr>w_life := l, w_holds := a # w_holds w\<rparr>)"
proof -
  let ?w = "w\<lparr>w_life := l, w_holds := a # w_holds w\<rparr>"
  have run: "lc_state (w_life w) = STATE_RUNNING" and a: "a = lc_current (w_life w)"
    using acq by (auto simp: acquire_generation_def split: if_splits prod.splits sum.splits)
  then have "w_drain w = DrIdle" using ok by (auto simp: world_ok_def)
  then have own: "a \<in> set (owners w)" by (simp add: owners_def a)
  note live = world_ok_live [OF ok, of a, simplified own, simplified]
  let ?g = "(gen_at (w_life w) a)\<lparr>gn_references := gn_references (gen_at (w_life w) a) + 1\<rparr>"
  have l: "l = set_gen a ?g (w_life w)"
    using acq run live(2) a by (simp add: acquire_generation_def generation_retain_def)
  have st: "lc_state l = lc_state (w_life w)" "lc_store l = (lc_store (w_life w))[a := ?g]"
    "lc_current l = lc_current (w_life w)" "lc_publishing l = lc_publishing (w_life w)"
    using l by (simp_all add: set_gen_def)
  have ow: "owners ?w = owners w" by (simp add: owners_def st)
  have "gen_ok ?w b" if b: "b < length (lc_store l)" for b
  proof -
    have "gen_ok w b" using ok b by (simp add: world_ok_def st)
    then show ?thesis
      using live by (cases "b = a") (simp_all add: gen_ok_def st ow Let_def)
  qed
  moreover have "outstanding (lc_store l) q = outstanding (lc_store (w_life w)) q" for q
    using live(1) by (simp add: st outstanding_update held_by_def)
  ultimately show ?thesis
    using ok st ow live(1) by (auto simp: world_ok_def)
qed

lemma build_step:
  assumes ok: "world_ok w" and pc: "w_pub w = PubBuild i c rs"
    and new: "generation_new env i c rs = (log, Inr g)"
  shows "world_ok (w\<lparr>w_life := (w_life w)\<lparr>lc_store := lc_store (w_life w) @ [g]\<rparr>,
       w_pub := PubSwap (length (lc_store (w_life w))), w_log := w_log w @ log\<rparr>)"
    (is "world_ok ?w")
proof -
  let ?n = "length (lc_store (w_life w))"
  have g: "gn_references g = 1" "\<not> gn_retired g" "\<not> gn_released g"
    using new by (auto simp: generation_new_def split: prod.splits option.splits)
  have ow: "owners ?w = ?n # owners w"
    by (simp add: owners_def pub_owned_def pc)
  have fresh: "?n \<notin> set (owners w)" "?n \<notin> set (w_holds w)"
    using ok by (auto simp: world_ok_def)
  have "gen_ok ?w b" if "b < Suc ?n" for b
  proof (cases "b = ?n")
    case True
    then show ?thesis
      using g fresh count_list_0_iff [of "w_holds w" ?n] by (simp add: gen_ok_def ow Let_def)
  next
    case False
    with that ok show ?thesis by (auto simp: gen_ok_def ow world_ok_def Let_def nth_append)
  qed
  moreover have "balance log q = held_by g q" for q
    using generation_new_balance [OF new, of q] by simp
  ultimately show ?thesis
    using ok ow fresh pc by (auto simp: world_ok_def less_Suc_eq)
qed

lemma swap_step:
  assumes ok: "world_ok w" and pc: "w_pub w = PubSwap a"
    and sw: "publish_swap a (w_life w) = (l, Some p)"
  shows "world_ok (w\<lparr>w_life := l, w_pub := PubRetire p\<rparr>)" (is "world_ok ?w")
proof -
  have run: "lc_state (w_life w) = STATE_RUNNING" "p = lc_current (w_life w)"
    "lc_current l = a" "lc_store l = lc_store (w_life w)" "lc_state l = lc_state (w_life w)"
    "lc_publishing l = lc_publishing (w_life w)"
    using sw by (auto simp: publish_swap_def split: if_splits)
  then have d: "w_drain w = DrIdle" using ok by (auto simp: world_ok_def)
  have ow: "owners w = [a, p]" "owners ?w = [p, a]"
    using d pc run by (simp_all add: owners_def pub_owned_def)
  have "set (owners ?w) = set (owners w)" by (simp only: ow) auto
  then have "gen_ok ?w b = gen_ok w b" for b
    by (intro gen_ok_cong) (simp_all add: run(4))
  moreover have "distinct (owners ?w) = distinct (owners w)" by (simp only: ow) auto
  ultimately show ?thesis
    using ok \<open>set (owners ?w) = set (owners w)\<close> d run pc by (simp add: world_ok_def)
qed

text \<open>The publisher or the drain gives up the generation it owns.\<close>

lemma publish_retire_step:
  assumes "world_ok w" "pub_owned (w_pub w) = [a]" "retire_at env a (w_life w) = (l, log, r)"
    and "pub_owned pc = []"
  shows "world_ok (w\<lparr>w_life := l, w_pub := pc, w_log := w_log w @ log\<rparr>)" (is "world_ok ?w")
    "(\<exists>n. r = Inr n) \<or> callback_failed r"
proof -
  have cur: "lc_current l = lc_current (w_life w)"
    using assms(3) by (auto simp: retire_at_def set_gen_def split: prod.splits)
  have ow: "owners ?w = drain_owned (w_drain w) (lc_current (w_life w))"
    "owners w = a # drain_owned (w_drain w) (lc_current (w_life w))"
    using assms(2,4) cur by (simp_all add: owners_def)
  have d: "distinct (owners w)" using assms(1) by (simp add: world_ok_def)
  have ne: "w_pub w \<noteq> PubIdle" using assms(2) by (auto simp: pub_owned_def)
  show "world_ok ?w"
    by (rule retire_step(1) [OF assms(1) _ assms(3)]) (use d ne in \<open>auto simp only: ow, auto\<close>)
  show "(\<exists>n. r = Inr n) \<or> callback_failed r"
    by (rule retire_step(2) [OF assms(1) _ assms(3), of ?w]) (use d ne in \<open>auto simp only: ow, auto\<close>)
qed

lemma drain_retire_step:
  assumes "world_ok w" "w_drain w = DrRetire a" "retire_at env a (w_life w) = (l, log, r)"
  shows "world_ok (w\<lparr>w_life := l, w_drain := DrDone, w_log := w_log w @ log\<rparr>)" (is "world_ok ?w")
    "(\<exists>n. r = Inr n) \<or> callback_failed r"
proof -
  have ow: "owners ?w = pub_owned (w_pub w)" "owners w = pub_owned (w_pub w) @ [a]"
    using assms(2) by (simp_all add: owners_def)
  have d: "distinct (owners w)" using assms(1) by (simp add: world_ok_def)
  show "world_ok ?w"
    by (rule retire_step(1) [OF assms(1) _ assms(3)]) (use d assms(2) in \<open>auto simp only: ow, auto\<close>)
  show "(\<exists>n. r = Inr n) \<or> callback_failed r"
    by (rule retire_step(2) [OF assms(1) _ assms(3), of ?w]) (use d assms(2) in \<open>auto simp only: ow, auto\<close>)
qed

lemma neutral_step:
  assumes "world_ok w" "neutral op"
  shows "world_ok (w\<lparr>w_life := apply_op env op (w_life w)\<rparr>)"
proof -
  let ?l = "apply_op env op (w_life w)"
  have e: "lc_edge (lc_state (w_life w)) (lc_state ?l)" by (rule apply_op_edge)
  have "w_drain w \<noteq> DrIdle \<Longrightarrow> lc_state ?l = STATE_STOPPED \<or> lc_state ?l = STATE_FAILED"
    using assms(1) e by (auto simp: world_ok_def elim: lc_edge.cases)
  moreover have "w_pub w \<noteq> PubIdle \<Longrightarrow> lc_state ?l = STATE_RUNNING \<and> lc_publishing ?l \<or> ended (lc_state ?l)"
    using assms(1) e neutral_publishing [OF assms(2), of env "w_life w"]
    by (auto simp: world_ok_def ended_def elim: lc_edge.cases)
  moreover have "owners (w\<lparr>w_life := ?l\<rparr>) = owners w"
    using neutral_store [OF assms(2)] by (simp add: owners_def)
  ultimately show ?thesis
    using assms(1) neutral_not_stopped [OF assms(2)] neutral_store [OF assms(2)]
    by (intro world_ok_cong [OF assms(1)]) (auto simp: world_ok_def)
qed

lemma publish_begin_step:
  assumes "world_ok w" "publish_begin (w_life w) = (l, Inr i)"
  shows "w_pub w = PubIdle" "world_ok (w\<lparr>w_life := l, w_pub := PubBuild i c rs\<rparr>)" (is "world_ok ?w")
proof -
  have l: "lc_state (w_life w) = STATE_RUNNING" "\<not> lc_publishing (w_life w)"
    "lc_state l = STATE_RUNNING" "lc_publishing l" "lc_store l = lc_store (w_life w)"
    "lc_current l = lc_current (w_life w)"
    using assms(2) by (auto simp: publish_begin_def split: if_splits)
  show i: "w_pub w = PubIdle" using assms(1) l by (auto simp: world_ok_def ended_def)
  have "owners ?w = owners w" using i l by (simp add: owners_def pub_owned_def)
  moreover have "w_drain w = DrIdle" using assms(1) l by (auto simp: world_ok_def)
  ultimately show "world_ok ?w"
    using l by (intro world_ok_cong [OF assms(1)]) simp_all
qed

lemma publish_lost_step:
  assumes "world_ok w" "w_pub w = PubSwap a" "publish_swap a (w_life w) = (l, None)"
  shows "world_ok (w\<lparr>w_life := l, w_pub := PubDiscard a\<rparr>)" (is "world_ok ?w")
proof -
  have l: "lc_state (w_life w) \<noteq> STATE_RUNNING" "lc_state l = lc_state (w_life w)"
    "lc_store l = lc_store (w_life w)" "lc_current l = lc_current (w_life w)"
    using assms(3) by (auto simp: publish_swap_def split: if_splits)
  have "owners ?w = owners w" using assms(2) l by (simp add: owners_def pub_owned_def)
  with assms l show ?thesis by (intro world_ok_cong [OF assms(1)]) (auto simp: world_ok_def)
qed

lemma drain_stops_step:
  assumes "world_ok w" "finish_drain_locked force (w_life w) = (l, Inr (Some a))"
  shows "world_ok (w\<lparr>w_life := l, w_drain := DrRetire a\<rparr>)" (is "world_ok ?w")
proof -
  have s: "lc_state (w_life w) = STATE_DRAINING" "a = lc_current (w_life w)" "lc_state l = STATE_STOPPED"
    "lc_store l = lc_store (w_life w)"
    using assms(2) by (auto simp: finish_drain_locked_def drain_active_def Let_def split: if_splits)
  then have "w_drain w = DrIdle" using assms(1) by (auto simp: world_ok_def)
  then have "owners ?w = owners w" using s by (simp add: owners_def)
  with s show ?thesis by (intro world_ok_cong [OF assms(1)]) (simp_all add: ended_def)
qed

lemma drain_waits_step:
  assumes "world_ok w" "finish_drain_locked force (w_life w) = (l, Inr None)"
  shows "world_ok (w\<lparr>w_life := l\<rparr>)" (is "world_ok ?w")
proof -
  have s: "lc_state l = lc_state (w_life w)" "lc_store l = lc_store (w_life w)"
    "lc_current l = lc_current (w_life w)" "lc_publishing l = lc_publishing (w_life w)"
    using assms(2) by (auto simp: finish_drain_locked_def drain_active_def Let_def split: if_splits)
  then have "owners ?w = owners w" by (simp add: owners_def)
  with s assms(1) show ?thesis by (intro world_ok_cong [OF assms(1)]) (simp_all add: world_ok_def)
qed

lemma publish_fails_step:
  assumes "world_ok w" "w_pub w = PubBuild i c rs" "generation_new env i c rs = (log, Inl e)"
  shows "world_ok (w\<lparr>w_life := publish_abort (w_life w), w_pub := PubIdle, w_log := w_log w @ log\<rparr>)"
    (is "world_ok ?w")
proof -
  have "balance log q = 0" for q using generation_new_balance [OF assms(3), of q] by simp
  moreover have ow: "owners ?w = owners w"
    using assms(2) by (simp add: owners_def pub_owned_def publish_abort_def)
  moreover have "gen_ok ?w b = gen_ok w b" for b
    by (rule gen_ok_cong) (simp_all only: ow, simp_all add: publish_abort_def)
  ultimately show ?thesis
    using assms(1) by (simp add: world_ok_def) (simp add: publish_abort_def)
qed

lemma publish_end_step:
  assumes "world_ok w" "w_pub w = PubEnd"
  shows "world_ok (w\<lparr>w_life := fst (collect_retired (publish_abort (w_life w))), w_pub := PubIdle\<rparr>)"
    (is "world_ok ?w")
proof -
  have "owners ?w = owners w"
    using assms(2) by (simp add: owners_def pub_owned_def collect_retired_def publish_abort_def Let_def)
  with assms(1) show ?thesis
    by (intro world_ok_cong [OF assms(1)])
      (simp_all add: world_ok_def collect_retired_def publish_abort_def Let_def)
qed

lemma gen_step_ok: "gen_step env w w' \<Longrightarrow> world_ok w \<Longrightarrow> world_ok w'"
proof (induction rule: gen_step.induct)
  case (publish_retire w p l log r)
  then show ?case by (intro publish_retire_step(1)) (simp_all add: pub_owned_def)
next
  case (publish_discard w a l log r)
  then show ?case by (intro publish_retire_step(1)) (simp_all add: pub_owned_def)
qed (blast intro: neutral_step acquire_step release_step(1) publish_begin_step(2) publish_fails_step
    build_step swap_step publish_lost_step publish_end_step drain_waits_step drain_stops_step
    drain_retire_step(1))+

inductive reachable_world :: "res_env \<Rightarrow> 'c \<Rightarrow> admission_limits \<Rightarrow> 'c world \<Rightarrow> bool" for env c limits where
  start: "reachable_world env c limits (world_new c limits)"
| step: "reachable_world env c limits w \<Longrightarrow> gen_step env w w' \<Longrightarrow> reachable_world env c limits w'"

lemma reachable_world_ok: "reachable_world env c limits w \<Longrightarrow> world_ok w"
  by (induction rule: reachable_world.induct) (simp_all add: world_new_ok gen_step_ok)

section \<open>Properties\<close>


text \<open>References are dropped once: in every reachable state the release a worker owes, the retirement
  the publisher owes and the one the drain owes succeed or report a failing resource callback, but
  never the \<open>more than once\<close> errors, and no second publish can start while one is running.\<close>

theorem generations_dropped_once:
  assumes "reachable_world env c limits w"
  shows "(a \<in> set (w_holds w) \<and> release_at env a (w_life w) = (l, log, r) \<longrightarrow>
      (\<exists>n. r = Inr n) \<or> callback_failed r) \<and>
    (pub_owned (w_pub w) = [a] \<and> w_pub w \<noteq> PubSwap a \<and> retire_at env a (w_life w) = (l, log, r) \<longrightarrow>
      (\<exists>n. r = Inr n) \<or> callback_failed r) \<and>
    (w_drain w = DrRetire a \<and> retire_at env a (w_life w) = (l, log, r) \<longrightarrow>
      (\<exists>n. r = Inr n) \<or> callback_failed r) \<and>
    (w_pub w \<noteq> PubIdle \<longrightarrow> (\<exists>e. snd (publish_begin (w_life w)) = Inl e))"
proof -
  have ok: "world_ok w" using reachable_world_ok [OF assms] .
  have "\<exists>e. snd (publish_begin (w_life w)) = Inl e" if "w_pub w \<noteq> PubIdle"
    using publish_begin_step(1) [OF ok] that by (cases "publish_begin (w_life w)"; cases "snd (publish_begin (w_life w))") auto
  moreover have "(\<exists>n. r = Inr n) \<or> callback_failed r"
    if "pub_owned (w_pub w) = [a]" "retire_at env a (w_life w) = (l, log, r)"
    using publish_retire_step(2) [OF ok that, of PubIdle] by (simp add: pub_owned_def)
  ultimately show ?thesis
    using release_step(2) [OF ok] drain_retire_step(2) [OF ok] by blast
qed

text \<open>A worker keeps the first generation while a second one is published.\<close>

definition world_a :: "nat world" where
  "world_a = (let w = world_new 0 sample_limits in
     w\<lparr>w_life := apply_op quiet_env OpStarted (apply_op quiet_env OpStart (w_life w))\<rparr>)"

definition world_b :: "nat world" where
  "world_b = (let w = world_a in
     w\<lparr>w_life := fst (acquire_generation (w_life w)), w_holds := 0 # w_holds w\<rparr>)"

definition world_c :: "nat world" where
  "world_c = (let w = world_b; l1 = fst (publish_begin (w_life w)); n = generation_new quiet_env 2 1 [7];
      l2 = l1\<lparr>lc_store := lc_store l1 @ [projr (snd n)]\<rparr>; l3 = fst (publish_swap 1 l2) in
     w\<lparr>w_life := l3, w_pub := PubRetire 0, w_log := fst n\<rparr>)"

lemmas world_samples = world_a_def world_b_def world_c_def world_new_def sample_limits_def
  lifecycle_new_def lc_start_def lc_started_def acquire_generation_def generation_retain_def
  set_gen_def publish_begin_def generation_new_def quiet_env_def publish_swap_def Let_def

lemma world_c_reachable: "reachable_world quiet_env 0 sample_limits world_c"
proof -
  let ?R = "reachable_world quiet_env 0 sample_limits"
  have 1: "?R world_a"
    using reachable_world.step [OF reachable_world.step [OF reachable_world.start
        gen_step.other [of OpStart]] gen_step.other [of OpStarted], of quiet_env 0 sample_limits]
    by (simp add: world_a_def world_new_def Let_def)
  have 2: "?R world_b"
    using reachable_world.step [OF 1 gen_step.acquire [of world_a "fst (acquire_generation (w_life world_a))" 0]]
    by (simp add: world_samples)
  have 3: "?R (world_b\<lparr>w_life := fst (publish_begin (w_life world_b)), w_pub := PubBuild 2 1 [7]\<rparr>)"
    using reachable_world.step [OF 2 gen_step.publish_begin [of world_b "fst (publish_begin (w_life world_b))" 2]]
    by (simp add: world_samples)
  note 4 = reachable_world.step [OF 3 gen_step.publish_build [of _ 2 1 "[7]" _ "fst (generation_new quiet_env 2 1 [7])"
        "projr (snd (generation_new quiet_env 2 1 [7]))"]]
  note 5 = reachable_world.step [OF 4 gen_step.publish_swap [of _ 1 _ 0]]
  from 5 show ?thesis by (simp add: world_samples)
qed


theorem generations_dropped_once_witness:
  "\<exists>l log n. retire_at quiet_env 0 (w_life world_c) = (l, log, Inr n) \<and>
     (\<exists>e. snd (publish_begin (w_life world_c)) = Inl e)"
proof -
  obtain l log r where t: "retire_at quiet_env 0 (w_life world_c) = (l, log, r)"
    by (cases "retire_at quiet_env 0 (w_life world_c)")
  have p: "pub_owned (w_pub world_c) = [0]" "w_pub world_c \<noteq> PubSwap 0" "w_pub world_c \<noteq> PubIdle"
    by (simp_all add: world_samples pub_owned_def)
  have "\<not> callback_failed r"
    using t by (auto simp: retire_at_def generation_retire_def retire_locked_def drop_reference_def
        release_resources_def callback_failed_def world_samples)
  with generations_dropped_once [OF world_c_reachable, of 0 l log r] t p show ?thesis by auto
qed

end
