(* ===== verification/Dns.thy ===== *)
theory Dns
  imports Prelude
begin

text \<open>
  Model of the wire codec and the numeric address functions of \<open>pcc_gateway/dns.py\<close>:
  names with compression, queries, responses, IPv4 and IPv6 text, and address classes.
  Offsets into a packet are natural numbers; \<open>next_offset = -1\<close> is \<open>None\<close>.
\<close>

section \<open>Wire codec\<close>

definition DNS_A :: int where "DNS_A = 1"
definition DNS_CNAME :: int where "DNS_CNAME = 5"
definition DNS_AAAA :: int where "DNS_AAAA = 28"
definition DNS_CLASS_IN :: int where "DNS_CLASS_IN = 1"

definition u16_at :: "bytes \<Rightarrow> nat \<Rightarrow> int result" where
  "u16_at data off =
     (if off + 2 > length data then Inl (DnsError ''truncated'' ''truncated DNS u16'')
      else Inr (data ! off * 256 + data ! (off + 1)))"

definition u32_at :: "bytes \<Rightarrow> nat \<Rightarrow> int result" where
  "u32_at data off =
     (if off + 4 > length data then Inl (DnsError ''truncated'' ''truncated DNS u32'')
      else Inr (data ! off * 16777216 + data ! (off + 1) * 65536 + data ! (off + 2) * 256 + data ! (off + 3)))"

definition put_u16 :: "int \<Rightarrow> bytes" where
  "put_u16 v = [(drop_bit 8 v) AND 255, v AND 255]"

definition label_byte_ok :: "int \<Rightarrow> bool" where
  "label_byte_ok v \<longleftrightarrow> 48 \<le> v \<and> v \<le> 57 \<or> 65 \<le> v \<and> v \<le> 90 \<or> 97 \<le> v \<and> v \<le> 122 \<or> v = 45"

definition encode_label :: "pystr \<Rightarrow> bytes result" where
  "encode_label label =
     (if list_ex (\<lambda>c. c > 127) label
      then Inl (DnsError ''bad-name'' ''DNS names must be pre-encoded ASCII'')
      else if length label = 0 \<or> length label > 63
      then Inl (DnsError ''bad-name'' ''DNS label length is invalid'')
      else if hd label = 45 \<or> last label = 45
      then Inl (DnsError ''bad-name'' ''DNS label cannot start or end with hyphen'')
      else if \<not> list_all label_byte_ok label
      then Inl (DnsError ''bad-name'' ''unsupported DNS label byte'')
      else Inr (int (length label) # label))"

fun encode_labels :: "pystr list \<Rightarrow> bytes result" where
  "encode_labels [] = Inr [0]"
| "encode_labels (l # ls) = rbind (encode_label l) (\<lambda>bs. rbind (encode_labels ls) (\<lambda>rest. Inr (bs @ rest)))"

definition encode_name :: "pystr \<Rightarrow> bytes result" where
  "encode_name name =
     (let canonical = canon_name name in
      if canonical = [] \<or> length canonical > 253
      then Inl (DnsError ''bad-name'' ''DNS name length is invalid'')
      else encode_labels (py_split 46 canonical))"

definition pointer_at :: "bytes \<Rightarrow> nat \<Rightarrow> nat" where
  "pointer_at data cursor = nat ((push_bit 8 (data ! cursor AND 0x3F)) OR data ! (cursor + 1))"

text \<open>The loop of \<open>decode_name\<close>: the labels so far, the cursor, where the caller goes on
  after the first pointer, the number of jumps, and the pointers followed.\<close>

function decode_loop ::
  "bytes \<Rightarrow> pystr list \<Rightarrow> nat \<Rightarrow> nat option \<Rightarrow> nat \<Rightarrow> nat list \<Rightarrow> (pystr list \<times> nat) result" where
  "decode_loop data labels cursor next_offset jumps visited =
     (if cursor \<ge> length data then Inl (DnsError ''truncated'' ''truncated DNS name'')
      else if data ! cursor AND 0xC0 = 0xC0
      then if cursor + 1 \<ge> length data
           then Inl (DnsError ''truncated'' ''truncated DNS compression pointer'')
           else if pointer_at data cursor \<ge> length data \<or>
                pointer_at data cursor \<in> set visited
           then Inl (DnsError ''bad-compression'' ''invalid DNS compression pointer'')
           else if jumps + 1 > 32
           then Inl (DnsError ''bad-compression'' ''DNS compression chain too deep'')
           else decode_loop data labels (pointer_at data cursor)
                  (case next_offset of None \<Rightarrow> Some (cursor + 2) | Some n \<Rightarrow> Some n) (jumps + 1)
                  (visited @ [pointer_at data cursor])
      else if data ! cursor AND 0xC0 \<noteq> 0
      then Inl (DnsError ''bad-label'' ''reserved DNS label encoding'')
      else if data ! cursor = 0
      then Inr (labels, case next_offset of None \<Rightarrow> cursor + 1 | Some n \<Rightarrow> n)
      else if data ! cursor > 63 \<or> cursor + 1 + nat (data ! cursor) > length data
      then Inl (DnsError ''truncated'' ''invalid DNS label length'')
      else if list_ex (\<lambda>c. c > 127) (take (nat (data ! cursor)) (drop (cursor + 1) data))
      then Inl (DnsError ''bad-name'' ''non-ASCII DNS response name'')
      else decode_loop data
             (labels @ [py_lower (take (nat (data ! cursor)) (drop (cursor + 1) data))])
             (cursor + 1 + nat (data ! cursor)) next_offset jumps visited)"
  by pat_completeness auto
termination
  by (relation "measures [\<lambda>(data, _, _, _, jumps, _). 32 - jumps,
      \<lambda>(data, _, cursor, _, _, _). length data - cursor]") auto

declare decode_loop.simps [simp del]

definition decode_name :: "bytes \<Rightarrow> nat \<Rightarrow> (pystr \<times> nat) result" where
  "decode_name data off =
     rbind (decode_loop data [] off None 0 []) (\<lambda>(labels, next_offset). Inr (py_join 46 labels, next_offset))"

definition build_query :: "int \<Rightarrow> pystr \<Rightarrow> int \<Rightarrow> bytes result" where
  "build_query query_id name qtype =
     (if query_id < 0 \<or> query_id > 65535 then Inl (ValueError ''DNS query id must fit u16'')
      else if qtype \<noteq> DNS_A \<and> qtype \<noteq> DNS_AAAA
      then Inl (ValueError ''gateway resolver supports A and AAAA'')
      else rbind (encode_name name) (\<lambda>qname.
        Inr (put_u16 query_id @ put_u16 0x0100 @ put_u16 1 @ put_u16 0 @ put_u16 0 @ put_u16 0 @
             qname @ put_u16 qtype @ put_u16 DNS_CLASS_IN)))"

record dns_answer =
  an_name :: pystr
  an_qtype :: int
  an_data :: pystr
  an_ttl :: int

record dns_response =
  rs_query_id :: int
  rs_truncated :: bool
  rs_rcode :: int
  rs_answers :: "dns_answer list"

definition ipv4_text :: "int list \<Rightarrow> pystr" where
  "ipv4_text bs = py_join 46 (map (\<lambda>b. py_str_nat (nat b)) bs)"

fun byte_pairs :: "int list \<Rightarrow> int list" where
  "byte_pairs (a # b # xs) = (a * 256 + b) # byte_pairs xs"
| "byte_pairs xs = []"

definition ipv6_text :: "int list \<Rightarrow> pystr" where
  "ipv6_text bs = py_join 58 (map (\<lambda>g. py_hex_nat (nat g)) (byte_pairs bs))"

text \<open>One record of the answer section: the answer it contributes, if any, and the offset behind
  it.\<close>

definition parse_answer :: "bytes \<Rightarrow> nat \<Rightarrow> (dns_answer option \<times> nat) result" where
  "parse_answer payload off0 =
     rbind (decode_name payload off0) (\<lambda>(owner, off).
     rbind (u16_at payload off) (\<lambda>answer_type.
     rbind (u16_at payload (off + 2)) (\<lambda>answer_class.
     rbind (u32_at payload (off + 4)) (\<lambda>ttl.
     rbind (u16_at payload (off + 8)) (\<lambda>rdlength.
       let rdata_offset = off + 10; off1 = rdata_offset + nat rdlength;
           rdata = take (nat rdlength) (drop rdata_offset payload) in
       if off1 > length payload
       then Inl (DnsError ''truncated'' ''DNS answer data is truncated'')
       else if answer_class \<noteq> DNS_CLASS_IN then Inr (None, off1)
       else if answer_type = DNS_A \<and> rdlength = 4
       then Inr (Some \<lparr>an_name = owner, an_qtype = answer_type, an_data = ipv4_text rdata, an_ttl = ttl\<rparr>, off1)
       else if answer_type = DNS_AAAA \<and> rdlength = 16
       then Inr (Some \<lparr>an_name = owner, an_qtype = answer_type, an_data = ipv6_text rdata, an_ttl = ttl\<rparr>, off1)
       else if answer_type = DNS_CNAME
       then rbind (decode_name payload rdata_offset) (\<lambda>(cname, cname_end).
              if cname_end > rdata_offset + nat rdlength
              then Inl (DnsError ''bad-cname'' ''CNAME exceeds its DNS record'')
              else Inr (Some \<lparr>an_name = owner, an_qtype = answer_type, an_data = cname, an_ttl = ttl\<rparr>, off1))
       else Inr (None, off1))))))"

fun parse_answers :: "bytes \<Rightarrow> nat \<Rightarrow> nat \<Rightarrow> dns_answer list result" where
  "parse_answers payload off 0 = Inr []"
| "parse_answers payload off (Suc n) =
     rbind (parse_answer payload off) (\<lambda>r.
     rbind (parse_answers payload (snd r) n) (\<lambda>rest.
       Inr (case fst r of None \<Rightarrow> rest | Some a \<Rightarrow> a # rest)))"

definition parse_response :: "bytes \<Rightarrow> int \<Rightarrow> pystr \<Rightarrow> int \<Rightarrow> dns_response result" where
  "parse_response payload query_id name qtype =
     (if length payload < 12 then Inl (DnsError ''truncated'' ''DNS response header is truncated'')
      else rbind (u16_at payload 0) (\<lambda>response_id.
      rbind (u16_at payload 2) (\<lambda>flags.
      rbind (raise_if (response_id \<noteq> query_id) (DnsError ''id-mismatch'' ''DNS response id does not match query'')) (\<lambda>_.
      rbind (raise_if (flags AND 0x8000 = 0) (DnsError ''not-response'' ''DNS packet is not a response'')) (\<lambda>_.
      rbind (raise_if (flags AND 0x7800 \<noteq> 0) (DnsError ''bad-opcode'' ''DNS response opcode is not QUERY'')) (\<lambda>_.
      rbind (u16_at payload 4) (\<lambda>qdcount.
      rbind (u16_at payload 6) (\<lambda>ancount.
      rbind (raise_if (qdcount \<noteq> 1) (DnsError ''question-mismatch'' ''DNS response must echo one question'')) (\<lambda>_.
      rbind (raise_if (ancount > 256) (DnsError ''too-many-answers'' ''DNS answer count exceeds gateway limit'')) (\<lambda>_.
      rbind (decode_name payload 12) (\<lambda>(question_name, off).
      rbind (u16_at payload off) (\<lambda>question_type.
      rbind (u16_at payload (off + 2)) (\<lambda>question_class.
      rbind (raise_if (question_name \<noteq> canon_name name \<or> question_type \<noteq> qtype \<or> question_class \<noteq> DNS_CLASS_IN)
        (DnsError ''question-mismatch'' ''DNS echoed question does not match'')) (\<lambda>_.
      rbind (parse_answers payload (off + 4) (nat ancount)) (\<lambda>answers.
        Inr \<lparr>rs_query_id = response_id, rs_truncated = (flags AND 0x0200 \<noteq> 0),
             rs_rcode = flags AND 15, rs_answers = answers\<rparr>)))))))))))))))"

section \<open>Numeric addresses\<close>

definition parse_ipv4_part :: "pystr \<Rightarrow> int option" where
  "parse_ipv4_part part =
     (if part = [] \<or> length part > 3 then None
      else if \<not> list_all is_digit part then None
      else let number = py_int_dec part in
           if number > 255 then None
           else if length part > 1 \<and> hd part = 48 then None
           else Some number)"

fun map_option_all :: "('a \<Rightarrow> 'b option) \<Rightarrow> 'a list \<Rightarrow> 'b list option" where
  "map_option_all f [] = Some []"
| "map_option_all f (x # xs) =
     (case f x of None \<Rightarrow> None | Some y \<Rightarrow> map_option (\<lambda>ys. y # ys) (map_option_all f xs))"

definition parse_ipv4 :: "pystr \<Rightarrow> int list option" where
  "parse_ipv4 v =
     (let parts = py_split 46 v in
      if length parts \<noteq> 4 then None else map_option_all parse_ipv4_part parts)"

definition parse_ipv6_piece :: "pystr \<Rightarrow> int option" where
  "parse_ipv6_piece piece =
     (if piece = [] \<or> length piece > 4 \<or> \<not> list_all is_hex piece then None
      else Some (py_int_hex piece))"

fun side_groups :: "bool \<Rightarrow> pystr list \<Rightarrow> int list option" where
  "side_groups allow_ipv4 [] = Some []"
| "side_groups allow_ipv4 (piece # pieces) =
     (if 46 \<in> set piece
      then if \<not> allow_ipv4 \<or> pieces \<noteq> [] then None
           else (case parse_ipv4 piece of
                  None \<Rightarrow> None
                | Some v \<Rightarrow> Some [v ! 0 * 256 + v ! 1, v ! 2 * 256 + v ! 3])
      else (case parse_ipv6_piece piece of
             None \<Rightarrow> None
           | Some g \<Rightarrow> map_option (\<lambda>gs. g # gs) (side_groups allow_ipv4 pieces)))"

definition ipv6_side_groups :: "pystr \<Rightarrow> bool \<Rightarrow> int list option" where
  "ipv6_side_groups side allow_ipv4 =
     (if side = [] then Some [] else side_groups allow_ipv4 (py_split 58 side))"

text \<open>\<open>value.split("::")\<close>: the pieces between non-overlapping double colons.\<close>

fun split_dcolon :: "pystr \<Rightarrow> pystr list" where
  "split_dcolon [] = [[]]"
| "split_dcolon [x] = [[x]]"
| "split_dcolon (x # y # xs) =
     (if x = 58 \<and> y = 58 then [] # split_dcolon xs
      else case split_dcolon (y # xs) of [] \<Rightarrow> [[x]] | p # ps \<Rightarrow> (x # p) # ps)"

definition split_group :: "int \<Rightarrow> int list" where
  "split_group g = [(drop_bit 8 g) AND 255, g AND 255]"

definition parse_ipv6_groups :: "pystr \<Rightarrow> int list option" where
  "parse_ipv6_groups v =
     (if v = [] \<or> 37 \<in> set v then None
      else (case split_dcolon v of
        [whole] \<Rightarrow>
          (case ipv6_side_groups v True of
            None \<Rightarrow> None
          | Some groups \<Rightarrow> if length groups \<noteq> 8 then None else Some groups)
      | [left_text, right_text] \<Rightarrow>
          (case (ipv6_side_groups left_text False, ipv6_side_groups right_text True) of
            (Some left, Some right) \<Rightarrow>
              if length left + length right \<ge> 8 then None
              else Some (left @ replicate (8 - length right - length left) 0 @ right)
          | _ \<Rightarrow> None)
      | _ \<Rightarrow> None))"

definition parse_ipv6 :: "pystr \<Rightarrow> int list option" where
  "parse_ipv6 v = map_option (\<lambda>groups. concat (map split_group groups)) (parse_ipv6_groups v)"

definition normalize_numeric_address :: "pystr \<Rightarrow> int \<Rightarrow> pystr option" where
  "normalize_numeric_address v qtype =
     (let text = py_strip v in
      case parse_ipv4 text of
        Some b4 \<Rightarrow>
          if qtype = 0 \<or> qtype = DNS_A then Some (ipv4_text b4)
          else (case parse_ipv6 text of
                 Some b6 \<Rightarrow> if qtype = 0 \<or> qtype = DNS_AAAA then Some (ipv6_text b6) else None
               | None \<Rightarrow> None)
      | None \<Rightarrow>
          (case parse_ipv6 text of
            Some b6 \<Rightarrow> if qtype = 0 \<or> qtype = DNS_AAAA then Some (ipv6_text b6) else None
          | None \<Rightarrow> None))"

datatype addr_class =
  Unspecified | Loopback | Private | LinkLocal | Multicast | Public | Invalid

definition class_v4 :: "int list \<Rightarrow> addr_class" where
  "class_v4 b =
     (let first = b ! 0; second = b ! 1 in
      if first = 0 then Unspecified
      else if first = 127 then Loopback
      else if first = 10 \<or> first = 172 \<and> 16 \<le> second \<and> second \<le> 31 \<or> first = 192 \<and> second = 168
      then Private
      else if first = 169 \<and> second = 254 then LinkLocal
      else if 224 \<le> first \<and> first \<le> 239 then Multicast
      else Public)"

definition is_mapped :: "int list \<Rightarrow> bool" where
  "is_mapped b \<longleftrightarrow> take 10 b = replicate 10 0 \<and> b ! 10 = 255 \<and> b ! 11 = 255"

definition class_v6 :: "int list \<Rightarrow> addr_class" where
  "class_v6 b =
     (if list_all (\<lambda>x. x = 0) b then Unspecified
      else if list_all (\<lambda>x. x = 0) (take 15 b) \<and> b ! 15 = 1 then Loopback
      else if b ! 0 AND 0xFE = 0xFC then Private
      else if b ! 0 = 0xFE \<and> b ! 1 AND 0xC0 = 0x80 then LinkLocal
      else if b ! 0 = 0xFF then Multicast
      else Public)"

subsection \<open>Printing and reading numbers\<close>

lemma and_255: "(x::int) AND 255 = x mod 256"
  using take_bit_eq_mask [of 8 x] by (simp add: take_bit_eq_mod mask_eq_exp_minus_1 and.commute)

lemma drop_bit_8: "drop_bit 8 (x::int) = x div 256"
  by (simp add: drop_bit_eq_div)

lemma put_u16_val: "put_u16 v = [v div 256 mod 256, v mod 256]"
  by (simp add: put_u16_def and_255 drop_bit_8)

lemma split_group_val: "split_group g = [g div 256 mod 256, g mod 256]"
  by (simp add: split_group_def and_255 drop_bit_8)

lemma digits_of_hd: "2 \<le> b \<Longrightarrow> 0 < n \<Longrightarrow> hd (digits_of b n) \<noteq> 48"
proof (induction b n rule: digits_of.induct)
  case (1 b n)
  show ?case
  proof (cases "n < b")
    case True
    with 1 show ?thesis by (simp add: digits_of.simps [of b n] digit_cp_def)
  next
    case False
    with 1 have "hd (digits_of b (n div b)) \<noteq> 48" by (simp add: div_greater_zero_iff)
    with False 1 show ?thesis by (simp add: digits_of.simps [of b n] hd_append)
  qed
qed

lemma parse_ipv4_part_str:
  assumes "n < 256"
  shows "parse_ipv4_part (py_str_nat n) = Some (int n)"
proof -
  have "length (py_str_nat n) \<le> 3"
    using assms length_digits_of [of 10 n 3] by (simp add: py_str_nat_def)
  moreover have "length (py_str_nat n) > 1 \<Longrightarrow> hd (py_str_nat n) \<noteq> 48"
    using digits_of_hd [of 10 n] by (cases "n = 0") (simp_all add: py_str_nat_def digits_of.simps [of 10 0])
  moreover have "list_all is_digit (py_str_nat n)"
    using py_str_nat_digits by (auto simp: list_all_iff)
  moreover have "py_str_nat n \<noteq> []" by (simp add: py_str_nat_def)
  ultimately show ?thesis using assms by (auto simp: parse_ipv4_part_def Let_def)
qed

lemma map_option_all_map:
  "(\<And>x. x \<in> set xs \<Longrightarrow> f (g x) = Some (h x)) \<Longrightarrow> map_option_all f (map g xs) = Some (map h xs)"
  by (induction xs) simp_all

lemma map_option_all_Some:
  "map_option_all f xs = Some ys \<Longrightarrow> length ys = length xs \<and> (\<forall>i < length xs. f (xs ! i) = Some (ys ! i))"
proof (induction xs arbitrary: ys)
  case (Cons x xs)
  then show ?case by (auto simp: less_Suc_eq_0_disj nth_Cons split: option.splits nat.splits)
qed simp

lemma ipv4_split:
  assumes "bs \<noteq> []"
  shows "py_split 46 (ipv4_text bs) = map (\<lambda>b. py_str_nat (nat b)) bs"
proof -
  have "46 \<notin> set (py_str_nat n)" for n using py_str_nat_digits [of 46 n] by (auto simp: is_digit_def)
  then show ?thesis unfolding ipv4_text_def using assms by (intro py_split_join) auto
qed

lemma parse_ipv4_text:
  assumes "bytes_ok bs" "length bs = 4"
  shows "parse_ipv4 (ipv4_text bs) = Some bs"
proof -
  have "map_option_all parse_ipv4_part (map (\<lambda>b. py_str_nat (nat b)) bs) = Some (map (\<lambda>b. b) bs)"
  proof (rule map_option_all_map)
    fix b assume "b \<in> set bs"
    with assms have "0 \<le> b" "b < 256" by (auto simp: bytes_ok_def)
    then show "parse_ipv4_part (py_str_nat (nat b)) = Some b" using parse_ipv4_part_str [of "nat b"] by simp
  qed
  moreover have "bs \<noteq> []" using assms by auto
  ultimately show ?thesis using assms by (simp add: parse_ipv4_def ipv4_split)
qed

lemma parse_ipv4_ok:
  assumes "parse_ipv4 v = Some bs"
  shows "length bs = 4" "bytes_ok bs"
proof -
  from assms have p: "length (py_split 46 v) = 4" "map_option_all parse_ipv4_part (py_split 46 v) = Some bs"
    by (auto simp: parse_ipv4_def Let_def split: if_splits)
  note all = map_option_all_Some [OF p(2)]
  show "length bs = 4" using all p by simp
  show "bytes_ok bs"
    unfolding bytes_ok_def
  proof
    fix b assume "b \<in> set bs"
    then obtain i where "i < length bs" "b = bs ! i" by (auto simp: in_set_conv_nth)
    with all have "parse_ipv4_part (py_split 46 v ! i) = Some b" by simp
    then show "0 \<le> b \<and> b < 256"
      using py_int_dec_nonneg [of "py_split 46 v ! i"]
      by (auto simp: parse_ipv4_part_def Let_def list_all_iff split: if_splits)
  qed
qed

lemma concat_split_groups: "bytes_ok (concat (map split_group gs)) \<and> length (concat (map split_group gs)) = 2 * length gs"
  by (induction gs) (simp_all add: split_group_val)

lemma parse_ipv6_ok:
  assumes "parse_ipv6 v = Some bs"
  shows "length bs = 16" "bytes_ok bs"
proof -
  from assms obtain gs where g: "parse_ipv6_groups v = Some gs" "bs = concat (map split_group gs)"
    by (auto simp: parse_ipv6_def)
  then have "length gs = 8"
    by (auto simp: parse_ipv6_groups_def split: if_splits list.splits option.splits prod.splits)
  then show "length bs = 16" "bytes_ok bs" using g(2) concat_split_groups [of gs] by simp_all
qed

subsection \<open>Address classes\<close>

function address_class :: "pystr \<Rightarrow> addr_class" where
  "address_class v =
     (case parse_ipv4 v of
       Some b4 \<Rightarrow> class_v4 b4
     | None \<Rightarrow>
         (case parse_ipv6 v of
           None \<Rightarrow> Invalid
         | Some b6 \<Rightarrow> if is_mapped b6 then address_class (ipv4_text (drop 12 b6)) else class_v6 b6))"
  by pat_completeness auto
termination
proof (relation "measure (\<lambda>v. if parse_ipv4 v = None then 1 else 0 :: nat)")
  fix v b6
  assume "parse_ipv4 v = None" "parse_ipv6 v = Some b6"
  moreover have "parse_ipv4 (ipv4_text (drop 12 b6)) = Some (drop 12 b6)"
    using parse_ipv6_ok [of v b6] calculation by (intro parse_ipv4_text) (simp_all add: bytes_ok_drop)
  ultimately show "(ipv4_text (drop 12 b6), v) \<in> measure (\<lambda>v. if parse_ipv4 v = None then 1 else 0 :: nat)"
    by simp
qed simp

declare address_class.simps [simp del]

end
