(* ===== verification/Dns_Store.thy ===== *)
theory Dns_Store
  imports Dns "HOL-Library.List_Lexorder"
begin

text \<open>
  Model of the stores of \<open>pcc_gateway/dns.py\<close>: the address policy with its rebinding history, the
  hosts table, the bounded cache, and the selection of the answers behind a chain of aliases.
  What a method does under its lock is one definition.  Python compares strings by code point,
  which is the lexicographic order of the lists.
\<close>

type_synonym dns_key = "pystr \<times> int"

section \<open>Address policy\<close>

fun class_name :: "addr_class \<Rightarrow> pystr" where
  "class_name Unspecified = cp ''unspecified''"
| "class_name Loopback = cp ''loopback''"
| "class_name Private = cp ''private''"
| "class_name LinkLocal = cp ''link-local''"
| "class_name Multicast = cp ''multicast''"
| "class_name Public = cp ''public''"
| "class_name Invalid = cp ''invalid''"

record dns_policy =
  pl_allow_private :: bool
  pl_allow_loopback :: bool
  pl_allow_link_local :: bool
  pl_allow_multicast :: bool
  pl_allow_unspecified :: bool
  pl_rebind_mode :: string
  pl_bindings :: "dns_key \<Rightarrow> (pystr list \<times> pystr list) option"

definition policy_new :: "bool \<Rightarrow> bool \<Rightarrow> bool \<Rightarrow> bool \<Rightarrow> bool \<Rightarrow> string \<Rightarrow> dns_policy result" where
  "policy_new private loopback link_local multicast unspecified rebind_mode =
     (if rebind_mode \<notin> {''allow'', ''same-class'', ''pin''}
      then Inl (ValueError ''invalid DNS rebinding mode'')
      else Inr \<lparr>pl_allow_private = private, pl_allow_loopback = loopback, pl_allow_link_local = link_local,
                pl_allow_multicast = multicast, pl_allow_unspecified = unspecified,
                pl_rebind_mode = rebind_mode, pl_bindings = Map.empty\<rparr>)"

definition class_refusal :: "dns_policy \<Rightarrow> addr_class \<Rightarrow> exn option" where
  "class_refusal pl kind =
     (if kind = Private \<and> \<not> pl_allow_private pl
      then Some (DnsError ''address-policy-private'' ''private DNS address rejected'')
      else if kind = Loopback \<and> \<not> pl_allow_loopback pl
      then Some (DnsError ''address-policy-loopback'' ''loopback DNS address rejected'')
      else if kind = LinkLocal \<and> \<not> pl_allow_link_local pl
      then Some (DnsError ''address-policy-link-local'' ''link-local DNS address rejected'')
      else if kind = Multicast \<and> \<not> pl_allow_multicast pl
      then Some (DnsError ''address-policy-multicast'' ''multicast DNS address rejected'')
      else if kind = Unspecified \<and> \<not> pl_allow_unspecified pl
      then Some (DnsError ''address-policy-unspecified'' ''unspecified DNS address rejected'')
      else None)"

fun accept_loop ::
  "dns_policy \<Rightarrow> int \<Rightarrow> pystr list \<Rightarrow> pystr list \<Rightarrow> addr_class list \<Rightarrow> (pystr list \<times> addr_class list) result" where
  "accept_loop pl qtype [] canonical classes = Inr (canonical, classes)"
| "accept_loop pl qtype (v # vs) canonical classes =
     (case normalize_numeric_address v qtype of
       None \<Rightarrow> Inl (DnsError ''address-policy'' ''resolver returned a non-address value'')
     | Some a \<Rightarrow>
         (case class_refusal pl (address_class a) of
           Some e \<Rightarrow> Inl e
         | None \<Rightarrow>
             if a \<in> set canonical then accept_loop pl qtype vs canonical classes
             else accept_loop pl qtype vs (canonical @ [a])
               (if address_class a \<in> set classes then classes else classes @ [address_class a])))"

text \<open>The critical section: compare with the previous binding and record the new one.\<close>

definition rebind :: "dns_key \<Rightarrow> pystr list \<Rightarrow> pystr list \<Rightarrow> dns_policy \<Rightarrow> dns_policy \<times> unit result" where
  "rebind key current_values current_classes pl =
     (let store = pl\<lparr>pl_bindings := (pl_bindings pl)(key \<mapsto> (current_values, current_classes))\<rparr> in
      case pl_bindings pl key of
        None \<Rightarrow> (store, Inr ())
      | Some previous \<Rightarrow>
          if pl_rebind_mode pl = ''pin'' \<and> fst previous \<noteq> current_values
          then (pl, Inl (DnsError ''dns-rebinding'' ''DNS address set changed under pin policy''))
          else if pl_rebind_mode pl = ''same-class'' \<and> snd previous \<noteq> current_classes
          then (pl, Inl (DnsError ''dns-rebinding'' ''DNS address class changed''))
          else (if pl_rebind_mode pl \<noteq> ''allow'' then store else pl, Inr ()))"

definition policy_accept :: "pystr \<Rightarrow> pystr list \<Rightarrow> int \<Rightarrow> dns_policy \<Rightarrow> dns_policy \<times> pystr list result" where
  "policy_accept name vs qtype pl =
     (case accept_loop pl qtype vs [] [] of
       Inl e \<Rightarrow> (pl, Inl e)
     | Inr (canonical, classes) \<Rightarrow>
         if canonical = [] then (pl, Inr canonical)
         else (case rebind (canon_name name, qtype) (sort canonical) (sort (map class_name classes)) pl of
             (pl', Inl e) \<Rightarrow> (pl', Inl e)
           | (pl', Inr _) \<Rightarrow> (pl', Inr canonical)))"

section \<open>Hosts table\<close>

record hosts_table =
  ht_max_entries :: int
  ht_entries :: "(dns_key \<times> pystr list) list"

definition hosts_add_alias :: "pystr \<Rightarrow> int \<Rightarrow> pystr \<Rightarrow> hosts_table \<Rightarrow> hosts_table \<times> unit result" where
  "hosts_add_alias address qtype alias ht =
     (let name = canon_name alias; key = (name, qtype) in
      if name = [] then (ht, Inr ())
      else (case map_of (ht_entries ht) key of
          None \<Rightarrow>
            if int (length (ht_entries ht)) \<ge> ht_max_entries ht
            then (ht, Inl (DnsError ''hosts-too-many-entries'' ''hosts table exceeds limit''))
            else (ht\<lparr>ht_entries := dict_set key [address] (ht_entries ht)\<rparr>, Inr ())
        | Some vs \<Rightarrow>
            if address \<in> set vs then (ht, Inr ())
            else (ht\<lparr>ht_entries := dict_set key (vs @ [address]) (ht_entries ht)\<rparr>, Inr ())))"

text \<open>A loop over a list that stops at the first exception, keeping what was changed.\<close>

fun iter_until :: "('a \<Rightarrow> 's \<Rightarrow> 's \<times> unit result) \<Rightarrow> 'a list \<Rightarrow> 's \<Rightarrow> 's \<times> unit result" where
  "iter_until f [] s = (s, Inr ())"
| "iter_until f (x # xs) s =
     (case f x s of (s', Inl e) \<Rightarrow> (s', Inl e) | (s', Inr _) \<Rightarrow> iter_until f xs s')"

definition hosts_line :: "pystr \<Rightarrow> hosts_table \<Rightarrow> hosts_table \<times> unit result" where
  "hosts_line raw_line ht =
     (let line = py_strip (hd (py_split1 35 raw_line)) in
      if line = [] then (ht, Inr ())
      else if length line > 4096
      then (ht, Inl (DnsError ''hosts-line-too-long'' ''hosts line exceeds gateway limit''))
      else (let fs = py_fields line in
        if length fs < 2 then (ht, Inr ())
        else (case normalize_numeric_address (hd fs) 0 of
            None \<Rightarrow> (ht, Inr ())
          | Some address \<Rightarrow>
              iter_until (hosts_add_alias address (if 58 \<in> set address then DNS_AAAA else DNS_A)) (tl fs) ht)))"

definition hosts_load :: "pystr \<Rightarrow> hosts_table \<Rightarrow> hosts_table \<times> unit result" where
  "hosts_load text ht = iter_until hosts_line (py_splitlines text) ht"

definition hosts_new :: "pystr \<Rightarrow> int \<Rightarrow> hosts_table result" where
  "hosts_new text max_entries =
     (if max_entries \<le> 0 then Inl (ValueError ''hosts entry limit must be positive'')
      else (let ht = \<lparr>ht_max_entries = max_entries, ht_entries = []\<rparr> in
        if text = [] then Inr ht
        else (case hosts_load text ht of (ht', Inl e) \<Rightarrow> Inl e | (ht', Inr _) \<Rightarrow> Inr ht')))"

definition hosts_lookup :: "pystr \<Rightarrow> int \<Rightarrow> hosts_table \<Rightarrow> pystr list option" where
  "hosts_lookup name qtype ht = map_of (ht_entries ht) (canon_name name, qtype)"

section \<open>Cache\<close>

record dns_cache_entry =
  ce_values :: "pystr list"
  ce_expires_ms :: int
  ce_negative :: bool
  ce_source :: string

record dns_cache =
  dc_max_entries :: int
  dc_negative_ttl_ms :: int
  dc_min_ttl_ms :: int
  dc_max_ttl_ms :: int
  dc_entries :: "(dns_key \<times> dns_cache_entry) list"
  dc_order :: "dns_key list"

definition cache_new :: "int \<Rightarrow> int \<Rightarrow> int \<Rightarrow> int \<Rightarrow> dns_cache result" where
  "cache_new max_entries negative_ttl_ms min_ttl_ms max_ttl_ms =
     (if max_entries \<le> 0 \<or> negative_ttl_ms \<le> 0 \<or> min_ttl_ms < 0 \<or> max_ttl_ms < min_ttl_ms
      then Inl (ValueError ''invalid DNS cache limits'')
      else Inr \<lparr>dc_max_entries = max_entries, dc_negative_ttl_ms = negative_ttl_ms,
                dc_min_ttl_ms = min_ttl_ms, dc_max_ttl_ms = max_ttl_ms, dc_entries = [], dc_order = []\<rparr>)"

text \<open>The lookup under the lock, by key.\<close>

definition cache_get_key :: "dns_key \<Rightarrow> int \<Rightarrow> dns_cache \<Rightarrow> dns_cache \<times> dns_cache_entry option" where
  "cache_get_key key now_ms c =
     (case map_of (dc_entries c) key of
       None \<Rightarrow> (c, None)
     | Some entry \<Rightarrow>
         if ce_expires_ms entry \<le> now_ms
         then (c\<lparr>dc_entries := dict_del key (dc_entries c), dc_order := remove1 key (dc_order c)\<rparr>, None)
         else (c\<lparr>dc_order := remove1 key (dc_order c) @ [key]\<rparr>, Some entry))"

definition cache_get :: "pystr \<Rightarrow> int \<Rightarrow> int \<Rightarrow> dns_cache \<Rightarrow> dns_cache \<times> dns_cache_entry option" where
  "cache_get name qtype now_ms c = cache_get_key (canon_name name, qtype) now_ms c"

text \<open>The eviction loop: keys are taken from the front until one is really there.\<close>

fun evict :: "dns_key list \<Rightarrow> (dns_key \<times> dns_cache_entry) list \<Rightarrow>
    dns_key list \<times> (dns_key \<times> dns_cache_entry) list" where
  "evict [] es = ([], es)"
| "evict (oldest # order) es =
     (if map_of es oldest \<noteq> None then (order, dict_del oldest es) else evict order es)"

definition cache_make_room :: "dns_key \<Rightarrow> dns_cache \<Rightarrow> dns_cache" where
  "cache_make_room key c =
     (if map_of (dc_entries c) key \<noteq> None then c\<lparr>dc_order := remove1 key (dc_order c)\<rparr>
      else if int (length (dc_entries c)) \<ge> dc_max_entries c
      then c\<lparr>dc_order := fst (evict (dc_order c) (dc_entries c)),
             dc_entries := snd (evict (dc_order c) (dc_entries c))\<rparr>
      else c)"

definition cache_insert :: "dns_key \<Rightarrow> dns_cache_entry \<Rightarrow> dns_cache \<Rightarrow> dns_cache" where
  "cache_insert key entry c =
     (let c1 = cache_make_room key c in
      c1\<lparr>dc_order := dc_order c1 @ [key], dc_entries := dict_set key entry (dc_entries c1)\<rparr>)"

definition clamp_ttl :: "bool \<Rightarrow> int \<Rightarrow> dns_cache \<Rightarrow> int" where
  "clamp_ttl negative ttl_ms c =
     (if negative then dc_negative_ttl_ms c
      else (let t1 = (if ttl_ms < dc_min_ttl_ms c then dc_min_ttl_ms c else ttl_ms) in
            if t1 > dc_max_ttl_ms c then dc_max_ttl_ms c else t1))"

definition cache_put ::
  "pystr \<Rightarrow> int \<Rightarrow> pystr list \<Rightarrow> int \<Rightarrow> int \<Rightarrow> bool \<Rightarrow> string \<Rightarrow> dns_cache \<Rightarrow> dns_cache \<times> dns_cache_entry" where
  "cache_put name qtype vs ttl_ms now_ms negative source c =
     (let entry = \<lparr>ce_values = vs, ce_expires_ms = now_ms + clamp_ttl negative ttl_ms c,
                   ce_negative = negative, ce_source = source\<rparr> in
      (cache_insert (canon_name name, qtype) entry c, entry))"

section \<open>Answers behind aliases\<close>

definition matching :: "pystr \<Rightarrow> int \<Rightarrow> dns_answer \<Rightarrow> bool" where
  "matching current qtype a \<longleftrightarrow> an_name a = current \<and> an_qtype a = qtype"

definition lower_ttl :: "int \<Rightarrow> dns_answer \<Rightarrow> int" where
  "lower_ttl ttl a = (if an_ttl a < ttl then an_ttl a else ttl)"

text \<open>The first argument is what is left of the depth bound.\<close>

fun answer_loop :: "nat \<Rightarrow> dns_answer list \<Rightarrow> int \<Rightarrow> pystr \<Rightarrow> int \<Rightarrow> pystr list \<Rightarrow> (pystr list \<times> int) result" where
  "answer_loop 0 answers qtype current ttl visited =
     Inl (DnsError ''cname-depth'' ''DNS CNAME chain exceeds gateway limit'')"
| "answer_loop (Suc left) answers qtype current ttl visited =
     (let found = filter (matching current qtype) answers in
      if found \<noteq> [] then Inr (map an_data found, foldl lower_ttl ttl found)
      else (case find (matching current DNS_CNAME) answers of
          None \<Rightarrow> Inr ([], ttl)
        | Some a \<Rightarrow>
            if an_data a = [] then Inr ([], lower_ttl ttl a)
            else if an_data a \<in> set visited \<or> an_data a = current
            then Inl (DnsError ''cname-loop'' ''DNS CNAME chain contains a loop'')
            else answer_loop left answers qtype (an_data a) (lower_ttl ttl a) (visited @ [current])))"

definition answer_values :: "dns_response \<Rightarrow> pystr \<Rightarrow> int \<Rightarrow> (pystr list \<times> int) result" where
  "answer_values response name qtype =
     answer_loop 16 (rs_answers response) qtype (canon_name name) 86400 []"

end
