(* ===== verification/Dns_Resolve.thy ===== *)
theory Dns_Resolve
  imports Dns_Store
begin

text \<open>
  Model of the resolution half of \<open>pcc_gateway/dns.py\<close>: one operation, the resolver configuration and
  its parser, the transport-independent driver, and the resolver that starts drivers.

  A driver step makes at most one call of the transport, which is foreign code: the model takes the
  observation that call returns as an argument and records the calls on handles as events.  Cache
  and policy are shared objects and are passed along as a context.
\<close>

section \<open>Operations\<close>

record dns_ctx =
  cx_cache :: dns_cache
  cx_policy :: dns_policy

record resolve_op =
  op_query_id :: int
  op_name :: pystr
  op_qtype :: int
  op_deadline_ms :: int
  op_query :: bytes
  op_use_tcp :: bool
  op_done :: bool
  op_cancelled :: bool
  op_values :: "pystr list"
  op_error :: string
  op_source :: string

definition op_new :: "int \<Rightarrow> pystr \<Rightarrow> int \<Rightarrow> int \<Rightarrow> resolve_op result" where
  "op_new query_id name qtype deadline_ms =
     rbind (build_query query_id (canon_name name) qtype) (\<lambda>query.
       Inr \<lparr>op_query_id = query_id, op_name = canon_name name, op_qtype = qtype, op_deadline_ms = deadline_ms,
            op_query = query, op_use_tcp = False, op_done = False, op_cancelled = False, op_values = [],
            op_error = '''', op_source = ''dns''\<rparr>)"

definition op_cancel :: "resolve_op \<Rightarrow> resolve_op" where
  "op_cancel op =
     (if \<not> op_done op then op\<lparr>op_cancelled := True, op_done := True, op_error := ''cancelled''\<rparr> else op)"

definition op_check_deadline :: "int \<Rightarrow> resolve_op \<Rightarrow> resolve_op \<times> bool" where
  "op_check_deadline now_ms op =
     (if \<not> op_done op \<and> \<not> op_cancelled op \<and> now_ms \<ge> op_deadline_ms op
      then (op\<lparr>op_error := ''timeout'', op_done := True\<rparr>, True) else (op, False))"

definition tcp_frame :: "bytes \<Rightarrow> bytes" where
  "tcp_frame query = put_u16 (int (length query)) @ query"

definition py_text :: "pystr \<Rightarrow> string" where
  "py_text s = map char_of s"

text \<open>The end of \<open>receive\<close>, once a response has been parsed.\<close>

definition op_answer ::
  "dns_response \<Rightarrow> int \<Rightarrow> resolve_op \<Rightarrow> dns_ctx \<Rightarrow> resolve_op \<times> dns_ctx \<times> bytes option result" where
  "op_answer response now_ms op cx =
     (if rs_truncated response \<and> \<not> op_use_tcp op
      then (op\<lparr>op_use_tcp := True\<rparr>, cx, Inr (Some (tcp_frame (op_query op))))
      else if rs_rcode response = 3
      then (op\<lparr>op_error := ''nxdomain'', op_done := True\<rparr>,
            cx\<lparr>cx_cache := fst (cache_put (op_name op) (op_qtype op) [] 0 now_ms True ''dns'' (cx_cache cx))\<rparr>,
            Inr None)
      else if rs_rcode response \<noteq> 0
      then (op, cx, Inl (DnsError (''rcode-'' @ py_text (py_str_int (rs_rcode response))) ''DNS server returned an error''))
      else (case answer_values response (op_name op) (op_qtype op) of
          Inl e \<Rightarrow> (op, cx, Inl e)
        | Inr (vs, ttl) \<Rightarrow>
            if vs = []
            then (op\<lparr>op_error := ''no-address'', op_done := True\<rparr>,
                  cx\<lparr>cx_cache := fst (cache_put (op_name op) (op_qtype op) [] 0 now_ms True ''dns'' (cx_cache cx))\<rparr>,
                  Inr None)
            else (case policy_accept (op_name op) vs (op_qtype op) (cx_policy cx) of
                (pl, Inl e) \<Rightarrow> (op, cx\<lparr>cx_policy := pl\<rparr>, Inl e)
              | (pl, Inr canonical) \<Rightarrow>
                  (op\<lparr>op_values := canonical, op_done := True\<rparr>,
                   \<lparr>cx_cache = fst (cache_put (op_name op) (op_qtype op) canonical (ttl * 1000) now_ms False ''dns'' (cx_cache cx)),
                    cx_policy = pl\<rparr>,
                   Inr None))))"

definition op_receive ::
  "bytes \<Rightarrow> int \<Rightarrow> resolve_op \<Rightarrow> dns_ctx \<Rightarrow> resolve_op \<times> dns_ctx \<times> bytes option result" where
  "op_receive payload now_ms op cx =
     (if op_cancelled op \<or> op_done op
      then (op, cx, Inl (DnsError ''inactive'' ''DNS operation is no longer active''))
      else if now_ms \<ge> op_deadline_ms op
      then (fst (op_check_deadline now_ms op), cx, Inl (DnsError ''timeout'' ''DNS operation deadline expired''))
      else if op_use_tcp op \<and> (length payload < 2 \<or> u16_at payload 0 \<noteq> Inr (int (length payload) - 2))
      then (op, cx, Inl (DnsError ''bad-tcp-frame'' ''invalid DNS TCP length prefix''))
      else (case parse_response (if op_use_tcp op then drop 2 payload else payload)
                   (op_query_id op) (op_name op) (op_qtype op) of
          Inl e \<Rightarrow> (op, cx, Inl e)
        | Inr response \<Rightarrow> op_answer response now_ms op cx))"

section \<open>Servers and configuration\<close>

record dns_server =
  sv_address :: pystr
  sv_port :: int

definition server_new :: "pystr \<Rightarrow> int \<Rightarrow> dns_server result" where
  "server_new address port =
     (case normalize_numeric_address address 0 of
       None \<Rightarrow> Inl (ValueError ''DNS server address must be numeric'')
     | Some canonical \<Rightarrow>
         if port \<le> 0 \<or> port > 65535 then Inl (ValueError ''invalid DNS server port'')
         else Inr \<lparr>sv_address = canonical, sv_port = port\<rparr>)"

datatype dns_peer = PeerNone | PeerText pystr | PeerServer dns_server

fun matches_peer :: "dns_server \<Rightarrow> dns_peer \<Rightarrow> bool" where
  "matches_peer s PeerNone = False"
| "matches_peer s (PeerText t) =
     (t \<noteq> [] \<and> normalize_numeric_address t 0 = Some (sv_address s) \<and> sv_port s = 53)"
| "matches_peer s (PeerServer p) = (sv_address p = sv_address s \<and> sv_port p = sv_port s)"

record resolver_config =
  rc_servers :: "dns_server list"
  rc_attempts_per_server :: int
  rc_attempt_timeout_ms :: int
  rc_max_invalid_replies :: int
  rc_max_udp_bytes :: int
  rc_max_tcp_bytes :: int
  rc_rotate :: bool
  rc_use_tcp :: bool

datatype server_spec = Numeric dns_server | Text pystr

fun config_servers :: "server_spec list \<Rightarrow> dns_server list result" where
  "config_servers [] = Inr []"
| "config_servers (Numeric s # rest) = rbind (config_servers rest) (\<lambda>ss. Inr (s # ss))"
| "config_servers (Text t # rest) =
     rbind (server_new t 53) (\<lambda>s. rbind (config_servers rest) (\<lambda>ss. Inr (s # ss)))"

definition resolver_config_new ::
  "server_spec list \<Rightarrow> int \<Rightarrow> int \<Rightarrow> int \<Rightarrow> int \<Rightarrow> int \<Rightarrow> bool \<Rightarrow> bool \<Rightarrow> resolver_config result" where
  "resolver_config_new servers attempts timeout invalid udp tcp rot use_tcp =
     (if attempts \<le> 0 \<or> timeout \<le> 0 \<or> invalid \<le> 0 \<or> udp < 512 \<or> tcp < 512 \<or> tcp > 65535
      then Inl (ValueError ''invalid DNS resolver limits'')
      else rbind (config_servers servers) (\<lambda>normalized.
        Inr \<lparr>rc_servers = normalized, rc_attempts_per_server = attempts, rc_attempt_timeout_ms = timeout,
             rc_max_invalid_replies = invalid, rc_max_udp_bytes = udp, rc_max_tcp_bytes = tcp,
             rc_rotate = rot, rc_use_tcp = use_tcp\<rparr>))"

text \<open>\<open>_bounded_resolver_option\<close>: the loop returns the maximum as soon as it is exceeded, even
  before a later character that is not a digit.\<close>

fun bounded_loop :: "int \<Rightarrow> int \<Rightarrow> pystr \<Rightarrow> int option" where
  "bounded_loop maximum parsed [] = Some parsed"
| "bounded_loop maximum parsed (c # cs) =
     (if c < 48 \<or> c > 57 then None
      else if parsed * 10 + c - 48 > maximum then Some maximum
      else bounded_loop maximum (parsed * 10 + c - 48) cs)"

definition bounded_resolver_option :: "pystr \<Rightarrow> int \<Rightarrow> int \<Rightarrow> int option" where
  "bounded_resolver_option v minimum maximum =
     (if v = [] then None
      else (case bounded_loop maximum 0 v of
          None \<Rightarrow> None
        | Some parsed \<Rightarrow> Some (if parsed < minimum then minimum else parsed)))"

record parse_state =
  ps_servers :: "dns_server list"
  ps_attempts :: int
  ps_timeout_ms :: int
  ps_rotate :: bool
  ps_use_tcp :: bool

definition starts_with :: "pystr \<Rightarrow> pystr \<Rightarrow> bool" where
  "starts_with prefix s \<longleftrightarrow> take (length prefix) s = prefix"

definition parse_option :: "pystr \<Rightarrow> parse_state \<Rightarrow> parse_state" where
  "parse_option opt ps =
     (if opt = cp ''rotate'' then ps\<lparr>ps_rotate := True\<rparr>
      else if opt = cp ''use-vc'' \<or> opt = cp ''usevc'' then ps\<lparr>ps_use_tcp := True\<rparr>
      else if starts_with (cp ''attempts:'') opt
      then (case bounded_resolver_option (drop 9 opt) 1 5 of
             None \<Rightarrow> ps | Some parsed \<Rightarrow> ps\<lparr>ps_attempts := parsed\<rparr>)
      else if starts_with (cp ''timeout:'') opt
      then (case bounded_resolver_option (drop 8 opt) 1 30 of
             None \<Rightarrow> ps | Some parsed \<Rightarrow> ps\<lparr>ps_timeout_ms := parsed * 1000\<rparr>)
      else ps)"

definition parse_fields :: "pystr list \<Rightarrow> parse_state \<Rightarrow> parse_state" where
  "parse_fields fs ps =
     (if fs = [] then ps
      else if hd fs = cp ''nameserver'' \<and> length fs \<ge> 2
      then (case normalize_numeric_address (fs ! 1) 0 of
          None \<Rightarrow> ps
        | Some address \<Rightarrow>
            if \<not> list_ex (\<lambda>s. sv_address s = address \<and> sv_port s = 53) (ps_servers ps) \<and> length (ps_servers ps) < 8
            then ps\<lparr>ps_servers := ps_servers ps @ [\<lparr>sv_address = address, sv_port = 53\<rparr>]\<rparr>
            else ps)
      else if hd fs = cp ''options'' then fold parse_option (tl fs) ps
      else ps)"

definition parse_line :: "pystr \<Rightarrow> parse_state \<Rightarrow> parse_state \<times> unit result" where
  "parse_line raw_line ps =
     (let line = py_strip (hd (py_split1 59 (hd (py_split1 35 raw_line)))) in
      if line = [] then (ps, Inr ())
      else if length line > 4096
      then (ps, Inl (DnsError ''resolver-line-too-long'' ''resolver configuration line exceeds gateway limit''))
      else (parse_fields (py_fields line) ps, Inr ()))"

definition parse_resolver_config :: "pystr \<Rightarrow> int \<Rightarrow> int \<Rightarrow> resolver_config result" where
  "parse_resolver_config text default_attempts default_timeout_ms =
     (if length text > 65535
      then Inl (DnsError ''resolver-config-too-large'' ''resolver configuration exceeds gateway limit'')
      else (case iter_until parse_line (py_splitlines text)
              \<lparr>ps_servers = [], ps_attempts = default_attempts, ps_timeout_ms = default_timeout_ms,
               ps_rotate = False, ps_use_tcp = False\<rparr> of
          (ps, Inl e) \<Rightarrow> Inl e
        | (ps, Inr _) \<Rightarrow>
            resolver_config_new (map Numeric (ps_servers ps)) (ps_attempts ps) (ps_timeout_ms ps)
              4 4096 65535 (ps_rotate ps) (ps_use_tcp ps)))"

section \<open>The driver\<close>

definition DNS_IO_OK :: int where "DNS_IO_OK = 0"
definition DNS_IO_WOULD_BLOCK :: int where "DNS_IO_WOULD_BLOCK = 1"
definition DNS_IO_EOF :: int where "DNS_IO_EOF = 2"
definition DNS_IO_ERROR :: int where "DNS_IO_ERROR = 3"
definition DNS_INTEREST_READ :: int where "DNS_INTEREST_READ = 1"
definition DNS_INTEREST_WRITE :: int where "DNS_INTEREST_WRITE = 2"

record dns_io_result =
  io_status :: int
  io_handle :: int
  io_count :: int
  io_data :: bytes
  io_peer :: dns_peer
  io_error :: string

datatype dns_protocol = Udp | Tcp
datatype drive_state = DOpen | DConnect | DSend | DReceive

record drive_result =
  dr_kind :: string
  dr_handle :: int
  dr_interest :: int
  dr_deadline_ms :: int
  dr_server :: "dns_server option"
  dr_values :: "pystr list"
  dr_source :: string
  dr_error :: string

definition drive_result0 :: "string \<Rightarrow> drive_result" where
  "drive_result0 kind = \<lparr>dr_kind = kind, dr_handle = -1, dr_interest = 0, dr_deadline_ms = -1,
     dr_server = None, dr_values = [], dr_source = '''', dr_error = ''''\<rparr>"

text \<open>The transport that is used when none was given.\<close>

definition fail_closed :: "int \<Rightarrow> dns_io_result" where
  "fail_closed handle = \<lparr>io_status = DNS_IO_ERROR, io_handle = handle, io_count = 0, io_data = [],
     io_peer = PeerNone, io_error = ''live-dns-transport-unavailable''\<rparr>"

record dns_driver =
  dd_operation :: "resolve_op option"
  dd_config :: resolver_config
  dd_start_server :: nat
  dd_attempt :: nat
  dd_max_attempts :: nat
  dd_attempt_deadline_ms :: int
  dd_server :: "dns_server option"
  dd_protocol :: dns_protocol
  dd_handle :: int
  dd_state :: drive_state
  dd_send_data :: bytes
  dd_send_offset :: int
  dd_tcp_buffer :: bytes
  dd_tcp_expected :: int
  dd_invalid_replies :: int
  dd_done :: bool
  dd_values :: "pystr list"
  dd_source :: string
  dd_error :: string
  dd_last_error :: string

text \<open>What a step did to a transport handle.\<close>

datatype handle_event = Opened int | Used int | Closed int

definition bounded_deadline :: "int \<Rightarrow> resolver_config \<Rightarrow> resolve_op \<Rightarrow> int" where
  "bounded_deadline now_ms cfg op =
     (let d = now_ms + rc_attempt_timeout_ms cfg in if d > op_deadline_ms op then op_deadline_ms op else d)"

definition select_attempt :: "int \<Rightarrow> resolve_op \<Rightarrow> dns_driver \<Rightarrow> dns_driver" where
  "select_attempt now_ms op d =
     (let cfg = dd_config d;
          index = (dd_start_server d + dd_attempt d div nat (rc_attempts_per_server cfg)) mod length (rc_servers cfg) in
      d\<lparr>dd_server := Some (rc_servers cfg ! index),
        dd_attempt_deadline_ms := bounded_deadline now_ms cfg op,
        dd_protocol := (if rc_use_tcp cfg then Tcp else Udp),
        dd_state := DOpen, dd_handle := -1,
        dd_send_data := (if rc_use_tcp cfg then tcp_frame (op_query op) else op_query op),
        dd_send_offset := 0, dd_tcp_buffer := [], dd_tcp_expected := -1, dd_invalid_replies := 0\<rparr>)"

definition driver_new ::
  "resolve_op option \<Rightarrow> resolver_config \<Rightarrow> int \<Rightarrow> nat \<Rightarrow> pystr list option \<Rightarrow> string \<Rightarrow> string \<Rightarrow> dns_driver" where
  "driver_new operation config now_ms start_server terminal_values terminal_source terminal_error =
     (let max_attempts = length (rc_servers config) * nat (rc_attempts_per_server config);
          done = (terminal_values \<noteq> None \<or> terminal_error \<noteq> '''');
          d = \<lparr>dd_operation = operation, dd_config = config, dd_start_server = start_server, dd_attempt = 0,
               dd_max_attempts = max_attempts, dd_attempt_deadline_ms = now_ms, dd_server = None,
               dd_protocol = (if rc_use_tcp config then Tcp else Udp), dd_handle = -1, dd_state = DOpen,
               dd_send_data = (case operation of None \<Rightarrow> []
                 | Some op \<Rightarrow> if rc_use_tcp config then tcp_frame (op_query op) else op_query op),
               dd_send_offset = 0, dd_tcp_buffer = [], dd_tcp_expected = -1, dd_invalid_replies = 0,
               dd_done = done, dd_values = (case terminal_values of None \<Rightarrow> [] | Some vs \<Rightarrow> vs),
               dd_source = terminal_source, dd_error = terminal_error, dd_last_error = ''''\<rparr> in
      if done then d
      else if max_attempts = 0 then d\<lparr>dd_done := True, dd_error := ''no-dns-servers''\<rparr>
      else (case operation of None \<Rightarrow> d | Some op \<Rightarrow> select_attempt now_ms op d))"

definition close_events :: "dns_driver \<Rightarrow> handle_event list" where
  "close_events d = (if dd_handle d \<noteq> -1 then [Closed (dd_handle d)] else [])"

definition final_result :: "dns_driver \<Rightarrow> drive_result" where
  "final_result d =
     (if dd_error d \<noteq> ''''
      then (drive_result0 ''error'')\<lparr>dr_values := dd_values d, dr_source := dd_source d, dr_error := dd_error d\<rparr>
      else (drive_result0 ''complete'')\<lparr>dr_values := dd_values d, dr_source := dd_source d\<rparr>)"

type_synonym drive_out = "dns_driver \<times> handle_event list \<times> drive_result"

definition drive_terminal :: "string \<Rightarrow> dns_driver \<Rightarrow> drive_out" where
  "drive_terminal error d =
     (let d1 = d\<lparr>dd_handle := -1, dd_done := True\<rparr>;
          d2 = (if error \<noteq> ''''
                then d1\<lparr>dd_error := error,
                        dd_operation := map_option (\<lambda>op. if op_done op then op
                          else op\<lparr>op_error := error, op_done := True\<rparr>) (dd_operation d)\<rparr>
                else (case dd_operation d of
                    None \<Rightarrow> d1
                  | Some op \<Rightarrow> d1\<lparr>dd_values := op_values op, dd_source := op_source op, dd_error := op_error op\<rparr>)) in
      (d2, close_events d, final_result d2))"

definition drive_retry :: "string \<Rightarrow> int \<Rightarrow> resolve_op \<Rightarrow> dns_driver \<Rightarrow> drive_out" where
  "drive_retry error now_ms op d =
     (let d1 = d\<lparr>dd_handle := -1, dd_last_error := error, dd_attempt := dd_attempt d + 1\<rparr>; evs = close_events d in
      if now_ms \<ge> op_deadline_ms op
      then (case drive_terminal ''timeout'' d1 of (d2, evs2, r) \<Rightarrow> (d2, evs @ evs2, r))
      else if dd_attempt d1 \<ge> dd_max_attempts d1
      then (case drive_terminal (''retry-exhausted:'' @ error) d1 of (d2, evs2, r) \<Rightarrow> (d2, evs @ evs2, r))
      else (let d2 = select_attempt now_ms op d1 in
        (d2, evs, (drive_result0 ''retry'')\<lparr>dr_server := dd_server d2, dr_error := error\<rparr>)))"

definition drive_wait :: "int \<Rightarrow> dns_driver \<Rightarrow> drive_result" where
  "drive_wait interest d =
     (drive_result0 (if interest = DNS_INTEREST_READ then ''wait-read'' else ''wait-write''))
       \<lparr>dr_handle := dd_handle d, dr_interest := interest, dr_deadline_ms := dd_attempt_deadline_ms d,
        dr_server := dd_server d\<rparr>"

definition progress :: "dns_driver \<Rightarrow> drive_result" where
  "progress d = (drive_result0 ''progress'')\<lparr>dr_server := dd_server d\<rparr>"

fun error_code :: "exn \<Rightarrow> string" where
  "error_code (DnsError code message) = code"
| "error_code e = ''''"

definition drive_invalid :: "string \<Rightarrow> int \<Rightarrow> bool \<Rightarrow> resolve_op \<Rightarrow> dns_driver \<Rightarrow> drive_out" where
  "drive_invalid code now_ms tcp op d =
     (let d1 = d\<lparr>dd_invalid_replies := dd_invalid_replies d + 1\<rparr> in
      if tcp \<or> take 6 code = ''rcode-'' \<or> dd_invalid_replies d1 \<ge> rc_max_invalid_replies (dd_config d)
      then drive_retry code now_ms op d1
      else (d1, [], (drive_result0 ''ignored'')\<lparr>dr_server := dd_server d1, dr_error := code\<rparr>))"

definition switch_to_tcp :: "bytes \<Rightarrow> int \<Rightarrow> resolve_op \<Rightarrow> dns_driver \<Rightarrow> drive_out" where
  "switch_to_tcp framed_query now_ms op d =
     (let d1 = d\<lparr>dd_handle := -1, dd_protocol := Tcp, dd_state := DOpen, dd_send_data := framed_query,
                 dd_send_offset := 0, dd_tcp_buffer := [], dd_tcp_expected := -1,
                 dd_attempt_deadline_ms := bounded_deadline now_ms (dd_config d) op\<rparr> in
      (d1, close_events d, progress d1))"

text \<open>An empty error text means that the transport gave none.\<close>

definition or_else :: "string \<Rightarrow> string \<Rightarrow> string" where
  "or_else a b = (if a = '''' then b else a)"

definition step_open :: "dns_io_result \<Rightarrow> int \<Rightarrow> resolve_op \<Rightarrow> dns_driver \<Rightarrow> drive_out" where
  "step_open obs now_ms op d =
     (if io_status obs \<noteq> DNS_IO_OK \<or> io_handle obs = -1
      then drive_retry (or_else (io_error obs) ''transport-open'') now_ms op d
      else (let d1 = d\<lparr>dd_handle := io_handle obs, dd_state := DConnect\<rparr> in
        (d1, [Opened (io_handle obs)], progress d1)))"

definition used_first :: "int \<Rightarrow> drive_out \<Rightarrow> drive_out" where
  "used_first h out = (fst out, Used h # fst (snd out), snd (snd out))"

definition step_connect :: "dns_io_result \<Rightarrow> int \<Rightarrow> resolve_op \<Rightarrow> dns_driver \<Rightarrow> drive_out" where
  "step_connect obs now_ms op d = used_first (dd_handle d)
     (if io_status obs = DNS_IO_WOULD_BLOCK then (d, [], drive_wait DNS_INTEREST_WRITE d)
      else if io_status obs \<noteq> DNS_IO_OK
      then drive_retry (or_else (io_error obs) ''transport-connect'') now_ms op d
      else (let d1 = d\<lparr>dd_state := DSend\<rparr> in (d1, [], progress d1)))"

definition step_send :: "dns_io_result \<Rightarrow> int \<Rightarrow> resolve_op \<Rightarrow> dns_driver \<Rightarrow> drive_out" where
  "step_send obs now_ms op d = used_first (dd_handle d)
     (let remaining = int (length (dd_send_data d)) - dd_send_offset d in
      if io_status obs = DNS_IO_WOULD_BLOCK then (d, [], drive_wait DNS_INTEREST_WRITE d)
      else if io_status obs \<noteq> DNS_IO_OK
      then drive_retry (or_else (io_error obs) ''transport-send'') now_ms op d
      else if io_count obs \<le> 0 \<or> io_count obs > remaining
      then drive_retry ''invalid-send-progress'' now_ms op d
      else if dd_protocol d = Udp \<and> io_count obs \<noteq> remaining
      then drive_retry ''short-udp-send'' now_ms op d
      else (let off = dd_send_offset d + io_count obs;
                d1 = d\<lparr>dd_send_offset := off,
                       dd_state := (if off = int (length (dd_send_data d)) then DReceive else DSend)\<rparr> in
        (d1, [], progress d1)))"

text \<open>A datagram that passed the size check.\<close>

definition receive_udp ::
  "dns_io_result \<Rightarrow> int \<Rightarrow> resolve_op \<Rightarrow> dns_driver \<Rightarrow> dns_ctx \<Rightarrow> dns_ctx \<times> drive_out" where
  "receive_udp obs now_ms op d cx =
     (if \<not> (case dd_server d of None \<Rightarrow> False | Some s \<Rightarrow> matches_peer s (io_peer obs))
      then (cx, drive_invalid ''server-mismatch'' now_ms False op d)
      else (case op_receive (io_data obs) now_ms op cx of
          (op1, cx1, Inl e) \<Rightarrow>
            (cx1, drive_invalid (error_code e) now_ms False op1 (d\<lparr>dd_operation := Some op1\<rparr>))
        | (op1, cx1, Inr (Some framed)) \<Rightarrow>
            (cx1, switch_to_tcp framed now_ms op1 (d\<lparr>dd_operation := Some op1\<rparr>))
        | (op1, cx1, Inr None) \<Rightarrow> (cx1, drive_terminal '''' (d\<lparr>dd_operation := Some op1\<rparr>))))"

text \<open>The length prefix is read once; \<open>None\<close> is a length that is out of range.\<close>

definition tcp_expect :: "dns_driver \<Rightarrow> int option" where
  "tcp_expect d =
     (if dd_tcp_expected d < 0 \<and> length (dd_tcp_buffer d) \<ge> 2
      then (let n = dd_tcp_buffer d ! 0 * 256 + dd_tcp_buffer d ! 1 in
            if n \<le> 0 \<or> n > rc_max_tcp_bytes (dd_config d) then None else Some n)
      else Some (dd_tcp_expected d))"

definition receive_tcp ::
  "dns_io_result \<Rightarrow> int \<Rightarrow> resolve_op \<Rightarrow> dns_driver \<Rightarrow> dns_ctx \<Rightarrow> dns_ctx \<times> drive_out" where
  "receive_tcp obs now_ms op d cx =
     (if io_peer obs \<noteq> PeerNone \<and> \<not> (case dd_server d of None \<Rightarrow> False | Some s \<Rightarrow> matches_peer s (io_peer obs))
      then (cx, drive_invalid ''server-mismatch'' now_ms True op d)
      else (let d1 = d\<lparr>dd_tcp_buffer := dd_tcp_buffer d @ io_data obs\<rparr> in
        if int (length (dd_tcp_buffer d1)) > rc_max_tcp_bytes (dd_config d) + 2
        then (cx, drive_retry ''response-too-large'' now_ms op d1)
        else (case tcp_expect d1 of
            None \<Rightarrow> (cx, drive_retry ''bad-tcp-frame-length'' now_ms op d1)
          | Some expected \<Rightarrow>
              let d2 = d1\<lparr>dd_tcp_expected := expected\<rparr> in
              if expected < 0 \<or> int (length (dd_tcp_buffer d2)) < expected + 2
              then (let d3 = d2\<lparr>dd_attempt_deadline_ms := bounded_deadline now_ms (dd_config d) op\<rparr> in
                (cx, d3, [], progress d3))
              else (case op_receive (take (nat expected + 2) (dd_tcp_buffer d2)) now_ms op cx of
                  (op1, cx1, Inl e) \<Rightarrow>
                    (cx1, drive_invalid (error_code e) now_ms True op1 (d2\<lparr>dd_operation := Some op1\<rparr>))
                | (op1, cx1, Inr _) \<Rightarrow> (cx1, drive_terminal '''' (d2\<lparr>dd_operation := Some op1\<rparr>))))))"

definition receive_limit :: "dns_driver \<Rightarrow> int" where
  "receive_limit d = (if dd_protocol d = Udp then rc_max_udp_bytes (dd_config d) else rc_max_tcp_bytes (dd_config d))"

definition step_receive ::
  "dns_io_result \<Rightarrow> int \<Rightarrow> resolve_op \<Rightarrow> dns_driver \<Rightarrow> dns_ctx \<Rightarrow> dns_ctx \<times> drive_out" where
  "step_receive obs now_ms op d cx =
     (let out = (if io_status obs = DNS_IO_WOULD_BLOCK then (cx, d, [], drive_wait DNS_INTEREST_READ d)
        else if io_status obs = DNS_IO_EOF then (cx, drive_retry ''unexpected-eof'' now_ms op d)
        else if io_status obs \<noteq> DNS_IO_OK
        then (cx, drive_retry (or_else (io_error obs) ''transport-receive'') now_ms op d)
        else if io_data obs = [] then (cx, drive_retry ''empty-response'' now_ms op d)
        else if int (length (io_data obs)) > receive_limit d
        then (cx, drive_retry ''response-too-large'' now_ms op d)
        else if dd_protocol d = Udp then receive_udp obs now_ms op d cx
        else receive_tcp obs now_ms op d cx) in
      (fst out, used_first (dd_handle d) (snd out)))"

definition driver_step :: "dns_io_result \<Rightarrow> int \<Rightarrow> dns_driver \<Rightarrow> dns_ctx \<Rightarrow> dns_ctx \<times> drive_out" where
  "driver_step obs now_ms d cx =
     (case dd_operation d of
       None \<Rightarrow> (cx, d, [], final_result d)
     | Some op \<Rightarrow>
         if dd_done d then (cx, d, [], final_result d)
         else if op_cancelled op then (cx, drive_terminal ''cancelled'' d)
         else if now_ms \<ge> op_deadline_ms op then (cx, drive_terminal ''timeout'' d)
         else if now_ms \<ge> dd_attempt_deadline_ms d then (cx, drive_retry ''attempt-timeout'' now_ms op d)
         else (case dd_state d of
             DOpen \<Rightarrow> (cx, step_open obs now_ms op d)
           | DConnect \<Rightarrow> (cx, step_connect obs now_ms op d)
           | DSend \<Rightarrow> (cx, step_send obs now_ms op d)
           | DReceive \<Rightarrow> step_receive obs now_ms op d cx))"

definition driver_cancel :: "dns_driver \<Rightarrow> drive_out" where
  "driver_cancel d =
     (if dd_done d then drive_terminal (dd_error d) d
      else drive_terminal ''cancelled'' (d\<lparr>dd_operation := map_option op_cancel (dd_operation d)\<rparr>))"

section \<open>The resolver\<close>

record resolver =
  rv_ctx :: dns_ctx
  rv_config :: resolver_config
  rv_hosts :: hosts_table
  rv_next_query_id :: int
  rv_next_server :: nat

definition resolver_new :: "dns_ctx \<Rightarrow> resolver_config \<Rightarrow> hosts_table \<Rightarrow> int \<Rightarrow> resolver result" where
  "resolver_new ctx config hosts query_seed =
     (if query_seed \<le> 0 \<or> query_seed > 65535
      then Inl (ValueError ''DNS query seed must fit nonzero u16'')
      else Inr \<lparr>rv_ctx = ctx, rv_config = config, rv_hosts = hosts, rv_next_query_id = query_seed,
                rv_next_server = 0\<rparr>)"

definition next_query_id :: "int \<Rightarrow> int" where
  "next_query_id i = (let n = (i + 1) AND 65535 in if n = 0 then 1 else n)"

definition allocate_operation :: "pystr \<Rightarrow> int \<Rightarrow> int \<Rightarrow> resolver \<Rightarrow> resolver \<times> resolve_op result" where
  "allocate_operation name qtype deadline_ms rv =
     (rv\<lparr>rv_next_query_id := next_query_id (rv_next_query_id rv)\<rparr>,
      op_new (rv_next_query_id rv) name qtype deadline_ms)"

datatype begun = Cached dns_cache_entry | Started resolve_op

definition resolver_begin :: "pystr \<Rightarrow> int \<Rightarrow> int \<Rightarrow> int \<Rightarrow> resolver \<Rightarrow> resolver \<times> begun result" where
  "resolver_begin name qtype now_ms deadline_ms rv =
     (case cache_get name qtype now_ms (cx_cache (rv_ctx rv)) of
       (c, Some entry) \<Rightarrow> (rv\<lparr>rv_ctx := (rv_ctx rv)\<lparr>cx_cache := c\<rparr>\<rparr>, Inr (Cached entry))
     | (c, None) \<Rightarrow>
         (case allocate_operation name qtype deadline_ms (rv\<lparr>rv_ctx := (rv_ctx rv)\<lparr>cx_cache := c\<rparr>\<rparr>) of
           (rv1, Inl e) \<Rightarrow> (rv1, Inl e)
         | (rv1, Inr op) \<Rightarrow> (rv1, Inr (Started op))))"

text \<open>Addresses known without a query go through the policy and make a finished driver.\<close>

definition begin_known ::
  "pystr \<Rightarrow> pystr list \<Rightarrow> int \<Rightarrow> int \<Rightarrow> string \<Rightarrow> resolver \<Rightarrow> resolver \<times> dns_driver result" where
  "begin_known name vs qtype now_ms source rv =
     (case policy_accept name vs qtype (cx_policy (rv_ctx rv)) of
       (pl, Inl e) \<Rightarrow> (rv\<lparr>rv_ctx := (rv_ctx rv)\<lparr>cx_policy := pl\<rparr>\<rparr>, Inl e)
     | (pl, Inr canonical) \<Rightarrow>
         (rv\<lparr>rv_ctx := (rv_ctx rv)\<lparr>cx_policy := pl\<rparr>\<rparr>,
          Inr (driver_new None (rv_config rv) now_ms 0 (Some canonical) source '''')))"

definition begin_query :: "pystr \<Rightarrow> int \<Rightarrow> int \<Rightarrow> int \<Rightarrow> resolver \<Rightarrow> resolver \<times> dns_driver result" where
  "begin_query name qtype now_ms deadline_ms rv =
     (case allocate_operation name qtype deadline_ms rv of
       (rv1, Inl e) \<Rightarrow> (rv1, Inl e)
     | (rv1, Inr op) \<Rightarrow>
         let cfg = rv_config rv1; start_server = (if rc_rotate cfg then rv_next_server rv1 else 0);
             rv2 = (if rc_servers cfg \<noteq> [] \<and> rc_rotate cfg
                    then rv1\<lparr>rv_next_server := (rv_next_server rv1 + 1) mod length (rc_servers cfg)\<rparr> else rv1) in
         (rv2, Inr (driver_new (Some op) cfg now_ms start_server None '''' '''')))"

definition begin_driver :: "pystr \<Rightarrow> int \<Rightarrow> int \<Rightarrow> int \<Rightarrow> resolver \<Rightarrow> resolver \<times> dns_driver result" where
  "begin_driver name qtype now_ms deadline_ms rv =
     (if qtype \<noteq> DNS_A \<and> qtype \<noteq> DNS_AAAA
      then (rv, Inl (ValueError ''gateway resolver supports A and AAAA''))
      else if deadline_ms \<le> now_ms
      then (case allocate_operation name qtype deadline_ms rv of
          (rv1, Inl e) \<Rightarrow> (rv1, Inl e)
        | (rv1, Inr op) \<Rightarrow>
            (rv1, Inr (driver_new (Some (fst (op_check_deadline now_ms op))) (rv_config rv1) now_ms 0 None '''' ''timeout'')))
      else (case normalize_numeric_address name qtype of
          Some numeric \<Rightarrow> begin_known name [numeric] qtype now_ms ''numeric'' rv
        | None \<Rightarrow>
          (case hosts_lookup name qtype (rv_hosts rv) of
            Some vs \<Rightarrow> begin_known name vs qtype now_ms ''hosts'' rv
          | None \<Rightarrow>
            (case cache_get name qtype now_ms (cx_cache (rv_ctx rv)) of
              (c, Some entry) \<Rightarrow>
                (rv\<lparr>rv_ctx := (rv_ctx rv)\<lparr>cx_cache := c\<rparr>\<rparr>,
                 Inr (driver_new None (rv_config rv) now_ms 0
                   (Some (if ce_negative entry then [] else ce_values entry)) ''cache''
                   (if ce_negative entry then ''cached-negative'' else '''')))
            | (c, None) \<Rightarrow>
                begin_query name qtype now_ms deadline_ms (rv\<lparr>rv_ctx := (rv_ctx rv)\<lparr>cx_cache := c\<rparr>\<rparr>)))))"

end
