(* ===== verification/Dns_Driver.thy ===== *)
theory Dns_Driver
  imports Dns_Resolve
begin

text \<open>
  Properties of the DNS driver under an arbitrary transport: every observation may be anything.
  The handles follow the protocol open, use, close; attempts are bounded; the absolute deadline is
  never exceeded.  Two defects of the TCP handling are proved at the end.
\<close>

section \<open>Handle protocol\<close>

fun handle_trace :: "int option \<Rightarrow> handle_event list \<Rightarrow> int option option" where
  "handle_trace cur [] = Some cur"
| "handle_trace cur (Opened h # evs) = (if cur = None then handle_trace (Some h) evs else None)"
| "handle_trace cur (Used h # evs) = (if cur = Some h then handle_trace cur evs else None)"
| "handle_trace cur (Closed h # evs) = (if cur = Some h then handle_trace None evs else None)"

lemma handle_trace_append:
  "handle_trace cur (xs @ ys) = (case handle_trace cur xs of None \<Rightarrow> None | Some c \<Rightarrow> handle_trace c ys)"
  by (induction cur xs rule: handle_trace.induct) simp_all

definition cur_handle :: "dns_driver \<Rightarrow> int option" where
  "cur_handle d = (if dd_handle d = -1 then None else Some (dd_handle d))"

lemma close_events_trace: "handle_trace (cur_handle d) (close_events d) = Some None"
  by (simp add: cur_handle_def close_events_def)

text \<open>The invariant.  A driver that is not finished has an operation, an attempt left, a deadline
  within the operation's, and a handle exactly when it is past the opening state.\<close>

definition driver_ok :: "dns_driver \<Rightarrow> bool" where
  "driver_ok d \<longleftrightarrow> (dd_done d \<longrightarrow> dd_handle d = -1) \<and>
     (\<not> dd_done d \<longrightarrow> dd_attempt d < dd_max_attempts d \<and> (dd_state d = DOpen \<longleftrightarrow> dd_handle d = -1) \<and>
        (\<exists>op. dd_operation d = Some op \<and> dd_attempt_deadline_ms d \<le> op_deadline_ms op))"

definition deadline_of :: "dns_driver \<Rightarrow> int option" where
  "deadline_of d = map_option op_deadline_ms (dd_operation d)"

text \<open>A driver call that keeps the contract.\<close>

definition good_out :: "dns_driver \<Rightarrow> drive_out \<Rightarrow> bool" where
  "good_out d out \<longleftrightarrow> (case out of (d', evs, r) \<Rightarrow>
     driver_ok d' \<and> handle_trace (cur_handle d) evs = Some (cur_handle d') \<and>
     dd_max_attempts d' = dd_max_attempts d \<and> deadline_of d' = deadline_of d \<and>
     dd_attempt d \<le> dd_attempt d' \<and> (dr_kind r = ''retry'' \<longrightarrow> dd_attempt d < dd_attempt d' \<and> \<not> dd_done d'))"

lemma good_out_cong:
  "good_out d1 out \<Longrightarrow> dd_handle d1 = dd_handle d \<Longrightarrow> dd_max_attempts d1 = dd_max_attempts d \<Longrightarrow>
   deadline_of d1 = deadline_of d \<Longrightarrow> dd_attempt d1 = dd_attempt d \<Longrightarrow> good_out d out"
  using arg_cong [of "dd_handle d1" "dd_handle d" "\<lambda>h. if h = -1 then None else Some h"]
  by (simp only: good_out_def cur_handle_def)

lemma final_result_kind: "dr_kind (final_result d) \<noteq> ''retry''"
  by (simp add: final_result_def drive_result0_def)

lemma terminal_good:
  "good_out d (drive_terminal e d)" "dd_done (fst (drive_terminal e d))"
  by (auto simp: drive_terminal_def good_out_def Let_def driver_ok_def cur_handle_def close_events_def
      deadline_of_def final_result_kind option.map_comp comp_def split: option.split)

lemma bounded_deadline_le: "bounded_deadline now cfg op \<le> op_deadline_ms op"
  by (simp add: bounded_deadline_def Let_def)

lemma retry_good:
  assumes "dd_operation d = Some op" "\<not> dd_done d"
  shows "good_out d (drive_retry e now op d)"
proof -
  let ?d1 = "d\<lparr>dd_handle := -1, dd_last_error := e, dd_attempt := dd_attempt d + 1\<rparr>"
  have cl: "handle_trace (cur_handle d) (close_events d) = Some None" by (rule close_events_trace)
  have t: "good_out d (case drive_terminal x ?d1 of (d2, evs2, r) \<Rightarrow> (d2, close_events d @ evs2, r))" for x
    using terminal_good(1) [of ?d1 x] cl
    by (auto simp: good_out_def handle_trace_append cur_handle_def deadline_of_def split: prod.splits)
  show ?thesis
  proof (cases "now \<ge> op_deadline_ms op \<or> dd_attempt ?d1 \<ge> dd_max_attempts ?d1")
    case True
    with t show ?thesis by (auto simp: drive_retry_def Let_def)
  next
    case False
    with assms cl bounded_deadline_le show ?thesis
      by (simp add: drive_retry_def Let_def good_out_def select_attempt_def driver_ok_def cur_handle_def deadline_of_def)
  qed
qed

text \<open>The driver with its operation replaced by one with the same deadline.\<close>

lemma good_out_operation:
  assumes "good_out (d\<lparr>dd_operation := Some op1\<rparr>) out" "dd_operation d = Some op"
    "op_deadline_ms op1 = op_deadline_ms op"
  shows "good_out d out"
  by (rule good_out_cong [OF assms(1)]) (simp_all add: deadline_of_def assms)

lemma op_answer_deadline: "op_answer r now op cx = (op1, cx1, res) \<Longrightarrow> op_deadline_ms op1 = op_deadline_ms op"
  by (auto simp: op_answer_def split: if_splits sum.splits prod.splits)

lemma op_receive_deadline:
  "op_receive p now op cx = (op1, cx1, res) \<Longrightarrow> op_deadline_ms op1 = op_deadline_ms op"
  by (auto simp: op_receive_def op_check_deadline_def dest: op_answer_deadline split: if_splits sum.splits)

lemma invalid_good:
  assumes "driver_ok d" "dd_operation d = Some op" "\<not> dd_done d"
  shows "good_out d (drive_invalid code now tcp op d)"
proof -
  let ?d1 = "d\<lparr>dd_invalid_replies := dd_invalid_replies d + 1\<rparr>"
  have "good_out ?d1 (drive_retry code now op ?d1)" using assms by (intro retry_good) simp_all
  then have "good_out d (drive_retry code now op ?d1)"
    by (rule good_out_cong) (simp_all add: deadline_of_def)
  moreover have "good_out d (?d1, [], (drive_result0 ''ignored'')\<lparr>dr_server := dd_server ?d1, dr_error := code\<rparr>)"
    using assms by (simp add: good_out_def cur_handle_def deadline_of_def driver_ok_def drive_result0_def)
  ultimately show ?thesis by (simp add: drive_invalid_def Let_def)
qed

lemma driver_ok_operation:
  "driver_ok d \<Longrightarrow> dd_operation d = Some op \<Longrightarrow> op_deadline_ms op1 = op_deadline_ms op \<Longrightarrow>
   driver_ok (d\<lparr>dd_operation := Some op1\<rparr>)"
  by (auto simp: driver_ok_def)

lemma switch_good:
  assumes "driver_ok d" "dd_operation d = Some op" "\<not> dd_done d"
  shows "good_out d (switch_to_tcp q now op d)"
  using assms close_events_trace [of d] bounded_deadline_le
  by (simp add: switch_to_tcp_def Let_def good_out_def driver_ok_def cur_handle_def deadline_of_def progress_def drive_result0_def)

lemma used_first_good:
  "good_out d out \<Longrightarrow> dd_handle d \<noteq> -1 \<Longrightarrow> good_out d (used_first (dd_handle d) out)"
  by (auto simp: used_first_def good_out_def cur_handle_def split: prod.splits)

lemma progress_kind [simp]: "dr_kind (progress d) = ''progress''"
  by (simp add: progress_def drive_result0_def)

lemma wait_kind [simp]: "dr_kind (drive_wait i d) \<noteq> ''retry''"
  by (simp add: drive_wait_def drive_result0_def)

lemma receive_udp_good:
  assumes "driver_ok d" "dd_operation d = Some op" "\<not> dd_done d"
  shows "good_out d (snd (receive_udp obs now op d cx))"
proof -
  obtain op1 cx1 res where r: "op_receive (io_data obs) now op cx = (op1, cx1, res)"
    by (cases "op_receive (io_data obs) now op cx")
  let ?d = "d\<lparr>dd_operation := Some op1\<rparr>"
  have dl: "op_deadline_ms op1 = op_deadline_ms op" using op_receive_deadline [OF r] .
  have ok: "driver_ok ?d" "dd_operation ?d = Some op1" "\<not> dd_done ?d"
    using driver_ok_operation [OF assms(1,2) dl] assms(3) by simp_all
  note g = good_out_operation [OF _ assms(2) dl]
  have "good_out d (drive_invalid c now False op1 ?d)" "good_out d (switch_to_tcp q now op1 ?d)"
    "good_out d (drive_terminal x ?d)" for c q x
    by (rule g, rule invalid_good switch_good terminal_good, (rule ok)?, (rule ok)?, (rule ok)?)+
  with invalid_good [OF assms] r show ?thesis
    by (simp add: receive_udp_def split: sum.split option.split)
qed

lemma receive_tcp_good:
  assumes "driver_ok d" "dd_operation d = Some op" "\<not> dd_done d"
  shows "good_out d (snd (receive_tcp obs now op d cx))"
proof -
  have buf: "good_out d out" if "good_out (d\<lparr>dd_tcp_buffer := b, dd_tcp_expected := e\<rparr>) out" for b e out
    by (rule good_out_cong [OF that]) (simp_all add: deadline_of_def)
  have buf': "good_out d out" if "good_out (d\<lparr>dd_tcp_buffer := b\<rparr>) out" for b out
    by (rule good_out_cong [OF that]) (simp_all add: deadline_of_def)
  let ?b = "dd_tcp_buffer d @ io_data obs"
  let ?d1 = "d\<lparr>dd_tcp_buffer := ?b\<rparr>"
  have ok1: "dd_operation ?d1 = Some op" "\<not> dd_done ?d1" using assms by simp_all
  have retry: "good_out d (drive_retry x now op ?d1)" for x by (rule buf' [OF retry_good [OF ok1]])
  have rest: "good_out d (snd (
      let d2 = ?d1\<lparr>dd_tcp_expected := e\<rparr> in
      if e < 0 \<or> int (length (dd_tcp_buffer d2)) < e + 2
      then (let d3 = d2\<lparr>dd_attempt_deadline_ms := bounded_deadline now (dd_config d) op\<rparr> in (cx, d3, [], progress d3))
      else (case op_receive (take (nat e + 2) (dd_tcp_buffer d2)) now op cx of
          (op1, cx1, Inl x) \<Rightarrow> (cx1, drive_invalid (error_code x) now True op1 (d2\<lparr>dd_operation := Some op1\<rparr>))
        | (op1, cx1, Inr _) \<Rightarrow> (cx1, drive_terminal '''' (d2\<lparr>dd_operation := Some op1\<rparr>)))))" for e
  proof -
    let ?d2 = "?d1\<lparr>dd_tcp_expected := e\<rparr>"
    obtain op1 cx1 res where r: "op_receive (take (nat e + 2) ?b) now op cx = (op1, cx1, res)"
      by (cases "op_receive (take (nat e + 2) ?b) now op cx")
    have ok2: "driver_ok ?d2" "dd_operation ?d2 = Some op" using assms by (auto simp: driver_ok_def)
    have dl: "op_deadline_ms op1 = op_deadline_ms op" using op_receive_deadline [OF r] .
    have ok: "driver_ok (?d2\<lparr>dd_operation := Some op1\<rparr>)" "\<not> dd_done (?d2\<lparr>dd_operation := Some op1\<rparr>)"
      using driver_ok_operation [OF ok2 dl] assms(3) by simp_all
    note g = buf [OF good_out_operation [OF _ _ dl]]
    have "good_out d (drive_invalid c now True op1 (?d2\<lparr>dd_operation := Some op1\<rparr>))" for c
      by (rule g [OF invalid_good [OF ok(1) _ ok(2)]]) (use assms in simp_all)
    moreover have "good_out d (drive_terminal c (?d2\<lparr>dd_operation := Some op1\<rparr>))" for c
      by (rule g [OF terminal_good(1)]) (use assms in simp_all)
    moreover have "good_out d (?d2\<lparr>dd_attempt_deadline_ms := bounded_deadline now (dd_config d) op\<rparr>, [],
        progress (?d2\<lparr>dd_attempt_deadline_ms := bounded_deadline now (dd_config d) op\<rparr>))"
      using assms bounded_deadline_le by (simp add: good_out_def driver_ok_def cur_handle_def deadline_of_def)
    ultimately show ?thesis using r by (simp add: Let_def split: sum.split)
  qed
  show ?thesis
    unfolding receive_tcp_def
    using invalid_good [OF assms] retry rest
    by (simp only: Let_def split: if_split option.split) (simp add: Let_def)
qed

lemma driver_step_good:
  assumes ok: "driver_ok d"
  shows "good_out d (snd (driver_step obs now d cx))"
proof (cases "dd_done d")
  case True
  with ok show ?thesis
    by (auto simp: driver_step_def good_out_def final_result_kind split: option.split)
next
  case False
  then obtain op where op: "dd_operation d = Some op" using ok by (auto simp: driver_ok_def)
  have h: "dd_state d = DOpen \<longleftrightarrow> dd_handle d = -1" using ok False by (simp add: driver_ok_def)
  have retry: "good_out d (drive_retry e now op d)" for e using retry_good [OF op False] .
  have open_ok: "good_out d (step_open obs now op d)" if "dd_state d = DOpen"
    using retry ok op False that h
    by (auto simp: step_open_def good_out_def driver_ok_def cur_handle_def deadline_of_def Let_def)
  have connect_ok: "good_out d (step_connect obs now op d)" if s: "dd_state d = DConnect"
    unfolding step_connect_def
  proof (rule used_first_good)
    show "dd_handle d \<noteq> -1" using h s by simp
    show "good_out d (if io_status obs = DNS_IO_WOULD_BLOCK then (d, [], drive_wait DNS_INTEREST_WRITE d)
      else if io_status obs \<noteq> DNS_IO_OK then drive_retry (or_else (io_error obs) ''transport-connect'') now op d
      else (let d1 = d\<lparr>dd_state := DSend\<rparr> in (d1, [], progress d1)))"
      using retry ok op False h s
      by (auto simp: good_out_def driver_ok_def cur_handle_def deadline_of_def Let_def)
  qed
  have send_ok: "good_out d (step_send obs now op d)" if s: "dd_state d = DSend"
    unfolding step_send_def
  proof (rule used_first_good)
    show "dd_handle d \<noteq> -1" using h s by simp
    have upd: "good_out d (d\<lparr>dd_send_offset := off, dd_state := st\<rparr>, [], progress (d\<lparr>dd_send_offset := off, dd_state := st\<rparr>))"
      if "st \<noteq> DOpen" for off st
      using that ok op False h s by (simp add: good_out_def driver_ok_def cur_handle_def deadline_of_def)
    have wait: "good_out d (d, [], drive_wait DNS_INTEREST_WRITE d)" using ok by (simp add: good_out_def)
    show "good_out d (let remaining = int (length (dd_send_data d)) - dd_send_offset d in
      if io_status obs = DNS_IO_WOULD_BLOCK then (d, [], drive_wait DNS_INTEREST_WRITE d)
      else if io_status obs \<noteq> DNS_IO_OK then drive_retry (or_else (io_error obs) ''transport-send'') now op d
      else if io_count obs \<le> 0 \<or> io_count obs > remaining then drive_retry ''invalid-send-progress'' now op d
      else if dd_protocol d = Udp \<and> io_count obs \<noteq> remaining then drive_retry ''short-udp-send'' now op d
      else (let off = dd_send_offset d + io_count obs;
                d1 = d\<lparr>dd_send_offset := off, dd_state := (if off = int (length (dd_send_data d)) then DReceive else DSend)\<rparr> in
        (d1, [], progress d1)))"
      using retry wait upd by (simp add: Let_def)
  qed
  have receive_ok: "good_out d (snd (step_receive obs now op d cx))" if s: "dd_state d = DReceive"
  proof -
    have hh: "dd_handle d \<noteq> -1" using h s by simp
    have wait: "good_out d (d, [], drive_wait DNS_INTEREST_READ d)" using ok by (simp add: good_out_def)
    show ?thesis
      unfolding step_receive_def Let_def
      using retry wait receive_udp_good [OF ok op False] receive_tcp_good [OF ok op False]
      by (auto intro!: used_first_good [OF _ hh])
  qed
  show ?thesis
    using False op retry terminal_good(1) open_ok connect_ok send_ok receive_ok
    by (simp add: driver_step_def split: drive_state.split)
qed

lemma driver_cancel_good: "driver_ok d \<Longrightarrow> good_out d (driver_cancel d)"
proof -
  have "good_out d out" if "good_out (d\<lparr>dd_operation := map_option op_cancel (dd_operation d)\<rparr>) out" for out
    by (rule good_out_cong [OF that]) (simp_all add: deadline_of_def option.map_comp comp_def op_cancel_def if_distrib cong: if_cong)
  then show ?thesis using terminal_good(1) by (simp add: driver_cancel_def)
qed

section \<open>Runs\<close>

datatype drive_call = Step dns_io_result int | Cancel

fun call_driver :: "drive_call \<Rightarrow> dns_driver \<Rightarrow> dns_ctx \<Rightarrow> dns_ctx \<times> drive_out" where
  "call_driver (Step obs now) d cx = driver_step obs now d cx"
| "call_driver Cancel d cx = (cx, driver_cancel d)"

fun drive_run :: "drive_call list \<Rightarrow> dns_driver \<Rightarrow> dns_ctx \<Rightarrow> dns_driver \<times> dns_ctx \<times> handle_event list \<times> drive_result list" where
  "drive_run [] d cx = (d, cx, [], [])"
| "drive_run (c # cs) d cx =
     (case call_driver c d cx of (cx1, d1, evs, r) \<Rightarrow>
       (case drive_run cs d1 cx1 of (d2, cx2, evs2, rs) \<Rightarrow> (d2, cx2, evs @ evs2, r # rs)))"

definition retries :: "drive_result list \<Rightarrow> nat" where
  "retries rs = length (filter (\<lambda>r. dr_kind r = ''retry'') rs)"

lemma call_driver_good: "driver_ok d \<Longrightarrow> good_out d (snd (call_driver c d cx))"
  by (cases c) (simp_all add: driver_step_good driver_cancel_good)

lemma drive_run_good_aux:
  assumes "driver_ok d" "drive_run cs d cx = (d', cx', evs, rs)"
  shows "driver_ok d' \<and> handle_trace (cur_handle d) evs = Some (cur_handle d') \<and>
    dd_max_attempts d' = dd_max_attempts d \<and> deadline_of d' = deadline_of d \<and>
    retries rs + dd_attempt d \<le> dd_attempt d' \<and>
    (0 < retries rs \<longrightarrow> retries rs + dd_attempt d < dd_max_attempts d)"
  using assms
proof (induction cs arbitrary: d cx evs rs)
  case (Cons c cs)
  obtain cx1 d1 evs1 r where c: "call_driver c d cx = (cx1, d1, evs1, r)" by (cases "call_driver c d cx") auto
  obtain evs2 rs2 where n: "drive_run cs d1 cx1 = (d', cx', evs2, rs2)" "evs = evs1 @ evs2" "rs = r # rs2"
    using Cons.prems(2) c by (auto split: prod.splits)
  have "good_out d (d1, evs1, r)" using call_driver_good [OF Cons.prems(1), of c cx] c by simp
  then have ok1: "driver_ok d1" "handle_trace (cur_handle d) evs1 = Some (cur_handle d1)"
    "dd_max_attempts d1 = dd_max_attempts d" "deadline_of d1 = deadline_of d" "dd_attempt d \<le> dd_attempt d1"
    "dr_kind r = ''retry'' \<Longrightarrow> dd_attempt d < dd_attempt d1 \<and> \<not> dd_done d1"
    by (auto simp: good_out_def)
  note IH = Cons.IH [OF ok1(1) n(1)]
  have "dr_kind r = ''retry'' \<Longrightarrow> dd_attempt d1 < dd_max_attempts d"
    using ok1(1,3,6) by (simp add: driver_ok_def)
  then have "0 < retries rs \<longrightarrow> retries rs + dd_attempt d < dd_max_attempts d"
    using IH ok1(3,5,6) n(3) by (cases "dr_kind r = ''retry''"; cases "retries rs2 = 0") (auto simp: retries_def)
  moreover have "retries rs + dd_attempt d \<le> dd_attempt d'"
    using IH ok1(5,6) n(3) by (auto simp: retries_def)
  ultimately show ?case using IH ok1(2-4) n(2) by (simp add: handle_trace_append)
qed (auto simp: retries_def)

lemmas drive_run_good = drive_run_good_aux [THEN conjunct1]
  drive_run_good_aux [THEN conjunct2, THEN conjunct1]
  drive_run_good_aux [THEN conjunct2, THEN conjunct2, THEN conjunct1]
  drive_run_good_aux [THEN conjunct2, THEN conjunct2, THEN conjunct2, THEN conjunct1]
  drive_run_good_aux [THEN conjunct2, THEN conjunct2, THEN conjunct2, THEN conjunct2, THEN conjunct1]
  drive_run_good_aux [THEN conjunct2, THEN conjunct2, THEN conjunct2, THEN conjunct2, THEN conjunct2]

lemma driver_new_ok:
  assumes "d = driver_new (Some op) cfg now start vs src err"
  shows "driver_ok d" "cur_handle d = None" "dd_attempt d = 0" "deadline_of d = Some (op_deadline_ms op)"
    "dd_max_attempts d = length (rc_servers cfg) * nat (rc_attempts_per_server cfg)"
  using assms bounded_deadline_le
  by (auto simp: driver_new_def Let_def driver_ok_def cur_handle_def deadline_of_def select_attempt_def)

text \<open>C18 The driver is safe under every transport: whatever the transport answers, in any sequence of
  steps and cancellations, handles are opened, used and closed in that order (never used or closed
  twice after closing, never two open at once), a finished driver holds no handle, and it starts at
  most one attempt per server and configured try.\<close>

theorem driver_handles_and_attempts:
  assumes "d = driver_new (Some op) cfg now start None '''' ''''"
    and "drive_run calls d cx = (d', cx', evs, rs)"
  shows "handle_trace None evs = Some (cur_handle d') \<and> (dd_done d' \<longrightarrow> cur_handle d' = None) \<and>
    (0 < retries rs \<longrightarrow> retries rs < length (rc_servers cfg) * nat (rc_attempts_per_server cfg))"
proof -
  note n = driver_new_ok [OF assms(1)]
  note r = drive_run_good [OF n(1) assms(2)]
  show ?thesis using r n by (auto simp: driver_ok_def cur_handle_def)
qed

text \<open>C19 The deadline is absolute: retries, the switch to TCP and partial replies never move it, the
  driver's own timer never points behind it, and the first step at or after it ends the driver with
  no handle left.\<close>

theorem driver_deadline_absolute:
  assumes "d = driver_new (Some op) cfg now start None '''' ''''"
    and "drive_run calls d cx = (d', cx', evs, rs)"
  shows "(\<not> dd_done d' \<longrightarrow> dd_attempt_deadline_ms d' \<le> op_deadline_ms op) \<and>
    (op_deadline_ms op \<le> t \<longrightarrow> dd_done (fst (snd (driver_step obs t d' cx'))) \<and>
       cur_handle (fst (snd (driver_step obs t d' cx'))) = None)"
proof -
  note n = driver_new_ok [OF assms(1)]
  note r = drive_run_good [OF n(1) assms(2)]
  have dl: "deadline_of d' = Some (op_deadline_ms op)" using r(4) n(4) by simp
  then obtain op' where op': "dd_operation d' = Some op'" "op_deadline_ms op' = op_deadline_ms op"
    by (auto simp: deadline_of_def)
  have "dd_done (fst (snd (driver_step obs t d' cx')))" if "op_deadline_ms op \<le> t"
    using that op' terminal_good(2) by (simp add: driver_step_def)
  moreover have "driver_ok (fst (snd (driver_step obs t d' cx')))"
    using driver_step_good [OF r(1), of obs t cx'] by (auto simp: good_out_def split: prod.splits)
  ultimately show ?thesis
    using r(1) op' by (auto simp: driver_ok_def cur_handle_def)
qed

section \<open>A concrete resolution\<close>

definition sample_server :: dns_server where
  "sample_server = \<lparr>sv_address = cp ''9.9.9.9'', sv_port = 53\<rparr>"

definition sample_config :: "bool \<Rightarrow> resolver_config" where
  "sample_config tcp = \<lparr>rc_servers = [sample_server], rc_attempts_per_server = 2, rc_attempt_timeout_ms = 1000,
     rc_max_invalid_replies = 4, rc_max_udp_bytes = 4096, rc_max_tcp_bytes = 65535, rc_rotate = False,
     rc_use_tcp = tcp\<rparr>"

definition sample_op :: resolve_op where
  "sample_op = \<lparr>op_query_id = 7, op_name = [97], op_qtype = 1, op_deadline_ms = 5000,
     op_query = [0, 7, 1, 0, 0, 1, 0, 0, 0, 0, 0, 0, 1, 97, 0, 0, 1, 0, 1], op_use_tcp = False, op_done = False,
     op_cancelled = False, op_values = [], op_error = '''', op_source = ''dns''\<rparr>"

definition io :: "int \<Rightarrow> int \<Rightarrow> bytes \<Rightarrow> dns_io_result" where
  "io status count data = \<lparr>io_status = status, io_handle = 3, io_count = count, io_data = data,
     io_peer = PeerServer sample_server, io_error = ''''\<rparr>"

lemma sample_op_new: "op_new 7 [97, 46] 1 5000 = Inr sample_op" by code_simp

lemmas drive_defs = driver_new_def select_attempt_def driver_step_def step_open_def step_connect_def
  step_send_def step_receive_def used_first_def drive_retry_def drive_wait_def drive_terminal_def
  sample_config_def sample_op_def io_def DNS_IO_OK_def DNS_IO_WOULD_BLOCK_def DNS_IO_EOF_def Let_def
  bounded_deadline_def close_events_def progress_def drive_result0_def tcp_frame_def put_u16_val receive_limit_def

text \<open>Open, connect and send over UDP; then the server does not answer in time.\<close>

definition sample_calls :: "drive_call list" where
  "sample_calls = [Step (io 0 0 []) 10, Step (io 0 0 []) 20, Step (io 0 19 []) 30, Step (io 1 0 []) 1000, Step (io 0 0 []) 1010]"

lemma sample_run:
  "\<exists>d' rs. drive_run sample_calls (driver_new (Some sample_op) (sample_config False) 0 0 None '''' '''') cx =
     (d', cx, [Opened 3, Used 3, Used 3, Closed 3, Opened 3], rs) \<and> retries rs = 1 \<and> cur_handle d' = Some 3"
  by (simp add: sample_calls_def drive_defs retries_def cur_handle_def)

lemma sample_calls_done:
  "\<exists>d' rs. drive_run (sample_calls @ [Cancel]) (driver_new (Some sample_op) (sample_config False) 0 0 None '''' '''') cx =
     (d', cx, [Opened 3, Used 3, Used 3, Closed 3, Opened 3, Closed 3], rs) \<and> retries rs = 1 \<and> dd_done d'"
  by (simp add: sample_calls_def drive_defs retries_def driver_cancel_def op_cancel_def final_result_def)

theorem driver_handles_and_attempts_witness:
  "handle_trace None [Opened 3, Used 3, Used 3, Closed 3, Opened 3, Closed 3] = Some None"
proof -
  obtain d' rs where r: "drive_run (sample_calls @ [Cancel])
      (driver_new (Some sample_op) (sample_config False) 0 0 None '''' '''') undefined =
     (d', undefined, [Opened 3, Used 3, Used 3, Closed 3, Opened 3, Closed 3], rs)" "dd_done d'"
    using sample_calls_done by blast
  from driver_handles_and_attempts [OF refl r(1)] r(2) show ?thesis by simp
qed

theorem driver_deadline_absolute_witness:
  "\<exists>d'. dd_handle d' = 3 \<and> dd_done (fst (snd (driver_step (io 1 0 []) 5000 d' undefined))) \<and>
     cur_handle (fst (snd (driver_step (io 1 0 []) 5000 d' undefined))) = None"
proof -
  obtain d' rs where r: "drive_run sample_calls (driver_new (Some sample_op) (sample_config False) 0 0 None '''' '''') undefined =
     (d', undefined, [Opened 3, Used 3, Used 3, Closed 3, Opened 3], rs)" "cur_handle d' = Some 3"
    using sample_run by blast
  have "op_deadline_ms sample_op \<le> 5000" by (simp add: sample_op_def)
  with driver_deadline_absolute [OF refl r(1), of 5000 "io 1 0 []"] r(2) show ?thesis
    by (auto simp: cur_handle_def split: if_splits)
qed

section \<open>Two defects of the TCP handling\<close>

text \<open>With \<open>use_tcp\<close> configured no well-framed reply is accepted: the driver sends framed queries over
  TCP, but the operation is not told, so it reads the length prefix of the reply as the message id
  and rejects every frame whose length differs from the query id.\<close>

theorem tcp_only_rejects_framed_replies:
  assumes "op_new query_id name qtype deadline = Inr op" and "rc_use_tcp cfg" and "rc_servers cfg \<noteq> []"
    and "0 < rc_attempts_per_server cfg" and "d = driver_new (Some op) cfg now start None '''' ''''"
    and "12 \<le> length msg" "length msg < 65536" "int (length msg) \<noteq> query_id" "t < deadline"
  shows "dd_protocol d = Tcp \<and> dd_send_data d = tcp_frame (op_query op) \<and> dd_operation d = Some op \<and>
    op_receive (tcp_frame msg) t op cx =
      (op, cx, Inl (DnsError ''id-mismatch'' ''DNS response id does not match query''))"
proof -
  have op: "op_query_id op = query_id" "op_deadline_ms op = deadline" "\<not> op_use_tcp op" "\<not> op_done op" "\<not> op_cancelled op"
    using assms(1) by (auto simp: op_new_def rbind_eq_Inr)
  have m: "int (length msg) div 256 mod 256 = int (length msg) div 256" using assms(7) by simp
  have "u16_at (tcp_frame msg) 0 = Inr (int (length msg))"
    using m by (simp add: u16_at_def tcp_frame_def put_u16_val)
  moreover obtain fl where "u16_at (tcp_frame msg) 2 = Inr fl"
    using assms(6) by (simp add: u16_at_def tcp_frame_def put_u16_val)
  ultimately have "parse_response (tcp_frame msg) (op_query_id op) (op_name op) (op_qtype op) =
      Inl (DnsError ''id-mismatch'' ''DNS response id does not match query'')"
    using assms(6,8) op(1) by (simp add: parse_response_def tcp_frame_def put_u16_val)
  then have "op_receive (tcp_frame msg) t op cx =
      (op, cx, Inl (DnsError ''id-mismatch'' ''DNS response id does not match query''))"
    using op assms(9) by (simp add: op_receive_def)
  moreover have "dd_protocol d = Tcp \<and> dd_send_data d = tcp_frame (op_query op) \<and> dd_operation d = Some op"
    using assms(2,3,4,5) by (simp add: driver_new_def select_attempt_def Let_def)
  ultimately show ?thesis by blast
qed

text \<open>A complete reply to the sample query: one address.\<close>

definition good_reply :: bytes where
  "good_reply = [0, 7, 0x81, 0x80, 0, 1, 0, 1, 0, 0, 0, 0, 1, 97, 0, 0, 1, 0, 1,
     0xC0, 12, 0, 1, 0, 1, 0, 0, 0, 60, 0, 4, 10, 0, 0, 1]"

lemma good_reply_parses: "\<exists>r. parse_response good_reply 7 [97] 1 = Inr r"
proof -
  have "\<not> isl (parse_response good_reply 7 [97] 1)" by code_simp
  then show ?thesis by (cases "parse_response good_reply 7 [97] 1") simp_all
qed

theorem tcp_only_rejects_framed_replies_witness:
  "op_receive (tcp_frame good_reply) 10 sample_op undefined =
     (sample_op, undefined, Inl (DnsError ''id-mismatch'' ''DNS response id does not match query''))"
  using tcp_only_rejects_framed_replies [OF sample_op_new _ _ _ refl, of "sample_config True" good_reply 10]
  by (simp add: sample_config_def good_reply_def)

text \<open>After a truncated UDP reply the operation stays in TCP mode: when the TCP attempt fails, the
  driver's next attempt is UDP again, yet the operation then demands a length prefix, so a valid UDP
  reply is refused as a bad TCP frame unless its id happens to equal its length minus two.\<close>

theorem udp_refused_after_tcp_fallback:
  assumes "op_answer resp t0 op0 cx0 = (op, cx, Inr (Some framed))"
    and "\<not> op_done op0" "\<not> op_cancelled op0" and "\<not> rc_use_tcp (dd_config d)"
    and "parse_response payload (op_query_id op0) (op_name op0) (op_qtype op0) = Inr r"
    and "op_query_id op0 \<noteq> int (length payload) - 2" and "t < op_deadline_ms op0"
  shows "dd_protocol (select_attempt t op d) = Udp \<and>
    op_receive payload t op cx' = (op, cx', Inl (DnsError ''bad-tcp-frame'' ''invalid DNS TCP length prefix''))"
proof -
  have op: "op = op0\<lparr>op_use_tcp := True\<rparr>"
    using assms(1) by (auto simp: op_answer_def split: if_splits sum.splits prod.splits)
  have "u16_at payload 0 = Inr (op_query_id op0)"
    using assms(5) by (auto simp: parse_response_def rbind_eq_Inr split: if_splits)
  then have "op_receive payload t op cx' = (op, cx', Inl (DnsError ''bad-tcp-frame'' ''invalid DNS TCP length prefix''))"
    using assms(2,3,6,7) by (simp add: op_receive_def op)
  then show ?thesis using assms(4) by (simp add: select_attempt_def Let_def)
qed

theorem udp_refused_after_tcp_fallback_witness:
  "op_receive good_reply 100 (sample_op\<lparr>op_use_tcp := True\<rparr>) undefined =
     (sample_op\<lparr>op_use_tcp := True\<rparr>, undefined, Inl (DnsError ''bad-tcp-frame'' ''invalid DNS TCP length prefix''))"
proof -
  let ?resp = "\<lparr>rs_query_id = 7, rs_truncated = True, rs_rcode = 0, rs_answers = []\<rparr>"
  have a: "op_answer ?resp 50 sample_op undefined =
      (sample_op\<lparr>op_use_tcp := True\<rparr>, undefined, Inr (Some (tcp_frame (op_query sample_op))))"
    by (simp add: op_answer_def sample_op_def)
  obtain r where "parse_response good_reply (op_query_id sample_op) (op_name sample_op) (op_qtype sample_op) = Inr r"
    using good_reply_parses by (auto simp: sample_op_def)
  from udp_refused_after_tcp_fallback [OF a _ _ _ this, of
      "driver_new (Some sample_op) (sample_config False) 0 0 None '''' ''''" 100 undefined]
  show ?thesis by (simp add: drive_defs good_reply_def)
qed

end
