(* ===== verification/Dns_Codec.thy ===== *)
theory Dns_Codec
  imports Dns
begin

text \<open>
  Properties of the DNS wire codec and of numeric addresses: names round trip, decoding always
  ends inside the packet, an accepted response answers the question asked, and the textual form of
  an address is canonical.
\<close>

section \<open>Names\<close>

lemma and_C0: "0 \<le> x \<Longrightarrow> x < 64 \<Longrightarrow> (x::int) AND 192 = 0"
proof -
  have "list_all (\<lambda>x. x AND 192 = (0::int)) [0..63]" by code_simp
  then show "0 \<le> x \<Longrightarrow> x < 64 \<Longrightarrow> x AND 192 = 0" by (auto simp: list_all_iff)
qed

lemma encode_label_Inr:
  "encode_label l = Inr bs \<longleftrightarrow> bs = int (length l) # l \<and> (\<forall>c \<in> set l. c \<le> 127 \<and> label_byte_ok c) \<and>
     0 < length l \<and> length l \<le> 63 \<and> hd l \<noteq> 45 \<and> last l \<noteq> 45"
  by (auto simp: encode_label_def list_ex_iff list_all_iff not_le [symmetric])

lemma decode_encoded_labels:
  assumes "encode_labels ls = Inr enc" "drop cursor data = enc @ post"
  shows "decode_loop data acc cursor nx jumps vis =
    Inr (acc @ map py_lower ls, case nx of None \<Rightarrow> cursor + length enc | Some n \<Rightarrow> n)"
  using assms
proof (induction ls arbitrary: acc cursor enc)
  case Nil
  then have "drop cursor data = 0 # post" by simp
  from drop_eq_ConsD [OF this] Nil show ?case
    by (subst decode_loop.simps) (auto split: option.split)
next
  case (Cons l ls)
  from Cons.prems(1) obtain e where e: "encode_label l = Inr (int (length l) # l)"
    "encode_labels ls = Inr e" "enc = int (length l) # l @ e"
    by (auto simp: rbind_eq_Inr encode_label_Inr)
  then have l: "0 < length l" "length l \<le> 63" "\<forall>c \<in> set l. c \<le> 127"
    by (auto simp: encode_label_Inr)
  have d: "drop cursor data = int (length l) # l @ e @ post" using Cons.prems(2) e by simp
  note at = drop_eq_ConsD [OF d]
  have d1: "drop (Suc cursor) data = l @ e @ post"
    using d at by (metis Cons_nth_drop_Suc list.inject)
  have len: "Suc (cursor + length l) \<le> length data"
    using arg_cong [OF d1, of length] at l(1) by (simp, linarith)
  have d2: "drop (Suc (cursor + length l)) data = e @ post"
    using arg_cong [OF d1, of "drop (length l)"] by (simp add: add.commute)
  note IH = Cons.IH [OF e(2) d2, of "acc @ [py_lower l]"]
  have "list_ex (\<lambda>c. c > 127) l = False" using l(3) by (auto simp: list_ex_iff)
  then have "decode_loop data acc cursor nx jumps vis =
      decode_loop data (acc @ [py_lower l]) (Suc (cursor + length l)) nx jumps vis"
    using at l len d1 by (subst decode_loop.simps) (simp add: and_C0)
  with IH e show ?case by (simp split: option.split)
qed

lemma canon_lower: "py_lower (canon_name s) = canon_name s"
  by (simp add: canon_name_def)

lemma split_canon_lower: "map py_lower (py_split 46 (canon_name s)) = py_split 46 (canon_name s)"
proof (rule map_idI)
  fix p assume "p \<in> set (py_split 46 (canon_name s))"
  then have "set p \<subseteq> set (canon_name s)" by (rule py_split_elems)
  then have "\<forall>c \<in> set p. lower_cp c = c" by (auto simp: canon_name_def py_lower_def)
  then show "py_lower p = p" by (simp add: py_lower_def map_idI)
qed

text \<open>Names round trip: whatever surrounds it in the packet, an encoded name is decoded to the
  canonical (lower-case, no trailing dot) form of the name, and the cursor ends right behind it.\<close>

theorem dns_name_round_trip:
  assumes "encode_name name = Inr bs"
  shows "decode_name (pre @ bs @ post) (length pre) = Inr (canon_name name, length pre + length bs)"
proof -
  from assms have e: "encode_labels (py_split 46 (canon_name name)) = Inr bs"
    by (auto simp: encode_name_def Let_def split: if_splits)
  have "drop (length pre) (pre @ bs @ post) = bs @ post" by simp
  from decode_encoded_labels [OF e this] show ?thesis
    by (simp add: decode_name_def split_canon_lower)
qed

theorem dns_name_round_trip_witness:
  "decode_name ([9] @ [1, 97, 2, 98, 99, 0] @ [7]) 1 = Inr ([97, 46, 98, 99], 7)"
proof -
  have e: "encode_name [65, 46, 98, 67, 46] = Inr [1, 97, 2, 98, 99, 0]" by code_simp
  have c: "canon_name [65, 46, 98, 67, 46] = [97, 46, 98, 99]" by code_simp
  from dns_name_round_trip [OF e, of "[9]" "[7]"] c show ?thesis by simp
qed

lemma decode_loop_bound:
  "decode_loop data labels cursor nx jumps vis = Inr (ls, n) \<Longrightarrow>
   (case nx of None \<Rightarrow> cursor < n \<and> n \<le> length data | Some m \<Rightarrow> n = m)"
proof (induction data labels cursor nx jumps vis rule: decode_loop.induct)
  case (1 data labels cursor nx jumps vis)
  note unf = "1.prems" [unfolded decode_loop.simps [of data labels cursor nx jumps vis]]
  show ?case
  proof (cases "data ! cursor AND 0xC0 = 0xC0")
    case True
    from unf True have c: "cursor + 1 < length data" and r: "decode_loop data labels (pointer_at data cursor)
        (case nx of None \<Rightarrow> Some (cursor + 2) | Some n \<Rightarrow> Some n) (jumps + 1) (vis @ [pointer_at data cursor]) = Inr (ls, n)"
      by (auto split: if_splits)
    have "case (case nx of None \<Rightarrow> Some (cursor + 2) | Some n \<Rightarrow> Some n) of
        None \<Rightarrow> pointer_at data cursor < n \<and> n \<le> length data | Some m \<Rightarrow> n = m"
      by (rule "1.IH"(1) [OF _ True _ _ _ r]) (use unf True in \<open>auto split: if_splits\<close>)
    with c show ?thesis by (auto split: option.splits)
  next
    case False
    show ?thesis
    proof (cases "data ! cursor = 0")
      case True
      with unf show ?thesis by (auto split: if_splits option.splits)
    next
      case nz: False
      let ?raw = "take (nat (data ! cursor)) (drop (cursor + 1) data)"
      from unf False nz have r: "decode_loop data (labels @ [py_lower ?raw])
          (cursor + 1 + nat (data ! cursor)) nx jumps vis = Inr (ls, n)"
        by (simp split: if_splits)
      have "case nx of None \<Rightarrow> cursor + 1 + nat (data ! cursor) < n \<and> n \<le> length data | Some m \<Rightarrow> n = m"
        by (rule "1.IH"(2) [OF _ False _ nz _ _ r]) (use unf False nz in \<open>auto split: if_splits\<close>)
      then show ?thesis by (auto split: option.splits)
    qed
  qed
qed

lemma decode_name_bound:
  "decode_name data off = Inr (name, n) \<Longrightarrow> off < n \<and> n \<le> length data"
  by (auto simp: decode_name_def rbind_eq_Inr dest!: decode_loop_bound)

section \<open>Numeric addresses\<close>

lemma set_py_join: "set (py_join c ps) \<subseteq> insert c (\<Union> (set ` set ps))"
  by (induction c ps rule: py_join.induct) auto

lemma split_dcolon_Cons:
  "x \<noteq> 58 \<Longrightarrow> split_dcolon v = [v] \<Longrightarrow> split_dcolon (x # v) = [x # v]"
  by (cases v) simp_all

lemma split_dcolon_colon:
  "v \<noteq> [] \<Longrightarrow> hd v \<noteq> 58 \<Longrightarrow> split_dcolon v = [v] \<Longrightarrow> split_dcolon (58 # v) = [58 # v]"
  by (cases v) simp_all

lemma split_dcolon_append:
  "58 \<notin> set p \<Longrightarrow> split_dcolon v = [v] \<Longrightarrow> split_dcolon (p @ v) = [p @ v]"
  by (induction p) (simp_all add: split_dcolon_Cons)

lemma split_dcolon_join:
  assumes "\<forall>p \<in> set ps. p \<noteq> [] \<and> 58 \<notin> set p"
  shows "split_dcolon (py_join 58 ps) = [py_join 58 ps]"
  using assms
proof (induction "58 :: int" ps rule: py_join.induct)
  case (2 x)
  then show ?case using split_dcolon_append [of x "[]"] by simp
next
  case (3 x y ys)
  have y: "y \<noteq> []" "58 \<notin> set y" using "3.prems" by auto
  then have "py_join 58 (y # ys) \<noteq> []" "hd (py_join 58 (y # ys)) \<noteq> 58"
    by (cases ys; cases y; simp)+
  with 3 show ?case by (auto intro!: split_dcolon_append split_dcolon_colon)
qed simp

lemma byte_pairs_split:
  "bytes_ok bs \<Longrightarrow> even (length bs) \<Longrightarrow>
   concat (map split_group (byte_pairs bs)) = bs \<and> length (byte_pairs bs) = length bs div 2 \<and>
   (\<forall>g \<in> set (byte_pairs bs). 0 \<le> g \<and> g < 65536)"
  by (induction bs rule: byte_pairs.induct) (auto simp: split_group_val)

lemma parse_ipv6_piece_hex:
  assumes "0 \<le> g" "g < 65536"
  shows "parse_ipv6_piece (py_hex_nat (nat g)) = Some g" "46 \<notin> set (py_hex_nat (nat g))"
    "58 \<notin> set (py_hex_nat (nat g))" "37 \<notin> set (py_hex_nat (nat g))"
proof -
  have h: "\<forall>c \<in> set (py_hex_nat (nat g)). is_hex c" using py_hex_nat_hex by blast
  have "length (py_hex_nat (nat g)) \<le> 4"
    using assms length_digits_of [of 16 "nat g" 4] by (simp add: py_hex_nat_def)
  with h assms show "parse_ipv6_piece (py_hex_nat (nat g)) = Some g"
    by (simp add: parse_ipv6_piece_def list_all_iff)
  show "46 \<notin> set (py_hex_nat (nat g))" "58 \<notin> set (py_hex_nat (nat g))" "37 \<notin> set (py_hex_nat (nat g))"
    using h by (auto simp: is_hex_def)
qed

lemma side_groups_hex:
  "\<forall>g \<in> set gs. 0 \<le> g \<and> g < 65536 \<Longrightarrow> side_groups a (map (\<lambda>g. py_hex_nat (nat g)) gs) = Some gs"
  by (induction gs) (simp_all add: parse_ipv6_piece_hex)

lemma ipv6_text_facts:
  assumes "bytes_ok bs" "length bs = 16"
  defines "gs \<equiv> byte_pairs bs"
  shows "ipv6_text bs = py_join 58 (map (\<lambda>g. py_hex_nat (nat g)) gs)"
    "py_split 58 (ipv6_text bs) = map (\<lambda>g. py_hex_nat (nat g)) gs"
    "split_dcolon (ipv6_text bs) = [ipv6_text bs]" "ipv6_text bs \<noteq> []"
    "\<forall>c \<in> set (ipv6_text bs). is_hex c \<or> c = 58"
proof -
  have g: "length gs = 8" "\<forall>g \<in> set gs. 0 \<le> g \<and> g < 65536"
    using byte_pairs_split [OF assms(1)] assms(2) by (simp_all add: gs_def)
  show t: "ipv6_text bs = py_join 58 (map (\<lambda>g. py_hex_nat (nat g)) gs)" by (simp add: ipv6_text_def gs_def)
  have "gs \<noteq> []" using g by auto
  then show s: "py_split 58 (ipv6_text bs) = map (\<lambda>g. py_hex_nat (nat g)) gs"
    unfolding t using g(2) by (intro py_split_join) (auto simp: parse_ipv6_piece_hex)
  show "split_dcolon (ipv6_text bs) = [ipv6_text bs]"
    unfolding t using g(2) by (intro split_dcolon_join) (auto simp: parse_ipv6_piece_hex)
  show "ipv6_text bs \<noteq> []" using s g by auto
  show "\<forall>c \<in> set (ipv6_text bs). is_hex c \<or> c = 58"
    unfolding t using py_hex_nat_hex set_py_join [of 58 "map (\<lambda>g. py_hex_nat (nat g)) gs"] by fastforce
qed

lemma parse_ipv6_text:
  assumes "bytes_ok bs" "length bs = 16"
  shows "parse_ipv6 (ipv6_text bs) = Some bs"
proof -
  note f = ipv6_text_facts [OF assms]
  note g = byte_pairs_split [OF assms(1)]
  have "37 \<notin> set (ipv6_text bs)" using f(5) by (auto simp: is_hex_def)
  moreover have "side_groups True (map (\<lambda>g. py_hex_nat (nat g)) (byte_pairs bs)) = Some (byte_pairs bs)"
    using g assms(2) by (intro side_groups_hex) simp
  ultimately have "parse_ipv6_groups (ipv6_text bs) = Some (byte_pairs bs)"
    using f(2,3,4) g assms(2) by (simp add: parse_ipv6_groups_def ipv6_side_groups_def)
  with g assms(2) show ?thesis by (simp add: parse_ipv6_def)
qed

lemma parse_ipv4_none: "46 \<notin> set v \<Longrightarrow> parse_ipv4 v = None"
  by (simp add: parse_ipv4_def py_split_absent)

lemma parse_ipv4_ipv6_text: "bytes_ok bs \<Longrightarrow> length bs = 16 \<Longrightarrow> parse_ipv4 (ipv6_text bs) = None"
  using ipv6_text_facts(5) [of bs] by (intro parse_ipv4_none) (auto simp: is_hex_def)

lemma strip_no_space:
  assumes "\<forall>c \<in> set v. \<not> is_space c"
  shows "py_strip v = v"
proof -
  have "dropWhile is_space v = v" using assms by (cases v) auto
  moreover have "v = [] \<or> \<not> is_space (last v)" using assms by (cases v rule: rev_cases) auto
  ultimately show ?thesis by (simp add: strip_by_def rstrip_by_id)
qed

lemma ipv4_text_chars: "\<forall>c \<in> set (ipv4_text bs). is_digit c \<or> c = 46"
  unfolding ipv4_text_def using py_str_nat_digits set_py_join [of 46 "map (\<lambda>b. py_str_nat (nat b)) bs"]
  by fastforce

lemma py_strip_texts:
  "py_strip (ipv4_text bs) = ipv4_text bs"
  "bytes_ok bs \<Longrightarrow> length bs = 16 \<Longrightarrow> py_strip (ipv6_text bs) = ipv6_text bs"
  using ipv4_text_chars [of bs] ipv6_text_facts(5) [of bs]
  by (auto intro!: strip_no_space simp: is_space_def is_digit_def is_hex_def)

text \<open>The two shapes of a normalised address.\<close>

lemma normalize_cases:
  assumes "normalize_numeric_address v q = Some a"
  obtains b where "parse_ipv4 (py_strip v) = Some b" "a = ipv4_text b" "q = 0 \<or> q = DNS_A"
  | b where "parse_ipv6 (py_strip v) = Some b" "a = ipv6_text b" "q = 0 \<or> q = DNS_AAAA"
  using assms
  by (auto simp: normalize_numeric_address_def Let_def split: option.splits if_splits)

lemma parse_ipv4_no_ipv6:
  assumes "parse_ipv4 v = Some b"
  shows "parse_ipv6 v = None"
proof -
  from assms have p: "length (py_split 46 v) = 4" "map_option_all parse_ipv4_part (py_split 46 v) = Some b"
    by (auto simp: parse_ipv4_def Let_def split: if_splits)
  have "\<forall>c \<in> set part. is_digit c" if part: "part \<in> set (py_split 46 v)" for part
  proof -
    obtain i where "i < length (py_split 46 v)" "part = py_split 46 v ! i"
      using part by (auto simp: in_set_conv_nth)
    with map_option_all_Some [OF p(2)] show ?thesis
      by (auto simp: parse_ipv4_part_def list_all_iff Let_def split: if_splits)
  qed
  then have "set v \<subseteq> {c. is_digit c} \<union> {46}"
    using set_py_join [of 46 "py_split 46 v"] by auto
  then have c: "58 \<notin> set v" by (auto simp: is_digit_def)
  have d: "46 \<in> set v" using p(1) py_split_absent [of 46 v] by fastforce
  have "split_dcolon v = [v]" using c split_dcolon_append [of v "[]"] by simp
  moreover have "side_groups True [v] = Some gs \<Longrightarrow> length gs = 2" for gs
    using d by (auto split: option.splits)
  ultimately show ?thesis
    using c by (auto simp: parse_ipv6_def parse_ipv6_groups_def ipv6_side_groups_def py_split_absent
        split: if_splits option.splits)
qed

lemma normalize_ipv4_text:
  "bytes_ok b \<Longrightarrow> length b = 4 \<Longrightarrow> q = 0 \<or> q = DNS_A \<Longrightarrow>
   normalize_numeric_address (ipv4_text b) q = Some (ipv4_text b)"
  by (auto simp: normalize_numeric_address_def py_strip_texts parse_ipv4_text)

lemma normalize_ipv6_text:
  "bytes_ok b \<Longrightarrow> length b = 16 \<Longrightarrow> q = 0 \<or> q = DNS_AAAA \<Longrightarrow>
   normalize_numeric_address (ipv6_text b) q = Some (ipv6_text b)"
  by (auto simp: normalize_numeric_address_def py_strip_texts parse_ipv6_text parse_ipv4_ipv6_text)

lemma address_class_ipv4: "parse_ipv4 v = Some b \<Longrightarrow> address_class v = class_v4 b"
  by (subst address_class.simps) simp

text \<open>The class depends on the address bytes only; an IPv4-mapped address has the class of the IPv4
  address inside.\<close>

lemma address_class_ipv6:
  assumes "parse_ipv6 v = Some b"
  shows "address_class v = (if is_mapped b then class_v4 (drop 12 b) else class_v6 b)"
proof -
  have "parse_ipv4 v = None" using assms parse_ipv4_no_ipv6 by (cases "parse_ipv4 v") auto
  moreover have "parse_ipv4 (ipv4_text (drop 12 b)) = Some (drop 12 b)"
    using parse_ipv6_ok [OF assms] by (intro parse_ipv4_text) (simp_all add: bytes_ok_drop)
  ultimately show ?thesis
    using assms address_class_ipv4 [of "ipv4_text (drop 12 b)"] by (subst address_class.simps) simp
qed

lemma class_not_Invalid [simp]: "class_v4 b \<noteq> Invalid" "class_v6 b \<noteq> Invalid"
  by (simp_all add: class_v4_def class_v6_def Let_def)

lemma normalize_stable:
  assumes "normalize_numeric_address v q = Some a"
  shows "normalize_numeric_address a q = Some a" "address_class a \<noteq> Invalid"
  using assms parse_ipv4_ok parse_ipv6_ok
  by (auto elim!: normalize_cases simp: normalize_ipv4_text normalize_ipv6_text
      address_class_ipv4 [OF parse_ipv4_text] address_class_ipv6 [OF parse_ipv6_text] split: if_splits)

text \<open>C22 Normalised addresses are canonical: normalising again changes nothing, two texts of the
  same family normalise alike exactly when they denote the same address bytes, and the policy
  class of the normalised text is that of the original, so no spelling (compressed, mixed case or
  IPv4-mapped) escapes the class of its address.\<close>

theorem normalize_numeric_address_canonical:
  assumes "normalize_numeric_address v q = Some a"
  shows "normalize_numeric_address a q = Some a \<and> address_class a = address_class (py_strip v) \<and>
    address_class a \<noteq> Invalid \<and>
    (\<forall>b. parse_ipv6 (py_strip v) = Some b \<and> is_mapped b \<longrightarrow> address_class a = class_v4 (drop 12 b)) \<and>
    (normalize_numeric_address v' q = Some a \<longleftrightarrow>
       q \<in> {0, DNS_A} \<and> parse_ipv4 (py_strip v') \<noteq> None \<and> parse_ipv4 (py_strip v') = parse_ipv4 (py_strip v) \<or>
       q \<in> {0, DNS_AAAA} \<and> parse_ipv6 (py_strip v') \<noteq> None \<and> parse_ipv6 (py_strip v') = parse_ipv6 (py_strip v))"
  using assms
proof (cases rule: normalize_cases)
  case (1 b)
  have b: "bytes_ok b" "length b = 4" using parse_ipv4_ok [OF 1(1)] by simp_all
  have t: "parse_ipv4 a = Some b" using parse_ipv4_text [OF b] 1(2) by simp
  have n6: "parse_ipv6 (py_strip v) = None" using parse_ipv4_no_ipv6 [OF 1(1)] .
  have "normalize_numeric_address v' q = Some a \<longleftrightarrow> parse_ipv4 (py_strip v') = Some b"
  proof
    assume "normalize_numeric_address v' q = Some a"
    then show "parse_ipv4 (py_strip v') = Some b"
    proof (cases rule: normalize_cases)
      case (1 c)
      then show ?thesis using parse_ipv4_text [of c] parse_ipv4_ok [of "py_strip v'" c] t by simp
    next
      case (2 c)
      then show ?thesis using parse_ipv4_ipv6_text [of c] parse_ipv6_ok [of "py_strip v'" c] t by simp
    qed
  qed (use 1 in \<open>auto simp: normalize_numeric_address_def\<close>)
  with 1 b t n6 show ?thesis
    by (auto simp: normalize_ipv4_text address_class_ipv4)
next
  case (2 b)
  have b: "bytes_ok b" "length b = 16" using parse_ipv6_ok [OF 2(1)] by simp_all
  have t: "parse_ipv6 a = Some b" "parse_ipv4 a = None"
    using parse_ipv6_text [OF b] parse_ipv4_ipv6_text [OF b] 2(2) by simp_all
  have n4: "parse_ipv4 (py_strip v) = None"
    using 2(1) parse_ipv4_no_ipv6 by (cases "parse_ipv4 (py_strip v)") auto
  have "normalize_numeric_address v' q = Some a \<longleftrightarrow> parse_ipv6 (py_strip v') = Some b"
  proof
    assume "normalize_numeric_address v' q = Some a"
    then show "parse_ipv6 (py_strip v') = Some b"
    proof (cases rule: normalize_cases)
      case (1 c)
      then show ?thesis using parse_ipv4_text [of c] parse_ipv4_ok [of "py_strip v'" c] t by simp
    next
      case (2 c)
      then show ?thesis using parse_ipv6_text [of c] parse_ipv6_ok [of "py_strip v'" c] t by simp
    qed
  next
    assume p: "parse_ipv6 (py_strip v') = Some b"
    then have "parse_ipv4 (py_strip v') = None"
      using parse_ipv4_no_ipv6 by (cases "parse_ipv4 (py_strip v')") auto
    with p 2 show "normalize_numeric_address v' q = Some a" by (auto simp: normalize_numeric_address_def)
  qed
  with 2 b t n4 show ?thesis
    by (simp add: normalize_ipv6_text address_class_ipv6 n4) auto
qed

theorem normalize_numeric_address_canonical_witness:
  "address_class (cp ''0:0:0:0:0:ffff:7f00:1'') = Loopback \<and>
   normalize_numeric_address (cp ''::FFFF:7F00:1'') 28 = Some (cp ''0:0:0:0:0:ffff:7f00:1'')"
proof -
  let ?b = "[0,0,0,0,0,0,0,0,0,0,255,255,127,0,0,1]"
  have b: "parse_ipv6 (py_strip (cp '' ::ffff:127.0.0.1'')) = Some ?b"
    and b': "parse_ipv6 (py_strip (cp ''::FFFF:7F00:1'')) = Some ?b"
    and b4: "parse_ipv4 (py_strip (cp '' ::ffff:127.0.0.1'')) = None"
    by code_simp+
  have t: "ipv6_text ?b = cp ''0:0:0:0:0:ffff:7f00:1''"
    by (simp add: ipv6_text_def py_hex_nat_def digits_of.simps digit_cp_def cp_def)
  have n: "normalize_numeric_address (cp '' ::ffff:127.0.0.1'') 28 = Some (cp ''0:0:0:0:0:ffff:7f00:1'')"
    by (simp only: normalize_numeric_address_def Let_def b b4 option.case DNS_AAAA_def t) simp
  have m: "is_mapped ?b" "class_v4 (drop 12 ?b) = Loopback"
    by (simp_all add: is_mapped_def class_v4_def Let_def numeral_eq_Suc)
  note p = normalize_numeric_address_canonical [OF n, of "cp ''::FFFF:7F00:1''"]
  from p b m have "address_class (cp ''0:0:0:0:0:ffff:7f00:1'') = Loopback" by metis
  moreover from p b b' have "normalize_numeric_address (cp ''::FFFF:7F00:1'') 28 = Some (cp ''0:0:0:0:0:ffff:7f00:1'')"
    by (simp add: DNS_AAAA_def)
  ultimately show ?thesis by blast
qed

section \<open>Responses\<close>

lemma u16_at_Inr: "u16_at data off = Inr v \<Longrightarrow> off + 2 \<le> length data \<and> v = data ! off * 256 + data ! (off + 1)"
  by (auto simp: u16_at_def split: if_splits)

lemma u16_at_range: "bytes_ok data \<Longrightarrow> u16_at data off = Inr v \<Longrightarrow> 0 \<le> v \<and> v < 65536"
  using bytes_ok_nth [of data off] bytes_ok_nth [of data "off + 1"]
  by (auto simp: u16_at_def split: if_splits)

lemma u32_at_range:
  assumes "bytes_ok data" "u32_at data off = Inr v"
  shows "0 \<le> v \<and> v < 4294967296"
proof -
  have "off + 4 \<le> length data" "v = data ! off * 16777216 + data ! (off + 1) * 65536 + data ! (off + 2) * 256 + data ! (off + 3)"
    using assms(2) by (auto simp: u32_at_def split: if_splits)
  then show ?thesis
    using bytes_ok_nth [OF assms(1), of off] bytes_ok_nth [OF assms(1), of "off + 1"]
      bytes_ok_nth [OF assms(1), of "off + 2"] bytes_ok_nth [OF assms(1), of "off + 3"] by linarith
qed

definition answer_ok :: "dns_answer \<Rightarrow> bool" where
  "answer_ok a \<longleftrightarrow> 0 \<le> an_ttl a \<and> an_ttl a < 4294967296 \<and>
     (an_qtype a = DNS_A \<or> an_qtype a = DNS_AAAA \<or> an_qtype a = DNS_CNAME) \<and>
     (an_qtype a \<noteq> DNS_CNAME \<longrightarrow> normalize_numeric_address (an_data a) (an_qtype a) = Some (an_data a))"

lemma parse_answer_sound:
  assumes ok: "bytes_ok payload" and r: "parse_answer payload off = Inr (ao, off1)"
  shows "off < off1 \<and> off1 \<le> length payload \<and> (case ao of None \<Rightarrow> True | Some a \<Rightarrow> answer_ok a)"
proof -
  from r obtain owner o1 ty cl ttl rd where d:
    "decode_name payload off = Inr (owner, o1)" "u16_at payload o1 = Inr ty"
    "u16_at payload (o1 + 2) = Inr cl" "u32_at payload (o1 + 4) = Inr ttl" "u16_at payload (o1 + 8) = Inr rd"
    by (auto simp: parse_answer_def rbind_eq_Inr)
  let ?rdata = "take (nat rd) (drop (o1 + 10) payload)"
  have rest: "off1 = o1 + 10 + nat rd" "o1 + 10 + nat rd \<le> length payload"
    "ao = None \<or> (\<exists>data. ao = Some \<lparr>an_name = owner, an_qtype = ty, an_data = data, an_ttl = ttl\<rparr> \<and>
       (ty = DNS_A \<and> rd = 4 \<and> data = ipv4_text ?rdata \<or> ty = DNS_AAAA \<and> rd = 16 \<and> data = ipv6_text ?rdata \<or> ty = DNS_CNAME))"
    using r d by (auto simp: parse_answer_def rbind_eq_Inr Let_def split: if_splits)
  have b: "bytes_ok ?rdata" "length ?rdata = nat rd"
    using ok rest(2) by (simp_all add: bytes_ok_take bytes_ok_drop)
  have "answer_ok a" if "ao = Some a" for a
    using rest(3) that u32_at_range [OF ok d(4)] b
    by (auto simp: answer_ok_def normalize_ipv4_text normalize_ipv6_text DNS_A_def DNS_AAAA_def DNS_CNAME_def)
  then show ?thesis
    using rest(1,2) decode_name_bound [OF d(1)] by (auto split: option.split)
qed

lemma parse_answers_sound:
  "bytes_ok payload \<Longrightarrow> parse_answers payload off n = Inr as \<Longrightarrow> length as \<le> n \<and> (\<forall>a \<in> set as. answer_ok a)"
proof (induction n arbitrary: off as)
  case (Suc n)
  then obtain ao off1 rest where p: "parse_answer payload off = Inr (ao, off1)"
    "parse_answers payload off1 n = Inr rest" "as = (case ao of None \<Rightarrow> rest | Some a \<Rightarrow> a # rest)"
    by (auto simp: rbind_eq_Inr)
  with Suc.IH [OF Suc.prems(1) p(2)] parse_answer_sound [OF Suc.prems(1) p(1)] show ?case
    by (auto split: option.splits)
qed simp

lemma and_exp: "(x::int) AND 2 ^ k = (if bit x k then 2 ^ k else 0)"
  by (rule bit_eqI) (auto simp: bit_simps)

lemma flags_split:
  assumes "(fl::int) AND 0x8000 \<noteq> 0" "fl AND 0x7800 = 0"
  shows "fl AND 0xF800 = 0x8000"
proof -
  have "fl AND 0xF800 = fl AND (0x8000 OR 0x7800)" by simp
  also have "\<dots> = (fl AND 0x8000) OR (fl AND 0x7800)" by (simp only: bit.conj_disj_distrib)
  also have "\<dots> = fl AND 2 ^ 15" using assms by simp
  finally show ?thesis using assms and_exp [of fl 15] by (simp split: if_splits)
qed

text \<open>An accepted response answers the question that was asked: it carries the query's id, has the
  response bit set and the query opcode, echoes exactly one question with the canonical name, type
  and class asked for, and contributes at most 256 answers, each of a supported type with a 32-bit
  time to live and, unless it is an alias, a canonical numeric address of its own family.\<close>

theorem parse_response_sound:
  assumes "parse_response payload query_id name qtype = Inr r" and "bytes_ok payload"
  shows "rs_query_id r = query_id \<and> query_id = payload ! 0 * 256 + payload ! 1 \<and>
    (payload ! 2 * 256 + payload ! 3) AND 0xF800 = 0x8000 \<and> payload ! 4 * 256 + payload ! 5 = 1 \<and>
    (\<exists>off. decode_name payload 12 = Inr (canon_name name, off) \<and> u16_at payload off = Inr qtype \<and>
       u16_at payload (off + 2) = Inr DNS_CLASS_IN) \<and>
    length (rs_answers r) \<le> 256 \<and> (\<forall>a \<in> set (rs_answers r). answer_ok a)"
proof -
  from assms(1) obtain fl qd an off where h:
    "u16_at payload 0 = Inr query_id" "u16_at payload 2 = Inr fl" "fl AND 0x8000 \<noteq> 0" "fl AND 0x7800 = 0"
    "u16_at payload 4 = Inr qd" "u16_at payload 6 = Inr an" "qd = 1" "an \<le> 256"
    "decode_name payload 12 = Inr (canon_name name, off)" "u16_at payload off = Inr qtype"
    "u16_at payload (off + 2) = Inr DNS_CLASS_IN"
    "parse_answers payload (off + 4) (nat an) = Inr (rs_answers r)" "rs_query_id r = query_id"
    by (auto simp: parse_response_def rbind_eq_Inr split: if_splits)
  have fl: "fl = payload ! 2 * 256 + payload ! 3" using u16_at_Inr [OF h(2)] by simp
  have "fl AND 0xF800 = 0x8000" using flags_split h(3,4) .
  with h fl parse_answers_sound [OF assms(2) h(12)] u16_at_Inr [OF h(1)] u16_at_Inr [OF h(5)] show ?thesis
    by auto
qed

text \<open>A reply to the query with id 7 for \<open>a\<close>: one address record.\<close>

definition sample_reply :: bytes where
  "sample_reply = [0, 7, 0x81, 0x80, 0, 1, 0, 1, 0, 0, 0, 0, 1, 97, 0, 0, 1, 0, 1,
     0xC0, 12, 0, 1, 0, 1, 0, 0, 0, 60, 0, 4, 10, 0, 0, 1]"

theorem parse_response_sound_witness:
  "\<exists>r. parse_response sample_reply 7 (cp ''A.'') 1 = Inr r \<and> length (rs_answers r) = 1 \<and>
     (\<forall>a \<in> set (rs_answers r). answer_ok a)"
proof -
  let ?r = "parse_response sample_reply 7 (cp ''A.'') 1"
  have e: "isl ?r = False" by code_simp
  then obtain r where r: "?r = Inr r" by (cases ?r) simp_all
  have "length (rs_answers (projr ?r)) = 1" by code_simp
  then have "length (rs_answers r) = 1" using r by simp
  moreover have "bytes_ok sample_reply" by (simp add: sample_reply_def)
  ultimately show ?thesis using parse_response_sound [OF r] r by blast
qed

end
