(* ===== verification/Dns_Policy.thy ===== *)
theory Dns_Policy
  imports Dns_Codec Dns_Store
begin

text \<open>
  Properties of the address policy (what passes, and the rebinding history over any sequence of
  resolutions), of the hosts table and of the selection of answers behind aliases.
\<close>

section \<open>Accepted addresses\<close>

definition class_allowed :: "dns_policy \<Rightarrow> addr_class \<Rightarrow> bool" where
  "class_allowed pl kind \<longleftrightarrow>
     (kind = Private \<longrightarrow> pl_allow_private pl) \<and> (kind = Loopback \<longrightarrow> pl_allow_loopback pl) \<and>
     (kind = LinkLocal \<longrightarrow> pl_allow_link_local pl) \<and> (kind = Multicast \<longrightarrow> pl_allow_multicast pl) \<and>
     (kind = Unspecified \<longrightarrow> pl_allow_unspecified pl)"

lemma class_refusal_None: "class_refusal pl kind = None \<longleftrightarrow> class_allowed pl kind"
  by (auto simp: class_refusal_def class_allowed_def)

definition accepted_address :: "dns_policy \<Rightarrow> int \<Rightarrow> pystr \<Rightarrow> bool" where
  "accepted_address pl qtype a \<longleftrightarrow>
     normalize_numeric_address a qtype = Some a \<and> address_class a \<noteq> Invalid \<and> class_allowed pl (address_class a)"

text \<open>The addresses accepted are the normalised inputs without repetition, and the class list holds
  exactly their classes.\<close>

lemma accept_loop_sound:
  assumes "accept_loop pl q vs can cls = Inr (can', cls')"
    and "distinct can" "distinct cls" "set cls = address_class ` set can" "\<forall>a \<in> set can. accepted_address pl q a"
  shows "distinct can' \<and> distinct cls' \<and> set cls' = address_class ` set can' \<and>
    (\<forall>a \<in> set can'. accepted_address pl q a) \<and>
    set can' = set can \<union> {a. \<exists>v \<in> set vs. normalize_numeric_address v q = Some a}"
  using assms
proof (induction pl q vs can cls rule: accept_loop.induct)
  case (2 pl q v vs can cls)
  from "2.prems"(1) obtain a where a: "normalize_numeric_address v q = Some a"
    "class_allowed pl (address_class a)"
    by (auto simp: class_refusal_None [symmetric] split: option.splits)
  have acc: "accepted_address pl q a"
    using normalize_stable [OF a(1)] a(2) by (simp add: accepted_address_def)
  show ?case
  proof (cases "a \<in> set can")
    case True
    with 2 a show ?thesis by (auto simp: class_refusal_None [symmetric])
  next
    case False
    let ?cls = "if address_class a \<in> set cls then cls else cls @ [address_class a]"
    have "accept_loop pl q vs (can @ [a]) ?cls = Inr (can', cls')"
      using "2.prems"(1) a False by (simp add: class_refusal_None [symmetric])
    moreover have "distinct (can @ [a])" "distinct ?cls" "set ?cls = address_class ` set (can @ [a])"
      "\<forall>b \<in> set (can @ [a]). accepted_address pl q b"
      using "2.prems" False acc by auto
    ultimately have "distinct can' \<and> distinct cls' \<and> set cls' = address_class ` set can' \<and>
        (\<forall>a \<in> set can'. accepted_address pl q a) \<and>
        set can' = set (can @ [a]) \<union> {a. \<exists>v \<in> set vs. normalize_numeric_address v q = Some a}"
      using "2.IH"(2) [OF a(1) _ False] a(2) by (simp add: class_refusal_None [symmetric])
    with a show ?thesis by auto
  qed
qed simp

lemma class_allowed_bindings [simp]: "class_allowed (pl\<lparr>pl_bindings := b\<rparr>) = class_allowed pl"
  by (rule ext) (simp add: class_allowed_def)

lemma rebind_fields:
  assumes "rebind key vs cls pl = (pl', r)"
  shows "pl_rebind_mode pl' = pl_rebind_mode pl \<and> class_allowed pl' = class_allowed pl"
proof -
  have "pl' = pl \<or> (\<exists>b. pl' = pl\<lparr>pl_bindings := b\<rparr>)"
    using assms by (auto simp: rebind_def Let_def split: option.splits if_splits)
  then show ?thesis by auto
qed

lemma policy_accept_fields:
  assumes "policy_accept name vs q pl = (pl', r)"
  shows "pl_rebind_mode pl' = pl_rebind_mode pl \<and> class_allowed pl' = class_allowed pl"
proof -
  have "pl' = pl \<or> (\<exists>key a b r. rebind key a b pl = (pl', r))"
    using assms by (auto simp: policy_accept_def split: sum.splits prod.splits if_splits)
  then show ?thesis using rebind_fields by blast
qed

text \<open>What a successful call with a non-empty result leaves in the history.\<close>

definition summary :: "pystr list \<Rightarrow> pystr list \<times> pystr list" where
  "summary canonical = (sort canonical, sorted_list_of_set (class_name ` address_class ` set canonical))"

lemma class_name_inj: "inj class_name"
proof (rule injI)
  fix x y assume "class_name x = class_name y"
  then show "x = y" by (cases x; cases y) simp_all
qed

lemma sort_classes:
  "distinct cls \<Longrightarrow> sort (map class_name cls) = sorted_list_of_set (class_name ` set cls)"
  using sorted_list_of_set_sort_remdups [of "map class_name cls"] class_name_inj
  by (simp add: distinct_map inj_on_subset distinct_remdups_id)

lemma policy_accept_sound:
  assumes "policy_accept name vs q pl = (pl', Inr can)"
  shows "distinct can" "\<forall>a \<in> set can. accepted_address pl q a"
    "set can = {a. \<exists>v \<in> set vs. normalize_numeric_address v q = Some a}"
    "can \<noteq> [] \<Longrightarrow> rebind (canon_name name, q) (fst (summary can)) (snd (summary can)) pl = (pl', Inr ())"
    "can = [] \<Longrightarrow> pl' = pl"
proof -
  obtain cls where l: "accept_loop pl q vs [] [] = Inr (can, cls)"
    and rest: "can = [] \<and> pl' = pl \<or>
      can \<noteq> [] \<and> rebind (canon_name name, q) (sort can) (sort (map class_name cls)) pl = (pl', Inr ())"
    using assms by (auto simp: policy_accept_def split: sum.splits prod.splits if_splits)
  note s = accept_loop_sound [OF l, simplified]
  from s show "distinct can" "\<forall>a \<in> set can. accepted_address pl q a"
    "set can = {a. \<exists>v \<in> set vs. normalize_numeric_address v q = Some a}" by blast+
  from s have "sort (map class_name cls) = snd (summary can)"
    by (simp add: sort_classes summary_def)
  with rest show "can \<noteq> [] \<Longrightarrow> rebind (canon_name name, q) (fst (summary can)) (snd (summary can)) pl = (pl', Inr ())"
    by (simp add: summary_def)
  from rest show "can = [] \<Longrightarrow> pl' = pl" by simp
qed

section \<open>Rebinding history\<close>

type_synonym policy_call = "pystr \<times> pystr list \<times> int"

definition policy_step :: "policy_call \<Rightarrow> dns_policy \<Rightarrow> dns_policy" where
  "policy_step call pl = fst (policy_accept (fst call) (fst (snd call)) (snd (snd call)) pl)"

text \<open>What of the binding of a key never changes again, by mode.\<close>

definition same_binding :: "string \<Rightarrow> pystr list \<times> pystr list \<Rightarrow> pystr list \<times> pystr list \<Rightarrow> bool" where
  "same_binding mode b b' \<longleftrightarrow> (mode = ''pin'' \<longrightarrow> fst b' = fst b) \<and> (mode = ''same-class'' \<longrightarrow> snd b' = snd b)"

lemma rebind_binding:
  assumes "rebind key vs cls pl = (pl', r)"
  shows "pl_rebind_mode pl' = pl_rebind_mode pl"
    "pl_bindings pl k = Some b \<Longrightarrow> \<exists>b'. pl_bindings pl' k = Some b' \<and> same_binding (pl_rebind_mode pl) b b'"
    "r = Inr () \<Longrightarrow> pl_bindings pl key = Some b \<Longrightarrow> same_binding (pl_rebind_mode pl) b (vs, cls)"
    "r = Inr () \<Longrightarrow> \<exists>b'. pl_bindings pl' key = Some b' \<and> same_binding (pl_rebind_mode pl) b' (vs, cls)"
  using assms
  by (cases b; auto simp: rebind_def same_binding_def Let_def split: option.splits if_splits)+

lemma policy_step_binding:
  assumes "pl_bindings pl k = Some b"
  shows "\<exists>b'. pl_bindings (policy_step call pl) k = Some b' \<and> same_binding (pl_rebind_mode pl) b b'"
proof -
  obtain name vs q where c: "call = (name, vs, q)" by (cases call)
  show ?thesis
  proof (cases "accept_loop pl q vs [] []")
    case (Inl e)
    with assms c show ?thesis by (simp add: policy_step_def policy_accept_def same_binding_def)
  next
    case (Inr p)
    obtain can cls where p: "p = (can, cls)" by (cases p)
    obtain pl2 r2 where r: "rebind (canon_name name, q) (sort can) (sort (map class_name cls)) pl = (pl2, r2)"
      by (cases "rebind (canon_name name, q) (sort can) (sort (map class_name cls)) pl")
    have "policy_step call pl = (if can = [] then pl else pl2)"
      using c p Inr r by (simp add: policy_step_def policy_accept_def split: sum.split)
    with rebind_binding(2) [OF r assms] assms show ?thesis by (cases "can = []") (auto simp: same_binding_def)
  qed
qed

lemma policy_step_mode: "pl_rebind_mode (policy_step call pl) = pl_rebind_mode pl"
  using policy_accept_fields by (metis policy_step_def prod.collapse)

lemma policy_run_binding:
  "pl_bindings pl k = Some b \<Longrightarrow>
   \<exists>b'. pl_bindings (fold policy_step calls pl) k = Some b' \<and> same_binding (pl_rebind_mode pl) b b'"
proof (induction calls arbitrary: pl b)
  case (Cons call calls)
  obtain b1 where 1: "pl_bindings (policy_step call pl) k = Some b1" "same_binding (pl_rebind_mode pl) b b1"
    using policy_step_binding [OF Cons.prems] by blast
  obtain b2 where "pl_bindings (fold policy_step calls (policy_step call pl)) k = Some b2"
    "same_binding (pl_rebind_mode pl) b1 b2"
    using Cons.IH [OF 1(1)] by (auto simp: policy_step_mode)
  with 1 show ?case by (auto simp: same_binding_def)
qed (simp add: same_binding_def)

lemma policy_run_mode: "pl_rebind_mode (fold policy_step calls pl) = pl_rebind_mode pl"
  by (induction calls arbitrary: pl) (simp_all add: policy_step_mode)

lemma summary_fst: "distinct a \<Longrightarrow> distinct b \<Longrightarrow> fst (summary a) = fst (summary b) \<Longrightarrow> set a = set b"
  unfolding summary_def by (metis fst_conv set_sort)

lemma summary_snd:
  "snd (summary a) = snd (summary b) \<Longrightarrow> address_class ` set a = address_class ` set b"
  using sorted_list_of_set_inject [of "class_name ` address_class ` set a" "class_name ` address_class ` set b"]
    inj_image_eq_iff [OF class_name_inj] by (simp add: summary_def)

text \<open>The policy lets through only permitted addresses: a successful call returns exactly the
  normalised inputs, each once, each a canonical address of the family asked for whose class
  (that of the embedded address for IPv4-mapped ones) the flags permit.\<close>

theorem policy_accepts_only_permitted:
  assumes "policy_accept name vs q pl = (pl', Inr can)"
  shows "distinct can \<and> set can = {a. \<exists>v \<in> set vs. normalize_numeric_address v q = Some a} \<and>
    (\<forall>v \<in> set vs. normalize_numeric_address v q \<noteq> None) \<and>
    (\<forall>a \<in> set can. normalize_numeric_address a q = Some a \<and> class_allowed pl (address_class a))"
proof -
  have "normalize_numeric_address v q \<noteq> None" if "v \<in> set vs" for v
  proof -
    have "accept_loop pl q vs can cls = Inr r \<Longrightarrow> v \<in> set vs \<Longrightarrow> normalize_numeric_address v q \<noteq> None"
      for can cls r
      by (induction pl q vs can cls rule: accept_loop.induct) (auto split: option.splits if_splits)
    with that assms show ?thesis
      by (auto simp: policy_accept_def split: sum.splits prod.splits if_splits)
  qed
  with policy_accept_sound(1-3) [OF assms] show ?thesis by (auto simp: accepted_address_def)
qed

text \<open>C21 Rebinding protection holds over time: once a non-empty answer was accepted for a name and type,
  then after any further calls for any names, every non-empty answer accepted for it is the same
  address set under \<open>pin\<close> and has the same set of address classes under \<open>same-class\<close>.\<close>

theorem policy_rebinding_protection:
  assumes "policy_accept name vs q pl = (pl1, Inr can1)" "can1 \<noteq> []"
    and "pl2 = fold policy_step calls pl1"
    and "policy_accept name' vs' q pl2 = (pl3, Inr can2)" "can2 \<noteq> []" "canon_name name' = canon_name name"
  shows "(pl_rebind_mode pl = ''pin'' \<longrightarrow> set can2 = set can1) \<and>
    (pl_rebind_mode pl = ''same-class'' \<longrightarrow> address_class ` set can2 = address_class ` set can1)"
proof -
  let ?k = "(canon_name name, q)"
  note s1 = policy_accept_sound [OF assms(1)] and s2 = policy_accept_sound [OF assms(4)]
  have mode: "pl_rebind_mode pl1 = pl_rebind_mode pl" "pl_rebind_mode pl2 = pl_rebind_mode pl"
    using policy_accept_fields [OF assms(1)] policy_run_mode [of calls pl1] assms(3) by simp_all
  obtain b1 where b1: "pl_bindings pl1 ?k = Some b1" "same_binding (pl_rebind_mode pl) b1 (summary can1)"
    using rebind_binding(4) [OF s1(4) [OF assms(2)]] by auto
  obtain b2 where b2: "pl_bindings pl2 ?k = Some b2" "same_binding (pl_rebind_mode pl) b1 b2"
    using policy_run_binding [OF b1(1), of calls] assms(3) mode by auto
  have r2: "rebind ?k (fst (summary can2)) (snd (summary can2)) pl2 = (pl3, Inr ())"
    using s2(4) [OF assms(5)] assms(6) by simp
  have "same_binding (pl_rebind_mode pl) b2 (summary can2)"
    using rebind_binding(3) [OF r2 refl b2(1)] mode by simp
  with b1(2) b2(2) show ?thesis
    using summary_fst [OF s2(1) s1(1)] summary_snd [of can2 can1] by (auto simp: same_binding_def)
qed

subsection \<open>A pinned name\<close>

definition pin_policy :: dns_policy where
  "pin_policy = \<lparr>pl_allow_private = True, pl_allow_loopback = False, pl_allow_link_local = False,
     pl_allow_multicast = False, pl_allow_unspecified = False, pl_rebind_mode = ''pin'', pl_bindings = Map.empty\<rparr>"

lemma sample_address:
  "normalize_numeric_address (cp ''10.0.0.1'') 1 = Some (cp ''10.0.0.1'')"
  "address_class (cp ''10.0.0.1'') = Private"
proof -
  have p: "parse_ipv4 (cp ''10.0.0.1'') = Some [10, 0, 0, 1]" "py_strip (cp ''10.0.0.1'') = cp ''10.0.0.1''"
    by code_simp+
  have "ipv4_text [10, 0, 0, 1] = cp ''10.0.0.1''"
    by (simp add: ipv4_text_def py_str_nat_def digits_of.simps digit_cp_def cp_def)
  with p show "normalize_numeric_address (cp ''10.0.0.1'') 1 = Some (cp ''10.0.0.1'')"
    by (simp add: normalize_numeric_address_def DNS_A_def)
  show "address_class (cp ''10.0.0.1'') = Private"
    using address_class_ipv4 [OF p(1)] by (simp add: class_v4_def Let_def)
qed

lemma sample_accept:
  assumes "pl_allow_private pl"
  shows "policy_accept (cp ''a'') [cp ''10.0.0.1''] 1 pl =
    (case rebind (canon_name (cp ''a''), 1) [cp ''10.0.0.1''] [cp ''private''] pl of
      (pl', Inl e) \<Rightarrow> (pl', Inl e) | (pl', Inr _) \<Rightarrow> (pl', Inr [cp ''10.0.0.1'']))"
proof -
  have "accept_loop pl 1 [cp ''10.0.0.1''] [] [] = Inr ([cp ''10.0.0.1''], [Private])"
    using assms by (simp add: sample_address class_refusal_def)
  then show ?thesis unfolding policy_accept_def by (simp del: accept_loop.simps)
qed

definition pinned :: dns_policy where
  "pinned = pin_policy\<lparr>pl_bindings := [(canon_name (cp ''a''), 1) \<mapsto> ([cp ''10.0.0.1''], [cp ''private''])]\<rparr>"

lemma sample_policy_accept:
  "policy_accept (cp ''a'') [cp ''10.0.0.1''] 1 pin_policy = (pinned, Inr [cp ''10.0.0.1''])"
  "policy_accept (cp ''a'') [cp ''10.0.0.1''] 1 pinned = (pinned, Inr [cp ''10.0.0.1''])"
  by (subst sample_accept; simp add: rebind_def pinned_def pin_policy_def Let_def)+

theorem policy_accepts_only_permitted_witness:
  "class_allowed pin_policy (address_class (cp ''10.0.0.1''))"
  using policy_accepts_only_permitted [OF sample_policy_accept(1)] by simp

theorem policy_rebinding_protection_witness:
  "\<exists>can. policy_accept (cp ''a'') [cp ''10.0.0.1''] 1 pinned = (pinned, Inr can) \<and> set can = {cp ''10.0.0.1''}"
proof -
  have "pl_rebind_mode pin_policy = ''pin''" by (simp add: pin_policy_def)
  then have "set [cp ''10.0.0.1''] = set [cp ''10.0.0.1'']"
    using policy_rebinding_protection [OF sample_policy_accept(1) _ _ sample_policy_accept(2), of "[]"] by simp
  with sample_policy_accept(2) show ?thesis by simp
qed

section \<open>Hosts table\<close>

definition family :: "pystr \<Rightarrow> int" where
  "family a = (if 58 \<in> set a then DNS_AAAA else DNS_A)"

definition hosts_entry_ok :: "int \<Rightarrow> pystr list \<Rightarrow> bool" where
  "hosts_entry_ok q vs \<longleftrightarrow> vs \<noteq> [] \<and> distinct vs \<and>
     (\<forall>a \<in> set vs. normalize_numeric_address a 0 = Some a \<and> family a = q)"

definition hosts_ok :: "hosts_table \<Rightarrow> bool" where
  "hosts_ok ht \<longleftrightarrow> int (length (ht_entries ht)) \<le> ht_max_entries ht \<and>
     (\<forall>key vs. map_of (ht_entries ht) key = Some vs \<longrightarrow> hosts_entry_ok (snd key) vs)"

lemma hosts_ok_set:
  "hosts_ok ht \<Longrightarrow> hosts_entry_ok (snd key) vs \<Longrightarrow>
   map_of (ht_entries ht) key \<noteq> None \<or> int (length (ht_entries ht)) < ht_max_entries ht \<Longrightarrow>
   hosts_ok (ht\<lparr>ht_entries := dict_set key vs (ht_entries ht)\<rparr>)"
  by (auto simp: hosts_ok_def length_dict_set)

lemma hosts_add_alias_ok:
  assumes "hosts_ok ht" "normalize_numeric_address a 0 = Some a"
  shows "hosts_ok (fst (hosts_add_alias a (family a) alias ht))"
proof (cases "map_of (ht_entries ht) (canon_name alias, family a)")
  case None
  have "hosts_entry_ok (family a) [a]" using assms(2) by (simp add: hosts_entry_ok_def)
  with None assms(1) show ?thesis
    by (simp add: hosts_add_alias_def Let_def hosts_ok_set)
next
  case (Some vs)
  then have "hosts_entry_ok (family a) vs" using assms(1) by (force simp: hosts_ok_def)
  then have "a \<notin> set vs \<Longrightarrow> hosts_entry_ok (family a) (vs @ [a])"
    using assms(2) by (simp add: hosts_entry_ok_def)
  with Some assms(1) show ?thesis
    by (simp add: hosts_add_alias_def Let_def hosts_ok_set)
qed

lemma iter_until_inv:
  "(\<And>x s. x \<in> set xs \<Longrightarrow> P s \<Longrightarrow> P (fst (f x s))) \<Longrightarrow> P s \<Longrightarrow> P (fst (iter_until f xs s))"
proof (induction xs arbitrary: s)
  case (Cons x xs)
  obtain s' r where f: "f x s = (s', r)" by (cases "f x s")
  have "P s'" using Cons.prems(1) [of x s] Cons.prems(2) f by simp
  with Cons f show ?case by (cases r) simp_all
qed simp

lemma hosts_line_ok:
  assumes "hosts_ok ht"
  shows "hosts_ok (fst (hosts_line l ht))"
proof -
  have "hosts_ok (fst (iter_until (hosts_add_alias a (if 58 \<in> set a then DNS_AAAA else DNS_A)) fs ht))"
    if "normalize_numeric_address v 0 = Some a" for v a fs
    unfolding family_def [symmetric]
    by (rule iter_until_inv [OF hosts_add_alias_ok [OF _ normalize_stable(1) [OF that]] assms])
  with assms show ?thesis by (simp add: hosts_line_def Let_def split: option.split)
qed

lemma hosts_new_ok:
  assumes "hosts_new text n = Inr ht"
  shows "hosts_ok ht"
proof -
  have 0: "hosts_ok \<lparr>ht_max_entries = n, ht_entries = []\<rparr>" if "0 < n" using that by (simp add: hosts_ok_def)
  have "hosts_ok (fst (hosts_load text h))" if "hosts_ok h" for h
    unfolding hosts_load_def using that by (rule iter_until_inv [rotated]) (rule hosts_line_ok)
  with assms 0 show ?thesis
    by (auto simp: hosts_new_def Let_def split: if_splits prod.splits sum.splits)
      (metis fst_conv not_le)+
qed

section \<open>Answers behind aliases\<close>

text \<open>The name reached from a name over \<open>n\<close> alias records.\<close>

fun follow :: "dns_answer list \<Rightarrow> nat \<Rightarrow> pystr \<Rightarrow> pystr option" where
  "follow answers 0 x = Some x"
| "follow answers (Suc n) x =
     (case find (matching x DNS_CNAME) answers of None \<Rightarrow> None | Some a \<Rightarrow> follow answers n (an_data a))"

lemma foldl_lower_ttl:
  "foldl lower_ttl t as \<le> t \<and> (\<forall>a \<in> set as. foldl lower_ttl t as \<le> an_ttl a)"
proof (induction as arbitrary: t)
  case (Cons a as)
  have "lower_ttl t a \<le> t" "lower_ttl t a \<le> an_ttl a" by (simp_all add: lower_ttl_def)
  with Cons.IH [of "lower_ttl t a"] show ?case by fastforce
qed simp

lemma answer_loop_sound:
  "answer_loop k answers q x t vis = Inr (vs, ttl) \<Longrightarrow>
   \<exists>n < k. \<exists>owner. follow answers n x = Some owner \<and> ttl \<le> t \<and>
     vs = map an_data (filter (matching owner q) answers) \<and>
     (\<forall>a \<in> set (filter (matching owner q) answers). ttl \<le> an_ttl a)"
proof (induction k answers q x t vis rule: answer_loop.induct)
  case (2 k answers q x t vis)
  let ?found = "filter (matching x q) answers"
  show ?case
  proof (cases "?found = []")
    case False
    with "2.prems" foldl_lower_ttl [of t ?found] show ?thesis by (intro exI [of _ 0]) (auto simp: Let_def)
  next
    case none: True
    show ?thesis
    proof (cases "find (matching x DNS_CNAME) answers")
      case None
      with none "2.prems" show ?thesis by (intro exI [of _ 0]) (auto simp: filter_empty_conv)
    next
      case (Some a)
      show ?thesis
      proof (cases "an_data a = []")
        case True
        with none Some "2.prems" show ?thesis by (intro exI [of _ 0]) (auto simp: filter_empty_conv lower_ttl_def)
      next
        case False
        with none Some "2.prems" have r: "answer_loop k answers q (an_data a) (lower_ttl t a) (vis @ [x]) = Inr (vs, ttl)"
          "\<not> (an_data a \<in> set vis \<or> an_data a = x)"
          by (auto split: if_splits)
        obtain n owner where "n < k" "follow answers n (an_data a) = Some owner" "ttl \<le> lower_ttl t a"
          "vs = map an_data (filter (matching owner q) answers)"
          "\<forall>a \<in> set (filter (matching owner q) answers). ttl \<le> an_ttl a"
          using "2.IH" [OF refl _ Some False r(2,1)] none by auto
        moreover have "lower_ttl t a \<le> t" by (simp add: lower_ttl_def)
        ultimately show ?thesis
          using Some by (intro exI [of _ "Suc n"] conjI exI [of _ owner]) auto
      qed
    qed
  qed
qed simp

text \<open>A chain of alias records with different names, none with an address of its own but the last.\<close>

fun alias_chain :: "dns_answer list \<Rightarrow> int \<Rightarrow> pystr list \<Rightarrow> bool" where
  "alias_chain answers q [] = False"
| "alias_chain answers q [x] = (filter (matching x q) answers \<noteq> [])"
| "alias_chain answers q (x # y # ys) =
     (filter (matching x q) answers = [] \<and> y \<noteq> [] \<and>
      map_option an_data (find (matching x DNS_CNAME) answers) = Some y \<and> alias_chain answers q (y # ys))"

lemma answer_loop_complete:
  "alias_chain answers q xs \<Longrightarrow> distinct xs \<Longrightarrow> length xs \<le> k \<Longrightarrow> set vis \<inter> set xs = {} \<Longrightarrow>
   \<exists>ttl. answer_loop k answers q (hd xs) t vis = Inr (map an_data (filter (matching (last xs) q) answers), ttl)"
proof (induction answers q xs arbitrary: k t vis rule: alias_chain.induct)
  case (2 answers q x)
  then obtain k' where "k = Suc k'" by (cases k) auto
  with 2 show ?case by (simp add: Let_def)
next
  case (3 answers q x y ys)
  then obtain k' where k: "k = Suc k'" by (cases k) auto
  obtain a where a: "find (matching x DNS_CNAME) answers = Some a" "an_data a = y"
    using "3.prems"(1) by auto
  have "\<exists>ttl. answer_loop k' answers q (hd (y # ys)) (lower_ttl t a) (vis @ [x]) =
      Inr (map an_data (filter (matching (last (y # ys)) q) answers), ttl)"
    using "3.prems" k by (intro "3.IH") auto
  with "3.prems" a k show ?case by auto
qed simp

text \<open>Alias chains are followed soundly and completely: a result holds exactly the addresses of one
  name reached over fewer than sixteen alias records, with a time to live no longer than any of
  theirs nor a day; and every chain of at most sixteen distinct names that ends at a name with
  addresses is resolved to them.\<close>

theorem answer_values_follow_aliases:
  "(answer_values r name q = Inr (vs, ttl) \<longrightarrow>
     (\<exists>n < 16. \<exists>owner. follow (rs_answers r) n (canon_name name) = Some owner \<and> ttl \<le> 86400 \<and>
        vs = map an_data (filter (matching owner q) (rs_answers r)) \<and>
        (\<forall>a \<in> set (filter (matching owner q) (rs_answers r)). ttl \<le> an_ttl a))) \<and>
   (alias_chain (rs_answers r) q (canon_name name # xs) \<and> distinct (canon_name name # xs) \<and> length xs < 16 \<longrightarrow>
     (\<exists>ttl. answer_values r name q =
        Inr (map an_data (filter (matching (last (canon_name name # xs)) q) (rs_answers r)), ttl)))"
proof (intro conjI impI)
  assume "answer_values r name q = Inr (vs, ttl)"
  from answer_loop_sound [OF this [unfolded answer_values_def]]
  show "\<exists>n < 16. \<exists>owner. follow (rs_answers r) n (canon_name name) = Some owner \<and> ttl \<le> 86400 \<and>
        vs = map an_data (filter (matching owner q) (rs_answers r)) \<and>
        (\<forall>a \<in> set (filter (matching owner q) (rs_answers r)). ttl \<le> an_ttl a)" .
next
  assume "alias_chain (rs_answers r) q (canon_name name # xs) \<and> distinct (canon_name name # xs) \<and> length xs < 16"
  then show "\<exists>ttl. answer_values r name q =
      Inr (map an_data (filter (matching (last (canon_name name # xs)) q) (rs_answers r)), ttl)"
    using answer_loop_complete [of "rs_answers r" q "canon_name name # xs" 16 "[]" 86400]
    by (simp add: answer_values_def)
qed

definition alias_reply :: dns_response where
  "alias_reply = \<lparr>rs_query_id = 1, rs_truncated = False, rs_rcode = 0, rs_answers =
     [\<lparr>an_name = [97], an_qtype = 5, an_data = [98], an_ttl = 60\<rparr>,
      \<lparr>an_name = [98], an_qtype = 1, an_data = cp ''10.0.0.1'', an_ttl = 30\<rparr>]\<rparr>"

theorem answer_values_follow_aliases_witness:
  "\<exists>ttl \<le> 30. answer_values alias_reply [97] 1 = Inr ([cp ''10.0.0.1''], ttl)"
proof -
  have c: "canon_name [97] = [97]" by code_simp
  have "alias_chain (rs_answers alias_reply) 1 ([97] # [[98]])"
    by (simp add: alias_reply_def matching_def DNS_CNAME_def)
  moreover have d: "map an_data (filter (matching (last ([97] # [[98]])) 1) (rs_answers alias_reply)) = [cp ''10.0.0.1'']"
    by (simp add: alias_reply_def matching_def)
  ultimately obtain ttl where t: "answer_values alias_reply [97] 1 = Inr ([cp ''10.0.0.1''], ttl)"
    using answer_values_follow_aliases [of alias_reply "[97]" 1 "[]" 0 "[[98]]", unfolded c d] by fastforce
  moreover have "answer_values alias_reply [97] 1 = Inr ([cp ''10.0.0.1''], 30)"
    by (simp add: answer_values_def c alias_reply_def matching_def DNS_CNAME_def lower_ttl_def numeral_eq_Suc)
  ultimately show ?thesis by auto
qed

end
