(* ===== verification/Dns_Cache.thy ===== *)
theory Dns_Cache
  imports Dns_Store
begin

text \<open>
  The contract of a bounded expiring cache as a locale, what a client may conclude from it over any
  sequence of calls, and its interpretation on the DNS cache.  The least recently used key is the
  one evicted.
\<close>

section \<open>The contract\<close>

datatype ('k, 'e) cache_op = Insert 'k 'e | Get 'k int

text \<open>The entry most recently inserted under a key.\<close>

fun last_insert :: "('k, 'e) cache_op list \<Rightarrow> 'k \<Rightarrow> 'e option" where
  "last_insert [] k = None"
| "last_insert (op # ops) k =
     (case last_insert ops k of
       Some e \<Rightarrow> Some e
     | None \<Rightarrow> (case op of Insert k' e \<Rightarrow> if k' = k then Some e else None | Get _ _ \<Rightarrow> None))"

locale bounded_cache =
  fixes peek :: "'c \<Rightarrow> 'k \<Rightarrow> 'e option"
    and used :: "'c \<Rightarrow> nat"
    and capacity :: "'c \<Rightarrow> int"
    and insert_op :: "'k \<Rightarrow> 'e \<Rightarrow> 'c \<Rightarrow> 'c"
    and get_op :: "'k \<Rightarrow> int \<Rightarrow> 'c \<Rightarrow> 'c \<times> 'e option"
    and expires :: "'e \<Rightarrow> int"
    and inv :: "'c \<Rightarrow> bool"
  assumes inv_insert: "inv c \<Longrightarrow> inv (insert_op k e c)"
    and inv_get: "inv c \<Longrightarrow> inv (fst (get_op k t c))"
    and inv_bound: "inv c \<Longrightarrow> int (used c) \<le> capacity c"
    and capacity_insert: "capacity (insert_op k e c) = capacity c"
    and capacity_get: "capacity (fst (get_op k t c)) = capacity c"
    and insert_same: "peek (insert_op k e c) k = Some e"
    and insert_other: "inv c \<Longrightarrow> k' \<noteq> k \<Longrightarrow> peek (insert_op k e c) k' \<in> {None, peek c k'}"
    and insert_room: "inv c \<Longrightarrow> peek c k \<noteq> None \<or> int (used c) < capacity c \<Longrightarrow> k' \<noteq> k \<Longrightarrow>
      peek (insert_op k e c) k' = peek c k'"
    and get_result: "snd (get_op k t c) =
      (case peek c k of None \<Rightarrow> None | Some e \<Rightarrow> if expires e \<le> t then None else Some e)"
    and get_other: "inv c \<Longrightarrow> k' \<noteq> k \<Longrightarrow> peek (fst (get_op k t c)) k' = peek c k'"
    and get_same: "inv c \<Longrightarrow> peek (fst (get_op k t c)) k = snd (get_op k t c)"
begin

fun cache_step :: "('k, 'e) cache_op \<Rightarrow> 'c \<Rightarrow> 'c" where
  "cache_step (Insert k e) c = insert_op k e c"
| "cache_step (Get k t) c = fst (get_op k t c)"

abbreviation run :: "('k, 'e) cache_op list \<Rightarrow> 'c \<Rightarrow> 'c" where
  "run \<equiv> fold cache_step"

lemma step_inv: "inv c \<Longrightarrow> inv (cache_step op c)"
  by (cases op) (simp_all add: inv_insert inv_get)

lemma step_capacity: "capacity (cache_step op c) = capacity c"
  by (cases op) (simp_all add: capacity_insert capacity_get)

lemma run_inv: "inv c \<Longrightarrow> inv (run ops c)"
  by (induction ops arbitrary: c) (simp_all add: step_inv)

lemma run_capacity: "capacity (run ops c) = capacity c"
  by (induction ops arbitrary: c) (simp_all add: step_capacity)

lemma run_bounded: "inv c \<Longrightarrow> int (used (run ops c)) \<le> capacity c"
  using inv_bound [OF run_inv [of c ops]] run_capacity [of ops c] by simp

lemma step_peek:
  "inv c \<Longrightarrow> peek (cache_step op c) k = Some e \<Longrightarrow>
   peek c k = Some e \<and> (\<forall>e'. op \<noteq> Insert k e') \<or> op = Insert k e"
proof (cases op)
  case (Insert k' e')
  assume a: "inv c" "peek (cache_step op c) k = Some e"
  show ?thesis
  proof (cases "k' = k")
    case True
    with a Insert show ?thesis by (simp add: insert_same)
  next
    case False
    with a Insert insert_other [of c k k' e'] show ?thesis by auto
  qed
next
  case (Get k' t)
  assume a: "inv c" "peek (cache_step op c) k = Some e"
  show ?thesis
  proof (cases "k' = k")
    case True
    with a Get have "snd (get_op k t c) = Some e" by (simp add: get_same)
    with Get show ?thesis by (auto simp: get_result split: option.splits if_splits)
  next
    case False
    with a Get get_other [of c k k' t] show ?thesis by simp
  qed
qed

text \<open>What is cached is what was inserted last.\<close>

lemma run_provenance:
  "inv c \<Longrightarrow> peek (run ops c) k = Some e \<Longrightarrow>
   last_insert ops k = Some e \<or> last_insert ops k = None \<and> peek c k = Some e"
proof (induction ops arbitrary: c)
  case (Cons op ops)
  from Cons.IH [OF step_inv [OF Cons.prems(1)], of op] Cons.prems(2)
  consider "last_insert ops k = Some e" | "last_insert ops k = None" "peek (cache_step op c) k = Some e"
    by auto
  then show ?case
  proof cases
    case 2
    from step_peek [OF Cons.prems(1) 2(2)] 2(1) show ?thesis
      by (auto split: cache_op.splits)
  qed simp
qed simp

lemma get_provenance:
  "inv c \<Longrightarrow> peek c k = None \<Longrightarrow> snd (get_op k t (run ops c)) = Some e \<Longrightarrow>
   last_insert ops k = Some e \<and> t < expires e"
  using run_provenance [of c ops k e] by (auto simp: get_result split: option.splits if_splits)

end

section \<open>The DNS cache meets it\<close>

definition cache_ok :: "dns_cache \<Rightarrow> bool" where
  "cache_ok c \<longleftrightarrow> 0 < dc_max_entries c \<and> distinct (dc_order c) \<and> distinct (dict_keys (dc_entries c)) \<and>
     set (dc_order c) = set (dict_keys (dc_entries c)) \<and> int (length (dc_entries c)) \<le> dc_max_entries c"

lemma cache_new_ok: "cache_new a b c d = Inr x \<Longrightarrow> cache_ok x"
  by (auto simp: cache_new_def cache_ok_def dict_keys_def split: if_splits)

text \<open>In a consistent cache the first eviction attempt succeeds: the least recently used key goes.\<close>

lemma evict_lru:
  "set order \<subseteq> set (dict_keys es) \<Longrightarrow>
   evict order es = (case order of [] \<Rightarrow> ([], es) | k # ks \<Rightarrow> (ks, dict_del k es))"
  by (cases order) (auto simp: in_dict_keys)

lemma length_dict_del:
  "distinct (dict_keys d) \<Longrightarrow> map_of d k \<noteq> None \<Longrightarrow> Suc (length (dict_del k d)) = length d"
proof (induction d)
  case (Cons e d)
  show ?case
  proof (cases "fst e = k")
    case True
    with Cons.prems(1) have "map_of d k = None" by (auto simp: dict_keys_def map_of_eq_None_iff)
    then have "\<forall>x \<in> set d. fst x \<noteq> k" by (auto simp: map_of_eq_None_iff)
    then have "dict_del k d = d" by (simp add: dict_del_def)
    with True show ?thesis by (simp add: dict_del_def)
  next
    case False
    with Cons show ?thesis by (cases e) (auto simp: dict_del_def dict_keys_def)
  qed
qed simp

lemma make_room_ok:
  assumes "cache_ok c" and c1_def: "c1 = cache_make_room k c"
  shows "distinct (dc_order c1)" "k \<notin> set (dc_order c1)" "distinct (dict_keys (dc_entries c1))"
    "insert k (set (dc_order c1)) = insert k (set (dict_keys (dc_entries c1)))"
    "dc_max_entries c1 = dc_max_entries c"
    "map_of (dc_entries c1) k = map_of (dc_entries c) k"
    "map_of (dc_entries c1) k = None \<Longrightarrow> int (length (dc_entries c1)) < dc_max_entries c"
    "int (length (dc_entries c1)) \<le> dc_max_entries c"
proof -
  have ok: "0 < dc_max_entries c" "distinct (dc_order c)" "distinct (dict_keys (dc_entries c))"
    "set (dc_order c) = set (dict_keys (dc_entries c))" "int (length (dc_entries c)) \<le> dc_max_entries c"
    using assms(1) by (simp_all add: cache_ok_def)
  consider (present) "map_of (dc_entries c) k \<noteq> None"
    | (full) "map_of (dc_entries c) k = None" "int (length (dc_entries c)) \<ge> dc_max_entries c"
    | (room) "map_of (dc_entries c) k = None" "int (length (dc_entries c)) < dc_max_entries c"
    by linarith
  then have "distinct (dc_order c1) \<and> k \<notin> set (dc_order c1) \<and> distinct (dict_keys (dc_entries c1)) \<and>
    insert k (set (dc_order c1)) = insert k (set (dict_keys (dc_entries c1))) \<and>
    dc_max_entries c1 = dc_max_entries c \<and> map_of (dc_entries c1) k = map_of (dc_entries c) k \<and>
    (map_of (dc_entries c1) k = None \<longrightarrow> int (length (dc_entries c1)) < dc_max_entries c) \<and>
    int (length (dc_entries c1)) \<le> dc_max_entries c"
  proof cases
    case present
    with ok show ?thesis by (auto simp: c1_def cache_make_room_def)
  next
    case room
    with ok show ?thesis by (auto simp: c1_def cache_make_room_def in_dict_keys)
  next
    case full
    then obtain j js where o: "dc_order c = j # js"
      using ok by (cases "dc_order c") (auto simp: dict_keys_def)
    have j: "map_of (dc_entries c) j \<noteq> None" using ok(4) o in_dict_keys [of j] by auto
    have c1: "dc_order c1 = js" "dc_entries c1 = dict_del j (dc_entries c)" "dc_max_entries c1 = dc_max_entries c"
      using full o j by (simp_all add: c1_def cache_make_room_def)
    have len: "Suc (length (dc_entries c1)) = length (dc_entries c)"
      unfolding c1 using length_dict_del [OF ok(3) j] .
    have s: "set js = set (dict_keys (dc_entries c)) - {j}" using ok(2,4) o by auto
    have "k \<noteq> j" using full(1) j by auto
    moreover have "k \<notin> set js" using s full(1) by (auto simp: in_dict_keys)
    ultimately show ?thesis
      using ok o s full(1) len by (auto simp: c1 dict_keys_del distinct_filter)
  qed
  then show "distinct (dc_order c1)" "k \<notin> set (dc_order c1)" "distinct (dict_keys (dc_entries c1))"
    "insert k (set (dc_order c1)) = insert k (set (dict_keys (dc_entries c1)))"
    "dc_max_entries c1 = dc_max_entries c"
    "map_of (dc_entries c1) k = map_of (dc_entries c) k"
    "map_of (dc_entries c1) k = None \<Longrightarrow> int (length (dc_entries c1)) < dc_max_entries c"
    "int (length (dc_entries c1)) \<le> dc_max_entries c"
    by blast+
qed

lemma cache_insert_ok: "cache_ok c \<Longrightarrow> cache_ok (cache_insert k e c)"
  using make_room_ok [of c _ k, OF _ refl]
  by (auto simp: cache_insert_def Let_def cache_ok_def dict_keys_set length_dict_set in_dict_keys)

lemma cache_get_ok: "cache_ok c \<Longrightarrow> cache_ok (fst (cache_get_key k t c))"
  by (auto simp: cache_get_key_def cache_ok_def dict_keys_del in_dict_keys distinct_filter
      dest: length_dict_del split: option.split)

lemma make_room_other:
  "k' \<noteq> k \<Longrightarrow> map_of (dc_entries (cache_make_room k c)) k' \<in> {None, map_of (dc_entries c) k'}"
proof -
  have "map_of (snd (evict order es)) k' \<in> {None, map_of es k'}" for order es
    by (induction order es rule: evict.induct) auto
  then show ?thesis by (auto simp: cache_make_room_def)
qed

lemma make_room_room:
  "map_of (dc_entries c) k \<noteq> None \<or> int (length (dc_entries c)) < dc_max_entries c \<Longrightarrow>
   dc_entries (cache_make_room k c) = dc_entries c"
  by (auto simp: cache_make_room_def)

interpretation dns_cache: bounded_cache "\<lambda>c k. map_of (dc_entries c) k" "\<lambda>c. length (dc_entries c)"
  dc_max_entries cache_insert cache_get_key ce_expires_ms cache_ok
proof unfold_locales
  fix c k e k' t
  show "cache_ok c \<Longrightarrow> cache_ok (cache_insert k e c)" by (rule cache_insert_ok)
  show "cache_ok c \<Longrightarrow> cache_ok (fst (cache_get_key k t c))" by (rule cache_get_ok)
  show "cache_ok c \<Longrightarrow> int (length (dc_entries c)) \<le> dc_max_entries c" by (simp add: cache_ok_def)
  show "dc_max_entries (cache_insert k e c) = dc_max_entries c"
    by (simp add: cache_insert_def cache_make_room_def Let_def)
  show "dc_max_entries (fst (cache_get_key k t c)) = dc_max_entries c"
    by (simp add: cache_get_key_def split: option.split)
  show "map_of (dc_entries (cache_insert k e c)) k = Some e" by (simp add: cache_insert_def Let_def)
  show "k' \<noteq> k \<Longrightarrow> map_of (dc_entries (cache_insert k e c)) k' \<in> {None, map_of (dc_entries c) k'}"
    using make_room_other [of k' k c] by (simp add: cache_insert_def Let_def)
  show "map_of (dc_entries c) k \<noteq> None \<or> int (length (dc_entries c)) < dc_max_entries c \<Longrightarrow> k' \<noteq> k \<Longrightarrow>
      map_of (dc_entries (cache_insert k e c)) k' = map_of (dc_entries c) k'"
    using make_room_room [of c k] by (simp add: cache_insert_def Let_def)
  show "snd (cache_get_key k t c) = (case map_of (dc_entries c) k of None \<Rightarrow> None
      | Some e \<Rightarrow> if ce_expires_ms e \<le> t then None else Some e)"
    by (simp add: cache_get_key_def split: option.split)
  show "k' \<noteq> k \<Longrightarrow> map_of (dc_entries (fst (cache_get_key k t c))) k' = map_of (dc_entries c) k'"
    by (simp add: cache_get_key_def split: option.split)
  show "map_of (dc_entries (fst (cache_get_key k t c))) k = snd (cache_get_key k t c)"
    by (simp add: cache_get_key_def split: option.split)
qed

section \<open>Properties\<close>

text \<open>One call of the cache as the resolver makes it.\<close>

fun cache_call :: "(dns_key, dns_cache_entry) cache_op \<Rightarrow> dns_cache \<Rightarrow> dns_cache" where
  "cache_call (Insert k e) c = cache_insert k e c"
| "cache_call (Get k t) c = fst (cache_get_key k t c)"

lemma cache_call_step: "cache_call = dns_cache.cache_step"
proof (intro ext)
  show "cache_call op c = dns_cache.cache_step op c" for op c by (cases op) simp_all
qed

text \<open>C20 The cache is bounded, keeps what it promises and never serves a stale or foreign entry: after
  any sequence of calls the number of entries is within the limit and the usage order lists every
  key exactly once; a lookup returns the entry inserted last under that very key, and only before
  it expires; and an insertion into a full cache discards exactly the least recently used key.\<close>

theorem dns_cache_correct:
  assumes "cache_new mx neg mn mxt = Inr c0" and "c = fold cache_call ops c0"
  shows "int (length (dc_entries c)) \<le> mx \<and> distinct (dc_order c) \<and>
    set (dc_order c) = set (dict_keys (dc_entries c)) \<and>
    (snd (cache_get_key k t c) = Some e \<longrightarrow> last_insert ops k = Some e \<and> t < ce_expires_ms e) \<and>
    (map_of (dc_entries c) k = None \<and> int (length (dc_entries c)) = mx \<longrightarrow>
       set (dict_keys (dc_entries (cache_insert k e c))) = insert k (set (dict_keys (dc_entries c)) - {hd (dc_order c)}))"
proof -
  have ok0: "cache_ok c0" using cache_new_ok [OF assms(1)] .
  have c: "c = dns_cache.run ops c0" using assms(2) by (simp add: cache_call_step)
  have ok: "cache_ok c" using dns_cache.run_inv [OF ok0] c by simp
  have e0: "map_of (dc_entries c0) k = None" "dc_max_entries c0 = mx"
    using assms(1) by (auto simp: cache_new_def split: if_splits)
  have mx: "dc_max_entries c = mx" using dns_cache.run_capacity [of ops c0] c e0 by simp
  have "set (dict_keys (dc_entries (cache_insert k e c))) = insert k (set (dict_keys (dc_entries c)) - {hd (dc_order c)})"
    if full: "map_of (dc_entries c) k = None" "int (length (dc_entries c)) = mx"
  proof -
    have "0 < mx" using ok mx by (simp add: cache_ok_def)
    then obtain j js where o: "dc_order c = j # js"
      using ok full by (cases "dc_order c") (auto simp: cache_ok_def dict_keys_def)
    have "map_of (dc_entries c) j \<noteq> None" using ok o in_dict_keys [of j] by (auto simp: cache_ok_def)
    with full mx o show ?thesis
      by (auto simp: cache_insert_def cache_make_room_def Let_def dict_keys_set dict_keys_del)
  qed
  moreover have "snd (cache_get_key k t c) = Some e \<Longrightarrow> last_insert ops k = Some e \<and> t < ce_expires_ms e"
    using dns_cache.get_provenance [OF ok0 e0(1)] c by simp
  ultimately show ?thesis using ok mx by (auto simp: cache_ok_def)
qed

definition sample_entry :: "int \<Rightarrow> dns_cache_entry" where
  "sample_entry t = \<lparr>ce_values = [cp ''10.0.0.1''], ce_expires_ms = t, ce_negative = False, ce_source = ''dns''\<rparr>"

definition sample_cache :: dns_cache where
  "sample_cache = \<lparr>dc_max_entries = 2, dc_negative_ttl_ms = 5, dc_min_ttl_ms = 1, dc_max_ttl_ms = 9,
     dc_entries = [], dc_order = []\<rparr>"

definition sample_cache_ops :: "(dns_key, dns_cache_entry) cache_op list" where
  "sample_cache_ops = [Insert ([97], 1) (sample_entry 10), Insert ([98], 1) (sample_entry 20), Get ([97], 1) 5]"

text \<open>Reading \<open>a\<close> makes \<open>b\<close> the one to evict.\<close>

theorem dns_cache_correct_witness:
  "set (dict_keys (dc_entries (cache_insert ([99], 1) (sample_entry 30) (fold cache_call sample_cache_ops sample_cache)))) =
     {([97], 1), ([99], 1)} \<and>
   snd (cache_get_key ([97], 1) 5 (fold cache_call sample_cache_ops sample_cache)) = Some (sample_entry 10)"
proof -
  let ?c = "fold cache_call sample_cache_ops sample_cache"
  have n: "cache_new 2 5 1 9 = Inr sample_cache" by (simp add: cache_new_def sample_cache_def)
  have c: "dc_entries ?c = [(([97], 1), sample_entry 10), (([98], 1), sample_entry 20)]"
    "dc_order ?c = [([98], 1), ([97], 1)]"
    by (simp_all add: sample_cache_ops_def sample_cache_def sample_entry_def cache_insert_def
        cache_make_room_def cache_get_key_def Let_def)
  have g: "snd (cache_get_key ([97], 1) 5 ?c) = Some (sample_entry 10)"
    by (simp add: cache_get_key_def c sample_entry_def)
  have m: "map_of (dc_entries ?c) ([99], 1) = None" "int (length (dc_entries ?c)) = 2" by (simp_all add: c)
  from dns_cache_correct [OF n refl, of sample_cache_ops "([99], 1)" 0 "sample_entry 30"] m
  have "set (dict_keys (dc_entries (cache_insert ([99], 1) (sample_entry 30) ?c))) =
      insert ([99], 1) (set (dict_keys (dc_entries ?c)) - {hd (dc_order ?c)})" by blast
  with g show ?thesis by (auto simp: c dict_keys_def)
qed

end
