(* ===== verification/Proxy.thy ===== *)
theory Proxy
  imports Http1 Dns_Store
begin

text \<open>
  Model of \<open>pcc_gateway/proxy.py\<close>: header sanitation, upstream endpoints with address rotation,
  groups and leases, timeouts, retry policy and failure status.

  Endpoints are shared objects (several groups may hold the same one) and so are groups and leases,
  so they live in stores indexed by address.  What a method does under its lock is one definition.
\<close>

section \<open>Headers\<close>

definition HOP_BY_HOP :: "pystr list" where
  "HOP_BY_HOP = [cp ''connection'', cp ''keep-alive'', cp ''proxy-authenticate'', cp ''proxy-authorization'',
     cp ''te'', cp ''trailer'', cp ''transfer-encoding'', cp ''upgrade'']"

definition add_token :: "pystr list \<Rightarrow> pystr \<Rightarrow> pystr list" where
  "add_token named item =
     (let token = py_lower (py_strip item) in
      if token \<noteq> [] \<and> token \<notin> set named then named @ [token] else named)"

definition add_named :: "pystr list \<Rightarrow> header \<Rightarrow> pystr list" where
  "add_named named h =
     (if py_lower (fst h) = cp ''connection'' then foldl add_token named (py_split 44 (snd h)) else named)"

definition connection_named_fields :: "header list \<Rightarrow> pystr list" where
  "connection_named_fields headers = foldl add_named [] headers"

definition sanitize_hop_by_hop :: "header list \<Rightarrow> header list" where
  "sanitize_hop_by_hop headers =
     map (\<lambda>h. (py_lower (fst h), snd h))
       (filter (\<lambda>h. py_lower (fst h) \<notin> set HOP_BY_HOP \<and>
                    py_lower (fst h) \<notin> set (connection_named_fields headers)) headers)"

definition forwarded_names :: "pystr list" where
  "forwarded_names = [cp ''x-forwarded-for'', cp ''x-forwarded-proto'', cp ''x-forwarded-host'']"

text \<open>The loop: the headers kept and the last trusted chain.\<close>

definition forwarded_step :: "bool \<Rightarrow> header list \<times> pystr \<Rightarrow> header \<Rightarrow> header list \<times> pystr" where
  "forwarded_step trust_incoming st h =
     (let (kept, incoming_for) = st; name = fst h in
      if name \<in> set forwarded_names
      then (if \<not> trust_incoming then (kept, incoming_for)
            else if name = cp ''x-forwarded-for'' then (kept @ [h], snd h)
            else (kept, incoming_for))
      else (kept @ [h], incoming_for))"

definition forwarded_request_headers ::
  "header list \<Rightarrow> pystr \<Rightarrow> pystr \<Rightarrow> pystr \<Rightarrow> bool \<Rightarrow> header list" where
  "forwarded_request_headers headers client_ip scheme original_host trust_incoming =
     (let (kept, incoming_for) = foldl (forwarded_step trust_incoming) ([], []) (sanitize_hop_by_hop headers);
          chain = (if incoming_for \<noteq> [] then incoming_for @ cp '', '' @ client_ip else client_ip) in
      kept @ [(cp ''x-forwarded-for'', chain), (cp ''x-forwarded-proto'', scheme),
              (cp ''x-forwarded-host'', original_host)])"

section \<open>Endpoints\<close>

record endpoint =
  ep_host :: pystr
  ep_port :: int
  ep_weight :: int
  ep_active :: int
  ep_failures :: int
  ep_address_cursor :: nat
  ep_last_address_set :: "pystr list"
  ep_dns_policy :: dns_policy

definition endpoint_new :: "pystr \<Rightarrow> int \<Rightarrow> int \<Rightarrow> dns_policy \<Rightarrow> endpoint result" where
  "endpoint_new host port weight policy =
     (if host = [] \<or> port \<le> 0 \<or> port > 65535 \<or> weight \<le> 0
      then Inl (ValueError ''invalid upstream endpoint'')
      else Inr \<lparr>ep_host = host, ep_port = port, ep_weight = weight, ep_active = 0, ep_failures = 0,
                ep_address_cursor = 0, ep_last_address_set = [], ep_dns_policy = policy\<rparr>)"

definition accept_resolved :: "pystr list \<Rightarrow> int \<Rightarrow> endpoint \<Rightarrow> endpoint \<times> pystr list result" where
  "accept_resolved vs qtype ep =
     (case policy_accept (ep_host ep) vs qtype (ep_dns_policy ep) of
       (pl, r) \<Rightarrow> (ep\<lparr>ep_dns_policy := pl\<rparr>, r))"

text \<open>A changed address set restarts the rotation.\<close>

definition note_address_set :: "pystr list \<Rightarrow> endpoint \<Rightarrow> endpoint" where
  "note_address_set address_set ep =
     (if address_set \<noteq> ep_last_address_set ep
      then ep\<lparr>ep_last_address_set := address_set, ep_address_cursor := 0\<rparr> else ep)"

definition choose_address :: "pystr list \<Rightarrow> endpoint \<Rightarrow> endpoint \<times> pystr result" where
  "choose_address vs ep =
     (if vs = [] then (ep, Inl (ValueError ''upstream endpoint has no resolved address''))
      else (let address_set = sort vs; ep1 = note_address_set address_set ep in
        (ep1\<lparr>ep_address_cursor := (ep_address_cursor ep1 + 1) mod length vs\<rparr>,
         Inr (address_set ! (ep_address_cursor ep1 mod length address_set)))))"

definition ordered_addresses :: "pystr list \<Rightarrow> endpoint \<Rightarrow> endpoint \<times> pystr list" where
  "ordered_addresses vs ep =
     (if vs = [] then (ep, [])
      else (let address_set = sort vs; ep1 = note_address_set address_set ep; n = length address_set in
        (ep1\<lparr>ep_address_cursor := (ep_address_cursor ep1 + 1) mod n\<rparr>,
         map (\<lambda>index. address_set ! ((ep_address_cursor ep1 + index) mod n)) [0..<n])))"

definition accept_and_order_addresses :: "pystr list \<Rightarrow> int \<Rightarrow> endpoint \<Rightarrow> endpoint \<times> pystr list result" where
  "accept_and_order_addresses vs qtype ep =
     (case accept_resolved vs qtype ep of
       (ep1, Inl e) \<Rightarrow> (ep1, Inl e)
     | (ep1, Inr accepted) \<Rightarrow> (case ordered_addresses accepted ep1 of (ep2, out) \<Rightarrow> (ep2, Inr out)))"

definition endpoint_try_acquire :: "int \<Rightarrow> endpoint \<Rightarrow> endpoint \<times> bool" where
  "endpoint_try_acquire group_active ep =
     (if ep_active ep > group_active + ep_weight ep then (ep, False)
      else (ep\<lparr>ep_active := ep_active ep + 1\<rparr>, True))"

definition endpoint_release :: "bool \<Rightarrow> endpoint \<Rightarrow> endpoint \<times> unit result" where
  "endpoint_release failed ep =
     (if ep_active ep \<le> 0 then (ep, Inl (RuntimeError ''upstream endpoint admission underflow''))
      else (ep\<lparr>ep_active := ep_active ep - 1,
               ep_failures := (if failed then ep_failures ep + 1 else ep_failures ep)\<rparr>, Inr ()))"

section \<open>Groups and leases\<close>

record group =
  gr_name :: pystr
  gr_endpoints :: "nat list"    \<comment> \<open>addresses of endpoints\<close>
  gr_max_active :: int
  gr_max_idle :: int
  gr_active :: int
  gr_cursor :: nat

record lease =
  ls_group :: nat
  ls_endpoint :: nat
  ls_released :: bool

record upstreams =
  us_endpoints :: "endpoint list"
  us_groups :: "group list"
  us_leases :: "lease list"

definition group_new :: "pystr \<Rightarrow> nat list \<Rightarrow> int \<Rightarrow> int \<Rightarrow> group result" where
  "group_new name endpoints max_active max_idle =
     (if name = [] \<or> endpoints = [] then Inl (ValueError ''upstream group requires a name and endpoint'')
      else if max_active \<le> 0 \<or> max_idle < 0 then Inl (ValueError ''invalid upstream pool limits'')
      else Inr \<lparr>gr_name = name, gr_endpoints = endpoints, gr_max_active = max_active, gr_max_idle = max_idle,
                gr_active = 0, gr_cursor = 0\<rparr>)"

text \<open>The selection loop: how many tries are left; the value is the endpoint that was reserved.\<close>

fun acquire_loop :: "nat \<Rightarrow> nat \<Rightarrow> upstreams \<Rightarrow> upstreams \<times> nat option" where
  "acquire_loop 0 g us = (us, None)"
| "acquire_loop (Suc left) g us =
     (let gr = us_groups us ! g; e = gr_endpoints gr ! gr_cursor gr;
          us1 = us\<lparr>us_groups := (us_groups us)[g := gr\<lparr>gr_cursor := (gr_cursor gr + 1) mod length (gr_endpoints gr)\<rparr>]\<rparr>;
          r = endpoint_try_acquire (gr_active gr) (us_endpoints us ! e) in
      if snd r then (us1\<lparr>us_endpoints := (us_endpoints us)[e := fst r]\<rparr>, Some e)
      else acquire_loop left g us1)"

definition group_acquire :: "nat \<Rightarrow> upstreams \<Rightarrow> upstreams \<times> nat option" where
  "group_acquire g us =
     (let gr = us_groups us ! g in
      if gr_active gr \<ge> gr_max_active gr then (us, None)
      else (case acquire_loop (length (gr_endpoints gr)) g us of
          (us1, None) \<Rightarrow> (us1, None)
        | (us1, Some e) \<Rightarrow>
            let gr1 = us_groups us1 ! g in
            (us1\<lparr>us_groups := (us_groups us1)[g := gr1\<lparr>gr_active := gr_active gr1 + 1\<rparr>],
                 us_leases := us_leases us1 @ [\<lparr>ls_group = g, ls_endpoint = e, ls_released = False\<rparr>]\<rparr>,
             Some (length (us_leases us1)))))"

definition release_lease :: "nat \<Rightarrow> nat \<Rightarrow> bool \<Rightarrow> upstreams \<Rightarrow> upstreams \<times> unit result" where
  "release_lease g l failed us =
     (let ls = us_leases us ! l; e = ls_endpoint ls in
      if ls_group ls \<noteq> g \<or> ls_released ls
      then (us, Inl (RuntimeError ''upstream lease released more than once''))
      else (let us1 = us\<lparr>us_leases := (us_leases us)[l := ls\<lparr>ls_released := True\<rparr>]\<rparr> in
        case endpoint_release failed (us_endpoints us ! e) of
          (ep, Inl x) \<Rightarrow> (us1, Inl x)
        | (ep, Inr _) \<Rightarrow>
            let gr = us_groups us ! g in
            (us1\<lparr>us_endpoints := (us_endpoints us)[e := ep],
                 us_groups := (us_groups us)[g := gr\<lparr>gr_active := gr_active gr - 1\<rparr>]\<rparr>, Inr ())))"

definition lease_release :: "nat \<Rightarrow> bool \<Rightarrow> upstreams \<Rightarrow> upstreams \<times> unit result" where
  "lease_release l failed us = release_lease (ls_group (us_leases us ! l)) l failed us"

definition group_saturated :: "nat \<Rightarrow> upstreams \<Rightarrow> bool" where
  "group_saturated g us \<longleftrightarrow> gr_active (us_groups us ! g) \<ge> gr_max_active (us_groups us ! g)"

definition group_accept_and_order ::
  "nat \<Rightarrow> nat \<Rightarrow> pystr list \<Rightarrow> int \<Rightarrow> upstreams \<Rightarrow> upstreams \<times> pystr list result" where
  "group_accept_and_order g e vs qtype us =
     (if e \<notin> set (gr_endpoints (us_groups us ! g))
      then (us, Inl (RuntimeError ''upstream endpoint does not belong to group''))
      else (case accept_and_order_addresses vs qtype (us_endpoints us ! e) of
          (ep, r) \<Rightarrow> (us\<lparr>us_endpoints := (us_endpoints us)[e := ep]\<rparr>, r)))"

section \<open>Timeouts, retries, failures\<close>

record proxy_timeouts =
  pt_connect_ms :: int
  pt_header_ms :: int
  pt_body_ms :: int
  pt_idle_ms :: int

definition proxy_timeouts_new :: "int \<Rightarrow> int \<Rightarrow> int \<Rightarrow> int \<Rightarrow> proxy_timeouts result" where
  "proxy_timeouts_new connect_ms header_ms body_ms idle_ms =
     (if list_ex (\<lambda>v. v \<le> 0) [connect_ms, header_ms, body_ms, idle_ms]
      then Inl (ValueError ''proxy timeouts must be positive'')
      else Inr \<lparr>pt_connect_ms = connect_ms, pt_header_ms = header_ms, pt_body_ms = body_ms, pt_idle_ms = idle_ms\<rparr>)"

record retry_policy =
  rp_attempts :: int
  rp_methods :: "pystr list"

definition retry_policy_new :: "int \<Rightarrow> pystr list \<Rightarrow> retry_policy result" where
  "retry_policy_new attempts methods =
     (if attempts < 1 then Inl (ValueError ''proxy attempts must be at least one'')
      else Inr \<lparr>rp_attempts = attempts, rp_methods = map py_upper methods\<rparr>)"

definition retryable_failures :: "string list" where
  "retryable_failures = [''dns'', ''dns-timeout'', ''connect'', ''connect-timeout'', ''header-timeout'',
     ''reset-before-head'', ''timeout-before-head'', ''refused'']"

definition retry_allows :: "pystr \<Rightarrow> int \<Rightarrow> bool \<Rightarrow> string \<Rightarrow> bool \<Rightarrow> retry_policy \<Rightarrow> bool" where
  "retry_allows meth attempt response_committed failure request_replayable rp =
     (if \<not> request_replayable \<or> response_committed \<or> attempt \<ge> rp_attempts rp then False
      else if py_upper meth \<notin> set (rp_methods rp) then False
      else failure \<in> set retryable_failures)"

record proxy_spec =
  px_upstream :: pystr
  px_strip_prefix :: pystr
  px_timeouts :: proxy_timeouts
  px_retry :: retry_policy
  px_trust_forwarded :: bool

definition proxy_spec_new :: "pystr \<Rightarrow> pystr \<Rightarrow> proxy_timeouts \<Rightarrow> retry_policy \<Rightarrow> bool \<Rightarrow> proxy_spec result" where
  "proxy_spec_new upstream strip_prefix timeouts retry trust_forwarded =
     (if upstream = [] then Inl (ValueError ''proxy route requires an upstream group'')
      else Inr \<lparr>px_upstream = upstream, px_strip_prefix = strip_prefix, px_timeouts = timeouts,
                px_retry = retry, px_trust_forwarded = trust_forwarded\<rparr>)"

definition proxy_failure_status :: "string \<Rightarrow> int" where
  "proxy_failure_status failure =
     (if failure \<in> {''dns-timeout'', ''connect-timeout'', ''request-body-timeout'', ''header-timeout'', ''body-timeout''}
      then (if failure = ''request-body-timeout'' then 408 else 504)
      else if failure \<in> {''overloaded'', ''no-endpoint''} then 503
      else 502)"

end
