(* ===== verification/Upstream.thy ===== *)
theory Upstream
  imports Proxy
begin

text \<open>
  Model of the response half of \<open>pcc_gateway/proxy_http1.py\<close>: \<open>Http1UpstreamCodec\<close>, which decodes
  one final upstream response.  One iteration of the loop of \<open>feed\<close> is \<open>ucodec_step\<close>; the events
  an iteration appended are returned beside the new state because Python keeps them up to a raise.
\<close>

section \<open>Events and state\<close>

record upstream_head =
  uh_status :: int
  uh_reason :: pystr
  uh_version :: pystr
  uh_headers :: "header list"
  uh_content_length :: int
  uh_chunked :: bool
  uh_keep_alive :: bool
  uh_informational :: bool
  uh_body_expected :: bool

datatype upstream_event = UpHead upstream_head | UpBody bytes | UpEnd "header list"

datatype ustate =
  U_HEAD | U_FINAL_EMPTY | U_FIXED_BODY | U_CHUNK_SIZE | U_CHUNK_DATA | U_CHUNK_CRLF | U_TRAILERS | U_UNTIL_EOF | U_COMPLETE

record ucodec =
  uc_request_method :: pystr
  uc_max_header_bytes :: int
  uc_max_header_count :: int
  uc_max_body_bytes :: int
  uc_max_chunk_bytes :: int
  uc_buffer :: bytes
  uc_state :: ustate
  uc_remaining :: nat
  uc_body_received :: nat
  uc_complete :: bool
  uc_closed :: bool

definition ucodec_new :: "pystr \<Rightarrow> int \<Rightarrow> int \<Rightarrow> int \<Rightarrow> int \<Rightarrow> ucodec result" where
  "ucodec_new request_method max_header_bytes max_header_count max_body_bytes max_chunk_bytes =
     (if max_header_bytes \<le> 0 \<or> max_header_count \<le> 0
      then Inl (ValueError ''upstream header limits must be positive'')
      else Inr \<lparr>uc_request_method = py_upper request_method, uc_max_header_bytes = max_header_bytes,
                uc_max_header_count = max_header_count, uc_max_body_bytes = max_body_bytes,
                uc_max_chunk_bytes = max_chunk_bytes, uc_buffer = [], uc_state = U_HEAD, uc_remaining = 0,
                uc_body_received = 0, uc_complete = False, uc_closed = False\<rparr>)"

abbreviation perr :: "string \<Rightarrow> string \<Rightarrow> exn" where
  "perr code message \<equiv> ProxyProtocolError code message"

text \<open>An \<open>Http1Error\<close> of a shared parser, seen as a proxy protocol error: with a fixed code, or with
  its own.\<close>

fun recode :: "string \<Rightarrow> exn \<Rightarrow> exn" where
  "recode code (Http1Error status c message) = perr code message"
| "recode code e = e"

fun keep_code :: "exn \<Rightarrow> exn" where
  "keep_code (Http1Error status c message) = perr c message"
| "keep_code e = e"

definition mapl :: "(exn \<Rightarrow> exn) \<Rightarrow> 'a result \<Rightarrow> 'a result" where
  "mapl f r = (case r of Inl e \<Rightarrow> Inl (f e) | Inr x \<Rightarrow> Inr x)"

section \<open>The response head\<close>

text \<open>\<open>line.split(b" ", 2)\<close>.\<close>

definition status_parts :: "bytes \<Rightarrow> bytes list" where
  "status_parts line =
     (case py_split1 32 line of [a, rest] \<Rightarrow> a # py_split1 32 rest | parts \<Rightarrow> parts)"

definition parse_status_line :: "bytes \<Rightarrow> (bytes \<times> int \<times> bytes) result" where
  "parse_status_line line =
     (if line = [] then Inl (perr ''empty-status-line'' ''empty upstream status line'')
      else (let parts = status_parts line in
        if length parts < 2 then Inl (perr ''bad-status-line'' ''invalid upstream status line'')
        else (let version_bytes = parts ! 0; status_bytes = parts ! 1;
                  reason_bytes = (if length parts = 2 then [] else parts ! 2) in
          if version_bytes \<noteq> cp ''HTTP/1.0'' \<and> version_bytes \<noteq> cp ''HTTP/1.1''
          then Inl (perr ''bad-version'' ''unsupported upstream HTTP version'')
          else if length status_bytes \<noteq> 3
          then Inl (perr ''bad-status'' ''upstream status must be three digits'')
          else if \<not> list_all is_digit status_bytes
          then Inl (perr ''bad-status'' ''upstream status is not decimal'')
          else if contains_bad_value_byte reason_bytes
          then Inl (perr ''bad-reason'' ''unsafe upstream reason phrase'')
          else if py_int_dec status_bytes < 100 \<or> py_int_dec status_bytes > 999
          then Inl (perr ''bad-status'' ''upstream status is out of range'')
          else Inr (version_bytes, py_int_dec status_bytes, reason_bytes))))"

definition upstream_length :: "int \<Rightarrow> header_names \<Rightarrow> int result" where
  "upstream_length max_body_bytes names =
     (case names (cp ''content-length'') of
       None \<Rightarrow> Inr (-1)
     | Some lengths \<Rightarrow>
         if length lengths \<noteq> 1 \<or> 44 \<in> set (hd lengths) \<or> hd lengths = []
         then Inl (perr ''ambiguous-length'' ''ambiguous upstream length'')
         else if list_ex (\<lambda>c. c < 48 \<or> c > 57) (hd lengths)
         then Inl (perr ''bad-length'' ''invalid upstream length'')
         else if py_int_dec (hd lengths) > max_body_bytes
         then Inl (perr ''body-too-large'' ''upstream body limit exceeded'')
         else Inr (py_int_dec (hd lengths)))"

definition upstream_chunked :: "int \<Rightarrow> header_names \<Rightarrow> bool result" where
  "upstream_chunked content_length names =
     (if names (cp ''transfer-encoding'') = None then Inr False
      else if content_length \<ge> 0
      then Inl (perr ''ambiguous-framing'' ''upstream sent both Transfer-Encoding and Content-Length'')
      else if tokens_of (cp ''transfer-encoding'') names \<noteq> [cp ''chunked'']
      then Inl (perr ''unsupported-transfer-coding'' ''only final chunked upstream coding is supported'')
      else Inr True)"

text \<open>The head as parsed; \<open>_parse_head\<close> then clears \<open>keep_alive\<close> of a head whose body ends at EOF.\<close>

definition parse_upstream_head :: "ucodec \<Rightarrow> bytes \<Rightarrow> upstream_head result" where
  "parse_upstream_head c block =
     (let lines = split_crlf block in
      rbind (parse_status_line (hd lines)) (\<lambda>(version, status, reason).
      rbind (mapl (recode ''bad-header'') (parse_headers (tl lines) (uc_max_header_count c))) (\<lambda>(headers, names).
      rbind (upstream_length (uc_max_body_bytes c) names) (\<lambda>content_length.
      rbind (upstream_chunked content_length names) (\<lambda>chunked.
      rbind (raise_if (status = 101) (perr ''upgrade-rejected'' ''HTTP upgrade is not supported'')) (\<lambda>_.
        let informational = (100 \<le> status \<and> status < 200);
            body_expected = (\<not> (uc_request_method c = cp ''HEAD'' \<or> informational \<or> status = 204 \<or> status = 304)) in
        Inr \<lparr>uh_status = status, uh_reason = latin1_text reason, uh_version = version, uh_headers = headers,
             uh_content_length = content_length, uh_chunked = chunked,
             uh_keep_alive = connection_keep_alive version names,
             uh_informational = informational, uh_body_expected = body_expected\<rparr>))))))"

definition enter_response :: "upstream_head \<Rightarrow> ucodec \<Rightarrow> ucodec \<times> upstream_head" where
  "enter_response h c =
     (if uh_informational h then (c\<lparr>uc_state := U_HEAD\<rparr>, h)
      else if \<not> uh_body_expected h \<or> uh_content_length h = 0 then (c\<lparr>uc_state := U_FINAL_EMPTY\<rparr>, h)
      else if uh_chunked h then (c\<lparr>uc_state := U_CHUNK_SIZE\<rparr>, h)
      else if uh_content_length h \<ge> 0
      then (c\<lparr>uc_remaining := nat (uh_content_length h), uc_state := U_FIXED_BODY\<rparr>, h)
      else (c\<lparr>uc_state := U_UNTIL_EOF\<rparr>, h\<lparr>uh_keep_alive := False\<rparr>))"

section \<open>One iteration\<close>

datatype uctl = UBreak | UNext

type_synonym ustep = "ucodec \<times> upstream_event list \<times> uctl result"

text \<open>\<open>_finish\<close> and the check that nothing follows.\<close>

definition finish_response :: "upstream_event list \<Rightarrow> header list \<Rightarrow> ucodec \<Rightarrow> ustep" where
  "finish_response es trailers c =
     (let c1 = c\<lparr>uc_state := U_COMPLETE, uc_complete := True\<rparr> in
      (c1, es @ [UpEnd trailers],
       if uc_buffer c \<noteq> [] then Inl (perr ''pipelined-response'' ''unexpected response bytes'') else Inr UBreak))"

definition ustep_head :: "ucodec \<Rightarrow> ustep" where
  "ustep_head c =
     (let buf = uc_buffer c; marker = find_double_crlf buf in
      if marker < 0
      then (c, [], if int (length buf) > uc_max_header_bytes c
                   then Inl (perr ''headers-too-large'' ''upstream headers exceed limit'') else Inr UBreak)
      else if marker + 4 > uc_max_header_bytes c
      then (c, [], Inl (perr ''headers-too-large'' ''upstream headers exceed limit''))
      else (let c1 = c\<lparr>uc_buffer := drop (nat marker + 4) buf\<rparr> in
        case parse_upstream_head c1 (take (nat marker) buf) of
          Inl e \<Rightarrow> (c1, [], Inl e)
        | Inr h \<Rightarrow>
            let c2 = fst (enter_response h c1); h2 = snd (enter_response h c1) in
            if uc_state c2 = U_FINAL_EMPTY then finish_response [UpHead h2] [] c2
            else (c2, [UpHead h2], Inr UNext)))"

definition body_piece :: "ucodec \<Rightarrow> nat" where
  "body_piece c = min (uc_remaining c) (length (uc_buffer c))"

definition take_piece :: "ucodec \<Rightarrow> ucodec" where
  "take_piece c = c\<lparr>uc_buffer := drop (body_piece c) (uc_buffer c), uc_remaining := uc_remaining c - body_piece c,
     uc_body_received := uc_body_received c + body_piece c\<rparr>"

definition piece_events :: "ucodec \<Rightarrow> upstream_event list" where
  "piece_events c = (if body_piece c = 0 then [] else [UpBody (take (body_piece c) (uc_buffer c))])"

definition ustep_fixed :: "ucodec \<Rightarrow> ustep" where
  "ustep_fixed c =
     (if uc_buffer c = [] then (c, [], Inr UBreak)
      else if uc_remaining (take_piece c) = 0 then finish_response (piece_events c) [] (take_piece c)
      else (take_piece c, piece_events c, Inr UNext))"

definition ustep_chunk_size :: "ucodec \<Rightarrow> ustep" where
  "ustep_chunk_size c =
     (let buf = uc_buffer c; marker = find_crlf buf in
      if marker < 0
      then (c, [], if length buf > 128 then Inl (perr ''chunk-line-too-long'' ''upstream chunk line exceeds limit'')
                   else Inr UBreak)
      else if marker > 128
      then (c, [], Inl (perr ''chunk-line-too-long'' ''upstream chunk line exceeds limit''))
      else (let c1 = c\<lparr>uc_buffer := drop (nat marker + 2) buf\<rparr> in
        case mapl keep_code (parse_chunk_size_line (take (nat marker) buf)) of
          Inl e \<Rightarrow> (c1, [], Inl e)
        | Inr n \<Rightarrow>
            if n > uc_max_chunk_bytes c
            then (c1, [], Inl (perr ''chunk-too-large'' ''upstream chunk limit exceeded''))
            else if int (uc_body_received c) + n > uc_max_body_bytes c
            then (c1, [], Inl (perr ''body-too-large'' ''upstream body limit exceeded''))
            else if n = 0 then (c1\<lparr>uc_state := U_TRAILERS\<rparr>, [], Inr UNext)
            else (c1\<lparr>uc_remaining := nat n, uc_state := U_CHUNK_DATA\<rparr>, [], Inr UNext)))"

definition ustep_chunk_data :: "ucodec \<Rightarrow> ustep" where
  "ustep_chunk_data c =
     (if uc_buffer c = [] then (c, [], Inr UBreak)
      else if uc_remaining (take_piece c) = 0
      then ((take_piece c)\<lparr>uc_state := U_CHUNK_CRLF\<rparr>, piece_events c, Inr UNext)
      else (take_piece c, piece_events c, Inr UNext))"

definition ustep_chunk_crlf :: "ucodec \<Rightarrow> ustep" where
  "ustep_chunk_crlf c =
     (if length (uc_buffer c) < 2 then (c, [], Inr UBreak)
      else if take 2 (uc_buffer c) \<noteq> crlf
      then (c, [], Inl (perr ''bad-chunk-ending'' ''invalid upstream chunk ending''))
      else (c\<lparr>uc_buffer := drop 2 (uc_buffer c), uc_state := U_CHUNK_SIZE\<rparr>, [], Inr UNext))"

definition ustep_trailers :: "ucodec \<Rightarrow> ustep" where
  "ustep_trailers c =
     (let buf = uc_buffer c in
      if length buf \<ge> 2 \<and> take 2 buf = crlf then finish_response [] [] (c\<lparr>uc_buffer := drop 2 buf\<rparr>)
      else (let marker = find_double_crlf buf in
        if marker < 0
        then (c, [], if int (length buf) > uc_max_header_bytes c
                     then Inl (perr ''trailers-too-large'' ''upstream trailers exceed limit'') else Inr UBreak)
        else if marker + 4 > uc_max_header_bytes c
        then (c, [], Inl (perr ''trailers-too-large'' ''upstream trailers exceed limit''))
        else (let c1 = c\<lparr>uc_buffer := drop (nat marker + 4) buf\<rparr> in
          case mapl (recode ''bad-trailer'') (parse_headers (split_crlf (take (nat marker) buf)) (uc_max_header_count c)) of
            Inl e \<Rightarrow> (c1, [], Inl e)
          | Inr r \<Rightarrow>
              if snd r (cp ''content-length'') \<noteq> None \<or> snd r (cp ''transfer-encoding'') \<noteq> None
              then (c1, [], Inl (perr ''bad-trailer'' ''framing field in upstream trailer''))
              else finish_response [] (sanitize_hop_by_hop (fst r)) c1)))"

definition ustep_until_eof :: "ucodec \<Rightarrow> ustep" where
  "ustep_until_eof c =
     (if uc_buffer c = [] then (c, [], Inr UBreak)
      else (let c1 = c\<lparr>uc_body_received := uc_body_received c + length (uc_buffer c)\<rparr> in
        if int (uc_body_received c1) > uc_max_body_bytes c
        then (c1, [], Inl (perr ''body-too-large'' ''upstream body limit exceeded''))
        else (c1\<lparr>uc_buffer := []\<rparr>, [UpBody (uc_buffer c)], Inr UBreak)))"

definition ucodec_step :: "ucodec \<Rightarrow> ustep" where
  "ucodec_step c =
     (case uc_state c of
       U_HEAD \<Rightarrow> ustep_head c
     | U_FIXED_BODY \<Rightarrow> ustep_fixed c
     | U_CHUNK_SIZE \<Rightarrow> ustep_chunk_size c
     | U_CHUNK_DATA \<Rightarrow> ustep_chunk_data c
     | U_CHUNK_CRLF \<Rightarrow> ustep_chunk_crlf c
     | U_TRAILERS \<Rightarrow> ustep_trailers c
     | U_UNTIL_EOF \<Rightarrow> ustep_until_eof c
     | U_COMPLETE \<Rightarrow> (c, [], Inr UBreak)
     | U_FINAL_EMPTY \<Rightarrow> (c, [], Inl (perr ''codec-state'' ''unknown upstream codec state'')))"

section \<open>The loop\<close>

definition ucodec_measure :: "ucodec \<Rightarrow> nat" where
  "ucodec_measure c = 2 * length (uc_buffer c) + (if uc_state c = U_CHUNK_DATA then 1 else 0)"

lemma finish_response_ctl: "finish_response es ts c = (c', fs, Inr k) \<Longrightarrow> k = UBreak"
  by (auto simp: finish_response_def Let_def split: if_splits)

lemma enter_response_buffer [simp]: "uc_buffer (fst (enter_response h c)) = uc_buffer c"
  by (simp add: enter_response_def)

lemma enter_response_state: "uc_state (fst (enter_response h c)) \<noteq> U_CHUNK_DATA"
  by (simp add: enter_response_def)

lemma ucodec_step_measure:
  assumes "ucodec_step c = (c', es, Inr UNext)"
  shows "ucodec_measure c' < ucodec_measure c"
proof (cases "uc_state c")
  case U_HEAD
  with assms have s: "ustep_head c = (c', es, Inr UNext)" by (simp add: ucodec_step_def)
  then have m: "0 \<le> find_double_crlf (uc_buffer c)"
    by (auto simp: ustep_head_def Let_def split: if_splits)
  note b = find_double_crlf_bound [OF m]
  from s m b U_HEAD show ?thesis
    by (auto simp: ustep_head_def Let_def ucodec_measure_def enter_response_state
        dest: finish_response_ctl split: if_splits sum.splits)
next
  case U_CHUNK_SIZE
  with assms have s: "ustep_chunk_size c = (c', es, Inr UNext)" by (simp add: ucodec_step_def)
  then have m: "0 \<le> find_crlf (uc_buffer c)"
    by (auto simp: ustep_chunk_size_def Let_def split: if_splits)
  note b = find_crlf_bound [OF m]
  from s m b U_CHUNK_SIZE show ?thesis
    by (auto simp: ustep_chunk_size_def Let_def ucodec_measure_def split: if_splits sum.splits)
qed (use assms in \<open>auto simp: ucodec_step_def ustep_fixed_def ustep_chunk_data_def ustep_chunk_crlf_def
      ustep_trailers_def ustep_until_eof_def Let_def ucodec_measure_def take_piece_def body_piece_def min_def
      dest: finish_response_ctl split: if_splits sum.splits\<close>)

function ufeed_loop :: "ucodec \<Rightarrow> ucodec \<times> upstream_event list \<times> unit result" where
  "ufeed_loop c =
     (case ucodec_step c of
       (c', es, Inl e) \<Rightarrow> (c', es, Inl e)
     | (c', es, Inr UBreak) \<Rightarrow> (c', es, Inr ())
     | (c', es, Inr UNext) \<Rightarrow> (case ufeed_loop c' of (c2, fs, r) \<Rightarrow> (c2, es @ fs, r)))"
  by pat_completeness auto
termination
  by (relation "measure ucodec_measure") (auto dest!: ucodec_step_measure [OF sym])

declare ufeed_loop.simps [simp del]

definition prepend_up ::
  "upstream_event list \<Rightarrow> ucodec \<times> upstream_event list \<times> unit result \<Rightarrow> ucodec \<times> upstream_event list \<times> unit result"
  where "prepend_up es x = (case x of (c2, fs, r) \<Rightarrow> (c2, es @ fs, r))"

lemma ufeed_loop_code [code]:
  "ufeed_loop c =
     (let s = ucodec_step c in
      case snd (snd s) of
        Inl e \<Rightarrow> (fst s, fst (snd s), Inl e)
      | Inr ctl \<Rightarrow> (if ctl = UBreak then (fst s, fst (snd s), Inr ())
                    else prepend_up (fst (snd s)) (ufeed_loop (fst s))))"
  by (subst ufeed_loop.simps, cases "ucodec_step c") (auto simp: prepend_up_def split: sum.split uctl.split)

text \<open>The events of a call that raises are lost to the caller.\<close>

definition ufeed :: "ucodec \<Rightarrow> bytes \<Rightarrow> ucodec \<times> upstream_event list result" where
  "ufeed c data =
     (if uc_closed c \<or> uc_complete c
      then (c, if data \<noteq> [] then Inl (perr ''response-complete'' ''bytes after upstream response'') else Inr [])
      else (let r = ufeed_loop (c\<lparr>uc_buffer := uc_buffer c @ data\<rparr>) in
        (fst r, case snd (snd r) of Inl e \<Rightarrow> Inl e | Inr _ \<Rightarrow> Inr (fst (snd r)))))"

definition ueof :: "ucodec \<Rightarrow> ucodec \<times> upstream_event list result" where
  "ueof c0 =
     (let c = c0\<lparr>uc_closed := True\<rparr> in
      if uc_state c = U_UNTIL_EOF
      then (let c1 = (if uc_complete c then c else fst (ufeed c []));
                es = (if uc_complete c then [] else case snd (ufeed c []) of Inl _ \<Rightarrow> [] | Inr xs \<Rightarrow> xs) in
        (c1\<lparr>uc_state := U_COMPLETE, uc_complete := True\<rparr>, Inr (es @ [UpEnd []])))
      else if uc_complete c then (c, Inr [])
      else (c, Inl (perr ''incomplete-response'' ''upstream closed during response'')))"

end
