(* ===== verification/Upstream_Codec.thy ===== *)
theory Upstream_Codec
  imports Upstream Http1_Fragments
begin

text \<open>
  The upstream codec as an incremental decoder: how the network cuts an accepted response does not
  show in what is decoded.  Unlike the server codec, its errors do depend on the cuts: bytes behind
  a complete response are a pipelined response in one call and bytes after the response in two.
\<close>

datatype up_token = UtHead upstream_head | UtByte int | UtEnd "header list"

fun up_wire_event :: "upstream_event \<Rightarrow> up_token list" where
  "up_wire_event (UpHead h) = [UtHead h]"
| "up_wire_event (UpBody bs) = map UtByte bs"
| "up_wire_event (UpEnd ts) = [UtEnd ts]"

definition up_wire :: "upstream_event list \<Rightarrow> up_token list" where
  "up_wire es = concat (map up_wire_event es)"

lemma up_wire_simps [simp]:
  "up_wire [] = []" "up_wire (e # es) = up_wire_event e @ up_wire es" "up_wire (es @ fs) = up_wire es @ up_wire fs"
  by (simp_all add: up_wire_def)

abbreviation umore :: "ucodec \<Rightarrow> bytes \<Rightarrow> ucodec" where
  "umore c b \<equiv> c\<lparr>uc_buffer := uc_buffer c @ b\<rparr>"

section \<open>One iteration on a longer buffer\<close>

lemma parse_upstream_head_buffer [simp]:
  "parse_upstream_head (c\<lparr>uc_buffer := b\<rparr>) block = parse_upstream_head c block"
  by (simp add: parse_upstream_head_def)

lemma enter_response_more:
  "enter_response h (c\<lparr>uc_buffer := b\<rparr>) = ((fst (enter_response h c))\<lparr>uc_buffer := b\<rparr>, snd (enter_response h c))"
  by (simp add: enter_response_def)

lemma finish_not_next [simp]: "finish_response es ts c \<noteq> (c', fs, Inr UNext)"
  by (simp add: finish_response_def Let_def)

text \<open>A body piece that took all there was and is still short.\<close>

definition partial :: "ucodec \<Rightarrow> bool" where
  "partial c \<longleftrightarrow> (uc_state c = U_FIXED_BODY \<or> uc_state c = U_CHUNK_DATA) \<and> uc_buffer c \<noteq> [] \<and>
     length (uc_buffer c) < uc_remaining c"

lemma ustep_more:
  assumes "ucodec_step c = (c', es, Inr UNext)" "\<not> partial c"
  shows "ucodec_step (umore c b) = (umore c' b, es, Inr UNext)"
proof (cases "uc_state c")
  case U_HEAD
  with assms have s: "ustep_head c = (c', es, Inr UNext)" by (simp add: ucodec_step_def)
  then have m: "0 \<le> find_double_crlf (uc_buffer c)" by (auto simp: ustep_head_def Let_def split: if_splits)
  note bd = find_double_crlf_bound [OF m]
  from s m bd have "ustep_head (umore c b) = (umore c' b, es, Inr UNext)"
    by (auto simp: ustep_head_def Let_def find_double_crlf_append enter_response_more
        split: if_splits sum.splits)
  with U_HEAD show ?thesis by (simp add: ucodec_step_def)
next
  case U_CHUNK_SIZE
  with assms have s: "ustep_chunk_size c = (c', es, Inr UNext)" by (simp add: ucodec_step_def)
  then have m: "0 \<le> find_crlf (uc_buffer c)" by (auto simp: ustep_chunk_size_def Let_def split: if_splits)
  note bd = find_crlf_bound [OF m]
  from s m bd have "ustep_chunk_size (umore c b) = (umore c' b, es, Inr UNext)"
    by (auto simp: ustep_chunk_size_def Let_def find_crlf_append split: if_splits sum.splits)
  with U_CHUNK_SIZE show ?thesis by (simp add: ucodec_step_def)
next
  case U_TRAILERS
  with assms have "ustep_trailers c = (c', es, Inr UNext)" by (simp add: ucodec_step_def)
  then show ?thesis by (auto simp: ustep_trailers_def Let_def split: if_splits sum.splits)
next
  case U_UNTIL_EOF
  with assms show ?thesis by (auto simp: ucodec_step_def ustep_until_eof_def Let_def split: if_splits)
next
  case U_FIXED_BODY
  with assms show ?thesis
    by (auto simp: ucodec_step_def ustep_fixed_def partial_def take_piece_def body_piece_def min_def split: if_splits)
next
  case U_CHUNK_DATA
  with assms show ?thesis
    by (auto simp: ucodec_step_def ustep_chunk_data_def partial_def take_piece_def body_piece_def piece_events_def
        min_def split: if_splits)
next
  case U_CHUNK_CRLF
  with assms show ?thesis
    by (auto simp: ucodec_step_def ustep_chunk_crlf_def crlf_def split: if_splits)
qed (use assms in \<open>simp_all add: ucodec_step_def\<close>)

text \<open>How an iteration can stop the loop.\<close>

lemma ustep_break:
  assumes "ucodec_step c = (c', es, Inr UBreak)"
  shows "c' = c \<and> es = [] \<or> uc_state c' = U_COMPLETE \<and> uc_complete c' \<or>
    uc_state c = U_UNTIL_EOF \<and> uc_buffer c \<noteq> [] \<and> es = [UpBody (uc_buffer c)] \<and>
    int (uc_body_received c + length (uc_buffer c)) \<le> uc_max_body_bytes c \<and>
    c' = c\<lparr>uc_buffer := [], uc_body_received := uc_body_received c + length (uc_buffer c)\<rparr>"
  using assms
  by (cases "uc_state c")
    (auto simp: ucodec_step_def ustep_head_def ustep_fixed_def ustep_chunk_size_def ustep_chunk_data_def
      ustep_chunk_crlf_def ustep_trailers_def ustep_until_eof_def finish_response_def Let_def
      split: if_splits sum.splits)

section \<open>The loop on a longer buffer\<close>

lemma urun_break: "ucodec_step c = (c', es, Inr UBreak) \<Longrightarrow> ufeed_loop c = (c', es, Inr ())"
  by (subst ufeed_loop.simps) simp

lemma urun_error: "ucodec_step c = (c', es, Inl e) \<Longrightarrow> ufeed_loop c = (c', es, Inl e)"
  by (subst ufeed_loop.simps) simp

lemma urun_next:
  "ucodec_step c = (c', es, Inr UNext) \<Longrightarrow>
   ufeed_loop c = (fst (ufeed_loop c'), es @ fst (snd (ufeed_loop c')), snd (snd (ufeed_loop c')))"
  by (subst ufeed_loop.simps) (simp split: prod.split)

lemma urun_cases:
  obtains (error) c' es e where "ucodec_step c = (c', es, Inl e)"
  | (stop) c' es where "ucodec_step c = (c', es, Inr UBreak)"
  | (more) c' es where "ucodec_step c = (c', es, Inr UNext)"
  by (cases "ucodec_step c"; cases "snd (snd (ucodec_step c))"; cases "projr (snd (snd (ucodec_step c)))") auto

text \<open>The loop from \<open>c\<close> gives what the loop from \<open>c1\<close> gives, after \<open>es\<close>.\<close>

definition continues :: "ucodec \<Rightarrow> upstream_event list \<Rightarrow> ucodec \<Rightarrow> bool" where
  "continues c es c1 \<longleftrightarrow> (\<forall>c2 fs. ufeed_loop c1 = (c2, fs, Inr ()) \<longrightarrow>
     (\<exists>gs. ufeed_loop c = (c2, gs, Inr ()) \<and> up_wire gs = up_wire es @ up_wire fs))"

lemma continues_refl: "continues c [] c"
  by (simp add: continues_def)

lemma continues_next:
  assumes "ucodec_step c = (c', es, Inr UNext)" "continues c' fs c1"
  shows "continues c (es @ fs) c1"
  using assms(2) urun_next [OF assms(1)] by (auto simp: continues_def)

text \<open>A body piece cut in two.\<close>

lemma partial_step:
  assumes "partial c"
  shows "ucodec_step c = (take_piece c, [UpBody (uc_buffer c)], Inr UNext)"
    "take_piece c = c\<lparr>uc_buffer := [], uc_remaining := uc_remaining c - length (uc_buffer c),
       uc_body_received := uc_body_received c + length (uc_buffer c)\<rparr>"
    "ufeed_loop c = (take_piece c, [UpBody (uc_buffer c)], Inr ())"
proof -
  show t: "take_piece c = c\<lparr>uc_buffer := [], uc_remaining := uc_remaining c - length (uc_buffer c),
       uc_body_received := uc_body_received c + length (uc_buffer c)\<rparr>"
    using assms by (auto simp: take_piece_def body_piece_def partial_def)
  show s: "ucodec_step c = (take_piece c, [UpBody (uc_buffer c)], Inr UNext)"
    using assms t by (auto simp: partial_def ucodec_step_def ustep_fixed_def ustep_chunk_data_def piece_events_def body_piece_def)
  have "ucodec_step (take_piece c) = (take_piece c, [], Inr UBreak)"
    using assms by (auto simp: t partial_def ucodec_step_def ustep_fixed_def ustep_chunk_data_def)
  then show "ufeed_loop c = (take_piece c, [UpBody (uc_buffer c)], Inr ())"
    using urun_next [OF s] urun_break by fastforce
qed

lemma partial_continues:
  assumes "partial c"
  shows "continues (umore c b) [UpBody (uc_buffer c)] (umore (take_piece c) b)"
proof (cases "b = []")
  case True
  have "ucodec_step (take_piece c) = (take_piece c, [], Inr UBreak)"
    using assms by (auto simp: partial_step(2) partial_def ucodec_step_def ustep_fixed_def ustep_chunk_data_def)
  then show ?thesis
    using True partial_step(3) [OF assms] urun_break by (auto simp: continues_def)
next
  case False
  let ?n = "min (uc_remaining c - length (uc_buffer c)) (length b)"
  let ?c = "c\<lparr>uc_buffer := drop ?n b, uc_remaining := uc_remaining c - length (uc_buffer c) - ?n,
      uc_body_received := uc_body_received c + length (uc_buffer c) + ?n\<rparr>"
  have p: "take_piece (umore c b) = ?c" "take_piece (umore (take_piece c) b) = ?c"
    "piece_events (umore c b) = [UpBody (uc_buffer c @ take ?n b)]"
    "piece_events (umore (take_piece c) b) = [UpBody (take ?n b)]"
    using assms False
    by (auto simp: partial_step(2) partial_def take_piece_def body_piece_def piece_events_def min_def)
  have st: "uc_state (take_piece c) = uc_state c" by (simp add: take_piece_def)
  have "\<exists>c3 es3 k. ucodec_step (umore c b) = (c3, [UpBody (uc_buffer c @ take ?n b)] @ es3, k) \<and>
      ucodec_step (umore (take_piece c) b) = (c3, [UpBody (take ?n b)] @ es3, k)"
    using assms False p st
    by (auto simp: partial_def ucodec_step_def ustep_fixed_def ustep_chunk_data_def finish_response_def Let_def)
  then obtain c3 es3 k where k: "ucodec_step (umore c b) = (c3, [UpBody (uc_buffer c @ take ?n b)] @ es3, k)"
      "ucodec_step (umore (take_piece c) b) = (c3, [UpBody (take ?n b)] @ es3, k)" by blast
  show ?thesis
  proof (cases k)
    case (Inl e)
    with k urun_error show ?thesis by (auto simp: continues_def)
  next
    case (Inr ctl)
    show ?thesis
    proof (cases ctl)
      case UBreak
      with k Inr urun_break show ?thesis by (auto simp: continues_def)
    next
      case UNext
      with k Inr urun_next [of "umore c b"] urun_next [of "umore (take_piece c) b"] show ?thesis
        by (auto simp: continues_def)
    qed
  qed
qed

text \<open>The main step: what was accepted first, and then the rest.\<close>

lemma urun_more:
  assumes "ufeed_loop c = (c1, es, Inr ())" "\<not> uc_complete c1 \<or> b = []"
  shows "continues (umore c b) es (umore c1 b)"
  using assms
proof (induction "ucodec_measure c" arbitrary: c es rule: less_induct)
  case less
  show ?case
  proof (cases c rule: urun_cases)
    case (error c' fs e)
    with less.prems(1) urun_error show ?thesis by fastforce
  next
    case (stop c' fs)
    then have c1: "c1 = c'" "es = fs" using less.prems(1) urun_break [OF stop] by simp_all
    consider "c' = c" "fs = []" | "uc_state c' = U_COMPLETE" "uc_complete c'" | "uc_state c = U_UNTIL_EOF" "uc_buffer c \<noteq> []"
        "fs = [UpBody (uc_buffer c)]" "int (uc_body_received c + length (uc_buffer c)) \<le> uc_max_body_bytes c"
        "c' = c\<lparr>uc_buffer := [], uc_body_received := uc_body_received c + length (uc_buffer c)\<rparr>"
      using ustep_break [OF stop] by blast
    then show ?thesis
    proof cases
      case 1
      with c1 show ?thesis by (simp add: continues_refl)
    next
      case 2
      then have "b = []" using less.prems(2) c1 by simp
      moreover have "ufeed_loop c' = (c', [], Inr ())"
        using 2 by (intro urun_break) (simp add: ucodec_step_def)
      ultimately show ?thesis
        using c1 less.prems(1) by (simp add: continues_def)
    next
      case 3
      have "ufeed_loop (umore c b) =
          (if int (uc_body_received c + length (uc_buffer c) + length b) > uc_max_body_bytes c
           then (umore c b\<lparr>uc_body_received := uc_body_received c + length (uc_buffer c) + length b\<rparr>, [],
             Inl (perr ''body-too-large'' ''upstream body limit exceeded''))
           else (c\<lparr>uc_buffer := [], uc_body_received := uc_body_received c + length (uc_buffer c) + length b\<rparr>,
             [UpBody (uc_buffer c @ b)], Inr ()))"
        using 3(1,2) by (subst ufeed_loop.simps) (simp add: ucodec_step_def ustep_until_eof_def Let_def)
      moreover have "ufeed_loop (umore c' b) =
          (if b = [] then (c', [], Inr ())
           else if int (uc_body_received c + length (uc_buffer c) + length b) > uc_max_body_bytes c
           then (umore c' b\<lparr>uc_body_received := uc_body_received c + length (uc_buffer c) + length b\<rparr>, [],
             Inl (perr ''body-too-large'' ''upstream body limit exceeded''))
           else (c\<lparr>uc_buffer := [], uc_body_received := uc_body_received c + length (uc_buffer c) + length b\<rparr>,
             [UpBody b], Inr ()))"
        using 3 by (subst ufeed_loop.simps) (simp add: ucodec_step_def ustep_until_eof_def Let_def)
      ultimately show ?thesis
        using 3 c1 by (auto simp: continues_def)
    qed
  next
    case (more c' fs)
    show ?thesis
    proof (cases "partial c")
      case True
      then have "c1 = take_piece c" "es = [UpBody (uc_buffer c)]"
        using less.prems(1) partial_step(3) by simp_all
      with partial_continues [OF True] show ?thesis by simp
    next
      case False
      note u = urun_next [OF more] and st = ustep_more [OF more False, of b]
      from u less.prems(1) have r: "ufeed_loop c' = (c1, fst (snd (ufeed_loop c')), Inr ())"
        "es = fs @ fst (snd (ufeed_loop c'))"
        by (metis fst_conv snd_conv prod.collapse)+
      have "continues (umore c' b) (fst (snd (ufeed_loop c'))) (umore c1 b)"
        by (rule less.hyps [OF ucodec_step_measure [OF more] r(1) less.prems(2)])
      with continues_next [OF st] r(2) show ?thesis by simp
    qed
  qed
qed

lemma ufeed_split:
  assumes "ufeed s a = (s1, Inr es)" "ufeed s1 b = (s2, Inr fs)"
  shows "\<exists>gs. ufeed s (a @ b) = (s2, Inr gs) \<and> up_wire gs = up_wire es @ up_wire fs"
proof (cases "uc_closed s \<or> uc_complete s")
  case True
  with assms have "a = []" "s1 = s" "es = []" by (auto simp: ufeed_def split: if_splits)
  with assms(2) show ?thesis by simp
next
  case False
  then have l: "ufeed_loop (umore s a) = (s1, es, Inr ())"
    using assms(1) by (cases "ufeed_loop (umore s a)") (auto simp: ufeed_def Let_def split: sum.splits)
  show ?thesis
  proof (cases "uc_closed s1 \<or> uc_complete s1")
    case True
    with assms(2) have "b = []" "s2 = s1" "fs = []" by (auto simp: ufeed_def split: if_splits)
    with assms(1) show ?thesis by simp
  next
    case f1: False
    then have l1: "ufeed_loop (umore s1 b) = (s2, fs, Inr ())"
      using assms(2) by (cases "ufeed_loop (umore s1 b)") (auto simp: ufeed_def Let_def split: sum.splits)
    have "continues (umore (umore s a) b) es (umore s1 b)" using urun_more [OF l] f1 by simp
    then obtain gs where "ufeed_loop (umore s (a @ b)) = (s2, gs, Inr ())" "up_wire gs = up_wire es @ up_wire fs"
      using l1 by (auto simp: continues_def)
    with False show ?thesis by (auto simp: ufeed_def Let_def)
  qed
qed

interpretation upstream: stream_decoder ufeed up_wire
  by unfold_locales (simp, rule ufeed_split)

section \<open>What the proxy relies on\<close>

definition sample_response :: bytes where
  "sample_response = cp ''HTTP/1.1 200 OK'' @ crlf @ cp ''Content-Length: 3'' @ crlf @ crlf @ cp ''abc''"

definition sample_ucodec :: ucodec where
  "sample_ucodec = \<lparr>uc_request_method = cp ''GET'', uc_max_header_bytes = 60, uc_max_header_count = 9,
     uc_max_body_bytes = 9, uc_max_chunk_bytes = 9, uc_buffer = [], uc_state = U_HEAD, uc_remaining = 0,
     uc_body_received = 0, uc_complete = False, uc_closed = False\<rparr>"

definition sample_upstream_head :: upstream_head where
  "sample_upstream_head = \<lparr>uh_status = 200, uh_reason = cp ''OK'', uh_version = cp ''HTTP/1.1'',
     uh_headers = [(cp ''content-length'', cp ''3'')], uh_content_length = 3, uh_chunked = False,
     uh_keep_alive = True, uh_informational = False, uh_body_expected = True\<rparr>"

text \<open>C23 Fragmentation independence of the response decoder: two accepted ways of cutting the same
  upstream bytes reach the same codec state and deliver the same heads, body bytes and message end,
  and one \<open>feed\<close> of all the bytes is accepted with the same result.\<close>

theorem ufeed_fragments:
  assumes "feed_seq ufeed c (d # ds) = (c1, Inr es)"
  shows "(\<exists>gs. ufeed c (concat (d # ds)) = (c1, Inr gs) \<and> up_wire gs = up_wire es) \<and>
    (\<forall>d' ds' c2 fs. feed_seq ufeed c (d' # ds') = (c2, Inr fs) \<longrightarrow> concat (d' # ds') = concat (d # ds) \<longrightarrow>
      c2 = c1 \<and> up_wire fs = up_wire es)"
  using upstream.feed_seq_concat [OF assms] upstream.fragments_irrelevant [OF _ assms] by blast

theorem ufeed_fragments_witness:
  "\<exists>gs. ufeed sample_ucodec sample_response = (sample_ucodec\<lparr>uc_state := U_COMPLETE, uc_complete := True,
      uc_body_received := 3\<rparr>, Inr gs) \<and>
    up_wire gs = [UtHead sample_upstream_head, UtByte 97, UtByte 98, UtByte 99, UtEnd []]"
proof -
  have "feed_seq ufeed sample_ucodec [take 5 sample_response, take 34 (drop 5 sample_response), drop 39 sample_response] =
      (sample_ucodec\<lparr>uc_state := U_COMPLETE, uc_complete := True, uc_body_received := 3\<rparr>,
       Inr [UpHead sample_upstream_head, UpBody [97], UpBody [98, 99], UpEnd []])"
    by code_simp
  moreover have "concat [take 5 sample_response, take 34 (drop 5 sample_response), drop 39 sample_response] = sample_response"
    by code_simp
  ultimately obtain gs where "ufeed sample_ucodec sample_response =
      (sample_ucodec\<lparr>uc_state := U_COMPLETE, uc_complete := True, uc_body_received := 3\<rparr>, Inr gs)"
      "up_wire gs = up_wire [UpHead sample_upstream_head, UpBody [97], UpBody [98, 99], UpEnd []]"
    by (metis ufeed_fragments)
  then show ?thesis by simp
qed

end
