(* ===== verification/Proxy_Request.thy ===== *)
theory Proxy_Request
  imports Proxy Http1_Bodies
begin

text \<open>
  Model of the request half of \<open>pcc_gateway/proxy_http1.py\<close>: the request head sent upstream and the
  stage deadline of an exchange.  The main theorem reads the encoded head back with the gateway's own
  header parser.
\<close>

section \<open>The request head\<close>

text \<open>\<open>str.encode("ascii")\<close> and \<open>str.encode("latin1")\<close>.\<close>

definition ascii_encode :: "pystr \<Rightarrow> bytes result" where
  "ascii_encode s = (if list_all (\<lambda>c. c < 128) s then Inr s else Inl UnicodeError)"

definition latin1_encode :: "pystr \<Rightarrow> bytes result" where
  "latin1_encode s = (if list_all (\<lambda>c. c < 256) s then Inr s else Inl UnicodeError)"

definition proxy_output_headers :: "pystr \<Rightarrow> bool \<Rightarrow> header list \<Rightarrow> header list" where
  "proxy_output_headers upstream_authority expect_continue_handled forwarded =
     (cp ''host'', upstream_authority) #
     filter (\<lambda>h. py_lower (fst h) \<notin> {cp ''host'', cp ''content-length'', cp ''transfer-encoding''} \<and>
                 \<not> (expect_continue_handled \<and> py_lower (fst h) = cp ''expect'')) forwarded"

fun encode_proxy_fields :: "header list \<Rightarrow> bytes result" where
  "encode_proxy_fields [] = Inr []"
| "encode_proxy_fields ((name, val) # hs) =
     rbind (ascii_encode name) (\<lambda>name_bytes.
     rbind (latin1_encode val) (\<lambda>value_bytes.
       if \<not> is_token name_bytes \<or> contains_bad_value_byte value_bytes
       then Inl (ProxyProtocolError ''bad-header'' ''unsafe proxy request header'')
       else rbind (encode_proxy_fields hs) (\<lambda>rest.
         Inr (name_bytes @ cp '': '' @ value_bytes @ crlf @ rest))))"

definition encode_proxy_request_head ::
  "pystr \<Rightarrow> pystr \<Rightarrow> header list \<Rightarrow> pystr \<Rightarrow> pystr \<Rightarrow> pystr \<Rightarrow> pystr \<Rightarrow> int \<Rightarrow> bool \<Rightarrow> bool \<Rightarrow> bool \<Rightarrow> bytes result" where
  "encode_proxy_request_head meth target headers upstream_authority client_ip scheme original_host
      content_length chunked trust_forwarded expect_continue_handled =
     rbind (ascii_encode meth) (\<lambda>method_bytes.
     rbind (latin1_encode target) (\<lambda>target_bytes.
       if \<not> is_token method_bytes \<or> target_bytes = []
       then Inl (ProxyProtocolError ''bad-request'' ''invalid proxy request line'')
       else if list_ex (\<lambda>v. v \<le> 32 \<or> v = 127) target_bytes
       then Inl (ProxyProtocolError ''bad-target'' ''unsafe proxy target'')
       else if upstream_authority = []
       then Inl (ProxyProtocolError ''bad-upstream'' ''upstream authority is required'')
       else if content_length < 0 \<and> \<not> chunked
       then Inl (ProxyProtocolError ''unknown-framing'' ''unknown request length must be chunked'')
       else if content_length \<ge> 0 \<and> chunked
       then Inl (ProxyProtocolError ''ambiguous-framing'' ''proxy request framing is ambiguous'')
       else rbind (encode_proxy_fields (proxy_output_headers upstream_authority expect_continue_handled
                (forwarded_request_headers headers client_ip scheme original_host trust_forwarded)))
         (\<lambda>fields. Inr (method_bytes @ cp '' '' @ target_bytes @ cp '' HTTP/1.1'' @ crlf @ fields @
            (if chunked then cp ''transfer-encoding: chunked'' @ crlf
             else cp ''content-length: '' @ py_str_int content_length @ crlf) @ crlf))))"

section \<open>The stage deadline\<close>

datatype proxy_stage = PROXY_STAGE_CONNECT | PROXY_STAGE_REQUEST_BODY | PROXY_STAGE_HEADER | PROXY_STAGE_BODY
  | PROXY_STAGE_IDLE | PROXY_STAGE_DONE

record proxy_deadline =
  pd_timeouts :: proxy_timeouts
  pd_stage :: proxy_stage
  pd_deadline_ms :: int
  pd_cancelled :: bool

definition deadline_new :: "proxy_timeouts \<Rightarrow> int \<Rightarrow> proxy_deadline" where
  "deadline_new timeouts now_ms = \<lparr>pd_timeouts = timeouts, pd_stage = PROXY_STAGE_CONNECT,
     pd_deadline_ms = now_ms + pt_connect_ms timeouts, pd_cancelled = False\<rparr>"

definition deadline_connected :: "int \<Rightarrow> proxy_deadline \<Rightarrow> proxy_deadline" where
  "deadline_connected now_ms d = d\<lparr>pd_stage := PROXY_STAGE_HEADER, pd_deadline_ms := now_ms + pt_header_ms (pd_timeouts d)\<rparr>"

definition deadline_request_body :: "int \<Rightarrow> proxy_deadline \<Rightarrow> proxy_deadline" where
  "deadline_request_body deadline_ms d = d\<lparr>pd_stage := PROXY_STAGE_REQUEST_BODY, pd_deadline_ms := deadline_ms\<rparr>"

definition deadline_finish :: "proxy_deadline \<Rightarrow> proxy_deadline" where
  "deadline_finish d = d\<lparr>pd_stage := PROXY_STAGE_DONE, pd_deadline_ms := -1\<rparr>"

definition deadline_response_head :: "int \<Rightarrow> bool \<Rightarrow> proxy_deadline \<Rightarrow> proxy_deadline" where
  "deadline_response_head now_ms body_expected d =
     (if body_expected
      then d\<lparr>pd_stage := PROXY_STAGE_BODY, pd_deadline_ms := now_ms + pt_body_ms (pd_timeouts d)\<rparr>
      else d\<lparr>pd_stage := PROXY_STAGE_DONE, pd_deadline_ms := -1\<rparr>)"

definition deadline_body_progress :: "int \<Rightarrow> proxy_deadline \<Rightarrow> proxy_deadline" where
  "deadline_body_progress now_ms d =
     (if pd_stage d = PROXY_STAGE_BODY then d\<lparr>pd_deadline_ms := now_ms + pt_idle_ms (pd_timeouts d)\<rparr> else d)"

definition deadline_cancel :: "proxy_deadline \<Rightarrow> proxy_deadline" where
  "deadline_cancel d = d\<lparr>pd_cancelled := True, pd_deadline_ms := -1\<rparr>"

definition deadline_expired :: "int \<Rightarrow> proxy_deadline \<Rightarrow> bool" where
  "deadline_expired now_ms d \<longleftrightarrow> \<not> pd_cancelled d \<and> pd_deadline_ms d \<ge> 0 \<and> now_ms \<ge> pd_deadline_ms d"

definition deadline_failure :: "proxy_deadline \<Rightarrow> string" where
  "deadline_failure d =
     (case pd_stage d of
       PROXY_STAGE_CONNECT \<Rightarrow> ''connect-timeout''
     | PROXY_STAGE_REQUEST_BODY \<Rightarrow> ''request-body-timeout''
     | PROXY_STAGE_HEADER \<Rightarrow> ''header-timeout''
     | _ \<Rightarrow> ''body-timeout'')"

section \<open>Which fields are forwarded\<close>

lemma add_token_set:
  "set (add_token named item) = set named \<union> ({py_lower (py_strip item)} - {[]})"
  by (auto simp: add_token_def Let_def)

lemma foldl_add_token_set:
  "set (foldl add_token named items) = set named \<union> ((\<lambda>item. py_lower (py_strip item)) ` set items - {[]})"
  by (induction items arbitrary: named) (auto simp: add_token_set)

definition nominates :: "header \<Rightarrow> pystr set" where
  "nominates h = (if py_lower (fst h) = cp ''connection'' then (\<lambda>item. py_lower (py_strip item)) ` set (py_split 44 (snd h)) - {[]} else {})"

lemma connection_named_fields_set: "set (connection_named_fields hs) = (\<Union>h \<in> set hs. nominates h)"
proof -
  have "set (foldl add_named named hs) = set named \<union> (\<Union>h \<in> set hs. nominates h)" for named
  proof (induction hs arbitrary: named)
    case (Cons h hs)
    have "set (add_named named h) = set named \<union> nominates h"
      by (simp add: add_named_def nominates_def foldl_add_token_set)
    then show ?case by (simp add: Cons.IH Un_assoc)
  qed simp
  then show ?thesis by (simp add: connection_named_fields_def)
qed

lemma sanitize_set:
  "h \<in> set (sanitize_hop_by_hop hs) \<Longrightarrow>
   py_lower (fst h) = fst h \<and> fst h \<notin> set HOP_BY_HOP \<and> (\<forall>g \<in> set hs. fst h \<notin> nominates g)"
  by (auto simp: sanitize_hop_by_hop_def connection_named_fields_set)

lemma sanitize_no_connection: "connection_named_fields (sanitize_hop_by_hop hs) = []"
proof -
  have "nominates h = {}" if "h \<in> set (sanitize_hop_by_hop hs)" for h
    using sanitize_set [OF that] by (auto simp: nominates_def HOP_BY_HOP_def)
  then have "set (connection_named_fields (sanitize_hop_by_hop hs)) = {}"
    by (simp add: connection_named_fields_set)
  then show ?thesis by (metis set_empty)
qed

lemma sanitize_idem: "sanitize_hop_by_hop (sanitize_hop_by_hop hs) = sanitize_hop_by_hop hs"
proof -
  let ?s = "sanitize_hop_by_hop hs"
  have "filter (\<lambda>h. py_lower (fst h) \<notin> set HOP_BY_HOP \<and> py_lower (fst h) \<notin> set (connection_named_fields ?s)) ?s = ?s"
    unfolding sanitize_no_connection by (intro filter_True) (auto simp: sanitize_hop_by_hop_def)
  moreover have "map (\<lambda>h. (py_lower (fst h), snd h)) ?s = ?s"
    by (auto simp: sanitize_hop_by_hop_def)
  ultimately show ?thesis by (simp add: sanitize_hop_by_hop_def [of ?s])
qed

text \<open>The loop over the sanitised fields, trusted or not.\<close>

lemma forwarded_foldl:
  "foldl (forwarded_step trust) (kept, inc) hs =
     (kept @ filter (\<lambda>h. fst h \<notin> set forwarded_names \<or> trust \<and> fst h = cp ''x-forwarded-for'') hs,
      if trust then last (inc # map snd (filter (\<lambda>h. fst h = cp ''x-forwarded-for'') hs)) else inc)"
  by (induction hs arbitrary: kept inc) (auto simp: forwarded_step_def forwarded_names_def Let_def)

section \<open>Reading the encoded head\<close>

abbreviation field_line :: "header \<Rightarrow> bytes" where
  "field_line h \<equiv> fst h @ cp '': '' @ snd h"

definition field_ok :: "header \<Rightarrow> bool" where
  "field_ok h \<longleftrightarrow> is_token (fst h) \<and> \<not> contains_bad_value_byte (snd h)"

lemma split_crlf_line: "13 \<notin> set l \<Longrightarrow> split_crlf (l @ crlf @ rest) = l # split_crlf rest"
proof (induction l)
  case Nil
  then show ?case by (simp add: crlf_def)
next
  case (Cons x l)
  then have *: "split_crlf (l @ crlf @ rest) = l # split_crlf rest" by simp
  have "l @ crlf @ rest \<noteq> []" by (simp add: crlf_def)
  then obtain y ys where y: "l @ crlf @ rest = y # ys" by (cases "l @ crlf @ rest") auto
  from Cons.prems have "x \<noteq> 13" by simp
  then show ?case using * by (simp add: y)
qed

lemma split_crlf_lines:
  "list_all line_ok ls \<Longrightarrow> split_crlf (lines_block ls) = ls @ [[], []]"
proof (induction ls)
  case Nil
  show ?case by (simp add: lines_block_def crlf_def)
next
  case (Cons l ls)
  then have "split_crlf (l @ crlf @ lines_block ls) = l # split_crlf (lines_block ls)"
    by (intro split_crlf_line) (simp add: line_ok_def)
  with Cons show ?case by (simp add: lines_block_def)
qed

lemma encode_proxy_fields_Inr:
  "encode_proxy_fields hs = Inr out \<Longrightarrow>
   list_all field_ok hs \<and> out = concat (map (\<lambda>h. field_line h @ crlf) hs)"
proof (induction hs arbitrary: out)
  case (Cons h hs)
  obtain n v where h: "h = (n, v)" by (cases h)
  from Cons h show ?case
    by (auto simp: rbind_eq_Inr field_ok_def ascii_encode_def latin1_encode_def split: if_splits)
qed simp

lemma field_line_ok: "field_ok h \<Longrightarrow> line_ok (field_line h)"
  by (auto simp: field_ok_def line_ok_def is_token_def list_all_iff is_tchar_def contains_bad_value_byte_def
      list_ex_iff bad_value_byte_def cp_def)

lemma parse_field_line:
  assumes "field_ok h" "int count < max_count"
  shows "parse_header_line (field_line h) max_count count = Inr (Some (py_lower (fst h), strip_by is_blank (snd h)))"
proof -
  have n: "fst h \<noteq> []" "58 \<notin> set (fst h)" "hd (fst h) \<noteq> 32" "hd (fst h) \<noteq> 9"
    using assms(1) by (cases "fst h"; auto simp: field_ok_def is_token_def list_all_iff is_tchar_def)+
  have f: "py_find 58 (field_line h) = int (length (fst h))"
    using py_find_append [OF n(2), of "32 # snd h"] by (simp add: cp_def)
  have "contains_bad_value_byte (32 # snd h) = contains_bad_value_byte (snd h)"
    by (simp add: contains_bad_value_byte_def bad_value_byte_def)
  moreover have "strip_by is_blank (32 # snd h) = strip_by is_blank (snd h)"
    by (simp add: strip_by_def is_blank_def)
  moreover have "take (length (fst h)) (field_line h) = fst h" "drop (length (fst h) + 1) (field_line h) = 32 # snd h"
    by (simp_all add: cp_def)
  moreover have "field_line h \<noteq> []" "hd (field_line h) = hd (fst h)" using n(1) by simp_all
  ultimately show ?thesis
    using assms n f by (simp add: parse_header_line_def Let_def field_ok_def latin1_text_def)
qed

lemma parse_fields_round_trip:
  assumes "list_all field_ok hs" "int (length acc + length hs) \<le> max_count"
  shows "\<exists>names'. parse_headers_loop (map field_line hs) max_count acc names =
    Inr (acc @ map (\<lambda>h. (py_lower (fst h), strip_by is_blank (snd h))) hs, names')"
  using assms
proof (induction hs arbitrary: acc names)
  case (Cons h hs)
  then have "parse_header_line (field_line h) max_count (length acc) = Inr (Some (py_lower (fst h), strip_by is_blank (snd h)))"
    by (intro parse_field_line) simp_all
  with Cons.IH [of "acc @ [(py_lower (fst h), strip_by is_blank (snd h))]"] Cons.prems show ?case by simp
qed simp

lemma parse_own_request_line:
  assumes "is_token meth" "target \<noteq> []" "\<not> list_ex (\<lambda>v. v \<le> 32 \<or> v = 127) target" "hd target = 47"
    and "int (length (meth @ cp '' '' @ target @ cp '' HTTP/1.1'')) \<le> max_line"
  shows "parse_request_line max_line (meth @ cp '' '' @ target @ cp '' HTTP/1.1'') = Inr (meth, target, cp ''HTTP/1.1'')"
proof -
  let ?line = "meth @ cp '' '' @ target @ cp '' HTTP/1.1''"
  have m: "32 \<notin> set meth" "9 \<notin> set meth" "meth \<noteq> []"
    using assms(1) by (auto simp: is_token_def list_all_iff is_tchar_def)
  have t: "32 \<notin> set target" "9 \<notin> set target" using assms(3) by (auto simp: list_ex_iff)
  have v: "32 \<notin> set (cp ''HTTP/1.1'')" by (simp add: cp_def)
  have "?line = meth @ 32 # target @ 32 # cp ''HTTP/1.1''" by (simp add: cp_def)
  then have "py_split 32 ?line = [meth, target, cp ''HTTP/1.1'']"
    using m t v by (simp add: py_split_append py_split_absent)
  moreover have "9 \<notin> set ?line" using m t by (simp add: cp_def)
  ultimately show ?thesis using assms m by (simp add: parse_request_line_def)
qed

lemma line_ok_request_line:
  assumes "is_token meth" "\<not> list_ex (\<lambda>v. v \<le> 32 \<or> v = 127) target"
  shows "line_ok (meth @ cp '' '' @ target @ cp '' HTTP/1.1'')"
  using assms by (auto simp: line_ok_def is_token_def list_all_iff list_ex_iff is_tchar_def cp_def)

text \<open>The framing field and all the fields of an encoded head.\<close>

definition framing_field :: "bool \<Rightarrow> int \<Rightarrow> header" where
  "framing_field chunked content_length =
     (if chunked then (cp ''transfer-encoding'', cp ''chunked'') else (cp ''content-length'', py_str_int content_length))"

lemma framing_field_ok: "field_ok (framing_field chunked n)"
proof -
  have "\<not> bad_value_byte c" if "c \<in> set (py_str_int n)" for c
    using that by (auto simp: py_str_int_def bad_value_byte_def is_digit_def dest: py_str_nat_digits split: if_splits)
  then show ?thesis
    by (auto simp: framing_field_def field_ok_def is_token_def is_tchar_def contains_bad_value_byte_def list_ex_iff
        bad_value_byte_def cp_def)
qed

lemma encode_proxy_request_head_Inr:
  assumes "encode_proxy_request_head meth target headers authority client_ip scheme original_host
      content_length chunked trust expect = Inr out"
  defines "fs \<equiv> proxy_output_headers authority expect
      (forwarded_request_headers headers client_ip scheme original_host trust) @ [framing_field chunked content_length]"
  shows "is_token meth \<and> target \<noteq> [] \<and> \<not> list_ex (\<lambda>v. v \<le> 32 \<or> v = 127) target \<and> list_all field_ok fs \<and>
    out = lines_block ((meth @ cp '' '' @ target @ cp '' HTTP/1.1'') # map field_line fs)"
proof -
  from assms(1) obtain b where "is_token meth" "target \<noteq> []" "\<not> list_ex (\<lambda>v. v \<le> 32 \<or> v = 127) target"
    and b: "encode_proxy_fields (proxy_output_headers authority expect
      (forwarded_request_headers headers client_ip scheme original_host trust)) = Inr b"
    and out: "out = meth @ cp '' '' @ target @ cp '' HTTP/1.1'' @ crlf @ b @
            (if chunked then cp ''transfer-encoding: chunked'' @ crlf
             else cp ''content-length: '' @ py_str_int content_length @ crlf) @ crlf"
    unfolding encode_proxy_request_head_def
    by (auto simp: rbind_eq_Inr ascii_encode_def latin1_encode_def simp del: cp_eq_iff split: if_splits)
  moreover note encode_proxy_fields_Inr [OF b]
  moreover have "(if chunked then cp ''transfer-encoding: chunked'' @ crlf
      else cp ''content-length: '' @ py_str_int content_length @ crlf) = field_line (framing_field chunked content_length) @ crlf"
    by (simp add: framing_field_def cp_def)
  ultimately show ?thesis
    using framing_field_ok by (simp add: fs_def lines_block_def comp_def)
qed

lemma forwarded_untrusted:
  "forwarded_request_headers headers client_ip scheme original_host False =
     filter (\<lambda>h. fst h \<notin> set forwarded_names) (sanitize_hop_by_hop headers) @
     [(cp ''x-forwarded-for'', client_ip), (cp ''x-forwarded-proto'', scheme), (cp ''x-forwarded-host'', original_host)]"
  by (simp add: forwarded_request_headers_def forwarded_foldl)

lemma forwarded_set:
  assumes "h \<in> set (forwarded_request_headers headers client_ip scheme original_host trust)"
  shows "fst h \<in> set forwarded_names \<or> h \<in> set (sanitize_hop_by_hop headers)"
  using assms by (auto simp: forwarded_request_headers_def forwarded_foldl forwarded_names_def split: if_splits)

lemma forwarded_lower:
  assumes "h \<in> set (forwarded_request_headers headers client_ip scheme original_host trust)"
  shows "py_lower (fst h) = fst h"
proof -
  have "py_lower n = n" if "n \<in> set forwarded_names" for n
    using that by (auto simp: forwarded_names_def py_lower_def lower_cp_def cp_def)
  then show ?thesis using forwarded_set [OF assms] sanitize_set by blast
qed

section \<open>Properties\<close>

text \<open>C24 The head sent upstream: whatever the client and the application put in the request, an
  encoded head ends at its only blank line, its lines are the request line and one line per field,
  and the gateway's own parser reads back the same method, target and fields.  There is exactly one
  \<open>Host\<close> (the upstream authority) and exactly one framing field (the one of the arguments); no other
  hop-by-hop field and no field nominated by a \<open>Connection\<close> header of the client is sent; and with
  untrusted forwarding headers the three \<open>X-Forwarded\<close> fields are the gateway's own.\<close>

theorem proxy_request_head_round_trip:
  assumes "encode_proxy_request_head meth target headers authority client_ip scheme original_host
      content_length chunked trust expect = Inr out"
  shows "\<exists>fs. split_crlf out = (meth @ cp '' '' @ target @ cp '' HTTP/1.1'') # map field_line fs @ [[], []] \<and>
    find_double_crlf out = int (length out) - 4 \<and>
    (\<forall>max_line. hd target = 47 \<and> int (length (meth @ cp '' '' @ target @ cp '' HTTP/1.1'')) \<le> max_line \<longrightarrow>
       parse_request_line max_line (meth @ cp '' '' @ target @ cp '' HTTP/1.1'') = Inr (meth, target, cp ''HTTP/1.1'')) \<and>
    (\<forall>max_count. int (length fs) \<le> max_count \<longrightarrow> (\<exists>names. parse_headers (map field_line fs) max_count =
       Inr (map (\<lambda>h. (py_lower (fst h), strip_by is_blank (snd h))) fs, names))) \<and>
    filter (\<lambda>h. py_lower (fst h) = cp ''host'') fs = [(cp ''host'', authority)] \<and>
    filter (\<lambda>h. py_lower (fst h) \<in> {cp ''content-length'', cp ''transfer-encoding''}) fs = [framing_field chunked content_length] \<and>
    (\<forall>h \<in> set fs. py_lower (fst h) \<in> set HOP_BY_HOP \<longrightarrow> h = framing_field chunked content_length) \<and>
    (\<forall>h \<in> set fs. \<forall>g \<in> set headers. py_lower (fst h) \<in> nominates g \<longrightarrow>
       py_lower (fst h) \<in> set forwarded_names \<union> {cp ''host'', cp ''content-length'', cp ''transfer-encoding''}) \<and>
    (\<not> trust \<longrightarrow> filter (\<lambda>h. py_lower (fst h) \<in> set forwarded_names) fs =
       [(cp ''x-forwarded-for'', client_ip), (cp ''x-forwarded-proto'', scheme), (cp ''x-forwarded-host'', original_host)])"
proof -
  let ?fwd = "forwarded_request_headers headers client_ip scheme original_host trust"
  let ?fs = "proxy_output_headers authority expect ?fwd @ [framing_field chunked content_length]"
  let ?line = "meth @ cp '' '' @ target @ cp '' HTTP/1.1''"
  note e = encode_proxy_request_head_Inr [OF assms]
  have lines: "list_all line_ok (?line # map field_line ?fs)"
    using e line_ok_request_line field_line_ok by (auto simp: list_all_iff)
  have lw: "py_lower (cp ''host'') = cp ''host''" "py_lower (cp ''content-length'') = cp ''content-length''"
      "py_lower (cp ''transfer-encoding'') = cp ''transfer-encoding''"
    by (simp_all add: py_lower_def lower_cp_def cp_def)
  have "split_crlf out = ?line # map field_line ?fs @ [[], []]"
    using e split_crlf_lines [OF lines] by simp
  moreover have "find_double_crlf out = int (length out) - 4"
    using e find_double_crlf_lines [OF lines] by simp
  moreover have "\<exists>names. parse_headers (map field_line ?fs) max_count =
      Inr (map (\<lambda>h. (py_lower (fst h), strip_by is_blank (snd h))) ?fs, names)" if "int (length ?fs) \<le> max_count" for max_count
    using parse_fields_round_trip [of ?fs "[]" max_count Map.empty] e that unfolding parse_headers_def by simp
  moreover have "filter (\<lambda>h. py_lower (fst h) = cp ''host'') ?fs = [(cp ''host'', authority)]"
    by (auto simp: proxy_output_headers_def framing_field_def lw filter_empty_conv)
  moreover have "filter (\<lambda>h. py_lower (fst h) \<in> {cp ''content-length'', cp ''transfer-encoding''}) ?fs = [framing_field chunked content_length]"
    by (auto simp: proxy_output_headers_def framing_field_def lw filter_empty_conv)
  moreover have "h = framing_field chunked content_length" if "h \<in> set ?fs" "py_lower (fst h) \<in> set HOP_BY_HOP" for h
    using that forwarded_set [of h headers client_ip scheme original_host trust] sanitize_set [of h headers]
    by (auto simp: proxy_output_headers_def lw HOP_BY_HOP_def forwarded_names_def forwarded_lower)
  moreover have "py_lower (fst h) \<in> set forwarded_names \<union> {cp ''host'', cp ''content-length'', cp ''transfer-encoding''}"
    if "h \<in> set ?fs" "g \<in> set headers" "py_lower (fst h) \<in> nominates g" for h g
    using that forwarded_set [of h headers client_ip scheme original_host trust] sanitize_set [of h headers]
    by (auto simp: proxy_output_headers_def framing_field_def lw forwarded_lower split: if_splits)
  moreover have "filter (\<lambda>h. py_lower (fst h) \<in> set forwarded_names) ?fs =
       [(cp ''x-forwarded-for'', client_ip), (cp ''x-forwarded-proto'', scheme), (cp ''x-forwarded-host'', original_host)]"
    if "\<not> trust"
  proof -
    have "filter (\<lambda>h. py_lower (fst h) \<in> set forwarded_names) (filter Q (filter (\<lambda>h. fst h \<notin> set forwarded_names) (sanitize_hop_by_hop headers))) = []" for Q
      by (auto simp: filter_empty_conv dest: sanitize_set)
    moreover have "py_lower (cp ''x-forwarded-for'') = cp ''x-forwarded-for''" "py_lower (cp ''x-forwarded-proto'') = cp ''x-forwarded-proto''"
      "py_lower (cp ''x-forwarded-host'') = cp ''x-forwarded-host''"
      by (simp_all add: py_lower_def lower_cp_def cp_def)
    moreover have "cp ''host'' \<notin> set forwarded_names" "cp ''content-length'' \<notin> set forwarded_names"
      "cp ''transfer-encoding'' \<notin> set forwarded_names" "cp ''x-forwarded-for'' \<in> set forwarded_names"
      "cp ''x-forwarded-proto'' \<in> set forwarded_names" "cp ''x-forwarded-host'' \<in> set forwarded_names"
      by (simp_all add: forwarded_names_def)
    ultimately show ?thesis
      using that by (simp add: forwarded_untrusted proxy_output_headers_def framing_field_def lw del: filter_filter)
  qed
  ultimately show ?thesis
    using e parse_own_request_line [of meth target] by (intro exI [of _ ?fs]) blast
qed

theorem proxy_request_head_round_trip_witness:
  "\<exists>out fs. encode_proxy_request_head (cp ''GET'') (cp ''/a'')
      [(cp ''Connection'', cp ''X-Drop''), (cp ''X-Drop'', cp ''1''), (cp ''X-Forwarded-For'', cp ''6.6.6.6''), (cp ''Host'', cp ''evil'')]
      (cp ''up'') (cp ''1.2.3.4'') (cp ''http'') (cp ''evil'') 3 False False False = Inr out \<and>
    split_crlf out = cp ''GET /a HTTP/1.1'' # map field_line fs @ [[], []] \<and>
    filter (\<lambda>h. py_lower (fst h) = cp ''host'') fs = [(cp ''host'', cp ''up'')]"
proof -
  let ?r = "encode_proxy_request_head (cp ''GET'') (cp ''/a'')
      [(cp ''Connection'', cp ''X-Drop''), (cp ''X-Drop'', cp ''1''), (cp ''X-Forwarded-For'', cp ''6.6.6.6''), (cp ''Host'', cp ''evil'')]
      (cp ''up'') (cp ''1.2.3.4'') (cp ''http'') (cp ''evil'') 3 False False False"
  have "isl ?r = False" by code_simp
  then obtain out where out: "?r = Inr out" by (cases ?r) auto
  moreover have "cp ''GET'' @ cp '' '' @ cp ''/a'' @ cp '' HTTP/1.1'' = cp ''GET /a HTTP/1.1''" by (simp add: cp_def)
  ultimately show ?thesis using proxy_request_head_round_trip [OF out] by auto
qed

text \<open>With trusted forwarding headers the incoming chain is sent twice: the field of the client is
  kept and the extended chain is appended as a second field.\<close>

lemma trusted_forwarded_for_duplicated:
  "forwarded_request_headers [(cp ''x-forwarded-for'', chain)] client_ip scheme original_host True =
     [(cp ''x-forwarded-for'', chain), (cp ''x-forwarded-for'', if chain = [] then client_ip else chain @ cp '', '' @ client_ip),
      (cp ''x-forwarded-proto'', scheme), (cp ''x-forwarded-host'', original_host)]"
proof -
  have "sanitize_hop_by_hop [(cp ''x-forwarded-for'', chain)] = [(cp ''x-forwarded-for'', chain)]"
    by (simp add: sanitize_hop_by_hop_def connection_named_fields_def add_named_def HOP_BY_HOP_def
        py_lower_def lower_cp_def cp_def)
  then show ?thesis by (simp add: forwarded_request_headers_def forwarded_step_def forwarded_names_def)
qed

text \<open>Deadlines of an exchange: after \<open>cancel\<close> no later stage change makes the deadline expire.\<close>

datatype deadline_op = Connected int | RequestBody int | ResponseHead int bool | BodyProgress int | Finish | Cancel

fun deadline_step :: "deadline_op \<Rightarrow> proxy_deadline \<Rightarrow> proxy_deadline" where
  "deadline_step (Connected now) d = deadline_connected now d"
| "deadline_step (RequestBody at) d = deadline_request_body at d"
| "deadline_step (ResponseHead now b) d = deadline_response_head now b d"
| "deadline_step (BodyProgress now) d = deadline_body_progress now d"
| "deadline_step Finish d = deadline_finish d"
| "deadline_step Cancel d = deadline_cancel d"

lemmas deadline_defs = deadline_new_def deadline_connected_def deadline_request_body_def deadline_response_head_def
  deadline_body_progress_def deadline_finish_def deadline_cancel_def

lemma deadline_step_cancelled: "pd_cancelled (deadline_step a d) \<longleftrightarrow> pd_cancelled d \<or> a = Cancel"
  by (cases a) (auto simp: deadline_defs)

lemma deadline_cancel_final:
  "Cancel \<in> set as \<Longrightarrow> \<not> deadline_expired now (fold deadline_step as d)"
proof -
  have "pd_cancelled (fold deadline_step as d) \<longleftrightarrow> pd_cancelled d \<or> Cancel \<in> set as"
    by (induction as arbitrary: d) (auto simp: deadline_step_cancelled)
  then show "Cancel \<in> set as \<Longrightarrow> ?thesis" by (simp add: deadline_expired_def)
qed

end
