(* ===== verification/Proxy_Exchange.thy ===== *)
theory Proxy_Exchange
  imports Proxy_Request Upstream Channel_Fifo Lifecycle
begin

text \<open>
  Model of \<open>ProxyExchange\<close> in \<open>pcc_gateway/proxy_http1.py\<close>: one request and its response as two
  bounded channels, with every queued byte reserved in the gateway's accounting.

  The channels own views of one heap (\<open>Buffer\<close>); the accounting object is the lifecycle
  (\<open>Lifecycle\<close>), or \<open>None\<close>.  A call returns the exchange beside its result, because Python keeps
  what was changed before a raise.
\<close>

record 'c exchange =
  ex_method :: pystr
  ex_content_length :: int
  ex_chunked_request :: bool
  ex_expect_continue_handled :: bool
  ex_request_sent :: nat
  ex_request_finished :: bool
  ex_response_committed :: bool
  ex_response_status :: int
  ex_response_finished :: bool
  ex_cancelled :: bool
  ex_cancel_reason :: pystr
  ex_upstream_keep_alive :: bool
  ex_downstream_chunked :: bool
  ex_codec :: ucodec
  ex_to_upstream :: channel
  ex_to_downstream :: channel
  ex_heap :: bheap
  ex_accounting :: "'c lifecycle option"

type_synonym ('c, 'a) exch_result = "'c exchange \<times> 'a result"

section \<open>Accounting\<close>

definition exch_reserve :: "int \<Rightarrow> 'c exchange \<Rightarrow> ('c, unit) exch_result" where
  "exch_reserve count x =
     (if count \<le> 0 then (x, Inr ())
      else (case ex_accounting x of
        None \<Rightarrow> (x, Inr ())
      | Some l \<Rightarrow>
          (case reserve_buffered count l of
            (l1, Inl e) \<Rightarrow> (x\<lparr>ex_accounting := Some l1\<rparr>, Inl e)
          | (l1, Inr ok) \<Rightarrow>
              (x\<lparr>ex_accounting := Some l1\<rparr>,
               if ok then Inr ()
               else Inl (ProxyProtocolError ''buffer-overload'' ''gateway global buffered-byte limit exceeded'')))))"

definition exch_unreserve :: "int \<Rightarrow> 'c exchange \<Rightarrow> ('c, unit) exch_result" where
  "exch_unreserve count x =
     (if count \<le> 0 then (x, Inr ())
      else (case ex_accounting x of
        None \<Rightarrow> (x, Inr ())
      | Some l \<Rightarrow> (case release_buffered count l of (l1, r) \<Rightarrow> (x\<lparr>ex_accounting := Some l1\<rparr>, r))))"

section \<open>Towards the upstream\<close>

text \<open>Request data is \<open>bytes\<close> or a retained view, which has \<open>to_bytes\<close>.\<close>

datatype body_data = Raw bytes | Retained nat

definition data_len :: "bheap \<Rightarrow> body_data \<Rightarrow> nat" where
  "data_len h d = (case d of Raw bs \<Rightarrow> length bs | Retained v \<Rightarrow> view_len h v)"

definition put_upstream :: "channel \<times> bheap \<times> 'a \<Rightarrow> 'c exchange \<Rightarrow> 'c exchange" where
  "put_upstream r x = x\<lparr>ex_to_upstream := fst r, ex_heap := fst (snd r)\<rparr>"

definition put_downstream :: "channel \<times> bheap \<times> 'a \<Rightarrow> 'c exchange \<Rightarrow> 'c exchange" where
  "put_downstream r x = x\<lparr>ex_to_downstream := fst r, ex_heap := fst (snd r)\<rparr>"

text \<open>\<open>except Exception: self._release(count); raise\<close>: an error of the release replaces the other.\<close>

definition undo_reserve :: "int \<Rightarrow> exn \<Rightarrow> 'c exchange \<Rightarrow> ('c, transition) exch_result" where
  "undo_reserve count e x =
     (case exch_unreserve count x of (x1, Inl e') \<Rightarrow> (x1, Inl e') | (x1, Inr _) \<Rightarrow> (x1, Inl e))"

definition append_upstream :: "body_data \<Rightarrow> 'c exchange \<Rightarrow> ('c, transition) exch_result" where
  "append_upstream d x0 =
     (let count = int (data_len (ex_heap x0) d) in
      case exch_reserve count x0 of
        (x, Inl e) \<Rightarrow> (x, Inl e)
      | (x, Inr _) \<Rightarrow>
          let r = (case d of Retained v \<Rightarrow> channel_append_view v (ex_to_upstream x) (ex_heap x)
                   | Raw bs \<Rightarrow> channel_append bs (ex_to_upstream x) (ex_heap x)) in
          case snd (snd r) of
            Inl e \<Rightarrow> undo_reserve count e (put_upstream r x)
          | Inr t \<Rightarrow> (put_upstream r x, Inr t))"

definition feed_request_body :: "body_data \<Rightarrow> 'c exchange \<Rightarrow> ('c, transition) exch_result" where
  "feed_request_body d x =
     (let n = data_len (ex_heap x) d in
      if ex_cancelled x \<or> ex_request_finished x then (x, Inl (RuntimeError ''proxy request is not writable''))
      else if \<not> ex_chunked_request x \<and> int (ex_request_sent x + n) > ex_content_length x
      then (x, Inl (ProxyProtocolError ''request-overflow'' ''proxy request exceeds declared length''))
      else (let x1 = x\<lparr>ex_request_sent := ex_request_sent x + n\<rparr> in
        if ex_chunked_request x \<and> n > 0
        then (case (case d of Raw bs \<Rightarrow> Inr bs | Retained v \<Rightarrow> view_to_bytes v (ex_heap x)) of
            Inl e \<Rightarrow> (x1, Inl e)
          | Inr bs \<Rightarrow> append_upstream (Raw (py_hex_nat (length bs) @ crlf @ bs @ crlf)) x1)
        else append_upstream d x1))"

fun encode_request_trailers :: "header list \<Rightarrow> bytes result" where
  "encode_request_trailers [] = Inr []"
| "encode_request_trailers ((name, val) # hs) =
     (if py_lower name \<in> {cp ''content-length'', cp ''transfer-encoding'', cp ''host''}
      then Inl (ProxyProtocolError ''bad-trailer'' ''forbidden proxy request trailer'')
      else rbind (ascii_encode (py_lower name)) (\<lambda>name_bytes.
        rbind (latin1_encode val) (\<lambda>value_bytes.
        rbind (encode_request_trailers hs) (\<lambda>rest. Inr (name_bytes @ cp '': '' @ value_bytes @ crlf @ rest)))))"

text \<open>\<open>trailers\<close> is the empty list for \<open>None\<close>; 0 is \<open>BACKPRESSURE_NONE\<close>.\<close>

definition finish_request :: "header list \<Rightarrow> 'c exchange \<Rightarrow> ('c, transition) exch_result" where
  "finish_request trailers x =
     (if ex_request_finished x then (x, Inr BACKPRESSURE_NONE)
      else if \<not> ex_chunked_request x \<and> int (ex_request_sent x) \<noteq> ex_content_length x
      then (x, Inl (ProxyProtocolError ''request-underflow'' ''proxy request ended before declared length''))
      else (let x1 = x\<lparr>ex_request_finished := True\<rparr> in
        if \<not> ex_chunked_request x then (x1, Inr BACKPRESSURE_NONE)
        else (case encode_request_trailers (sanitize_hop_by_hop trailers) of
            Inl e \<Rightarrow> (x1, Inl e)
          | Inr bs \<Rightarrow> append_upstream (Raw (cp ''0'' @ crlf @ bs @ crlf)) x1)))"

text \<open>The data read and whether the channel left backpressure.\<close>

definition take_upstream :: "int \<Rightarrow> 'c exchange \<Rightarrow> ('c, bytes \<times> bool) exch_result" where
  "take_upstream limit x =
     (let r = channel_read limit (ex_to_upstream x) (ex_heap x); x1 = put_upstream r x in
      case snd (snd r) of
        Inl e \<Rightarrow> (x1, Inl e)
      | Inr data \<Rightarrow>
          (case exch_unreserve (int (length data)) x1 of
            (x2, Inl e) \<Rightarrow> (x2, Inl e)
          | (x2, Inr _) \<Rightarrow>
              (x2, Inr (data, cb_backpressured (ex_to_upstream x) \<and> \<not> cb_backpressured (ex_to_upstream x2)))))"

section \<open>Towards the client\<close>

definition append_downstream :: "bytes \<Rightarrow> 'c exchange \<Rightarrow> ('c, transition) exch_result" where
  "append_downstream data x0 =
     (if data = [] then (x0, Inr BACKPRESSURE_NONE)
      else case exch_reserve (int (length data)) x0 of
        (x, Inl e) \<Rightarrow> (x, Inl e)
      | (x, Inr _) \<Rightarrow>
          let r = channel_append data (ex_to_downstream x) (ex_heap x) in
          case snd (snd r) of
            Inl e \<Rightarrow> undo_reserve (int (length data)) e (put_downstream r x)
          | Inr t \<Rightarrow> (put_downstream r x, Inr t))"

text \<open>\<open>transition = self._append_downstream(...) or transition\<close>, when the bytes could be encoded.\<close>

definition send_downstream :: "bytes result \<Rightarrow> transition \<Rightarrow> 'c exchange \<Rightarrow> ('c, transition) exch_result" where
  "send_downstream out t x =
     (case out of
       Inl e \<Rightarrow> (x, Inl e)
     | Inr data \<Rightarrow>
         (case append_downstream data x of
           (x1, Inl e) \<Rightarrow> (x1, Inl e)
         | (x1, Inr t1) \<Rightarrow> (x1, Inr (if t1 = BACKPRESSURE_NONE then t else t1))))"

definition response_headers :: "header list \<Rightarrow> header list" where
  "response_headers headers =
     filter (\<lambda>h. py_lower (fst h) \<notin> {cp ''content-length'', cp ''transfer-encoding''}) (sanitize_hop_by_hop headers)"

definition commit_response :: "upstream_head \<Rightarrow> 'c exchange \<Rightarrow> 'c exchange" where
  "commit_response h x = x\<lparr>ex_response_committed := True, ex_response_status := uh_status h,
     ex_upstream_keep_alive := uh_keep_alive h,
     ex_downstream_chunked := (uh_body_expected h \<and> uh_content_length h < 0)\<rparr>"

definition response_length :: "upstream_head \<Rightarrow> 'c exchange \<Rightarrow> int" where
  "response_length h x =
     (if \<not> uh_body_expected h \<and> ex_method x \<noteq> cp ''HEAD'' \<and> uh_status h \<noteq> 304 then -1 else uh_content_length h)"

fun response_event :: "upstream_event \<Rightarrow> transition \<Rightarrow> 'c exchange \<Rightarrow> ('c, transition) exch_result" where
  "response_event (UpHead h) t x =
     (if uh_informational h
      then (if uh_status h = 100 \<and> ex_expect_continue_handled x then (x, Inr t)
            else send_downstream (encode_response_head (uh_status h) (response_headers (uh_headers h)) (-1) False True) t x)
      else (let x1 = commit_response h x in
        send_downstream (encode_response_head (uh_status h) (response_headers (uh_headers h))
            (if \<not> ex_downstream_chunked x1 then response_length h x1 else -1) (ex_downstream_chunked x1) True) t x1))"
| "response_event (UpBody data) t x =
     send_downstream (Inr (if ex_downstream_chunked x then encode_chunk data else data)) t x"
| "response_event (UpEnd trailers) t x =
     (case (if ex_downstream_chunked x then send_downstream (encode_end_chunks trailers) t x else (x, Inr t)) of
       (x1, Inl e) \<Rightarrow> (x1, Inl e)
     | (x1, Inr t1) \<Rightarrow> (x1\<lparr>ex_response_finished := True\<rparr>, Inr t1))"

fun response_events :: "upstream_event list \<Rightarrow> transition \<Rightarrow> 'c exchange \<Rightarrow> ('c, transition) exch_result" where
  "response_events [] t x = (x, Inr t)"
| "response_events (e # es) t x =
     (case response_event e t x of
       (x1, Inl err) \<Rightarrow> (x1, Inl err)
     | (x1, Inr t1) \<Rightarrow> response_events es t1 x1)"

definition feed_upstream :: "bytes \<Rightarrow> 'c exchange \<Rightarrow> ('c, transition) exch_result" where
  "feed_upstream data x =
     (if ex_cancelled x \<or> ex_response_finished x then (x, Inl (RuntimeError ''proxy response is not readable''))
      else (let r = ufeed (ex_codec x) data; x1 = x\<lparr>ex_codec := fst r\<rparr> in
        case snd r of
          Inl e \<Rightarrow> (x1, Inl e)
        | Inr es \<Rightarrow> response_events es BACKPRESSURE_NONE x1))"

text \<open>\<open>upstream_eof\<close> handles body and end events only; \<open>eof\<close> gives no others.\<close>

definition eof_event :: "upstream_event \<Rightarrow> transition \<Rightarrow> 'c exchange \<Rightarrow> ('c, transition) exch_result" where
  "eof_event e t x = (case e of UpHead h \<Rightarrow> (x, Inr t) | UpBody data \<Rightarrow> response_event e t x | UpEnd ts \<Rightarrow> response_event (UpEnd []) t x)"

fun eof_events :: "upstream_event list \<Rightarrow> transition \<Rightarrow> 'c exchange \<Rightarrow> ('c, transition) exch_result" where
  "eof_events [] t x = (x, Inr t)"
| "eof_events (e # es) t x =
     (case eof_event e t x of
       (x1, Inl err) \<Rightarrow> (x1, Inl err)
     | (x1, Inr t1) \<Rightarrow> eof_events es t1 x1)"

definition upstream_eof :: "'c exchange \<Rightarrow> ('c, transition) exch_result" where
  "upstream_eof x =
     (let r = ueof (ex_codec x); x1 = x\<lparr>ex_codec := fst r\<rparr> in
      case snd r of
        Inl e \<Rightarrow> (x1, Inl e)
      | Inr es \<Rightarrow> eof_events es BACKPRESSURE_NONE x1)"

definition take_downstream :: "int \<Rightarrow> 'c exchange \<Rightarrow> ('c, bytes \<times> bool) exch_result" where
  "take_downstream limit x =
     (let r = channel_read limit (ex_to_downstream x) (ex_heap x); x1 = put_downstream r x in
      case snd (snd r) of
        Inl e \<Rightarrow> (x1, Inl e)
      | Inr data \<Rightarrow>
          (case exch_unreserve (int (length data)) x1 of
            (x2, Inl e) \<Rightarrow> (x2, Inl e)
          | (x2, Inr _) \<Rightarrow>
              (x2, Inr (data, cb_backpressured (ex_to_downstream x) \<and> \<not> cb_backpressured (ex_to_downstream x2)))))"

section \<open>Cancelling, retrying, creating\<close>

definition exch_cancel :: "pystr \<Rightarrow> 'c exchange \<Rightarrow> ('c, unit) exch_result" where
  "exch_cancel reason x =
     (if ex_cancelled x then (x, Inr ())
      else (let x1 = x\<lparr>ex_cancelled := True, ex_cancel_reason := reason\<rparr>;
                remaining = cb_queued_bytes (ex_to_upstream x) + cb_queued_bytes (ex_to_downstream x);
                r = channel_close (ex_to_upstream x1) (ex_heap x1); x2 = put_upstream r x1 in
        case snd (snd r) of
          Inl e \<Rightarrow> (x2, Inl e)
        | Inr _ \<Rightarrow>
            let q = channel_close (ex_to_downstream x2) (ex_heap x2); x3 = put_downstream q x2 in
            case snd (snd q) of
              Inl e \<Rightarrow> (x3, Inl e)
            | Inr _ \<Rightarrow> exch_unreserve remaining x3))"

definition can_retry :: "retry_policy \<Rightarrow> int \<Rightarrow> string \<Rightarrow> 'c exchange \<Rightarrow> bool" where
  "can_retry rp attempt failure x =
     retry_allows (ex_method x) attempt (ex_response_committed x) failure (ex_request_sent x = 0) rp"

definition high_default :: "int \<Rightarrow> int \<Rightarrow> int" where
  "high_default high_watermark max_buffered = (if high_watermark = -1 then min 65536 max_buffered else high_watermark)"

definition low_default :: "int \<Rightarrow> int \<Rightarrow> int" where
  "low_default low_watermark high_watermark = (if low_watermark = -1 then min 32768 (high_watermark div 2) else low_watermark)"

text \<open>The constructor; the heap and the accounting are the ones it runs in, so a failed
  construction returns them too.\<close>

definition exchange_new ::
  "pystr \<Rightarrow> pystr \<Rightarrow> header list \<Rightarrow> pystr \<Rightarrow> pystr \<Rightarrow> pystr \<Rightarrow> pystr \<Rightarrow> int \<Rightarrow> bool \<Rightarrow> bool \<Rightarrow> bool \<Rightarrow>
   int \<Rightarrow> int \<Rightarrow> int \<Rightarrow> int \<Rightarrow> bheap \<Rightarrow> 'c lifecycle option \<Rightarrow> 'c exchange result \<times> 'c lifecycle option" where
  "exchange_new request_method request_target request_headers upstream_authority client_ip scheme original_host
      content_length chunked_request trust_forwarded expect_continue_handled
      segment_bytes low_watermark high_watermark max_buffered_bytes h accounting =
     (if max_buffered_bytes \<le> 0 then (Inl (ValueError ''max buffered bytes must be positive''), accounting)
      else (let high = high_default high_watermark max_buffered_bytes; low = low_default low_watermark high;
                meth = py_upper request_method in
        case rbind (ucodec_new meth 32768 100 16777216 1048576) (\<lambda>codec.
             rbind (channel_new segment_bytes low high max_buffered_bytes) (\<lambda>c.
             rbind (encode_proxy_request_head meth request_target request_headers upstream_authority client_ip
                scheme original_host content_length chunked_request trust_forwarded expect_continue_handled)
              (\<lambda>head. Inr (codec, c, head)))) of
          Inl e \<Rightarrow> (Inl e, accounting)
        | Inr (codec, c, head) \<Rightarrow>
            let x = \<lparr>ex_method = meth, ex_content_length = content_length, ex_chunked_request = chunked_request,
                     ex_expect_continue_handled = expect_continue_handled, ex_request_sent = 0, ex_request_finished = False,
                     ex_response_committed = False, ex_response_status = 0, ex_response_finished = False,
                     ex_cancelled = False, ex_cancel_reason = [], ex_upstream_keep_alive = False,
                     ex_downstream_chunked = False, ex_codec = codec, ex_to_upstream = c, ex_to_downstream = c,
                     ex_heap = h, ex_accounting = accounting\<rparr> in
            (case append_upstream (Raw head) x of
              (x1, Inl e) \<Rightarrow> (Inl e, ex_accounting x1)
            | (x1, Inr _) \<Rightarrow> (Inr x1, ex_accounting x1))))"

end
