(* ===== verification/Proxy_Accounting.thy ===== *)
theory Proxy_Accounting
  imports Proxy_Exchange
begin

text \<open>
  What an exchange promises about the bytes it holds: over every sequence of calls, failed calls
  included, and under interference of other holders of the heap and of the accounting, the bytes it
  has reserved are exactly the bytes queued in its two channels, and the bytes that reach the
  upstream are the head and the accepted pieces in order.
\<close>

section \<open>Invariant\<close>

abbreviation buffered_gauge :: "'c lifecycle \<Rightarrow> int" where
  "buffered_gauge l \<equiv> lc_metrics l ''buffered_bytes''"

abbreviation up_content :: "'c exchange \<Rightarrow> bytes" where
  "up_content x \<equiv> content (ex_to_upstream x) (ex_heap x)"

abbreviation down_content :: "'c exchange \<Rightarrow> bytes" where
  "down_content x \<equiv> content (ex_to_downstream x) (ex_heap x)"

definition share :: "'c exchange \<Rightarrow> int" where
  "share x = cb_queued_bytes (ex_to_upstream x) + cb_queued_bytes (ex_to_downstream x)"

text \<open>What the rest of the gateway has reserved.\<close>

definition others :: "'c exchange \<Rightarrow> int option" where
  "others x = map_option (\<lambda>l. buffered_gauge l - share x) (ex_accounting x)"

definition exch_ok :: "'c exchange \<Rightarrow> bool" where
  "exch_ok x \<longleftrightarrow> chan_ok (ex_to_upstream x) (ex_heap x) \<and> chan_ok (ex_to_downstream x) (ex_heap x) \<and>
     set (chan_views (ex_to_upstream x)) \<inter> set (chan_views (ex_to_downstream x)) = {} \<and>
     (ex_cancelled x \<longrightarrow> cb_closed (ex_to_upstream x) \<and> cb_closed (ex_to_downstream x)) \<and>
     (\<forall>k. others x = Some k \<longrightarrow> 0 \<le> k)"

lemma exch_okD:
  assumes "exch_ok x"
  shows "chan_ok (ex_to_upstream x) (ex_heap x)" "chan_ok (ex_to_downstream x) (ex_heap x)"
    "set (chan_views (ex_to_upstream x)) \<inter> set (chan_views (ex_to_downstream x)) = {}"
    "ex_accounting x = Some l \<Longrightarrow> share x \<le> buffered_gauge l"
    "0 \<le> cb_queued_bytes (ex_to_upstream x)" "0 \<le> cb_queued_bytes (ex_to_downstream x)"
    "heap_ok (ex_heap x)"
  using assms by (auto simp: exch_ok_def others_def chan_ok_def)

text \<open>Changing only fields the invariant does not look at.\<close>

definition same_core :: "'c exchange \<Rightarrow> 'c exchange \<Rightarrow> bool" where
  "same_core x y \<longleftrightarrow> ex_to_upstream y = ex_to_upstream x \<and> ex_to_downstream y = ex_to_downstream x \<and>
     ex_heap y = ex_heap x \<and> ex_accounting y = ex_accounting x \<and> ex_cancelled y = ex_cancelled x"

lemma same_core_ok: "same_core x y \<Longrightarrow> exch_ok y = exch_ok x \<and> others y = others x \<and> share y = share x"
  by (simp add: same_core_def exch_ok_def others_def share_def)

section \<open>Reserving and releasing\<close>

lemma bump_buffered [simp]: "buffered_gauge (bump_metric ''buffered_bytes'' n l) = buffered_gauge l + n"
  by (simp add: bump_metric_def bump_def metrics_add_def metric_names_def)

abbreviation gauge_of :: "'c lifecycle option \<Rightarrow> int option" where
  "gauge_of a \<equiv> map_option buffered_gauge a"

lemma exch_reserve_cases:
  assumes "exch_reserve n x = (x1, r)" "0 \<le> n"
  shows "(\<exists>a. r = Inr () \<and> x1 = x\<lparr>ex_accounting := a\<rparr> \<and>
      gauge_of a = map_option (\<lambda>g. g + n) (gauge_of (ex_accounting x))) \<or> (\<exists>e. r = Inl e \<and> x1 = x)"
proof (cases "n = 0 \<or> ex_accounting x = None")
  case True
  then have "exch_reserve n x = (x, Inr ())" by (auto simp: exch_reserve_def)
  moreover have "gauge_of (ex_accounting x) = map_option (\<lambda>g. g + n) (gauge_of (ex_accounting x))"
    using True by (cases "ex_accounting x") auto
  ultimately show ?thesis using assms(1) by (intro disjI1 exI [of _ "ex_accounting x"]) simp
next
  case False
  then obtain l where l: "ex_accounting x = Some l" "0 < n" using assms(2) by auto
  show ?thesis
  proof (cases "buffered_gauge l + n > al_max_buffered_bytes (lc_limits l)")
    case True
    have "x\<lparr>ex_accounting := Some l\<rparr> = x" using l by (intro exchange.equality) simp_all
    with True l have "exch_reserve n x = (x, Inl (ProxyProtocolError ''buffer-overload'' ''gateway global buffered-byte limit exceeded''))"
      by (simp add: exch_reserve_def reserve_buffered_def)
    with assms(1) show ?thesis by (intro disjI2) auto
  next
    case False
    with l assms(1) show ?thesis
      by (intro disjI1 exI [of _ "Some (bump_metric ''buffered_bytes'' n l)"]) (simp add: exch_reserve_def reserve_buffered_def)
  qed
qed

lemma exch_unreserve_ok:
  assumes "\<And>l. ex_accounting x = Some l \<Longrightarrow> n \<le> buffered_gauge l" "0 \<le> n"
  shows "\<exists>a. exch_unreserve n x = (x\<lparr>ex_accounting := a\<rparr>, Inr ()) \<and>
    gauge_of a = map_option (\<lambda>g. g - n) (gauge_of (ex_accounting x))"
proof (cases "n = 0 \<or> ex_accounting x = None")
  case True
  then show ?thesis
    by (intro exI [of _ "ex_accounting x"]) (cases "ex_accounting x"; auto simp: exch_unreserve_def)
next
  case False
  then obtain l where l: "ex_accounting x = Some l" "0 < n" using assms(2) by auto
  with assms show ?thesis
    by (intro exI [of _ "Some (bump_metric ''buffered_bytes'' (- n) l)"])
      (simp add: exch_unreserve_def release_buffered_def)
qed

lemma others_gauge: "others x = map_option (\<lambda>g. g - share x) (gauge_of (ex_accounting x))"
  by (simp add: others_def option.map_comp comp_def)

section \<open>Appending to a channel\<close>

text \<open>What a channel operation may do to an exchange: a new state of one channel and of the heap.\<close>

lemma channel_append_any:
  assumes "chan_ok c h"
  shows "\<exists>c' h' r. channel_append bs c h = (c', h', r) \<and> chan_ok c' h' \<and> frame {} h h' \<and> cb_closed c' = cb_closed c \<and>
    (\<forall>v \<in> set (chan_views c'). v \<in> set (chan_views c) \<or> length (h_views h) \<le> v) \<and>
    (\<forall>e. r = Inl e \<longrightarrow> c' = c \<and> h' = h) \<and> (\<forall>t. r = Inr t \<longrightarrow> content c' h' = content c h @ bs)"
proof -
  consider "cb_closed c" | "\<not> cb_closed c" "cb_max_bytes c < cb_queued_bytes c + int (length bs)"
    | "\<not> cb_closed c" "cb_queued_bytes c + int (length bs) \<le> cb_max_bytes c" by linarith
  then show ?thesis
  proof cases
    case 3
    from channel_append_ok [OF assms this] obtain c' h' t where "channel_append bs c h = (c', h', Inr t)" "chan_ok c' h'"
        "content c' h' = content c h @ bs" "frame {} h h'" "\<not> cb_closed c'"
        "\<forall>v \<in> set (chan_views c'). v \<in> set (chan_views c) \<or> length (h_views h) \<le> v" by blast
    with 3 show ?thesis by (intro exI [of _ c'] exI [of _ h'] exI [of _ "Inr t"]) simp
  qed (use assms channel_append_rejects in auto)
qed

lemma channel_append_view_any:
  assumes "chan_ok c h" "live h v"
  shows "\<exists>c' h' r. channel_append_view v c h = (c', h', r) \<and> chan_ok c' h' \<and> frame {} h h' \<and> cb_closed c' = cb_closed c \<and>
    (\<forall>v \<in> set (chan_views c'). v \<in> set (chan_views c) \<or> length (h_views h) \<le> v) \<and>
    (\<forall>e. r = Inl e \<longrightarrow> c' = c \<and> h' = h) \<and> (\<forall>t. r = Inr t \<longrightarrow> content c' h' = content c h @ view_bytes h v)"
proof -
  have hok: "heap_ok h" using assms(1) by (simp add: chan_ok_def)
  consider "cb_closed c" | "\<not> cb_closed c" "cb_max_bytes c < cb_queued_bytes c + int (length (view_bytes h v))"
    | "\<not> cb_closed c" "cb_queued_bytes c + int (length (view_bytes h v)) \<le> cb_max_bytes c" by linarith
  then show ?thesis
  proof cases
    case 3
    from channel_append_view_ok [OF assms(1) 3(1) assms(2) 3(2)] obtain c' h' t where
        "channel_append_view v c h = (c', h', Inr t)" "chan_ok c' h'"
        "content c' h' = content c h @ view_bytes h v" "frame {} h h'" "\<not> cb_closed c'"
        "\<forall>v \<in> set (chan_views c'). v \<in> set (chan_views c) \<or> length (h_views h) \<le> v" by blast
    with 3 show ?thesis by (intro exI [of _ c'] exI [of _ h'] exI [of _ "Inr t"]) simp
  qed (use assms live_view_len [OF hok assms(2)] in \<open>auto simp: channel_append_view_def Let_def\<close>)
qed

lemma chan_queued: "chan_ok c h \<Longrightarrow> cb_queued_bytes c = int (length (content c h))"
  by (simp add: chan_ok_def)

lemma views_bounded: "chan_ok c h \<Longrightarrow> v \<in> set (chan_views c) \<Longrightarrow> v < length (h_views h)"
  by (auto simp: chan_ok_def live_list_def)

text \<open>Replacing one channel and the heap, with the accounting moved by the change of the queue.\<close>

definition moved :: "int \<Rightarrow> 'c exchange \<Rightarrow> 'c lifecycle option \<Rightarrow> bool" where
  "moved n x a \<longleftrightarrow> gauge_of a = map_option (\<lambda>g. g + n) (gauge_of (ex_accounting x))"

lemma moved_others:
  assumes "moved n x (ex_accounting y)" "share y = share x + n"
  shows "others y = others x"
  using assms by (cases "ex_accounting x"; cases "ex_accounting y") (auto simp: moved_def others_gauge)

lemma put_upstream_ok:
  assumes "exch_ok x" "chan_ok c' h'" "frame V (ex_heap x) h'" "V \<subseteq> set (chan_views (ex_to_upstream x))"
    and "\<forall>v \<in> set (chan_views c'). v \<in> set (chan_views (ex_to_upstream x)) \<or> length (h_views (ex_heap x)) \<le> v"
    and "ex_cancelled x \<longrightarrow> cb_closed c'"
    and "moved (cb_queued_bytes c' - cb_queued_bytes (ex_to_upstream x)) x a"
  defines "y \<equiv> x\<lparr>ex_to_upstream := c', ex_heap := h', ex_accounting := a\<rparr>"
  shows "exch_ok y \<and> others y = others x \<and> down_content y = down_content x"
proof -
  note ok = exch_okD [OF assms(1)]
  have d: "set (chan_views (ex_to_downstream x)) \<inter> V = {}" using ok(3) assms(4) by blast
  have "heap_ok h'" using assms(2) by (simp add: chan_ok_def)
  note fr = chan_ok_frame [OF ok(2) assms(3) this d]
  have "set (chan_views c') \<inter> set (chan_views (ex_to_downstream x)) = {}"
    using assms(5) ok(3) views_bounded [OF ok(2)] by (fastforce simp: disjoint_iff)
  moreover have "others y = others x"
    by (rule moved_others [of "cb_queued_bytes c' - cb_queued_bytes (ex_to_upstream x)"])
      (use assms(7) in \<open>simp_all add: y_def share_def\<close>)
  ultimately show ?thesis
    using assms(1,2,6) fr by (simp add: exch_ok_def y_def)
qed

lemma put_downstream_ok:
  assumes "exch_ok x" "chan_ok c' h'" "frame V (ex_heap x) h'" "V \<subseteq> set (chan_views (ex_to_downstream x))"
    and "\<forall>v \<in> set (chan_views c'). v \<in> set (chan_views (ex_to_downstream x)) \<or> length (h_views (ex_heap x)) \<le> v"
    and "ex_cancelled x \<longrightarrow> cb_closed c'"
    and "moved (cb_queued_bytes c' - cb_queued_bytes (ex_to_downstream x)) x a"
  defines "y \<equiv> x\<lparr>ex_to_downstream := c', ex_heap := h', ex_accounting := a\<rparr>"
  shows "exch_ok y \<and> others y = others x \<and> up_content y = up_content x"
proof -
  note ok = exch_okD [OF assms(1)]
  have d: "set (chan_views (ex_to_upstream x)) \<inter> V = {}" using ok(3) assms(4) by blast
  have "heap_ok h'" using assms(2) by (simp add: chan_ok_def)
  note fr = chan_ok_frame [OF ok(1) assms(3) this d]
  have "set (chan_views (ex_to_upstream x)) \<inter> set (chan_views c') = {}"
    using assms(5) ok(3) views_bounded [OF ok(1)] by (fastforce simp: disjoint_iff)
  moreover have "others y = others x"
    by (rule moved_others [of "cb_queued_bytes c' - cb_queued_bytes (ex_to_downstream x)"])
      (use assms(7) in \<open>simp_all add: y_def share_def\<close>)
  ultimately show ?thesis
    using assms(1,2,6) fr by (simp add: exch_ok_def y_def)
qed

text \<open>A failed append gives back what it reserved.\<close>

lemma undo_reserve_ok:
  assumes "exch_ok x" "gauge_of a = map_option (\<lambda>g. g + n) (gauge_of (ex_accounting x))" "0 \<le> n"
  shows "\<exists>b. undo_reserve n e (x\<lparr>ex_accounting := a\<rparr>) = (x\<lparr>ex_accounting := b\<rparr>, Inl e) \<and>
    gauge_of b = gauge_of (ex_accounting x)"
proof -
  let ?x = "x\<lparr>ex_accounting := a\<rparr>"
  have "n \<le> buffered_gauge l" if l: "ex_accounting ?x = Some l" for l
  proof -
    obtain k where k: "ex_accounting x = Some k" "buffered_gauge l = buffered_gauge k + n"
      using assms(2) l by (cases "ex_accounting x") auto
    with exch_okD(4) [OF assms(1) k(1)] exch_okD(5,6) [OF assms(1)] show ?thesis by (simp add: share_def)
  qed
  then have "\<exists>b. exch_unreserve n ?x = (?x\<lparr>ex_accounting := b\<rparr>, Inr ()) \<and> gauge_of b = map_option (\<lambda>g. g - n) (gauge_of (ex_accounting ?x))"
    using assms(3) by (rule exch_unreserve_ok)
  then obtain b where
    b: "exch_unreserve n ?x = (?x\<lparr>ex_accounting := b\<rparr>, Inr ())" "gauge_of b = map_option (\<lambda>g. g - n) (gauge_of a)" by auto
  have "gauge_of b = gauge_of (ex_accounting x)"
    using b(2) unfolding assms(2) by (simp add: option.map_comp comp_def)
  with b(1) show ?thesis by (intro exI [of _ b]) (simp add: undo_reserve_def)
qed

lemma accounting_ok:
  assumes "exch_ok x" "gauge_of b = gauge_of (ex_accounting x)"
  shows "exch_ok (x\<lparr>ex_accounting := b\<rparr>)" "others (x\<lparr>ex_accounting := b\<rparr>) = others x"
  using assms by (auto simp: exch_ok_def others_gauge share_def)

definition data_bytes :: "bheap \<Rightarrow> body_data \<Rightarrow> bytes" where
  "data_bytes h d = (case d of Raw bs \<Rightarrow> bs | Retained v \<Rightarrow> view_bytes h v)"

definition data_ok :: "bheap \<Rightarrow> body_data \<Rightarrow> bool" where
  "data_ok h d = (case d of Raw bs \<Rightarrow> True | Retained v \<Rightarrow> live h v)"

lemma data_len_bytes: "heap_ok h \<Longrightarrow> data_ok h d \<Longrightarrow> data_len h d = length (data_bytes h d)"
  by (cases d) (auto simp: data_len_def data_bytes_def data_ok_def live_view_len)

definition flags :: "'c exchange \<Rightarrow> (pystr \<times> int \<times> bool \<times> bool) \<times> (nat \<times> bool \<times> bool \<times> int \<times> bool) \<times> (bool \<times> bool \<times> ucodec)" where
  "flags x = ((ex_method x, ex_content_length x, ex_chunked_request x, ex_expect_continue_handled x),
     (ex_request_sent x, ex_request_finished x, ex_response_committed x, ex_response_status x, ex_response_finished x),
     (ex_cancelled x, ex_downstream_chunked x, ex_codec x))"

text \<open>The contract of an append in either direction: the invariant and the balance are kept on every
  branch, the bytes are queued exactly when the call returns.\<close>

lemma append_upstream_ok:
  assumes "exch_ok x" "data_ok (ex_heap x) d" "append_upstream d x = (y, r)"
  shows "exch_ok y \<and> others y = others x \<and> flags y = flags x \<and> down_content y = down_content x \<and>
    up_content y = up_content x @ (case r of Inl _ \<Rightarrow> [] | Inr _ \<Rightarrow> data_bytes (ex_heap x) d)"
proof -
  let ?n = "int (length (data_bytes (ex_heap x) d))" and ?c = "ex_to_upstream x" and ?h = "ex_heap x"
  note ok = exch_okD [OF assms(1)]
  have len: "data_len ?h d = length (data_bytes ?h d)" using data_len_bytes ok(7) assms(2) by blast
  obtain x1 r1 where res: "exch_reserve ?n x = (x1, r1)" by (cases "exch_reserve ?n x")
  let ?q = "case d of Retained v \<Rightarrow> channel_append_view v ?c ?h | Raw bs \<Rightarrow> channel_append bs ?c ?h"
  obtain c' h' q where q: "?q = (c', h', q)" "chan_ok c' h'" "frame {} ?h h'" "cb_closed c' = cb_closed ?c"
    "\<forall>v \<in> set (chan_views c'). v \<in> set (chan_views ?c) \<or> length (h_views ?h) \<le> v"
    "\<forall>e. q = Inl e \<longrightarrow> c' = ?c \<and> h' = ?h" "\<forall>t. q = Inr t \<longrightarrow> content c' h' = content ?c ?h @ data_bytes ?h d"
  proof (cases d)
    case (Raw bs)
    then have "data_bytes ?h d = bs" by (simp add: data_bytes_def)
    with Raw channel_append_any [OF ok(1), of bs] that show ?thesis by auto
  next
    case (Retained v)
    with assms(2) have lv: "live ?h v" by (simp add: data_ok_def)
    have "data_bytes ?h d = view_bytes ?h v" using Retained by (simp add: data_bytes_def)
    then show ?thesis using channel_append_view_any [OF ok(1) lv] Retained that by auto
  qed
  have "0 \<le> ?n" by simp
  from exch_reserve_cases [OF res this] consider
    (ok) a where "r1 = Inr ()" "x1 = x\<lparr>ex_accounting := a\<rparr>" "gauge_of a = map_option (\<lambda>g. g + ?n) (gauge_of (ex_accounting x))"
    | (refused) e where "r1 = Inl e" "x1 = x" by blast
  then show ?thesis
  proof cases
    case (ok a)
    have up: "append_upstream d x = (case q of Inl e \<Rightarrow> undo_reserve ?n e (put_upstream (c', h', q) x1) | Inr t \<Rightarrow> (put_upstream (c', h', q) x1, Inr t))"
      using res ok q(1) len by (cases q; cases d) (simp_all add: append_upstream_def Let_def)
    show ?thesis
    proof (cases q)
      case (Inl e)
      have e1: "put_upstream (c', h', q) x1 = x\<lparr>ex_accounting := a\<rparr>" using q(6) Inl ok(2) by (simp add: put_upstream_def)
      from undo_reserve_ok [OF assms(1) ok(3), of e] obtain b where
        b: "undo_reserve ?n e (x\<lparr>ex_accounting := a\<rparr>) = (x\<lparr>ex_accounting := b\<rparr>, Inl e)" "gauge_of b = gauge_of (ex_accounting x)" by auto
      from up e1 Inl b(1) have "append_upstream d x = (x\<lparr>ex_accounting := b\<rparr>, Inl e)" by simp
      with assms(3) have "y = x\<lparr>ex_accounting := b\<rparr>" "r = Inl e" by simp_all
      with accounting_ok [OF assms(1) b(2)] show ?thesis by (simp add: flags_def)
    next
      case (Inr t)
      then have c: "content c' h' = content ?c ?h @ data_bytes ?h d" using q(7) by simp
      from up Inr assms(3) ok(2) have y: "y = x\<lparr>ex_to_upstream := c', ex_heap := h', ex_accounting := a\<rparr>" "r = Inr t"
        by (simp_all add: put_upstream_def)
      have "moved (cb_queued_bytes c' - cb_queued_bytes ?c) x a"
        using ok(3) c chan_queued [OF q(2)] chan_queued [OF exch_okD(1) [OF assms(1)]] by (simp add: moved_def)
      from put_upstream_ok [OF assms(1) q(2,3) _ q(5) _ this] q(4) assms(1) y c show ?thesis
        by (simp add: flags_def exch_ok_def)
    qed
  next
    case (refused e)
    with res len assms(1,3) show ?thesis by (auto simp: append_upstream_def Let_def)
  qed
qed

lemma append_downstream_ok:
  assumes "exch_ok x" "append_downstream bs x = (y, r)"
  shows "exch_ok y \<and> others y = others x \<and> flags y = flags x \<and> up_content y = up_content x \<and>
    down_content y = down_content x @ (case r of Inl _ \<Rightarrow> [] | Inr _ \<Rightarrow> bs)"
proof (cases "bs = []")
  case True
  with assms show ?thesis by (auto simp: append_downstream_def)
next
  case False
  let ?n = "int (length bs)" and ?c = "ex_to_downstream x" and ?h = "ex_heap x"
  note ok = exch_okD [OF assms(1)]
  obtain x1 r1 where res: "exch_reserve ?n x = (x1, r1)" by (cases "exch_reserve ?n x")
  obtain c' h' q where q: "channel_append bs ?c ?h = (c', h', q)" "chan_ok c' h'" "frame {} ?h h'" "cb_closed c' = cb_closed ?c"
    "\<forall>v \<in> set (chan_views c'). v \<in> set (chan_views ?c) \<or> length (h_views ?h) \<le> v"
    "\<forall>e. q = Inl e \<longrightarrow> c' = ?c \<and> h' = ?h" "\<forall>t. q = Inr t \<longrightarrow> content c' h' = content ?c ?h @ bs"
    using channel_append_any [OF ok(2), of bs] by auto
  have "0 \<le> ?n" by simp
  from exch_reserve_cases [OF res this] consider
    (ok) a where "r1 = Inr ()" "x1 = x\<lparr>ex_accounting := a\<rparr>" "gauge_of a = map_option (\<lambda>g. g + ?n) (gauge_of (ex_accounting x))"
    | (refused) e where "r1 = Inl e" "x1 = x" by blast
  then show ?thesis
  proof cases
    case (ok a)
    have up: "append_downstream bs x = (case q of Inl e \<Rightarrow> undo_reserve ?n e (put_downstream (c', h', q) x1) | Inr t \<Rightarrow> (put_downstream (c', h', q) x1, Inr t))"
      using res ok q(1) False by (cases q) (simp_all add: append_downstream_def Let_def)
    show ?thesis
    proof (cases q)
      case (Inl e)
      have e1: "put_downstream (c', h', q) x1 = x\<lparr>ex_accounting := a\<rparr>" using q(6) Inl ok(2) by (simp add: put_downstream_def)
      from undo_reserve_ok [OF assms(1) ok(3), of e] obtain b where
        b: "undo_reserve ?n e (x\<lparr>ex_accounting := a\<rparr>) = (x\<lparr>ex_accounting := b\<rparr>, Inl e)" "gauge_of b = gauge_of (ex_accounting x)" by auto
      from up e1 Inl b(1) have "append_downstream bs x = (x\<lparr>ex_accounting := b\<rparr>, Inl e)" by simp
      with assms(2) have "y = x\<lparr>ex_accounting := b\<rparr>" "r = Inl e" by simp_all
      with accounting_ok [OF assms(1) b(2)] show ?thesis by (simp add: flags_def)
    next
      case (Inr t)
      then have c: "content c' h' = content ?c ?h @ bs" using q(7) by simp
      from up Inr assms(2) ok(2) have y: "y = x\<lparr>ex_to_downstream := c', ex_heap := h', ex_accounting := a\<rparr>" "r = Inr t"
        by (simp_all add: put_downstream_def)
      have "moved (cb_queued_bytes c' - cb_queued_bytes ?c) x a"
        using ok(3) c chan_queued [OF q(2)] chan_queued [OF exch_okD(2) [OF assms(1)]] by (simp add: moved_def)
      from put_downstream_ok [OF assms(1) q(2,3) _ q(5) _ this] q(4) assms(1) y c show ?thesis
        by (simp add: flags_def exch_ok_def)
    qed
  next
    case (refused e)
    with res False assms show ?thesis by (auto simp: append_downstream_def Let_def)
  qed
qed

section \<open>Taking bytes and cancelling\<close>

lemma length_take_queued:
  assumes "chan_ok c h"
  shows "int (length (take (nat (if limit < 0 \<or> limit > cb_queued_bytes c then cb_queued_bytes c else limit)) (content c h)))
    = (if limit < 0 \<or> limit > cb_queued_bytes c then cb_queued_bytes c else limit)"
  using chan_queued [OF assms] by (auto simp: min_def)

lemma take_upstream_ok:
  assumes "exch_ok x" "take_upstream limit x = (y, r)"
  shows "exch_ok y \<and> others y = others x \<and> flags y = flags x \<and> down_content y = down_content x \<and>
    (\<exists>data resumed. r = Inr (data, resumed) \<and> up_content x = data @ up_content y)"
proof -
  let ?c = "ex_to_upstream x" and ?h = "ex_heap x"
  note ok = exch_okD [OF assms(1)]
  let ?n = "if limit < 0 \<or> limit > cb_queued_bytes ?c then cb_queued_bytes ?c else limit"
  let ?data = "take (nat ?n) (content ?c ?h)"
  from channel_read_ok [OF ok(1), of limit] obtain c' h' where
    q: "channel_read limit ?c ?h = (c', h', Inr ?data)" "chan_ok c' h'" "content c' h' = drop (nat ?n) (content ?c ?h)"
      "frame (set (chan_views ?c)) ?h h'" "cb_closed c' = cb_closed ?c" "set (chan_views c') \<subseteq> set (chan_views ?c)" by auto
  have len: "int (length ?data) = ?n" using length_take_queued [OF ok(1)] .
  have cn: "cb_queued_bytes c' = cb_queued_bytes ?c - ?n"
    using chan_queued [OF q(2)] chan_queued [OF ok(1)] q(3) len by (auto simp: min_def)
  let ?x = "x\<lparr>ex_to_upstream := c', ex_heap := h'\<rparr>"
  have "int (length ?data) \<le> buffered_gauge l" if "ex_accounting ?x = Some l" for l
    using exch_okD(4) [OF assms(1), of l] that len ok(6) chan_queued [OF ok(1)] by (simp add: put_upstream_def share_def)
  then have "\<exists>a. exch_unreserve (int (length ?data)) ?x = (?x\<lparr>ex_accounting := a\<rparr>, Inr ()) \<and>
      gauge_of a = map_option (\<lambda>g. g - int (length ?data)) (gauge_of (ex_accounting ?x))"
    by (rule exch_unreserve_ok) (assumption, rule of_nat_0_le_iff)
  then obtain a where a: "exch_unreserve (int (length ?data)) ?x = (?x\<lparr>ex_accounting := a\<rparr>, Inr ())"
      "gauge_of a = map_option (\<lambda>g. g - int (length ?data)) (gauge_of (ex_accounting ?x))" by blast
  have y: "y = x\<lparr>ex_to_upstream := c', ex_heap := h', ex_accounting := a\<rparr>" "\<exists>resumed. r = Inr (?data, resumed)"
    using assms(2) q(1) a(1) by (auto simp: take_upstream_def Let_def put_upstream_def)
  have mv: "moved (cb_queued_bytes c' - cb_queued_bytes ?c) x a"
    using a(2) cn len by (simp add: moved_def put_upstream_def option.map_comp comp_def)
  have "exch_ok y \<and> others y = others x \<and> down_content y = down_content x"
    unfolding y(1) by (rule put_upstream_ok [OF assms(1) q(2,4) _ _ _ mv]) (use q(5,6) assms(1) in \<open>auto simp: exch_ok_def\<close>)
  with y q(3) show ?thesis by (auto simp: flags_def)
qed

lemma take_downstream_ok:
  assumes "exch_ok x" "take_downstream limit x = (y, r)"
  shows "exch_ok y \<and> others y = others x \<and> flags y = flags x \<and> up_content y = up_content x \<and>
    (\<exists>data resumed. r = Inr (data, resumed) \<and> down_content x = data @ down_content y)"
proof -
  let ?c = "ex_to_downstream x" and ?h = "ex_heap x"
  note ok = exch_okD [OF assms(1)]
  let ?n = "if limit < 0 \<or> limit > cb_queued_bytes ?c then cb_queued_bytes ?c else limit"
  let ?data = "take (nat ?n) (content ?c ?h)"
  from channel_read_ok [OF ok(2), of limit] obtain c' h' where
    q: "channel_read limit ?c ?h = (c', h', Inr ?data)" "chan_ok c' h'" "content c' h' = drop (nat ?n) (content ?c ?h)"
      "frame (set (chan_views ?c)) ?h h'" "cb_closed c' = cb_closed ?c" "set (chan_views c') \<subseteq> set (chan_views ?c)" by auto
  have len: "int (length ?data) = ?n" using length_take_queued [OF ok(2)] .
  have cn: "cb_queued_bytes c' = cb_queued_bytes ?c - ?n"
    using chan_queued [OF q(2)] chan_queued [OF ok(2)] q(3) len by (auto simp: min_def)
  let ?x = "x\<lparr>ex_to_downstream := c', ex_heap := h'\<rparr>"
  have "int (length ?data) \<le> buffered_gauge l" if "ex_accounting ?x = Some l" for l
    using exch_okD(4) [OF assms(1), of l] that len ok(5) chan_queued [OF ok(2)] by (simp add: put_downstream_def share_def)
  then have "\<exists>a. exch_unreserve (int (length ?data)) ?x = (?x\<lparr>ex_accounting := a\<rparr>, Inr ()) \<and>
      gauge_of a = map_option (\<lambda>g. g - int (length ?data)) (gauge_of (ex_accounting ?x))"
    by (rule exch_unreserve_ok) (assumption, rule of_nat_0_le_iff)
  then obtain a where a: "exch_unreserve (int (length ?data)) ?x = (?x\<lparr>ex_accounting := a\<rparr>, Inr ())"
      "gauge_of a = map_option (\<lambda>g. g - int (length ?data)) (gauge_of (ex_accounting ?x))" by blast
  have y: "y = x\<lparr>ex_to_downstream := c', ex_heap := h', ex_accounting := a\<rparr>" "\<exists>resumed. r = Inr (?data, resumed)"
    using assms(2) q(1) a(1) by (auto simp: take_downstream_def Let_def put_downstream_def)
  have mv: "moved (cb_queued_bytes c' - cb_queued_bytes ?c) x a"
    using a(2) cn len by (simp add: moved_def put_downstream_def option.map_comp comp_def)
  have "exch_ok y \<and> others y = others x \<and> up_content y = up_content x"
    unfolding y(1) by (rule put_downstream_ok [OF assms(1) q(2,4) _ _ _ mv]) (use q(5,6) assms(1) in \<open>auto simp: exch_ok_def\<close>)
  with y q(3) show ?thesis by (auto simp: flags_def)
qed

lemma closed_empty: "chan_ok c h \<Longrightarrow> cb_closed c \<Longrightarrow> content c h = []"
  by (auto simp: chan_ok_def)

lemma exch_cancel_ok:
  assumes "exch_ok x" "\<not> ex_cancelled x"
  shows "\<exists>y. exch_cancel reason x = (y, Inr ()) \<and> exch_ok y \<and> others y = others x \<and> ex_cancelled y \<and>
    ex_cancel_reason y = reason \<and> up_content y = [] \<and> down_content y = [] \<and> share y = 0"
proof -
  note ok = exch_okD [OF assms(1)]
  let ?c = "ex_to_upstream x" and ?d = "ex_to_downstream x" and ?h = "ex_heap x"
  from channel_close_ok [OF ok(1)] obtain c' h1 k where
    c: "channel_close ?c ?h = (c', h1, Inr k)" "chan_ok c' h1" "cb_closed c'" "frame (set (chan_views ?c)) ?h h1"
      "chan_views c' = (if cb_closed ?c then chan_views ?c else [])" by blast
  have h1: "heap_ok h1" using c(2) by (simp add: chan_ok_def)
  note d1 = chan_ok_frame [OF ok(2) c(4) h1, simplified Int_commute [of "set (chan_views ?d)"], OF ok(3)]
  from channel_close_ok [OF d1(1)] obtain d' h2 m where
    d: "channel_close ?d h1 = (d', h2, Inr m)" "chan_ok d' h2" "cb_closed d'" "frame (set (chan_views ?d)) h1 h2"
      "chan_views d' = (if cb_closed ?d then chan_views ?d else [])" by blast
  have h2: "heap_ok h2" using d(2) by (simp add: chan_ok_def)
  have dis: "set (chan_views c') \<inter> set (chan_views ?d) = {}" "set (chan_views c') \<inter> set (chan_views d') = {}"
    using ok(3) unfolding c(5) d(5) by auto
  note c2 = chan_ok_frame [OF c(2) d(4) h2 dis(1)]
  let ?x = "x\<lparr>ex_cancelled := True, ex_cancel_reason := reason, ex_to_upstream := c', ex_to_downstream := d', ex_heap := h2\<rparr>"
  have "share x \<le> buffered_gauge l" if "ex_accounting ?x = Some l" for l using ok(4) that by simp
  then have "\<exists>a. exch_unreserve (share x) ?x = (?x\<lparr>ex_accounting := a\<rparr>, Inr ()) \<and>
      gauge_of a = map_option (\<lambda>g. g - share x) (gauge_of (ex_accounting ?x))"
    using ok(5,6) by (intro exch_unreserve_ok) (simp_all add: share_def)
  then obtain a where a: "exch_unreserve (share x) ?x = (?x\<lparr>ex_accounting := a\<rparr>, Inr ())"
      "gauge_of a = map_option (\<lambda>g. g - share x) (gauge_of (ex_accounting x))" by auto
  let ?y = "?x\<lparr>ex_accounting := a\<rparr>"
  have "exch_cancel reason x = (?y, Inr ())"
    using assms(2) c(1) d(1) a(1) by (simp add: exch_cancel_def Let_def put_upstream_def put_downstream_def share_def)
  moreover have z: "content c' h2 = []" "content d' h2 = []" using closed_empty c2(1) d(2) c(3) d(3) by blast+
  then have sh: "share ?y = 0" using chan_queued [OF c2(1)] chan_queued [OF d(2)] by (simp add: share_def)
  moreover have "others ?y = others x" using a(2) sh by (simp add: others_gauge option.map_comp comp_def)
  moreover have "exch_ok ?y"
    using assms(1) c2(1) d(2) dis(2) c(3) d(3) \<open>others ?y = others x\<close> by (simp add: exch_ok_def)
  ultimately show ?thesis using z by (intro exI [of _ ?y]) simp
qed

section \<open>The calls\<close>

text \<open>What every call keeps, whatever it returns.\<close>

definition keeps :: "'c exchange \<Rightarrow> 'c exchange \<Rightarrow> bool" where
  "keeps x y \<longleftrightarrow> exch_ok y \<and> others y = others x \<and> ex_method y = ex_method x \<and>
     ex_cancelled y = ex_cancelled x \<and> ex_chunked_request y = ex_chunked_request x \<and>
     ex_content_length y = ex_content_length x \<and> (ex_request_finished x \<longrightarrow> ex_request_finished y) \<and>
     (ex_response_committed x \<longrightarrow> ex_response_committed y) \<and> ex_request_sent x \<le> ex_request_sent y"

lemma keeps_trans: "keeps x y \<Longrightarrow> keeps y z \<Longrightarrow> keeps x z"
  by (simp add: keeps_def)

lemma keeps_refl: "exch_ok x \<Longrightarrow> keeps x x"
  by (simp add: keeps_def)

lemma keeps_flags: "exch_ok y \<Longrightarrow> others y = others x \<Longrightarrow> flags y = flags x \<Longrightarrow> keeps x y"
  by (simp add: keeps_def flags_def)

lemma keeps_core:
  assumes "exch_ok x" "same_core x y" "ex_method y = ex_method x" "ex_response_committed x \<longrightarrow> ex_response_committed y"
    "ex_request_sent x \<le> ex_request_sent y" "ex_chunked_request y = ex_chunked_request x"
    "ex_content_length y = ex_content_length x" "ex_request_finished x \<longrightarrow> ex_request_finished y"
  shows "keeps x y"
  using assms same_core_ok [OF assms(2)] by (simp add: keeps_def same_core_def)

text \<open>What a call on the response side keeps beside that: the request.\<close>

definition keeps_request :: "'c exchange \<Rightarrow> 'c exchange \<Rightarrow> bool" where
  "keeps_request x y \<longleftrightarrow> keeps x y \<and> up_content y = up_content x \<and>
     ex_request_sent y = ex_request_sent x \<and> ex_request_finished y = ex_request_finished x"

lemma keeps_request_trans: "keeps_request x y \<Longrightarrow> keeps_request y z \<Longrightarrow> keeps_request x z"
  by (auto simp: keeps_request_def intro: keeps_trans)

lemma keeps_request_refl: "exch_ok x \<Longrightarrow> keeps_request x x"
  by (simp add: keeps_request_def keeps_refl)

lemma keeps_request_ok: "keeps_request x y \<Longrightarrow> exch_ok y"
  by (simp add: keeps_request_def keeps_def)

lemma keeps_request_core:
  assumes "exch_ok x" "same_core x y" "ex_method y = ex_method x" "ex_response_committed x \<longrightarrow> ex_response_committed y"
    "ex_request_sent y = ex_request_sent x" "ex_chunked_request y = ex_chunked_request x"
    "ex_content_length y = ex_content_length x" "ex_request_finished y = ex_request_finished x"
  shows "keeps_request x y"
  using assms keeps_core [OF assms(1-4)] by (simp add: keeps_request_def same_core_def)

lemma send_downstream_keeps:
  assumes "exch_ok x" "send_downstream out t x = (y, r)"
  shows "keeps_request x y"
proof (cases out)
  case (Inl e)
  with assms show ?thesis by (auto simp: send_downstream_def intro: keeps_request_refl)
next
  case (Inr data)
  obtain y' r' where "append_downstream data x = (y', r')" by (cases "append_downstream data x")
  with append_downstream_ok [OF assms(1) this] assms(2) Inr show ?thesis
    by (auto simp: send_downstream_def keeps_request_def flags_def intro: keeps_flags [unfolded flags_def] split: sum.splits)
qed

lemma response_event_keeps:
  assumes "exch_ok x" "response_event e t x = (y, r)"
  shows "keeps_request x y"
proof (cases e)
  case (UpHead h)
  have k: "keeps_request x (commit_response h x)"
    by (rule keeps_request_core [OF assms(1)]) (simp_all add: commit_response_def same_core_def)
  have "response_event e t x = (x, Inr t) \<or> (\<exists>out. response_event e t x = send_downstream out t x) \<or>
      (\<exists>out. response_event e t x = send_downstream out t (commit_response h x))"
    unfolding UpHead response_event.simps Let_def by (cases "uh_informational h"; cases "uh_status h = 100 \<and> ex_expect_continue_handled x") auto
  then consider "(x, Inr t) = (y, r)" | out where "send_downstream out t x = (y, r)"
    | out where "send_downstream out t (commit_response h x) = (y, r)" using assms(2) by auto
  then show ?thesis
  proof cases
    case 1
    with keeps_request_refl [OF assms(1)] show ?thesis by simp
  next
    case 2
    then show ?thesis by (rule send_downstream_keeps [OF assms(1)])
  next
    case 3
    from keeps_request_trans [OF k send_downstream_keeps [OF keeps_request_ok [OF k] 3]] show ?thesis .
  qed
next
  case (UpBody data)
  with assms send_downstream_keeps [OF assms(1)] show ?thesis by simp
next
  case (UpEnd ts)
  let ?s = "if ex_downstream_chunked x then send_downstream (encode_end_chunks ts) t x else (x, Inr t)"
  obtain x1 r1 where s: "?s = (x1, r1)" by (cases ?s)
  have k: "keeps_request x x1"
    using s send_downstream_keeps [OF assms(1)] keeps_request_refl [OF assms(1)] by (auto split: if_splits)
  have "keeps_request x1 (x1\<lparr>ex_response_finished := True\<rparr>)"
    by (rule keeps_request_core [OF keeps_request_ok [OF k]]) (simp_all add: same_core_def)
  with k s UpEnd assms(2) show ?thesis
    by (auto intro: keeps_request_trans split: sum.splits)
qed

lemma response_events_keeps:
  "exch_ok x \<Longrightarrow> response_events es t x = (y, r) \<Longrightarrow> keeps_request x y"
proof (induction es arbitrary: t x)
  case Nil
  then show ?case by (auto intro: keeps_request_refl)
next
  case (Cons e es)
  obtain x1 r1 where e: "response_event e t x = (x1, r1)" by (cases "response_event e t x")
  note k = response_event_keeps [OF Cons.prems(1) e]
  from Cons.IH [OF keeps_request_ok [OF k]] Cons.prems(2) e k show ?case
    by (cases r1) (auto intro: keeps_request_trans)
qed

lemma eof_events_keeps:
  "exch_ok x \<Longrightarrow> eof_events es t x = (y, r) \<Longrightarrow> keeps_request x y"
proof (induction es arbitrary: t x)
  case Nil
  then show ?case by (auto intro: keeps_request_refl)
next
  case (Cons e es)
  obtain x1 r1 where e: "eof_event e t x = (x1, r1)" by (cases "eof_event e t x")
  have "eof_event e t x = (x, Inr t) \<or> (\<exists>e'. eof_event e t x = response_event e' t x)"
    by (cases e) (auto simp: eof_event_def simp del: response_event.simps)
  then have k: "keeps_request x x1"
  proof
    assume "eof_event e t x = (x, Inr t)"
    with e keeps_request_refl [OF Cons.prems(1)] show ?thesis by simp
  next
    assume "\<exists>e'. eof_event e t x = response_event e' t x"
    then obtain e' where "response_event e' t x = (x1, r1)" using e by auto
    then show ?thesis by (rule response_event_keeps [OF Cons.prems(1)])
  qed
  from Cons.IH [OF keeps_request_ok [OF k]] Cons.prems(2) e k show ?case
    by (cases r1) (auto intro: keeps_request_trans)
qed

lemma append_upstream_keeps:
  assumes "exch_ok x" "data_ok (ex_heap x) d" "append_upstream d x = (y, r)"
  shows "keeps x y"
  using append_upstream_ok [OF assms] keeps_flags by blast

lemma view_to_bytes_live: "heap_ok h \<Longrightarrow> live h v \<Longrightarrow> view_to_bytes v h = Inr (view_bytes h v)"
  by (auto simp: view_to_bytes_def view_bytes_def Let_def heap_ok_def view_ok_def)

text \<open>The bytes one accepted piece of the body becomes on the wire.\<close>

definition framed :: "'c exchange \<Rightarrow> bytes \<Rightarrow> bytes" where
  "framed x bs = (if ex_chunked_request x then encode_chunk bs else bs)"

lemma feed_request_body_ok:
  assumes "exch_ok x" "data_ok (ex_heap x) d" "feed_request_body d x = (y, r)"
  shows "keeps x y \<and> down_content y = down_content x \<and>
    up_content y = up_content x @ (case r of Inl _ \<Rightarrow> [] | Inr _ \<Rightarrow> framed x (data_bytes (ex_heap x) d))"
proof -
  let ?bs = "data_bytes (ex_heap x) d" and ?x = "x\<lparr>ex_request_sent := ex_request_sent x + data_len (ex_heap x) d\<rparr>"
  note hok = exch_okD(7) [OF assms(1)]
  have len: "data_len (ex_heap x) d = length ?bs" by (rule data_len_bytes [OF hok assms(2)])
  have tb: "(case d of Raw bs \<Rightarrow> Inr bs | Retained v \<Rightarrow> view_to_bytes v (ex_heap x)) = Inr ?bs"
    using assms(2) view_to_bytes_live [OF hok] by (cases d) (auto simp: data_bytes_def data_ok_def)
  have k: "keeps x ?x" by (rule keeps_core [OF assms(1)]) (simp_all add: same_core_def)
  then have ok: "exch_ok ?x" by (simp add: keeps_def)
  consider e where "y = x" "r = Inl e"
    | "ex_chunked_request x" "?bs \<noteq> []" "append_upstream (Raw (py_hex_nat (length ?bs) @ crlf @ ?bs @ crlf)) ?x = (y, r)"
    | "\<not> (ex_chunked_request x \<and> ?bs \<noteq> [])" "append_upstream d ?x = (y, r)"
    using assms(3) len tb by (auto simp: feed_request_body_def Let_def split: if_splits)
  then show ?thesis
  proof cases
    case 1
    with assms(1) show ?thesis by (simp add: keeps_def)
  next
    case 2
    from append_upstream_ok [OF ok _ 2(3)] append_upstream_keeps [OF ok _ 2(3)] 2(1,2) keeps_trans [OF k] show ?thesis
      by (auto simp: data_ok_def data_bytes_def framed_def encode_chunk_def split: sum.splits)
  next
    case 3
    from append_upstream_ok [OF ok _ 3(2)] append_upstream_keeps [OF ok _ 3(2)] assms(2) 3(1) keeps_trans [OF k] show ?thesis
      by (auto simp: framed_def encode_chunk_def split: sum.splits)
  qed
qed

definition request_end :: "'c exchange \<Rightarrow> header list \<Rightarrow> bytes" where
  "request_end x trailers =
     (if \<not> ex_request_finished x \<and> ex_chunked_request x
      then cp ''0'' @ crlf @ projr (encode_request_trailers (sanitize_hop_by_hop trailers)) @ crlf else [])"

lemma finish_request_ok:
  assumes "exch_ok x" "finish_request trailers x = (y, r)"
  shows "keeps x y \<and> down_content y = down_content x \<and>
    up_content y = up_content x @ (case r of Inl _ \<Rightarrow> [] | Inr _ \<Rightarrow> request_end x trailers)"
proof -
  let ?x = "x\<lparr>ex_request_finished := True\<rparr>"
  have k: "keeps x ?x" by (rule keeps_core [OF assms(1)]) (simp_all add: same_core_def)
  then have ok: "exch_ok ?x" by (simp add: keeps_def)
  consider e where "y = x" "r = Inl e \<or> ex_request_finished x" | e where "y = ?x" "r = Inl e" | "y = ?x" "\<not> ex_chunked_request x"
    | bs where "\<not> ex_request_finished x" "ex_chunked_request x" "encode_request_trailers (sanitize_hop_by_hop trailers) = Inr bs"
        "append_upstream (Raw (cp ''0'' @ crlf @ bs @ crlf)) ?x = (y, r)"
    using assms(2) by (auto simp: finish_request_def Let_def split: if_splits sum.splits)
  then show ?thesis
  proof cases
    case 1
    then show ?thesis using assms(1) by (auto simp: keeps_def request_end_def split: sum.splits)
  next
    case 2
    then show ?thesis using k by simp
  next
    case 3
    then show ?thesis using k by (simp add: request_end_def split: sum.splits)
  next
    case 4
    from append_upstream_ok [OF ok _ 4(4)] append_upstream_keeps [OF ok _ 4(4)] 4(1-3) keeps_trans [OF k] show ?thesis
      by (auto simp: data_ok_def data_bytes_def request_end_def split: sum.splits)
  qed
qed

lemma feed_upstream_ok:
  assumes "exch_ok x" "feed_upstream data x = (y, r)"
  shows "keeps_request x y"
proof -
  let ?x = "x\<lparr>ex_codec := fst (ufeed (ex_codec x) data)\<rparr>"
  have k: "keeps_request x ?x" by (rule keeps_request_core [OF assms(1)]) (simp_all add: same_core_def)
  have "fst (feed_upstream data x) = x \<or> fst (feed_upstream data x) = ?x \<or>
      (\<exists>es. feed_upstream data x = response_events es BACKPRESSURE_NONE ?x)"
    by (cases "snd (ufeed (ex_codec x) data)") (auto simp: feed_upstream_def Let_def)
  then consider "y = x" | "y = ?x" | es where "response_events es BACKPRESSURE_NONE ?x = (y, r)"
    unfolding assms(2) fst_conv by metis
  then show ?thesis
  proof cases
    case 1
    with keeps_request_refl [OF assms(1)] show ?thesis by simp
  next
    case 2
    with k show ?thesis by simp
  next
    case 3
    from keeps_request_trans [OF k response_events_keeps [OF keeps_request_ok [OF k] 3]] show ?thesis .
  qed
qed

lemma upstream_eof_ok:
  assumes "exch_ok x" "upstream_eof x = (y, r)"
  shows "keeps_request x y"
proof -
  let ?x = "x\<lparr>ex_codec := fst (ueof (ex_codec x))\<rparr>"
  have k: "keeps_request x ?x" by (rule keeps_request_core [OF assms(1)]) (simp_all add: same_core_def)
  have "fst (upstream_eof x) = ?x \<or> (\<exists>es. upstream_eof x = eof_events es BACKPRESSURE_NONE ?x)"
    by (cases "snd (ueof (ex_codec x))") (auto simp: upstream_eof_def Let_def)
  then consider "y = ?x" | es where "eof_events es BACKPRESSURE_NONE ?x = (y, r)"
    unfolding assms(2) fst_conv by metis
  then show ?thesis
  proof cases
    case 1
    with k show ?thesis by simp
  next
    case 2
    from keeps_request_trans [OF k eof_events_keeps [OF keeps_request_ok [OF k] 2]] show ?thesis .
  qed
qed

end
