(* ===== verification/Proxy_Flow.thy ===== *)
theory Proxy_Flow
  imports Proxy_Accounting "HOL-Library.Sublist"
begin

text \<open>
  The properties of an exchange over every sequence of its calls, under interference: other holders
  of the heap may allocate and release their own views, and other parts of the gateway may reserve
  and release their own bytes.
\<close>

section \<open>Facts of single calls\<close>

lemma append_upstream_flags:
  assumes "exch_ok x" "data_ok (ex_heap x) d" "append_upstream d x = (y, r)"
  shows "ex_request_sent y = ex_request_sent x" "ex_request_finished y = ex_request_finished x"
  using append_upstream_ok [OF assms] by (simp_all add: flags_def)

text \<open>Either the call is refused at once, or the bytes are counted and an append is tried.\<close>

lemma feed_request_body_flags:
  assumes "exch_ok x" "data_ok (ex_heap x) d" "feed_request_body d x = (y, r)"
  shows "y = x \<and> isl r \<or> \<not> ex_cancelled x \<and> \<not> ex_request_finished x \<and> \<not> ex_request_finished y \<and>
    ex_request_sent y = ex_request_sent x + length (data_bytes (ex_heap x) d)"
proof -
  let ?bs = "data_bytes (ex_heap x) d" and ?x = "x\<lparr>ex_request_sent := ex_request_sent x + data_len (ex_heap x) d\<rparr>"
  note hok = exch_okD(7) [OF assms(1)]
  have len: "data_len (ex_heap x) d = length ?bs" by (rule data_len_bytes [OF hok assms(2)])
  have tb: "(case d of Raw bs \<Rightarrow> Inr bs | Retained v \<Rightarrow> view_to_bytes v (ex_heap x)) = Inr ?bs"
    using assms(2) view_to_bytes_live [OF hok] by (cases d) (auto simp: data_bytes_def data_ok_def)
  have ok: "exch_ok ?x" using assms(1) same_core_ok [of x ?x] by (simp add: same_core_def)
  let ?chunk = "Raw (py_hex_nat (length ?bs) @ crlf @ ?bs @ crlf)"
  have "fst (feed_request_body d x) = x \<and> isl (snd (feed_request_body d x)) \<or> \<not> ex_cancelled x \<and> \<not> ex_request_finished x \<and>
      (feed_request_body d x = append_upstream ?chunk ?x \<or> feed_request_body d x = append_upstream d ?x)"
    by (simp add: feed_request_body_def Let_def tb)
  then consider "y = x \<and> isl r" | "\<not> ex_cancelled x" "\<not> ex_request_finished x" "append_upstream ?chunk ?x = (y, r)"
    | "\<not> ex_cancelled x" "\<not> ex_request_finished x" "append_upstream d ?x = (y, r)"
    unfolding assms(3) fst_conv snd_conv by metis
  then show ?thesis
  proof cases
    case 2
    from append_upstream_flags [OF ok _ 2(3)] 2(1,2) len show ?thesis by (simp add: data_ok_def)
  next
    case 3
    from append_upstream_flags [OF ok _ 3(3)] 3(1,2) len assms(2) show ?thesis by simp
  qed simp
qed

lemma finish_request_flags:
  assumes "exch_ok x" "finish_request trailers x = (y, r)"
  shows "ex_request_sent y = ex_request_sent x"
    and "ex_request_finished y \<Longrightarrow> \<not> ex_request_finished x \<Longrightarrow> \<not> ex_chunked_request x \<Longrightarrow>
      int (ex_request_sent x) = ex_content_length x"
    and "r = Inr t \<Longrightarrow> ex_request_finished y"
proof -
  let ?x = "x\<lparr>ex_request_finished := True\<rparr>"
  have ok: "exch_ok ?x" using assms(1) same_core_ok [of x ?x] by (simp add: same_core_def)
  have ap: "ex_request_sent y = ex_request_sent x" "ex_request_finished y" if "append_upstream (Raw bs) ?x = (y, r)" for bs
    using append_upstream_flags [OF ok _ that] by (simp_all add: data_ok_def)
  have "fst (finish_request trailers x) = x \<and> (isl (snd (finish_request trailers x)) \<or> ex_request_finished x) \<or>
      (\<not> ex_chunked_request x \<longrightarrow> int (ex_request_sent x) = ex_content_length x) \<and>
        (fst (finish_request trailers x) = ?x \<or> (\<exists>bs. finish_request trailers x = append_upstream (Raw bs) ?x))"
    by (cases "encode_request_trailers (sanitize_hop_by_hop trailers)") (auto simp: finish_request_def Let_def)
  then consider "y = x" "isl r \<or> ex_request_finished x"
    | "\<not> ex_chunked_request x \<longrightarrow> int (ex_request_sent x) = ex_content_length x" "ex_request_sent y = ex_request_sent x" "ex_request_finished y"
    unfolding assms(2) fst_conv snd_conv using ap by force
  then show "ex_request_sent y = ex_request_sent x"
    and "ex_request_finished y \<Longrightarrow> \<not> ex_request_finished x \<Longrightarrow> \<not> ex_chunked_request x \<Longrightarrow>
      int (ex_request_sent x) = ex_content_length x"
    and "r = Inr t \<Longrightarrow> ex_request_finished y"
    by (cases; auto)+
qed

section \<open>Every sequence of calls\<close>

text \<open>Beside the exchange: the head, the pieces of the body that were accepted, the end of the
  request, the bytes the upstream connection has taken, and whether a call of \<open>feed_request_body\<close>
  failed after it had counted its bytes.\<close>

inductive exch_reach :: "'c exchange \<Rightarrow> bytes \<Rightarrow> bytes list \<Rightarrow> bytes \<Rightarrow> bytes \<Rightarrow> bool \<Rightarrow> bool" where
  new: "exchange_new meth target headers authority client_ip scheme host len chunked trust expect seg low high mx h acc = (Inr x, acc') \<Longrightarrow>
    heap_ok h \<Longrightarrow> (\<And>l. acc = Some l \<Longrightarrow> 0 \<le> buffered_gauge l) \<Longrightarrow>
    encode_proxy_request_head (py_upper meth) target headers authority client_ip scheme host len chunked trust expect = Inr head \<Longrightarrow>
    exch_reach x head [] [] [] False"
| body: "exch_reach x head pieces fin taken failed \<Longrightarrow> data_ok (ex_heap x) d \<Longrightarrow> feed_request_body d x = (y, Inr t) \<Longrightarrow>
    exch_reach y head (pieces @ [data_bytes (ex_heap x) d]) fin taken failed"
| body_fails: "exch_reach x head pieces fin taken failed \<Longrightarrow> data_ok (ex_heap x) d \<Longrightarrow> feed_request_body d x = (y, Inl e) \<Longrightarrow>
    exch_reach y head pieces fin taken (failed \<or> ex_request_sent y \<noteq> ex_request_sent x)"
| finish: "exch_reach x head pieces fin taken failed \<Longrightarrow> finish_request trailers x = (y, Inr t) \<Longrightarrow>
    exch_reach y head pieces (fin @ request_end x trailers) taken failed"
| finish_fails: "exch_reach x head pieces fin taken failed \<Longrightarrow> finish_request trailers x = (y, Inl e) \<Longrightarrow>
    exch_reach y head pieces fin taken failed"
| take_up: "exch_reach x head pieces fin taken failed \<Longrightarrow> take_upstream limit x = (y, Inr (data, resumed)) \<Longrightarrow>
    exch_reach y head pieces fin (taken @ data) failed"
| feed_up: "exch_reach x head pieces fin taken failed \<Longrightarrow> feed_upstream data x = (y, r) \<Longrightarrow> exch_reach y head pieces fin taken failed"
| eof: "exch_reach x head pieces fin taken failed \<Longrightarrow> upstream_eof x = (y, r) \<Longrightarrow> exch_reach y head pieces fin taken failed"
| take_down: "exch_reach x head pieces fin taken failed \<Longrightarrow> take_downstream limit x = (y, r) \<Longrightarrow> exch_reach y head pieces fin taken failed"
| cancel: "exch_reach x head pieces fin taken failed \<Longrightarrow> exch_cancel reason x = (y, r) \<Longrightarrow> exch_reach y head pieces fin taken failed"
| other_views: "exch_reach x head pieces fin taken failed \<Longrightarrow> frame V (ex_heap x) h \<Longrightarrow> heap_ok h \<Longrightarrow>
    (set (chan_views (ex_to_upstream x)) \<union> set (chan_views (ex_to_downstream x))) \<inter> V = {} \<Longrightarrow>
    exch_reach (x\<lparr>ex_heap := h\<rparr>) head pieces fin taken failed"
| other_bytes: "exch_reach x head pieces fin taken failed \<Longrightarrow> ex_accounting x = Some l \<Longrightarrow> share x \<le> buffered_gauge l' \<Longrightarrow>
    exch_reach (x\<lparr>ex_accounting := Some l'\<rparr>) head pieces fin taken failed"

definition wire :: "'c exchange \<Rightarrow> bytes \<Rightarrow> bytes list \<Rightarrow> bytes \<Rightarrow> bytes" where
  "wire x head pieces fin = head @ concat (map (framed x) pieces) @ fin"

definition flow_ok :: "'c exchange \<Rightarrow> bytes \<Rightarrow> bytes list \<Rightarrow> bytes \<Rightarrow> bytes \<Rightarrow> bool \<Rightarrow> bool" where
  "flow_ok x head pieces fin taken failed \<longleftrightarrow> exch_ok x \<and>
     (if ex_cancelled x then prefix taken (wire x head pieces fin) else wire x head pieces fin = taken @ up_content x) \<and>
     (fin \<noteq> [] \<longrightarrow> ex_request_finished x) \<and> length (concat pieces) \<le> ex_request_sent x \<and>
     (\<not> failed \<longrightarrow> ex_request_sent x = length (concat pieces)) \<and>
     (ex_request_finished x \<and> \<not> ex_chunked_request x \<longrightarrow> int (ex_request_sent x) = ex_content_length x)"

lemma wire_cong: "ex_chunked_request y = ex_chunked_request x \<Longrightarrow> wire y head pieces fin = wire x head pieces fin"
  by (simp add: wire_def framed_def cong: map_cong)

lemma wire_keeps: "keeps x y \<Longrightarrow> wire y head pieces fin = wire x head pieces fin"
  by (rule wire_cong) (simp add: keeps_def)

text \<open>A call that keeps the request as it is.\<close>

lemma flow_keeps:
  assumes "flow_ok x head pieces fin taken failed" "keeps x y" "up_content y = up_content x"
    and "ex_request_sent y = ex_request_sent x" "ex_request_finished y = ex_request_finished x"
  shows "flow_ok y head pieces fin taken failed"
  using assms wire_keeps [OF assms(2), of head pieces fin] by (simp add: flow_ok_def keeps_def)

lemma flow_keeps_request:
  "flow_ok x head pieces fin taken failed \<Longrightarrow> keeps_request x y \<Longrightarrow> flow_ok y head pieces fin taken failed"
  by (rule flow_keeps) (simp_all add: keeps_request_def)

lemma flow_okD: "flow_ok x head pieces fin taken failed \<Longrightarrow> exch_ok x"
  by (simp add: flow_ok_def)

lemma cancelled_content:
  assumes "exch_ok x" "ex_cancelled x"
  shows "up_content x = []"
  using assms closed_empty [OF exch_okD(1) [OF assms(1)]] by (simp add: exch_ok_def)

lemma flow_body:
  assumes "flow_ok x head pieces fin taken failed" "data_ok (ex_heap x) d" "feed_request_body d x = (y, Inr t)"
  shows "flow_ok y head (pieces @ [data_bytes (ex_heap x) d]) fin taken failed"
proof -
  note ok = flow_okD [OF assms(1)]
  note f = feed_request_body_ok [OF ok assms(2,3)] and g = feed_request_body_flags [OF ok assms(2,3), simplified]
  then have k: "keeps x y" and up: "up_content y = up_content x @ framed x (data_bytes (ex_heap x) d)" by simp_all
  have "fin = []" using assms(1) g by (auto simp: flow_ok_def)
  then have w: "wire y head (pieces @ [data_bytes (ex_heap x) d]) fin = wire x head pieces fin @ framed x (data_bytes (ex_heap x) d)"
    using wire_keeps [OF k, of head "pieces @ [data_bytes (ex_heap x) d]" fin] by (simp add: wire_def)
  have "\<not> ex_cancelled y" using g k by (simp add: keeps_def)
  then show ?thesis
    unfolding flow_ok_def w using assms(1) k up g \<open>fin = []\<close> by (simp add: flow_ok_def keeps_def)
qed

lemma flow_body_fails:
  assumes "flow_ok x head pieces fin taken failed" "data_ok (ex_heap x) d" "feed_request_body d x = (y, Inl e)"
  shows "flow_ok y head pieces fin taken (failed \<or> ex_request_sent y \<noteq> ex_request_sent x)"
proof -
  note ok = flow_okD [OF assms(1)]
  note f = feed_request_body_ok [OF ok assms(2,3)] and g = feed_request_body_flags [OF ok assms(2,3)]
  then have k: "keeps x y" and up: "up_content y = up_content x" by simp_all
  show ?thesis
  proof (cases "y = x")
    case False
    with g have "\<not> ex_request_finished x" "\<not> ex_request_finished y" by simp_all
    with assms(1) k up wire_keeps [OF k, of head pieces fin] show ?thesis
      by (cases "ex_cancelled x") (auto simp: flow_ok_def keeps_def)
  qed (use assms(1) in simp)
qed

lemma flow_finish:
  assumes "flow_ok x head pieces fin taken failed" "finish_request trailers x = (y, r)"
  shows "flow_ok y head pieces (fin @ (case r of Inl _ \<Rightarrow> [] | Inr _ \<Rightarrow> request_end x trailers)) taken failed"
proof -
  let ?tail = "case r of Inl _ \<Rightarrow> [] | Inr _ \<Rightarrow> request_end x trailers"
  note ok = flow_okD [OF assms(1)]
  note f = finish_request_ok [OF ok assms(2)] and g = finish_request_flags [OF ok assms(2)]
  then have k: "keeps x y" and up: "up_content y = up_content x @ ?tail" by simp_all
  have w: "wire y head pieces (fin @ ?tail) = wire x head pieces fin @ ?tail"
    using wire_keeps [OF k, of head pieces "fin @ ?tail"] by (simp add: wire_def)
  have e: "?tail \<noteq> [] \<longrightarrow> ex_request_finished y" using g(3) by (cases r) auto
  have fin: "ex_request_finished y \<and> \<not> ex_chunked_request y \<longrightarrow> int (ex_request_sent y) = ex_content_length y"
    using assms(1) g(1,2) k by (cases "ex_request_finished x") (auto simp: flow_ok_def keeps_def)
  show ?thesis
    unfolding flow_ok_def w using assms(1) k up g(1) e fin
    by (cases "ex_cancelled x") (auto simp: flow_ok_def keeps_def)
qed

lemma flow_take:
  assumes "flow_ok x head pieces fin taken failed" "take_upstream limit x = (y, Inr (data, resumed))"
  shows "flow_ok y head pieces fin (taken @ data) failed"
proof -
  note ok = flow_okD [OF assms(1)]
  from take_upstream_ok [OF ok assms(2)] have t: "exch_ok y" "others y = others x" "flags y = flags x"
    "up_content x = data @ up_content y" by auto
  have k: "keeps x y" by (rule keeps_flags [OF t(1-3)])
  have "ex_cancelled x \<Longrightarrow> data = []" using cancelled_content [OF ok] t(4) by simp
  with assms(1) k t(3,4) wire_keeps [OF k, of head pieces fin] show ?thesis
    by (auto simp: flow_ok_def keeps_def flags_def)
qed

lemma flow_cancel:
  assumes "flow_ok x head pieces fin taken failed" "exch_cancel reason x = (y, r)"
  shows "flow_ok y head pieces fin taken failed"
proof (cases "ex_cancelled x")
  case True
  with assms show ?thesis by (simp add: exch_cancel_def)
next
  case False
  have "wire x head pieces fin = taken @ up_content x" using assms(1) False by (simp add: flow_ok_def)
  then have p: "prefix taken (wire x head pieces fin)" by simp
  note ok = flow_okD [OF assms(1)]
  from exch_cancel_ok [OF ok False, of reason] assms(2) have c: "exch_ok y" "ex_cancelled y" by auto
  have same: "ex_chunked_request y = ex_chunked_request x" "ex_request_sent y = ex_request_sent x"
    "ex_request_finished y = ex_request_finished x" "ex_content_length y = ex_content_length x"
    using assms(2) by (auto simp: exch_cancel_def exch_unreserve_def put_upstream_def put_downstream_def Let_def
        split: if_splits sum.splits option.splits prod.splits)
  have "wire y head pieces fin = wire x head pieces fin" using same(1) by (rule wire_cong)
  with assms(1) c same p show ?thesis by (simp add: flow_ok_def)
qed

lemma flow_new:
  assumes "exchange_new meth target headers authority client_ip scheme host len chunked trust expect seg low high mx h acc = (Inr x, acc')"
    and "heap_ok h" "\<And>l. acc = Some l \<Longrightarrow> 0 \<le> buffered_gauge l"
    and "encode_proxy_request_head (py_upper meth) target headers authority client_ip scheme host len chunked trust expect = Inr head"
  shows "flow_ok x head [] [] [] False"
proof -
  from assms(1,4) obtain codec c t where c: "channel_new seg (low_default low (high_default high mx)) (high_default high mx) mx = Inr c"
    and ap: "append_upstream (Raw head) \<lparr>ex_method = py_upper meth, ex_content_length = len, ex_chunked_request = chunked,
                     ex_expect_continue_handled = expect, ex_request_sent = 0, ex_request_finished = False,
                     ex_response_committed = False, ex_response_status = 0, ex_response_finished = False,
                     ex_cancelled = False, ex_cancel_reason = [], ex_upstream_keep_alive = False,
                     ex_downstream_chunked = False, ex_codec = codec, ex_to_upstream = c, ex_to_downstream = c,
                     ex_heap = h, ex_accounting = acc\<rparr> = (x, Inr t)"
    by (auto simp: exchange_new_def Let_def rbind_eq_Inr split: if_splits sum.splits prod.splits)
  let ?x = "\<lparr>ex_method = py_upper meth, ex_content_length = len, ex_chunked_request = chunked,
                     ex_expect_continue_handled = expect, ex_request_sent = 0, ex_request_finished = False,
                     ex_response_committed = False, ex_response_status = 0, ex_response_finished = False,
                     ex_cancelled = False, ex_cancel_reason = [], ex_upstream_keep_alive = False,
                     ex_downstream_chunked = False, ex_codec = codec, ex_to_upstream = c, ex_to_downstream = c,
                     ex_heap = h, ex_accounting = acc\<rparr>"
  note n = channel_new_ok [OF c assms(2)]
  have v: "chan_views c = []" "cb_queued_bytes c = 0" using c by (auto simp: channel_new_def split: if_splits)
  have ok: "exch_ok ?x" using n(1) v assms(3) by (auto simp: exch_ok_def others_def share_def)
  have "data_ok (ex_heap ?x) (Raw head)" by (simp add: data_ok_def)
  from append_upstream_ok [OF ok this ap] n(2) show ?thesis
    by (simp add: flow_ok_def flags_def data_bytes_def wire_def)
qed

lemma flow_other_views:
  assumes "flow_ok x head pieces fin taken failed" "frame V (ex_heap x) h" "heap_ok h"
    and "(set (chan_views (ex_to_upstream x)) \<union> set (chan_views (ex_to_downstream x))) \<inter> V = {}"
  shows "flow_ok (x\<lparr>ex_heap := h\<rparr>) head pieces fin taken failed"
proof -
  note ok = flow_okD [OF assms(1)]
  have d: "set (chan_views (ex_to_upstream x)) \<inter> V = {}" "set (chan_views (ex_to_downstream x)) \<inter> V = {}" using assms(4) by blast+
  note u = chan_ok_frame [OF exch_okD(1) [OF ok] assms(2,3) d(1)] and w = chan_ok_frame [OF exch_okD(2) [OF ok] assms(2,3) d(2)]
  have "exch_ok (x\<lparr>ex_heap := h\<rparr>)" using ok u(1) w(1) by (simp add: exch_ok_def others_def share_def)
  with assms(1) u(2) wire_cong [of "x\<lparr>ex_heap := h\<rparr>" x head pieces fin] show ?thesis by (simp add: flow_ok_def)
qed

lemma flow_other_bytes:
  assumes "flow_ok x head pieces fin taken failed" "share x \<le> buffered_gauge l"
  shows "flow_ok (x\<lparr>ex_accounting := Some l\<rparr>) head pieces fin taken failed"
proof -
  have "exch_ok (x\<lparr>ex_accounting := Some l\<rparr>)"
    using flow_okD [OF assms(1)] assms(2) by (auto simp: exch_ok_def others_def share_def)
  with assms(1) wire_cong [of "x\<lparr>ex_accounting := Some l\<rparr>" x head pieces fin] show ?thesis by (simp add: flow_ok_def)
qed

lemma exch_reach_flow:
  "exch_reach x head pieces fin taken failed \<Longrightarrow> flow_ok x head pieces fin taken failed"
proof (induction rule: exch_reach.induct)
  case (finish x head pieces fin taken failed trailers y t)
  from flow_finish [OF finish.IH finish.hyps(2)] show ?case by simp
next
  case (finish_fails x head pieces fin taken failed trailers y e)
  from flow_finish [OF finish_fails.IH finish_fails.hyps(2)] show ?case by simp
next
  case (feed_up x head pieces fin taken failed data y r)
  show ?case by (rule flow_keeps_request [OF feed_up.IH feed_upstream_ok [OF flow_okD [OF feed_up.IH] feed_up.hyps(2)]])
next
  case (eof x head pieces fin taken failed y r)
  show ?case by (rule flow_keeps_request [OF eof.IH upstream_eof_ok [OF flow_okD [OF eof.IH] eof.hyps(2)]])
next
  case (take_down x head pieces fin taken failed limit y r)
  from take_downstream_ok [OF flow_okD [OF take_down.IH] take_down.hyps(2)]
  have t: "exch_ok y" "others y = others x" "flags y = flags x" "up_content y = up_content x" by auto
  show ?case by (rule flow_keeps [OF take_down.IH keeps_flags [OF t(1-3)] t(4)]) (use t(3) in \<open>simp_all add: flags_def\<close>)
qed (assumption | rule flow_new flow_body flow_body_fails flow_take flow_cancel flow_other_views flow_other_bytes)+

section \<open>A small exchange\<close>

definition small_lifecycle :: "nat lifecycle" where
  "small_lifecycle = lifecycle_new 0 \<lparr>al_max_connections = 4, al_max_requests = 4, al_max_queued_requests = 4,
     al_max_upstream_active = 4, al_max_buffered_bytes = 150\<rparr>"

definition small_new :: "nat exchange result \<times> nat lifecycle option" where
  "small_new = exchange_new (cp ''put'') (cp ''/'') [] (cp ''u'') (cp ''i'') (cp ''s'') (cp ''h'') 3 False False False 64 100 200 300
     empty_heap (Some small_lifecycle)"

definition small_head :: bytes where
  "small_head = projr (encode_proxy_request_head (py_upper (cp ''put'')) (cp ''/'') [] (cp ''u'') (cp ''i'') (cp ''s'') (cp ''h'') 3 False False False)"

definition small_exchange :: "nat exchange" where
  "small_exchange = projr (fst small_new)"

lemma small_exchange_reach: "exch_reach small_exchange small_head [] [] [] False"
proof -
  have "\<not> isl (fst small_new)" by code_simp
  then obtain acc' where 1: "small_new = (Inr small_exchange, acc')"
    unfolding small_exchange_def by (metis isl_def prod.collapse sum.collapse(2))
  have "\<not> isl (encode_proxy_request_head (py_upper (cp ''put'')) (cp ''/'') [] (cp ''u'') (cp ''i'') (cp ''s'') (cp ''h'') 3 False False False)"
    by code_simp
  then have 2: "encode_proxy_request_head (py_upper (cp ''put'')) (cp ''/'') [] (cp ''u'') (cp ''i'') (cp ''s'') (cp ''h'') 3 False False False = Inr small_head"
    unfolding small_head_def by (auto simp: isl_def sum.collapse)
  show ?thesis
    by (rule exch_reach.new [OF 1 [unfolded small_new_def] heap_ok_empty _ 2])
      (simp add: small_lifecycle_def lifecycle_new_def metrics_new_def)
qed

section \<open>Properties\<close>

text \<open>C26 Bytes held by an exchange: in every reachable state, whatever other parts of the gateway
  reserve or release, the bytes counted by the two channels are exactly the queued bytes, stay within
  the limits of the channels and are covered by the global gauge; every call, successful or not,
  moves the gauge by exactly the change of the queued bytes; and \<open>cancel\<close> succeeds and gives
  everything back.\<close>

theorem exchange_bytes_accounted:
  assumes "exch_reach x head pieces fin taken failed"
  shows "share x = int (length (up_content x) + length (down_content x)) \<and>
    int (length (up_content x)) \<le> cb_max_bytes (ex_to_upstream x) \<and> int (length (down_content x)) \<le> cb_max_bytes (ex_to_downstream x) \<and>
    (\<forall>l. ex_accounting x = Some l \<longrightarrow> share x \<le> buffered_gauge l) \<and>
    (\<forall>d. data_ok (ex_heap x) d \<longrightarrow> others (fst (feed_request_body d x)) = others x) \<and>
    others (fst (finish_request trailers x)) = others x \<and> others (fst (take_upstream limit x)) = others x \<and>
    others (fst (feed_upstream data x)) = others x \<and> others (fst (upstream_eof x)) = others x \<and>
    others (fst (take_downstream limit x)) = others x \<and>
    (\<not> ex_cancelled x \<longrightarrow> (\<exists>y. exch_cancel reason x = (y, Inr ()) \<and> share y = 0 \<and> others y = others x))"
proof -
  note ok = flow_okD [OF exch_reach_flow [OF assms]]
  note q = exch_okD [OF ok]
  have "others (fst (feed_request_body d x)) = others x" if "data_ok (ex_heap x) d" for d
    using feed_request_body_ok [OF ok that] by (cases "feed_request_body d x") (simp add: keeps_def)
  moreover have "others (fst (finish_request trailers x)) = others x"
    using finish_request_ok [OF ok] by (cases "finish_request trailers x") (simp add: keeps_def)
  moreover have "others (fst (take_upstream limit x)) = others x"
    using take_upstream_ok [OF ok] by (cases "take_upstream limit x") simp
  moreover have "others (fst (feed_upstream data x)) = others x"
    using feed_upstream_ok [OF ok] by (cases "feed_upstream data x") (simp add: keeps_request_def keeps_def)
  moreover have "others (fst (upstream_eof x)) = others x"
    using upstream_eof_ok [OF ok] by (cases "upstream_eof x") (simp add: keeps_request_def keeps_def)
  moreover have "others (fst (take_downstream limit x)) = others x"
    using take_downstream_ok [OF ok] by (cases "take_downstream limit x") simp
  moreover have "\<exists>y. exch_cancel reason x = (y, Inr ()) \<and> share y = 0 \<and> others y = others x" if "\<not> ex_cancelled x"
    using exch_cancel_ok [OF ok that] by blast
  ultimately show ?thesis
    using q(1,2,4) by (simp add: share_def chan_ok_def)
qed

theorem exchange_bytes_accounted_witness:
  "share small_exchange = int (length (up_content small_exchange) + length (down_content small_exchange)) \<and>
   others (fst (take_upstream 5 small_exchange)) = others small_exchange"
  using exchange_bytes_accounted [OF small_exchange_reach] by blast

text \<open>C27 The request stream: what the upstream connection has taken, followed by what is still
  queued, is the encoded head, the accepted pieces of the body in their framing and the end of the
  request, in this order; after a cancellation what was taken is a prefix of it.  When a request with
  a declared length is finished and no call failed, the accepted bytes are exactly that many.\<close>

theorem exchange_request_stream:
  assumes "exch_reach x head pieces fin taken failed"
  shows "(if ex_cancelled x then prefix taken (wire x head pieces fin) else wire x head pieces fin = taken @ up_content x) \<and>
    (ex_request_finished x \<and> \<not> ex_chunked_request x \<and> \<not> failed \<longrightarrow> int (length (concat pieces)) = ex_content_length x)"
  using exch_reach_flow [OF assms] by (auto simp: flow_ok_def)

theorem exchange_request_stream_witness:
  "\<exists>y r. finish_request [] (fst (feed_request_body (Raw [1, 2, 3]) small_exchange)) = (y, r) \<and>
     int (length (concat [[1, 2, 3 :: int]])) = ex_content_length y"
proof -
  let ?x = "fst (feed_request_body (Raw [1, 2, 3]) small_exchange)"
  have "\<not> isl (snd (feed_request_body (Raw [1, 2, 3]) small_exchange))" by code_simp
  then obtain t where 1: "feed_request_body (Raw [1, 2, 3]) small_exchange = (?x, Inr t)"
    by (cases "feed_request_body (Raw [1, 2, 3]) small_exchange"; cases "snd (feed_request_body (Raw [1, 2, 3]) small_exchange)") auto
  have "exch_reach ?x small_head ([] @ [data_bytes (ex_heap small_exchange) (Raw [1, 2, 3])]) [] [] False"
    by (rule exch_reach.body [OF small_exchange_reach _ 1]) (simp add: data_ok_def)
  then have r: "exch_reach ?x small_head [[1, 2, 3]] [] [] False" by (simp add: data_bytes_def)
  have c: "\<not> ex_chunked_request ?x" "\<not> ex_request_finished ?x" "int (ex_request_sent ?x) = ex_content_length ?x" by code_simp+
  then have f: "finish_request [] ?x = (?x\<lparr>ex_request_finished := True\<rparr>, Inr BACKPRESSURE_NONE)"
    by (simp add: finish_request_def)
  from exch_reach.finish [OF r f] have "exch_reach (?x\<lparr>ex_request_finished := True\<rparr>) small_head [[1, 2, 3]] (request_end ?x []) [] False"
    by simp
  from exchange_request_stream [OF this] c f show ?thesis by auto
qed

text \<open>C28 Retrying is safe: when \<open>can_retry\<close> allows another attempt, no byte of the request body has
  been accepted (so none can have reached the upstream), no response has been committed, the attempts
  are not used up, and the method and the failure are among those the policy names.\<close>

theorem exchange_retry_safe:
  assumes "exch_reach x head pieces fin taken failed" "can_retry rp attempt failure x"
  shows "concat pieces = [] \<and> prefix taken (head @ fin) \<and> \<not> ex_response_committed x \<and> attempt < rp_attempts rp \<and>
    py_upper (ex_method x) \<in> set (rp_methods rp) \<and> failure \<in> set retryable_failures"
proof -
  note f = exch_reach_flow [OF assms(1), unfolded flow_ok_def]
  have r: "ex_request_sent x = 0" "\<not> ex_response_committed x" "attempt < rp_attempts rp"
      "py_upper (ex_method x) \<in> set (rp_methods rp)" "failure \<in> set retryable_failures"
    using assms(2) by (auto simp: can_retry_def retry_allows_def split: if_splits)
  have p: "concat pieces = []" using f r(1) by simp
  then have "\<forall>p \<in> set pieces. framed x p = []" by (auto simp: framed_def encode_chunk_def)
  then have "wire x head pieces fin = head @ fin" by (simp add: wire_def)
  moreover have "prefix taken (wire x head pieces fin)" using f by (cases "ex_cancelled x") auto
  ultimately show ?thesis using p r by simp
qed

theorem exchange_retry_safe_witness:
  "\<exists>rp. can_retry rp 1 ''refused'' small_exchange \<and> \<not> ex_response_committed small_exchange"
proof -
  let ?rp = "\<lparr>rp_attempts = 2, rp_methods = [cp ''PUT'']\<rparr>"
  have "can_retry ?rp 1 ''refused'' small_exchange" by code_simp
  with exchange_retry_safe [OF small_exchange_reach this] show ?thesis by blast
qed

text \<open>A call of \<open>feed_request_body\<close> that fails has already counted its bytes: the same data is then
  refused as an overflow, and \<open>finish_request\<close> accepts the request although the bytes are missing.\<close>

lemma failed_feed_counted:
  assumes "\<not> ex_cancelled x" "\<not> ex_request_finished x" "\<not> ex_chunked_request x" "bs \<noteq> []"
    and "int (ex_request_sent x + length bs) = ex_content_length x"
    and "ex_accounting x = Some l" "buffered_gauge l + int (length bs) > al_max_buffered_bytes (lc_limits l)"
  defines "y \<equiv> x\<lparr>ex_request_sent := ex_request_sent x + length bs\<rparr>"
  shows "feed_request_body (Raw bs) x =
      (y, Inl (ProxyProtocolError ''buffer-overload'' ''gateway global buffered-byte limit exceeded'')) \<and>
    finish_request [] y = (y\<lparr>ex_request_finished := True\<rparr>, Inr BACKPRESSURE_NONE)"
proof -
  have "x\<lparr>ex_request_sent := ex_request_sent x + length bs, ex_accounting := Some l\<rparr> = y"
    using assms(6) by (intro exchange.equality) (simp_all add: y_def)
  then have "feed_request_body (Raw bs) x =
      (y, Inl (ProxyProtocolError ''buffer-overload'' ''gateway global buffered-byte limit exceeded''))"
    using assms(1-7) by (simp add: feed_request_body_def append_upstream_def exch_reserve_def reserve_buffered_def data_len_def y_def)
  moreover have "finish_request [] y = (y\<lparr>ex_request_finished := True\<rparr>, Inr BACKPRESSURE_NONE)"
    using assms(2,3,5) by (simp add: finish_request_def y_def)
  ultimately show ?thesis ..
qed

end
