(* ===== verification/Proxy_Leases.thy ===== *)
theory Proxy_Leases
  imports Proxy Buffer
begin

text \<open>
  Upstream groups share endpoints and hand out leases.  This theory proves what the counters mean
  over every sequence of calls: an endpoint counts its unreleased leases, a group counts its own,
  no group exceeds its limit and no release underflows.  It also says which endpoint is selected.
\<close>

section \<open>What the counters mean\<close>

abbreviation held :: "(lease \<Rightarrow> bool) \<Rightarrow> upstreams \<Rightarrow> nat" where
  "held P us \<equiv> length (filter (\<lambda>l. \<not> ls_released l \<and> P l) (us_leases us))"

definition group_ok :: "upstreams \<Rightarrow> nat \<Rightarrow> bool" where
  "group_ok us g \<longleftrightarrow> (let gr = us_groups us ! g in
     gr_active gr = int (held (\<lambda>l. ls_group l = g) us) \<and> gr_active gr \<le> gr_max_active gr \<and>
     gr_endpoints gr \<noteq> [] \<and> gr_cursor gr < length (gr_endpoints gr) \<and>
     (\<forall>e \<in> set (gr_endpoints gr). e < length (us_endpoints us)))"

definition endpoint_ok :: "upstreams \<Rightarrow> nat \<Rightarrow> bool" where
  "endpoint_ok us e \<longleftrightarrow> ep_active (us_endpoints us ! e) = int (held (\<lambda>l. ls_endpoint l = e) us) \<and>
     0 < ep_weight (us_endpoints us ! e)"

definition upstreams_ok :: "upstreams \<Rightarrow> bool" where
  "upstreams_ok us \<longleftrightarrow> (\<forall>g < length (us_groups us). group_ok us g) \<and>
     (\<forall>e < length (us_endpoints us). endpoint_ok us e) \<and>
     (\<forall>l \<in> set (us_leases us). ls_group l < length (us_groups us) \<and> ls_endpoint l < length (us_endpoints us))"

lemma upstreams_okI:
  assumes "\<And>g. g < length (us_groups us) \<Longrightarrow> group_ok us g"
    and "\<And>e. e < length (us_endpoints us) \<Longrightarrow> endpoint_ok us e"
    and "\<And>l. l \<in> set (us_leases us) \<Longrightarrow> ls_group l < length (us_groups us) \<and> ls_endpoint l < length (us_endpoints us)"
  shows "upstreams_ok us"
  using assms by (simp add: upstreams_ok_def)

lemma upstreams_okD:
  assumes "upstreams_ok us"
  shows "g < length (us_groups us) \<Longrightarrow> group_ok us g"
    "e < length (us_endpoints us) \<Longrightarrow> endpoint_ok us e"
    "l < length (us_leases us) \<Longrightarrow> ls_group (us_leases us ! l) < length (us_groups us) \<and>
       ls_endpoint (us_leases us ! l) < length (us_endpoints us)"
  using assms by (simp_all add: upstreams_ok_def)

section \<open>Acquiring\<close>

definition set_cursor :: "nat \<Rightarrow> nat \<Rightarrow> upstreams \<Rightarrow> upstreams" where
  "set_cursor g k us = us\<lparr>us_groups := (us_groups us)[g := (us_groups us ! g)\<lparr>gr_cursor := k\<rparr>]\<rparr>"

definition available :: "upstreams \<Rightarrow> nat \<Rightarrow> nat \<Rightarrow> bool" where
  "available us g e \<longleftrightarrow> ep_active (us_endpoints us ! e) \<le> gr_active (us_groups us ! g) + ep_weight (us_endpoints us ! e)"

text \<open>The loop tries the endpoints from the cursor on, cyclically, and reserves the first that is
  available; the cursor ends behind the last one tried.\<close>

definition turn :: "nat \<Rightarrow> nat \<Rightarrow> upstreams \<Rightarrow> nat" where
  "turn g i us = gr_endpoints (us_groups us ! g) !
     ((gr_cursor (us_groups us ! g) + i) mod length (gr_endpoints (us_groups us ! g)))"

lemma set_cursor_simps [simp]:
  "us_endpoints (set_cursor g k us) = us_endpoints us"
  "us_leases (set_cursor g k us) = us_leases us"
  "length (us_groups (set_cursor g k us)) = length (us_groups us)"
  "g < length (us_groups us) \<Longrightarrow> us_groups (set_cursor g k us) ! g = (us_groups us ! g)\<lparr>gr_cursor := k\<rparr>"
  "g < length (us_groups us) \<Longrightarrow> set_cursor g k' (set_cursor g k us) = set_cursor g k' us"
  by (simp_all add: set_cursor_def)

lemma available_set_cursor [simp]: "g < length (us_groups us) \<Longrightarrow> available (set_cursor g k us) g e = available us g e"
  by (simp add: available_def)

lemma turn_set_cursor:
  assumes "g < length (us_groups us)" "gr_endpoints (us_groups us ! g) \<noteq> []"
  shows "turn g i (set_cursor g (Suc (gr_cursor (us_groups us ! g)) mod length (gr_endpoints (us_groups us ! g))) us)
    = turn g (Suc i) us"
proof -
  let ?n = "length (gr_endpoints (us_groups us ! g))"
  have "(Suc (gr_cursor (us_groups us ! g)) mod ?n + i) mod ?n = (gr_cursor (us_groups us ! g) + Suc i) mod ?n"
    by (simp add: mod_add_left_eq)
  with assms show ?thesis by (simp add: turn_def)
qed

lemma suc_mod_shift: "Suc (Suc a mod n + i) mod n = Suc (Suc (a + i)) mod (n :: nat)"
  using mod_add_left_eq [of "Suc a" n "Suc i"] by simp

lemma acquire_loop_eq:
  assumes "g < length (us_groups us)" "gr_cursor (us_groups us ! g) < length (gr_endpoints (us_groups us ! g))"
  shows "case acquire_loop left g us of
      (us', None) \<Rightarrow> (\<forall>i < left. \<not> available us g (turn g i us)) \<and> (\<exists>k < length (gr_endpoints (us_groups us ! g)). us' = set_cursor g k us)
    | (us', Some e) \<Rightarrow> \<exists>i < left. e = turn g i us \<and> available us g e \<and> (\<forall>j < i. \<not> available us g (turn g j us)) \<and>
        (let k = (gr_cursor (us_groups us ! g) + Suc i) mod length (gr_endpoints (us_groups us ! g)); ep = us_endpoints us ! e in
         us' = (set_cursor g k us)\<lparr>us_endpoints := (us_endpoints us)[e := ep\<lparr>ep_active := ep_active ep + 1\<rparr>]\<rparr>)"
  using assms
proof (induction left arbitrary: us)
  case 0
  have "set_cursor g (gr_cursor (us_groups us ! g)) us = us"
    by (simp add: set_cursor_def)
  then show ?case using 0 by (auto simp: set_cursor_def)
next
  case (Suc left)
  let ?gr = "us_groups us ! g" and ?n = "length (gr_endpoints (us_groups us ! g))"
  let ?us = "set_cursor g (Suc (gr_cursor ?gr) mod ?n) us" and ?e = "turn g 0 us"
  have ne: "gr_endpoints ?gr \<noteq> []" using Suc.prems by auto
  have e: "?e = gr_endpoints ?gr ! gr_cursor ?gr" using Suc.prems by (simp add: turn_def)
  have step: "acquire_loop (Suc left) g us =
      (if available us g ?e
       then (?us\<lparr>us_endpoints := (us_endpoints us)[?e := (us_endpoints us ! ?e)\<lparr>ep_active := ep_active (us_endpoints us ! ?e) + 1\<rparr>]\<rparr>, Some ?e)
       else acquire_loop left g ?us)"
    by (simp add: Let_def e endpoint_try_acquire_def available_def set_cursor_def)
  show ?case
  proof (cases "available us g ?e")
    case True
    then show ?thesis unfolding step by (auto simp: Let_def intro!: exI [of _ 0])
  next
    case False
    have "Suc (gr_cursor ?gr) mod ?n < ?n" using ne by simp
    with Suc.prems Suc.IH [of ?us] have ih: "case acquire_loop left g ?us of
      (us', None) \<Rightarrow> (\<forall>i < left. \<not> available us g (turn g (Suc i) us)) \<and> (\<exists>k < ?n. us' = set_cursor g k us)
    | (us', Some e) \<Rightarrow> \<exists>i < left. e = turn g (Suc i) us \<and> available us g e \<and> (\<forall>j < i. \<not> available us g (turn g (Suc j) us)) \<and>
        (let k = (gr_cursor ?gr + Suc (Suc i)) mod ?n; ep = us_endpoints us ! e in
         us' = (set_cursor g k us)\<lparr>us_endpoints := (us_endpoints us)[e := ep\<lparr>ep_active := ep_active ep + 1\<rparr>]\<rparr>)"
      by (simp add: turn_set_cursor ne suc_mod_shift split: prod.splits option.splits)
    show ?thesis
    proof (cases "acquire_loop left g ?us")
      case (Pair us' r)
      show ?thesis
      proof (cases r)
        case None
        with Pair ih False show ?thesis unfolding step by (auto simp: less_Suc_eq_0_disj)
      next
        case (Some e)
        with Pair ih obtain i where i: "i < left" "e = turn g (Suc i) us" "available us g e"
          "\<forall>j < i. \<not> available us g (turn g (Suc j) us)"
          "let k = (gr_cursor ?gr + Suc (Suc i)) mod ?n; ep = us_endpoints us ! e in
             us' = (set_cursor g k us)\<lparr>us_endpoints := (us_endpoints us)[e := ep\<lparr>ep_active := ep_active ep + 1\<rparr>]\<rparr>"
          by auto
        then have "\<forall>j < Suc i. \<not> available us g (turn g j us)" using False by (auto simp: less_Suc_eq_0_disj)
        with i Pair Some False show ?thesis unfolding step by (auto intro!: exI [of _ "Suc i"])
      qed
    qed
  qed
qed

definition give_lease :: "nat \<Rightarrow> nat \<Rightarrow> nat \<Rightarrow> upstreams \<Rightarrow> upstreams" where
  "give_lease g k e us =
     us\<lparr>us_groups := (us_groups us)[g := (us_groups us ! g)\<lparr>gr_cursor := k, gr_active := gr_active (us_groups us ! g) + 1\<rparr>],
        us_endpoints := (us_endpoints us)[e := (us_endpoints us ! e)\<lparr>ep_active := ep_active (us_endpoints us ! e) + 1\<rparr>],
        us_leases := us_leases us @ [\<lparr>ls_group = g, ls_endpoint = e, ls_released = False\<rparr>]\<rparr>"

lemma turn_surj:
  assumes "gr_cursor (us_groups us ! g) < length (gr_endpoints (us_groups us ! g))" "e \<in> set (gr_endpoints (us_groups us ! g))"
  shows "\<exists>i < length (gr_endpoints (us_groups us ! g)). turn g i us = e"
proof -
  let ?n = "length (gr_endpoints (us_groups us ! g))" and ?c = "gr_cursor (us_groups us ! g)"
  from assms(2) obtain j where j: "j < ?n" "gr_endpoints (us_groups us ! g) ! j = e" by (auto simp: in_set_conv_nth)
  have "(?c + (j + ?n - ?c) mod ?n) mod ?n = (?c + (j + ?n - ?c)) mod ?n" by (simp add: mod_add_right_eq)
  also have "\<dots> = j" using assms(1) j(1) by simp
  finally have "(?c + (j + ?n - ?c) mod ?n) mod ?n = j" .
  moreover have "(j + ?n - ?c) mod ?n < ?n" using j(1) by (intro mod_less_divisor) linarith
  ultimately show ?thesis
    using j by (intro exI [of _ "(j + ?n - ?c) mod ?n"]) (simp add: turn_def)
qed

lemma turn_mem:
  "gr_cursor (us_groups us ! g) < length (gr_endpoints (us_groups us ! g)) \<Longrightarrow> turn g i us \<in> set (gr_endpoints (us_groups us ! g))"
  by (auto simp: turn_def intro!: nth_mem mod_less_divisor)

text \<open>Acquiring: the lease goes to the first available endpoint in cyclic order, and is refused only
  when the group is saturated or none of its endpoints is available.\<close>

lemma group_acquire_eq:
  assumes "upstreams_ok us" "g < length (us_groups us)"
  shows "case group_acquire g us of
      (us', None) \<Rightarrow> (group_saturated g us \<or> (\<forall>e \<in> set (gr_endpoints (us_groups us ! g)). \<not> available us g e)) \<and>
        (\<exists>k < length (gr_endpoints (us_groups us ! g)). us' = set_cursor g k us)
    | (us', Some l) \<Rightarrow> \<not> group_saturated g us \<and> l = length (us_leases us) \<and>
        (\<exists>i < length (gr_endpoints (us_groups us ! g)). available us g (turn g i us) \<and>
          (\<forall>j < i. \<not> available us g (turn g j us)) \<and>
          us' = give_lease g ((gr_cursor (us_groups us ! g) + Suc i) mod length (gr_endpoints (us_groups us ! g))) (turn g i us) us)"
proof -
  let ?gr = "us_groups us ! g" and ?n = "length (gr_endpoints (us_groups us ! g))"
  have c: "gr_cursor ?gr < ?n" using upstreams_okD(1) [OF assms] by (simp add: group_ok_def Let_def)
  show ?thesis
  proof (cases "group_saturated g us")
    case True
    moreover have "set_cursor g (gr_cursor ?gr) us = us" by (simp add: set_cursor_def)
    ultimately show ?thesis using c
      by (auto simp: group_acquire_def group_saturated_def Let_def intro!: exI [of _ "gr_cursor ?gr"])
  next
    case False
    note eq = acquire_loop_eq [OF assms(2) c, of ?n]
    show ?thesis
    proof (cases "acquire_loop ?n g us")
      case (Pair us' r)
      show ?thesis
      proof (cases r)
        case None
        with eq Pair have "\<forall>e \<in> set (gr_endpoints ?gr). \<not> available us g e" "\<exists>k < ?n. us' = set_cursor g k us"
          using turn_surj [OF c] by auto
        with None Pair False show ?thesis
          by (simp add: group_acquire_def group_saturated_def Let_def)
      next
        case (Some e)
        with eq Pair False assms(2) show ?thesis
          by (fastforce simp: group_acquire_def group_saturated_def give_lease_def Let_def set_cursor_def)
      qed
    qed
  qed
qed

lemma filter_length_mono: "(\<And>x. x \<in> set xs \<Longrightarrow> P x \<Longrightarrow> Q x) \<Longrightarrow> length (filter P xs) \<le> length (filter Q xs)"
  by (induction xs) (auto simp: le_SucI)

lemma set_cursor_ok:
  assumes "upstreams_ok us" "g < length (us_groups us)" "k < length (gr_endpoints (us_groups us ! g))"
  shows "upstreams_ok (set_cursor g k us)"
proof (rule upstreams_okI)
  fix g' assume "g' < length (us_groups (set_cursor g k us))"
  then show "group_ok (set_cursor g k us) g'"
    using upstreams_okD(1) [OF assms(1), of g'] assms(2,3)
    by (cases "g' = g") (simp_all add: group_ok_def set_cursor_def Let_def)
qed (use assms(1) in \<open>auto simp: upstreams_ok_def endpoint_ok_def\<close>)

lemma give_lease_ok:
  assumes "upstreams_ok us" "g < length (us_groups us)" "k < length (gr_endpoints (us_groups us ! g))"
    and "\<not> group_saturated g us" "e \<in> set (gr_endpoints (us_groups us ! g))"
  shows "upstreams_ok (give_lease g k e us)"
proof (rule upstreams_okI)
  fix g' assume "g' < length (us_groups (give_lease g k e us))"
  then show "group_ok (give_lease g k e us) g'"
    using upstreams_okD(1) [OF assms(1), of g'] assms(2-4)
    by (cases "g' = g") (simp_all add: group_ok_def give_lease_def group_saturated_def Let_def)
next
  have "e < length (us_endpoints us)"
    using upstreams_okD(1) [OF assms(1,2)] assms(5) by (simp add: group_ok_def Let_def)
  fix e' assume "e' < length (us_endpoints (give_lease g k e us))"
  then show "endpoint_ok (give_lease g k e us) e'"
    using upstreams_okD(2) [OF assms(1), of e']
    by (cases "e' = e") (simp_all add: endpoint_ok_def give_lease_def)
next
  have "e < length (us_endpoints us)"
    using upstreams_okD(1) [OF assms(1,2)] assms(5) by (simp add: group_ok_def Let_def)
  then show "l \<in> set (us_leases (give_lease g k e us)) \<Longrightarrow>
      ls_group l < length (us_groups (give_lease g k e us)) \<and> ls_endpoint l < length (us_endpoints (give_lease g k e us))" for l
    using assms(1,2) by (auto simp: give_lease_def upstreams_ok_def)
qed

lemma group_acquire_ok:
  assumes "upstreams_ok us" "g < length (us_groups us)"
  shows "upstreams_ok (fst (group_acquire g us))"
proof -
  have c: "gr_cursor (us_groups us ! g) < length (gr_endpoints (us_groups us ! g))"
    using upstreams_okD(1) [OF assms] by (simp add: group_ok_def Let_def)
  then have "k mod length (gr_endpoints (us_groups us ! g)) < length (gr_endpoints (us_groups us ! g))" for k
    by (intro mod_less_divisor) linarith
  then show ?thesis
    using group_acquire_eq [OF assms] set_cursor_ok [OF assms] give_lease_ok [OF assms] turn_mem [OF c]
    by (cases "group_acquire g us"; cases "snd (group_acquire g us)") auto
qed

section \<open>Releasing\<close>

lemma release_lease_held:
  assumes "upstreams_ok us" "l < length (us_leases us)" "\<not> ls_released (us_leases us ! l)"
  shows "\<exists>us'. lease_release l failed us = (us', Inr ()) \<and> upstreams_ok us' \<and>
    us_leases us' = (us_leases us)[l := (us_leases us ! l)\<lparr>ls_released := True\<rparr>] \<and>
    length (us_groups us') = length (us_groups us) \<and> length (us_endpoints us') = length (us_endpoints us)"
proof -
  let ?ls = "us_leases us ! l" and ?g = "ls_group (us_leases us ! l)" and ?e = "ls_endpoint (us_leases us ! l)"
  let ?ep = "us_endpoints us ! ?e" and ?gr = "us_groups us ! ?g"
  let ?us = "us\<lparr>us_leases := (us_leases us)[l := ?ls\<lparr>ls_released := True\<rparr>],
      us_endpoints := (us_endpoints us)[?e := ?ep\<lparr>ep_active := ep_active ?ep - 1,
        ep_failures := (if failed then ep_failures ?ep + 1 else ep_failures ?ep)\<rparr>],
      us_groups := (us_groups us)[?g := ?gr\<lparr>gr_active := gr_active ?gr - 1\<rparr>]\<rparr>"
  note ge = upstreams_okD(3) [OF assms(1,2)]
  have h: "held P ?us + (if P ?ls then 1 else 0) = held P us" if "\<And>x. P (x\<lparr>ls_released := True\<rparr>) = P x" for P
    using filter_update [OF assms(2), of "\<lambda>x. \<not> ls_released x \<and> P x" "?ls\<lparr>ls_released := True\<rparr>"] assms(3) that by simp
  have "?ls \<in> set (filter (\<lambda>x. \<not> ls_released x \<and> ls_endpoint x = ?e) (us_leases us))" using assms(2,3) by simp
  then have "held (\<lambda>x. ls_endpoint x = ?e) us > 0" by (metis length_pos_if_in_set)
  then have pos: "0 < ep_active ?ep" using upstreams_okD(2) [OF assms(1)] ge by (simp add: endpoint_ok_def)
  have "lease_release l failed us = (?us, Inr ())"
    using assms(3) pos by (simp add: lease_release_def release_lease_def endpoint_release_def Let_def)
  moreover have "upstreams_ok ?us"
  proof (rule upstreams_okI)
    fix g assume g: "g < length (us_groups ?us)"
    have "held (\<lambda>x. ls_group x = g) ?us + (if ?g = g then 1 else 0) = held (\<lambda>x. ls_group x = g) us" by (rule h) simp
    then show "group_ok ?us g"
      using upstreams_okD(1) [OF assms(1), of g] g
      by (cases "g = ?g") (simp_all add: group_ok_def Let_def)
  next
    fix e assume e: "e < length (us_endpoints ?us)"
    have "held (\<lambda>x. ls_endpoint x = e) ?us + (if ?e = e then 1 else 0) = held (\<lambda>x. ls_endpoint x = e) us" by (rule h) simp
    then show "endpoint_ok ?us e"
      using upstreams_okD(2) [OF assms(1), of e] e
      by (cases "e = ?e") (simp_all add: endpoint_ok_def)
  next
    fix x assume "x \<in> set (us_leases ?us)"
    then have "x \<in> set (us_leases us) \<or> x = ?ls\<lparr>ls_released := True\<rparr>" by (auto dest: set_update_subset_insert [THEN subsetD])
    then show "ls_group x < length (us_groups ?us) \<and> ls_endpoint x < length (us_endpoints ?us)"
      using assms(1) ge by (auto simp: upstreams_ok_def)
  qed
  ultimately show ?thesis by (intro exI [of _ ?us]) simp
qed

lemma release_lease_twice:
  assumes "ls_released (us_leases us ! l)"
  shows "lease_release l failed us = (us, Inl (RuntimeError ''upstream lease released more than once''))"
  using assms by (simp add: lease_release_def release_lease_def Let_def)

section \<open>Resolving\<close>

lemma accept_and_order_keeps:
  "ep_active (fst (accept_and_order_addresses vs qtype ep)) = ep_active ep \<and>
   ep_weight (fst (accept_and_order_addresses vs qtype ep)) = ep_weight ep"
  by (simp add: accept_and_order_addresses_def accept_resolved_def ordered_addresses_def note_address_set_def Let_def
      split: prod.splits sum.splits)

lemma group_accept_and_order_ok:
  assumes "upstreams_ok us"
  shows "upstreams_ok (fst (group_accept_and_order g e vs qtype us))"
proof (cases "e \<in> set (gr_endpoints (us_groups us ! g))")
  case True
  let ?ep = "fst (accept_and_order_addresses vs qtype (us_endpoints us ! e))"
  let ?us = "us\<lparr>us_endpoints := (us_endpoints us)[e := ?ep]\<rparr>"
  have "upstreams_ok ?us"
  proof (rule upstreams_okI)
    fix e' assume "e' < length (us_endpoints ?us)"
    then show "endpoint_ok ?us e'"
      using upstreams_okD(2) [OF assms, of e'] accept_and_order_keeps
      by (cases "e' = e") (simp_all add: endpoint_ok_def)
  qed (use assms in \<open>auto simp: upstreams_ok_def group_ok_def Let_def\<close>)
  with True show ?thesis by (simp add: group_accept_and_order_def case_prod_beta)
qed (use assms in \<open>simp add: group_accept_and_order_def\<close>)

section \<open>Every sequence of calls\<close>

inductive upstreams_reach :: "upstreams \<Rightarrow> bool" where
  start: "us_leases us = [] \<Longrightarrow>
    (\<And>e. e < length (us_endpoints us) \<Longrightarrow> \<exists>host port weight pl. endpoint_new host port weight pl = Inr (us_endpoints us ! e)) \<Longrightarrow>
    (\<And>g. g < length (us_groups us) \<Longrightarrow> \<exists>name eps max_active max_idle.
       group_new name eps max_active max_idle = Inr (us_groups us ! g) \<and> (\<forall>e \<in> set eps. e < length (us_endpoints us))) \<Longrightarrow>
    upstreams_reach us"
| acquire: "upstreams_reach us \<Longrightarrow> g < length (us_groups us) \<Longrightarrow> upstreams_reach (fst (group_acquire g us))"
| release: "upstreams_reach us \<Longrightarrow> l < length (us_leases us) \<Longrightarrow> upstreams_reach (fst (lease_release l failed us))"
| resolve: "upstreams_reach us \<Longrightarrow> upstreams_reach (fst (group_accept_and_order g e vs qtype us))"

lemma upstreams_reach_ok: "upstreams_reach us \<Longrightarrow> upstreams_ok us"
proof (induction rule: upstreams_reach.induct)
  case (start us)
  show ?case
  proof (rule upstreams_okI)
    show "group_ok us g" if "g < length (us_groups us)" for g
      using start(1) start(3) [OF that] by (auto simp: group_ok_def group_new_def Let_def split: if_splits dest!: sym [of _ "us_groups us ! g"])
    show "endpoint_ok us e" if "e < length (us_endpoints us)" for e
      using start(1) start(2) [OF that] by (auto simp: endpoint_ok_def endpoint_new_def split: if_splits dest!: sym [of _ "us_endpoints us ! e"])
  qed (use start(1) in simp)
next
  case (release us l failed)
  then show ?case
    using release_lease_held [of us l failed] release_lease_twice [of us l failed]
    by (cases "ls_released (us_leases us ! l)") auto
qed (simp_all add: group_acquire_ok group_accept_and_order_ok)

definition sample_endpoint :: "int \<Rightarrow> endpoint" where
  "sample_endpoint w = \<lparr>ep_host = cp ''a'', ep_port = 80, ep_weight = w, ep_active = 0, ep_failures = 0,
     ep_address_cursor = 0, ep_last_address_set = [],
     ep_dns_policy = \<lparr>pl_allow_private = False, pl_allow_loopback = False, pl_allow_link_local = False,
       pl_allow_multicast = False, pl_allow_unspecified = False, pl_rebind_mode = ''pin'', pl_bindings = Map.empty\<rparr>\<rparr>"

definition sample_group :: group where
  "sample_group = \<lparr>gr_name = cp ''g'', gr_endpoints = [0, 1], gr_max_active = 2, gr_max_idle = 1, gr_active = 0, gr_cursor = 0\<rparr>"

definition sample_upstreams :: upstreams where
  "sample_upstreams = \<lparr>us_endpoints = [sample_endpoint 5, sample_endpoint 1], us_groups = [sample_group], us_leases = []\<rparr>"

lemma sample_upstreams_reach: "upstreams_reach sample_upstreams"
proof (rule upstreams_reach.start)
  show "\<exists>host port weight pl. endpoint_new host port weight pl = Inr (us_endpoints sample_upstreams ! e)"
    if "e < length (us_endpoints sample_upstreams)" for e
  proof -
    have "endpoint_new (cp ''a'') 80 w (ep_dns_policy (sample_endpoint w)) = Inr (sample_endpoint w)" if "0 < w" for w
      using that by (simp add: endpoint_new_def sample_endpoint_def)
    moreover have "us_endpoints sample_upstreams ! e = sample_endpoint 5 \<or> us_endpoints sample_upstreams ! e = sample_endpoint 1"
      using that by (auto simp: sample_upstreams_def less_Suc_eq)
    ultimately show ?thesis by (metis zero_less_numeral zero_less_one)
  qed
  show "\<exists>name eps max_active max_idle. group_new name eps max_active max_idle = Inr (us_groups sample_upstreams ! g) \<and>
      (\<forall>e \<in> set eps. e < length (us_endpoints sample_upstreams))" if "g < length (us_groups sample_upstreams)" for g
    using that by (intro exI [of _ "cp ''g''"] exI [of _ "[0, 1]"] exI [of _ 2] exI [of _ 1])
      (simp add: group_new_def sample_upstreams_def sample_group_def)
qed (simp add: sample_upstreams_def)

section \<open>Properties\<close>

text \<open>C25 Lease accounting: whatever groups share which endpoints and in whatever order leases are
  acquired, released and addresses resolved, every group counts exactly its unreleased leases and
  stays within \<open>max_active\<close>, every endpoint counts exactly the unreleased leases on it, a release of
  a held lease succeeds and gives its capacity back, and a second release raises without effect.\<close>

theorem upstream_leases_accounted:
  assumes "upstreams_reach us"
  shows "(\<forall>g < length (us_groups us). gr_active (us_groups us ! g) = int (held (\<lambda>l. ls_group l = g) us) \<and>
        gr_active (us_groups us ! g) \<le> gr_max_active (us_groups us ! g)) \<and>
    (\<forall>e < length (us_endpoints us). ep_active (us_endpoints us ! e) = int (held (\<lambda>l. ls_endpoint l = e) us)) \<and>
    (\<forall>l < length (us_leases us).
      if ls_released (us_leases us ! l)
      then lease_release l failed us = (us, Inl (RuntimeError ''upstream lease released more than once''))
      else \<exists>us'. lease_release l failed us = (us', Inr ()) \<and>
        us_leases us' = (us_leases us)[l := (us_leases us ! l)\<lparr>ls_released := True\<rparr>])"
proof -
  note ok = upstreams_reach_ok [OF assms]
  have "gr_active (us_groups us ! g) = int (held (\<lambda>l. ls_group l = g) us) \<and>
      gr_active (us_groups us ! g) \<le> gr_max_active (us_groups us ! g)" if "g < length (us_groups us)" for g
    using upstreams_okD(1) [OF ok that] by (simp add: group_ok_def Let_def)
  moreover have "ep_active (us_endpoints us ! e) = int (held (\<lambda>l. ls_endpoint l = e) us)" if "e < length (us_endpoints us)" for e
    using upstreams_okD(2) [OF ok that] by (simp add: endpoint_ok_def)
  ultimately show ?thesis
    using release_lease_held [OF ok] release_lease_twice by (metis (no_types, lifting))
qed

theorem upstream_leases_accounted_witness:
  "gr_active (us_groups (fst (group_acquire 0 sample_upstreams)) ! 0) =
     int (held (\<lambda>l. ls_group l = 0) (fst (group_acquire 0 sample_upstreams))) \<and>
   held (\<lambda>l. ls_group l = 0) (fst (group_acquire 0 sample_upstreams)) = 1"
proof -
  have "upstreams_reach (fst (group_acquire 0 sample_upstreams))"
    by (rule upstreams_reach.acquire [OF sample_upstreams_reach]) (simp add: sample_upstreams_def)
  from upstream_leases_accounted [OF this] show ?thesis
    by (simp add: sample_upstreams_def sample_group_def sample_endpoint_def group_acquire_def endpoint_try_acquire_def
        numeral_2_eq_2)
qed

text \<open>Selection: while the leases on its endpoints are all its own, a group refuses exactly when
  it is saturated, and otherwise leases the endpoint at the cursor and moves the cursor by one.  The
  endpoints are taken in strict rotation: their weights have no influence.\<close>

theorem group_acquire_rotates:
  assumes "upstreams_reach us" "g < length (us_groups us)"
    and "\<forall>l \<in> set (us_leases us). \<not> ls_released l \<and> ls_endpoint l \<in> set (gr_endpoints (us_groups us ! g)) \<longrightarrow> ls_group l = g"
  shows "case group_acquire g us of
      (us', None) \<Rightarrow> group_saturated g us \<and> us' = us
    | (us', Some l) \<Rightarrow> \<not> group_saturated g us \<and> l = length (us_leases us) \<and>
        ls_endpoint (us_leases us' ! l) = gr_endpoints (us_groups us ! g) ! gr_cursor (us_groups us ! g) \<and>
        gr_cursor (us_groups us' ! g) = Suc (gr_cursor (us_groups us ! g)) mod length (gr_endpoints (us_groups us ! g))"
proof -
  let ?gr = "us_groups us ! g"
  note ok = upstreams_reach_ok [OF assms(1)]
  note gok = upstreams_okD(1) [OF ok assms(2), unfolded group_ok_def Let_def]
  have av: "available us g e" if "e \<in> set (gr_endpoints ?gr)" for e
  proof -
    have "held (\<lambda>l. ls_endpoint l = e) us \<le> held (\<lambda>l. ls_group l = g) us"
      using assms(3) that by (intro filter_length_mono) auto
    moreover have "endpoint_ok us e" using gok that upstreams_okD(2) [OF ok] by blast
    ultimately show ?thesis using gok by (simp add: available_def endpoint_ok_def)
  qed
  have ne: "0 < length (gr_endpoints ?gr)" using gok by simp
  have t0: "turn g 0 us = gr_endpoints ?gr ! gr_cursor ?gr" using gok by (simp add: turn_def)
  have av0: "available us g (turn g 0 us)" using av gok turn_mem by blast
  obtain us' r where r: "group_acquire g us = (us', r)" by (cases "group_acquire g us")
  show ?thesis
  proof (cases r)
    case None
    then have sat: "group_saturated g us" using group_acquire_eq [OF ok assms(2)] r av gok by (auto simp del: set_empty)
    then have "group_acquire g us = (us, None)" by (simp add: group_acquire_def group_saturated_def)
    with sat r None show ?thesis by simp
  next
    case (Some l)
    then obtain i where i: "\<not> group_saturated g us" "l = length (us_leases us)" "\<forall>j < i. \<not> available us g (turn g j us)"
        "us' = give_lease g ((gr_cursor ?gr + Suc i) mod length (gr_endpoints ?gr)) (turn g i us) us"
      using group_acquire_eq [OF ok assms(2)] r by auto
    then have "i = 0" using av0 by blast
    with i r Some t0 assms(2) show ?thesis by (simp add: give_lease_def)
  qed
qed

theorem group_acquire_rotates_witness:
  "\<exists>us'. group_acquire 0 sample_upstreams = (us', Some 0) \<and> gr_cursor (us_groups us' ! 0) = 1"
proof -
  have "snd (group_acquire 0 sample_upstreams) = Some 0"
    by (simp add: sample_upstreams_def sample_group_def sample_endpoint_def group_acquire_def endpoint_try_acquire_def
        numeral_2_eq_2)
  then obtain us' where us': "group_acquire 0 sample_upstreams = (us', Some 0)"
    by (metis prod.collapse)
  have "case group_acquire 0 sample_upstreams of
      (us', None) \<Rightarrow> group_saturated 0 sample_upstreams \<and> us' = sample_upstreams
    | (us', Some l) \<Rightarrow> \<not> group_saturated 0 sample_upstreams \<and> l = length (us_leases sample_upstreams) \<and>
        ls_endpoint (us_leases us' ! l) = gr_endpoints (us_groups sample_upstreams ! 0) ! gr_cursor (us_groups sample_upstreams ! 0) \<and>
        gr_cursor (us_groups us' ! 0) = Suc (gr_cursor (us_groups sample_upstreams ! 0)) mod length (gr_endpoints (us_groups sample_upstreams ! 0))"
    by (rule group_acquire_rotates [OF sample_upstreams_reach]) (simp_all add: sample_upstreams_def)
  with us' have "gr_cursor (us_groups us' ! 0) = 1"
    by (simp add: sample_upstreams_def sample_group_def)
  with us' show ?thesis by blast
qed

end
