(* ===== verification/Proxy_Pool.thy ===== *)
theory Proxy_Pool
  imports Proxy_Leases "HOL-Library.Multiset"
begin

text \<open>
  Model of \<open>PooledUpstreamConnection\<close> and \<open>UpstreamConnectionPool\<close> in \<open>pcc_gateway/proxy_http1.py\<close>.

  Connections are shared objects, so they live in a store and are named by their address.  The close
  callback is a parameter that may raise; the handles given to it are logged.  What a call does under
  the pool lock is one step; the callback runs outside the lock on local values only.
\<close>

section \<open>State\<close>

record pooled =
  pc_handle :: int
  pc_lease :: nat
  pc_created_ms :: int
  pc_last_used_ms :: int
  pc_connected :: bool
  pc_released :: bool

definition pooled_new :: "int \<Rightarrow> nat \<Rightarrow> int \<Rightarrow> pooled" where
  "pooled_new handle l created_ms = \<lparr>pc_handle = handle, pc_lease = l, pc_created_ms = created_ms,
     pc_last_used_ms = created_ms, pc_connected = False, pc_released = False\<rparr>"

definition needs_open :: "pooled \<Rightarrow> bool" where
  "needs_open c \<longleftrightarrow> pc_handle c < 0"

type_synonym close_callback = "int \<Rightarrow> exn option"

record pool =
  po_group :: nat
  po_idle_timeout_ms :: int
  po_idle :: "nat list"
  po_close_connection :: "close_callback option"
  po_conns :: "pooled list"       \<comment> \<open>the store of connections\<close>
  po_upstreams :: upstreams       \<comment> \<open>the store of groups, endpoints and leases\<close>
  po_closed :: "int list"         \<comment> \<open>handles the callback was called with\<close>

abbreviation conn :: "pool \<Rightarrow> nat \<Rightarrow> pooled" where
  "conn p c \<equiv> po_conns p ! c"

definition set_conn :: "nat \<Rightarrow> pooled \<Rightarrow> pool \<Rightarrow> pool" where
  "set_conn c k p = p\<lparr>po_conns := (po_conns p)[c := k]\<rparr>"

definition pool_new :: "nat \<Rightarrow> int \<Rightarrow> close_callback option \<Rightarrow> upstreams \<Rightarrow> pool result" where
  "pool_new g idle_timeout_ms close_connection us =
     (if idle_timeout_ms \<le> 0 then Inl (ValueError ''upstream idle timeout must be positive'')
      else Inr \<lparr>po_group = g, po_idle_timeout_ms = idle_timeout_ms, po_idle = [], po_close_connection = close_connection,
                po_conns = [], po_upstreams = us, po_closed = []\<rparr>)"

definition pool_accept_and_order :: "nat \<Rightarrow> pystr list \<Rightarrow> int \<Rightarrow> pool \<Rightarrow> pool \<times> pystr list result" where
  "pool_accept_and_order e vs qtype p =
     (case group_accept_and_order (po_group p) e vs qtype (po_upstreams p) of (us, r) \<Rightarrow> (p\<lparr>po_upstreams := us\<rparr>, r))"

definition pool_saturated :: "pool \<Rightarrow> bool" where
  "pool_saturated p = group_saturated (po_group p) (po_upstreams p)"

section \<open>Closing\<close>

definition close_locked :: "nat \<Rightarrow> bool \<Rightarrow> pool \<Rightarrow> pool \<times> int result" where
  "close_locked c failed p =
     (if pc_released (conn p c) then (p, Inr (-1))
      else (let p1 = set_conn c ((conn p c)\<lparr>pc_released := True\<rparr>) p in
        case lease_release (pc_lease (conn p c)) failed (po_upstreams p1) of
          (us, Inl e) \<Rightarrow> (p1\<lparr>po_upstreams := us\<rparr>, Inl e)
        | (us, Inr _) \<Rightarrow> (p1\<lparr>po_upstreams := us\<rparr>, Inr (pc_handle (conn p c)))))"

definition close_handle :: "int \<Rightarrow> pool \<Rightarrow> pool \<times> unit result" where
  "close_handle handle p =
     (case po_close_connection p of
       None \<Rightarrow> (p, Inr ())
     | Some f \<Rightarrow>
         if handle \<ge> 0
         then (p\<lparr>po_closed := po_closed p @ [handle]\<rparr>, case f handle of None \<Rightarrow> Inr () | Some e \<Rightarrow> Inl e)
         else (p, Inr ()))"

definition pool_close :: "nat \<Rightarrow> bool \<Rightarrow> pool \<Rightarrow> pool \<times> unit result" where
  "pool_close c failed p =
     (case close_locked c failed p of
       (p1, Inl e) \<Rightarrow> (p1, Inl e)
     | (p1, Inr handle) \<Rightarrow> close_handle handle p1)"

section \<open>Reserving and opening\<close>

lemma close_locked_idle [simp]: "po_idle (fst (close_locked c failed p)) = po_idle p"
  by (simp add: close_locked_def set_conn_def Let_def split: prod.splits sum.splits)

lemma close_handle_idle [simp]: "po_idle (fst (close_handle handle p)) = po_idle p"
  by (simp add: close_handle_def split: option.splits)

function reserve :: "int \<Rightarrow> pool \<Rightarrow> pool \<times> nat option result" where
  "reserve now_ms p =
     (if po_idle p \<noteq> [] then
        let c = last (po_idle p); p1 = p\<lparr>po_idle := butlast (po_idle p)\<rparr> in
        if \<not> pc_released (conn p c) \<and> now_ms - pc_last_used_ms (conn p c) < po_idle_timeout_ms p
        then (p1, Inr (Some c))
        else (let r = close_locked c False p1 in
          case snd r of
            Inl e \<Rightarrow> (fst r, Inl e)
          | Inr expired_handle \<Rightarrow>
              let q = close_handle expired_handle (fst r) in
              case snd q of
                Inl e \<Rightarrow> (fst q, Inl e)
              | Inr _ \<Rightarrow> reserve now_ms (fst q))
      else (case group_acquire (po_group p) (po_upstreams p) of
          (us, None) \<Rightarrow> (p\<lparr>po_upstreams := us\<rparr>, Inr None)
        | (us, Some l) \<Rightarrow>
            (p\<lparr>po_upstreams := us, po_conns := po_conns p @ [pooled_new (-1) l now_ms]\<rparr>, Inr (Some (length (po_conns p))))))"
  by pat_completeness auto
termination
  by (relation "measure (\<lambda>(now, p). length (po_idle p))") (auto simp: Let_def)

declare reserve.simps [simp del]

definition opened :: "nat \<Rightarrow> int \<Rightarrow> pool \<Rightarrow> pool \<times> nat option result" where
  "opened c handle p =
     (if handle < 0
      then (case pool_close c True p of (p1, Inl e) \<Rightarrow> (p1, Inl e) | (p1, Inr _) \<Rightarrow> (p1, Inr None))
      else if pc_released (conn p c) \<or> pc_handle (conn p c) \<ge> 0
      then (case close_handle handle p of
          (p1, Inl e) \<Rightarrow> (p1, Inl e)
        | (p1, Inr _) \<Rightarrow> (p1, Inl (RuntimeError ''upstream reservation is not openable'')))
      else (set_conn c ((conn p c)\<lparr>pc_handle := handle\<rparr>) p, Inr (Some c)))"

text \<open>\<open>open_connection\<close> is a parameter that is called with the endpoint.\<close>

definition pool_acquire :: "int \<Rightarrow> (nat \<Rightarrow> int result) \<Rightarrow> pool \<Rightarrow> pool \<times> nat option result" where
  "pool_acquire now_ms open_connection p0 =
     (case reserve now_ms p0 of
       (p, Inl e) \<Rightarrow> (p, Inl e)
     | (p, Inr None) \<Rightarrow> (p, Inr None)
     | (p, Inr (Some c)) \<Rightarrow>
         if \<not> needs_open (conn p c) then (p, Inr (Some c))
         else (case open_connection (ls_endpoint (us_leases (po_upstreams p) ! pc_lease (conn p c))) of
           Inl e \<Rightarrow> (case pool_close c True p of (p1, Inl e') \<Rightarrow> (p1, Inl e') | (p1, Inr _) \<Rightarrow> (p1, Inl e))
         | Inr handle \<Rightarrow> opened c handle p))"

section \<open>Releasing\<close>

definition pool_release :: "nat \<Rightarrow> int \<Rightarrow> bool \<Rightarrow> pool \<Rightarrow> pool \<times> bool result" where
  "pool_release c now_ms reusable p =
     (if pc_released (conn p c) then (p, Inl (RuntimeError ''upstream connection released more than once''))
      else (let p1 = set_conn c ((conn p c)\<lparr>pc_last_used_ms := now_ms\<rparr>) p in
        if pc_handle (conn p c) \<ge> 0 \<and> reusable \<and>
           int (length (po_idle p)) < gr_max_idle (us_groups (po_upstreams p) ! po_group p)
        then (p1\<lparr>po_idle := po_idle p @ [c]\<rparr>, Inr True)
        else (case close_locked c (\<not> reusable) p1 of
            (p2, Inl e) \<Rightarrow> (p2, Inl e)
          | (p2, Inr handle) \<Rightarrow>
              (case close_handle handle p2 of (p3, Inl e) \<Rightarrow> (p3, Inl e) | (p3, Inr _) \<Rightarrow> (p3, Inr False)))))"

text \<open>The locked loop of \<open>close_idle\<close>: the handles to close.\<close>

fun close_idle_locked :: "nat list \<Rightarrow> pool \<Rightarrow> pool \<times> int list result" where
  "close_idle_locked [] p = (p, Inr [])"
| "close_idle_locked (c # cs) p =
     (if pc_released (conn p c) then close_idle_locked cs p
      else (let r = close_locked c False p in
        case snd r of
          Inl e \<Rightarrow> (fst r, Inl e)
        | Inr handle \<Rightarrow>
            let q = close_idle_locked cs (fst r) in
            (fst q, case snd q of Inl e \<Rightarrow> Inl e | Inr hs \<Rightarrow> Inr (handle # hs))))"

text \<open>Every handle is closed; whether some callback failed.\<close>

fun close_all :: "int list \<Rightarrow> pool \<Rightarrow> pool \<times> bool" where
  "close_all [] p = (p, False)"
| "close_all (h # hs) p =
     (let r = close_handle h p; q = close_all hs (fst r) in (fst q, isl (snd r) \<or> snd q))"

definition close_idle :: "pool \<Rightarrow> pool \<times> int result" where
  "close_idle p =
     (let r = close_idle_locked (po_idle p) (p\<lparr>po_idle := []\<rparr>) in
      case snd r of
        Inl e \<Rightarrow> (fst r, Inl e)
      | Inr handles \<Rightarrow>
          let q = close_all handles (fst r) in
          (fst q, if snd q then Inl (RuntimeError ''upstream idle close callback failed'') else Inr (int (length handles))))"

end
