(* ===== verification/Pool_Props.thy ===== *)
theory Pool_Props
  imports Proxy_Pool
begin

text \<open>
  Ownership in the connection pool: every connection that is neither idle nor closed is held by
  exactly one caller, every connection that is not closed has its own unreleased lease, and every
  handle the pool was given is closed exactly once or still belongs to such a connection.
\<close>

section \<open>Invariant\<close>

definition pool_ok :: "pool \<Rightarrow> bool" where
  "pool_ok p \<longleftrightarrow> upstreams_ok (po_upstreams p) \<and> po_group p < length (us_groups (po_upstreams p)) \<and>
     distinct (po_idle p) \<and>
     (\<forall>c \<in> set (po_idle p). c < length (po_conns p) \<and> \<not> pc_released (conn p c) \<and> 0 \<le> pc_handle (conn p c)) \<and>
     int (length (po_idle p)) \<le> max 0 (gr_max_idle (us_groups (po_upstreams p) ! po_group p)) \<and>
     (\<forall>c < length (po_conns p). pc_lease (conn p c) < length (us_leases (po_upstreams p)) \<and>
        ls_group (us_leases (po_upstreams p) ! pc_lease (conn p c)) = po_group p \<and>
        (\<not> pc_released (conn p c) \<longrightarrow> \<not> ls_released (us_leases (po_upstreams p) ! pc_lease (conn p c)))) \<and>
     distinct (map pc_lease (po_conns p))"

text \<open>A connection in the hands of a caller.\<close>

definition held_conn :: "pool \<Rightarrow> nat \<Rightarrow> bool" where
  "held_conn p c \<longleftrightarrow> c < length (po_conns p) \<and> \<not> pc_released (conn p c) \<and> c \<notin> set (po_idle p)"

definition owned :: "pooled \<Rightarrow> int multiset" where
  "owned k = (if \<not> pc_released k \<and> 0 \<le> pc_handle k then {#pc_handle k#} else {#})"

text \<open>All handles the pool answers for: closed ones and those of open connections.\<close>

definition all_handles :: "pool \<Rightarrow> int multiset" where
  "all_handles p = mset (po_closed p) + sum_list (map owned (po_conns p))"

lemma sum_list_update:
  "i < length xs \<Longrightarrow> sum_list (map f (xs[i := y])) + f (xs ! i) = sum_list (map f xs) + (f y :: int multiset)"
proof (induction xs arbitrary: i)
  case (Cons x xs)
  then show ?case by (cases i) (auto simp: ac_simps)
qed simp

definition same_env :: "pool \<Rightarrow> pool \<Rightarrow> bool" where
  "same_env p q \<longleftrightarrow> po_close_connection q = po_close_connection p \<and> po_group q = po_group p \<and>
     po_idle_timeout_ms q = po_idle_timeout_ms p"

lemma same_env_refl: "same_env p p"
  by (simp add: same_env_def)

lemma same_env_trans: "same_env p q \<Longrightarrow> same_env q r \<Longrightarrow> same_env p r"
  by (simp add: same_env_def)

section \<open>Closing\<close>

lemma lease_release_max_idle:
  "gr_max_idle (us_groups (fst (lease_release l failed us)) ! g) = gr_max_idle (us_groups us ! g)"
  by (cases "ls_group (us_leases us ! l) = g"; cases "g < length (us_groups us)")
    (auto simp: lease_release_def release_lease_def endpoint_release_def Let_def list_update_beyond)

lemma close_locked_ok:
  assumes "pool_ok p" "held_conn p c"
  shows "\<exists>p1. close_locked c failed p = (p1, Inr (pc_handle (conn p c))) \<and> pool_ok p1 \<and> same_env p p1 \<and>
    po_idle p1 = po_idle p \<and> po_closed p1 = po_closed p \<and> po_conns p1 = (po_conns p)[c := (conn p c)\<lparr>pc_released := True\<rparr>] \<and>
    all_handles p = all_handles p1 + (if 0 \<le> pc_handle (conn p c) then {#pc_handle (conn p c)#} else {#})"
proof -
  let ?us = "po_upstreams p" and ?l = "pc_lease (conn p c)"
  have c: "c < length (po_conns p)" "\<not> pc_released (conn p c)" "c \<notin> set (po_idle p)" using assms(2) by (simp_all add: held_conn_def)
  have l: "?l < length (us_leases ?us)" "\<not> ls_released (us_leases ?us ! ?l)" and ok: "upstreams_ok ?us"
    using assms(1) c by (auto simp: pool_ok_def)
  from release_lease_held [OF ok l, of failed] obtain us' where
    us': "lease_release ?l failed ?us = (us', Inr ())" "upstreams_ok us'"
      "us_leases us' = (us_leases ?us)[?l := (us_leases ?us ! ?l)\<lparr>ls_released := True\<rparr>]"
      "length (us_groups us') = length (us_groups ?us)" by blast
  have mi: "gr_max_idle (us_groups us' ! g) = gr_max_idle (us_groups ?us ! g)" for g
    using lease_release_max_idle [of ?l failed ?us g] us'(1) by simp
  let ?k = "(conn p c)\<lparr>pc_released := True\<rparr>"
  let ?p = "(set_conn c ?k p)\<lparr>po_upstreams := us'\<rparr>"
  have 1: "close_locked c failed p = (?p, Inr (pc_handle (conn p c)))"
    using c us'(1) by (simp add: close_locked_def set_conn_def Let_def)
  have leases: "map pc_lease ((po_conns p)[c := ?k]) = map pc_lease (po_conns p)"
    using c(1) by (simp add: map_update list_update_same_conv)
  have nl: "pc_lease (conn p d) \<noteq> ?l" if "d < length (po_conns p)" "d \<noteq> c" for d
    using assms(1) that c(1) nth_eq_iff_index_eq [of "map pc_lease (po_conns p)" d c] by (auto simp: pool_ok_def)
  have 2: "pool_ok ?p"
    unfolding pool_ok_def
  proof (intro conjI)
    show "\<forall>d \<in> set (po_idle ?p). d < length (po_conns ?p) \<and> \<not> pc_released (conn ?p d) \<and> 0 \<le> pc_handle (conn ?p d)"
      using assms(1) c by (auto simp: pool_ok_def set_conn_def nth_list_update)
    have "pc_lease (conn ?p d) < length (us_leases (po_upstreams ?p)) \<and>
        ls_group (us_leases (po_upstreams ?p) ! pc_lease (conn ?p d)) = po_group ?p \<and>
        (\<not> pc_released (conn ?p d) \<longrightarrow> \<not> ls_released (us_leases (po_upstreams ?p) ! pc_lease (conn ?p d)))"
      if d: "d < length (po_conns p)" for d
    proof (cases "d = c")
      case True
      with us'(3) c(1) l(1) assms(1) show ?thesis by (simp add: pool_ok_def set_conn_def)
    next
      case False
      with assms(1) us'(3) nl [OF d] d show ?thesis by (simp add: pool_ok_def set_conn_def)
    qed
    then show "\<forall>d < length (po_conns ?p). pc_lease (conn ?p d) < length (us_leases (po_upstreams ?p)) \<and>
        ls_group (us_leases (po_upstreams ?p) ! pc_lease (conn ?p d)) = po_group ?p \<and>
        (\<not> pc_released (conn ?p d) \<longrightarrow> \<not> ls_released (us_leases (po_upstreams ?p) ! pc_lease (conn ?p d)))"
      by (simp add: set_conn_def)
    show "distinct (map pc_lease (po_conns ?p))"
      using assms(1) leases by (simp add: pool_ok_def set_conn_def)
  qed (use assms(1) us'(2,4) mi in \<open>simp_all add: pool_ok_def set_conn_def\<close>)
  have "sum_list (map owned ((po_conns p)[c := ?k])) + owned (conn p c) = sum_list (map owned (po_conns p)) + owned ?k"
    by (rule sum_list_update [OF c(1)])
  then have 3: "all_handles p = all_handles ?p + (if 0 \<le> pc_handle (conn p c) then {#pc_handle (conn p c)#} else {#})"
    using c(2) by (simp add: all_handles_def set_conn_def owned_def)
  from 1 2 3 show ?thesis
    by (intro exI [of _ ?p]) (simp add: same_env_def set_conn_def)
qed

lemma close_handle_ok:
  assumes "pool_ok p" "po_close_connection p = Some f"
  shows "pool_ok (fst (close_handle h p)) \<and> same_env p (fst (close_handle h p)) \<and> po_conns (fst (close_handle h p)) = po_conns p \<and>
    all_handles (fst (close_handle h p)) = all_handles p + (if 0 \<le> h then {#h#} else {#})"
  using assms by (simp add: close_handle_def pool_ok_def same_env_def all_handles_def)

lemma pool_close_ok:
  assumes "pool_ok p" "held_conn p c" "po_close_connection p = Some f"
  shows "pool_ok (fst (pool_close c failed p)) \<and> same_env p (fst (pool_close c failed p)) \<and>
    all_handles (fst (pool_close c failed p)) = all_handles p"
proof -
  from close_locked_ok [OF assms(1,2), of failed] obtain p1 where
    p1: "close_locked c failed p = (p1, Inr (pc_handle (conn p c)))" "pool_ok p1" "same_env p p1"
      "all_handles p = all_handles p1 + (if 0 \<le> pc_handle (conn p c) then {#pc_handle (conn p c)#} else {#})" by blast
  then have "po_close_connection p1 = Some f" using assms(3) by (simp add: same_env_def)
  from close_handle_ok [OF p1(2) this, of "pc_handle (conn p c)"] p1 show ?thesis
    by (auto simp: pool_close_def intro: same_env_trans)
qed

section \<open>Reserving\<close>

text \<open>What a call may leave behind: a pool in order that answers for the same handles.\<close>

definition pool_step :: "int multiset \<Rightarrow> pool \<Rightarrow> pool \<Rightarrow> bool" where
  "pool_step given p q \<longleftrightarrow> pool_ok q \<and> same_env p q \<and> all_handles q = all_handles p + given"

lemma pool_step_refl: "pool_ok p \<Longrightarrow> pool_step {#} p p"
  by (simp add: pool_step_def same_env_refl)

lemma pool_step_trans: "pool_step m p q \<Longrightarrow> pool_step {#} q r \<Longrightarrow> pool_step m p r"
  by (auto simp: pool_step_def intro: same_env_trans)

lemma pool_step_trans': "pool_step {#} p q \<Longrightarrow> pool_step m q r \<Longrightarrow> pool_step m p r"
  by (auto simp: pool_step_def intro: same_env_trans)

lemma pop_idle_ok:
  assumes "pool_ok p" "po_idle p \<noteq> []"
  defines "q \<equiv> p\<lparr>po_idle := butlast (po_idle p)\<rparr>"
  shows "pool_step {#} p q \<and> held_conn q (last (po_idle p)) \<and> 0 \<le> pc_handle (conn q (last (po_idle p)))"
proof -
  have d: "distinct (butlast (po_idle p) @ [last (po_idle p)])" using assms(1,2) by (simp add: pool_ok_def)
  have m: "last (po_idle p) \<in> set (po_idle p)" using assms(2) by simp
  have sub: "set (butlast (po_idle p)) \<subseteq> set (po_idle p)" by (auto dest: in_set_butlastD)
  have "pool_ok q"
    using assms(1) d sub by (auto simp: pool_ok_def q_def)
  moreover have "held_conn q (last (po_idle p))" "0 \<le> pc_handle (conn q (last (po_idle p)))"
    using assms(1) m d by (auto simp: pool_ok_def q_def held_conn_def)
  ultimately show ?thesis by (simp add: pool_step_def same_env_def all_handles_def q_def)
qed

lemma group_acquire_keeps:
  assumes "upstreams_ok us" "g < length (us_groups us)"
  shows "case group_acquire g us of (us', r) \<Rightarrow>
    upstreams_ok us' \<and> length (us_groups us') = length (us_groups us) \<and> gr_max_idle (us_groups us' ! g) = gr_max_idle (us_groups us ! g) \<and>
    (case r of None \<Rightarrow> us_leases us' = us_leases us
     | Some l \<Rightarrow> l = length (us_leases us) \<and> (\<exists>e. us_leases us' = us_leases us @ [\<lparr>ls_group = g, ls_endpoint = e, ls_released = False\<rparr>]))"
proof -
  obtain us' r where a: "group_acquire g us = (us', r)" by (cases "group_acquire g us")
  have "upstreams_ok us'" using group_acquire_ok [OF assms] a by simp
  with group_acquire_eq [OF assms] a assms(2) show ?thesis
    by (cases r) (auto simp: give_lease_def set_cursor_def)
qed

lemma reserve_expired:
  assumes "po_idle p \<noteq> []" "\<not> (\<not> pc_released (conn p (last (po_idle p))) \<and> now - pc_last_used_ms (conn p (last (po_idle p))) < po_idle_timeout_ms p)"
    and "close_locked (last (po_idle p)) False (p\<lparr>po_idle := butlast (po_idle p)\<rparr>) = (p1, Inr h)"
  shows "reserve now p = (case snd (close_handle h p1) of Inl e \<Rightarrow> (fst (close_handle h p1), Inl e)
    | Inr _ \<Rightarrow> reserve now (fst (close_handle h p1)))"
  unfolding reserve.simps [of now p] Let_def if_not_P [OF assms(2)] assms(3) fst_conv snd_conv using assms(1) by simp

lemma reserve_ok:
  "pool_ok p \<Longrightarrow> po_close_connection p = Some f \<Longrightarrow> reserve now p = (q, r) \<Longrightarrow>
   pool_step {#} p q \<and> (\<forall>c. r = Inr (Some c) \<longrightarrow> held_conn q c \<and>
     (pc_handle (conn q c) < 0 \<or> now - pc_last_used_ms (conn q c) < po_idle_timeout_ms q))"
proof (induction "length (po_idle p)" arbitrary: p rule: less_induct)
  case less
  show ?case
  proof (cases "po_idle p = []")
    case True
    have us: "upstreams_ok (po_upstreams p)" "po_group p < length (us_groups (po_upstreams p))" using less.prems(1) by (simp_all add: pool_ok_def)
    obtain us' l where a: "group_acquire (po_group p) (po_upstreams p) = (us', l)" by (cases "group_acquire (po_group p) (po_upstreams p)")
    note k = group_acquire_keeps [OF us, unfolded a, simplified]
    show ?thesis
    proof (cases l)
      case None
      with True a less.prems(3) have "q = p\<lparr>po_upstreams := us'\<rparr>" "r = Inr None" by (simp_all add: reserve.simps)
      with k None less.prems(1) show ?thesis by (simp add: pool_step_def pool_ok_def same_env_def all_handles_def)
    next
      case (Some n)
      then obtain e where e: "n = length (us_leases (po_upstreams p))"
          "us_leases us' = us_leases (po_upstreams p) @ [\<lparr>ls_group = po_group p, ls_endpoint = e, ls_released = False\<rparr>]"
        using k by auto
      from Some True a less.prems(3) have q: "q = p\<lparr>po_upstreams := us', po_conns := po_conns p @ [pooled_new (-1) n now]\<rparr>"
        "r = Inr (Some (length (po_conns p)))" by (simp_all add: reserve.simps)
      have "n \<notin> set (map pc_lease (po_conns p))" using less.prems(1) e(1) by (auto simp: pool_ok_def in_set_conv_nth)
      then have "pool_ok q"
        using less.prems(1) k e q(1) True
        by (auto simp: pool_ok_def pooled_new_def nth_append less_Suc_eq)
      with q True show ?thesis
        by (simp add: pool_step_def same_env_def all_handles_def held_conn_def owned_def pooled_new_def)
    qed
  next
    case False
    let ?c = "last (po_idle p)" and ?p = "p\<lparr>po_idle := butlast (po_idle p)\<rparr>"
    note pop = pop_idle_ok [OF less.prems(1) False]
    show ?thesis
    proof (cases "\<not> pc_released (conn p ?c) \<and> now - pc_last_used_ms (conn p ?c) < po_idle_timeout_ms p")
      case True
      with False less.prems(3) have "q = ?p" "r = Inr (Some ?c)" by (simp_all add: reserve.simps [of now p] Let_def)
      with pop True show ?thesis by simp
    next
      case exp: False
      from pop have okp: "pool_ok ?p" by (simp add: pool_step_def)
      from close_locked_ok [OF okp, of ?c False] pop obtain p1 where
        p1: "close_locked ?c False ?p = (p1, Inr (pc_handle (conn p ?c)))" "pool_ok p1" "same_env ?p p1"
          "all_handles ?p = all_handles p1 + {#pc_handle (conn p ?c)#}" by auto
      let ?h = "pc_handle (conn p ?c)"
      have f1: "po_close_connection p1 = Some f" using p1(3) less.prems(2) by (simp add: same_env_def)
      note h = close_handle_ok [OF p1(2) f1, of ?h]
      have hp: "0 \<le> ?h" using pop by simp
      have st: "pool_step {#} p (fst (close_handle ?h p1))"
        using h p1(3,4) hp pop by (auto simp: pool_step_def same_env_def)
      show ?thesis
      proof (cases "snd (close_handle ?h p1)")
        case (Inl e)
        with reserve_expired [OF False exp p1(1)] less.prems(3) have "q = fst (close_handle ?h p1)" "r = Inl e"
          by simp_all
        with st show ?thesis by simp
      next
        case (Inr u)
        with reserve_expired [OF False exp p1(1)] less.prems(3) have r: "reserve now (fst (close_handle ?h p1)) = (q, r)"
          by simp
        have "pool_ok (fst (close_handle ?h p1))" "po_close_connection (fst (close_handle ?h p1)) = Some f"
          using st less.prems(2) by (simp_all add: pool_step_def same_env_def)
        moreover have "length (po_idle (fst (close_handle ?h p1))) < length (po_idle p)"
          using close_locked_idle [of ?c False ?p] False by (simp add: p1(1))
        ultimately show ?thesis
          using less.hyps r pool_step_trans [OF st] by blast
      qed
    qed
  qed
qed

section \<open>Opening, releasing, closing the idle ones\<close>

lemma set_conn_ok:
  assumes "pool_ok p" "held_conn p c" "pc_lease k = pc_lease (conn p c)" "\<not> pc_released k"
  shows "pool_ok (set_conn c k p)" "all_handles (set_conn c k p) + owned (conn p c) = all_handles p + owned k"
proof -
  have c: "c < length (po_conns p)" "\<not> pc_released (conn p c)" "c \<notin> set (po_idle p)" using assms(2) by (simp_all add: held_conn_def)
  have "map pc_lease ((po_conns p)[c := k]) = map pc_lease (po_conns p)"
    using c(1) assms(3) by (simp add: map_update list_update_same_conv)
  moreover have "\<forall>d \<in> set (po_idle p). d < length (po_conns p) \<and> \<not> pc_released ((po_conns p)[c := k] ! d) \<and> 0 \<le> pc_handle ((po_conns p)[c := k] ! d)"
    using assms(1) c(1,3) by (auto simp: pool_ok_def nth_list_update)
  moreover have "\<forall>d < length (po_conns p). pc_lease ((po_conns p)[c := k] ! d) < length (us_leases (po_upstreams p)) \<and>
      ls_group (us_leases (po_upstreams p) ! pc_lease ((po_conns p)[c := k] ! d)) = po_group p \<and>
      (\<not> pc_released ((po_conns p)[c := k] ! d) \<longrightarrow> \<not> ls_released (us_leases (po_upstreams p) ! pc_lease ((po_conns p)[c := k] ! d)))"
    using assms(1,3) c(1,2) by (simp add: pool_ok_def nth_list_update)
  ultimately show "pool_ok (set_conn c k p)"
    using assms(1) by (simp add: pool_ok_def set_conn_def)
  show "all_handles (set_conn c k p) + owned (conn p c) = all_handles p + owned k"
    using sum_list_update [OF c(1), of owned k] by (simp add: all_handles_def set_conn_def)
qed

lemma opened_ok:
  assumes "pool_ok p" "held_conn p c" "po_close_connection p = Some f" "opened c handle p = (q, r)"
  shows "pool_step (if 0 \<le> handle then {#handle#} else {#}) p q \<and> (\<forall>d. r = Inr (Some d) \<longrightarrow> d = c \<and> held_conn q c)"
proof -
  consider "handle < 0" | "0 \<le> handle" "pc_handle (conn p c) \<ge> 0" | "0 \<le> handle" "pc_handle (conn p c) < 0" by linarith
  then show ?thesis
  proof cases
    case 1
    with assms(4) have "q = fst (pool_close c True p)" "\<forall>d. r \<noteq> Inr (Some d)"
      by (auto simp: opened_def split: prod.splits sum.splits)
    with pool_close_ok [OF assms(1-3)] 1 show ?thesis by (simp add: pool_step_def)
  next
    case 2
    with assms(4) have "q = fst (close_handle handle p)" "\<forall>d. r \<noteq> Inr (Some d)"
      by (auto simp: opened_def split: prod.splits sum.splits)
    with close_handle_ok [OF assms(1,3), of handle] 2 show ?thesis by (simp add: pool_step_def)
  next
    case 3
    let ?k = "(conn p c)\<lparr>pc_handle := handle\<rparr>"
    have h: "c < length (po_conns p)" "\<not> pc_released (conn p c)" "c \<notin> set (po_idle p)" using assms(2) by (simp_all add: held_conn_def)
    with 3 assms(4) have q: "q = set_conn c ?k p" "r = Inr (Some c)" by (simp_all add: opened_def)
    from set_conn_ok [OF assms(1,2), of ?k] h 3 q show ?thesis
      by (simp add: pool_step_def same_env_def owned_def) (simp add: set_conn_def held_conn_def)
  qed
qed

lemma pool_release_ok:
  assumes "pool_ok p" "held_conn p c" "po_close_connection p = Some f" "pool_release c now reusable p = (q, r)"
  shows "pool_step {#} p q \<and> (\<forall>b. r = Inr b \<longrightarrow> \<not> held_conn q c)"
proof -
  let ?k = "(conn p c)\<lparr>pc_last_used_ms := now\<rparr>"
  let ?p = "set_conn c ?k p"
  have h: "c < length (po_conns p)" "\<not> pc_released (conn p c)" "c \<notin> set (po_idle p)" using assms(2) by (simp_all add: held_conn_def)
  have "owned ?k = owned (conn p c)" by (simp add: owned_def)
  with set_conn_ok [OF assms(1,2), of ?k] h have ok: "pool_ok ?p" "all_handles ?p = all_handles p" by simp_all
  have hp: "held_conn ?p c" using assms(2) by (simp add: held_conn_def set_conn_def)
  have st: "pool_step {#} p ?p" using ok by (simp add: pool_step_def same_env_def set_conn_def)
  show ?thesis
  proof (cases "pc_handle (conn p c) \<ge> 0 \<and> reusable \<and> int (length (po_idle p)) < gr_max_idle (us_groups (po_upstreams p) ! po_group p)")
    case True
    with assms(4) h have q: "q = ?p\<lparr>po_idle := po_idle p @ [c]\<rparr>" by (simp add: pool_release_def Let_def)
    have "pool_ok q" using ok(1) h True q by (simp add: pool_ok_def set_conn_def)
    with q ok(2) show ?thesis
      by (simp add: pool_step_def same_env_def set_conn_def all_handles_def held_conn_def)
  next
    case False
    with assms(4) h have q: "q = fst (pool_close c (\<not> reusable) ?p)"
      by (auto simp: pool_release_def pool_close_def Let_def split: prod.splits sum.splits)
    from close_locked_ok [OF ok(1) hp, of "\<not> reusable"] obtain p1 where
      p1: "close_locked c (\<not> reusable) ?p = (p1, Inr (pc_handle (conn ?p c)))"
        "po_conns p1 = (po_conns ?p)[c := (conn ?p c)\<lparr>pc_released := True\<rparr>]" by blast
    have "po_conns q = po_conns p1"
      unfolding q using p1(1) by (simp add: pool_close_def close_handle_def split: option.splits)
    then have "\<not> held_conn q c" using p1(2) h(1) by (simp add: held_conn_def set_conn_def)
    moreover have "po_close_connection ?p = Some f" using assms(3) by (simp add: set_conn_def)
    note pool_close_ok [OF ok(1) hp this, of "\<not> reusable"]
    ultimately show ?thesis using q pool_step_trans' [OF st, of "{#}" q] by (simp add: pool_step_def)
  qed
qed

lemma close_idle_locked_ok:
  "pool_ok p \<Longrightarrow> po_idle p = [] \<Longrightarrow> distinct cs \<Longrightarrow>
   (\<And>c. c \<in> set cs \<Longrightarrow> c < length (po_conns p) \<and> \<not> pc_released (conn p c) \<and> 0 \<le> pc_handle (conn p c)) \<Longrightarrow>
   \<exists>q hs. close_idle_locked cs p = (q, Inr hs) \<and> pool_ok q \<and> same_env p q \<and> length hs = length cs \<and>
     (\<forall>h \<in> set hs. 0 \<le> h) \<and> all_handles p = all_handles q + mset hs"
proof (induction cs arbitrary: p)
  case Nil
  then show ?case by (simp add: same_env_refl)
next
  case (Cons c cs)
  have c: "held_conn p c" "\<not> pc_released (conn p c)" "0 \<le> pc_handle (conn p c)"
    using Cons.prems(2) Cons.prems(4) [of c] by (simp_all add: held_conn_def)
  from close_locked_ok [OF Cons.prems(1) c(1), of False] obtain p1 where
    p1: "close_locked c False p = (p1, Inr (pc_handle (conn p c)))" "pool_ok p1" "same_env p p1" "po_idle p1 = po_idle p"
      "po_conns p1 = (po_conns p)[c := (conn p c)\<lparr>pc_released := True\<rparr>]"
      "all_handles p = all_handles p1 + (if 0 \<le> pc_handle (conn p c) then {#pc_handle (conn p c)#} else {#})" by blast
  have "d < length (po_conns p1) \<and> \<not> pc_released (conn p1 d) \<and> 0 \<le> pc_handle (conn p1 d)" if "d \<in> set cs" for d
    using that Cons.prems(3) Cons.prems(4) [of d] p1(5) by (cases "d = c") auto
  with Cons.IH [OF p1(2)] p1(4) Cons.prems(2,3) obtain q hs where
    q: "close_idle_locked cs p1 = (q, Inr hs)" "pool_ok q" "same_env p1 q" "length hs = length cs"
      "\<forall>h \<in> set hs. 0 \<le> h" "all_handles p1 = all_handles q + mset hs" by auto
  have "close_idle_locked (c # cs) p = (q, Inr (pc_handle (conn p c) # hs))"
    using c(2) p1(1) q(1) by (simp add: Let_def)
  with q c(3) p1(3,6) show ?case
    by (intro exI [of _ q] exI [of _ "pc_handle (conn p c) # hs"]) (auto intro: same_env_trans)
qed

lemma close_all_ok:
  "pool_ok p \<Longrightarrow> po_close_connection p = Some f \<Longrightarrow> (\<forall>h \<in> set hs. 0 \<le> h) \<Longrightarrow>
   pool_ok (fst (close_all hs p)) \<and> same_env p (fst (close_all hs p)) \<and> all_handles (fst (close_all hs p)) = all_handles p + mset hs"
proof (induction hs arbitrary: p)
  case Nil
  then show ?case by (simp add: same_env_refl)
next
  case (Cons h hs)
  note h = close_handle_ok [OF Cons.prems(1,2), of h]
  then have "po_close_connection (fst (close_handle h p)) = Some f" using Cons.prems(2) by (simp add: same_env_def)
  with Cons.IH [of "fst (close_handle h p)"] Cons.prems h show ?case
    by (auto simp: Let_def intro: same_env_trans)
qed

lemma close_idle_ok:
  assumes "pool_ok p" "po_close_connection p = Some f"
  shows "pool_step {#} p (fst (close_idle p)) \<and>
    (snd (close_idle p) = Inr (int (length (po_idle p))) \<or> snd (close_idle p) = Inl (RuntimeError ''upstream idle close callback failed''))"
proof -
  let ?p = "p\<lparr>po_idle := []\<rparr>"
  have ok: "pool_ok ?p" "all_handles ?p = all_handles p" using assms(1) by (simp_all add: pool_ok_def all_handles_def)
  have "\<exists>q hs. close_idle_locked (po_idle p) ?p = (q, Inr hs) \<and> pool_ok q \<and> same_env ?p q \<and> length hs = length (po_idle p) \<and>
     (\<forall>h \<in> set hs. 0 \<le> h) \<and> all_handles ?p = all_handles q + mset hs"
    by (rule close_idle_locked_ok [OF ok(1)]) (use assms(1) in \<open>auto simp: pool_ok_def\<close>)
  then obtain q hs where q: "close_idle_locked (po_idle p) ?p = (q, Inr hs)" "pool_ok q" "same_env ?p q" "length hs = length (po_idle p)"
     "\<forall>h \<in> set hs. 0 \<le> h" "all_handles ?p = all_handles q + mset hs" by blast
  have "po_close_connection q = Some f" using q(3) assms(2) by (simp add: same_env_def)
  from close_all_ok [OF q(2) this q(5)] q ok(2) show ?thesis
    by (auto simp: close_idle_def Let_def pool_step_def same_env_def)
qed

section \<open>Every sequence of calls\<close>

text \<open>Callers only use connections they hold; other pools may use the same groups, but not the
  leases of this one.  \<open>given\<close> are the handles the pool was given.\<close>

inductive pool_reach :: "close_callback \<Rightarrow> pool \<Rightarrow> int multiset \<Rightarrow> bool" for f where
  new: "pool_new g timeout (Some f) us = Inr p \<Longrightarrow> upstreams_ok us \<Longrightarrow> g < length (us_groups us) \<Longrightarrow> pool_reach f p {#}"
| reserve: "pool_reach f p given \<Longrightarrow> reserve now p = (q, r) \<Longrightarrow> pool_reach f q given"
| opened: "pool_reach f p given \<Longrightarrow> held_conn p c \<Longrightarrow> opened c handle p = (q, r) \<Longrightarrow>
    pool_reach f q (given + (if 0 \<le> handle then {#handle#} else {#}))"
| release: "pool_reach f p given \<Longrightarrow> held_conn p c \<Longrightarrow> pool_release c now reusable p = (q, r) \<Longrightarrow> pool_reach f q given"
| close: "pool_reach f p given \<Longrightarrow> held_conn p c \<Longrightarrow> pool_close c failed p = (q, r) \<Longrightarrow> pool_reach f q given"
| close_idle: "pool_reach f p given \<Longrightarrow> close_idle p = (q, r) \<Longrightarrow> pool_reach f q given"
| others: "pool_reach f p given \<Longrightarrow> upstreams_ok us \<Longrightarrow> length (us_groups us) = length (us_groups (po_upstreams p)) \<Longrightarrow>
    gr_max_idle (us_groups us ! po_group p) = gr_max_idle (us_groups (po_upstreams p) ! po_group p) \<Longrightarrow>
    length (us_leases (po_upstreams p)) \<le> length (us_leases us) \<Longrightarrow>
    (\<And>c. c < length (po_conns p) \<Longrightarrow> us_leases us ! pc_lease (conn p c) = us_leases (po_upstreams p) ! pc_lease (conn p c)) \<Longrightarrow>
    pool_reach f (p\<lparr>po_upstreams := us\<rparr>) given"

lemma pool_reach_ok:
  "pool_reach f p given \<Longrightarrow> pool_ok p \<and> po_close_connection p = Some f \<and> all_handles p = given"
proof (induction rule: pool_reach.induct)
  case (new g timeout us p)
  then show ?case by (auto simp: pool_new_def pool_ok_def all_handles_def split: if_splits)
next
  case (reserve p given now q r)
  with reserve_ok [of p f now q r] show ?case by (auto simp: pool_step_def same_env_def)
next
  case (opened p given c handle q r)
  with opened_ok [of p c f handle q r] show ?case by (auto simp: pool_step_def same_env_def)
next
  case (release p given c now reusable q r)
  with pool_release_ok [of p c f now reusable q r] show ?case by (auto simp: pool_step_def same_env_def)
next
  case (close p given c failed q r)
  with pool_close_ok [of p c f failed] show ?case by (auto simp: same_env_def)
next
  case (close_idle p given q r)
  with close_idle_ok [of p f] show ?case by (auto simp: pool_step_def same_env_def)
next
  case (others p given us)
  then show ?case by (auto simp: pool_ok_def all_handles_def)
qed

lemma open_conns_bounded:
  assumes "pool_ok p"
  shows "int (length (filter (\<lambda>k. \<not> pc_released k) (po_conns p))) \<le> gr_max_active (us_groups (po_upstreams p) ! po_group p)"
proof -
  let ?us = "po_upstreams p" and ?g = "po_group p"
  let ?C = "{c. c < length (po_conns p) \<and> \<not> pc_released (conn p c)}"
  let ?L = "{l. l < length (us_leases ?us) \<and> (\<not> ls_released (us_leases ?us ! l) \<and> ls_group (us_leases ?us ! l) = ?g)}"
  have inj: "inj_on (\<lambda>c. pc_lease (conn p c)) ?C"
    using assms nth_eq_iff_index_eq [of "map pc_lease (po_conns p)"] by (auto simp: pool_ok_def inj_on_def)
  have "(\<lambda>c. pc_lease (conn p c)) ` ?C \<subseteq> ?L" using assms by (auto simp: pool_ok_def)
  from card_inj_on_le [OF inj this] have "card ?C \<le> card ?L" by simp
  then have "length (filter (\<lambda>k. \<not> pc_released k) (po_conns p)) \<le> held (\<lambda>l. ls_group l = ?g) ?us"
    by (simp add: length_filter_conv_card)
  moreover have "group_ok ?us ?g" using assms by (auto simp: pool_ok_def intro: upstreams_okD)
  ultimately show ?thesis by (simp add: group_ok_def Let_def)
qed

section \<open>A small pool\<close>

definition small_pool :: pool where
  "small_pool = \<lparr>po_group = 0, po_idle_timeout_ms = 100, po_idle = [], po_close_connection = Some (\<lambda>h. None),
     po_conns = [], po_upstreams = sample_upstreams, po_closed = []\<rparr>"

lemma small_pool_reach: "pool_reach (\<lambda>h. None) small_pool {#}"
  by (rule pool_reach.new [of 0 100 _ sample_upstreams])
    (simp_all add: pool_new_def small_pool_def upstreams_reach_ok [OF sample_upstreams_reach], simp add: sample_upstreams_def)

section \<open>Properties\<close>

text \<open>C29 Ownership in the connection pool: over every sequence of calls in which callers only use
  connections they hold, whatever the close callback does and whatever other users of the group do,
  the idle list holds each connection once and is bounded by \<open>max_idle\<close>, every connection that is
  not closed owns its own unreleased lease, so at most \<open>max_active\<close> are open, and every handle the
  pool was given is either closed, exactly once, or owned by exactly one open connection.\<close>

theorem pool_ownership:
  assumes "pool_reach f p given"
  shows "distinct (po_idle p) \<and> int (length (po_idle p)) \<le> max 0 (gr_max_idle (us_groups (po_upstreams p) ! po_group p)) \<and>
    (\<forall>c < length (po_conns p). \<not> pc_released (conn p c) \<longrightarrow> \<not> ls_released (us_leases (po_upstreams p) ! pc_lease (conn p c))) \<and>
    distinct (map pc_lease (po_conns p)) \<and>
    int (length (filter (\<lambda>k. \<not> pc_released k) (po_conns p))) \<le> gr_max_active (us_groups (po_upstreams p) ! po_group p) \<and>
    mset (po_closed p) + sum_list (map owned (po_conns p)) = given"
proof -
  from pool_reach_ok [OF assms] have ok: "pool_ok p" "all_handles p = given" by simp_all
  from ok(1) open_conns_bounded [OF ok(1)] ok(2) show ?thesis
    by (simp add: pool_ok_def all_handles_def)
qed

theorem pool_ownership_witness:
  "\<exists>p. opened 0 7 (fst (reserve 0 small_pool)) = (p, Inr (Some 0)) \<and>
     mset (po_closed p) + sum_list (map owned (po_conns p)) = {#7#}"
proof -
  let ?p = "fst (reserve 0 small_pool)"
  have r: "pool_reach (\<lambda>h. None) ?p {#}"
    by (rule pool_reach.reserve [OF small_pool_reach, of 0 _ "snd (reserve 0 small_pool)"]) simp
  have h: "po_idle ?p = []" "length (po_conns ?p) = 1" "\<not> pc_released (conn ?p 0)" "pc_handle (conn ?p 0) < 0"
    by (simp_all add: reserve.simps small_pool_def group_acquire_def sample_upstreams_def sample_group_def
        sample_endpoint_def endpoint_try_acquire_def numeral_2_eq_2 pooled_new_def)
  have "opened 0 7 ?p = (set_conn 0 ((conn ?p 0)\<lparr>pc_handle := 7\<rparr>) ?p, Inr (Some 0))" using h by (simp add: opened_def)
  then obtain p where p: "opened 0 7 ?p = (p, Inr (Some 0))" by blast
  have "pool_reach (\<lambda>h. None) p ({#} + (if 0 \<le> (7::int) then {#7#} else {#}))"
    by (rule pool_reach.opened [OF r _ p]) (use h in \<open>simp add: held_conn_def\<close>)
  then have "pool_reach (\<lambda>h. None) p {#7#}" by simp
  from pool_ownership [OF this] p show ?thesis by blast
qed

text \<open>A caller that releases a reusable connection twice is not detected: the connection is in the
  idle list twice and can be handed to two callers.\<close>

lemma double_release_pools_twice:
  assumes "\<not> pc_released (conn p c)" "0 \<le> pc_handle (conn p c)" "c < length (po_conns p)"
    and "int (length (po_idle p)) + 1 < gr_max_idle (us_groups (po_upstreams p) ! po_group p)"
  shows "\<exists>q q'. pool_release c now True p = (q, Inr True) \<and> pool_release c now True q = (q', Inr True) \<and>
    po_idle q' = po_idle p @ [c, c]"
  using assms by (simp add: pool_release_def set_conn_def Let_def)

end
