(* ===== verification/Config.thy ===== *)
theory Config
  imports Lifecycle Buffer Http1 Models
begin

text \<open>
  Model of \<open>pcc_gateway/config.py\<close>: the validated configuration records of one generation, and
  of the places of \<open>server.py\<close> where a connection turns them into its codec, output buffer and
  request bodies.  The TLS configuration of a listener is an opaque value (type parameter); an
  argument left at \<open>None\<close> is an option.  \<open>tls_provider_max_bytes\<close> is typed, so the dynamic
  \<open>isinstance\<close> half of its check is not repeated.
\<close>

section \<open>Listeners\<close>

definition TLS_PROVIDER_DEFAULT_MAX_BYTES :: int where
  "TLS_PROVIDER_DEFAULT_MAX_BYTES = 268435456"

definition valid_sha256_hex :: "pystr \<Rightarrow> bool" where
  "valid_sha256_hex value \<longleftrightarrow>
     length value = 64 \<and> list_all (\<lambda>character. character \<in> set (cp ''0123456789abcdef'')) value"

record 't listener_config =
  li_host :: pystr
  li_port :: int
  li_backlog :: int
  li_reuse_port :: bool
  li_tls_provider :: pystr
  li_tls_config :: "'t option"
  li_tls_provider_library :: pystr
  li_tls_provider_library_sha256 :: pystr
  li_tls_provider_max_bytes :: int

definition listener_config_new ::
  "pystr \<Rightarrow> int \<Rightarrow> int \<Rightarrow> bool \<Rightarrow> pystr \<Rightarrow> 't option \<Rightarrow> pystr \<Rightarrow> pystr \<Rightarrow> int \<Rightarrow>
     't listener_config result" where
  "listener_config_new host port backlog reuse_port tls_provider tls_config library sha256 max_bytes =
     (if port \<le> 0 \<or> port > 65535 then Inl (ValueError ''listener port is out of range'')
      else if backlog \<le> 0 \<or> backlog > 65535
      then Inl (ValueError ''listener backlog is out of range'')
      else if tls_provider = [] \<and> (tls_config \<noteq> None \<or> library \<noteq> [])
      then Inl (ValueError ''TLS config/library requires a named TLS provider'')
      else if tls_provider \<noteq> [] \<and> tls_config = None
      then Inl (ValueError ''TLS listener requires a TLS configuration'')
      else if sha256 \<noteq> [] \<and> library = []
      then Inl (ValueError ''TLS provider digest requires a provider library'')
      else if library \<noteq> [] \<and> sha256 = []
      then Inl (ValueError ''TLS provider library requires an expected SHA-256'')
      else if sha256 \<noteq> [] \<and> \<not> valid_sha256_hex sha256
      then Inl (ValueError ''TLS provider SHA-256 must be 64 lowercase hexadecimal characters'')
      else if max_bytes \<le> 0 \<or> max_bytes > 0x7FFFFFFFFFFFFFFF
      then Inl (ValueError ''TLS provider byte limit is out of range'')
      else Inr \<lparr>li_host = host, li_port = port, li_backlog = backlog, li_reuse_port = reuse_port,
                li_tls_provider = tls_provider, li_tls_config = tls_config,
                li_tls_provider_library = library, li_tls_provider_library_sha256 = sha256,
                li_tls_provider_max_bytes = max_bytes\<rparr>)"

text \<open>The \<open>ListenerConfig()\<close> of the default arguments.\<close>

definition listener_config_default :: "'t listener_config result" where
  "listener_config_default =
     listener_config_new (cp ''0.0.0.0'') 8080 128 False [] None [] [] TLS_PROVIDER_DEFAULT_MAX_BYTES"

section \<open>Protocol and buffer limits\<close>

record http1_limits =
  hl_request_line_bytes :: int
  hl_header_bytes :: int
  hl_header_count :: int
  hl_body_bytes :: int
  hl_chunk_bytes :: int
  hl_header_timeout_ms :: int
  hl_body_timeout_ms :: int
  hl_idle_timeout_ms :: int

definition http1_limits_new ::
  "int \<Rightarrow> int \<Rightarrow> int \<Rightarrow> int \<Rightarrow> int \<Rightarrow> int \<Rightarrow> int \<Rightarrow> int \<Rightarrow> http1_limits result" where
  "http1_limits_new request_line header count body chunk header_ms body_ms idle_ms =
     (if list_ex (\<lambda>value. value \<le> 0)
           [request_line, header, count, body, chunk, header_ms, body_ms, idle_ms]
      then Inl (ValueError ''HTTP/1 limits must be positive'')
      else if chunk > body then Inl (ValueError ''chunk limit cannot exceed body limit'')
      else Inr \<lparr>hl_request_line_bytes = request_line, hl_header_bytes = header,
                hl_header_count = count, hl_body_bytes = body, hl_chunk_bytes = chunk,
                hl_header_timeout_ms = header_ms, hl_body_timeout_ms = body_ms,
                hl_idle_timeout_ms = idle_ms\<rparr>)"

definition http1_limits_default :: "http1_limits result" where
  "http1_limits_default = http1_limits_new 8192 32768 100 16777216 1048576 10000 30000 30000"

record buffer_limits =
  bl_segment_bytes :: int
  bl_low_watermark :: int
  bl_high_watermark :: int
  bl_connection_bytes :: int

definition buffer_limits_new :: "int \<Rightarrow> int \<Rightarrow> int \<Rightarrow> int \<Rightarrow> buffer_limits result" where
  "buffer_limits_new segment low high connection =
     (if segment \<le> 0 then Inl (ValueError ''buffer segment size must be positive'')
      else if low < 0 \<or> high \<le> low
      then Inl (ValueError ''buffer watermarks must satisfy 0 <= low < high'')
      else if connection < high
      then Inl (ValueError ''connection buffer limit must cover high watermark'')
      else Inr \<lparr>bl_segment_bytes = segment, bl_low_watermark = low, bl_high_watermark = high,
                bl_connection_bytes = connection\<rparr>)"

definition buffer_limits_default :: "buffer_limits result" where
  "buffer_limits_default = buffer_limits_new 16384 32768 65536 1048576"

definition admission_limits_default :: "admission_limits result" where
  "admission_limits_default = admission_limits_new 4096 4096 1024 2048 67108864"

section \<open>A generation's configuration\<close>

record 't gateway_config =
  gc_listeners :: "'t listener_config list"
  gc_carrier_count :: int
  gc_http1 :: http1_limits
  gc_buffers :: buffer_limits
  gc_admission :: admission_limits
  gc_drain_timeout_ms :: int
  gc_waitset_backend :: pystr
  gc_max_requests_per_connection :: int
  gc_write_timeout_ms :: int
  gc_accept_poll_ms :: int
  gc_control_poll_ms :: int
  gc_tls_handshake_timeout_ms :: int
  gc_tls_close_timeout_ms :: int
  gc_install_signal_handlers :: bool

definition waitset_backends :: "pystr list" where
  "waitset_backends = [cp ''auto'', cp ''kqueue'', cp ''epoll'', cp ''poll'']"

text \<open>\<open>http1 or Http1Limits()\<close>.\<close>

definition or_default :: "'a option \<Rightarrow> 'a result \<Rightarrow> 'a result" where
  "or_default given default_value = (case given of Some x \<Rightarrow> Inr x | None \<Rightarrow> default_value)"

definition gateway_config_new ::
  "'t listener_config list \<Rightarrow> int \<Rightarrow> http1_limits option \<Rightarrow> buffer_limits option \<Rightarrow>
     admission_limits option \<Rightarrow> int \<Rightarrow> pystr \<Rightarrow> int \<Rightarrow> int \<Rightarrow> int \<Rightarrow> int \<Rightarrow> int \<Rightarrow> int \<Rightarrow> bool \<Rightarrow>
     't gateway_config result" where
  "gateway_config_new listeners carrier_count http1 buffers admission drain_timeout_ms
       waitset_backend max_requests write_ms accept_ms control_ms handshake_ms close_ms signals =
     rbind (if listeners = [] then rbind listener_config_default (\<lambda>l. Inr [l]) else Inr listeners)
       (\<lambda>listeners.
     rbind (raise_if (carrier_count < 0 \<or> carrier_count > 64)
       (ValueError ''carrier count must be between 0 and 64'')) (\<lambda>_.
     rbind (raise_if (drain_timeout_ms \<le> 0) (ValueError ''drain timeout must be positive'')) (\<lambda>_.
     rbind (raise_if (list_ex (\<lambda>value. value \<le> 0)
         [max_requests, write_ms, accept_ms, control_ms, handshake_ms, close_ms])
       (ValueError ''gateway runtime limits must be positive'')) (\<lambda>_.
     rbind (raise_if (waitset_backend \<notin> set waitset_backends)
       (ValueError ''unknown waitset backend'')) (\<lambda>_.
     rbind (or_default http1 http1_limits_default) (\<lambda>http1.
     rbind (or_default buffers buffer_limits_default) (\<lambda>buffers.
     rbind (or_default admission admission_limits_default) (\<lambda>admission.
     Inr \<lparr>gc_listeners = listeners, gc_carrier_count = carrier_count, gc_http1 = http1,
          gc_buffers = buffers, gc_admission = admission, gc_drain_timeout_ms = drain_timeout_ms,
          gc_waitset_backend = waitset_backend, gc_max_requests_per_connection = max_requests,
          gc_write_timeout_ms = write_ms, gc_accept_poll_ms = accept_ms,
          gc_control_poll_ms = control_ms, gc_tls_handshake_timeout_ms = handshake_ms,
          gc_tls_close_timeout_ms = close_ms, gc_install_signal_handlers = signals\<rparr>))))))))"

text \<open>The keyword arguments of \<open>replace\<close>; \<open>keep_all\<close> holds their defaults.\<close>

record 't config_change =
  ch_listeners :: "'t listener_config list option"
  ch_carrier_count :: int
  ch_http1 :: "http1_limits option"
  ch_buffers :: "buffer_limits option"
  ch_admission :: "admission_limits option"
  ch_drain_timeout_ms :: int
  ch_waitset_backend :: pystr
  ch_max_requests_per_connection :: int
  ch_write_timeout_ms :: int
  ch_accept_poll_ms :: int
  ch_control_poll_ms :: int
  ch_tls_handshake_timeout_ms :: int
  ch_tls_close_timeout_ms :: int
  ch_install_signal_handlers :: "bool option"

definition keep_all :: "'t config_change" where
  "keep_all = \<lparr>ch_listeners = None, ch_carrier_count = -1, ch_http1 = None, ch_buffers = None,
     ch_admission = None, ch_drain_timeout_ms = -1, ch_waitset_backend = [],
     ch_max_requests_per_connection = -1, ch_write_timeout_ms = -1, ch_accept_poll_ms = -1,
     ch_control_poll_ms = -1, ch_tls_handshake_timeout_ms = -1, ch_tls_close_timeout_ms = -1,
     ch_install_signal_handlers = None\<rparr>"

text \<open>The conditional \<open>self.x if x < 0 else x\<close>.\<close>

definition keep_neg :: "int \<Rightarrow> int \<Rightarrow> int" where
  "keep_neg old new = (if new < 0 then old else new)"

definition config_replace ::
  "'t config_change \<Rightarrow> 't gateway_config \<Rightarrow> 't gateway_config result" where
  "config_replace ch c =
     gateway_config_new
       (case ch_listeners ch of None \<Rightarrow> gc_listeners c | Some listeners \<Rightarrow> listeners)
       (keep_neg (gc_carrier_count c) (ch_carrier_count ch))
       (Some (case ch_http1 ch of None \<Rightarrow> gc_http1 c | Some http1 \<Rightarrow> http1))
       (Some (case ch_buffers ch of None \<Rightarrow> gc_buffers c | Some buffers \<Rightarrow> buffers))
       (Some (case ch_admission ch of None \<Rightarrow> gc_admission c | Some admission \<Rightarrow> admission))
       (keep_neg (gc_drain_timeout_ms c) (ch_drain_timeout_ms ch))
       (if ch_waitset_backend ch = [] then gc_waitset_backend c else ch_waitset_backend ch)
       (keep_neg (gc_max_requests_per_connection c) (ch_max_requests_per_connection ch))
       (keep_neg (gc_write_timeout_ms c) (ch_write_timeout_ms ch))
       (keep_neg (gc_accept_poll_ms c) (ch_accept_poll_ms ch))
       (keep_neg (gc_control_poll_ms c) (ch_control_poll_ms ch))
       (keep_neg (gc_tls_handshake_timeout_ms c) (ch_tls_handshake_timeout_ms ch))
       (keep_neg (gc_tls_close_timeout_ms c) (ch_tls_close_timeout_ms ch))
       (case ch_install_signal_handlers ch of
          None \<Rightarrow> gc_install_signal_handlers c | Some signals \<Rightarrow> signals)"

section \<open>What a connection builds from it\<close>

definition connection_codec :: "'t gateway_config \<Rightarrow> codec result" where
  "connection_codec config =
     codec_new (hl_request_line_bytes (gc_http1 config)) (hl_header_bytes (gc_http1 config))
       (hl_header_count (gc_http1 config)) (hl_body_bytes (gc_http1 config))
       (hl_chunk_bytes (gc_http1 config))"

definition connection_output :: "'t gateway_config \<Rightarrow> channel result" where
  "connection_output config =
     channel_new (bl_segment_bytes (gc_buffers config)) (bl_low_watermark (gc_buffers config))
       (bl_high_watermark (gc_buffers config)) (bl_connection_bytes (gc_buffers config))"

definition request_body_stream :: "'t gateway_config \<Rightarrow> bool \<Rightarrow> body_stream result" where
  "request_body_stream config local_body_streaming =
     body_new (hl_body_bytes (gc_http1 config)) (bl_low_watermark (gc_buffers config))
       (bl_high_watermark (gc_buffers config)) local_body_streaming"

section \<open>Accepted records\<close>

text \<open>A record is accepted when some call of its constructor returned it.\<close>

definition listener_ok :: "'t listener_config \<Rightarrow> bool" where
  "listener_ok l \<longleftrightarrow>
     1 \<le> li_port l \<and> li_port l \<le> 65535 \<and> 1 \<le> li_backlog l \<and> li_backlog l \<le> 65535 \<and>
     (li_tls_provider l = [] \<longleftrightarrow> li_tls_config l = None) \<and>
     (li_tls_provider l = [] \<longrightarrow> li_tls_provider_library l = []) \<and>
     (li_tls_provider_library l = [] \<longleftrightarrow> li_tls_provider_library_sha256 l = []) \<and>
     (li_tls_provider_library l \<noteq> [] \<longrightarrow> valid_sha256_hex (li_tls_provider_library_sha256 l)) \<and>
     1 \<le> li_tls_provider_max_bytes l \<and> li_tls_provider_max_bytes l < 2 ^ 63"

definition http1_limits_ok :: "http1_limits \<Rightarrow> bool" where
  "http1_limits_ok h \<longleftrightarrow>
     list_all (\<lambda>v. 0 < v) [hl_request_line_bytes h, hl_header_bytes h, hl_header_count h,
       hl_body_bytes h, hl_chunk_bytes h, hl_header_timeout_ms h, hl_body_timeout_ms h,
       hl_idle_timeout_ms h] \<and>
     hl_chunk_bytes h \<le> hl_body_bytes h"

definition buffer_limits_ok :: "buffer_limits \<Rightarrow> bool" where
  "buffer_limits_ok b \<longleftrightarrow>
     0 < bl_segment_bytes b \<and> 0 \<le> bl_low_watermark b \<and>
     bl_low_watermark b < bl_high_watermark b \<and> bl_high_watermark b \<le> bl_connection_bytes b"

definition admission_limits_ok :: "admission_limits \<Rightarrow> bool" where
  "admission_limits_ok a \<longleftrightarrow>
     list_all (\<lambda>v. 0 \<le> v) [al_max_connections a, al_max_requests a, al_max_queued_requests a,
       al_max_upstream_active a, al_max_buffered_bytes a]"

definition config_ok :: "'t gateway_config \<Rightarrow> bool" where
  "config_ok c \<longleftrightarrow>
     gc_listeners c \<noteq> [] \<and> list_all listener_ok (gc_listeners c) \<and>
     0 \<le> gc_carrier_count c \<and> gc_carrier_count c \<le> 64 \<and>
     http1_limits_ok (gc_http1 c) \<and> buffer_limits_ok (gc_buffers c) \<and>
     admission_limits_ok (gc_admission c) \<and> gc_waitset_backend c \<in> set waitset_backends \<and>
     list_all (\<lambda>v. 0 < v) [gc_drain_timeout_ms c, gc_max_requests_per_connection c,
       gc_write_timeout_ms c, gc_accept_poll_ms c, gc_control_poll_ms c,
       gc_tls_handshake_timeout_ms c, gc_tls_close_timeout_ms c]"

lemma listener_config_new_iff:
  "listener_config_new (li_host l) (li_port l) (li_backlog l) (li_reuse_port l) (li_tls_provider l)
     (li_tls_config l) (li_tls_provider_library l) (li_tls_provider_library_sha256 l)
     (li_tls_provider_max_bytes l) = Inr l \<longleftrightarrow> listener_ok l"
  by (auto simp: listener_config_new_def listener_ok_def)

lemma listener_config_new_ok:
  "listener_config_new h p b r tp tc lib sha mb = Inr l \<Longrightarrow> listener_ok l"
  by (auto simp: listener_config_new_def listener_ok_def split: if_splits)

lemma http1_limits_new_ok: "http1_limits_new a b c d e f g h = Inr l \<Longrightarrow> http1_limits_ok l"
  by (auto simp: http1_limits_new_def http1_limits_ok_def split: if_splits)

lemma buffer_limits_new_ok: "buffer_limits_new a b c d = Inr l \<Longrightarrow> buffer_limits_ok l"
  by (auto simp: buffer_limits_new_def buffer_limits_ok_def split: if_splits)

lemma admission_limits_new_ok: "admission_limits_new a b c d e = Inr l \<Longrightarrow> admission_limits_ok l"
  by (auto simp: admission_limits_new_def admission_limits_ok_def split: if_splits)

lemmas limits_new_ok = listener_config_new_ok http1_limits_new_ok buffer_limits_new_ok
  admission_limits_new_ok

lemma defaults_exist:
  "\<exists>l. listener_config_default = Inr l" "\<exists>h. http1_limits_default = Inr h"
  "\<exists>b. buffer_limits_default = Inr b" "\<exists>a. admission_limits_default = Inr a"
  by (simp_all add: listener_config_default_def listener_config_new_def
      TLS_PROVIDER_DEFAULT_MAX_BYTES_def http1_limits_default_def http1_limits_new_def
      buffer_limits_default_def buffer_limits_new_def admission_limits_default_def
      admission_limits_new_def)

lemma or_default_ok:
  "or_default given d = Inr x \<Longrightarrow> (\<forall>y. given = Some y \<longrightarrow> P y) \<Longrightarrow> (\<forall>y. d = Inr y \<longrightarrow> P y) \<Longrightarrow> P x"
  by (auto simp: or_default_def split: option.splits)

lemma gateway_config_newE:
  assumes "gateway_config_new ls n h b a dr wb mr w ac ct hs cl sg = Inr c"
  obtains ls' h' b' a' where
    "(if ls = [] then rbind listener_config_default (\<lambda>l. Inr [l]) else Inr ls) = Inr ls'"
    "or_default h http1_limits_default = Inr h'" "or_default b buffer_limits_default = Inr b'"
    "or_default a admission_limits_default = Inr a'"
    "0 \<le> n" "n \<le> 64" "0 < dr" "wb \<in> set waitset_backends"
    "0 < mr" "0 < w" "0 < ac" "0 < ct" "0 < hs" "0 < cl"
    "c = \<lparr>gc_listeners = ls', gc_carrier_count = n, gc_http1 = h', gc_buffers = b',
        gc_admission = a', gc_drain_timeout_ms = dr, gc_waitset_backend = wb,
        gc_max_requests_per_connection = mr, gc_write_timeout_ms = w, gc_accept_poll_ms = ac,
        gc_control_poll_ms = ct, gc_tls_handshake_timeout_ms = hs, gc_tls_close_timeout_ms = cl,
        gc_install_signal_handlers = sg\<rparr>"
  using assms by (auto simp: gateway_config_new_def rbind_eq_Inr not_le not_less)

lemma gateway_config_new_ok:
  assumes new: "gateway_config_new ls n h b a dr wb mr w ac ct hs cl sg = Inr c"
    and given: "list_all listener_ok ls" "pred_option http1_limits_ok h"
      "pred_option buffer_limits_ok b" "pred_option admission_limits_ok a"
  shows "config_ok c"
proof -
  from new obtain ls' h' b' a' where
    parts: "(if ls = [] then rbind listener_config_default (\<lambda>l. Inr [l]) else Inr ls) = Inr ls'"
      "or_default h http1_limits_default = Inr h'" "or_default b buffer_limits_default = Inr b'"
      "or_default a admission_limits_default = Inr a'"
    and c: "0 \<le> n" "n \<le> 64" "0 < dr" "wb \<in> set waitset_backends"
      "0 < mr" "0 < w" "0 < ac" "0 < ct" "0 < hs" "0 < cl"
      "c = \<lparr>gc_listeners = ls', gc_carrier_count = n, gc_http1 = h', gc_buffers = b',
          gc_admission = a', gc_drain_timeout_ms = dr, gc_waitset_backend = wb,
          gc_max_requests_per_connection = mr, gc_write_timeout_ms = w, gc_accept_poll_ms = ac,
          gc_control_poll_ms = ct, gc_tls_handshake_timeout_ms = hs, gc_tls_close_timeout_ms = cl,
          gc_install_signal_handlers = sg\<rparr>"
    by (rule gateway_config_newE)
  have ls: "ls' \<noteq> [] \<and> list_all listener_ok ls'"
    using parts(1) given(1)
    by (auto simp: rbind_eq_Inr listener_config_default_def dest: listener_config_new_ok
        split: if_splits)
  have h': "http1_limits_ok h'" using parts(2)
    by (rule or_default_ok) (use given(2) in \<open>auto simp: http1_limits_default_def dest: http1_limits_new_ok\<close>)
  have b': "buffer_limits_ok b'" using parts(3)
    by (rule or_default_ok) (use given(3) in \<open>auto simp: buffer_limits_default_def dest: buffer_limits_new_ok\<close>)
  have a': "admission_limits_ok a'" using parts(4)
    by (rule or_default_ok) (use given(4) in \<open>auto simp: admission_limits_default_def dest: admission_limits_new_ok\<close>)
  show ?thesis
    using c ls h' b' a' by (simp add: config_ok_def)
qed

lemma gateway_config_new_self:
  assumes "config_ok c"
  shows "gateway_config_new (gc_listeners c) (gc_carrier_count c) (Some (gc_http1 c))
    (Some (gc_buffers c)) (Some (gc_admission c)) (gc_drain_timeout_ms c) (gc_waitset_backend c)
    (gc_max_requests_per_connection c) (gc_write_timeout_ms c) (gc_accept_poll_ms c)
    (gc_control_poll_ms c) (gc_tls_handshake_timeout_ms c) (gc_tls_close_timeout_ms c)
    (gc_install_signal_handlers c) = Inr c"
  using assms by (simp add: gateway_config_new_def config_ok_def or_default_def raise_if_def not_le not_less)

lemma connection_parts_exist:
  assumes "config_ok c"
  shows "\<exists>codec. connection_codec c = Inr codec" "\<exists>out. connection_output c = Inr out"
    "\<exists>body. request_body_stream c s = Inr body"
  using assms
  by (auto simp: config_ok_def http1_limits_ok_def buffer_limits_ok_def connection_codec_def
      codec_new_def connection_output_def channel_new_def request_body_stream_def body_new_def Let_def)

section \<open>Properties\<close>

text \<open>C30 Every configuration that \<open>GatewayConfig\<close> accepts, from limits its own constructors
  accepted, satisfies the ranges the rest of the gateway relies on, and is one a connection can
  run on: building the HTTP/1 codec, the output buffer and a request body stream (streaming or
  not) from it raises nothing, the codec starts in the \<open>HEAD\<close> state, and a body can hold at
  least one full chunk.\<close>

theorem accepted_config_runs:
  assumes "gateway_config_new ls n h b a dr wb mr w ac ct hs cl sg = Inr c"
    and "list_all listener_ok ls" "pred_option http1_limits_ok h"
      "pred_option buffer_limits_ok b" "pred_option admission_limits_ok a"
  shows "config_ok c \<and>
    (\<exists>codec. connection_codec c = Inr codec \<and> cd_state codec = HEAD \<and>
       cd_max_chunk_bytes codec \<le> cd_max_body_bytes codec) \<and>
    (\<exists>out. connection_output c = Inr out) \<and> (\<forall>s. \<exists>body. request_body_stream c s = Inr body)"
proof -
  have ok: "config_ok c" by (rule gateway_config_new_ok [OF assms])
  then have "\<exists>codec. connection_codec c = Inr codec \<and> cd_state codec = HEAD \<and>
       cd_max_chunk_bytes codec \<le> cd_max_body_bytes codec"
    by (simp add: config_ok_def http1_limits_ok_def connection_codec_def codec_new_def)
  with ok show ?thesis by (simp add: connection_parts_exist)
qed

definition small_config :: "unit gateway_config result" where
  "small_config = gateway_config_new [] 2 None None None 100 (cp ''epoll'') 10 20 30 40 50 60 True"

lemma small_config_accepted: "small_config = Inr (projr small_config)"
  unfolding small_config_def by code_simp

theorem accepted_config_runs_witness:
  "config_ok (projr small_config) \<and> (\<exists>out. connection_output (projr small_config) = Inr out)"
  using accepted_config_runs [OF small_config_accepted [unfolded small_config_def]]
  by (simp add: small_config_def)

text \<open>\<open>replace\<close> with no argument gives back the same configuration; with any arguments it either
  fails or gives a valid configuration again, and each field of the result is the argument when
  one was given (non-negative, non-empty, not \<open>None\<close>) and the old field otherwise.\<close>

theorem config_replace_valid:
  assumes ok: "config_ok c"
    and given: "pred_option (list_all listener_ok) (ch_listeners ch)"
      "pred_option http1_limits_ok (ch_http1 ch)" "pred_option buffer_limits_ok (ch_buffers ch)"
      "pred_option admission_limits_ok (ch_admission ch)"
  shows "config_replace keep_all c = Inr c \<and>
    (\<forall>c'. config_replace ch c = Inr c' \<longrightarrow> config_ok c' \<and>
       c' = \<lparr>gc_listeners = gc_listeners c',
         gc_carrier_count = keep_neg (gc_carrier_count c) (ch_carrier_count ch),
         gc_http1 = case_option (gc_http1 c) id (ch_http1 ch),
         gc_buffers = case_option (gc_buffers c) id (ch_buffers ch),
         gc_admission = case_option (gc_admission c) id (ch_admission ch),
         gc_drain_timeout_ms = keep_neg (gc_drain_timeout_ms c) (ch_drain_timeout_ms ch),
         gc_waitset_backend =
           (if ch_waitset_backend ch = [] then gc_waitset_backend c else ch_waitset_backend ch),
         gc_max_requests_per_connection =
           keep_neg (gc_max_requests_per_connection c) (ch_max_requests_per_connection ch),
         gc_write_timeout_ms = keep_neg (gc_write_timeout_ms c) (ch_write_timeout_ms ch),
         gc_accept_poll_ms = keep_neg (gc_accept_poll_ms c) (ch_accept_poll_ms ch),
         gc_control_poll_ms = keep_neg (gc_control_poll_ms c) (ch_control_poll_ms ch),
         gc_tls_handshake_timeout_ms =
           keep_neg (gc_tls_handshake_timeout_ms c) (ch_tls_handshake_timeout_ms ch),
         gc_tls_close_timeout_ms = keep_neg (gc_tls_close_timeout_ms c) (ch_tls_close_timeout_ms ch),
         gc_install_signal_handlers =
           case_option (gc_install_signal_handlers c) id (ch_install_signal_handlers ch)\<rparr> \<and>
       (ch_listeners ch = None \<longrightarrow> gc_listeners c' = gc_listeners c) \<and>
       (\<forall>l ls. ch_listeners ch = Some (l # ls) \<longrightarrow> gc_listeners c' = l # ls))"
proof (intro conjI allI impI)
  show "config_replace keep_all c = Inr c"
    by (simp add: config_replace_def keep_all_def keep_neg_def gateway_config_new_self [OF ok])
next
  fix c' assume new: "config_replace ch c = Inr c'"
  show "config_ok c'"
    by (rule gateway_config_new_ok [OF new [unfolded config_replace_def]])
      (use ok given in \<open>auto simp: config_ok_def split: option.splits\<close>)
  show "c' = \<lparr>gc_listeners = gc_listeners c',
         gc_carrier_count = keep_neg (gc_carrier_count c) (ch_carrier_count ch),
         gc_http1 = case_option (gc_http1 c) id (ch_http1 ch),
         gc_buffers = case_option (gc_buffers c) id (ch_buffers ch),
         gc_admission = case_option (gc_admission c) id (ch_admission ch),
         gc_drain_timeout_ms = keep_neg (gc_drain_timeout_ms c) (ch_drain_timeout_ms ch),
         gc_waitset_backend =
           (if ch_waitset_backend ch = [] then gc_waitset_backend c else ch_waitset_backend ch),
         gc_max_requests_per_connection =
           keep_neg (gc_max_requests_per_connection c) (ch_max_requests_per_connection ch),
         gc_write_timeout_ms = keep_neg (gc_write_timeout_ms c) (ch_write_timeout_ms ch),
         gc_accept_poll_ms = keep_neg (gc_accept_poll_ms c) (ch_accept_poll_ms ch),
         gc_control_poll_ms = keep_neg (gc_control_poll_ms c) (ch_control_poll_ms ch),
         gc_tls_handshake_timeout_ms =
           keep_neg (gc_tls_handshake_timeout_ms c) (ch_tls_handshake_timeout_ms ch),
         gc_tls_close_timeout_ms = keep_neg (gc_tls_close_timeout_ms c) (ch_tls_close_timeout_ms ch),
         gc_install_signal_handlers =
           case_option (gc_install_signal_handlers c) id (ch_install_signal_handlers ch)\<rparr>"
    by (rule gateway_config_newE [OF new [unfolded config_replace_def]])
      (simp add: or_default_def id_def cong: option.case_cong)
  show "gc_listeners c' = gc_listeners c" if "ch_listeners ch = None"
    by (rule gateway_config_newE [OF new [unfolded config_replace_def]])
      (use that ok in \<open>simp add: config_ok_def\<close>)
  show "gc_listeners c' = l # ls" if "ch_listeners ch = Some (l # ls)" for l ls
    by (rule gateway_config_newE [OF new [unfolded config_replace_def]])
      (use that in simp)
qed

definition three_carriers :: "unit config_change" where
  "three_carriers = keep_all\<lparr>ch_carrier_count := 3\<rparr>"

lemma three_carriers_accepted:
  "config_replace three_carriers (projr small_config)
     = Inr (projr (config_replace three_carriers (projr small_config)))"
  by code_simp

theorem config_replace_valid_witness:
  "config_replace keep_all (projr small_config) = Inr (projr small_config) \<and>
   gc_carrier_count (projr (config_replace three_carriers (projr small_config))) = 3"
proof -
  have ok: "config_ok (projr small_config)"
    by (rule gateway_config_new_ok [OF small_config_accepted [unfolded small_config_def],
          folded small_config_def]) simp_all
  have given: "ch_listeners three_carriers = None" "ch_http1 three_carriers = None"
    "ch_buffers three_carriers = None" "ch_admission three_carriers = None"
    "keep_neg x (ch_carrier_count three_carriers) = 3" for x
    by (simp_all add: three_carriers_def keep_all_def keep_neg_def)
  show ?thesis
    using config_replace_valid [OF ok, of three_carriers, unfolded given] three_carriers_accepted
    by (metis gateway_config.select_convs(2) option.pred_inject(1))
qed

end
