(* ===== verification/Pipeline.thy ===== *)
theory Pipeline
  imports Models
begin

text \<open>
  Model of \<open>pcc_gateway/channel.py\<close>: the internal channel pipeline.  A stage is user code: a
  record with its name, direction and the three callbacks, each a function on the context it may
  change (its attributes, the objects behind \<open>cx_world\<close>) that may raise.  A callback returning
  \<open>None\<close> swallows the message.  The locale \<open>duplex\<close> is the contract of a stage whose inbound
  direction undoes its outbound direction.
\<close>

section \<open>Contexts and stages\<close>

definition INBOUND :: int where "INBOUND = 1"
definition OUTBOUND :: int where "OUTBOUND = 2"
definition BOTH :: int where "BOTH = 3"

record 'w channel_context =
  cx_connection_id :: int
  cx_generation :: nat
  cx_cancellation :: "cancellation option"
  cx_attributes :: "(pystr \<times> int) list"
  cx_closed :: bool
  cx_error :: "exn option"
  cx_world :: 'w   \<comment> \<open>the objects the stages own\<close>

definition context_new :: "int \<Rightarrow> nat \<Rightarrow> cancellation option \<Rightarrow> 'w \<Rightarrow> 'w channel_context" where
  "context_new connection_id generation cancellation w =
     \<lparr>cx_connection_id = connection_id, cx_generation = generation,
      cx_cancellation = cancellation, cx_attributes = [], cx_closed = False, cx_error = None,
      cx_world = w\<rparr>"

definition cancel_context :: "'w channel_context \<Rightarrow> 'w channel_context" where
  "cancel_context c =
     c\<lparr>cx_cancellation := map_option (cancellation_cancel ''channel closed'') (cx_cancellation c)\<rparr>"

definition context_close :: "exn option \<Rightarrow> 'w channel_context \<Rightarrow> 'w channel_context" where
  "context_close error c = cancel_context (c\<lparr>cx_closed := True, cx_error := error\<rparr>)"

type_synonym ('m, 'w) handler = "'w channel_context \<Rightarrow> 'm \<Rightarrow> 'w channel_context \<times> 'm option result"

record ('m, 'w) stage =
  sg_name :: pystr
  sg_direction :: int
  sg_inbound :: "('m, 'w) handler"
  sg_outbound :: "('m, 'w) handler"
  sg_close :: "'w channel_context \<Rightarrow> 'w channel_context \<times> unit result"

text \<open>The constructor of the base class, with its pass-through callbacks.\<close>

definition channel_stage_new :: "pystr \<Rightarrow> int \<Rightarrow> ('m, 'w) stage result" where
  "channel_stage_new name direction =
     (if name = [] \<or> direction \<notin> {INBOUND, OUTBOUND, BOTH}
      then Inl (ValueError ''invalid channel stage'')
      else Inr \<lparr>sg_name = name, sg_direction = direction,
                sg_inbound = (\<lambda>c message. (c, Inr (Some message))),
                sg_outbound = (\<lambda>c message. (c, Inr (Some message))),
                sg_close = (\<lambda>c. (c, Inr ()))\<rparr>)"

section \<open>The pipeline\<close>

fun check_names :: "pystr list \<Rightarrow> ('m, 'w) stage list \<Rightarrow> unit result" where
  "check_names names [] = Inr ()"
| "check_names names (stage # stages) =
     (if sg_name stage \<in> set names then Inl (ValueError ''duplicate channel stage name'')
      else check_names (sg_name stage # names) stages)"

definition pipeline_new :: "('m, 'w) stage list \<Rightarrow> ('m, 'w) stage list result" where
  "pipeline_new stages = rbind (check_names [] stages) (\<lambda>_. Inr stages)"

fun inbound_loop :: "('m, 'w) stage list \<Rightarrow> ('m, 'w) handler" where
  "inbound_loop [] c current = (c, Inr (Some current))"
| "inbound_loop (stage # stages) c current =
     (if sg_direction stage AND INBOUND \<noteq> 0 then
        case sg_inbound stage c current of
          (c', Inr (Some message)) \<Rightarrow> inbound_loop stages c' message
        | stop \<Rightarrow> stop
      else inbound_loop stages c current)"

text \<open>The \<open>while\<close> loop of \<open>outbound\<close>; the first argument is \<open>index + 1\<close>.\<close>

fun outbound_loop :: "nat \<Rightarrow> ('m, 'w) stage list \<Rightarrow> ('m, 'w) handler" where
  "outbound_loop 0 stages c current = (c, Inr (Some current))"
| "outbound_loop (Suc index) stages c current =
     (if sg_direction (stages ! index) AND OUTBOUND \<noteq> 0 then
        case sg_outbound (stages ! index) c current of
          (c', Inr (Some message)) \<Rightarrow> outbound_loop index stages c' message
        | stop \<Rightarrow> stop
      else outbound_loop index stages c current)"

definition guarded :: "string \<Rightarrow> 'w channel_context \<times> 'm option result \<Rightarrow>
    'w channel_context \<times> 'm option result" where
  "guarded text r =
     (case r of
       (c, Inl error) \<Rightarrow> (context_close (Some error) c, Inl (PipelineError text error))
     | (c, Inr m) \<Rightarrow> (c, Inr m))"

definition pipeline_inbound :: "('m, 'w) stage list \<Rightarrow> ('m, 'w) handler" where
  "pipeline_inbound stages c message =
     (if cx_closed c then (c, Inl (ChannelClosedError ''inbound message on closed channel''))
      else guarded ''inbound stage failed'' (inbound_loop stages c message))"

definition pipeline_outbound :: "('m, 'w) stage list \<Rightarrow> ('m, 'w) handler" where
  "pipeline_outbound stages c message =
     (if cx_closed c then (c, Inl (ChannelClosedError ''outbound message on closed channel''))
      else guarded ''outbound stage failed'' (outbound_loop (length stages) stages c message))"

fun close_stages :: "nat \<Rightarrow> ('m, 'w) stage list \<Rightarrow> exn option \<Rightarrow> 'w channel_context \<Rightarrow>
    'w channel_context \<times> exn option" where
  "close_stages 0 stages first_error c = (c, first_error)"
| "close_stages (Suc index) stages first_error c =
     (case sg_close (stages ! index) c of
       (c', Inl error) \<Rightarrow>
         close_stages index stages (if first_error = None then Some error else first_error) c'
     | (c', Inr _) \<Rightarrow> close_stages index stages first_error c')"

definition pipeline_close :: "('m, 'w) stage list \<Rightarrow> 'w channel_context \<Rightarrow> 'w channel_context" where
  "pipeline_close stages c =
     (if cx_closed c then c
      else case close_stages (length stages) stages None (c\<lparr>cx_closed := True\<rparr>) of
        (c1, first_error) \<Rightarrow>
          let c2 = cancel_context c1 in
          if first_error \<noteq> None then c2\<lparr>cx_error := first_error\<rparr> else c2)"

section \<open>The byte limit stage\<close>

definition count_bytes :: "pystr \<Rightarrow> int \<Rightarrow> string \<Rightarrow> (bytes, 'w) handler" where
  "count_bytes key limit text c message =
     (let count = (case map_of (cx_attributes c) key of None \<Rightarrow> 0 | Some n \<Rightarrow> n)
                    + int (length message) in
      if count > limit then (c, Inl (ValueError text))
      else (c\<lparr>cx_attributes := dict_set key count (cx_attributes c)\<rparr>, Inr (Some message)))"

definition byte_limit_stage :: "pystr \<Rightarrow> int \<Rightarrow> int \<Rightarrow> (bytes, 'w) stage result" where
  "byte_limit_stage name max_inbound max_outbound =
     rbind (channel_stage_new name BOTH) (\<lambda>stage.
       Inr (stage\<lparr>
         sg_inbound := count_bytes (name @ cp ''.in'') max_inbound ''channel inbound byte limit exceeded'',
         sg_outbound := count_bytes (name @ cp ''.out'') max_outbound ''channel outbound byte limit exceeded''\<rparr>))"

section \<open>The reversed view of the outbound and close loops\<close>

text \<open>What a stage does to a message in each direction, the direction test included.\<close>

definition run_in :: "('m, 'w) stage \<Rightarrow> ('m, 'w) handler" where
  "run_in stage c m =
     (if sg_direction stage AND INBOUND \<noteq> 0 then sg_inbound stage c m else (c, Inr (Some m)))"

definition run_out :: "('m, 'w) stage \<Rightarrow> ('m, 'w) handler" where
  "run_out stage c m =
     (if sg_direction stage AND OUTBOUND \<noteq> 0 then sg_outbound stage c m else (c, Inr (Some m)))"

fun compose :: "('m, 'w) handler list \<Rightarrow> ('m, 'w) handler" where
  "compose [] c m = (c, Inr (Some m))"
| "compose (f # fs) c m =
     (case f c m of (c', Inr (Some m')) \<Rightarrow> compose fs c' m' | stop \<Rightarrow> stop)"

lemma inbound_loop_compose: "inbound_loop stages c m = compose (map run_in stages) c m"
  by (induction stages arbitrary: c m) (auto simp: run_in_def split: prod.splits sum.splits option.splits)

lemma outbound_loop_append:
  "n \<le> length stages \<Longrightarrow> outbound_loop n (stages @ others) c m = outbound_loop n stages c m"
  by (induction n arbitrary: c m) (auto simp: nth_append split: prod.splits sum.splits option.splits)

lemma outbound_loop_compose:
  "outbound_loop (length stages) stages c m = compose (map run_out (rev stages)) c m"
proof (induction stages arbitrary: c m rule: rev_induct)
  case (snoc s stages)
  then show ?case
    by (auto simp: run_out_def outbound_loop_append split: prod.splits sum.splits option.splits)
qed simp

lemma compose_snoc:
  "compose (fs @ [f]) c m =
     (case compose fs c m of (c', Inr (Some m')) \<Rightarrow> f c' m' | stop \<Rightarrow> stop)"
  by (induction fs arbitrary: c m) (auto split: prod.splits sum.splits option.splits)

section \<open>The contract of a duplex stage\<close>

text \<open>Passing a sequence of messages through a handler, up to the first error.\<close>

fun pass_all :: "('m, 'w) handler \<Rightarrow> 'w channel_context \<Rightarrow> 'm list \<Rightarrow> 'w channel_context \<times> 'm list result" where
  "pass_all f c [] = (c, Inr [])"
| "pass_all f c (m # ms) =
     (case f c m of
       (c', Inl e) \<Rightarrow> (c', Inl e)
     | (c', Inr r) \<Rightarrow>
         (case pass_all f c' ms of
           (c'', Inl e) \<Rightarrow> (c'', Inl e)
         | (c'', Inr ws) \<Rightarrow> (c'', Inr (case r of None \<Rightarrow> ws | Some w \<Rightarrow> w # ws))))"

locale duplex =
  fixes inb outb :: "('m, 'w) handler"
  assumes undo: "outb c m = (c', Inr r) \<Longrightarrow>
    \<exists>w. r = Some w \<and> (\<forall>d d' r'. inb d w = (d', Inr r') \<longrightarrow> r' = Some m)"
begin

lemma pass_all_undo:
  "pass_all outb c ms = (c', Inr ws) \<Longrightarrow> pass_all inb d ws = (d', Inr rs) \<Longrightarrow> rs = ms"
proof (induction ms arbitrary: c ws d rs)
  case Nil
  then show ?case by simp
next
  case (Cons m ms)
  from Cons.prems(1) obtain c1 r ws1 where out: "outb c m = (c1, Inr r)"
    and rest: "pass_all outb c1 ms = (c', Inr ws1)"
    and ws: "ws = (case r of None \<Rightarrow> ws1 | Some w \<Rightarrow> w # ws1)"
    by (auto split: prod.splits sum.splits)
  from undo [OF out] obtain w where w: "r = Some w" "\<And>d d' r'. inb d w = (d', Inr r') \<Longrightarrow> r' = Some m"
    by blast
  from Cons.prems(2) ws w(1) obtain d1 r1 rs1 where inn: "inb d w = (d1, Inr r1)"
    and rest': "pass_all inb d1 ws1 = (d', Inr rs1)"
    and rs: "rs = (case r1 of None \<Rightarrow> rs1 | Some w \<Rightarrow> w # rs1)"
    by (auto split: prod.splits sum.splits)
  from Cons.IH [OF rest rest'] w(2) [OF inn] rs show ?case by simp
qed

end

lemma duplex_compose:
  "list_all (\<lambda>s. duplex (run_in s) (run_out s)) stages \<Longrightarrow>
     duplex (compose (map run_in stages)) (compose (map run_out (rev stages)))"
proof (induction stages)
  case Nil
  show ?case by unfold_locales simp
next
  case (Cons s stages)
  then have s: "duplex (run_in s) (run_out s)"
    and rest: "duplex (compose (map run_in stages)) (compose (map run_out (rev stages)))"
    by simp_all
  show ?case
  proof (unfold_locales, goal_cases)
    case (1 c m c' r)
    then have "(case compose (map run_out (rev stages)) c m of
        (c1, Inr (Some m1)) \<Rightarrow> run_out s c1 m1 | stop \<Rightarrow> stop) = (c', Inr r)"
      by (simp add: compose_snoc)
    then obtain c1 x where first: "compose (map run_out (rev stages)) c m = (c1, Inr x)"
      by (auto split: prod.splits sum.splits)
    from duplex.undo [OF rest first] obtain v where v: "x = Some v"
      "\<And>d d' r'. compose (map run_in stages) d v = (d', Inr r') \<Longrightarrow> r' = Some m" by blast
    with 1 first have "run_out s c1 v = (c', Inr r)"
      by (simp add: compose_snoc)
    from duplex.undo [OF s this] obtain w where w: "r = Some w"
      "\<And>d d' r'. run_in s d w = (d', Inr r') \<Longrightarrow> r' = Some v" by blast
    have "r' = Some m" if "compose (map run_in (s # stages)) d w = (d', Inr r')" for d d' r'
    proof -
      from that obtain d1 y where y: "run_in s d w = (d1, Inr y)"
        by (auto split: prod.splits sum.splits)
      from w(2) [OF y] that y show ?thesis by (auto intro: v(2))
    qed
    with w(1) show ?case by blast
  qed
qed

lemma guarded_Inr: "guarded text r = (c, Inr m) \<longleftrightarrow> r = (c, Inr m)"
  by (auto simp: guarded_def split: prod.splits sum.splits)

lemma duplex_pipeline:
  assumes "list_all (\<lambda>s. duplex (run_in s) (run_out s)) stages"
  shows "duplex (pipeline_inbound stages) (pipeline_outbound stages)"
proof (unfold_locales, goal_cases)
  case (1 c m c' r)
  then have "compose (map run_out (rev stages)) c m = (c', Inr r)"
    by (simp add: pipeline_outbound_def guarded_Inr outbound_loop_compose split: if_splits)
  from duplex.undo [OF duplex_compose [OF assms] this] show ?case
    by (auto simp: pipeline_inbound_def guarded_Inr inbound_loop_compose split: if_splits)
qed

text \<open>The module's own stages satisfy the contract: the base class, and the byte limit stage.\<close>

lemma base_stage_duplex:
  "channel_stage_new name direction = Inr s \<Longrightarrow> duplex (run_in s) (run_out s)"
  by unfold_locales (auto simp: channel_stage_new_def run_in_def run_out_def split: if_splits)

lemma count_bytes_keeps: "count_bytes key limit text c m = (c', Inr r) \<Longrightarrow> r = Some m"
  by (auto simp: count_bytes_def Let_def split: if_splits)

lemma byte_limit_stage_duplex:
  "byte_limit_stage name a b = Inr s \<Longrightarrow> duplex (run_in s) (run_out s)"
  by unfold_locales
    (auto simp: byte_limit_stage_def channel_stage_new_def rbind_eq_Inr run_in_def run_out_def
      dest!: count_bytes_keeps split: if_splits)

definition limit_stages :: "(pystr \<times> int \<times> int) list \<Rightarrow> (bytes, 'w) stage list" where
  "limit_stages specs =
     concat (map (\<lambda>(name, a, b). case byte_limit_stage name a b of Inl _ \<Rightarrow> [] | Inr s \<Rightarrow> [s]) specs)"

interpretation limited: duplex "pipeline_inbound (limit_stages specs)"
  "pipeline_outbound (limit_stages specs)" for specs
  by (rule duplex_pipeline)
    (auto simp: limit_stages_def list_all_iff dest: sym [THEN byte_limit_stage_duplex] split: sum.splits)

section \<open>Failures and closing\<close>

lemma cancel_context_simps [simp]:
  "cx_closed (cancel_context c) = cx_closed c" "cx_error (cancel_context c) = cx_error c"
  "cx_world (cancel_context c) = cx_world c"
  "cx_cancellation (cancel_context c) =
     map_option (cancellation_cancel ''channel closed'') (cx_cancellation c)"
  by (simp_all add: cancel_context_def)

lemma context_close_simps [simp]:
  "cx_closed (context_close e c)" "cx_error (context_close e c) = e"
  "cx_world (context_close e c) = cx_world c"
  "cx_cancellation (context_close e c) =
     map_option (cancellation_cancel ''channel closed'') (cx_cancellation c)"
  by (simp_all add: context_close_def)

text \<open>The effect of the close callbacks alone, and the first error they raise, in the order of the
  loop.\<close>

fun close_effects :: "('m, 'w) stage list \<Rightarrow> 'w channel_context \<Rightarrow> 'w channel_context" where
  "close_effects [] c = c"
| "close_effects (s # stages) c = close_effects stages (fst (sg_close s c))"

lemma close_stages_append:
  "n \<le> length stages \<Longrightarrow> close_stages n (stages @ others) e c = close_stages n stages e c"
  by (induction n arbitrary: c e) (auto simp: nth_append split: prod.splits sum.splits)

lemma close_stages_effects:
  "fst (close_stages (length stages) stages e c) = close_effects (rev stages) c"
proof (induction stages arbitrary: e c rule: rev_induct)
  case (snoc s stages)
  then show ?case by (simp add: close_stages_append split: prod.splits sum.splits)
qed simp

lemma close_effects_log:
  assumes "\<And>s c. s \<in> set stages \<Longrightarrow> cx_world (fst (sg_close s c)) = cx_world c @ [sg_name s]"
  shows "cx_world (close_effects stages c) = cx_world c @ map sg_name stages"
  using assms by (induction stages arbitrary: c) simp_all

lemma pipeline_close_log:
  assumes "\<not> cx_closed c"
    and "\<And>s c. s \<in> set stages \<Longrightarrow> cx_world (fst (sg_close s c)) = cx_world c @ [sg_name s]"
  shows "cx_world (pipeline_close stages c) = cx_world c @ rev (map sg_name stages)"
proof -
  have "cx_world (pipeline_close stages c) =
      cx_world (fst (close_stages (length stages) stages None (c\<lparr>cx_closed := True\<rparr>)))"
    using assms(1) by (simp add: pipeline_close_def Let_def split: prod.splits)
  also have "\<dots> = cx_world c @ map sg_name (rev stages)"
    unfolding close_stages_effects by (subst close_effects_log) (use assms(2) in auto)
  finally show ?thesis by (simp add: rev_map)
qed

section \<open>Byte limits\<close>

definition counted :: "pystr \<Rightarrow> 'w channel_context \<Rightarrow> int" where
  "counted key c = (case map_of (cx_attributes c) key of None \<Rightarrow> 0 | Some n \<Rightarrow> n)"

lemma count_bytes_step:
  "count_bytes key limit text c m = (c', Inr r) \<Longrightarrow>
     counted key c' = counted key c + int (length m) \<and> counted key c' \<le> limit \<and> cx_closed c' = cx_closed c"
  by (auto simp: count_bytes_def counted_def Let_def split: if_splits)

text \<open>What a byte limit stage has let through, over any number of messages, is what it counted,
  and stays within the limit.\<close>

lemma count_bytes_bound:
  "pass_all (count_bytes key limit text) c ms = (c', Inr rs) \<Longrightarrow> counted key c \<le> limit \<Longrightarrow>
     rs = ms \<and> counted key c' = counted key c + int (length (concat ms)) \<and> counted key c' \<le> limit"
proof (induction ms arbitrary: c rs)
  case (Cons m ms)
  from Cons.prems(1) obtain c1 r rs1 where step: "count_bytes key limit text c m = (c1, Inr r)"
    and rest: "pass_all (count_bytes key limit text) c1 ms = (c', Inr rs1)"
    and rs: "rs = (case r of None \<Rightarrow> rs1 | Some w \<Rightarrow> w # rs1)"
    by (auto split: prod.splits sum.splits)
  from Cons.IH [OF rest] count_bytes_step [OF step] count_bytes_keeps [OF step] rs
  show ?case by simp
qed simp

section \<open>Properties\<close>

lemma pipeline_inbound_error_closed:
  "pipeline_inbound stages c m = (c', Inl e) \<Longrightarrow> cx_closed c'"
  by (auto simp: pipeline_inbound_def guarded_def split: if_splits prod.splits sum.splits)

lemma pass_all_error_closed:
  "pass_all (pipeline_inbound stages) c ms = (c', Inl e) \<Longrightarrow> cx_closed c'"
  by (induction ms arbitrary: c)
    (auto dest: pipeline_inbound_error_closed split: prod.splits sum.splits)

text \<open>C31 When every stage undoes inbound what it does outbound, so does the pipeline, because it
  runs the stages in opposite orders: whatever sequence of messages one end sends, the other end
  (same stages, any context) either receives exactly that sequence, in order and unchanged, or
  its channel is closed by an error.\<close>

theorem pipeline_round_trip:
  assumes "list_all (\<lambda>s. duplex (run_in s) (run_out s)) stages"
    and "pass_all (pipeline_outbound stages) c ms = (c', Inr ws)"
  shows "(\<exists>d'. pass_all (pipeline_inbound stages) d ws = (d', Inr ms)) \<or>
    (\<exists>d' e. pass_all (pipeline_inbound stages) d ws = (d', Inl e) \<and> cx_closed d')"
proof (cases "pass_all (pipeline_inbound stages) d ws")
  case (Pair d' r)
  then show ?thesis
    using duplex.pass_all_undo [OF duplex_pipeline [OF assms(1)] assms(2)] pass_all_error_closed
    by (cases r) blast+
qed

definition frame_stage :: "(bytes, unit) stage" where
  "frame_stage = \<lparr>sg_name = cp ''frame'', sg_direction = BOTH,
     sg_inbound = (\<lambda>c m. (c, Inr (Some (tl m)))), sg_outbound = (\<lambda>c m. (c, Inr (Some (7 # m)))),
     sg_close = (\<lambda>c. (c, Inr ()))\<rparr>"

definition demo_stages :: "(bytes, unit) stage list" where
  "demo_stages = limit_stages [(cp ''wire'', 6, 100)] @ [frame_stage]"

lemma demo_stages_duplex: "list_all (\<lambda>s. duplex (run_in s) (run_out s)) demo_stages"
proof -
  have "duplex (run_in frame_stage) (run_out frame_stage)"
    by unfold_locales (auto simp: frame_stage_def run_in_def run_out_def BOTH_def INBOUND_def OUTBOUND_def)
  then show ?thesis
    by (auto simp: demo_stages_def limit_stages_def list_all_iff dest: sym [THEN byte_limit_stage_duplex]
        split: sum.splits)
qed

definition open_context :: "unit channel_context" where
  "open_context = context_new 1 1 (Some (cancellation_new 0)) ()"

lemma demo_wire: "snd (pass_all (pipeline_outbound demo_stages) open_context [[1, 2], [3]]) = Inr [[7, 1, 2], [7, 3]]"
  by code_simp

theorem pipeline_round_trip_witness:
  "(\<exists>d'. pass_all (pipeline_inbound demo_stages) open_context [[7, 1, 2], [7, 3]] = (d', Inr [[1, 2], [3]])) \<or>
    (\<exists>d' e. pass_all (pipeline_inbound demo_stages) open_context [[7, 1, 2], [7, 3]] = (d', Inl e) \<and> cx_closed d')"
  using pipeline_round_trip [OF demo_stages_duplex, of open_context "[[1, 2], [3]]"] demo_wire
  by (metis prod.collapse)

text \<open>A stage that raises, in either direction, closes the channel: the caller gets a
  \<open>PipelineError\<close> carrying the stage's error, the context keeps that error and its cancellation
  fires, every later message in either direction is refused.  A later \<open>close\<close> of the pipeline
  then changes nothing at all, so it runs no stage's close callback, whereas closing an open
  channel runs every one of them, last stage first, whichever of them raise.\<close>

theorem pipeline_failure_fences:
  assumes "\<not> cx_closed c"
    and "inbound_loop stages c m = (c1, Inl e) \<and> r = pipeline_inbound stages c m \<or>
      outbound_loop (length stages) stages c m = (c1, Inl e) \<and> r = pipeline_outbound stages c m"
  shows "r = (context_close (Some e) c1, snd r) \<and>
    snd r \<in> {Inl (PipelineError ''inbound stage failed'' e), Inl (PipelineError ''outbound stage failed'' e)} \<and>
    cx_error (fst r) = Some e \<and>
    (\<forall>k. cx_cancellation (fst r) = Some k \<longrightarrow> cancellation_check k = Inl (RuntimeError ''channel closed'')) \<and>
    (\<forall>m'. pipeline_inbound stages (fst r) m' =
        (fst r, Inl (ChannelClosedError ''inbound message on closed channel'')) \<and>
      pipeline_outbound stages (fst r) m' =
        (fst r, Inl (ChannelClosedError ''outbound message on closed channel''))) \<and>
    pipeline_close stages (fst r) = fst r \<and>
    ((\<forall>s \<in> set stages. \<forall>c. cx_world (fst (sg_close s c)) = cx_world c @ [sg_name s]) \<longrightarrow>
      cx_world (pipeline_close stages c) = cx_world c @ rev (map sg_name stages))"
proof -
  have r: "fst r = context_close (Some e) c1" "snd r \<in> {Inl (PipelineError ''inbound stage failed'' e),
      Inl (PipelineError ''outbound stage failed'' e)}"
    using assms by (auto simp: pipeline_inbound_def pipeline_outbound_def guarded_def)
  have "cancellation_check k = Inl (RuntimeError ''channel closed'')"
    if "cx_cancellation (fst r) = Some k" for k
    using that by (auto simp: r(1) cancellation_check_def cancellation_cancel_def)
  moreover have "r = (context_close (Some e) c1, snd r)"
    by (simp add: r(1) [symmetric])
  ultimately show ?thesis
    using r pipeline_close_log [OF assms(1), of stages]
    by (auto simp: pipeline_inbound_def pipeline_outbound_def pipeline_close_def)
qed

definition closing_stage :: "pystr \<Rightarrow> (bytes, pystr list) stage" where
  "closing_stage name = \<lparr>sg_name = name, sg_direction = BOTH,
     sg_inbound = (\<lambda>c m. (c, Inl (ValueError ''bad''))), sg_outbound = (\<lambda>c m. (c, Inr (Some m))),
     sg_close = (\<lambda>c. (c\<lparr>cx_world := cx_world c @ [name]\<rparr>, Inl (ValueError ''close'')))\<rparr>"

definition logged_context :: "pystr list channel_context" where
  "logged_context = context_new 1 1 None []"

theorem pipeline_failure_fences_witness:
  "cx_world (pipeline_close [closing_stage [1], closing_stage [2]]
      (fst (pipeline_inbound [closing_stage [1], closing_stage [2]] logged_context [0]))) = [] \<and>
   cx_world (pipeline_close [closing_stage [1], closing_stage [2]] logged_context) = [[2], [1]]"
proof -
  let ?stages = "[closing_stage [1], closing_stage [2]]"
  have fails: "inbound_loop ?stages logged_context [0] = (logged_context, Inl (ValueError ''bad''))"
    by (simp add: closing_stage_def BOTH_def INBOUND_def)
  have start: "\<not> cx_closed logged_context" "cx_world logged_context = []"
    by (simp_all add: logged_context_def context_new_def)
  have names: "sg_name (closing_stage n) = n" for n
    by (simp add: closing_stage_def)
  have logs: "\<forall>s \<in> set ?stages. \<forall>c. cx_world (fst (sg_close s c)) = cx_world c @ [sg_name s]"
    by (simp add: closing_stage_def)
  let ?r = "pipeline_inbound ?stages logged_context [0]"
  have "?r = (context_close (Some (ValueError ''bad'')) logged_context, snd ?r)"
    and same: "pipeline_close ?stages (fst ?r) = fst ?r"
    and log: "cx_world (pipeline_close ?stages logged_context) = cx_world logged_context @ rev (map sg_name ?stages)"
    using pipeline_failure_fences [OF start(1), of ?stages "[0]" logged_context "ValueError ''bad''" ?r] fails logs
    by blast+
  then have "cx_world (fst ?r) = []"
    by (metis context_close_simps(3) fst_conv start(2))
  with same log show ?thesis
    by (simp add: start(2) names)
qed

end
