(* ===== verification/Control.thy ===== *)
theory Control
  imports Prelude
begin

text \<open>
  Model of \<open>pcc_gateway/control.py\<close>: the process-wide signal ownership.  The native ABI is a
  parameter: a record of its identity fields and of the three calls, each a function on the state
  of the process behind it that may raise and whose value need not be an \<open>int\<close>.
  \<open>GatewayControlHostModel\<close> is one such ABI, modelled in full.  The locale \<open>process_signals\<close> is the
  contract of the ABI that the module's header documents; the wrappers are proved against it and
  the host model is an interpretation.
\<close>

section \<open>Constants and the poll snapshot\<close>

definition CONTROL_STOP :: int where "CONTROL_STOP = 1"
definition CONTROL_RELOAD :: int where "CONTROL_RELOAD = 2"
definition CONTROL_KNOWN_FLAGS :: int where "CONTROL_KNOWN_FLAGS = CONTROL_STOP OR CONTROL_RELOAD"

definition CONTROL_ERROR_BUSY :: int where "CONTROL_ERROR_BUSY = -1"
definition CONTROL_ERROR_NOT_OWNER :: int where "CONTROL_ERROR_NOT_OWNER = -2"
definition CONTROL_ERROR_PLATFORM :: int where "CONTROL_ERROR_PLATFORM = -3"
definition CONTROL_ERROR_CONTRACT :: int where "CONTROL_ERROR_CONTRACT = -4"

definition SIGHUP :: int where "SIGHUP = 1"
definition SIGINT :: int where "SIGINT = 2"
definition SIGPIPE :: int where "SIGPIPE = 13"
definition SIGTERM :: int where "SIGTERM = 15"

lemmas control_consts = CONTROL_STOP_def CONTROL_RELOAD_def CONTROL_ERROR_BUSY_def
  CONTROL_ERROR_NOT_OWNER_def CONTROL_ERROR_PLATFORM_def CONTROL_ERROR_CONTRACT_def
  SIGHUP_def SIGINT_def SIGPIPE_def SIGTERM_def

record control_poll =
  gq_flags :: int
  gq_stop_requested :: bool
  gq_reload_requested :: bool

definition control_poll_new :: "int \<Rightarrow> control_poll result" where
  "control_poll_new flags =
     (if flags < 0 \<or> flags AND (NOT CONTROL_KNOWN_FLAGS) \<noteq> 0
      then Inl (GatewayControlError ''poll-contract'' CONTROL_ERROR_CONTRACT)
      else Inr \<lparr>gq_flags = flags, gq_stop_requested = (flags AND CONTROL_STOP \<noteq> 0),
                gq_reload_requested = (flags AND CONTROL_RELOAD \<noteq> 0)\<rparr>)"

definition control_poll_empty :: "control_poll \<Rightarrow> bool" where
  "control_poll_empty q \<longleftrightarrow> gq_flags q = 0"

section \<open>The native ABI and its owner\<close>

text \<open>What a call of the ABI returns: an \<open>int\<close>, or some other object.\<close>

datatype abi_value = AbiInt int | AbiOther

record 'a control_abi =
  ca_version :: int
  ca_name :: string
  ca_production_ready :: "bool option"   \<comment> \<open>\<open>None\<close>: absent or not a bool\<close>
  ca_link_boundary :: string
  ca_callable :: "string \<Rightarrow> bool"
  ca_install :: "'a \<Rightarrow> 'a \<times> abi_value result"
  ca_poll :: "int \<Rightarrow> 'a \<Rightarrow> 'a \<times> abi_value result"
  ca_uninstall :: "int \<Rightarrow> 'a \<Rightarrow> 'a \<times> abi_value result"

record process_control =
  gp_owner :: int
  gp_installed :: bool

definition process_control_new :: "'a control_abi \<Rightarrow> process_control result" where
  "process_control_new abi =
     (if ca_version abi \<noteq> 1 then Inl (GatewayControlError ''abi-version'' CONTROL_ERROR_CONTRACT)
      else if ca_name abi \<noteq> ''pcc-native-gateway-control-v1''
      then Inl (GatewayControlError ''abi-name'' CONTROL_ERROR_CONTRACT)
      else if ca_production_ready abi = None
      then Inl (GatewayControlError ''abi-provenance'' CONTROL_ERROR_CONTRACT)
      else if ca_link_boundary abi = ''''
      then Inl (GatewayControlError ''abi-provenance'' CONTROL_ERROR_CONTRACT)
      else if \<not> list_all (ca_callable abi) [''install'', ''poll'', ''uninstall'']
      then Inl (GatewayControlError ''abi-method'' CONTROL_ERROR_CONTRACT)
      else Inr \<lparr>gp_owner = 0, gp_installed = False\<rparr>)"

definition control_install ::
  "'a control_abi \<Rightarrow> process_control \<Rightarrow> 'a \<Rightarrow> process_control \<times> 'a \<times> unit result" where
  "control_install abi g w =
     (if gp_installed g \<or> gp_owner g \<noteq> 0
      then (g, w, Inl (GatewayControlError ''install-state'' CONTROL_ERROR_CONTRACT))
      else case ca_install abi w of
        (w', Inl _) \<Rightarrow> (g, w', Inl (GatewayControlError ''install'' CONTROL_ERROR_PLATFORM))
      | (w', Inr AbiOther) \<Rightarrow> (g, w', Inl (GatewayControlError ''install'' CONTROL_ERROR_CONTRACT))
      | (w', Inr (AbiInt owner)) \<Rightarrow>
          if owner \<le> 0 then (g, w', Inl (GatewayControlError ''install'' owner))
          else (g\<lparr>gp_owner := owner, gp_installed := True\<rparr>, w', Inr ()))"

definition control_poll_flags ::
  "'a control_abi \<Rightarrow> process_control \<Rightarrow> 'a \<Rightarrow> 'a \<times> control_poll result" where
  "control_poll_flags abi g w =
     (if \<not> gp_installed g \<or> gp_owner g \<le> 0
      then (w, Inl (GatewayControlError ''poll-state'' CONTROL_ERROR_NOT_OWNER))
      else case ca_poll abi (gp_owner g) w of
        (w', Inl _) \<Rightarrow> (w', Inl (GatewayControlError ''poll'' CONTROL_ERROR_PLATFORM))
      | (w', Inr AbiOther) \<Rightarrow> (w', Inl (GatewayControlError ''poll-contract'' CONTROL_ERROR_CONTRACT))
      | (w', Inr (AbiInt flags)) \<Rightarrow>
          if flags < 0 then (w', Inl (GatewayControlError ''poll'' flags))
          else (w', control_poll_new flags))"

definition control_uninstall ::
  "'a control_abi \<Rightarrow> process_control \<Rightarrow> 'a \<Rightarrow> process_control \<times> 'a \<times> unit result" where
  "control_uninstall abi g w =
     (if \<not> gp_installed g \<or> gp_owner g \<le> 0
      then (g, w, Inl (GatewayControlError ''uninstall-state'' CONTROL_ERROR_NOT_OWNER))
      else case ca_uninstall abi (gp_owner g) w of
        (w', Inl _) \<Rightarrow> (g, w', Inl (GatewayControlError ''uninstall'' CONTROL_ERROR_PLATFORM))
      | (w', Inr AbiOther) \<Rightarrow> (g, w', Inl (GatewayControlError ''uninstall-contract'' CONTROL_ERROR_CONTRACT))
      | (w', Inr (AbiInt status)) \<Rightarrow>
          if status \<noteq> 0 then (g, w', Inl (GatewayControlError ''uninstall'' status))
          else (g\<lparr>gp_owner := 0, gp_installed := False\<rparr>, w', Inr ()))"

section \<open>The host model\<close>

type_synonym dispositions = "(int \<times> string) list"

record host_model =
  hm_dispositions :: dispositions
  hm_saved_dispositions :: "dispositions option"
  hm_owner :: int
  hm_next_owner :: int
  hm_pending_flags :: int

definition disposition_of :: "dispositions \<Rightarrow> int \<Rightarrow> string" where
  "disposition_of d signal_number =
     (case map_of d signal_number of None \<Rightarrow> ''default'' | Some x \<Rightarrow> x)"

definition host_model_new :: "dispositions \<Rightarrow> host_model" where
  "host_model_new previous =
     \<lparr>hm_dispositions = map (\<lambda>s. (s, disposition_of previous s)) [SIGHUP, SIGINT, SIGPIPE, SIGTERM],
      hm_saved_dispositions = None, hm_owner = 0, hm_next_owner = 1, hm_pending_flags = 0\<rparr>"

definition host_install :: "host_model \<Rightarrow> host_model \<times> abi_value result" where
  "host_install h =
     (if hm_owner h \<noteq> 0 then (h, Inr (AbiInt CONTROL_ERROR_BUSY))
      else
        let owner = hm_next_owner h;
            h1 = h\<lparr>hm_next_owner := hm_next_owner h + 1,
                   hm_saved_dispositions := Some (hm_dispositions h)\<rparr>;
            h2 = h1\<lparr>hm_dispositions := dict_set SIGTERM ''drain'' (hm_dispositions h1)\<rparr>;
            h3 = h2\<lparr>hm_dispositions := dict_set SIGINT ''drain'' (hm_dispositions h2)\<rparr>;
            h4 = h3\<lparr>hm_dispositions := dict_set SIGHUP ''reload'' (hm_dispositions h3)\<rparr>;
            h5 = h4\<lparr>hm_dispositions := dict_set SIGPIPE ''ignore'' (hm_dispositions h4)\<rparr>
        in (h5\<lparr>hm_pending_flags := 0, hm_owner := owner\<rparr>, Inr (AbiInt owner)))"

definition host_poll :: "int \<Rightarrow> host_model \<Rightarrow> host_model \<times> abi_value result" where
  "host_poll owner h =
     (if owner \<le> 0 \<or> owner \<noteq> hm_owner h then (h, Inr (AbiInt CONTROL_ERROR_NOT_OWNER))
      else (h\<lparr>hm_pending_flags := 0\<rparr>, Inr (AbiInt (hm_pending_flags h))))"

definition host_uninstall :: "int \<Rightarrow> host_model \<Rightarrow> host_model \<times> abi_value result" where
  "host_uninstall owner h =
     (if owner \<le> 0 \<or> owner \<noteq> hm_owner h then (h, Inr (AbiInt CONTROL_ERROR_NOT_OWNER))
      else case hm_saved_dispositions h of
        None \<Rightarrow> (h, Inr (AbiInt CONTROL_ERROR_CONTRACT))
      | Some saved \<Rightarrow>
          (h\<lparr>hm_dispositions := saved, hm_saved_dispositions := None, hm_pending_flags := 0,
             hm_owner := 0\<rparr>, Inr (AbiInt 0)))"

definition host_deliver :: "int \<Rightarrow> host_model \<Rightarrow> host_model \<times> bool" where
  "host_deliver signal_number h =
     (if hm_owner h = 0 then (h, False)
      else if signal_number = SIGTERM \<or> signal_number = SIGINT
      then (h\<lparr>hm_pending_flags := hm_pending_flags h OR CONTROL_STOP\<rparr>, True)
      else if signal_number = SIGHUP
      then (h\<lparr>hm_pending_flags := hm_pending_flags h OR CONTROL_RELOAD\<rparr>, True)
      else if signal_number = SIGPIPE then (h, True)
      else (h, False))"

definition host_abi :: "host_model control_abi" where
  "host_abi = \<lparr>ca_version = 1, ca_name = ''pcc-native-gateway-control-v1'',
     ca_production_ready = Some False,
     ca_link_boundary = ''python-host-model:test-only;no-real-signal-install'',
     ca_callable = (\<lambda>_. True), ca_install = host_install, ca_poll = host_poll,
     ca_uninstall = host_uninstall\<rparr>"

section \<open>Several owners in one process\<close>

text \<open>The calls of any number of wrappers that share one process, interleaved with signals; the
  ghost list holds the signals that arrived since the last poll of the owner.\<close>

datatype control_op = OpInstall nat | OpPoll nat | OpUninstall nat | OpSignal int

record 'a control_world =
  cw_process :: 'a
  cw_wrappers :: "process_control list"
  cw_arrived :: "int list"
  cw_polls :: "(nat \<times> int list \<times> control_poll result) list"   \<comment> \<open>the results of the polls of owners\<close>

definition control_world_new :: "nat \<Rightarrow> 'a \<Rightarrow> 'a control_world" where
  "control_world_new n w = \<lparr>cw_process = w,
     cw_wrappers = replicate n \<lparr>gp_owner = 0, gp_installed = False\<rparr>, cw_arrived = [], cw_polls = []\<rparr>"

fun control_step ::
  "'a control_abi \<Rightarrow> (int \<Rightarrow> 'a \<Rightarrow> 'a) \<Rightarrow> control_op \<Rightarrow> 'a control_world \<Rightarrow> 'a control_world" where
  "control_step abi deliver (OpInstall i) s =
     (if i < length (cw_wrappers s) then
        case control_install abi (cw_wrappers s ! i) (cw_process s) of
          (g, w, r) \<Rightarrow> s\<lparr>cw_wrappers := (cw_wrappers s)[i := g], cw_process := w,
            cw_arrived := if r = Inr () then [] else cw_arrived s\<rparr>
      else s)"
| "control_step abi deliver (OpPoll i) s =
     (if i < length (cw_wrappers s) then
        case control_poll_flags abi (cw_wrappers s ! i) (cw_process s) of
          (w, r) \<Rightarrow>
            if gp_installed (cw_wrappers s ! i)
            then s\<lparr>cw_process := w, cw_arrived := [], cw_polls := cw_polls s @ [(i, cw_arrived s, r)]\<rparr>
            else s\<lparr>cw_process := w\<rparr>
      else s)"
| "control_step abi deliver (OpUninstall i) s =
     (if i < length (cw_wrappers s) then
        case control_uninstall abi (cw_wrappers s ! i) (cw_process s) of
          (g, w, r) \<Rightarrow> s\<lparr>cw_wrappers := (cw_wrappers s)[i := g], cw_process := w\<rparr>
      else s)"
| "control_step abi deliver (OpSignal n) s =
     s\<lparr>cw_process := deliver n (cw_process s), cw_arrived := cw_arrived s @ [n]\<rparr>"

definition control_run where
  "control_run abi deliver ops s = fold (control_step abi deliver) ops s"

section \<open>The contract of the ABI\<close>

text \<open>The flag a signal sets, the flags of a sequence of signals, and the dispositions while the
  gateway owns the process.\<close>

definition signal_flag :: "int \<Rightarrow> int" where
  "signal_flag n =
     (if n = SIGTERM \<or> n = SIGINT then CONTROL_STOP else if n = SIGHUP then CONTROL_RELOAD else 0)"

definition flags_of :: "int list \<Rightarrow> int" where
  "flags_of ns = foldl (\<lambda>f n. f OR signal_flag n) 0 ns"

definition owned_disposition :: "(int \<Rightarrow> string) \<Rightarrow> int \<Rightarrow> string" where
  "owned_disposition d =
     d(SIGTERM := ''drain'', SIGINT := ''drain'', SIGHUP := ''reload'', SIGPIPE := ''ignore'')"

definition snapshot_of :: "int list \<Rightarrow> control_poll" where
  "snapshot_of ns = \<lparr>gq_flags = flags_of ns,
     gq_stop_requested = (SIGTERM \<in> set ns \<or> SIGINT \<in> set ns),
     gq_reload_requested = (SIGHUP \<in> set ns)\<rparr>"

lemma flags_of_cases:
  "flags_of ns = (if SIGTERM \<in> set ns \<or> SIGINT \<in> set ns then 1 else 0) +
     (if SIGHUP \<in> set ns then 2 else 0)"
proof (induction ns rule: rev_induct)
  case (snoc n ns)
  then show ?case by (auto simp: flags_of_def signal_flag_def control_consts)
qed (simp add: flags_of_def)

lemma flags_of_snoc: "flags_of (ns @ [n]) = flags_of ns OR signal_flag n"
  by (simp add: flags_of_def)

lemma control_poll_new_flags: "control_poll_new (flags_of ns) = Inr (snapshot_of ns)"
  unfolding control_poll_new_def snapshot_of_def CONTROL_KNOWN_FLAGS_def
  by (simp add: flags_of_cases control_consts)

text \<open>The wrappers of a process whose owner is \<open>k\<close> (\<open>0\<close>: nobody): exactly one is installed while
  there is an owner, and it holds that owner's capability.\<close>

definition wrappers_ok :: "int \<Rightarrow> process_control list \<Rightarrow> bool" where
  "wrappers_ok k gs \<longleftrightarrow> 0 \<le> k \<and>
     (\<forall>g \<in> set gs. gp_installed g \<longleftrightarrow> gp_owner g \<noteq> 0) \<and>
     (\<forall>g \<in> set gs. gp_installed g \<longrightarrow> gp_owner g = k) \<and>
     length (filter gp_installed gs) = (if k = 0 then 0 else 1)"

lemma filter_update_length:
  "i < length gs \<Longrightarrow> length (filter P (gs[i := g])) + (if P (gs ! i) then 1 else 0)
     = length (filter P gs) + (if P g then 1 else 0)"
proof (induction gs arbitrary: i)
  case (Cons a gs)
  then show ?case using Cons.IH [of "i - 1"] by (cases i) auto
qed simp

lemma wrappers_ok_nth:
  "wrappers_ok k gs \<Longrightarrow> i < length gs \<Longrightarrow> gp_installed (gs ! i) \<Longrightarrow> gp_owner (gs ! i) = k \<and> 0 < k"
  by (fastforce simp: wrappers_ok_def)

lemma wrappers_ok_free:
  "wrappers_ok k gs \<Longrightarrow> i < length gs \<Longrightarrow> \<not> gp_installed (gs ! i) \<Longrightarrow> gp_owner (gs ! i) = 0"
  by (auto simp: wrappers_ok_def)

lemma wrappers_ok_claim:
  assumes "wrappers_ok 0 gs" "i < length gs" "0 < k"
  shows "wrappers_ok k (gs[i := (gs ! i)\<lparr>gp_owner := k, gp_installed := True\<rparr>])"
proof -
  have "\<not> gp_installed g" if "g \<in> set gs" for g
    using assms(1) that by (auto simp: wrappers_ok_def filter_empty_conv)
  then show ?thesis
    using assms filter_update_length [OF assms(2), of gp_installed "(gs ! i)\<lparr>gp_owner := k, gp_installed := True\<rparr>"]
    by (auto simp: wrappers_ok_def dest!: set_update_subset_insert [THEN subsetD])
qed

lemma wrappers_ok_give_up:
  assumes "wrappers_ok k gs" "i < length gs" "gp_installed (gs ! i)"
  shows "wrappers_ok 0 (gs[i := (gs ! i)\<lparr>gp_owner := 0, gp_installed := False\<rparr>])"
proof -
  let ?gs = "gs[i := (gs ! i)\<lparr>gp_owner := 0, gp_installed := False\<rparr>]"
  have "length (filter gp_installed ?gs) = 0"
    using assms filter_update_length [OF assms(2), of gp_installed "(gs ! i)\<lparr>gp_owner := 0, gp_installed := False\<rparr>"]
    by (auto simp: wrappers_ok_def split: if_splits)
  moreover have "gp_installed g \<longleftrightarrow> gp_owner g \<noteq> 0" if "g \<in> set ?gs" for g
    using assms(1) set_update_subset_insert [THEN subsetD, OF that] by (auto simp: wrappers_ok_def)
  ultimately show ?thesis
    by (auto simp: wrappers_ok_def filter_empty_conv)
qed

locale process_signals =
  fixes abi :: "'a control_abi" and deliver :: "int \<Rightarrow> 'a \<Rightarrow> 'a"
    and inv :: "'a \<Rightarrow> bool" and owner_of :: "'a \<Rightarrow> int" and pending :: "'a \<Rightarrow> int"
    and disp before :: "'a \<Rightarrow> int \<Rightarrow> string"
  assumes install_free: "inv w \<Longrightarrow> owner_of w = 0 \<Longrightarrow> \<exists>w' k. ca_install abi w = (w', Inr (AbiInt k)) \<and>
      0 < k \<and> inv w' \<and> owner_of w' = k \<and> pending w' = 0 \<and> disp w' = owned_disposition (disp w) \<and>
      before w' = disp w"
    and install_busy: "inv w \<Longrightarrow> owner_of w \<noteq> 0 \<Longrightarrow> ca_install abi w = (w, Inr (AbiInt CONTROL_ERROR_BUSY))"
    and poll_owner: "inv w \<Longrightarrow> 0 < k \<Longrightarrow> owner_of w = k \<Longrightarrow>
      \<exists>w'. ca_poll abi k w = (w', Inr (AbiInt (pending w))) \<and> inv w' \<and> owner_of w' = k \<and>
        pending w' = 0 \<and> disp w' = disp w \<and> before w' = before w"
    and uninstall_owner: "inv w \<Longrightarrow> 0 < k \<Longrightarrow> owner_of w = k \<Longrightarrow>
      \<exists>w'. ca_uninstall abi k w = (w', Inr (AbiInt 0)) \<and> inv w' \<and> owner_of w' = 0 \<and> disp w' = before w"
    and deliver_signal: "inv w \<Longrightarrow> inv (deliver n w) \<and> owner_of (deliver n w) = owner_of w \<and>
      disp (deliver n w) = disp w \<and> before (deliver n w) = before w \<and>
      (owner_of w \<noteq> 0 \<longrightarrow> pending (deliver n w) = pending w OR signal_flag n)"
begin

text \<open>The state of the process matches its wrappers and what arrived; the dispositions are the
  ones \<open>d\<close> from before exactly while nobody is installed, and every poll reported what arrived.\<close>

definition world_ok :: "(int \<Rightarrow> string) \<Rightarrow> 'a control_world \<Rightarrow> bool" where
  "world_ok d s \<longleftrightarrow>
     inv (cw_process s) \<and> wrappers_ok (owner_of (cw_process s)) (cw_wrappers s) \<and>
     (if owner_of (cw_process s) = 0 then disp (cw_process s) = d
      else pending (cw_process s) = flags_of (cw_arrived s) \<and> before (cw_process s) = d \<and>
        disp (cw_process s) = owned_disposition d) \<and>
     (\<forall>(i, ns, r) \<in> set (cw_polls s). r = Inr (snapshot_of ns))"

lemma world_ok_new:
  "inv w \<Longrightarrow> owner_of w = 0 \<Longrightarrow> world_ok (disp w) (control_world_new n w)"
  by (simp add: world_ok_def control_world_new_def wrappers_ok_def)

lemma install_step:
  assumes ok: "world_ok d s"
  shows "world_ok d (control_step abi deliver (OpInstall i) s)"
proof -
  let ?w = "cw_process s" and ?gs = "cw_wrappers s"
  consider (free) "i < length ?gs" "\<not> gp_installed (?gs ! i)" "owner_of ?w = 0"
    | (busy) "i < length ?gs" "\<not> gp_installed (?gs ! i)" "owner_of ?w \<noteq> 0"
    | (other) "\<not> (i < length ?gs \<and> \<not> gp_installed (?gs ! i))" by blast
  then show ?thesis
  proof cases
    case free
    with ok obtain w' k where step: "ca_install abi ?w = (w', Inr (AbiInt k))"
      and w': "0 < k" "inv w'" "owner_of w' = k" "pending w' = 0"
        "disp w' = owned_disposition (disp ?w)" "before w' = disp ?w"
      using install_free [of ?w] by (auto simp: world_ok_def)
    have "gp_owner (?gs ! i) = 0"
      using ok free wrappers_ok_free [of 0 ?gs i] by (simp add: world_ok_def)
    with free step w' have "control_step abi deliver (OpInstall i) s =
      s\<lparr>cw_wrappers := ?gs[i := (?gs ! i)\<lparr>gp_owner := k, gp_installed := True\<rparr>], cw_process := w',
        cw_arrived := []\<rparr>"
      by (simp add: control_install_def)
    with ok free w' wrappers_ok_claim [of ?gs i k] show ?thesis
      by (simp add: world_ok_def flags_of_def)
  next
    case busy
    with ok have "control_step abi deliver (OpInstall i) s = s"
      using install_busy [of ?w] by (auto simp: world_ok_def control_install_def CONTROL_ERROR_BUSY_def)
    with ok show ?thesis by simp
  next
    case other
    then have "control_step abi deliver (OpInstall i) s = s" by (auto simp: control_install_def)
    with ok show ?thesis by simp
  qed
qed

lemma poll_step:
  assumes ok: "world_ok d s"
  shows "world_ok d (control_step abi deliver (OpPoll i) s)"
proof (cases "i < length (cw_wrappers s) \<and> gp_installed (cw_wrappers s ! i)")
  case True
  let ?w = "cw_process s"
  from ok True have own: "gp_owner (cw_wrappers s ! i) = owner_of ?w" "owner_of ?w > 0"
    using wrappers_ok_nth by (auto simp: world_ok_def)
  with ok obtain w' where step: "ca_poll abi (owner_of ?w) ?w = (w', Inr (AbiInt (pending ?w)))"
    and w': "inv w'" "owner_of w' = owner_of ?w" "pending w' = 0" "disp w' = disp ?w" "before w' = before ?w"
    using poll_owner [of ?w "owner_of ?w"] by (auto simp: world_ok_def)
  have flags: "pending ?w = flags_of (cw_arrived s)" "\<not> flags_of (cw_arrived s) < 0"
    using ok own by (auto simp: world_ok_def flags_of_cases)
  have "control_step abi deliver (OpPoll i) s = s\<lparr>cw_process := w', cw_arrived := [],
      cw_polls := cw_polls s @ [(i, cw_arrived s, Inr (snapshot_of (cw_arrived s)))]\<rparr>"
    using True own step flags by (simp add: control_poll_flags_def control_poll_new_flags)
  with ok own w' show ?thesis
    by (simp add: world_ok_def flags_of_def)
next
  case False
  then have "control_step abi deliver (OpPoll i) s = s"
    by (auto simp: control_poll_flags_def)
  with ok show ?thesis by simp
qed

lemma uninstall_step:
  assumes ok: "world_ok d s"
  shows "world_ok d (control_step abi deliver (OpUninstall i) s)"
proof (cases "i < length (cw_wrappers s) \<and> gp_installed (cw_wrappers s ! i)")
  case True
  let ?w = "cw_process s" and ?gs = "cw_wrappers s"
  from ok True have own: "gp_owner (?gs ! i) = owner_of ?w" "owner_of ?w > 0"
    using wrappers_ok_nth by (auto simp: world_ok_def)
  with ok obtain w' where step: "ca_uninstall abi (owner_of ?w) ?w = (w', Inr (AbiInt 0))"
    and w': "inv w'" "owner_of w' = 0" "disp w' = before ?w"
    using uninstall_owner [of ?w "owner_of ?w"] by (auto simp: world_ok_def)
  have "control_step abi deliver (OpUninstall i) s = s\<lparr>cw_process := w',
      cw_wrappers := ?gs[i := (?gs ! i)\<lparr>gp_owner := 0, gp_installed := False\<rparr>]\<rparr>"
    using True own step by (simp add: control_uninstall_def)
  with ok own True w' wrappers_ok_give_up [of "owner_of ?w" ?gs i] show ?thesis
    by (simp add: world_ok_def)
next
  case False
  then have "control_step abi deliver (OpUninstall i) s = s"
    by (auto simp: control_uninstall_def)
  with ok show ?thesis by simp
qed

lemma signal_step: "world_ok d s \<Longrightarrow> world_ok d (control_step abi deliver (OpSignal n) s)"
  using deliver_signal [of "cw_process s" n] by (auto simp: world_ok_def flags_of_snoc)

lemma run_ok: "world_ok d s \<Longrightarrow> world_ok d (control_run abi deliver ops s)"
  unfolding control_run_def
proof (induction ops arbitrary: s)
  case (Cons p ops)
  have "world_ok d (control_step abi deliver p s)"
    by (cases p) (simp_all only: install_step poll_step uninstall_step signal_step Cons.prems)
  from Cons.IH [OF this] show ?case by simp
qed simp

end

section \<open>The host model satisfies the contract\<close>

definition host_ok :: "host_model \<Rightarrow> bool" where
  "host_ok h \<longleftrightarrow> 1 \<le> hm_next_owner h \<and> 0 \<le> hm_owner h \<and>
     (hm_owner h \<noteq> 0 \<longleftrightarrow> hm_saved_dispositions h \<noteq> None)"

definition host_before :: "host_model \<Rightarrow> int \<Rightarrow> string" where
  "host_before h = disposition_of (the (hm_saved_dispositions h))"

lemma disposition_of_set: "disposition_of (dict_set n x d) = (disposition_of d)(n := x)"
  by (auto simp: disposition_of_def fun_eq_iff)

interpretation host: process_signals host_abi "\<lambda>n h. fst (host_deliver n h)" host_ok hm_owner
  hm_pending_flags "\<lambda>h. disposition_of (hm_dispositions h)" host_before
proof (unfold_locales, goal_cases)
  case (1 w)
  then show ?case
    by (simp add: host_abi_def host_install_def Let_def host_ok_def host_before_def
        disposition_of_set owned_disposition_def)
next
  case (2 w)
  then show ?case by (simp add: host_abi_def host_install_def)
next
  case (3 w k)
  then show ?case by (simp add: host_abi_def host_poll_def host_ok_def host_before_def)
next
  case (4 w k)
  then show ?case
    by (auto simp: host_abi_def host_uninstall_def host_ok_def host_before_def)
next
  case (5 w n)
  then show ?case
    by (cases "hm_owner w = 0") (auto simp: host_deliver_def host_ok_def host_before_def signal_flag_def)
qed

lemma host_model_new_ok: "host_ok (host_model_new d)" "hm_owner (host_model_new d) = 0"
  by (simp_all add: host_model_new_def host_ok_def)

lemma host_model_new_disposition:
  "disposition_of (hm_dispositions (host_model_new d)) n =
     (if n \<in> {SIGHUP, SIGINT, SIGPIPE, SIGTERM} then disposition_of d n else ''default'')"
  by (simp add: host_model_new_def disposition_of_def [of "[_, _, _, _]"] control_consts)

section \<open>Properties\<close>

text \<open>C32 Over any interleaving of install, poll, uninstall and signals on any number of wrappers
  that share one process, at most one wrapper is installed, exactly when the process has an owner;
  every poll of an owner succeeds and reports a stop exactly when SIGTERM or SIGINT, and a reload
  exactly when SIGHUP, arrived since it was installed or last polled.\<close>

theorem control_single_owner:
  "let s = control_run host_abi (\<lambda>n h. fst (host_deliver n h)) ops (control_world_new n (host_model_new d)) in
     wrappers_ok (hm_owner (cw_process s)) (cw_wrappers s) \<and>
     (\<forall>i ns r. (i, ns, r) \<in> set (cw_polls s) \<longrightarrow> (\<exists>q. r = Inr q \<and>
        gq_stop_requested q = (SIGTERM \<in> set ns \<or> SIGINT \<in> set ns) \<and>
        gq_reload_requested q = (SIGHUP \<in> set ns)))"
  using host.run_ok [OF host.world_ok_new [OF host_model_new_ok]]
  by (fastforce simp: host.world_ok_def Let_def snapshot_of_def)

theorem control_single_owner_witness:
  "gq_stop_requested (projr (snd (snd (last (cw_polls (control_run host_abi (\<lambda>n h. fst (host_deliver n h))
     [OpInstall 0, OpInstall 1, OpSignal SIGINT, OpPoll 1, OpPoll 0]
     (control_world_new 2 (host_model_new []))))))))"
proof -
  let ?s = "control_run host_abi (\<lambda>n h. fst (host_deliver n h))
     [OpInstall 0, OpInstall 1, OpSignal SIGINT, OpPoll 1, OpPoll 0] (control_world_new 2 (host_model_new []))"
  have p: "map (\<lambda>(i, ns, r). (i, ns)) (cw_polls ?s) = [(0, [2])]"
    by code_simp
  then obtain r where "cw_polls ?s = [(0, [2], r)]"
    by auto
  with control_single_owner [of "[OpInstall 0, OpInstall 1, OpSignal SIGINT, OpPoll 1, OpPoll 0]" 2 "[]"]
  show ?thesis by (auto simp: Let_def SIGINT_def)
qed

text \<open>The signal dispositions of the process are exactly those from before whenever no wrapper is
  installed, however often and in whatever order the wrappers installed, polled and uninstalled
  before; while one is installed SIGTERM and SIGINT drain, SIGHUP reloads and SIGPIPE is ignored.
  The installed wrapper can always uninstall.\<close>

theorem control_restores_dispositions:
  "let s = control_run host_abi (\<lambda>n h. fst (host_deliver n h)) ops (control_world_new n (host_model_new d));
       before = disposition_of (hm_dispositions (host_model_new d)) in
     (list_ex gp_installed (cw_wrappers s) \<or> disposition_of (hm_dispositions (cw_process s)) = before) \<and>
     (\<forall>g \<in> set (cw_wrappers s). gp_installed g \<longrightarrow>
        disposition_of (hm_dispositions (cw_process s)) = owned_disposition before \<and>
        (\<exists>w. control_uninstall host_abi g (cw_process s) =
           (g\<lparr>gp_owner := 0, gp_installed := False\<rparr>, w, Inr ()) \<and>
           disposition_of (hm_dispositions w) = before))"
  (is "let s = ?s; before = ?b in _")
proof -
  have ok: "host.world_ok ?b ?s"
    by (rule host.run_ok [OF host.world_ok_new [OF host_model_new_ok]])
  have "hm_owner (cw_process ?s) = 0" if "\<not> list_ex gp_installed (cw_wrappers ?s)"
  proof -
    have "filter gp_installed (cw_wrappers ?s) = []"
      using that by (simp add: list_ex_iff filter_empty_conv)
    with ok show ?thesis by (simp add: host.world_ok_def wrappers_ok_def split: if_splits)
  qed
  moreover have "\<exists>w. control_uninstall host_abi g (cw_process ?s) =
      (g\<lparr>gp_owner := 0, gp_installed := False\<rparr>, w, Inr ()) \<and> disposition_of (hm_dispositions w) = ?b"
    and "disposition_of (hm_dispositions (cw_process ?s)) = owned_disposition ?b"
    if "g \<in> set (cw_wrappers ?s)" "gp_installed g" for g
  proof -
    from ok that have k: "gp_owner g = hm_owner (cw_process ?s)" "0 < hm_owner (cw_process ?s)"
      by (force simp: host.world_ok_def wrappers_ok_def)+
    with ok host.uninstall_owner [of "cw_process ?s"] that(2)
    show "\<exists>w. control_uninstall host_abi g (cw_process ?s) =
      (g\<lparr>gp_owner := 0, gp_installed := False\<rparr>, w, Inr ()) \<and> disposition_of (hm_dispositions w) = ?b"
      by (auto simp: host.world_ok_def control_uninstall_def)
    show "disposition_of (hm_dispositions (cw_process ?s)) = owned_disposition ?b"
      using ok k by (simp add: host.world_ok_def)
  qed
  ultimately show ?thesis
    using ok by (auto simp: Let_def host.world_ok_def)
qed

theorem control_restores_dispositions_witness:
  "disposition_of (hm_dispositions (cw_process (control_run host_abi (\<lambda>n h. fst (host_deliver n h))
     [OpInstall 0, OpSignal SIGHUP, OpUninstall 0] (control_world_new 1 (host_model_new [(15, ''ignore'')]))))) SIGTERM
   = ''ignore''"
proof -
  let ?s = "control_run host_abi (\<lambda>n h. fst (host_deliver n h))
     [OpInstall 0, OpSignal SIGHUP, OpUninstall 0] (control_world_new 1 (host_model_new [(15, ''ignore'')]))"
  have "\<not> list_ex gp_installed (cw_wrappers ?s)"
    by code_simp
  moreover have "disposition_of (hm_dispositions (host_model_new [(15, ''ignore'')])) SIGTERM = ''ignore''"
    by code_simp
  ultimately show ?thesis
    using control_restores_dispositions [of "[OpInstall 0, OpSignal SIGHUP, OpUninstall 0]" 1 "[(15, ''ignore'')]"]
    by (simp add: Let_def)
qed

end
