(* ===== verification/Structured.thy ===== *)
theory Structured
  imports Prelude
begin

text \<open>
  Model of \<open>pcc_gateway/structured.py\<close>: task scopes over virtual threads, and the outer driver.
  The virtual-thread runtime is a parameter: a record of the calls the module makes, as functions
  on the state of the runtime (a thread is a number).  What the scope relies on is \<open>runtime_ok\<close>:
  a join returns only once its thread has a terminal outcome, and terminal outcomes stay.
\<close>

record ('w, 'v) vthreads =
  vt_join :: "nat \<Rightarrow> 'w \<Rightarrow> 'w \<times> unit result"
  vt_cancel :: "nat \<Rightarrow> 'w \<Rightarrow> 'w"
  vt_outcome :: "nat \<Rightarrow> 'w \<Rightarrow> int"
  vt_result :: "nat \<Rightarrow> 'w \<Rightarrow> 'v result"
  vt_exception :: "nat \<Rightarrow> 'w \<Rightarrow> exn option"
  vt_current :: "'w \<Rightarrow> nat option"
  vt_run :: "'w \<Rightarrow> 'w \<times> int"          \<comment> \<open>\<open>run(1, 4096)\<close>\<close>
  vt_idle_sleep :: "'w \<Rightarrow> 'w \<times> int"   \<comment> \<open>\<open>_idle_sleep_ns(1000000)\<close>\<close>
  vt_pending :: int                   \<comment> \<open>\<open>OUTCOME_PENDING\<close>\<close>
  vt_returned :: int                  \<comment> \<open>\<open>OUTCOME_RETURNED\<close>\<close>

section \<open>The scope\<close>

record task_scope =
  ts_name :: pystr
  ts_children :: "nat list"
  ts_joined :: bool
  ts_closed :: bool
  ts_failure :: "exn option"
  ts_close_reason :: pystr

definition task_scope_new :: "pystr \<Rightarrow> task_scope" where
  "task_scope_new name = \<lparr>ts_name = name, ts_children = [], ts_joined = False, ts_closed = False,
     ts_failure = None, ts_close_reason = []\<rparr>"

text \<open>\<open>_retire_child\<close>: an exception of the join is swallowed.\<close>

definition retire_child :: "('w, 'v) vthreads \<Rightarrow> nat \<Rightarrow> 'w \<Rightarrow> 'w" where
  "retire_child vt child w = fst (vt_join vt child (vt_cancel vt child w))"

text \<open>\<open>_retire\<close>, the loop from an index; the children left are an argument.\<close>

fun retire_loop :: "('w, 'v) vthreads \<Rightarrow> nat list \<Rightarrow> 'w \<Rightarrow> 'w" where
  "retire_loop vt [] w = w"
| "retire_loop vt (child # children) w = retire_loop vt children (retire_child vt child w)"

definition retire_from :: "('w, 'v) vthreads \<Rightarrow> nat \<Rightarrow> task_scope \<Rightarrow> 'w \<Rightarrow> 'w" where
  "retire_from vt start sc w = retire_loop vt (drop start (ts_children sc)) w"

definition reject_scope_fork ::
  "('w, 'v) vthreads \<Rightarrow> nat \<Rightarrow> task_scope \<Rightarrow> 'w \<Rightarrow> task_scope \<times> 'w \<times> nat result" where
  "reject_scope_fork vt th sc w =
     (let w' = retire_child vt th w in
      if ts_closed sc
      then (sc, w', Inl (TaskScopeError (cp ''scope '' @ ts_name sc @ cp '' is closed'')))
      else if ts_joined sc
      then (sc, w', Inl (TaskScopeError (cp ''scope '' @ ts_name sc @ cp '' already joined'')))
      else (sc\<lparr>ts_children := ts_children sc @ [th]\<rparr>, w', Inr th))"

definition scope_fork ::
  "('w, 'v) vthreads \<Rightarrow> nat \<Rightarrow> task_scope \<Rightarrow> 'w \<Rightarrow> task_scope \<times> 'w \<times> nat result" where
  "scope_fork vt th sc w =
     (if ts_closed sc \<or> ts_joined sc then reject_scope_fork vt th sc w
      else (sc\<lparr>ts_children := ts_children sc @ [th]\<rparr>, w, Inr th))"

text \<open>The loop of \<open>join\<close> from an index: the index of the first child that failed, with its
  error.\<close>

function join_loop ::
  "('w, 'v) vthreads \<Rightarrow> nat list \<Rightarrow> nat \<Rightarrow> 'w \<Rightarrow> 'w \<times> (nat \<times> exn) option" where
  "join_loop vt children index w =
     (if index < length children then
        case vt_join vt (children ! index) w of
          (w', Inl error) \<Rightarrow> (w', Some (index, error))
        | (w', Inr _) \<Rightarrow> join_loop vt children (index + 1) w'
      else (w, None))"
  by pat_completeness auto
termination by (relation "measure (\<lambda>(vt, children, index, w). length children - index)") auto

declare join_loop.simps [simp del]

definition scope_join ::
  "('w, 'v) vthreads \<Rightarrow> task_scope \<Rightarrow> 'w \<Rightarrow> task_scope \<times> 'w \<times> unit result" where
  "scope_join vt sc w =
     (if ts_joined sc then
        (sc, w, case ts_failure sc of Some failure \<Rightarrow> Inl failure | None \<Rightarrow> Inr ())
      else
        let sc1 = sc\<lparr>ts_joined := True\<rparr> in
        case join_loop vt (ts_children sc1) 0 w of
          (w1, None) \<Rightarrow> (sc1, w1, Inr ())
        | (w1, Some (failed_at, error)) \<Rightarrow>
            let sc2 = sc1\<lparr>ts_failure := Some error\<rparr> in
            (sc2, retire_from vt (failed_at + 1) sc2 w1, Inl error))"

definition scope_result :: "('w, 'v) vthreads \<Rightarrow> nat \<Rightarrow> task_scope \<Rightarrow> 'w \<Rightarrow> 'v result" where
  "scope_result vt th sc w =
     (if \<not> ts_joined sc
      then Inl (TaskScopeError (cp ''scope '' @ ts_name sc @ cp '': result read before join''))
      else vt_result vt th w)"

definition scope_outcome :: "('w, 'v) vthreads \<Rightarrow> nat \<Rightarrow> 'w \<Rightarrow> int" where
  "scope_outcome vt th w = vt_outcome vt th w"

definition close_unjoined ::
  "('w, 'v) vthreads \<Rightarrow> pystr \<Rightarrow> task_scope \<Rightarrow> 'w \<Rightarrow> task_scope \<times> 'w" where
  "close_unjoined vt reason sc w =
     (if ts_closed sc then (sc, w)
      else
        let sc1 = sc\<lparr>ts_closed := True, ts_close_reason := reason\<rparr> in
        if \<not> ts_joined sc1 then
          let sc2 = sc1\<lparr>ts_joined := True\<rparr> in (sc2, retire_from vt 0 sc2 w)
        else (sc1, w))"

definition scope_close ::
  "('w, 'v) vthreads \<Rightarrow> pystr \<Rightarrow> task_scope \<Rightarrow> 'w \<Rightarrow> task_scope \<times> 'w" where
  "scope_close vt reason sc w =
     (if ts_closed sc then (sc, w)
      else if ts_joined sc then (sc\<lparr>ts_closed := True, ts_close_reason := reason\<rparr>, w)
      else close_unjoined vt reason sc w)"

section \<open>The outer driver\<close>

partial_function (option) drive_until ::
  "('w, 'v) vthreads \<Rightarrow> nat \<Rightarrow> 'w \<Rightarrow> ('w \<times> unit result) option" where
  "drive_until vt th w =
     (if vt_outcome vt th w = vt_pending vt then
        case vt_run vt w of
          (w1, steps) \<Rightarrow>
            if steps < 0
            then Some (w1, Inl (TaskScopeError (cp ''virtual-thread scheduler failed'')))
            else if steps = 0 \<and> vt_outcome vt th w1 = vt_pending vt then
              case vt_idle_sleep vt w1 of
                (w2, slept) \<Rightarrow>
                  if slept < 0
                  then Some (w2, Inl (TaskScopeError (cp ''outer scheduler wait failed'')))
                  else drive_until vt th w2
            else drive_until vt th w1
      else Some (w, Inr ()))"

definition run_until_complete ::
  "('w, 'v) vthreads \<Rightarrow> nat \<Rightarrow> 'w \<Rightarrow> ('w \<times> 'v result) option" where
  "run_until_complete vt th w =
     (if vt_current vt w \<noteq> None
      then Some (w, Inl (TaskScopeError (cp ''run_until_complete requires an outer driver'')))
      else case drive_until vt th w of
        None \<Rightarrow> None
      | Some (w1, Inl e) \<Rightarrow> Some (w1, Inl e)
      | Some (w1, Inr _) \<Rightarrow>
          Some (w1, case vt_exception vt th w1 of
            Some failure \<Rightarrow> Inl failure
          | None \<Rightarrow>
              if vt_outcome vt th w1 \<noteq> vt_returned vt
              then Inl (TaskScopeError (cp ''root task was cancelled''))
              else vt_result vt th w1))"

section \<open>What the runtime promises\<close>

definition terminal :: "('w, 'v) vthreads \<Rightarrow> nat \<Rightarrow> 'w \<Rightarrow> bool" where
  "terminal vt th w \<longleftrightarrow> vt_outcome vt th w \<noteq> vt_pending vt"

definition runtime_ok :: "('w, 'v) vthreads \<Rightarrow> bool" where
  "runtime_ok vt \<longleftrightarrow>
     (\<forall>th w. terminal vt th (fst (vt_join vt th w))) \<and>
     (\<forall>th u w. terminal vt u w \<longrightarrow> terminal vt u (fst (vt_join vt th w)) \<and> terminal vt u (vt_cancel vt th w))"

lemma terminal_join:
  "runtime_ok vt \<Longrightarrow> u = th \<or> terminal vt u w \<Longrightarrow> terminal vt u (fst (vt_join vt th w))"
  by (auto simp: runtime_ok_def)

lemma terminal_retire_child:
  "runtime_ok vt \<Longrightarrow> u = th \<or> terminal vt u w \<Longrightarrow> terminal vt u (retire_child vt th w)"
  by (auto simp: runtime_ok_def retire_child_def)

lemma terminal_retire_loop:
  "runtime_ok vt \<Longrightarrow> u \<in> set ths \<or> terminal vt u w \<Longrightarrow> terminal vt u (retire_loop vt ths w)"
  by (induction ths arbitrary: w) (auto intro: terminal_retire_child)

text \<open>The join loop over the children left: where it stops, the error and the later siblings.\<close>

fun join_seq :: "('w, 'v) vthreads \<Rightarrow> nat list \<Rightarrow> 'w \<Rightarrow> 'w \<times> (exn \<times> nat list) option" where
  "join_seq vt [] w = (w, None)"
| "join_seq vt (th # ths) w =
     (case vt_join vt th w of
       (w', Inl error) \<Rightarrow> (w', Some (error, ths))
     | (w', Inr _) \<Rightarrow> join_seq vt ths w')"

lemma join_loop_seq:
  "join_loop vt ths i w =
     (case join_seq vt (drop i ths) w of
       (w', None) \<Rightarrow> (w', None)
     | (w', Some (e, rest)) \<Rightarrow> (w', Some (length ths - Suc (length rest), e)))"
proof (induction "length ths - i" arbitrary: i w)
  case 0
  then show ?case by (simp add: join_loop.simps)
next
  case (Suc n)
  then have "drop i ths = ths ! i # drop (Suc i) ths" and i: "i < length ths"
    by (simp_all add: Cons_nth_drop_Suc)
  with Suc(1) [of "Suc i"] Suc(2) show ?case
    by (auto simp: join_loop.simps [of vt ths i] split: prod.splits sum.splits option.splits)
qed

lemma join_seq_suffix:
  "join_seq vt ths w = (w', Some (e, rest)) \<Longrightarrow> \<exists>pre th. ths = pre @ th # rest"
proof (induction ths arbitrary: w)
  case (Cons th ths)
  show ?case
  proof (cases "vt_join vt th w")
    case (Pair w1 r)
    with Cons.prems show ?thesis
      by (cases r) (auto, metis Cons.IH append_Cons)
  qed
qed simp

lemma scope_join_seq:
  "\<not> ts_joined sc \<Longrightarrow> scope_join vt sc w =
     (case join_seq vt (ts_children sc) w of
       (w1, None) \<Rightarrow> (sc\<lparr>ts_joined := True\<rparr>, w1, Inr ())
     | (w1, Some (e, rest)) \<Rightarrow>
         (sc\<lparr>ts_joined := True, ts_failure := Some e\<rparr>, retire_loop vt rest w1, Inl e))"
proof (cases "join_seq vt (ts_children sc) w")
  case (Pair w1 r)
  assume "\<not> ts_joined sc"
  with Pair show ?thesis
    by (cases r) (auto simp: scope_join_def join_loop_seq Let_def retire_from_def dest!: join_seq_suffix)
qed

lemma terminal_join_seq:
  assumes "runtime_ok vt"
  shows "join_seq vt ths w = (w', r) \<Longrightarrow> terminal vt u w \<or>
      u \<in> set ths \<and> (\<forall>e rest. r = Some (e, rest) \<longrightarrow> u \<notin> set rest) \<Longrightarrow> terminal vt u w'"
proof (induction ths arbitrary: w)
  case (Cons th ths)
  obtain w1 q where q: "vt_join vt th w = (w1, q)" by (metis surj_pair)
  have w1: "u = th \<or> terminal vt u w \<Longrightarrow> terminal vt u w1"
    using terminal_join [OF assms, of u th w] q by simp
  show ?case
  proof (cases q)
    case (Inl e)
    with Cons.prems q w1 show ?thesis by auto
  next
    case (Inr x)
    with Cons.prems q have "join_seq vt ths w1 = (w', r)" by simp
    with Cons.prems(2) w1 show ?thesis using Cons.IH [of w1] by auto
  qed
qed simp

lemma terminal_scope_join:
  assumes "runtime_ok vt" "\<not> ts_joined sc" "scope_join vt sc w = (sc', w', r)"
    and "u \<in> set (ts_children sc) \<or> terminal vt u w"
  shows "terminal vt u w'"
proof -
  obtain w1 q where q: "join_seq vt (ts_children sc) w = (w1, q)" by (metis surj_pair)
  show ?thesis
  proof (cases q)
    case None
    with assms q show ?thesis
      using terminal_join_seq [OF assms(1) q, of u] by (auto simp: scope_join_seq)
  next
    case (Some er)
    obtain e rest where er: "er = (e, rest)" by (metis surj_pair)
    with assms q Some have w': "w' = retire_loop vt rest w1" by (auto simp: scope_join_seq)
    show ?thesis
    proof (cases "u \<in> set rest")
      case False
      with terminal_join_seq [OF assms(1) q, of u] assms(4) Some er
      show ?thesis unfolding w' by (auto intro: terminal_retire_loop [OF assms(1)])
    qed (simp add: w' terminal_retire_loop [OF assms(1)])
  qed
qed

section \<open>Scopes over their whole life\<close>

text \<open>The states a scope and the runtime can be in, with all the threads ever handed to \<open>fork\<close>;
  between the calls of the parent the runtime moves on, keeping terminal outcomes.\<close>

inductive scope_reach :: "('w, 'v) vthreads \<Rightarrow> task_scope \<Rightarrow> 'w \<Rightarrow> nat list \<Rightarrow> bool" for vt where
  start: "scope_reach vt (task_scope_new name) w []"
| forked: "scope_reach vt sc w given \<Longrightarrow> scope_fork vt th sc w = (sc', w', r) \<Longrightarrow>
    scope_reach vt sc' w' (given @ [th])"
| joined: "scope_reach vt sc w given \<Longrightarrow> scope_join vt sc w = (sc', w', r) \<Longrightarrow> scope_reach vt sc' w' given"
| closed: "scope_reach vt sc w given \<Longrightarrow> scope_close vt reason sc w = (sc', w') \<Longrightarrow> scope_reach vt sc' w' given"
| elapsed: "scope_reach vt sc w given \<Longrightarrow> (\<And>u. terminal vt u w \<Longrightarrow> terminal vt u w') \<Longrightarrow> scope_reach vt sc w' given"

definition scope_ok :: "('w, 'v) vthreads \<Rightarrow> task_scope \<Rightarrow> 'w \<Rightarrow> nat list \<Rightarrow> bool" where
  "scope_ok vt sc w given \<longleftrightarrow>
     (ts_closed sc \<longrightarrow> ts_joined sc) \<and>
     (if ts_joined sc then \<forall>th \<in> set given. terminal vt th w
      else ts_children sc = given \<and> ts_failure sc = None)"

lemma scope_fork_ok:
  assumes "runtime_ok vt" "scope_ok vt sc w given" "scope_fork vt th sc w = (sc', w', r)"
  shows "scope_ok vt sc' w' (given @ [th])"
  using assms terminal_retire_child [OF assms(1)]
  by (auto simp: scope_ok_def scope_fork_def reject_scope_fork_def Let_def split: if_splits)

lemma scope_join_ok:
  assumes "runtime_ok vt" "scope_ok vt sc w given" "scope_join vt sc w = (sc', w', r)"
  shows "scope_ok vt sc' w' given"
proof (cases "ts_joined sc")
  case True
  with assms show ?thesis by (simp add: scope_join_def)
next
  case False
  then have "ts_joined sc'"
    using assms(3) by (auto simp: scope_join_seq split: prod.splits option.splits)
  with False assms(2) terminal_scope_join [OF assms(1) False assms(3)] show ?thesis
    by (auto simp: scope_ok_def)
qed

lemma scope_close_ok:
  assumes "runtime_ok vt" "scope_ok vt sc w given" "scope_close vt reason sc w = (sc', w')"
  shows "scope_ok vt sc' w' given"
  using assms terminal_retire_loop [OF assms(1)]
  by (auto simp: scope_ok_def scope_close_def close_unjoined_def retire_from_def Let_def split: if_splits)

lemma scope_reach_ok: "scope_reach vt sc w given \<Longrightarrow> runtime_ok vt \<Longrightarrow> scope_ok vt sc w given"
proof (induction rule: scope_reach.induct)
  case (start name w)
  then show ?case by (simp add: scope_ok_def task_scope_new_def)
next
  case (elapsed sc w given w')
  then show ?case by (auto simp: scope_ok_def)
qed (auto intro: scope_fork_ok scope_join_ok scope_close_ok)

section \<open>Properties\<close>

text \<open>C33 A scope is a barrier: once it is joined or closed, by whatever sequence of forks, joins
  and closes (failed ones included), no thread ever handed to \<open>fork\<close> is still running, not even
  one that the scope rejected because it came too late; results are readable only then.\<close>

theorem scope_is_barrier:
  assumes "runtime_ok vt" and "scope_reach vt sc w given"
  shows "(ts_joined sc \<or> ts_closed sc \<longrightarrow> (\<forall>th \<in> set given. terminal vt th w)) \<and>
    (\<forall>th. \<not> ts_joined sc \<longrightarrow> (\<exists>text. scope_result vt th sc w = Inl (TaskScopeError text))) \<and>
    (\<not> ts_joined sc \<longrightarrow> ts_children sc = given)"
  using scope_reach_ok [OF assms(2,1)] by (auto simp: scope_ok_def scope_result_def)

text \<open>A join waits for the children in fork order.  When one raises, the failure reported is the
  first in fork order: the children before it all joined normally, exactly the later siblings are
  cancelled and drained, in order, and their errors never replace it.  Joining again repeats that
  answer and touches no thread.\<close>

theorem scope_join_first_failure:
  assumes "\<not> ts_joined sc"
  shows "\<exists>w1 q. join_seq vt (ts_children sc) w = (w1, q) \<and>
    (q = None \<longrightarrow> scope_join vt sc w = (sc\<lparr>ts_joined := True\<rparr>, w1, Inr ())) \<and>
    (\<forall>e rest. q = Some (e, rest) \<longrightarrow>
       (\<exists>pre th w0. ts_children sc = pre @ th # rest \<and> join_seq vt pre w = (w0, None) \<and>
          vt_join vt th w0 = (w1, Inl e)) \<and>
       scope_join vt sc w = (sc\<lparr>ts_joined := True, ts_failure := Some e\<rparr>, retire_loop vt rest w1, Inl e) \<and>
       (\<forall>v. scope_join vt (sc\<lparr>ts_joined := True, ts_failure := Some e\<rparr>) v =
          (sc\<lparr>ts_joined := True, ts_failure := Some e\<rparr>, v, Inl e)))"
proof -
  have first: "\<exists>pre th w0. ths = pre @ th # rest \<and> join_seq vt pre w = (w0, None) \<and>
      vt_join vt th w0 = (w1, Inl e)" if "join_seq vt ths w = (w1, Some (e, rest))" for ths w w1 e rest
    using that
  proof (induction ths arbitrary: w)
    case (Cons t ths)
    show ?case
    proof (cases "vt_join vt t w")
      case (Pair w2 r)
      show ?thesis
      proof (cases r)
        case (Inl e')
        with Cons.prems Pair show ?thesis by (intro exI [of _ "[]"]) auto
      next
        case (Inr u)
        with Cons.prems Pair Cons.IH obtain pre th w0 where "ths = pre @ th # rest"
          "join_seq vt pre w2 = (w0, None)" "vt_join vt th w0 = (w1, Inl e)" by fastforce
        with Pair Inr show ?thesis by (intro exI [of _ "t # pre"]) auto
      qed
    qed
  qed simp
  obtain w1 q where q: "join_seq vt (ts_children sc) w = (w1, q)" by (metis surj_pair)
  then show ?thesis
    using assms first by (intro exI [of _ w1] exI [of _ q]) (auto simp: scope_join_seq scope_join_def [of vt "ts_failure_update _ _"])
qed

text \<open>The outer driver returns as soon as every turn of the scheduler, or of the wait when it was
  idle, makes progress.\<close>

lemma drive_until_returns:
  fixes progress :: "'w \<Rightarrow> nat"
  assumes run: "\<And>w. vt_outcome vt th w = vt_pending vt \<Longrightarrow> snd (vt_run vt w) > 0 \<Longrightarrow>
      progress (fst (vt_run vt w)) < progress w"
    and idle: "\<And>w. vt_outcome vt th w = vt_pending vt \<Longrightarrow> snd (vt_run vt w) = 0 \<Longrightarrow>
      vt_outcome vt th (fst (vt_run vt w)) = vt_pending vt \<Longrightarrow>
      progress (fst (vt_idle_sleep vt (fst (vt_run vt w)))) < progress w"
  shows "\<exists>r. drive_until vt th w = Some r"
proof (induction "progress w" arbitrary: w rule: less_induct)
  case less
  obtain w1 n where run1: "vt_run vt w = (w1, n)" by (metis surj_pair)
  obtain w2 m where idle1: "vt_idle_sleep vt w1 = (w2, m)" by (metis surj_pair)
  have done1: "\<exists>r. drive_until vt th w1 = Some r" if "vt_outcome vt th w1 \<noteq> vt_pending vt"
    using that by (simp add: drive_until.simps [of vt th w1])
  show ?case
  proof (cases "vt_outcome vt th w = vt_pending vt")
    case True
    consider "n < 0" | "n > 0" | "n = 0" "vt_outcome vt th w1 = vt_pending vt"
      | "n = 0" "vt_outcome vt th w1 \<noteq> vt_pending vt" by linarith
    then show ?thesis
    proof cases
      case 1
      then show ?thesis using True run1 by (simp add: drive_until.simps [of vt th w])
    next
      case 2
      then show ?thesis
        using True run1 run [of w] less [of w1] by (simp add: drive_until.simps [of vt th w])
    next
      case 3
      then show ?thesis
        using True run1 idle1 idle [of w] less [of w2] by (simp add: drive_until.simps [of vt th w])
    next
      case 4
      then show ?thesis
        using True run1 done1 by (simp add: drive_until.simps [of vt th w])
    qed
  qed (simp add: drive_until.simps [of vt th w])
qed

text \<open>The outer driver of a root task: if every turn of the scheduler that ran something, and
  every idle turn with its wait, makes progress, then \<open>run_until_complete\<close> returns; a value it
  returns is the result of the finished root thread, and an exception of the root is re-raised.\<close>

theorem run_until_complete_returns:
  fixes progress :: "'w \<Rightarrow> nat"
  assumes "\<And>w. vt_outcome vt th w = vt_pending vt \<Longrightarrow> snd (vt_run vt w) > 0 \<Longrightarrow>
      progress (fst (vt_run vt w)) < progress w"
    and "\<And>w. vt_outcome vt th w = vt_pending vt \<Longrightarrow> snd (vt_run vt w) = 0 \<Longrightarrow>
      vt_outcome vt th (fst (vt_run vt w)) = vt_pending vt \<Longrightarrow>
      progress (fst (vt_idle_sleep vt (fst (vt_run vt w)))) < progress w"
  shows "\<exists>w' r. run_until_complete vt th w = Some (w', r) \<and>
    (\<forall>v. r = Inr v \<longrightarrow> vt_outcome vt th w' = vt_returned vt \<and> vt_result vt th w' = Inr v \<and>
       vt_exception vt th w' = None)"
proof -
  have "\<exists>r. drive_until vt th w = Some r"
    by (rule drive_until_returns [of vt th progress]) (fact assms)+
  then obtain w1 r where r: "drive_until vt th w = Some (w1, r)"
    by auto
  then show ?thesis
    by (cases r) (auto simp: run_until_complete_def split: option.splits)
qed

section \<open>A runtime\<close>

text \<open>A small runtime for concrete runs: a world lists the threads still pending and the failing
  ones; joining a pending thread runs it, a cancelled or failing thread raises.\<close>

record toy_runtime =
  ty_pending :: "nat list"
  ty_failing :: "nat list"

definition toy :: "(toy_runtime, nat) vthreads" where
  "toy = \<lparr>
     vt_join = (\<lambda>th w. (w\<lparr>ty_pending := removeAll th (ty_pending w)\<rparr>,
       if th \<in> set (ty_failing w) then Inl (RuntimeError ''task failed'') else Inr ())),
     vt_cancel = (\<lambda>th w. if th \<in> set (ty_pending w)
       then w\<lparr>ty_pending := removeAll th (ty_pending w), ty_failing := th # ty_failing w\<rparr> else w),
     vt_outcome = (\<lambda>th w. if th \<in> set (ty_pending w) then 0 else if th \<in> set (ty_failing w) then 2 else 1),
     vt_result = (\<lambda>th w. Inr th),
     vt_exception = (\<lambda>th w. if th \<in> set (ty_failing w) then Some (RuntimeError ''task failed'') else None),
     vt_current = (\<lambda>w. None),
     vt_run = (\<lambda>w. (w\<lparr>ty_pending := tl (ty_pending w)\<rparr>, 1)),
     vt_idle_sleep = (\<lambda>w. (w, 0)), vt_pending = 0, vt_returned = 1\<rparr>"

lemma toy_ok: "runtime_ok toy"
  by (auto simp: runtime_ok_def terminal_def toy_def)

definition toy_world :: toy_runtime where
  "toy_world = \<lparr>ty_pending = [1, 2, 3, 4], ty_failing = [2]\<rparr>"

definition toy_scope :: task_scope where
  "toy_scope = (task_scope_new [])\<lparr>ts_children := [1, 2, 3]\<rparr>"

lemma toy_scope_reach: "scope_reach toy toy_scope toy_world [1, 2, 3]"
proof -
  have "scope_reach toy (task_scope_new []) toy_world []" by (rule scope_reach.start)
  then have "scope_reach toy ((task_scope_new [])\<lparr>ts_children := [1]\<rparr>) toy_world ([] @ [1])"
    by (rule scope_reach.forked) (simp add: scope_fork_def task_scope_new_def)
  then have "scope_reach toy ((task_scope_new [])\<lparr>ts_children := [1, 2]\<rparr>) toy_world (([] @ [1]) @ [2])"
    by (rule scope_reach.forked) (simp add: scope_fork_def task_scope_new_def)
  then have "scope_reach toy toy_scope toy_world ((([] @ [1]) @ [2]) @ [3])"
    by (rule scope_reach.forked) (simp add: scope_fork_def task_scope_new_def toy_scope_def)
  then show ?thesis by simp
qed

theorem scope_is_barrier_witness:
  "let w = fst (snd (scope_fork toy 4 (fst (scope_join toy toy_scope toy_world)) (fst (snd (scope_join toy toy_scope toy_world)))))
   in terminal toy 1 w \<and> terminal toy 2 w \<and> terminal toy 3 w \<and> terminal toy 4 w"
proof -
  obtain sc w r where j: "scope_join toy toy_scope toy_world = (sc, w, r)" by (metis surj_pair)
  obtain sc' w' r' where f: "scope_fork toy 4 sc w = (sc', w', r')" by (metis surj_pair)
  have "ts_joined (fst (scope_join toy toy_scope toy_world))" by code_simp
  then have "ts_joined sc'" using j f
    by (auto simp: scope_fork_def reject_scope_fork_def Let_def split: if_splits)
  moreover have "scope_reach toy sc' w' ([1, 2, 3] @ [4])"
    by (rule scope_reach.forked [OF scope_reach.joined [OF toy_scope_reach j] f])
  ultimately show ?thesis
    using scope_is_barrier [OF toy_ok, of sc' w' "[1, 2, 3] @ [4]"] by (simp add: j f)
qed

theorem scope_join_first_failure_witness:
  "snd (snd (scope_join toy toy_scope toy_world)) = Inl (RuntimeError ''task failed'')"
proof -
  have "\<not> ts_joined toy_scope" by code_simp
  moreover have "snd (join_seq toy (ts_children toy_scope) toy_world) = Some (RuntimeError ''task failed'', [3])"
    by code_simp
  ultimately show ?thesis
    using scope_join_first_failure [of toy_scope toy toy_world] by fastforce
qed

theorem run_until_complete_returns_witness:
  "\<exists>w' r. run_until_complete toy 3 toy_world = Some (w', r) \<and> (\<forall>v. r = Inr v \<longrightarrow> vt_result toy 3 w' = Inr v)"
proof -
  have "\<exists>w' r. run_until_complete toy 3 toy_world = Some (w', r) \<and>
    (\<forall>v. r = Inr v \<longrightarrow> vt_outcome toy 3 w' = vt_returned toy \<and> vt_result toy 3 w' = Inr v \<and>
       vt_exception toy 3 w' = None)"
    by (rule run_until_complete_returns [where progress = "\<lambda>w. length (ty_pending w)"])
      (auto simp: toy_def split: if_splits intro!: diff_less)
  then show ?thesis by blast
qed

end
