(* ===== verification/Web_App.thy ===== *)
theory Web_App
  imports Models Proxy
begin

text \<open>
  Model of \<open>pcc_gateway/web/app.py\<close> and of the JSON responses of \<open>models.py\<close>: the declarative
  application, its middleware chain, routing, error mapping, and startup and shutdown.

  Handlers, error handlers and callbacks are user code: functions on the request and on the world
  \<open>'w\<close> behind them that may raise.  A middleware is user code that also uses its \<open>MiddlewareNext\<close>
  object; it is a program (datatype \<open>mw_prog\<close>) whose steps read and change the request and the
  world, use the object in one of the ways the module offers, see the value or the exception that
  use gives, and finally return or raise.  \<open>ds_entered\<close> records, for the proofs, the positions of
  the chain that were entered.
\<close>

section \<open>JSON responses\<close>

text \<open>The values a handler may return as JSON: \<open>None\<close>, booleans, integers, strings, lists and
  dictionaries with string keys.  Floating-point numbers are left out.\<close>

datatype json =
    JNull
  | JBool bool
  | JInt int
  | JStr pystr
  | JList "json list"
  | JObj "(pystr \<times> json) list"

definition hex4 :: "int \<Rightarrow> pystr" where
  "hex4 c = [92, 117, 48, 48] @ [digit_cp (nat (c div 16)), digit_cp (nat (c mod 16))]"

text \<open>The escapes of \<open>json.dumps(..., ensure_ascii=False)\<close>.\<close>

definition json_escape :: "int \<Rightarrow> pystr" where
  "json_escape c =
     (if c = 34 then [92, 34] else if c = 92 then [92, 92]
      else if c = 10 then [92, 110] else if c = 13 then [92, 114] else if c = 9 then [92, 116]
      else if c = 8 then [92, 98] else if c = 12 then [92, 102]
      else if 0 \<le> c \<and> c < 32 then hex4 c
      else [c])"

definition json_string :: "pystr \<Rightarrow> pystr" where
  "json_string s = [34] @ concat (map json_escape s) @ [34]"

fun json_dumps :: "json \<Rightarrow> pystr" where
  "json_dumps JNull = cp ''null''"
| "json_dumps (JBool b) = (if b then cp ''true'' else cp ''false'')"
| "json_dumps (JInt n) = py_str_int n"
| "json_dumps (JStr s) = json_string s"
| "json_dumps (JList vs) = [91] @ py_join 44 (map json_dumps vs) @ [93]"
| "json_dumps (JObj kvs) =
     [123] @ py_join 44 (map (\<lambda>(k, v). json_string k @ [58] @ json_dumps v) kvs) @ [125]"

definition response_json :: "json \<Rightarrow> int \<Rightarrow> header list \<Rightarrow> bytes response result" where
  "response_json value status headers =
     rbind (utf8_encode (json_dumps value)) (\<lambda>body.
       response_new status body (headers @ [(cp ''content-type'', cp ''application/json'')]) False)"

definition response_bytes :: "bytes \<Rightarrow> int \<Rightarrow> header list \<Rightarrow> bytes response result" where
  "response_bytes body status headers = response_new status body headers False"

definition response_stream :: "'b \<Rightarrow> int \<Rightarrow> header list \<Rightarrow> 'b response result" where
  "response_stream chunks status headers = response_new status chunks headers True"

section \<open>The application\<close>

text \<open>What a handler returns; the iterator of a streaming response is a number.\<close>

datatype handler_value =
    HResponse "bytes response"
  | HStream "nat response"
  | HBytes bytes
  | HStr pystr
  | HJson json

type_synonym 'w local_handler = "request \<Rightarrow> bound list \<Rightarrow> 'w \<Rightarrow> request \<times> 'w \<times> handler_value result"

datatype 'w route_handler = Local "'w local_handler" | ProxyTo proxy_spec

text \<open>\<open>ProxyDispatch\<close>: the route, the upstream group and the proxy specification of the route; the
  request it also holds is the one of the dispatch state.\<close>

record 'w proxy_plan =
  pd_route :: "'w route_handler route"
  pd_upstream :: nat
  pd_spec :: "'w route_handler"

datatype 'w dispatch_value =
    DResponse "bytes response"
  | DStream "nat response"
  | DProxy "'w proxy_plan"

record 'w dispatch_state =
  ds_request :: request
  ds_world :: 'w
  ds_entered :: "nat list"

text \<open>The ways to use a \<open>MiddlewareNext\<close>: through \<open>middleware_next(next_call)\<close>, by calling it, by
  its \<open>_proceed\<close>, and \<open>middleware_next\<close> on some other object.\<close>

datatype next_use = ByHelper | ByCall | ByProceed | OtherObject

datatype 'w mw_prog =
    MwReturn "'w dispatch_value"
  | MwRaise exn
  | MwAct "request \<Rightarrow> 'w \<Rightarrow> request \<times> 'w" "request \<Rightarrow> 'w \<Rightarrow> 'w mw_prog"
  | MwNext next_use "'w dispatch_value result \<Rightarrow> 'w mw_prog"

type_synonym 'w callback = "'w \<Rightarrow> 'w \<times> unit result"
type_synonym 'w error_handler = "request \<Rightarrow> exn \<Rightarrow> 'w \<Rightarrow> request \<times> 'w \<times> 'w dispatch_value result"

record 'w app =
  ap_routes :: "'w route_handler route list"
  ap_router :: "'w route_handler router"
  ap_middleware :: "'w mw_prog list"
  ap_startup_callbacks :: "'w callback list"
  ap_shutdown_callbacks :: "'w callback list"
  ap_error_handlers :: "(int \<times> 'w error_handler) list"
  ap_upstreams :: "(pystr \<times> nat) list"
  ap_started :: bool

fun upstream_table :: "(pystr \<times> nat) list \<Rightarrow> (pystr \<times> nat) list \<Rightarrow> (pystr \<times> nat) list result" where
  "upstream_table [] table = Inr table"
| "upstream_table ((name, grp) # upstreams) table =
     (if map_of table name \<noteq> None then Inl (ValueError ''duplicate upstream group'')
      else upstream_table upstreams (dict_set name grp table))"

definition app_new ::
  "'w route_handler route list \<Rightarrow> 'w mw_prog list \<Rightarrow> 'w callback list \<Rightarrow> 'w callback list \<Rightarrow>
   (int \<times> 'w error_handler) list \<Rightarrow> (pystr \<times> nat) list \<Rightarrow> 'w app result" where
  "app_new routes middleware startup shutdown error_handlers upstreams =
     rbind (router_new routes) (\<lambda>router.
     rbind (raise_if (length startup \<noteq> length shutdown)
       (ValueError ''startup and shutdown callbacks must be positional pairs'')) (\<lambda>_.
     rbind (upstream_table upstreams []) (\<lambda>table.
     Inr \<lparr>ap_routes = routes, ap_router = router, ap_middleware = middleware,
          ap_startup_callbacks = startup, ap_shutdown_callbacks = shutdown,
          ap_error_handlers = error_handlers, ap_upstreams = table, ap_started = False\<rparr>)))"

section \<open>Startup and shutdown\<close>

text \<open>The loop of \<open>startup\<close>: the callbacks completed, and the failure.\<close>

fun startup_loop :: "'w callback list \<Rightarrow> nat \<Rightarrow> 'w \<Rightarrow> 'w \<times> nat \<times> exn option" where
  "startup_loop [] completed w = (w, completed, None)"
| "startup_loop (callback # callbacks) completed w =
     (case callback w of
       (w', Inl error) \<Rightarrow> (w', completed, Some error)
     | (w', Inr _) \<Rightarrow> startup_loop callbacks (completed + 1) w')"

text \<open>The rollback; the argument is \<open>index + 1\<close>.\<close>

fun rollback_loop :: "'w callback list \<Rightarrow> nat \<Rightarrow> 'w \<Rightarrow> 'w" where
  "rollback_loop callbacks 0 w = w"
| "rollback_loop callbacks (Suc index) w = rollback_loop callbacks index (fst ((callbacks ! index) w))"

definition app_startup :: "'w app \<Rightarrow> 'w \<Rightarrow> 'w app \<times> 'w \<times> unit result" where
  "app_startup a w =
     (if ap_started a then (a, w, Inl (RuntimeError ''application already started''))
      else case startup_loop (ap_startup_callbacks a) 0 w of
        (w1, completed, Some error) \<Rightarrow>
          (a, rollback_loop (ap_shutdown_callbacks a) completed w1, Inl error)
      | (w1, completed, None) \<Rightarrow> (a\<lparr>ap_started := True\<rparr>, w1, Inr ()))"

fun shutdown_loop :: "'w callback list \<Rightarrow> exn option \<Rightarrow> 'w \<Rightarrow> 'w \<times> exn option" where
  "shutdown_loop [] first_error w = (w, first_error)"
| "shutdown_loop (callback # callbacks) first_error w =
     (case callback w of
       (w', Inl error) \<Rightarrow>
         shutdown_loop callbacks (if first_error = None then Some error else first_error) w'
     | (w', Inr _) \<Rightarrow> shutdown_loop callbacks first_error w')"

definition app_shutdown :: "'w app \<Rightarrow> 'w \<Rightarrow> 'w app \<times> 'w \<times> unit result" where
  "app_shutdown a w =
     (if \<not> ap_started a then (a, w, Inr ())
      else case shutdown_loop (rev (ap_shutdown_callbacks a)) None w of
        (w1, first_error) \<Rightarrow>
          (a\<lparr>ap_started := False\<rparr>, w1,
           case first_error of Some e \<Rightarrow> Inl e | None \<Rightarrow> Inr ()))"

section \<open>Routing a request\<close>

definition to_response :: "handler_value \<Rightarrow> 'w dispatch_value result" where
  "to_response result =
     (case result of
       HResponse r \<Rightarrow> Inr (DResponse r)
     | HStream r \<Rightarrow> Inr (DStream r)
     | HBytes bs \<Rightarrow> rbind (response_bytes bs 200 []) (\<lambda>r. Inr (DResponse r))
     | HStr s \<Rightarrow> rbind (response_text s 200 []) (\<lambda>r. Inr (DResponse r))
     | HJson v \<Rightarrow> rbind (response_json v 200 []) (\<lambda>r. Inr (DResponse r)))"

definition text_response :: "pystr \<Rightarrow> int \<Rightarrow> header list \<Rightarrow> 'w dispatch_value result" where
  "text_response text status headers = rbind (response_text text status headers) (\<lambda>r. Inr (DResponse r))"

definition host_of :: "request \<Rightarrow> pystr" where
  "host_of r = (case request_header r (cp ''host'') of None \<Rightarrow> [] | Some h \<Rightarrow> h)"

definition route_request ::
  "'w app \<Rightarrow> 'w dispatch_state \<Rightarrow> 'w dispatch_state \<times> 'w dispatch_value result" where
  "route_request a st0 =
     (let r = ds_request st0;
          st = st0\<lparr>ds_entered := ds_entered st0 @ [length (ap_middleware a)]\<rparr>
      in case router_match (rq_method r) (rq_target r) (host_of r) (ap_router a) of
        Inl e \<Rightarrow> (st, Inl e)
      | Inr (rt, params) \<Rightarrow>
          let st1 = st\<lparr>ds_request := r\<lparr>rq_path_params := params\<rparr>\<rparr> in
          if rt_kind rt = cp ''proxy'' then
            case map_of (ap_upstreams a) (rt_target rt) of
              None \<Rightarrow> (st1, text_response (cp ''upstream unavailable'') 503 [])
            | Some grp \<Rightarrow>
                (st1, Inr (DProxy \<lparr>pd_route = rt, pd_upstream = grp, pd_spec = rt_handler rt\<rparr>))
          else case bound_values (rt_bindings rt) params of
            Inl e \<Rightarrow> (st1, Inl e)
          | Inr vs \<Rightarrow>
              (case rt_handler rt of
                ProxyTo _ \<Rightarrow> (st1, Inl (TypeError ''object is not callable''))
              | Local h \<Rightarrow>
                  (case h (ds_request st1) vs (ds_world st1) of
                    (r', w', Inl e) \<Rightarrow> (st1\<lparr>ds_request := r', ds_world := w'\<rparr>, Inl e)
                  | (r', w', Inr v) \<Rightarrow> (st1\<lparr>ds_request := r', ds_world := w'\<rparr>, to_response v))))"

section \<open>The middleware chain\<close>

text \<open>Running a middleware; \<open>downstream\<close> is the rest of the chain, \<open>called\<close> the flag of its
  \<open>MiddlewareNext\<close>.\<close>

primrec run_middleware ::
  "('w dispatch_state \<Rightarrow> 'w dispatch_state \<times> 'w dispatch_value result) \<Rightarrow> 'w mw_prog \<Rightarrow> bool \<Rightarrow>
     'w dispatch_state \<Rightarrow> 'w dispatch_state \<times> 'w dispatch_value result" where
  "run_middleware downstream (MwReturn v) = (\<lambda>called st. (st, Inr v))"
| "run_middleware downstream (MwRaise e) = (\<lambda>called st. (st, Inl e))"
| "run_middleware downstream (MwAct f k) = (\<lambda>called st.
     case f (ds_request st) (ds_world st) of (r, w) \<Rightarrow>
       run_middleware downstream (k r w) called (st\<lparr>ds_request := r, ds_world := w\<rparr>))"
| "run_middleware downstream (MwNext use k) = (\<lambda>called st.
     case use of
       ByCall \<Rightarrow> run_middleware downstream
         (k (Inl (RuntimeError ''MiddlewareNext is not callable; use middleware_next(next_call)''))) called st
     | ByProceed \<Rightarrow> run_middleware downstream
         (k (Inl (RuntimeError ''MiddlewareNext._proceed is internal; use middleware_next(next_call)''))) called st
     | OtherObject \<Rightarrow> run_middleware downstream
         (k (Inl (TypeError ''middleware_next requires MiddlewareNext''))) called st
     | ByHelper \<Rightarrow>
         if called then run_middleware downstream
           (k (Inl (RuntimeError ''middleware next called more than once''))) called st
         else (case downstream st of (st', res) \<Rightarrow> run_middleware downstream (k res) True st'))"

function dispatch_middleware ::
  "'w app \<Rightarrow> nat \<Rightarrow> 'w dispatch_state \<Rightarrow> 'w dispatch_state \<times> 'w dispatch_value result" where
  "dispatch_middleware a index st =
     (if index \<ge> length (ap_middleware a) then route_request a st
      else run_middleware (\<lambda>st'. dispatch_middleware a (index + 1) st') (ap_middleware a ! index) False
             (st\<lparr>ds_entered := ds_entered st @ [index]\<rparr>))"
  by pat_completeness auto
termination by (relation "measure (\<lambda>(a, index, st). length (ap_middleware a) - index)") auto

declare dispatch_middleware.simps [simp del]

section \<open>Dispatch\<close>

fun join_comma :: "pystr list \<Rightarrow> pystr" where
  "join_comma [] = []"
| "join_comma [x] = x"
| "join_comma (x # xs) = x @ cp '', '' @ join_comma xs"

definition run_error_handler ::
  "'w error_handler \<Rightarrow> exn \<Rightarrow> 'w dispatch_state \<Rightarrow> 'w dispatch_state \<times> 'w dispatch_value result" where
  "run_error_handler h e st =
     (case h (ds_request st) e (ds_world st) of
       (r, w, res) \<Rightarrow> (st\<lparr>ds_request := r, ds_world := w\<rparr>, res))"

definition map_error ::
  "'w app \<Rightarrow> exn \<Rightarrow> 'w dispatch_state \<Rightarrow> 'w dispatch_state \<times> 'w dispatch_value result" where
  "map_error a e st =
     (case e of
       MethodNotAllowed allowed \<Rightarrow>
         (st, text_response (cp ''method not allowed'') 405 [(cp ''allow'', join_comma allowed)])
     | RouteNotFound _ \<Rightarrow> (st, text_response (cp ''not found'') 404 [])
     | RouteBindingError _ \<Rightarrow> (st, text_response (cp ''invalid route parameter'') 400 [])
     | HttpError status detail \<Rightarrow>
         (case map_of (ap_error_handlers a) status of
           Some h \<Rightarrow> run_error_handler h e st
         | None \<Rightarrow> (st, text_response detail status []))
     | _ \<Rightarrow>
         (case map_of (ap_error_handlers a) 500 of
           Some h \<Rightarrow> run_error_handler h e st
         | None \<Rightarrow> (st, text_response (cp ''internal server error'') 500 [])))"

definition app_dispatch ::
  "'w app \<Rightarrow> 'w dispatch_state \<Rightarrow> 'w dispatch_state \<times> 'w dispatch_value result" where
  "app_dispatch a st =
     (case dispatch_middleware a 0 st of
       (st', Inl e) \<Rightarrow> map_error a e st'
     | (st', Inr v) \<Rightarrow> (st', Inr v))"

definition dispatch_proxy_head :: "'w app \<Rightarrow> request \<Rightarrow> request \<times> 'w proxy_plan option result" where
  "dispatch_proxy_head a r =
     (if ap_middleware a \<noteq> [] then (r, Inr None)
      else case router_match (rq_method r) (rq_target r) (host_of r) (ap_router a) of
        Inl (MethodNotAllowed _) \<Rightarrow> (r, Inr None)
      | Inl (RouteNotFound _) \<Rightarrow> (r, Inr None)
      | Inl (RouteBindingError _) \<Rightarrow> (r, Inr None)
      | Inl e \<Rightarrow> (r, Inl e)
      | Inr (rt, params) \<Rightarrow>
          if rt_kind rt \<noteq> cp ''proxy'' then (r, Inr None)
          else case map_of (ap_upstreams a) (rt_target rt) of
            None \<Rightarrow> (r, Inr None)
          | Some grp \<Rightarrow>
              (r\<lparr>rq_path_params := params\<rparr>,
               Inr (Some \<lparr>pd_route = rt, pd_upstream = grp, pd_spec = rt_handler rt\<rparr>)))"

definition app_schema :: "'w app \<Rightarrow> json" where
  "app_schema a =
     JObj [(cp ''pcc_web_schema'', JInt 1),
       (cp ''routes'', JList (map (\<lambda>rt. JObj
          [(cp ''name'', JStr (rt_name rt)), (cp ''method'', JStr (rt_method rt)),
           (cp ''path'', JStr (rt_path rt)), (cp ''host'', JStr (rt_host rt)),
           (cp ''kind'', JStr (rt_kind rt))]) (ap_routes a)))]"

section \<open>Route declarations\<close>

definition web_route ::
  "pystr \<Rightarrow> pystr \<Rightarrow> 'w local_handler \<Rightarrow> pystr \<Rightarrow> pystr \<Rightarrow> pystr list list \<Rightarrow> 'w route_handler route result" where
  "web_route meth path handler name host bindings =
     route_new meth path (Local handler) name host (cp ''local'') [] bindings"

definition web_get where "web_get = web_route (cp ''GET'')"
definition web_post where "web_post = web_route (cp ''POST'')"
definition web_put where "web_put = web_route (cp ''PUT'')"
definition web_delete where "web_delete = web_route (cp ''DELETE'')"

definition web_proxy ::
  "pystr \<Rightarrow> pystr \<Rightarrow> pystr \<Rightarrow> pystr \<Rightarrow> pystr \<Rightarrow> pystr \<Rightarrow> proxy_timeouts \<Rightarrow> retry_policy \<Rightarrow> bool \<Rightarrow>
     'w route_handler route result" where
  "web_proxy path upstream meth name host strip_prefix timeouts retry trust_forwarded =
     rbind (proxy_spec_new upstream strip_prefix timeouts retry trust_forwarded) (\<lambda>spec.
       route_new meth path (ProxyTo spec) name host (cp ''proxy'') upstream [])"

end
