(* ===== verification/App_Props.thy ===== *)
theory App_Props
  imports Web_App
begin

text \<open>
  Properties of the application layer: the middleware chain is entered in order and at most once,
  every routing failure becomes one fixed response, the early proxy plan is the plan of the full
  dispatch, and startup and shutdown are paired.
\<close>

section \<open>The chain\<close>

lemma run_middleware_called:
  "ds_entered (fst (run_middleware d p True st)) = ds_entered st"
proof (induction p arbitrary: st)
  case (MwNext use k)
  then show ?case by (cases use) auto
next
  case (MwAct f k)
  obtain r w where rw: "f (ds_request st) (ds_world st) = (r, w)" by (metis surj_pair)
  show ?case
    using MwAct [OF rangeI rangeI, of r w "st\<lparr>ds_request := r, ds_world := w\<rparr>"] by (simp add: rw)
qed simp_all

lemma run_middleware_once:
  "ds_entered (fst (run_middleware d p False st)) = ds_entered st \<or>
     (\<exists>st1. ds_entered st1 = ds_entered st \<and>
        ds_entered (fst (run_middleware d p False st)) = ds_entered (fst (d st1)))"
proof (induction p arbitrary: st)
  case (MwAct f k)
  obtain r w where rw: "f (ds_request st) (ds_world st) = (r, w)" by (metis surj_pair)
  show ?case
    using MwAct [OF rangeI rangeI, of r w "st\<lparr>ds_request := r, ds_world := w\<rparr>"] by (simp add: rw)
next
  case (MwNext use k)
  show ?case
  proof (cases use)
    case ByHelper
    obtain st' res where d: "d st = (st', res)" by (metis surj_pair)
    with ByHelper show ?thesis by (auto simp: run_middleware_called)
  qed (use MwNext [OF rangeI] in auto)
qed simp_all

lemma route_request_entered:
  "ds_entered (fst (route_request a st)) = ds_entered st @ [length (ap_middleware a)]"
  by (auto simp: route_request_def Let_def split: sum.splits prod.splits option.splits route_handler.splits)

lemma upt_extend: "i < j \<Longrightarrow> i # [Suc i..<j] = [i..<j]"
  by (simp add: upt_conv_Cons)

lemma dispatch_middleware_entered:
  "i \<le> length (ap_middleware a) \<Longrightarrow> \<exists>j. i < j \<and> j \<le> Suc (length (ap_middleware a)) \<and>
     ds_entered (fst (dispatch_middleware a i st)) = ds_entered st @ [i..<j]"
proof (induction "length (ap_middleware a) - i" arbitrary: i st)
  case 0
  then have "i = length (ap_middleware a)" by simp
  then show ?case
    by (intro exI [of _ "Suc i"]) (simp add: dispatch_middleware.simps route_request_entered)
next
  case (Suc n)
  then have lt: "i < length (ap_middleware a)" by simp
  let ?d = "\<lambda>st'. dispatch_middleware a (i + 1) st'" and ?st = "st\<lparr>ds_entered := ds_entered st @ [i]\<rparr>"
  have step: "dispatch_middleware a i st = run_middleware ?d (ap_middleware a ! i) False ?st"
    using lt by (simp add: dispatch_middleware.simps [of a i])
  from run_middleware_once [of ?d "ap_middleware a ! i" ?st]
  show ?case
  proof
    assume "ds_entered (fst (run_middleware ?d (ap_middleware a ! i) False ?st)) = ds_entered ?st"
    with lt show ?thesis by (intro exI [of _ "Suc i"]) (simp add: step)
  next
    assume "\<exists>st1. ds_entered st1 = ds_entered ?st \<and>
      ds_entered (fst (run_middleware ?d (ap_middleware a ! i) False ?st)) = ds_entered (fst (?d st1))"
    then obtain st1 where st1: "ds_entered st1 = ds_entered st @ [i]"
      "ds_entered (fst (dispatch_middleware a i st)) = ds_entered (fst (dispatch_middleware a (i + 1) st1))"
      by (auto simp: step)
    from Suc have "n = length (ap_middleware a) - (i + 1)" "i + 1 \<le> length (ap_middleware a)" by simp_all
    from Suc(1) [OF this, of st1] obtain j where j: "i + 1 < j" "j \<le> Suc (length (ap_middleware a))"
      "ds_entered (fst (dispatch_middleware a (i + 1) st1)) = ds_entered st1 @ [i + 1..<j]" by blast
    then show ?thesis
      by (intro exI [of _ j]) (simp add: st1 upt_extend)
  qed
qed

section \<open>Error mapping\<close>

lemma utf8_encode_small: "list_all (\<lambda>c. c < 128) s \<Longrightarrow> utf8_encode s = Inr s"
  by (induction s) (simp_all add: utf8_cp_def)

text \<open>The response has the given status.\<close>

definition answers :: "int \<Rightarrow> 'w dispatch_value result \<Rightarrow> bool" where
  "answers status res \<longleftrightarrow> (\<exists>r. res = Inr (DResponse r) \<and> rs_status r = status)"

lemma text_response_answers:
  "utf8_encode text = Inr bs \<Longrightarrow> 200 \<le> status \<Longrightarrow> status \<le> 599 \<Longrightarrow>
     answers status (text_response text status hs)"
  by (simp add: answers_def text_response_def response_text_def response_new_def)

lemma fixed_answers:
  "answers 405 (text_response (cp ''method not allowed'') 405 hs)"
  "answers 404 (text_response (cp ''not found'') 404 hs)"
  "answers 400 (text_response (cp ''invalid route parameter'') 400 hs)"
  "answers 500 (text_response (cp ''internal server error'') 500 hs)"
  "answers 503 (text_response (cp ''upstream unavailable'') 503 hs)"
  by (rule text_response_answers [OF utf8_encode_small]; simp add: cp_def)+

lemma fixed_not_Inl [simp]:
  "text_response (cp ''method not allowed'') 405 hs \<noteq> Inl e"
  "text_response (cp ''not found'') 404 hs \<noteq> Inl e"
  "text_response (cp ''invalid route parameter'') 400 hs \<noteq> Inl e"
  "text_response (cp ''internal server error'') 500 hs \<noteq> Inl e"
  using fixed_answers [of hs] unfolding answers_def by (metis sum.distinct(1))+

section \<open>Routing of built requests\<close>

lemma match_routes_errors:
  assumes "normalize_path path = Inr p"
  shows "match_routes rs path m h target allowed = Inl e \<Longrightarrow>
    (\<exists>ms. e = MethodNotAllowed ms) \<or> e = RouteNotFound target"
  using assms
  by (induction rs arbitrary: allowed)
    (auto simp: match_segments_def split: if_splits option.splits)

lemma request_route_errors:
  assumes "request_new meth target version headers body ip scheme canc cl chunked ec = Inr r"
    and "router_match m (rq_target r) h t = Inl e"
  shows "(\<exists>ms. e = MethodNotAllowed ms) \<or> e = RouteNotFound target"
proof -
  from assms(1) obtain p where "normalize_path (fst (split_target target)) = Inr p" "rq_target r = target"
    by (auto simp: request_new_def rbind_eq_Inr split: prod.splits)
  with assms(2) match_routes_errors show ?thesis
    by (fastforce simp: router_match_def)
qed

section \<open>Callbacks\<close>

text \<open>The effect of callbacks alone, in order.\<close>

definition effects :: "'w callback list \<Rightarrow> 'w \<Rightarrow> 'w" where
  "effects cbs w = fold (\<lambda>cb w. fst (cb w)) cbs w"

lemma rollback_loop_effects:
  "n \<le> length cbs \<Longrightarrow> rollback_loop cbs n w = effects (rev (take n cbs)) w"
  by (induction n arbitrary: w) (simp_all add: effects_def take_Suc_conv_app_nth)

lemma startup_loop_result:
  "startup_loop cbs n w = (w', m, r) \<Longrightarrow> n \<le> m \<and> m \<le> n + length cbs \<and>
     (r = None \<longrightarrow> m = n + length cbs \<and> w' = effects cbs w) \<and>
     (\<forall>e. r = Some e \<longrightarrow> m < n + length cbs \<and>
        (cbs ! (m - n)) (effects (take (m - n) cbs) w) = (w', Inl e))"
proof (induction cbs arbitrary: n w)
  case (Cons cb cbs)
  obtain w1 q where q: "cb w = (w1, q)" by (metis surj_pair)
  show ?case
  proof (cases q)
    case (Inl e)
    with Cons.prems q show ?thesis by (auto simp: effects_def)
  next
    case (Inr u)
    with Cons.prems q have "startup_loop cbs (n + 1) w1 = (w', m, r)" by simp
    note IH = Cons.IH [OF this]
    then obtain k where "m = Suc (n + k)" by (auto simp: le_iff_add)
    with IH q show ?thesis by (auto simp: effects_def)
  qed
qed (simp add: effects_def)

lemma shutdown_loop_effects: "fst (shutdown_loop cbs e w) = effects cbs w"
  by (induction cbs arbitrary: e w) (auto simp: effects_def split: prod.splits sum.splits)

section \<open>Properties\<close>

text \<open>C34 Whatever the middleware do (skip the rest, call it again, catch its errors, misuse their
  \<open>MiddlewareNext\<close>, rewrite the request), one dispatch enters the positions of the chain in order
  without a gap and each at most once: middleware \<open>0\<close>, then \<open>1\<close>, and so on, with the routed handler
  as the last position; in particular the handler runs at most once, and only after every
  middleware was entered.\<close>

theorem middleware_chain_in_order:
  "\<exists>j. 0 < j \<and> j \<le> Suc (length (ap_middleware a)) \<and>
     ds_entered (fst (dispatch_middleware a 0 st)) = ds_entered st @ [0..<j] \<and>
     ds_entered (fst (app_dispatch a st)) = ds_entered st @ [0..<j]"
proof -
  have "ds_entered (fst (app_dispatch a st)) = ds_entered (fst (dispatch_middleware a 0 st))"
    by (auto simp: app_dispatch_def map_error_def run_error_handler_def
        split: prod.splits sum.splits exn.splits option.splits)
  with dispatch_middleware_entered [of 0 a st] show ?thesis by auto
qed



text \<open>The proxy plan made from the request head alone is the one the full dispatch would make:
  without middleware, \<open>dispatch_proxy_head\<close> returns a plan exactly when the dispatch at the end of
  the request returns that plan, with the same path parameters on the request; and on a request
  that its constructor accepted it never raises.\<close>

theorem early_proxy_plan_agrees:
  assumes "ap_middleware a = []"
    and "request_new meth target version headers body ip scheme canc cl chunked ec = Inr (ds_request st)"
  shows "(\<exists>r' plan. dispatch_proxy_head a (ds_request st) = (r', Inr plan) \<and>
    (\<forall>p. plan = Some p \<longleftrightarrow> snd (dispatch_middleware a 0 st) = Inr (DProxy p)) \<and>
    (plan \<noteq> None \<longrightarrow> r' = ds_request (fst (dispatch_middleware a 0 st)) \<and>
       ds_world (fst (dispatch_middleware a 0 st)) = ds_world st))"
proof (cases "router_match (rq_method (ds_request st)) (rq_target (ds_request st)) (host_of (ds_request st)) (ap_router a)")
  case (Inl e)
  with request_route_errors [OF assms(2) Inl] assms(1) show ?thesis
    by (auto simp: dispatch_proxy_head_def dispatch_middleware.simps route_request_def Let_def)
next
  case (Inr rp)
  then obtain rt params where m: "router_match (rq_method (ds_request st)) (rq_target (ds_request st))
      (host_of (ds_request st)) (ap_router a) = Inr (rt, params)"
    by (cases rp) simp
  have not_local: "to_response v \<noteq> Inr (DProxy p)" for v and p :: "'a proxy_plan"
    by (auto simp: to_response_def rbind_eq_Inr split: handler_value.splits)
  have not_text: "text_response t s hs \<noteq> Inr (DProxy p)" for t s hs and p :: "'a proxy_plan"
    by (auto simp: text_response_def rbind_eq_Inr)
  from assms(1) m show ?thesis
    by (auto simp: dispatch_proxy_head_def dispatch_middleware.simps route_request_def Let_def not_local not_text
        split: option.splits sum.splits route_handler.splits prod.splits)
qed

text \<open>Startup is all or nothing, in positional pairs: either every startup callback ran, in order,
  and the application is started; or the first failing callback's error is raised, exactly the
  shutdown callbacks of the completed ones ran, in reverse order (failing ones included), and the
  application is not started.  Shutdown runs every shutdown callback in reverse order even when
  some fail, and always leaves the application stopped.\<close>

theorem startup_shutdown_paired:
  assumes "app_new routes mw startup shutdown handlers upstreams = Inr a"
  shows "(app_startup a w = (a\<lparr>ap_started := True\<rparr>, effects startup w, Inr ()) \<or>
      (\<exists>i < length startup. \<exists>w1 e. (startup ! i) (effects (take i startup) w) = (w1, Inl e) \<and>
         app_startup a w = (a, effects (rev (take i shutdown)) w1, Inl e))) \<and>
    (\<exists>r. app_shutdown (a\<lparr>ap_started := True\<rparr>) w = (a, effects (rev shutdown) w, r))"
proof -
  from assms have a: "ap_startup_callbacks a = startup" "ap_shutdown_callbacks a = shutdown"
    "\<not> ap_started a" "length startup = length shutdown" "a\<lparr>ap_started := False\<rparr> = a"
    by (auto simp: app_new_def rbind_eq_Inr)
  obtain w1 m r where loop: "startup_loop startup 0 w = (w1, m, r)" by (metis prod_cases3)
  note res = startup_loop_result [OF loop]
  have "app_startup a w = (a\<lparr>ap_started := True\<rparr>, effects startup w, Inr ()) \<or>
      (\<exists>i < length startup. \<exists>w1 e. (startup ! i) (effects (take i startup) w) = (w1, Inl e) \<and>
         app_startup a w = (a, effects (rev (take i shutdown)) w1, Inl e))"
  proof (cases r)
    case None
    with loop res a show ?thesis by (simp add: app_startup_def)
  next
    case (Some e)
    with res a have "(startup ! m) (effects (take m startup) w) = (w1, Inl e)" "m < length startup"
      by simp_all
    moreover from Some loop a have "app_startup a w = (a, effects (rev (take m shutdown)) w1, Inl e)"
      using \<open>m < length startup\<close> by (simp add: app_startup_def rollback_loop_effects)
    ultimately show ?thesis by blast
  qed
  moreover have "\<exists>r. app_shutdown (a\<lparr>ap_started := True\<rparr>) w = (a, effects (rev shutdown) w, r)"
    using a shutdown_loop_effects [of "rev shutdown" None w]
    by (auto simp: app_shutdown_def split: prod.splits)
  ultimately show ?thesis by blast
qed

section \<open>A concrete application\<close>

definition hello :: "unit local_handler" where
  "hello r vs w = (r, w, Inr (HStr (cp ''hi'')))"


definition some_timeouts :: proxy_timeouts where
  "some_timeouts = projr (proxy_timeouts_new 1 1 1 1)"

definition some_retry :: retry_policy where
  "some_retry = projr (retry_policy_new 1 [])"

definition demo_routes :: "unit route_handler route list" where
  "demo_routes = [projr (web_get (cp ''/hello'') hello [] [] []),
     projr (web_proxy (cp ''/api/{rest*}'') (cp ''up'') (cp ''*'') [] [] [] some_timeouts some_retry False)]"

definition demo_app :: "unit mw_prog list \<Rightarrow> unit app" where
  "demo_app mw = projr (app_new demo_routes mw [] [] [] [(cp ''up'', 0)])"

definition demo_request :: "string \<Rightarrow> string \<Rightarrow> request result" where
  "demo_request meth target = request_new (cp meth) (cp target) (cp ''HTTP/1.1'') []
     (projr (body_new 10 1 2 False)) [] (cp ''http'') (cancellation_new 0) 0 False False"

definition demo_state :: "string \<Rightarrow> string \<Rightarrow> unit dispatch_state" where
  "demo_state meth target = \<lparr>ds_request = projr (demo_request meth target), ds_world = (), ds_entered = []\<rparr>"



theorem early_proxy_plan_agrees_witness:
  "\<exists>r' plan. dispatch_proxy_head (demo_app []) (ds_request (demo_state ''GET'' ''/api/x'')) = (r', Inr plan) \<and>
     (\<forall>p. plan = Some p \<longleftrightarrow> snd (dispatch_middleware (demo_app []) 0 (demo_state ''GET'' ''/api/x'')) = Inr (DProxy p))"
proof -
  have "ap_middleware (demo_app []) = []" by code_simp
  moreover have "demo_request ''GET'' ''/api/x'' = Inr (ds_request (demo_state ''GET'' ''/api/x''))"
    by code_simp
  ultimately have "\<exists>r' plan. dispatch_proxy_head (demo_app []) (ds_request (demo_state ''GET'' ''/api/x'')) = (r', Inr plan) \<and>
     (\<forall>p. plan = Some p \<longleftrightarrow> snd (dispatch_middleware (demo_app []) 0 (demo_state ''GET'' ''/api/x'')) = Inr (DProxy p)) \<and>
     (plan \<noteq> None \<longrightarrow> r' = ds_request (fst (dispatch_middleware (demo_app []) 0 (demo_state ''GET'' ''/api/x''))) \<and>
       ds_world (fst (dispatch_middleware (demo_app []) 0 (demo_state ''GET'' ''/api/x''))) =
       ds_world (demo_state ''GET'' ''/api/x''))"
    unfolding demo_request_def by (rule early_proxy_plan_agrees)
  then show ?thesis by blast
qed

definition step_up :: "nat callback" where "step_up w = (w + 1, Inr ())"
definition step_down :: "nat callback" where "step_down w = (w - 1, Inl (RuntimeError ''down''))"
definition broken :: "nat callback" where "broken w = (w + 10, Inl (RuntimeError ''up''))"

definition two_step_app :: "nat app" where
  "two_step_app = projr (app_new [] [] [step_up, broken] [step_down, step_down] [] [])"

lemma two_step_app_new: "app_new [] [] [step_up, broken] [step_down, step_down] [] [] = Inr two_step_app"
  by (simp add: two_step_app_def app_new_def router_new_def)

theorem startup_shutdown_paired_witness:
  "fst (snd (app_startup two_step_app 0)) = 10"
proof -
  have "isl (snd (snd (app_startup two_step_app 0)))" by code_simp
  then show ?thesis
    using startup_shutdown_paired [OF two_step_app_new, of 0]
    by (auto simp: effects_def step_up_def step_down_def broken_def less_Suc_eq)
qed

end
