(* ===== verification/Sequencing.thy ===== *)
theory Sequencing
  imports Prelude
begin

text \<open>
  Programs that change a state and may raise: the sequencing, \<open>try\<close>/\<open>except\<close>, \<open>try\<close>/\<open>finally\<close> and
  "run every step, raise the first error" shapes of the sources as combinators, with a small
  calculus of triples whose second postcondition holds when the program raises.
\<close>

type_synonym ('s, 'a) prog = "'s \<Rightarrow> 's \<times> 'a result"

definition ret :: "'a \<Rightarrow> ('s, 'a) prog" where
  "ret x = (\<lambda>s. (s, Inr x))"

definition throw :: "exn \<Rightarrow> ('s, 'a) prog" where
  "throw e = (\<lambda>s. (s, Inl e))"

definition change :: "('s \<Rightarrow> 's) \<Rightarrow> ('s, unit) prog" where
  "change f = (\<lambda>s. (f s, Inr ()))"

definition reading :: "('s \<Rightarrow> ('s, 'a) prog) \<Rightarrow> ('s, 'a) prog" where
  "reading f = (\<lambda>s. f s s)"

definition andthen :: "('s, 'a) prog \<Rightarrow> ('a \<Rightarrow> ('s, 'b) prog) \<Rightarrow> ('s, 'b) prog" where
  "andthen m k = (\<lambda>s. case m s of (s', Inl e) \<Rightarrow> (s', Inl e) | (s', Inr x) \<Rightarrow> k x s')"

definition thenp :: "('s, 'a) prog \<Rightarrow> ('s, 'b) prog \<Rightarrow> ('s, 'b) prog" where
  "thenp m n = andthen m (\<lambda>_. n)"

definition catching :: "('s, 'a) prog \<Rightarrow> (exn \<Rightarrow> ('s, 'a) prog) \<Rightarrow> ('s, 'a) prog" where
  "catching m h = (\<lambda>s. case m s of (s', Inl e) \<Rightarrow> h e s' | (s', Inr x) \<Rightarrow> (s', Inr x))"

text \<open>\<open>try: m finally: f\<close>; an error of the cleanup replaces the outcome.\<close>

definition ensuring :: "('s, 'a) prog \<Rightarrow> ('s, unit) prog \<Rightarrow> ('s, 'a) prog" where
  "ensuring m f = (\<lambda>s. case m s of (s', r) \<Rightarrow>
     (case f s' of (s'', Inl e) \<Rightarrow> (s'', Inl e) | (s'', Inr _) \<Rightarrow> (s'', r)))"

definition unless :: "bool \<Rightarrow> ('s, unit) prog \<Rightarrow> ('s, unit) prog" where
  "unless c m = (if c then ret () else m)"

text \<open>Every step is run; the first error is raised at the end.\<close>

fun first_error :: "('s, unit) prog list \<Rightarrow> ('s, unit) prog" where
  "first_error [] = ret ()"
| "first_error (m # ms) = (\<lambda>s. case m s of (s', r) \<Rightarrow>
     (case first_error ms s' of (s'', r') \<Rightarrow> (s'', case r of Inl e \<Rightarrow> Inl e | Inr _ \<Rightarrow> r')))"

section \<open>Triples\<close>

definition triple :: "('s \<Rightarrow> bool) \<Rightarrow> ('s, 'a) prog \<Rightarrow> ('a \<Rightarrow> 's \<Rightarrow> bool) \<Rightarrow> ('s \<Rightarrow> bool) \<Rightarrow> bool" where
  "triple P m Q E \<longleftrightarrow> (\<forall>s. P s \<longrightarrow> (case m s of (s', Inl e) \<Rightarrow> E s' | (s', Inr x) \<Rightarrow> Q x s'))"

text \<open>A program that keeps an invariant whether or not it raises.\<close>

definition keeps :: "('s \<Rightarrow> bool) \<Rightarrow> ('s, 'a) prog \<Rightarrow> bool" where
  "keeps I m \<longleftrightarrow> (\<forall>s. I s \<longrightarrow> I (fst (m s)))"

named_theorems prog_rules

lemma keepsD: "keeps I m \<Longrightarrow> I s \<Longrightarrow> m s = (s', r) \<Longrightarrow> I s'"
  by (metis fst_conv keeps_def)

lemma keeps_triple: "keeps I m \<longleftrightarrow> triple I m (\<lambda>_. I) I"
  unfolding keeps_def triple_def
  by (rule all_cong1, rule imp_cong) (auto split: prod.splits sum.splits)

lemma triple_conseq:
  "triple P m Q E \<Longrightarrow> (\<And>s. P' s \<Longrightarrow> P s) \<Longrightarrow> (\<And>x s. Q x s \<Longrightarrow> Q' x s) \<Longrightarrow> (\<And>s. E s \<Longrightarrow> E' s) \<Longrightarrow>
     triple P' m Q' E'"
  by (fastforce simp: triple_def split: prod.splits sum.splits)

lemma triple_ret [prog_rules]: "(\<And>s. P s \<Longrightarrow> Q x s) \<Longrightarrow> triple P (ret x) Q E"
  by (simp add: triple_def ret_def)

lemma triple_throw [prog_rules]: "(\<And>s. P s \<Longrightarrow> E s) \<Longrightarrow> triple P (throw e) Q E"
  by (simp add: triple_def throw_def)

lemma triple_change: "(\<And>s. P s \<Longrightarrow> Q () (f s)) \<Longrightarrow> triple P (change f) Q E"
  by (simp add: triple_def change_def)

lemma triple_reading: "(\<And>s0. triple (\<lambda>s. P s \<and> s = s0) (f s0) Q E) \<Longrightarrow> triple P (reading f) Q E"
  by (auto simp: triple_def reading_def)

lemma triple_andthen: "triple P m R E \<Longrightarrow> (\<And>x. triple (R x) (k x) Q E) \<Longrightarrow> triple P (andthen m k) Q E"
  by (fastforce simp: triple_def andthen_def split: prod.splits sum.splits)

lemma triple_thenp: "triple P m (\<lambda>_. R) E \<Longrightarrow> triple R n Q E \<Longrightarrow> triple P (thenp m n) Q E"
  unfolding thenp_def by (rule triple_andthen)

lemma triple_catching: "triple P m Q R \<Longrightarrow> (\<And>e. triple R (h e) Q E) \<Longrightarrow> triple P (catching m h) Q E"
  by (fastforce simp: triple_def catching_def split: prod.splits sum.splits)

lemma triple_ensuring:
  "triple P m R S \<Longrightarrow> (\<And>x. triple (R x) f (\<lambda>_. Q x) E) \<Longrightarrow> triple S f (\<lambda>_. E) E \<Longrightarrow> triple P (ensuring m f) Q E"
  by (fastforce simp: triple_def ensuring_def split: prod.splits sum.splits)

lemma triple_if [prog_rules]:
  "(b \<Longrightarrow> triple P m Q E) \<Longrightarrow> (\<not> b \<Longrightarrow> triple P n Q E) \<Longrightarrow> triple P (if b then m else n) Q E"
  by simp

lemma keeps_ret [prog_rules]: "keeps I (ret x)"
  by (simp add: keeps_def ret_def)

lemma keeps_throw [prog_rules]: "keeps I (throw e)"
  by (simp add: keeps_def throw_def)

lemma keeps_change: "(\<And>s. I s \<Longrightarrow> I (f s)) \<Longrightarrow> keeps I (change f)"
  by (simp add: keeps_def change_def)

lemma keeps_reading [prog_rules]: "(\<And>s. I s \<Longrightarrow> keeps I (f s)) \<Longrightarrow> keeps I (reading f)"
  by (simp add: keeps_def reading_def)

lemma keeps_andthen [prog_rules]: "keeps I m \<Longrightarrow> (\<And>x. keeps I (k x)) \<Longrightarrow> keeps I (andthen m k)"
  unfolding keeps_triple by (rule triple_andthen)

lemma keeps_thenp [prog_rules]: "keeps I m \<Longrightarrow> keeps I n \<Longrightarrow> keeps I (thenp m n)"
  unfolding thenp_def by (rule keeps_andthen)

lemma keeps_catching [prog_rules]: "keeps I m \<Longrightarrow> (\<And>e. keeps I (h e)) \<Longrightarrow> keeps I (catching m h)"
  unfolding keeps_triple by (rule triple_catching)

lemma keeps_ensuring [prog_rules]: "keeps I m \<Longrightarrow> keeps I f \<Longrightarrow> keeps I (ensuring m f)"
  unfolding keeps_triple by (rule triple_ensuring)

lemma keeps_if [prog_rules]:
  "(b \<Longrightarrow> keeps I m) \<Longrightarrow> (\<not> b \<Longrightarrow> keeps I n) \<Longrightarrow> keeps I (if b then m else n)"
  by simp

lemma keeps_unless [prog_rules]: "(\<not> c \<Longrightarrow> keeps I m) \<Longrightarrow> keeps I (unless c m)"
  by (simp add: unless_def keeps_ret)

lemma keeps_first_error [prog_rules]: "(\<And>m. m \<in> set ms \<Longrightarrow> keeps I m) \<Longrightarrow> keeps I (first_error ms)"
proof (induction ms)
  case (Cons m ms)
  then have "keeps I m" "keeps I (first_error ms)" by simp_all
  then show ?case by (fastforce simp: keeps_def split: prod.splits)
qed (simp add: keeps_ret)

lemma keeps_option [prog_rules]:
  "(x = None \<Longrightarrow> keeps I m) \<Longrightarrow> (\<And>y. x = Some y \<Longrightarrow> keeps I (k y)) \<Longrightarrow>
     keeps I (case x of None \<Rightarrow> m | Some y \<Rightarrow> k y)"
  by (cases x) simp_all

lemma keeps_prod [prog_rules]: "(\<And>a b. x = (a, b) \<Longrightarrow> keeps I (k a b)) \<Longrightarrow> keeps I (case x of (a, b) \<Rightarrow> k a b)"
  by (cases x) simp

lemma keeps_sum [prog_rules]:
  "(\<And>e. x = Inl e \<Longrightarrow> keeps I (h e)) \<Longrightarrow> (\<And>y. x = Inr y \<Longrightarrow> keeps I (k y)) \<Longrightarrow>
     keeps I (case x of Inl e \<Rightarrow> h e | Inr y \<Rightarrow> k y)"
  by (cases x) simp_all

section \<open>Steps with one outcome\<close>

text \<open>A program that ends in \<open>Q\<close> whether or not it raises.\<close>

definition leads :: "('s \<Rightarrow> bool) \<Rightarrow> ('s, 'a) prog \<Rightarrow> ('s \<Rightarrow> bool) \<Rightarrow> bool" where
  "leads P m Q \<longleftrightarrow> (\<forall>s. P s \<longrightarrow> Q (fst (m s)))"

lemma leads_triple: "leads P m Q \<longleftrightarrow> triple P m (\<lambda>_. Q) Q"
  unfolding leads_def triple_def
  by (rule all_cong1, rule imp_cong) (auto split: prod.splits sum.splits)

lemma leadsD: "leads P m Q \<Longrightarrow> P s \<Longrightarrow> m s = (s', r) \<Longrightarrow> Q s'"
  by (metis fst_conv leads_def)

lemma keeps_leads: "keeps I m \<longleftrightarrow> leads I m I"
  by (simp add: keeps_triple leads_triple)

lemma first_error_state: "fst (first_error (m # ms) s) = fst (first_error ms (fst (m s)))"
  by (simp split: prod.splits)

lemma leads_first_error:
  "(\<And>s. P s \<Longrightarrow> Q s) \<Longrightarrow> leads P (first_error []) Q"
  "leads P m R \<Longrightarrow> leads R (first_error ms) Q \<Longrightarrow> leads P (first_error (m # ms)) Q"
  unfolding leads_def first_error_state by (simp_all add: ret_def)

lemma leads_first_error_append:
  "leads P (first_error ms) R \<Longrightarrow> leads R (first_error ns) Q \<Longrightarrow> leads P (first_error (ms @ ns)) Q"
proof (induction ms arbitrary: P)
  case Nil
  then show ?case by (auto simp: leads_def ret_def)
next
  case (Cons m ms)
  let ?M = "\<lambda>s'. \<exists>s. P s \<and> s' = fst (m s)"
  from Cons.prems(1) have "leads ?M (first_error ms) R"
    unfolding leads_def first_error_state by blast
  from Cons.IH [OF this Cons.prems(2)] have "leads ?M (first_error (ms @ ns)) Q" .
  moreover have "leads P m ?M" by (auto simp: leads_def)
  ultimately show ?case by (simp only: append_Cons leads_first_error(2))
qed

text \<open>A sequence none of whose steps raises.\<close>

lemma triple_first_error:
  "triple P m (\<lambda>_. R) (\<lambda>_. False) \<Longrightarrow> triple R (first_error ms) (\<lambda>_. Q) (\<lambda>_. False) \<Longrightarrow>
     triple P (first_error (m # ms)) (\<lambda>_. Q) (\<lambda>_. False)"
  by (fastforce simp: triple_def split: prod.splits sum.splits)

lemma leads_conseq: "leads P m Q \<Longrightarrow> (\<And>s. P' s \<Longrightarrow> P s) \<Longrightarrow> (\<And>s. Q s \<Longrightarrow> Q' s) \<Longrightarrow> leads P' m Q'"
  by (simp add: leads_def)

lemma leads_thenp: "triple P m (\<lambda>_. R) Q \<Longrightarrow> leads R n Q \<Longrightarrow> leads P (thenp m n) Q"
  unfolding leads_triple by (rule triple_thenp)

lemma triple_keeps: "keeps I m \<Longrightarrow> triple I m (\<lambda>_. I) I"
  by (simp add: keeps_triple)

lemma triple_pre_ex: "(\<And>x. triple (P x) m Q E) \<Longrightarrow> triple (\<lambda>s. \<exists>x. P x s) m Q E"
  unfolding triple_def by meson

lemma triple_pre_fact: "(b \<Longrightarrow> triple P m Q E) \<Longrightarrow> triple (\<lambda>s. b \<and> P s) m Q E"
  by (auto simp: triple_def)

lemma triple_option:
  "(x = None \<Longrightarrow> triple P m Q E) \<Longrightarrow> (\<And>y. x = Some y \<Longrightarrow> triple P (k y) Q E) \<Longrightarrow>
     triple P (case x of None \<Rightarrow> m | Some y \<Rightarrow> k y) Q E"
  by (cases x) simp_all

lemma triple_prod: "(\<And>a b. x = (a, b) \<Longrightarrow> triple P (k a b) Q E) \<Longrightarrow> triple P (case x of (a, b) \<Rightarrow> k a b) Q E"
  by (cases x) simp

end
