(* ===== verification/Connection.thy ===== *)
theory Connection
  imports Config Sequencing
begin

text \<open>
  Model of \<open>GatewayConnection\<close> of \<open>pcc_gateway/server.py\<close>: one incremental HTTP/1 session, with its
  codec, output buffer, request admissions, deferred events, local handler child, streaming
  response and teardown.

  The state of a connection holds the heap of its output buffer, the lifecycle it shares with the
  rest of the gateway, and the store of its request objects (an address per request, because the
  connection keeps several references to the same one).  A body event owns one retained view; the
  model keeps its bytes in the event and counts the views that are still owned in \<open>cs_views\<close>.
  Everything outside (application, observability hooks, clock, transport, TLS channel, virtual
  threads, response iterators) is the parameter \<open>env\<close>: functions on a world that may raise.  Hooks
  do not call back into the connection.
\<close>

section \<open>State and environment\<close>

datatype hook =
    ConnectionClosedHook string
  | RequestStarted nat
  | RequestFinished nat
  | BackpressureChanged bool int
  | DeadlineExceeded string

text \<open>What a dispatch gives: a response with a body, one with an iterator (a number), a proxy
  plan, or any other object.\<close>

datatype 'p reply =
    Reply "bytes response"
  | StreamReply "nat response"
  | PlanReply 'p
  | OtherReply

datatype stream_item = StopIteration | ChunkBytes bytes | ChunkText pystr | ChunkOther

datatype tls_status = TlsOk | TlsWantRead | TlsWantWrite | TlsClosed | TlsFailed

record tls_result =
  tr_status :: tls_status
  tr_count :: int
  tr_wait_read :: bool
  tr_error_name :: string

record ('p, 'w) conn_env =
  ce_config :: "unit gateway_config"
  ce_client_ip :: pystr
  ce_local_body_streaming :: bool
  ce_now :: "'w \<Rightarrow> 'w \<times> int"
  ce_hook :: "hook \<Rightarrow> 'w \<Rightarrow> 'w \<times> unit result"
  ce_dispatch :: "request \<Rightarrow> 'w \<Rightarrow> request \<times> 'w \<times> 'p reply result"
  ce_proxy_head :: "request \<Rightarrow> 'w \<Rightarrow> request \<times> 'w \<times> 'p option result"
  ce_spawn :: "nat \<Rightarrow> 'w \<Rightarrow> 'w \<times> nat result"
  ce_cancel_thread :: "nat \<Rightarrow> 'w \<Rightarrow> 'w \<times> unit result"
  ce_outcome :: "nat \<Rightarrow> 'w \<Rightarrow> int"
  ce_join :: "nat \<Rightarrow> request list \<Rightarrow> 'w \<Rightarrow> request list \<times> 'w \<times> 'p reply result"
  ce_iter :: "nat \<Rightarrow> 'w \<Rightarrow> 'w \<times> nat result"
  ce_next :: "nat \<Rightarrow> 'w \<Rightarrow> 'w \<times> stream_item result"
  ce_read :: "int \<Rightarrow> int \<Rightarrow> 'w \<Rightarrow> 'w \<times> (int \<times> bytes) result"
  ce_write :: "int \<Rightarrow> bytes \<Rightarrow> 'w \<Rightarrow> 'w \<times> (int \<times> int) result"
  ce_shutdown :: "int \<Rightarrow> 'w \<Rightarrow> 'w \<times> unit result"
  ce_close_fd :: "int \<Rightarrow> 'w \<Rightarrow> 'w \<times> unit result"
  ce_tls_read :: "int \<Rightarrow> int \<Rightarrow> int \<Rightarrow> 'w \<Rightarrow> 'w \<times> (tls_result \<times> bytes) result"
  ce_tls_write :: "bytes \<Rightarrow> int \<Rightarrow> int \<Rightarrow> 'w \<Rightarrow> 'w \<times> tls_result result"
  ce_tls_cancel :: "'w \<Rightarrow> 'w \<times> unit result"
  ce_tls_close :: "'w \<Rightarrow> 'w \<times> unit result"

record 'p gateway_connection =
  hc_fd :: int
  hc_has_transport :: bool
  hc_tls :: bool
  hc_wait_read :: bool   \<comment> \<open>\<open>io_wait_interest == PCC_IO_READ\<close>\<close>
  hc_codec :: codec
  hc_output :: channel
  hc_current :: "nat option"
  hc_keep_alive :: bool
  hc_admitted :: bool
  hc_pending_proxy :: "'p option"
  hc_proxy_request :: "nat option"
  hc_local_request :: "nat option"
  hc_local_thread :: "nat option"
  hc_stream_request :: "nat option"
  hc_stream_response :: "nat response option"
  hc_stream_iterator :: "nat option"
  hc_stream_chunk :: bytes
  hc_stream_offset :: int
  hc_stream_admitted :: bool
  hc_stream_empty_chunks :: int
  hc_deferred :: "http_event list"
  hc_completed :: int
  hc_close_after_flush :: bool
  hc_closed :: bool
  hc_close_reason :: string
  hc_read_deadline :: int
  hc_header_deadline :: int
  hc_write_deadline :: int

record ('p, 'c, 'w) cstate =
  cs_conn :: "'p gateway_connection"
  cs_heap :: bheap
  cs_life :: "'c lifecycle"
  cs_requests :: "request list"
  cs_body_heap :: bheap
  cs_views :: int
  cs_world :: 'w

definition conn_new :: "unit gateway_config \<Rightarrow> int \<Rightarrow> bool \<Rightarrow> bool \<Rightarrow> 'p gateway_connection result" where
  "conn_new config fd has_transport tls =
     rbind (connection_codec config) (\<lambda>codec.
     rbind (connection_output config) (\<lambda>output.
     Inr \<lparr>hc_fd = fd, hc_has_transport = has_transport, hc_tls = tls, hc_wait_read = True,
          hc_codec = codec, hc_output = output, hc_current = None, hc_keep_alive = True,
          hc_admitted = False, hc_pending_proxy = None, hc_proxy_request = None,
          hc_local_request = None, hc_local_thread = None, hc_stream_request = None,
          hc_stream_response = None, hc_stream_iterator = None, hc_stream_chunk = [],
          hc_stream_offset = 0, hc_stream_admitted = False, hc_stream_empty_chunks = 0,
          hc_deferred = [], hc_completed = 0, hc_close_after_flush = False, hc_closed = False,
          hc_close_reason = '''', hc_read_deadline = -1, hc_header_deadline = -1,
          hc_write_deadline = -1\<rparr>))"

section \<open>Steps on the parts of the state\<close>

definition upd :: "('p gateway_connection \<Rightarrow> 'p gateway_connection) \<Rightarrow> (('p, 'c, 'w) cstate, unit) prog" where
  "upd f = change (\<lambda>s. s\<lparr>cs_conn := f (cs_conn s)\<rparr>)"

definition conn_of :: "('p gateway_connection \<Rightarrow> (('p, 'c, 'w) cstate, 'a) prog) \<Rightarrow> (('p, 'c, 'w) cstate, 'a) prog" where
  "conn_of f = reading (\<lambda>s. f (cs_conn s))"

definition outside :: "('w \<Rightarrow> 'w \<times> 'a result) \<Rightarrow> (('p, 'c, 'w) cstate, 'a) prog" where
  "outside g = (\<lambda>s. case g (cs_world s) of (w, r) \<Rightarrow> (s\<lparr>cs_world := w\<rparr>, r))"

definition life :: "('c lifecycle \<Rightarrow> 'c lifecycle \<times> 'a result) \<Rightarrow> (('p, 'c, 'w) cstate, 'a) prog" where
  "life g = (\<lambda>s. case g (cs_life s) of (l, r) \<Rightarrow> (s\<lparr>cs_life := l\<rparr>, r))"

definition metric :: "string \<Rightarrow> (('p, 'c, 'w) cstate, unit) prog" where
  "metric name = life (\<lambda>l. (bump_metric name 1 l, Inr ()))"

definition lift_result :: "'a result \<Rightarrow> (('p, 'c, 'w) cstate, 'a) prog" where
  "lift_result r = (\<lambda>s. (s, r))"

definition now_ms :: "('p, 'w) conn_env \<Rightarrow> (('p, 'c, 'w) cstate, int) prog" where
  "now_ms env = conn_of (\<lambda>c. if \<not> hc_has_transport c then ret 0
     else outside (\<lambda>w. case ce_now env w of (w', n) \<Rightarrow> (w', Inr n)))"

definition call_hook :: "('p, 'w) conn_env \<Rightarrow> hook \<Rightarrow> (('p, 'c, 'w) cstate, unit) prog" where
  "call_hook env h = outside (ce_hook env h)"

text \<open>Updating a request object, and a call on its body stream.\<close>

definition set_request :: "nat \<Rightarrow> (request \<Rightarrow> request) \<Rightarrow> (('p, 'c, 'w) cstate, unit) prog" where
  "set_request a f = change (\<lambda>s. s\<lparr>cs_requests := (cs_requests s)[a := f (cs_requests s ! a)]\<rparr>)"

definition cancel_request :: "nat \<Rightarrow> string \<Rightarrow> (('p, 'c, 'w) cstate, unit) prog" where
  "cancel_request a reason =
     set_request a (\<lambda>r. r\<lparr>rq_cancellation := cancellation_cancel reason (rq_cancellation r)\<rparr>)"

definition on_body ::
  "nat \<Rightarrow> (body_stream \<Rightarrow> bheap \<Rightarrow> body_stream \<times> bheap \<times> 'a result) \<Rightarrow> (('p, 'c, 'w) cstate, 'a) prog" where
  "on_body a g = (\<lambda>s. case g (rq_body (cs_requests s ! a)) (cs_body_heap s) of
     (b, h, r) \<Rightarrow> (s\<lparr>cs_requests := (cs_requests s)[a := (cs_requests s ! a)\<lparr>rq_body := b\<rparr>],
                       cs_body_heap := h\<rparr>, r))"

text \<open>\<open>event.release()\<close> of a body event.\<close>

definition release_view :: "(('p, 'c, 'w) cstate, unit) prog" where
  "release_view = change (\<lambda>s. s\<lparr>cs_views := cs_views s - 1\<rparr>)"

definition quiet :: "('s, 'a) prog \<Rightarrow> ('s, unit) prog" where
  "quiet m = catching (thenp m (ret ())) (\<lambda>_. ret ())"

text \<open>The error a step raised, if any.\<close>

definition attempt :: "('s, unit) prog \<Rightarrow> ('s, exn option) prog" where
  "attempt m = catching (thenp m (ret None)) (\<lambda>e. ret (Some e))"

definition is_buffer_limit :: "exn \<Rightarrow> bool" where
  "is_buffer_limit e = (case e of BufferLimitError _ \<Rightarrow> True | _ \<Rightarrow> False)"

definition is_http1_error :: "exn \<Rightarrow> bool" where
  "is_http1_error e = (case e of Http1Error _ _ _ \<Rightarrow> True | _ \<Rightarrow> False)"

text \<open>The subclasses of \<open>ValueError\<close>; \<open>Http1Error\<close> is one of them.\<close>

definition is_value_error :: "exn \<Rightarrow> bool" where
  "is_value_error e = (case e of ValueError _ \<Rightarrow> True | UnicodeError \<Rightarrow> True | Http1Error _ _ _ \<Rightarrow> True
     | ProxyProtocolError _ _ \<Rightarrow> True | DnsError _ _ \<Rightarrow> True | RouteConflictError _ \<Rightarrow> True
     | RouteBindingError _ \<Rightarrow> True | _ \<Rightarrow> False)"

text \<open>\<open>str(error)\<close> for the errors raised with a fixed text; the route errors carry text of their own.\<close>

definition error_text :: "exn \<Rightarrow> pystr" where
  "error_text e = (case e of ValueError t \<Rightarrow> cp t | Http1Error _ _ t \<Rightarrow> cp t | ProxyProtocolError _ t \<Rightarrow> cp t
     | DnsError _ t \<Rightarrow> cp t | RouteBindingError t \<Rightarrow> cp t | RouteConflictError t \<Rightarrow> t | _ \<Rightarrow> [])"

section \<open>Output\<close>

definition append_output :: "bytes \<Rightarrow> (('p, 'c, 'w) cstate, transition) prog" where
  "append_output data = (\<lambda>s. case channel_append data (hc_output (cs_conn s)) (cs_heap s) of
     (ch, h, r) \<Rightarrow> (s\<lparr>cs_conn := (cs_conn s)\<lparr>hc_output := ch\<rparr>, cs_heap := h\<rparr>, r))"

definition queue_bytes :: "('p, 'w) conn_env \<Rightarrow> bytes \<Rightarrow> (('p, 'c, 'w) cstate, unit) prog" where
  "queue_bytes env data =
     (if data = [] then ret ()
      else andthen (life (reserve_buffered (int (length data)))) (\<lambda>granted.
        if \<not> granted then throw (BufferLimitError ''gateway global buffered-byte limit exceeded'')
        else andthen
          (catching (append_output data) (\<lambda>e.
             thenp (life (release_buffered (int (length data)))) (throw e))) (\<lambda>transition.
          thenp (conn_of (\<lambda>c. if hc_write_deadline c < 0
                    then andthen (now_ms env) (\<lambda>n. upd (\<lambda>c. c\<lparr>hc_write_deadline :=
                      n + gc_write_timeout_ms (ce_config env)\<rparr>))
                    else ret ()))
            (if transition = BACKPRESSURE_HIGH
             then thenp (metric ''backpressure_parks'')
               (conn_of (\<lambda>c. call_hook env (BackpressureChanged True (cb_queued_bytes (hc_output c)))))
             else ret ()))))"

definition consume_channel :: "int \<Rightarrow> (('p, 'c, 'w) cstate, transition) prog" where
  "consume_channel count = (\<lambda>s. case channel_consume count (hc_output (cs_conn s)) (cs_heap s) of
     (ch, h, r) \<Rightarrow> (s\<lparr>cs_conn := (cs_conn s)\<lparr>hc_output := ch\<rparr>, cs_heap := h\<rparr>, r))"

definition consume_output :: "('p, 'w) conn_env \<Rightarrow> int \<Rightarrow> (('p, 'c, 'w) cstate, unit) prog" where
  "consume_output env count =
     (if count \<le> 0 then ret ()
      else andthen (consume_channel count) (\<lambda>transition.
        thenp (life (release_buffered count))
        (thenp (if transition = BACKPRESSURE_LOW
                then conn_of (\<lambda>c. call_hook env (BackpressureChanged False (cb_queued_bytes (hc_output c))))
                else ret ())
        (conn_of (\<lambda>c. if cb_queued_bytes (hc_output c) = 0 then upd (\<lambda>c. c\<lparr>hc_write_deadline := -1\<rparr>)
           else andthen (now_ms env) (\<lambda>n. upd (\<lambda>c. c\<lparr>hc_write_deadline :=
                  n + gc_write_timeout_ms (ce_config env)\<rparr>)))))))"

definition peek_output :: "int \<Rightarrow> (('p, 'c, 'w) cstate, bytes) prog" where
  "peek_output limit = (\<lambda>s. case channel_peek_views limit (hc_output (cs_conn s)) (cs_heap s) of
       (h1, Inl e) \<Rightarrow> (s\<lparr>cs_heap := h1\<rparr>, Inl e)
     | (h1, Inr parts) \<Rightarrow> (case drain_parts parts [] h1 of (h2, r) \<Rightarrow> (s\<lparr>cs_heap := h2\<rparr>, r)))"

definition take_output :: "('p, 'w) conn_env \<Rightarrow> int \<Rightarrow> (('p, 'c, 'w) cstate, bytes) prog" where
  "take_output env limit =
     andthen (peek_output limit) (\<lambda>data. thenp (consume_output env (int (length data))) (ret data))"

section \<open>Abandoning requests\<close>

definition abort_current_request :: "string \<Rightarrow> (('p, 'c, 'w) cstate, unit) prog" where
  "abort_current_request reason = conn_of (\<lambda>c.
     case hc_current c of
       None \<Rightarrow> ret ()
     | Some a \<Rightarrow>
         thenp (upd (\<lambda>c. c\<lparr>hc_current := None, hc_admitted := False\<rparr>))
           (first_error (cancel_request a reason #
              (if hc_local_request c = Some a then [on_body a body_cancel]
               else if hc_proxy_request c \<noteq> Some a
               then [on_body a body_cancel, on_body a body_close,
                     if hc_admitted c then life release_request else ret ()]
               else []))))"

definition signal_pending_local :: "('p, 'w) conn_env \<Rightarrow> string \<Rightarrow> (('p, 'c, 'w) cstate, unit) prog" where
  "signal_pending_local env reason = conn_of (\<lambda>c.
     case hc_local_request c of
       None \<Rightarrow> ret ()
     | Some a \<Rightarrow>
         (case hc_local_thread c of
           None \<Rightarrow> ret ()
         | Some th \<Rightarrow> first_error [cancel_request a reason, on_body a body_cancel,
             outside (ce_cancel_thread env th)]))"

fun keep_first :: "nat list \<Rightarrow> nat list \<Rightarrow> nat list" where
  "keep_first seen [] = []"
| "keep_first seen (a # as) =
     (if a \<in> set seen then keep_first seen as else a # keep_first (a # seen) as)"

definition signal_owner_shutdown :: "('p, 'w) conn_env \<Rightarrow> string \<Rightarrow> (('p, 'c, 'w) cstate, unit) prog" where
  "signal_owner_shutdown env reason = conn_of (\<lambda>c.
     first_error
       (concat (map (\<lambda>a. [cancel_request a reason, on_body a body_cancel])
          (keep_first [] (List.map_filter id
             [hc_current c, hc_local_request c, hc_proxy_request c, hc_stream_request c]))) @
        (case hc_local_thread c of None \<Rightarrow> [] | Some th \<Rightarrow> [outside (ce_cancel_thread env th)]) @
        (if hc_has_transport c \<and> hc_fd c \<ge> 0 then [outside (ce_shutdown env (hc_fd c))] else [])))"

definition take_pending_local :: "(('p, 'c, 'w) cstate, unit) prog" where
  "take_pending_local = upd (\<lambda>c. c\<lparr>hc_local_request := None, hc_local_thread := None\<rparr>)"

definition cancel_pending_proxy :: "string \<Rightarrow> (('p, 'c, 'w) cstate, unit) prog" where
  "cancel_pending_proxy reason = conn_of (\<lambda>c.
     case hc_proxy_request c of
       None \<Rightarrow> ret ()
     | Some a \<Rightarrow>
         thenp (upd (\<lambda>c. c\<lparr>hc_pending_proxy := None, hc_proxy_request := None\<rparr>))
           (first_error [cancel_request a reason, on_body a body_cancel, on_body a body_close,
              life release_request]))"

text \<open>Dropping the streaming response.\<close>

definition drop_stream :: "'p gateway_connection \<Rightarrow> 'p gateway_connection" where
  "drop_stream c = c\<lparr>hc_stream_request := None, hc_stream_response := None, hc_stream_iterator := None,
     hc_stream_chunk := [], hc_stream_offset := 0, hc_stream_admitted := False\<rparr>"

definition cancel_pending_stream :: "string \<Rightarrow> (('p, 'c, 'w) cstate, unit) prog" where
  "cancel_pending_stream reason = conn_of (\<lambda>c.
     case hc_stream_request c of
       None \<Rightarrow> ret ()
     | Some a \<Rightarrow>
         thenp (upd drop_stream)
           (first_error [cancel_request a reason, on_body a body_close,
              if hc_stream_admitted c then life release_request else ret ()]))"

section \<open>Responses\<close>

definition own_headers :: "header list \<Rightarrow> header list" where
  "own_headers headers = filter (\<lambda>(name, value).
     py_lower name \<notin> {cp ''content-length'', cp ''transfer-encoding'', cp ''connection''}) headers"

definition text_reply :: "string \<Rightarrow> int \<Rightarrow> bytes response" where
  "text_reply body status = \<lparr>rs_status = status, rs_body = cp body,
     rs_headers = [(cp ''content-type'', cp ''text/plain; charset=utf-8'')], rs_streaming = False,
     rs_committed = False\<rparr>"

definition without_body :: "int \<Rightarrow> bool" where
  "without_body status \<longleftrightarrow> 100 \<le> status \<and> status < 200 \<or> status = 204 \<or> status = 304"

text \<open>\<open>_response_payload\<close>, on the method of the request.\<close>

definition response_payload :: "pystr \<Rightarrow> 'p reply \<Rightarrow> 'p gateway_connection \<Rightarrow> bytes result" where
  "response_payload meth reply c =
     (let keep_alive = hc_keep_alive c \<and> \<not> hc_close_after_flush c in
      case reply of
        StreamReply r \<Rightarrow>
          encode_response_head (rs_status r) (own_headers (rs_headers r)) (-1)
            (\<not> without_body (rs_status r) \<and> meth \<noteq> cp ''HEAD'') keep_alive
      | _ \<Rightarrow>
          let r = (case reply of Reply r \<Rightarrow> r | _ \<Rightarrow> text_reply ''internal server error'' 500);
              forbidden = (100 \<le> rs_status r \<and> rs_status r < 200 \<or> rs_status r = 204)
          in rbind (encode_response_head (rs_status r) (own_headers (rs_headers r))
               (if forbidden then -1 else int (length (rs_body r))) False keep_alive) (\<lambda>head.
             Inr (head @ (if \<not> without_body (rs_status r) \<and> meth \<noteq> cp ''HEAD'' then rs_body r else []))))"

definition send_reply :: "('p, 'w) conn_env \<Rightarrow> pystr \<Rightarrow> 'p reply \<Rightarrow> (('p, 'c, 'w) cstate, unit) prog" where
  "send_reply env meth reply = conn_of (\<lambda>c.
     andthen (lift_result (response_payload meth reply c)) (queue_bytes env))"

definition begin_streaming_response ::
  "('p, 'w) conn_env \<Rightarrow> nat \<Rightarrow> nat response \<Rightarrow> bool \<Rightarrow> (('p, 'c, 'w) cstate, unit) prog" where
  "begin_streaming_response env a r admitted =
     andthen (outside (ce_iter env (rs_body r))) (\<lambda>it.
     conn_of (\<lambda>c.
       thenp (andthen (lift_result (encode_response_head (rs_status r) (own_headers (rs_headers r)) (-1) True
                 (hc_keep_alive c \<and> \<not> hc_close_after_flush c))) (queue_bytes env))
         (upd (\<lambda>c. c\<lparr>hc_stream_request := Some a, hc_stream_response := Some (r\<lparr>rs_committed := True\<rparr>),
            hc_stream_iterator := Some it, hc_stream_chunk := [], hc_stream_offset := 0,
            hc_stream_admitted := admitted, hc_stream_empty_chunks := 0\<rparr>))))"

text \<open>Whether the connection ends after this response.\<close>

definition check_last :: "('p, 'w) conn_env \<Rightarrow> (('p, 'c, 'w) cstate, unit) prog" where
  "check_last env = reading (\<lambda>s.
     if \<not> hc_keep_alive (cs_conn s) \<or>
        hc_completed (cs_conn s) \<ge> gc_max_requests_per_connection (ce_config env) \<or>
        lc_state (cs_life s) \<noteq> STATE_RUNNING
     then upd (\<lambda>c. c\<lparr>hc_close_after_flush := True\<rparr>) else ret ())"

definition count_completed :: "(('p, 'c, 'w) cstate, unit) prog" where
  "count_completed = upd (\<lambda>c. c\<lparr>hc_completed := hc_completed c + 1\<rparr>)"

definition close_after_flush :: "(('p, 'c, 'w) cstate, unit) prog" where
  "close_after_flush = upd (\<lambda>c. c\<lparr>hc_close_after_flush := True\<rparr>)"

definition raise_option :: "exn option \<Rightarrow> ('s, unit) prog" where
  "raise_option e = (case e of None \<Rightarrow> ret () | Some e \<Rightarrow> throw e)"

definition complete_streaming_response :: "('p, 'w) conn_env \<Rightarrow> (('p, 'c, 'w) cstate, unit) prog" where
  "complete_streaming_response env = conn_of (\<lambda>c.
     case hc_stream_request c of
       None \<Rightarrow> ret ()
     | Some a \<Rightarrow>
         if hc_stream_response c = None then ret ()
         else
           thenp (upd drop_stream) (thenp count_completed
           (andthen (attempt (first_error [call_hook env (RequestFinished a), on_body a body_close,
                if hc_stream_admitted c then life release_request else ret ()])) (\<lambda>primary_error.
            thenp (check_last env) (raise_option primary_error)))))"

text \<open>The chunk part of \<open>_drive_streaming_response\<close>: queue the next piece of the current chunk.\<close>

definition send_piece :: "('p, 'w) conn_env \<Rightarrow> int \<Rightarrow> (('p, 'c, 'w) cstate, unit) prog" where
  "send_piece env available = conn_of (\<lambda>c.
     let take0 = int (length (hc_stream_chunk c)) - hc_stream_offset c;
         take1 = min take0 (bl_segment_bytes (gc_buffers (ce_config env)));
         count = min take1 (available - 32)
     in if count \<le> 0 then ret ()
        else thenp (upd (\<lambda>c. c\<lparr>hc_stream_offset := hc_stream_offset c + count\<rparr>))
          (queue_bytes env (encode_chunk (take (nat count) (drop (nat (hc_stream_offset c)) (hc_stream_chunk c))))))"

definition fail_stream :: "string \<Rightarrow> (('p, 'c, 'w) cstate, unit) prog" where
  "fail_stream reason = thenp (cancel_pending_stream reason) close_after_flush"

text \<open>One item of the iterator.\<close>

definition stream_next :: "('p, 'w) conn_env \<Rightarrow> int \<Rightarrow> stream_item \<Rightarrow> (('p, 'c, 'w) cstate, unit) prog" where
  "stream_next env available item =
     (case item of
       StopIteration \<Rightarrow>
         thenp (andthen (lift_result (encode_end_chunks [])) (queue_bytes env)) (complete_streaming_response env)
     | ChunkOther \<Rightarrow> fail_stream ''invalid response stream chunk''
     | _ \<Rightarrow>
         andthen (lift_result (case item of ChunkText t \<Rightarrow> utf8_encode t | ChunkBytes bs \<Rightarrow> Inr bs | _ \<Rightarrow> Inr [])) (\<lambda>chunk.
           if chunk = [] then
             thenp (upd (\<lambda>c. c\<lparr>hc_stream_empty_chunks := hc_stream_empty_chunks c + 1\<rparr>))
               (conn_of (\<lambda>c. if hc_stream_empty_chunks c > 1024
                  then fail_stream ''too many empty response chunks'' else ret ()))
           else
             thenp (upd (\<lambda>c. c\<lparr>hc_stream_empty_chunks := 0, hc_stream_chunk := chunk, hc_stream_offset := 0\<rparr>))
               (send_piece env available)))"

definition drive_streaming_response :: "('p, 'w) conn_env \<Rightarrow> (('p, 'c, 'w) cstate, unit) prog" where
  "drive_streaming_response env = reading (\<lambda>s.
     case hc_stream_request (cs_conn s) of
       None \<Rightarrow> ret ()
     | Some a \<Rightarrow>
         if cn_cancelled (rq_cancellation (cs_requests s ! a))
         then fail_stream ''streaming response cancelled''
         else
           let c = cs_conn s;
               available = bl_connection_bytes (gc_buffers (ce_config env)) - cb_queued_bytes (hc_output c)
           in if available \<le> 32 then ret ()
              else if hc_stream_offset c \<ge> int (length (hc_stream_chunk c)) then
                (case hc_stream_iterator c of
                  None \<Rightarrow> throw (TypeError ''object is not an iterator'')
                | Some it \<Rightarrow> andthen (outside (ce_next env it)) (stream_next env available))
              else send_piece env available)"

end
