(* ===== verification/Connection_Events.thy ===== *)
theory Connection_Events
  imports Connection
begin

text \<open>
  The rest of \<open>GatewayConnection\<close>: receiving and finishing requests, decoded and deferred events,
  the local handler child, protocol errors and timeouts, the transport edges and the teardown.
\<close>

section \<open>Receiving a request\<close>

definition admit :: "(('p, 'c, 'w) cstate, bool) prog" where
  "admit = life (\<lambda>l. case admit_request l of (l', b) \<Rightarrow> (l', Inr b))"

definition proxy_head :: "('p, 'w) conn_env \<Rightarrow> nat \<Rightarrow> (('p, 'c, 'w) cstate, 'p option) prog" where
  "proxy_head env a = (\<lambda>s. case ce_proxy_head env (cs_requests s ! a) (cs_world s) of
     (rq, w, r) \<Rightarrow> (s\<lparr>cs_requests := (cs_requests s)[a := rq], cs_world := w\<rparr>, r))"

definition dispatch :: "('p, 'w) conn_env \<Rightarrow> nat \<Rightarrow> (('p, 'c, 'w) cstate, 'p reply) prog" where
  "dispatch env a = (\<lambda>s. case ce_dispatch env (cs_requests s ! a) (cs_world s) of
     (rq, w, r) \<Rightarrow> (s\<lparr>cs_requests := (cs_requests s)[a := rq], cs_world := w\<rparr>, r))"

text \<open>The request object of a head, at a new address.\<close>

definition make_request ::
  "('p, 'w) conn_env \<Rightarrow> request_head \<Rightarrow> bool \<Rightarrow> int \<Rightarrow> (('p, 'c, 'w) cstate, nat) prog" where
  "make_request env head streaming deadline = reading (\<lambda>s.
     andthen (lift_result (request_body_stream (ce_config env) streaming)) (\<lambda>body.
     andthen (lift_result (request_new (rh_method head) (rh_target head) (rh_version head) (rh_headers head)
       body (ce_client_ip env) (if hc_tls (cs_conn s) then cp ''https'' else cp ''http'')
       (cancellation_new deadline) (rh_content_length head) (rh_chunked head) (rh_expect_continue head))) (\<lambda>rq.
     thenp (change (\<lambda>s. s\<lparr>cs_requests := cs_requests s @ [rq]\<rparr>)) (ret (length (cs_requests s))))))"

definition begin_request :: "('p, 'w) conn_env \<Rightarrow> request_head \<Rightarrow> (('p, 'c, 'w) cstate, unit) prog" where
  "begin_request env head = conn_of (\<lambda>c.
     if hc_current c \<noteq> None
     then throw (Http1Error 400 ''overlapping-request'' ''request body overlaps'')
     else andthen (now_ms env) (\<lambda>now.
       let streaming = hc_has_transport c \<and> ce_local_body_streaming env \<and>
                       (rh_content_length head > 0 \<or> rh_chunked head)
       in andthen (make_request env head streaming (now + hl_body_timeout_ms (gc_http1 (ce_config env)))) (\<lambda>a.
       thenp (upd (\<lambda>c. c\<lparr>hc_header_deadline := -1, hc_current := Some a, hc_keep_alive := rh_keep_alive head\<rparr>))
       (andthen admit (\<lambda>admitted.
        thenp (upd (\<lambda>c. c\<lparr>hc_admitted := admitted\<rparr>))
        (if \<not> admitted then ret ()
         else thenp (call_hook env (RequestStarted a))
           (thenp (if rh_expect_continue head
                   then queue_bytes env (cp ''HTTP/1.1 100 Continue'' @ crlf @ crlf) else ret ())
           (andthen (proxy_head env a) (\<lambda>early_proxy.
              if early_proxy \<noteq> None \<and> hc_has_transport c
              then upd (\<lambda>c. c\<lparr>hc_pending_proxy := early_proxy, hc_proxy_request := Some a, hc_admitted := False\<rparr>)
              else if streaming
              then andthen (outside (ce_spawn env a)) (\<lambda>child.
                upd (\<lambda>c. c\<lparr>hc_local_request := Some a, hc_local_thread := Some child, hc_admitted := False\<rparr>))
              else ret ())))))))))"

section \<open>Finishing a request\<close>

text \<open>The reply sent when the output buffer is full.\<close>

definition overflow_reply :: "('p, 'w) conn_env \<Rightarrow> pystr \<Rightarrow> (('p, 'c, 'w) cstate, unit) prog" where
  "overflow_reply env meth = thenp close_after_flush (conn_of (\<lambda>c.
     if cb_queued_bytes (hc_output c) = 0
     then send_reply env meth (Reply (text_reply ''response buffer limit exceeded'' 503)) else ret ()))"

text \<open>\<open>response.status\<close> of what a dispatch returned; an object that is no response has none.\<close>

definition reply_status :: "'p reply \<Rightarrow> int result" where
  "reply_status reply = (case reply of Reply r \<Rightarrow> Inr (rs_status r) | StreamReply r \<Rightarrow> Inr (rs_status r)
     | _ \<Rightarrow> Inl (AttributeError ''status''))"

definition method_of :: "nat \<Rightarrow> (pystr \<Rightarrow> (('p, 'c, 'w) cstate, 'a) prog) \<Rightarrow> (('p, 'c, 'w) cstate, 'a) prog" where
  "method_of a f = reading (\<lambda>s. f (rq_method (cs_requests s ! a)))"

definition complete_local_handler_response ::
  "('p, 'w) conn_env \<Rightarrow> nat \<Rightarrow> 'p reply \<Rightarrow> (('p, 'c, 'w) cstate, unit) prog" where
  "complete_local_handler_response env a reply0 = method_of a (\<lambda>meth.
     let reply = (case reply0 of Reply r \<Rightarrow> reply0 | StreamReply r \<Rightarrow> reply0
                  | _ \<Rightarrow> Reply (text_reply ''internal server error'' 500));
         cleanup = first_error [life release_request, on_body a body_close];
         send = thenp (send_reply env meth reply) (thenp (call_hook env (RequestFinished a)) (ret False));
         main = (case reply of
                   StreamReply r \<Rightarrow>
                     if \<not> without_body (rs_status r) \<and> meth \<noteq> cp ''HEAD''
                     then thenp (begin_streaming_response env a r True) (ret True) else send
                 | _ \<Rightarrow> send)
     in andthen
          (catching
             (catching main (\<lambda>e. if is_buffer_limit e then thenp (overflow_reply env meth) (ret False) else throw e))
             (\<lambda>e. thenp (quiet cleanup) (throw e)))
          (\<lambda>transferred. if transferred then ret ()
             else thenp cleanup (thenp count_completed (check_last env))))"

text \<open>The deadline of a request against the clock.\<close>

definition deadline_passed :: "('p, 'w) conn_env \<Rightarrow> nat \<Rightarrow> (('p, 'c, 'w) cstate, bool) prog" where
  "deadline_passed env a = andthen (now_ms env) (\<lambda>now. reading (\<lambda>s.
     ret (now \<ge> cn_deadline_ms (rq_cancellation (cs_requests s ! a)))))"

definition timeout_reply :: "('p, 'w) conn_env \<Rightarrow> nat \<Rightarrow> (('p, 'c, 'w) cstate, 'p reply option) prog" where
  "timeout_reply env a =
     thenp (cancel_request a ''request deadline exceeded'')
     (thenp (call_hook env (DeadlineExceeded ''request''))
     (thenp close_after_flush (ret (Some (Reply (text_reply ''request timeout'' 408))))))"

text \<open>The reply of the application, or \<open>None\<close> when the request was handed to the proxy.\<close>

definition choose_reply ::
  "('p, 'w) conn_env \<Rightarrow> nat \<Rightarrow> bool \<Rightarrow> (('p, 'c, 'w) cstate, 'p reply option) prog" where
  "choose_reply env a admitted =
     (if \<not> admitted
      then thenp close_after_flush (ret (Some (Reply (text_reply ''gateway overloaded'' 503))))
      else andthen (deadline_passed env a) (\<lambda>late.
        if late then timeout_reply env a
        else andthen (dispatch env a) (\<lambda>reply. conn_of (\<lambda>c.
          let check = (\<lambda>reply. andthen (deadline_passed env a) (\<lambda>late.
                         if late then timeout_reply env a else ret (Some reply)))
          in case reply of
            PlanReply p \<Rightarrow>
              if hc_has_transport c
              then thenp (upd (\<lambda>c. c\<lparr>hc_pending_proxy := Some p, hc_proxy_request := Some a\<rparr>)) (ret None)
              else check (Reply (text_reply ''proxy transport unavailable'' 503))
          | _ \<Rightarrow> check reply))))"

text \<open>Publishing the reply; \<open>True\<close> when a streaming response took over.\<close>

definition publish_reply ::
  "('p, 'w) conn_env \<Rightarrow> nat \<Rightarrow> bool \<Rightarrow> 'p reply \<Rightarrow> (('p, 'c, 'w) cstate, bool) prog" where
  "publish_reply env a admitted reply = method_of a (\<lambda>meth.
     andthen (lift_result (reply_status reply)) (\<lambda>status.
       let send = thenp (send_reply env meth reply) (thenp (call_hook env (RequestFinished a)) (ret False))
       in case reply of
         StreamReply r \<Rightarrow>
           if \<not> without_body status \<and> meth \<noteq> cp ''HEAD''
           then thenp (begin_streaming_response env a r admitted) (ret True) else send
       | _ \<Rightarrow> send))"

definition release_unless_pending :: "nat \<Rightarrow> bool \<Rightarrow> (('p, 'c, 'w) cstate, unit) prog" where
  "release_unless_pending a admitted = conn_of (\<lambda>c.
     if hc_pending_proxy c = None \<and> hc_stream_request c = None
     then thenp (if admitted then life release_request else ret ()) (on_body a body_close)
     else ret ())"

definition conn_finish_request :: "('p, 'w) conn_env \<Rightarrow> (('p, 'c, 'w) cstate, unit) prog" where
  "conn_finish_request env = conn_of (\<lambda>c.
     thenp (upd (\<lambda>c. c\<lparr>hc_current := None, hc_admitted := False\<rparr>))
     (case hc_current c of
       None \<Rightarrow> throw (Http1Error 400 ''orphan-request-end'' ''request end without head'')
     | Some a \<Rightarrow>
         thenp (on_body a (\<lambda>b h. (body_finish b, h, Inr ())))
         (if hc_proxy_request c = Some a \<or> hc_local_request c = Some a then ret ()
          else
            andthen
              (ensuring
                (catching
                  (andthen (choose_reply env a (hc_admitted c)) (\<lambda>chosen.
                     case chosen of None \<Rightarrow> ret True | Some reply \<Rightarrow> publish_reply env a (hc_admitted c) reply))
                  (\<lambda>e. if is_buffer_limit e
                     then method_of a (\<lambda>meth. thenp (overflow_reply env meth) (ret False)) else throw e))
                (release_unless_pending a (hc_admitted c)))
              (\<lambda>returned. conn_of (\<lambda>c.
                 if returned \<or> hc_pending_proxy c \<noteq> None \<or> hc_stream_request c \<noteq> None then ret ()
                 else thenp count_completed (check_last env))))))"

section \<open>Events\<close>

definition handle_http_event :: "('p, 'w) conn_env \<Rightarrow> http_event \<Rightarrow> (('p, 'c, 'w) cstate, unit) prog" where
  "handle_http_event env event =
     (case event of
       EvHead head \<Rightarrow>
         catching (begin_request env head) (\<lambda>e.
           if is_value_error e
           then throw (Http1Error 400 ''bad-target'' (map (\<lambda>c. char_of c) (error_text e))) else throw e)
     | EvBody data \<Rightarrow> conn_of (\<lambda>c.
         case hc_current c of
           None \<Rightarrow> thenp release_view (throw (Http1Error 400 ''orphan-body'' ''body without request head''))
         | Some a \<Rightarrow>
             ensuring (thenp (on_body a (body_feed (Plain data))) (ret ())) release_view)
     | EvEnd trailers \<Rightarrow> conn_of (\<lambda>c.
         thenp (case hc_current c of None \<Rightarrow> ret ()
                | Some a \<Rightarrow> set_request a (\<lambda>r. r\<lparr>rq_trailers := trailers\<rparr>))
           (conn_finish_request env)))"

definition release_event :: "bool \<Rightarrow> http_event \<Rightarrow> (('p, 'c, 'w) cstate, unit) prog" where
  "release_event queued_heads event =
     (case event of
       EvBody _ \<Rightarrow> release_view
     | EvHead _ \<Rightarrow> if queued_heads then life release_queued_request else ret ()
     | EvEnd _ \<Rightarrow> ret ())"

definition release_event_suffix :: "http_event list \<Rightarrow> bool \<Rightarrow> (('p, 'c, 'w) cstate, unit) prog" where
  "release_event_suffix events queued_heads = first_error (map (release_event queued_heads) events)"

definition discard_deferred_events :: "(('p, 'c, 'w) cstate, unit) prog" where
  "discard_deferred_events = conn_of (\<lambda>c.
     thenp (upd (\<lambda>c. c\<lparr>hc_deferred := []\<rparr>)) (release_event_suffix (hc_deferred c) True))"

definition fail_http :: "('p, 'w) conn_env \<Rightarrow> exn \<Rightarrow> (('p, 'c, 'w) cstate, unit) prog" where
  "fail_http env error =
     (case error of
       Http1Error status code message \<Rightarrow>
         thenp (metric ''parser_errors'')
         (andthen (attempt (abort_current_request code)) (\<lambda>e1.
          andthen (attempt discard_deferred_events) (\<lambda>e2.
          thenp close_after_flush
          (thenp (conn_of (\<lambda>c. if cb_queued_bytes (hc_output c) = 0
                     then send_reply env (cp ''GET'') (Reply (text_reply message status)) else ret ()))
          (raise_option (case e1 of None \<Rightarrow> e2 | Some e \<Rightarrow> Some e))))))
     | _ \<Rightarrow> ret ())"

definition any_pending :: "'p gateway_connection \<Rightarrow> bool" where
  "any_pending c \<longleftrightarrow> hc_pending_proxy c \<noteq> None \<or> hc_local_request c \<noteq> None \<or> hc_stream_request c \<noteq> None"

definition defer_event :: "http_event \<Rightarrow> (('p, 'c, 'w) cstate, unit) prog" where
  "defer_event event = upd (\<lambda>c. c\<lparr>hc_deferred := hc_deferred c @ [event]\<rparr>)"

text \<open>The events after the failing one are still owned by the caller of the codec.\<close>

definition or_release :: "http_event list \<Rightarrow> bool \<Rightarrow> (('p, 'c, 'w) cstate, 'a) prog \<Rightarrow> (('p, 'c, 'w) cstate, 'a) prog" where
  "or_release suffix queued_heads m =
     catching m (\<lambda>e. thenp (quiet (release_event_suffix suffix queued_heads)) (throw e))"

text \<open>One decoded event of \<open>feed_data\<close>: whether the loop goes on, and what it adds to \<open>handled\<close>.\<close>

definition feed_event ::
  "('p, 'w) conn_env \<Rightarrow> http_event \<Rightarrow> http_event list \<Rightarrow> (('p, 'c, 'w) cstate, bool \<times> int) prog" where
  "feed_event env event rest = conn_of (\<lambda>c.
     if hc_close_after_flush c
     then thenp (release_event_suffix (event # rest) False) (ret (False, 0))
     else if any_pending c then
       andthen (case event of EvHead _ \<Rightarrow> life (\<lambda>l. case queue_request l of (l', b) \<Rightarrow> (l', Inr b)) | _ \<Rightarrow> ret True)
         (\<lambda>queued. if \<not> queued
            then thenp close_after_flush (thenp (release_event_suffix rest False) (ret (False, 0)))
            else thenp (defer_event event) (ret (True, 0)))
     else thenp (or_release rest False (handle_http_event env event)) (ret (True, 1)))"

fun feed_events ::
  "('p, 'w) conn_env \<Rightarrow> http_event list \<Rightarrow> int \<Rightarrow> (('p, 'c, 'w) cstate, int) prog" where
  "feed_events env [] handled = ret handled"
| "feed_events env (event # rest) handled =
     andthen (feed_event env event rest) (\<lambda>(more, n).
       if more then feed_events env rest (handled + n) else ret (handled + n))"

text \<open>The codec call; the views of the decoded body events become owned.\<close>

definition is_body :: "http_event \<Rightarrow> bool" where
  "is_body event = (case event of EvBody _ \<Rightarrow> True | _ \<Rightarrow> False)"

definition is_head :: "http_event \<Rightarrow> bool" where
  "is_head event = (case event of EvHead _ \<Rightarrow> True | _ \<Rightarrow> False)"

definition bodies :: "http_event list \<Rightarrow> int" where
  "bodies events = int (length (filter is_body events))"

definition heads :: "http_event list \<Rightarrow> int" where
  "heads events = int (length (filter is_head events))"

definition codec_feed :: "bytes \<Rightarrow> int \<Rightarrow> (('p, 'c, 'w) cstate, http_event list) prog" where
  "codec_feed data max_messages = (\<lambda>s. case feed (hc_codec (cs_conn s)) data max_messages of
       (codec, Inl e) \<Rightarrow> (s\<lparr>cs_conn := (cs_conn s)\<lparr>hc_codec := codec\<rparr>\<rparr>, Inl e)
     | (codec, Inr events) \<Rightarrow>
         (s\<lparr>cs_conn := (cs_conn s)\<lparr>hc_codec := codec\<rparr>, cs_views := cs_views s + bodies events\<rparr>, Inr events))"

definition start_header_deadline :: "('p, 'w) conn_env \<Rightarrow> (('p, 'c, 'w) cstate, unit) prog" where
  "start_header_deadline env = conn_of (\<lambda>c.
     if hc_current c = None \<and> cd_state (hc_codec c) = HEAD \<and> cd_buffer (hc_codec c) \<noteq> [] \<and> hc_header_deadline c < 0
     then andthen (now_ms env) (\<lambda>n. upd (\<lambda>c. c\<lparr>hc_header_deadline :=
            n + hl_header_timeout_ms (gc_http1 (ce_config env))\<rparr>))
     else ret ())"

definition feed_data :: "('p, 'w) conn_env \<Rightarrow> bytes \<Rightarrow> int \<Rightarrow> (('p, 'c, 'w) cstate, int) prog" where
  "feed_data env data max_messages = conn_of (\<lambda>c.
     if hc_closed c \<or> hc_close_after_flush c then ret 0
     else catching
       (andthen (codec_feed data max_messages) (\<lambda>events.
        andthen (feed_events env events 0) (\<lambda>handled.
        thenp (start_header_deadline env) (ret handled))))
       (\<lambda>e. if is_http1_error e then thenp (fail_http env e) (ret (-1))
          else thenp (quiet discard_deferred_events) (throw e)))"

text \<open>One deferred event of \<open>_resume_deferred_events\<close>; whether the loop goes on.\<close>

definition resume_event ::
  "('p, 'w) conn_env \<Rightarrow> http_event \<Rightarrow> http_event list \<Rightarrow> (('p, 'c, 'w) cstate, bool) prog" where
  "resume_event env event rest = conn_of (\<lambda>c.
     if hc_close_after_flush c
     then thenp (or_release (event # rest) True (release_event_suffix (event # rest) True)) (ret False)
     else if any_pending c then thenp (defer_event event) (ret True)
     else thenp (or_release (event # rest) True
            (if is_head event then life release_queued_request else ret ()))
          (thenp (or_release rest True (handle_http_event env event)) (ret True)))"

fun resume_events :: "('p, 'w) conn_env \<Rightarrow> http_event list \<Rightarrow> (('p, 'c, 'w) cstate, unit) prog" where
  "resume_events env [] = ret ()"
| "resume_events env (event # rest) =
     andthen (resume_event env event rest) (\<lambda>more. if more then resume_events env rest else ret ())"

definition resume_deferred_events :: "('p, 'w) conn_env \<Rightarrow> (('p, 'c, 'w) cstate, unit) prog" where
  "resume_deferred_events env = conn_of (\<lambda>c.
     thenp (upd (\<lambda>c. c\<lparr>hc_deferred := []\<rparr>)) (resume_events env (hc_deferred c)))"

text \<open>The loop of \<open>_consume_pending_proxy_body_events\<close> and of
  \<open>_consume_pending_local_body_events\<close>.\<close>

fun consume_body_events ::
  "('p, 'w) conn_env \<Rightarrow> nat \<Rightarrow> http_event list \<Rightarrow> bool \<Rightarrow> (('p, 'c, 'w) cstate, unit) prog" where
  "consume_body_events env a [] completed = ret ()"
| "consume_body_events env a (event # rest) completed =
     (if \<not> completed \<and> \<not> is_head event then
        thenp (catching (handle_http_event env event) (\<lambda>e.
            thenp (upd (\<lambda>c. c\<lparr>hc_deferred := hc_deferred c @ rest\<rparr>)) (throw e)))
          (conn_of (\<lambda>c. consume_body_events env a rest (hc_current c \<noteq> Some a)))
      else thenp (defer_event event) (consume_body_events env a rest completed))"

definition consume_pending_body_events :: "('p, 'w) conn_env \<Rightarrow> nat \<Rightarrow> (('p, 'c, 'w) cstate, unit) prog" where
  "consume_pending_body_events env a = conn_of (\<lambda>c.
     thenp (upd (\<lambda>c. c\<lparr>hc_deferred := []\<rparr>))
       (consume_body_events env a (hc_deferred c) (hc_current c \<noteq> Some a)))"

section \<open>The local handler child\<close>

text \<open>The outcomes of a virtual thread.\<close>

definition OUTCOME_PENDING :: int where "OUTCOME_PENDING = 0"
definition OUTCOME_RETURNED :: int where "OUTCOME_RETURNED = 1"
definition OUTCOME_RAISED :: int where "OUTCOME_RAISED = 2"
definition OUTCOME_CANCELLED :: int where "OUTCOME_CANCELLED = 3"

definition join_child :: "('p, 'w) conn_env \<Rightarrow> nat \<Rightarrow> (('p, 'c, 'w) cstate, 'p reply) prog" where
  "join_child env th = (\<lambda>s. case ce_join env th (cs_requests s) (cs_world s) of
     (rqs, w, r) \<Rightarrow> (s\<lparr>cs_requests := rqs, cs_world := w\<rparr>, r))"

definition error_reply :: "'p reply" where
  "error_reply = Reply (text_reply ''internal server error'' 500)"

definition child_reply :: "('p, 'w) conn_env \<Rightarrow> nat \<Rightarrow> bool \<Rightarrow> (('p, 'c, 'w) cstate, 'p reply) prog" where
  "child_reply env th wanted =
     (if wanted then catching (join_child env th) (\<lambda>_. thenp close_after_flush (ret error_reply))
      else thenp (quiet (join_child env th)) (thenp close_after_flush (ret error_reply)))"

text \<open>A handler that returned before the end of its body.\<close>

definition settle_body :: "nat \<Rightarrow> (('p, 'c, 'w) cstate, unit) prog" where
  "settle_body a = reading (\<lambda>s.
     if hc_current (cs_conn s) = Some a then
       thenp (upd (\<lambda>c. c\<lparr>hc_current := None, hc_admitted := False\<rparr>))
         (if \<not> bs_ended (rq_body (cs_requests s ! a))
          then thenp (cancel_request a ''handler completed before body end'')
            (thenp (on_body a body_cancel) close_after_flush)
          else ret ())
     else ret ())"

definition drive_pending_local :: "('p, 'w) conn_env \<Rightarrow> (('p, 'c, 'w) cstate, bool) prog" where
  "drive_pending_local env = conn_of (\<lambda>c.
     case hc_local_request c of
       None \<Rightarrow> ret False
     | Some a \<Rightarrow>
         (case hc_local_thread c of
           None \<Rightarrow> ret False
         | Some th \<Rightarrow>
             thenp (consume_pending_body_events env a)
             (reading (\<lambda>s.
               let outcome = ce_outcome env th (cs_world s);
                   rq = cs_requests s ! a;
                   cancelled = cn_cancelled (rq_cancellation rq)
               in if outcome = OUTCOME_PENDING \<and> \<not> producer_finished (rq_body rq) then ret False
                  else
                    thenp (if cancelled \<and> outcome = OUTCOME_PENDING then outside (ce_cancel_thread env th) else ret ())
                    (andthen (child_reply env th
                       (outcome = OUTCOME_RETURNED \<or> outcome = OUTCOME_PENDING \<and> \<not> cancelled)) (\<lambda>reply.
                     thenp take_pending_local
                     (thenp (settle_body a)
                     (if cancelled
                      then thenp (first_error [life release_request, on_body a body_close]) (ret True)
                      else thenp (complete_local_handler_response env a reply) (ret True)))))))))"

definition cancel_and_join_pending_local ::
  "('p, 'w) conn_env \<Rightarrow> string \<Rightarrow> (('p, 'c, 'w) cstate, unit) prog" where
  "cancel_and_join_pending_local env reason = conn_of (\<lambda>c.
     case hc_local_request c of
       None \<Rightarrow> ret ()
     | Some a \<Rightarrow>
         (case hc_local_thread c of
           None \<Rightarrow> ret ()
         | Some th \<Rightarrow>
             first_error
               [signal_pending_local env reason,
                catching (thenp (join_child env th) (ret ())) (\<lambda>e. reading (\<lambda>s.
                  if ce_outcome env th (cs_world s) \<in> {OUTCOME_CANCELLED, OUTCOME_RAISED} then ret () else throw e)),
                take_pending_local,
                conn_of (\<lambda>c. if hc_current c = Some a
                  then upd (\<lambda>c. c\<lparr>hc_current := None, hc_admitted := False\<rparr>) else ret ()),
                life release_request,
                on_body a body_close]))"

section \<open>Timeouts and the transport\<close>

definition input_eof :: "('p, 'w) conn_env \<Rightarrow> (('p, 'c, 'w) cstate, unit) prog" where
  "input_eof env = conn_of (\<lambda>c.
     if hc_closed c then ret ()
     else case codec_eof (hc_codec c) of (codec, r) \<Rightarrow>
       thenp (upd (\<lambda>c. c\<lparr>hc_codec := codec\<rparr>))
       (thenp (case r of Inl e \<Rightarrow> fail_http env e | Inr _ \<Rightarrow> ret ()) close_after_flush))"

definition deadline_timeout :: "('p, 'w) conn_env \<Rightarrow> string \<Rightarrow> (('p, 'c, 'w) cstate, unit) prog" where
  "deadline_timeout env phase =
     thenp (call_hook env (DeadlineExceeded phase)) (conn_of (\<lambda>c.
       if phase = ''request'' \<or> phase = ''header'' \<or> hc_current c \<noteq> None
       then thenp (abort_current_request ''request deadline exceeded'')
         (thenp (conn_of (\<lambda>c. if cb_queued_bytes (hc_output c) = 0
                   then send_reply env (cp ''GET'') (Reply (text_reply ''request timeout'' 408)) else ret ()))
         close_after_flush)
       else close_after_flush))"

definition SOCKET_PROGRESS :: int where "SOCKET_PROGRESS = 0"
definition SOCKET_WOULD_BLOCK :: int where "SOCKET_WOULD_BLOCK = 1"
definition SOCKET_EOF :: int where "SOCKET_EOF = 2"
definition FLUSH_TIMEOUT :: int where "FLUSH_TIMEOUT = -1"

definition tls_text :: "string \<Rightarrow> tls_result \<Rightarrow> string" where
  "tls_text prefix r = prefix @ tr_error_name r"

text \<open>The write of \<open>_flush_transport\<close>: the outcome and the count.\<close>

definition write_some :: "('p, 'w) conn_env \<Rightarrow> bytes \<Rightarrow> (('p, 'c, 'w) cstate, int \<times> int) prog" where
  "write_some env data = conn_of (\<lambda>c.
     if \<not> hc_tls c
     then andthen (outside (ce_write env (hc_fd c) data)) (\<lambda>r.
       thenp (upd (\<lambda>c. c\<lparr>hc_wait_read := False\<rparr>)) (ret r))
     else andthen (now_ms env) (\<lambda>now.
       thenp (if hc_write_deadline c < 0
              then upd (\<lambda>c. c\<lparr>hc_write_deadline := now + gc_write_timeout_ms (ce_config env)\<rparr>) else ret ())
       (conn_of (\<lambda>c. andthen (outside (ce_tls_write env data now (hc_write_deadline c))) (\<lambda>r.
         case tr_status r of
           TlsOk \<Rightarrow> ret (SOCKET_PROGRESS, tr_count r)
         | TlsWantRead \<Rightarrow> thenp (upd (\<lambda>c. c\<lparr>hc_wait_read := tr_wait_read r\<rparr>)) (ret (SOCKET_WOULD_BLOCK, 0))
         | TlsWantWrite \<Rightarrow> thenp (upd (\<lambda>c. c\<lparr>hc_wait_read := tr_wait_read r\<rparr>)) (ret (SOCKET_WOULD_BLOCK, 0))
         | TlsClosed \<Rightarrow> throw (GatewayTransportError ''TLS peer closed during write'')
         | TlsFailed \<Rightarrow> throw (GatewayTransportError (tls_text ''TLS write failed: '' r)))))))"

definition flush_transport :: "('p, 'w) conn_env \<Rightarrow> (('p, 'c, 'w) cstate, int) prog" where
  "flush_transport env = conn_of (\<lambda>c.
     if cb_queued_bytes (hc_output c) = 0 then ret SOCKET_PROGRESS
     else andthen (peek_output (bl_segment_bytes (gc_buffers (ce_config env)))) (\<lambda>data.
       andthen (write_some env data) (\<lambda>(outcome, count).
         if outcome = SOCKET_PROGRESS then
           if count \<le> 0 \<or> count > int (length data)
           then throw (GatewayTransportError ''invalid socket write progress'')
           else thenp (consume_output env count) (ret SOCKET_PROGRESS)
         else if outcome = SOCKET_WOULD_BLOCK then
           andthen (now_ms env) (\<lambda>now.
           thenp (conn_of (\<lambda>c. if hc_write_deadline c < 0
             then upd (\<lambda>c. c\<lparr>hc_write_deadline := now + gc_write_timeout_ms (ce_config env)\<rparr>) else ret ()))
           (conn_of (\<lambda>c. if now \<ge> hc_write_deadline c
              then thenp (deadline_timeout env ''write'') (ret FLUSH_TIMEOUT) else ret SOCKET_WOULD_BLOCK)))
         else throw (GatewayTransportError ''socket write observation failed''))))"

definition minimum_deadline :: "int \<Rightarrow> int \<Rightarrow> int" where
  "minimum_deadline first second =
     (if first < 0 then second else if second < 0 then first else if first < second then first else second)"

definition read_deadline :: "('p, 'c, 'w) cstate \<Rightarrow> int" where
  "read_deadline s = (let c = cs_conn s in
     case hc_current c of
       Some a \<Rightarrow> minimum_deadline (hc_read_deadline c) (cn_deadline_ms (rq_cancellation (cs_requests s ! a)))
     | None \<Rightarrow> if hc_header_deadline c \<ge> 0 then minimum_deadline (hc_read_deadline c) (hc_header_deadline c)
               else hc_read_deadline c)"

definition read_transport :: "('p, 'w) conn_env \<Rightarrow> int \<Rightarrow> (('p, 'c, 'w) cstate, int \<times> bytes) prog" where
  "read_transport env limit = conn_of (\<lambda>c.
     if \<not> hc_tls c
     then thenp (upd (\<lambda>c. c\<lparr>hc_wait_read := True\<rparr>)) (outside (ce_read env (hc_fd c) limit))
     else andthen (now_ms env) (\<lambda>now. reading (\<lambda>s.
       andthen (outside (ce_tls_read env limit now (read_deadline s))) (\<lambda>(r, data).
         case tr_status r of
           TlsOk \<Rightarrow> thenp (upd (\<lambda>c. c\<lparr>hc_wait_read := True\<rparr>)) (ret (SOCKET_PROGRESS, take (nat (tr_count r)) data))
         | TlsWantRead \<Rightarrow> thenp (upd (\<lambda>c. c\<lparr>hc_wait_read := tr_wait_read r\<rparr>)) (ret (SOCKET_WOULD_BLOCK, []))
         | TlsWantWrite \<Rightarrow> thenp (upd (\<lambda>c. c\<lparr>hc_wait_read := tr_wait_read r\<rparr>)) (ret (SOCKET_WOULD_BLOCK, []))
         | TlsClosed \<Rightarrow> ret (SOCKET_EOF, [])
         | TlsFailed \<Rightarrow> throw (GatewayTransportError (tls_text ''TLS read failed: '' r))))))"

definition conn_begin_drain :: "(('p, 'c, 'w) cstate, unit) prog" where
  "conn_begin_drain = conn_of (\<lambda>c. if hc_current c = None then close_after_flush else ret ())"

section \<open>Closing\<close>

definition close_output :: "(('p, 'c, 'w) cstate, unit) prog" where
  "close_output = (\<lambda>s. case channel_close (hc_output (cs_conn s)) (cs_heap s) of
     (ch, h, r) \<Rightarrow> (s\<lparr>cs_conn := (cs_conn s)\<lparr>hc_output := ch\<rparr>, cs_heap := h\<rparr>,
                    case r of Inl e \<Rightarrow> Inl e | Inr _ \<Rightarrow> Inr ()))"

text \<open>The steps of \<open>close\<close>, on the fields it took: the requests and the deferred events, then, after the
  output buffer, the TLS channel, the descriptor and the hook.\<close>

definition close_requests :: "('p, 'w) conn_env \<Rightarrow> string \<Rightarrow> http_event list \<Rightarrow> (('p, 'c, 'w) cstate, unit) prog list" where
  "close_requests env reason deferred =
     [abort_current_request reason, signal_pending_local env reason, cancel_pending_proxy reason,
      cancel_pending_stream reason,
      conn_of (\<lambda>c. if hc_local_request c \<noteq> None
        then throw (GatewayError ''pending local handler settlement requires connection owner'') else ret ())] @
     map (release_event True) deferred"

definition close_edges :: "('p, 'w) conn_env \<Rightarrow> string \<Rightarrow> 'p gateway_connection \<Rightarrow> (('p, 'c, 'w) cstate, unit) prog list" where
  "close_edges env reason c =
     (if hc_tls c
      then (if reason \<in> {''forced-drain'', ''carrier-pool-stopped''} then [outside (ce_tls_cancel env)] else []) @
        [outside (ce_tls_close env)]
      else []) @
     (if hc_has_transport c \<and> hc_fd c \<ge> 0
      then [outside (ce_shutdown env (hc_fd c)), outside (ce_close_fd env (hc_fd c))] else []) @
     [call_hook env (ConnectionClosedHook reason)]"

definition conn_close :: "('p, 'w) conn_env \<Rightarrow> string \<Rightarrow> (('p, 'c, 'w) cstate, unit) prog" where
  "conn_close env reason = conn_of (\<lambda>c.
     if hc_closed c then ret ()
     else thenp (upd (\<lambda>c. c\<lparr>hc_closed := True, hc_close_reason := reason, hc_deferred := [], hc_tls := False,
                  hc_fd := -1\<rparr>))
       (first_error (close_requests env reason (hc_deferred c) @
          ([close_output, if cb_queued_bytes (hc_output c) \<noteq> 0
            then life (release_buffered (cb_queued_bytes (hc_output c))) else ret ()] @
           close_edges env reason c))))"

end
