(* ===== verification/Conn_Ledger.thy ===== *)
theory Conn_Ledger
  imports Connection_Events Admission Channel_Fifo
begin

text \<open>
  The resources a connection owns: request admissions, queued-request slots, retained body views and
  buffered bytes.  Each is counted outside the connection (in the lifecycle, or by \<open>cs_views\<close>), and
  the ledger says that the counter is what the other owners hold, plus what the connection's fields
  account for, plus what the running code holds in hand.  Every operation is shown to settle its
  hand, on its normal end and on every raise of the code it calls.
\<close>

section \<open>The stake of a connection\<close>

text \<open>The fields that own something.\<close>

record stake =
  sk_current :: "nat option"
  sk_admitted :: bool
  sk_plan :: bool
  sk_proxy :: "nat option"
  sk_local :: "nat option"
  sk_thread :: bool
  sk_stream :: "nat option"
  sk_stream_admitted :: bool
  sk_deferred :: "http_event list"

definition stake_of :: "'p gateway_connection \<Rightarrow> stake" where
  "stake_of c = \<lparr>sk_current = hc_current c, sk_admitted = hc_admitted c, sk_plan = (hc_pending_proxy c \<noteq> None),
     sk_proxy = hc_proxy_request c, sk_local = hc_local_request c, sk_thread = (hc_local_thread c \<noteq> None),
     sk_stream = hc_stream_request c, sk_stream_admitted = hc_stream_admitted c, sk_deferred = hc_deferred c\<rparr>"

lemma stake_of_simps [simp]:
  "sk_current (stake_of c) = hc_current c" "sk_admitted (stake_of c) = hc_admitted c"
  "sk_plan (stake_of c) = (hc_pending_proxy c \<noteq> None)" "sk_proxy (stake_of c) = hc_proxy_request c"
  "sk_local (stake_of c) = hc_local_request c" "sk_thread (stake_of c) = (hc_local_thread c \<noteq> None)"
  "sk_stream (stake_of c) = hc_stream_request c" "sk_stream_admitted (stake_of c) = hc_stream_admitted c"
  "sk_deferred (stake_of c) = hc_deferred c"
  by (simp_all add: stake_of_def)

text \<open>The admissions the fields stand for.\<close>

definition own :: "stake \<Rightarrow> int" where
  "own x = of_bool (sk_admitted x) + of_bool (sk_proxy x \<noteq> None) + of_bool (sk_local x \<noteq> None) +
     of_bool (sk_stream_admitted x)"

definition busy :: "stake \<Rightarrow> bool" where
  "busy x \<longleftrightarrow> sk_proxy x \<noteq> None \<or> sk_local x \<noteq> None \<or> sk_stream x \<noteq> None"

text \<open>One admission, one owner: the parser's request is admitted on its own account only while
  nothing is pending, and under a pending request it is an alias of that request.\<close>

definition owners :: "stake \<Rightarrow> bool" where
  "owners x \<longleftrightarrow>
     (sk_plan x \<longleftrightarrow> sk_proxy x \<noteq> None) \<and> (sk_thread x \<longleftrightarrow> sk_local x \<noteq> None) \<and>
     (sk_admitted x \<longrightarrow> sk_current x \<noteq> None \<and> \<not> busy x) \<and>
     (sk_stream_admitted x \<longrightarrow> sk_stream x \<noteq> None) \<and>
     (\<forall>a. sk_current x = Some a \<and> busy x \<longrightarrow> sk_proxy x = Some a \<or> sk_local x = Some a) \<and>
     (sk_proxy x \<noteq> None \<longrightarrow> sk_local x = None \<and> sk_stream x = None) \<and>
     (sk_local x \<noteq> None \<longrightarrow> sk_stream x = None)"

lemma any_pending_busy: "owners (stake_of c) \<Longrightarrow> any_pending c \<longleftrightarrow> busy (stake_of c)"
  by (auto simp: owners_def any_pending_def busy_def)

lemma own_nonneg [simp]: "0 \<le> own x"
  by (simp add: own_def)

lemma bodies_simps [simp]:
  "bodies [] = 0" "bodies (e # es) = of_bool (is_body e) + bodies es" "bodies (es @ fs) = bodies es + bodies fs"
  "0 \<le> bodies es"
  by (simp_all add: bodies_def)

lemma heads_simps [simp]:
  "heads [] = 0" "heads (e # es) = of_bool (is_head e) + heads es" "heads (es @ fs) = heads es + heads fs"
  "0 \<le> heads es"
  by (simp_all add: heads_def)

lemma event_kinds [simp]:
  "is_body (EvHead h) = False" "is_body (EvBody bs) = True" "is_body (EvEnd t) = False"
  "is_head (EvHead h) = True" "is_head (EvBody bs) = False" "is_head (EvEnd t) = False"
  by (simp_all add: is_body_def is_head_def)

section \<open>The ledger\<close>

text \<open>Amounts of the four resources.\<close>

record amounts =
  am_requests :: int
  am_queued :: int
  am_views :: int
  am_buffered :: int

text \<open>What the counters show.\<close>

definition counted :: "('p, 'c, 'w) cstate \<Rightarrow> amounts" where
  "counted s = \<lparr>am_requests = req_used (cs_life s), am_queued = lc_queued_requests (cs_life s),
     am_views = cs_views s, am_buffered = buf_used (cs_life s)\<rparr>"

definition led ::
  "amounts \<Rightarrow> int \<Rightarrow> int \<Rightarrow> int \<Rightarrow> int \<Rightarrow> (stake \<Rightarrow> bool) \<Rightarrow> ('p, 'c, 'w) cstate \<Rightarrow> bool" where
  "led d kr kq kv kb A s \<longleftrightarrow>
     (let x = stake_of (cs_conn s); out = hc_output (cs_conn s) in
      req_used (cs_life s) = am_requests d + own x + kr \<and>
      lc_queued_requests (cs_life s) = am_queued d + heads (sk_deferred x) + kq \<and>
      cs_views s = am_views d + bodies (sk_deferred x) + kv \<and>
      buf_used (cs_life s) = am_buffered d + cb_queued_bytes out + kb \<and>
      0 \<le> am_requests d \<and> 0 \<le> am_queued d \<and> 0 \<le> am_views d \<and> 0 \<le> am_buffered d \<and>
      chan_ok out (cs_heap s) \<and> owners x \<and> A x)"

lemma led_weaken: "led d kr kq kv kb A s \<Longrightarrow> (\<And>x. owners x \<Longrightarrow> A x \<Longrightarrow> B x) \<Longrightarrow> led d kr kq kv kb B s"
  by (auto simp: led_def Let_def)

lemma led_stake: "led d kr kq kv kb A s \<Longrightarrow> owners (stake_of (cs_conn s)) \<and> A (stake_of (cs_conn s))"
  by (simp add: led_def Let_def)

lemma led_exact: "led d kr kq kv kb A s \<Longrightarrow> led d kr kq kv kb (\<lambda>x. x = stake_of (cs_conn s)) s"
  by (simp add: led_def Let_def)

lemma chan_ok_queued: "chan_ok c h \<Longrightarrow> 0 \<le> cb_queued_bytes c"
  by (simp add: chan_ok_def)

text \<open>A state that shows the same to the ledger.\<close>

lemma led_same:
  assumes "led d kr kq kv kb A s" and "stake_of (cs_conn s') = stake_of (cs_conn s)"
    and "hc_output (cs_conn s') = hc_output (cs_conn s)" and "cs_heap s' = cs_heap s"
    and "req_used (cs_life s') = req_used (cs_life s)"
    and "lc_queued_requests (cs_life s') = lc_queued_requests (cs_life s)"
    and "buf_used (cs_life s') = buf_used (cs_life s)" and "cs_views s' = cs_views s"
  shows "led d kr kq kv kb A s'"
  using assms by (simp add: led_def Let_def)

section \<open>Steps the ledger does not see\<close>

named_theorems neutral

lemma keeps_same:
  fixes m :: "(('p, 'c, 'w) cstate, 'a) prog"
  assumes "\<And>s. let s' = fst (m s) in stake_of (cs_conn s') = stake_of (cs_conn s) \<and>
    hc_output (cs_conn s') = hc_output (cs_conn s) \<and> cs_heap s' = cs_heap s \<and>
    req_used (cs_life s') = req_used (cs_life s) \<and>
    lc_queued_requests (cs_life s') = lc_queued_requests (cs_life s) \<and>
    buf_used (cs_life s') = buf_used (cs_life s) \<and> cs_views s' = cs_views s"
  shows "keeps (led d kr kq kv kb A) m"
  unfolding keeps_def
proof (intro allI impI)
  fix s :: "('p, 'c, 'w) cstate"
  assume "led d kr kq kv kb A s"
  then show "led d kr kq kv kb A (fst (m s))"
    by (rule led_same) (use assms [of s] in \<open>auto simp: Let_def\<close>)
qed

lemma outside_neutral [neutral]: "keeps (led d kr kq kv kb A) (outside g)"
  by (rule keeps_same) (simp add: outside_def Let_def split: prod.split)

lemma lift_neutral [neutral]: "keeps (led d kr kq kv kb A) (lift_result r)"
  by (rule keeps_same) (simp add: lift_result_def)

lemma upd_neutral:
  "(\<And>c. stake_of (f c) = stake_of c) \<Longrightarrow> (\<And>c. hc_output (f c) = hc_output c) \<Longrightarrow> keeps (led d kr kq kv kb A) (upd f)"
  by (rule keeps_same) (simp add: upd_def change_def)

lemma upd_silent:
  "(\<And>c. stake_of (f c) = stake_of c) \<Longrightarrow> (\<And>c. hc_output (f c) = hc_output c) \<Longrightarrow>
     triple (led d kr kq kv kb A) (upd f) (\<lambda>_. led d kr kq kv kb A) E"
  unfolding upd_def by (rule triple_change) (erule led_same, simp_all)

lemma conn_neutral [neutral]: "(\<And>c. keeps I (f c)) \<Longrightarrow> keeps I (conn_of f)"
  unfolding conn_of_def by (rule keeps_reading)

lemma metric_neutral:
  "name \<notin> {''requests_active'', ''buffered_bytes''} \<Longrightarrow> keeps (led d kr kq kv kb A) (metric name)"
  by (rule keeps_same) (auto simp: metric_def life_def bump_metric_def bump_def metrics_add_def
      req_used_def buf_used_def split: if_splits)

lemma set_request_neutral [neutral]: "keeps (led d kr kq kv kb A) (set_request a f)"
  by (rule keeps_same) (simp add: set_request_def change_def)

lemma cancel_request_neutral [neutral]: "keeps (led d kr kq kv kb A) (cancel_request a reason)"
  unfolding cancel_request_def by (rule set_request_neutral)

lemma on_body_neutral [neutral]: "keeps (led d kr kq kv kb A) (on_body a g)"
  by (rule keeps_same) (simp add: on_body_def Let_def split: prod.split)

lemma dispatch_neutral [neutral]:
  "keeps (led d kr kq kv kb A) (dispatch env a)" "keeps (led d kr kq kv kb A) (proxy_head env a)"
  "keeps (led d kr kq kv kb A) (join_child env th)"
  by (rule keeps_same, simp add: dispatch_def proxy_head_def join_child_def Let_def split: prod.split)+

lemma make_request_neutral [neutral]: "keeps (led d kr kq kv kb A) (make_request env head streaming deadline)"
proof -
  have "keeps (led d kr kq kv kb A) (change (\<lambda>s. s\<lparr>cs_requests := cs_requests s @ [rq]\<rparr>))" for rq
    by (rule keeps_same) (simp add: change_def)
  then show ?thesis
    unfolding make_request_def by (intro neutral prog_rules)
qed

lemma call_hook_neutral [neutral]: "keeps (led d kr kq kv kb A) (call_hook env h)"
  unfolding call_hook_def by (rule outside_neutral)

lemma now_ms_neutral [neutral]: "keeps (led d kr kq kv kb A) (now_ms env)"
  unfolding now_ms_def by (intro neutral prog_rules)

lemma close_after_flush_neutral [neutral]: "keeps (led d kr kq kv kb A) close_after_flush"
  unfolding close_after_flush_def by (rule upd_neutral) (simp_all add: stake_of_def)

lemma count_completed_neutral [neutral]: "keeps (led d kr kq kv kb A) count_completed"
  unfolding count_completed_def by (rule upd_neutral) (simp_all add: stake_of_def)

lemma silent_steps:
  "triple (led d kr kq kv kb A) close_after_flush (\<lambda>_. led d kr kq kv kb A) E"
  "triple (led d kr kq kv kb A) count_completed (\<lambda>_. led d kr kq kv kb A) E"
  unfolding close_after_flush_def count_completed_def by (rule upd_silent, simp_all add: stake_of_def)+

lemma quiet_neutral [neutral]: "keeps I m \<Longrightarrow> keeps I (quiet m)"
  unfolding quiet_def by (intro prog_rules)

lemma attempt_neutral [neutral]: "keeps I m \<Longrightarrow> keeps I (attempt m)"
  unfolding attempt_def by (intro prog_rules)

lemma raise_option_neutral [neutral]: "keeps I (raise_option e)"
  unfolding raise_option_def by (intro prog_rules)

lemma check_last_neutral [neutral]: "keeps (led d kr kq kv kb A) (check_last env)"
  unfolding check_last_def close_after_flush_def [symmetric] by (intro neutral prog_rules)

lemma method_of_neutral [neutral]: "(\<And>meth. keeps I (f meth)) \<Longrightarrow> keeps I (method_of a f)"
  unfolding method_of_def by (intro prog_rules)

text \<open>A neutral step of a "run all, raise the first error" sequence.\<close>

lemma leads_skip: "keeps P m \<Longrightarrow> leads P (first_error ms) Q \<Longrightarrow> leads P (first_error (m # ms)) Q"
  by (rule leads_first_error(2)) (simp add: keeps_leads)

section \<open>Steps on the counters\<close>

lemma owed: "0 \<le> a \<Longrightarrow> 0 \<le> b \<Longrightarrow> 0 \<le> k \<Longrightarrow> \<not> a + b + (k + 1) \<le> (0::int)"
  by simp

lemma release_request_step:
  "0 \<le> kr \<Longrightarrow> triple (led d (kr + 1) kq kv kb A) (life release_request) (\<lambda>_. led d kr kq kv kb A) E"
  by (auto simp: triple_def life_def release_request_def led_def Let_def req_used_def buf_used_def bump_metric_def
      bump_known owed)

lemma release_queued_step:
  "0 \<le> kq \<Longrightarrow> triple (led d kr (kq + 1) kv kb A) (life release_queued_request) (\<lambda>_. led d kr kq kv kb A) E"
  by (auto simp: triple_def life_def release_queued_request_def led_def Let_def req_used_def buf_used_def
      bump_metric_def bump_known owed)

lemma release_view_step: "triple (led d kr kq (kv + 1) kb A) release_view (\<lambda>_. led d kr kq kv kb A) E"
  by (auto simp: triple_def release_view_def change_def led_def Let_def)

lemma release_buffered_step:
  "0 \<le> kb \<Longrightarrow> 0 \<le> n \<Longrightarrow>
     triple (led d kr kq kv (kb + n) A) (life (release_buffered n)) (\<lambda>_. led d kr kq kv kb A) E"
  by (auto simp: triple_def life_def release_buffered_def led_def Let_def req_used_def buf_used_def
      bump_metric_def bump_known dest: chan_ok_queued)

lemma reserve_buffered_step:
  "0 \<le> n \<Longrightarrow> triple (led d kr kq kv kb A) (life (reserve_buffered n))
     (\<lambda>g. led d kr kq kv (kb + (if g then n else 0)) A) E"
  by (auto simp: triple_def life_def reserve_buffered_def led_def Let_def req_used_def buf_used_def
      bump_metric_def bump_known)

lemma admit_step: "triple (led d kr kq kv kb A) admit (\<lambda>b. led d (kr + of_bool b) kq kv kb A) E"
  by (auto simp: triple_def admit_def life_def admit_request_def led_def Let_def req_used_def buf_used_def
      bump_metric_def bump_known)

lemma queue_step:
  "triple (led d kr kq kv kb A) (life (\<lambda>l. case queue_request l of (l', b) \<Rightarrow> (l', Inr b)))
     (\<lambda>b. led d kr (kq + of_bool b) kv kb A) E"
  by (auto simp: triple_def life_def queue_request_def led_def Let_def req_used_def buf_used_def
      bump_metric_def bump_known)

text \<open>A change of the owning fields: what the fields stop accounting for is in hand.\<close>

lemma stake_step:
  assumes "\<And>c. stake_of (f c) = g (stake_of c)" and "\<And>c. hc_output (f c) = hc_output c"
    and "\<And>x. owners x \<Longrightarrow> A x \<Longrightarrow> owners (g x) \<and> B (g x) \<and> own x + kr = own (g x) + kr' \<and>
      heads (sk_deferred x) + kq = heads (sk_deferred (g x)) + kq' \<and>
      bodies (sk_deferred x) + kv = bodies (sk_deferred (g x)) + kv'"
  shows "triple (led d kr kq kv kb A) (upd f) (\<lambda>_. led d kr' kq' kv' kb B) E"
  unfolding upd_def
proof (rule triple_change)
  fix s :: "('a, 'b, 'c) cstate"
  assume s: "led d kr kq kv kb A s"
  from assms(3) [of "stake_of (cs_conn s)"] led_stake [OF s] s
  show "led d kr' kq' kv' kb B (s\<lparr>cs_conn := f (cs_conn s)\<rparr>)"
    by (simp add: led_def Let_def assms(1,2) del: stake_of_simps)
qed

text \<open>Reading the connection fixes the stake.\<close>

lemma conn_step:
  fixes f :: "'p gateway_connection \<Rightarrow> (('p, 'c, 'w) cstate, 'a) prog"
  assumes "\<And>c. owners (stake_of c) \<Longrightarrow> A (stake_of c) \<Longrightarrow>
    triple (led d kr kq kv kb (\<lambda>x. x = stake_of c)) (f c) Q E"
  shows "triple (led d kr kq kv kb A) (conn_of f) Q E"
  unfolding triple_def
proof (intro allI impI)
  fix s :: "('p, 'c, 'w) cstate"
  assume s: "led d kr kq kv kb A s"
  from led_stake [OF this] assms have "triple (led d kr kq kv kb (\<lambda>x. x = stake_of (cs_conn s))) (f (cs_conn s)) Q E"
    by blast
  with led_exact [OF s] show "case conn_of f s of (s', Inl e) \<Rightarrow> E s' | (s', Inr x) \<Rightarrow> Q x s'"
    by (simp add: triple_def conn_of_def reading_def)
qed

section \<open>The output buffer\<close>

lemma append_output_step:
  "triple (led d kr kq kv (kb + int (length data)) A) (append_output data)
     (\<lambda>_. led d kr kq kv kb A) (led d kr kq kv (kb + int (length data)) A)"
  unfolding triple_def
proof (intro allI impI)
  fix s :: "('a, 'b, 'c) cstate"
  assume s: "led d kr kq kv (kb + int (length data)) A s"
  then have ok: "chan_ok (hc_output (cs_conn s)) (cs_heap s)" by (simp add: led_def Let_def)
  from channel_append_cases [OF this, of data] consider
      e where "channel_append data (hc_output (cs_conn s)) (cs_heap s) = (hc_output (cs_conn s), cs_heap s, Inl e)"
    | c' h' t where "channel_append data (hc_output (cs_conn s)) (cs_heap s) = (c', h', Inr t)" "chan_ok c' h'"
        "content c' h' = content (hc_output (cs_conn s)) (cs_heap s) @ data"
    by blast
  then show "case append_output data s of (s', Inl e) \<Rightarrow> led d kr kq kv (kb + int (length data)) A s'
      | (s', Inr x) \<Rightarrow> led d kr kq kv kb A s'"
  proof cases
    case 1
    then show ?thesis using s by (simp add: append_output_def)
  next
    case 2
    from 2(2,3) ok have "cb_queued_bytes c' = cb_queued_bytes (hc_output (cs_conn s)) + int (length data)"
      by (simp add: chan_ok_def)
    with s 2 show ?thesis
      by (simp add: append_output_def led_def Let_def stake_of_def)
  qed
qed

lemma queue_bytes_neutral [neutral]:
  assumes kb: "0 \<le> kb"
  shows "keeps (led d kr kq kv kb A) (queue_bytes env data)"
proof -
  let ?I = "led d kr kq kv kb A" and ?n = "int (length data)"
  let ?J = "led d kr kq kv (kb + ?n) A"
  have append: "triple ?J (catching (append_output data) (\<lambda>e. thenp (life (release_buffered ?n)) (throw e))) (\<lambda>_. ?I) ?I"
    by (rule triple_catching [OF append_output_step],
        rule triple_thenp [OF release_buffered_step [OF kb]], simp, rule triple_throw, simp)
  have rest: "keeps ?I (thenp (conn_of (\<lambda>c. if hc_write_deadline c < 0
        then andthen (now_ms env) (\<lambda>n. upd (\<lambda>c. c\<lparr>hc_write_deadline := n + gc_write_timeout_ms (ce_config env)\<rparr>))
        else ret ()))
      (if transition = BACKPRESSURE_HIGH
       then thenp (metric ''backpressure_parks'')
         (conn_of (\<lambda>c. call_hook env (BackpressureChanged True (cb_queued_bytes (hc_output c)))))
       else ret ()))" for transition
    by (intro neutral prog_rules metric_neutral upd_neutral) (simp_all add: stake_of_def)
  have grant: "triple (led d kr kq kv (kb + (if g then ?n else 0)) A)
     (if \<not> g then throw (BufferLimitError ''gateway global buffered-byte limit exceeded'')
      else andthen (catching (append_output data) (\<lambda>e. thenp (life (release_buffered ?n)) (throw e))) k) (\<lambda>_. ?I) ?I"
    if "\<And>t. keeps ?I (k t)" for g and k :: "transition \<Rightarrow> (('a, 'b, 'c) cstate, unit) prog"
    using that by (cases g) (auto simp: keeps_triple intro!: triple_andthen [OF append] triple_throw)
  show ?thesis
    unfolding keeps_triple queue_bytes_def
    by (rule triple_if, rule triple_ret, assumption, rule triple_andthen [OF reserve_buffered_step], simp,
        rule grant, rule rest)
qed

lemma consume_channel_step:
  "triple (led d kr kq kv kb A) (consume_channel n)
     (\<lambda>_ s. led d kr kq kv (kb + n) A s \<and> 0 \<le> n) (led d kr kq kv kb A)"
  unfolding triple_def
proof (intro allI impI)
  fix s :: "('a, 'b, 'c) cstate"
  let ?c = "hc_output (cs_conn s)" and ?h = "cs_heap s"
  assume s: "led d kr kq kv kb A s"
  then have ok: "chan_ok ?c ?h" by (simp add: led_def Let_def)
  show "case consume_channel n s of (s', Inl e) \<Rightarrow> led d kr kq kv kb A s'
      | (s', Inr x) \<Rightarrow> led d kr kq kv (kb + n) A s' \<and> 0 \<le> n"
  proof (cases "0 \<le> n \<and> n \<le> cb_queued_bytes ?c")
    case True
    with channel_consume_ok [OF ok] obtain c' h' t where c': "channel_consume n ?c ?h = (c', h', Inr t)"
      "chan_ok c' h'" "content c' h' = drop (nat n) (content ?c ?h)" by blast
    with ok True have "cb_queued_bytes c' = cb_queued_bytes ?c - n"
      by (auto simp: chan_ok_def of_nat_diff nat_le_iff)
    with s c' True show ?thesis by (simp add: consume_channel_def led_def Let_def stake_of_def)
  next
    case False
    then have "channel_consume n ?c ?h = (?c, ?h, Inl (ValueError ''consume length exceeds queued bytes''))"
      by (auto simp: channel_consume_def)
    with s show ?thesis by (simp add: consume_channel_def)
  qed
qed

lemma consume_output_neutral [neutral]:
  assumes kb: "0 \<le> kb"
  shows "keeps (led d kr kq kv kb A) (consume_output env count)"
proof -
  let ?I = "led d kr kq kv kb A"
  have release: "triple (\<lambda>s. led d kr kq kv (kb + count) A s \<and> 0 \<le> count) (life (release_buffered count)) (\<lambda>_. ?I) ?I"
    using release_buffered_step [OF kb, of count d kr kq kv A ?I] by (cases "0 \<le> count") (auto simp: triple_def)
  have rest: "keeps ?I (thenp (if b then conn_of (\<lambda>c. call_hook env (BackpressureChanged False (cb_queued_bytes (hc_output c)))) else ret ())
        (conn_of (\<lambda>c. if cb_queued_bytes (hc_output c) = 0 then upd (\<lambda>c. c\<lparr>hc_write_deadline := -1\<rparr>)
           else andthen (now_ms env) (\<lambda>n. upd (\<lambda>c. c\<lparr>hc_write_deadline :=
                  n + gc_write_timeout_ms (ce_config env)\<rparr>)))))" for b
    by (intro neutral prog_rules upd_neutral) (simp_all add: stake_of_def)
  show ?thesis
    unfolding keeps_triple consume_output_def
    by (rule triple_if, rule triple_ret, assumption, rule triple_andthen [OF consume_channel_step],
        rule triple_thenp [OF release], rule triple_keeps, rule rest)
qed

lemma peek_output_neutral [neutral]: "keeps (led d kr kq kv kb A) (peek_output limit)"
  unfolding keeps_def
proof (intro allI impI)
  fix s :: "('a, 'b, 'c) cstate"
  assume s: "led d kr kq kv kb A s"
  then have "chan_ok (hc_output (cs_conn s)) (cs_heap s)" by (simp add: led_def Let_def)
  from channel_peek_ok [OF this, of limit] s show "led d kr kq kv kb A (fst (peek_output limit s))"
    by (fastforce simp: peek_output_def led_def Let_def)
qed

lemma take_output_neutral [neutral]: "0 \<le> kb \<Longrightarrow> keeps (led d kr kq kv kb A) (take_output env limit)"
  unfolding take_output_def by (intro neutral prog_rules)

lemma send_reply_neutral [neutral]: "0 \<le> kb \<Longrightarrow> keeps (led d kr kq kv kb A) (send_reply env meth reply)"
  unfolding send_reply_def by (intro neutral prog_rules)

lemma overflow_reply_neutral [neutral]: "0 \<le> kb \<Longrightarrow> keeps (led d kr kq kv kb A) (overflow_reply env meth)"
  unfolding overflow_reply_def by (intro neutral prog_rules)

end
