(* ===== verification/Conn_Settle.thy ===== *)
theory Conn_Settle
  imports Conn_Ledger
begin

text \<open>
  Every operation of a connection settles its ledger: the operations of \<open>Connection\<close> and
  \<open>Connection_Events\<close> end with nothing in hand, whatever the application, the hooks, the
  iterators, the threads and the transport raise.
\<close>

section \<open>Abandoning\<close>

lemma release_if: "leads (led d (of_bool b) kq kv kb A) (if b then life release_request else ret ()) (led d 0 kq kv kb A)"
  using release_request_step [of 0 d kq kv kb A "led d 0 kq kv kb A"]
  by (cases b) (simp_all add: leads_triple triple_ret)

lemma release_now: "leads (led d 1 kq kv kb A) (life release_request) (led d 0 kq kv kb A)"
  using release_if [of d True] by simp

lemma leads_last: "leads P m Q \<Longrightarrow> leads P (first_error [m]) Q"
  by (rule leads_first_error(2)) (assumption, rule leads_first_error(1))

text \<open>The changes of the stake.\<close>

abbreviation no_current :: "stake \<Rightarrow> stake" where
  "no_current x \<equiv> x\<lparr>sk_current := None, sk_admitted := False\<rparr>"

lemma no_current_ok: "owners x \<Longrightarrow> owners (no_current x)" "own x = own (no_current x) + of_bool (sk_admitted x)"
  by (auto simp: owners_def busy_def own_def)

lemma stake_no_current: "stake_of (c\<lparr>hc_current := None, hc_admitted := False\<rparr>) = no_current (stake_of c)"
  by (simp add: stake_of_def)

lemma no_current_idle: "owners x \<Longrightarrow> sk_current x = None \<Longrightarrow> no_current x = x"
  by (cases x) (auto simp: owners_def)

lemma no_current_step:
  assumes "\<And>x. owners x \<Longrightarrow> A x \<Longrightarrow> B (no_current x) \<and> sk_admitted x = b"
    and "kr' = kr + of_bool b"
  shows "triple (led d kr kq kv kb A) (upd (\<lambda>c. c\<lparr>hc_current := None, hc_admitted := False\<rparr>))
    (\<lambda>_. led d kr' kq kv kb B) E"
proof (rule stake_step [where g = "\<lambda>x. no_current x"], rule stake_no_current, simp)
  fix x assume x: "owners x" "A x"
  with assms(1) [OF this] assms(2) no_current_ok [of x]
  show "owners (no_current x) \<and> B (no_current x) \<and> own x + kr = own (no_current x) + kr' \<and>
     heads (sk_deferred x) + kq = heads (sk_deferred (no_current x)) + kq \<and>
     bodies (sk_deferred x) + kv = bodies (sk_deferred (no_current x)) + kv"
    by simp
qed

lemma abort_step:
  assumes B: "\<And>x. owners x \<Longrightarrow> A x \<Longrightarrow> B (no_current x)"
  shows "leads (led d 0 kq kv kb A) (abort_current_request reason)
    (led d 0 kq kv kb (\<lambda>x. sk_current x = None \<and> B x))" (is "leads _ _ ?Q")
  unfolding leads_triple abort_current_request_def
proof (rule conn_step, rule triple_option)
  fix c :: "'p gateway_connection"
  assume c: "owners (stake_of c)" "A (stake_of c)" "hc_current c = None"
  with B [of "stake_of c"] have "B (stake_of c)" by (simp add: no_current_idle)
  then show "triple (led d 0 kq kv kb (\<lambda>x. x = stake_of c)) (ret ()) (\<lambda>_. ?Q) ?Q"
    using c(3) by (auto intro!: triple_ret elim!: led_weaken)
next
  fix c :: "'p gateway_connection" and a
  assume c: "owners (stake_of c)" "A (stake_of c)" "hc_current c = Some a"
  let ?R = "led d (of_bool (hc_admitted c)) kq kv kb (\<lambda>x. sk_current x = None \<and> B x)"
  have take: "triple (led d 0 kq kv kb (\<lambda>x. x = stake_of c))
      (upd (\<lambda>c. c\<lparr>hc_current := None, hc_admitted := False\<rparr>)) (\<lambda>_. ?R) ?Q"
    by (rule no_current_step [where b = "hc_admitted c"]) (use c B in auto)
  have free: "\<not> hc_admitted c" if "hc_local_request c = Some a \<or> hc_proxy_request c = Some a"
    using that c(1) by (auto simp: owners_def busy_def)
  have "leads ?R (first_error (cancel_request a reason #
     (if hc_local_request c = Some a then [on_body a body_cancel]
      else if hc_proxy_request c \<noteq> Some a
      then [on_body a body_cancel, on_body a body_close, if hc_admitted c then life release_request else ret ()]
      else []))) ?Q"
    using free by (auto intro!: leads_skip [OF cancel_request_neutral] leads_skip [OF on_body_neutral]
        leads_last [OF release_now] leads_skip [OF keeps_ret] leads_first_error(1) simp del: first_error.simps)
  with take show "triple (led d 0 kq kv kb (\<lambda>x. x = stake_of c))
     (thenp (upd (\<lambda>c. c\<lparr>hc_current := None, hc_admitted := False\<rparr>)) (first_error (cancel_request a reason #
       (if hc_local_request c = Some a then [on_body a body_cancel]
        else if hc_proxy_request c \<noteq> Some a
        then [on_body a body_cancel, on_body a body_close, if hc_admitted c then life release_request else ret ()]
        else [])))) (\<lambda>_. ?Q) ?Q"
    unfolding leads_triple by (rule triple_thenp)
qed

text \<open>Nothing in hand.\<close>

abbreviation settled :: "amounts \<Rightarrow> ('p, 'c, 'w) cstate \<Rightarrow> bool" where
  "settled d \<equiv> led d 0 0 0 0 (\<lambda>_. True)"

lemma abort_settled: "keeps (settled d) (abort_current_request reason)"
  unfolding keeps_leads
  by (rule leads_conseq [OF abort_step [where B = "\<lambda>_. True"]]) (auto elim: led_weaken)

lemma signal_local_neutral [neutral]: "keeps (led d kr kq kv kb A) (signal_pending_local env reason)"
  unfolding signal_pending_local_def
  by (intro neutral prog_rules keeps_first_error) (auto intro: neutral)

lemma signal_owner_neutral [neutral]: "keeps (led d kr kq kv kb A) (signal_owner_shutdown env reason)"
  unfolding signal_owner_shutdown_def
  by (intro neutral prog_rules keeps_first_error) (auto intro: neutral split: option.splits if_splits)

text \<open>Dropping the pending proxy, the local child and the stream.\<close>

abbreviation no_proxy :: "stake \<Rightarrow> stake" where
  "no_proxy x \<equiv> x\<lparr>sk_plan := False, sk_proxy := None\<rparr>"

abbreviation no_local :: "stake \<Rightarrow> stake" where
  "no_local x \<equiv> x\<lparr>sk_local := None, sk_thread := False\<rparr>"

abbreviation no_stream :: "stake \<Rightarrow> stake" where
  "no_stream x \<equiv> x\<lparr>sk_stream := None, sk_stream_admitted := False\<rparr>"

lemma no_pending_ok:
  "owners x \<Longrightarrow> owners (no_proxy x)" "own x = own (no_proxy x) + of_bool (sk_proxy x \<noteq> None)"
  "owners x \<Longrightarrow> owners (no_local x)" "own x = own (no_local x) + of_bool (sk_local x \<noteq> None)"
  "owners x \<Longrightarrow> owners (no_stream x)" "own x = own (no_stream x) + of_bool (sk_stream_admitted x)"
  by (auto simp: owners_def busy_def own_def)

lemma no_pending_stakes:
  "stake_of (c\<lparr>hc_pending_proxy := None, hc_proxy_request := None\<rparr>) = no_proxy (stake_of c)"
  "stake_of (c\<lparr>hc_local_request := None, hc_local_thread := None\<rparr>) = no_local (stake_of c)"
  "stake_of (drop_stream c) = no_stream (stake_of c)"
  by (simp_all add: stake_of_def drop_stream_def)

lemma no_pending_same:
  "owners x \<Longrightarrow> sk_proxy x = None \<Longrightarrow> no_proxy x = x" "owners x \<Longrightarrow> sk_local x = None \<Longrightarrow> no_local x = x"
  "owners x \<Longrightarrow> sk_stream x = None \<Longrightarrow> no_stream x = x"
  by (rule stake.equality; simp add: owners_def)+

lemma cancel_proxy_step:
  assumes B: "\<And>x. owners x \<Longrightarrow> A x \<Longrightarrow> B (no_proxy x)"
  shows "leads (led d 0 kq kv kb A) (cancel_pending_proxy reason) (led d 0 kq kv kb (\<lambda>x. sk_proxy x = None \<and> B x))"
    (is "leads _ _ ?Q")
  unfolding leads_triple cancel_pending_proxy_def
proof (rule conn_step, rule triple_option)
  fix c :: "'p gateway_connection"
  assume c: "owners (stake_of c)" "A (stake_of c)" "hc_proxy_request c = None"
  with B [of "stake_of c"] have "B (stake_of c)" by (simp add: no_pending_same)
  then show "triple (led d 0 kq kv kb (\<lambda>x. x = stake_of c)) (ret ()) (\<lambda>_. ?Q) ?Q"
    using c(3) by (auto intro!: triple_ret elim!: led_weaken)
next
  fix c :: "'p gateway_connection" and a
  assume c: "owners (stake_of c)" "A (stake_of c)" "hc_proxy_request c = Some a"
  let ?R = "led d 1 kq kv kb (\<lambda>x. sk_proxy x = None \<and> B x)"
  have "triple (led d 0 kq kv kb (\<lambda>x. x = stake_of c))
      (upd (\<lambda>c. c\<lparr>hc_pending_proxy := None, hc_proxy_request := None\<rparr>)) (\<lambda>_. ?R) ?Q"
    by (rule stake_step [where g = "\<lambda>x. no_proxy x"])
      (use c B [OF c(1,2)] no_pending_ok(1) [OF c(1)] no_pending_ok(2) [of "stake_of c"]
       in \<open>auto simp: no_pending_stakes\<close>)
  moreover have "leads ?R (first_error [cancel_request a reason, on_body a body_cancel, on_body a body_close,
      life release_request]) ?Q"
    by (intro leads_skip leads_last release_now neutral)
  ultimately show "triple (led d 0 kq kv kb (\<lambda>x. x = stake_of c))
     (thenp (upd (\<lambda>c. c\<lparr>hc_pending_proxy := None, hc_proxy_request := None\<rparr>))
       (first_error [cancel_request a reason, on_body a body_cancel, on_body a body_close, life release_request]))
     (\<lambda>_. ?Q) ?Q"
    unfolding leads_triple by (rule triple_thenp)
qed

lemma no_stream_step:
  assumes "\<And>x. owners x \<Longrightarrow> A x \<Longrightarrow> B (no_stream x) \<and> sk_stream_admitted x = b" and "kr' = kr + of_bool b"
  shows "triple (led d kr kq kv kb A) (upd drop_stream) (\<lambda>_. led d kr' kq kv kb B) E"
proof (rule stake_step [where g = "\<lambda>x. no_stream x"], rule no_pending_stakes, simp add: drop_stream_def)
  fix x assume x: "owners x" "A x"
  with assms(1) [OF this] assms(2) no_pending_ok(5,6) [of x]
  show "owners (no_stream x) \<and> B (no_stream x) \<and> own x + kr = own (no_stream x) + kr' \<and>
     heads (sk_deferred x) + kq = heads (sk_deferred (no_stream x)) + kq \<and>
     bodies (sk_deferred x) + kv = bodies (sk_deferred (no_stream x)) + kv"
    by simp
qed

lemma cancel_stream_step:
  assumes B: "\<And>x. owners x \<Longrightarrow> A x \<Longrightarrow> B (no_stream x)"
  shows "leads (led d 0 kq kv kb A) (cancel_pending_stream reason) (led d 0 kq kv kb (\<lambda>x. sk_stream x = None \<and> B x))"
    (is "leads _ _ ?Q")
  unfolding leads_triple cancel_pending_stream_def
proof (rule conn_step, rule triple_option)
  fix c :: "'p gateway_connection"
  assume c: "owners (stake_of c)" "A (stake_of c)" "hc_stream_request c = None"
  with B [of "stake_of c"] have "B (stake_of c)" by (simp add: no_pending_same)
  then show "triple (led d 0 kq kv kb (\<lambda>x. x = stake_of c)) (ret ()) (\<lambda>_. ?Q) ?Q"
    using c(3) by (auto intro!: triple_ret elim!: led_weaken)
next
  fix c :: "'p gateway_connection" and a
  assume c: "owners (stake_of c)" "A (stake_of c)" "hc_stream_request c = Some a"
  let ?R = "led d (of_bool (hc_stream_admitted c)) kq kv kb (\<lambda>x. sk_stream x = None \<and> B x)"
  have "triple (led d 0 kq kv kb (\<lambda>x. x = stake_of c)) (upd drop_stream) (\<lambda>_. ?R) ?Q"
    by (rule no_stream_step) (use B [OF c(1,2)] in auto)
  moreover have "leads ?R (first_error [cancel_request a reason, on_body a body_close,
      if hc_stream_admitted c then life release_request else ret ()]) ?Q"
    by (intro leads_skip leads_last release_if neutral)
  ultimately show "triple (led d 0 kq kv kb (\<lambda>x. x = stake_of c))
     (thenp (upd drop_stream) (first_error [cancel_request a reason, on_body a body_close,
       if hc_stream_admitted c then life release_request else ret ()])) (\<lambda>_. ?Q) ?Q"
    unfolding leads_triple by (rule triple_thenp)
qed

section \<open>Streaming responses\<close>

lemma leads_attempt: "leads P m Q \<Longrightarrow> triple P (attempt m) (\<lambda>_. Q) E"
  unfolding attempt_def leads_triple
  by (rule triple_catching, rule triple_thenp, assumption) (auto intro: triple_ret)

lemma leads_quiet: "leads P m Q \<Longrightarrow> triple P (quiet m) (\<lambda>_. Q) E"
  unfolding quiet_def leads_triple
  by (rule triple_catching, rule triple_thenp, assumption) (auto intro: triple_ret)

lemma complete_streaming_settled: "keeps (settled d) (complete_streaming_response env)"
  unfolding keeps_triple complete_streaming_response_def
proof (rule conn_step, rule triple_option)
  fix c :: "'p gateway_connection"
  show "triple (led d 0 0 0 0 (\<lambda>x. x = stake_of c)) (ret ()) (\<lambda>_. settled d) (settled d)"
    by (auto intro!: triple_ret elim!: led_weaken)
next
  fix c :: "'p gateway_connection" and a
  let ?R = "led d (of_bool (hc_stream_admitted c)) 0 0 0 (\<lambda>_. True)"
  have none: "triple (led d 0 0 0 0 (\<lambda>x. x = stake_of c)) (ret ()) (\<lambda>_. settled d) (settled d)"
    by (auto intro!: triple_ret elim!: led_weaken)
  have drop: "triple (led d 0 0 0 0 (\<lambda>x. x = stake_of c)) (upd drop_stream) (\<lambda>_. ?R) (settled d)"
    by (rule no_stream_step) auto
  have count: "triple ?R count_completed (\<lambda>_. ?R) (settled d)"
    by (rule silent_steps)
  have "leads ?R (first_error [call_hook env (RequestFinished a), on_body a body_close,
      if hc_stream_admitted c then life release_request else ret ()]) (settled d)"
    by (intro leads_skip leads_last release_if neutral)
  note finish = leads_attempt [OF this]
  have last: "triple (settled d) (thenp (check_last env) (raise_option e)) (\<lambda>_. settled d) (settled d)" for e
    unfolding keeps_triple [symmetric] by (intro neutral prog_rules)
  show "triple (led d 0 0 0 0 (\<lambda>x. x = stake_of c))
     (if hc_stream_response c = None then ret ()
      else thenp (upd drop_stream) (thenp count_completed
        (andthen (attempt (first_error [call_hook env (RequestFinished a), on_body a body_close,
             if hc_stream_admitted c then life release_request else ret ()])) (\<lambda>primary_error.
          thenp (check_last env) (raise_option primary_error))))) (\<lambda>_. settled d) (settled d)"
    by (rule triple_if [OF none triple_thenp [OF drop triple_thenp [OF count triple_andthen [OF finish last]]]])
qed

lemma fail_stream_settled: "keeps (settled d) (fail_stream reason)"
proof -
  have "keeps (settled d) (cancel_pending_stream reason)"
    unfolding keeps_leads
    by (rule leads_conseq [OF cancel_stream_step [where B = "\<lambda>_. True"]]) (auto elim: led_weaken)
  then show ?thesis unfolding fail_stream_def by (intro neutral prog_rules)
qed

lemma send_piece_neutral [neutral]: "0 \<le> kb \<Longrightarrow> keeps (led d kr kq kv kb A) (send_piece env available)"
  unfolding send_piece_def Let_def
  by (intro neutral prog_rules upd_neutral) (simp_all add: stake_of_def)

lemma stream_next_settled: "keeps (settled d) (stream_next env available item)"
  unfolding stream_next_def
  by (cases item)
    (auto intro!: neutral prog_rules upd_neutral complete_streaming_settled fail_stream_settled simp: stake_of_def)

lemma drive_streaming_settled: "keeps (settled d) (drive_streaming_response env)"
  unfolding drive_streaming_response_def Let_def
  by (intro prog_rules neutral stream_next_settled fail_stream_settled) simp_all

end
