(* ===== verification/Conn_Requests.thy ===== *)
theory Conn_Requests
  imports Conn_Settle
begin

text \<open>
  The ledger through the life of a request: beginning it, publishing a reply, finishing it.
\<close>

section \<open>Rules\<close>

lemma triple_split:
  assumes "triple (led d kr kq kv kb (\<lambda>x. A x \<and> B x)) m Q E" and "triple (led d kr kq kv kb (\<lambda>x. A x \<and> \<not> B x)) m Q E"
  shows "triple (led d kr kq kv kb A) m Q E"
  using assms unfolding triple_def led_def Let_def by meson

lemma triple_weaken:
  "triple (led d kr kq kv kb B) m Q E \<Longrightarrow> (\<And>x. owners x \<Longrightarrow> A x \<Longrightarrow> B x) \<Longrightarrow> triple (led d kr kq kv kb A) m Q E"
  by (erule triple_conseq) (auto elim: led_weaken)

lemma triple_neutral:
  "keeps P m \<Longrightarrow> (\<And>s. P s \<Longrightarrow> Q s) \<Longrightarrow> (\<And>s. P s \<Longrightarrow> E s) \<Longrightarrow> triple P m (\<lambda>_. Q) E"
  unfolding keeps_triple by (erule triple_conseq) simp_all

text \<open>A neutral step before the rest.\<close>

lemma triple_first: "keeps P m \<Longrightarrow> (\<And>x. triple P (k x) Q E) \<Longrightarrow> (\<And>s. P s \<Longrightarrow> E s) \<Longrightarrow> triple P (andthen m k) Q E"
  by (rule triple_andthen [OF triple_neutral])

lemma triple_first': "keeps P m \<Longrightarrow> triple P n Q E \<Longrightarrow> (\<And>s. P s \<Longrightarrow> E s) \<Longrightarrow> triple P (thenp m n) Q E"
  unfolding thenp_def by (rule triple_first)

lemma conn_any: "(\<And>c. triple P (f c) Q E) \<Longrightarrow> triple P (conn_of f) Q E"
  by (simp add: triple_def conn_of_def reading_def)

text \<open>Nothing is being parsed and nothing is pending.\<close>

definition vacant :: "stake \<Rightarrow> bool" where
  "vacant x \<longleftrightarrow> sk_current x = None \<and> \<not> busy x"

text \<open>The admission in hand went to a pending owner.\<close>

definition passed_on :: "stake \<Rightarrow> bool" where
  "passed_on x \<longleftrightarrow> sk_plan x \<or> sk_stream x \<noteq> None"

definition in_hand :: "amounts \<Rightarrow> int \<Rightarrow> int \<Rightarrow> bool \<Rightarrow> ('p, 'c, 'w) cstate \<Rightarrow> bool" where
  "in_hand d kq kv b = led d (of_bool b) kq kv 0 vacant"

definition handed :: "amounts \<Rightarrow> int \<Rightarrow> int \<Rightarrow> ('p, 'c, 'w) cstate \<Rightarrow> bool" where
  "handed d kq kv = led d 0 kq kv 0 passed_on"

section \<open>Publishing\<close>

lemma begin_streaming_step:
  "triple (in_hand d kq kv b) (begin_streaming_response env a r b) (\<lambda>_. handed d kq kv) (in_hand d kq kv b)"
proof -
  let ?f = "\<lambda>it c. c\<lparr>hc_stream_request := Some a, hc_stream_response := Some (r\<lparr>rs_committed := True\<rparr>),
            hc_stream_iterator := Some it, hc_stream_chunk := [], hc_stream_offset := 0,
            hc_stream_admitted := b, hc_stream_empty_chunks := 0\<rparr>"
  have start: "triple (in_hand d kq kv b) (upd (?f it)) (\<lambda>_. handed d kq kv) (in_hand d kq kv b)" for it
    unfolding in_hand_def handed_def
    by (rule stake_step [where g = "\<lambda>x. x\<lparr>sk_stream := Some a, sk_stream_admitted := b\<rparr>"])
      (auto simp: stake_of_def vacant_def passed_on_def owners_def busy_def own_def)
  have "keeps (in_hand d kq kv b) (andthen (lift_result q) (queue_bytes env))"
    and "keeps (in_hand d kq kv b) (outside g)" for q g
    unfolding in_hand_def by (intro neutral prog_rules, simp) (intro neutral)
  note steps = triple_first' [OF this(1) start] triple_first [OF this(2)]
  show ?thesis
    unfolding begin_streaming_response_def conn_of_def
    by (rule steps(2), rule triple_reading, rule triple_conseq [OF steps(1)]) auto
qed

lemma send_finished_step:
  "triple (in_hand d kq kv b) (thenp (send_reply env meth reply) (thenp (call_hook env h) (ret False)))
     (\<lambda>r s. \<not> r \<and> in_hand d kq kv b s) (in_hand d kq kv b)"
  unfolding in_hand_def
  by (rule triple_first' [OF send_reply_neutral], simp,
      rule triple_first' [OF call_hook_neutral triple_ret]) auto

text \<open>The outcome of publishing: the admission passed on, or still in hand.\<close>

definition outcome :: "amounts \<Rightarrow> int \<Rightarrow> int \<Rightarrow> bool \<Rightarrow> bool \<Rightarrow> ('p, 'c, 'w) cstate \<Rightarrow> bool" where
  "outcome d kq kv b r = (if r then handed d kq kv else in_hand d kq kv b)"

lemma stream_outcome_step:
  "triple (in_hand d kq kv b) (thenp (begin_streaming_response env a r b) (ret True))
     (outcome d kq kv b) (in_hand d kq kv b)"
  by (rule triple_thenp [OF begin_streaming_step triple_ret]) (simp add: outcome_def)

lemma send_outcome_step:
  "triple (in_hand d kq kv b) (thenp (send_reply env meth reply) (thenp (call_hook env h) (ret False)))
     (outcome d kq kv b) (in_hand d kq kv b)"
  by (rule triple_conseq [OF send_finished_step]) (auto simp: outcome_def)

lemma method_step: "(\<And>meth. triple P (f meth) Q E) \<Longrightarrow> triple P (method_of a f) Q E"
  by (simp add: triple_def method_of_def reading_def)

lemma publish_reply_step:
  "triple (in_hand d kq kv b) (publish_reply env a b reply) (outcome d kq kv b) (in_hand d kq kv b)"
proof -
  have "keeps (in_hand d kq kv b) (lift_result q)" for q
    unfolding in_hand_def by (rule neutral)
  note skip = triple_first [OF this]
  show ?thesis
    unfolding publish_reply_def Let_def
    by (rule method_step, rule skip, cases reply) (auto intro: stream_outcome_step send_outcome_step)
qed

section \<open>Finishing a request\<close>

lemma in_hand_neutral: "(\<And>A. keeps (led d (of_bool b) kq kv 0 A) m) \<Longrightarrow> keeps (in_hand d kq kv b) m"
  by (simp add: in_hand_def)

lemma deadline_neutral [neutral]: "keeps (led d kr kq kv kb A) (deadline_passed env a)"
  unfolding deadline_passed_def by (intro neutral prog_rules)

lemma timeout_reply_step:
  "triple (in_hand d kq kv b) (timeout_reply env a) (\<lambda>r s. r \<noteq> None \<and> in_hand d kq kv b s) (in_hand d kq kv b)"
  unfolding timeout_reply_def
  by (intro triple_first' in_hand_neutral neutral triple_ret) auto

text \<open>What \<open>choose_reply\<close> leaves: a reply with the admission in hand, or a proxy plan that has it.\<close>

definition chosen :: "amounts \<Rightarrow> int \<Rightarrow> int \<Rightarrow> bool \<Rightarrow> 'r option \<Rightarrow> ('p, 'c, 'w) cstate \<Rightarrow> bool" where
  "chosen d kq kv b r = (if r = None then handed d kq kv else in_hand d kq kv b)"

lemma chosen_some: "triple P m (\<lambda>r s. r \<noteq> None \<and> in_hand d kq kv b s) E \<Longrightarrow> triple P m (chosen d kq kv b) E"
  by (erule triple_conseq) (auto simp: chosen_def)

lemma plan_step:
  "triple (in_hand d kq kv True) (thenp (upd (\<lambda>c. c\<lparr>hc_pending_proxy := Some p, hc_proxy_request := Some a\<rparr>)) (ret None))
     (chosen d kq kv True) (in_hand d kq kv True)"
proof -
  have "triple (in_hand d kq kv True) (upd (\<lambda>c. c\<lparr>hc_pending_proxy := Some p, hc_proxy_request := Some a\<rparr>))
     (\<lambda>_. handed d kq kv) (in_hand d kq kv True)"
    unfolding in_hand_def handed_def
    by (rule stake_step [where g = "\<lambda>x. x\<lparr>sk_plan := True, sk_proxy := Some a\<rparr>"])
      (auto simp: stake_of_def vacant_def passed_on_def owners_def busy_def own_def)
  then show ?thesis
    by (rule triple_thenp) (auto intro!: triple_ret simp: chosen_def)
qed

lemma late_step:
  "triple (in_hand d kq kv b) (andthen (deadline_passed env a) (\<lambda>late. if late then timeout_reply env a else ret (Some reply)))
     (chosen d kq kv b) (in_hand d kq kv b)"
  by (rule triple_first, rule in_hand_neutral, rule neutral)
    (auto intro!: chosen_some timeout_reply_step triple_ret simp: chosen_def)

lemma choose_reply_step:
  fixes env :: "('p, 'w) conn_env"
  shows "triple (in_hand d kq kv b :: ('p, 'c, 'w) cstate \<Rightarrow> bool) (choose_reply env a b) (chosen d kq kv b) (in_hand d kq kv b)"
proof (cases b)
  case False
  then show ?thesis
    unfolding choose_reply_def
    by (auto intro!: triple_first' in_hand_neutral neutral triple_ret simp: chosen_def)
next
  case True
  have pick: "triple (in_hand d kq kv b) (case reply of
            PlanReply p \<Rightarrow>
              if hc_has_transport c
              then thenp (upd (\<lambda>c. c\<lparr>hc_pending_proxy := Some p, hc_proxy_request := Some a\<rparr>)) (ret None)
              else andthen (deadline_passed env a) (\<lambda>late. if late then timeout_reply env a
                     else ret (Some (Reply (text_reply ''proxy transport unavailable'' 503))))
          | _ \<Rightarrow> andthen (deadline_passed env a) (\<lambda>late. if late then timeout_reply env a else ret (Some reply)))
       (chosen d kq kv b) (in_hand d kq kv b)" for reply and c :: "'p gateway_connection"
    using True plan_step by (cases reply) (auto intro: late_step)
  show ?thesis
    unfolding choose_reply_def Let_def if_not_P [OF True [THEN not_not [THEN iffD2]]]
    by (rule triple_first [OF in_hand_neutral [OF deadline_neutral] triple_if [OF chosen_some [OF timeout_reply_step]
          triple_first [OF in_hand_neutral [OF dispatch_neutral(1)] conn_any [OF pick]]]])
qed

lemma release_unless_pending_step:
  "leads (outcome d kq kv b r) (release_unless_pending a b) (led d 0 kq kv 0 (\<lambda>_. True))"
proof (cases r)
  case True
  have "triple (led d 0 kq kv 0 passed_on) (release_unless_pending a b) (\<lambda>_. led d 0 kq kv 0 (\<lambda>_. True)) (led d 0 kq kv 0 (\<lambda>_. True))"
    unfolding release_unless_pending_def
    by (rule conn_step) (auto simp: passed_on_def intro!: triple_ret elim: led_weaken)
  with True show ?thesis by (simp add: leads_triple outcome_def handed_def)
next
  case False
  let ?Q = "led d 0 kq kv 0 (\<lambda>_. True)"
  have release: "triple (led d (of_bool b) kq kv 0 (\<lambda>_. True)) (if b then life release_request else ret ()) (\<lambda>_. ?Q) ?Q"
    unfolding leads_triple [symmetric] by (rule release_if)
  have close: "triple ?Q (on_body a body_close) (\<lambda>_. ?Q) ?Q"
    by (rule triple_keeps) (rule neutral)
  have "triple (led d (of_bool b) kq kv 0 vacant) (release_unless_pending a b) (\<lambda>_. ?Q) ?Q"
    unfolding release_unless_pending_def
    by (rule conn_step, rule triple_if, rule triple_weaken [OF triple_thenp [OF release close]])
      (auto simp: vacant_def owners_def busy_def)
  with False show ?thesis by (simp add: leads_triple outcome_def in_hand_def)
qed

text \<open>The whole dispatch of a finished request.\<close>

lemma finish_dispatch_step:
  "leads (in_hand d kq kv b)
    (andthen
      (ensuring
        (catching
          (andthen (choose_reply env a b) (\<lambda>chosen.
             case chosen of None \<Rightarrow> ret True | Some reply \<Rightarrow> publish_reply env a b reply))
          (\<lambda>e. if is_buffer_limit e
             then method_of a (\<lambda>meth. thenp (overflow_reply env meth) (ret False)) else throw e))
        (release_unless_pending a b))
      (\<lambda>returned. conn_of (\<lambda>c.
         if returned \<or> hc_pending_proxy c \<noteq> None \<or> hc_stream_request c \<noteq> None then ret ()
         else thenp count_completed (check_last env))))
    (led d 0 kq kv 0 (\<lambda>_. True))" (is "leads _ (andthen (ensuring (catching ?m ?h) ?f) ?k) ?Q")
proof -
  have main: "triple (in_hand d kq kv b) ?m (outcome d kq kv b) (in_hand d kq kv b)"
    by (rule triple_andthen [OF choose_reply_step], rule triple_option)
      (auto intro!: triple_ret publish_reply_step simp: chosen_def outcome_def)
  have "keeps (in_hand d kq kv b) (overflow_reply env meth)" for meth
    by (rule in_hand_neutral) (rule neutral, simp)
  then have handler: "triple (in_hand d kq kv b) (?h e) (outcome d kq kv b) (in_hand d kq kv b)" for e
    by (auto intro!: method_step triple_first' triple_ret triple_throw simp: outcome_def)
  have release: "triple (outcome d kq kv b r) ?f (\<lambda>_. ?Q) ?Q" for r
    using release_unless_pending_step by (simp add: leads_triple)
  have failed: "triple (in_hand d kq kv b) ?f (\<lambda>_. ?Q) ?Q"
    using release [of False] by (simp add: outcome_def)
  have tail: "triple ?Q (?k r) (\<lambda>_. ?Q) ?Q" for r
    by (rule triple_keeps) (intro neutral prog_rules)
  show ?thesis
    unfolding leads_triple
    by (rule triple_andthen [OF triple_ensuring [OF triple_catching [OF main handler] release failed] tail])
qed

text \<open>Under a pending request, the end of the body is only recorded.\<close>

lemma finish_pending_step:
  assumes A: "\<And>x. A x \<Longrightarrow> A (no_current x)" "\<And>x. A x \<Longrightarrow> busy x"
  shows "keeps (led d 0 kq kv 0 A) (conn_finish_request env)"
proof -
  let ?drop = "upd (\<lambda>c. c\<lparr>hc_current := None, hc_admitted := False\<rparr>)"
  let ?fin = "\<lambda>b h. (body_finish b, h, Inr ())"
  show "keeps (led d 0 kq kv 0 A) (conn_finish_request env)"
    unfolding keeps_triple conn_finish_request_def
  proof (rule conn_step)
    fix c :: "'p gateway_connection"
    assume c: "owners (stake_of c)" "A (stake_of c)"
    have drop: "triple (led d 0 kq kv 0 (\<lambda>x. x = stake_of c)) ?drop (\<lambda>_. led d 0 kq kv 0 A) (led d 0 kq kv 0 A)"
      by (rule no_current_step [where b = False]) (use c A [OF c(2)] in \<open>auto simp: owners_def\<close>)
    have pend: "hc_proxy_request c = Some a \<or> hc_local_request c = Some a" if "hc_current c = Some a" for a
      using that c A(2) [OF c(2)] by (auto simp: owners_def)
    show "triple (led d 0 kq kv 0 (\<lambda>x. x = stake_of c)) (thenp ?drop (case hc_current c of
       None \<Rightarrow> throw (Http1Error 400 ''orphan-request-end'' ''request end without head'')
     | Some a \<Rightarrow> thenp (on_body a ?fin)
         (if hc_proxy_request c = Some a \<or> hc_local_request c = Some a then ret () else f a)))
       (\<lambda>_. led d 0 kq kv 0 A) (led d 0 kq kv 0 A)" for f
      by (rule triple_thenp [OF drop], rule triple_keeps, cases "hc_current c")
        (auto intro!: neutral prog_rules dest: pend)
  qed
qed

lemma finish_free_step:
  "leads (led d 0 kq kv 0 (\<lambda>x. \<not> busy x)) (conn_finish_request env) (led d 0 kq kv 0 (\<lambda>_. True))" (is "leads _ _ ?Q")
  unfolding leads_triple conn_finish_request_def
proof (rule conn_step)
  fix c :: "'p gateway_connection"
  assume c: "owners (stake_of c)" "\<not> busy (stake_of c)"
  let ?b = "hc_admitted c"
  have drop: "triple (led d 0 kq kv 0 (\<lambda>x. x = stake_of c)) (upd (\<lambda>c. c\<lparr>hc_current := None, hc_admitted := False\<rparr>)) (\<lambda>_. in_hand d kq kv ?b) ?Q"
    unfolding in_hand_def by (rule no_current_step [where b = ?b]) (use c in \<open>auto simp: vacant_def busy_def\<close>)
  have orphan: "triple (in_hand d kq kv ?b) (throw e) (\<lambda>_. ?Q) ?Q" if "hc_current c = None" for e
    using that c(1) by (auto simp: owners_def in_hand_def intro!: triple_throw elim: led_weaken)
  have ended: "triple (in_hand d kq kv ?b) (on_body a (\<lambda>b h. (body_finish b, h, Inr ()))) (\<lambda>_. in_hand d kq kv ?b) ?Q" for a
    by (auto simp: triple_def on_body_def in_hand_def split: prod.splits intro: led_same)
  have free: "\<not> (hc_proxy_request c = Some a \<or> hc_local_request c = Some a)" for a
    using c(2) by (auto simp: busy_def)
  show "triple (led d 0 kq kv 0 (\<lambda>x. x = stake_of c)) (thenp (upd (\<lambda>c. c\<lparr>hc_current := None, hc_admitted := False\<rparr>)) (case hc_current c of
     None \<Rightarrow> throw (Http1Error 400 ''orphan-request-end'' ''request end without head'')
   | Some a \<Rightarrow> thenp (on_body a (\<lambda>b h. (body_finish b, h, Inr ())))
       (if hc_proxy_request c = Some a \<or> hc_local_request c = Some a then ret ()
        else andthen
            (ensuring
              (catching
                (andthen (choose_reply env a ?b) (\<lambda>chosen.
                   case chosen of None \<Rightarrow> ret True | Some reply \<Rightarrow> publish_reply env a ?b reply))
                (\<lambda>e. if is_buffer_limit e
                   then method_of a (\<lambda>meth. thenp (overflow_reply env meth) (ret False)) else throw e))
              (release_unless_pending a ?b))
            (\<lambda>returned. conn_of (\<lambda>c.
               if returned \<or> hc_pending_proxy c \<noteq> None \<or> hc_stream_request c \<noteq> None then ret ()
               else thenp count_completed (check_last env)))))) (\<lambda>_. ?Q) ?Q"
    unfolding if_not_P [OF free]
    by (rule triple_thenp [OF drop], rule triple_option, rule orphan, assumption,
        rule triple_thenp [OF ended], rule finish_dispatch_step [unfolded leads_triple])
qed

section \<open>Beginning a request\<close>

text \<open>The parser's request, admitted or not, with nothing pending.\<close>

definition parsing :: "nat \<Rightarrow> bool \<Rightarrow> stake \<Rightarrow> bool" where
  "parsing a b x \<longleftrightarrow> sk_current x = Some a \<and> sk_admitted x = b \<and> \<not> busy x"

lemma start_parsing_step:
  "triple (led d 0 kq kv kb vacant)
     (upd (\<lambda>c. c\<lparr>hc_header_deadline := -1, hc_current := Some a, hc_keep_alive := k\<rparr>))
     (\<lambda>_. led d 0 kq kv kb (parsing a False)) E"
  by (rule stake_step [where g = "\<lambda>x. x\<lparr>sk_current := Some a\<rparr>"])
    (auto simp: stake_of_def vacant_def parsing_def owners_def busy_def own_def)

lemma record_admission_step:
  "triple (led d (of_bool b) kq kv kb (parsing a False)) (upd (\<lambda>c. c\<lparr>hc_admitted := b\<rparr>))
     (\<lambda>_. led d 0 kq kv kb (parsing a b)) E"
  by (rule stake_step [where g = "\<lambda>x. x\<lparr>sk_admitted := b\<rparr>"])
    (auto simp: stake_of_def parsing_def owners_def busy_def own_def)

lemma give_to_proxy_step:
  "triple (led d 0 kq kv kb (parsing a True))
     (upd (\<lambda>c. c\<lparr>hc_pending_proxy := Some p, hc_proxy_request := Some a, hc_admitted := False\<rparr>))
     (\<lambda>_. led d 0 kq kv kb (\<lambda>_. True)) E"
  by (rule stake_step [where g = "\<lambda>x. x\<lparr>sk_plan := True, sk_proxy := Some a, sk_admitted := False\<rparr>"])
    (auto simp: stake_of_def parsing_def owners_def busy_def own_def)

lemma give_to_child_step:
  "triple (led d 0 kq kv kb (parsing a True))
     (upd (\<lambda>c. c\<lparr>hc_local_request := Some a, hc_local_thread := Some child, hc_admitted := False\<rparr>))
     (\<lambda>_. led d 0 kq kv kb (\<lambda>_. True)) E"
  by (rule stake_step [where g = "\<lambda>x. x\<lparr>sk_local := Some a, sk_thread := True, sk_admitted := False\<rparr>"])
    (auto simp: stake_of_def parsing_def owners_def busy_def own_def)

lemma give_away_step:
  "triple (led d 0 kq kv 0 (parsing a True))
     (if early \<noteq> None \<and> t
      then upd (\<lambda>c. c\<lparr>hc_pending_proxy := early, hc_proxy_request := Some a, hc_admitted := False\<rparr>)
      else if streaming
      then andthen (outside (ce_spawn env a)) (\<lambda>child.
        upd (\<lambda>c. c\<lparr>hc_local_request := Some a, hc_local_thread := Some child, hc_admitted := False\<rparr>))
      else ret ())
     (\<lambda>_. led d 0 kq kv 0 (\<lambda>_. True)) (led d 0 kq kv 0 (\<lambda>_. True))" (is "triple ?P _ _ ?Q")
proof -
  have weak: "?P s \<Longrightarrow> ?Q s" for s by (erule led_weaken) simp
  have "triple ?P (if streaming
      then andthen (outside (ce_spawn env a)) (\<lambda>child.
        upd (\<lambda>c. c\<lparr>hc_local_request := Some a, hc_local_thread := Some child, hc_admitted := False\<rparr>))
      else ret ()) (\<lambda>_. ?Q) ?Q"
    by (rule triple_if, rule triple_first [OF outside_neutral give_to_child_step weak], assumption,
        rule triple_ret, rule weak)
  then show ?thesis
    using give_to_proxy_step by (cases early) auto
qed

lemma begin_request_step:
  fixes env :: "('p, 'w) conn_env"
  shows "leads (led d 0 kq kv 0 (\<lambda>x. \<not> busy x)) (begin_request env head)
    (led d 0 kq kv 0 (\<lambda>_. True) :: ('p, 'c, 'w) cstate \<Rightarrow> bool)" (is "leads _ _ ?Q")
  unfolding leads_triple begin_request_def Let_def
proof (rule conn_step, rule triple_if)
  fix c :: "'p gateway_connection" and e
  show "triple (led d 0 kq kv 0 (\<lambda>x. x = stake_of c)) (throw e) (\<lambda>_. ?Q) ?Q"
    by (auto intro!: triple_throw elim: led_weaken)
next
  fix c :: "'p gateway_connection"
  assume c: "\<not> busy (stake_of c)" "\<not> hc_current c \<noteq> None"
  let ?P = "\<lambda>A. led d 0 kq kv 0 A"
  let ?streaming = "hc_has_transport c \<and> ce_local_body_streaming env \<and> (rh_content_length head > 0 \<or> rh_chunked head)"
  have weak: "?P A s \<Longrightarrow> ?Q s" for A s by (erule led_weaken) simp
  have hook: "keeps (?P A) (if p then queue_bytes env bs else ret ())" for A p bs
    by (intro neutral prog_rules) simp
  note started = triple_first' [OF call_hook_neutral triple_first' [OF hook
      triple_first [OF dispatch_neutral(2) give_away_step [where t = "hc_has_transport c" and streaming = ?streaming] weak] weak] weak]
  have dispatched: "triple (?P (parsing a b)) (if \<not> b then ret () else n) (\<lambda>_. ?Q) ?Q"
    if "triple (?P (parsing a True)) n (\<lambda>_. ?Q) ?Q" for a b and n :: "(('p, 'c, 'w) cstate, unit) prog"
    using that by (cases b) (auto intro!: triple_ret weak)
  note admitted = triple_thenp [OF record_admission_step dispatched [OF started]]
  have admit: "triple (?P (parsing a False)) admit (\<lambda>b. led d (of_bool b) kq kv 0 (parsing a False)) ?Q" for a
    using admit_step [of d 0] by simp
  note begun = triple_thenp [OF start_parsing_step triple_andthen [OF admit admitted]]
  note whole = triple_first [OF now_ms_neutral triple_first [OF make_request_neutral begun weak] weak]
  show "triple (?P (\<lambda>x. x = stake_of c))
     (andthen (now_ms env) (\<lambda>now.
       andthen (make_request env head ?streaming (now + hl_body_timeout_ms (gc_http1 (ce_config env)))) (\<lambda>a.
       thenp (upd (\<lambda>c. c\<lparr>hc_header_deadline := -1, hc_current := Some a, hc_keep_alive := rh_keep_alive head\<rparr>))
       (andthen admit (\<lambda>admitted.
        thenp (upd (\<lambda>c. c\<lparr>hc_admitted := admitted\<rparr>))
        (if \<not> admitted then ret ()
         else thenp (call_hook env (RequestStarted a))
           (thenp (if rh_expect_continue head
                   then queue_bytes env (cp ''HTTP/1.1 100 Continue'' @ crlf @ crlf) else ret ())
           (andthen (proxy_head env a) (\<lambda>early_proxy.
              if early_proxy \<noteq> None \<and> hc_has_transport c
              then upd (\<lambda>c. c\<lparr>hc_pending_proxy := early_proxy, hc_proxy_request := Some a, hc_admitted := False\<rparr>)
              else if ?streaming
              then andthen (outside (ce_spawn env a)) (\<lambda>child.
                upd (\<lambda>c. c\<lparr>hc_local_request := Some a, hc_local_thread := Some child, hc_admitted := False\<rparr>))
              else ret ()))))))))) (\<lambda>_. ?Q) ?Q"
    by (rule triple_weaken [OF whole]) (use c in \<open>auto simp: vacant_def\<close>)
qed

end
