(* ===== verification/Conn_Loop.thy ===== *)
theory Conn_Loop
  imports Conn_Requests
begin

text \<open>
  The ledger through the event loops of a connection: decoded events, deferred events, the body of
  a pending request, protocol errors and timeouts.
\<close>

section \<open>One event\<close>

lemma head_step:
  "leads (led d 0 kq kv 0 (\<lambda>x. \<not> busy x)) (handle_http_event env (EvHead head)) (led d 0 kq kv 0 (\<lambda>_. True))"
  unfolding leads_triple handle_http_event_def http_event.case
  by (rule triple_catching [OF begin_request_step [unfolded leads_triple]]) (auto intro: triple_throw)

lemma body_step: "leads (led d kr kq (kv + 1) kb A) (handle_http_event env (EvBody data)) (led d kr kq kv kb A)"
proof -
  let ?P = "led d kr kq (kv + 1) kb A" and ?Q = "led d kr kq kv kb A"
  have release: "triple ?P release_view (\<lambda>_. ?Q) E" for E by (rule release_view_step)
  have "triple ?P (case hc_current c of
         None \<Rightarrow> thenp release_view (throw (Http1Error 400 ''orphan-body'' ''body without request head''))
       | Some a \<Rightarrow> ensuring (thenp (on_body a (body_feed (Plain data))) (ret ())) release_view) (\<lambda>_. ?Q) ?Q" for c
    by (rule triple_option, rule triple_thenp [OF release triple_throw], assumption,
        rule triple_ensuring [OF triple_keeps release release], intro neutral prog_rules)
  then have "triple ?P (conn_of (\<lambda>c. case hc_current c of
         None \<Rightarrow> thenp release_view (throw (Http1Error 400 ''orphan-body'' ''body without request head''))
       | Some a \<Rightarrow> ensuring (thenp (on_body a (body_feed (Plain data))) (ret ())) release_view)) (\<lambda>_. ?Q) ?Q"
    by (rule conn_any)
  then show ?thesis by (simp add: leads_triple handle_http_event_def)
qed

lemma trailers_step:
  assumes "leads (led d kr kq kv kb A) (conn_finish_request env) Q" and "\<And>s. led d kr kq kv kb A s \<Longrightarrow> Q s"
  shows "leads (led d kr kq kv kb A) (handle_http_event env (EvEnd trailers)) Q"
proof -
  have "triple (led d kr kq kv kb A) (thenp (case hc_current c of None \<Rightarrow> ret ()
      | Some a \<Rightarrow> set_request a (\<lambda>r. r\<lparr>rq_trailers := trailers\<rparr>)) (conn_finish_request env)) (\<lambda>_. Q) Q" for c
    using assms by (intro triple_first') (auto simp: leads_triple intro!: neutral prog_rules split: option.splits)
  then show ?thesis
    unfolding handle_http_event_def leads_triple http_event.case by (rule conn_any)
qed

lemma handle_step:
  assumes "is_head event \<Longrightarrow> (\<forall>x. A x \<longrightarrow> \<not> busy x)"
  shows "leads (led d 0 kq (kv + of_bool (is_body event)) 0 A) (handle_http_event env event) (led d 0 kq kv 0 (\<lambda>_. True))"
proof (cases event)
  case (EvHead head)
  with assms show ?thesis
    by (auto intro!: leads_conseq [OF head_step] elim: led_weaken)
next
  case (EvBody data)
  then show ?thesis
    by (auto intro!: leads_conseq [OF body_step] elim: led_weaken)
next
  case (EvEnd trailers)
  have pending: "triple (led d 0 kq kv 0 busy) (conn_finish_request env) (\<lambda>_. led d 0 kq kv 0 (\<lambda>_. True)) (led d 0 kq kv 0 (\<lambda>_. True))"
    by (rule triple_conseq [OF triple_keeps [OF finish_pending_step [of busy]]]) (auto simp: busy_def elim: led_weaken)
  have "leads (led d 0 kq kv 0 (\<lambda>_. True)) (conn_finish_request env) (led d 0 kq kv 0 (\<lambda>_. True))"
    unfolding leads_triple
    by (rule triple_split [where B = busy])
      (use pending finish_free_step [of d kq kv env] in \<open>simp_all add: leads_triple\<close>)
  with EvEnd show ?thesis
    by (auto intro!: leads_conseq [OF trailers_step] elim: led_weaken)
qed

lemma handle_pending_step:
  assumes "\<not> is_head event" and "\<And>x. A x \<Longrightarrow> A (no_current x)" and "\<And>x. A x \<Longrightarrow> busy x"
  shows "leads (led d 0 kq (kv + of_bool (is_body event)) 0 A) (handle_http_event env event) (led d 0 kq kv 0 A)"
proof (cases event)
  case (EvHead head)
  with assms(1) show ?thesis by simp
next
  case (EvBody data)
  then show ?thesis by (simp add: body_step)
next
  case (EvEnd trailers)
  with finish_pending_step [of A, OF assms(2,3)] show ?thesis
    by (auto intro!: trailers_step simp: keeps_leads)
qed

section \<open>Releasing events\<close>

lemma release_event_step:
  "0 \<le> kq \<Longrightarrow> triple (led d kr (kq + of_bool (q \<and> is_head event)) (kv + of_bool (is_body event)) kb A)
     (release_event q event) (\<lambda>_. led d kr kq kv kb A) E"
  unfolding release_event_def
  by (cases event) (auto intro: release_view_step release_queued_step triple_ret)

lemma release_events_step:
  assumes "0 \<le> kq"
  shows "triple (led d kr (kq + (if q then heads events else 0)) (kv + bodies events) kb A)
     (first_error (map (release_event q) events)) (\<lambda>_. led d kr kq kv kb A) (\<lambda>_. False)"
proof (induction events)
  case Nil
  then show ?case by (simp add: triple_def ret_def)
next
  case (Cons event events)
  have "triple (led d kr (kq + (if q then heads events else 0) + of_bool (q \<and> is_head event))
      (kv + bodies events + of_bool (is_body event)) kb A) (release_event q event)
      (\<lambda>_. led d kr (kq + (if q then heads events else 0)) (kv + bodies events) kb A) (\<lambda>_. False)"
    by (rule release_event_step) (use assms in simp)
  note step = triple_first_error [OF this Cons.IH]
  have hands: "kq + (if q then heads events else 0) + of_bool (q \<and> is_head event) =
      kq + (if q then heads (event # events) else 0)"
    "kv + bodies events + of_bool (is_body event) = kv + bodies (event # events)" by simp_all
  show ?case
    using step unfolding hands list.map .
qed

text \<open>Releasing events never raises, and gives back exactly what they hold.\<close>

lemma release_suffix_step:
  assumes "kq' = (if q then heads events else 0)" and "kv' = bodies events"
  shows "triple (led d kr kq' kv' kb A) (release_event_suffix events q) (\<lambda>_. led d kr 0 0 kb A) E"
  using release_events_step [of 0 d kr q events 0 kb A] assms unfolding release_event_suffix_def
  by (auto elim: triple_conseq)

lemma deferred_ok:
  "owners (x\<lparr>sk_deferred := es\<rparr>) = owners x" "own (x\<lparr>sk_deferred := es\<rparr>) = own x"
  by (simp_all add: owners_def busy_def own_def)

lemma stake_deferred: "stake_of (c\<lparr>hc_deferred := es\<rparr>) = (stake_of c)\<lparr>sk_deferred := es\<rparr>"
  by (simp add: stake_of_def)

text \<open>Taking the deferred events off the connection.\<close>

lemma take_deferred_step:
  assumes "\<And>x es. A x \<Longrightarrow> B (x\<lparr>sk_deferred := es\<rparr>)"
    and "\<And>events. triple (led d 0 (heads events) (bodies events) kb B) (f events) Q E"
  shows "triple (led d 0 0 0 kb A) (conn_of (\<lambda>c. thenp (upd (\<lambda>c. c\<lparr>hc_deferred := []\<rparr>)) (f (hc_deferred c)))) Q E"
proof (rule conn_step)
  fix c :: "'a gateway_connection"
  assume "A (stake_of c)"
  then have "triple (led d 0 0 0 kb (\<lambda>x. x = stake_of c)) (upd (\<lambda>c. c\<lparr>hc_deferred := []\<rparr>))
      (\<lambda>_. led d 0 (heads (hc_deferred c)) (bodies (hc_deferred c)) kb B) E"
    by (intro stake_step [where g = "\<lambda>x. x\<lparr>sk_deferred := []\<rparr>"])
      (use assms(1) in \<open>simp_all add: stake_deferred deferred_ok\<close>)
  then show "triple (led d 0 0 0 kb (\<lambda>x. x = stake_of c)) (thenp (upd (\<lambda>c. c\<lparr>hc_deferred := []\<rparr>)) (f (hc_deferred c))) Q E"
    using assms(2) by (rule triple_thenp)
qed

lemma discard_settled: "keeps (settled d) discard_deferred_events"
  unfolding keeps_triple discard_deferred_events_def
  by (rule take_deferred_step [where B = "\<lambda>_. True"]) (auto intro: release_suffix_step)

section \<open>Protocol errors and timeouts\<close>

lemma fail_http_settled: "keeps (settled d) (fail_http env e)"
  unfolding fail_http_def
  by (cases e) (auto intro!: neutral prog_rules metric_neutral abort_settled discard_settled)

lemma deadline_timeout_settled: "keeps (settled d) (deadline_timeout env phase)"
  unfolding deadline_timeout_def by (intro neutral prog_rules abort_settled) simp_all

lemma input_eof_settled: "keeps (settled d) (input_eof env)"
  unfolding input_eof_def
  by (intro neutral prog_rules fail_http_settled upd_neutral) (simp_all add: stake_of_def)

lemma start_header_deadline_neutral [neutral]: "keeps (led d kr kq kv kb A) (start_header_deadline env)"
  unfolding start_header_deadline_def
  by (intro neutral prog_rules upd_neutral) (simp_all add: stake_of_def)

section \<open>The loops\<close>

lemma or_release_step:
  assumes "leads P m (led d 0 (if q then heads rest else 0) (bodies rest) 0 (\<lambda>_. True))"
  shows "triple P (or_release rest q m) (\<lambda>_. led d 0 (if q then heads rest else 0) (bodies rest) 0 (\<lambda>_. True)) (settled d)"
proof -
  have "leads (led d 0 (if q then heads rest else 0) (bodies rest) 0 (\<lambda>_. True)) (release_event_suffix rest q) (settled d)"
    unfolding leads_triple by (rule release_suffix_step) simp_all
  note give_back = triple_thenp [OF leads_quiet [OF this] triple_throw]
  show ?thesis
    unfolding or_release_def by (rule triple_catching [OF assms [unfolded leads_triple] give_back])
qed

lemma defer_step:
  assumes "\<And>x es. A x \<Longrightarrow> B (x\<lparr>sk_deferred := es\<rparr>)" and "kq = kq' + of_bool (is_head event)" and "kv = kv' + of_bool (is_body event)"
  shows "triple (led d kr kq kv kb A) (defer_event event) (\<lambda>_. led d kr kq' kv' kb B) E"
  unfolding defer_event_def
  by (rule stake_step [where g = "\<lambda>x. x\<lparr>sk_deferred := sk_deferred x @ [event]\<rparr>"])
    (use assms in \<open>simp_all add: stake_deferred deferred_ok\<close>)

lemma queue_event_step:
  "triple (led d 0 0 kv 0 A)
    (case event of EvHead _ \<Rightarrow> life (\<lambda>l. case queue_request l of (l', b) \<Rightarrow> (l', Inr b)) | _ \<Rightarrow> ret True)
    (\<lambda>queued s. (queued \<or> is_head event) \<and> led d 0 (of_bool (queued \<and> is_head event)) kv 0 A s) E"
  using triple_conseq [OF queue_step [of d 0 0 kv 0 A E]] by (cases event) (auto intro: triple_ret)

text \<open>Behind a pending request an event is deferred; a head that finds no queue slot ends the input.\<close>

lemma defer_or_refuse_step:
  "triple (\<lambda>s. (queued \<or> is_head event) \<and> led d 0 (of_bool (queued \<and> is_head event)) (bodies (event # rest)) 0 A s)
    (if \<not> queued then thenp close_after_flush (thenp (release_event_suffix rest False) (ret (False, 0)))
     else thenp (defer_event event) (ret (True, 0)))
    (\<lambda>r. led d 0 0 (if fst r then bodies rest else 0) 0 (\<lambda>_. True)) (settled d)"
proof (rule triple_pre_fact, rule triple_if)
  let ?R = "led d 0 (of_bool (queued \<and> is_head event)) (bodies (event # rest)) 0 A"
  assume q: "queued \<or> is_head event" "\<not> queued"
  from q have "\<not> is_body event" by (cases event) simp_all
  with q have "triple ?R (release_event_suffix rest False) (\<lambda>_. settled d) (settled d)"
    by (intro triple_conseq [OF release_suffix_step]) (auto elim: led_weaken)
  note rest = triple_thenp [OF this triple_ret]
  show "triple ?R (thenp close_after_flush (thenp (release_event_suffix rest False) (ret (False, 0))))
      (\<lambda>r. led d 0 0 (if fst r then bodies rest else 0) 0 (\<lambda>_. True)) (settled d)"
    by (rule triple_thenp [OF silent_steps(1) rest]) simp
next
  assume "\<not> \<not> queued"
  then show "triple (led d 0 (of_bool (queued \<and> is_head event)) (bodies (event # rest)) 0 A)
      (thenp (defer_event event) (ret (True, 0)))
      (\<lambda>r. led d 0 0 (if fst r then bodies rest else 0) 0 (\<lambda>_. True)) (settled d)"
    by (intro triple_thenp [OF defer_step [where B = "\<lambda>_. True"] triple_ret]) auto
qed

lemma feed_event_step:
  "triple (led d 0 0 (bodies (event # rest)) 0 (\<lambda>_. True)) (feed_event env event rest)
     (\<lambda>r s. led d 0 0 (if fst r then bodies rest else 0) 0 (\<lambda>_. True) s) (settled d)"
  unfolding feed_event_def
proof (rule conn_step, rule triple_if)
  fix c :: "'p gateway_connection"
  let ?P = "led d 0 0 (bodies (event # rest)) 0"
  let ?Q = "\<lambda>r s. led d 0 0 (if fst r then bodies rest else 0) 0 (\<lambda>_. True) s"
  assume own: "owners (stake_of c)"
  have weak: "?P (\<lambda>x. x = stake_of c) s \<Longrightarrow> ?P (\<lambda>_. True) s" for s by (erule led_weaken) simp
  have all: "triple (?P A) (release_event_suffix (event # rest) False) (\<lambda>_. settled d) E" for A E
    by (rule triple_conseq [OF release_suffix_step]) (auto elim: led_weaken)
  show "triple (?P (\<lambda>x. x = stake_of c)) (thenp (release_event_suffix (event # rest) False) (ret (False, 0))) ?Q (settled d)"
    by (rule triple_thenp [OF all triple_ret]) simp
  show "triple (?P (\<lambda>x. x = stake_of c)) (if any_pending c
      then andthen (case event of EvHead _ \<Rightarrow> life (\<lambda>l. case queue_request l of (l', b) \<Rightarrow> (l', Inr b)) | _ \<Rightarrow> ret True)
         (\<lambda>queued. if \<not> queued
            then thenp close_after_flush (thenp (release_event_suffix rest False) (ret (False, 0)))
            else thenp (defer_event event) (ret (True, 0)))
      else thenp (or_release rest False (handle_http_event env event)) (ret (True, 1))) ?Q (settled d)"
  proof (rule triple_if)
    assume "\<not> any_pending c"
    then have "leads (?P (\<lambda>x. x = stake_of c)) (handle_http_event env event) (led d 0 0 (bodies rest) 0 (\<lambda>_. True))"
      using handle_step [of event "\<lambda>x. x = stake_of c" d 0 "bodies rest" env] any_pending_busy [OF own]
      by (simp add: add.commute)
    from or_release_step [of _ _ d False rest, simplified, OF this]
    show "triple (?P (\<lambda>x. x = stake_of c)) (thenp (or_release rest False (handle_http_event env event)) (ret (True, 1))) ?Q (settled d)"
      by (rule triple_thenp) (simp add: triple_ret)
  qed (rule triple_andthen [OF queue_event_step defer_or_refuse_step])
qed

lemma feed_events_step:
  "leads (led d 0 0 (bodies events) 0 (\<lambda>_. True)) (feed_events env events handled) (settled d)"
  unfolding leads_triple
proof (induction events arbitrary: handled)
  case Nil
  then show ?case by (simp add: triple_ret)
next
  case (Cons event rest)
  show ?case
    unfolding feed_events.simps
    by (rule triple_andthen [OF feed_event_step], rule triple_prod) (auto intro: Cons.IH triple_ret)
qed

lemma codec_feed_step:
  "triple (settled d) (codec_feed data n) (\<lambda>events. led d 0 0 (bodies events) 0 (\<lambda>_. True)) (settled d)"
  by (auto simp: triple_def codec_feed_def led_def Let_def stake_of_def split: prod.splits sum.splits)

lemma feed_data_settled: "keeps (settled d) (feed_data env data max_messages)"
proof -
  have deadline: "triple (settled d) (thenp (start_header_deadline env) (ret h)) (\<lambda>_. settled d) (settled d)" for h
    unfolding keeps_triple [symmetric] by (intro neutral prog_rules)
  have failed: "triple (settled d) (if is_http1_error e then thenp (fail_http env e) (ret (-1))
      else thenp (quiet discard_deferred_events) (throw e)) (\<lambda>_. settled d) (settled d)" for e
    unfolding keeps_triple [symmetric] by (intro neutral prog_rules fail_http_settled discard_settled)
  note main = triple_andthen [OF codec_feed_step triple_andthen [OF feed_events_step [unfolded leads_triple] deadline]]
  show ?thesis
    unfolding keeps_triple feed_data_def
    by (rule conn_any, rule triple_if, rule triple_ret, assumption, rule triple_catching [OF main failed])
qed

section \<open>Resuming\<close>

lemma resume_event_step:
  "triple (led d 0 (heads (event # rest)) (bodies (event # rest)) 0 (\<lambda>_. True)) (resume_event env event rest)
     (\<lambda>go. if go then led d 0 (heads rest) (bodies rest) 0 (\<lambda>_. True) else settled d) (settled d)"
  unfolding resume_event_def
proof (rule conn_step, rule triple_if)
  fix c :: "'p gateway_connection"
  let ?P = "led d 0 (heads (event # rest)) (bodies (event # rest)) 0 (\<lambda>x. x = stake_of c)"
  let ?N = "led d 0 (heads rest) (bodies rest) 0"
  let ?Q = "\<lambda>go. if go then ?N (\<lambda>_. True) else settled d"
  assume own: "owners (stake_of c)"
  have all: "triple ?P (or_release (event # rest) True (release_event_suffix (event # rest) True)) (\<lambda>_. settled d) (settled d)"
    unfolding or_release_def
    by (rule triple_catching [where R = "\<lambda>_. False"], rule triple_conseq [OF release_suffix_step])
      (auto simp: triple_def elim: led_weaken)
  show "triple ?P (thenp (or_release (event # rest) True (release_event_suffix (event # rest) True)) (ret False)) ?Q (settled d)"
    by (rule triple_thenp [OF all triple_ret]) simp
  show "triple ?P (if any_pending c then thenp (defer_event event) (ret True)
      else thenp (or_release (event # rest) True (if is_head event then life release_queued_request else ret ()))
          (thenp (or_release rest True (handle_http_event env event)) (ret True))) ?Q (settled d)"
  proof (rule triple_if)
    show "triple ?P (thenp (defer_event event) (ret True)) ?Q (settled d)"
      by (rule triple_thenp [OF defer_step [where B = "\<lambda>_. True"] triple_ret]) auto
  next
    let ?M = "led d 0 (heads rest) (bodies (event # rest)) 0 (\<lambda>x. x = stake_of c)"
    assume "\<not> any_pending c"
    then have "leads ?M (handle_http_event env event) (?N (\<lambda>_. True))"
      using handle_step [of event "\<lambda>x. x = stake_of c" d "heads rest" "bodies rest" env] any_pending_busy [OF own]
      by (simp add: add.commute)
    from or_release_step [of _ _ d True rest, simplified, OF this]
    have handled: "triple ?M (thenp (or_release rest True (handle_http_event env event)) (ret True)) ?Q (settled d)"
      by (rule triple_thenp) (simp add: triple_ret)
    have "triple ?P (if is_head event then life release_queued_request else ret ()) (\<lambda>_. ?M) (\<lambda>_. False)"
      using release_queued_step [of "heads rest" d 0 "bodies (event # rest)" 0] by (auto intro: triple_ret simp: add.commute)
    then have taken: "triple ?P (or_release (event # rest) True (if is_head event then life release_queued_request else ret ()))
        (\<lambda>_. ?M) (settled d)"
      unfolding or_release_def by (rule triple_catching) (simp add: triple_def)
    show "triple ?P (thenp (or_release (event # rest) True (if is_head event then life release_queued_request else ret ()))
          (thenp (or_release rest True (handle_http_event env event)) (ret True))) ?Q (settled d)"
      by (rule triple_thenp [OF taken handled])
  qed
qed

lemma resume_events_step:
  "leads (led d 0 (heads events) (bodies events) 0 (\<lambda>_. True)) (resume_events env events) (settled d)"
  unfolding leads_triple
proof (induction events)
  case Nil
  then show ?case by (simp add: triple_ret)
next
  case (Cons event rest)
  show ?case
    unfolding resume_events.simps
    by (rule triple_andthen [OF resume_event_step]) (auto intro: Cons.IH triple_ret)
qed

lemma resume_settled: "keeps (settled d) (resume_deferred_events env)"
  unfolding keeps_triple resume_deferred_events_def
  by (rule take_deferred_step [where B = "\<lambda>_. True"]) (simp_all add: resume_events_step [unfolded leads_triple])

end
