(* ===== verification/Conn_Bodies.thy ===== *)
theory Conn_Bodies
  imports Connection_Events
begin

text \<open>
  The request objects of a connection: every operation keeps their bodies made of the bytes the
  connection fed, and the address of the pending local request valid, so that cancelling a request
  body never raises.  Only \<open>close\<close> closes the connection.
\<close>

definition plain_body :: "body_stream \<Rightarrow> bool" where
  "plain_body b = list_all (\<lambda>c. case c of Plain _ \<Rightarrow> True | Retained _ \<Rightarrow> False) (bs_chunks b)"

text \<open>What the application does to a request leaves no foreign view in its body, and the join of a
  handler leaves every request object in place.\<close>

definition plain_app :: "('p, 'w) conn_env \<Rightarrow> bool" where
  "plain_app env \<longleftrightarrow>
     (\<forall>rq w. plain_body (rq_body rq) \<longrightarrow> plain_body (rq_body (fst (ce_dispatch env rq w))) \<and>
        plain_body (rq_body (fst (ce_proxy_head env rq w)))) \<and>
     (\<forall>th rqs w. list_all (\<lambda>rq. plain_body (rq_body rq)) rqs \<longrightarrow>
        length (fst (ce_join env th rqs w)) = length rqs \<and>
        list_all (\<lambda>rq. plain_body (rq_body rq)) (fst (ce_join env th rqs w)))"

definition fed :: "nat \<Rightarrow> ('p, 'c, 'w) cstate \<Rightarrow> bool" where
  "fed n s \<longleftrightarrow> list_all (\<lambda>rq. plain_body (rq_body rq)) (cs_requests s) \<and> n \<le> length (cs_requests s) \<and>
     (\<forall>a. hc_local_request (cs_conn s) = Some a \<longrightarrow> a < length (cs_requests s)) \<and> \<not> hc_closed (cs_conn s)"

section \<open>Plain bodies\<close>

lemma plain_body_events [simp]: "plain_body (set_events b) = plain_body b"
  by (simp add: plain_body_def set_events_def)

lemma release_plain: "list_all (\<lambda>c. case c of Plain _ \<Rightarrow> True | Retained _ \<Rightarrow> False) cs \<Longrightarrow> release_chunks cs h = (h, Inr ())"
  by (induction cs) (auto split: chunk.splits)

lemma body_cancel_plain:
  "plain_body b \<Longrightarrow> \<exists>b'. body_cancel b h = (b', h, Inr ()) \<and> plain_body b'"
  by (simp add: body_cancel_def body_cancel_locked_def plain_body_def release_plain set_events_def)

lemma body_close_plain: "plain_body b \<Longrightarrow> plain_body (fst (body_close b h))"
  by (auto simp: body_close_def body_close_locked_def plain_body_def set_events_def split: prod.splits option.splits)

lemma body_feed_plain: "plain_body b \<Longrightarrow> plain_body (fst (body_feed (Plain data) b h))"
  by (auto simp: body_feed_def body_feed_locked_def retain_chunk_def plain_body_def Let_def split: prod.splits sum.splits)

lemma body_finish_plain: "plain_body b \<Longrightarrow> plain_body (body_finish b)"
  by (simp add: body_finish_def body_finish_locked_def plain_body_def set_events_def)

lemma body_new_plain: "body_new m l h st = Inr b \<Longrightarrow> plain_body b"
  by (auto simp: body_new_def plain_body_def Let_def split: if_splits)

section \<open>Steps\<close>

named_theorems fed_rules

lemma list_all_update: "list_all P xs \<Longrightarrow> (i < length xs \<Longrightarrow> P (xs ! i) \<Longrightarrow> P x) \<Longrightarrow> list_all P (xs[i := x])"
  by (cases "i < length xs") (auto simp: list_all_length nth_list_update)

lemma keeps_fed:
  assumes "\<And>s. cs_requests (fst (m s)) = cs_requests s"
    and "\<And>s. hc_local_request (cs_conn (fst (m s))) = hc_local_request (cs_conn s)"
    and "\<And>s. hc_closed (cs_conn (fst (m s))) = hc_closed (cs_conn s)"
  shows "keeps (fed n) m"
  using assms by (simp add: keeps_def fed_def)

lemma fed_outside [fed_rules]: "keeps (fed n) (outside g)"
  by (rule keeps_fed) (simp_all add: outside_def split: prod.split)

lemma fed_life [fed_rules]: "keeps (fed n) (life g)"
  by (rule keeps_fed) (simp_all add: life_def split: prod.split)

lemma fed_lift [fed_rules]: "keeps (fed n) (lift_result r)"
  by (rule keeps_fed) (simp_all add: lift_result_def)

lemma fed_upd:
  "(\<And>c. hc_local_request (f c) = hc_local_request c) \<Longrightarrow> (\<And>c. hc_closed (f c) = hc_closed c) \<Longrightarrow> keeps (fed n) (upd f)"
  by (rule keeps_fed) (simp_all add: upd_def change_def)

lemma fed_buffers [fed_rules]:
  "keeps (fed n) (append_output data)" "keeps (fed n) (consume_channel k)" "keeps (fed n) (peek_output k)"
  "keeps (fed n) release_view" "keeps (fed n) close_output" "keeps (fed n) (codec_feed data k)"
  by (rule keeps_fed; simp add: append_output_def consume_channel_def peek_output_def release_view_def change_def
      close_output_def codec_feed_def split: prod.split sum.split)+

lemma fed_conn [fed_rules]: "(\<And>c. keeps I (f c)) \<Longrightarrow> keeps I (conn_of f)"
  unfolding conn_of_def by (rule keeps_reading)

text \<open>A step that changes one request object.\<close>

lemma keeps_fed_at:
  fixes m :: "(('p, 'c, 'w) cstate, 'a) prog"
  assumes "\<And>s. \<exists>rq. cs_requests (fst (m s)) = (cs_requests s)[a := rq] \<and>
      (plain_body (rq_body (cs_requests s ! a)) \<longrightarrow> plain_body (rq_body rq))"
    and "\<And>s. hc_local_request (cs_conn (fst (m s))) = hc_local_request (cs_conn s)"
    and "\<And>s. hc_closed (cs_conn (fst (m s))) = hc_closed (cs_conn s)"
  shows "keeps (fed n) m"
  unfolding keeps_def
proof (intro allI impI)
  fix s :: "('p, 'c, 'w) cstate"
  assume s: "fed n s"
  from assms(1) [of s] obtain rq where rq: "cs_requests (fst (m s)) = (cs_requests s)[a := rq]"
    "plain_body (rq_body (cs_requests s ! a)) \<longrightarrow> plain_body (rq_body rq)" by blast
  from s have "list_all (\<lambda>rq. plain_body (rq_body rq)) ((cs_requests s)[a := rq])"
    by (intro list_all_update) (use rq(2) in \<open>auto simp: fed_def list_all_length\<close>)
  with s rq(1) assms(2,3) show "fed n (fst (m s))" by (simp add: fed_def)
qed

lemma fed_set_request: "(\<And>r. rq_body (f r) = rq_body r) \<Longrightarrow> keeps (fed n) (set_request a f)"
  by (rule keeps_fed_at [of _ a]) (auto simp: set_request_def change_def)

lemma fed_cancel_request [fed_rules]: "keeps (fed n) (cancel_request a reason)"
  unfolding cancel_request_def by (rule fed_set_request) simp

lemma fed_on_body:
  fixes g :: "body_stream \<Rightarrow> bheap \<Rightarrow> body_stream \<times> bheap \<times> 'r result"
  assumes "\<And>b h. plain_body b \<Longrightarrow> plain_body (fst (g b h))"
  shows "keeps (fed n) (on_body a g :: (('p, 'c, 'w) cstate, 'r) prog)"
proof (rule keeps_fed_at [of _ a])
  fix s :: "('p, 'c, 'w) cstate"
  show "\<exists>rq. cs_requests (fst (on_body a g s)) = (cs_requests s)[a := rq] \<and>
      (plain_body (rq_body (cs_requests s ! a)) \<longrightarrow> plain_body (rq_body rq))"
    using assms [of "rq_body (cs_requests s ! a)" "cs_body_heap s"]
    by (intro exI [of _ "(cs_requests s ! a)\<lparr>rq_body := fst (g (rq_body (cs_requests s ! a)) (cs_body_heap s))\<rparr>"])
      (simp add: on_body_def split: prod.split)
qed (simp_all add: on_body_def split: prod.split)

lemma body_cancel_plain_state: "plain_body b \<Longrightarrow> plain_body (fst (body_cancel b h))"
  by (metis body_cancel_plain fst_conv)

lemma fed_body [fed_rules]:
  "keeps (fed n) (on_body a body_cancel)" "keeps (fed n) (on_body a body_close)"
  "keeps (fed n) (on_body a (body_feed (Plain data)))" "keeps (fed n) (on_body a (\<lambda>b h. (body_finish b, h, Inr ())))"
  by (rule fed_on_body, simp add: body_cancel_plain_state body_close_plain body_feed_plain body_finish_plain)+

lemma fed_app [fed_rules]:
  assumes app: "plain_app env"
  shows "keeps (fed n) (dispatch env a)" "keeps (fed n) (proxy_head env a)"
proof -
  have one: "plain_body (rq_body (fst (ce_dispatch env rq w)))" "plain_body (rq_body (fst (ce_proxy_head env rq w)))"
    if "plain_body (rq_body rq)" for rq w
    using app that by (auto simp: plain_app_def)
  show "keeps (fed n) (dispatch env a)"
    by (rule keeps_fed_at [of _ a]) (simp_all add: dispatch_def split_beta, metis one(1))
  show "keeps (fed n) (proxy_head env a)"
    by (rule keeps_fed_at [of _ a]) (simp_all add: proxy_head_def split_beta, metis one(2))
qed

lemma fed_join [fed_rules]:
  assumes "plain_app env"
  shows "keeps (fed n) (join_child env th)"
proof -
  have "list_all (\<lambda>rq. plain_body (rq_body rq)) rqs \<Longrightarrow> ce_join env th rqs w = (rqs', w', r) \<Longrightarrow>
      length rqs' = length rqs \<and> list_all (\<lambda>rq. plain_body (rq_body rq)) rqs'" for rqs w rqs' w' r
    using assms unfolding plain_app_def by (metis fst_conv)
  then show ?thesis
    unfolding keeps_def fed_def join_child_def by (auto split: prod.splits)
qed

lemma fed_make_request:
  "triple (fed n) (make_request env head streaming deadline) (\<lambda>a s. n \<le> a \<and> fed (Suc a) s) (fed n)"
proof -
  have "request_body_stream (ce_config env) streaming = Inr b \<Longrightarrow> plain_body b" for b
    unfolding request_body_stream_def by (rule body_new_plain)
  moreover have "request_new m t v hs b ip sch cn len chk exp = Inr rq \<Longrightarrow> rq_body rq = b" for m t v hs b ip sch cn len chk exp rq
    by (auto simp: request_new_def rbind_def split: prod.splits sum.splits)
  ultimately show ?thesis
    by (auto simp: triple_def make_request_def reading_def andthen_def thenp_def lift_result_def change_def ret_def
        fed_def list_all_length nth_append less_Suc_eq split: sum.splits)
qed

section \<open>The operations\<close>

lemma fed_small [fed_rules]:
  "keeps (fed n) (metric name)" "keeps (fed n) (call_hook env h)" "keeps (fed n) (now_ms env)"
  "keeps (fed n) close_after_flush" "keeps (fed n) count_completed" "keeps (fed n) (check_last env)"
  "keeps (fed n) admit" "keeps (fed n) take_pending_local"
  unfolding metric_def call_hook_def now_ms_def close_after_flush_def count_completed_def check_last_def admit_def
  by (intro fed_rules prog_rules fed_upd; simp)+
    (auto simp: keeps_def fed_def take_pending_local_def upd_def change_def)

lemma fed_helpers [fed_rules]:
  "keeps I m \<Longrightarrow> keeps I (quiet m)" "keeps I u \<Longrightarrow> keeps I (attempt u)" "keeps I (raise_option e)"
  "(\<And>meth. keeps I (f meth)) \<Longrightarrow> keeps I (method_of a f)"
  unfolding quiet_def attempt_def raise_option_def method_of_def by (intro prog_rules; simp)+

lemma fed_queue_bytes [fed_rules]: "keeps (fed n) (queue_bytes env data)"
  unfolding queue_bytes_def by (intro fed_rules prog_rules fed_upd) simp_all

lemma fed_consume_output [fed_rules]: "keeps (fed n) (consume_output env count)"
  unfolding consume_output_def by (intro fed_rules prog_rules fed_upd) simp_all

lemma fed_replies [fed_rules]:
  "keeps (fed n) (take_output env limit)" "keeps (fed n) (send_reply env meth reply)"
  "keeps (fed n) (overflow_reply env meth)" "keeps (fed n) (begin_streaming_response env a r b)"
  unfolding take_output_def send_reply_def overflow_reply_def begin_streaming_response_def
  by (intro fed_rules prog_rules fed_upd; simp)+

lemma fed_abort [fed_rules]: "keeps (fed n) (abort_current_request reason)"
  unfolding abort_current_request_def
  by (intro fed_rules prog_rules fed_upd keeps_first_error)
    (auto intro: fed_rules keeps_ret split: if_splits)

lemma fed_signal [fed_rules]:
  "keeps (fed n) (signal_pending_local env reason)" "keeps (fed n) (signal_owner_shutdown env reason)"
  unfolding signal_pending_local_def signal_owner_shutdown_def
  by (intro fed_rules prog_rules keeps_first_error, auto intro: fed_rules split: option.splits if_splits)+

lemma fed_cancel_pending [fed_rules]:
  "keeps (fed n) (cancel_pending_proxy reason)" "keeps (fed n) (cancel_pending_stream reason)"
  unfolding cancel_pending_proxy_def cancel_pending_stream_def
  by (intro fed_rules prog_rules fed_upd keeps_first_error,
      auto simp: drop_stream_def intro: fed_rules keeps_ret split: if_splits)+

lemma fed_complete_streaming [fed_rules]: "keeps (fed n) (complete_streaming_response env)"
  unfolding complete_streaming_response_def
  by (intro fed_rules prog_rules fed_upd keeps_first_error)
    (auto simp: drop_stream_def intro: fed_rules keeps_ret split: if_splits)

lemma fed_streaming [fed_rules]:
  "keeps (fed n) (send_piece env k)" "keeps (fed n) (fail_stream reason)" 
  unfolding send_piece_def fail_stream_def Let_def by (intro fed_rules prog_rules fed_upd; simp)+

lemma fed_stream_next [fed_rules]: "keeps (fed n) (stream_next env available item)"
  unfolding stream_next_def by (cases item) (auto intro!: fed_rules prog_rules fed_upd)

lemma fed_drive_streaming [fed_rules]: "keeps (fed n) (drive_streaming_response env)"
  unfolding drive_streaming_response_def Let_def by (intro fed_rules prog_rules)

lemma fed_mono: "fed n s \<Longrightarrow> m \<le> n \<Longrightarrow> fed m s"
  by (simp add: fed_def)

lemma fed_give_to_child:
  "keeps (fed (Suc a)) (upd (\<lambda>c. c\<lparr>hc_local_request := Some a, hc_local_thread := Some child, hc_admitted := False\<rparr>))"
  by (auto simp: keeps_def upd_def change_def fed_def)

text \<open>What follows \<open>make_request\<close> may use the address.\<close>

lemma fed_after_make:
  assumes "\<And>a. keeps (fed (Suc a)) (k a)"
  shows "keeps (fed n) (andthen (make_request env head streaming deadline) k)"
  unfolding keeps_triple
  by (rule triple_andthen [OF fed_make_request], rule triple_pre_fact,
      rule triple_conseq [OF triple_keeps [OF assms]]) (auto elim: fed_mono)

lemma fed_begin_request [fed_rules]: "plain_app env \<Longrightarrow> keeps (fed n) (begin_request env head)"
  unfolding begin_request_def Let_def
  by (intro fed_after_make fed_rules prog_rules) (rule fed_give_to_child | rule fed_upd, simp, simp | assumption)+

lemma fed_deadline [fed_rules]: "keeps (fed n) (deadline_passed env a)" "keeps (fed n) (timeout_reply env a)"
  unfolding deadline_passed_def timeout_reply_def by (intro fed_rules prog_rules)+

lemma fed_choose [fed_rules]: "plain_app env \<Longrightarrow> keeps (fed n) (choose_reply env a b)"
proof -
  assume app: "plain_app env"
  have "keeps (fed n) (case reply of
      PlanReply p \<Rightarrow> if t then thenp (upd (\<lambda>c. c\<lparr>hc_pending_proxy := Some p, hc_proxy_request := Some a\<rparr>)) (ret None)
        else andthen (deadline_passed env a) (\<lambda>late. if late then timeout_reply env a else ret (Some q))
    | _ \<Rightarrow> andthen (deadline_passed env a) (\<lambda>late. if late then timeout_reply env a else ret (Some reply)))" for reply t q
    by (cases reply) (auto intro!: fed_rules prog_rules fed_upd)
  then show ?thesis
    unfolding choose_reply_def Let_def by (intro fed_rules prog_rules app)
qed

lemma fed_publish [fed_rules]: "keeps (fed n) (publish_reply env a b reply)"
  unfolding publish_reply_def Let_def
  by (cases reply) (auto intro!: fed_rules prog_rules)

lemma fed_finish_request [fed_rules]: "plain_app env \<Longrightarrow> keeps (fed n) (conn_finish_request env)"
  unfolding conn_finish_request_def release_unless_pending_def
  by (intro fed_rules prog_rules fed_upd) simp_all

lemma fed_handle [fed_rules]: "plain_app env \<Longrightarrow> keeps (fed n) (handle_http_event env event)"
  unfolding handle_http_event_def
  by (cases event) (auto intro!: fed_rules prog_rules fed_set_request)

lemma fed_release_events [fed_rules]:
  "keeps (fed n) (release_event q event)" "keeps (fed n) (release_event_suffix events q)"
proof -
  show "keeps (fed n) (release_event q event)" for event
    unfolding release_event_def by (cases event) (auto intro: fed_rules prog_rules)
  then show "keeps (fed n) (release_event_suffix events q)"
    unfolding release_event_suffix_def by (intro keeps_first_error) auto
qed

lemma fed_discard [fed_rules]:
  "keeps (fed n) discard_deferred_events" "keeps (fed n) (defer_event event)"
  "keeps (fed n) m \<Longrightarrow> keeps (fed n) (or_release rest q m)" "keeps (fed n) (start_header_deadline env)"
  unfolding discard_deferred_events_def defer_event_def or_release_def start_header_deadline_def
  by (intro fed_rules prog_rules fed_upd; simp)+

lemma fed_fail_http [fed_rules]: "keeps (fed n) (fail_http env e)"
  unfolding fail_http_def by (cases e) (auto intro!: fed_rules prog_rules)

lemma fed_feed_event [fed_rules]: "plain_app env \<Longrightarrow> keeps (fed n) (feed_event env event rest)"
  unfolding feed_event_def
  by (intro fed_rules prog_rules; cases event; auto intro: fed_rules prog_rules)

lemma fed_feed_events [fed_rules]: "plain_app env \<Longrightarrow> keeps (fed n) (feed_events env events handled)"
  by (induction env events handled rule: feed_events.induct) (auto intro!: fed_rules prog_rules)

lemma fed_feed_data [fed_rules]: "plain_app env \<Longrightarrow> keeps (fed n) (feed_data env data max_messages)"
  unfolding feed_data_def by (intro fed_rules prog_rules)

lemma fed_resume_events [fed_rules]: "plain_app env \<Longrightarrow> keeps (fed n) (resume_events env events)"
proof (induction env events rule: resume_events.induct)
  case (2 env event rest)
  then show ?case
    unfolding resume_events.simps resume_event_def by (intro fed_rules prog_rules) auto
qed (simp add: keeps_ret)

lemma fed_resume [fed_rules]: "plain_app env \<Longrightarrow> keeps (fed n) (resume_deferred_events env)"
  unfolding resume_deferred_events_def by (intro fed_rules prog_rules fed_upd) simp_all

lemma fed_consume_body [fed_rules]: "plain_app env \<Longrightarrow> keeps (fed n) (consume_body_events env a events completed)"
proof (induction events arbitrary: completed)
  case (Cons event rest)
  then show ?case
    unfolding consume_body_events.simps by (intro fed_rules prog_rules fed_upd) auto
qed (simp add: keeps_ret)

lemma fed_consume_pending [fed_rules]: "plain_app env \<Longrightarrow> keeps (fed n) (consume_pending_body_events env a)"
  unfolding consume_pending_body_events_def by (intro fed_rules prog_rules fed_upd) simp_all

lemma fed_child_reply [fed_rules]: "plain_app env \<Longrightarrow> keeps (fed n) (child_reply env th wanted)"
  unfolding child_reply_def by (intro fed_rules prog_rules)

lemma fed_settle_body [fed_rules]: "keeps (fed n) (settle_body a)"
  unfolding settle_body_def by (intro fed_rules prog_rules fed_upd) simp_all

lemma fed_complete_local [fed_rules]: "keeps (fed n) (complete_local_handler_response env a reply)"
proof -
  have "keeps (fed n) (case reply' of
        StreamReply r \<Rightarrow> if \<not> without_body (rs_status r) \<and> meth \<noteq> cp ''HEAD''
          then thenp (begin_streaming_response env a r True) (ret True)
          else thenp (send_reply env meth reply') (thenp (call_hook env (RequestFinished a)) (ret False))
      | _ \<Rightarrow> thenp (send_reply env meth reply') (thenp (call_hook env (RequestFinished a)) (ret False)))" for meth reply'
    by (cases reply') (auto intro!: fed_rules prog_rules)
  then show ?thesis
    unfolding complete_local_handler_response_def Let_def by (intro fed_rules prog_rules) (auto intro: fed_rules)
qed

lemma fed_drive_local [fed_rules]: "plain_app env \<Longrightarrow> keeps (fed n) (drive_pending_local env)"
  unfolding drive_pending_local_def Let_def by (intro fed_rules prog_rules) (auto intro: fed_rules)

lemma fed_cancel_and_join [fed_rules]:
  assumes app: "plain_app env"
  shows "keeps (fed n) (cancel_and_join_pending_local env reason)"
proof -
  have "keeps (fed n) (catching (thenp (join_child env th) (ret ())) (\<lambda>e. reading (\<lambda>s. if P s then ret () else throw e)))" for th P
    by (intro fed_rules prog_rules app)
  moreover have "keeps (fed n) (conn_of (\<lambda>c. if hc_current c = Some a
      then upd (\<lambda>c. c\<lparr>hc_current := None, hc_admitted := False\<rparr>) else ret ()))" for a
    by (intro fed_rules prog_rules fed_upd) simp_all
  ultimately show ?thesis
    unfolding cancel_and_join_pending_local_def
    by (intro fed_rules prog_rules keeps_first_error) (auto intro: fed_rules)
qed

lemma fed_timeouts [fed_rules]:
  "keeps (fed n) (deadline_timeout env phase)" "keeps (fed n) (input_eof env)" "keeps (fed n) conn_begin_drain"
  unfolding deadline_timeout_def input_eof_def conn_begin_drain_def by (intro fed_rules prog_rules fed_upd; simp)+

lemma fed_write_some [fed_rules]: "keeps (fed n) (write_some env data)"
proof -
  have "keeps (fed n) (case tr_status r of
           TlsOk \<Rightarrow> ret (SOCKET_PROGRESS, tr_count r)
         | TlsWantRead \<Rightarrow> thenp (upd (\<lambda>c. c\<lparr>hc_wait_read := tr_wait_read r\<rparr>)) (ret (SOCKET_WOULD_BLOCK, 0))
         | TlsWantWrite \<Rightarrow> thenp (upd (\<lambda>c. c\<lparr>hc_wait_read := tr_wait_read r\<rparr>)) (ret (SOCKET_WOULD_BLOCK, 0))
         | TlsClosed \<Rightarrow> throw e
         | TlsFailed \<Rightarrow> throw e')" for r e e'
    by (cases "tr_status r") (auto intro!: prog_rules fed_upd)
  then show ?thesis
    unfolding write_some_def by (intro fed_rules prog_rules fed_upd) simp_all
qed

lemma fed_flush [fed_rules]: "keeps (fed n) (flush_transport env)"
  unfolding flush_transport_def by (intro fed_rules prog_rules fed_upd) simp_all

lemma fed_read [fed_rules]: "keeps (fed n) (read_transport env limit)"
proof -
  have "keeps (fed n) (case tr_status r of
           TlsOk \<Rightarrow> thenp (upd (\<lambda>c. c\<lparr>hc_wait_read := True\<rparr>)) (ret (SOCKET_PROGRESS, take (nat (tr_count r)) data))
         | TlsWantRead \<Rightarrow> thenp (upd (\<lambda>c. c\<lparr>hc_wait_read := tr_wait_read r\<rparr>)) (ret (SOCKET_WOULD_BLOCK, []))
         | TlsWantWrite \<Rightarrow> thenp (upd (\<lambda>c. c\<lparr>hc_wait_read := tr_wait_read r\<rparr>)) (ret (SOCKET_WOULD_BLOCK, []))
         | TlsClosed \<Rightarrow> ret (SOCKET_EOF, [])
         | TlsFailed \<Rightarrow> throw e)" for r data e
    by (cases "tr_status r") (auto intro!: prog_rules fed_upd)
  then show ?thesis
    unfolding read_transport_def by (intro fed_rules prog_rules fed_upd) simp_all
qed

end
