(* ===== verification/Conn_Close.thy ===== *)
theory Conn_Close
  imports Conn_Loop Conn_Bodies
begin

text \<open>
  The ledger through the local handler child and its settlement, the transport edges, and the steps
  of the teardown that leave the output buffer alone.
\<close>

section \<open>The body of a pending request\<close>

text \<open>Assertions that the end of the parser's request and the deferred events do not touch.\<close>

definition stable :: "(stake \<Rightarrow> bool) \<Rightarrow> bool" where
  "stable A \<longleftrightarrow> (\<forall>x. A x \<longrightarrow> busy x \<and> A (no_current x) \<and> (\<forall>es. A (x\<lparr>sk_deferred := es\<rparr>)))"

lemma stable_local: "stable (\<lambda>x. sk_local x = Some a)"
  by (auto simp: stable_def busy_def)

lemma keep_rest_step:
  assumes "stable A"
  shows "triple (led d 0 (heads rest) (bodies rest) 0 A) (upd (\<lambda>c. c\<lparr>hc_deferred := hc_deferred c @ rest\<rparr>))
    (\<lambda>_. led d 0 0 0 0 A) E"
  by (rule stake_step [where g = "\<lambda>x. x\<lparr>sk_deferred := sk_deferred x @ rest\<rparr>"])
    (use assms in \<open>auto simp: stable_def stake_deferred deferred_ok\<close>)

lemma consume_body_events_step:
  assumes "stable A"
  shows "leads (led d 0 (heads events) (bodies events) 0 A) (consume_body_events env a events completed) (led d 0 0 0 0 A)"
  unfolding leads_triple
proof (induction events arbitrary: completed)
  case Nil
  then show ?case by (simp add: triple_ret)
next
  case (Cons event rest)
  let ?P = "led d 0 (heads (event # rest)) (bodies (event # rest)) 0 A" and ?N = "led d 0 (heads rest) (bodies rest) 0 A"
  have handled: "triple ?P (handle_http_event env event) (\<lambda>_. ?N) ?N" if "\<not> is_head event"
    using handle_pending_step [OF that, of A d "heads rest" "bodies rest" env] assms that
    by (simp add: stable_def leads_triple add.commute)
  have deferred: "triple ?P (defer_event event) (\<lambda>_. ?N) E" for E
    by (rule defer_step) (use assms in \<open>auto simp: stable_def\<close>)
  show ?case
    unfolding consume_body_events.simps
    by (rule triple_if, rule triple_thenp [OF triple_catching [OF handled
          triple_thenp [OF keep_rest_step [OF assms] triple_throw]] conn_any [OF Cons.IH]], simp, assumption,
        rule triple_thenp [OF deferred Cons.IH])
qed

lemma consume_pending_step:
  assumes "stable A"
  shows "keeps (led d 0 0 0 0 A) (consume_pending_body_events env a)"
  unfolding keeps_triple consume_pending_body_events_def
proof (rule conn_step)
  fix c :: "'p gateway_connection"
  assume c: "A (stake_of c)"
  have "triple (led d 0 0 0 0 (\<lambda>x. x = stake_of c)) (upd (\<lambda>c. c\<lparr>hc_deferred := []\<rparr>))
      (\<lambda>_. led d 0 (heads (hc_deferred c)) (bodies (hc_deferred c)) 0 A) (led d 0 0 0 0 A)"
    by (rule stake_step [where g = "\<lambda>x. x\<lparr>sk_deferred := []\<rparr>"])
      (use assms c in \<open>auto simp: stable_def stake_deferred deferred_ok\<close>)
  then show "triple (led d 0 0 0 0 (\<lambda>x. x = stake_of c)) (thenp (upd (\<lambda>c. c\<lparr>hc_deferred := []\<rparr>))
      (consume_body_events env a (hc_deferred c) (hc_current c \<noteq> Some a))) (\<lambda>_. led d 0 0 0 0 A) (led d 0 0 0 0 A)"
    by (rule triple_thenp) (rule consume_body_events_step [OF assms, unfolded leads_triple])
qed

section \<open>The local handler child\<close>

lemma cleanup_step:
  "leads (led d 1 kq kv kb A) (first_error [life release_request, on_body a body_close]) (led d 0 kq kv kb A)"
  by (intro leads_first_error(2) [OF release_now] leads_skip neutral leads_first_error(1))

lemma complete_local_step:
  "leads (in_hand d 0 0 True) (complete_local_handler_response env a reply) (settled d)"
proof -
  let ?I = "in_hand d 0 0 True"
  let ?cleanup = "first_error [life release_request, on_body a body_close]"
  have cleanup: "leads ?I ?cleanup (settled d)"
    unfolding in_hand_def by (rule leads_conseq [OF cleanup_step]) (auto elim: led_weaken)
  have fixed: "triple ?I (case reply' of
        StreamReply r \<Rightarrow> if \<not> without_body (rs_status r) \<and> meth \<noteq> cp ''HEAD''
          then thenp (begin_streaming_response env a r True) (ret True)
          else thenp (send_reply env meth reply') (thenp (call_hook env (RequestFinished a)) (ret False))
      | _ \<Rightarrow> thenp (send_reply env meth reply') (thenp (call_hook env (RequestFinished a)) (ret False)))
      (outcome d 0 0 True) ?I" for meth reply'
    by (cases reply') (auto intro: stream_outcome_step send_outcome_step)
  have "keeps ?I (overflow_reply env meth)" for meth
    by (rule in_hand_neutral) (rule neutral, simp)
  then have overflow: "triple ?I (if is_buffer_limit e then thenp (overflow_reply env meth) (ret False) else throw e)
      (outcome d 0 0 True) ?I" for e meth
    by (auto intro!: triple_first' triple_ret triple_throw simp: outcome_def)
  note failed = triple_thenp [OF leads_quiet [OF cleanup] triple_throw]
  have last: "triple (settled d) (thenp count_completed (check_last env)) (\<lambda>_. settled d) (settled d)"
    unfolding keeps_triple [symmetric] by (intro neutral prog_rules)
  have tail: "triple (outcome d 0 0 True t) (if t then ret () else thenp ?cleanup (thenp count_completed (check_last env)))
      (\<lambda>_. settled d) (settled d)" for t
    using triple_thenp [OF cleanup [unfolded leads_triple] last]
    by (cases t) (auto simp: outcome_def handed_def intro!: triple_ret elim: led_weaken)
  show ?thesis
    unfolding leads_triple complete_local_handler_response_def Let_def
    by (rule method_step, rule triple_andthen [OF triple_catching [OF triple_catching [OF fixed overflow] failed] tail]) simp
qed

lemma no_local_step:
  assumes "\<And>x. owners x \<Longrightarrow> A x \<Longrightarrow> B (no_local x) \<and> sk_local x \<noteq> None"
  shows "triple (led d 0 kq kv kb A) take_pending_local (\<lambda>_. led d 1 kq kv kb B) E"
  unfolding take_pending_local_def
proof (rule stake_step [where g = "\<lambda>x. no_local x"], rule no_pending_stakes, simp)
  fix x assume x: "owners x" "A x"
  with assms [OF this] no_pending_ok(3,4) [of x]
  show "owners (no_local x) \<and> B (no_local x) \<and> own x + 0 = own (no_local x) + 1 \<and>
     heads (sk_deferred x) + kq = heads (sk_deferred (no_local x)) + kq \<and>
     bodies (sk_deferred x) + kv = bodies (sk_deferred (no_local x)) + kv"
    by simp
qed

text \<open>Both invariants at once.\<close>

lemma keeps_conj: "keeps P m \<Longrightarrow> keeps Q m \<Longrightarrow> keeps (\<lambda>s. P s \<and> Q s) m"
  by (simp add: keeps_def)

lemma triple_conj: "triple P m Q E \<Longrightarrow> keeps I m \<Longrightarrow> triple (\<lambda>s. P s \<and> I s) m (\<lambda>x s. Q x s \<and> I s) E"
  by (fastforce simp: triple_def keeps_def split: prod.splits sum.splits)

lemma conn_read: "(\<And>c. triple (\<lambda>s. P s \<and> cs_conn s = c) (f c) Q E) \<Longrightarrow> triple P (conn_of f) Q E"
  by (auto simp: triple_def conn_of_def reading_def)

lemma cancel_body_total:
  "triple (\<lambda>s. led d kr kq kv kb A s \<and> fed (Suc a) s) (on_body a body_cancel) (\<lambda>_. led d kr kq kv kb A) E"
  unfolding triple_def
proof (intro allI impI)
  fix s :: "('a, 'b, 'c) cstate"
  assume s: "led d kr kq kv kb A s \<and> fed (Suc a) s"
  then have "plain_body (rq_body (cs_requests s ! a))" by (simp add: fed_def list_all_length)
  from body_cancel_plain [OF this, of "cs_body_heap s"] s
  show "case on_body a body_cancel s of (s', Inl e) \<Rightarrow> E s' | (s', Inr x) \<Rightarrow> led d kr kq kv kb A s'"
    by (auto simp: on_body_def elim!: led_same)
qed

text \<open>The child is gone and its admission is in hand; the parser may still hold its request.\<close>

definition childless :: "nat \<Rightarrow> stake \<Rightarrow> bool" where
  "childless a x \<longleftrightarrow> (sk_current x = None \<or> sk_current x = Some a) \<and> \<not> sk_admitted x \<and> \<not> busy x"

lemma settle_body_step:
  "triple (\<lambda>s. led d 1 0 0 0 (childless a) s \<and> fed (Suc a) s) (settle_body a) (\<lambda>_. in_hand d 0 0 True) E"
proof -
  let ?L = "led d 1 0 0 0"
  have drop: "triple (\<lambda>s. ?L (childless a) s \<and> fed (Suc a) s) (upd (\<lambda>c. c\<lparr>hc_current := None, hc_admitted := False\<rparr>))
      (\<lambda>_ s. ?L vacant s \<and> fed (Suc a) s) E"
    by (rule triple_conj [OF no_current_step [where b = False]])
      (auto simp: childless_def vacant_def busy_def intro: fed_upd)
  have cancel: "triple (\<lambda>s. ?L vacant s \<and> fed (Suc a) s) (cancel_request a r) (\<lambda>_ s. ?L vacant s \<and> fed (Suc a) s) E" for r
    using keeps_conj [OF cancel_request_neutral fed_cancel_request, of d 1 0 0 0 vacant "Suc a" a r]
    by (simp add: keeps_def triple_def cancel_request_def set_request_def change_def)
  note stop = triple_thenp [OF cancel triple_thenp [OF cancel_body_total silent_steps(1)]]
  have kept: "triple (\<lambda>s. ?L vacant s \<and> fed (Suc a) s) (ret ()) (\<lambda>_. ?L vacant) E"
    by (rule triple_ret) simp
  have "triple (\<lambda>s. (?L (childless a) s \<and> fed (Suc a) s) \<and> s = s0)
     (if hc_current (cs_conn s0) = Some a then
       thenp (upd (\<lambda>c. c\<lparr>hc_current := None, hc_admitted := False\<rparr>))
         (if \<not> bs_ended (rq_body (cs_requests s0 ! a))
          then thenp (cancel_request a ''handler completed before body end'')
            (thenp (on_body a body_cancel) close_after_flush)
          else ret ())
      else ret ()) (\<lambda>_. ?L vacant) E" for s0
  proof (rule triple_if)
    show "triple (\<lambda>s. (?L (childless a) s \<and> fed (Suc a) s) \<and> s = s0)
      (thenp (upd (\<lambda>c. c\<lparr>hc_current := None, hc_admitted := False\<rparr>))
         (if \<not> bs_ended (rq_body (cs_requests s0 ! a))
          then thenp (cancel_request a ''handler completed before body end'')
            (thenp (on_body a body_cancel) close_after_flush)
          else ret ())) (\<lambda>_. ?L vacant) E"
      by (rule triple_conseq [OF triple_thenp [OF drop triple_if [OF stop kept]]]) simp_all
    show "triple (\<lambda>s. (?L (childless a) s \<and> fed (Suc a) s) \<and> s = s0) (ret ()) (\<lambda>_. ?L vacant) E"
      if "hc_current (cs_conn s0) \<noteq> Some a"
      using that by (intro triple_ret) (auto simp: led_def Let_def childless_def vacant_def)
  qed
  then show ?thesis
    unfolding settle_body_def in_hand_def of_bool_eq(2) by (rule triple_reading)
qed

lemma child_reply_neutral [neutral]: "keeps (led d kr kq kv kb A) (child_reply env th wanted)"
  unfolding child_reply_def by (intro neutral prog_rules)

text \<open>The pending child of request \<open>a\<close>.\<close>

definition waiting :: "amounts \<Rightarrow> nat \<Rightarrow> ('p, 'c, 'w) cstate \<Rightarrow> bool" where
  "waiting d a s \<longleftrightarrow> led d 0 0 0 0 (\<lambda>x. sk_local x = Some a) s \<and> fed (Suc a) s"

lemma waiting_keeps:
  "keeps (led d 0 0 0 0 (\<lambda>x. sk_local x = Some a)) m \<Longrightarrow> keeps (fed (Suc a)) m \<Longrightarrow> keeps (waiting d a) m"
  by (simp add: keeps_def waiting_def)

lemma waiting_settled: "waiting d a s \<Longrightarrow> settled d s"
  unfolding waiting_def by (elim conjE led_weaken) simp

lemma waiting_start:
  "settled d s \<Longrightarrow> fed n s \<Longrightarrow> cs_conn s = c \<Longrightarrow> hc_local_request c = Some a \<Longrightarrow> waiting d a s"
  by (auto simp: waiting_def led_def Let_def fed_def)

lemma take_child_step:
  "triple (waiting d a) take_pending_local (\<lambda>_ s. led d 1 0 0 0 (childless a) s \<and> fed (Suc a) s) E"
proof -
  have "triple (led d 0 0 0 0 (\<lambda>x. sk_local x = Some a)) take_pending_local (\<lambda>_. led d 1 0 0 0 (childless a)) E"
    by (rule no_local_step) (auto simp: owners_def busy_def childless_def)
  from triple_conj [OF this fed_small(8)] show ?thesis
    unfolding waiting_def .
qed

lemma finish_child_step:
  "triple (in_hand d 0 0 True)
     (if cancelled then thenp (first_error [life release_request, on_body a body_close]) (ret True)
      else thenp (complete_local_handler_response env a reply) (ret True)) (\<lambda>_. settled d) (settled d)"
proof -
  have "leads (in_hand d 0 0 True) (first_error [life release_request, on_body a body_close]) (settled d)"
    unfolding in_hand_def by (rule leads_conseq [OF cleanup_step]) (auto elim: led_weaken)
  with complete_local_step show ?thesis
    unfolding leads_triple by (auto intro!: triple_thenp triple_ret)
qed

lemma drive_local_step:
  assumes app: "plain_app env"
  shows "leads (\<lambda>s. settled d s \<and> fed n s) (drive_pending_local env) (settled d)"
proof -
  have reply: "triple (waiting d a) (andthen (child_reply env th wanted) (\<lambda>reply.
     thenp take_pending_local (thenp (settle_body a)
       (if cancelled then thenp (first_error [life release_request, on_body a body_close]) (ret True)
        else thenp (complete_local_handler_response env a reply) (ret True))))) (\<lambda>_. settled d) (settled d)"
    for a th wanted cancelled
    by (rule triple_first [OF waiting_keeps [OF child_reply_neutral fed_child_reply [OF app]]
          triple_thenp [OF take_child_step triple_thenp [OF settle_body_step finish_child_step]] waiting_settled])
  have stop: "triple (waiting d a) (thenp (if b then outside g else ret ()) m) (\<lambda>_. settled d) (settled d)"
    if "triple (waiting d a) m (\<lambda>_. settled d) (settled d)" for a b g m
    by (rule triple_first' [OF _ that waiting_settled]) (auto intro!: waiting_keeps neutral fed_rules prog_rules)
  have rest: "triple (waiting d a) (reading (\<lambda>s.
               let outcome = ce_outcome env th (cs_world s);
                   rq = cs_requests s ! a;
                   cancelled = cn_cancelled (rq_cancellation rq)
               in if outcome = OUTCOME_PENDING \<and> \<not> producer_finished (rq_body rq) then ret False
                  else
                    thenp (if cancelled \<and> outcome = OUTCOME_PENDING then outside (ce_cancel_thread env th) else ret ())
                    (andthen (child_reply env th
                       (outcome = OUTCOME_RETURNED \<or> outcome = OUTCOME_PENDING \<and> \<not> cancelled)) (\<lambda>reply.
                     thenp take_pending_local
                     (thenp (settle_body a)
                     (if cancelled
                      then thenp (first_error [life release_request, on_body a body_close]) (ret True)
                      else thenp (complete_local_handler_response env a reply) (ret True))))))) (\<lambda>_. settled d) (settled d)" for a th
    unfolding Let_def
    by (rule triple_reading, rule triple_conseq [where P = "waiting d a"], rule triple_if,
        rule triple_ret, erule waiting_settled, rule stop [OF reply]) simp_all
  have consume: "triple (waiting d a) (thenp (consume_pending_body_events env a) m) (\<lambda>_. settled d) (settled d)"
    if "triple (waiting d a) m (\<lambda>_. settled d) (settled d)" for a m
    by (rule triple_first' [OF _ that waiting_settled])
      (intro waiting_keeps consume_pending_step stable_local fed_consume_pending app)
  show ?thesis
    unfolding leads_triple drive_pending_local_def
    by (rule conn_read, rule triple_option, rule triple_ret, simp, rule triple_option, rule triple_ret, simp,
        rule triple_conseq [OF consume [OF rest]]) (auto intro: waiting_start)
qed

section \<open>The owner's settlement\<close>

lemma cancel_and_join_step:
  assumes B: "\<And>x. owners x \<Longrightarrow> A x \<Longrightarrow> B (no_local x) \<and> (\<forall>a. sk_local x = Some a \<longrightarrow> B (no_current (no_local x)))"
  shows "leads (led d 0 kq kv kb A) (cancel_and_join_pending_local env reason)
    (led d 0 kq kv kb (\<lambda>x. sk_local x = None \<and> B x))" (is "leads _ _ ?Q")
  unfolding leads_triple cancel_and_join_pending_local_def
proof (rule conn_step, rule triple_option)
  fix c :: "'p gateway_connection"
  assume c: "owners (stake_of c)" "A (stake_of c)" "hc_local_request c = None"
  with B [of "stake_of c"] have "B (stake_of c)" by (simp add: no_pending_same)
  then show "triple (led d 0 kq kv kb (\<lambda>x. x = stake_of c)) (ret ()) (\<lambda>_. ?Q) ?Q"
    using c(3) by (auto intro!: triple_ret elim!: led_weaken)
next
  fix c :: "'p gateway_connection" and a
  assume c: "owners (stake_of c)" "A (stake_of c)" "hc_local_request c = Some a"
  let ?P = "led d 0 kq kv kb (\<lambda>x. x = stake_of c)"
  let ?C = "\<lambda>x. sk_local x = None \<and> \<not> sk_admitted x \<and> B x \<and> B (no_current x)"
  have take: "leads ?P take_pending_local (led d 1 kq kv kb ?C)"
    unfolding leads_triple by (rule no_local_step) (use c B [OF c(1,2)] in \<open>auto simp: owners_def busy_def\<close>)
  have clear: "leads (led d 1 kq kv kb ?C) (conn_of (\<lambda>c. if hc_current c = Some a
      then upd (\<lambda>c. c\<lparr>hc_current := None, hc_admitted := False\<rparr>) else ret ())) (led d 1 kq kv kb (\<lambda>x. sk_local x = None \<and> B x))"
    unfolding leads_triple
    by (rule conn_any, rule triple_if, rule no_current_step [where b = False])
      (auto intro!: triple_ret elim: led_weaken)
  have join: "keeps ?P (catching (thenp (join_child env th) (ret ())) (\<lambda>e. reading (\<lambda>s.
      if ce_outcome env th (cs_world s) \<in> {OUTCOME_CANCELLED, OUTCOME_RAISED} then ret () else throw e)))" for th
    by (intro neutral prog_rules)
  show "triple ?P (case hc_local_thread c of None \<Rightarrow> ret ()
     | Some th \<Rightarrow> first_error
               [signal_pending_local env reason,
                catching (thenp (join_child env th) (ret ())) (\<lambda>e. reading (\<lambda>s.
                  if ce_outcome env th (cs_world s) \<in> {OUTCOME_CANCELLED, OUTCOME_RAISED} then ret () else throw e)),
                take_pending_local,
                conn_of (\<lambda>c. if hc_current c = Some a
                  then upd (\<lambda>c. c\<lparr>hc_current := None, hc_admitted := False\<rparr>) else ret ()),
                life release_request,
                on_body a body_close]) (\<lambda>_. ?Q) ?Q"
    by (rule triple_option, use c(1,3) in \<open>simp add: owners_def\<close>,
        rule leads_skip [OF signal_local_neutral leads_skip [OF join
          leads_first_error(2) [OF take leads_first_error(2) [OF clear cleanup_step]]], unfolded leads_triple])
qed

section \<open>The transport\<close>

lemma write_some_neutral [neutral]: "keeps (led d kr kq kv kb A) (write_some env data)"
proof -
  have wait: "keeps (led d kr kq kv kb A) (upd (\<lambda>c. c\<lparr>hc_wait_read := b\<rparr>))"
    "keeps (led d kr kq kv kb A) (upd (\<lambda>c. c\<lparr>hc_write_deadline := t\<rparr>))" for b t
    by (rule upd_neutral, simp_all add: stake_of_def)+
  have "keeps (led d kr kq kv kb A) (case tr_status r of
           TlsOk \<Rightarrow> ret (SOCKET_PROGRESS, tr_count r)
         | TlsWantRead \<Rightarrow> thenp (upd (\<lambda>c. c\<lparr>hc_wait_read := tr_wait_read r\<rparr>)) (ret (SOCKET_WOULD_BLOCK, 0))
         | TlsWantWrite \<Rightarrow> thenp (upd (\<lambda>c. c\<lparr>hc_wait_read := tr_wait_read r\<rparr>)) (ret (SOCKET_WOULD_BLOCK, 0))
         | TlsClosed \<Rightarrow> throw e
         | TlsFailed \<Rightarrow> throw e')" for r e e'
    by (cases "tr_status r") (auto intro!: prog_rules wait)
  then show ?thesis
    unfolding write_some_def by (intro neutral prog_rules wait)
qed

lemma flush_settled: "keeps (settled d) (flush_transport env)"
  unfolding flush_transport_def
  by (intro neutral prog_rules deadline_timeout_settled upd_neutral) (simp_all add: stake_of_def)

lemma read_neutral [neutral]: "keeps (led d kr kq kv kb A) (read_transport env limit)"
proof -
  have wait: "keeps (led d kr kq kv kb A) (upd (\<lambda>c. c\<lparr>hc_wait_read := b\<rparr>))" for b
    by (rule upd_neutral, simp_all add: stake_of_def)+
  have "keeps (led d kr kq kv kb A) (case tr_status r of
           TlsOk \<Rightarrow> thenp (upd (\<lambda>c. c\<lparr>hc_wait_read := True\<rparr>)) (ret (SOCKET_PROGRESS, take (nat (tr_count r)) data))
         | TlsWantRead \<Rightarrow> thenp (upd (\<lambda>c. c\<lparr>hc_wait_read := tr_wait_read r\<rparr>)) (ret (SOCKET_WOULD_BLOCK, []))
         | TlsWantWrite \<Rightarrow> thenp (upd (\<lambda>c. c\<lparr>hc_wait_read := tr_wait_read r\<rparr>)) (ret (SOCKET_WOULD_BLOCK, []))
         | TlsClosed \<Rightarrow> ret (SOCKET_EOF, [])
         | TlsFailed \<Rightarrow> throw e)" for r data e
    by (cases "tr_status r") (auto intro!: prog_rules wait)
  then show ?thesis
    unfolding read_transport_def by (intro neutral prog_rules wait)
qed

lemma begin_drain_neutral [neutral]: "keeps (led d kr kq kv kb A) conn_begin_drain"
  unfolding conn_begin_drain_def by (intro neutral prog_rules)

section \<open>Closing\<close>

text \<open>Steps that leave the output buffer alone.\<close>

definition on_output :: "(channel \<Rightarrow> bool) \<Rightarrow> ('p, 'c, 'w) cstate \<Rightarrow> bool" where
  "on_output P s = P (hc_output (cs_conn s))"

named_theorems output_rules

lemma keeps_output: "(\<And>s. hc_output (cs_conn (fst (m s))) = hc_output (cs_conn s)) \<Longrightarrow> keeps (on_output P) m"
  by (simp add: keeps_def on_output_def)

lemma output_atoms [output_rules]:
  "keeps (on_output P) (outside g)" "keeps (on_output P) (life f)" "keeps (on_output P) (cancel_request a reason)"
  "keeps (on_output P) (on_body a h)" "keeps (on_output P) release_view"
  by (rule keeps_output; simp add: outside_def life_def cancel_request_def set_request_def change_def on_body_def
      release_view_def split: prod.split)+

lemma output_upd: "(\<And>c. hc_output (f c) = hc_output c) \<Longrightarrow> keeps (on_output P) (upd f)"
  by (rule keeps_output) (simp add: upd_def change_def)

lemma output_conn [output_rules]: "(\<And>c. keeps I (f c)) \<Longrightarrow> keeps I (conn_of f)"
  unfolding conn_of_def by (rule keeps_reading)

lemma output_abandon [output_rules]:
  "keeps (on_output P) (abort_current_request reason)" "keeps (on_output P) (signal_pending_local env reason)"
  "keeps (on_output P) (cancel_pending_proxy reason)" "keeps (on_output P) (cancel_pending_stream reason)"
  unfolding abort_current_request_def signal_pending_local_def cancel_pending_proxy_def cancel_pending_stream_def
  by (intro output_rules prog_rules output_upd;
      auto simp: drop_stream_def intro: output_rules keeps_ret split: if_splits)+

lemma output_release_event [output_rules]: "keeps (on_output P) (release_event q event)"
  unfolding release_event_def by (cases event) (auto intro: output_rules prog_rules)

end
