(* ===== verification/Conn_Session.thy ===== *)
theory Conn_Session
  imports Conn_Close
begin

text \<open>
  The teardown of a connection, and whole sessions: every sequence of operations keeps the ledger,
  and the owner's settlement followed by the teardown gives everything back.
\<close>

section \<open>The teardown\<close>

lemma leads_conj: "leads P m Q \<Longrightarrow> keeps I m \<Longrightarrow> leads (\<lambda>s. P s \<and> I s) m (\<lambda>s. Q s \<and> I s)"
  by (simp add: leads_def keeps_def)

lemma leads_keeps: "leads (\<lambda>s. P s \<and> I s) m P \<Longrightarrow> keeps I m \<Longrightarrow> keeps (\<lambda>s. P s \<and> I s) m"
  by (simp add: leads_def keeps_def)

lemma leads_app: "leads P m Q \<Longrightarrow> P s \<Longrightarrow> Q (fst (m s))"
  by (simp add: leads_def)

lemma keeps_app: "keeps I m \<Longrightarrow> I s \<Longrightarrow> I (fst (m s))"
  by (simp add: keeps_def)

lemma close_output_step:
  "triple (\<lambda>s. led d kr kq kv 0 A s \<and> on_output ((=) out) s) close_output
     (\<lambda>_ s. led d kr kq kv (cb_queued_bytes out) A s \<and> on_output (\<lambda>c. cb_queued_bytes c = 0) s) E"
  unfolding triple_def
proof (intro allI impI)
  fix s :: "('a, 'b, 'c) cstate"
  assume s: "led d kr kq kv 0 A s \<and> on_output ((=) out) s"
  then have out: "hc_output (cs_conn s) = out" by (simp add: on_output_def)
  with s have "chan_ok out (cs_heap s)" by (auto simp: led_def Let_def)
  from channel_close_ok [OF this] obtain c' h' k where c': "channel_close out (cs_heap s) = (c', h', Inr k)"
    "chan_ok c' h'" "content c' h' = []" by blast
  then have "cb_queued_bytes c' = 0" by (simp add: chan_ok_def)
  with s c' out show "case close_output s of (s', Inl e) \<Rightarrow> E s'
      | (s', Inr x) \<Rightarrow> led d kr kq kv (cb_queued_bytes out) A s' \<and> on_output (\<lambda>c. cb_queued_bytes c = 0) s'"
    by (simp add: close_output_def on_output_def led_def Let_def stake_of_def)
qed

lemma give_back_buffer:
  "0 \<le> k \<Longrightarrow> leads (led d kr kq kv k A) (if k \<noteq> 0 then life (release_buffered k) else ret ()) (led d kr kq kv 0 A)"
  unfolding leads_triple by (auto intro: triple_ret release_buffered_step [of 0, simplified])

text \<open>What is left of the stake when the connection is closed: at most the local child.\<close>

definition left :: "nat option \<Rightarrow> stake \<Rightarrow> bool" where
  "left child x \<longleftrightarrow> sk_current x = None \<and> sk_proxy x = None \<and> sk_stream x = None \<and> sk_deferred x = [] \<and> sk_local x = child"

definition closed_with :: "amounts \<Rightarrow> nat option \<Rightarrow> ('p, 'c, 'w) cstate \<Rightarrow> bool" where
  "closed_with d child s \<longleftrightarrow> led d 0 0 0 0 (left child) s \<and> on_output (\<lambda>c. cb_queued_bytes c = 0) s"

lemma closed_with_counts:
  assumes "closed_with d child s"
  shows "counted s = d\<lparr>am_requests := am_requests d + of_bool (child \<noteq> None)\<rparr>"
  using assms
  by (auto simp: closed_with_def counted_def led_def Let_def left_def on_output_def own_def owners_def)

text \<open>The release of the requests and of the events.\<close>

lemma close_requests_step:
  fixes d reason env out
  defines "L \<equiv> \<lambda>kq kv A s. led d 0 kq kv 0 A s \<and> on_output ((=) out) s"
  assumes "child = sk_local x"
  shows "leads (L (heads events) (bodies events) (\<lambda>y. y = x\<lparr>sk_deferred := []\<rparr>))
     (first_error (close_requests env reason events))
     (L 0 0 (left child))"
proof -
  let ?H = "heads events" and ?V = "bodies events"
  let ?A1 = "\<lambda>y. sk_current y = None \<and> sk_deferred y = [] \<and> sk_local y = child"
  let ?A2 = "\<lambda>y. sk_proxy y = None \<and> ?A1 y"
  have s1: "leads (L ?H ?V (\<lambda>y. y = x\<lparr>sk_deferred := []\<rparr>)) (abort_current_request reason) (L ?H ?V ?A1)"
    unfolding L_def
    by (rule leads_conj [OF abort_step [where B = "\<lambda>y. sk_deferred y = [] \<and> sk_local y = child"]])
      (use assms in \<open>auto intro: output_rules\<close>)
  have s2: "keeps (L ?H ?V A) (signal_pending_local env reason)" for A
    unfolding L_def by (intro keeps_conj neutral output_rules)
  have s3: "leads (L ?H ?V ?A1) (cancel_pending_proxy reason) (L ?H ?V ?A2)"
    unfolding L_def by (rule leads_conj [OF cancel_proxy_step]) (auto intro: output_rules)
  have s4: "leads (L ?H ?V ?A2) (cancel_pending_stream reason) (L ?H ?V (left child))"
    unfolding L_def
    by (rule leads_conj [OF leads_conseq [OF cancel_stream_step [where B = ?A2]]])
      (auto simp: left_def intro: output_rules elim!: led_weaken)
  have s5: "keeps (L ?H ?V A) (conn_of (\<lambda>c. if hc_local_request c \<noteq> None then throw e else ret ()))" for A e
    unfolding L_def by (intro keeps_conj neutral output_rules prog_rules)
  have events: "leads (L ?H ?V A) (first_error (map (release_event True) events)) (L 0 0 A)" for A
    using release_events_step [of 0 d 0 True events 0 0 A] unfolding L_def
    by (intro leads_conj keeps_first_error) (auto simp: leads_triple intro: output_rules elim: triple_conseq)
  show ?thesis
    unfolding close_requests_def
    by (rule leads_first_error_append [OF leads_first_error(2) [OF s1 leads_skip [OF s2 leads_first_error(2) [OF s3
          leads_first_error(2) [OF s4 leads_skip [OF s5 leads_first_error(1)]]]]] events])
qed

lemma close_step:
  assumes "\<not> hc_closed (cs_conn s)" and "settled d s"
  shows "closed_with d (hc_local_request (cs_conn s)) (fst (conn_close env reason s))"
proof -
  define c where "c = cs_conn s"
  let ?child = "hc_local_request c" and ?out = "hc_output c"
  let ?L = "\<lambda>kq kv kb A s. led d 0 kq kv kb A s \<and> on_output ((=) ?out) s"
  let ?Z = "\<lambda>kb s. led d 0 0 0 kb (left ?child) s \<and> on_output (\<lambda>c. cb_queued_bytes c = 0) s"
  let ?k = "cb_queued_bytes ?out"
  define s1 where "s1 = s\<lparr>cs_conn := c\<lparr>hc_closed := True, hc_close_reason := reason, hc_deferred := [], hc_tls := False, hc_fd := -1\<rparr>\<rparr>"
  from assms(2) have s1: "?L (heads (hc_deferred c)) (bodies (hc_deferred c)) 0 (\<lambda>y. y = (stake_of c)\<lparr>sk_deferred := []\<rparr>) s1"
    by (auto simp: s1_def c_def led_def Let_def on_output_def stake_of_def owners_def busy_def own_def)
  have k: "0 \<le> ?k" using assms(2) by (auto simp: led_def Let_def c_def dest: chan_ok_queued)
  have edges: "leads (?Z 0) (first_error (close_edges env reason c)) (?Z 0)"
    unfolding keeps_leads [symmetric]
    by (rule keeps_first_error)
      (auto simp: close_edges_def call_hook_def split: if_splits intro!: keeps_conj neutral output_rules)
  have buffer: "leads (?Z ?k) (if ?k \<noteq> 0 then life (release_buffered ?k) else ret ()) (?Z 0)"
    by (rule leads_conj [OF give_back_buffer [OF k]]) (auto intro: output_rules prog_rules)
  have "leads (?L 0 0 0 (left ?child)) close_output (?Z ?k)"
    unfolding leads_triple by (rule close_output_step)
  note buffers = leads_first_error_append [OF leads_first_error(2) [OF this leads_last [OF buffer]] edges]
  have "leads (?L (heads (hc_deferred c)) (bodies (hc_deferred c)) 0 (\<lambda>y. y = (stake_of c)\<lparr>sk_deferred := []\<rparr>))
      (first_error (close_requests env reason (hc_deferred c))) (?L 0 0 0 (left ?child))"
    by (rule close_requests_step) simp
  from leads_first_error_append [OF this buffers] s1 show ?thesis
    using assms(1) unfolding leads_def
    by (auto simp: conn_close_def conn_of_def reading_def thenp_def andthen_def upd_def change_def s1_def c_def closed_with_def)
qed

section \<open>Sessions\<close>

text \<open>The operations the owner of a connection calls, in any order.\<close>

datatype session_op =
    FeedData bytes int
  | InputEof
  | DeadlineTimeout string
  | ResumeDeferred
  | DrivePendingLocal
  | DriveStreaming
  | FlushTransport
  | ReadTransport int
  | TakeOutput int
  | BeginDrain
  | SignalShutdown string
  | AbortRequest string

fun session_step :: "('p, 'w) conn_env \<Rightarrow> session_op \<Rightarrow> (('p, 'c, 'w) cstate, unit) prog" where
  "session_step env (FeedData data n) = quiet (feed_data env data n)"
| "session_step env InputEof = input_eof env"
| "session_step env (DeadlineTimeout phase) = deadline_timeout env phase"
| "session_step env ResumeDeferred = resume_deferred_events env"
| "session_step env DrivePendingLocal = quiet (drive_pending_local env)"
| "session_step env DriveStreaming = drive_streaming_response env"
| "session_step env FlushTransport = quiet (flush_transport env)"
| "session_step env (ReadTransport limit) = quiet (read_transport env limit)"
| "session_step env (TakeOutput limit) = quiet (take_output env limit)"
| "session_step env BeginDrain = conn_begin_drain"
| "session_step env (SignalShutdown reason) = signal_owner_shutdown env reason"
| "session_step env (AbortRequest reason) = abort_current_request reason"

text \<open>A session goes on after an operation that raised.\<close>

definition run_session :: "('p, 'w) conn_env \<Rightarrow> session_op list \<Rightarrow> ('p, 'c, 'w) cstate \<Rightarrow> ('p, 'c, 'w) cstate" where
  "run_session env ops s = fold (\<lambda>op s. fst (session_step env op s)) ops s"

lemma session_step_keeps:
  assumes app: "plain_app env"
  shows "keeps (\<lambda>s. settled d s \<and> fed 0 s) (session_step env op)"
proof -
  have local: "keeps (\<lambda>s. settled d s \<and> fed 0 s) (drive_pending_local env)"
    by (rule leads_keeps [OF drive_local_step fed_drive_local]) (rule app)+
  show ?thesis
    by (cases op)
      (auto intro!: quiet_neutral local keeps_conj feed_data_settled input_eof_settled deadline_timeout_settled resume_settled
         drive_streaming_settled flush_settled abort_settled neutral fed_rules app)
qed

lemma run_session_keeps:
  assumes "plain_app env" and "settled d s" and "fed 0 s"
  shows "settled d (run_session env ops s) \<and> fed 0 (run_session env ops s)"
  using assms(2,3)
proof (induction ops arbitrary: s)
  case (Cons op ops)
  have "settled d (fst (session_step env op s)) \<and> fed 0 (fst (session_step env op s))"
    using session_step_keeps [OF assms(1)] Cons.prems unfolding keeps_def by blast
  with Cons.IH show ?case by (simp add: run_session_def)
qed (simp add: run_session_def)

end
