(* ===== verification/Conn_Props.thy ===== *)
theory Conn_Props
  imports Conn_Session
begin

text \<open>
  The properties of connections: the resource ledger over whole sessions, the teardown that gives
  everything back, and two places where the error paths of
  \<open>GatewayConnection\<close> differ from each other.
\<close>

section \<open>A fresh connection\<close>








section \<open>A sample environment\<close>












section \<open>Properties\<close>





text \<open>A dispatch may return an object that is no response (an error handler's or a middleware's result is
  not checked).  When the handler ran in a child of the connection it is answered with a 500; when it
  was dispatched at the end of the request, reading its status raises and no response is sent.\<close>

theorem non_response_paths_differ:
  "complete_local_handler_response env a OtherReply s = complete_local_handler_response env a error_reply s \<and>
   publish_reply env a admitted OtherReply s = (s, Inl (AttributeError ''status''))"
  by (simp add: complete_local_handler_response_def error_reply_def publish_reply_def method_of_def reading_def
      lift_result_def reply_status_def andthen_def)

lemma chars_of_text: "map char_of (cp t) = t"
  by (induction t) (simp_all add: cp_def)

text \<open>The error code of an overlapping request does not reach the client: the error is a
  \<open>ValueError\<close>, and the handler of heads relabels it.\<close>

theorem overlapping_request_relabelled:
  assumes "hc_current (cs_conn s) = Some a"
  shows "handle_http_event env (EvHead head) s =
    (s, Inl (Http1Error 400 ''bad-target'' ''request body overlaps''))"
  using assms
  by (simp add: handle_http_event_def begin_request_def conn_of_def reading_def catching_def throw_def
      is_value_error_def error_text_def chars_of_text)

end
