(* ===== verification/Tls_Config.thy ===== *)
theory Tls_Config
  imports Prelude
begin

text \<open>
  Model of the policy half of \<open>pcc_gateway/tls.py\<close>: error names, results, provider and server names,
  certificates and the TLS configuration with its certificate selection.  Certificate and key
  values are opaque strings.  The selection is shown equal to two dictionary lookups.
\<close>

section \<open>Results\<close>

definition TLS_PROVIDER_ABI_VERSION :: int where "TLS_PROVIDER_ABI_VERSION = 1"

definition TLS_OK :: int where "TLS_OK = 0"
definition TLS_WANT_READ :: int where "TLS_WANT_READ = 1"
definition TLS_WANT_WRITE :: int where "TLS_WANT_WRITE = 2"
definition TLS_CLOSED :: int where "TLS_CLOSED = 3"
definition TLS_SELECT_SNI :: int where "TLS_SELECT_SNI = 4"
definition TLS_ERROR :: int where "TLS_ERROR = -1"

definition TLS_INTEREST_NONE :: int where "TLS_INTEREST_NONE = 0"
definition TLS_INTEREST_READ :: int where "TLS_INTEREST_READ = 1"
definition TLS_INTEREST_WRITE :: int where "TLS_INTEREST_WRITE = 2"

definition TLS_ERR_NONE :: int where "TLS_ERR_NONE = 0"
definition TLS_ERR_DEADLINE :: int where "TLS_ERR_DEADLINE = 1"
definition TLS_ERR_CANCELLED :: int where "TLS_ERR_CANCELLED = 2"
definition TLS_ERR_PROTOCOL :: int where "TLS_ERR_PROTOCOL = 3"
definition TLS_ERR_UNRECOGNIZED_NAME :: int where "TLS_ERR_UNRECOGNIZED_NAME = 7"
definition TLS_ERR_ALPN :: int where "TLS_ERR_ALPN = 8"
definition TLS_ERR_PROVIDER :: int where "TLS_ERR_PROVIDER = 9"
definition TLS_ERR_PROVIDER_CONTRACT :: int where "TLS_ERR_PROVIDER_CONTRACT = 10"
definition TLS_ERR_CONFIGURATION :: int where "TLS_ERR_CONFIGURATION = 11"
definition TLS_ERR_INTERNAL :: int where "TLS_ERR_INTERNAL = 12"

lemmas tls_codes = TLS_OK_def TLS_WANT_READ_def TLS_WANT_WRITE_def TLS_CLOSED_def TLS_SELECT_SNI_def TLS_ERROR_def
  TLS_ERR_NONE_def TLS_ERR_DEADLINE_def TLS_ERR_CANCELLED_def TLS_ERR_PROTOCOL_def TLS_ERR_UNRECOGNIZED_NAME_def
  TLS_ERR_ALPN_def TLS_ERR_PROVIDER_def TLS_ERR_PROVIDER_CONTRACT_def TLS_ERR_CONFIGURATION_def TLS_ERR_INTERNAL_def

definition tls_error_name :: "int \<Rightarrow> string" where
  "tls_error_name error_code =
     (if 0 \<le> error_code \<and> error_code \<le> 12
      then [''none'', ''deadline'', ''cancelled'', ''protocol'', ''certificate'', ''io'', ''truncated'',
            ''unrecognized-name'', ''alpn'', ''provider'', ''provider-contract'', ''configuration'',
            ''internal''] ! nat error_code
      else ''unknown'')"

text \<open>A result without its diagnostic text.\<close>

record tls_answer =
  ta_status :: int
  ta_count :: int
  ta_error_code :: int
  ta_server_name :: pystr

definition tls_answer_new :: "int \<Rightarrow> tls_answer" where
  "tls_answer_new status = \<lparr>ta_status = status, ta_count = 0, ta_error_code = TLS_ERR_NONE, ta_server_name = []\<rparr>"

definition tls_error :: "int \<Rightarrow> tls_answer" where
  "tls_error error_code = \<lparr>ta_status = TLS_ERROR, ta_count = 0, ta_error_code = error_code, ta_server_name = []\<rparr>"

definition wait_interest :: "tls_answer \<Rightarrow> int" where
  "wait_interest r = (if ta_status r = TLS_WANT_READ then TLS_INTEREST_READ
     else if ta_status r = TLS_WANT_WRITE then TLS_INTEREST_WRITE else TLS_INTEREST_NONE)"

section \<open>Names\<close>

definition is_lower :: "int \<Rightarrow> bool" where
  "is_lower c \<longleftrightarrow> 97 \<le> c \<and> c \<le> 122"

definition valid_provider_name :: "pystr \<Rightarrow> bool" where
  "valid_provider_name name \<longleftrightarrow> name \<noteq> [] \<and> length name \<le> 64 \<and>
     list_all (\<lambda>c. is_lower c \<or> is_digit c \<or> c \<in> {45, 95, 46}) name"

definition label_ok :: "pystr \<Rightarrow> unit result" where
  "label_ok label =
     (if label = [] \<or> length label > 63 \<or> hd label = 45 \<or> last label = 45
      then Inl (ValueError ''invalid SNI label'')
      else if \<not> list_all (\<lambda>c. is_lower c \<or> is_digit c \<or> c = 45) label
      then Inl (ValueError ''invalid SNI character'')
      else Inr ())"

fun labels_ok :: "pystr list \<Rightarrow> unit result" where
  "labels_ok [] = Inr ()"
| "labels_ok (l # ls) = rbind (label_ok l) (\<lambda>_. labels_ok ls)"

definition wildcard_checked :: "pystr \<Rightarrow> bool \<Rightarrow> unit result" where
  "wildcard_checked name allow_wildcard =
     (if 42 \<in> set name then
        if \<not> allow_wildcard then Inl (ValueError ''client SNI cannot be a wildcard'')
        else if take 2 name \<noteq> [42, 46] \<or> count_list name 42 \<noteq> 1
        then Inl (ValueError ''wildcard SNI must use one leading '*.' label'')
        else Inr ()
      else Inr ())"

definition normalize_sni_name :: "pystr \<Rightarrow> bool \<Rightarrow> pystr result" where
  "normalize_sni_name server_name allow_wildcard =
     (let name = canon_name server_name in
      if name = [] \<or> length name > 253 then Inl (ValueError ''SNI name is empty or too long'')
      else if \<not> list_all (\<lambda>c. c < 128) name then Inl (ValueError ''SNI name must be ASCII'')
      else rbind (wildcard_checked name allow_wildcard) (\<lambda>_.
        let wildcard = (take 2 name = [42, 46]);
            rest = (if wildcard then drop 2 name else name);
            labels = py_split 46 rest
        in if wildcard \<and> length labels < 2
           then Inl (ValueError ''wildcard SNI must contain a registrable suffix'')
           else rbind (labels_ok labels) (\<lambda>_. Inr (if wildcard then [42, 46] @ rest else rest))))"

fun alpn_loop :: "pystr list \<Rightarrow> pystr list \<Rightarrow> pystr list result" where
  "alpn_loop [] acc = Inr acc"
| "alpn_loop (p # ps) acc =
     (if p = [] \<or> length p > 255 then Inl (ValueError ''invalid ALPN protocol'')
      else if \<not> list_all (\<lambda>c. c < 128) p then Inl (ValueError ''ALPN protocol must be ASCII'')
      else if p \<in> set acc then Inl (ValueError ''duplicate ALPN protocol'')
      else alpn_loop ps (acc @ [p]))"

definition validate_alpn :: "pystr list \<Rightarrow> pystr list result" where
  "validate_alpn protocols =
     (if length protocols > 16 then Inl (ValueError ''too many ALPN protocols'') else alpn_loop protocols [])"

section \<open>Certificates\<close>

record tls_certificate =
  tc_identifier :: pystr
  tc_certificate :: pystr
  tc_private_key :: pystr
  tc_server_names :: "pystr list"

fun certificate_names :: "pystr list \<Rightarrow> pystr list \<Rightarrow> pystr list result" where
  "certificate_names [] acc = Inr acc"
| "certificate_names (n # ns) acc =
     rbind (normalize_sni_name n True) (\<lambda>normalized.
       if normalized \<in> set acc then Inl (ValueError ''duplicate SNI name in certificate'')
       else certificate_names ns (acc @ [normalized]))"

definition tls_certificate_new :: "pystr \<Rightarrow> pystr \<Rightarrow> pystr \<Rightarrow> pystr list \<Rightarrow> tls_certificate result" where
  "tls_certificate_new identifier certificate private_key server_names =
     (if identifier = [] \<or> length identifier > 64
      then Inl (ValueError ''TLS certificate identifier is missing or too long'')
      else if certificate = [] \<or> private_key = []
      then Inl (ValueError ''TLS certificate and private key are required'')
      else rbind (certificate_names server_names []) (\<lambda>names.
        Inr \<lparr>tc_identifier = identifier, tc_certificate = certificate, tc_private_key = private_key,
             tc_server_names = names\<rparr>))"

section \<open>Configuration\<close>

record tls_config =
  tg_default :: tls_certificate
  tg_sni_certificates :: "tls_certificate list"
  tg_alpn :: "pystr list"
  tg_require_client_certificate :: bool
  tg_client_ca :: pystr
  tg_reject_unknown_sni :: bool

fun names_fresh :: "pystr list \<Rightarrow> pystr list \<Rightarrow> pystr list result" where
  "names_fresh [] names = Inr names"
| "names_fresh (n # ns) names =
     (if n \<in> set names then Inl (ValueError ''duplicate SNI name across certificates'')
      else names_fresh ns (names @ [n]))"

fun certificates_fresh :: "tls_certificate list \<Rightarrow> pystr list \<Rightarrow> pystr list \<Rightarrow> unit result" where
  "certificates_fresh [] identifiers names = Inr ()"
| "certificates_fresh (c # cs) identifiers names =
     (if tc_identifier c \<in> set identifiers then Inl (ValueError ''duplicate TLS certificate identifier'')
      else rbind (names_fresh (tc_server_names c) names) (\<lambda>names'.
        certificates_fresh cs (identifiers @ [tc_identifier c]) names'))"

definition tls_config_new ::
  "pystr \<Rightarrow> pystr \<Rightarrow> pystr list \<Rightarrow> bool \<Rightarrow> tls_certificate list \<Rightarrow> bool \<Rightarrow> tls_certificate option \<Rightarrow> pystr \<Rightarrow>
   tls_config result" where
  "tls_config_new certificate private_key alpn require_client_certificate sni_certificates reject_unknown_sni
     default_certificate client_ca =
     (if default_certificate \<noteq> None \<and> (certificate \<noteq> [] \<or> private_key \<noteq> [])
      then Inl (ValueError ''choose default_certificate or certificate/private_key'')
      else rbind (case default_certificate of
                    None \<Rightarrow> tls_certificate_new (cp ''default'') certificate private_key []
                  | Some c \<Rightarrow> Inr c) (\<lambda>default.
        if length sni_certificates > 63 then Inl (ValueError ''too many SNI certificates'')
        else rbind (certificates_fresh sni_certificates [tc_identifier default] []) (\<lambda>_.
          rbind (validate_alpn alpn) (\<lambda>protocols.
            if 0 \<in> set client_ca then Inl (ValueError ''TLS client CA path must be a NUL-free string'')
            else if require_client_certificate \<and> client_ca = []
            then Inl (ValueError ''client certificate verification requires client CA'')
            else Inr \<lparr>tg_default = default, tg_sni_certificates = sni_certificates, tg_alpn = protocols,
                      tg_require_client_certificate = require_client_certificate, tg_client_ca = client_ca,
                      tg_reject_unknown_sni = reject_unknown_sni\<rparr>))))"

text \<open>The patterns of a configuration, with their certificates, in the order of the two loops.\<close>

definition sni_patterns :: "tls_config \<Rightarrow> (pystr \<times> tls_certificate) list" where
  "sni_patterns config = concat (map (\<lambda>c. map (\<lambda>n. (n, c)) (tc_server_names c)) (tg_sni_certificates config))"

definition ends_with :: "pystr \<Rightarrow> pystr \<Rightarrow> bool" where
  "ends_with s suffix \<longleftrightarrow> length suffix \<le> length s \<and> drop (length s - length suffix) s = suffix"

text \<open>The loops: \<open>Inl\<close> the exact match, \<open>Inr\<close> the best wildcard so far.\<close>

fun select_loop ::
  "pystr \<Rightarrow> (pystr \<times> tls_certificate) list \<Rightarrow> tls_certificate option \<Rightarrow> int \<Rightarrow> tls_certificate + tls_certificate option" where
  "select_loop normalized [] best best_length = Inr best"
| "select_loop normalized ((pattern, certificate) # rest) best best_length =
     (if take 2 pattern \<noteq> [42, 46] then
        if pattern = normalized then Inl certificate else select_loop normalized rest best best_length
      else
        let suffix = drop 1 pattern in
        if \<not> ends_with normalized suffix then select_loop normalized rest best best_length
        else
          let prefix = take (length normalized - length suffix) normalized in
          if prefix = [] \<or> 46 \<in> set prefix then select_loop normalized rest best best_length
          else if int (length suffix) > best_length
          then select_loop normalized rest (Some certificate) (int (length suffix))
          else select_loop normalized rest best best_length)"

definition select_certificate :: "tls_config \<Rightarrow> pystr \<Rightarrow> tls_certificate option result" where
  "select_certificate config server_name =
     (if server_name = [] then Inr (Some (tg_default config))
      else rbind (normalize_sni_name server_name False) (\<lambda>normalized.
        case select_loop normalized (sni_patterns config) None (-1) of
          Inl certificate \<Rightarrow> Inr (Some certificate)
        | Inr (Some certificate) \<Rightarrow> Inr (Some certificate)
        | Inr None \<Rightarrow> Inr (if tg_reject_unknown_sni config then None else Some (tg_default config))))"

section \<open>Selection as two lookups\<close>

definition is_label :: "pystr \<Rightarrow> bool" where
  "is_label l \<longleftrightarrow> label_ok l = Inr ()"

lemma labels_ok_iff: "labels_ok ls = Inr () \<longleftrightarrow> list_all is_label ls"
  by (induction ls) (auto simp: is_label_def rbind_eq_Inr)

lemma label_charset: "is_label l \<Longrightarrow> 42 \<notin> set l \<and> 46 \<notin> set l \<and> l \<noteq> []"
  by (auto simp: is_label_def label_ok_def is_lower_def is_digit_def list_all_iff split: if_splits)

text \<open>What normalisation lets through: a name of proper labels, with \<open>*.\<close> before it or not.\<close>

lemma normalize_sni_cases:
  assumes "normalize_sni_name server_name w = Inr n"
  obtains (plain) "list_all is_label (py_split 46 n)" "42 \<notin> set n" "n \<noteq> []"
  | (wildcard) r where "w" "n = 42 # 46 # r" "list_all is_label (py_split 46 r)"
proof (cases "take 2 (canon_name server_name) = [42, 46]")
  case True
  moreover from this have "42 \<in> set (canon_name server_name)"
    by (metis in_set_takeD list.set_intros(1))
  ultimately show thesis
    using assms wildcard [of "drop 2 (canon_name server_name)"]
    by (auto simp: normalize_sni_name_def wildcard_checked_def Let_def rbind_eq_Inr labels_ok_iff split: if_splits)
next
  case False
  with assms show thesis
    by (intro plain) (auto simp: normalize_sni_name_def wildcard_checked_def Let_def rbind_eq_Inr labels_ok_iff
        split: if_splits)
qed

lemma first_label_nonempty:
  assumes "list_all is_label (py_split 46 n)"
  shows "takeWhile (\<lambda>c. c \<noteq> 46) n \<noteq> []"
proof (cases n)
  case Nil
  with assms show ?thesis by (simp add: is_label_def label_ok_def)
next
  case (Cons c cs)
  with assms have "c \<noteq> 46" by (auto simp: is_label_def label_ok_def)
  with Cons show ?thesis by simp
qed

text \<open>A name matches a wildcard when what follows its first label is the suffix of the pattern.\<close>

lemma suffix_split:
  assumes "hd suffix = 46" "suffix \<noteq> []" "takeWhile (\<lambda>c. c \<noteq> 46) n \<noteq> []"
  shows "ends_with n suffix \<and> take (length n - length suffix) n \<noteq> [] \<and>
      46 \<notin> set (take (length n - length suffix) n) \<longleftrightarrow> dropWhile (\<lambda>c. c \<noteq> 46) n = suffix"
    (is "?match \<longleftrightarrow> ?eq")
proof
  assume m: ?match
  let ?p = "take (length n - length suffix) n"
  from m have n: "n = ?p @ suffix" by (metis append_take_drop_id ends_with_def)
  from assms obtain t where t: "suffix = 46 # t" by (cases suffix) auto
  have "dropWhile (\<lambda>c. c \<noteq> 46) (?p @ suffix) = suffix"
    using m by (subst dropWhile_append2) (auto simp: t)
  with n show ?eq by simp
next
  assume e: ?eq
  let ?p = "takeWhile (\<lambda>c. c \<noteq> 46) n"
  from e have n: "n = ?p @ suffix" by (metis takeWhile_dropWhile_id)
  then have "length n = length ?p + length suffix" by (metis length_append)
  moreover from this n have "take (length n - length suffix) n = ?p" "drop (length n - length suffix) n = suffix"
    by (metis add_diff_cancel_right' append_eq_conv_conj, metis add_diff_cancel_right' append_eq_conv_conj)
  moreover have "46 \<notin> set ?p" by (auto dest: set_takeWhileD)
  ultimately show ?match using assms(3) by (simp add: ends_with_def)
qed

text \<open>A pattern: neither a lone asterisk nor, unless it is a wildcard, anything with an asterisk.\<close>

definition pattern_ok :: "pystr \<Rightarrow> bool" where
  "pattern_ok p \<longleftrightarrow> take 2 p = [42, 46] \<or> 42 \<notin> set p"

lemma normalized_pattern_ok: "normalize_sni_name s w = Inr p \<Longrightarrow> pattern_ok p"
  by (erule normalize_sni_cases) (simp_all add: pattern_ok_def)

definition wildcard_of :: "pystr \<Rightarrow> pystr" where
  "wildcard_of n = 42 # dropWhile (\<lambda>c. c \<noteq> 46) n"

lemma wildcard_is_pattern:
  assumes "pattern_ok p" "p = wildcard_of n"
  shows "take 2 p = [42, 46]"
  using assms by (auto simp: pattern_ok_def wildcard_of_def)

lemma wildcard_match:
  assumes "take 2 p = [42, 46]" "list_all is_label (py_split 46 n)"
  shows "ends_with n (drop 1 p) \<and> take (length n - length (drop 1 p)) n \<noteq> [] \<and>
      46 \<notin> set (take (length n - length (drop 1 p)) n) \<longleftrightarrow> p = wildcard_of n"
proof -
  from assms(1) obtain r where p: "p = 42 # 46 # r"
    by (cases p; cases "tl p") auto
  with suffix_split [of "46 # r" n] first_label_nonempty [OF assms(2)] show ?thesis
    by (auto simp: wildcard_of_def)
qed

text \<open>The loop, with a wildcard already found or not.\<close>

definition selection :: "(pystr \<times> tls_certificate) list \<Rightarrow> pystr \<Rightarrow> tls_certificate option \<Rightarrow> tls_certificate option" where
  "selection patterns n best =
     (case map_of patterns n of
        Some c \<Rightarrow> Some c
      | None \<Rightarrow> (case best of Some c \<Rightarrow> Some c | None \<Rightarrow> map_of patterns (wildcard_of n)))"

lemma selection_Cons:
  "selection ((p, c) # patterns) n best =
     (if p = n then Some c
      else if p = wildcard_of n then selection patterns n (Some (case best of Some b \<Rightarrow> b | None \<Rightarrow> c))
      else selection patterns n best)"
  by (auto simp: selection_def split: option.split)

lemma select_loop_lookup:
  assumes "list_all is_label (py_split 46 n)" "42 \<notin> set n"
    and "\<forall>e \<in> set patterns. pattern_ok (fst e)"
    and "best \<noteq> None \<longrightarrow> best_length = int (length (wildcard_of n)) - 1" "best = None \<longrightarrow> best_length < 0"
  shows "(case select_loop n patterns best best_length of Inl c \<Rightarrow> Some c | Inr b \<Rightarrow> b) = selection patterns n best"
  using assms(3-5)
proof (induction patterns arbitrary: best best_length)
  case Nil
  then show ?case by (simp add: selection_def split: option.split)
next
  case (Cons e patterns)
  obtain p c where e: "e = (p, c)" by (cases e)
  show ?case
  proof (cases "take 2 p = [42, 46]")
    case False
    with Cons.prems(1) e have "p \<noteq> wildcard_of n" using wildcard_is_pattern by auto
    with False e Cons.IH [of best best_length] Cons.prems show ?thesis by (simp add: selection_Cons)
  next
    case True
    then have n: "p \<noteq> n" using assms(2) by (metis in_set_takeD list.set_intros(1))
    note match = wildcard_match [OF True assms(1)]
    show ?thesis
    proof (cases "p = wildcard_of n")
      case False
      with match True have "select_loop n (e # patterns) best best_length = select_loop n patterns best best_length"
        by (auto simp: e Let_def)
      with False n Cons.IH [of best best_length] Cons.prems show ?thesis by (simp add: e selection_Cons)
    next
      case eq: True
      have len: "int (length (drop 1 p)) = int (length (wildcard_of n)) - 1"
        by (simp add: eq wildcard_of_def)
      let ?best = "Some (case best of Some b \<Rightarrow> b | None \<Rightarrow> c)"
      from match eq True len Cons.prems(2,3) have
        "select_loop n (e # patterns) best best_length = select_loop n patterns ?best (int (length (wildcard_of n)) - 1)"
        by (cases best) (auto simp: e Let_def simp del: length_drop)
      with eq n Cons.IH [of ?best "int (length (wildcard_of n)) - 1"] Cons.prems(1) show ?thesis
        by (simp add: e selection_Cons)
    qed
  qed
qed

section \<open>Properties\<close>

text \<open>The invariant of the constructors.\<close>

definition certificate_ok :: "tls_certificate \<Rightarrow> bool" where
  "certificate_ok c \<longleftrightarrow> tc_identifier c \<noteq> [] \<and> length (tc_identifier c) \<le> 64 \<and> tc_certificate c \<noteq> [] \<and>
     tc_private_key c \<noteq> [] \<and> distinct (tc_server_names c) \<and> list_all pattern_ok (tc_server_names c)"

lemma certificate_names_ok:
  assumes "certificate_names ns acc = Inr out" "distinct acc" "list_all pattern_ok acc"
  shows "distinct out \<and> list_all pattern_ok out"
  using assms
  by (induction ns arbitrary: acc) (auto simp: rbind_eq_Inr dest: normalized_pattern_ok split: if_splits)

lemma tls_certificate_new_ok: "tls_certificate_new i c k ns = Inr cert \<Longrightarrow> certificate_ok cert"
  using certificate_names_ok [of ns "[]"]
  by (auto simp: tls_certificate_new_def certificate_ok_def rbind_eq_Inr split: if_splits)

lemma names_fresh_ok:
  "names_fresh ns names = Inr out \<Longrightarrow> distinct names \<Longrightarrow> out = names @ ns \<and> distinct out"
  by (induction ns arbitrary: names) (fastforce split: if_splits)+

lemma certificates_fresh_ok:
  assumes "certificates_fresh cs ids names = Inr ()" "distinct ids" "distinct names"
  shows "distinct (ids @ map tc_identifier cs) \<and> distinct (names @ concat (map tc_server_names cs))"
  using assms
proof (induction cs arbitrary: ids names)
  case (Cons c cs)
  then obtain names' where n: "names_fresh (tc_server_names c) names = Inr names'"
    "certificates_fresh cs (ids @ [tc_identifier c]) names' = Inr ()" "tc_identifier c \<notin> set ids"
    by (auto simp: rbind_eq_Inr split: if_splits)
  from names_fresh_ok [OF n(1) Cons.prems(3)] have names': "names' = names @ tc_server_names c" "distinct names'"
    by auto
  from n(3) Cons.prems(2) have "distinct (ids @ [tc_identifier c])" by simp
  from Cons.IH [OF n(2) this names'(2)] show ?case by (simp add: names'(1))
qed simp

lemma alpn_loop_ok: "alpn_loop ps acc = Inr out \<Longrightarrow> distinct acc \<Longrightarrow> out = acc @ ps \<and> distinct out"
  by (induction ps arbitrary: acc) (fastforce split: if_splits)+

lemma sni_patterns_names: "map fst (sni_patterns config) = concat (map tc_server_names (tg_sni_certificates config))"
  by (simp add: sni_patterns_def map_concat comp_def)

text \<open>C36 A TLS configuration that was accepted has at most 64 certificates with distinct identifiers, distinct server-name
  patterns across all certificates and distinct ALPN protocols, and demands client certificates only with a CA; and its
  certificate selection is two dictionary lookups: the normalised name, then the name with its first label replaced by an
  asterisk, then the default certificate or, under \<open>reject_unknown_sni\<close>, nothing.\<close>

theorem accepted_tls_config_selects:
  assumes built: "tls_config_new cert key alpn req snis reject dflt ca = Inr config"
    and certs: "\<forall>c \<in> set snis. \<exists>i cc k ns. tls_certificate_new i cc k ns = Inr c"
  shows "length (tg_default config # tg_sni_certificates config) \<le> 64 \<and>
    distinct (map tc_identifier (tg_default config # tg_sni_certificates config)) \<and>
    distinct (map fst (sni_patterns config)) \<and> distinct (tg_alpn config) \<and>
    (tg_require_client_certificate config \<longrightarrow> tg_client_ca config \<noteq> []) \<and>
    select_certificate config [] = Inr (Some (tg_default config)) \<and>
    (\<forall>name n. name \<noteq> [] \<and> normalize_sni_name name False = Inr n \<longrightarrow>
       select_certificate config name =
         Inr (case map_of (sni_patterns config) n of
                Some c \<Rightarrow> Some c
              | None \<Rightarrow> (case map_of (sni_patterns config) (42 # dropWhile (\<lambda>c. c \<noteq> 46) n) of
                  Some c \<Rightarrow> Some c
                | None \<Rightarrow> if reject then None else Some (tg_default config))))"
proof -
  from built have len: "length snis \<le> 63" "tg_sni_certificates config = snis" "tg_reject_unknown_sni config = reject"
    and fresh: "certificates_fresh snis [tc_identifier (tg_default config)] [] = Inr ()"
    and alpn: "alpn_loop alpn [] = Inr (tg_alpn config)"
    and ca: "tg_require_client_certificate config \<longrightarrow> tg_client_ca config \<noteq> []"
    by (auto simp: tls_config_new_def rbind_eq_Inr validate_alpn_def split: if_splits)
  from certificates_fresh_ok [OF fresh] len have d: "distinct (map tc_identifier (tg_default config # snis))"
    "distinct (map fst (sni_patterns config))"
    by (simp_all add: sni_patterns_names)
  from alpn_loop_ok [OF alpn distinct.simps(1) [THEN iffD2, OF TrueI]] have a: "distinct (tg_alpn config)" by blast
  from certs have "\<forall>c \<in> set snis. certificate_ok c" using tls_certificate_new_ok by blast
  then have pats: "\<forall>e \<in> set (sni_patterns config). pattern_ok (fst e)"
    using len by (auto simp: sni_patterns_def certificate_ok_def list_all_iff)
  have sel: "select_certificate config name = Inr (case selection (sni_patterns config) n None of
      Some c \<Rightarrow> Some c | None \<Rightarrow> if reject then None else Some (tg_default config))"
    if "name \<noteq> []" and n: "normalize_sni_name name False = Inr n" for name n
    using n
  proof (cases rule: normalize_sni_cases)
    case plain
    from select_loop_lookup [OF plain(1,2) pats, of None "-1"] that len show ?thesis
      by (auto simp: select_certificate_def split: sum.splits option.splits)
  qed simp
  have two: "(case selection (sni_patterns config) n None of Some c \<Rightarrow> Some c | None \<Rightarrow> d) =
      (case map_of (sni_patterns config) n of Some c \<Rightarrow> Some c
       | None \<Rightarrow> (case map_of (sni_patterns config) (42 # dropWhile (\<lambda>c. c \<noteq> 46) n) of Some c \<Rightarrow> Some c | None \<Rightarrow> d))" for n d
    by (simp add: selection_def wildcard_of_def split: option.split)
  have "select_certificate config [] = Inr (Some (tg_default config))" by (simp add: select_certificate_def)
  with len d a ca sel [unfolded two] show ?thesis by simp
qed

definition sample_certificate :: tls_certificate where
  "sample_certificate = \<lparr>tc_identifier = cp ''a'', tc_certificate = cp ''c'', tc_private_key = cp ''k'',
     tc_server_names = [cp ''*.x.y'', cp ''b.x.y'']\<rparr>"

definition sample_tls_config :: tls_config where
  "sample_tls_config = \<lparr>tg_default = \<lparr>tc_identifier = cp ''default'', tc_certificate = cp ''c'', tc_private_key = cp ''k'',
     tc_server_names = []\<rparr>, tg_sni_certificates = [sample_certificate], tg_alpn = [cp ''http/1.1''],
     tg_require_client_certificate = False, tg_client_ca = [], tg_reject_unknown_sni = True\<rparr>"

lemma sample_tls_built:
  "tls_config_new (cp ''c'') (cp ''k'') [cp ''http/1.1''] False [sample_certificate] True None [] = Inr sample_tls_config"
  "tls_certificate_new (cp ''a'') (cp ''c'') (cp ''k'') [cp ''*.X.y.'', cp ''b.x.y''] = Inr sample_certificate"
  "normalize_sni_name (cp ''q.x.y'') False = Inr (cp ''q.x.y'')"
  by code_simp+

theorem accepted_tls_config_selects_witness:
  "select_certificate sample_tls_config (cp ''q.x.y'') = Inr (Some sample_certificate)"
proof -
  have certs: "\<forall>c \<in> set [sample_certificate]. \<exists>i cc k ns. tls_certificate_new i cc k ns = Inr c"
    using sample_tls_built(2) by auto
  have "map_of (sni_patterns sample_tls_config) (cp ''q.x.y'') = None"
    "map_of (sni_patterns sample_tls_config) (42 # dropWhile (\<lambda>c. c \<noteq> 46) (cp ''q.x.y'')) = Some sample_certificate"
    by code_simp+
  with accepted_tls_config_selects [OF sample_tls_built(1) certs] sample_tls_built(3) show ?thesis by auto
qed

end
