(* ===== verification/Tls_Provider.thy ===== *)
theory Tls_Provider
  imports Tls_Config Sequencing
begin

text \<open>
  Model of the provider side of \<open>pcc_gateway/tls.py\<close>: the duck-typed TLS provider as a parameter whose
  calls may raise, the world the TLS objects share, \<open>TlsProviderInfo\<close> and \<open>TlsProviderRegistry\<close>.
  A provider is named by its address and all providers together have one private state, which
  only their calls change; the registry, the generations and the ghost ledgers are ours.  The
  ledgers list what the providers handed out and what was given back to them.
\<close>

section \<open>Providers\<close>

text \<open>The attributes \<open>TlsProviderInfo\<close> and \<open>register\<close> read; a missing text attribute is empty and a
  missing number is 0, as the defaults of \<open>getattr\<close> have it.\<close>

record provider_attributes =
  at_name :: pystr
  at_abi_version :: int
  at_link_boundary :: pystr
  at_license_id :: pystr
  at_security_boundary :: pystr
  at_production_ready :: "bool option"   \<comment> \<open>\<open>None\<close>: no boolean\<close>
  at_native_abi :: pystr
  at_implementation_id :: pystr
  at_library_path :: pystr
  at_expected_library_sha256 :: pystr
  at_verified_library_sha256 :: pystr
  at_library_max_bytes :: int

text \<open>A call that must return a \<open>TlsResult\<close> returns \<open>None\<close> for any other object.\<close>

record ('p, 'c, 's) tls_provider =
  pv_attributes :: "'p \<Rightarrow> provider_attributes"
  pv_callable :: "string \<Rightarrow> bool"
  pv_activate :: "('p \<Rightarrow> 'p \<times> unit result) option"
  pv_create_server_context :: "tls_config \<Rightarrow> tls_certificate \<Rightarrow> 'p \<Rightarrow> 'p \<times> 'c option result"
  pv_new_connection :: "'c \<Rightarrow> int \<Rightarrow> 'p \<Rightarrow> 'p \<times> 's option result"
  pv_handshake :: "'s \<Rightarrow> 'p \<Rightarrow> 'p \<times> tls_answer option result"
  pv_set_server_context :: "'s \<Rightarrow> 'c \<Rightarrow> 'p \<Rightarrow> 'p \<times> tls_answer option result"
  pv_selected_alpn :: "'s \<Rightarrow> 'p \<Rightarrow> 'p \<times> pystr option result"
  pv_read :: "'s \<Rightarrow> int \<Rightarrow> 'p \<Rightarrow> 'p \<times> tls_answer option result"
  pv_write :: "'s \<Rightarrow> bytes \<Rightarrow> int \<Rightarrow> 'p \<Rightarrow> 'p \<times> tls_answer option result"
  pv_close_notify :: "'s \<Rightarrow> 'p \<Rightarrow> 'p \<times> tls_answer option result"
  pv_free_connection :: "'s \<Rightarrow> 'p \<Rightarrow> 'p \<times> unit result"
  pv_free_context :: "'c \<Rightarrow> 'p \<Rightarrow> 'p \<times> unit result"
  pv_close :: "'p \<Rightarrow> 'p \<times> unit result"

type_synonym ('p, 'c, 's) tls_env = "nat \<Rightarrow> ('p, 'c, 's) tls_provider"

record provider_info =
  pi_name :: pystr
  pi_abi_version :: int
  pi_link_boundary :: pystr
  pi_license_id :: pystr
  pi_security_boundary :: pystr
  pi_production_ready :: bool
  pi_native_abi :: pystr
  pi_implementation_id :: pystr
  pi_library_path :: pystr
  pi_expected_library_sha256 :: pystr
  pi_verified_library_sha256 :: pystr
  pi_library_max_bytes :: int

definition provider_info_new :: "provider_attributes \<Rightarrow> provider_info" where
  "provider_info_new a = \<lparr>pi_name = at_name a, pi_abi_version = at_abi_version a,
     pi_link_boundary = at_link_boundary a, pi_license_id = at_license_id a,
     pi_security_boundary = at_security_boundary a, pi_production_ready = (at_production_ready a = Some True),
     pi_native_abi = at_native_abi a, pi_implementation_id = at_implementation_id a,
     pi_library_path = at_library_path a, pi_expected_library_sha256 = at_expected_library_sha256 a,
     pi_verified_library_sha256 = at_verified_library_sha256 a, pi_library_max_bytes = at_library_max_bytes a\<rparr>"

section \<open>The shared world\<close>

record tls_registry =
  rg_owns_providers :: bool
  rg_close_on_last_manager :: bool
  rg_manager_leases :: int
  rg_closed :: bool
  rg_close_started :: "pystr list"
  rg_providers :: "(pystr \<times> nat) list"
  rg_info :: "(pystr \<times> provider_info) list"

record 'c tls_generation =
  tn_generation_id :: int
  tn_provider :: nat
  tn_info :: provider_info
  tn_config :: tls_config
  tn_references :: int
  tn_retired :: bool
  tn_destroyed :: bool
  tn_contexts :: "'c list"
  tn_context_by_identifier :: "(pystr \<times> 'c) list"
  tn_context :: "'c option"

record ('p, 'c, 's) tls_world =
  tw_state :: 'p
  tw_registry :: tls_registry
  tw_generations :: "'c tls_generation list"
  tw_created :: "'c list"       \<comment> \<open>ghost: contexts handed out\<close>
  tw_freed :: "'c list"         \<comment> \<open>ghost: arguments of \<open>free_context\<close>\<close>
  tw_opened :: "'s list"        \<comment> \<open>ghost: sessions handed out\<close>
  tw_ended :: "'s list"         \<comment> \<open>ghost: arguments of \<open>free_connection\<close>\<close>
  tw_shut :: "pystr list"       \<comment> \<open>ghost: registered names of the providers asked to close\<close>

definition provider_call :: "('p \<Rightarrow> 'p \<times> 'a result) \<Rightarrow> (('p, 'c, 's) tls_world, 'a) prog" where
  "provider_call f = (\<lambda>w. case f (tw_state w) of (p, r) \<Rightarrow> (w\<lparr>tw_state := p\<rparr>, r))"

definition on_registry :: "(tls_registry \<Rightarrow> tls_registry) \<Rightarrow> (('p, 'c, 's) tls_world, unit) prog" where
  "on_registry f = change (\<lambda>w. w\<lparr>tw_registry := f (tw_registry w)\<rparr>)"

definition is_tls_provider_error :: "exn \<Rightarrow> bool" where
  "is_tls_provider_error e = (case e of TlsProviderError _ \<Rightarrow> True | _ \<Rightarrow> False)"

section \<open>Registry\<close>

definition registry_new :: "bool \<Rightarrow> bool \<Rightarrow> tls_registry result" where
  "registry_new owns_providers close_on_last_manager =
     (if close_on_last_manager \<and> \<not> owns_providers
      then Inl (ValueError ''manager-owned TLS registry must own its providers'')
      else Inr \<lparr>rg_owns_providers = owns_providers, rg_close_on_last_manager = close_on_last_manager,
                rg_manager_leases = 0, rg_closed = False, rg_close_started = [], rg_providers = [], rg_info = []\<rparr>)"

definition required_methods :: "string list" where
  "required_methods = [''create_server_context'', ''new_connection'', ''handshake'', ''set_server_context'',
     ''selected_alpn'', ''read'', ''write'', ''close_notify'', ''free_connection'', ''free_context'']"

definition register_checked :: "tls_registry \<Rightarrow> provider_attributes \<Rightarrow> (string \<Rightarrow> bool) \<Rightarrow> unit result" where
  "register_checked rg a callable =
     (if \<not> valid_provider_name (at_name a) then Inl (TlsProviderError ''TLS provider name is invalid or duplicated'')
      else if at_abi_version a \<noteq> TLS_PROVIDER_ABI_VERSION
      then Inl (TlsProviderError ''unsupported TLS provider ABI version'')
      else if at_link_boundary a = [] \<or> at_license_id a = [] \<or> at_security_boundary a = []
      then Inl (TlsProviderError ''TLS provider is missing an attribute'')
      else if at_production_ready a = None
      then Inl (TlsProviderError ''TLS provider must label production readiness'')
      else if \<not> list_all callable required_methods then Inl (TlsProviderError ''TLS provider is missing a method'')
      else if rg_owns_providers rg \<and> \<not> callable ''close''
      then Inl (TlsProviderError ''owned TLS provider is missing close'')
      else Inr ())"

definition registry_register :: "('p, 'c, 's) tls_env \<Rightarrow> nat \<Rightarrow> (('p, 'c, 's) tls_world, unit) prog" where
  "registry_register env p = reading (\<lambda>w.
     let rg = tw_registry w; a = pv_attributes (env p) (tw_state w) in
     case register_checked rg a (pv_callable (env p)) of
       Inl e \<Rightarrow> throw e
     | Inr _ \<Rightarrow>
         if rg_closed rg then throw (TlsProviderError ''TLS provider registry is closed'')
         else if at_name a \<in> set (dict_keys (rg_providers rg))
         then throw (TlsProviderError ''TLS provider name is invalid or duplicated'')
         else on_registry (\<lambda>rg. rg\<lparr>rg_providers := dict_set (at_name a) p (rg_providers rg),
                rg_info := dict_set (at_name a) (provider_info_new a) (rg_info rg)\<rparr>))"

definition lookup_locked :: "tls_registry \<Rightarrow> pystr \<Rightarrow> bool \<Rightarrow> nat result" where
  "lookup_locked rg name require_production =
     (if rg_closed rg then Inl (TlsProviderError ''TLS provider registry is closed'')
      else case map_of (rg_providers rg) name of
        None \<Rightarrow> Inl (TlsProviderError ''unknown TLS provider'')
      | Some p \<Rightarrow>
          (case map_of (rg_info rg) name of
             None \<Rightarrow> Inl (KeyError ''provider_info'')
           | Some i \<Rightarrow>
               if require_production \<and> \<not> pi_production_ready i
               then Inl (TlsProviderError ''TLS provider is test-only'') else Inr p))"

text \<open>The snapshot is refreshed when the provider is still the registered one.\<close>

definition refresh_info :: "pystr \<Rightarrow> nat \<Rightarrow> provider_info \<Rightarrow> tls_registry \<Rightarrow> tls_registry" where
  "refresh_info name p i rg =
     (if \<not> rg_closed rg \<and> map_of (rg_providers rg) name = Some p
      then rg\<lparr>rg_info := dict_set name i (rg_info rg)\<rparr> else rg)"

definition registry_activate ::
  "('p, 'c, 's) tls_env \<Rightarrow> pystr \<Rightarrow> nat \<Rightarrow> bool \<Rightarrow> (('p, 'c, 's) tls_world, nat) prog" where
  "registry_activate env name p require_production =
     (if \<not> require_production then ret p
      else case pv_activate (env p) of
        None \<Rightarrow> ret p
      | Some activate \<Rightarrow>
          thenp (catching (provider_call activate)
              (\<lambda>e. throw (if is_tls_provider_error e then e else TlsProviderError ''TLS provider activation failed'')))
            (thenp (reading (\<lambda>w. on_registry
                (refresh_info name p (provider_info_new (pv_attributes (env p) (tw_state w))))))
              (ret p)))"

definition registry_get :: "('p, 'c, 's) tls_env \<Rightarrow> pystr \<Rightarrow> bool \<Rightarrow> (('p, 'c, 's) tls_world, nat) prog" where
  "registry_get env name require_production = reading (\<lambda>w.
     case lookup_locked (tw_registry w) name require_production of
       Inl e \<Rightarrow> throw e
     | Inr p \<Rightarrow> registry_activate env name p require_production)"

definition providers_to_close :: "tls_registry \<Rightarrow> tls_registry \<times> (pystr \<times> nat) list" where
  "providers_to_close rg =
     (if \<not> rg_owns_providers rg \<or> \<not> rg_closed rg \<or> rg_manager_leases rg \<noteq> 0 then (rg, [])
      else let pending = filter (\<lambda>e. fst e \<notin> set (rg_close_started rg)) (rg_providers rg) in
        (rg\<lparr>rg_close_started := rg_close_started rg @ map fst pending\<rparr>, pending))"

definition close_provider :: "('p, 'c, 's) tls_env \<Rightarrow> pystr \<times> nat \<Rightarrow> (('p, 'c, 's) tls_world, unit) prog" where
  "close_provider env e =
     (if \<not> pv_callable (env (snd e)) ''close'' then ret ()
      else thenp (change (\<lambda>w. w\<lparr>tw_shut := fst e # tw_shut w\<rparr>)) (provider_call (pv_close (env (snd e)))))"

text \<open>Every provider is asked; the count of those that did not raise, or the cleanup error.\<close>

fun close_each :: "('p, 'c, 's) tls_env \<Rightarrow> (pystr \<times> nat) list \<Rightarrow> int \<Rightarrow> bool \<Rightarrow>
    (('p, 'c, 's) tls_world, int) prog" where
  "close_each env [] closed failed =
     (if failed then throw (TlsProviderError ''TLS provider registry cleanup failed'') else ret closed)"
| "close_each env (e # es) closed failed =
     (\<lambda>w. case close_provider env e w of
        (w', Inl _) \<Rightarrow> close_each env es closed True w'
      | (w', Inr _) \<Rightarrow>
          close_each env es (if pv_callable (env (snd e)) ''close'' then closed + 1 else closed) failed w')"

definition close_pending :: "('p, 'c, 's) tls_env \<Rightarrow> (('p, 'c, 's) tls_world, int) prog" where
  "close_pending env = reading (\<lambda>w. case providers_to_close (tw_registry w) of
     (rg, pending) \<Rightarrow> thenp (on_registry (\<lambda>_. rg)) (close_each env pending 0 False))"

definition release_manager :: "('p, 'c, 's) tls_env \<Rightarrow> (('p, 'c, 's) tls_world, int) prog" where
  "release_manager env = reading (\<lambda>w.
     if rg_manager_leases (tw_registry w) \<le> 0
     then throw (TlsProviderError ''TLS registry manager lease released twice'')
     else thenp (on_registry (\<lambda>rg.
            rg\<lparr>rg_manager_leases := rg_manager_leases rg - 1,
               rg_closed := (rg_closed rg \<or> rg_close_on_last_manager rg \<and> rg_manager_leases rg - 1 = 0)\<rparr>))
          (close_pending env))"

definition acquire_manager :: "('p, 'c, 's) tls_env \<Rightarrow> pystr \<Rightarrow> bool \<Rightarrow> (('p, 'c, 's) tls_world, nat) prog" where
  "acquire_manager env name require_production = reading (\<lambda>w.
     case lookup_locked (tw_registry w) name require_production of
       Inl e \<Rightarrow> throw e
     | Inr p \<Rightarrow>
         thenp (on_registry (\<lambda>rg. rg\<lparr>rg_manager_leases := rg_manager_leases rg + 1\<rparr>))
           (catching (registry_activate env name p require_production)
              (\<lambda>e. thenp (release_manager env) (throw e))))"

definition registry_close :: "('p, 'c, 's) tls_env \<Rightarrow> (('p, 'c, 's) tls_world, int) prog" where
  "registry_close env = reading (\<lambda>w.
     if rg_closed (tw_registry w) then ret 0
     else thenp (on_registry (\<lambda>rg. rg\<lparr>rg_closed := True\<rparr>)) (close_pending env))"

definition registry_info :: "pystr \<Rightarrow> (('p, 'c, 's) tls_world, provider_info) prog" where
  "registry_info name = reading (\<lambda>w. case map_of (rg_info (tw_registry w)) name of
     None \<Rightarrow> throw (TlsProviderError ''unknown TLS provider'') | Some i \<Rightarrow> ret i)"

end
