(* ===== verification/Tls_Channel.thy ===== *)
theory Tls_Channel
  imports Tls_Provider
begin

text \<open>
  Model of \<open>TlsGeneration\<close> and \<open>TlsChannel\<close> of \<open>pcc_gateway/tls.py\<close>.  A generation lives in the shared
  world under its address; every method is one atomic call, since it holds the lock while it
  changes the object and only frees what it took out under the lock afterwards.  A channel is
  owned by one connection: its operations run on the channel record and the world.  The ghost
  field \<open>ch_calls\<close> lists the calls the channel made for its session.
\<close>

section \<open>Generations\<close>

text \<open>The provider calls of a generation, with their ledgers.\<close>

definition create_context ::
  "('p, 'c, 's) tls_env \<Rightarrow> nat \<Rightarrow> tls_config \<Rightarrow> tls_certificate \<Rightarrow> (('p, 'c, 's) tls_world, 'c option) prog" where
  "create_context env p config certificate =
     andthen (provider_call (pv_create_server_context (env p) config certificate))
       (\<lambda>r. case r of None \<Rightarrow> ret None
            | Some c \<Rightarrow> thenp (change (\<lambda>w. w\<lparr>tw_created := c # tw_created w\<rparr>)) (ret (Some c)))"

definition free_context :: "('p, 'c, 's) tls_env \<Rightarrow> nat \<Rightarrow> 'c \<Rightarrow> (('p, 'c, 's) tls_world, unit) prog" where
  "free_context env p c =
     thenp (change (\<lambda>w. w\<lparr>tw_freed := c # tw_freed w\<rparr>)) (provider_call (pv_free_context (env p) c))"

definition free_contexts :: "('p, 'c, 's) tls_env \<Rightarrow> nat \<Rightarrow> 'c list option \<Rightarrow> (('p, 'c, 's) tls_world, unit) prog" where
  "free_contexts env p contexts =
     (case contexts of
        None \<Rightarrow> ret ()
      | Some cs \<Rightarrow> catching (first_error (map (free_context env p) (rev cs)))
          (\<lambda>_. throw (TlsProviderError ''TLS provider context cleanup failed'')))"

text \<open>The loop of the constructor: the contexts so far, their dictionary and the error that stopped it.\<close>

fun create_contexts ::
  "('p, 'c, 's) tls_env \<Rightarrow> nat \<Rightarrow> tls_config \<Rightarrow> tls_certificate list \<Rightarrow> 'c list \<Rightarrow> (pystr \<times> 'c) list \<Rightarrow>
   (('p, 'c, 's) tls_world, 'c list \<times> (pystr \<times> 'c) list \<times> exn option) prog" where
  "create_contexts env p config [] contexts by_identifier = ret (contexts, by_identifier, None)"
| "create_contexts env p config (certificate # rest) contexts by_identifier =
     (\<lambda>w. case create_context env p config certificate w of
        (w', Inl e) \<Rightarrow> (w', Inr (contexts, by_identifier, Some e))
      | (w', Inr None) \<Rightarrow>
          (w', Inr (contexts, by_identifier, Some (TlsProviderError ''TLS provider failed to create context'')))
      | (w', Inr (Some c)) \<Rightarrow>
          create_contexts env p config rest (contexts @ [c]) (dict_set (tc_identifier certificate) c by_identifier) w')"

definition generation_object ::
  "int \<Rightarrow> nat \<Rightarrow> provider_info \<Rightarrow> tls_config \<Rightarrow> 'c list \<Rightarrow> (pystr \<times> 'c) list \<Rightarrow> 'c \<Rightarrow> 'c tls_generation" where
  "generation_object generation_id p info config contexts by_identifier context =
     \<lparr>tn_generation_id = generation_id, tn_provider = p, tn_info = info, tn_config = config, tn_references = 1,
      tn_retired = False, tn_destroyed = False, tn_contexts = contexts, tn_context_by_identifier = by_identifier,
      tn_context = Some context\<rparr>"

text \<open>The object is published at the next free address, which is returned.\<close>

definition place_generation :: "'c tls_generation \<Rightarrow> (('p, 'c, 's) tls_world, nat) prog" where
  "place_generation n = (\<lambda>w. (w\<lparr>tw_generations := tw_generations w @ [n]\<rparr>, Inr (length (tw_generations w))))"

definition tls_generation_new ::
  "('p, 'c, 's) tls_env \<Rightarrow> int \<Rightarrow> nat \<Rightarrow> tls_config \<Rightarrow> (('p, 'c, 's) tls_world, nat) prog" where
  "tls_generation_new env generation_id p config =
     (if generation_id \<le> 0 then throw (ValueError ''TLS generation id must be positive'')
      else reading (\<lambda>w0. let info = provider_info_new (pv_attributes (env p) (tw_state w0)) in
        andthen (create_contexts env p config (tg_default config # tg_sni_certificates config) [] [])
          (\<lambda>(contexts, by_identifier, failure).
             case failure of
               Some e \<Rightarrow>
                 thenp (catching (free_contexts env p (Some contexts))
                     (\<lambda>_. throw (TlsProviderError ''TLS provider context creation cleanup failed'')))
                   (throw (if is_tls_provider_error e then e
                           else TlsProviderError ''TLS provider context creation failed''))
             | None \<Rightarrow>
                 (case map_of by_identifier (tc_identifier (tg_default config)) of
                    None \<Rightarrow> throw (KeyError ''default context'')
                  | Some context \<Rightarrow>
                      place_generation (generation_object generation_id p info config contexts by_identifier context)))))"

abbreviation generation_at :: "('p, 'c, 's) tls_world \<Rightarrow> nat \<Rightarrow> 'c tls_generation" where
  "generation_at w g \<equiv> tw_generations w ! g"

definition put_generation :: "nat \<Rightarrow> 'c tls_generation \<Rightarrow> (('p, 'c, 's) tls_world, unit) prog" where
  "put_generation g n = change (\<lambda>w. w\<lparr>tw_generations := (tw_generations w)[g := n]\<rparr>)"

definition tls_retain :: "nat \<Rightarrow> (('p, 'c, 's) tls_world, unit) prog" where
  "tls_retain g = reading (\<lambda>w. let n = generation_at w g in
     if tn_references n \<le> 0 \<or> tn_destroyed n then throw (TlsProviderError ''TLS generation is released'')
     else put_generation g (n\<lparr>tn_references := tn_references n + 1\<rparr>))"

definition take_contexts_locked :: "'c tls_generation \<Rightarrow> 'c tls_generation \<times> 'c list option" where
  "take_contexts_locked n =
     (if tn_destroyed n then (n, None)
      else (n\<lparr>tn_contexts := [], tn_context_by_identifier := [], tn_context := None, tn_destroyed := True\<rparr>,
            Some (tn_contexts n)))"

text \<open>One reference less; the last one takes the contexts out.\<close>

definition drop_tls_reference :: "'c tls_generation \<Rightarrow> 'c tls_generation \<times> 'c list option" where
  "drop_tls_reference n =
     (let n1 = n\<lparr>tn_references := tn_references n - 1\<rparr> in
      if tn_references n1 = 0 then take_contexts_locked n1 else (n1, None))"

definition finish_drop :: "('p, 'c, 's) tls_env \<Rightarrow> nat \<Rightarrow> 'c tls_generation \<times> 'c list option \<Rightarrow>
    (('p, 'c, 's) tls_world, int) prog" where
  "finish_drop env g = (\<lambda>(n, contexts).
     thenp (put_generation g n)
       (thenp (free_contexts env (tn_provider n) contexts) (ret (if contexts \<noteq> None then 1 else 0))))"

definition tls_release :: "('p, 'c, 's) tls_env \<Rightarrow> nat \<Rightarrow> (('p, 'c, 's) tls_world, int) prog" where
  "tls_release env g = reading (\<lambda>w. let n = generation_at w g in
     if tn_references n \<le> 0 \<or> tn_destroyed n
     then throw (TlsProviderError ''TLS generation released more than once'')
     else finish_drop env g (drop_tls_reference n))"

definition tls_retire :: "('p, 'c, 's) tls_env \<Rightarrow> nat \<Rightarrow> (('p, 'c, 's) tls_world, int) prog" where
  "tls_retire env g = reading (\<lambda>w. let n = generation_at w g in
     if tn_retired n then ret 0
     else if tn_references n \<le> 0 \<or> tn_destroyed n
     then throw (TlsProviderError ''TLS generation released more than once'')
     else finish_drop env g (drop_tls_reference (n\<lparr>tn_retired := True\<rparr>)))"

definition tls_context :: "nat \<Rightarrow> (('p, 'c, 's) tls_world, 'c) prog" where
  "tls_context g = reading (\<lambda>w. let n = generation_at w g in
     case tn_context n of
       Some c \<Rightarrow> if tn_destroyed n then throw (TlsProviderError ''TLS generation is released'') else ret c
     | None \<Rightarrow> throw (TlsProviderError ''TLS generation is released''))"

definition select_context :: "nat \<Rightarrow> pystr \<Rightarrow> (('p, 'c, 's) tls_world, ('c \<times> pystr) option) prog" where
  "select_context g server_name = reading (\<lambda>w. let n = generation_at w g in
     case select_certificate (tn_config n) server_name of
       Inl e \<Rightarrow> throw e
     | Inr None \<Rightarrow> ret None
     | Inr (Some certificate) \<Rightarrow>
         if tn_destroyed n then throw (TlsProviderError ''TLS generation is released'')
         else case map_of (tn_context_by_identifier n) (tc_identifier certificate) of
           None \<Rightarrow> throw (TlsProviderError ''TLS generation context is missing'')
         | Some c \<Rightarrow> ret (Some (c, tc_identifier certificate)))"

section \<open>Channels\<close>

datatype session_call = CallHandshake | CallSetContext | CallAlpn | CallRead | CallWrite | CallCloseNotify | CallFree

record 's tls_channel =
  ch_provider :: nat
  ch_generation :: "nat option"
  ch_session :: "'s option"
  ch_fd :: int
  ch_handshake_complete :: bool
  ch_sni_selected :: bool
  ch_server_name :: pystr
  ch_certificate_id :: pystr
  ch_alpn :: pystr
  ch_peer_closed :: bool
  ch_close_notify_started :: bool
  ch_close_notify_complete :: bool
  ch_failed :: bool
  ch_released :: bool
  ch_closed :: bool
  ch_last_error :: string
  ch_last_result :: tls_answer
  ch_calls :: "session_call list"   \<comment> \<open>ghost, oldest first\<close>

definition channel_object :: "nat \<Rightarrow> nat \<Rightarrow> 's \<Rightarrow> int \<Rightarrow> pystr \<Rightarrow> 's tls_channel" where
  "channel_object p g session fd certificate_id =
     \<lparr>ch_provider = p, ch_generation = Some g, ch_session = Some session, ch_fd = fd,
      ch_handshake_complete = False, ch_sni_selected = False, ch_server_name = [], ch_certificate_id = certificate_id,
      ch_alpn = [], ch_peer_closed = False, ch_close_notify_started = False, ch_close_notify_complete = False,
      ch_failed = False, ch_released = False, ch_closed = False, ch_last_error = ''none'',
      ch_last_result = tls_answer_new TLS_OK, ch_calls = []\<rparr>"

definition new_connection ::
  "('p, 'c, 's) tls_env \<Rightarrow> nat \<Rightarrow> 'c \<Rightarrow> int \<Rightarrow> (('p, 'c, 's) tls_world, 's option) prog" where
  "new_connection env p c fd =
     andthen (provider_call (pv_new_connection (env p) c fd))
       (\<lambda>r. case r of None \<Rightarrow> ret None
            | Some s \<Rightarrow> thenp (change (\<lambda>w. w\<lparr>tw_opened := s # tw_opened w\<rparr>)) (ret (Some s)))"

definition tls_channel_new ::
  "('p, 'c, 's) tls_env \<Rightarrow> nat \<Rightarrow> int \<Rightarrow> bool \<Rightarrow> (('p, 'c, 's) tls_world, 's tls_channel) prog" where
  "tls_channel_new env g fd generation_retained =
     (if fd < 0 then throw (ValueError ''TLS channel requires a nonnegative socket fd'')
      else thenp (unless generation_retained (tls_retain g))
        (reading (\<lambda>w. let n = generation_at w g; p = tn_provider n in
           andthen
             (catching (andthen (tls_context g) (\<lambda>c. new_connection env p c fd))
                (\<lambda>_. thenp (tls_release env g)
                       (throw (TlsProviderError ''TLS provider connection creation failed''))))
             (\<lambda>session. case session of
                None \<Rightarrow> thenp (tls_release env g)
                          (throw (TlsProviderError ''TLS provider failed to create connection''))
              | Some s \<Rightarrow> ret (channel_object p g s fd (tc_identifier (tg_default (tn_config n))))))))"

type_synonym ('p, 'c, 's) chan_state = "'s tls_channel \<times> ('p, 'c, 's) tls_world"

definition on_channel :: "('s tls_channel \<Rightarrow> 's tls_channel) \<Rightarrow> (('p, 'c, 's) chan_state, unit) prog" where
  "on_channel f = change (\<lambda>(c, w). (f c, w))"

definition on_world :: "(('p, 'c, 's) tls_world, 'a) prog \<Rightarrow> (('p, 'c, 's) chan_state, 'a) prog" where
  "on_world m = (\<lambda>(c, w). case m w of (w', r) \<Rightarrow> ((c, w'), r))"

definition remember :: "tls_answer \<Rightarrow> 's tls_channel \<Rightarrow> 's tls_channel" where
  "remember r c = c\<lparr>ch_last_result := r, ch_last_error := tls_error_name (ta_error_code r),
     ch_failed := (ch_failed c \<or> ta_status r = TLS_ERROR)\<rparr>"

definition remembered :: "tls_answer \<Rightarrow> (('p, 'c, 's) chan_state, tls_answer) prog" where
  "remembered r = thenp (on_channel (remember r)) (ret r)"

definition provider_failure :: "(('p, 'c, 's) chan_state, tls_answer) prog" where
  "provider_failure = remembered (tls_error TLS_ERR_PROVIDER)"

definition contract_failure :: "(('p, 'c, 's) chan_state, tls_answer) prog" where
  "contract_failure = remembered (tls_error TLS_ERR_PROVIDER_CONTRACT)"

text \<open>\<open>call_result\<close>; the call is logged.\<close>

definition call_result ::
  "session_call \<Rightarrow> ('p \<Rightarrow> 'p \<times> tls_answer option result) \<Rightarrow> (('p, 'c, 's) chan_state, tls_answer) prog" where
  "call_result k f =
     thenp (on_channel (\<lambda>c. c\<lparr>ch_calls := ch_calls c @ [k]\<rparr>))
       (\<lambda>s. case on_world (provider_call f) s of
          (s', Inl _) \<Rightarrow> provider_failure s'
        | (s', Inr None) \<Rightarrow> contract_failure s'
        | (s', Inr (Some r)) \<Rightarrow> (s', Inr r))"

definition validate_result :: "string \<Rightarrow> tls_answer \<Rightarrow> int \<Rightarrow> (('p, 'c, 's) chan_state, tls_answer) prog" where
  "validate_result operation r limit =
     (if ta_status r \<notin> {TLS_OK, TLS_WANT_READ, TLS_WANT_WRITE, TLS_CLOSED, TLS_SELECT_SNI, TLS_ERROR}
      then contract_failure
      else if ta_status r = TLS_SELECT_SNI \<and> operation \<noteq> ''handshake'' then contract_failure
      else if ta_status r = TLS_SELECT_SNI \<and> ta_server_name r = [] then contract_failure
      else if ta_status r \<noteq> TLS_SELECT_SNI \<and> ta_server_name r \<noteq> [] then contract_failure
      else if ta_status r = TLS_ERROR then
        (if ta_error_code r \<le> TLS_ERR_NONE \<or> ta_error_code r > TLS_ERR_INTERNAL then contract_failure
         else if ta_count r \<noteq> 0 then contract_failure
         else remembered r)
      else if ta_error_code r \<noteq> TLS_ERR_NONE then contract_failure
      else if operation \<in> {''read'', ''write''} \<and> ta_status r = TLS_OK then
        (if ta_count r \<le> 0 \<or> ta_count r > limit then contract_failure else remembered r)
      else if ta_count r \<noteq> 0 then contract_failure
      else remembered r)"

text \<open>A checked provider call: a failure of the call itself is returned at once, any other result is validated
  and handed on.\<close>

definition checked_call ::
  "string \<Rightarrow> session_call \<Rightarrow> int \<Rightarrow> ('p \<Rightarrow> 'p \<times> tls_answer option result) \<Rightarrow>
   (tls_answer \<Rightarrow> (('p, 'c, 's) chan_state, tls_answer) prog) \<Rightarrow> (('p, 'c, 's) chan_state, tls_answer) prog" where
  "checked_call operation k limit f continue =
     andthen (call_result k f) (\<lambda>r. reading (\<lambda>(c, w).
       if ta_status r = TLS_ERROR \<and> ch_failed c then ret r
       else andthen (validate_result operation r limit) continue))"

definition tls_deadline :: "int \<Rightarrow> int \<Rightarrow> tls_answer option" where
  "tls_deadline now_ms deadline_ms =
     (if now_ms < 0 \<or> deadline_ms \<le> 0 then Some (tls_error TLS_ERR_CONFIGURATION)
      else if now_ms \<ge> deadline_ms then Some (tls_error TLS_ERR_DEADLINE) else None)"

text \<open>What \<open>preflight\<close> lets through gets the session.\<close>

definition with_preflight ::
  "int \<Rightarrow> int \<Rightarrow> ('s \<Rightarrow> 's tls_channel \<Rightarrow> (('p, 'c, 's) chan_state, tls_answer) prog) \<Rightarrow>
   (('p, 'c, 's) chan_state, tls_answer) prog" where
  "with_preflight now_ms deadline_ms body = reading (\<lambda>(c, w).
     case ch_session c of
       None \<Rightarrow> remembered (tls_answer_new TLS_CLOSED)
     | Some s \<Rightarrow>
         if ch_released c then remembered (tls_answer_new TLS_CLOSED)
         else if ch_failed c then ret (ch_last_result c)
         else if ch_closed c then remembered (tls_answer_new TLS_CLOSED)
         else case tls_deadline now_ms deadline_ms of
           Some r \<Rightarrow> remembered r
         | None \<Rightarrow> body s c)"

section \<open>Channel operations\<close>

definition sni_answer :: "pystr \<Rightarrow> tls_answer" where
  "sni_answer name = \<lparr>ta_status = TLS_SELECT_SNI, ta_count = 0, ta_error_code = TLS_ERR_NONE, ta_server_name = name\<rparr>"

text \<open>The part of \<open>handshake\<close> after the client named a server.\<close>

definition choose_server ::
  "('p, 'c, 's) tls_env \<Rightarrow> 's \<Rightarrow> tls_answer \<Rightarrow> (('p, 'c, 's) chan_state, tls_answer) prog" where
  "choose_server env s r = reading (\<lambda>(c, w).
     if ch_sni_selected c then contract_failure
     else case normalize_sni_name (ta_server_name r) False of
       Inl _ \<Rightarrow> remembered (tls_error TLS_ERR_PROTOCOL)
     | Inr normalized \<Rightarrow>
         (case ch_generation c of
            None \<Rightarrow> throw (AttributeError ''select_context'')
          | Some g \<Rightarrow>
              andthen (on_world (select_context g normalized)) (\<lambda>chosen. case chosen of
                None \<Rightarrow> remembered (tls_error TLS_ERR_UNRECOGNIZED_NAME)
              | Some (context, certificate_id) \<Rightarrow>
                  checked_call ''set_server_context'' CallSetContext 0
                    (pv_set_server_context (env (ch_provider c)) s context) (\<lambda>selected.
                      if ta_status selected \<noteq> TLS_OK then contract_failure
                      else thenp (on_channel (\<lambda>c. c\<lparr>ch_sni_selected := True, ch_server_name := normalized,
                                                  ch_certificate_id := certificate_id\<rparr>))
                        (remembered (sni_answer normalized))))))"

text \<open>The part of \<open>handshake\<close> after the provider completed it.\<close>

definition choose_protocol ::
  "('p, 'c, 's) tls_env \<Rightarrow> 's \<Rightarrow> tls_answer \<Rightarrow> (('p, 'c, 's) chan_state, tls_answer) prog" where
  "choose_protocol env s r = reading (\<lambda>(c, w).
     thenp (on_channel (\<lambda>c. c\<lparr>ch_calls := ch_calls c @ [CallAlpn]\<rparr>))
       (\<lambda>st. case on_world (provider_call (pv_selected_alpn (env (ch_provider c)) s)) st of
          (st', Inl _) \<Rightarrow> provider_failure st'
        | (st', Inr None) \<Rightarrow> contract_failure st'
        | (st', Inr (Some alpn)) \<Rightarrow>
            (case ch_generation c of
               None \<Rightarrow> throw (AttributeError ''config'')
             | Some g \<Rightarrow>
                 if alpn \<noteq> [] \<and> alpn \<notin> set (tg_alpn (tn_config (generation_at (snd st') g)))
                 then remembered (tls_error TLS_ERR_ALPN)
                 else thenp (on_channel (\<lambda>c. c\<lparr>ch_alpn := alpn, ch_handshake_complete := True\<rparr>)) (ret r)) st'))"

definition note_peer_closed :: "tls_answer \<Rightarrow> (('p, 'c, 's) chan_state, tls_answer) prog" where
  "note_peer_closed r =
     (if ta_status r = TLS_CLOSED then thenp (on_channel (\<lambda>c. c\<lparr>ch_peer_closed := True\<rparr>)) (ret r) else ret r)"

definition tls_handshake ::
  "('p, 'c, 's) tls_env \<Rightarrow> int \<Rightarrow> int \<Rightarrow> (('p, 'c, 's) chan_state, tls_answer) prog" where
  "tls_handshake env now_ms deadline_ms = with_preflight now_ms deadline_ms (\<lambda>s c.
     if ch_handshake_complete c then remembered (tls_answer_new TLS_OK)
     else checked_call ''handshake'' CallHandshake 0 (pv_handshake (env (ch_provider c)) s) (\<lambda>r.
       if ta_status r = TLS_SELECT_SNI then choose_server env s r
       else if ta_status r = TLS_OK then choose_protocol env s r
       else note_peer_closed r))"

definition tls_read ::
  "('p, 'c, 's) tls_env \<Rightarrow> int \<Rightarrow> int \<Rightarrow> int \<Rightarrow> int \<Rightarrow> (('p, 'c, 's) chan_state, tls_answer) prog" where
  "tls_read env capacity limit now_ms deadline_ms = with_preflight now_ms deadline_ms (\<lambda>s c.
     if \<not> ch_handshake_complete c then remembered (tls_error TLS_ERR_CONFIGURATION)
     else if limit \<le> 0 \<or> limit > capacity then remembered (tls_error TLS_ERR_CONFIGURATION)
     else checked_call ''read'' CallRead limit (pv_read (env (ch_provider c)) s limit) note_peer_closed)"

definition tls_write ::
  "('p, 'c, 's) tls_env \<Rightarrow> bytes \<Rightarrow> int \<Rightarrow> int \<Rightarrow> int \<Rightarrow> (('p, 'c, 's) chan_state, tls_answer) prog" where
  "tls_write env data amount now_ms deadline_ms = with_preflight now_ms deadline_ms (\<lambda>s c.
     if \<not> ch_handshake_complete c then remembered (tls_error TLS_ERR_CONFIGURATION)
     else if ch_close_notify_started c then remembered (tls_error TLS_ERR_CONFIGURATION)
     else if amount \<le> 0 \<or> amount > int (length data) then remembered (tls_error TLS_ERR_CONFIGURATION)
     else checked_call ''write'' CallWrite amount (pv_write (env (ch_provider c)) s data amount) ret)"

definition tls_close_notify ::
  "('p, 'c, 's) tls_env \<Rightarrow> int \<Rightarrow> int \<Rightarrow> (('p, 'c, 's) chan_state, tls_answer) prog" where
  "tls_close_notify env now_ms deadline_ms = with_preflight now_ms deadline_ms (\<lambda>s c.
     if \<not> ch_handshake_complete c then remembered (tls_error TLS_ERR_CONFIGURATION)
     else if ch_close_notify_complete c then remembered (tls_answer_new TLS_CLOSED)
     else thenp (on_channel (\<lambda>c. c\<lparr>ch_close_notify_started := True\<rparr>))
       (checked_call ''close_notify'' CallCloseNotify 0 (pv_close_notify (env (ch_provider c)) s) (\<lambda>r.
          if ta_status r = TLS_OK then contract_failure
          else if ta_status r = TLS_CLOSED
          then thenp (on_channel (\<lambda>c. c\<lparr>ch_close_notify_complete := True, ch_closed := True\<rparr>)) (ret r)
          else ret r)))"

definition tls_cancel :: "(('p, 'c, 's) chan_state, tls_answer) prog" where
  "tls_cancel = reading (\<lambda>(c, w).
     if ch_released c then remembered (tls_answer_new TLS_CLOSED) else remembered (tls_error TLS_ERR_CANCELLED))"

definition free_connection :: "('p, 'c, 's) tls_env \<Rightarrow> nat \<Rightarrow> 's \<Rightarrow> (('p, 'c, 's) tls_world, unit) prog" where
  "free_connection env p s =
     thenp (change (\<lambda>w. w\<lparr>tw_ended := s # tw_ended w\<rparr>)) (provider_call (pv_free_connection (env p) s))"

text \<open>The session and the reference are given back, each attempted whatever the other does.\<close>

definition drop_session :: "('p, 'c, 's) tls_env \<Rightarrow> nat \<Rightarrow> 's option \<Rightarrow> (('p, 'c, 's) chan_state, unit) prog" where
  "drop_session env p session =
     (case session of
        None \<Rightarrow> ret ()
      | Some s \<Rightarrow> thenp (on_channel (\<lambda>c. c\<lparr>ch_calls := ch_calls c @ [CallFree]\<rparr>))
          (on_world (free_connection env p s)))"

definition drop_generation :: "('p, 'c, 's) tls_env \<Rightarrow> nat option \<Rightarrow> (('p, 'c, 's) chan_state, unit) prog" where
  "drop_generation env generation =
     (case generation of
        None \<Rightarrow> ret ()
      | Some g \<Rightarrow> on_world (thenp (tls_release env g) (ret ())))"

definition tls_close :: "('p, 'c, 's) tls_env \<Rightarrow> (('p, 'c, 's) chan_state, tls_answer) prog" where
  "tls_close env = reading (\<lambda>(c, w).
     if ch_released c then ret (tls_answer_new TLS_CLOSED)
     else thenp (on_channel (\<lambda>c. c\<lparr>ch_released := True, ch_closed := True, ch_session := None, ch_generation := None\<rparr>))
       (\<lambda>st. case first_error [drop_session env (ch_provider c) (ch_session c), drop_generation env (ch_generation c)] st of
          (st', Inl _) \<Rightarrow> remembered (tls_error TLS_ERR_PROVIDER) st'
        | (st', Inr _) \<Rightarrow> remembered (tls_answer_new TLS_CLOSED) st'))"

end
