(* ===== verification/Tls_Session.thy ===== *)
theory Tls_Session
  imports Tls_Channel
begin

text \<open>
  Properties of one TLS channel under an arbitrary provider: the shape of every answer, the order
  of the calls it makes for its session, and that it only raises when its generation is gone.
\<close>

section \<open>Normalised names\<close>

lemma lower_cp_dot: "lower_cp c = 46 \<longleftrightarrow> c = 46"
  by (auto simp: lower_cp_def)

lemma rstrip_lower: "rstrip_by (\<lambda>c. c = 46) (py_lower s) = py_lower (rstrip_by (\<lambda>c. c = 46) s)"
  by (simp add: rstrip_by_def py_lower_def rev_map dropWhile_map comp_def lower_cp_dot)

lemma canon_name_idem: "canon_name (canon_name s) = canon_name s"
  by (simp add: canon_name_def rstrip_lower)

lemma normalize_sni_is_canon:
  assumes "normalize_sni_name s w = Inr n"
  shows "n = canon_name s"
proof -
  have "take 2 (canon_name s) = [42, 46] \<Longrightarrow> 42 # 46 # drop 2 (canon_name s) = canon_name s"
    by (metis append_Cons append_Nil append_take_drop_id)
  with assms show ?thesis
    by (auto simp: normalize_sni_name_def Let_def rbind_eq_Inr split: if_splits)
qed

lemma normalize_sni_idem:
  assumes "normalize_sni_name s w = Inr n"
  shows "normalize_sni_name n w = Inr n"
proof -
  from normalize_sni_is_canon [OF assms] have "canon_name n = canon_name s" by (simp add: canon_name_idem)
  then have "normalize_sni_name n w = normalize_sni_name s w" by (simp only: normalize_sni_name_def)
  with assms show ?thesis by simp
qed

section \<open>Selection finds a context\<close>

text \<open>A generation that can serve: it is not released and has a context for each of its certificates.\<close>

definition generation_ready :: "'c tls_generation \<Rightarrow> bool" where
  "generation_ready n \<longleftrightarrow> 0 < tn_references n \<and> \<not> tn_destroyed n \<and> tn_context n \<noteq> None \<and>
     (\<forall>c \<in> set (tg_default (tn_config n) # tg_sni_certificates (tn_config n)).
        map_of (tn_context_by_identifier n) (tc_identifier c) \<noteq> None)"

lemma select_loop_member:
  assumes "\<forall>e \<in> set patterns. snd e \<in> S" "\<forall>c. best = Some c \<longrightarrow> c \<in> S"
  shows "case select_loop n patterns best len of Inl c \<Rightarrow> c \<in> S | Inr b \<Rightarrow> \<forall>c. b = Some c \<longrightarrow> c \<in> S"
  using assms by (induction n patterns best len rule: select_loop.induct) (auto simp: Let_def)

lemma selected_certificate_configured:
  assumes "select_certificate config name = Inr (Some c)"
  shows "c \<in> set (tg_default config # tg_sni_certificates config)"
  using assms select_loop_member [of "sni_patterns config" "set (tg_sni_certificates config)" None
    "canon_name name" "-1"]
  by (auto simp: select_certificate_def rbind_eq_Inr sni_patterns_def dest!: normalize_sni_is_canon
      split: if_splits sum.splits option.splits)

lemma select_certificate_total:
  "normalize_sni_name name False = Inr n \<Longrightarrow> \<exists>c. select_certificate config name = Inr c"
  by (auto simp: select_certificate_def split: sum.split option.split)

lemma select_context_ready:
  assumes "generation_ready (generation_at w g)" "normalize_sni_name name False = Inr n"
  shows "\<exists>r. select_context g name w = (w, Inr r)"
proof -
  obtain c where c: "select_certificate (tn_config (generation_at w g)) name = Inr c"
    using select_certificate_total [OF assms(2)] by blast
  with assms(1) show ?thesis
    using selected_certificate_configured [of "tn_config (generation_at w g)" name]
    by (cases c) (auto simp: select_context_def reading_def Let_def ret_def generation_ready_def)
qed

section \<open>Answers\<close>

text \<open>The answers a caller may see from an operation with a byte limit.\<close>

definition answer_ok :: "string \<Rightarrow> int \<Rightarrow> tls_answer \<Rightarrow> bool" where
  "answer_ok operation limit r \<longleftrightarrow>
     ta_status r \<in> {TLS_OK, TLS_WANT_READ, TLS_WANT_WRITE, TLS_CLOSED, TLS_SELECT_SNI, TLS_ERROR} \<and>
     (if ta_status r = TLS_ERROR then 1 \<le> ta_error_code r \<and> ta_error_code r \<le> 12 else ta_error_code r = 0) \<and>
     (if operation \<in> {''read'', ''write''} \<and> ta_status r = TLS_OK then 0 < ta_count r \<and> ta_count r \<le> limit
      else ta_count r = 0) \<and>
     (ta_server_name r \<noteq> [] \<longleftrightarrow> ta_status r = TLS_SELECT_SNI) \<and>
     (ta_status r = TLS_SELECT_SNI \<longrightarrow> operation = ''handshake'')"

definition failure_answer :: "tls_answer \<Rightarrow> bool" where
  "failure_answer r \<longleftrightarrow> ta_status r = TLS_ERROR \<and> 1 \<le> ta_error_code r \<and> ta_error_code r \<le> 12 \<and> ta_count r = 0 \<and>
     ta_server_name r = []"

lemma failure_answer_ok: "failure_answer r \<Longrightarrow> answer_ok operation limit r"
  by (simp add: failure_answer_def answer_ok_def tls_codes)

lemma answer_ok_failure: "answer_ok operation limit r \<Longrightarrow> ta_status r = TLS_ERROR \<Longrightarrow> failure_answer r"
  by (auto simp: failure_answer_def answer_ok_def tls_codes)

lemma closed_answer_ok: "answer_ok operation limit (tls_answer_new TLS_CLOSED)"
  by (simp add: answer_ok_def tls_answer_new_def tls_codes)

lemma own_failure:
  "failure_answer (tls_error TLS_ERR_DEADLINE)" "failure_answer (tls_error TLS_ERR_CANCELLED)"
  "failure_answer (tls_error TLS_ERR_PROTOCOL)" "failure_answer (tls_error TLS_ERR_UNRECOGNIZED_NAME)"
  "failure_answer (tls_error TLS_ERR_ALPN)" "failure_answer (tls_error TLS_ERR_PROVIDER)"
  "failure_answer (tls_error TLS_ERR_PROVIDER_CONTRACT)" "failure_answer (tls_error TLS_ERR_CONFIGURATION)"
  by (simp_all add: failure_answer_def tls_error_def tls_codes)

section \<open>Call order\<close>

datatype phase = Greeting bool | Greeted bool | Open | Closing | Ended

text \<open>The protocol of a session: handshake calls, each possibly followed by the choice of a context (once
  in all), then the question for the protocol, then data, then closing; freed at most once, at the end.\<close>

fun next_phase :: "phase \<Rightarrow> session_call \<Rightarrow> phase option" where
  "next_phase (Greeting b) CallHandshake = Some (Greeted b)"
| "next_phase (Greeted b) CallHandshake = Some (Greeted b)"
| "next_phase (Greeted b) CallSetContext = (if b then None else Some (Greeting True))"
| "next_phase (Greeted b) CallAlpn = Some Open"
| "next_phase Open CallRead = Some Open"
| "next_phase Open CallWrite = Some Open"
| "next_phase Open CallCloseNotify = Some Closing"
| "next_phase Closing CallRead = Some Closing"
| "next_phase Closing CallCloseNotify = Some Closing"
| "next_phase Ended k = None"
| "next_phase ph CallFree = Some Ended"
| "next_phase ph k = None"

fun phases :: "phase \<Rightarrow> session_call list \<Rightarrow> phase option" where
  "phases ph [] = Some ph"
| "phases ph (k # ks) = (case next_phase ph k of None \<Rightarrow> None | Some ph' \<Rightarrow> phases ph' ks)"

lemma phases_append: "phases ph (ks @ ls) = (case phases ph ks of None \<Rightarrow> None | Some ph' \<Rightarrow> phases ph' ls)"
  by (induction ks arbitrary: ph) (auto split: option.split)

lemma next_phase_free: "ph \<noteq> Ended \<Longrightarrow> next_phase ph CallFree = Some Ended"
  by (cases ph) simp_all

text \<open>How the flags of a channel and the calls made so far fit together.\<close>

definition phase_fits :: "'s tls_channel \<Rightarrow> phase \<Rightarrow> bool" where
  "phase_fits c ph \<longleftrightarrow>
     (if ch_released c then ph = Ended
      else ph \<noteq> Ended \<and>
        (ch_failed c \<or>
         (if ch_close_notify_started c then ph = Closing
          else if ch_handshake_complete c then ph = Open
          else ph \<in> {Greeting (ch_sni_selected c), Greeted (ch_sni_selected c)})))"

definition channel_ok :: "'s tls_channel \<Rightarrow> bool" where
  "channel_ok c \<longleftrightarrow>
     (\<exists>ph. phases (Greeting False) (ch_calls c) = Some ph \<and> phase_fits c ph) \<and>
     (ch_session c = None \<longleftrightarrow> ch_released c) \<and> (ch_generation c = None \<longleftrightarrow> ch_released c) \<and>
     (ch_close_notify_started c \<longrightarrow> ch_handshake_complete c) \<and>
     (ch_closed c \<and> \<not> ch_released c \<longrightarrow> ch_close_notify_complete c) \<and>
     (ch_failed c \<and> \<not> ch_released c \<longrightarrow> failure_answer (ch_last_result c)) \<and>
     ch_last_error c = tls_error_name (ta_error_code (ch_last_result c))"

lemma channel_object_ok: "channel_ok (channel_object p g s fd i)"
  by (simp add: channel_ok_def channel_object_def phase_fits_def tls_answer_new_def tls_error_name_def TLS_ERR_NONE_def)

section \<open>Steps of a channel\<close>

definition logged :: "session_call \<Rightarrow> 's tls_channel \<Rightarrow> 's tls_channel" where
  "logged k c = c\<lparr>ch_calls := ch_calls c @ [k]\<rparr>"

text \<open>Only the private state of the providers differs.\<close>

definition framed :: "('p, 'c, 's) tls_world \<Rightarrow> ('p, 'c, 's) tls_world \<Rightarrow> bool" where
  "framed w0 w \<longleftrightarrow> (\<exists>p. w = w0\<lparr>tw_state := p\<rparr>)"

lemma framed_refl [simp]: "framed w w"
  unfolding framed_def by (rule exI [of _ "tw_state w"]) simp

lemma framed_call: "framed w0 w \<Longrightarrow> framed w0 (w\<lparr>tw_state := p\<rparr>)"
  by (auto simp: framed_def)

lemma framed_generations: "framed w0 w \<Longrightarrow> tw_generations w = tw_generations w0"
  by (auto simp: framed_def)

text \<open>A live channel in the middle of an operation.\<close>

definition midway :: "'s tls_channel \<Rightarrow> bool" where
  "midway c \<longleftrightarrow> \<not> ch_released c \<and> \<not> ch_failed c \<and>
     (\<exists>ph. phases (Greeting False) (ch_calls c) = Some ph \<and> ph \<noteq> Ended) \<and>
     ch_session c \<noteq> None \<and> ch_generation c \<noteq> None \<and>
     (ch_close_notify_started c \<longrightarrow> ch_handshake_complete c) \<and> (ch_closed c \<longrightarrow> ch_close_notify_complete c) \<and>
     ch_last_error c = tls_error_name (ta_error_code (ch_last_result c))"

lemma channel_ok_midway: "channel_ok c \<Longrightarrow> \<not> ch_released c \<Longrightarrow> \<not> ch_failed c \<Longrightarrow> midway c"
  by (auto simp: channel_ok_def midway_def phase_fits_def)

lemma midway_fails: "midway c \<Longrightarrow> failure_answer r \<Longrightarrow> channel_ok (remember r c)"
  by (auto simp: midway_def channel_ok_def remember_def failure_answer_def phase_fits_def)

lemma midway_remember: "midway c \<Longrightarrow> ta_status r \<noteq> TLS_ERROR \<Longrightarrow> midway (remember r c)"
  by (simp add: midway_def remember_def)

lemma channel_ok_remember:
  "channel_ok c \<Longrightarrow> ch_released c \<or> \<not> ch_failed c \<Longrightarrow> ta_status r \<noteq> TLS_ERROR \<Longrightarrow> channel_ok (remember r c)"
  by (auto simp: channel_ok_def remember_def phase_fits_def)

lemma remember_answer:
  assumes "channel_ok c" "\<not> ch_released c" "\<not> ch_failed c" "answer_ok operation limit r"
  shows "channel_ok (remember r c)"
proof (cases "ta_status r = TLS_ERROR")
  case True
  with assms show ?thesis by (metis answer_ok_failure channel_ok_midway midway_fails)
qed (use assms channel_ok_remember in blast)

lemma triple_remembered: "(\<And>c w. P (c, w) \<Longrightarrow> Q r (remember r c, w)) \<Longrightarrow> triple P (remembered r) Q E"
  by (auto simp: triple_def remembered_def thenp_def andthen_def on_channel_def change_def ret_def)

lemma triple_on_channel: "(\<And>c w. P (c, w) \<Longrightarrow> Q () (f c, w)) \<Longrightarrow> triple P (on_channel f) Q E"
  by (auto simp: triple_def on_channel_def change_def)

lemma triple_reading_channel:
  "(\<And>c w. triple (\<lambda>s. P s \<and> s = (c, w)) (f c w) Q E) \<Longrightarrow> triple P (reading (\<lambda>(c, w). f c w)) Q E"
  by (rule triple_reading) auto

lemma triple_reading_known:
  assumes "\<And>w. framed w0 w \<Longrightarrow> triple (\<lambda>(c, w). c = c1 \<and> framed w0 w) (f c1 w) Q E"
  shows "triple (\<lambda>(c, w). c = c1 \<and> framed w0 w) (reading (\<lambda>(c, w). f c w)) Q E"
  unfolding triple_def reading_def
proof (intro allI impI)
  fix s assume s: "case s of (c, w) \<Rightarrow> c = c1 \<and> framed w0 w"
  then obtain w where w: "s = (c1, w)" "framed w0 w" by auto
  with assms [OF w(2)] s show "case (case s of (c, w) \<Rightarrow> f c w) s of (s', Inl e) \<Rightarrow> E s' | (s', Inr x) \<Rightarrow> Q x s'"
    unfolding triple_def by simp
qed

lemma nested_guards:
  "(if a then x else if b then x else if c then x else if d then x else if e then (if f then x else if g then x else y)
    else if h then x else if i then (if j then x else y) else if k then x else y) =
   (if \<not> a \<and> \<not> b \<and> \<not> c \<and> \<not> d \<and> (if e then \<not> f \<and> \<not> g else \<not> h \<and> (if i then \<not> j else \<not> k)) then y else x)"
  by simp

lemma accepted_answer_ok:
  assumes "\<not> ta_status r \<notin> {TLS_OK, TLS_WANT_READ, TLS_WANT_WRITE, TLS_CLOSED, TLS_SELECT_SNI, TLS_ERROR}"
    "\<not> (ta_status r = TLS_SELECT_SNI \<and> operation \<noteq> ''handshake'')"
    "\<not> (ta_status r = TLS_SELECT_SNI \<and> ta_server_name r = [])"
    "\<not> (ta_status r \<noteq> TLS_SELECT_SNI \<and> ta_server_name r \<noteq> [])"
    "if ta_status r = TLS_ERROR
     then \<not> (ta_error_code r \<le> TLS_ERR_NONE \<or> ta_error_code r > TLS_ERR_INTERNAL) \<and> \<not> ta_count r \<noteq> 0
     else \<not> ta_error_code r \<noteq> TLS_ERR_NONE \<and>
       (if operation \<in> {''read'', ''write''} \<and> ta_status r = TLS_OK
        then \<not> (ta_count r \<le> 0 \<or> ta_count r > limit) else \<not> ta_count r \<noteq> 0)"
  shows "answer_ok operation limit r"
proof -
  have e: "ta_status r = TLS_ERROR \<Longrightarrow> ta_status r \<noteq> TLS_OK" by (simp add: tls_codes)
  note five = assms(5) [unfolded TLS_ERR_NONE_def TLS_ERR_INTERNAL_def]
  show ?thesis
    unfolding answer_ok_def
  proof (intro conjI)
    show "if operation \<in> {''read'', ''write''} \<and> ta_status r = TLS_OK then 0 < ta_count r \<and> ta_count r \<le> limit
        else ta_count r = 0"
      using five e by (cases "ta_status r = TLS_ERROR"; cases "operation \<in> {''read'', ''write''} \<and> ta_status r = TLS_OK")
        (simp_all del: insert_iff)
    show "if ta_status r = TLS_ERROR then 1 \<le> ta_error_code r \<and> ta_error_code r \<le> 12 else ta_error_code r = 0"
      using five by (cases "ta_status r = TLS_ERROR") (simp_all del: insert_iff)
  qed (use assms(1-4) in \<open>blast+\<close>)
qed

lemma validate_result_triple:
  fixes c :: "'s tls_channel" and w :: "('p, 'c, 's) tls_world"
  shows "triple (\<lambda>s. s = (c, w)) (validate_result operation r limit)
    (\<lambda>r' s. answer_ok operation limit r' \<and> s = (remember r' c, w)) E"
  unfolding validate_result_def contract_failure_def nested_guards
proof (rule triple_if; rule triple_remembered; erule Pair_inject)
  show "answer_ok operation limit (tls_error TLS_ERR_PROVIDER_CONTRACT) \<and>
      (remember (tls_error TLS_ERR_PROVIDER_CONTRACT) c', w') = (remember (tls_error TLS_ERR_PROVIDER_CONTRACT) c, w)"
    if "c' = c" "w' = w" for c' w'
    using that by (simp add: failure_answer_ok own_failure)
qed (elim conjE, intro conjI, rule accepted_answer_ok, assumption+, simp)

lemma call_result_triple:
  "triple (\<lambda>(c, w). c = c0 \<and> framed w0 w) (call_result k f)
     (\<lambda>r (c, w). framed w0 w \<and> (c = logged k c0 \<or> failure_answer r \<and> c = remember r (logged k c0))) E"
  by (auto simp: triple_def call_result_def thenp_def andthen_def on_channel_def change_def on_world_def
      provider_call_def provider_failure_def contract_failure_def remembered_def ret_def logged_def own_failure
      framed_call split: prod.splits sum.splits option.splits)

lemma checked_call_triple:
  fixes c0 :: "'s tls_channel" and w0 :: "('p, 'c, 's) tls_world"
  assumes mid: "\<not> ch_failed c0"
    and early: "\<And>r w. failure_answer r \<Longrightarrow> framed w0 w \<Longrightarrow> Q r (remember r (logged k c0), w)"
    and later: "\<And>r. answer_ok operation limit r \<Longrightarrow>
      triple (\<lambda>(c, w). c = remember r (logged k c0) \<and> framed w0 w) (continue r) Q E"
  shows "triple (\<lambda>(c, w). c = c0 \<and> framed w0 w) (checked_call operation k limit f continue) Q E"
  unfolding checked_call_def
proof (rule triple_andthen [OF call_result_triple], rule triple_reading_channel, rule triple_if)
  fix r :: tls_answer and c :: "'s tls_channel" and w :: "('p, 'c, 's) tls_world"
  assume "ta_status r = TLS_ERROR \<and> ch_failed c"
  then show "triple (\<lambda>s. (case s of (c, w) \<Rightarrow> framed w0 w \<and> (c = logged k c0 \<or>
      failure_answer r \<and> c = remember r (logged k c0))) \<and> s = (c, w)) (ret r) Q E"
    using mid early by (intro triple_ret) (auto simp: logged_def)
next
  fix r :: tls_answer and c :: "'s tls_channel" and w :: "('p, 'c, 's) tls_world"
  assume no: "\<not> (ta_status r = TLS_ERROR \<and> ch_failed c)"
  let ?P = "\<lambda>s. (case s of (c, w) \<Rightarrow> framed w0 w \<and> (c = logged k c0 \<or>
      failure_answer r \<and> c = remember r (logged k c0))) \<and> s = (c, w)"
  have P: "c = logged k c0 \<and> framed w0 w" if "?P s" for s
    using that no by (auto simp: failure_answer_def remember_def)
  show "triple ?P (andthen (validate_result operation r limit) continue) Q E"
  proof (cases "c = logged k c0 \<and> framed w0 w")
    case True
    have "triple ?P (validate_result operation r limit)
        (\<lambda>r' s. answer_ok operation limit r' \<and> (case s of (c, w) \<Rightarrow> c = remember r' (logged k c0) \<and> framed w0 w)) E"
      by (rule triple_conseq [OF validate_result_triple [of c w]]) (use True in auto)
    moreover have "triple (\<lambda>s. answer_ok operation limit r' \<and>
        (case s of (c, w) \<Rightarrow> c = remember r' (logged k c0) \<and> framed w0 w)) (continue r') Q E" for r'
      by (rule triple_pre_fact) (rule later)
    ultimately show ?thesis by (rule triple_andthen)
  next
    case False
    then have "\<not> ?P s" for s using P by blast
    then show ?thesis unfolding triple_def by blast
  qed
qed

section \<open>Every operation\<close>

text \<open>The outcome of an operation other than \<open>close\<close>.\<close>

definition identity :: "'s tls_channel \<Rightarrow> nat \<times> nat option \<times> 's option \<times> bool" where
  "identity c = (ch_provider c, ch_generation c, ch_session c, ch_released c)"

definition outcome ::
  "'s tls_channel \<Rightarrow> ('p, 'c, 's) tls_world \<Rightarrow> string \<Rightarrow> int \<Rightarrow> tls_answer \<Rightarrow> ('p, 'c, 's) chan_state \<Rightarrow> bool" where
  "outcome c0 w0 operation limit r = (\<lambda>(c, w). answer_ok operation limit r \<and> channel_ok c \<and> framed w0 w \<and>
     identity c = identity c0 \<and> (ta_status r = TLS_SELECT_SNI \<longrightarrow> normalize_sni_name (ta_server_name r) False = Inr (ta_server_name r)))"

lemma identity_simps [simp]:
  "identity (remember r c) = identity c" "identity (logged k c) = identity c"
  by (simp_all add: identity_def remember_def logged_def)

lemma failure_outcome:
  "midway c \<Longrightarrow> failure_answer r \<Longrightarrow> framed w0 w \<Longrightarrow> identity c = identity c0 \<Longrightarrow>
     outcome c0 w0 operation limit r (remember r c, w)"
  by (simp add: outcome_def failure_answer_ok midway_fails) (simp add: failure_answer_def tls_codes)

text \<open>The calls that keep the channel in step with its log.\<close>

lemma logged_handshake:
  assumes "channel_ok c" "midway c" "\<not> ch_handshake_complete c"
  shows "channel_ok (logged CallHandshake c)" "midway (logged CallHandshake c)"
    "phases (Greeting False) (ch_calls (logged CallHandshake c)) = Some (Greeted (ch_sni_selected c))"
  using assms by (auto simp: channel_ok_def midway_def logged_def phase_fits_def phases_append split: if_splits)

lemma logged_read:
  assumes "channel_ok c" "midway c" "ch_handshake_complete c"
  shows "channel_ok (logged CallRead c)" "midway (logged CallRead c)"
  using assms by (auto simp: channel_ok_def midway_def logged_def phase_fits_def phases_append split: if_splits)

lemma logged_write:
  assumes "channel_ok c" "midway c" "ch_handshake_complete c" "\<not> ch_close_notify_started c"
  shows "channel_ok (logged CallWrite c)" "midway (logged CallWrite c)"
  using assms by (auto simp: channel_ok_def midway_def logged_def phase_fits_def phases_append split: if_splits)

lemma logged_close_notify:
  assumes "channel_ok c" "midway c" "ch_handshake_complete c"
  shows "channel_ok (logged CallCloseNotify (c\<lparr>ch_close_notify_started := True\<rparr>))"
    "midway (logged CallCloseNotify (c\<lparr>ch_close_notify_started := True\<rparr>))"
  using assms by (auto simp: channel_ok_def midway_def logged_def phase_fits_def phases_append split: if_splits)

lemma answer_outcome:
  assumes "channel_ok c" "midway c" "answer_ok operation limit r" "framed w0 w" "identity c = identity c0"
    and "ta_status r = TLS_SELECT_SNI \<longrightarrow> normalize_sni_name (ta_server_name r) False = Inr (ta_server_name r)"
  shows "outcome c0 w0 operation limit r (remember r c, w)"
  using assms remember_answer [of c operation limit r] by (simp add: outcome_def midway_def)

lemma closed_outcome:
  assumes "channel_ok c0" "ch_released c0 \<or> \<not> ch_failed c0" "framed w0 w"
  shows "outcome c0 w0 operation limit (tls_answer_new TLS_CLOSED) (remember (tls_answer_new TLS_CLOSED) c0, w)"
  using assms channel_ok_remember [of c0 "tls_answer_new TLS_CLOSED"]
  by (simp add: outcome_def closed_answer_ok) (simp add: tls_answer_new_def tls_codes)

lemma with_preflight_triple:
  fixes c0 :: "'s tls_channel" and w0 :: "('p, 'c, 's) tls_world"
  assumes ok: "channel_ok c0"
    and body: "\<And>s. ch_session c0 = Some s \<Longrightarrow> midway c0 \<Longrightarrow> \<not> ch_closed c0 \<Longrightarrow>
      triple (\<lambda>(c, w). c = c0 \<and> framed w0 w) (body s c0) (outcome c0 w0 operation limit) E"
  shows "triple (\<lambda>(c, w). c = c0 \<and> framed w0 w) (with_preflight now_ms deadline_ms body) (outcome c0 w0 operation limit) E"
  unfolding with_preflight_def
proof (rule triple_reading_known)
  let ?P = "\<lambda>(c, w). c = c0 \<and> framed w0 w"
  have closed: "triple ?P (remembered (tls_answer_new TLS_CLOSED)) (outcome c0 w0 operation limit) E"
    if "ch_released c0 \<or> \<not> ch_failed c0"
    using that ok by (intro triple_remembered) (auto intro: closed_outcome)
  show "triple ?P (case ch_session c0 of
       None \<Rightarrow> remembered (tls_answer_new TLS_CLOSED)
     | Some s \<Rightarrow>
         if ch_released c0 then remembered (tls_answer_new TLS_CLOSED)
         else if ch_failed c0 then ret (ch_last_result c0)
         else if ch_closed c0 then remembered (tls_answer_new TLS_CLOSED)
         else case tls_deadline now_ms deadline_ms of
           Some r \<Rightarrow> remembered r
         | None \<Rightarrow> body s c0) (outcome c0 w0 operation limit) E"
  proof (rule triple_option; intro triple_if closed triple_option)
    assume "ch_session c0 = None"
    with ok show "ch_released c0 \<or> \<not> ch_failed c0" by (simp add: channel_ok_def)
  next
    assume "\<not> ch_released c0" "ch_failed c0"
    with ok have "failure_answer (ch_last_result c0)" by (simp add: channel_ok_def)
    then show "triple ?P (ret (ch_last_result c0)) (outcome c0 w0 operation limit) E"
      using ok by (intro triple_ret) (auto simp: outcome_def failure_answer_ok, simp_all add: failure_answer_def tls_codes)
  next
    fix s assume "\<not> ch_released c0" "\<not> ch_failed c0" "\<not> ch_closed c0" "ch_session c0 = Some s"
    with ok show "triple ?P (body s c0) (outcome c0 w0 operation limit) E"
      by (intro body) (simp_all add: channel_ok_midway)
  next
    fix r assume "tls_deadline now_ms deadline_ms = Some r" "\<not> ch_released c0" "\<not> ch_failed c0"
    moreover from this have "failure_answer r" by (auto simp: tls_deadline_def own_failure split: if_splits)
    ultimately show "triple ?P (remembered r) (outcome c0 w0 operation limit) E"
      using ok by (intro triple_remembered) (auto intro: failure_outcome channel_ok_midway)
  qed simp_all
qed

lemma note_peer_closed_triple:
  assumes "\<And>w. framed w0 w \<Longrightarrow> outcome c0 w0 operation limit r (c, w)"
  shows "triple (\<lambda>(c', w). c' = c \<and> framed w0 w) (note_peer_closed r) (outcome c0 w0 operation limit) E"
proof -
  have "channel_ok (c\<lparr>ch_peer_closed := True\<rparr>) \<longleftrightarrow> channel_ok c" "identity (c\<lparr>ch_peer_closed := True\<rparr>) = identity c"
    by (simp_all add: channel_ok_def phase_fits_def identity_def)
  then show ?thesis
    using assms unfolding note_peer_closed_def
    by (intro triple_if triple_thenp [OF triple_on_channel] triple_ret) (auto simp: outcome_def)
qed

lemma answer_no_sni: "answer_ok operation limit r \<Longrightarrow> operation \<noteq> ''handshake'' \<Longrightarrow> ta_status r \<noteq> TLS_SELECT_SNI"
  unfolding answer_ok_def by blast

lemma outcome_closing:
  "outcome c0 w0 operation limit r (c, w) \<Longrightarrow>
     outcome c0 w0 operation limit r (c\<lparr>ch_close_notify_complete := True, ch_closed := True\<rparr>, w)"
proof -
  have "phase_fits (c\<lparr>ch_close_notify_complete := True, ch_closed := True\<rparr>) ph = phase_fits c ph" for ph
    by (simp add: phase_fits_def)
  then have "channel_ok c \<Longrightarrow> channel_ok (c\<lparr>ch_close_notify_complete := True, ch_closed := True\<rparr>)"
    by (simp add: channel_ok_def)
  moreover have "identity (c\<lparr>ch_close_notify_complete := True, ch_closed := True\<rparr>) = identity c"
    by (simp add: identity_def)
  ultimately show "outcome c0 w0 operation limit r (c, w) \<Longrightarrow> ?thesis" by (simp add: outcome_def)
qed

lemma data_outcome:
  assumes "channel_ok c" "midway c" "answer_ok operation limit r" "operation \<noteq> ''handshake''" "framed w0 w"
    "identity c = identity c0"
  shows "outcome c0 w0 operation limit r (remember r c, w)"
  using assms answer_no_sni by (intro answer_outcome) auto

lemma data_call_triple:
  fixes c0 c1 :: "'s tls_channel" and w0 :: "('p, 'c, 's) tls_world"
  assumes log: "midway (logged k c1)" "identity c1 = identity c0"
    and continue: "\<And>r. answer_ok operation limit r \<Longrightarrow>
      triple (\<lambda>(c, w). c = remember r (logged k c1) \<and> framed w0 w) (continue r) (outcome c0 w0 operation limit) E"
  shows "triple (\<lambda>(c, w). c = c1 \<and> framed w0 w) (checked_call operation k limit f continue)
    (outcome c0 w0 operation limit) E"
proof (rule checked_call_triple [OF _ _ continue])
  show "\<not> ch_failed c1" using log(1) by (simp add: midway_def logged_def)
  show "outcome c0 w0 operation limit r (remember r (logged k c1), w)" if "failure_answer r" "framed w0 w" for r w
    using that log by (intro failure_outcome) simp_all
qed

lemma own_failure_triple:
  assumes "failure_answer r" "midway c1" "identity c1 = identity c0"
  shows "triple (\<lambda>(c, w). c = c1 \<and> framed w0 w) (remembered r) (outcome c0 w0 operation limit) E"
  using assms by (intro triple_remembered) (auto intro: failure_outcome)

lemma tls_read_triple:
  assumes ok: "channel_ok c0"
  shows "triple (\<lambda>(c, w). c = c0 \<and> framed w0 w) (tls_read env capacity limit now_ms deadline_ms)
    (outcome c0 w0 ''read'' limit) E"
  unfolding tls_read_def
proof (rule with_preflight_triple [OF ok], intro triple_if)
  fix s assume mid: "midway c0" and "\<not> \<not> ch_handshake_complete c0"
  then have log: "channel_ok (logged CallRead c0)" "midway (logged CallRead c0)" using logged_read [OF ok] by auto
  show "triple (\<lambda>(c, w). c = c0 \<and> framed w0 w)
      (checked_call ''read'' CallRead limit (pv_read (env (ch_provider c0)) s limit) note_peer_closed)
      (outcome c0 w0 ''read'' limit) E"
    by (intro data_call_triple note_peer_closed_triple data_outcome) (use log in simp_all)
qed (auto intro!: own_failure_triple simp: own_failure)

lemma tls_write_triple:
  assumes ok: "channel_ok c0"
  shows "triple (\<lambda>(c, w). c = c0 \<and> framed w0 w) (tls_write env data amount now_ms deadline_ms)
    (outcome c0 w0 ''write'' amount) E"
  unfolding tls_write_def
proof (rule with_preflight_triple [OF ok], intro triple_if)
  fix s assume mid: "midway c0" and "\<not> \<not> ch_handshake_complete c0" "\<not> ch_close_notify_started c0"
  then have log: "channel_ok (logged CallWrite c0)" "midway (logged CallWrite c0)" using logged_write [OF ok] by auto
  show "triple (\<lambda>(c, w). c = c0 \<and> framed w0 w)
      (checked_call ''write'' CallWrite amount (pv_write (env (ch_provider c0)) s data amount) ret)
      (outcome c0 w0 ''write'' amount) E"
    by (rule data_call_triple, use log in simp_all) (auto intro!: triple_ret data_outcome log)
qed (auto intro!: own_failure_triple simp: own_failure)

lemma tls_close_notify_triple:
  assumes ok: "channel_ok c0"
  shows "triple (\<lambda>(c, w). c = c0 \<and> framed w0 w) (tls_close_notify env now_ms deadline_ms)
    (outcome c0 w0 ''close_notify'' 0) E"
  unfolding tls_close_notify_def
proof (rule with_preflight_triple [OF ok], intro triple_if)
  fix s assume mid: "midway c0" and "\<not> \<not> ch_handshake_complete c0"
  let ?c = "c0\<lparr>ch_close_notify_started := True\<rparr>"
  let ?l = "logged CallCloseNotify ?c"
  have log: "channel_ok ?l" "midway ?l" "identity ?c = identity c0"
    using logged_close_notify [OF ok mid] \<open>\<not> \<not> ch_handshake_complete c0\<close> by (auto simp: identity_def)
  have closing: "outcome c0 w0 ''close_notify'' 0 r
      ((remember r ?l)\<lparr>ch_close_notify_complete := True, ch_closed := True\<rparr>, w)"
    if "answer_ok ''close_notify'' 0 r" "framed w0 w" for r w
    using that log by (intro outcome_closing data_outcome) simp_all
  show "triple (\<lambda>(c, w). c = c0 \<and> framed w0 w)
     (thenp (on_channel (\<lambda>c. c\<lparr>ch_close_notify_started := True\<rparr>))
       (checked_call ''close_notify'' CallCloseNotify 0 (pv_close_notify (env (ch_provider c0)) s) (\<lambda>r.
          if ta_status r = TLS_OK then contract_failure
          else if ta_status r = TLS_CLOSED
          then thenp (on_channel (\<lambda>c. c\<lparr>ch_close_notify_complete := True, ch_closed := True\<rparr>)) (ret r)
          else ret r))) (outcome c0 w0 ''close_notify'' 0) E"
  proof (rule triple_thenp [where R = "\<lambda>(c, w). c = ?c \<and> framed w0 w"])
    show "triple (\<lambda>(c, w). c = c0 \<and> framed w0 w) (on_channel (\<lambda>c. c\<lparr>ch_close_notify_started := True\<rparr>))
        (\<lambda>_ (c, w). c = ?c \<and> framed w0 w) E"
      by (rule triple_on_channel) auto
  next
    show "triple (\<lambda>(c, w). c = ?c \<and> framed w0 w)
      (checked_call ''close_notify'' CallCloseNotify 0 (pv_close_notify (env (ch_provider c0)) s) (\<lambda>r.
          if ta_status r = TLS_OK then contract_failure
          else if ta_status r = TLS_CLOSED
          then thenp (on_channel (\<lambda>c. c\<lparr>ch_close_notify_complete := True, ch_closed := True\<rparr>)) (ret r)
          else ret r)) (outcome c0 w0 ''close_notify'' 0) E"
    proof (rule data_call_triple [OF log(2,3)], intro triple_if)
      fix r assume r: "answer_ok ''close_notify'' 0 r"
      let ?P = "\<lambda>(c, w). c = remember r ?l \<and> framed w0 w"
      show "triple ?P contract_failure (outcome c0 w0 ''close_notify'' 0) E" if "ta_status r = TLS_OK"
        unfolding contract_failure_def
        using that log by (intro own_failure_triple own_failure midway_remember) (simp_all add: tls_codes)
      show "triple ?P (thenp (on_channel (\<lambda>c. c\<lparr>ch_close_notify_complete := True, ch_closed := True\<rparr>)) (ret r))
          (outcome c0 w0 ''close_notify'' 0) E"
        by (rule triple_thenp [OF triple_on_channel triple_ret]) (use closing [OF r] in auto)
      show "triple ?P (ret r) (outcome c0 w0 ''close_notify'' 0) E"
        using log by (intro triple_ret) (auto intro!: data_outcome r)
    qed
  qed
next
  assume "ch_close_notify_complete c0" "midway c0"
  then show "triple (\<lambda>(c, w). c = c0 \<and> framed w0 w) (remembered (tls_answer_new TLS_CLOSED))
      (outcome c0 w0 ''close_notify'' 0) E"
    using ok by (intro triple_remembered) (auto intro!: closed_outcome simp: midway_def)
qed (auto intro!: own_failure_triple simp: own_failure)

section \<open>The handshake\<close>

lemma failed_again:
  assumes "midway c \<or> channel_ok c \<and> \<not> ch_released c" "failure_answer r"
  shows "channel_ok (remember r c)"
proof (cases "midway c")
  case False
  with assms have c: "channel_ok c" "ch_failed c" "\<not> ch_released c" by (auto dest: channel_ok_midway)
  then have "phase_fits (remember r c) ph \<longleftrightarrow> phase_fits c ph" for ph by (simp add: phase_fits_def remember_def)
  with c assms(2) show ?thesis by (simp add: channel_ok_def) (simp add: remember_def failure_answer_def)
qed (use assms midway_fails in blast)

lemma failed_again_outcome:
  assumes "midway c \<or> channel_ok c \<and> \<not> ch_released c" "failure_answer r" "framed w0 w" "identity c = identity c0"
  shows "outcome c0 w0 operation limit r (remember r c, w)"
  using failed_again [OF assms(1,2)] assms by (simp add: outcome_def failure_answer_ok) (simp add: failure_answer_def tls_codes)

lemma midway_answered:
  assumes "midway c" "answer_ok operation limit r"
  shows "midway (remember r c) \<or> channel_ok (remember r c) \<and> \<not> ch_released (remember r c)"
proof (cases "ta_status r = TLS_ERROR")
  case True
  with assms have "channel_ok (remember r c)" by (blast intro: midway_fails answer_ok_failure)
  moreover have "ch_released (remember r c) = ch_released c" by (simp add: remember_def)
  ultimately show ?thesis using assms(1) by (simp add: midway_def)
qed (use assms midway_remember in blast)

text \<open>The channel just after a handshake call that did not fail.\<close>

definition greeted :: "'s tls_channel \<Rightarrow> 's tls_channel \<Rightarrow> bool" where
  "greeted c0 c \<longleftrightarrow> channel_ok c \<and> midway c \<and> identity c = identity c0 \<and> \<not> ch_handshake_complete c \<and>
     phases (Greeting False) (ch_calls c) = Some (Greeted (ch_sni_selected c))"

lemma greeted_context:
  assumes "greeted c0 c" "\<not> ch_sni_selected c"
  shows "midway (logged CallSetContext c)"
    "ta_status r \<noteq> TLS_ERROR \<Longrightarrow> ta_status r' \<noteq> TLS_ERROR \<Longrightarrow>
      channel_ok (remember r ((remember r' (logged CallSetContext c))\<lparr>ch_sni_selected := True, ch_server_name := n,
        ch_certificate_id := i\<rparr>))"
  using assms
  by (auto simp: greeted_def midway_def channel_ok_def logged_def remember_def phases_append phase_fits_def)

lemma greeted_protocol:
  assumes "greeted c0 c"
  shows "midway (logged CallAlpn c)" "channel_ok ((logged CallAlpn c)\<lparr>ch_alpn := a, ch_handshake_complete := True\<rparr>)"
  using assms by (auto simp: greeted_def midway_def channel_ok_def logged_def phases_append phase_fits_def)

lemma select_context_triple:
  assumes "generation_ready (generation_at w0 g)" "normalize_sni_name n False = Inr n"
  shows "triple (\<lambda>(c, w). c = c1 \<and> framed w0 w) (on_world (select_context g n))
    (\<lambda>_ (c, w). c = c1 \<and> framed w0 w) (\<lambda>_. False)"
  unfolding triple_def on_world_def
proof (intro allI impI)
  fix s assume "case s of (c, w) \<Rightarrow> c = c1 \<and> framed w0 w"
  then obtain w where s: "s = (c1, w)" and w: "framed w0 w" by auto
  from assms(1) have "generation_ready (generation_at w g)" by (simp add: framed_generations [OF w])
  from select_context_ready [OF this assms(2)] obtain r where "select_context g n w = (w, Inr r)" by blast
  with s w show "case case s of (c, w) \<Rightarrow> case select_context g n w of (w', r) \<Rightarrow> ((c, w'), r) of
      (s', Inl e) \<Rightarrow> False | (s', Inr x) \<Rightarrow> (case s' of (c, w) \<Rightarrow> c = c1 \<and> framed w0 w)" by simp
qed

lemma sni_answer_ok: "n \<noteq> [] \<Longrightarrow> answer_ok ''handshake'' limit (sni_answer n)"
  by (simp add: answer_ok_def sni_answer_def tls_codes)

lemma normalized_not_empty: "normalize_sni_name s w = Inr n \<Longrightarrow> n \<noteq> []"
  by (auto elim: normalize_sni_cases)

lemma set_context_triple:
  fixes c1 :: "'s tls_channel" and w0 :: "('p, 'c, 's) tls_world"
  assumes g: "greeted c0 c1" and fresh: "\<not> ch_sni_selected c1" and n: "normalize_sni_name n False = Inr n"
  shows "triple (\<lambda>(c, w). c = c1 \<and> framed w0 w)
    (checked_call ''set_server_context'' CallSetContext 0 f (\<lambda>selected.
       if ta_status selected \<noteq> TLS_OK then contract_failure
       else thenp (on_channel (\<lambda>c. c\<lparr>ch_sni_selected := True, ch_server_name := n, ch_certificate_id := i\<rparr>))
         (remembered (sni_answer n)))) (outcome c0 w0 ''handshake'' 0) E"
proof (rule checked_call_triple)
  note mid = greeted_context(1) [OF g fresh]
  from g have idc: "identity c1 = identity c0" by (simp add: greeted_def)
  show "\<not> ch_failed c1" using g by (simp add: greeted_def midway_def)
  show "outcome c0 w0 ''handshake'' 0 r (remember r (logged CallSetContext c1), w)"
    if "failure_answer r" "framed w0 w" for r w
    using that mid idc by (intro failure_outcome) simp_all
  fix r assume r: "answer_ok ''set_server_context'' 0 r"
  let ?P = "\<lambda>(c, w). c = remember r (logged CallSetContext c1) \<and> framed w0 w"
  have again: "midway (remember r (logged CallSetContext c1)) \<or>
      channel_ok (remember r (logged CallSetContext c1)) \<and> \<not> ch_released (remember r (logged CallSetContext c1))"
    by (rule midway_answered [OF mid r])
  show "triple ?P (if ta_status r \<noteq> TLS_OK then contract_failure
       else thenp (on_channel (\<lambda>c. c\<lparr>ch_sni_selected := True, ch_server_name := n, ch_certificate_id := i\<rparr>))
         (remembered (sni_answer n))) (outcome c0 w0 ''handshake'' 0) E"
  proof (rule triple_if)
    show "triple ?P contract_failure (outcome c0 w0 ''handshake'' 0) E"
      unfolding contract_failure_def
      using again idc by (intro triple_remembered) (auto intro!: failed_again_outcome own_failure)
    assume "\<not> ta_status r \<noteq> TLS_OK"
    then have "ta_status r \<noteq> TLS_ERROR" "ta_status (sni_answer n) \<noteq> TLS_ERROR"
      by (simp_all add: tls_codes sni_answer_def)
    then have "outcome c0 w0 ''handshake'' 0 (sni_answer n) (remember (sni_answer n)
        ((remember r (logged CallSetContext c1))\<lparr>ch_sni_selected := True, ch_server_name := n, ch_certificate_id := i\<rparr>), w)"
      if "framed w0 w" for w
      using that greeted_context(2) [OF g fresh] idc n normalized_not_empty [OF n]
      by (simp add: outcome_def sni_answer_ok) (simp add: identity_def remember_def logged_def sni_answer_def)
    then show "triple ?P (thenp (on_channel (\<lambda>c. c\<lparr>ch_sni_selected := True, ch_server_name := n, ch_certificate_id := i\<rparr>))
         (remembered (sni_answer n))) (outcome c0 w0 ''handshake'' 0) E"
      by (intro triple_thenp [where R = "\<lambda>(c, w). framed w0 w \<and> c =
          (remember r (logged CallSetContext c1))\<lparr>ch_sni_selected := True, ch_server_name := n, ch_certificate_id := i\<rparr>"]
          triple_on_channel triple_remembered) auto
  qed
qed

lemma choose_server_triple:
  fixes c1 :: "'s tls_channel" and w0 :: "('p, 'c, 's) tls_world"
  assumes g: "greeted c0 c1" and gen: "ch_generation c1 = Some g" and ready: "generation_ready (generation_at w0 g)"
  shows "triple (\<lambda>(c, w). c = c1 \<and> framed w0 w) (choose_server env s r) (outcome c0 w0 ''handshake'' 0) (\<lambda>_. False)"
  unfolding choose_server_def
proof (rule triple_reading_known, rule triple_if)
  let ?P = "\<lambda>(c, w). c = c1 \<and> framed w0 w"
  from g have own: "triple ?P (remembered e) (outcome c0 w0 ''handshake'' 0) (\<lambda>_. False)" if "failure_answer e" for e
    using that by (intro own_failure_triple) (simp_all add: greeted_def)
  show "triple ?P contract_failure (outcome c0 w0 ''handshake'' 0) (\<lambda>_. False)"
    unfolding contract_failure_def by (intro own own_failure)
  assume fresh: "\<not> ch_sni_selected c1"
  show "triple ?P (case normalize_sni_name (ta_server_name r) False of
       Inl _ \<Rightarrow> remembered (tls_error TLS_ERR_PROTOCOL)
     | Inr normalized \<Rightarrow>
         (case ch_generation c1 of
            None \<Rightarrow> throw (AttributeError ''select_context'')
          | Some g \<Rightarrow>
              andthen (on_world (select_context g normalized)) (\<lambda>chosen. case chosen of
                None \<Rightarrow> remembered (tls_error TLS_ERR_UNRECOGNIZED_NAME)
              | Some (context, certificate_id) \<Rightarrow>
                  checked_call ''set_server_context'' CallSetContext 0
                    (pv_set_server_context (env (ch_provider c1)) s context) (\<lambda>selected.
                      if ta_status selected \<noteq> TLS_OK then contract_failure
                      else thenp (on_channel (\<lambda>c. c\<lparr>ch_sni_selected := True, ch_server_name := normalized,
                                                  ch_certificate_id := certificate_id\<rparr>))
                        (remembered (sni_answer normalized))))))
    (outcome c0 w0 ''handshake'' 0) (\<lambda>_. False)"
  proof (cases "normalize_sni_name (ta_server_name r) False")
    case (Inr n)
    from normalize_sni_idem [OF Inr] have n: "normalize_sni_name n False = Inr n" .
    show ?thesis
      unfolding Inr gen sum.case option.case
      by (rule triple_andthen [OF select_context_triple [OF ready n]], rule triple_option)
        (auto intro!: own own_failure set_context_triple [OF g fresh n] split: prod.split)
  qed (simp add: own own_failure)
qed

lemma choose_protocol_triple:
  fixes c1 :: "'s tls_channel" and w0 :: "('p, 'c, 's) tls_world"
  assumes g: "greeted c0 c1" and gen: "ch_generation c1 = Some g" and r: "answer_ok ''handshake'' 0 r" "ta_status r = TLS_OK"
  shows "triple (\<lambda>(c, w). c = c1 \<and> framed w0 w) (choose_protocol env s r) (outcome c0 w0 ''handshake'' 0) E"
  unfolding choose_protocol_def
proof (rule triple_reading_known)
  note log = greeted_protocol [OF g]
  from g have idc: "identity c1 = identity c0" by (simp add: greeted_def)
  have fails: "outcome c0 w0 ''handshake'' 0 e (remember e (logged CallAlpn c1), w)" if "failure_answer e" "framed w0 w" for e w
    using that log idc by (intro failure_outcome) simp_all
  have succeeds: "outcome c0 w0 ''handshake'' 0 r ((logged CallAlpn c1)\<lparr>ch_alpn := a, ch_handshake_complete := True\<rparr>, w)"
    if "framed w0 w" for a w
    using that log(2) idc r by (simp add: outcome_def) (simp add: identity_def logged_def tls_codes)
  show "triple (\<lambda>(c, w). c = c1 \<and> framed w0 w)
     (thenp (on_channel (\<lambda>c. c\<lparr>ch_calls := ch_calls c @ [CallAlpn]\<rparr>))
       (\<lambda>st. case on_world (provider_call (pv_selected_alpn (env (ch_provider c1)) s)) st of
          (st', Inl _) \<Rightarrow> provider_failure st'
        | (st', Inr None) \<Rightarrow> contract_failure st'
        | (st', Inr (Some alpn)) \<Rightarrow>
            (case ch_generation c1 of
               None \<Rightarrow> throw (AttributeError ''config'')
             | Some g \<Rightarrow>
                 if alpn \<noteq> [] \<and> alpn \<notin> set (tg_alpn (tn_config (generation_at (snd st') g)))
                 then remembered (tls_error TLS_ERR_ALPN)
                 else thenp (on_channel (\<lambda>c. c\<lparr>ch_alpn := alpn, ch_handshake_complete := True\<rparr>)) (ret r)) st'))
     (outcome c0 w0 ''handshake'' 0) E"
    using fails [OF own_failure(5)] fails [OF own_failure(6)] fails [OF own_failure(7)] succeeds
    by (auto simp: triple_def thenp_def andthen_def on_channel_def change_def on_world_def provider_call_def ret_def
        provider_failure_def contract_failure_def remembered_def gen framed_call logged_def
        split: prod.splits sum.splits option.splits)
qed

lemma tls_handshake_triple:
  fixes c0 :: "'s tls_channel" and w0 :: "('p, 'c, 's) tls_world"
  assumes ok: "channel_ok c0"
    and ready: "\<And>g. ch_generation c0 = Some g \<Longrightarrow> generation_ready (generation_at w0 g)"
  shows "triple (\<lambda>(c, w). c = c0 \<and> framed w0 w) (tls_handshake env now_ms deadline_ms)
    (outcome c0 w0 ''handshake'' 0) (\<lambda>_. False)"
  unfolding tls_handshake_def
proof (rule with_preflight_triple [OF ok], rule triple_if)
  assume "midway c0"
  moreover have "answer_ok ''handshake'' 0 (tls_answer_new TLS_OK)" "ta_status (tls_answer_new TLS_OK) \<noteq> TLS_SELECT_SNI"
    by (simp_all add: answer_ok_def tls_answer_new_def tls_codes)
  ultimately show "triple (\<lambda>(c, w). c = c0 \<and> framed w0 w) (remembered (tls_answer_new TLS_OK))
      (outcome c0 w0 ''handshake'' 0) (\<lambda>_. False)"
    using ok by (intro triple_remembered) (auto intro!: answer_outcome)
next
  fix s assume mid: "midway c0" and "\<not> ch_handshake_complete c0"
  note log = logged_handshake [OF ok this]
  from mid obtain g where g: "ch_generation c0 = Some g" by (auto simp: midway_def)
  show "triple (\<lambda>(c, w). c = c0 \<and> framed w0 w)
     (checked_call ''handshake'' CallHandshake 0 (pv_handshake (env (ch_provider c0)) s) (\<lambda>r.
       if ta_status r = TLS_SELECT_SNI then choose_server env s r
       else if ta_status r = TLS_OK then choose_protocol env s r
       else note_peer_closed r)) (outcome c0 w0 ''handshake'' 0) (\<lambda>_. False)"
  proof (rule data_call_triple [OF log(2)], simp, intro triple_if)
    fix r assume r: "answer_ok ''handshake'' 0 r"
    let ?c = "remember r (logged CallHandshake c0)"
    have gen: "ch_generation ?c = Some g" using g by (simp add: remember_def logged_def)
    have greet: "greeted c0 ?c" if "ta_status r \<noteq> TLS_ERROR"
      using that log \<open>\<not> ch_handshake_complete c0\<close> midway_remember [OF log(2)] channel_ok_remember [OF log(1)]
      by (simp add: greeted_def midway_def) (simp add: remember_def logged_def)
    show "triple (\<lambda>(c, w). c = ?c \<and> framed w0 w) (choose_server env s r) (outcome c0 w0 ''handshake'' 0) (\<lambda>_. False)"
      if "ta_status r = TLS_SELECT_SNI"
      by (rule choose_server_triple [OF greet gen ready [OF g]]) (simp add: that tls_codes)
    show "triple (\<lambda>(c, w). c = ?c \<and> framed w0 w) (choose_protocol env s r) (outcome c0 w0 ''handshake'' 0) (\<lambda>_. False)"
      if "ta_status r = TLS_OK"
      by (rule choose_protocol_triple [OF greet gen r that]) (simp add: that tls_codes)
    show "triple (\<lambda>(c, w). c = ?c \<and> framed w0 w) (note_peer_closed r) (outcome c0 w0 ''handshake'' 0) (\<lambda>_. False)"
      if "ta_status r \<noteq> TLS_SELECT_SNI"
      using that log r by (intro note_peer_closed_triple answer_outcome) auto
  qed
qed

end
