(* ===== verification/Tls_Manager.thy ===== *)
theory Tls_Manager
  imports Tls_Session "HOL-Library.Multiset"
begin

text \<open>
  Model of \<open>TlsGenerationManager\<close> of \<open>pcc_gateway/tls.py\<close> and of a system of managers, channels and
  other holders of references on one registry.  Every call is atomic: construction and reload of
  a manager exclude each other by \<open>_reload_lock\<close>, the rest holds the lock of the object it changes.
\<close>

section \<open>Managers\<close>

record tls_manager =
  mg_provider_name :: pystr
  mg_provider :: nat
  mg_provider_info :: provider_info
  mg_lease_active :: bool
  mg_next_generation_id :: int
  mg_active :: "nat option"
  mg_closed :: bool

definition manager_object :: "pystr \<Rightarrow> nat \<Rightarrow> provider_info \<Rightarrow> nat \<Rightarrow> tls_manager" where
  "manager_object name p info g = \<lparr>mg_provider_name = name, mg_provider = p, mg_provider_info = info,
     mg_lease_active = True, mg_next_generation_id = 2, mg_active = Some g, mg_closed = False\<rparr>"

definition manager_new ::
  "('p, 'c, 's) tls_env \<Rightarrow> pystr \<Rightarrow> tls_config \<Rightarrow> bool \<Rightarrow> (('p, 'c, 's) tls_world, tls_manager) prog" where
  "manager_new env name config require_production =
     andthen (acquire_manager env name require_production) (\<lambda>p.
       catching (andthen (registry_info name) (\<lambda>info.
           andthen (tls_generation_new env 1 p config) (\<lambda>g. ret (manager_object name p info g))))
         (\<lambda>e. thenp (release_manager env) (throw e)))"

definition manager_new_channel ::
  "('p, 'c, 's) tls_env \<Rightarrow> tls_manager \<Rightarrow> int \<Rightarrow> nat option \<Rightarrow> (('p, 'c, 's) tls_world, 's tls_channel) prog" where
  "manager_new_channel env m fd generation =
     (if fd < 0 then throw (ValueError ''TLS channel requires a nonnegative socket fd'')
      else if mg_closed m then throw (TlsProviderError ''TLS generation manager is closed'')
      else case mg_active m of
        None \<Rightarrow> throw (TlsProviderError ''TLS generation manager is closed'')
      | Some active \<Rightarrow>
          let selected = (case generation of None \<Rightarrow> active | Some g \<Rightarrow> g) in
          reading (\<lambda>w.
            if tn_provider (generation_at w selected) \<noteq> mg_provider m
            then throw (TlsProviderError ''TLS generation belongs to another provider'')
            else thenp (tls_retain selected) (tls_channel_new env selected fd True)))"

type_synonym ('p, 'c, 's) manager_state = "tls_manager \<times> ('p, 'c, 's) tls_world"

definition on_manager :: "(tls_manager \<Rightarrow> tls_manager) \<Rightarrow> (('p, 'c, 's) manager_state, unit) prog" where
  "on_manager f = change (\<lambda>(m, w). (f m, w))"

definition in_world :: "(('p, 'c, 's) tls_world, 'a) prog \<Rightarrow> (('p, 'c, 's) manager_state, 'a) prog" where
  "in_world f = (\<lambda>(m, w). case f w of (w', r) \<Rightarrow> ((m, w'), r))"

definition manager_reload ::
  "('p, 'c, 's) tls_env \<Rightarrow> tls_config \<Rightarrow> (('p, 'c, 's) manager_state, nat) prog" where
  "manager_reload env config = reading (\<lambda>(m, w).
     if mg_closed m \<or> mg_active m = None then throw (TlsProviderError ''TLS generation manager is closed'')
     else thenp (on_manager (\<lambda>m. m\<lparr>mg_next_generation_id := mg_next_generation_id m + 1\<rparr>))
       (andthen (in_world (tls_generation_new env (mg_next_generation_id m) (mg_provider m) config)) (\<lambda>replacement.
          reading (\<lambda>(m, w).
            case (if mg_closed m then None else mg_active m) of
              None \<Rightarrow> thenp (in_world (tls_retire env replacement))
                        (throw (TlsProviderError ''TLS generation manager closed during reload''))
            | Some previous \<Rightarrow>
                thenp (on_manager (\<lambda>m. m\<lparr>mg_active := Some replacement\<rparr>))
                  (thenp (in_world (tls_retire env previous)) (ret replacement))))))"

definition retire_active :: "('p, 'c, 's) tls_env \<Rightarrow> nat option \<Rightarrow> (('p, 'c, 's) tls_world, int) prog" where
  "retire_active env active = (case active of None \<Rightarrow> ret 0 | Some g \<Rightarrow> tls_retire env g)"

definition return_lease :: "('p, 'c, 's) tls_env \<Rightarrow> bool \<Rightarrow> (('p, 'c, 's) tls_world, int) prog" where
  "return_lease env lease = (if lease then release_manager env else ret 0)"

definition manager_close :: "('p, 'c, 's) tls_env \<Rightarrow> (('p, 'c, 's) manager_state, int) prog" where
  "manager_close env = reading (\<lambda>(m, w).
     if mg_closed m then ret 0
     else thenp (on_manager (\<lambda>m. m\<lparr>mg_closed := True, mg_active := None, mg_lease_active := False\<rparr>))
       (\<lambda>st. case in_world (retire_active env (mg_active m)) st of (st', r) \<Rightarrow>
          (case in_world (return_lease env (mg_lease_active m)) st' of (st'', r') \<Rightarrow>
             (st'', case (r, r') of
                (Inr released, Inr _) \<Rightarrow> Inr released
              | _ \<Rightarrow> Inl (TlsProviderError ''TLS generation manager cleanup failed'')))))"

section \<open>A system of managers and channels\<close>

datatype channel_op =
    OpHandshake int int
  | OpRead int int int int
  | OpWrite bytes int int int
  | OpCloseNotify int int
  | OpCancel
  | OpClose

fun channel_run :: "('p, 'c, 's) tls_env \<Rightarrow> channel_op \<Rightarrow> (('p, 'c, 's) chan_state, tls_answer) prog" where
  "channel_run env (OpHandshake now deadline) = tls_handshake env now deadline"
| "channel_run env (OpRead capacity limit now deadline) = tls_read env capacity limit now deadline"
| "channel_run env (OpWrite data amount now deadline) = tls_write env data amount now deadline"
| "channel_run env (OpCloseNotify now deadline) = tls_close_notify env now deadline"
| "channel_run env OpCancel = tls_cancel"
| "channel_run env OpClose = tls_close env"

record ('p, 'c, 's) tls_system =
  sy_world :: "('p, 'c, 's) tls_world"
  sy_managers :: "tls_manager list"
  sy_channels :: "'s tls_channel list"
  sy_held :: "nat list"   \<comment> \<open>ghost: the references others took and did not give back\<close>

datatype tls_call =
    CallRegister nat
  | CallGet pystr bool
  | CallCloseRegistry
  | CallNewManager pystr tls_config bool
  | CallReload nat tls_config
  | CallCloseManager nat
  | CallNewChannel nat int "nat option"
  | CallChannel nat channel_op
  | CallRetain nat
  | CallRelease nat

text \<open>One call; the objects it names exist, and a holder releases only what it holds.\<close>

definition call_enabled :: "tls_call \<Rightarrow> ('p, 'c, 's) tls_system \<Rightarrow> bool" where
  "call_enabled k s =
     (case k of
        CallReload i _ \<Rightarrow> i < length (sy_managers s)
      | CallCloseManager i \<Rightarrow> i < length (sy_managers s)
      | CallNewChannel i _ g \<Rightarrow> i < length (sy_managers s) \<and>
          (case g of None \<Rightarrow> True | Some g \<Rightarrow> g < length (tw_generations (sy_world s)))
      | CallChannel a _ \<Rightarrow> a < length (sy_channels s)
      | CallRetain g \<Rightarrow> g < length (tw_generations (sy_world s))
      | CallRelease g \<Rightarrow> g \<in> set (sy_held s)
      | _ \<Rightarrow> True)"

definition finished :: "'a result \<Rightarrow> exn option" where
  "finished r = (case r of Inl e \<Rightarrow> Some e | Inr _ \<Rightarrow> None)"

fun tls_step :: "('p, 'c, 's) tls_env \<Rightarrow> tls_call \<Rightarrow> ('p, 'c, 's) tls_system \<Rightarrow> ('p, 'c, 's) tls_system \<times> exn option" where
  "tls_step env (CallRegister p) s =
     (case registry_register env p (sy_world s) of (w, r) \<Rightarrow> (s\<lparr>sy_world := w\<rparr>, finished r))"
| "tls_step env (CallGet name req) s =
     (case registry_get env name req (sy_world s) of (w, r) \<Rightarrow> (s\<lparr>sy_world := w\<rparr>, finished r))"
| "tls_step env CallCloseRegistry s =
     (case registry_close env (sy_world s) of (w, r) \<Rightarrow> (s\<lparr>sy_world := w\<rparr>, finished r))"
| "tls_step env (CallNewManager name config req) s =
     (case manager_new env name config req (sy_world s) of
        (w, Inl e) \<Rightarrow> (s\<lparr>sy_world := w\<rparr>, Some e)
      | (w, Inr m) \<Rightarrow> (s\<lparr>sy_world := w, sy_managers := sy_managers s @ [m]\<rparr>, None))"
| "tls_step env (CallReload i config) s =
     (case manager_reload env config (sy_managers s ! i, sy_world s) of
        ((m, w), r) \<Rightarrow> (s\<lparr>sy_world := w, sy_managers := (sy_managers s)[i := m]\<rparr>, finished r))"
| "tls_step env (CallCloseManager i) s =
     (case manager_close env (sy_managers s ! i, sy_world s) of
        ((m, w), r) \<Rightarrow> (s\<lparr>sy_world := w, sy_managers := (sy_managers s)[i := m]\<rparr>, finished r))"
| "tls_step env (CallNewChannel i fd g) s =
     (case manager_new_channel env (sy_managers s ! i) fd g (sy_world s) of
        (w, Inl e) \<Rightarrow> (s\<lparr>sy_world := w\<rparr>, Some e)
      | (w, Inr c) \<Rightarrow> (s\<lparr>sy_world := w, sy_channels := sy_channels s @ [c]\<rparr>, None))"
| "tls_step env (CallChannel a op) s =
     (case channel_run env op (sy_channels s ! a, sy_world s) of
        ((c, w), r) \<Rightarrow> (s\<lparr>sy_world := w, sy_channels := (sy_channels s)[a := c]\<rparr>, finished r))"
| "tls_step env (CallRetain g) s =
     (case tls_retain g (sy_world s) of
        (w, Inl e) \<Rightarrow> (s\<lparr>sy_world := w\<rparr>, Some e)
      | (w, Inr _) \<Rightarrow> (s\<lparr>sy_world := w, sy_held := g # sy_held s\<rparr>, None))"
| "tls_step env (CallRelease g) s =
     (case tls_release env g (sy_world s) of
        (w, r) \<Rightarrow> (s\<lparr>sy_world := w, sy_held := remove1 g (sy_held s)\<rparr>, finished r))"

text \<open>Calls that are not enabled are not made.\<close>

fun tls_run :: "('p, 'c, 's) tls_env \<Rightarrow> tls_call list \<Rightarrow> ('p, 'c, 's) tls_system \<Rightarrow> ('p, 'c, 's) tls_system" where
  "tls_run env [] s = s"
| "tls_run env (k # ks) s = tls_run env ks (if call_enabled k s then fst (tls_step env k s) else s)"

definition tls_system_new :: "'p \<Rightarrow> tls_registry \<Rightarrow> ('p, 'c, 's) tls_system" where
  "tls_system_new p rg =
     \<lparr>sy_world = \<lparr>tw_state = p, tw_registry = rg, tw_generations = [], tw_created = [], tw_freed = [], tw_opened = [],
                  tw_ended = [], tw_shut = []\<rparr>,
      sy_managers = [], sy_channels = [], sy_held = []\<rparr>"

end
