(* ===== verification/Tls_Ledger.thy ===== *)
theory Tls_Ledger
  imports Tls_Manager
begin

text \<open>
  The ledger of the TLS objects: what the providers handed out and what was given back, against
  what generations and channels hold; reference counts against their holders; registry leases
  against live managers.
\<close>

section \<open>The world\<close>

text \<open>A generation with \<open>u\<close> users besides its owner.\<close>

definition tls_gen_ok :: "nat \<Rightarrow> 'c tls_generation \<Rightarrow> bool" where
  "tls_gen_ok u n \<longleftrightarrow> tn_references n = (if tn_retired n then 0 else 1) + int u \<and>
     (tn_destroyed n \<longleftrightarrow> tn_references n = 0) \<and> (tn_destroyed n \<longrightarrow> tn_contexts n = []) \<and>
     (\<not> tn_destroyed n \<longrightarrow> generation_ready n)"

text \<open>The registry with \<open>l\<close> live managers: providers are asked to close once, after the last lease.\<close>

definition registry_ok :: "nat \<Rightarrow> tls_registry \<Rightarrow> pystr list \<Rightarrow> bool" where
  "registry_ok l rg shut \<longleftrightarrow> rg_manager_leases rg = int l \<and> distinct (dict_keys (rg_providers rg)) \<and>
     distinct shut \<and> set shut \<subseteq> set (rg_close_started rg) \<and>
     (rg_close_started rg \<noteq> [] \<longrightarrow> rg_closed rg \<and> rg_owns_providers rg \<and> l = 0)"

definition held_contexts :: "'c tls_generation list \<Rightarrow> 'c multiset" where
  "held_contexts gens = mset (concat (map tn_contexts gens))"

definition owned :: "'c tls_generation list \<Rightarrow> nat set" where
  "owned gens = {g. g < length gens \<and> \<not> tn_retired (gens ! g)}"

text \<open>\<open>u\<close> counts the users of each generation, \<open>x\<close> are contexts being moved, \<open>ss\<close> the live sessions.\<close>

definition world_ok ::
  "(nat \<Rightarrow> nat) \<Rightarrow> 'c multiset \<Rightarrow> 's multiset \<Rightarrow> nat \<Rightarrow> nat set \<Rightarrow> ('p, 'c, 's) tls_world \<Rightarrow> bool" where
  "world_ok u x ss l own w \<longleftrightarrow>
     mset (tw_created w) = mset (tw_freed w) + held_contexts (tw_generations w) + x \<and>
     mset (tw_opened w) = mset (tw_ended w) + ss \<and>
     (\<forall>g. if g < length (tw_generations w) then tls_gen_ok (u g) (generation_at w g) else u g = 0) \<and>
     owned (tw_generations w) = own \<and> registry_ok l (tw_registry w) (tw_shut w)"

lemma world_ok_state [simp]: "world_ok u x ss l own (w\<lparr>tw_state := p\<rparr>) = world_ok u x ss l own w"
  by (simp add: world_ok_def)

lemma framed_world_ok: "framed w0 w \<Longrightarrow> world_ok u x ss l own w = world_ok u x ss l own w0"
  by (auto simp: framed_def)

lemma held_contexts_append: "held_contexts (gens @ gens') = held_contexts gens + held_contexts gens'"
  by (simp add: held_contexts_def)

lemma held_contexts_update:
  assumes "g < length gens"
  shows "held_contexts (gens[g := n]) + mset (tn_contexts (gens ! g)) = held_contexts gens + mset (tn_contexts n)"
proof -
  have "held_contexts gens = held_contexts (take g gens @ gens ! g # drop (Suc g) gens)"
    using id_take_nth_drop [OF assms] by simp
  then show ?thesis
    using assms by (simp add: upd_conv_take_nth_drop held_contexts_def)
qed

text \<open>Replacing one generation: contexts that leave it are in transit.\<close>

lemma world_ok_put:
  assumes ok: "world_ok u x ss l own w" and g: "g < length (tw_generations w)"
    and n: "tls_gen_ok v n" and moved: "mset (tn_contexts (generation_at w g)) = mset (tn_contexts n) + y"
    and own: "own' = (if tn_retired n then own - {g} else insert g own)"
  shows "world_ok (u(g := v)) (x + y) ss l own' (w\<lparr>tw_generations := (tw_generations w)[g := n]\<rparr>)"
proof -
  from held_contexts_update [OF g, of n] moved
  have "held_contexts ((tw_generations w)[g := n]) + y = held_contexts (tw_generations w)" by simp
  then have "held_contexts (tw_generations w) + x = held_contexts ((tw_generations w)[g := n]) + (x + y)"
    by (simp add: ac_simps)
  moreover have "owned ((tw_generations w)[g := n]) = own'"
    using ok g own by (auto simp: owned_def world_ok_def nth_list_update split: if_splits)
  ultimately show ?thesis
    using ok g n by (auto simp: world_ok_def add.assoc nth_list_update)
qed

section \<open>Giving back contexts\<close>

lemma free_context_world:
  assumes "world_ok u (add_mset c x) ss l own w"
  shows "world_ok u x ss l own (fst (free_context env p c w))"
  using assms
  by (auto simp: free_context_def thenp_def andthen_def change_def provider_call_def world_ok_def split: prod.split)

lemma free_all_world:
  assumes "world_ok u (mset cs + x) ss l own w"
  shows "world_ok u x ss l own (fst (first_error (map (free_context env p) cs) w))"
  using assms
proof (induction cs arbitrary: w)
  case (Cons c cs)
  then have "world_ok u (mset cs + x) ss l own (fst (free_context env p c w))" by (intro free_context_world) simp
  from Cons.IH [OF this] show ?case by (simp only: list.map first_error_state)
qed (simp add: ret_def)

lemma fst_catching_throw: "fst (catching m (\<lambda>e. throw (f e)) s) = fst (m s)"
  by (auto simp: catching_def throw_def split: prod.split sum.split)

lemma thenp_change: "thenp (change f) m s = m (f s)"
  by (simp add: thenp_def andthen_def change_def)

lemma fst_thenp_ret: "fst (thenp m (ret x) s) = fst (m s)"
  by (auto simp: thenp_def andthen_def ret_def split: prod.split sum.split)

lemma free_contexts_world:
  assumes "world_ok u (mset (case cs of None \<Rightarrow> [] | Some c \<Rightarrow> c) + x) ss l own w"
  shows "world_ok u x ss l own (fst (free_contexts env p cs w))"
  using assms free_all_world [of u "case cs of None \<Rightarrow> [] | Some c \<Rightarrow> rev c" x ss l own w env p]
  by (cases cs) (simp_all add: free_contexts_def ret_def fst_catching_throw)

lemma free_contexts_generations: "tw_generations (fst (free_contexts env p cs w)) = tw_generations w"
proof -
  have "keeps (\<lambda>w'. tw_generations w' = tw_generations w) (free_context env p c)" for c
    by (auto simp: keeps_def free_context_def thenp_change provider_call_def split: prod.split)
  then have "keeps (\<lambda>w'. tw_generations w' = tw_generations w) (free_contexts env p cs)"
    unfolding free_contexts_def by (intro keeps_option keeps_ret keeps_catching keeps_throw keeps_first_error) auto
  then show ?thesis by (simp add: keeps_def)
qed

lemma finish_drop_world:
  assumes "world_ok u x ss l own w" "g < length (tw_generations w)" "tls_gen_ok v n"
    "mset (tn_contexts (generation_at w g)) = mset (tn_contexts n) + mset (case cs of None \<Rightarrow> [] | Some c \<Rightarrow> c)"
    "own' = (if tn_retired n then own - {g} else insert g own)"
  shows "world_ok (u(g := v)) x ss l own' (fst (finish_drop env g (n, cs) w))"
proof -
  let ?w = "w\<lparr>tw_generations := (tw_generations w)[g := n]\<rparr>"
  have "world_ok (u(g := v)) (mset (case cs of None \<Rightarrow> [] | Some c \<Rightarrow> c) + x) ss l own' ?w"
    using world_ok_put [OF assms] by (simp add: add.commute)
  from free_contexts_world [OF this]
  have "world_ok (u(g := v)) x ss l own' (fst (free_contexts env (tn_provider n) cs ?w))" .
  moreover have "fst (finish_drop env g (n, cs) w) = fst (free_contexts env (tn_provider n) cs ?w)"
    by (simp add: finish_drop_def put_generation_def thenp_change fst_thenp_ret)
  ultimately show ?thesis by simp
qed

text \<open>Dropping one reference, of a user or of the owner.\<close>

lemma drop_tls_reference_ok:
  assumes "drop_tls_reference n = (n', cs)" "\<not> tn_destroyed n" "generation_ready n"
    and "tn_references n - 1 = (if tn_retired n then 0 else 1) + int v"
  shows "tls_gen_ok v n'" "tn_retired n' = tn_retired n"
    "mset (tn_contexts n) = mset (tn_contexts n') + mset (case cs of None \<Rightarrow> [] | Some c \<Rightarrow> c)"
  using assms
  by (auto simp: drop_tls_reference_def take_contexts_locked_def tls_gen_ok_def generation_ready_def Let_def
      split: if_splits)

lemma world_okD:
  "world_ok u x ss l own w \<Longrightarrow> g < length (tw_generations w) \<Longrightarrow> tls_gen_ok (u g) (generation_at w g)"
  unfolding world_ok_def by presburger

lemma world_ok_owned: "world_ok u x ss l own w \<Longrightarrow> g \<in> own \<longleftrightarrow> g < length (tw_generations w) \<and> \<not> tn_retired (generation_at w g)"
  by (auto simp: world_ok_def owned_def)

lemma tls_release_world:
  assumes ok: "world_ok u x ss l own w" and g: "g < length (tw_generations w)" and v: "u g = Suc v"
  shows "world_ok (u(g := v)) x ss l own (fst (tls_release env g w))"
proof -
  let ?n = "generation_at w g"
  from world_okD [OF ok g] v have n: "tls_gen_ok (Suc v) ?n" by simp
  then have live: "0 < tn_references ?n" "\<not> tn_destroyed ?n" by (auto simp: tls_gen_ok_def)
  obtain n' cs where d: "drop_tls_reference ?n = (n', cs)" by force
  have ready: "generation_ready ?n" "tn_references ?n - 1 = (if tn_retired ?n then 0 else 1) + int v"
    using n live by (auto simp: tls_gen_ok_def)
  note drop = drop_tls_reference_ok [OF d live(2) ready]
  have "own = (if tn_retired n' then own - {g} else insert g own)"
    using world_ok_owned [OF ok, of g] g drop(2) by auto
  from finish_drop_world [OF ok g drop(1,3) this] show ?thesis
    using live by (simp add: tls_release_def reading_def Let_def d)
qed

lemma tls_retire_world:
  assumes ok: "world_ok u x ss l own w" and g: "g < length (tw_generations w)"
  shows "world_ok u x ss l (own - {g}) (fst (tls_retire env g w))"
proof (cases "tn_retired (generation_at w g)")
  case True
  then have "own - {g} = own" using world_ok_owned [OF ok, of g] by auto
  with True ok show ?thesis by (simp add: tls_retire_def reading_def Let_def ret_def)
next
  case False
  let ?n = "generation_at w g" let ?r = "generation_at w g\<lparr>tn_retired := True\<rparr>"
  from world_okD [OF ok g] have n: "tls_gen_ok (u g) ?n" .
  with False have live: "0 < tn_references ?n" "\<not> tn_destroyed ?n" by (auto simp: tls_gen_ok_def)
  obtain n' cs where d: "drop_tls_reference ?r = (n', cs)" by force
  have ready: "\<not> tn_destroyed ?r" "generation_ready ?r" "tn_references ?r - 1 = (if tn_retired ?r then 0 else 1) + int (u g)"
    using n live False by (auto simp: tls_gen_ok_def generation_ready_def)
  note drop = drop_tls_reference_ok [OF d ready]
  have "own - {g} = (if tn_retired n' then own - {g} else insert g own)" using drop(2) by simp
  from finish_drop_world [OF ok g drop(1) _ this] drop(3) show ?thesis
    using live False by (simp add: tls_retire_def reading_def Let_def d)
qed

lemma tls_retain_world:
  assumes ok: "world_ok u x ss l own w" and g: "g < length (tw_generations w)"
  shows "case tls_retain g w of (w', Inl e) \<Rightarrow> w' = w
    | (w', Inr _) \<Rightarrow> world_ok (u(g := Suc (u g))) x ss l own w' \<and> generation_ready (generation_at w' g) \<and>
        length (tw_generations w') = length (tw_generations w)"
proof -
  let ?n = "generation_at w g" let ?r = "generation_at w g\<lparr>tn_references := tn_references (generation_at w g) + 1\<rparr>"
  from world_okD [OF ok g] have n: "tls_gen_ok (u g) ?n" .
  show ?thesis
  proof (cases "tn_references ?n \<le> 0 \<or> tn_destroyed ?n")
    case False
    with n have r: "tls_gen_ok (Suc (u g)) ?r" "generation_ready ?r" by (auto simp: tls_gen_ok_def generation_ready_def)
    have "own = (if tn_retired ?r then own - {g} else insert g own)" using world_ok_owned [OF ok, of g] g by auto
    from world_ok_put [OF ok g r(1) _ this, of "{#}"] r(2) g False show ?thesis
      by (simp add: tls_retain_def reading_def Let_def put_generation_def change_def)
  qed (simp add: tls_retain_def reading_def Let_def throw_def)
qed

section \<open>New generations\<close>

lemma create_context_world:
  assumes "world_ok u x ss l own w"
  shows "case create_context env p config cert w of (w', r) \<Rightarrow> tw_generations w' = tw_generations w \<and>
    world_ok u (case r of Inr (Some c) \<Rightarrow> add_mset c x | _ \<Rightarrow> x) ss l own w'"
  using assms
  by (auto simp: create_context_def andthen_def provider_call_def ret_def thenp_change world_ok_def
      split: prod.split sum.split option.split)

lemma create_contexts_world:
  assumes "world_ok u (mset cs + x) ss l own w"
  shows "case create_contexts env p config certs cs d w of (w', r) \<Rightarrow> tw_generations w' = tw_generations w \<and>
    (\<exists>cs' d' e. r = Inr (cs', d', e) \<and> world_ok u (mset cs' + x) ss l own w' \<and>
       (e = None \<longrightarrow> (\<forall>k. map_of d k \<noteq> None \<or> k \<in> tc_identifier ` set certs \<longrightarrow> map_of d' k \<noteq> None)))"
  using assms
proof (induction certs arbitrary: cs d w)
  case (Cons cert certs)
  obtain w1 r1 where c: "create_context env p config cert w = (w1, r1)" by force
  note one = create_context_world [OF Cons.prems, of env p config cert, unfolded c prod.case]
  show ?case
  proof (cases "\<exists>y. r1 = Inr (Some y)")
    case True
    then obtain y where y: "r1 = Inr (Some y)" by blast
    with one have "world_ok u (mset (cs @ [y]) + x) ss l own w1" by simp
    from Cons.IH [OF this, of "dict_set (tc_identifier cert) y d"] one show ?thesis
      by (auto simp: c y split: prod.splits)
  next
    case False
    with one c show ?thesis by (cases r1) (auto simp: ret_def split: option.splits)
  qed
qed (simp add: ret_def)

lemma held_contexts_single: "held_contexts [n] = mset (tn_contexts n)"
  by (simp add: held_contexts_def)

lemma place_generation_world:
  assumes ok: "world_ok u (mset (tn_contexts n) + x) ss l own w"
    and n: "tn_references n = 1" "\<not> tn_retired n" "\<not> tn_destroyed n" "generation_ready n"
  shows "case place_generation n w of (w', r) \<Rightarrow> r = Inr (length (tw_generations w)) \<and>
    tw_generations w' = tw_generations w @ [n] \<and> world_ok u x ss l (insert (length (tw_generations w)) own) w'"
proof -
  have "u (length (tw_generations w)) = 0" using ok unfolding world_ok_def by (metis less_irrefl)
  then have "tls_gen_ok (u (length (tw_generations w))) n" using n by (simp add: tls_gen_ok_def)
  moreover have "owned (tw_generations w @ [n]) = insert (length (tw_generations w)) own"
    using ok n by (auto simp: owned_def world_ok_def nth_append)
  ultimately show ?thesis
    using ok by (auto simp: place_generation_def world_ok_def held_contexts_append held_contexts_single nth_append ac_simps
        less_Suc_eq)
qed

lemma tls_generation_new_world:
  assumes ok: "world_ok u x ss l own w"
  shows "case tls_generation_new env i p config w of
      (w', Inl e) \<Rightarrow> tw_generations w' = tw_generations w \<and> world_ok u x ss l own w'
    | (w', Inr g) \<Rightarrow> g = length (tw_generations w) \<and> (\<exists>n. tw_generations w' = tw_generations w @ [n] \<and> tn_provider n = p) \<and>
        world_ok u x ss l (insert g own) w'"
proof (cases "i \<le> 0")
  case False
  let ?certs = "tg_default config # tg_sni_certificates config"
  obtain w1 cs d e where c: "create_contexts env p config ?certs [] [] w = (w1, Inr (cs, d, e))"
    and gens: "tw_generations w1 = tw_generations w" and ok1: "world_ok u (mset cs + x) ss l own w1"
    and dict: "e = None \<Longrightarrow> \<forall>k \<in> tc_identifier ` set ?certs. map_of d k \<noteq> None"
    using create_contexts_world [where certs = ?certs and cs = "[]" and d = "[]", of u x ss l own w env p config] ok
    by (auto simp del: create_contexts.simps split: prod.splits)
  show ?thesis
  proof (cases e)
    case (Some ex)
    obtain w2 r2 where fr: "free_contexts env p (Some cs) w1 = (w2, r2)" by force
    have "world_ok u x ss l own w2" using free_contexts_world [of u "Some cs" x ss l own w1 env p] ok1 fr by simp
    moreover have "tw_generations w2 = tw_generations w1" using free_contexts_generations [of env p "Some cs" w1] fr by simp
    ultimately show ?thesis
      using False c gens Some fr
      by (auto simp: tls_generation_new_def reading_def andthen_def thenp_def catching_def throw_def simp del: create_contexts.simps
          split: sum.splits)
  next
    case None
    from dict [OF None] obtain dc where ctx: "map_of d (tc_identifier (tg_default config)) = Some dc" by auto
    let ?n = "generation_object i p (provider_info_new (pv_attributes (env p) (tw_state w))) config cs d dc"
    have "generation_ready ?n" using dict [OF None] by (auto simp: generation_object_def generation_ready_def)
    then have "case place_generation ?n w1 of (w', r) \<Rightarrow> r = Inr (length (tw_generations w1)) \<and>
        tw_generations w' = tw_generations w1 @ [?n] \<and> world_ok u x ss l (insert (length (tw_generations w1)) own) w'"
      using ok1 by (intro place_generation_world) (simp_all add: generation_object_def)
    then show ?thesis
      using False c gens None ctx
      by (auto simp: tls_generation_new_def reading_def andthen_def Let_def generation_object_def simp del: create_contexts.simps
          split: prod.splits)
  qed
qed (simp add: tls_generation_new_def throw_def ok)

section \<open>Channels\<close>

lemma new_connection_world:
  assumes "world_ok u x ss l own w"
  shows "case new_connection env p c fd w of (w', r) \<Rightarrow> tw_generations w' = tw_generations w \<and>
    world_ok u x (case r of Inr (Some s) \<Rightarrow> add_mset s ss | _ \<Rightarrow> ss) l own w'"
  using assms
  by (auto simp: new_connection_def andthen_def provider_call_def ret_def thenp_change world_ok_def
      split: prod.split sum.split option.split)

lemma tls_context_ready: "generation_ready (generation_at w g) \<Longrightarrow> \<exists>c. tls_context g w = (w, Inr c)"
  by (auto simp: tls_context_def reading_def Let_def generation_ready_def ret_def)

lemma tls_channel_new_world:
  assumes ok: "world_ok u x ss l own w" and g: "g < length (tw_generations w)" and v: "u g = Suc v" and fd: "0 \<le> fd"
  shows "case tls_channel_new env g fd True w of
      (w', Inl e) \<Rightarrow> world_ok (u(g := v)) x ss l own w'
    | (w', Inr c) \<Rightarrow> (\<exists>p s i. c = channel_object p g s fd i \<and> world_ok u x (add_mset s ss) l own w')"
proof -
  from world_okD [OF ok g] v have "generation_ready (generation_at w g)" by (auto simp: tls_gen_ok_def)
  then obtain c where c: "tls_context g w = (w, Inr c)" using tls_context_ready by blast
  obtain w1 r1 where n: "new_connection env (tn_provider (generation_at w g)) c fd w = (w1, r1)" by force
  note conn = new_connection_world [OF ok, of env "tn_provider (generation_at w g)" c fd, unfolded n prod.case]
  have rel: "world_ok (u(g := v)) x ss l own (fst (tls_release env g w1))" if "\<nexists>s. r1 = Inr (Some s)"
  proof -
    from that conn have "world_ok u x ss l own w1" by (auto split: sum.splits option.splits)
    then show ?thesis using tls_release_world [of u x ss l own w1 g v env] conn g v by simp
  qed
  show ?thesis
  proof (cases r1)
    case (Inl e)
    with rel n c fd show ?thesis
      by (auto simp: tls_channel_new_def unless_def reading_def Let_def catching_def andthen_def thenp_def ret_def throw_def
          split: prod.splits sum.splits)
  next
    case (Inr o1)
    with rel n c fd conn show ?thesis
      by (cases o1) (auto simp: tls_channel_new_def unless_def reading_def Let_def catching_def andthen_def thenp_def ret_def
          throw_def split: prod.splits sum.splits)
  qed
qed

lemma manager_new_channel_world:
  assumes ok: "world_ok u x ss l own w"
    and active: "\<And>g. mg_active m = Some g \<Longrightarrow> g < length (tw_generations w)"
    and generation: "\<And>g. generation = Some g \<Longrightarrow> g < length (tw_generations w)"
  shows "case manager_new_channel env m fd generation w of
      (w', Inl e) \<Rightarrow> world_ok u x ss l own w'
    | (w', Inr c) \<Rightarrow> (\<exists>p g s i. c = channel_object p g s fd i \<and> world_ok (u(g := Suc (u g))) x (add_mset s ss) l own w')"
proof (cases "fd < 0 \<or> mg_closed m \<or> mg_active m = None")
  case False
  then obtain a where a: "mg_active m = Some a" and fd: "\<not> fd < 0" "\<not> mg_closed m" by auto
  define g where "g = (case generation of None \<Rightarrow> a | Some g \<Rightarrow> g)"
  have g: "g < length (tw_generations w)" using active [OF a] generation by (auto simp: g_def split: option.split)
  show ?thesis
  proof (cases "tn_provider (generation_at w g) = mg_provider m")
    case True
    then have eq: "manager_new_channel env m fd generation w = thenp (tls_retain g) (tls_channel_new env g fd True) w"
      using a fd by (simp add: manager_new_channel_def reading_def g_def Let_def)
    obtain w1 r1 where r: "tls_retain g w = (w1, r1)" by force
    note kept = tls_retain_world [OF ok g, unfolded r prod.case]
    show ?thesis
    proof (cases r1)
      case (Inl e)
      with kept ok show ?thesis unfolding eq by (simp add: thenp_def andthen_def r)
    next
      case (Inr y)
      with kept have ok1: "world_ok (u(g := Suc (u g))) x ss l own w1" "g < length (tw_generations w1)" using g by simp_all
      have "u(g := Suc (u g), g := u g) = u" by simp
      with tls_channel_new_world [OF ok1, of "u g" fd env] fd show ?thesis
        unfolding eq by (auto simp: thenp_def andthen_def r Inr split: prod.splits sum.splits)
    qed
  qed (use a fd ok in \<open>simp add: manager_new_channel_def reading_def throw_def g_def Let_def\<close>)
qed (use ok in \<open>auto simp: manager_new_channel_def throw_def split: option.split\<close>)

text \<open>Closing gives back the session and the reference whatever the provider does, and answers.\<close>

lemma free_connection_world:
  assumes "world_ok u x (add_mset s ss) l own w"
  shows "world_ok u x ss l own (fst (free_connection env p s w)) \<and>
    tw_generations (fst (free_connection env p s w)) = tw_generations w"
  using assms by (auto simp: free_connection_def thenp_change provider_call_def world_ok_def split: prod.split)

definition closed_channel :: "'s tls_channel \<Rightarrow> 's tls_channel" where
  "closed_channel c = c\<lparr>ch_released := True, ch_closed := True, ch_session := None, ch_generation := None\<rparr>"

lemma closed_channel_ok: "channel_ok c \<Longrightarrow> \<not> ch_released c \<Longrightarrow> channel_ok (logged CallFree (closed_channel c))"
  by (auto simp: channel_ok_def closed_channel_def logged_def phases_append phase_fits_def next_phase_free)

lemma drop_session_world:
  assumes "world_ok u x (add_mset s ss) l own w"
  shows "\<exists>w' r. drop_session env p (Some s) (c, w) = ((logged CallFree c, w'), r) \<and> world_ok u x ss l own w' \<and>
    tw_generations w' = tw_generations w"
proof -
  obtain w' r where f: "free_connection env p s w = (w', r)" by force
  then show ?thesis
    using free_connection_world [OF assms, of env p]
    by (auto simp: drop_session_def on_channel_def thenp_change on_world_def logged_def)
qed

lemma drop_generation_world:
  assumes "world_ok u x ss l own w" "g < length (tw_generations w)" "u g = Suc v"
  shows "\<exists>w' r. drop_generation env (Some g) (c, w) = ((c, w'), r) \<and> world_ok (u(g := v)) x ss l own w'"
  using tls_release_world [OF assms, of env] fst_thenp_ret [of "tls_release env g" "()" w]
  by (auto simp: drop_generation_def on_world_def split: prod.split)

lemma tls_close_world:
  assumes ok: "world_ok u x (add_mset s ss) l own w" and c: "channel_ok c" "\<not> ch_released c"
    and s: "ch_session c = Some s" and g: "ch_generation c = Some g" "g < length (tw_generations w)" "u g = Suc v"
  shows "\<exists>c' w' r. tls_close env (c, w) = ((c', w'), Inr r) \<and> world_ok (u(g := v)) x ss l own w' \<and>
    channel_ok c' \<and> ch_released c' \<and> answer_ok ''close'' 0 r"
proof -
  obtain w1 r1 where d: "drop_session env (ch_provider c) (Some s) (closed_channel c, w) = ((logged CallFree (closed_channel c), w1), r1)"
    and ok1: "world_ok u x ss l own w1" and g1: "tw_generations w1 = tw_generations w"
    using drop_session_world [OF ok] by blast
  obtain w2 r2 where d2: "drop_generation env (Some g) (logged CallFree (closed_channel c), w1) =
      ((logged CallFree (closed_channel c), w2), r2)" and ok2: "world_ok (u(g := v)) x ss l own w2"
    using drop_generation_world [OF ok1, of g v env] g g1 by metis
  let ?c = "logged CallFree (closed_channel c)"
  have fin: "channel_ok ?c" "ch_released ?c"
    using closed_channel_ok [OF c] by (simp_all add: logged_def closed_channel_def)
  have fail: "channel_ok (remember (tls_error TLS_ERR_PROVIDER) ?c)"
    using fin by (auto simp: channel_ok_def phase_fits_def remember_def)
  have succeed: "channel_ok (remember (tls_answer_new TLS_CLOSED) ?c)"
    using fin by (auto simp: channel_ok_def phase_fits_def remember_def)
  have rel: "ch_released (remember r ?c)" for r using fin by (simp add: remember_def)
  let ?e = "isl r1 \<or> isl r2"
  have "tls_close env (c, w) =
      (if ?e then ((remember (tls_error TLS_ERR_PROVIDER) ?c, w2), Inr (tls_error TLS_ERR_PROVIDER))
       else ((remember (tls_answer_new TLS_CLOSED) ?c, w2), Inr (tls_answer_new TLS_CLOSED)))"
    using c(2) s g(1) d d2
    by (cases r1; cases r2) (simp_all add: tls_close_def reading_def on_channel_def thenp_change closed_channel_def remembered_def ret_def)
  then show ?thesis
    using fail succeed rel ok2 failure_answer_ok [OF own_failure(6)] closed_answer_ok by auto
qed

section \<open>Registry\<close>

lemma world_ok_registry:
  "world_ok u x ss l own w \<Longrightarrow> registry_ok l' rg (tw_shut w) \<Longrightarrow> world_ok u x ss l' own (w\<lparr>tw_registry := rg\<rparr>)"
  by (simp add: world_ok_def)

lemma world_ok_registryD: "world_ok u x ss l own w \<Longrightarrow> registry_ok l (tw_registry w) (tw_shut w)"
  by (simp add: world_ok_def)

lemma registry_register_world:
  assumes "world_ok u x ss l own w"
  shows "world_ok u x ss l own (fst (registry_register env p w))"
  using assms
  by (auto simp: registry_register_def reading_def Let_def throw_def on_registry_def change_def registry_ok_def dict_simps
      dest!: world_ok_registryD intro!: world_ok_registry [OF assms] split: sum.split)

lemma registry_activate_world:
  assumes "world_ok u x ss l own w"
  shows "world_ok u x ss l own (fst (registry_activate env name p req w)) \<and>
    tw_generations (fst (registry_activate env name p req w)) = tw_generations w"
proof -
  let ?I = "\<lambda>w'. world_ok u x ss l own w' \<and> tw_generations w' = tw_generations w"
  have "keeps ?I (provider_call f)" for f :: "'p \<Rightarrow> 'p \<times> unit result"
    by (auto simp: keeps_def provider_call_def split: prod.split)
  moreover have "registry_ok l (refresh_info name p i rg) shut" if "registry_ok l rg shut" for i rg shut
    using that by (auto simp: refresh_info_def registry_ok_def)
  then have "keeps ?I (on_registry (refresh_info name p i))" for i
    by (auto simp: keeps_def on_registry_def change_def world_ok_registryD intro!: world_ok_registry)
  ultimately have "keeps ?I (registry_activate env name p req)"
    unfolding registry_activate_def
    by (intro keeps_if keeps_option keeps_ret keeps_thenp keeps_catching keeps_throw keeps_reading) auto
  with assms show ?thesis by (simp add: keeps_def)
qed

lemma close_provider_world:
  assumes ok: "world_ok u x ss l own w" and e: "fst e \<notin> set (tw_shut w)" "fst e \<in> set (rg_close_started (tw_registry w))"
    and c: "close_provider env e w = (w1, r1)"
  shows "world_ok u x ss l own w1 \<and> tw_registry w1 = tw_registry w \<and> set (tw_shut w1) \<subseteq> insert (fst e) (set (tw_shut w))"
proof (cases "pv_callable (env (snd e)) ''close''")
  case True
  with c obtain p where w1: "w1 = w\<lparr>tw_shut := fst e # tw_shut w, tw_state := p\<rparr>"
    by (auto simp: close_provider_def thenp_change provider_call_def split: prod.splits)
  have "registry_ok l (tw_registry w) (fst e # tw_shut w)"
    using e world_ok_registryD [OF ok] by (simp add: registry_ok_def)
  with ok show ?thesis by (auto simp: w1 world_ok_def)
qed (use c ok in \<open>auto simp: close_provider_def ret_def\<close>)

lemma close_each_world:
  assumes "world_ok u x ss l own w" "distinct (map fst es)" "set (map fst es) \<inter> set (tw_shut w) = {}"
    "set (map fst es) \<subseteq> set (rg_close_started (tw_registry w))"
  shows "world_ok u x ss l own (fst (close_each env es n failed w))"
  using assms
proof (induction es arbitrary: w n failed)
  case (Cons e es)
  obtain w1 r1 where c: "close_provider env e w = (w1, r1)" by force
  have e: "fst e \<notin> set (tw_shut w)" "fst e \<in> set (rg_close_started (tw_registry w))"
    using Cons.prems(3,4) by simp_all
  note one = close_provider_world [OF Cons.prems(1) e c]
  have "world_ok u x ss l own (fst (close_each env es n failed w1))" for n failed
  proof (rule Cons.IH)
    show "world_ok u x ss l own w1" using one by blast
    show "distinct (map fst es)" using Cons.prems(2) by simp
    show "set (map fst es) \<subseteq> set (rg_close_started (tw_registry w1))" using one Cons.prems(4) by simp
    have "fst e \<notin> set (map fst es)" "set (map fst es) \<inter> set (tw_shut w) = {}"
      using Cons.prems(2,3) by (simp_all only: list.map list.set distinct.simps) blast+
    with one show "set (map fst es) \<inter> set (tw_shut w1) = {}" by blast
  qed
  then show ?case by (auto simp: c split: sum.split)
qed (simp add: ret_def throw_def)

lemma close_pending_world:
  assumes ok: "world_ok u x ss l own w"
  shows "world_ok u x ss l own (fst (close_pending env w))"
proof -
  let ?rg = "tw_registry w"
  obtain rg pending where p: "providers_to_close ?rg = (rg, pending)" by force
  note reg = world_ok_registryD [OF ok]
  have "registry_ok l rg (tw_shut w) \<and> distinct (map fst pending) \<and> set (map fst pending) \<inter> set (tw_shut w) = {} \<and>
      set (map fst pending) \<subseteq> set (rg_close_started rg)"
  proof (cases "\<not> rg_owns_providers ?rg \<or> \<not> rg_closed ?rg \<or> rg_manager_leases ?rg \<noteq> 0")
    case True
    with p reg show ?thesis by (auto simp: providers_to_close_def)
  next
    case False
    let ?new = "filter (\<lambda>e. fst e \<notin> set (rg_close_started ?rg)) (rg_providers ?rg)"
    from False p have eq: "pending = ?new" "rg = ?rg\<lparr>rg_close_started := rg_close_started ?rg @ map fst ?new\<rparr>"
      by (auto simp: providers_to_close_def Let_def)
    have "set (map fst ?new) \<inter> set (rg_close_started ?rg) = {}" by auto
    moreover have "distinct (map fst ?new)" using reg by (simp add: registry_ok_def dict_keys_def distinct_map_filter)
    ultimately show ?thesis
      unfolding eq using False reg by (simp only: registry_ok_def tls_registry.simps set_append) fastforce
  qed
  then have "world_ok u x ss l own (fst (close_each env pending 0 False (w\<lparr>tw_registry := rg\<rparr>)))"
    by (intro close_each_world world_ok_registry [OF ok]) auto
  then show ?thesis by (simp add: close_pending_def reading_def p on_registry_def thenp_change)
qed

lemma close_pending_generations: "tw_generations (fst (close_pending env w)) = tw_generations w"
proof -
  let ?I = "\<lambda>w'. tw_generations w' = tw_generations w"
  have one: "keeps ?I (close_provider env e)" for e
    by (auto simp: keeps_def close_provider_def ret_def thenp_change provider_call_def split: prod.split)
  have "keeps ?I (close_each env es n failed)" for es n failed
  proof (induction es arbitrary: n failed)
    case (Cons e es)
    with one [of e] show ?case by (fastforce simp: keeps_def split: prod.split sum.split)
  qed (simp add: keeps_ret keeps_throw)
  then have "?I (fst (close_each env es n failed (w\<lparr>tw_registry := rg\<rparr>)))" for es n failed rg
    by (simp add: keeps_def)
  then show ?thesis
    by (auto simp: close_pending_def reading_def on_registry_def thenp_change split: prod.split)
qed

lemma release_manager_world:
  assumes ok: "world_ok u x ss (Suc l) own w"
  shows "world_ok u x ss l own (fst (release_manager env w)) \<and>
    tw_generations (fst (release_manager env w)) = tw_generations w"
proof -
  note reg = world_ok_registryD [OF ok]
  let ?rg = "(tw_registry w)\<lparr>rg_manager_leases := rg_manager_leases (tw_registry w) - 1,
    rg_closed := (rg_closed (tw_registry w) \<or> rg_close_on_last_manager (tw_registry w) \<and> rg_manager_leases (tw_registry w) - 1 = 0)\<rparr>"
  have "registry_ok l ?rg (tw_shut w)" using reg by (auto simp: registry_ok_def)
  then have "world_ok u x ss l own (w\<lparr>tw_registry := ?rg\<rparr>)" by (rule world_ok_registry [OF ok])
  from close_pending_world [OF this, of env] close_pending_generations [of env "w\<lparr>tw_registry := ?rg\<rparr>"] show ?thesis
    using reg by (simp add: release_manager_def reading_def on_registry_def thenp_change registry_ok_def)
qed

lemma registry_close_world:
  assumes ok: "world_ok u x ss l own w"
  shows "world_ok u x ss l own (fst (registry_close env w)) \<and> tw_generations (fst (registry_close env w)) = tw_generations w"
proof -
  let ?rg = "(tw_registry w)\<lparr>rg_closed := True\<rparr>"
  have "registry_ok l ?rg (tw_shut w)" using world_ok_registryD [OF ok] by (simp add: registry_ok_def)
  then have "world_ok u x ss l own (w\<lparr>tw_registry := ?rg\<rparr>)" by (rule world_ok_registry [OF ok])
  from close_pending_world [OF this, of env] close_pending_generations [of env "w\<lparr>tw_registry := ?rg\<rparr>"] ok show ?thesis
    by (simp add: registry_close_def reading_def on_registry_def thenp_change ret_def)
qed

lemma thenp_throw:
  assumes "a = thenp m (throw e) s"
  shows "fst a = fst (m s) \<and> (\<exists>e'. snd a = Inl e')"
  using assms by (auto simp: thenp_def andthen_def throw_def split: prod.split sum.split)

lemma acquire_manager_world:
  assumes ok: "world_ok u x ss l own w"
  shows "case acquire_manager env name req w of (w', r) \<Rightarrow> tw_generations w' = tw_generations w \<and>
    world_ok u x ss (case r of Inl _ \<Rightarrow> l | Inr _ \<Rightarrow> Suc l) own w'"
proof (cases "lookup_locked (tw_registry w) name req")
  case (Inl e)
  with ok show ?thesis by (simp add: acquire_manager_def reading_def throw_def)
next
  case (Inr p)
  then have "\<not> rg_closed (tw_registry w)" by (auto simp: lookup_locked_def split: if_splits)
  let ?rg = "(tw_registry w)\<lparr>rg_manager_leases := rg_manager_leases (tw_registry w) + 1\<rparr>"
  let ?w = "w\<lparr>tw_registry := ?rg\<rparr>"
  have "registry_ok (Suc l) ?rg (tw_shut w)"
    using world_ok_registryD [OF ok] \<open>\<not> rg_closed (tw_registry w)\<close> by (auto simp: registry_ok_def)
  then have ok1: "world_ok u x ss (Suc l) own ?w" by (rule world_ok_registry [OF ok])
  obtain w1 r1 where a: "registry_activate env name p req ?w = (w1, r1)" by force
  with registry_activate_world [OF ok1, of env name p req]
  have ok2: "world_ok u x ss (Suc l) own w1" "tw_generations w1 = tw_generations w" by simp_all
  have eq: "acquire_manager env name req w =
      catching (registry_activate env name p req) (\<lambda>e. thenp (release_manager env) (throw e)) ?w"
    by (simp add: acquire_manager_def reading_def Inr on_registry_def thenp_change)
  show ?thesis
  proof (cases r1)
    case (Inl e)
    then have "acquire_manager env name req w = thenp (release_manager env) (throw e) w1"
      by (simp add: eq catching_def a)
    from thenp_throw [OF this] show ?thesis
      using release_manager_world [OF ok2(1), of env] ok2(2) by (auto simp: split_beta)
  next
    case (Inr y)
    with ok2 show ?thesis by (simp add: eq catching_def a)
  qed
qed

lemma registry_get_world:
  assumes "world_ok u x ss l own w"
  shows "world_ok u x ss l own (fst (registry_get env name req w)) \<and> tw_generations (fst (registry_get env name req w)) = tw_generations w"
  using assms registry_activate_world [OF assms]
  by (auto simp: registry_get_def reading_def throw_def split: sum.split)

section \<open>Managers\<close>

definition manager_ok :: "nat \<Rightarrow> tls_manager \<Rightarrow> bool" where
  "manager_ok len m \<longleftrightarrow> (mg_closed m \<longleftrightarrow> \<not> mg_lease_active m) \<and> (mg_active m = None \<longleftrightarrow> mg_closed m) \<and>
     (\<forall>g. mg_active m = Some g \<longrightarrow> g < len)"

lemma manager_new_world:
  assumes ok: "world_ok u x ss l own w"
  shows "case manager_new env name config req w of
      (w', Inl e) \<Rightarrow> tw_generations w' = tw_generations w \<and> world_ok u x ss l own w'
    | (w', Inr m) \<Rightarrow> length (tw_generations w') = Suc (length (tw_generations w)) \<and>
        (\<exists>p i. m = manager_object name p i (length (tw_generations w))) \<and>
        world_ok u x ss (Suc l) (insert (length (tw_generations w)) own) w'"
proof -
  obtain w1 r1 where a: "acquire_manager env name req w = (w1, r1)" by force
  note acq = acquire_manager_world [OF ok, of env name req, unfolded a prod.case]
  show ?thesis
  proof (cases r1)
    case (Inl e)
    with a acq show ?thesis by (simp add: manager_new_def andthen_def)
  next
    case (Inr p)
    with acq have ok1: "world_ok u x ss (Suc l) own w1" "tw_generations w1 = tw_generations w" by simp_all
    let ?body = "andthen (registry_info name) (\<lambda>info. andthen (tls_generation_new env 1 p config)
        (\<lambda>g. ret (manager_object name p info g)))"
    obtain w2 r2 where b: "?body w1 = (w2, r2)" by force
    have body: "case r2 of Inl e \<Rightarrow> tw_generations w2 = tw_generations w1 \<and> world_ok u x ss (Suc l) own w2
        | Inr m \<Rightarrow> length (tw_generations w2) = Suc (length (tw_generations w1)) \<and>
            (\<exists>p i. m = manager_object name p i (length (tw_generations w1))) \<and>
            world_ok u x ss (Suc l) (insert (length (tw_generations w1)) own) w2"
      using b tls_generation_new_world [OF ok1(1), where env = env and i = 1 and p = p and config = config] ok1(1)
      by (auto simp: registry_info_def reading_def andthen_def throw_def ret_def split: option.splits prod.splits sum.splits)
    have eq: "manager_new env name config req w = catching ?body (\<lambda>e. thenp (release_manager env) (throw e)) w1"
      using a Inr by (simp add: manager_new_def andthen_def [of "acquire_manager env name req"])
    show ?thesis
    proof (cases r2)
      case (Inl e)
      with b have "manager_new env name config req w = thenp (release_manager env) (throw e) w2"
        by (simp add: eq catching_def)
      note raised = thenp_throw [OF this]
      have "world_ok u x ss (Suc l) own w2" using body Inl by simp
      from release_manager_world [OF this, of env] raised show ?thesis using body Inl ok1 by (auto simp: split_beta)
    next
      case (Inr m)
      with b body ok1 show ?thesis by (simp add: eq catching_def)
    qed
  qed
qed

lemma tls_retire_length: "length (tw_generations (fst (tls_retire env g w))) = length (tw_generations w)"
proof (cases "tn_retired (generation_at w g) \<or> tn_references (generation_at w g) \<le> 0 \<or> tn_destroyed (generation_at w g)")
  case False
  then show ?thesis
    by (simp add: tls_retire_def reading_def Let_def finish_drop_def put_generation_def thenp_change fst_thenp_ret
        free_contexts_generations split: prod.split)
qed (auto simp: tls_retire_def reading_def Let_def ret_def throw_def)

lemma manager_reload_world:
  assumes ok: "world_ok u x ss l own w" and m: "manager_ok (length (tw_generations w)) m"
    and run: "manager_reload env config (m, w) = ((m', w'), r)"
  shows "length (tw_generations w) \<le> length (tw_generations w') \<and> manager_ok (length (tw_generations w')) m' \<and>
    mg_lease_active m' = mg_lease_active m \<and>
    (\<exists>own'. world_ok u x ss l own' w' \<and> (\<forall>g \<in> own'. g \<in> own \<and> mg_active m \<noteq> Some g \<or> mg_active m' = Some g))"
proof (cases "mg_closed m \<or> mg_active m = None")
  case True
  with run have "m' = m" "w' = w" by (auto simp: manager_reload_def reading_def throw_def)
  with ok m show ?thesis by blast
next
  case False
  then obtain a where a: "mg_active m = Some a" "\<not> mg_closed m" by auto
  let ?m = "m\<lparr>mg_next_generation_id := mg_next_generation_id m + 1\<rparr>"
  obtain w1 r1 where n: "tls_generation_new env (mg_next_generation_id m) (mg_provider m) config w = (w1, r1)" by force
  note made = tls_generation_new_world [OF ok, where env = env and i = "mg_next_generation_id m" and p = "mg_provider m" and config = config,
    unfolded n prod.case]
  from m a have alen: "a < length (tw_generations w)" by (simp add: manager_ok_def)
  show ?thesis
  proof (cases r1)
    case (Inl e)
    with run a n have "m' = ?m" "w' = w1"
      by (auto simp: manager_reload_def reading_def on_manager_def thenp_change andthen_def in_world_def)
    with made Inl m show ?thesis by (auto simp: manager_ok_def)
  next
    case (Inr g)
    let ?w = "fst (tls_retire env a w1)"
    have "fst (manager_reload env config (m, w)) = (?m\<lparr>mg_active := Some g\<rparr>, ?w)"
      using a n Inr
      by (auto simp: manager_reload_def reading_def on_manager_def thenp_change andthen_def in_world_def fst_thenp_ret
          split: prod.split)
    with run have fin: "m' = ?m\<lparr>mg_active := Some g\<rparr>" "w' = ?w" by simp_all
    from made Inr have g: "g = length (tw_generations w)" "length (tw_generations w1) = Suc (length (tw_generations w))"
      "world_ok u x ss l (insert g own) w1" by auto
    have "world_ok u x ss l (insert g own - {a}) ?w" using tls_retire_world [OF g(3)] alen g(2) by simp
    moreover have "\<forall>h \<in> insert g own - {a}. h \<in> own \<and> mg_active m \<noteq> Some h \<or> mg_active m' = Some h"
      using a fin(1) by auto
    moreover have "manager_ok (length (tw_generations ?w)) m'"
      using m a g fin(1) by (auto simp: manager_ok_def tls_retire_length)
    ultimately show ?thesis using fin g by (auto simp: tls_retire_length)
  qed
qed

lemma manager_close_world:
  assumes ok: "world_ok u x ss (if mg_closed m then l else Suc l) own w" and m: "manager_ok (length (tw_generations w)) m"
    and run: "manager_close env (m, w) = ((m', w'), r)"
  shows "length (tw_generations w') = length (tw_generations w) \<and> manager_ok (length (tw_generations w')) m' \<and>
    \<not> mg_lease_active m' \<and>
    (\<exists>own'. world_ok u x ss l own' w' \<and> (\<forall>g \<in> own'. g \<in> own \<and> mg_active m \<noteq> Some g \<or> mg_active m' = Some g))"
proof (cases "mg_closed m")
  case True
  with run have "m' = m" "w' = w" by (auto simp: manager_close_def reading_def ret_def)
  with ok m True show ?thesis by (auto simp: manager_ok_def)
next
  case False
  with m obtain a where a: "mg_active m = Some a" "a < length (tw_generations w)" "mg_lease_active m"
    by (auto simp: manager_ok_def)
  let ?w1 = "fst (tls_retire env a w)"
  let ?w2 = "fst (release_manager env ?w1)"
  have fin: "m' = m\<lparr>mg_closed := True, mg_active := None, mg_lease_active := False\<rparr>" "w' = ?w2"
    using run False a
    by (auto simp: manager_close_def reading_def on_manager_def thenp_change in_world_def retire_active_def return_lease_def
        split: prod.splits)
  from ok False have ok: "world_ok u x ss (Suc l) own w" by simp
  from release_manager_world [OF tls_retire_world [OF ok a(2)], of env]
  have w2: "world_ok u x ss l (own - {a}) ?w2" "tw_generations ?w2 = tw_generations ?w1" by auto
  from w2(2) have "length (tw_generations ?w2) = length (tw_generations w)" by (simp add: tls_retire_length)
  then show ?thesis using fin w2(1) a(1) by (auto simp: manager_ok_def)
qed

section \<open>The system\<close>

definition users :: "'s tls_channel list \<Rightarrow> nat list \<Rightarrow> nat \<Rightarrow> nat" where
  "users channels held g = count (mset (map ch_generation channels)) (Some g) + count (mset held) g"

definition session_bag :: "'s tls_channel list \<Rightarrow> 's multiset" where
  "session_bag channels = mset (concat (map (\<lambda>c. case ch_session c of None \<Rightarrow> [] | Some s \<Rightarrow> [s]) channels))"

definition leases :: "tls_manager list \<Rightarrow> nat" where
  "leases managers = count (mset (map mg_lease_active managers)) True"

definition system_ok :: "('p, 'c, 's) tls_system \<Rightarrow> bool" where
  "system_ok s \<longleftrightarrow>
     (\<exists>own. world_ok (users (sy_channels s) (sy_held s)) {#} (session_bag (sy_channels s)) (leases (sy_managers s)) own (sy_world s) \<and>
        (\<forall>g \<in> own. \<exists>m \<in> set (sy_managers s). mg_active m = Some g)) \<and>
     (\<forall>c \<in> set (sy_channels s). channel_ok c) \<and>
     (\<forall>m \<in> set (sy_managers s). manager_ok (length (tw_generations (sy_world s))) m)"

lemma system_okI:
  assumes "world_ok (users cs held) {#} (session_bag cs) (leases ms) own w"
    "\<forall>g \<in> own. \<exists>m \<in> set ms. mg_active m = Some g" "\<forall>c \<in> set cs. channel_ok c"
    "\<forall>m \<in> set ms. manager_ok (length (tw_generations w)) m"
  shows "system_ok \<lparr>sy_world = w, sy_managers = ms, sy_channels = cs, sy_held = held\<rparr>"
  using assms by (auto simp: system_ok_def)

lemma users_used: "world_ok (users cs held) x ss l own w \<Longrightarrow> c \<in> set cs \<Longrightarrow> ch_generation c = Some g \<Longrightarrow> g < length (tw_generations w)"
proof (rule ccontr)
  assume ok: "world_ok (users cs held) x ss l own w" and c: "c \<in> set cs" "ch_generation c = Some g"
    and "\<not> g < length (tw_generations w)"
  then have "users cs held g = 0" by (simp add: world_ok_def)
  moreover from c have "Some g \<in># mset (map ch_generation cs)" by force
  ultimately show False unfolding users_def by (metis add_is_0 not_in_iff)
qed

lemma users_held: "world_ok (users cs held) x ss l own w \<Longrightarrow> g \<in> set held \<Longrightarrow> g < length (tw_generations w)"
proof (rule ccontr)
  assume ok: "world_ok (users cs held) x ss l own w" and c: "g \<in> set held" and "\<not> g < length (tw_generations w)"
  then have "users cs held g = 0" by (simp add: world_ok_def)
  moreover from c have "g \<in># mset held" by simp
  ultimately show False by (simp add: users_def)
qed

lemma users_update:
  assumes "a < length cs" "ch_generation c = ch_generation (cs ! a)"
  shows "users (cs[a := c]) held = users cs held"
proof -
  have "map ch_generation (cs[a := c]) = map ch_generation cs"
    using assms by (simp add: map_update list_update_same_conv)
  then show ?thesis unfolding users_def by simp
qed

lemma session_bag_update:
  assumes "a < length cs" "ch_session c = ch_session (cs ! a)"
  shows "session_bag (cs[a := c]) = session_bag cs"
proof -
  have "map ch_session (cs[a := c]) = map ch_session cs"
    using assms by (simp add: map_update list_update_same_conv)
  moreover have "session_bag xs = mset (concat (map (\<lambda>x. case x of None \<Rightarrow> [] | Some s \<Rightarrow> [s]) (map ch_session xs)))" for xs :: "'a tls_channel list"
    by (simp add: session_bag_def comp_def)
  ultimately show ?thesis by (simp only:)
qed

lemma users_closed:
  assumes "a < length cs" "ch_generation (cs ! a) = Some g" "ch_generation c = None"
  shows "users cs held g = Suc (users (cs[a := c]) held g)"
    "users (cs[a := c]) held = (users cs held)(g := users (cs[a := c]) held g)"
proof -
  let ?M = "mset (map ch_generation cs)"
  have "mset (map ch_generation (cs[a := c])) = add_mset None (?M - {#Some g#})"
    using assms by (simp add: map_update mset_update)
  moreover have "Some g \<in># ?M" using assms by (metis length_map nth_map nth_mem set_mset_mset)
  ultimately have "count ?M (Some h) = (if h = g then Suc (count (mset (map ch_generation (cs[a := c]))) (Some h))
      else count (mset (map ch_generation (cs[a := c]))) (Some h))" for h
    by simp
  then show "users cs held g = Suc (users (cs[a := c]) held g)"
    "users (cs[a := c]) held = (users cs held)(g := users (cs[a := c]) held g)"
    by (auto simp: users_def fun_eq_iff)
qed

lemma session_bag_closed:
  assumes "a < length cs" "ch_session (cs ! a) = Some s" "ch_session c = None"
  shows "session_bag cs = add_mset s (session_bag (cs[a := c]))"
proof -
  have "session_bag cs = session_bag (take a cs @ cs ! a # drop (Suc a) cs)"
    using id_take_nth_drop [OF assms(1)] by simp
  with assms show ?thesis by (simp add: session_bag_def upd_conv_take_nth_drop)
qed

lemma leases_open: "\<forall>m \<in> set ms. manager_ok n m \<Longrightarrow> leases ms = length (filter (\<lambda>m. \<not> mg_closed m) ms)"
  unfolding leases_def by (induction ms) (auto simp: manager_ok_def)

lemma leases_update:
  assumes "i < length ms" "mg_lease_active m = mg_lease_active (ms ! i)"
  shows "leases (ms[i := m]) = leases ms"
proof -
  have "map mg_lease_active (ms[i := m]) = map mg_lease_active ms"
    using assms by (simp add: map_update list_update_same_conv)
  then show ?thesis unfolding leases_def by simp
qed

lemma leases_closed:
  assumes "i < length ms" "mg_lease_active (ms ! i)" "\<not> mg_lease_active m"
  shows "leases ms = Suc (leases (ms[i := m]))"
proof -
  let ?M = "mset (map mg_lease_active ms)"
  have "mset (map mg_lease_active (ms[i := m])) = add_mset False (?M - {#True#})"
    using assms by (simp add: map_update mset_update)
  moreover have "True \<in># ?M" using assms by (metis (full_types) length_map nth_map nth_mem set_mset_mset)
  ultimately show ?thesis unfolding leases_def by simp
qed

section \<open>Calls that make no generation\<close>

definition sized :: "nat \<Rightarrow> ('p, 'c, 's) tls_world \<Rightarrow> bool" where
  "sized n w \<longleftrightarrow> length (tw_generations w) = n"

lemma sized_provider_call: "keeps (sized n) (provider_call f)"
  by (auto simp: keeps_def provider_call_def sized_def split: prod.split)

lemma sized_put: "keeps (sized n) (put_generation g x)"
  by (simp add: keeps_def put_generation_def change_def sized_def)

lemma sized_free_contexts: "keeps (sized n) (free_contexts env p cs)"
  by (simp add: keeps_def sized_def free_contexts_generations)

lemma sized_finish_drop: "keeps (sized n) (finish_drop env g x)"
  unfolding finish_drop_def
  by (cases x) (auto intro!: keeps_thenp sized_put sized_free_contexts keeps_ret)

lemma sized_release: "keeps (sized n) (tls_release env g)"
  unfolding tls_release_def Let_def by (intro keeps_reading keeps_if keeps_throw sized_finish_drop)

lemma sized_retain: "keeps (sized n) (tls_retain g)"
  unfolding tls_retain_def Let_def by (intro keeps_reading keeps_if keeps_throw sized_put)

lemma sized_context: "keeps (sized n) (tls_context g)"
  unfolding tls_context_def Let_def by (intro keeps_reading keeps_option keeps_if keeps_throw keeps_ret)

lemma sized_new_connection: "keeps (sized n) (new_connection env p c fd)"
  unfolding new_connection_def
  by (intro keeps_andthen sized_provider_call keeps_option keeps_ret keeps_thenp keeps_change) (simp add: sized_def)

lemma sized_channel_new: "keeps (sized n) (tls_channel_new env g fd b)"
  unfolding tls_channel_new_def Let_def
  by (intro keeps_if keeps_throw keeps_thenp keeps_unless sized_retain keeps_reading keeps_andthen keeps_catching
      sized_context sized_new_connection sized_release keeps_option keeps_ret)

lemma sized_manager_new_channel: "keeps (sized n) (manager_new_channel env m fd g)"
  unfolding manager_new_channel_def Let_def
  by (intro keeps_if keeps_throw keeps_thenp sized_retain keeps_reading keeps_option sized_channel_new)

lemma sized_free_connection: "keeps (sized n) (free_connection env p s)"
  unfolding free_connection_def by (intro keeps_thenp keeps_change sized_provider_call) (simp add: sized_def)

lemma sized_on_world: "keeps (sized n) m \<Longrightarrow> keeps (\<lambda>s. sized n (snd s)) (on_world m)"
  by (auto simp: keeps_def on_world_def split: prod.split)

lemma sized_on_channel: "keeps (\<lambda>s. sized n (snd s)) (on_channel f)"
  by (auto simp: keeps_def on_channel_def change_def split: prod.split)

lemma sized_drops:
  "keeps (\<lambda>s. sized n (snd s)) (drop_session env p session)" "keeps (\<lambda>s. sized n (snd s)) (drop_generation env generation)"
  unfolding drop_session_def drop_generation_def
  by (intro keeps_option keeps_ret keeps_thenp sized_on_channel sized_on_world sized_free_connection sized_release)+

lemma keeps_outcomes:
  assumes "keeps I m" "\<And>e. keeps I (h e)" "\<And>x. keeps I (k x)"
  shows "keeps I (\<lambda>s. case m s of (s', Inl e) \<Rightarrow> h e s' | (s', Inr x) \<Rightarrow> k x s')"
  using assms unfolding keeps_def by (auto split: prod.split sum.split)

lemma sized_tls_close: "keeps (\<lambda>s. sized n (snd s)) (tls_close env)"
  unfolding tls_close_def remembered_def
  by (intro keeps_reading keeps_prod keeps_if keeps_ret keeps_thenp sized_on_channel keeps_outcomes keeps_first_error)
    (auto intro: sized_drops)

lemma sized_close: "sized n w \<Longrightarrow> sized n (snd (fst (tls_close env (c, w))))"
  using sized_tls_close [of n env] by (simp add: keeps_def)

section \<open>Every call keeps the ledger\<close>

fun op_name :: "channel_op \<Rightarrow> string" where
  "op_name (OpHandshake _ _) = ''handshake''"
| "op_name (OpRead _ _ _ _) = ''read''"
| "op_name (OpWrite _ _ _ _) = ''write''"
| "op_name (OpCloseNotify _ _) = ''close_notify''"
| "op_name OpCancel = ''cancel''"
| "op_name OpClose = ''close''"

fun op_limit :: "channel_op \<Rightarrow> int" where
  "op_limit (OpRead _ limit _ _) = limit"
| "op_limit (OpWrite _ amount _ _) = amount"
| "op_limit _ = 0"

lemma triple_returns:
  assumes "triple P m Q (\<lambda>_. False)" "P s"
  shows "\<exists>s' r. m s = (s', Inr r) \<and> Q r s'"
proof (cases "m s")
  case (Pair s' r)
  with assms show ?thesis by (cases r) (auto simp: triple_def split: prod.splits sum.splits, force+)
qed

lemma tls_cancel_triple:
  fixes c0 :: "'s tls_channel" and w0 :: "('p, 'c, 's) tls_world"
  assumes ok: "channel_ok c0"
  shows "triple (\<lambda>(c, w). c = c0 \<and> framed w0 w) tls_cancel (outcome c0 w0 ''cancel'' 0) (\<lambda>_. False)"
  unfolding tls_cancel_def
  using ok by (intro triple_reading_known triple_if triple_remembered)
    (auto intro!: closed_outcome failed_again_outcome own_failure)

lemma channel_run_outcome:
  fixes c :: "'s tls_channel" and w :: "('p, 'c, 's) tls_world"
  assumes ok: "channel_ok c" and ready: "\<And>g. ch_generation c = Some g \<Longrightarrow> generation_ready (generation_at w g)"
    and op: "op \<noteq> OpClose"
  shows "\<exists>c' w' r. channel_run env op (c, w) = ((c', w'), Inr r) \<and> outcome c w (op_name op) (op_limit op) r (c', w')"
proof -
  have "triple (\<lambda>(c', w'). c' = c \<and> framed w w') (channel_run env op) (outcome c w (op_name op) (op_limit op)) (\<lambda>_. False)"
    using op tls_handshake_triple [OF ok ready] tls_read_triple [OF ok] tls_write_triple [OF ok]
      tls_close_notify_triple [OF ok] tls_cancel_triple [OF ok]
    by (cases op) simp_all
  from triple_returns [OF this, of "(c, w)"] show ?thesis by auto
qed

lemma channel_call_ok:
  assumes ok: "system_ok s" and a: "a < length (sy_channels s)"
  shows "\<exists>c w r. channel_run env op (sy_channels s ! a, sy_world s) = ((c, w), Inr r) \<and>
    answer_ok (op_name op) (op_limit op) r \<and> system_ok (s\<lparr>sy_world := w, sy_channels := (sy_channels s)[a := c]\<rparr>)"
proof -
  let ?cs = "sy_channels s" let ?c = "sy_channels s ! a" let ?w = "sy_world s"
  from ok obtain own where w: "world_ok (users ?cs (sy_held s)) {#} (session_bag ?cs) (leases (sy_managers s)) own ?w"
    and own: "\<forall>g \<in> own. \<exists>m \<in> set (sy_managers s). mg_active m = Some g"
    and cs: "\<forall>c \<in> set ?cs. channel_ok c" and ms: "\<forall>m \<in> set (sy_managers s). manager_ok (length (tw_generations ?w)) m"
    by (auto simp: system_ok_def)
  from a cs have c: "channel_ok ?c" by simp
  have used: "g < length (tw_generations ?w)" if "ch_generation ?c = Some g" for g
    using users_used [OF w _ that] a by simp
  have upd: "\<forall>c \<in> set (?cs[a := c']). channel_ok c" if "channel_ok c'" for c'
    using cs that a by (auto dest!: set_update_subset_insert [THEN subsetD])
  show ?thesis
  proof (cases "op = OpClose \<and> \<not> ch_released ?c")
    case True
    with c obtain s1 g where s1: "ch_session ?c = Some s1" and g: "ch_generation ?c = Some g"
      by (auto simp: channel_ok_def)
    let ?u = "users ?cs (sy_held s)"
    obtain v where v: "?u g = Suc v" using users_closed(1) [OF a g, of "closed_channel ?c"] by (simp add: closed_channel_def)
    obtain ss where ss: "session_bag ?cs = add_mset s1 ss"
      using session_bag_closed [OF a s1, of "closed_channel ?c"] by (simp add: closed_channel_def)
    from w ss have w1: "world_ok ?u {#} (add_mset s1 ss) (leases (sy_managers s)) own ?w" by simp
    obtain c' w' r where r: "tls_close env (?c, ?w) = ((c', w'), Inr r)" "channel_ok c'" "ch_released c'" "answer_ok ''close'' 0 r"
      and w': "world_ok (?u(g := v)) {#} ss (leases (sy_managers s)) own w'"
      using tls_close_world [OF w1 c conjunct2 [OF True] s1 g used [OF g] v, of env] by blast
    from r(2,3) have gone: "ch_generation c' = None" "ch_session c' = None" by (simp_all add: channel_ok_def)
    have "users (?cs[a := c']) (sy_held s) = ?u(g := v)"
      using users_closed [OF a g gone(1), of "sy_held s"] v by simp
    moreover have "session_bag (?cs[a := c']) = ss"
      using session_bag_closed [OF a s1 gone(2)] ss by simp
    moreover have "length (tw_generations w') = length (tw_generations ?w)"
      using sized_close [of "length (tw_generations ?w)" ?w env ?c] r(1) by (simp add: sized_def)
    ultimately have "system_ok (s\<lparr>sy_world := w', sy_channels := ?cs[a := c']\<rparr>)"
      using w' own ms upd [OF r(2)] by (auto simp: system_ok_def)
    with True r show ?thesis by auto
  next
    case False
    have "\<exists>c' w' r. channel_run env op (?c, ?w) = ((c', w'), Inr r) \<and> outcome ?c ?w (op_name op) (op_limit op) r (c', w')"
    proof (cases "op = OpClose")
      case True
      with False have "ch_released ?c" by simp
      with True c show ?thesis
        by (auto simp: tls_close_def reading_def ret_def outcome_def closed_answer_ok) (simp add: tls_answer_new_def tls_codes)
    next
      case no: False
      have "generation_ready (generation_at ?w g)" if "ch_generation ?c = Some g" for g
      proof -
        have "users ?cs (sy_held s) g > 0"
          using users_closed(1) [OF a that, of "closed_channel ?c"] by (simp add: closed_channel_def)
        with world_okD [OF w used [OF that]] show ?thesis by (auto simp: tls_gen_ok_def)
      qed
      from channel_run_outcome [OF c this no] show ?thesis .
    qed
    then obtain c' w' r where r: "channel_run env op (?c, ?w) = ((c', w'), Inr r)"
      and out: "answer_ok (op_name op) (op_limit op) r" "channel_ok c'" "framed ?w w'" "identity c' = identity ?c"
      by (auto simp: outcome_def)
    have "users (?cs[a := c']) (sy_held s) = users ?cs (sy_held s)" "session_bag (?cs[a := c']) = session_bag ?cs"
      using a out(4) by (simp_all add: users_update session_bag_update identity_def)
    then have "system_ok (s\<lparr>sy_world := w', sy_channels := ?cs[a := c']\<rparr>)"
      using w own ms upd [OF out(2)] framed_world_ok [OF out(3)] framed_generations [OF out(3)]
      by (auto simp: system_ok_def)
    with r out(1) show ?thesis by auto
  qed
qed

text \<open>The parts of \<open>system_ok\<close>.\<close>

lemma system_okE:
  assumes "system_ok s"
  obtains own where
    "world_ok (users (sy_channels s) (sy_held s)) {#} (session_bag (sy_channels s)) (leases (sy_managers s)) own (sy_world s)"
    "\<forall>g \<in> own. \<exists>m \<in> set (sy_managers s). mg_active m = Some g"
    "\<forall>c \<in> set (sy_channels s). channel_ok c"
    "\<forall>m \<in> set (sy_managers s). manager_ok (length (tw_generations (sy_world s))) m"
  using assms by (auto simp: system_ok_def)

lemma manager_ok_mono: "manager_ok n m \<Longrightarrow> n \<le> k \<Longrightarrow> manager_ok k m"
  by (auto simp: manager_ok_def)

lemma system_world_call:
  assumes ok: "system_ok s"
    and step: "\<And>u x ss l own w. world_ok u x ss l own w \<Longrightarrow> world_ok u x ss l own (fst (f w)) \<and>
      tw_generations (fst (f w)) = tw_generations w"
  shows "system_ok (s\<lparr>sy_world := fst (f (sy_world s))\<rparr>)"
  using ok
proof (cases rule: system_okE)
  case (1 own)
  from step [OF 1(1)] 1(2-4) show ?thesis unfolding system_ok_def by (intro conjI exI [of _ own]) simp_all
qed

lemma registry_register_generations: "tw_generations (fst (registry_register env p w)) = tw_generations w"
  by (auto simp: registry_register_def reading_def Let_def throw_def on_registry_def change_def split: sum.split)

lemma new_manager_ok:
  assumes ok: "system_ok s" and run: "tls_step env (CallNewManager name config req) s = (s', e)"
  shows "system_ok s'"
  using ok
proof (cases rule: system_okE)
  case (1 own)
  obtain w r where n: "manager_new env name config req (sy_world s) = (w, r)" by force
  note made = manager_new_world [OF 1(1), where env = env and name = name and config = config and req = req, unfolded n prod.case]
  show ?thesis
  proof (cases r)
    case (Inl ex)
    with made run n 1 show ?thesis by (auto simp: system_ok_def)
  next
    case (Inr m)
    let ?len = "length (tw_generations (sy_world s))"
    from made Inr obtain p i where m: "m = manager_object name p i ?len" and len: "length (tw_generations w) = Suc ?len"
      and w: "world_ok (users (sy_channels s) (sy_held s)) {#} (session_bag (sy_channels s)) (Suc (leases (sy_managers s)))
        (insert ?len own) w" by auto
    have "leases (sy_managers s @ [m]) = Suc (leases (sy_managers s))" by (simp add: leases_def m manager_object_def)
    moreover have "\<forall>g \<in> insert ?len own. \<exists>m \<in> set (sy_managers s @ [m]). mg_active m = Some g"
      using 1(2) by (auto simp: m manager_object_def)
    moreover have "\<forall>m \<in> set (sy_managers s @ [m]). manager_ok (length (tw_generations w)) m"
      using 1(4) manager_ok_mono by (auto simp: m len) (auto simp: manager_object_def manager_ok_def)
    moreover have "s' = s\<lparr>sy_world := w, sy_managers := sy_managers s @ [m]\<rparr>" using run n Inr by simp
    ultimately show ?thesis using w 1(3) unfolding system_ok_def by (intro conjI exI [of _ "insert ?len own"]) simp_all
  qed
qed

lemma updated_active:
  assumes own: "\<forall>g \<in> own. \<exists>m \<in> set ms. mg_active m = Some g" and i: "i < length ms"
    and own': "\<forall>g \<in> own'. g \<in> own \<and> mg_active (ms ! i) \<noteq> Some g \<or> mg_active m' = Some g"
  shows "\<forall>g \<in> own'. \<exists>m \<in> set (ms[i := m']). mg_active m = Some g"
proof
  fix g assume "g \<in> own'"
  with own' consider "g \<in> own" "mg_active (ms ! i) \<noteq> Some g" | "mg_active m' = Some g" by blast
  then show "\<exists>m \<in> set (ms[i := m']). mg_active m = Some g"
  proof cases
    case 1
    with own obtain j where j: "j < length ms" "mg_active (ms ! j) = Some g" by (metis in_set_conv_nth)
    with 1 have "j \<noteq> i" by auto
    with j have "ms[i := m'] ! j = ms ! j" "j < length (ms[i := m'])" by simp_all
    with j(2) show ?thesis by (metis nth_mem)
  next
    case 2
    with i show ?thesis by (meson set_update_memI)
  qed
qed

lemma manager_update_ok:
  assumes own: "\<forall>g \<in> own. \<exists>m \<in> set (sy_managers s). mg_active m = Some g" and i: "i < length (sy_managers s)"
    and cs: "\<forall>c \<in> set (sy_channels s). channel_ok c"
    and ms: "\<forall>m \<in> set (sy_managers s). manager_ok (length (tw_generations (sy_world s))) m"
    and m': "manager_ok (length (tw_generations w')) m'"
    and len: "length (tw_generations (sy_world s)) \<le> length (tw_generations w')"
    and upd: "\<exists>own'. world_ok (users (sy_channels s) (sy_held s)) {#} (session_bag (sy_channels s)) l own' w' \<and>
      (\<forall>g \<in> own'. g \<in> own \<and> mg_active (sy_managers s ! i) \<noteq> Some g \<or> mg_active m' = Some g)"
    and l: "l = leases ((sy_managers s)[i := m'])"
  shows "system_ok (s\<lparr>sy_world := w', sy_managers := (sy_managers s)[i := m']\<rparr>)"
proof -
  from upd obtain own' where w': "world_ok (users (sy_channels s) (sy_held s)) {#} (session_bag (sy_channels s)) l own' w'"
    and own': "\<forall>g \<in> own'. g \<in> own \<and> mg_active (sy_managers s ! i) \<noteq> Some g \<or> mg_active m' = Some g" by blast
  have "\<forall>m \<in> set ((sy_managers s)[i := m']). manager_ok (length (tw_generations w')) m"
    using ms m' len manager_ok_mono by (auto dest!: set_update_subset_insert [THEN subsetD])
  with w' cs updated_active [OF own i own'] l show ?thesis
    unfolding system_ok_def by (intro conjI exI [of _ own']) simp_all
qed

lemma reload_ok:
  assumes ok: "system_ok s" and i: "i < length (sy_managers s)" and run: "tls_step env (CallReload i config) s = (s', e)"
  shows "system_ok s'"
  using ok
proof (cases rule: system_okE)
  case (1 own)
  from 1(4) i have m: "manager_ok (length (tw_generations (sy_world s))) (sy_managers s ! i)" by simp
  obtain m' w' r where r: "manager_reload env config (sy_managers s ! i, sy_world s) = ((m', w'), r)" by (metis prod.exhaust)
  note new = manager_reload_world [OF 1(1) m r]
  have "system_ok (s\<lparr>sy_world := w', sy_managers := (sy_managers s)[i := m']\<rparr>)"
    by (rule manager_update_ok [OF 1(2) i 1(3,4)]) (use new leases_update [OF i, of m'] in auto)
  with run r show ?thesis by simp
qed

lemma close_manager_ok:
  assumes ok: "system_ok s" and i: "i < length (sy_managers s)" and run: "tls_step env (CallCloseManager i) s = (s', e)"
  shows "system_ok s'"
  using ok
proof (cases rule: system_okE)
  case (1 own)
  let ?m = "sy_managers s ! i" let ?ms = "sy_managers s"
  from 1(4) i have m: "manager_ok (length (tw_generations (sy_world s))) ?m" by simp
  obtain m' w' r where r: "manager_close env (?m, sy_world s) = ((m', w'), r)" by (metis prod.exhaust)
  define l where "l = (if mg_closed ?m then leases ?ms else leases ?ms - 1)"
  have "leases ?ms \<noteq> 0" if "\<not> mg_closed ?m"
    using that m leases_closed [OF i, of "?m\<lparr>mg_lease_active := False\<rparr>"] by (simp add: manager_ok_def)
  then have eq: "leases ?ms = (if mg_closed ?m then l else Suc l)" by (simp add: l_def)
  note new = manager_close_world [OF 1(1) [unfolded eq] m r]
  have "leases (?ms[i := m']) = l"
    using new eq leases_update [OF i, of m'] leases_closed [OF i, of m'] m
    by (cases "mg_closed ?m") (simp_all add: manager_ok_def)
  then have "system_ok (s\<lparr>sy_world := w', sy_managers := ?ms[i := m']\<rparr>)"
    using new by (intro manager_update_ok [OF 1(2) i 1(3,4)]) auto
  with run r show ?thesis by simp
qed

lemma new_channel_ok:
  assumes ok: "system_ok s" and en: "call_enabled (CallNewChannel i fd g) s"
    and run: "tls_step env (CallNewChannel i fd g) s = (s', e)"
  shows "system_ok s'"
  using ok
proof (cases rule: system_okE)
  case (1 own)
  let ?m = "sy_managers s ! i" let ?w = "sy_world s" let ?u = "users (sy_channels s) (sy_held s)"
  from en have i: "i < length (sy_managers s)" and g: "\<And>h. g = Some h \<Longrightarrow> h < length (tw_generations ?w)"
    by (auto simp: call_enabled_def)
  from 1(4) i have act: "mg_active ?m = Some h \<Longrightarrow> h < length (tw_generations ?w)" for h by (auto simp: manager_ok_def)
  obtain w r where n: "manager_new_channel env ?m fd g ?w = (w, r)" by force
  note made = manager_new_channel_world [where m = ?m and generation = g and env = env and fd = fd, OF 1(1) act g, unfolded n prod.case]
  have len: "length (tw_generations w) = length (tw_generations ?w)"
    using keepsD [OF sized_manager_new_channel _ n] by (simp add: sized_def)
  show ?thesis
  proof (cases r)
    case (Inl ex)
    with made run n 1 len show ?thesis by (auto simp: system_ok_def)
  next
    case (Inr c)
    with made obtain p h ses ident where c: "c = channel_object p h ses fd ident"
      and w: "world_ok (?u(h := Suc (?u h))) {#} (add_mset ses (session_bag (sy_channels s))) (leases (sy_managers s)) own w"
      by auto
    have "users (sy_channels s @ [c]) (sy_held s) = ?u(h := Suc (?u h))"
      "session_bag (sy_channels s @ [c]) = add_mset ses (session_bag (sy_channels s))"
      by (auto simp: users_def session_bag_def c channel_object_def fun_eq_iff)
    moreover have "s' = s\<lparr>sy_world := w, sy_channels := sy_channels s @ [c]\<rparr>" using run n Inr by simp
    ultimately show ?thesis using w 1(2-4) len channel_object_ok c by (auto simp: system_ok_def)
  qed
qed

lemma holder_call_ok:
  assumes ok: "system_ok s" and k: "k = CallRetain g \<or> k = CallRelease g" and en: "call_enabled k s"
    and run: "tls_step env k s = (s', e)"
  shows "system_ok s'"
  using ok
proof (cases rule: system_okE)
  case (1 own)
  let ?w = "sy_world s" let ?u = "users (sy_channels s) (sy_held s)"
  show ?thesis
    using k
  proof
    assume k: "k = CallRetain g"
    with en have g: "g < length (tw_generations ?w)" by (simp add: call_enabled_def)
    obtain w r where r: "tls_retain g ?w = (w, r)" by force
    note kept = tls_retain_world [OF 1(1) g, unfolded r prod.case]
    have "users (sy_channels s) (g # sy_held s) = ?u(g := Suc (?u g))" by (auto simp: users_def fun_eq_iff)
    with kept run k r 1 show ?thesis by (cases r) (auto simp: system_ok_def)
  next
    assume k: "k = CallRelease g"
    with en have held: "g \<in> set (sy_held s)" by (simp add: call_enabled_def)
    from users_held [OF 1(1) this] have g: "g < length (tw_generations ?w)" .
    let ?v = "users (sy_channels s) (remove1 g (sy_held s)) g"
    have "0 < count (mset (sy_held s)) g" using held by (simp add: count_greater_zero_iff)
    then have u: "?u g = Suc ?v" "users (sy_channels s) (remove1 g (sy_held s)) = ?u(g := ?v)"
      unfolding users_def by (simp_all add: fun_eq_iff)
    obtain w r where r: "tls_release env g ?w = (w, r)" by force
    have "world_ok (?u(g := ?v)) {#} (session_bag (sy_channels s)) (leases (sy_managers s)) own w"
      using tls_release_world [OF 1(1) g u(1), of env] r by simp
    moreover have "length (tw_generations w) = length (tw_generations ?w)"
      using keepsD [OF sized_release _ r] by (simp add: sized_def)
    ultimately show ?thesis using run k r 1(2-4) u(2) by (auto simp: system_ok_def)
  qed
qed

lemma tls_step_ok:
  assumes ok: "system_ok s" and en: "call_enabled k s"
  shows "system_ok (fst (tls_step env k s))"
proof (cases k)
  case (CallRegister p)
  have "system_ok (s\<lparr>sy_world := fst (registry_register env p (sy_world s))\<rparr>)"
    by (rule system_world_call [OF ok]) (simp add: registry_register_world registry_register_generations)
  with CallRegister show ?thesis by (simp add: split_beta)
next
  case (CallGet name req)
  have "system_ok (s\<lparr>sy_world := fst (registry_get env name req (sy_world s))\<rparr>)"
    by (rule system_world_call [OF ok registry_get_world])
  with CallGet show ?thesis by (simp add: split_beta)
next
  case CallCloseRegistry
  have "system_ok (s\<lparr>sy_world := fst (registry_close env (sy_world s))\<rparr>)"
    by (rule system_world_call [OF ok registry_close_world])
  with CallCloseRegistry show ?thesis by (simp add: split_beta)
next
  case (CallNewManager name config req)
  with new_manager_ok [OF ok] show ?thesis by (metis prod.collapse)
next
  case (CallReload i config)
  with en reload_ok [OF ok, of i env config "fst (tls_step env k s)" "snd (tls_step env k s)"] show ?thesis
    by (simp add: call_enabled_def)
next
  case (CallCloseManager i)
  with en close_manager_ok [OF ok, of i env "fst (tls_step env k s)" "snd (tls_step env k s)"] show ?thesis
    by (simp add: call_enabled_def)
next
  case (CallNewChannel i fd g)
  with en new_channel_ok [OF ok, of i fd g] show ?thesis by (metis prod.collapse)
next
  case (CallChannel a op)
  with en have a: "a < length (sy_channels s)" by (simp add: call_enabled_def)
  from channel_call_ok [OF ok a, of env op] CallChannel show ?thesis by auto
next
  case (CallRetain g)
  with en holder_call_ok [OF ok, of k g] show ?thesis by (metis prod.collapse)
next
  case (CallRelease g)
  with en holder_call_ok [OF ok, of k g] show ?thesis by (metis prod.collapse)
qed

lemma tls_run_ok: "system_ok s \<Longrightarrow> system_ok (tls_run env ks s)"
  by (induction ks arbitrary: s) (simp_all add: tls_step_ok)

lemma tls_system_new_ok:
  assumes "registry_new owns on_last = Inr rg"
  shows "system_ok (tls_system_new p rg)"
  using assms
  by (auto simp: system_ok_def tls_system_new_def world_ok_def held_contexts_def session_bag_def users_def leases_def owned_def
      registry_ok_def registry_new_def dict_keys_def split: if_splits)

end
