(* ===== verification/Tls_Props.thy ===== *)
theory Tls_Props
  imports Tls_Ledger
begin

text \<open>
  Properties of TLS channels and generations over any sequence of calls, whatever the providers
  return or raise.
\<close>

lemma failed_channel_sticks:
  assumes "channel_ok c" "ch_failed c" "\<not> ch_released c" "op \<notin> {OpCancel, OpClose}"
  shows "channel_run env op (c, w) = ((c, w), Inr (ch_last_result c)) \<and> ta_status (ch_last_result c) = TLS_ERROR"
proof -
  from assms obtain s where "ch_session c = Some s" by (auto simp: channel_ok_def)
  with assms show ?thesis
    by (cases op) (simp_all add: tls_handshake_def tls_read_def tls_write_def tls_close_notify_def with_preflight_def
        reading_def ret_def channel_ok_def failure_answer_def)
qed

lemma channel_ok_protocol: "channel_ok c \<Longrightarrow> \<exists>ph. phases (Greeting False) (ch_calls c) = Some ph \<and> (ph = Ended \<longleftrightarrow> ch_released c)"
  by (auto simp: channel_ok_def phase_fits_def split: if_splits)

text \<open>C38 Whatever the providers do, after any calls on the TLS objects every operation on every channel returns an answer
  without raising, and the answer keeps the contract: a known status, an error code exactly when it is an error, a byte count
  only for a successful read or write and then within the limit, a server name only when the handshake asks for one.  The calls
  the channel made for its session follow the protocol (handshakes with at most one context choice, then the protocol question,
  then data, no write once closing began, one release at the end), and a failed channel answers the same error for ever without
  calling the provider again.\<close>

theorem tls_channel_contract:
  assumes "registry_new owns on_last = Inr rg" "s = tls_run env ks (tls_system_new p rg)" "a < length (sy_channels s)"
  shows "\<exists>c w r. channel_run env op (sy_channels s ! a, sy_world s) = ((c, w), Inr r) \<and>
    answer_ok (op_name op) (op_limit op) r \<and>
    (\<exists>ph. phases (Greeting False) (ch_calls c) = Some ph \<and> (ph = Ended \<longleftrightarrow> ch_released c)) \<and>
    (ch_failed (sy_channels s ! a) \<and> \<not> ch_released (sy_channels s ! a) \<and> op \<notin> {OpCancel, OpClose} \<longrightarrow>
       c = sy_channels s ! a \<and> w = sy_world s \<and> r = ch_last_result c \<and> ta_status r = TLS_ERROR)"
proof -
  have ok: "system_ok s" unfolding assms(2) by (rule tls_run_ok [OF tls_system_new_ok [OF assms(1)]])
  from channel_call_ok [OF ok assms(3), of env op] obtain c w r where
    run: "channel_run env op (sy_channels s ! a, sy_world s) = ((c, w), Inr r)" "answer_ok (op_name op) (op_limit op) r"
    and ok': "system_ok (s\<lparr>sy_world := w, sy_channels := (sy_channels s)[a := c]\<rparr>)" by blast
  from ok' assms(3) have "channel_ok c" by (auto simp: system_ok_def set_update_memI)
  moreover have "channel_ok (sy_channels s ! a)" using ok assms(3) by (simp add: system_ok_def)
  ultimately show ?thesis
    using run channel_ok_protocol failed_channel_sticks [of "sy_channels s ! a" op env "sy_world s"] by auto
qed

text \<open>C37 The TLS ledger: over any calls on registry, managers, generations and channels, with providers that may raise at any
  point, every context and every session a provider handed out is either held by exactly one generation or channel or was
  given back exactly once; a generation counts its owner, its open channels and the other holders, and is destroyed exactly when
  nobody is left, never under a user; the registry counts the open managers and asks a provider to close at most once, after it
  was closed and the last manager had gone.  So once all managers and channels are closed and nothing is held, everything has
  been given back.\<close>

theorem tls_ledger:
  assumes "registry_new owns on_last = Inr rg" "s = tls_run env ks (tls_system_new p rg)"
  shows "mset (tw_created (sy_world s)) =
      mset (tw_freed (sy_world s)) + mset (concat (map tn_contexts (tw_generations (sy_world s)))) \<and>
    mset (tw_opened (sy_world s)) = mset (tw_ended (sy_world s)) + session_bag (sy_channels s) \<and>
    (\<forall>g < length (tw_generations (sy_world s)). let n = generation_at (sy_world s) g in
       tn_references n = (if tn_retired n then 0 else 1) + int (users (sy_channels s) (sy_held s) g) \<and>
       (tn_destroyed n \<longleftrightarrow> tn_references n = 0) \<and> (tn_destroyed n \<longrightarrow> tn_contexts n = [])) \<and>
    rg_manager_leases (tw_registry (sy_world s)) = int (length (filter (\<lambda>m. \<not> mg_closed m) (sy_managers s))) \<and>
    distinct (tw_shut (sy_world s)) \<and>
    (tw_shut (sy_world s) \<noteq> [] \<longrightarrow> rg_closed (tw_registry (sy_world s)) \<and> (\<forall>m \<in> set (sy_managers s). mg_closed m)) \<and>
    ((\<forall>m \<in> set (sy_managers s). mg_closed m) \<and> (\<forall>c \<in> set (sy_channels s). ch_released c) \<and> sy_held s = [] \<longrightarrow>
       mset (tw_created (sy_world s)) = mset (tw_freed (sy_world s)) \<and>
       mset (tw_opened (sy_world s)) = mset (tw_ended (sy_world s)))"
proof -
  have ok: "system_ok s" unfolding assms(2) by (rule tls_run_ok [OF tls_system_new_ok [OF assms(1)]])
  then obtain own where
    w: "world_ok (users (sy_channels s) (sy_held s)) {#} (session_bag (sy_channels s)) (leases (sy_managers s)) own (sy_world s)"
    and own: "\<forall>g \<in> own. \<exists>m \<in> set (sy_managers s). mg_active m = Some g"
    and cs: "\<forall>c \<in> set (sy_channels s). channel_ok c"
    and ms: "\<forall>m \<in> set (sy_managers s). manager_ok (length (tw_generations (sy_world s))) m"
    by (rule system_okE)
  from w have contexts: "mset (tw_created (sy_world s)) =
      mset (tw_freed (sy_world s)) + mset (concat (map tn_contexts (tw_generations (sy_world s))))"
    and sessions: "mset (tw_opened (sy_world s)) = mset (tw_ended (sy_world s)) + session_bag (sy_channels s)"
    and reg: "registry_ok (leases (sy_managers s)) (tw_registry (sy_world s)) (tw_shut (sy_world s))"
    by (simp_all add: world_ok_def held_contexts_def)
  have gens: "\<forall>g < length (tw_generations (sy_world s)). let n = generation_at (sy_world s) g in
       tn_references n = (if tn_retired n then 0 else 1) + int (users (sy_channels s) (sy_held s) g) \<and>
       (tn_destroyed n \<longleftrightarrow> tn_references n = 0) \<and> (tn_destroyed n \<longrightarrow> tn_contexts n = [])"
    using world_okD [OF w] by (simp add: tls_gen_ok_def Let_def)
  have leases: "leases (sy_managers s) = length (filter (\<lambda>m. \<not> mg_closed m) (sy_managers s))"
    by (rule leases_open [OF ms])
  have shut: "tw_shut (sy_world s) \<noteq> [] \<longrightarrow> rg_closed (tw_registry (sy_world s)) \<and> (\<forall>m \<in> set (sy_managers s). mg_closed m)"
    using reg leases by (auto simp: registry_ok_def filter_empty_conv)
  have "mset (tw_created (sy_world s)) = mset (tw_freed (sy_world s)) \<and> mset (tw_opened (sy_world s)) = mset (tw_ended (sy_world s))"
    if gone: "\<forall>m \<in> set (sy_managers s). mg_closed m" "\<forall>c \<in> set (sy_channels s). ch_released c" "sy_held s = []"
  proof -
    have "own = {}" using own ms gone(1) by (auto simp: manager_ok_def)
    then have retired: "tn_retired (generation_at (sy_world s) g)" if "g < length (tw_generations (sy_world s))" for g
      using world_ok_owned [OF w, of g] that by simp
    have none: "ch_generation c = None" "ch_session c = None" if "c \<in> set (sy_channels s)" for c
      using that cs gone(2) by (auto simp: channel_ok_def)
    have "users (sy_channels s) (sy_held s) g = 0" for g
      using none(1) gone(3) by (auto simp: users_def count_eq_zero_iff)
    with gens retired have "tn_contexts n = []" if "n \<in> set (tw_generations (sy_world s))" for n
      using that by (fastforce simp: Let_def in_set_conv_nth)
    then have "concat (map tn_contexts (tw_generations (sy_world s))) = []" by simp
    moreover have "session_bag (sy_channels s) = {#}" using none(2) by (auto simp: session_bag_def)
    ultimately show ?thesis using contexts sessions by simp
  qed
  with contexts sessions gens shut reg leases show ?thesis by (simp add: registry_ok_def)
qed

section \<open>A run\<close>

text \<open>A provider that numbers what it hands out and raises on every release of a context.\<close>

definition toy_attributes :: provider_attributes where
  "toy_attributes = \<lparr>at_name = cp ''toy'', at_abi_version = 1, at_link_boundary = cp ''l'', at_license_id = cp ''i'',
     at_security_boundary = cp ''b'', at_production_ready = Some False, at_native_abi = [], at_implementation_id = [],
     at_library_path = [], at_expected_library_sha256 = [], at_verified_library_sha256 = [], at_library_max_bytes = 0\<rparr>"

definition toy_provider :: "(nat, nat, nat) tls_provider" where
  "toy_provider = \<lparr>pv_attributes = (\<lambda>_. toy_attributes), pv_callable = (\<lambda>_. True), pv_activate = None,
     pv_create_server_context = (\<lambda>_ _ n. (Suc n, Inr (Some n))), pv_new_connection = (\<lambda>_ _ n. (Suc n, Inr (Some n))),
     pv_handshake = (\<lambda>_ n. (Suc n, Inr (Some (tls_answer_new TLS_OK)))),
     pv_set_server_context = (\<lambda>_ _ n. (n, Inr (Some (tls_answer_new TLS_OK)))),
     pv_selected_alpn = (\<lambda>_ n. (n, Inr (Some []))), pv_read = (\<lambda>_ _ n. (n, Inr None)),
     pv_write = (\<lambda>_ _ _ n. (n, Inr (Some (tls_answer_new TLS_WANT_WRITE)))),
     pv_close_notify = (\<lambda>_ n. (n, Inr (Some (tls_answer_new TLS_CLOSED)))), pv_free_connection = (\<lambda>_ n. (n, Inr ())),
     pv_free_context = (\<lambda>_ n. (n, Inl (RuntimeError ''busy''))), pv_close = (\<lambda>n. (n, Inr ()))\<rparr>"

definition toy_registry :: tls_registry where
  "toy_registry = \<lparr>rg_owns_providers = True, rg_close_on_last_manager = True, rg_manager_leases = 0, rg_closed = False,
     rg_close_started = [], rg_providers = [], rg_info = []\<rparr>"

definition toy_calls :: "tls_call list" where
  "toy_calls = [CallRegister 0, CallNewManager (cp ''toy'') sample_tls_config False, CallNewChannel 0 5 None,
     CallChannel 0 (OpHandshake 1 10), CallReload 0 sample_tls_config]"

definition toy_closing :: "tls_call list" where
  "toy_closing = toy_calls @ [CallCloseManager 0, CallChannel 0 OpClose]"

lemma toy_registry_new: "registry_new True True = Inr toy_registry"
  by code_simp

lemma toy_open:
  "0 < length (sy_channels (tls_run (\<lambda>_. toy_provider) toy_calls (tls_system_new 0 toy_registry)))"
  by code_simp

theorem tls_channel_contract_witness:
  "let s = tls_run (\<lambda>_. toy_provider) toy_calls (tls_system_new 0 toy_registry) in
   \<exists>c w r. channel_run (\<lambda>_. toy_provider) (OpRead 8 4 2 10) (sy_channels s ! 0, sy_world s) = ((c, w), Inr r) \<and>
     answer_ok ''read'' 4 r"
  using tls_channel_contract [OF toy_registry_new refl toy_open, of "OpRead 8 4 2 10"] by (auto simp: Let_def)

lemma toy_end:
  "let s = tls_run (\<lambda>_. toy_provider) toy_closing (tls_system_new 0 toy_registry) in
   list_all mg_closed (sy_managers s) \<and> list_all ch_released (sy_channels s) \<and> sy_held s = [] \<and>
   length (tw_created (sy_world s)) = 4 \<and> tw_shut (sy_world s) = [cp ''toy'']"
  by code_simp

theorem tls_ledger_witness:
  "let s = tls_run (\<lambda>_. toy_provider) toy_closing (tls_system_new 0 toy_registry) in
   length (tw_created (sy_world s)) = 4 \<and> mset (tw_created (sy_world s)) = mset (tw_freed (sy_world s)) \<and>
   mset (tw_opened (sy_world s)) = mset (tw_ended (sy_world s))"
proof -
  let ?s = "tls_run (\<lambda>_. toy_provider) toy_closing (tls_system_new 0 toy_registry)"
  have gone: "(\<forall>m \<in> set (sy_managers ?s). mg_closed m) \<and> (\<forall>c \<in> set (sy_channels ?s). ch_released c) \<and> sy_held ?s = []"
    and four: "length (tw_created (sy_world ?s)) = 4"
    using toy_end unfolding Let_def list_all_iff by blast+
  note last = tls_ledger [OF toy_registry_new refl, of "\<lambda>_. toy_provider" toy_closing 0, THEN conjunct2, THEN conjunct2,
    THEN conjunct2, THEN conjunct2, THEN conjunct2, THEN conjunct2]
  from mp [OF last gone] four show ?thesis by (simp only: Let_def)
qed

end
