(* ===== verification/Tls_Request.thy ===== *)
theory Tls_Request
  imports Tls_Config Config
begin

text \<open>
  Model of the operations of \<open>PccNativeTlsProvider\<close> of \<open>pcc_gateway/tls.py\<close> on the request block of the
  native ABI: building the block, calling the entry point, reading the reply and turning it into a
  \<open>TlsResult\<close>.  The entry point is a parameter: it gets the operation and the twenty words of the
  block and returns a status, the block and the bytes it wrote to the output storage.  The
  runtime's \<open>py_str_new\<close>, \<open>py_str_byte_len\<close> and the addresses of its strings are parameters too.
  \<open>Tls_Native\<close> has the accounting around these calls.
\<close>

unbundle bit_operations_syntax

section \<open>The request block\<close>

definition PCC_NATIVE_TLS_ABI_VERSION :: int where "PCC_NATIVE_TLS_ABI_VERSION = 1"

definition PCC_TLS_OP_PROBE :: int where "PCC_TLS_OP_PROBE = 0"
definition PCC_TLS_OP_CONTEXT_CREATE :: int where "PCC_TLS_OP_CONTEXT_CREATE = 1"
definition PCC_TLS_OP_CONTEXT_FREE :: int where "PCC_TLS_OP_CONTEXT_FREE = 2"
definition PCC_TLS_OP_CONNECTION_CREATE :: int where "PCC_TLS_OP_CONNECTION_CREATE = 3"
definition PCC_TLS_OP_CONNECTION_FREE :: int where "PCC_TLS_OP_CONNECTION_FREE = 4"
definition PCC_TLS_OP_HANDSHAKE :: int where "PCC_TLS_OP_HANDSHAKE = 5"
definition PCC_TLS_OP_SET_CONTEXT :: int where "PCC_TLS_OP_SET_CONTEXT = 6"
definition PCC_TLS_OP_SELECTED_ALPN :: int where "PCC_TLS_OP_SELECTED_ALPN = 7"
definition PCC_TLS_OP_READ :: int where "PCC_TLS_OP_READ = 8"
definition PCC_TLS_OP_WRITE :: int where "PCC_TLS_OP_WRITE = 9"
definition PCC_TLS_OP_CLOSE_NOTIFY :: int where "PCC_TLS_OP_CLOSE_NOTIFY = 10"

definition PCC_TLS_CAP_CLIENT_CERTIFICATE :: int where "PCC_TLS_CAP_CLIENT_CERTIFICATE = push_bit 8 1"

definition PCC_TLS_REQUIRED_CAPABILITIES :: int where
  "PCC_TLS_REQUIRED_CAPABILITIES = push_bit 0 1 OR push_bit 1 1 OR push_bit 2 1 OR push_bit 3 1 OR push_bit 4 1 OR
     push_bit 5 1 OR push_bit 6 1 OR push_bit 7 1"

definition PCC_TLS_REQUEST_BYTES :: nat where "PCC_TLS_REQUEST_BYTES = 160"

text \<open>The field offsets, in the order of the source; the length of an input follows its address.\<close>

datatype request_field =
    ReqSize | ReqAbi | ReqOperation | ReqStatus | ReqError | ReqPrimary | ReqSecondary
  | ReqInput0 | ReqInput0Len | ReqInput1 | ReqInput1Len | ReqInput2 | ReqInput2Len
  | ReqOutput0 | ReqOutput0Cap | ReqOutput0Len | ReqFlags | ReqProviderCode | ReqInput3 | ReqInput3Len

primrec request_offset :: "request_field \<Rightarrow> nat" where
  "request_offset ReqSize = 0" | "request_offset ReqAbi = 8" | "request_offset ReqOperation = 16"
| "request_offset ReqStatus = 24" | "request_offset ReqError = 32" | "request_offset ReqPrimary = 40"
| "request_offset ReqSecondary = 48" | "request_offset ReqInput0 = 56" | "request_offset ReqInput0Len = 64"
| "request_offset ReqInput1 = 72" | "request_offset ReqInput1Len = 80" | "request_offset ReqInput2 = 88"
| "request_offset ReqInput2Len = 96" | "request_offset ReqOutput0 = 104" | "request_offset ReqOutput0Cap = 112"
| "request_offset ReqOutput0Len = 120" | "request_offset ReqFlags = 128" | "request_offset ReqProviderCode = 136"
| "request_offset ReqInput3 = 144" | "request_offset ReqInput3Len = 152"

text \<open>The block is twenty aligned words; \<open>store_i64\<close> and \<open>load_i64\<close> at a byte offset.\<close>

type_synonym request_block = "int list"

definition store_i64 :: "request_block \<Rightarrow> nat \<Rightarrow> int \<Rightarrow> request_block" where
  "store_i64 request offset value = request[offset div 8 := value]"

definition load_i64 :: "request_block \<Rightarrow> nat \<Rightarrow> int" where
  "load_i64 request offset = request ! (offset div 8)"

abbreviation store_field :: "request_block \<Rightarrow> request_field \<Rightarrow> int \<Rightarrow> request_block" where
  "store_field request f v \<equiv> store_i64 request (request_offset f) v"

abbreviation load_field :: "request_block \<Rightarrow> request_field \<Rightarrow> int" where
  "load_field request f \<equiv> load_i64 request (request_offset f)"

function clear_request :: "request_block \<Rightarrow> nat \<Rightarrow> request_block" where
  "clear_request request offset =
     (if offset < PCC_TLS_REQUEST_BYTES then clear_request (store_i64 request offset 0) (offset + 8) else request)"
  by pat_completeness auto
termination by (relation "measure (\<lambda>(r, offset). PCC_TLS_REQUEST_BYTES - offset)") (auto simp: PCC_TLS_REQUEST_BYTES_def)

declare clear_request.simps [simp del]

text \<open>\<open>_request\<close> on what \<open>stack_alloc\<close> returned.\<close>

definition native_request :: "request_block \<Rightarrow> int \<Rightarrow> request_block" where
  "native_request storage operation =
     store_field (store_field (store_field (clear_request storage 0) ReqSize (int PCC_TLS_REQUEST_BYTES)) ReqAbi
       PCC_NATIVE_TLS_ABI_VERSION) ReqOperation operation"

section \<open>Calling the entry point\<close>

type_synonym entrypoint = "int \<Rightarrow> request_block \<Rightarrow> int \<times> request_block \<times> bytes"

record native_runtime =
  rt_entrypoint :: entrypoint
  rt_storage :: request_block                     \<comment> \<open>the contents of a fresh stack block\<close>
  rt_str_new :: "bytes \<Rightarrow> int \<Rightarrow> pystr option"      \<comment> \<open>\<open>None\<close>: no \<open>str\<close>\<close>
  rt_byte_len :: "pystr \<Rightarrow> int"
  rt_utf8 :: "pystr \<Rightarrow> int"                         \<comment> \<open>the address of a string's bytes\<close>
  rt_output :: int                                \<comment> \<open>the address of the output storage\<close>

type_synonym native_reply = "int \<times> request_block \<times> bytes"

definition invoke_entrypoint :: "native_runtime \<Rightarrow> int \<Rightarrow> request_block \<Rightarrow> native_reply result" where
  "invoke_entrypoint rt operation request =
     (case rt_entrypoint rt operation request of (status, request', out) \<Rightarrow>
        if load_field request' ReqStatus \<noteq> status
        then Inl (TlsProviderError ''native TLS provider returned inconsistent operation status'')
        else if status \<notin> {TLS_OK, TLS_WANT_READ, TLS_WANT_WRITE, TLS_CLOSED, TLS_SELECT_SNI, TLS_ERROR}
        then Inl (TlsProviderError ''native TLS provider returned unknown status'')
        else Inr (status, request', out))"

text \<open>\<open>_result\<close>, without its diagnostic text.\<close>

definition native_result :: "int \<Rightarrow> request_block \<Rightarrow> int \<Rightarrow> pystr \<Rightarrow> tls_answer" where
  "native_result status request count server_name =
     (let error_code = load_field request ReqError in
      if status = TLS_ERROR
      then \<lparr>ta_status = status, ta_count = count,
            ta_error_code = (if error_code \<le> TLS_ERR_NONE \<or> error_code > TLS_ERR_INTERNAL then TLS_ERR_PROVIDER_CONTRACT
                             else error_code),
            ta_server_name = server_name\<rparr>
      else if error_code \<noteq> TLS_ERR_NONE then tls_error TLS_ERR_PROVIDER_CONTRACT
      else \<lparr>ta_status = status, ta_count = count, ta_error_code = error_code, ta_server_name = server_name\<rparr>)"

definition native_read_text :: "native_runtime \<Rightarrow> request_block \<Rightarrow> bytes \<Rightarrow> int \<Rightarrow> pystr result" where
  "native_read_text rt request storage capacity =
     (let n = load_field request ReqOutput0Len in
      if n < 0 \<or> n \<ge> capacity then Inl (TlsProviderError ''native TLS provider returned invalid text length'')
      else if n = 0 then Inr []
      else case rt_str_new rt storage n of
        None \<Rightarrow> Inl (TlsProviderError ''native TLS provider text conversion failed'')
      | Some value \<Rightarrow> Inr value)"

definition output_request :: "native_runtime \<Rightarrow> request_block \<Rightarrow> int \<Rightarrow> request_block" where
  "output_request rt request capacity = store_field (store_field request ReqOutput0 (rt_output rt)) ReqOutput0Cap capacity"

section \<open>Activation\<close>

text \<open>The hash of the library file, as the runtime computed it or raised.\<close>

definition check_library_hash :: "pystr \<Rightarrow> pystr result \<Rightarrow> pystr result" where
  "check_library_hash expected hashed =
     (case hashed of
        Inl _ \<Rightarrow> Inl (TlsProviderError ''native TLS provider library hashing failed'')
      | Inr actual \<Rightarrow>
          if \<not> valid_sha256_hex actual
          then Inl (TlsProviderError ''native TLS provider library could not be hashed within the configured byte limit'')
          else if actual \<noteq> expected then Inl (TlsProviderError ''native TLS provider library SHA-256 mismatch'')
          else Inr actual)"

definition probe_library :: "native_runtime \<Rightarrow> (int \<times> pystr) result" where
  "probe_library rt =
     rbind (invoke_entrypoint rt PCC_TLS_OP_PROBE (output_request rt (native_request (rt_storage rt) PCC_TLS_OP_PROBE) 64))
       (\<lambda>(status, request, out).
         if status \<noteq> TLS_OK then Inl (TlsProviderError ''native TLS provider ABI probe failed'')
         else
           let capabilities = load_field request ReqFlags in
           if capabilities AND PCC_TLS_REQUIRED_CAPABILITIES \<noteq> PCC_TLS_REQUIRED_CAPABILITIES
           then Inl (TlsProviderError ''native TLS provider is missing required capabilities'')
           else rbind (native_read_text rt request out 65) (\<lambda>identity.
             if identity = [] \<or> length identity > 64 then Inl (TlsProviderError ''native TLS provider identity is invalid'')
             else Inr (capabilities, identity)))"

section \<open>Contexts and connections\<close>

definition alpn_wire :: "pystr list \<Rightarrow> pystr" where
  "alpn_wire protocols = foldl (\<lambda>output protocol. output @ py_str_int (int (length protocol)) @ [58] @ protocol) [] protocols"

text \<open>What \<open>create_server_context\<close> checks after \<open>activate\<close>, with the adapter's capabilities.\<close>

definition context_inputs_checked :: "native_runtime \<Rightarrow> int \<Rightarrow> tls_config \<Rightarrow> tls_certificate \<Rightarrow> unit result" where
  "context_inputs_checked rt capabilities config certificate =
     (if tg_require_client_certificate config \<and> capabilities AND PCC_TLS_CAP_CLIENT_CERTIFICATE = 0
      then Inl (TlsProviderError ''native TLS provider cannot verify client certificates'')
      else if 0 \<in> set (tc_certificate certificate) \<or> 0 \<in> set (tc_private_key certificate)
      then Inl (TlsProviderError ''native TLS certificate paths contain NUL'')
      else if take 1 (tc_certificate certificate) \<noteq> [47] \<or> take 1 (tc_private_key certificate) \<noteq> [47]
      then Inl (TlsProviderError ''native TLS certificate and key paths must be absolute'')
      else if tg_client_ca config \<noteq> [] \<and> take 1 (tg_client_ca config) \<noteq> [47]
      then Inl (TlsProviderError ''native TLS client CA path must be absolute'')
      else if rt_byte_len rt (tc_certificate certificate) > 4096 \<or> rt_byte_len rt (tc_private_key certificate) > 4096 \<or>
              rt_byte_len rt (tg_client_ca config) > 4096
      then Inl (TlsProviderError ''native TLS certificate path is too long'')
      else Inr ())"

definition store_input :: "native_runtime \<Rightarrow> request_block \<Rightarrow> request_field \<Rightarrow> request_field \<Rightarrow> pystr \<Rightarrow> request_block" where
  "store_input rt request address bytelen text = store_field (store_field request address (rt_utf8 rt text)) bytelen (rt_byte_len rt text)"

definition context_request :: "native_runtime \<Rightarrow> tls_config \<Rightarrow> tls_certificate \<Rightarrow> request_block" where
  "context_request rt config certificate =
     (let request = native_request (rt_storage rt) PCC_TLS_OP_CONTEXT_CREATE;
          request = store_input rt request ReqInput0 ReqInput0Len (tc_certificate certificate);
          request = store_input rt request ReqInput1 ReqInput1Len (tc_private_key certificate);
          request = store_input rt request ReqInput2 ReqInput2Len (alpn_wire (tg_alpn config));
          request = store_input rt request ReqInput3 ReqInput3Len (tg_client_ca config)
      in store_field request ReqFlags (if tg_require_client_certificate config then 1 else 0))"

text \<open>The handle of a created context or connection.\<close>

definition created_handle :: "exn \<Rightarrow> exn \<Rightarrow> native_reply \<Rightarrow> int result" where
  "created_handle rejected null reply =
     (case reply of (status, request, out) \<Rightarrow>
        if status \<noteq> TLS_OK then Inl rejected
        else if load_field request ReqPrimary = 0 then Inl null
        else Inr (load_field request ReqPrimary))"

definition native_create_context :: "native_runtime \<Rightarrow> tls_config \<Rightarrow> tls_certificate \<Rightarrow> int result" where
  "native_create_context rt config certificate =
     rbind (invoke_entrypoint rt PCC_TLS_OP_CONTEXT_CREATE (context_request rt config certificate))
       (created_handle (TlsProviderError ''native TLS provider rejected certificate generation'')
         (TlsProviderError ''native TLS provider returned a null context''))"

definition native_create_connection :: "native_runtime \<Rightarrow> int \<Rightarrow> int \<Rightarrow> int result" where
  "native_create_connection rt context_handle fd =
     rbind (invoke_entrypoint rt PCC_TLS_OP_CONNECTION_CREATE
         (store_field (store_field (native_request (rt_storage rt) PCC_TLS_OP_CONNECTION_CREATE) ReqPrimary context_handle)
           ReqSecondary fd))
       (created_handle (TlsProviderError ''native TLS connection creation failed'')
         (TlsProviderError ''native TLS provider returned a null connection''))"

section \<open>Session operations\<close>

text \<open>A context or a session: its handle, \<open>None\<close> once released.\<close>

definition session_request :: "native_runtime \<Rightarrow> int \<Rightarrow> int option \<Rightarrow> request_block result" where
  "session_request rt operation session =
     (case session of
        None \<Rightarrow> Inl (TlsProviderError ''native TLS connection is released'')
      | Some handle \<Rightarrow> Inr (store_field (native_request (rt_storage rt) operation) ReqPrimary handle))"

definition native_handshake :: "native_runtime \<Rightarrow> int option \<Rightarrow> tls_answer result" where
  "native_handshake rt session =
     rbind (session_request rt PCC_TLS_OP_HANDSHAKE session) (\<lambda>request.
       rbind (invoke_entrypoint rt PCC_TLS_OP_HANDSHAKE (output_request rt request 253)) (\<lambda>(status, request', out).
         rbind (if status = TLS_SELECT_SNI then native_read_text rt request' out 254 else Inr []) (\<lambda>server_name.
           Inr (native_result status request' 0 server_name))))"

definition native_set_server_context :: "native_runtime \<Rightarrow> int option \<Rightarrow> int option \<Rightarrow> tls_answer result" where
  "native_set_server_context rt session ctx =
     (case ctx of
        None \<Rightarrow> Inr (tls_error TLS_ERR_PROVIDER)
      | Some handle \<Rightarrow>
          rbind (session_request rt PCC_TLS_OP_SET_CONTEXT session) (\<lambda>request.
            rbind (invoke_entrypoint rt PCC_TLS_OP_SET_CONTEXT (store_field request ReqSecondary handle))
              (\<lambda>(status, request', out). Inr (native_result status request' 0 []))))"

definition native_selected_alpn :: "native_runtime \<Rightarrow> int option \<Rightarrow> pystr result" where
  "native_selected_alpn rt session =
     rbind (session_request rt PCC_TLS_OP_SELECTED_ALPN session) (\<lambda>request.
       rbind (invoke_entrypoint rt PCC_TLS_OP_SELECTED_ALPN (output_request rt request 255)) (\<lambda>(status, request', out).
         if status \<noteq> TLS_OK then Inl (TlsProviderError ''native TLS provider ALPN query failed'')
         else native_read_text rt request' out 256))"

text \<open>\<open>read\<close> into a \<open>bytearray\<close> and \<open>write\<close> of \<open>bytes\<close>, at the address of their data.\<close>

definition counted_result :: "native_reply \<Rightarrow> tls_answer" where
  "counted_result reply = (case reply of (status, request, out) \<Rightarrow>
     native_result status request (if status = TLS_OK then load_field request ReqOutput0Len else 0) [])"

definition native_read :: "native_runtime \<Rightarrow> int option \<Rightarrow> int \<Rightarrow> int \<Rightarrow> tls_answer result" where
  "native_read rt session address limit =
     rbind (session_request rt PCC_TLS_OP_READ session) (\<lambda>request.
       rbind (invoke_entrypoint rt PCC_TLS_OP_READ (store_field (store_field request ReqOutput0 address) ReqOutput0Cap limit))
         (\<lambda>reply. Inr (counted_result reply)))"

definition native_write :: "native_runtime \<Rightarrow> int option \<Rightarrow> int \<Rightarrow> int \<Rightarrow> tls_answer result" where
  "native_write rt session address n =
     rbind (session_request rt PCC_TLS_OP_WRITE session) (\<lambda>request.
       rbind (invoke_entrypoint rt PCC_TLS_OP_WRITE (store_field (store_field request ReqInput0 address) ReqInput0Len n))
         (\<lambda>reply. Inr (counted_result reply)))"

definition native_close_notify :: "native_runtime \<Rightarrow> int option \<Rightarrow> tls_answer result" where
  "native_close_notify rt session =
     rbind (session_request rt PCC_TLS_OP_CLOSE_NOTIFY session) (\<lambda>request.
       rbind (invoke_entrypoint rt PCC_TLS_OP_CLOSE_NOTIFY request) (\<lambda>(status, request', out).
         Inr (native_result status request' 0 [])))"

text \<open>The native half of \<open>free_connection\<close> and \<open>free_context\<close>.\<close>

definition native_free :: "native_runtime \<Rightarrow> int \<Rightarrow> string \<Rightarrow> int \<Rightarrow> unit result" where
  "native_free rt operation what handle =
     rbind (invoke_entrypoint rt operation (store_field (native_request (rt_storage rt) operation) ReqPrimary handle))
       (\<lambda>(status, request', out). if status \<notin> {TLS_OK, TLS_CLOSED} then Inl (TlsProviderError what) else Inr ())"

section \<open>The block\<close>

lemma offset_word: "request_offset f div 8 < 20" "request_offset f mod 8 = 0"
  by (cases f; simp)+

lemma offset_inj: "request_offset f div 8 = request_offset g div 8 \<longleftrightarrow> f = g"
  by (cases f; cases g; simp)

lemma load_store: "length request = 20 \<Longrightarrow> load_field (store_field request f v) g = (if f = g then v else load_field request g)"
  using offset_word(1) [of g] by (auto simp: load_i64_def store_i64_def nth_list_update offset_inj)

lemma length_store [simp]: "length (store_i64 request offset v) = length request"
  by (simp add: store_i64_def)

lemma clear_request_eq:
  "length request = 20 \<Longrightarrow> i \<le> 20 \<Longrightarrow> clear_request request (8 * i) = take i request @ replicate (20 - i) 0"
proof (induction "20 - i" arbitrary: i request)
  case 0
  then show ?case by (subst clear_request.simps) (simp add: PCC_TLS_REQUEST_BYTES_def)
next
  case (Suc m)
  then have "i < 20" by simp
  then have "clear_request request (8 * i) = clear_request (request[i := 0]) (8 * Suc i)"
    by (subst clear_request.simps) (simp add: PCC_TLS_REQUEST_BYTES_def store_i64_def algebra_simps)
  also have "\<dots> = take (Suc i) (request[i := 0]) @ replicate (20 - Suc i) 0"
    using Suc by (intro Suc.hyps(1)) auto
  also have "\<dots> = take i request @ replicate (20 - i) 0"
    using Suc by (simp add: take_Suc_conv_app_nth Suc_diff_Suc [symmetric])
  finally show ?case .
qed

text \<open>Whatever the stack held, a request starts out with its three header words and zeros.\<close>

lemma native_request_fields:
  assumes "length storage = 20"
  shows "length (native_request storage operation) = 20"
    and "load_field (native_request storage operation) f =
      (case f of ReqSize \<Rightarrow> 160 | ReqAbi \<Rightarrow> 1 | ReqOperation \<Rightarrow> operation | _ \<Rightarrow> 0)"
proof -
  have z: "clear_request storage 0 = replicate 20 0" using clear_request_eq [of storage 0] assms by simp
  then show "length (native_request storage operation) = 20" by (simp add: native_request_def)
  have "load_field (replicate 20 0) f = 0" using offset_word(1) [of f] by (simp add: load_i64_def)
  with z show "load_field (native_request storage operation) f =
      (case f of ReqSize \<Rightarrow> 160 | ReqAbi \<Rightarrow> 1 | ReqOperation \<Rightarrow> operation | _ \<Rightarrow> 0)"
    by (cases f) (simp_all add: native_request_def load_store PCC_TLS_REQUEST_BYTES_def PCC_NATIVE_TLS_ABI_VERSION_def
        del: request_offset.simps)
qed

section \<open>Replies\<close>

text \<open>A result of the adapter never mixes success and error, and only names errors of the contract.\<close>

definition reply_ok :: "tls_answer \<Rightarrow> bool" where
  "reply_ok r \<longleftrightarrow> ta_status r \<in> {TLS_OK, TLS_WANT_READ, TLS_WANT_WRITE, TLS_CLOSED, TLS_SELECT_SNI, TLS_ERROR} \<and>
     (if ta_status r = TLS_ERROR then 1 \<le> ta_error_code r \<and> ta_error_code r \<le> 12 else ta_error_code r = 0) \<and>
     (ta_count r \<noteq> 0 \<longrightarrow> ta_status r = TLS_OK) \<and> (ta_server_name r \<noteq> [] \<longrightarrow> ta_status r = TLS_SELECT_SNI)"

lemma invoke_status:
  "invoke_entrypoint rt operation request = Inr (status, request', out) \<Longrightarrow>
   status \<in> {TLS_OK, TLS_WANT_READ, TLS_WANT_WRITE, TLS_CLOSED, TLS_SELECT_SNI, TLS_ERROR}"
  by (auto simp: invoke_entrypoint_def split: prod.splits if_splits)

lemma native_result_ok:
  assumes "status \<in> {TLS_OK, TLS_WANT_READ, TLS_WANT_WRITE, TLS_CLOSED, TLS_SELECT_SNI, TLS_ERROR}"
    "count = 0 \<or> status = TLS_OK" "server_name = [] \<or> status = TLS_SELECT_SNI"
  shows "reply_ok (native_result status request count server_name)"
  using assms by (auto simp: native_result_def reply_ok_def tls_error_def tls_codes Let_def)

lemma tls_error_reply_ok: "reply_ok (tls_error TLS_ERR_PROVIDER)"
  by (simp add: reply_ok_def tls_error_def tls_codes)

lemma counted_result_ok:
  "invoke_entrypoint rt operation request = Inr reply \<Longrightarrow> reply_ok (counted_result reply)"
  by (cases reply) (auto simp: counted_result_def intro!: native_result_ok dest: invoke_status)

lemma native_handshake_ok: "native_handshake rt session = Inr r \<Longrightarrow> reply_ok r"
  by (auto simp: native_handshake_def rbind_eq_Inr split: if_splits intro!: native_result_ok dest: invoke_status)

lemma native_set_server_context_ok: "native_set_server_context rt session ctx = Inr r \<Longrightarrow> reply_ok r"
  by (auto simp: native_set_server_context_def rbind_eq_Inr split: option.splits
      intro!: native_result_ok tls_error_reply_ok dest: invoke_status)

lemma native_read_ok: "native_read rt session address limit = Inr r \<Longrightarrow> reply_ok r"
  by (auto simp: native_read_def rbind_eq_Inr intro: counted_result_ok)

lemma native_write_ok: "native_write rt session address n = Inr r \<Longrightarrow> reply_ok r"
  by (auto simp: native_write_def rbind_eq_Inr intro: counted_result_ok)

lemma native_close_notify_ok: "native_close_notify rt session = Inr r \<Longrightarrow> reply_ok r"
  by (auto simp: native_close_notify_def rbind_eq_Inr intro!: native_result_ok dest: invoke_status)

text \<open>A probe that is accepted found every required capability and a short name.\<close>

lemma probe_library_ok:
  "probe_library rt = Inr (capabilities, identity) \<Longrightarrow>
   capabilities AND PCC_TLS_REQUIRED_CAPABILITIES = PCC_TLS_REQUIRED_CAPABILITIES \<and> identity \<noteq> [] \<and> length identity \<le> 64"
  by (auto simp: probe_library_def rbind_eq_Inr Let_def split: if_splits)

lemma required_capabilities_bits:
  "capabilities AND PCC_TLS_REQUIRED_CAPABILITIES = PCC_TLS_REQUIRED_CAPABILITIES \<longleftrightarrow> (\<forall>i < 8. bit capabilities i)"
proof -
  have m: "PCC_TLS_REQUIRED_CAPABILITIES = mask 8" by (simp add: PCC_TLS_REQUIRED_CAPABILITIES_def mask_eq_exp_minus_1)
  show ?thesis unfolding m by (auto simp: bit_eq_iff bit_simps)
qed

section \<open>The ALPN list on the wire\<close>

lemma alpn_wire_fold: "foldl (\<lambda>output p. output @ f p) acc ps = acc @ concat (map f ps)"
  by (induction ps arbitrary: acc) simp_all

lemma alpn_wire_Cons: "alpn_wire (p # ps) = py_str_nat (length p) @ 58 # p @ alpn_wire ps"
  using alpn_wire_fold [of "\<lambda>p. py_str_int (int (length p)) @ [58] @ p"] by (simp add: alpn_wire_def py_str_int_def)

text \<open>Reading the frames back, as the other side of the boundary does.\<close>

function alpn_parse :: "pystr \<Rightarrow> pystr list" where
  "alpn_parse s = (if 58 \<notin> set s then [] else
     let n = nat (py_int_dec (takeWhile (\<lambda>c. c \<noteq> 58) s)); rest = tl (dropWhile (\<lambda>c. c \<noteq> 58) s)
     in take n rest # alpn_parse (drop n rest))"
  by pat_completeness auto
termination
proof (relation "measure length")
  fix s :: pystr and n :: nat and rest
  assume "\<not> 58 \<notin> set s" "rest = tl (dropWhile (\<lambda>c. c \<noteq> 58) s)"
  then have "length rest < length s"
    by (metis (mono_tags, lifting) diff_less dropWhile_eq_Nil_conv length_dropWhile_le length_greater_0_conv length_tl
        less_le_trans list.size(3) not_gr_zero zero_less_one order_less_le_trans le_less_trans)
  then show "(drop n rest, s) \<in> measure length" by simp
qed simp

declare alpn_parse.simps [simp del]

lemma no_colon: "58 \<notin> set (py_str_nat n)"
  by (auto simp: is_digit_def dest: py_str_nat_digits)

text \<open>The framing loses nothing: the protocols come back, whatever characters they have.\<close>

lemma alpn_wire_round_trip: "alpn_parse (alpn_wire ps) = ps"
proof (induction ps)
  case Nil
  then show ?case by (simp add: alpn_wire_def alpn_parse.simps)
next
  case (Cons p ps)
  have "takeWhile (\<lambda>c. c \<noteq> 58) (alpn_wire (p # ps)) = py_str_nat (length p)"
    "dropWhile (\<lambda>c. c \<noteq> 58) (alpn_wire (p # ps)) = 58 # p @ alpn_wire ps"
    using no_colon [of "length p"] by (auto simp: alpn_wire_Cons takeWhile_append dropWhile_append)
  moreover have "58 \<in> set (alpn_wire (p # ps))" by (simp add: alpn_wire_Cons)
  ultimately show ?case using Cons.IH by (subst alpn_parse.simps) (simp add: Let_def)
qed

end
