(* ===== verification/Tls_Native.thy ===== *)
theory Tls_Native
  imports Tls_Request
begin

text \<open>
  Model of \<open>PccNativeTlsProvider\<close> of \<open>pcc_gateway/tls.py\<close>, the adapter of the native provider library:
  construction, the critical sections of its resource and call accounting, and its operations as a
  step relation of threads between those sections.  What the library answers is chosen freely.
\<close>

section \<open>The adapter\<close>

record native_provider =
  nv_library_path :: pystr
  nv_expected_sha256 :: pystr
  nv_verified_sha256 :: pystr
  nv_library_max_bytes :: int
  nv_library :: "nat option"    \<comment> \<open>\<open>library_handle\<close>, numbered by opening\<close>
  nv_entrypoint :: bool
  nv_capabilities :: int
  nv_implementation_id :: pystr
  nv_activated :: bool
  nv_active_contexts :: int
  nv_active_sessions :: int
  nv_pending_resources :: int
  nv_active_calls :: int
  nv_close_requested :: bool
  nv_closed :: bool

definition native_provider_new :: "pystr \<Rightarrow> pystr \<Rightarrow> int \<Rightarrow> native_provider result" where
  "native_provider_new path sha256 max_bytes =
     (if path = [] then Inl (TlsProviderError ''native TLS provider library path is required'')
      else if hd path \<noteq> 47 \<or> 0 \<in> set path
      then Inl (TlsProviderError ''native TLS provider library path must be absolute and NUL-free'')
      else if length path > 4096 then Inl (TlsProviderError ''native TLS provider library path is too long'')
      else if \<not> valid_sha256_hex sha256
      then Inl (TlsProviderError ''native TLS provider expected SHA-256 must be 64 lowercase hexadecimal characters'')
      else if max_bytes \<le> 0 \<or> max_bytes > 9223372036854775807
      then Inl (TlsProviderError ''native TLS provider byte limit is out of range'')
      else Inr \<lparr>nv_library_path = path, nv_expected_sha256 = sha256, nv_verified_sha256 = [],
                nv_library_max_bytes = max_bytes, nv_library = None, nv_entrypoint = False, nv_capabilities = 0,
                nv_implementation_id = cp ''unprobed'', nv_activated = False, nv_active_contexts = 0,
                nv_active_sessions = 0, nv_pending_resources = 0, nv_active_calls = 0, nv_close_requested = False,
                nv_closed = False\<rparr>)"

datatype resource_kind = RContext | RSession

section \<open>Critical sections\<close>

definition take_library_to_close :: "native_provider \<Rightarrow> native_provider \<times> nat option" where
  "take_library_to_close n =
     (if \<not> nv_close_requested n \<or> nv_closed n \<or> nv_active_contexts n \<noteq> 0 \<or> nv_active_sessions n \<noteq> 0 \<or>
         nv_pending_resources n \<noteq> 0 \<or> nv_active_calls n \<noteq> 0
      then (n, None)
      else (n\<lparr>nv_library := None, nv_entrypoint := False, nv_activated := False, nv_closed := True\<rparr>, nv_library n))"

definition with_library :: "native_provider \<times> nat option \<Rightarrow> native_provider \<times> nat option result" where
  "with_library r = (fst r, Inr (snd r))"

definition finish_call :: "native_provider \<Rightarrow> native_provider \<times> nat option result" where
  "finish_call n =
     (if nv_active_calls n \<le> 0 then (n, Inl (TlsProviderError ''native TLS provider call accounting underflow''))
      else with_library (take_library_to_close (n\<lparr>nv_active_calls := nv_active_calls n - 1\<rparr>)))"

definition begin_call :: "native_provider \<Rightarrow> native_provider \<times> unit result" where
  "begin_call n =
     (if nv_closed n \<or> \<not> nv_entrypoint n then (n, Inl (TlsProviderError ''native TLS provider is not activated''))
      else (n\<lparr>nv_active_calls := nv_active_calls n + 1\<rparr>, Inr ()))"

definition reserve_resource :: "native_provider \<Rightarrow> native_provider \<times> unit result" where
  "reserve_resource n =
     (if nv_close_requested n \<or> nv_closed n then (n, Inl (TlsProviderError ''native TLS provider is closing''))
      else (n\<lparr>nv_pending_resources := nv_pending_resources n + 1\<rparr>, Inr ()))"

text \<open>The first section of \<open>new_connection\<close>, on a context that may have been released.\<close>

definition reserve_connection :: "bool \<Rightarrow> native_provider \<Rightarrow> native_provider \<times> unit result" where
  "reserve_connection released n =
     (if released then (n, Inl (TlsProviderError ''native TLS context is released'')) else reserve_resource n)"

definition publish_resource :: "resource_kind \<Rightarrow> native_provider \<Rightarrow> native_provider \<times> unit result" where
  "publish_resource kind n =
     (if nv_pending_resources n \<le> 0 then (n, Inl (TlsProviderError ''native TLS provider resource accounting underflow''))
      else let n1 = n\<lparr>nv_pending_resources := nv_pending_resources n - 1\<rparr> in
        (case kind of
           RContext \<Rightarrow> (n1\<lparr>nv_active_contexts := nv_active_contexts n1 + 1\<rparr>, Inr ())
         | RSession \<Rightarrow> (n1\<lparr>nv_active_sessions := nv_active_sessions n1 + 1\<rparr>, Inr ())))"

definition cancel_resource :: "native_provider \<Rightarrow> native_provider \<times> nat option result" where
  "cancel_resource n =
     (if nv_pending_resources n \<le> 0 then (n, Inl (TlsProviderError ''native TLS provider resource accounting underflow''))
      else with_library (take_library_to_close (n\<lparr>nv_pending_resources := nv_pending_resources n - 1\<rparr>)))"

definition release_resource :: "resource_kind \<Rightarrow> native_provider \<Rightarrow> native_provider \<times> nat option result" where
  "release_resource kind n =
     (case kind of
        RContext \<Rightarrow>
          if nv_active_contexts n \<le> 0 then (n, Inl (TlsProviderError ''native TLS provider context accounting underflow''))
          else with_library (take_library_to_close (n\<lparr>nv_active_contexts := nv_active_contexts n - 1\<rparr>))
      | RSession \<Rightarrow>
          if nv_active_sessions n \<le> 0 then (n, Inl (TlsProviderError ''native TLS provider session accounting underflow''))
          else with_library (take_library_to_close (n\<lparr>nv_active_sessions := nv_active_sessions n - 1\<rparr>)))"

definition native_close :: "native_provider \<Rightarrow> native_provider \<times> nat option \<times> int" where
  "native_close n =
     (if nv_closed n \<or> nv_close_requested n then (n, None, 0)
      else case take_library_to_close (n\<lparr>nv_close_requested := True\<rparr>) of
        (n', library) \<Rightarrow> (n', library, if nv_closed n' then 1 else 0))"

text \<open>The first section of \<open>activate\<close>: \<open>Inr False\<close> when there is nothing to do.\<close>

definition activation_needed :: "native_provider \<Rightarrow> bool result" where
  "activation_needed n =
     (if nv_activated n \<and> \<not> nv_closed n then Inr False
      else if nv_close_requested n \<or> nv_closed n then Inl (TlsProviderError ''native TLS provider is closed'')
      else Inr True)"

text \<open>The last section of \<open>activate\<close>: publish the library unless the adapter closed meanwhile.\<close>

definition publish_library :: "nat \<Rightarrow> int \<Rightarrow> pystr \<Rightarrow> pystr \<Rightarrow> native_provider \<Rightarrow> native_provider \<times> bool" where
  "publish_library library capabilities identity sha256 n =
     (if \<not> nv_close_requested n \<and> \<not> nv_closed n
      then (n\<lparr>nv_library := Some library, nv_entrypoint := True, nv_capabilities := capabilities,
              nv_implementation_id := identity, nv_verified_sha256 := sha256, nv_activated := True\<rparr>, True)
      else (n, False))"

section \<open>Threads\<close>

text \<open>Where a thread is between two critical sections.\<close>

datatype native_pc =
    AtRest
  | Hashing                                \<comment> \<open>\<open>activate\<close>, before the library is open\<close>
  | Refused                                \<comment> \<open>\<open>activate\<close> is about to raise, still under its lock\<close>
  | Probing nat pystr                      \<comment> \<open>the library is open, with the hash of its file\<close>
  | Unloading nat native_pc                \<comment> \<open>\<open>dynamic_library_close\<close>\<close>
  | Reserved resource_kind
  | Creating resource_kind                 \<comment> \<open>inside the native call\<close>
  | Created resource_kind bool             \<comment> \<open>with or without a handle\<close>
  | Using                                  \<comment> \<open>inside the native call of a session operation\<close>
  | Freeing resource_kind
  | FreeCall resource_kind
  | Freed resource_kind

record native_world =
  nw_provider :: native_provider
  nw_objects :: "(resource_kind \<times> bool) list"   \<comment> \<open>contexts and sessions with their \<open>released\<close> flag\<close>
  nw_threads :: "native_pc list"
  nw_opened :: "nat list"                          \<comment> \<open>ghost: libraries opened\<close>
  nw_unloaded :: "nat list"                        \<comment> \<open>ghost: libraries closed\<close>
  nw_underflow :: bool                             \<comment> \<open>ghost: an accounting error was raised\<close>

definition then_unload :: "nat option \<Rightarrow> native_pc \<Rightarrow> native_pc" where
  "then_unload library pc = (case library of None \<Rightarrow> pc | Some l \<Rightarrow> Unloading l pc)"

fun activating :: "native_pc \<Rightarrow> bool" where
  "activating Hashing = True"
| "activating Refused = True"
| "activating (Probing _ _) = True"
| "activating (Unloading _ pc) = activating pc"
| "activating _ = False"

definition go :: "nat \<Rightarrow> native_provider \<Rightarrow> native_pc \<Rightarrow> native_world \<Rightarrow> native_world" where
  "go i n pc w = w\<lparr>nw_provider := n, nw_threads := (nw_threads w)[i := pc]\<rparr>"

text \<open>A section that returns the library to unload; an accounting error ends the operation.\<close>

definition after_section :: "nat \<Rightarrow> native_provider \<times> nat option result \<Rightarrow> native_pc \<Rightarrow> native_world \<Rightarrow> native_world" where
  "after_section i r pc w =
     (case r of
        (n, Inr library) \<Rightarrow> go i n (then_unload library pc) w
      | (n, Inl _) \<Rightarrow> (go i n AtRest w)\<lparr>nw_underflow := True\<rparr>)"

inductive native_step :: "native_world \<Rightarrow> native_world \<Rightarrow> bool" where
  activate_begin: "native_step w (go i (nw_provider w) Hashing w)"
    if "i < length (nw_threads w)" "nw_threads w ! i = AtRest" "activation_needed (nw_provider w) = Inr True"
       "list_all (\<lambda>t. \<not> activating t) (nw_threads w)"
| activate_refused: "native_step w (go i (nw_provider w) AtRest w)"
    if "i < length (nw_threads w)" "nw_threads w ! i \<in> {Hashing, Refused}"
| activate_open: "native_step w ((go i (nw_provider w) (Probing l sha256) w)\<lparr>nw_opened := l # nw_opened w\<rparr>)"
    if "i < length (nw_threads w)" "nw_threads w ! i = Hashing" "l \<notin> set (nw_opened w)"
       "check_library_hash (nv_expected_sha256 (nw_provider w)) hashed = Inr sha256"
| activate_rejected: "native_step w (go i (nw_provider w) (Unloading l Refused) w)"
    if "i < length (nw_threads w)" "nw_threads w ! i = Probing l sha256"
| activate_publish: "native_step w (go i n (if published then AtRest else Unloading l Refused) w)"
    if "i < length (nw_threads w)" "nw_threads w ! i = Probing l sha256" "probe_library rt = Inr (capabilities, identity)"
       "publish_library l capabilities identity sha256 (nw_provider w) = (n, published)"
| unload: "native_step w ((go i (nw_provider w) pc w)\<lparr>nw_unloaded := l # nw_unloaded w\<rparr>)"
    if "i < length (nw_threads w)" "nw_threads w ! i = Unloading l pc"
| reserve_context: "native_step w (go i n (Reserved RContext) w)"
    if "i < length (nw_threads w)" "nw_threads w ! i = AtRest" "reserve_resource (nw_provider w) = (n, Inr ())"
| reserve_session: "native_step w (go i n (Reserved RSession) w)"
    if "i < length (nw_threads w)" "nw_threads w ! i = AtRest" "a < length (nw_objects w)"
       "fst (nw_objects w ! a) = RContext" "reserve_connection (snd (nw_objects w ! a)) (nw_provider w) = (n, Inr ())"
| create_call: "native_step w (go i n (case r of Inr _ \<Rightarrow> Creating k | Inl _ \<Rightarrow> Created k False) w)"
    if "i < length (nw_threads w)" "nw_threads w ! i = Reserved k" "begin_call (nw_provider w) = (n, r)"
| create_return: "native_step w (after_section i (finish_call (nw_provider w)) (Created k ok) w)"
    if "i < length (nw_threads w)" "nw_threads w ! i = Creating k"
| create_publish: "native_step w ((go i n AtRest w)\<lparr>nw_objects := nw_objects w @ [(k, False)]\<rparr>)"
    if "i < length (nw_threads w)" "nw_threads w ! i = Created k True" "publish_resource k (nw_provider w) = (n, Inr ())"
| create_underflow: "native_step w ((go i n AtRest w)\<lparr>nw_underflow := True\<rparr>)"
    if "i < length (nw_threads w)" "nw_threads w ! i = Created k True" "publish_resource k (nw_provider w) = (n, Inl e)"
| create_cancel: "native_step w (after_section i (cancel_resource (nw_provider w)) AtRest w)"
    if "i < length (nw_threads w)" "nw_threads w ! i = Created k False"
| use_call: "native_step w (go i n Using w)"
    if "i < length (nw_threads w)" "nw_threads w ! i = AtRest" "begin_call (nw_provider w) = (n, Inr ())"
| use_return: "native_step w (after_section i (finish_call (nw_provider w)) AtRest w)"
    if "i < length (nw_threads w)" "nw_threads w ! i = Using"
| free_mark: "native_step w ((go i (nw_provider w) (Freeing k) w)\<lparr>nw_objects := (nw_objects w)[a := (k, True)]\<rparr>)"
    if "i < length (nw_threads w)" "nw_threads w ! i = AtRest" "a < length (nw_objects w)" "nw_objects w ! a = (k, False)"
| free_call: "native_step w (go i n (case r of Inr _ \<Rightarrow> FreeCall k | Inl _ \<Rightarrow> Freed k) w)"
    if "i < length (nw_threads w)" "nw_threads w ! i = Freeing k" "begin_call (nw_provider w) = (n, r)"
| free_return: "native_step w (after_section i (finish_call (nw_provider w)) (Freed k) w)"
    if "i < length (nw_threads w)" "nw_threads w ! i = FreeCall k"
| free_release: "native_step w (after_section i (release_resource k (nw_provider w)) AtRest w)"
    if "i < length (nw_threads w)" "nw_threads w ! i = Freed k"
| close_request: "native_step w (go i n (then_unload library AtRest) w)"
    if "i < length (nw_threads w)" "nw_threads w ! i = AtRest" "native_close (nw_provider w) = (n, library, closed_now)"

definition native_world_new :: "native_provider \<Rightarrow> nat \<Rightarrow> native_world" where
  "native_world_new n threads = \<lparr>nw_provider = n, nw_objects = [], nw_threads = replicate threads AtRest, nw_opened = [],
     nw_unloaded = [], nw_underflow = False\<rparr>"

end
