(* ===== verification/Tls_Unload.thy ===== *)
theory Tls_Unload
  imports Tls_Native "HOL-Library.Multiset"
begin

text \<open>
  The accounting of the native provider adapter under every interleaving of its critical sections:
  the library is unloaded once, after the last call, context, session and reservation is gone.
\<close>

section \<open>The adapter against its users\<close>

definition bag :: "nat option \<Rightarrow> nat multiset" where
  "bag x = (case x of None \<Rightarrow> {#} | Some l \<Rightarrow> {#l#})"

lemma bag_simps [simp]: "bag None = {#}" "bag (Some l) = {#l#}"
  by (simp_all add: bag_def)

text \<open>The counters are those of \<open>c\<close> contexts, \<open>s\<close> sessions, \<open>p\<close> reservations and \<open>k\<close> running calls.\<close>

definition counters :: "nat \<Rightarrow> nat \<Rightarrow> nat \<Rightarrow> nat \<Rightarrow> native_provider \<Rightarrow> bool" where
  "counters c s p k n \<longleftrightarrow> nv_active_contexts n = int c \<and> nv_active_sessions n = int s \<and>
     nv_pending_resources n = int p \<and> nv_active_calls n = int k \<and>
     (nv_entrypoint n \<longleftrightarrow> nv_library n \<noteq> None) \<and> (nv_activated n \<longleftrightarrow> nv_library n \<noteq> None) \<and>
     (nv_closed n \<longrightarrow> nv_close_requested n \<and> nv_library n = None \<and> c = 0 \<and> s = 0 \<and> p = 0 \<and> k = 0) \<and>
     (0 < c + s + k \<longrightarrow> nv_library n \<noteq> None)"

text \<open>A requested close that did not happen yet is waiting for somebody.\<close>

definition provider_ok :: "nat \<Rightarrow> nat \<Rightarrow> nat \<Rightarrow> nat \<Rightarrow> native_provider \<Rightarrow> bool" where
  "provider_ok c s p k n \<longleftrightarrow> counters c s p k n \<and> (nv_close_requested n \<and> \<not> nv_closed n \<longrightarrow> 0 < c + s + p + k)"

lemma provider_ok_closed: "provider_ok c s p k n \<Longrightarrow> nv_closed n \<Longrightarrow> c = 0 \<and> s = 0 \<and> p = 0 \<and> k = 0 \<and> nv_library n = None"
  by (simp add: provider_ok_def counters_def)

lemma take_library_ok:
  assumes "counters c s p k n" "take_library_to_close n = (n', l)"
  shows "provider_ok c s p k n'" "bag (nv_library n') + bag l = bag (nv_library n)" "l \<noteq> None \<Longrightarrow> nv_closed n'"
  using assms by (auto simp: take_library_to_close_def counters_def provider_ok_def split: if_splits)

text \<open>What a section does that may take the library.\<close>

definition section_ok :: "nat \<Rightarrow> nat \<Rightarrow> nat \<Rightarrow> nat \<Rightarrow> native_provider \<Rightarrow> native_provider \<times> nat option result \<Rightarrow> bool" where
  "section_ok c s p k n r \<longleftrightarrow> (\<exists>n' l. r = (n', Inr l) \<and> provider_ok c s p k n' \<and>
     bag (nv_library n') + bag l = bag (nv_library n) \<and> (l \<noteq> None \<longrightarrow> nv_closed n'))"

lemma with_library_ok:
  assumes "counters c s p k n"
  shows "section_ok c s p k n (with_library (take_library_to_close n))"
proof -
  obtain n' l where t: "take_library_to_close n = (n', l)" by force
  with take_library_ok [OF assms t] show ?thesis by (simp add: with_library_def section_ok_def)
qed

lemma finish_call_ok:
  assumes "provider_ok c s p (Suc k) n"
  shows "section_ok c s p k n (finish_call n)"
proof -
  have "counters c s p k (n\<lparr>nv_active_calls := nv_active_calls n - 1\<rparr>)"
    using assms by (auto simp: provider_ok_def counters_def)
  from with_library_ok [OF this] assms show ?thesis by (simp add: finish_call_def provider_ok_def counters_def section_ok_def)
qed

lemma cancel_resource_ok:
  assumes "provider_ok c s (Suc p) k n"
  shows "section_ok c s p k n (cancel_resource n)"
proof -
  have "counters c s p k (n\<lparr>nv_pending_resources := nv_pending_resources n - 1\<rparr>)"
    using assms by (auto simp: provider_ok_def counters_def)
  from with_library_ok [OF this] assms show ?thesis by (simp add: cancel_resource_def provider_ok_def counters_def section_ok_def)
qed

lemma release_context_ok:
  assumes "provider_ok (Suc c) s p k n"
  shows "section_ok c s p k n (release_resource RContext n)"
proof -
  have "counters c s p k (n\<lparr>nv_active_contexts := nv_active_contexts n - 1\<rparr>)"
    using assms by (auto simp: provider_ok_def counters_def)
  from with_library_ok [OF this] assms show ?thesis by (simp add: release_resource_def provider_ok_def counters_def section_ok_def)
qed

lemma release_session_ok:
  assumes "provider_ok c (Suc s) p k n"
  shows "section_ok c s p k n (release_resource RSession n)"
proof -
  have "counters c s p k (n\<lparr>nv_active_sessions := nv_active_sessions n - 1\<rparr>)"
    using assms by (auto simp: provider_ok_def counters_def)
  from with_library_ok [OF this] assms show ?thesis by (simp add: release_resource_def provider_ok_def counters_def section_ok_def)
qed

lemma begin_call_ok:
  assumes "provider_ok c s p k n" "begin_call n = (n', r)"
  shows "case r of Inr _ \<Rightarrow> provider_ok c s p (Suc k) n' \<and> nv_library n' = nv_library n | Inl _ \<Rightarrow> n' = n \<and> nv_library n = None"
  using assms by (auto simp: begin_call_def provider_ok_def counters_def split: if_splits)

lemma reserve_resource_ok:
  assumes "provider_ok c s p k n" "reserve_resource n = (n', Inr u)"
  shows "provider_ok c s (Suc p) k n' \<and> nv_library n' = nv_library n"
  using assms by (auto simp: reserve_resource_def provider_ok_def counters_def split: if_splits)

lemma publish_ok:
  assumes "provider_ok c s (Suc p) k n" "nv_library n \<noteq> None" "publish_resource kind n = (n', r)"
  shows "r = Inr () \<and> nv_library n' = nv_library n \<and>
    (case kind of RContext \<Rightarrow> provider_ok (Suc c) s p k n' | RSession \<Rightarrow> provider_ok c (Suc s) p k n')"
  using assms by (cases kind) (auto simp: publish_resource_def provider_ok_def counters_def Let_def)

lemma native_close_ok:
  assumes "provider_ok c s p k n" "native_close n = (n', l, closed_now)"
  shows "section_ok c s p k n (n', Inr l)" "closed_now = of_bool (nv_closed n' \<and> \<not> nv_closed n)"
proof -
  have n: "counters c s p k (n\<lparr>nv_close_requested := True\<rparr>)" using assms(1) by (auto simp: provider_ok_def counters_def)
  show "section_ok c s p k n (n', Inr l)"
  proof (cases "nv_closed n \<or> nv_close_requested n")
    case True
    with assms show ?thesis by (auto simp: native_close_def section_ok_def)
  next
    case False
    with assms(2) have "take_library_to_close (n\<lparr>nv_close_requested := True\<rparr>) = (n', l)"
      by (auto simp: native_close_def split: prod.splits)
    from take_library_ok [OF n this] show ?thesis by (auto simp: section_ok_def)
  qed
  show "closed_now = of_bool (nv_closed n' \<and> \<not> nv_closed n)"
    using assms(2) by (auto simp: native_close_def split: prod.splits if_splits)
qed

section \<open>Counting the threads\<close>

fun freeing_of :: "resource_kind \<Rightarrow> native_pc \<Rightarrow> nat" where
  "freeing_of k (Freeing k') = of_bool (k = k')"
| "freeing_of k (FreeCall k') = of_bool (k = k')"
| "freeing_of k (Freed k') = of_bool (k = k')"
| "freeing_of k (Unloading _ pc) = freeing_of k pc"
| "freeing_of k _ = 0"

fun pending_of :: "native_pc \<Rightarrow> nat" where
  "pending_of (Reserved _) = 1"
| "pending_of (Creating _) = 1"
| "pending_of (Created _ _) = 1"
| "pending_of (Unloading _ pc) = pending_of pc"
| "pending_of _ = 0"

fun calls_of :: "native_pc \<Rightarrow> nat" where
  "calls_of (Creating _) = 1"
| "calls_of Using = 1"
| "calls_of (FreeCall _) = 1"
| "calls_of (Unloading _ pc) = calls_of pc"
| "calls_of _ = 0"

fun libs_of :: "native_pc \<Rightarrow> nat multiset" where
  "libs_of (Probing l _) = {#l#}"
| "libs_of (Unloading l pc) = add_mset l (libs_of pc)"
| "libs_of _ = {#}"

text \<open>A created resource has a handle, which only a loaded library returns.\<close>

fun needs_library :: "native_pc \<Rightarrow> bool" where
  "needs_library (Created _ True) = True"
| "needs_library (Unloading _ pc) = needs_library pc"
| "needs_library _ = False"

definition tally :: "('a \<Rightarrow> 'b::comm_monoid_add) \<Rightarrow> 'a list \<Rightarrow> 'b" where
  "tally f ts = sum_list (map f ts)"

definition others :: "nat \<Rightarrow> 'a list \<Rightarrow> 'a list" where
  "others i ts = take i ts @ drop (Suc i) ts"

lemma others_update [simp]: "others i (ts[i := t]) = others i ts"
  by (simp add: others_def)

lemma set_others: "i < length ts \<Longrightarrow> set ts = insert (ts ! i) (set (others i ts))"
  by (subst id_take_nth_drop) (auto simp: others_def)

lemma tally_split: "i < length ts \<Longrightarrow> tally f ts = f (ts ! i) + tally f (others i ts)"
  by (subst id_take_nth_drop) (simp_all add: tally_def others_def ac_simps)

definition live_objects :: "resource_kind \<Rightarrow> (resource_kind \<times> bool) list \<Rightarrow> nat" where
  "live_objects k objects = tally (\<lambda>x. of_bool (x = (k, False))) objects"

lemma live_append: "live_objects k (objects @ [(k', False)]) = live_objects k objects + of_bool (k' = k)"
  by (simp add: live_objects_def tally_def)

lemma live_mark:
  assumes "a < length objects" "objects ! a = (k, False)"
  shows "live_objects k' objects = live_objects k' (objects[a := (k, True)]) + of_bool (k' = k)"
  using assms tally_split [of a objects "\<lambda>x. of_bool (x = (k', False)) :: nat"]
    tally_split [of a "objects[a := (k, True)]" "\<lambda>x. of_bool (x = (k', False)) :: nat"]
  by (auto simp: live_objects_def)

section \<open>The invariant\<close>

text \<open>The world as one thread at \<open>t\<close> sees it, beside the other threads \<open>rest\<close>.\<close>

definition seen ::
  "native_provider \<Rightarrow> (resource_kind \<times> bool) list \<Rightarrow> nat list \<Rightarrow> nat list \<Rightarrow> native_pc \<Rightarrow> native_pc list \<Rightarrow> bool" where
  "seen n objects opened unloaded t rest \<longleftrightarrow>
     provider_ok (live_objects RContext objects + (freeing_of RContext t + tally (freeing_of RContext) rest))
       (live_objects RSession objects + (freeing_of RSession t + tally (freeing_of RSession) rest))
       (pending_of t + tally pending_of rest) (calls_of t + tally calls_of rest) n \<and>
     mset opened = mset unloaded + bag (nv_library n) + (libs_of t + tally libs_of rest) \<and> distinct opened \<and>
     (nv_library n = None \<longrightarrow> \<not> needs_library t \<and> list_all (\<lambda>t'. \<not> needs_library t') rest) \<and>
     of_bool (activating t) + tally (\<lambda>t. of_bool (activating t)) rest \<le> (1 :: nat) \<and>
     (0 < of_bool (activating t) + tally (\<lambda>t. of_bool (activating t) :: nat) rest \<longrightarrow> nv_library n = None)"

definition native_ok :: "native_world \<Rightarrow> bool" where
  "native_ok w \<longleftrightarrow> \<not> nw_underflow w \<and>
     provider_ok (live_objects RContext (nw_objects w) + tally (freeing_of RContext) (nw_threads w))
       (live_objects RSession (nw_objects w) + tally (freeing_of RSession) (nw_threads w))
       (tally pending_of (nw_threads w)) (tally calls_of (nw_threads w)) (nw_provider w) \<and>
     mset (nw_opened w) = mset (nw_unloaded w) + bag (nv_library (nw_provider w)) + tally libs_of (nw_threads w) \<and>
     distinct (nw_opened w) \<and> (nv_library (nw_provider w) = None \<longrightarrow> list_all (\<lambda>t. \<not> needs_library t) (nw_threads w)) \<and>
     tally (\<lambda>t. of_bool (activating t)) (nw_threads w) \<le> (1 :: nat) \<and>
     (0 < tally (\<lambda>t. of_bool (activating t) :: nat) (nw_threads w) \<longrightarrow> nv_library (nw_provider w) = None)"

lemma native_ok_seen:
  assumes "i < length (nw_threads w)"
  shows "native_ok w \<longleftrightarrow> \<not> nw_underflow w \<and>
    seen (nw_provider w) (nw_objects w) (nw_opened w) (nw_unloaded w) (nw_threads w ! i) (others i (nw_threads w))"
  unfolding native_ok_def seen_def tally_split [OF assms] list_all_iff set_others [OF assms] by auto

lemma native_ok_go:
  assumes "i < length (nw_threads w)"
  shows "native_ok (go i n pc w) \<longleftrightarrow> \<not> nw_underflow w \<and>
    seen n (nw_objects w) (nw_opened w) (nw_unloaded w) pc (others i (nw_threads w))"
  using native_ok_seen [of i "go i n pc w"] assms by (simp add: go_def)

lemma needs_pending: "needs_library t \<Longrightarrow> 0 < pending_of t"
  by (induction t rule: needs_library.induct) simp_all

lemma tally_pos: "t \<in> set ts \<Longrightarrow> 0 < f t \<Longrightarrow> 0 < (tally f ts :: nat)"
  by (auto simp: tally_def sum_list_eq_0_iff intro!: gr0I)

lemma then_unload_simps [simp]:
  "freeing_of k (then_unload l pc) = freeing_of k pc" "pending_of (then_unload l pc) = pending_of pc"
  "calls_of (then_unload l pc) = calls_of pc" "libs_of (then_unload l pc) = bag l + libs_of pc"
  "needs_library (then_unload l pc) = needs_library pc" "activating (then_unload l pc) = activating pc"
  by (simp_all add: then_unload_def split: option.split)

text \<open>A section between two points of a thread that holds no library of its own.\<close>

lemma seen_section:
  assumes old: "seen n objects opened unloaded t rest" and plain: "libs_of t = {#}" "libs_of pc = {#}" "\<not> activating t" "\<not> activating pc"
    and sec: "provider_ok (live_objects RContext objects + (freeing_of RContext pc + tally (freeing_of RContext) rest))
       (live_objects RSession objects + (freeing_of RSession pc + tally (freeing_of RSession) rest))
       (pending_of pc + tally pending_of rest) (calls_of pc + tally calls_of rest) n'"
    "bag (nv_library n') + bag l = bag (nv_library n)" "l \<noteq> None \<longrightarrow> nv_closed n'"
    and need: "needs_library pc \<Longrightarrow> nv_library n \<noteq> None"
  shows "seen n' objects opened unloaded (then_unload l pc) rest"
proof -
  have keep: "nv_library n' \<noteq> None" if t': "t' = pc \<or> t' \<in> set rest" "needs_library t'" for t'
  proof -
    from t' tally_pos [of t' rest pending_of] needs_pending have "0 < pending_of pc + tally pending_of rest" by auto
    with provider_ok_closed [OF sec(1)] have "\<not> nv_closed n'" by auto
    with sec(2,3) have "nv_library n' = nv_library n" by (cases "nv_library n'"; cases "nv_library n"; cases l) auto
    with t' need old show ?thesis by (auto simp: seen_def list_all_iff)
  qed
  have "mset opened = mset unloaded + bag (nv_library n') + (bag l + tally libs_of rest)"
    using old plain sec(2) [symmetric] by (simp add: seen_def ac_simps)
  moreover have "nv_library n' = None" if "0 < tally (\<lambda>t. of_bool (activating t) :: nat) rest"
  proof -
    from that old plain have "nv_library n = None" by (simp add: seen_def)
    with sec(2) show ?thesis by (cases "nv_library n'") auto
  qed
  moreover have "of_bool (activating t) + tally (\<lambda>t. of_bool (activating t)) rest \<le> (1 :: nat)" "distinct opened"
    using old by (simp_all add: seen_def)
  moreover have "nv_library n' = None \<longrightarrow> \<not> needs_library pc \<and> list_all (\<lambda>t'. \<not> needs_library t') rest"
    using keep unfolding list_all_iff by blast
  ultimately show ?thesis using sec(1) plain unfolding seen_def by simp
qed

lemma native_ok_section:
  assumes i: "i < length (nw_threads w)" and ok: "native_ok w"
    and plain: "libs_of (nw_threads w ! i) = {#}" "libs_of pc = {#}" "\<not> activating (nw_threads w ! i)" "\<not> activating pc"
    and sec: "section_ok (live_objects RContext (nw_objects w) + (freeing_of RContext pc + tally (freeing_of RContext) (others i (nw_threads w))))
       (live_objects RSession (nw_objects w) + (freeing_of RSession pc + tally (freeing_of RSession) (others i (nw_threads w))))
       (pending_of pc + tally pending_of (others i (nw_threads w))) (calls_of pc + tally calls_of (others i (nw_threads w)))
       (nw_provider w) r"
    and need: "needs_library pc \<Longrightarrow> nv_library (nw_provider w) \<noteq> None"
  shows "native_ok (after_section i r pc w)"
proof -
  from sec obtain n' l where r: "r = (n', Inr l)" and n': "provider_ok
       (live_objects RContext (nw_objects w) + (freeing_of RContext pc + tally (freeing_of RContext) (others i (nw_threads w))))
       (live_objects RSession (nw_objects w) + (freeing_of RSession pc + tally (freeing_of RSession) (others i (nw_threads w))))
       (pending_of pc + tally pending_of (others i (nw_threads w))) (calls_of pc + tally calls_of (others i (nw_threads w))) n'"
    "bag (nv_library n') + bag l = bag (nv_library (nw_provider w))" "l \<noteq> None \<longrightarrow> nv_closed n'"
    by (auto simp: section_ok_def)
  from ok i have old: "\<not> nw_underflow w"
    "seen (nw_provider w) (nw_objects w) (nw_opened w) (nw_unloaded w) (nw_threads w ! i) (others i (nw_threads w))"
    by (simp_all add: native_ok_seen)
  from seen_section [OF old(2) plain n' need] old(1) show ?thesis
    by (simp add: after_section_def r native_ok_go [OF i])
qed

lemma seen_go:
  assumes i: "i < length (nw_threads w)" and ok: "native_ok w"
    and step: "seen (nw_provider w) (nw_objects w) (nw_opened w) (nw_unloaded w) (nw_threads w ! i) (others i (nw_threads w)) \<Longrightarrow>
      seen n objects opened unloaded pc (others i (nw_threads w))"
  shows "native_ok ((go i n pc w)\<lparr>nw_objects := objects, nw_opened := opened, nw_unloaded := unloaded\<rparr>)"
proof -
  let ?w = "(go i n pc w)\<lparr>nw_objects := objects, nw_opened := opened, nw_unloaded := unloaded\<rparr>"
  have "i < length (nw_threads ?w)" "nw_threads ?w ! i = pc" "others i (nw_threads ?w) = others i (nw_threads w)"
    using i by (simp_all add: go_def)
  with i ok step show ?thesis by (simp add: native_ok_seen go_def)
qed

lemma seen_same:
  assumes i: "i < length (nw_threads w)" and ok: "native_ok w"
    and step: "seen (nw_provider w) (nw_objects w) (nw_opened w) (nw_unloaded w) (nw_threads w ! i) (others i (nw_threads w)) \<Longrightarrow>
      seen n (nw_objects w) (nw_opened w) (nw_unloaded w) pc (others i (nw_threads w))"
  shows "native_ok (go i n pc w)"
  using i ok step by (simp add: native_ok_go native_ok_seen)

lemma publish_library_ok:
  assumes "provider_ok c s p k n" "nv_library n = None" "publish_library l caps ident sha n = (n', published)"
  shows "if published then provider_ok c s p k n' \<and> nv_library n' = Some l else n' = n"
  using assms by (auto simp: publish_library_def provider_ok_def counters_def split: if_splits)

lemma library_loaded: "provider_ok c s p (Suc k) n \<Longrightarrow> nv_library n \<noteq> None"
  by (simp add: provider_ok_def counters_def)

lemma reserve_native_ok:
  assumes "i < length (nw_threads w)" "nw_threads w ! i = AtRest" "native_ok w" "reserve_resource (nw_provider w) = (n, Inr ())"
  shows "native_ok (go i n (Reserved k) w)"
proof (rule seen_same [OF assms(1,3)])
  assume old: "seen (nw_provider w) (nw_objects w) (nw_opened w) (nw_unloaded w) (nw_threads w ! i) (others i (nw_threads w))"
  from reserve_resource_ok [OF old [unfolded seen_def, THEN conjunct1] assms(4)] old assms(2)
  show "seen n (nw_objects w) (nw_opened w) (nw_unloaded w) (Reserved k) (others i (nw_threads w))"
    by (simp add: seen_def)
qed

lemma native_step_ok:
  assumes "native_step w w'" "native_ok w"
  shows "native_ok w'"
  using assms
proof (cases rule: native_step.cases)
  case (activate_begin i)
  then have "tally (\<lambda>t. of_bool (activating t) :: nat) (others i (nw_threads w)) = 0"
    using set_others [of i "nw_threads w"] by (auto simp: tally_def list_all_iff sum_list_eq_0_iff)
  moreover have "nv_library (nw_provider w) = None"
    using activate_begin assms(2) by (auto simp: activation_needed_def native_ok_def provider_ok_def counters_def split: if_splits)
  ultimately show ?thesis
    unfolding activate_begin(1) using activate_begin(2,3) assms(2) by (intro seen_same) (simp_all add: seen_def)
next
  case (activate_refused i)
  then show ?thesis using assms(2) by (auto intro!: seen_same simp: seen_def)
next
  case (activate_open i l hashed sha256)
  have "native_ok ((go i (nw_provider w) (Probing l sha256) w)\<lparr>nw_objects := nw_objects w, nw_opened := l # nw_opened w,
      nw_unloaded := nw_unloaded w\<rparr>)"
    using activate_open(2-4) assms(2) by (intro seen_go) (simp_all add: seen_def)
  then show ?thesis using activate_open(1) by (simp add: go_def)
next
  case (activate_rejected i l sha256)
  then show ?thesis using assms(2) by (auto intro!: seen_same simp: seen_def)
next
  case (activate_publish i l sha256 rt caps ident n published)
  let ?rest = "others i (nw_threads w)"
  from assms(2) activate_publish(2,3) have old: "seen (nw_provider w) (nw_objects w) (nw_opened w) (nw_unloaded w) (Probing l sha256) ?rest"
    by (simp add: native_ok_seen)
  then have "nv_library (nw_provider w) = None" by (simp add: seen_def)
  from publish_library_ok [OF old [unfolded seen_def, THEN conjunct1] this activate_publish(5)] show ?thesis
    unfolding activate_publish(1) using activate_publish(2,3) assms(2) \<open>nv_library (nw_provider w) = None\<close>
    by (intro seen_same) (auto simp: seen_def ac_simps split: if_splits)
next
  case (unload i l pc)
  have "native_ok ((go i (nw_provider w) pc w)\<lparr>nw_objects := nw_objects w, nw_opened := nw_opened w,
      nw_unloaded := l # nw_unloaded w\<rparr>)"
    using unload(2,3) assms(2) by (intro seen_go) (simp_all add: seen_def)
  then show ?thesis using unload(1) by (simp add: go_def)
next
  case (reserve_context i n)
  from reserve_native_ok [OF this(2,3) assms(2) this(4)] show ?thesis using reserve_context(1) by simp
next
  case (reserve_session i a n)
  then have "reserve_resource (nw_provider w) = (n, Inr ())" by (simp add: reserve_connection_def split: if_splits)
  from reserve_native_ok [OF reserve_session(2,3) assms(2) this] show ?thesis using reserve_session(1) by simp
next
  case (create_call i k n r)
  show ?thesis
    unfolding create_call(1)
  proof (rule seen_same [OF create_call(2) assms(2)])
    assume "seen (nw_provider w) (nw_objects w) (nw_opened w) (nw_unloaded w) (nw_threads w ! i) (others i (nw_threads w))"
    with begin_call_ok [OF _ create_call(4)] create_call(3)
    show "seen n (nw_objects w) (nw_opened w) (nw_unloaded w) (case r of Inr _ \<Rightarrow> Creating k | Inl _ \<Rightarrow> Created k False)
        (others i (nw_threads w))"
      by (fastforce simp: seen_def split: sum.splits)
  qed
next
  case (create_return i k ok)
  from assms(2) create_return(2,3) have "provider_ok
       (live_objects RContext (nw_objects w) + tally (freeing_of RContext) (others i (nw_threads w)))
       (live_objects RSession (nw_objects w) + tally (freeing_of RSession) (others i (nw_threads w)))
       (Suc (tally pending_of (others i (nw_threads w)))) (Suc (tally calls_of (others i (nw_threads w)))) (nw_provider w)"
    by (simp add: native_ok_seen seen_def)
  from finish_call_ok [OF this] library_loaded [OF this] show ?thesis
    unfolding create_return(1) using create_return(2,3) assms(2) by (intro native_ok_section) simp_all
next
  case (create_publish i k n)
  let ?rest = "others i (nw_threads w)"
  have "native_ok ((go i n AtRest w)\<lparr>nw_objects := nw_objects w @ [(k, False)], nw_opened := nw_opened w,
      nw_unloaded := nw_unloaded w\<rparr>)"
  proof (rule seen_go [OF create_publish(2) assms(2)])
    assume old: "seen (nw_provider w) (nw_objects w) (nw_opened w) (nw_unloaded w) (nw_threads w ! i) ?rest"
    with create_publish(3) have n: "provider_ok (live_objects RContext (nw_objects w) + tally (freeing_of RContext) ?rest)
       (live_objects RSession (nw_objects w) + tally (freeing_of RSession) ?rest)
       (Suc (tally pending_of ?rest)) (tally calls_of ?rest) (nw_provider w)" "nv_library (nw_provider w) \<noteq> None"
      by (auto simp: seen_def)
    from publish_ok [OF n create_publish(4)] old create_publish(3) n(2)
    show "seen n (nw_objects w @ [(k, False)]) (nw_opened w) (nw_unloaded w) AtRest ?rest"
      by (cases k) (auto simp: seen_def live_append)
  qed
  then show ?thesis using create_publish(1) by (simp add: go_def)
next
  case (create_underflow i k n e)
  let ?rest = "others i (nw_threads w)"
  from assms(2) create_underflow(2,3) have n: "provider_ok (live_objects RContext (nw_objects w) + tally (freeing_of RContext) ?rest)
       (live_objects RSession (nw_objects w) + tally (freeing_of RSession) ?rest)
       (Suc (tally pending_of ?rest)) (tally calls_of ?rest) (nw_provider w)" "nv_library (nw_provider w) \<noteq> None"
    by (auto simp: native_ok_seen seen_def)
  from publish_ok [OF n create_underflow(4)] show ?thesis by simp
next
  case (create_cancel i k)
  from assms(2) create_cancel(2,3) have "provider_ok
       (live_objects RContext (nw_objects w) + tally (freeing_of RContext) (others i (nw_threads w)))
       (live_objects RSession (nw_objects w) + tally (freeing_of RSession) (others i (nw_threads w)))
       (Suc (tally pending_of (others i (nw_threads w)))) (tally calls_of (others i (nw_threads w))) (nw_provider w)"
    by (simp add: native_ok_seen seen_def)
  from cancel_resource_ok [OF this] show ?thesis
    unfolding create_cancel(1) using create_cancel(2,3) assms(2) by (intro native_ok_section) simp_all
next
  case (use_call i n)
  show ?thesis
    unfolding use_call(1)
  proof (rule seen_same [OF use_call(2) assms(2)])
    assume "seen (nw_provider w) (nw_objects w) (nw_opened w) (nw_unloaded w) (nw_threads w ! i) (others i (nw_threads w))"
    with begin_call_ok [OF _ use_call(4)] use_call(3)
    show "seen n (nw_objects w) (nw_opened w) (nw_unloaded w) Using (others i (nw_threads w))"
      by (fastforce simp: seen_def)
  qed
next
  case (use_return i)
  from assms(2) use_return(2,3) have "provider_ok
       (live_objects RContext (nw_objects w) + tally (freeing_of RContext) (others i (nw_threads w)))
       (live_objects RSession (nw_objects w) + tally (freeing_of RSession) (others i (nw_threads w)))
       (tally pending_of (others i (nw_threads w))) (Suc (tally calls_of (others i (nw_threads w)))) (nw_provider w)"
    by (simp add: native_ok_seen seen_def)
  from finish_call_ok [OF this] show ?thesis
    unfolding use_return(1) using use_return(2,3) assms(2) by (intro native_ok_section) simp_all
next
  case (free_mark i a k)
  have "native_ok ((go i (nw_provider w) (Freeing k) w)\<lparr>nw_objects := (nw_objects w)[a := (k, True)],
      nw_opened := nw_opened w, nw_unloaded := nw_unloaded w\<rparr>)"
    using free_mark(3) live_mark [OF free_mark(4,5)]
    by (intro seen_go [OF free_mark(2) assms(2)]) (simp add: seen_def add.assoc)
  then show ?thesis using free_mark(1) by (simp add: go_def)
next
  case (free_call i k n r)
  show ?thesis
    unfolding free_call(1)
  proof (rule seen_same [OF free_call(2) assms(2)])
    assume "seen (nw_provider w) (nw_objects w) (nw_opened w) (nw_unloaded w) (nw_threads w ! i) (others i (nw_threads w))"
    with begin_call_ok [OF _ free_call(4)] free_call(3)
    show "seen n (nw_objects w) (nw_opened w) (nw_unloaded w) (case r of Inr _ \<Rightarrow> FreeCall k | Inl _ \<Rightarrow> Freed k)
        (others i (nw_threads w))"
      by (fastforce simp: seen_def split: sum.splits)
  qed
next
  case (free_return i k)
  from assms(2) free_return(2,3) have "provider_ok
       (live_objects RContext (nw_objects w) + (freeing_of RContext (Freed k) + tally (freeing_of RContext) (others i (nw_threads w))))
       (live_objects RSession (nw_objects w) + (freeing_of RSession (Freed k) + tally (freeing_of RSession) (others i (nw_threads w))))
       (tally pending_of (others i (nw_threads w))) (Suc (tally calls_of (others i (nw_threads w)))) (nw_provider w)"
    by (simp add: native_ok_seen seen_def)
  from finish_call_ok [OF this] show ?thesis
    unfolding free_return(1) using free_return(2,3) assms(2) by (intro native_ok_section) simp_all
next
  case (free_release i k)
  let ?rest = "others i (nw_threads w)"
  from assms(2) free_release(2,3) have "provider_ok
       (live_objects RContext (nw_objects w) + (freeing_of RContext (Freed k) + tally (freeing_of RContext) ?rest))
       (live_objects RSession (nw_objects w) + (freeing_of RSession (Freed k) + tally (freeing_of RSession) ?rest))
       (tally pending_of ?rest) (tally calls_of ?rest) (nw_provider w)"
    by (simp add: native_ok_seen seen_def)
  then have "section_ok (live_objects RContext (nw_objects w) + tally (freeing_of RContext) ?rest)
       (live_objects RSession (nw_objects w) + tally (freeing_of RSession) ?rest)
       (tally pending_of ?rest) (tally calls_of ?rest) (nw_provider w) (release_resource k (nw_provider w))"
    by (cases k) (simp_all add: release_context_ok release_session_ok)
  then show ?thesis
    unfolding free_release(1) using free_release(2,3) assms(2) by (intro native_ok_section) simp_all
next
  case (close_request i n l closed_now)
  let ?rest = "others i (nw_threads w)"
  from assms(2) close_request(2,3) have "provider_ok
       (live_objects RContext (nw_objects w) + tally (freeing_of RContext) ?rest)
       (live_objects RSession (nw_objects w) + tally (freeing_of RSession) ?rest)
       (tally pending_of ?rest) (tally calls_of ?rest) (nw_provider w)"
    by (simp add: native_ok_seen seen_def)
  from native_close_ok(1) [OF this close_request(4)] close_request(2,3) assms(2)
  have "native_ok (after_section i (n, Inr l) AtRest w)"
    by (intro native_ok_section) simp_all
  then show ?thesis using close_request(1) by (simp add: after_section_def)
qed

lemma native_run_ok: "native_step\<^sup>*\<^sup>* w w' \<Longrightarrow> native_ok w \<Longrightarrow> native_ok w'"
  by (induction rule: rtranclp_induct) (auto intro: native_step_ok)

lemma native_new_ok:
  assumes "native_provider_new path sha max_bytes = Inr n"
  shows "native_ok (native_world_new n threads)"
proof -
  have "tally f (replicate threads AtRest) = (\<Sum>i < threads. f AtRest)" for f :: "native_pc \<Rightarrow> nat"
    by (simp add: tally_def sum_list_replicate)
  moreover have "tally libs_of (replicate threads AtRest) = {#}" by (induction threads) (simp_all add: tally_def)
  ultimately show ?thesis
    using assms
    by (auto simp: native_ok_def native_world_new_def native_provider_new_def live_objects_def provider_ok_def counters_def
        tally_def [of _ "[]"] list_all_iff split: if_splits)
qed


section \<open>The contract of the adapter\<close>

definition in_call :: "native_pc \<Rightarrow> bool" where
  "in_call t \<longleftrightarrow> 0 < calls_of t"

lemma distinct_submset: "mset xs \<subseteq># mset ys \<Longrightarrow> distinct ys \<Longrightarrow> distinct xs"
  by (metis distinct_append ex_mset mset_append mset_eq_imp_distinct_iff mset_subset_eq_exists_conv)

lemma native_ok_loaded:
  assumes "native_ok w" "(\<exists>t \<in> set (nw_threads w). in_call t) \<or> (\<exists>k. (k, False) \<in> set (nw_objects w))"
  shows "\<exists>l. nv_library (nw_provider w) = Some l \<and> l \<in> set (nw_opened w) \<and> l \<notin> set (nw_unloaded w)"
proof -
  have "0 < live_objects k (nw_objects w)" if "(k, False) \<in> set (nw_objects w)" for k
    using tally_pos [OF that, of "\<lambda>x. of_bool (x = (k, False))"] by (simp add: live_objects_def)
  then have "0 < live_objects RContext (nw_objects w) + live_objects RSession (nw_objects w)"
    if "(k, False) \<in> set (nw_objects w)" for k
    using that by (cases k) (simp_all add: trans_less_add1 trans_less_add2)
  moreover have "0 < tally calls_of (nw_threads w)" if "t \<in> set (nw_threads w)" "in_call t" for t
    using tally_pos [OF that(1)] that(2) by (simp add: in_call_def)
  ultimately have "0 < live_objects RContext (nw_objects w) + live_objects RSession (nw_objects w) + tally calls_of (nw_threads w)"
    using assms(2) by (meson trans_less_add1 trans_less_add2)
  with assms(1) have "nv_library (nw_provider w) \<noteq> None" by (auto simp: native_ok_def provider_ok_def counters_def)
  then obtain l where l: "nv_library (nw_provider w) = Some l" by blast
  with assms(1) have all: "mset (nw_opened w) = mset (nw_unloaded w) + {#l#} + tally libs_of (nw_threads w)" "distinct (nw_opened w)"
    by (simp_all add: native_ok_def)
  then have eq: "mset (l # nw_unloaded w) \<subseteq># mset (nw_opened w)" by simp
  from distinct_submset [OF eq all(2)] have "l \<notin> set (nw_unloaded w)" by simp
  moreover from set_mset_mono [OF eq] have "l \<in> set (nw_opened w)" by simp
  ultimately show ?thesis using l by blast
qed

lemma native_ok_unloaded:
  assumes "native_ok w"
  shows "distinct (nw_unloaded w)" "set (nw_unloaded w) \<subseteq> set (nw_opened w)"
proof -
  have sub: "mset (nw_unloaded w) \<subseteq># mset (nw_opened w)" and d: "distinct (nw_opened w)"
    using assms by (simp_all add: native_ok_def)
  from sub show "set (nw_unloaded w) \<subseteq> set (nw_opened w)" using set_mset_mono by fastforce
  from sub d show "distinct (nw_unloaded w)" by (rule distinct_submset)
qed

lemma tally_zero: "(\<And>t. t \<in> set ts \<Longrightarrow> f t = 0) \<Longrightarrow> tally f ts = 0"
  by (induction ts) (simp_all add: tally_def)

lemma native_ok_quiescent:
  assumes "native_ok w" "nv_close_requested (nw_provider w)" "set (nw_threads w) \<subseteq> {AtRest}" "\<forall>k. (k, False) \<notin> set (nw_objects w)"
  shows "nv_closed (nw_provider w) \<and> mset (nw_unloaded w) = mset (nw_opened w)"
proof -
  have zero: "tally f (nw_threads w) = 0" if "f AtRest = 0" for f :: "native_pc \<Rightarrow> nat"
    using assms(3) that by (intro tally_zero) auto
  have libs: "tally libs_of (nw_threads w) = {#}" using assms(3) by (intro tally_zero) auto
  have live: "live_objects k (nw_objects w) = 0" for k
    unfolding live_objects_def using assms(4) by (intro tally_zero) auto
  have "provider_ok 0 0 0 0 (nw_provider w)" using assms(1) by (simp add: native_ok_def zero live)
  then have "nv_closed (nw_provider w)" using assms(2) by (simp add: provider_ok_def)
  moreover from this \<open>provider_ok 0 0 0 0 (nw_provider w)\<close> have "nv_library (nw_provider w) = None"
    using provider_ok_closed by blast
  ultimately show ?thesis using assms(1) by (simp add: native_ok_def libs)
qed

text \<open>C0
  Unloading the native TLS library.  Take any number of threads that activate, create, use, free and close one
  adapter in any interleaving of its critical sections, with the library returning what it will.  No
  accounting error is ever raised; while a thread is inside a native call, or a context or session is not
  released, the library is loaded and has not been closed; every library that was opened is closed at most
  once; and once a close was requested, every thread is outside the adapter and every object is released,
  the adapter is closed and every library it ever opened has been closed exactly once.
\<close>

theorem native_library_unloaded_once:
  assumes "native_provider_new path sha256 max_bytes = Inr n" "native_step\<^sup>*\<^sup>* (native_world_new n threads) w"
  shows "\<not> nw_underflow w \<and>
    ((\<exists>t \<in> set (nw_threads w). in_call t) \<or> (\<exists>k. (k, False) \<in> set (nw_objects w)) \<longrightarrow>
       (\<exists>l. nv_library (nw_provider w) = Some l \<and> l \<in> set (nw_opened w) \<and> l \<notin> set (nw_unloaded w))) \<and>
    distinct (nw_unloaded w) \<and> set (nw_unloaded w) \<subseteq> set (nw_opened w) \<and>
    (nv_close_requested (nw_provider w) \<and> set (nw_threads w) \<subseteq> {AtRest} \<and> (\<forall>k. (k, False) \<notin> set (nw_objects w)) \<longrightarrow>
       nv_closed (nw_provider w) \<and> mset (nw_unloaded w) = mset (nw_opened w))"
proof -
  have "native_ok w" using native_run_ok [OF assms(2)] native_new_ok [OF assms(1)] by blast
  from native_ok_loaded [OF this] native_ok_unloaded [OF this] native_ok_quiescent [OF this] this show ?thesis
    by (simp add: native_ok_def [of w])
qed

section \<open>What may be activated\<close>

fun verified_pc :: "pystr \<Rightarrow> native_pc \<Rightarrow> bool" where
  "verified_pc expected (Probing _ sha256) \<longleftrightarrow> sha256 = expected"
| "verified_pc expected (Unloading _ pc) \<longleftrightarrow> verified_pc expected pc"
| "verified_pc expected _ \<longleftrightarrow> True"

definition adapter_verified :: "pystr \<Rightarrow> native_provider \<Rightarrow> bool" where
  "adapter_verified expected n \<longleftrightarrow> nv_expected_sha256 n = expected \<and>
     (nv_activated n \<longrightarrow> nv_verified_sha256 n = expected \<and> (\<forall>i < 8. bit (nv_capabilities n) i) \<and>
        nv_implementation_id n \<noteq> [] \<and> length (nv_implementation_id n) \<le> 64)"

definition world_verified :: "pystr \<Rightarrow> native_world \<Rightarrow> bool" where
  "world_verified expected w \<longleftrightarrow> adapter_verified expected (nw_provider w) \<and> list_all (verified_pc expected) (nw_threads w)"

lemma take_library_verified:
  "adapter_verified e n \<Longrightarrow> adapter_verified e (fst (take_library_to_close n))"
  by (auto simp: take_library_to_close_def adapter_verified_def)

lemma sections_verified:
  assumes "adapter_verified e n"
  shows "adapter_verified e (fst (finish_call n))" "adapter_verified e (fst (begin_call n))"
    "adapter_verified e (fst (reserve_resource n))" "adapter_verified e (fst (reserve_connection b n))"
    "adapter_verified e (fst (publish_resource k n))" "adapter_verified e (fst (cancel_resource n))"
    "adapter_verified e (fst (release_resource k n))" "adapter_verified e (fst (native_close n))"
proof -
  have up: "adapter_verified e (n\<lparr>nv_active_calls := a\<rparr>)" "adapter_verified e (n\<lparr>nv_pending_resources := a\<rparr>)"
    "adapter_verified e (n\<lparr>nv_active_contexts := a\<rparr>)" "adapter_verified e (n\<lparr>nv_active_sessions := a\<rparr>)"
    "adapter_verified e (n\<lparr>nv_close_requested := b\<rparr>)" "adapter_verified e (n\<lparr>nv_pending_resources := a, nv_active_contexts := a'\<rparr>)"
    "adapter_verified e (n\<lparr>nv_pending_resources := a, nv_active_sessions := a'\<rparr>)" for a a' b
    using assms by (simp_all add: adapter_verified_def)
  note up = up assms up [THEN take_library_verified]
  show "adapter_verified e (fst (finish_call n))" by (simp add: finish_call_def with_library_def up)
  show "adapter_verified e (fst (begin_call n))" by (simp add: begin_call_def up)
  show "adapter_verified e (fst (reserve_resource n))" by (simp add: reserve_resource_def up)
  show "adapter_verified e (fst (reserve_connection b n))" by (simp add: reserve_connection_def reserve_resource_def up)
  show "adapter_verified e (fst (publish_resource k n))" by (cases k) (simp_all add: publish_resource_def Let_def up)
  show "adapter_verified e (fst (cancel_resource n))" by (simp add: cancel_resource_def with_library_def up)
  show "adapter_verified e (fst (release_resource k n))" by (cases k) (simp_all add: release_resource_def with_library_def up)
  show "adapter_verified e (fst (native_close n))"
    using up(13) [of True] by (auto simp: native_close_def up(8) split: prod.split)
qed

lemma world_verified_ghost [simp]:
  "world_verified e (w\<lparr>nw_objects := objects\<rparr>) = world_verified e w" "world_verified e (w\<lparr>nw_opened := opened\<rparr>) = world_verified e w"
  "world_verified e (w\<lparr>nw_unloaded := unloaded\<rparr>) = world_verified e w" "world_verified e (w\<lparr>nw_underflow := b\<rparr>) = world_verified e w"
  by (simp_all add: world_verified_def)

lemma world_verified_go:
  assumes "world_verified e w" "adapter_verified e n" "verified_pc e pc"
  shows "world_verified e (go i n pc w)"
  using assms by (auto simp: world_verified_def go_def list_all_iff dest!: set_update_subset_insert [THEN subsetD])

lemma verified_then_unload [simp]: "verified_pc e (then_unload l pc) = verified_pc e pc"
  by (simp add: then_unload_def split: option.split)

lemma world_verified_section:
  assumes "world_verified e w" "adapter_verified e (fst r)" "verified_pc e pc"
  shows "world_verified e (after_section i r pc w)"
  using assms by (cases r; cases "snd r") (auto simp: after_section_def intro!: world_verified_go)

lemma activation_verified:
  assumes "adapter_verified e n" "probe_library rt = Inr (caps, ident)" "publish_library l caps ident e n = (n', published)"
  shows "adapter_verified e n'"
  using assms probe_library_ok [OF assms(2)] required_capabilities_bits
  by (auto simp: publish_library_def adapter_verified_def split: if_splits)

lemma native_step_verified:
  assumes "native_step w w'" "world_verified e w"
  shows "world_verified e w'"
proof -
  have p: "adapter_verified e (nw_provider w)" using assms(2) by (simp add: world_verified_def)
  have t: "verified_pc e (nw_threads w ! i)" if "i < length (nw_threads w)" for i
    using assms(2) that by (simp add: world_verified_def list_all_length)
  note known = assms(2) sections_verified [OF p] p
  show ?thesis
    using assms(1)
  proof (cases rule: native_step.cases)
    case (activate_open i l hashed sha256)
    then have "sha256 = e" using p by (auto simp: check_library_hash_def adapter_verified_def split: sum.splits if_splits)
    then show ?thesis using activate_open known by (auto intro!: world_verified_go)
  next
    case (activate_publish i l sha256 rt caps ident n published)
    then have "sha256 = e" using t [of i] by simp
    with activation_verified [OF p activate_publish(4)] activate_publish known show ?thesis by (auto intro!: world_verified_go)
  next
    case (unload i l pc)
    then show ?thesis using t [of i] known by (auto intro!: world_verified_go)
  next
    case (reserve_session i a n)
    then show ?thesis using sections_verified(4) [OF p, of "snd (nw_objects w ! a)"] assms(2) by (auto intro!: world_verified_go)
  next
    case (create_publish i k n)
    then show ?thesis using sections_verified(5) [OF p, of k] assms(2) by (auto intro!: world_verified_go)
  next
    case (create_underflow i k n)
    then show ?thesis using sections_verified(5) [OF p, of k] assms(2) by (auto intro!: world_verified_go)
  qed (use known in \<open>auto intro!: world_verified_go world_verified_section split: sum.splits\<close>)
qed

lemma native_run_verified: "native_step\<^sup>*\<^sup>* w w' \<Longrightarrow> world_verified e w \<Longrightarrow> world_verified e w'"
  by (induction rule: rtranclp_induct) (auto intro: native_step_verified)

section \<open>A run\<close>

definition sample_native :: native_provider where
  "sample_native = \<lparr>nv_library_path = [47], nv_expected_sha256 = replicate 64 48, nv_verified_sha256 = [],
     nv_library_max_bytes = 1, nv_library = None, nv_entrypoint = False, nv_capabilities = 0,
     nv_implementation_id = cp ''unprobed'', nv_activated = False, nv_active_contexts = 0, nv_active_sessions = 0,
     nv_pending_resources = 0, nv_active_calls = 0, nv_close_requested = False, nv_closed = False\<rparr>"

text \<open>A library that passes the probe, and nothing else.\<close>

definition sample_runtime :: native_runtime where
  "sample_runtime = \<lparr>rt_entrypoint = (\<lambda>operation request.
       (TLS_OK, store_field (store_field (store_field request ReqStatus TLS_OK) ReqFlags 255) ReqOutput0Len 1, [110])),
     rt_storage = replicate 20 0, rt_str_new = (\<lambda>storage n. Some (take (nat n) storage)), rt_byte_len = (\<lambda>s. int (length s)),
     rt_utf8 = (\<lambda>s. 0), rt_output = 0\<rparr>"

lemma sample_probe: "probe_library sample_runtime = Inr (255, [110])"
proof -
  have n: "length (native_request (replicate 20 0) PCC_TLS_OP_PROBE) = 20" by (rule native_request_fields) simp
  have "PCC_TLS_REQUIRED_CAPABILITIES = 255" by (simp add: PCC_TLS_REQUIRED_CAPABILITIES_def)
  with n show ?thesis
    by (simp add: probe_library_def invoke_entrypoint_def sample_runtime_def output_request_def load_store native_read_text_def
        tls_codes Let_def del: request_offset.simps)
qed

text \<open>One thread activates, another is inside a call when the first closes the adapter.\<close>

definition sample_closing :: "bool \<Rightarrow> native_pc list \<Rightarrow> nat list \<Rightarrow> native_world" where
  "sample_closing busy ts unloaded = \<lparr>nw_provider = sample_native\<lparr>nv_library := (if busy then Some 7 else None), nv_entrypoint := busy,
     nv_activated := busy, nv_active_calls := of_bool busy, nv_close_requested := True, nv_closed := \<not> busy,
     nv_capabilities := 255, nv_implementation_id := [110], nv_verified_sha256 := replicate 64 48\<rparr>, nw_objects = [],
     nw_threads = ts, nw_opened = [7], nw_unloaded = unloaded, nw_underflow = False\<rparr>"

lemma sample_hash: "check_library_hash (replicate 64 48) (Inr (replicate 64 48)) = Inr (replicate 64 48)"
  by (simp add: check_library_hash_def valid_sha256_hex_def list_all_iff cp_def)

lemma sample_busy: "native_step\<^sup>*\<^sup>* (native_world_new sample_native 2) (sample_closing True [AtRest, Using] [])"
proof -
  let ?w0 = "native_world_new sample_native 2"
  let ?w1 = "?w0\<lparr>nw_threads := [Hashing, AtRest]\<rparr>"
  let ?w2 = "?w0\<lparr>nw_threads := [Probing 7 (replicate 64 48), AtRest], nw_opened := [7]\<rparr>"
  let ?n = "sample_native\<lparr>nv_library := Some 7, nv_entrypoint := True, nv_activated := True, nv_capabilities := 255,
    nv_implementation_id := [110], nv_verified_sha256 := replicate 64 48\<rparr>"
  let ?w3 = "?w0\<lparr>nw_provider := ?n, nw_threads := [AtRest, AtRest], nw_opened := [7]\<rparr>"
  let ?w4 = "?w3\<lparr>nw_provider := ?n\<lparr>nv_active_calls := 1\<rparr>, nw_threads := [AtRest, Using]\<rparr>"
  note run = go_def native_world_new_def sample_native_def numeral_2_eq_2
  have "native_step ?w0 ?w1"
    using activate_begin [of 0 ?w0] by (simp add: run activation_needed_def)
  moreover have "native_step ?w1 ?w2"
    using activate_open [of 0 ?w1 7 "Inr (replicate 64 48)" "replicate 64 48"] sample_hash by (simp add: run)
  moreover have "native_step ?w2 ?w3"
    using activate_publish [of 0 ?w2 7 "replicate 64 48" sample_runtime 255 "[110]" ?n True] sample_probe
    by (simp add: run publish_library_def)
  moreover have "native_step ?w3 ?w4"
    using use_call [of 1 ?w3 "?n\<lparr>nv_active_calls := 1\<rparr>"] by (simp add: run begin_call_def)
  moreover have "native_step ?w4 (sample_closing True [AtRest, Using] [])"
    using close_request [of 0 ?w4]
    by (simp add: run native_close_def take_library_to_close_def then_unload_def sample_closing_def)
  ultimately show ?thesis by (meson converse_rtranclp_into_rtranclp rtranclp.rtrancl_refl)
qed

lemma sample_quiet: "native_step\<^sup>*\<^sup>* (native_world_new sample_native 2) (sample_closing False [AtRest, AtRest] [7])"
proof -
  note run = go_def sample_closing_def sample_native_def
  have "native_step (sample_closing True [AtRest, Using] []) (sample_closing False [AtRest, Unloading 7 AtRest] [])"
    using use_return [of 1 "sample_closing True [AtRest, Using] []"]
    by (simp add: run after_section_def finish_call_def with_library_def take_library_to_close_def then_unload_def)
  moreover have "native_step (sample_closing False [AtRest, Unloading 7 AtRest] []) (sample_closing False [AtRest, AtRest] [7])"
    using unload [of 1 "sample_closing False [AtRest, Unloading 7 AtRest] []" 7 AtRest] by (simp add: run)
  ultimately show ?thesis using sample_busy by (meson rtranclp.rtrancl_into_rtrancl)
qed

lemma sample_native_new: "native_provider_new [47] (replicate 64 48) 1 = Inr sample_native"
  by (simp add: native_provider_new_def sample_native_def valid_sha256_hex_def cp_def list_all_iff)

theorem native_library_unloaded_once_witness:
  "native_provider_new [47] (replicate 64 48) 1 = Inr sample_native \<and>
   native_step\<^sup>*\<^sup>* (native_world_new sample_native 2) (sample_closing True [AtRest, Using] []) \<and>
   7 \<notin> set (nw_unloaded (sample_closing True [AtRest, Using] [])) \<and>
   native_step\<^sup>*\<^sup>* (native_world_new sample_native 2) (sample_closing False [AtRest, AtRest] [7]) \<and>
   nv_closed (nw_provider (sample_closing False [AtRest, AtRest] [7])) \<and>
   mset (nw_unloaded (sample_closing False [AtRest, AtRest] [7])) = mset (nw_opened (sample_closing False [AtRest, AtRest] [7]))"
proof -
  have "nv_close_requested (nw_provider (sample_closing b ts u))" "nw_objects (sample_closing b ts u) = []"
    "nw_threads (sample_closing b ts u) = ts" "nw_opened (sample_closing b ts u) = [7]" for b ts u
    by (simp_all add: sample_closing_def)
  then show ?thesis
    using native_library_unloaded_once [OF sample_native_new sample_busy] native_library_unloaded_once [OF sample_native_new sample_quiet]
      sample_native_new sample_busy sample_quiet by (simp add: in_call_def)
qed

text \<open>C0
  What may be activated.  Over the same threads and interleavings, an activated adapter has loaded a library
  whose file hashed to exactly the SHA-256 the operator configured, that answered the probe with every
  required capability and with a name of at most 64 characters; no thread ever opens a library whose hash
  differs.
\<close>

theorem native_library_verified:
  assumes "native_provider_new path sha256 max_bytes = Inr n" "native_step\<^sup>*\<^sup>* (native_world_new n threads) w"
  shows "(nv_activated (nw_provider w) \<longrightarrow> nv_verified_sha256 (nw_provider w) = sha256 \<and>
      (\<forall>i < 8. bit (nv_capabilities (nw_provider w)) i) \<and> nv_implementation_id (nw_provider w) \<noteq> [] \<and>
      length (nv_implementation_id (nw_provider w)) \<le> 64) \<and>
    (\<forall>t \<in> set (nw_threads w). \<forall>l hash. t = Probing l hash \<longrightarrow> hash = sha256)"
proof -
  have "world_verified sha256 (native_world_new n threads)"
    using assms(1) by (auto simp: world_verified_def native_world_new_def native_provider_new_def adapter_verified_def list_all_iff
        split: if_splits)
  from native_run_verified [OF assms(2) this] show ?thesis
    by (auto simp: world_verified_def adapter_verified_def list_all_iff)
qed

theorem native_library_verified_witness:
  "native_provider_new [47] (replicate 64 48) 1 = Inr sample_native \<and>
   native_step\<^sup>*\<^sup>* (native_world_new sample_native 2) (sample_closing True [AtRest, Using] []) \<and>
   nv_activated (nw_provider (sample_closing True [AtRest, Using] [])) \<and>
   nv_verified_sha256 (nw_provider (sample_closing True [AtRest, Using] [])) = replicate 64 48"
proof -
  have "nv_activated (nw_provider (sample_closing True [AtRest, Using] []))" by (simp add: sample_closing_def)
  with native_library_verified [OF sample_native_new sample_busy] sample_native_new sample_busy show ?thesis by blast
qed

end
