(* ===== verification/Spec2Isabelle.thy ===== *)
theory Spec2Isabelle
  imports Channel_Props Http1_Fragments Http1_Heads Http1_Bodies Routing_Props Body_Props Query_Props Generations Dns_Driver Dns_Policy Dns_Cache Upstream_Codec Proxy_Flow Pool_Props
    Config Pipeline Control Structured App_Props Conn_Props Tls_Props Tls_Unload
begin

text \<open>
  Verification of the gateway \<open>pcc_gateway\<close>: a reverse proxy and web server in Python, compiled for a
  runtime with virtual threads.  The sources are under \<open>src/pcc_gateway\<close>; all paths below are relative
  to it.

  \<^bold>\<open>The program.\<close>  A listener accepts connections; each is a \<open>GatewayConnection\<close> (\<open>server.py\<close>) owned by
  one virtual thread.  It feeds the bytes it reads to the HTTP/1 codec (\<open>http1.py\<close>), builds requests
  with a bounded body stream (\<open>models.py\<close>), asks the lifecycle (\<open>lifecycle.py\<close>) for admission, and
  dispatches to the application (\<open>web/app.py\<close>), which routes (\<open>routing.py\<close>) to a handler or to a proxy
  plan (\<open>proxy.py\<close>).  A proxied request runs as an exchange over a pooled upstream connection
  (\<open>proxy_http1.py\<close>) whose address comes from the resolver (\<open>dns.py\<close>).  Output goes through reference
  counted channel buffers (\<open>buffer.py\<close>) and channel stages (\<open>channel.py\<close>).  Configuration
  (\<open>config.py\<close>) is published in generations; task scopes (\<open>structured.py\<close>) join threads; \<open>control.py\<close>
  owns the process signals.  A TLS listener (\<open>tls.py\<close>) has a manager of certificate generations, which
  connections hold through channels; the cryptography is behind a provider interface, whose
  production adapter loads a native library.

  \<^bold>\<open>The library.\<close>
  \<^item> \<open>Prelude\<close>: Python's \<open>bytes\<close> and \<open>str\<close> as lists of code points, the exceptions \<open>exn\<close>, the result
    type (\<open>Inl\<close> an exception), string functions.  \<open>Sequencing\<close>: programs on a state that may raise, and
    a calculus of triples whose second postcondition holds on a raise; \<open>Stream_Decoder\<close>: the contract
    of an incremental decoder.
  \<^item> \<open>Buffer\<close> (\<open>buffer.py\<close>): segments and views in an explicit heap, because views alias segments.
    \<open>Channel_Fifo\<close>, \<open>Channel_Props\<close>: the channel as a bounded byte queue, storage freed at the last
    reference.
  \<^item> \<open>Http1\<close> (\<open>http1.py\<close>): the codec and the response encoder.  \<open>Http1_Fragments\<close>: fragmentation does
    not show; \<open>Http1_Heads\<close>: what an accepted head guarantees; \<open>Http1_Bodies\<close>: message grammar, bounds,
    chunked round trip, no response splitting.
  \<^item> \<open>Routing\<close>, \<open>Routing_Props\<close> (\<open>routing.py\<close>): normalisation, patterns, the table, first fit.
  \<^item> \<open>Models\<close> (\<open>models.py\<close>), \<open>Body_Stream\<close>, \<open>Body_Props\<close>, \<open>Query_Props\<close>: requests, responses, queries,
    the body stream as a queue; \<open>Body_Threads\<close>: reader, producer and canceller as a step relation.
  \<^item> \<open>Lifecycle\<close> (\<open>lifecycle.py\<close>): generations, metrics, admission, drain; \<open>Admission\<close>: the limits over any
    calls; \<open>Generations\<close>: reference counts under every interleaving of critical sections.
  \<^item> \<open>Dns\<close>, \<open>Dns_Store\<close>, \<open>Dns_Resolve\<close> (\<open>dns.py\<close>): wire codec and addresses, policy, cache and hosts,
    operations and driver; \<open>Dns_Codec\<close>, \<open>Dns_Policy\<close>, \<open>Dns_Cache\<close>, \<open>Dns_Driver\<close>: their properties.
  \<^item> \<open>Proxy\<close>, \<open>Proxy_Leases\<close> (\<open>proxy.py\<close>): header policy, endpoints, groups, retry rules;
    \<open>Proxy_Request\<close>, \<open>Upstream\<close>, \<open>Upstream_Codec\<close>, \<open>Proxy_Exchange\<close>, \<open>Proxy_Accounting\<close>, \<open>Proxy_Flow\<close>,
    \<open>Proxy_Pool\<close>, \<open>Pool_Props\<close> (\<open>proxy_http1.py\<close>): request head, response codec, exchange, pool.
  \<^item> \<open>Config\<close> (\<open>config.py\<close>), \<open>Pipeline\<close> (\<open>channel.py\<close>), \<open>Control\<close> (\<open>control.py\<close>), \<open>Structured\<close>
    (\<open>structured.py\<close>), \<open>Web_App\<close> and \<open>App_Props\<close> (\<open>web/app.py\<close>).
  \<^item> \<open>Connection\<close>, \<open>Connection_Events\<close> (\<open>GatewayConnection\<close> of \<open>server.py\<close>): every operation but the run
    loop.  The state \<open>cstate\<close> holds the connection record, its heap, the shared lifecycle, the request
    objects by address and the number of retained views; application, hooks, clock, transport, TLS
    channel, threads and iterators are the fields of \<open>conn_env\<close>, functions on a world that may raise.
    \<open>Conn_Ledger\<close>, \<open>Conn_Settle\<close>, \<open>Conn_Requests\<close>, \<open>Conn_Loop\<close>, \<open>Conn_Close\<close>, \<open>Conn_Session\<close>: the ledger
    of what a connection holds, through every operation; \<open>Conn_Bodies\<close>: its request objects;
    \<open>Conn_Props\<close>: the properties of whole sessions.
  \<^item> \<open>Tls_Config\<close> (\<open>tls.py\<close>, configuration and certificate selection), \<open>Tls_Provider\<close> (the provider as a
    parameter whose calls may raise, the registry), \<open>Tls_Channel\<close> (\<open>TlsGeneration\<close>, \<open>TlsChannel\<close>),
    \<open>Tls_Manager\<close> (\<open>TlsGenerationManager\<close> and any sequence of calls).  \<open>Tls_Session\<close>: the answers of a
    channel and the order of its calls; \<open>Tls_Ledger\<close>: contexts, sessions, references and leases;
    \<open>Tls_Props\<close>: the contracts.
  \<^item> \<open>Tls_Request\<close> and \<open>Tls_Native\<close> (\<open>PccNativeTlsProvider\<close>): the request blocks of the native interface, and
    the adapter as threads that interleave at its critical sections.  \<open>Tls_Unload\<close>: when the library
    is unloaded and what may be activated.

  \<^bold>\<open>Interfaces.\<close>  \<open>byte_fifo\<close> (a bounded byte queue), interpreted on channels and on polling body
  streams; \<open>stream_decoder\<close> and \<open>exact_stream_decoder\<close> (an incremental decoder), interpreted on the
  upstream codec and on the server codec; \<open>admission\<close> (a bounded counter), interpreted five times on
  the lifecycle; \<open>bounded_cache\<close> (a bounded expiring cache), on the DNS cache; \<open>duplex\<close> (two
  directions that undo each other), on channel pipelines; \<open>process_signals\<close> (the native signal
  interface), on its host model.

  \<^bold>\<open>What is shown.\<close>  Safety of parsing (unambiguous framing, no splitting, bounded buffering,
  fragmentation independence), round trips of the encoders, first-fit routing, conservation of bytes
  through buffers, body streams and exchanges, no lost wake-up, reference counting of generations,
  admission limits, DNS cache and rebinding policy, bounded resolution, retry safety, ownership of
  pooled connections, leases and signals, task scopes as barriers, the order of middleware, and the
  ledger of a connection: whatever the code it calls raises, its admissions, queue slots, views and
  buffered bytes are accounted exactly, and join and close give all of them back.  For TLS: selection
  by name is two lookups, channels keep their result contract and call order whatever the provider
  does, every context and session is freed exactly once, and the native library is verified before it
  is used and unloaded once, after its last user.

  \<^bold>\<open>Bounds and fuel.\<close>  Loops are structural recursions or have a termination measure; no definition
  uses fuel.  Where the outside decides how long a loop runs, the theorems quantify over the list of
  its observations or operations.  Python integers are \<open>int\<close>: the sources never rely on wrap-around.

  \<^bold>\<open>Assumptions.\<close>  Hooks do not call back into the connection.  The application leaves no foreign views
  in a request body (\<open>plain_app\<close>).  Locks are the atomicity of the steps of the concurrent models.
  The calls of a TLS provider do not re-enter the registry, and each operation on TLS objects is one
  step; only the native adapter is interleaved at its own sections.

  \<^bold>\<open>Not modelled.\<close>  Of \<open>server.py\<close> the connection run loop, the live proxy driver, the socket transport
  and \<open>GatewayServer\<close>, which compose the modelled parts with the scheduler; \<open>dns_native.py\<close> (an adapter
  to the native resolver interface); \<open>__init__.py\<close> (re-exports); the native provider in C, benchmarks
  and examples.
\<close>

end
